(* ===== verification/KPrelude.thy ===== *)
theory KPrelude
  imports Main "HOL-Library.Product_Lexorder" "HOL-Library.List_Lexorder" "HOL-Library.Sublist"
begin

text \<open>
  The shared prelude.  It fixes how Python values are represented (texts as lists of code
  points, JSON values, instants and durations), how a table of rows is read and updated, and how an
  exception is a value of a sum type.
\<close>

section \<open>Python texts\<close>

text \<open>
  A Python \<open>str\<close> is a sequence of code points; ASCII literals of the source are
  written \<open>lit ''...''\<close>.  Slicing \<open>s[:n]\<close> is \<open>take n s\<close>.
\<close>

type_synonym pystr = "nat list"

definition lit :: "string \<Rightarrow> pystr" where
  "lit s = map of_char s"

lemma lit_eq [simp]: "lit a = lit b \<longleftrightarrow> a = b"
  by (simp add: lit_def inj_map_eq_map inj_def)

lemma lit_Nil [simp]: "lit [] = []"
  by (simp add: lit_def)

lemma lit_eq_Nil [simp]: "lit a = [] \<longleftrightarrow> a = []" "[] = lit a \<longleftrightarrow> a = []"
  by (simp_all add: lit_def)

lemma length_lit [simp]: "length (lit s) = length s"
  by (simp add: lit_def)

lemma take_lit [simp]: "take n (lit s) = lit (take n s)"
  by (simp add: lit_def take_map)

text \<open>The code points that \<open>str.strip\<close> and \<open>str.split\<close> treat as white space.\<close>

definition py_space :: "nat \<Rightarrow> bool" where
  "py_space c \<longleftrightarrow>
     (9 \<le> c \<and> c \<le> 13) \<or> (28 \<le> c \<and> c \<le> 32) \<or> c = 133 \<or> c = 160 \<or> c = 5760 \<or>
     (8192 \<le> c \<and> c \<le> 8202) \<or> c = 8232 \<or> c = 8233 \<or> c = 8239 \<or> c = 8287 \<or> c = 12288"

definition strip :: "pystr \<Rightarrow> pystr" where
  "strip s = rev (dropWhile py_space (rev (dropWhile py_space s)))"

lemma strip_Nil [simp]: "strip [] = []"
  by (simp add: strip_def)

lemma strip_blank: "strip s = [] \<longleftrightarrow> (\<forall>c \<in> set s. py_space c)"
proof -
  have "strip s = [] \<longleftrightarrow> (\<forall>c \<in> set (dropWhile py_space s). py_space c)"
    by (simp add: strip_def dropWhile_eq_Nil_conv)
  also have "\<dots> \<longleftrightarrow> dropWhile py_space s = []"
    by (metis dropWhile_eq_Nil_conv hd_dropWhile list.set_sel(1) empty_iff list.set(1))
  finally show ?thesis by (simp add: dropWhile_eq_Nil_conv)
qed

text \<open>\<open>x or y\<close> on texts: the empty text is false.\<close>

definition or_else :: "pystr \<Rightarrow> pystr \<Rightarrow> pystr" where
  "or_else a b = (if a = [] then b else a)"

definition opt_or :: "'a option \<Rightarrow> 'a \<Rightarrow> 'a option" where
  "opt_or a b = (case a of None \<Rightarrow> Some b | Some x \<Rightarrow> Some x)"

lemma opt_or_simps [simp]: "opt_or None b = Some b" "opt_or (Some x) b = Some x"
  by (simp_all add: opt_or_def)

text \<open>\<open>sep.join (xs)\<close>, and the text of a list of texts that hold no quote, backslash or control character.\<close>

fun py_join :: "pystr \<Rightarrow> pystr list \<Rightarrow> pystr" where
  "py_join sep [] = []"
| "py_join sep [x] = x"
| "py_join sep (x # y # xs) = x @ sep @ py_join sep (y # xs)"

definition list_text :: "pystr list \<Rightarrow> pystr" where
  "list_text xs = lit ''['' @ py_join (lit '', '') (map (\<lambda>x. [39] @ x @ [39]) xs) @ lit '']''"

section \<open>JSON values\<close>

datatype json =
    JNull
  | JBool bool
  | JInt int
  | JStr pystr
  | JArr "json list"
  | JObj "(pystr \<times> json) list"

type_synonym pydict = "(pystr \<times> json) list"

text \<open>\<open>d[k] = v\<close> keeps the position of an existing key and appends a new one.\<close>

fun dict_set :: "pystr \<Rightarrow> json \<Rightarrow> pydict \<Rightarrow> pydict" where
  "dict_set k v [] = [(k, v)]"
| "dict_set k v ((k', v') # d) = (if k' = k then (k, v) # d else (k', v') # dict_set k v d)"

definition dict_update :: "pydict \<Rightarrow> pydict \<Rightarrow> pydict" where
  "dict_update d e = foldl (\<lambda>acc (k, v). dict_set k v acc) d e"

lemma map_of_dict_set: "map_of (dict_set k v d) = (map_of d)(k \<mapsto> v)"
  by (induction k v d rule: dict_set.induct) auto

lemma map_of_dict_update: "map_of (dict_update d e) k = (case map_of (rev e) k of None \<Rightarrow> map_of d k | Some v \<Rightarrow> Some v)"
proof (induction e arbitrary: d)
  case (Cons p e)
  obtain x v where p: "p = (x, v)" by fastforce
  have "dict_update d (p # e) = dict_update (dict_set x v d) e" by (simp add: dict_update_def p)
  then show ?case using Cons [of "dict_set x v d"] by (auto simp: p map_of_dict_set map_add_def split: option.splits)
qed (simp add: dict_update_def)

section \<open>Time\<close>

text \<open>
  An aware \<open>datetime\<close> is its instant, counted in microseconds since the epoch, which is
  the resolution of Python's \<open>datetime\<close>.  An operation that reads \<open>utc_now()\<close> more than
  once takes a \<open>clock\<close>; \<open>clk i\<close> is the value of the i-th reading.
\<close>

type_synonym instant = int
type_synonym clock = "nat \<Rightarrow> instant"

definition seconds :: "int \<Rightarrow> int" where
  "seconds n = n * 1000000"

lemma seconds_mono [simp]: "seconds a \<le> seconds b \<longleftrightarrow> a \<le> b" "seconds a < seconds b \<longleftrightarrow> a < b"
  by (simp_all add: seconds_def)

lemma seconds_pos [simp]: "0 < seconds a \<longleftrightarrow> 0 < a"
  by (simp add: seconds_def)

section \<open>Exceptions as values\<close>

datatype py_error =
    StoreConflictError pystr
  | StoreNotFoundError pystr
  | StoreStateError pystr
  | ValueError pystr
  | RuntimeError pystr
  | KeyError pystr
  | AttributeError pystr
  | OverflowError pystr
  | IntegrityError
  | TypeError pystr
  | DataError

type_synonym 'a res = "py_error + 'a"

lemma res_cases: "(\<And>e. r = Inl e \<Longrightarrow> P) \<Longrightarrow> (\<And>x. r = Inr x \<Longrightarrow> P) \<Longrightarrow> P"
  by (cases r) auto

section \<open>Intervals\<close>

lemma filter_less_upt: "filter (\<lambda>k. a < k) [1..<Suc n] = [a + 1..<Suc n]"
proof (induction n)
  case (Suc n)
  show ?case
  proof (cases "a < Suc n")
    case True
    then show ?thesis using Suc by simp
  next
    case False
    then show ?thesis using Suc by simp
  qed
qed simp

lemma sorted_wrt_upt_le: "sorted_wrt (\<lambda>x y. int x \<le> int y) [i..<j]"
  by (induction j) (auto simp: sorted_wrt_append)

lemma take_upt_min: "take k [a + 1..<Suc n] = [a + 1..<min n (a + k) + 1]"
proof (cases "a + k \<le> n")
  case True
  then show ?thesis using take_upt [of "a + 1" k "Suc n"] by (simp add: min_def del: upt_Suc)
next
  case False
  then have "length [a + 1..<Suc n] \<le> k" by (simp only: length_upt)
  then show ?thesis using False by (simp add: min_def del: upt_Suc)
qed

section \<open>Tables\<close>

named_theorems table_simps "reading and updating rows of a table"

text \<open>
  \<open>SELECT ... WHERE key = k\<close>; the flush of a changed row object, which replaces the stored row
  with the same key; and \<open>SELECT ... WHERE p ORDER BY ord LIMIT 1\<close>.
\<close>

definition row_by :: "('r \<Rightarrow> 'k) \<Rightarrow> 'k \<Rightarrow> 'r list \<Rightarrow> 'r option" where
  "row_by key k t = find (\<lambda>r. key r = k) t"

definition put_row :: "('r \<Rightarrow> 'k) \<Rightarrow> 'r \<Rightarrow> 'r list \<Rightarrow> 'r list" where
  "put_row key r t = map (\<lambda>x. if key x = key r then r else x) t"

definition first_row :: "('r \<Rightarrow> 'o::linorder) \<Rightarrow> ('r \<Rightarrow> bool) \<Rightarrow> 'r list \<Rightarrow> 'r option" where
  "first_row ord p t = (case sort_key ord (filter p t) of [] \<Rightarrow> None | r # _ \<Rightarrow> Some r)"

lemma row_by_Nil [simp]: "row_by key k [] = None"
  by (simp add: row_by_def)

lemma row_by_Cons [simp]:
  "row_by key k (r # t) = (if key r = k then Some r else row_by key k t)"
  by (simp add: row_by_def)

lemma row_by_append [table_simps]:
  "row_by key k (t @ u) = (case row_by key k t of None \<Rightarrow> row_by key k u | Some r \<Rightarrow> Some r)"
  by (induction t) auto

lemma row_by_SomeD: "row_by key k t = Some r \<Longrightarrow> r \<in> set t \<and> key r = k"
  by (induction t) (auto split: if_splits)

lemma row_by_None: "row_by key k t = None \<longleftrightarrow> k \<notin> key ` set t"
  by (induction t) auto

lemma row_by_unique:
  "distinct (map key t) \<Longrightarrow> r \<in> set t \<Longrightarrow> row_by key (key r) t = Some r"
  by (induction t) (auto simp: rev_image_eqI)

lemma put_row_Nil [simp]: "put_row key r [] = []"
  by (simp add: put_row_def)

lemma put_row_Cons [simp]:
  "put_row key r (x # t) = (if key x = key r then r else x) # put_row key r t"
  by (simp add: put_row_def)

lemma put_row_keys [simp]: "map key (put_row key r t) = map key t"
  by (induction t) auto

lemma put_row_key_set [simp]: "key ` set (put_row key r t) = key ` set t"
  by (metis list.set_map put_row_keys)

lemma put_rowE:
  assumes "x \<in> set (put_row key r t)"
  obtains "x = r" | "x \<in> set t" "key x \<noteq> key r"
  using assms by (auto simp: put_row_def split: if_splits)

lemma put_row_mem: "key r \<in> key ` set t \<Longrightarrow> r \<in> set (put_row key r t)"
  by (auto simp: put_row_def)

lemma put_row_other: "x \<in> set t \<Longrightarrow> key x \<noteq> key r \<Longrightarrow> x \<in> set (put_row key r t)"
  by (auto simp: put_row_def)

lemma row_by_put_row [table_simps]:
  "row_by key j (put_row key r t) =
     (if j = key r then map_option (\<lambda>_. r) (row_by key j t) else row_by key j t)"
  by (induction t) auto

lemma map_put_row:
  "(\<And>x. x \<in> set t \<Longrightarrow> key x = key r \<Longrightarrow> g x = g r) \<Longrightarrow> map g (put_row key r t) = map g t"
  by (induction t) auto

lemma row_by_uniqueD:
  "distinct (map key t) \<Longrightarrow> row_by key k t = Some r \<Longrightarrow> x \<in> set t \<Longrightarrow> key x = k \<Longrightarrow> x = r"
  using row_by_unique by fastforce

lemma find_put_row:
  assumes "key r \<in> key ` set t" "P r" "\<And>x. P x \<Longrightarrow> key x = key r"
  shows "find P (put_row key r t) = Some r"
  using assms(1)
proof (induction t)
  case (Cons x t)
  show ?case
  proof (cases "key x = key r")
    case True
    then show ?thesis using assms(2) by simp
  next
    case False
    then have "\<not> P x" using assms(3) by blast
    moreover have "key r \<in> key ` set t" using Cons.prems False by auto
    ultimately show ?thesis using Cons.IH False by simp
  qed
qed simp

lemma first_row_SomeD:
  assumes "first_row ord p t = Some r"
  shows "r \<in> set t" "p r" "\<And>x. x \<in> set t \<Longrightarrow> p x \<Longrightarrow> ord r \<le> ord x"
proof -
  obtain rest where s: "sort_key ord (filter p t) = r # rest"
    using assms by (auto simp: first_row_def split: list.splits)
  have mem: "set (r # rest) = set (filter p t)"
    using s by (metis set_sort)
  then show "r \<in> set t" "p r" by auto
  have "sorted (map ord (r # rest))"
    using s by (metis sorted_sort_key)
  moreover fix x assume "x \<in> set t" "p x"
  then have "x \<in> set (r # rest)" using mem by auto
  ultimately show "ord r \<le> ord x" by auto
qed

lemma first_row_None: "first_row ord p t = None \<longleftrightarrow> (\<forall>r \<in> set t. \<not> p r)"
proof -
  have "first_row ord p t = None \<longleftrightarrow> sort_key ord (filter p t) = []"
    by (simp add: first_row_def split: list.splits)
  also have "\<dots> \<longleftrightarrow> filter p t = []"
    by (metis set_empty set_sort)
  finally show ?thesis by (simp add: filter_empty_conv)
qed

lemma first_row_cong:
  "(\<And>r. r \<in> set t \<Longrightarrow> p r = q r) \<Longrightarrow> first_row ord p t = first_row ord q t"
  by (simp add: first_row_def cong: filter_cong)

end
