(* ===== verification/KContracts.thy ===== *)
theory KContracts
  imports KPrelude
begin

text \<open>
  The two contracts several components share, each with the facts a client of it may use.
  \<open>leased_table\<close> is what every durable work table of the store promises about ownership;
  \<open>status_machine\<close> is what every compare-and-set status column promises about its
  transitions.  Each component interprets them on its own operations.
\<close>

section \<open>Leased work items\<close>

text \<open>
  \<open>owner s i\<close> is the worker that holds item \<open>i\<close>.  \<open>claim now w s i s'\<close> is a claim of
  \<open>i\<close> by \<open>w\<close> at time \<open>now\<close>; \<open>finish w s i s'\<close> is the terminal report of \<open>w\<close> on \<open>i\<close>;
  \<open>other s s'\<close> is every other operation of the table (heartbeat, recovery, cancellation,
  insertion), which may take a lease away but never gives one.
\<close>

datatype ('i, 'w) lease_event = Claimed 'i 'w | Finished 'i 'w | Internal

fun about_item :: "'i \<Rightarrow> ('i, 'w) lease_event \<Rightarrow> bool" where
  "about_item i (Claimed j w) = (j = i)"
| "about_item i (Finished j w) = (j = i)"
| "about_item i Internal = False"

fun is_claim :: "'i \<Rightarrow> ('i, 'w) lease_event \<Rightarrow> bool" where
  "is_claim i (Claimed j w) = (j = i)"
| "is_claim i e = False"

fun is_finish :: "'i \<Rightarrow> ('i, 'w) lease_event \<Rightarrow> bool" where
  "is_finish i (Finished j w) = (j = i)"
| "is_finish i e = False"

locale leased_table =
  fixes owner :: "'s \<Rightarrow> 'i \<Rightarrow> 'w option"
    and expires :: "'s \<Rightarrow> 'i \<Rightarrow> instant option"
    and claim :: "instant \<Rightarrow> 'w \<Rightarrow> 's \<Rightarrow> 'i \<Rightarrow> 's \<Rightarrow> bool"
    and finish :: "'w \<Rightarrow> 's \<Rightarrow> 'i \<Rightarrow> 's \<Rightarrow> bool"
    and other :: "'s \<Rightarrow> 's \<Rightarrow> bool"
  assumes claim_owner: "claim now w s i s' \<Longrightarrow> owner s' i = Some w"
    and claim_live: "claim now w s i s' \<Longrightarrow> \<exists>e. expires s' i = Some e \<and> now < e"
    and claim_free: "claim now w s i s' \<Longrightarrow> owner s i = Some v \<Longrightarrow>
      \<forall>e. expires s i = Some e \<longrightarrow> e \<le> now"
    and claim_frame: "claim now w s i s' \<Longrightarrow> j \<noteq> i \<Longrightarrow> owner s' j = Some v \<Longrightarrow> owner s j = Some v"
    and finish_owner: "finish w s i s' \<Longrightarrow> owner s i = Some w"
    and finish_release: "finish w s i s' \<Longrightarrow> owner s' i = None"
    and finish_frame: "finish w s i s' \<Longrightarrow> j \<noteq> i \<Longrightarrow> owner s' j = Some v \<Longrightarrow> owner s j = Some v"
    and other_frame: "other s s' \<Longrightarrow> owner s' j = Some v \<Longrightarrow> owner s j = Some v"
begin

inductive lease_run :: "'s \<Rightarrow> ('i, 'w) lease_event list \<Rightarrow> 's \<Rightarrow> bool" where
  lease_nil: "lease_run s [] s"
| lease_claim: "lease_run s es t \<Longrightarrow> claim now w t i u \<Longrightarrow> lease_run s (es @ [Claimed i w]) u"
| lease_finish: "lease_run s es t \<Longrightarrow> finish w t i u \<Longrightarrow> lease_run s (es @ [Finished i w]) u"
| lease_other: "lease_run s es t \<Longrightarrow> other t u \<Longrightarrow> lease_run s (es @ [Internal]) u"

lemma held_was_claimed:
  assumes "lease_run s es t" and "owner t i = Some w" and "owner s i = None"
  shows "\<exists>pre mid. es = pre @ [Claimed i w] @ mid \<and> list_all (\<lambda>e. \<not> about_item i e) mid"
  using assms
proof (induction arbitrary: w rule: lease_run.induct)
  case (lease_nil s)
  then show ?case by simp
next
  case (lease_claim s es t now v j u)
  show ?case
  proof (cases "j = i")
    case True
    with lease_claim.hyps(2) lease_claim.prems(1) have "v = w" by (auto dest: claim_owner)
    with True show ?thesis by (intro exI [of _ es] exI [of _ "[]"]) simp
  next
    case False
    with lease_claim obtain pre mid
      where "es = pre @ [Claimed i w] @ mid" "list_all (\<lambda>e. \<not> about_item i e) mid"
      by (metis claim_frame)
    with False show ?thesis by (intro exI [of _ pre] exI [of _ "mid @ [Claimed j v]"]) simp
  qed
next
  case (lease_finish s es t v j u)
  show ?case
  proof (cases "j = i")
    case True
    with lease_finish.hyps(2) lease_finish.prems(1) show ?thesis by (auto dest: finish_release)
  next
    case False
    with lease_finish obtain pre mid
      where "es = pre @ [Claimed i w] @ mid" "list_all (\<lambda>e. \<not> about_item i e) mid"
      by (metis finish_frame)
    with False show ?thesis by (intro exI [of _ pre] exI [of _ "mid @ [Finished j v]"]) simp
  qed
next
  case (lease_other s es t u)
  then obtain pre mid
    where "es = pre @ [Claimed i w] @ mid" "list_all (\<lambda>e. \<not> about_item i e) mid"
    by (metis other_frame)
  then show ?case by (intro exI [of _ pre] exI [of _ "mid @ [Internal]"]) simp
qed

lemma finish_was_claimed:
  assumes "lease_run s es t" and "finish w t i u" and "owner s i = None"
  shows "\<exists>pre mid. es = pre @ [Claimed i w] @ mid \<and> list_all (\<lambda>e. \<not> about_item i e) mid"
  using assms held_was_claimed finish_owner by blast

lemma finishes_le_claims:
  assumes "lease_run s es t" and "owner s i = None"
  shows "length (filter (is_finish i) es) + (if owner t i = None then 0 else 1)
    \<le> length (filter (is_claim i) es)"
  using assms
proof (induction rule: lease_run.induct)
  case (lease_nil s)
  then show ?case by simp
next
  case (lease_claim s es t now v j u)
  then show ?case
    by (cases "j = i"; cases "owner u i") (auto dest: claim_frame split: if_splits)
next
  case (lease_finish s es t v j u)
  show ?case
  proof (cases "j = i")
    case True
    with lease_finish show ?thesis by (auto dest: finish_owner finish_release)
  next
    case False
    with lease_finish show ?thesis
      by (cases "owner u i") (auto dest: finish_frame split: if_splits)
  qed
next
  case (lease_other s es t u)
  then show ?case by (cases "owner u i") (auto dest: other_frame split: if_splits)
qed

end

section \<open>Status machines\<close>

text \<open>
  \<open>step_ok a b\<close> is the table of allowed transitions; every allowed transition climbs
  \<open>rank\<close> and no transition leaves a terminal status.
\<close>

locale status_machine =
  fixes step_ok :: "'s \<Rightarrow> 's \<Rightarrow> bool" and terminal :: "'s \<Rightarrow> bool" and rank :: "'s \<Rightarrow> nat"
    and top :: nat
  assumes step_rank: "step_ok a b \<Longrightarrow> rank a < rank b"
    and rank_top: "rank a \<le> top"
    and terminal_final: "terminal a \<Longrightarrow> \<not> step_ok a b"
    and progress: "\<not> terminal a \<Longrightarrow> \<exists>b. step_ok a b"
begin

fun history :: "'s \<Rightarrow> 's list \<Rightarrow> bool" where
  "history a [] = True"
| "history a (b # bs) = (step_ok a b \<and> history b bs)"

lemma history_append:
  "history a (bs @ cs) \<longleftrightarrow> history a bs \<and> history (last (a # bs)) cs"
  by (induction bs arbitrary: a) auto

lemma history_rank: "history a bs \<Longrightarrow> rank a + length bs \<le> rank (last (a # bs))"
proof (induction bs arbitrary: a)
  case (Cons b bs)
  then have "rank b + length bs \<le> rank (last (b # bs))" "rank a < rank b"
    by (auto dest: step_rank)
  then show ?case by simp
qed simp

lemma history_bounded: "history a bs \<Longrightarrow> length bs \<le> top - rank a"
  using history_rank [of a bs] rank_top [of "last (a # bs)"] by simp

lemma history_terminal_last:
  "history a bs \<Longrightarrow> i < length bs \<Longrightarrow> terminal (bs ! i) \<Longrightarrow> i = length bs - 1"
proof (induction bs arbitrary: a i)
  case (Cons b bs)
  show ?case
  proof (cases i)
    case 0
    with Cons.prems have "terminal b" "history b bs" by auto
    then have "bs = []" by (cases bs) (auto dest: terminal_final)
    with 0 show ?thesis by simp
  next
    case (Suc j)
    with Cons have "j = length bs - 1" "j < length bs" by auto
    with Suc show ?thesis by simp
  qed
qed simp

end

end
