(* ===== verification/PyUuid.thy ===== *)
theory PyUuid
  imports KPrelude
begin

text \<open>
  Python's \<open>UUID(text)\<close> constructor: the text is stripped of \<open>urn:\<close>, \<open>uuid:\<close>, braces and
  hyphens, must then be 32 characters long, and is read by \<open>int(text, 16)\<close>; a failure raises
  \<open>ValueError\<close> (here \<open>None\<close>).  A UUID is represented by \<open>str(uuid)\<close>, its canonical text.
\<close>

type_synonym uuid = pystr

fun drop_prefix :: "pystr \<Rightarrow> pystr \<Rightarrow> pystr option" where
  "drop_prefix [] s = Some s"
| "drop_prefix (p # ps) [] = None"
| "drop_prefix (p # ps) (c # s) = (if p = c then drop_prefix ps s else None)"

lemma drop_prefix_length: "drop_prefix p s = Some t \<Longrightarrow> length s = length p + length t"
  by (induction p s rule: drop_prefix.induct) (auto split: if_splits)

text \<open>\<open>s.replace(p, '')\<close> for a non-empty \<open>p\<close>: the occurrences from the left, not overlapping.\<close>

function remove_sub :: "pystr \<Rightarrow> pystr \<Rightarrow> pystr" where
  "remove_sub p [] = []"
| "remove_sub p (c # s) =
     (if p = [] then c # s
      else case drop_prefix p (c # s) of
        Some t \<Rightarrow> remove_sub p t
      | None \<Rightarrow> c # remove_sub p s)"
  by pat_completeness auto
termination
  by (relation "measure (\<lambda>(p, s). length s)") (auto dest: drop_prefix_length)

definition hex_digit :: "nat \<Rightarrow> int option" where
  "hex_digit c =
     (if 48 \<le> c \<and> c \<le> 57 then Some (int c - 48)
      else if 97 \<le> c \<and> c \<le> 102 then Some (int c - 87)
      else if 65 \<le> c \<and> c \<le> 70 then Some (int c - 55)
      else None)"

text \<open>The digits of \<open>int(s, 16)\<close>: single underscores may stand between digits.\<close>

fun hex_digits :: "int \<Rightarrow> pystr \<Rightarrow> int option" where
  "hex_digits acc [] = Some acc"
| "hex_digits acc (c # s) =
     (case hex_digit c of
        Some d \<Rightarrow> hex_digits (16 * acc + d) s
      | None \<Rightarrow>
          (if c = 95 then
             (case s of
                [] \<Rightarrow> None
              | c' # s' \<Rightarrow>
                  (case hex_digit c' of
                     Some d \<Rightarrow> hex_digits (16 * acc + d) s'
                   | None \<Rightarrow> None))
           else None))"

definition hex_number :: "pystr \<Rightarrow> int option" where
  "hex_number s =
     (case s of
        [] \<Rightarrow> None
      | c # _ \<Rightarrow> (if hex_digit c = None then None else hex_digits 0 s))"

definition int_base16 :: "pystr \<Rightarrow> int option" where
  "int_base16 text =
     (let s = strip text;
          neg = (case s of c # _ \<Rightarrow> c = 45 | [] \<Rightarrow> False);
          u = (case s of c # r \<Rightarrow> if c = 45 \<or> c = 43 then r else s | [] \<Rightarrow> s);
          body = (case u of
                    z # x # r \<Rightarrow>
                      if z = 48 \<and> (x = 120 \<or> x = 88)
                      then (case r of c # r' \<Rightarrow> if c = 95 then r' else r | [] \<Rightarrow> r)
                      else u
                  | _ \<Rightarrow> u)
      in map_option (\<lambda>n. if neg then - n else n) (hex_number body))"

definition hex_char :: "int \<Rightarrow> nat" where
  "hex_char d = nat (if d < 10 then 48 + d else 87 + d)"

fun hex_text :: "nat \<Rightarrow> int \<Rightarrow> pystr" where
  "hex_text 0 n = []"
| "hex_text (Suc k) n = hex_text k (n div 16) @ [hex_char (n mod 16)]"

definition uuid_text :: "int \<Rightarrow> uuid" where
  "uuid_text n =
     (let h = hex_text 32 n
      in take 8 h @ 45 # take 4 (drop 8 h) @ 45 # take 4 (drop 12 h) @ 45 #
         take 4 (drop 16 h) @ 45 # drop 20 h)"

definition parse_uuid :: "pystr \<Rightarrow> uuid option" where
  "parse_uuid text =
     (let s = remove_sub (lit ''uuid:'') (remove_sub (lit ''urn:'') text);
          brace = (\<lambda>c. c = 123 \<or> c = 125);
          t = rev (dropWhile brace (rev (dropWhile brace s)));
          h = filter (\<lambda>c. c \<noteq> 45) t
      in if length h \<noteq> 32 then None
         else case int_base16 h of
                None \<Rightarrow> None
              | Some n \<Rightarrow> if 0 \<le> n \<and> n < 2 ^ 128 then Some (uuid_text n) else None)"

end
