(* ===== verification/CloudSchema.thy ===== *)
theory CloudSchema
  imports KPrelude PyUuid
begin

text \<open>
  The rows of \<open>src/cloud/models.py\<close> and the database they make up.  A column
  \<open>x: Mapped[T]\<close> is a field, a nullable column an option; a \<open>CheckConstraint\<close> that lists
  the values of a status column is a datatype.  A table is the list of its rows in insertion
  order.  A UUID is its canonical text, which orders as the 128-bit integer does.
\<close>



datatype role = RoleUser | RoleAssistant | RoleSystem
datatype run_status = RunQueued | RunRunning | RunCompleted | RunFailed | RunCancelled
datatype job_status = JobPending | JobRunning | JobCompleted | JobCancelled | JobFailed | JobMissed
datatype job_tier = TierInstant | TierSoft
datatype job_trigger = TrigAt | TrigAfter | TrigEvery
datatype delivery_status = DlvPending | DlvRunning | DlvSent | DlvFailed
datatype task_kind = KindJob | KindSource
datatype sub_status = SubQueued | SubRunning | SubCompleted | SubFailed | SubCancelled
datatype worker_status = WkRunning | WkStopped
datatype cp_status = CpStarted | CpSuccess | CpError

record user_row =
  us_id :: uuid
  us_email :: pystr
  us_password_hash :: pystr
  us_created_at :: instant

record auth_row =
  au_id :: uuid
  au_token_hash :: pystr
  au_user_id :: uuid
  au_expires_at :: instant
  au_revoked_at :: "instant option"
  au_created_at :: instant

record conversation_row =
  cv_id :: uuid
  cv_user_id :: uuid
  cv_title :: pystr
  cv_next_message_seq :: int
  cv_agent_metadata :: pydict
  cv_last_consolidated :: int
  cv_created_at :: instant
  cv_updated_at :: instant

record automation_row =
  at_conversation_id :: uuid
  at_user_id :: uuid
  at_enabled :: bool
  at_proactive_enabled :: bool
  at_drift_enabled :: bool
  at_proactive_context :: pystr
  at_next_tick_at :: instant
  at_lease_owner :: "pystr option"
  at_lease_expires_at :: "instant option"
  at_tick_token :: "pystr option"
  at_last_started_at :: "instant option"
  at_last_finished_at :: "instant option"
  at_last_error :: pystr
  at_updated_at :: instant

record job_row =
  jb_id :: pystr
  jb_user_id :: uuid
  jb_conversation_id :: uuid
  jb_message :: pystr
  jb_prompt :: pystr
  jb_run_at :: instant
  jb_interval_seconds :: int
  jb_remaining_runs :: int
  jb_status :: job_status
  jb_tier :: job_tier
  jb_trigger :: job_trigger
  jb_cron_expr :: pystr
  jb_timezone :: pystr
  jb_name :: pystr
  jb_lease_owner :: "pystr option"
  jb_lease_expires_at :: "instant option"
  jb_fire_token :: "pystr option"
  jb_last_error :: pystr
  jb_created_at :: instant
  jb_updated_at :: instant

record file_row =
  fl_id :: uuid
  fl_user_id :: uuid
  fl_conversation_id :: uuid
  fl_workspace_path :: pystr
  fl_filename :: pystr
  fl_content_type :: pystr
  fl_size_bytes :: int
  fl_sha256 :: pystr
  fl_created_at :: instant

record pairing_row =
  pr_code_hash :: pystr
  pr_user_id :: uuid
  pr_conversation_id :: uuid
  pr_provider :: pystr
  pr_expires_at :: instant
  pr_consumed_at :: "instant option"
  pr_created_at :: instant

record link_row =
  lk_id :: uuid
  lk_user_id :: uuid
  lk_conversation_id :: uuid
  lk_provider :: pystr
  lk_external_user_id :: pystr
  lk_external_chat_id :: pystr
  lk_display_name :: pystr
  lk_enabled :: bool
  lk_created_at :: instant

record inbound_row =
  ib_id :: nat
  ib_provider :: pystr
  ib_external_event_id :: pystr
  ib_link_id :: uuid
  ib_message_id :: uuid
  ib_created_at :: instant

record delivery_row =
  dl_id :: nat
  dl_link_id :: uuid
  dl_message_id :: uuid
  dl_status :: delivery_status
  dl_attempt :: int
  dl_lease_owner :: "pystr option"
  dl_lease_expires_at :: "instant option"
  dl_last_error :: pystr
  dl_created_at :: instant
  dl_sent_at :: "instant option"

record mcp_row =
  mc_id :: uuid
  mc_user_id :: uuid
  mc_name :: pystr
  mc_base_url :: pystr
  mc_encrypted_headers :: pystr
  mc_enabled :: bool
  mc_created_at :: instant
  mc_updated_at :: instant

record plugin_row =
  pg_id :: uuid
  pg_user_id :: uuid
  pg_name :: pystr
  pg_base_url :: pystr
  pg_encrypted_headers :: pystr
  pg_manifest :: pydict
  pg_enabled :: bool
  pg_created_at :: instant
  pg_updated_at :: instant

record task_row =
  tk_id :: uuid
  tk_plugin_id :: uuid
  tk_user_id :: uuid
  tk_task_id :: pystr
  tk_kind :: task_kind
  tk_interval_seconds :: int
  tk_enabled :: bool
  tk_next_run_at :: instant
  tk_lease_owner :: "pystr option"
  tk_lease_expires_at :: "instant option"
  tk_last_error :: pystr
  tk_updated_at :: instant

record subagent_row =
  sb_id :: pystr
  sb_user_id :: uuid
  sb_conversation_id :: uuid
  sb_task :: pystr
  sb_label :: pystr
  sb_profile :: pystr
  sb_max_iterations :: int
  sb_status :: sub_status
  sb_result :: pystr
  sb_result_metadata :: pydict
  sb_lease_owner :: "pystr option"
  sb_lease_expires_at :: "instant option"
  sb_cancel_requested_at :: "instant option"
  sb_created_at :: instant
  sb_started_at :: "instant option"
  sb_completed_at :: "instant option"

record skill_row =
  sk_id :: uuid
  sk_user_id :: uuid
  sk_name :: pystr
  sk_description :: pystr
  sk_when_to_use :: pystr
  sk_body :: pystr
  sk_always :: bool
  sk_enabled :: bool
  sk_created_at :: instant
  sk_updated_at :: instant

record inbox_row =
  bx_id :: pystr
  bx_user_id :: uuid
  bx_conversation_id :: uuid
  bx_source_id :: pystr
  bx_source_event_id :: pystr
  bx_kind :: pystr
  bx_payload :: pydict
  bx_created_at :: instant
  bx_acknowledged_at :: "instant option"

record message_row =
  ms_id :: uuid
  ms_conversation_id :: uuid
  ms_seq :: int
  ms_role :: role
  ms_content :: pystr
  ms_agent_metadata :: pydict
  ms_delivery_key :: "pystr option"
  ms_created_at :: instant

record run_row =
  rn_id :: uuid
  rn_user_id :: uuid
  rn_conversation_id :: uuid
  rn_input_message_id :: uuid
  rn_output_message_id :: "uuid option"
  rn_status :: run_status
  rn_lease_owner :: "pystr option"
  rn_lease_expires_at :: "instant option"
  rn_heartbeat_at :: "instant option"
  rn_attempt :: int
  rn_cancel_requested_at :: "instant option"
  rn_error :: "pystr option"
  rn_idempotency_key :: "pystr option"
  rn_created_at :: instant
  rn_started_at :: "instant option"
  rn_completed_at :: "instant option"

record event_row =
  ev_run_id :: uuid
  ev_user_id :: uuid
  ev_seq :: int
  ev_type :: pystr
  ev_data :: pydict
  ev_created_at :: instant

record counter_row =
  ct_subject_key :: pystr
  ct_scope :: pystr
  ct_window_start :: int
  ct_count :: int
  ct_expires_at :: instant

record worker_row =
  wk_worker_id :: pystr
  wk_status :: worker_status
  wk_current_run_id :: "uuid option"
  wk_started_at :: instant
  wk_heartbeat_at :: instant

record checkpoint_row =
  cp_run_id :: uuid
  cp_iteration :: int
  cp_call_index :: int
  cp_signature :: pystr
  cp_tool_name :: pystr
  cp_arguments :: pydict
  cp_status :: cp_status
  cp_output :: "pystr option"
  cp_mobile_attention :: "pystr option"
  cp_started_at :: instant
  cp_completed_at :: "instant option"

end
