(* ===== verification/CloudDb.thy ===== *)
theory CloudDb
  imports CloudSchema
begin

text \<open>
  The database the methods of \<open>CloudStore\<close> read and write, and the appends every part of the
  store shares: a numbered message row, a numbered run event, a fan-out to the channel outbox.
  A method is one transaction: a function of the committed database that returns either an
  exception (the transaction is rolled back, so there is no new database) or a result and the
  database it commits.
\<close>

text \<open>The user-scoped tables that a change of the active conversation empties; their rows are
  opaque here but for the user they belong to.\<close>

datatype continuity_table =
    TProactiveTickStep | TProactiveTick | TProactiveSourceFeedback | TProactiveDecision
  | TProactiveDelivery | TProactivePushState | TProactivePendingAcknowledgement
  | TProactiveEventRecord | TDriftJournal | TDriftContinuum | TDriftSchedule | TDriftRunRecord

record continuity_row =
  cr_table :: continuity_table
  cr_user_id :: uuid
  cr_payload :: json

record cloud_db =
  users :: "user_row list"
  auth_sessions :: "auth_row list"
  conversations :: "conversation_row list"
  messages :: "message_row list"
  runs :: "run_row list"
  run_events :: "event_row list"
  checkpoints :: "checkpoint_row list"
  counters :: "counter_row list"
  workers :: "worker_row list"
  automations :: "automation_row list"
  inbox :: "inbox_row list"
  continuity :: "continuity_row list"
  jobs :: "job_row list"
  files :: "file_row list"
  pairings :: "pairing_row list"
  links :: "link_row list"
  inbounds :: "inbound_row list"
  deliveries :: "delivery_row list"
  mcp_servers :: "mcp_row list"
  plugins :: "plugin_row list"
  plugin_tasks :: "task_row list"
  subagents :: "subagent_row list"
  skills :: "skill_row list"
  next_inbound_id :: nat
  next_delivery_id :: nat

definition empty_db :: cloud_db where
  "empty_db =
     \<lparr>users = [], auth_sessions = [], conversations = [], messages = [], runs = [],
      run_events = [], checkpoints = [], counters = [], workers = [], automations = [],
      inbox = [], continuity = [], jobs = [], files = [], pairings = [], links = [],
      inbounds = [], deliveries = [], mcp_servers = [], plugins = [], plugin_tasks = [],
      subagents = [], skills = [], next_inbound_id = 1, next_delivery_id = 1\<rparr>"

section \<open>Messages\<close>

text \<open>The unique constraints of \<open>Message\<close>: primary key, (conversation, seq) and
  (conversation, delivery key), where a null delivery key never clashes.\<close>

definition message_clash :: "message_row \<Rightarrow> message_row \<Rightarrow> bool" where
  "message_clash m m' \<longleftrightarrow>
     ms_id m = ms_id m' \<or>
     (ms_conversation_id m = ms_conversation_id m' \<and>
       (ms_seq m = ms_seq m' \<or>
        (ms_delivery_key m \<noteq> None \<and> ms_delivery_key m = ms_delivery_key m')))"

definition insert_message :: "message_row \<Rightarrow> cloud_db \<Rightarrow> cloud_db res" where
  "insert_message m db =
     (if \<exists>m' \<in> set (messages db). message_clash m m' then Inl IntegrityError
      else Inr (db\<lparr>messages := messages db @ [m]\<rparr>))"

text \<open>
  The append that every writer of a conversation performs under the conversation's row lock:
  the message takes \<open>next_message_seq\<close>, which is then advanced, \<open>updated_at\<close> is set and the
  row is flushed.
\<close>

definition post_message ::
  "uuid \<Rightarrow> conversation_row \<Rightarrow> role \<Rightarrow> pystr \<Rightarrow> pydict \<Rightarrow> pystr option \<Rightarrow> instant \<Rightarrow> instant \<Rightarrow>
   cloud_db \<Rightarrow> (message_row \<times> cloud_db) res" where
  "post_message mid c r content meta key updated created db =
     (let m = \<lparr>ms_id = mid, ms_conversation_id = cv_id c, ms_seq = cv_next_message_seq c,
               ms_role = r, ms_content = content, ms_agent_metadata = meta,
               ms_delivery_key = key, ms_created_at = created\<rparr>;
          db1 = db\<lparr>conversations := put_row cv_id
                   (c\<lparr>cv_next_message_seq := cv_next_message_seq c + 1,
                      cv_updated_at := updated\<rparr>) (conversations db)\<rparr>
      in case insert_message m db1 of
           Inl e \<Rightarrow> Inl e
         | Inr db2 \<Rightarrow> Inr (m, db2))"

section \<open>Run events\<close>

definition run_seqs :: "cloud_db \<Rightarrow> uuid \<Rightarrow> int list" where
  "run_seqs db i = map ev_seq (filter (\<lambda>e. ev_run_id e = i) (run_events db))"

text \<open>\<open>coalesce(max(seq), 0)\<close>.\<close>

definition last_seq :: "int list \<Rightarrow> int" where
  "last_seq xs = (case xs of [] \<Rightarrow> 0 | x # ys \<Rightarrow> fold max ys x)"

definition append_run_event ::
  "run_row \<Rightarrow> pystr \<Rightarrow> pydict \<Rightarrow> instant \<Rightarrow> cloud_db \<Rightarrow> event_row \<times> cloud_db" where
  "append_run_event r ty data t db =
     (let e = \<lparr>ev_run_id = rn_id r, ev_user_id = rn_user_id r,
               ev_seq = last_seq (run_seqs db (rn_id r)) + 1, ev_type = ty, ev_data = data,
               ev_created_at = t\<rparr>
      in (e, db\<lparr>run_events := run_events db @ [e]\<rparr>))"

abbreviation log_event :: "run_row \<Rightarrow> pystr \<Rightarrow> pydict \<Rightarrow> instant \<Rightarrow> cloud_db \<Rightarrow> cloud_db" where
  "log_event r ty data t db \<equiv> snd (append_run_event r ty data t db)"

section \<open>The channel outbox\<close>

text \<open>\<open>_enqueue_channel_deliveries\<close>: one pending delivery of the message per enabled link of
  its conversation, with the serial ids the table hands out.\<close>

fun add_deliveries :: "instant \<Rightarrow> uuid \<Rightarrow> link_row list \<Rightarrow> cloud_db \<Rightarrow> cloud_db" where
  "add_deliveries t mid [] db = db"
| "add_deliveries t mid (l # ls) db =
     add_deliveries t mid ls
       (db\<lparr>deliveries := deliveries db @
             [\<lparr>dl_id = next_delivery_id db, dl_link_id = lk_id l, dl_message_id = mid,
               dl_status = DlvPending, dl_attempt = 0, dl_lease_owner = None,
               dl_lease_expires_at = None, dl_last_error = [], dl_created_at = t,
               dl_sent_at = None\<rparr>],
           next_delivery_id := Suc (next_delivery_id db)\<rparr>)"

definition enqueue_channel_deliveries :: "instant \<Rightarrow> message_row \<Rightarrow> cloud_db \<Rightarrow> cloud_db" where
  "enqueue_channel_deliveries t m db =
     add_deliveries t (ms_id m)
       (filter (\<lambda>l. lk_conversation_id l = ms_conversation_id m \<and> lk_enabled l) (links db)) db"

section \<open>Frames\<close>

named_theorems frame_simps "the tables an append leaves alone"

lemma insert_messageD:
  "insert_message m db = Inr db' \<Longrightarrow>
   db' = db\<lparr>messages := messages db @ [m]\<rparr> \<and> (\<forall>m' \<in> set (messages db). \<not> message_clash m m')"
  by (auto simp: insert_message_def split: if_splits)

lemma post_messageD:
  assumes "post_message mid c r content meta key u t db = Inr (m, db')"
  shows "m = \<lparr>ms_id = mid, ms_conversation_id = cv_id c, ms_seq = cv_next_message_seq c,
               ms_role = r, ms_content = content, ms_agent_metadata = meta,
               ms_delivery_key = key, ms_created_at = t\<rparr>"
    and "db' = db\<lparr>conversations := put_row cv_id
                   (c\<lparr>cv_next_message_seq := cv_next_message_seq c + 1, cv_updated_at := u\<rparr>)
                   (conversations db),
                 messages := messages db @ [m]\<rparr>"
    and "\<forall>m' \<in> set (messages db). \<not> message_clash m m'"
  using assms
  by (auto simp: post_message_def Let_def dest!: insert_messageD split: sum.splits)

lemma append_run_event_frame [frame_simps]:
  "users (log_event r ty d t db) = users db"
  "auth_sessions (log_event r ty d t db) = auth_sessions db"
  "conversations (log_event r ty d t db) = conversations db"
  "messages (log_event r ty d t db) = messages db"
  "runs (log_event r ty d t db) = runs db"
  "checkpoints (log_event r ty d t db) = checkpoints db"
  "automations (log_event r ty d t db) = automations db"
  "jobs (log_event r ty d t db) = jobs db"
  "links (log_event r ty d t db) = links db"
  "inbounds (log_event r ty d t db) = inbounds db"
  "deliveries (log_event r ty d t db) = deliveries db"
  "plugin_tasks (log_event r ty d t db) = plugin_tasks db"
  "subagents (log_event r ty d t db) = subagents db"
  "inbox (log_event r ty d t db) = inbox db"
  "next_delivery_id (log_event r ty d t db) = next_delivery_id db"
  "next_inbound_id (log_event r ty d t db) = next_inbound_id db"
  "plugins (log_event r ty d t db) = plugins db"
  by (simp_all add: append_run_event_def Let_def)

lemma run_events_append [frame_simps]:
  "run_events (log_event r ty d t db) =
   run_events db @ [\<lparr>ev_run_id = rn_id r, ev_user_id = rn_user_id r,
     ev_seq = last_seq (run_seqs db (rn_id r)) + 1, ev_type = ty, ev_data = d, ev_created_at = t\<rparr>]"
  by (simp add: append_run_event_def Let_def)

lemma add_deliveries_frame [frame_simps]:
  "users (add_deliveries t i ls db) = users db"
  "auth_sessions (add_deliveries t i ls db) = auth_sessions db"
  "conversations (add_deliveries t i ls db) = conversations db"
  "messages (add_deliveries t i ls db) = messages db"
  "runs (add_deliveries t i ls db) = runs db"
  "run_events (add_deliveries t i ls db) = run_events db"
  "checkpoints (add_deliveries t i ls db) = checkpoints db"
  "automations (add_deliveries t i ls db) = automations db"
  "jobs (add_deliveries t i ls db) = jobs db"
  "links (add_deliveries t i ls db) = links db"
  "inbounds (add_deliveries t i ls db) = inbounds db"
  "plugin_tasks (add_deliveries t i ls db) = plugin_tasks db"
  "subagents (add_deliveries t i ls db) = subagents db"
  "inbox (add_deliveries t i ls db) = inbox db"
  "next_inbound_id (add_deliveries t i ls db) = next_inbound_id db"
  "plugins (add_deliveries t i ls db) = plugins db"
  by (induction ls arbitrary: db) simp_all

lemma enqueue_frame [frame_simps]:
  "users (enqueue_channel_deliveries t m db) = users db"
  "auth_sessions (enqueue_channel_deliveries t m db) = auth_sessions db"
  "conversations (enqueue_channel_deliveries t m db) = conversations db"
  "messages (enqueue_channel_deliveries t m db) = messages db"
  "runs (enqueue_channel_deliveries t m db) = runs db"
  "run_events (enqueue_channel_deliveries t m db) = run_events db"
  "checkpoints (enqueue_channel_deliveries t m db) = checkpoints db"
  "automations (enqueue_channel_deliveries t m db) = automations db"
  "jobs (enqueue_channel_deliveries t m db) = jobs db"
  "links (enqueue_channel_deliveries t m db) = links db"
  "inbounds (enqueue_channel_deliveries t m db) = inbounds db"
  "plugin_tasks (enqueue_channel_deliveries t m db) = plugin_tasks db"
  "subagents (enqueue_channel_deliveries t m db) = subagents db"
  "inbox (enqueue_channel_deliveries t m db) = inbox db"
  "next_inbound_id (enqueue_channel_deliveries t m db) = next_inbound_id db"
  "plugins (enqueue_channel_deliveries t m db) = plugins db"
  by (simp_all add: enqueue_channel_deliveries_def frame_simps)

lemma add_deliveries_length: "length (deliveries (add_deliveries t i ls db)) = length (deliveries db) + length ls"
  by (induction ls arbitrary: db) simp_all

lemma enqueue_count:
  "length (deliveries (enqueue_channel_deliveries t m db)) = length (deliveries db) +
   length (filter (\<lambda>l. lk_conversation_id l = ms_conversation_id m \<and> lk_enabled l) (links db))"
  by (simp add: enqueue_channel_deliveries_def add_deliveries_length)

lemma append_run_event_last [frame_simps]: "ev_type (last (run_events (log_event r ty d t db))) = ty"
  by (simp add: append_run_event_def Let_def)

lemma run_seqs_simps [frame_simps]:
  "run_seqs (log_event r ty d t db) i =
     (if i = rn_id r then run_seqs db i @ [last_seq (run_seqs db i) + 1] else run_seqs db i)"
  "run_seqs (enqueue_channel_deliveries t m db) i = run_seqs db i"
  by (auto simp: run_seqs_def frame_simps)

section \<open>Message numbering\<close>

text \<open>
  In every conversation the messages, in table order, carry the numbers 1, 2, 3, ... without a
  gap, and \<open>next_message_seq\<close> is the next one; no two messages clash on a unique constraint.
\<close>

definition conv_seqs :: "cloud_db \<Rightarrow> uuid \<Rightarrow> int list" where
  "conv_seqs db c = map ms_seq (filter (\<lambda>m. ms_conversation_id m = c) (messages db))"

definition upto_int :: "nat \<Rightarrow> int list" where
  "upto_int n = map int [1..<Suc n]"

lemma upto_int_Suc: "upto_int (Suc n) = upto_int n @ [int n + 1]"
  by (simp add: upto_int_def)

lemma upto_int_0 [simp]: "upto_int 0 = []"
  by (simp add: upto_int_def)

lemma length_upto_int [simp]: "length (upto_int n) = n"
  by (simp add: upto_int_def)

lemma set_upto_int: "x \<in> set (upto_int n) \<longleftrightarrow> 1 \<le> x \<and> x \<le> int n"
  by (induction n) (auto simp: upto_int_Suc)

lemma upto_int_sorted: "sorted (upto_int n)" "distinct (upto_int n)"
  by (induction n) (auto simp: upto_int_Suc sorted_append set_upto_int)

definition msgs_ok :: "cloud_db \<Rightarrow> bool" where
  "msgs_ok db \<longleftrightarrow>
     distinct (map cv_id (conversations db)) \<and>
     (\<forall>c \<in> set (conversations db).
        conv_seqs db (cv_id c) = upto_int (length (conv_seqs db (cv_id c))) \<and>
        cv_next_message_seq c = int (length (conv_seqs db (cv_id c))) + 1) \<and>
     (\<forall>m \<in> set (messages db). ms_conversation_id m \<in> cv_id ` set (conversations db)) \<and>
     sorted_wrt (\<lambda>m m'. \<not> message_clash m m') (messages db)"

lemma message_clash_sym: "message_clash m m' \<Longrightarrow> message_clash m' m"
  unfolding message_clash_def by metis

lemma msgs_ok_post:
  assumes ok: "msgs_ok db" and c: "row_by cv_id (cv_id c) (conversations db) = Some c0"
    and same: "cv_next_message_seq c = cv_next_message_seq c0"
    and post: "post_message mid c r content meta key u t db = Inr (m, db')"
  shows "msgs_ok db'"
proof -
  note d = post_messageD [OF post]
  have c0: "c0 \<in> set (conversations db)" "cv_id c0 = cv_id c"
    using row_by_SomeD [OF c] by auto
  have seqs: "conv_seqs db' i = (if i = cv_id c then conv_seqs db i @ [cv_next_message_seq c]
      else conv_seqs db i)" for i
    by (simp add: d(1,2) conv_seqs_def)
  have num: "conv_seqs db' (cv_id x) = upto_int (length (conv_seqs db' (cv_id x))) \<and>
      cv_next_message_seq x = int (length (conv_seqs db' (cv_id x))) + 1"
    if "x \<in> set (conversations db')" for x
  proof -
    have "x \<in> set (put_row cv_id (c\<lparr>cv_next_message_seq := cv_next_message_seq c + 1,
        cv_updated_at := u\<rparr>) (conversations db))"
      using that by (simp add: d(2))
    then show ?thesis
    proof (rule put_rowE)
      assume x: "x = c\<lparr>cv_next_message_seq := cv_next_message_seq c + 1, cv_updated_at := u\<rparr>"
      have "conv_seqs db (cv_id c) = upto_int (length (conv_seqs db (cv_id c)))"
        and "cv_next_message_seq c = int (length (conv_seqs db (cv_id c))) + 1"
        using ok c0 same by (auto simp: msgs_ok_def)
      then show ?thesis using x by (simp add: seqs upto_int_Suc)
    next
      assume "x \<in> set (conversations db)"
        and "cv_id x \<noteq> cv_id (c\<lparr>cv_next_message_seq := cv_next_message_seq c + 1,
          cv_updated_at := u\<rparr>)"
      then show ?thesis using ok by (auto simp: msgs_ok_def seqs)
    qed
  qed
  moreover have "map cv_id (conversations db') = map cv_id (conversations db)"
    by (simp add: d(2))
  moreover from this have "cv_id ` set (conversations db') = cv_id ` set (conversations db)"
    by (metis list.set_map)
  moreover have "ms_conversation_id m \<in> cv_id ` set (conversations db)"
    using c0 by (auto simp: d(1) rev_image_eqI)
  moreover have "sorted_wrt (\<lambda>m m'. \<not> message_clash m m') (messages db')"
    using ok d(3) by (auto simp: msgs_ok_def d(2) sorted_wrt_append dest: message_clash_sym)
  moreover have "messages db' = messages db @ [m]" by (simp add: d(2))
  ultimately show ?thesis using ok by (auto simp: msgs_ok_def)
qed

text \<open>The number a message takes is never the cause of a unique violation: only its id or its
  delivery key can be.\<close>

lemma msgs_ok_seq_fresh:
  assumes ok: "msgs_ok db" and c: "row_by cv_id (cv_id c) (conversations db) = Some c0"
    and same: "cv_next_message_seq c = cv_next_message_seq c0"
    and m: "m \<in> set (messages db)" "ms_conversation_id m = cv_id c"
  shows "ms_seq m < cv_next_message_seq c"
proof -
  have c0: "c0 \<in> set (conversations db)" "cv_id c0 = cv_id c"
    using row_by_SomeD [OF c] by auto
  have "ms_seq m \<in> set (conv_seqs db (cv_id c))"
    using m by (auto simp: conv_seqs_def)
  moreover have "conv_seqs db (cv_id c) = upto_int (length (conv_seqs db (cv_id c)))"
    and "cv_next_message_seq c = int (length (conv_seqs db (cv_id c))) + 1"
    using ok c0 same by (auto simp: msgs_ok_def)
  ultimately show ?thesis by (metis add1_zle_eq set_upto_int zle_add1_eq_le)
qed

section \<open>Tenants\<close>

text \<open>
  The rows that name both a user and a conversation, and the pairs they may name: a conversation
  together with its owner.  No table lets one user's work reach another user's conversation.
\<close>

definition owner_pairs :: "cloud_db \<Rightarrow> (uuid \<times> uuid) set" where
  "owner_pairs db = (\<lambda>c. (cv_user_id c, cv_id c)) ` set (conversations db)"

definition tenant_refs :: "cloud_db \<Rightarrow> (uuid \<times> uuid) set" where
  "tenant_refs db =
     (\<lambda>r. (rn_user_id r, rn_conversation_id r)) ` set (runs db) \<union>
     (\<lambda>r. (jb_user_id r, jb_conversation_id r)) ` set (jobs db) \<union>
     (\<lambda>r. (fl_user_id r, fl_conversation_id r)) ` set (files db) \<union>
     (\<lambda>r. (pr_user_id r, pr_conversation_id r)) ` set (pairings db) \<union>
     (\<lambda>r. (lk_user_id r, lk_conversation_id r)) ` set (links db) \<union>
     (\<lambda>r. (at_user_id r, at_conversation_id r)) ` set (automations db) \<union>
     (\<lambda>r. (sb_user_id r, sb_conversation_id r)) ` set (subagents db) \<union>
     (\<lambda>r. (bx_user_id r, bx_conversation_id r)) ` set (inbox db)"

definition tenants_ok :: "cloud_db \<Rightarrow> bool" where
  "tenants_ok db \<longleftrightarrow> tenant_refs db \<subseteq> owner_pairs db"

lemma tenants_ok_step:
  "tenants_ok db \<Longrightarrow> owner_pairs db \<subseteq> owner_pairs db' \<Longrightarrow>
   tenant_refs db' \<subseteq> tenant_refs db \<union> owner_pairs db' \<Longrightarrow> tenants_ok db'"
  by (auto simp: tenants_ok_def)

lemma tenants_ok_eq:
  "owner_pairs db' = owner_pairs db \<Longrightarrow> tenant_refs db' = tenant_refs db \<Longrightarrow> tenants_ok db' = tenants_ok db"
  by (simp add: tenants_ok_def)

lemma put_row_image:
  assumes "row_by key (key r') t = Some r" "f r' = f r" "\<And>x. x \<in> set t \<Longrightarrow> key x = key r' \<Longrightarrow> f x = f r"
  shows "f ` set (put_row key r' t) = f ` set t"
proof -
  have "map f (put_row key r' t) = map f t"
    by (rule map_put_row) (use assms in auto)
  then show ?thesis by (metis list.set_map)
qed

lemma put_row_image_subset: "f ` set (put_row key r t) \<subseteq> insert (f r) (f ` set t)"
  by (auto simp: put_row_def)

lemma tenant_refs_add_run [frame_simps]:
  "tenant_refs (db\<lparr>runs := runs db @ [r]\<rparr>) =
   insert (rn_user_id r, rn_conversation_id r) (tenant_refs db)"
  "owner_pairs (db\<lparr>runs := rs\<rparr>) = owner_pairs db"
  by (auto simp: tenant_refs_def owner_pairs_def)

lemma tenant_refs_log [frame_simps]:
  "tenant_refs (log_event r ty d t db) = tenant_refs db"
  "owner_pairs (log_event r ty d t db) = owner_pairs db"
  by (simp_all add: tenant_refs_def owner_pairs_def append_run_event_def Let_def)

lemma tenant_refs_deliveries [frame_simps]:
  "tenant_refs (add_deliveries t i ls db) = tenant_refs db"
  "owner_pairs (add_deliveries t i ls db) = owner_pairs db"
  by (induction ls arbitrary: db) (simp_all add: tenant_refs_def owner_pairs_def)

lemma tenant_refs_enqueue [frame_simps]:
  "tenant_refs (enqueue_channel_deliveries t m db) = tenant_refs db"
  "owner_pairs (enqueue_channel_deliveries t m db) = owner_pairs db"
  by (simp_all add: enqueue_channel_deliveries_def frame_simps)

lemma post_message_tenants:
  assumes p: "post_message mid c r content meta key u t db = Inr (m, db')"
    and c: "row_by cv_id (cv_id c) (conversations db) = Some c0" "cv_user_id c = cv_user_id c0"
    and d: "distinct (map cv_id (conversations db))"
  shows "owner_pairs db' = owner_pairs db" and "tenant_refs db' = tenant_refs db"
proof -
  show "owner_pairs db' = owner_pairs db"
    unfolding owner_pairs_def post_messageD(2) [OF p] cloud_db.simps
    by (simp, rule put_row_image [of _ _ _ c0])
      (use c d row_by_uniqueD [OF d c(1)] row_by_SomeD [OF c(1)] in auto)
  show "tenant_refs db' = tenant_refs db"
    by (simp add: post_messageD(2) [OF p] tenant_refs_def)
qed

end
