(* ===== verification/CloudRuns.thy ===== *)
theory CloudRuns
  imports CloudDb KContracts
begin

text \<open>
  The durable Run queue of \<open>src/cloud/store.py\<close>: claiming under a lease, heartbeats, the
  terminal transitions, cancellation, recovery of abandoned leases and the ordered event stream.
\<close>

section \<open>Operations\<close>

abbreviation jstatus :: "string \<Rightarrow> pystr \<times> json" where
  "jstatus s \<equiv> (lit ''status'', JStr (lit s))"

abbreviation put_run :: "run_row \<Rightarrow> cloud_db \<Rightarrow> cloud_db" where
  "put_run r db \<equiv> db\<lparr>runs := put_row rn_id r (runs db)\<rparr>"

text \<open>The partial unique index \<open>uq_runs_one_running_per_conversation\<close>.\<close>

definition conversation_running :: "uuid \<Rightarrow> cloud_db \<Rightarrow> bool" where
  "conversation_running c db \<longleftrightarrow>
     (\<exists>r \<in> set (runs db). rn_conversation_id r = c \<and> rn_status r = RunRunning)"

text \<open>
  \<open>busy\<close> is the set of conversations that the statement's snapshot shows with a running Run; it
  may be stale when a concurrent transaction commits first, and then the partial unique index
  refuses the update and the claim returns \<open>None\<close>.  \<open>locked\<close> are the rows other transactions
  hold, which \<open>SKIP LOCKED\<close> passes over.
\<close>

definition claim_next_run ::
  "pystr \<Rightarrow> int \<Rightarrow> clock \<Rightarrow> uuid list \<Rightarrow> uuid list \<Rightarrow> cloud_db \<Rightarrow> run_row option \<times> cloud_db" where
  "claim_next_run worker_id lease_seconds clk busy locked db =
     (case first_row (\<lambda>r. (rn_created_at r, rn_id r))
             (\<lambda>r. rn_status r = RunQueued \<and> rn_conversation_id r \<notin> set busy \<and>
                  rn_id r \<notin> set locked) (runs db) of
        None \<Rightarrow> (None, db)
      | Some r \<Rightarrow>
          (let now = clk 0;
               r' = r\<lparr>rn_status := RunRunning,
                      rn_lease_owner := Some worker_id,
                      rn_lease_expires_at := Some (now + seconds (max 10 lease_seconds)),
                      rn_heartbeat_at := Some now,
                      rn_started_at := opt_or (rn_started_at r) now,
                      rn_attempt := rn_attempt r + 1\<rparr>
           in if conversation_running (rn_conversation_id r) db then (None, db)
              else (Some r',
                    log_event r' (lit ''run.started'')
                      [jstatus ''running'', (lit ''attempt'', JInt (rn_attempt r'))]
                      (clk 1) (put_run r' db))))"

definition get_run :: "uuid \<Rightarrow> uuid \<Rightarrow> cloud_db \<Rightarrow> run_row res" where
  "get_run user_id run_id db =
     (case find (\<lambda>r. rn_id r = run_id \<and> rn_user_id r = user_id) (runs db) of
        None \<Rightarrow> Inl (StoreNotFoundError (lit ''run not found''))
      | Some r \<Rightarrow> Inr r)"

definition load_run_input ::
  "uuid \<Rightarrow> cloud_db \<Rightarrow>
   (run_row \<times> user_row \<times> conversation_row \<times> message_row \<times> message_row list) res" where
  "load_run_input run_id db =
     (case row_by rn_id run_id (runs db) of
        None \<Rightarrow> Inl (StoreNotFoundError (lit ''run not found''))
      | Some r \<Rightarrow>
          (case (row_by us_id (rn_user_id r) (users db),
                 row_by cv_id (rn_conversation_id r) (conversations db),
                 row_by ms_id (rn_input_message_id r) (messages db)) of
             (Some u, Some c, Some m) \<Rightarrow>
               Inr (r, u, c, m,
                    sort_key ms_seq
                      (filter (\<lambda>x. ms_conversation_id x = rn_conversation_id r \<and> ms_id x \<noteq> ms_id m)
                        (messages db)))
           | _ \<Rightarrow> Inl (StoreStateError (lit ''run references missing durable input''))))"

definition not_owner :: py_error where
  "not_owner = StoreStateError (lit ''worker does not own a running run'')"

definition complete_run ::
  "uuid \<Rightarrow> pystr \<Rightarrow> pystr \<Rightarrow> pystr option \<Rightarrow> pydict option \<Rightarrow> pydict option \<Rightarrow> int option \<Rightarrow>
   uuid \<Rightarrow> clock \<Rightarrow> cloud_db \<Rightarrow> ((run_row \<times> message_row option) \<times> cloud_db) res" where
  "complete_run run_id worker_id assistant_content assistant_message_id assistant_metadata
       conversation_metadata last_consolidated fresh clk db =
     (case row_by rn_id run_id (runs db) of
        None \<Rightarrow> Inl (StoreNotFoundError (lit ''run not found''))
      | Some r \<Rightarrow>
          if rn_status r \<noteq> RunRunning \<or> rn_lease_owner r \<noteq> Some worker_id then Inl not_owner
          else if rn_cancel_requested_at r \<noteq> None then
            (let r' = r\<lparr>rn_status := RunCancelled, rn_completed_at := Some (clk 0),
                        rn_lease_owner := None, rn_lease_expires_at := None\<rparr>
             in Inr ((r', None),
                     log_event r' (lit ''run.cancelled'') [jstatus ''cancelled''] (clk 1)
                       (put_run r' db)))
          else
            (case row_by cv_id (rn_conversation_id r) (conversations db) of
               None \<Rightarrow> Inl (StoreStateError (lit ''run conversation is missing''))
             | Some c \<Rightarrow>
                 (case (case assistant_message_id of
                          None \<Rightarrow> Some fresh | Some t \<Rightarrow> parse_uuid t) of
                    None \<Rightarrow> Inl (ValueError (lit ''badly formed hexadecimal UUID string''))
                  | Some mid \<Rightarrow>
                      (let c' = c\<lparr>cv_agent_metadata :=
                                    (case conversation_metadata of
                                       None \<Rightarrow> cv_agent_metadata c | Some d \<Rightarrow> d),
                                  cv_last_consolidated :=
                                    (case last_consolidated of
                                       None \<Rightarrow> cv_last_consolidated c | Some n \<Rightarrow> max 0 n)\<rparr>
                       in case post_message mid c' RoleAssistant assistant_content
                                 (case assistant_metadata of None \<Rightarrow> [] | Some d \<Rightarrow> d) None
                                 (clk 0) (clk 1) db of
                            Inl e \<Rightarrow> Inl e
                          | Inr (output, db1) \<Rightarrow>
                              (let db2 = enqueue_channel_deliveries (clk 2) output db1;
                                   r' = r\<lparr>rn_output_message_id := Some (ms_id output),
                                          rn_status := RunCompleted,
                                          rn_completed_at := Some (clk 3),
                                          rn_lease_owner := None,
                                          rn_lease_expires_at := None\<rparr>
                               in Inr ((r', Some output),
                                       log_event r' (lit ''run.completed'')
                                         [jstatus ''completed'',
                                          (lit ''output_message_id'', JStr (ms_id output))]
                                         (clk 4) (put_run r' db2)))))))"

definition heartbeat_run ::
  "uuid \<Rightarrow> pystr \<Rightarrow> int \<Rightarrow> instant \<Rightarrow> cloud_db \<Rightarrow> (bool \<times> cloud_db) res" where
  "heartbeat_run run_id worker_id lease_seconds now db =
     (case row_by rn_id run_id (runs db) of
        None \<Rightarrow> Inl (StoreNotFoundError (lit ''run not found''))
      | Some r \<Rightarrow>
          if rn_status r \<noteq> RunRunning \<or> rn_lease_owner r \<noteq> Some worker_id then Inl not_owner
          else Inr (rn_cancel_requested_at r \<noteq> None,
                    put_run (r\<lparr>rn_heartbeat_at := Some now,
                               rn_lease_expires_at := Some (now + seconds (max 10 lease_seconds))\<rparr>)
                      db))"

definition cancel_owned_run ::
  "uuid \<Rightarrow> pystr \<Rightarrow> clock \<Rightarrow> cloud_db \<Rightarrow> (run_row \<times> cloud_db) res" where
  "cancel_owned_run run_id worker_id clk db =
     (case row_by rn_id run_id (runs db) of
        None \<Rightarrow> Inl (StoreNotFoundError (lit ''run not found''))
      | Some r \<Rightarrow>
          if rn_status r \<noteq> RunRunning \<or> rn_lease_owner r \<noteq> Some worker_id then Inl not_owner
          else
            (let r' = r\<lparr>rn_status := RunCancelled, rn_completed_at := Some (clk 0),
                        rn_lease_owner := None, rn_lease_expires_at := None\<rparr>
             in Inr (r', log_event r' (lit ''run.cancelled'') [jstatus ''cancelled''] (clk 1)
                           (put_run r' db))))"

fun recover_runs :: "instant \<Rightarrow> clock \<Rightarrow> run_row list \<Rightarrow> cloud_db \<Rightarrow> cloud_db" where
  "recover_runs now clk [] db = db"
| "recover_runs now clk (r # rs) db =
     recover_runs now (\<lambda>i. clk (Suc i)) rs
       (if rn_cancel_requested_at r \<noteq> None then
          (let r' = r\<lparr>rn_lease_owner := None, rn_lease_expires_at := None,
                      rn_status := RunCancelled, rn_completed_at := Some now\<rparr>
           in log_event r' (lit ''run.cancelled'') [jstatus ''cancelled''] (clk 0) (put_run r' db))
        else
          (let r' = r\<lparr>rn_lease_owner := None, rn_lease_expires_at := None,
                      rn_status := RunQueued\<rparr>
           in log_event r' (lit ''run.requeued'')
                [jstatus ''queued'', (lit ''attempt'', JInt (rn_attempt r))] (clk 0)
                (put_run r' db)))"

definition expired_runs :: "int \<Rightarrow> instant \<Rightarrow> uuid list \<Rightarrow> cloud_db \<Rightarrow> run_row list" where
  "expired_runs limit now locked db =
     take (nat (max 1 limit))
       (sort_key (\<lambda>r. (the (rn_lease_expires_at r), rn_id r))
         (filter (\<lambda>r. rn_status r = RunRunning \<and>
              (case rn_lease_expires_at r of None \<Rightarrow> False | Some e \<Rightarrow> e < now) \<and>
              rn_id r \<notin> set locked) (runs db)))"

definition requeue_expired_runs ::
  "int \<Rightarrow> clock \<Rightarrow> uuid list \<Rightarrow> cloud_db \<Rightarrow> nat \<times> cloud_db" where
  "requeue_expired_runs limit clk locked db =
     (let expired = expired_runs limit (clk 0) locked db
      in (length expired, recover_runs (clk 0) (\<lambda>i. clk (Suc i)) expired db))"

definition fail_run ::
  "uuid \<Rightarrow> pystr \<Rightarrow> pystr \<Rightarrow> clock \<Rightarrow> cloud_db \<Rightarrow> (run_row \<times> cloud_db) res" where
  "fail_run run_id worker_id err clk db =
     (case row_by rn_id run_id (runs db) of
        None \<Rightarrow> Inl (StoreNotFoundError (lit ''run not found''))
      | Some r \<Rightarrow>
          if rn_status r \<noteq> RunRunning \<or> rn_lease_owner r \<noteq> Some worker_id then Inl not_owner
          else
            (let cancelled = (rn_cancel_requested_at r \<noteq> None);
                 r1 = (if cancelled then r\<lparr>rn_status := RunCancelled\<rparr>
                       else r\<lparr>rn_status := RunFailed, rn_error := Some (take 8000 err)\<rparr>);
                 r' = r1\<lparr>rn_completed_at := Some (clk 0), rn_lease_owner := None,
                         rn_lease_expires_at := None\<rparr>;
                 ty = (if cancelled then lit ''run.cancelled'' else lit ''run.failed'');
                 st = (if cancelled then jstatus ''cancelled'' else jstatus ''failed'');
                 er = (case rn_error r' of
                         None \<Rightarrow> []
                       | Some e \<Rightarrow> if e = [] then [] else [(lit ''error'', JStr e)])
             in Inr (r', log_event r' ty (st # er) (clk 1) (put_run r' db))))"

definition request_cancel ::
  "uuid \<Rightarrow> uuid \<Rightarrow> clock \<Rightarrow> cloud_db \<Rightarrow> (run_row \<times> cloud_db) res" where
  "request_cancel user_id run_id clk db =
     (case find (\<lambda>r. rn_id r = run_id \<and> rn_user_id r = user_id) (runs db) of
        None \<Rightarrow> Inl (StoreNotFoundError (lit ''run not found''))
      | Some r \<Rightarrow>
          if rn_status r = RunQueued then
            (let r' = r\<lparr>rn_status := RunCancelled, rn_completed_at := Some (clk 0)\<rparr>
             in Inr (r', log_event r' (lit ''run.cancelled'') [jstatus ''cancelled''] (clk 1)
                           (put_run r' db)))
          else if rn_status r = RunRunning then
            (let r' = r\<lparr>rn_cancel_requested_at := Some (clk 0)\<rparr>
             in Inr (r', log_event r' (lit ''run.cancel_requested'') [jstatus ''running''] (clk 1)
                           (put_run r' db)))
          else Inr (r, db))"

definition list_run_events ::
  "uuid \<Rightarrow> uuid \<Rightarrow> int \<Rightarrow> int \<Rightarrow> cloud_db \<Rightarrow> event_row list res" where
  "list_run_events user_id run_id after_seq limit db =
     (case find (\<lambda>r. rn_id r = run_id \<and> rn_user_id r = user_id) (runs db) of
        None \<Rightarrow> Inl (StoreNotFoundError (lit ''run not found''))
      | Some r \<Rightarrow>
          Inr (take (nat (min (max 1 limit) 1000))
                (sort_key ev_seq
                  (filter (\<lambda>e. ev_run_id e = run_id \<and> ev_user_id e = user_id \<and>
                       max 0 after_seq < ev_seq e) (run_events db)))))"

definition append_runtime_run_event ::
  "uuid \<Rightarrow> pystr \<Rightarrow> pydict \<Rightarrow> instant \<Rightarrow> cloud_db \<Rightarrow> (event_row \<times> cloud_db) res" where
  "append_runtime_run_event run_id event_type data t db =
     (case row_by rn_id run_id (runs db) of
        None \<Rightarrow> Inl (StoreNotFoundError (lit ''run not found''))
      | Some r \<Rightarrow> Inr (append_run_event r event_type data t db))"

section \<open>The invariant of the queue\<close>

text \<open>What each status implies for the lease, the terminal time stamp and the output.\<close>

definition run_ok :: "run_row \<Rightarrow> bool" where
  "run_ok r \<longleftrightarrow> 0 \<le> rn_attempt r \<and>
     (case rn_status r of
        RunQueued \<Rightarrow> rn_lease_owner r = None \<and> rn_lease_expires_at r = None \<and>
          rn_cancel_requested_at r = None \<and> rn_completed_at r = None \<and>
          rn_output_message_id r = None
      | RunRunning \<Rightarrow> rn_lease_owner r \<noteq> None \<and> rn_lease_expires_at r \<noteq> None \<and>
          rn_heartbeat_at r \<noteq> None \<and> rn_started_at r \<noteq> None \<and> 1 \<le> rn_attempt r \<and>
          rn_completed_at r = None \<and> rn_output_message_id r = None
      | RunCompleted \<Rightarrow> rn_lease_owner r = None \<and> rn_lease_expires_at r = None \<and>
          rn_cancel_requested_at r = None \<and> rn_completed_at r \<noteq> None \<and>
          rn_output_message_id r \<noteq> None
      | RunFailed \<Rightarrow> rn_lease_owner r = None \<and> rn_lease_expires_at r = None \<and>
          rn_cancel_requested_at r = None \<and> rn_completed_at r \<noteq> None \<and>
          rn_output_message_id r = None \<and> rn_error r \<noteq> None
      | RunCancelled \<Rightarrow> rn_lease_owner r = None \<and> rn_lease_expires_at r = None \<and>
          rn_completed_at r \<noteq> None \<and> rn_output_message_id r = None)"

text \<open>The unique constraints of \<open>Run\<close>: primary key, input message, (user, idempotency key),
  and one running Run per conversation.\<close>

definition run_clash :: "run_row \<Rightarrow> run_row \<Rightarrow> bool" where
  "run_clash r r' \<longleftrightarrow>
     rn_id r = rn_id r' \<or> rn_input_message_id r = rn_input_message_id r' \<or>
     (rn_user_id r = rn_user_id r' \<and> rn_idempotency_key r \<noteq> None \<and>
       rn_idempotency_key r = rn_idempotency_key r') \<or>
     (rn_conversation_id r = rn_conversation_id r' \<and> rn_status r = RunRunning \<and>
       rn_status r' = RunRunning)"

definition runs_ok :: "run_row list \<Rightarrow> bool" where
  "runs_ok rs \<longleftrightarrow> (\<forall>r \<in> set rs. run_ok r) \<and> distinct (map rn_id rs) \<and>
     (\<forall>r \<in> set rs. \<forall>r' \<in> set rs. run_clash r r' \<longrightarrow> rn_id r = rn_id r')"

definition same_run :: "run_row \<Rightarrow> run_row \<Rightarrow> bool" where
  "same_run r r' \<longleftrightarrow> rn_id r' = rn_id r \<and> rn_user_id r' = rn_user_id r \<and>
     rn_conversation_id r' = rn_conversation_id r \<and>
     rn_input_message_id r' = rn_input_message_id r \<and>
     rn_idempotency_key r' = rn_idempotency_key r \<and> rn_created_at r' = rn_created_at r"

text \<open>Every Run's events are numbered 1, 2, 3, ... and carry the Run's owner.\<close>

definition events_ok :: "cloud_db \<Rightarrow> bool" where
  "events_ok db \<longleftrightarrow>
     (\<forall>i. run_seqs db i = upto_int (length (run_seqs db i))) \<and>
     (\<forall>e \<in> set (run_events db). \<exists>r \<in> set (runs db).
        rn_id r = ev_run_id e \<and> rn_user_id r = ev_user_id e)"

definition queue_ok :: "cloud_db \<Rightarrow> bool" where
  "queue_ok db \<longleftrightarrow> runs_ok (runs db) \<and> events_ok db"

lemma queue_ok_cong:
  "runs db' = runs db \<Longrightarrow> run_events db' = run_events db \<Longrightarrow> queue_ok db' = queue_ok db"
  by (simp add: queue_ok_def events_ok_def run_seqs_def)

lemma runs_ok_row: "runs_ok rs \<Longrightarrow> r \<in> set rs \<Longrightarrow> row_by rn_id (rn_id r) rs = Some r"
  by (simp add: runs_ok_def row_by_unique)

lemma runs_ok_put:
  assumes ok: "runs_ok rs" and r: "row_by rn_id (rn_id r') rs = Some r" and same: "same_run r r'"
    and new: "run_ok r'"
    and running: "rn_status r' = RunRunning \<Longrightarrow> rn_status r = RunRunning \<or>
      \<not> (\<exists>x \<in> set rs. rn_conversation_id x = rn_conversation_id r \<and> rn_status x = RunRunning)"
  shows "runs_ok (put_row rn_id r' rs)"
proof -
  have rmem: "r \<in> set rs" "rn_id r = rn_id r'"
    using row_by_SomeD [OF r] by auto
  have key: "run_clash r' x \<Longrightarrow> rn_id r' = rn_id x" if "x \<in> set rs" "rn_id x \<noteq> rn_id r'" for x
  proof -
    assume c: "run_clash r' x"
    have "\<not> run_clash r x" using ok rmem that by (force simp: runs_ok_def)
    with c same have "rn_conversation_id x = rn_conversation_id r \<and> rn_status x = RunRunning \<and>
        rn_status r' = RunRunning \<and> rn_status r \<noteq> RunRunning"
      by (auto simp: run_clash_def same_run_def)
    then show ?thesis using running that by blast
  qed
  have sym: "run_clash a b = run_clash b a" for a b
    unfolding run_clash_def by metis
  show ?thesis
    unfolding runs_ok_def
  proof (intro conjI ballI impI)
    fix a b assume ab: "a \<in> set (put_row rn_id r' rs)" "b \<in> set (put_row rn_id r' rs)"
      and clash: "run_clash a b"
    from ab(1) show "rn_id a = rn_id b"
    proof (rule put_rowE)
      assume a: "a = r'"
      from ab(2) show ?thesis by (rule put_rowE) (use a clash key in auto)
    next
      assume a: "a \<in> set rs" "rn_id a \<noteq> rn_id r'"
      from ab(2) show ?thesis
      proof (rule put_rowE)
        assume "b = r'"
        then show ?thesis using a clash key sym by metis
      next
        assume "b \<in> set rs"
        then show ?thesis using a clash ok by (simp add: runs_ok_def)
      qed
    qed
  qed (use ok new in \<open>auto simp: runs_ok_def elim!: put_rowE\<close>)
qed

lemma fold_max_upto: "last_seq (upto_int n) = int n"
proof -
  have "fold max (upto_int n) 0 = int n"
    by (induction n) (simp_all add: upto_int_Suc max_def)
  moreover have "upto_int n = [] \<or> (\<exists>ys. upto_int n = 1 # ys)"
    by (cases n) (auto simp: upto_int_def upt_rec simp del: upt_Suc)
  ultimately show ?thesis
    by (auto simp: last_seq_def max_def)
qed

lemma events_ok_log:
  assumes ok: "events_ok db" and r: "r \<in> set (runs db)"
  shows "events_ok (log_event r ty d t db)"
proof -
  have "run_seqs db i = upto_int (length (run_seqs db i))" for i
    using ok by (simp add: events_ok_def)
  then have "last_seq (run_seqs db i) = int (length (run_seqs db i))" for i
    by (metis fold_max_upto)
  with ok r show ?thesis
    by (auto simp: events_ok_def frame_simps upto_int_Suc)
qed

lemma events_ok_put:
  assumes ok: "events_ok db" and r: "row_by rn_id (rn_id r') (runs db) = Some r"
    and same: "same_run r r'" and d: "distinct (map rn_id (runs db))"
  shows "events_ok (put_run r' db)"
proof -
  have rmem: "r \<in> set (runs db)" "rn_id r = rn_id r'"
    using row_by_SomeD [OF r] by auto
  have "\<exists>x \<in> set (put_row rn_id r' (runs db)). rn_id x = ev_run_id e \<and> rn_user_id x = ev_user_id e"
    if e: "e \<in> set (run_events db)" for e
  proof -
    obtain x where x: "x \<in> set (runs db)" "rn_id x = ev_run_id e" "rn_user_id x = ev_user_id e"
      using ok e by (auto simp: events_ok_def)
    show ?thesis
    proof (cases "rn_id x = rn_id r'")
      case True
      then have "x = r" using row_by_uniqueD [OF d r x(1)] by simp
      moreover have "r' \<in> set (put_row rn_id r' (runs db))"
        using rmem by (metis image_eqI put_row_mem)
      ultimately show ?thesis using x same by (auto simp: same_run_def)
    next
      case False
      with x show ?thesis by (metis put_row_other)
    qed
  qed
  with ok show ?thesis by (simp add: events_ok_def run_seqs_def)
qed

lemma queue_ok_put_log:
  assumes "queue_ok db" "row_by rn_id (rn_id r') (runs db) = Some r" "same_run r r'" "run_ok r'"
    and "rn_status r' = RunRunning \<Longrightarrow> rn_status r = RunRunning \<or>
      \<not> conversation_running (rn_conversation_id r) db"
  shows "queue_ok (put_run r' db)" "queue_ok (log_event r' ty d t (put_run r' db))"
proof -
  have put: "events_ok (put_run r' db)"
    using assms by (auto simp: queue_ok_def runs_ok_def intro: events_ok_put)
  have "runs_ok (put_row rn_id r' (runs db))"
    using assms by (auto simp: queue_ok_def conversation_running_def intro!: runs_ok_put)
  then show "queue_ok (put_run r' db)" using put by (simp add: queue_ok_def)
  moreover have "r' \<in> set (put_row rn_id r' (runs db))"
    using row_by_SomeD [OF assms(2)] by (metis image_eqI put_row_mem)
  then have "r' \<in> set (runs (put_run r' db))" by simp
  ultimately show "queue_ok (log_event r' ty d t (put_run r' db))"
    using events_ok_log [OF put] by (simp add: queue_ok_def frame_simps)
qed

lemma queue_ok_run: "queue_ok db \<Longrightarrow> r \<in> set (runs db) \<Longrightarrow> run_ok r"
  by (simp add: queue_ok_def runs_ok_def)

section \<open>Every operation keeps the invariant\<close>

lemma claim_next_run_queue_ok:
  assumes ok: "queue_ok db" and claim: "claim_next_run w n clk busy locked db = (res, db')"
  shows "queue_ok db'"
proof (cases "db' = db")
  case False
  then obtain r where r: "first_row (\<lambda>r. (rn_created_at r, rn_id r))
      (\<lambda>r. rn_status r = RunQueued \<and> rn_conversation_id r \<notin> set busy \<and> rn_id r \<notin> set locked)
      (runs db) = Some r"
    using claim by (auto simp: claim_next_run_def split: option.splits)
  note f = first_row_SomeD [OF r]
  have "row_by rn_id (rn_id r) (runs db) = Some r" "run_ok r"
    using ok f(1) by (auto simp: queue_ok_def runs_ok_row runs_ok_def)
  then show ?thesis
    using claim False r f(2) ok
    by (auto simp: claim_next_run_def Let_def same_run_def run_ok_def opt_or_def
        split: if_splits option.splits intro!: queue_ok_put_log)
qed (use ok in simp)

lemma queue_ok_lookup:
  assumes "queue_ok db" "row_by rn_id i (runs db) = Some r"
  shows "row_by rn_id (rn_id r) (runs db) = Some r" "run_ok r" "rn_id r = i" "r \<in> set (runs db)"
  using assms row_by_SomeD [OF assms(2)] by (auto simp: queue_ok_def runs_ok_row runs_ok_def)

lemma queue_ok_find:
  assumes "queue_ok db" "find (\<lambda>r. rn_id r = i \<and> rn_user_id r = u) (runs db) = Some r"
  shows "row_by rn_id (rn_id r) (runs db) = Some r" "run_ok r" "rn_id r = i" "rn_user_id r = u"
proof -
  have "r \<in> set (runs db) \<and> rn_id r = i \<and> rn_user_id r = u"
    using assms(2) by (auto simp: find_Some_iff)
  then show "row_by rn_id (rn_id r) (runs db) = Some r" "run_ok r" "rn_id r = i" "rn_user_id r = u"
    using assms(1) by (auto simp: queue_ok_def runs_ok_row runs_ok_def)
qed

lemma heartbeat_run_queue_ok:
  assumes ok: "queue_ok db" and h: "heartbeat_run i w n now db = Inr (b, db')"
  shows "queue_ok db'"
proof -
  obtain r where r: "row_by rn_id i (runs db) = Some r"
    using h by (auto simp: heartbeat_run_def split: option.splits)
  show ?thesis
    using h r ok queue_ok_lookup [OF ok r]
    by (auto simp: heartbeat_run_def same_run_def run_ok_def split: if_splits
        intro!: queue_ok_put_log(1))
qed

lemma cancel_owned_run_queue_ok:
  assumes ok: "queue_ok db" and h: "cancel_owned_run i w clk db = Inr (r', db')"
  shows "queue_ok db'"
proof -
  obtain r where r: "row_by rn_id i (runs db) = Some r"
    using h by (auto simp: cancel_owned_run_def split: option.splits)
  show ?thesis
    using h r ok queue_ok_lookup [OF ok r]
    by (auto simp: cancel_owned_run_def same_run_def run_ok_def Let_def split: if_splits
        intro!: queue_ok_put_log(2))
qed

lemma fail_run_queue_ok:
  assumes ok: "queue_ok db" and h: "fail_run i w e clk db = Inr (r', db')"
  shows "queue_ok db'"
proof -
  obtain r where r: "row_by rn_id i (runs db) = Some r"
    using h by (auto simp: fail_run_def split: option.splits)
  show ?thesis
    using h r ok queue_ok_lookup [OF ok r]
    by (auto simp: fail_run_def same_run_def run_ok_def Let_def split: if_splits
        intro!: queue_ok_put_log(2))
qed

lemma request_cancel_queue_ok:
  assumes ok: "queue_ok db" and h: "request_cancel u i clk db = Inr (r', db')"
  shows "queue_ok db'"
proof -
  obtain r where r: "find (\<lambda>r. rn_id r = i \<and> rn_user_id r = u) (runs db) = Some r"
    using h by (auto simp: request_cancel_def split: option.splits)
  show ?thesis
    using h r ok queue_ok_find [OF ok r]
    by (auto simp: request_cancel_def same_run_def run_ok_def Let_def split: if_splits
        intro!: queue_ok_put_log(2))
qed

lemma append_runtime_run_event_queue_ok:
  assumes ok: "queue_ok db" and h: "append_runtime_run_event i ty d t db = Inr (e, db')"
  shows "queue_ok db'"
proof -
  obtain r where r: "row_by rn_id i (runs db) = Some r"
    using h by (auto simp: append_runtime_run_event_def split: option.splits)
  then have "db' = log_event r ty d t db"
    using h by (metis Pair_inject append_runtime_run_event_def old.sum.inject(2) option.simps(5) prod.collapse)
  then show ?thesis
    using ok queue_ok_lookup [OF ok r] by (auto simp: queue_ok_def frame_simps intro!: events_ok_log)
qed

text \<open>One recovered row, and the fold over all of them.\<close>

definition recovered :: "instant \<Rightarrow> run_row \<Rightarrow> run_row" where
  "recovered now r =
     (if rn_cancel_requested_at r \<noteq> None
      then r\<lparr>rn_lease_owner := None, rn_lease_expires_at := None,
             rn_status := RunCancelled, rn_completed_at := Some now\<rparr>
      else r\<lparr>rn_lease_owner := None, rn_lease_expires_at := None, rn_status := RunQueued\<rparr>)"

lemma recover_runs_step:
  obtains ty d where
    "recover_runs now clk (r # rs) db =
     recover_runs now (\<lambda>i. clk (Suc i)) rs (log_event (recovered now r) ty d (clk 0)
       (put_run (recovered now r) db))"
proof (cases "rn_cancel_requested_at r = None")
  case True
  then show ?thesis
    by (intro that [of "lit ''run.requeued''" "[jstatus ''queued'', (lit ''attempt'', JInt (rn_attempt r))]"])
      (simp add: recovered_def Let_def)
next
  case False
  then show ?thesis
    by (intro that [of "lit ''run.cancelled''" "[jstatus ''cancelled'']"])
      (simp add: recovered_def Let_def)
qed

lemma recovered_run:
  "run_ok r \<Longrightarrow> rn_status r = RunRunning \<Longrightarrow>
   same_run r (recovered now r) \<and> run_ok (recovered now r) \<and> rn_status (recovered now r) \<noteq> RunRunning"
  by (auto simp: recovered_def same_run_def run_ok_def)

lemma recovered_id [simp]: "rn_id (recovered now r) = rn_id r"
  by (simp add: recovered_def)

definition stored_running :: "run_row list \<Rightarrow> cloud_db \<Rightarrow> bool" where
  "stored_running rs db \<longleftrightarrow> distinct (map rn_id rs) \<and>
     (\<forall>r \<in> set rs. row_by rn_id (rn_id r) (runs db) = Some r \<and> rn_status r = RunRunning)"

lemma stored_running_step:
  "stored_running (r # rs) db \<Longrightarrow>
   stored_running rs (log_event (recovered now r) ty d t (put_run (recovered now r) db))"
  unfolding stored_running_def append_run_event_frame
  by (simp add: row_by_put_row image_iff) metis

lemma recovered_queue_ok:
  assumes "queue_ok db" "row_by rn_id (rn_id r) (runs db) = Some r" "rn_status r = RunRunning"
  shows "queue_ok (log_event (recovered now r) ty d t (put_run (recovered now r) db))"
proof (rule queue_ok_put_log(2) [of _ _ r])
  have "run_ok r" using queue_ok_lookup(2) [OF assms(1,2)] .
  then show "same_run r (recovered now r)" "run_ok (recovered now r)"
    and "rn_status (recovered now r) = RunRunning \<Longrightarrow>
      rn_status r = RunRunning \<or> \<not> conversation_running (rn_conversation_id r) db"
    using recovered_run assms(3) by blast+
qed (use assms in simp_all)

lemma recover_runs_result:
  assumes "queue_ok db" and "stored_running rs db"
  shows "queue_ok (recover_runs now clk rs db) \<and>
    runs (recover_runs now clk rs db) =
      map (\<lambda>x. if rn_id x \<in> rn_id ` set rs then recovered now x else x) (runs db)"
  using assms
proof (induction rs arbitrary: clk db)
  case Nil
  then show ?case by simp
next
  case (Cons r rs)
  obtain ty d where step: "recover_runs now clk (r # rs) db =
      recover_runs now (\<lambda>i. clk (Suc i)) rs (log_event (recovered now r) ty d (clk 0)
        (put_run (recovered now r) db))"
    by (rule recover_runs_step)
  let ?db1 = "log_event (recovered now r) ty d (clk 0) (put_run (recovered now r) db)"
  have r: "row_by rn_id (rn_id r) (runs db) = Some r" "rn_status r = RunRunning"
    using Cons.prems(2) by (auto simp: stored_running_def)
  have ok1: "queue_ok ?db1"
    by (rule recovered_queue_ok [OF Cons.prems(1) r])
  note IH = Cons.IH [OF ok1 stored_running_step [OF Cons.prems(2)], of "\<lambda>i. clk (Suc i)"]
  have uniq: "x = r" if "x \<in> set (runs db)" "rn_id x = rn_id r" for x
    using Cons.prems(1) row_by_uniqueD [OF _ r(1) that] by (simp add: queue_ok_def runs_ok_def)
  have notin: "rn_id r \<notin> rn_id ` set rs"
    using Cons.prems(2) by (auto simp: stored_running_def)
  have "map (\<lambda>x. if rn_id x \<in> rn_id ` set rs then recovered now x else x) (runs ?db1) =
      map (\<lambda>x. if rn_id x \<in> rn_id ` set (r # rs) then recovered now x else x) (runs db)"
    using uniq notin by (auto simp: frame_simps put_row_def)
  with IH show ?case by (simp only: step)
qed

lemma expired_runs_stored:
  assumes "queue_ok db" shows "stored_running (expired_runs n now locked db) db"
proof -
  let ?f = "filter (\<lambda>r. rn_status r = RunRunning \<and>
      (case rn_lease_expires_at r of None \<Rightarrow> False | Some e \<Rightarrow> e < now) \<and>
      rn_id r \<notin> set locked) (runs db)"
  let ?s = "sort_key (\<lambda>r. (the (rn_lease_expires_at r), rn_id r)) ?f"
  have "distinct (map rn_id ?f)"
    using assms by (auto simp: queue_ok_def runs_ok_def distinct_map_filter)
  then have "distinct ?f \<and> inj_on rn_id (set ?f)" by (simp add: distinct_map)
  then have "distinct (map rn_id ?s)" by (simp add: distinct_map)
  then have "distinct (take (nat (max 1 n)) (map rn_id ?s))"
    by (rule distinct_take)
  then have "distinct (map rn_id (take (nat (max 1 n)) ?s))"
    by (simp only: take_map)
  moreover have "r \<in> set (runs db) \<and> rn_status r = RunRunning"
    if "r \<in> set (take (nat (max 1 n)) ?s)" for r
    using in_set_takeD [OF that] by auto
  moreover have "row_by rn_id (rn_id r) (runs db) = Some r" if "r \<in> set (runs db)" for r
    using assms that by (simp add: queue_ok_def runs_ok_row)
  ultimately show ?thesis
    unfolding stored_running_def expired_runs_def by blast
qed

lemma requeue_expired_runs_queue_ok:
  "queue_ok db \<Longrightarrow> requeue_expired_runs n clk locked db = (k, db') \<Longrightarrow> queue_ok db'"
  by (auto simp: requeue_expired_runs_def Let_def intro!: recover_runs_result [THEN conjunct1] expired_runs_stored)

text \<open>Completing a Run: the message is posted first, then the Run and its event are written.\<close>

lemma complete_run_cases:
  assumes h: "complete_run i w content mid ameta cmeta lc fresh clk db = Inr ((r', out), db')"
  obtains (cancelled) r where
      "row_by rn_id i (runs db) = Some r" "rn_status r = RunRunning" "rn_lease_owner r = Some w"
      "rn_cancel_requested_at r \<noteq> None" "out = None"
      "r' = r\<lparr>rn_status := RunCancelled, rn_completed_at := Some (clk 0),
              rn_lease_owner := None, rn_lease_expires_at := None\<rparr>"
      "db' = log_event r' (lit ''run.cancelled'') [jstatus ''cancelled''] (clk 1) (put_run r' db)"
  | (completed) r c c' m id db1 where
      "row_by rn_id i (runs db) = Some r" "rn_status r = RunRunning" "rn_lease_owner r = Some w"
      "rn_cancel_requested_at r = None" "out = Some m"
      "row_by cv_id (rn_conversation_id r) (conversations db) = Some c"
      "cv_id c' = cv_id c" "cv_user_id c' = cv_user_id c"
      "cv_next_message_seq c' = cv_next_message_seq c"
      "post_message id c' RoleAssistant content (case ameta of None \<Rightarrow> [] | Some d \<Rightarrow> d) None
         (clk 0) (clk 1) db = Inr (m, db1)"
      "r' = r\<lparr>rn_output_message_id := Some (ms_id m), rn_status := RunCompleted,
              rn_completed_at := Some (clk 3), rn_lease_owner := None,
              rn_lease_expires_at := None\<rparr>"
      "db' = log_event r' (lit ''run.completed'')
               [jstatus ''completed'', (lit ''output_message_id'', JStr (ms_id m))] (clk 4)
               (put_run r' (enqueue_channel_deliveries (clk 2) m db1))"
proof -
  obtain r where r: "row_by rn_id i (runs db) = Some r" "rn_status r = RunRunning"
      "rn_lease_owner r = Some w"
    using h by (auto simp: complete_run_def split: option.splits if_splits)
  show ?thesis
  proof (cases "rn_cancel_requested_at r = None")
    case False
    then show ?thesis using h r by (intro cancelled [of r]) (auto simp: complete_run_def Let_def)
  next
    case True
    obtain c where c: "row_by cv_id (rn_conversation_id r) (conversations db) = Some c"
      using h r True by (auto simp: complete_run_def split: option.splits)
    obtain id where id: "(case mid of None \<Rightarrow> Some fresh | Some t \<Rightarrow> parse_uuid t) = Some id"
      using h r True c
      by (cases "case mid of None \<Rightarrow> Some fresh | Some t \<Rightarrow> parse_uuid t") (auto simp: complete_run_def)
    define c' where "c' = c\<lparr>cv_agent_metadata :=
        (case cmeta of None \<Rightarrow> cv_agent_metadata c | Some d \<Rightarrow> d),
        cv_last_consolidated := (case lc of None \<Rightarrow> cv_last_consolidated c | Some n \<Rightarrow> max 0 n)\<rparr>"
    obtain m db1 where p: "post_message id c' RoleAssistant content
        (case ameta of None \<Rightarrow> [] | Some d \<Rightarrow> d) None (clk 0) (clk 1) db = Inr (m, db1)"
      using h r True c id by (auto simp: complete_run_def c'_def Let_def split: sum.splits)
    show ?thesis
      using h r True c id p
      by (intro completed [of r m c c' id db1])
        (auto simp: complete_run_def c'_def Let_def split: sum.splits)
  qed
qed

lemma post_message_queue_frame:
  "post_message mid c r content meta key u t db = Inr (m, db') \<Longrightarrow>
   runs db' = runs db \<and> run_events db' = run_events db \<and> ms_id m = mid \<and> links db' = links db"
  using post_messageD by fastforce

lemma complete_run_queue_ok:
  assumes ok: "queue_ok db"
    and h: "complete_run i w content mid ameta cmeta lc fresh clk db = Inr ((r', out), db')"
  shows "queue_ok db'"
  using h
proof (cases rule: complete_run_cases)
  case (cancelled r)
  note l = queue_ok_lookup [OF ok cancelled(1)]
  show ?thesis
    using ok l cancelled(2) unfolding cancelled(6,7)
    by (intro queue_ok_put_log(2) [of _ _ r]) (auto simp: same_run_def run_ok_def)
next
  case (completed r c c' m id db1)
  note l = queue_ok_lookup [OF ok completed(1)]
  note fr = post_message_queue_frame [OF completed(10)]
  have "queue_ok (enqueue_channel_deliveries (clk 2) m db1)"
    using ok fr by (subst queue_ok_cong [of _ db]) (auto simp: frame_simps)
  then show ?thesis
    using l completed(2,4) fr unfolding completed(11,12)
    by (intro queue_ok_put_log(2) [of _ _ r]) (auto simp: same_run_def run_ok_def frame_simps)
qed

section \<open>The queue as a leased table\<close>

definition run_owner :: "cloud_db \<Rightarrow> uuid \<Rightarrow> pystr option" where
  "run_owner db i = (case row_by rn_id i (runs db) of None \<Rightarrow> None
     | Some r \<Rightarrow> if rn_status r = RunRunning then rn_lease_owner r else None)"

definition run_expires :: "cloud_db \<Rightarrow> uuid \<Rightarrow> instant option" where
  "run_expires db i = (case row_by rn_id i (runs db) of None \<Rightarrow> None
     | Some r \<Rightarrow> rn_lease_expires_at r)"

definition run_claim :: "instant \<Rightarrow> pystr \<Rightarrow> cloud_db \<Rightarrow> uuid \<Rightarrow> cloud_db \<Rightarrow> bool" where
  "run_claim now w db i db' \<longleftrightarrow> queue_ok db \<and>
     (\<exists>n clk busy locked r. now = clk 0 \<and> rn_id r = i \<and>
        claim_next_run w n clk busy locked db = (Some r, db'))"

definition run_finish :: "pystr \<Rightarrow> cloud_db \<Rightarrow> uuid \<Rightarrow> cloud_db \<Rightarrow> bool" where
  "run_finish w db i db' \<longleftrightarrow> queue_ok db \<and>
     ((\<exists>content mid ameta cmeta lc fresh clk res.
         complete_run i w content mid ameta cmeta lc fresh clk db = Inr (res, db')) \<or>
      (\<exists>e clk r. fail_run i w e clk db = Inr (r, db')) \<or>
      (\<exists>clk r. cancel_owned_run i w clk db = Inr (r, db')))"

text \<open>Everything else that happens to the table: heartbeats, recovery, cancellation requests,
  the insertion of queued Runs, and operations on other tables.\<close>

definition run_other :: "cloud_db \<Rightarrow> cloud_db \<Rightarrow> bool" where
  "run_other db db' \<longleftrightarrow> queue_ok db \<and>
     ((\<exists>i w n now b. heartbeat_run i w n now db = Inr (b, db')) \<or>
      (\<exists>n clk locked k. requeue_expired_runs n clk locked db = (k, db')) \<or>
      (\<exists>u i clk r. request_cancel u i clk db = Inr (r, db')) \<or>
      (\<exists>new. runs db' = runs db @ new \<and> (\<forall>r \<in> set new. rn_status r = RunQueued)))"

lemma row_by_present: "row_by key k t = Some r \<Longrightarrow> row_by key (key r) t = Some r"
  by (metis row_by_SomeD)

lemma run_owner_put:
  assumes "row_by rn_id (rn_id r') (runs db) = Some r"
  shows "run_owner (put_run r' db) j =
      (if j = rn_id r' then (if rn_status r' = RunRunning then rn_lease_owner r' else None)
       else run_owner db j)"
    and "run_expires (put_run r' db) j =
      (if j = rn_id r' then rn_lease_expires_at r' else run_expires db j)"
  using assms by (auto simp: run_owner_def run_expires_def row_by_put_row)

lemma run_owner_cong:
  "runs db' = runs db \<Longrightarrow> run_owner db' = run_owner db"
  "runs db' = runs db \<Longrightarrow> run_expires db' = run_expires db"
  by (simp_all add: run_owner_def run_expires_def fun_eq_iff)

lemma run_owner_log [simp]:
  "run_owner (log_event r ty d t db) = run_owner db"
  "run_expires (log_event r ty d t db) = run_expires db"
  by (rule run_owner_cong, simp add: frame_simps)+

lemma claim_next_run_cases:
  assumes "claim_next_run w n clk busy locked db = (Some r', db')"
  obtains r where "first_row (\<lambda>r. (rn_created_at r, rn_id r))
      (\<lambda>r. rn_status r = RunQueued \<and> rn_conversation_id r \<notin> set busy \<and> rn_id r \<notin> set locked)
      (runs db) = Some r"
    "r' = r\<lparr>rn_status := RunRunning, rn_lease_owner := Some w,
            rn_lease_expires_at := Some (clk 0 + seconds (max 10 n)),
            rn_heartbeat_at := Some (clk 0), rn_started_at := opt_or (rn_started_at r) (clk 0),
            rn_attempt := rn_attempt r + 1\<rparr>"
    "\<not> conversation_running (rn_conversation_id r) db"
    "db' = log_event r' (lit ''run.started'')
             [jstatus ''running'', (lit ''attempt'', JInt (rn_attempt r'))] (clk 1) (put_run r' db)"
  using assms by (auto simp: claim_next_run_def Let_def split: option.splits if_splits)

lemma run_claim_effect:
  assumes "run_claim now w db i db'"
  shows "run_owner db i = None" and "run_owner db' i = Some w"
    and "\<exists>e. run_expires db' i = Some e \<and> now < e"
    and "j \<noteq> i \<Longrightarrow> run_owner db' j = run_owner db j"
proof -
  obtain n clk busy locked r' where c: "queue_ok db" "now = clk 0" "rn_id r' = i"
      "claim_next_run w n clk busy locked db = (Some r', db')"
    using assms by (auto simp: run_claim_def)
  obtain r where r: "first_row (\<lambda>r. (rn_created_at r, rn_id r))
      (\<lambda>r. rn_status r = RunQueued \<and> rn_conversation_id r \<notin> set busy \<and> rn_id r \<notin> set locked)
      (runs db) = Some r"
    "r' = r\<lparr>rn_status := RunRunning, rn_lease_owner := Some w,
            rn_lease_expires_at := Some (clk 0 + seconds (max 10 n)),
            rn_heartbeat_at := Some (clk 0), rn_started_at := opt_or (rn_started_at r) (clk 0),
            rn_attempt := rn_attempt r + 1\<rparr>"
    "db' = log_event r' (lit ''run.started'')
             [jstatus ''running'', (lit ''attempt'', JInt (rn_attempt r'))] (clk 1) (put_run r' db)"
    using c(4) by (rule claim_next_run_cases) blast
  note f = first_row_SomeD [OF r(1)]
  have row: "row_by rn_id (rn_id r') (runs db) = Some r"
    using f c(1) r(2) by (simp add: queue_ok_def runs_ok_row)
  have i: "rn_id r = i" using c(3) r(2) by simp
  show "run_owner db i = None"
    using row f i r(2) by (simp add: run_owner_def)
  show "run_owner db' i = Some w" "j \<noteq> i \<Longrightarrow> run_owner db' j = run_owner db j"
    using run_owner_put(1) [OF row] c(3) r(2) by (simp_all add: r(3) i)
  show "\<exists>e. run_expires db' i = Some e \<and> now < e"
    using run_owner_put(2) [OF row] c(2,3) r(2) by (simp add: r(3) i seconds_def)
qed

text \<open>What a terminal report does to the row it is about.\<close>

lemma run_finish_effect:
  assumes "run_finish w db i db'"
  shows "run_owner db i = Some w" and "run_owner db' i = None"
    and "j \<noteq> i \<Longrightarrow> run_owner db' j = run_owner db j"
proof -
  have "run_owner db i = Some w \<and> run_owner db' i = None \<and>
      (j \<noteq> i \<longrightarrow> run_owner db' j = run_owner db j)" for j
  proof -
    consider (complete) content mid ameta cmeta lc fresh clk r' out where
        "complete_run i w content mid ameta cmeta lc fresh clk db = Inr ((r', out), db')"
      | (fail) e clk r' where "fail_run i w e clk db = Inr (r', db')"
      | (cancel) clk r' where "cancel_owned_run i w clk db = Inr (r', db')"
      using assms by (force simp: run_finish_def)
    then show ?thesis
    proof cases
      case complete
      then show ?thesis
      proof (cases rule: complete_run_cases)
        case (cancelled r)
        have "row_by rn_id (rn_id r') (runs db) = Some r"
          using row_by_present [OF cancelled(1)] by (simp add: cancelled(6))
        moreover have "rn_id r' = i"
          using row_by_SomeD [OF cancelled(1)] by (simp add: cancelled(6))
        ultimately show ?thesis
          using run_owner_put(1) [of r' db r] cancelled(1-3)
          by (simp add: cancelled(6,7) run_owner_def)
      next
        case (completed r c c' m id db1)
        let ?db2 = "enqueue_channel_deliveries (clk 2) m db1"
        have rs: "runs ?db2 = runs db"
          using post_message_queue_frame [OF completed(10)] by (simp add: frame_simps)
        have "row_by rn_id (rn_id r') (runs ?db2) = Some r"
          using row_by_present [OF completed(1)] by (simp add: completed(11) rs)
        moreover have "rn_id r' = i"
          using row_by_SomeD [OF completed(1)] by (simp add: completed(11))
        moreover have "run_owner ?db2 = run_owner db"
          using rs by (rule run_owner_cong)
        ultimately show ?thesis
          using run_owner_put(1) [of r' ?db2 r] completed(1-3)
          by (simp add: completed(11,12) run_owner_def)
      qed
    next
      case fail
      then obtain r where r: "row_by rn_id i (runs db) = Some r" "rn_status r = RunRunning"
          "rn_lease_owner r = Some w"
        by (auto simp: fail_run_def split: option.splits if_splits)
      then have "rn_id r' = i" "rn_status r' \<noteq> RunRunning" "runs db' = runs (put_run r' db)"
        using fail row_by_SomeD [OF r(1)]
        by (auto simp: fail_run_def Let_def frame_simps split: if_splits)
      then show ?thesis
        using run_owner_put(1) [of r' db r] run_owner_cong(1) [of db' "put_run r' db"] r
        by (simp add: run_owner_def)
    next
      case cancel
      then obtain r where r: "row_by rn_id i (runs db) = Some r" "rn_status r = RunRunning"
          "rn_lease_owner r = Some w"
        by (auto simp: cancel_owned_run_def split: option.splits if_splits)
      then have "rn_id r' = i" "rn_status r' \<noteq> RunRunning" "runs db' = runs (put_run r' db)"
        using cancel row_by_SomeD [OF r(1)]
        by (auto simp: cancel_owned_run_def Let_def frame_simps)
      then show ?thesis
        using run_owner_put(1) [of r' db r] run_owner_cong(1) [of db' "put_run r' db"] r
        by (simp add: run_owner_def)
    qed
  qed
  then show "run_owner db i = Some w" and "run_owner db' i = None"
    and "j \<noteq> i \<Longrightarrow> run_owner db' j = run_owner db j" by blast+
qed

lemma row_by_map_recovered:
  "row_by rn_id j (map (\<lambda>x. if rn_id x \<in> S then recovered now x else x) rs) =
   map_option (\<lambda>x. if rn_id x \<in> S then recovered now x else x) (row_by rn_id j rs)"
  by (induction rs) auto

lemma run_other_effect:
  assumes "run_other db db'" and "run_owner db' j = Some v"
  shows "run_owner db j = Some v"
proof -
  have ok: "queue_ok db" using assms(1) by (simp add: run_other_def)
  consider (hb) i w n now b where "heartbeat_run i w n now db = Inr (b, db')"
    | (rq) n clk locked k where "requeue_expired_runs n clk locked db = (k, db')"
    | (rc) u i clk r' where "request_cancel u i clk db = Inr (r', db')"
    | (add) new where "runs db' = runs db @ new" "\<forall>r \<in> set new. rn_status r = RunQueued"
    using assms(1) by (auto simp: run_other_def)
  then show ?thesis
  proof cases
    case hb
    then obtain r where r: "row_by rn_id i (runs db) = Some r"
      by (auto simp: heartbeat_run_def split: option.splits)
    then show ?thesis
      using hb assms(2) row_by_SomeD [OF r]
      by (auto simp: heartbeat_run_def run_owner_def row_by_put_row split: if_splits option.splits)
  next
    case rq
    have "runs db' = map (\<lambda>x. if rn_id x \<in> rn_id ` set (expired_runs n (clk 0) locked db)
        then recovered (clk 0) x else x) (runs db)"
      using rq recover_runs_result [OF ok expired_runs_stored [OF ok]]
      by (auto simp: requeue_expired_runs_def Let_def)
    then show ?thesis
      using assms(2)
      by (auto simp: run_owner_def row_by_map_recovered recovered_def
          split: option.splits if_splits)
  next
    case rc
    then obtain r where r: "find (\<lambda>r. rn_id r = i \<and> rn_user_id r = u) (runs db) = Some r"
      by (auto simp: request_cancel_def split: option.splits)
    show ?thesis
      using rc r queue_ok_find [OF ok r] assms(2)
      by (auto simp: request_cancel_def Let_def run_owner_def row_by_put_row frame_simps
          split: if_splits option.splits)
  next
    case add
    then show ?thesis
      using assms(2)
      by (auto simp: run_owner_def row_by_append split: option.splits if_splits
          dest: row_by_SomeD)
  qed
qed

interpretation rl: leased_table run_owner run_expires run_claim run_finish run_other
proof unfold_locales
  show "run_claim now w s i s' \<Longrightarrow> run_owner s i = Some v \<Longrightarrow>
      \<forall>e. run_expires s i = Some e \<longrightarrow> e \<le> now" for now w s i s' v
    using run_claim_effect(1) by fastforce
qed (auto simp: run_claim_effect run_finish_effect intro: run_other_effect)

end
