(* ===== verification/CloudSample.thy ===== *)
theory CloudSample
  imports CloudRuns
begin

text \<open>
  A small concrete database for the applications of the theorems: one user with one conversation,
  one channel link on it, and a Run on its first message in each of the interesting states.
\<close>

definition sm_user :: user_row where
  "sm_user = \<lparr>us_id = [1], us_email = [9], us_password_hash = [], us_created_at = 0\<rparr>"

definition sm_conv :: conversation_row where
  "sm_conv = \<lparr>cv_id = [2], cv_user_id = [1], cv_title = [], cv_next_message_seq = 2,
     cv_agent_metadata = [], cv_last_consolidated = 0, cv_created_at = 0, cv_updated_at = 0\<rparr>"

definition sm_input :: message_row where
  "sm_input = \<lparr>ms_id = [3], ms_conversation_id = [2], ms_seq = 1, ms_role = RoleUser,
     ms_content = [104], ms_agent_metadata = [], ms_delivery_key = None, ms_created_at = 0\<rparr>"

definition sm_link :: link_row where
  "sm_link = \<lparr>lk_id = [5], lk_user_id = [1], lk_conversation_id = [2], lk_provider = lit ''qq'',
     lk_external_user_id = [6], lk_external_chat_id = [7], lk_display_name = [],
     lk_enabled = True, lk_created_at = 0\<rparr>"

definition sm_queued :: run_row where
  "sm_queued = \<lparr>rn_id = [4], rn_user_id = [1], rn_conversation_id = [2],
     rn_input_message_id = [3], rn_output_message_id = None, rn_status = RunQueued,
     rn_lease_owner = None, rn_lease_expires_at = None, rn_heartbeat_at = None, rn_attempt = 0,
     rn_cancel_requested_at = None, rn_error = None, rn_idempotency_key = Some [107],
     rn_created_at = 0, rn_started_at = None, rn_completed_at = None\<rparr>"

definition sm_running :: run_row where
  "sm_running = sm_queued\<lparr>rn_status := RunRunning, rn_lease_owner := Some [119],
     rn_lease_expires_at := Some 10000000, rn_heartbeat_at := Some 0, rn_started_at := Some 0,
     rn_attempt := 1\<rparr>"

definition sm_db :: "run_row list \<Rightarrow> cloud_db" where
  "sm_db rs = empty_db\<lparr>users := [sm_user], conversations := [sm_conv], messages := [sm_input],
     links := [sm_link], runs := rs\<rparr>"

lemmas sm_defs = sm_user_def sm_conv_def sm_input_def sm_link_def sm_queued_def sm_running_def
  sm_db_def empty_db_def

lemma sm_frame [simp]:
  "runs (sm_db rs) = rs" "run_events (sm_db rs) = []" "messages (sm_db rs) = [sm_input]"
  "conversations (sm_db rs) = [sm_conv]" "links (sm_db rs) = [sm_link]" "users (sm_db rs) = [sm_user]"
  "deliveries (sm_db rs) = []" "jobs (sm_db rs) = []" "files (sm_db rs) = []"
  "automations (sm_db rs) = []" "inbounds (sm_db rs) = []" "pairings (sm_db rs) = []"
  "next_delivery_id (sm_db rs) = 1" "next_inbound_id (sm_db rs) = 1"
  by (simp_all add: sm_defs)

lemma sm_queue_ok [simp]:
  "queue_ok (sm_db [sm_queued])" "queue_ok (sm_db [sm_running])" "queue_ok (sm_db [])"
  "queue_ok (sm_db [sm_running\<lparr>rn_cancel_requested_at := Some 5\<rparr>])"
  by (simp_all add: queue_ok_def runs_ok_def run_ok_def run_clash_def events_ok_def run_seqs_def
      sm_queued_def sm_running_def)

lemma sm_msgs_ok [simp]: "msgs_ok (sm_db rs)"
  by (simp add: msgs_ok_def conv_seqs_def sm_conv_def sm_input_def upto_int_def)

lemma sm_tenants_ok [simp]: "tenants_ok (sm_db [])" "tenants_ok (sm_db [sm_queued])"
  "tenants_ok (sm_db [sm_running])"
  by (simp_all add: tenants_ok_def tenant_refs_def owner_pairs_def sm_defs)

end
