(* ===== verification/CloudAdmission.thy ===== *)
theory CloudAdmission
  imports CloudRuns
begin

text \<open>
  Conversations, files and the admission of passive input in \<open>src/cloud/store.py\<close>: a user
  message and its queued Run are committed together, once per idempotency key or channel event.
\<close>

section \<open>Conversations and files\<close>

definition create_conversation ::
  "uuid \<Rightarrow> pystr \<Rightarrow> uuid \<Rightarrow> clock \<Rightarrow> cloud_db \<Rightarrow> (conversation_row \<times> cloud_db) res" where
  "create_conversation user_id title fresh clk db =
     (let c = \<lparr>cv_id = fresh, cv_user_id = user_id,
               cv_title = or_else (take 200 (strip title)) (lit ''New conversation''),
               cv_next_message_seq = 1, cv_agent_metadata = [], cv_last_consolidated = 0,
               cv_created_at = clk 0, cv_updated_at = clk 1\<rparr>
      in if fresh \<in> cv_id ` set (conversations db) \<or> user_id \<notin> us_id ` set (users db)
         then Inl IntegrityError
         else Inr (c, db\<lparr>conversations := conversations db @ [c]\<rparr>))"

definition list_conversations :: "uuid \<Rightarrow> int \<Rightarrow> cloud_db \<Rightarrow> conversation_row list" where
  "list_conversations user_id limit db =
     take (nat (max 1 (min 100 limit)))
       (rev (sort_key (\<lambda>c. (cv_updated_at c, cv_id c))
         (filter (\<lambda>c. cv_user_id c = user_id) (conversations db))))"

definition owned_conversation :: "uuid \<Rightarrow> uuid \<Rightarrow> cloud_db \<Rightarrow> conversation_row option" where
  "owned_conversation user_id conversation_id db =
     find (\<lambda>c. cv_id c = conversation_id \<and> cv_user_id c = user_id) (conversations db)"

definition get_conversation :: "uuid \<Rightarrow> uuid \<Rightarrow> cloud_db \<Rightarrow> conversation_row res" where
  "get_conversation user_id conversation_id db =
     (case owned_conversation user_id conversation_id db of
        None \<Rightarrow> Inl (StoreNotFoundError (lit ''conversation not found''))
      | Some c \<Rightarrow> Inr c)"

definition list_messages ::
  "uuid \<Rightarrow> uuid \<Rightarrow> int option \<Rightarrow> int \<Rightarrow> cloud_db \<Rightarrow> message_row list res" where
  "list_messages user_id conversation_id before_seq limit db =
     (case get_conversation user_id conversation_id db of
        Inl e \<Rightarrow> Inl e
      | Inr c \<Rightarrow>
          Inr (rev (take (nat (max 1 (min 500 limit)))
                (rev (sort_key ms_seq
                  (filter (\<lambda>m. ms_conversation_id m = conversation_id \<and>
                       (case before_seq of None \<Rightarrow> True | Some b \<Rightarrow> ms_seq m < max 1 b))
                    (messages db)))))))"

definition create_user_file ::
  "uuid \<Rightarrow> uuid \<Rightarrow> pystr \<Rightarrow> pystr \<Rightarrow> pystr \<Rightarrow> int \<Rightarrow> pystr \<Rightarrow> uuid \<Rightarrow> instant \<Rightarrow> cloud_db \<Rightarrow>
   (file_row \<times> cloud_db) res" where
  "create_user_file user_id conversation_id workspace_path filename content_type size_bytes
       sha256_hex fresh t db =
     (case owned_conversation user_id conversation_id db of
        None \<Rightarrow> Inl (StoreNotFoundError (lit ''conversation not found''))
      | Some c \<Rightarrow>
          (let item = \<lparr>fl_id = fresh, fl_user_id = user_id, fl_conversation_id = conversation_id,
                       fl_workspace_path = workspace_path, fl_filename = filename,
                       fl_content_type = content_type, fl_size_bytes = size_bytes,
                       fl_sha256 = sha256_hex, fl_created_at = t\<rparr>
           in if fresh \<in> fl_id ` set (files db) then Inl IntegrityError
              else Inr (item, db\<lparr>files := files db @ [item]\<rparr>)))"

definition get_user_file :: "uuid \<Rightarrow> uuid \<Rightarrow> cloud_db \<Rightarrow> file_row res" where
  "get_user_file user_id file_id db =
     (case find (\<lambda>f. fl_id f = file_id \<and> fl_user_id f = user_id) (files db) of
        None \<Rightarrow> Inl (StoreNotFoundError (lit ''file not found''))
      | Some f \<Rightarrow> Inr f)"

section \<open>Shared parts of an admission\<close>

definition insert_run :: "run_row \<Rightarrow> cloud_db \<Rightarrow> cloud_db res" where
  "insert_run r db =
     (if \<exists>r' \<in> set (runs db). run_clash r r' then Inl IntegrityError
      else Inr (db\<lparr>runs := runs db @ [r]\<rparr>))"

definition queued_run ::
  "uuid \<Rightarrow> uuid \<Rightarrow> uuid \<Rightarrow> uuid \<Rightarrow> pystr option \<Rightarrow> instant \<Rightarrow> run_row" where
  "queued_run i user_id conversation_id message_id key t =
     \<lparr>rn_id = i, rn_user_id = user_id, rn_conversation_id = conversation_id,
      rn_input_message_id = message_id, rn_output_message_id = None, rn_status = RunQueued,
      rn_lease_owner = None, rn_lease_expires_at = None, rn_heartbeat_at = None,
      rn_attempt = 0, rn_cancel_requested_at = None, rn_error = None,
      rn_idempotency_key = key, rn_created_at = t, rn_started_at = None,
      rn_completed_at = None\<rparr>"

definition attachment :: "file_row \<Rightarrow> json" where
  "attachment f = JObj
     [(lit ''id'', JStr (fl_id f)), (lit ''path'', JStr (fl_workspace_path f)),
      (lit ''filename'', JStr (fl_filename f)), (lit ''content_type'', JStr (fl_content_type f)),
      (lit ''size_bytes'', JInt (fl_size_bytes f))]"

text \<open>The files a message names: all of them must be the user's, in this conversation.\<close>

definition resolve_files ::
  "pystr \<Rightarrow> uuid \<Rightarrow> uuid \<Rightarrow> uuid list \<Rightarrow> cloud_db \<Rightarrow> file_row list res" where
  "resolve_files missing user_id conversation_id file_ids db =
     (let found = filter (\<lambda>f. fl_id f \<in> set file_ids \<and> fl_user_id f = user_id \<and>
                       fl_conversation_id f = conversation_id) (files db)
      in if file_ids = [] then Inr []
         else if length (remdups (map fl_id found)) \<noteq> length (remdups file_ids)
         then Inl (StoreNotFoundError missing)
         else Inr found)"

section \<open>Browser messages\<close>

definition normal_key :: "pystr option \<Rightarrow> pystr option" where
  "normal_key k = (case k of None \<Rightarrow> None
     | Some s \<Rightarrow> (let t = strip s in if t = [] then None else Some t))"

definition key_invalid :: "pystr \<Rightarrow> bool" where
  "key_invalid k \<longleftrightarrow> 128 < length k \<or> (\<exists>c \<in> set k. c < 33)"

definition find_submission :: "uuid \<Rightarrow> pystr \<Rightarrow> run_row list \<Rightarrow> run_row option" where
  "find_submission user_id key rs =
     find (\<lambda>r. rn_user_id r = user_id \<and> rn_idempotency_key r = Some key) rs"

definition replay_submission ::
  "uuid \<Rightarrow> run_row \<Rightarrow> cloud_db \<Rightarrow> (message_row \<times> run_row) res" where
  "replay_submission conversation_id r db =
     (if rn_conversation_id r \<noteq> conversation_id
      then Inl (StoreConflictError (lit ''Idempotency-Key belongs to another conversation''))
      else case row_by ms_id (rn_input_message_id r) (messages db) of
             None \<Rightarrow> Inl (StoreStateError (lit ''idempotent Run input is missing''))
           | Some m \<Rightarrow> Inr (m, r))"

text \<open>A passive message revokes the lease of background work, but keeps its tick token.\<close>

definition revoke_automation :: "uuid \<Rightarrow> instant \<Rightarrow> instant \<Rightarrow> cloud_db \<Rightarrow> cloud_db" where
  "revoke_automation conversation_id now updated db =
     (case row_by at_conversation_id conversation_id (automations db) of
        None \<Rightarrow> db
      | Some a \<Rightarrow>
          if at_lease_owner a = None then db
          else db\<lparr>automations := put_row at_conversation_id
                    (a\<lparr>at_lease_owner := None, at_lease_expires_at := None,
                       at_next_tick_at := now, at_updated_at := updated\<rparr>) (automations db)\<rparr>)"

text \<open>The transaction body once no earlier submission was seen.\<close>

definition submit_new ::
  "uuid \<Rightarrow> uuid \<Rightarrow> pystr \<Rightarrow> pystr option \<Rightarrow> uuid list \<Rightarrow> uuid \<Rightarrow> uuid \<Rightarrow> clock \<Rightarrow> cloud_db \<Rightarrow>
   ((message_row \<times> run_row) \<times> cloud_db) res" where
  "submit_new user_id conversation_id content key file_ids mid rid clk db =
     (case owned_conversation user_id conversation_id db of
        None \<Rightarrow> Inl (StoreNotFoundError (lit ''conversation not found''))
      | Some c \<Rightarrow>
          (case resolve_files (lit ''one or more files were not found'') user_id conversation_id
                  file_ids db of
             Inl e \<Rightarrow> Inl e
           | Inr fs \<Rightarrow>
               (case post_message mid c RoleUser content
                       [(lit ''attachments'', JArr (map attachment fs)),
                        (lit ''media'', JArr (map (\<lambda>f. JStr (fl_workspace_path f)) fs))]
                       None (clk 0) (clk 3) (revoke_automation (cv_id c) (clk 1) (clk 2) db) of
                  Inl e \<Rightarrow> Inl e
                | Inr (m, db1) \<Rightarrow>
                    (let r = queued_run rid user_id (cv_id c) (ms_id m) key (clk 4)
                     in case insert_run r db1 of
                          Inl e \<Rightarrow> Inl e
                        | Inr db2 \<Rightarrow>
                            Inr ((m, r),
                                 log_event r (lit ''run.queued'')
                                   [jstatus ''queued'', (lit ''input_message_id'', JStr (ms_id m))]
                                   (clk 5) db2)))))"

text \<open>
  \<open>seen\<close> is what the first query's snapshot shows of the Run table; it may lack a Run that a
  concurrent submission commits before the insert, and then the unique constraint raises
  \<open>IntegrityError\<close> and the committed Run is read again.
\<close>

definition append_user_message_and_run ::
  "uuid \<Rightarrow> uuid \<Rightarrow> pystr \<Rightarrow> pystr option \<Rightarrow> uuid list option \<Rightarrow> run_row list \<Rightarrow> uuid \<Rightarrow> uuid \<Rightarrow>
   clock \<Rightarrow> cloud_db \<Rightarrow> ((message_row \<times> run_row) \<times> cloud_db) res" where
  "append_user_message_and_run user_id conversation_id content idempotency_key file_ids seen
       mid rid clk db =
     (let fids = (case file_ids of None \<Rightarrow> [] | Some l \<Rightarrow> l);
          key = normal_key idempotency_key
      in if strip content = [] \<and> fids = []
         then Inl (ValueError (lit ''message content or file_ids must not be empty''))
         else if (case key of None \<Rightarrow> False | Some k \<Rightarrow> key_invalid k)
         then Inl (ValueError (lit ''invalid Idempotency-Key''))
         else
           (case (case key of None \<Rightarrow> None | Some k \<Rightarrow> find_submission user_id k seen) of
              Some r \<Rightarrow>
                (case replay_submission conversation_id r db of
                   Inl e \<Rightarrow> Inl e | Inr mr \<Rightarrow> Inr (mr, db))
            | None \<Rightarrow>
                (case submit_new user_id conversation_id content key fids mid rid clk db of
                   Inr out \<Rightarrow> Inr out
                 | Inl IntegrityError \<Rightarrow>
                     (case key of
                        None \<Rightarrow> Inl IntegrityError
                      | Some k \<Rightarrow>
                          (case find_submission user_id k (runs db) of
                             None \<Rightarrow> Inl IntegrityError
                           | Some r \<Rightarrow>
                               (case replay_submission conversation_id r db of
                                  Inl e \<Rightarrow> Inl e | Inr mr \<Rightarrow> Inr (mr, db))))
                 | Inl e \<Rightarrow> Inl e)))"

section \<open>Channel messages\<close>

definition find_inbound :: "pystr \<Rightarrow> pystr \<Rightarrow> inbound_row list \<Rightarrow> inbound_row option" where
  "find_inbound provider event_id rows =
     find (\<lambda>e. ib_provider e = provider \<and> ib_external_event_id e = event_id) rows"

definition channel_key :: "pystr \<Rightarrow> pystr \<Rightarrow> pystr" where
  "channel_key provider event_id =
     take 128 (lit ''channel:'' @ provider @ lit '':'' @ event_id)"

definition insert_inbound :: "pystr \<Rightarrow> pystr \<Rightarrow> uuid \<Rightarrow> uuid \<Rightarrow> instant \<Rightarrow> cloud_db \<Rightarrow> cloud_db res" where
  "insert_inbound provider event_id link_id message_id t db =
     (if \<exists>e \<in> set (inbounds db). ib_provider e = provider \<and> ib_external_event_id e = event_id
      then Inl IntegrityError
      else Inr (db\<lparr>inbounds := inbounds db @
                     [\<lparr>ib_id = next_inbound_id db, ib_provider = provider,
                       ib_external_event_id = event_id, ib_link_id = link_id,
                       ib_message_id = message_id, ib_created_at = t\<rparr>],
                   next_inbound_id := Suc (next_inbound_id db)\<rparr>))"

definition find_link :: "pystr \<Rightarrow> pystr \<Rightarrow> cloud_db \<Rightarrow> link_row option" where
  "find_link provider chat_id db =
     find (\<lambda>l. lk_provider l = provider \<and> lk_external_chat_id l = chat_id \<and> lk_enabled l) (links db)"

definition ingest_new ::
  "pystr \<Rightarrow> pystr \<Rightarrow> pystr \<Rightarrow> pystr \<Rightarrow> uuid list \<Rightarrow> uuid \<Rightarrow> uuid \<Rightarrow> clock \<Rightarrow> cloud_db \<Rightarrow>
   ((message_row \<times> run_row) \<times> cloud_db) res" where
  "ingest_new provider event_id chat_id content file_ids mid rid clk db =
     (case find_link provider chat_id db of
        None \<Rightarrow> Inl (StoreNotFoundError (lit ''channel chat is not linked''))
      | Some l \<Rightarrow>
          (case row_by cv_id (lk_conversation_id l) (conversations db) of
             None \<Rightarrow> Inl (StoreStateError (lit ''channel conversation is missing''))
           | Some c \<Rightarrow>
               (case resolve_files (lit ''one or more channel files were not found'')
                       (lk_user_id l) (cv_id c) file_ids db of
                  Inl e \<Rightarrow> Inl e
                | Inr fs \<Rightarrow>
                    (case post_message mid c RoleUser content
                            [(lit ''channel'', JStr provider),
                             (lit ''channel_link_id'', JStr (lk_id l)),
                             (lit ''attachments'', JArr (map attachment fs)),
                             (lit ''media'', JArr (map (\<lambda>f. JStr (fl_workspace_path f)) fs))]
                            None (clk 0) (clk 1) db of
                       Inl e \<Rightarrow> Inl e
                     | Inr (m, db1) \<Rightarrow>
                         (let r = queued_run rid (lk_user_id l) (cv_id c) (ms_id m)
                                    (Some (channel_key provider event_id)) (clk 2)
                          in case insert_run r db1 of
                               Inl e \<Rightarrow> Inl e
                             | Inr db2 \<Rightarrow>
                                 (case insert_inbound provider event_id (lk_id l) (ms_id m)
                                         (clk 3) db2 of
                                    Inl e \<Rightarrow> Inl e
                                  | Inr db3 \<Rightarrow>
                                      Inr ((m, r),
                                           log_event r (lit ''run.queued'')
                                             [jstatus ''queued'', (lit ''channel'', JStr provider)]
                                             (clk 4) db3)))))))"

definition ingest_channel_message ::
  "pystr \<Rightarrow> pystr \<Rightarrow> pystr \<Rightarrow> pystr \<Rightarrow> uuid list option \<Rightarrow> inbound_row list \<Rightarrow> uuid \<Rightarrow> uuid \<Rightarrow>
   clock \<Rightarrow> cloud_db \<Rightarrow> ((message_row \<times> run_row option \<times> bool) \<times> cloud_db) res" where
  "ingest_channel_message provider event_id chat_id content file_ids seen mid rid clk db =
     (if strip content = [] then Inl (ValueError (lit ''channel message must not be blank''))
      else case find_inbound provider event_id seen of
        Some e \<Rightarrow>
          (case (row_by ms_id (ib_message_id e) (messages db),
                 row_by rn_input_message_id (ib_message_id e) (runs db)) of
             (Some m, Some r) \<Rightarrow> Inr ((m, Some r, False), db)
           | _ \<Rightarrow> Inl (StoreStateError (lit ''channel idempotency record is incomplete'')))
      | None \<Rightarrow>
          (case ingest_new provider event_id chat_id content
                  (case file_ids of None \<Rightarrow> [] | Some l \<Rightarrow> l) mid rid clk db of
             Inr ((m, r), db') \<Rightarrow> Inr ((m, Some r, True), db')
           | Inl IntegrityError \<Rightarrow>
               (case find_inbound provider event_id (inbounds db) of
                  None \<Rightarrow> Inl IntegrityError
                | Some e \<Rightarrow>
                    (case row_by ms_id (ib_message_id e) (messages db) of
                       None \<Rightarrow> Inl (AttributeError (lit ''id''))
                     | Some m \<Rightarrow>
                         Inr ((m, row_by rn_input_message_id (ms_id m) (runs db), False), db)))
           | Inl e \<Rightarrow> Inl e))"

section \<open>Admission keeps the invariants\<close>

lemma owned_conversationD:
  "owned_conversation u c db = Some x \<Longrightarrow> x \<in> set (conversations db) \<and> cv_id x = c \<and> cv_user_id x = u"
  by (auto simp: owned_conversation_def find_Some_iff)

lemma msgs_ok_conversation:
  "msgs_ok db \<Longrightarrow> x \<in> set (conversations db) \<Longrightarrow> row_by cv_id (cv_id x) (conversations db) = Some x"
  by (simp add: msgs_ok_def row_by_unique)

lemma msgs_ok_cong:
  "conversations db' = conversations db \<Longrightarrow> messages db' = messages db \<Longrightarrow> msgs_ok db' = msgs_ok db"
  by (simp add: msgs_ok_def conv_seqs_def)

lemma queued_run_ok [simp]: "run_ok (queued_run i u c m k t)" "rn_status (queued_run i u c m k t) = RunQueued"
  "rn_id (queued_run i u c m k t) = i" "rn_user_id (queued_run i u c m k t) = u"
  "rn_conversation_id (queued_run i u c m k t) = c" "rn_input_message_id (queued_run i u c m k t) = m"
  "rn_idempotency_key (queued_run i u c m k t) = k"
  by (simp_all add: queued_run_def run_ok_def)

lemma insert_runD:
  "insert_run r db = Inr db' \<Longrightarrow>
   db' = db\<lparr>runs := runs db @ [r]\<rparr> \<and> (\<forall>r' \<in> set (runs db). \<not> run_clash r r')"
  by (auto simp: insert_run_def split: if_splits)

lemma queue_ok_insert:
  assumes ok: "queue_ok db" and r: "run_ok r" and ins: "insert_run r db = Inr db'"
  shows "queue_ok db'" and "r \<in> set (runs db')"
proof -
  have d: "db' = db\<lparr>runs := runs db @ [r]\<rparr>" "\<forall>r' \<in> set (runs db). \<not> run_clash r r'"
    using insert_runD [OF ins] by auto
  show "r \<in> set (runs db')" by (simp add: d(1))
  have no: "\<not> run_clash r x" "\<not> run_clash x r" if "x \<in> set (runs db)" for x
    using d(2) that by (auto simp: run_clash_def)
  have old: "run_clash a b \<longrightarrow> rn_id a = rn_id b" if "a \<in> set (runs db)" "b \<in> set (runs db)" for a b
    using ok that by (simp add: queue_ok_def runs_ok_def)
  have "rn_id r \<notin> rn_id ` set (runs db)"
    using no(1) unfolding run_clash_def by blast
  moreover have "distinct (map rn_id (runs db))"
    using ok by (simp add: runs_ok_def queue_ok_def)
  ultimately have "distinct (map rn_id (runs db @ [r]))" by simp
  moreover have "\<forall>x \<in> set (runs db @ [r]). run_ok x"
    using ok r by (simp add: queue_ok_def runs_ok_def)
  moreover have "\<forall>a \<in> set (runs db @ [r]). \<forall>b \<in> set (runs db @ [r]). run_clash a b \<longrightarrow> rn_id a = rn_id b"
    using old no by simp
  ultimately have "runs_ok (runs db @ [r])"
    by (simp only: runs_ok_def)
  moreover have "events_ok db'"
    using ok by (auto simp: d(1) queue_ok_def events_ok_def run_seqs_def)
  ultimately show "queue_ok db'" by (simp add: d(1) queue_ok_def)
qed

lemma revoke_automation_frame [frame_simps]:
  "conversations (revoke_automation c t u db) = conversations db"
  "messages (revoke_automation c t u db) = messages db"
  "runs (revoke_automation c t u db) = runs db"
  "run_events (revoke_automation c t u db) = run_events db"
  "users (revoke_automation c t u db) = users db"
  "links (revoke_automation c t u db) = links db"
  "inbounds (revoke_automation c t u db) = inbounds db"
  "jobs (revoke_automation c t u db) = jobs db"
  "subagents (revoke_automation c t u db) = subagents db"
  "deliveries (revoke_automation c t u db) = deliveries db"
  by (auto simp: revoke_automation_def split: option.splits)

text \<open>A successful submission: one message, one queued Run on it, one event.\<close>

lemma submit_new_cases:
  assumes "submit_new u cid content key fids mid rid clk db = Inr ((m, r), db')"
  obtains c fs db1 where
    "owned_conversation u cid db = Some c"
    "resolve_files (lit ''one or more files were not found'') u cid fids db = Inr fs"
    "post_message mid c RoleUser content
       [(lit ''attachments'', JArr (map attachment fs)),
        (lit ''media'', JArr (map (\<lambda>f. JStr (fl_workspace_path f)) fs))]
       None (clk 0) (clk 3) (revoke_automation cid (clk 1) (clk 2) db) = Inr (m, db1)"
    "r = queued_run rid u cid (ms_id m) key (clk 4)"
    "\<forall>r' \<in> set (runs db1). \<not> run_clash r r'"
    "db' = log_event r (lit ''run.queued'')
       [jstatus ''queued'', (lit ''input_message_id'', JStr (ms_id m))] (clk 5)
       (db1\<lparr>runs := runs db1 @ [r]\<rparr>)"
proof -
  obtain c where c: "owned_conversation u cid db = Some c"
    using assms by (auto simp: submit_new_def split: option.splits)
  then have cid: "cv_id c = cid" by (auto dest: owned_conversationD)
  obtain fs where fs: "resolve_files (lit ''one or more files were not found'') u cid fids db = Inr fs"
    using assms c by (auto simp: submit_new_def split: sum.splits)
  obtain m1 db1 where p: "post_message mid c RoleUser content
       [(lit ''attachments'', JArr (map attachment fs)),
        (lit ''media'', JArr (map (\<lambda>f. JStr (fl_workspace_path f)) fs))]
       None (clk 0) (clk 3) (revoke_automation cid (clk 1) (clk 2) db) = Inr (m1, db1)"
    using assms c fs cid by (auto simp: submit_new_def split: sum.splits)
  obtain db2 where i: "insert_run (queued_run rid u cid (ms_id m1) key (clk 4)) db1 = Inr db2"
    using assms c fs cid p by (auto simp: submit_new_def Let_def split: sum.splits)
  have m: "m1 = m" "r = queued_run rid u cid (ms_id m1) key (clk 4)"
    and db': "db' = log_event r (lit ''run.queued'')
       [jstatus ''queued'', (lit ''input_message_id'', JStr (ms_id m))] (clk 5) db2"
    using assms unfolding submit_new_def c option.case fs sum.case cid p prod.case Let_def i by auto
  show ?thesis
    using insert_runD [OF i] by (intro that [OF c fs p [unfolded m(1)]]) (simp_all add: m db')
qed

lemma submit_new_ok:
  assumes q: "queue_ok db" and ms: "msgs_ok db"
    and s: "submit_new u cid content key fids mid rid clk db = Inr ((m, r), db')"
  shows "queue_ok db'" and "msgs_ok db'"
proof -
  let ?db0 = "revoke_automation cid (clk 1) (clk 2) db"
  from s obtain c fs db1 where c: "owned_conversation u cid db = Some c"
    and p: "post_message mid c RoleUser content
       [(lit ''attachments'', JArr (map attachment fs)),
        (lit ''media'', JArr (map (\<lambda>f. JStr (fl_workspace_path f)) fs))]
       None (clk 0) (clk 3) ?db0 = Inr (m, db1)"
    and r: "r = queued_run rid u cid (ms_id m) key (clk 4)" "\<forall>r' \<in> set (runs db1). \<not> run_clash r r'"
    and db': "db' = log_event r (lit ''run.queued'')
       [jstatus ''queued'', (lit ''input_message_id'', JStr (ms_id m))] (clk 5)
       (db1\<lparr>runs := runs db1 @ [r]\<rparr>)"
    by (rule submit_new_cases)
  note fr = post_message_queue_frame [OF p]
  have "queue_ok db1"
    using q fr by (subst queue_ok_cong [of _ db]) (auto simp: frame_simps)
  moreover have "insert_run r db1 = Inr (db1\<lparr>runs := runs db1 @ [r]\<rparr>)"
    using r(2) by (auto simp: insert_run_def)
  ultimately have "queue_ok (db1\<lparr>runs := runs db1 @ [r]\<rparr>)"
    using queue_ok_insert(1) r(1) by (metis queued_run_ok(1))
  then show "queue_ok db'"
    unfolding db' by (simp add: queue_ok_def frame_simps events_ok_log)
  have "msgs_ok ?db0"
    using ms by (subst msgs_ok_cong [of _ db]) (auto simp: frame_simps)
  moreover have "row_by cv_id (cv_id c) (conversations ?db0) = Some c"
    unfolding revoke_automation_frame
    using msgs_ok_conversation [OF ms conjunct1 [OF owned_conversationD [OF c]]] .
  ultimately have "msgs_ok db1" by (rule msgs_ok_post [OF _ _ refl p])
  then show "msgs_ok db'"
    unfolding db' by (subst msgs_ok_cong [of _ db1]) (auto simp: frame_simps)
qed

text \<open>Whatever the snapshot shows, a successful call is either a new submission or a replay that
  changes nothing.\<close>

lemma append_user_message_and_run_cases:
  assumes "append_user_message_and_run u cid content ikey fids seen mid rid clk db = Inr ((m, r), db')"
  obtains (fresh) "submit_new u cid content (normal_key ikey)
      (case fids of None \<Rightarrow> [] | Some l \<Rightarrow> l) mid rid clk db = Inr ((m, r), db')"
  | (replay) k where "normal_key ikey = Some k" "db' = db"
      "find_submission u k seen = Some r \<or> find_submission u k (runs db) = Some r"
      "replay_submission cid r db = Inr (m, r)"
proof -
  let ?f = "case fids of None \<Rightarrow> [] | Some l \<Rightarrow> l"
  have same: "y = (m, x)" if "replay_submission cid x db = Inr y" "y = (m, r)" for x y
    using that by (auto simp: replay_submission_def split: if_splits option.splits)
  show ?thesis
  proof (cases "case normal_key ikey of None \<Rightarrow> None | Some k \<Rightarrow> find_submission u k seen")
    case (Some x)
    then obtain k where k: "normal_key ikey = Some k" "find_submission u k seen = Some x"
      by (cases "normal_key ikey") auto
    have a: "replay_submission cid x db = Inr (m, r)" "db' = db"
      using assms k by (auto simp: append_user_message_and_run_def Let_def split: if_splits sum.splits)
    then have "x = r" by (auto dest: same)
    then show ?thesis using replay k a by auto
  next
    case None
    show ?thesis
    proof (cases "submit_new u cid content (normal_key ikey) ?f mid rid clk db")
      case (Inr out)
      then show ?thesis
        using assms None fresh
        by (auto simp: append_user_message_and_run_def Let_def split: if_splits)
    next
      case (Inl e)
      then have "e = IntegrityError"
        using assms None
        by (cases e) (auto simp: append_user_message_and_run_def Let_def split: if_splits)
      then obtain k x where k: "normal_key ikey = Some k" "find_submission u k (runs db) = Some x"
        using assms None Inl
        by (auto simp: append_user_message_and_run_def Let_def split: if_splits option.splits)
      have a: "replay_submission cid x db = Inr (m, r)" "db' = db"
        using assms None Inl k \<open>e = IntegrityError\<close>
        by (auto simp: append_user_message_and_run_def Let_def split: if_splits sum.splits)
      then have "x = r" by (auto dest: same)
      then show ?thesis using replay k a by auto
    qed
  qed
qed

lemma append_user_message_and_run_ok:
  assumes "queue_ok db" and "msgs_ok db"
    and "append_user_message_and_run u cid content ikey fids seen mid rid clk db = Inr ((m, r), db')"
  shows "queue_ok db'" and "msgs_ok db'"
proof -
  from assms(3) have "queue_ok db' \<and> msgs_ok db'"
  proof (cases rule: append_user_message_and_run_cases)
    case fresh
    from submit_new_ok [OF assms(1,2) this] show ?thesis by simp
  next
    case (replay k)
    then show ?thesis using assms(1,2) by simp
  qed
  then show "queue_ok db'" "msgs_ok db'" by blast+
qed

text \<open>Admission only names pairs that own each other.\<close>

lemma owned_conversation_pair: "owned_conversation u c db = Some x \<Longrightarrow> (u, c) \<in> owner_pairs db"
  using owned_conversationD by (force simp: owner_pairs_def)

lemma owner_pair_conversation:
  assumes "(u, c) \<in> owner_pairs db" obtains x where "owned_conversation u c db = Some x"
proof (cases "owned_conversation u c db")
  case None
  then show ?thesis using assms by (auto simp: owned_conversation_def owner_pairs_def find_None_iff)
qed

lemma revoke_automation_tenants:
  "owner_pairs (revoke_automation c t u db) = owner_pairs db"
  "tenant_refs (revoke_automation c t u db) \<subseteq> tenant_refs db"
proof -
  show "owner_pairs (revoke_automation c t u db) = owner_pairs db"
    by (simp add: owner_pairs_def frame_simps)
  show "tenant_refs (revoke_automation c t u db) \<subseteq> tenant_refs db"
  proof (cases "row_by at_conversation_id c (automations db)")
    case (Some a)
    let ?a = "a\<lparr>at_lease_owner := None, at_lease_expires_at := None, at_next_tick_at := t, at_updated_at := u\<rparr>"
    let ?f = "\<lambda>r. (at_user_id r, at_conversation_id r)"
    have "?f ` set (put_row at_conversation_id ?a (automations db)) \<subseteq> insert (?f ?a) (?f ` set (automations db))"
      by (rule put_row_image_subset)
    also have "\<dots> \<subseteq> ?f ` set (automations db)" using row_by_SomeD [OF Some] by auto
    finally show ?thesis using Some by (auto simp: revoke_automation_def tenant_refs_def)
  qed (simp add: revoke_automation_def)
qed

lemma submit_new_tenants:
  assumes ms: "msgs_ok db" and t: "tenants_ok db"
    and s: "submit_new u cid content key fids mid rid clk db = Inr ((m, r), db')"
  shows "tenants_ok db'" and "(u, cid) \<in> owner_pairs db'"
proof -
  let ?db0 = "revoke_automation cid (clk 1) (clk 2) db"
  from s obtain c fs db1 where c: "owned_conversation u cid db = Some c"
    and "resolve_files (lit ''one or more files were not found'') u cid fids db = Inr fs"
    and p: "post_message mid c RoleUser content
       [(lit ''attachments'', JArr (map attachment fs)),
        (lit ''media'', JArr (map (\<lambda>f. JStr (fl_workspace_path f)) fs))]
       None (clk 0) (clk 3) ?db0 = Inr (m, db1)"
    and r: "r = queued_run rid u cid (ms_id m) key (clk 4)"
    and "\<forall>r' \<in> set (runs db1). \<not> run_clash r r'"
    and db': "db' = log_event r (lit ''run.queued'')
       [jstatus ''queued'', (lit ''input_message_id'', JStr (ms_id m))] (clk 5)
       (db1\<lparr>runs := runs db1 @ [r]\<rparr>)"
    by (rule submit_new_cases)
  have row: "row_by cv_id (cv_id c) (conversations ?db0) = Some c"
    unfolding revoke_automation_frame
    using msgs_ok_conversation [OF ms conjunct1 [OF owned_conversationD [OF c]]] .
  have "distinct (map cv_id (conversations ?db0))" using ms by (simp add: msgs_ok_def frame_simps)
  note pt = post_message_tenants [OF p row refl this]
  have op: "owner_pairs db' = owner_pairs db"
    unfolding db' tenant_refs_log tenant_refs_add_run using pt revoke_automation_tenants by simp
  have pr: "(u, cid) \<in> owner_pairs db" by (rule owned_conversation_pair [OF c])
  then show "(u, cid) \<in> owner_pairs db'" by (simp add: op)
  have "tenant_refs db' = insert (u, cid) (tenant_refs db1)"
    unfolding db' tenant_refs_log tenant_refs_add_run by (simp add: r)
  then show "tenants_ok db'"
    using pt revoke_automation_tenants(2) [of cid "clk 1" "clk 2" db] pr
    by (intro tenants_ok_step [OF t]) (auto simp: op)
qed

lemma append_user_message_and_run_tenants:
  assumes "msgs_ok db" "tenants_ok db" "set seen \<subseteq> set (runs db)"
    and "append_user_message_and_run u cid content ikey fids seen mid rid clk db = Inr ((m, r), db')"
  shows "tenants_ok db'" and "(u, cid) \<in> owner_pairs db'"
proof -
  from assms(4) have "tenants_ok db' \<and> (u, cid) \<in> owner_pairs db'"
  proof (cases rule: append_user_message_and_run_cases)
    case fresh
    from submit_new_tenants [OF assms(1,2) this] show ?thesis by simp
  next
    case (replay k)
    then have "r \<in> set (runs db)" "rn_user_id r = u"
      using assms(3) by (auto simp: find_submission_def find_Some_iff)
    moreover have "rn_conversation_id r = cid"
      using replay(4) by (auto simp: replay_submission_def split: if_splits)
    ultimately have "(u, cid) \<in> tenant_refs db" by (force simp: tenant_refs_def)
    then show ?thesis using replay(2) assms(2) by (auto simp: tenants_ok_def)
  qed
  then show "tenants_ok db'" "(u, cid) \<in> owner_pairs db'" by blast+
qed

section \<open>A retry is absorbed\<close>

lemma find_submissionD:
  "find_submission u k rs = Some r \<Longrightarrow> r \<in> set rs \<and> rn_user_id r = u \<and> rn_idempotency_key r = Some k"
  by (auto simp: find_submission_def find_Some_iff)

lemma find_submission_unique:
  assumes ok: "runs_ok rs" and x: "x \<in> set rs" "rn_user_id x = u" "rn_idempotency_key x = Some k"
    and sub: "set seen \<subseteq> set rs" and f: "find_submission u k seen = Some r"
  shows "r = x"
proof -
  have r: "r \<in> set rs" "rn_user_id r = u" "rn_idempotency_key r = Some k"
    using find_submissionD [OF f] sub by auto
  then have "run_clash r x" using x by (simp add: run_clash_def)
  then have "rn_id r = rn_id x" using ok r x by (simp add: runs_ok_def)
  then show ?thesis using ok r x by (metis row_by_unique row_by_uniqueD runs_ok_def)
qed

lemma find_submission_present:
  assumes "runs_ok rs" "x \<in> set rs" "rn_user_id x = u" "rn_idempotency_key x = Some k"
  shows "find_submission u k rs = Some x"
proof (cases "find_submission u k rs")
  case None
  then show ?thesis using assms(2-4) by (auto simp: find_submission_def find_None_iff)
next
  case (Some r)
  then show ?thesis using find_submission_unique [OF assms subset_refl Some] by simp
qed

lemma message_by_id:
  assumes "msgs_ok db" "m \<in> set (messages db)"
  shows "row_by ms_id (ms_id m) (messages db) = Some m"
proof -
  have "sorted_wrt (\<lambda>m m'. \<not> message_clash m m') (messages db)"
    using assms(1) by (simp add: msgs_ok_def)
  then have "sorted_wrt (\<lambda>m m'. ms_id m \<noteq> ms_id m') (messages db)"
    by (rule sorted_wrt_mono_rel [rotated]) (simp add: message_clash_def)
  then have "distinct (map ms_id (messages db))"
    by (simp add: distinct_conv_nth sorted_wrt_iff_nth_less nat_neq_iff) metis
  then show ?thesis using assms(2) by (rule row_by_unique)
qed

text \<open>The Run and message of an admitted submission, as the database then holds them.\<close>

definition admitted :: "uuid \<Rightarrow> uuid \<Rightarrow> pystr \<Rightarrow> message_row \<Rightarrow> run_row \<Rightarrow> cloud_db \<Rightarrow> bool" where
  "admitted u cid k m r db \<longleftrightarrow> r \<in> set (runs db) \<and> rn_user_id r = u \<and>
     rn_idempotency_key r = Some k \<and> replay_submission cid r db = Inr (m, r)"

lemma submit_new_admitted:
  assumes q: "queue_ok db" and ms: "msgs_ok db"
    and s: "submit_new u cid content (Some k) fids mid rid clk db = Inr ((m, r), db')"
  shows "admitted u cid k m r db'"
  using s
proof (rule submit_new_cases)
  fix c fs db1
  assume p: "post_message mid c RoleUser content
       [(lit ''attachments'', JArr (map attachment fs)),
        (lit ''media'', JArr (map (\<lambda>f. JStr (fl_workspace_path f)) fs))]
       None (clk 0) (clk 3) (revoke_automation cid (clk 1) (clk 2) db) = Inr (m, db1)"
    and r: "r = queued_run rid u cid (ms_id m) (Some k) (clk 4)"
    and db': "db' = log_event r (lit ''run.queued'')
       [jstatus ''queued'', (lit ''input_message_id'', JStr (ms_id m))] (clk 5)
       (db1\<lparr>runs := runs db1 @ [r]\<rparr>)"
  have "m \<in> set (messages db')"
    by (simp add: db' frame_simps post_messageD(2) [OF p])
  from message_by_id [OF submit_new_ok(2) [OF assms] this] show ?thesis
    by (simp add: admitted_def replay_submission_def r db' frame_simps)
qed

lemma append_user_message_and_run_admitted:
  assumes "queue_ok db" "msgs_ok db" "set seen \<subseteq> set (runs db)" "normal_key ikey = Some k"
    and "append_user_message_and_run u cid content ikey fids seen mid rid clk db = Inr ((m, r), db')"
  shows "admitted u cid k m r db'"
  using assms(5)
proof (cases rule: append_user_message_and_run_cases)
  case fresh
  then show ?thesis using assms(4) submit_new_admitted [OF assms(1,2)] by simp
next
  case (replay k')
  then have "r \<in> set (runs db)" "rn_user_id r = u" "rn_idempotency_key r = Some k"
    using assms(3,4) find_submissionD by fastforce+
  then show ?thesis using replay by (simp add: admitted_def)
qed

text \<open>With the Run already stored, a second submission cannot be inserted: whichever constraint
  refuses it, the stored pair is returned and nothing changes.\<close>

lemma submit_new_refused:
  assumes q: "queue_ok db" and a: "admitted u cid k m r db"
    and c: "owned_conversation u cid db = Some c"
    and fs: "resolve_files (lit ''one or more files were not found'') u cid fids db = Inr fs"
  shows "submit_new u cid content (Some k) fids mid rid clk db = Inl IntegrityError"
proof (cases "post_message mid c RoleUser content
       [(lit ''attachments'', JArr (map attachment fs)),
        (lit ''media'', JArr (map (\<lambda>f. JStr (fl_workspace_path f)) fs))]
       None (clk 0) (clk 3) (revoke_automation (cv_id c) (clk 1) (clk 2) db)")
  case (Inl e)
  then have "e = IntegrityError"
    by (auto simp: post_message_def Let_def insert_message_def split: if_splits)
  then show ?thesis using Inl c fs by (simp add: submit_new_def)
next
  case (Inr out)
  obtain m' db1 where out: "out = (m', db1)" by (cases out)
  have "runs db1 = runs db"
    using post_message_queue_frame [OF Inr [unfolded out]] by (simp add: frame_simps)
  moreover have "run_clash (queued_run rid u (cv_id c) (ms_id m') (Some k) (clk 4)) r" "r \<in> set (runs db)"
    using a by (simp_all add: admitted_def run_clash_def)
  ultimately have "insert_run (queued_run rid u (cv_id c) (ms_id m') (Some k) (clk 4)) db1 = Inl IntegrityError"
    by (auto simp: insert_run_def)
  then show ?thesis using Inr out c fs by (simp add: submit_new_def)
qed

lemma retry_absorbed:
  assumes q: "queue_ok db" and a: "admitted u cid k m r db" and k: "normal_key ikey = Some k"
    and valid: "\<not> key_invalid k"
    and body: "strip content \<noteq> [] \<or> (case fids of None \<Rightarrow> [] | Some l \<Rightarrow> l) \<noteq> []"
    and seen: "set seen \<subseteq> set (runs db)"
    and c: "owned_conversation u cid db = Some c"
    and fs: "resolve_files (lit ''one or more files were not found'') u cid
      (case fids of None \<Rightarrow> [] | Some l \<Rightarrow> l) db = Inr fs"
  shows "append_user_message_and_run u cid content ikey fids seen mid rid clk db = Inr ((m, r), db)"
proof -
  have ok: "runs_ok (runs db)" using q by (simp add: queue_ok_def)
  have x: "r \<in> set (runs db)" "rn_user_id r = u" "rn_idempotency_key r = Some k"
    and rep: "replay_submission cid r db = Inr (m, r)"
    using a by (simp_all add: admitted_def)
  have "find_submission u k seen = None \<or> find_submission u k seen = Some r"
    using find_submission_unique [OF ok x seen] by (cases "find_submission u k seen") auto
  then show ?thesis
    using body valid rep submit_new_refused [OF q a c fs] find_submission_present [OF ok x]
    by (auto simp: append_user_message_and_run_def Let_def k)
qed

section \<open>Channel messages\<close>

lemma find_linkD:
  "find_link p ch db = Some l \<Longrightarrow> l \<in> set (links db) \<and> lk_provider l = p \<and>
   lk_external_chat_id l = ch \<and> lk_enabled l"
  by (auto simp: find_link_def find_Some_iff)

lemma insert_inboundD:
  "insert_inbound p e li mi t db = Inr db' \<Longrightarrow>
   (\<forall>x \<in> set (inbounds db). ib_provider x = p \<longrightarrow> ib_external_event_id x \<noteq> e) \<and>
   db' = db\<lparr>inbounds := inbounds db @
           [\<lparr>ib_id = next_inbound_id db, ib_provider = p, ib_external_event_id = e,
             ib_link_id = li, ib_message_id = mi, ib_created_at = t\<rparr>],
         next_inbound_id := Suc (next_inbound_id db)\<rparr>"
  by (auto simp: insert_inbound_def split: if_splits)

lemma ingest_new_cases:
  assumes "ingest_new p ev ch content fids mid rid clk db = Inr ((m, r), db')"
  obtains l c fs db1 db2 where
    "find_link p ch db = Some l"
    "row_by cv_id (lk_conversation_id l) (conversations db) = Some c"
    "resolve_files (lit ''one or more channel files were not found'') (lk_user_id l) (cv_id c) fids db = Inr fs"
    "post_message mid c RoleUser content
       [(lit ''channel'', JStr p), (lit ''channel_link_id'', JStr (lk_id l)),
        (lit ''attachments'', JArr (map attachment fs)),
        (lit ''media'', JArr (map (\<lambda>f. JStr (fl_workspace_path f)) fs))]
       None (clk 0) (clk 1) db = Inr (m, db1)"
    "r = queued_run rid (lk_user_id l) (cv_id c) (ms_id m) (Some (channel_key p ev)) (clk 2)"
    "insert_run r db1 = Inr (db1\<lparr>runs := runs db1 @ [r]\<rparr>)"
    "insert_inbound p ev (lk_id l) (ms_id m) (clk 3) (db1\<lparr>runs := runs db1 @ [r]\<rparr>) = Inr db2"
    "db' = log_event r (lit ''run.queued'') [jstatus ''queued'', (lit ''channel'', JStr p)] (clk 4) db2"
proof -
  obtain l where l: "find_link p ch db = Some l"
    using assms by (auto simp: ingest_new_def split: option.splits)
  obtain c where c: "row_by cv_id (lk_conversation_id l) (conversations db) = Some c"
    using assms l by (auto simp: ingest_new_def split: option.splits)
  obtain fs where fs: "resolve_files (lit ''one or more channel files were not found'')
      (lk_user_id l) (cv_id c) fids db = Inr fs"
    using assms l c by (auto simp: ingest_new_def split: sum.splits)
  obtain m1 db1 where p: "post_message mid c RoleUser content
       [(lit ''channel'', JStr p), (lit ''channel_link_id'', JStr (lk_id l)),
        (lit ''attachments'', JArr (map attachment fs)),
        (lit ''media'', JArr (map (\<lambda>f. JStr (fl_workspace_path f)) fs))]
       None (clk 0) (clk 1) db = Inr (m1, db1)"
    using assms l c fs by (auto simp: ingest_new_def split: sum.splits)
  define r1 where "r1 = queued_run rid (lk_user_id l) (cv_id c) (ms_id m1) (Some (channel_key p ev)) (clk 2)"
  have step: "(case insert_run r1 db1 of Inl e \<Rightarrow> Inl e
      | Inr db2 \<Rightarrow> (case insert_inbound p ev (lk_id l) (ms_id m1) (clk 3) db2 of Inl e \<Rightarrow> Inl e
          | Inr db3 \<Rightarrow> Inr ((m1, r1), log_event r1 (lit ''run.queued'')
              [jstatus ''queued'', (lit ''channel'', JStr p)] (clk 4) db3))) = Inr ((m, r), db')"
    using assms unfolding ingest_new_def l option.case c fs sum.case p prod.case Let_def r1_def by simp
  obtain db2 where i: "insert_run r1 db1 = Inr db2" using step by (auto split: sum.splits)
  obtain db3 where b: "insert_inbound p ev (lk_id l) (ms_id m1) (clk 3) db2 = Inr db3"
    using step i by (auto split: sum.splits)
  have e: "m1 = m" "r1 = r" "db' = log_event r1 (lit ''run.queued'')
              [jstatus ''queued'', (lit ''channel'', JStr p)] (clk 4) db3"
    using step i b by auto
  have db2: "db2 = db1\<lparr>runs := runs db1 @ [r]\<rparr>" using insert_runD [OF i] e(2) by simp
  show ?thesis
    by (rule that [OF l c fs p [unfolded e(1)] r1_def [unfolded e(1,2)]
          i [unfolded db2 e(2)] b [unfolded e(1) db2] e(3) [unfolded e(2)]])
qed

lemma ingest_new_ok:
  assumes q: "queue_ok db" and ms: "msgs_ok db"
    and s: "ingest_new p ev ch content fids mid rid clk db = Inr ((m, r), db')"
  shows "queue_ok db'" and "msgs_ok db'"
proof -
  from s obtain l c fs db1 db2 where "find_link p ch db = Some l"
    and c: "row_by cv_id (lk_conversation_id l) (conversations db) = Some c"
    and "resolve_files (lit ''one or more channel files were not found'') (lk_user_id l) (cv_id c) fids db = Inr fs"
    and p: "post_message mid c RoleUser content
       [(lit ''channel'', JStr p), (lit ''channel_link_id'', JStr (lk_id l)),
        (lit ''attachments'', JArr (map attachment fs)),
        (lit ''media'', JArr (map (\<lambda>f. JStr (fl_workspace_path f)) fs))]
       None (clk 0) (clk 1) db = Inr (m, db1)"
    and r: "r = queued_run rid (lk_user_id l) (cv_id c) (ms_id m) (Some (channel_key p ev)) (clk 2)"
    and i: "insert_run r db1 = Inr (db1\<lparr>runs := runs db1 @ [r]\<rparr>)"
    and b: "insert_inbound p ev (lk_id l) (ms_id m) (clk 3) (db1\<lparr>runs := runs db1 @ [r]\<rparr>) = Inr db2"
    and db': "db' = log_event r (lit ''run.queued'') [jstatus ''queued'', (lit ''channel'', JStr p)] (clk 4) db2"
    by (rule ingest_new_cases)
  note d2 = insert_inboundD [OF b, THEN conjunct2]
  note fr = post_message_queue_frame [OF p]
  have "queue_ok db1" using q fr by (subst queue_ok_cong [of _ db]) auto
  then have "queue_ok (db1\<lparr>runs := runs db1 @ [r]\<rparr>)"
    using queue_ok_insert(1) i r by (metis queued_run_ok(1))
  then have "queue_ok db2" by (subst queue_ok_cong [of _ "db1\<lparr>runs := runs db1 @ [r]\<rparr>"]) (simp_all add: d2)
  moreover have "r \<in> set (runs db2)" by (simp add: d2)
  ultimately show "queue_ok db'"
    unfolding db' by (simp add: queue_ok_def frame_simps events_ok_log)
  have "msgs_ok db1"
    by (rule msgs_ok_post [OF ms _ refl p]) (use row_by_present [OF c] in simp)
  then show "msgs_ok db'"
    unfolding db' by (subst msgs_ok_cong [of _ db1]) (auto simp: frame_simps d2)
qed

lemma ingest_new_tenants:
  assumes ms: "msgs_ok db" and t: "tenants_ok db"
    and s: "ingest_new p ev ch content fids mid rid clk db = Inr ((m, r), db')"
  shows "tenants_ok db'"
proof -
  from s obtain l c fs db1 db2 where l: "find_link p ch db = Some l"
    and c: "row_by cv_id (lk_conversation_id l) (conversations db) = Some c"
    and "resolve_files (lit ''one or more channel files were not found'') (lk_user_id l) (cv_id c) fids db = Inr fs"
    and p: "post_message mid c RoleUser content
       [(lit ''channel'', JStr p), (lit ''channel_link_id'', JStr (lk_id l)),
        (lit ''attachments'', JArr (map attachment fs)),
        (lit ''media'', JArr (map (\<lambda>f. JStr (fl_workspace_path f)) fs))]
       None (clk 0) (clk 1) db = Inr (m, db1)"
    and r: "r = queued_run rid (lk_user_id l) (cv_id c) (ms_id m) (Some (channel_key p ev)) (clk 2)"
    and "insert_run r db1 = Inr (db1\<lparr>runs := runs db1 @ [r]\<rparr>)"
    and b: "insert_inbound p ev (lk_id l) (ms_id m) (clk 3) (db1\<lparr>runs := runs db1 @ [r]\<rparr>) = Inr db2"
    and db': "db' = log_event r (lit ''run.queued'') [jstatus ''queued'', (lit ''channel'', JStr p)] (clk 4) db2"
    by (rule ingest_new_cases)
  have d: "distinct (map cv_id (conversations db))" using ms by (simp add: msgs_ok_def)
  note pt = post_message_tenants [OF p row_by_present [OF c] refl d]
  note d2 = insert_inboundD [OF b, THEN conjunct2]
  have "(lk_user_id l, lk_conversation_id l) \<in> tenant_refs db"
    using find_linkD [OF l] by (force simp: tenant_refs_def)
  then have pr: "(lk_user_id l, cv_id c) \<in> owner_pairs db"
    using t row_by_SomeD [OF c] by (auto simp: tenants_ok_def)
  have "owner_pairs db2 = owner_pairs (db1\<lparr>runs := runs db1 @ [r]\<rparr>)"
    "tenant_refs db2 = tenant_refs (db1\<lparr>runs := runs db1 @ [r]\<rparr>)"
    by (simp_all add: d2 owner_pairs_def tenant_refs_def)
  then have op: "owner_pairs db' = owner_pairs db"
    and "tenant_refs db' = insert (lk_user_id l, cv_id c) (tenant_refs db1)"
    unfolding db' tenant_refs_log tenant_refs_add_run using pt by (simp_all add: r)
  moreover note op
  ultimately show "tenants_ok db'" using pt pr by (intro tenants_ok_step [OF t]) auto
qed

lemma ingest_channel_message_cases:
  assumes "ingest_channel_message p ev ch content fids seen mid rid clk db = Inr ((m, r, new), db')"
  obtains (fresh) r' where "ingest_new p ev ch content
      (case fids of None \<Rightarrow> [] | Some l \<Rightarrow> l) mid rid clk db = Inr ((m, r'), db')" "r = Some r'" "new"
  | (replay) "db' = db" "\<not> new"
proof -
  consider (new) r' where "ingest_new p ev ch content
      (case fids of None \<Rightarrow> [] | Some l \<Rightarrow> l) mid rid clk db = Inr ((m, r'), db')" "r = Some r'" "new"
    | (old) "db' = db \<and> \<not> new"
  proof (cases "find_inbound p ev seen")
    case (Some x)
    then show ?thesis using assms that(2)
      by (auto simp: ingest_channel_message_def split: if_splits option.splits)
  next
    case None
    show ?thesis
    proof (cases "ingest_new p ev ch content (case fids of None \<Rightarrow> [] | Some l \<Rightarrow> l) mid rid clk db")
      case (Inr out)
      obtain m1 r1 d1 where out: "out = ((m1, r1), d1)" by (metis surj_pair)
      then show ?thesis using assms None Inr that(1)
        by (auto simp: ingest_channel_message_def split: if_splits)
    next
      case (Inl e)
      then show ?thesis using assms None that(2)
        by (cases e) (auto simp: ingest_channel_message_def split: if_splits option.splits)
    qed
  qed
  then show ?thesis by cases (use fresh replay in blast)+
qed

lemma ingest_channel_message_ok:
  assumes "queue_ok db" and "msgs_ok db"
    and "ingest_channel_message p ev ch content fids seen mid rid clk db = Inr ((m, r, new), db')"
  shows "queue_ok db'" and "msgs_ok db'"
proof -
  from assms(3) have "queue_ok db' \<and> msgs_ok db'"
  proof (cases rule: ingest_channel_message_cases)
    case (fresh r')
    from ingest_new_ok [OF assms(1,2) fresh(1)] show ?thesis by simp
  next
    case replay
    then show ?thesis using assms(1,2) by simp
  qed
  then show "queue_ok db'" "msgs_ok db'" by blast+
qed

text \<open>
  Two events of one provider whose texts agree on the first 128 characters of the derived key
  share that key, so the second can never be stored: the unique constraint refuses its Run and
  there is no inbound record to fall back on.
\<close>

lemma ingest_truncated_key_refused:
  assumes r: "r \<in> set (runs db)" "rn_user_id r = lk_user_id l"
      "rn_idempotency_key r = Some (channel_key p ev)"
    and l: "find_link p ch db = Some l"
    and c: "row_by cv_id (lk_conversation_id l) (conversations db) = Some c"
    and fresh: "find_inbound p ev (inbounds db) = None"
    and body: "strip content \<noteq> []"
  shows "ingest_channel_message p ev ch content None (inbounds db) mid rid clk db = Inl IntegrityError"
proof -
  have "ingest_new p ev ch content [] mid rid clk db = Inl IntegrityError"
  proof (cases "post_message mid c RoleUser content
       [(lit ''channel'', JStr p), (lit ''channel_link_id'', JStr (lk_id l)),
        (lit ''attachments'', JArr []), (lit ''media'', JArr [])] None (clk 0) (clk 1) db")
    case (Inl e)
    then have "e = IntegrityError"
      by (auto simp: post_message_def Let_def insert_message_def split: if_splits)
    then show ?thesis using Inl c l by (simp add: ingest_new_def resolve_files_def)
  next
    case (Inr out)
    obtain m db1 where out: "out = (m, db1)" by (cases out)
    have "runs db1 = runs db" using post_message_queue_frame [OF Inr [unfolded out]] by simp
    moreover have "run_clash (queued_run rid (lk_user_id l) (cv_id c) (ms_id m)
        (Some (channel_key p ev)) (clk 2)) r"
      using r by (simp add: run_clash_def)
    ultimately have "insert_run (queued_run rid (lk_user_id l) (cv_id c) (ms_id m)
        (Some (channel_key p ev)) (clk 2)) db1 = Inl IntegrityError"
      using r(1) by (auto simp: insert_run_def)
    then show ?thesis using Inr out c l by (simp add: ingest_new_def resolve_files_def)
  qed
  then show ?thesis using fresh body by (simp add: ingest_channel_message_def)
qed

end
