(* ===== verification/StoreHistory.thy ===== *)
theory StoreHistory
  imports CloudAdmission
begin

text \<open>
  Histories of the store: what any sequence of its transactions does to the messages, the Runs and the
  conversations that are already there.  The operations on Runs and the admissions are steps of their own;
  the other methods of \<open>src/cloud/store.py\<close> enter as steps that add rows and keep the invariants.
\<close>

section \<open>What a transaction keeps\<close>

text \<open>Messages are only appended, a Run keeps its identity, its input and its key whatever becomes of its
  state, a conversation keeps its owner, and those of \<open>Q\<close> also what a turn committed of the session.\<close>

definition same_conv :: "uuid set \<Rightarrow> conversation_row \<Rightarrow> conversation_row \<Rightarrow> bool" where
  "same_conv Q c c' \<longleftrightarrow> cv_id c' = cv_id c \<and> cv_user_id c' = cv_user_id c \<and>
     (cv_id c \<in> Q \<longrightarrow> cv_agent_metadata c' = cv_agent_metadata c \<and> cv_last_consolidated c' = cv_last_consolidated c)"

definition later :: "uuid set \<Rightarrow> cloud_db \<Rightarrow> cloud_db \<Rightarrow> bool" where
  "later Q db db' \<longleftrightarrow> (\<exists>extra. messages db' = messages db @ extra) \<and>
     (\<forall>r \<in> set (runs db). \<exists>r' \<in> set (runs db'). same_run r r') \<and>
     (\<forall>c \<in> set (conversations db). \<exists>c' \<in> set (conversations db'). same_conv Q c c')"

lemma same_conv_refl [simp]: "same_conv Q c c"
  by (simp add: same_conv_def)

lemma same_conv_trans: "same_conv Q a b \<Longrightarrow> same_conv Q b c \<Longrightarrow> same_conv Q a c"
  by (simp add: same_conv_def)

lemma same_run_refl [simp]: "same_run r r"
  by (simp add: same_run_def)

lemma same_run_trans: "same_run a b \<Longrightarrow> same_run b c \<Longrightarrow> same_run a c"
  by (simp add: same_run_def)

lemma later_refl [simp]: "later Q db db"
  unfolding later_def using same_run_refl same_conv_refl by (metis append_Nil2)

lemma later_trans:
  assumes "later Q a b" and "later Q b c"
  shows "later Q a c"
proof -
  have "\<exists>extra. messages c = messages a @ extra" using assms unfolding later_def by fastforce
  moreover have "\<exists>r' \<in> set (runs c). same_run r r'" if "r \<in> set (runs a)" for r
    using assms that same_run_trans unfolding later_def by meson
  moreover have "\<exists>y \<in> set (conversations c). same_conv Q x y" if "x \<in> set (conversations a)" for x
    using assms that same_conv_trans unfolding later_def by meson
  ultimately show ?thesis unfolding later_def by blast
qed

lemma later_runs:
  assumes "messages db' = messages db" "conversations db' = conversations db"
    and "\<And>r. r \<in> set (runs db) \<Longrightarrow> \<exists>r' \<in> set (runs db'). same_run r r'"
  shows "later Q db db'"
  using assms same_conv_refl unfolding later_def by (metis append_Nil2)

lemma put_run_keeps:
  assumes "row_by rn_id (rn_id r') rs = Some r" "same_run r r'" "distinct (map rn_id rs)" "x \<in> set rs"
  shows "\<exists>x' \<in> set (put_row rn_id r' rs). same_run x x'"
proof (cases "rn_id x = rn_id r'")
  case True
  then have "x = r" using row_by_uniqueD [OF assms(3,1,4)] by simp
  moreover have "r' \<in> set (put_row rn_id r' rs)" using row_by_SomeD [OF assms(1)] by (metis image_eqI put_row_mem)
  ultimately show ?thesis using assms(2) by blast
next
  case False
  then show ?thesis using assms(4) put_row_other same_run_refl by metis
qed

lemma later_put_run:
  assumes "queue_ok db" "row_by rn_id (rn_id r') (runs db) = Some r" "same_run r r'"
    and "messages db' = messages db" "conversations db' = conversations db" "runs db' = put_row rn_id r' (runs db)"
  shows "later Q db db'"
  using assms put_run_keeps [OF assms(2,3)]
  by (intro later_runs) (simp_all add: queue_ok_def runs_ok_def)

section \<open>The operations\<close>

lemma claim_later:
  assumes ok: "queue_ok db" and c: "claim_next_run w n clk busy locked db = (o', db')"
  shows "later Q db db' \<and> messages db' = messages db \<and> conversations db' = conversations db"
proof (cases o')
  case None
  then have "db' = db" using c by (auto simp: claim_next_run_def Let_def split: option.splits if_splits)
  then show ?thesis by simp
next
  case (Some r')
  obtain r where f: "first_row (\<lambda>r. (rn_created_at r, rn_id r))
      (\<lambda>r. rn_status r = RunQueued \<and> rn_conversation_id r \<notin> set busy \<and> rn_id r \<notin> set locked) (runs db) = Some r"
    and r': "r' = r\<lparr>rn_status := RunRunning, rn_lease_owner := Some w,
            rn_lease_expires_at := Some (clk 0 + seconds (max 10 n)),
            rn_heartbeat_at := Some (clk 0), rn_started_at := opt_or (rn_started_at r) (clk 0),
            rn_attempt := rn_attempt r + 1\<rparr>"
    and db': "db' = log_event r' (lit ''run.started'')
             [jstatus ''running'', (lit ''attempt'', JInt (rn_attempt r'))] (clk 1) (put_run r' db)"
    using c [unfolded Some] by (rule claim_next_run_cases) blast
  have "row_by rn_id (rn_id r') (runs db) = Some r"
    using first_row_SomeD [OF f] ok by (simp add: r' queue_ok_def runs_ok_row)
  then have "later Q db db'"
    by (rule later_put_run [OF ok]) (simp_all add: r' same_run_def db' frame_simps)
  then show ?thesis by (simp add: db' frame_simps)
qed

lemma heartbeat_later:
  assumes ok: "queue_ok db" and h: "heartbeat_run i w n now db = Inr (b, db')"
  shows "later Q db db' \<and> messages db' = messages db \<and> conversations db' = conversations db"
proof -
  obtain r where r: "row_by rn_id i (runs db) = Some r"
    using h by (auto simp: heartbeat_run_def split: option.splits)
  let ?r = "r\<lparr>rn_heartbeat_at := Some now, rn_lease_expires_at := Some (now + seconds (max 10 n))\<rparr>"
  have db': "db' = put_run ?r db" using h r by (auto simp: heartbeat_run_def split: if_splits)
  have "later Q db db'"
    by (rule later_put_run [OF ok, of ?r r]) (use row_by_present [OF r] in \<open>simp_all add: same_run_def db'\<close>)
  then show ?thesis by (simp add: db')
qed

lemma cancel_owned_later:
  assumes ok: "queue_ok db" and h: "cancel_owned_run i w clk db = Inr (r', db')"
  shows "later Q db db' \<and> messages db' = messages db \<and> conversations db' = conversations db"
proof -
  obtain r where r: "row_by rn_id i (runs db) = Some r"
    using h by (auto simp: cancel_owned_run_def split: option.splits)
  have e: "r' = r\<lparr>rn_status := RunCancelled, rn_completed_at := Some (clk 0), rn_lease_owner := None,
      rn_lease_expires_at := None\<rparr>" and d: "runs db' = put_row rn_id r' (runs db)" "messages db' = messages db"
    "conversations db' = conversations db"
    using h r by (auto simp: cancel_owned_run_def Let_def frame_simps split: if_splits)
  have "later Q db db'"
    by (rule later_put_run [OF ok, of r' r]) (use row_by_present [OF r] in \<open>simp_all add: e same_run_def d\<close>)
  then show ?thesis using d by simp
qed

lemma fail_later:
  assumes ok: "queue_ok db" and h: "fail_run i w err clk db = Inr (r', db')"
  shows "later Q db db' \<and> messages db' = messages db \<and> conversations db' = conversations db"
proof -
  obtain r where r: "row_by rn_id i (runs db) = Some r"
    using h by (auto simp: fail_run_def split: option.splits)
  have e: "same_run r r'" "rn_id r' = rn_id r" and d: "runs db' = put_row rn_id r' (runs db)" "messages db' = messages db"
    "conversations db' = conversations db"
    using h r by (auto simp: fail_run_def Let_def frame_simps same_run_def split: if_splits)
  have "later Q db db'"
    by (rule later_put_run [OF ok, of r' r]) (use row_by_present [OF r] in \<open>simp_all add: e d\<close>)
  then show ?thesis using d by simp
qed

lemma request_cancel_later:
  assumes ok: "queue_ok db" and h: "request_cancel u i clk db = Inr (r', db')"
  shows "later Q db db' \<and> messages db' = messages db \<and> conversations db' = conversations db"
proof (cases "db' = db")
  case False
  obtain r where r: "find (\<lambda>r. rn_id r = i \<and> rn_user_id r = u) (runs db) = Some r"
    using h by (auto simp: request_cancel_def split: option.splits)
  have e: "same_run r r'" "rn_id r' = rn_id r" and d: "runs db' = put_row rn_id r' (runs db)" "messages db' = messages db"
    "conversations db' = conversations db"
    using h r False by (auto simp: request_cancel_def Let_def frame_simps same_run_def split: if_splits)
  have "later Q db db'"
    by (rule later_put_run [OF ok, of r' r]) (use queue_ok_find [OF ok r] in \<open>simp_all add: e d\<close>)
  then show ?thesis using d by simp
qed simp

lemma recover_runs_frame:
  "messages (recover_runs now clk rs db) = messages db \<and> conversations (recover_runs now clk rs db) = conversations db"
proof (induction rs arbitrary: clk db)
  case (Cons r rs)
  then show ?case by (simp add: frame_simps Let_def)
qed simp

lemma requeue_later:
  assumes ok: "queue_ok db" and h: "requeue_expired_runs n clk locked db = (k, db')"
  shows "later Q db db' \<and> messages db' = messages db \<and> conversations db' = conversations db"
proof -
  let ?x = "expired_runs n (clk 0) locked db"
  have db': "db' = recover_runs (clk 0) (\<lambda>i. clk (Suc i)) ?x db"
    using h by (simp add: requeue_expired_runs_def Let_def)
  have rs: "runs db' = map (\<lambda>x. if rn_id x \<in> rn_id ` set ?x then recovered (clk 0) x else x) (runs db)"
    using recover_runs_result [OF ok expired_runs_stored [OF ok]] by (simp add: db')
  define f where "f = (\<lambda>x. if rn_id x \<in> rn_id ` set ?x then recovered (clk 0) x else x)"
  have same: "same_run r (f r)" for r by (simp add: f_def recovered_def same_run_def)
  have "\<exists>r' \<in> set (runs db'). same_run r r'" if "r \<in> set (runs db)" for r
  proof -
    have "f r \<in> set (runs db')" unfolding rs f_def [symmetric] using that by simp
    then show ?thesis using same by blast
  qed
  moreover have fr: "messages db' = messages db" "conversations db' = conversations db"
    using recover_runs_frame [of "clk 0" "\<lambda>i. clk (Suc i)" ?x db] by (simp_all add: db')
  ultimately have "later Q db db'" by (intro later_runs)
  then show ?thesis using fr by simp
qed

lemma conversation_put_keeps:
  assumes "row_by cv_id (cv_id c) cs = Some c" "distinct (map cv_id cs)" "x \<in> set cs"
    and "cv_id c' = cv_id c" "cv_user_id c' = cv_user_id c"
    and "cv_id c \<in> Q \<Longrightarrow> cv_agent_metadata c' = cv_agent_metadata c \<and> cv_last_consolidated c' = cv_last_consolidated c"
  shows "\<exists>y \<in> set (put_row cv_id c' cs). same_conv Q x y"
proof (cases "cv_id x = cv_id c")
  case True
  then have "x = c" using row_by_uniqueD [OF assms(2,1,3)] by simp
  moreover have "c' \<in> set (put_row cv_id c' cs)"
    using row_by_SomeD [OF assms(1)] assms(4) by (metis image_eqI put_row_mem)
  moreover have "same_conv Q c c'" using assms(4-6) by (simp add: same_conv_def)
  ultimately show ?thesis by blast
next
  case False
  then have "x \<in> set (put_row cv_id c' cs)" using assms(3,4) by (metis put_row_other)
  then show ?thesis using same_conv_refl by blast
qed

text \<open>A message is posted to a conversation, by a writer that may also change what the conversation holds of the session.\<close>

lemma post_later:
  assumes ok: "msgs_ok db" and c: "row_by cv_id (cv_id c) (conversations db) = Some c"
    and c': "cv_id c' = cv_id c" "cv_user_id c' = cv_user_id c"
      "cv_id c \<in> Q \<Longrightarrow> cv_agent_metadata c' = cv_agent_metadata c \<and> cv_last_consolidated c' = cv_last_consolidated c"
    and p: "post_message mid c' r content meta key u t db0 = Inr (m, db1)"
    and db0: "messages db0 = messages db" "conversations db0 = conversations db"
    and db': "messages db' = messages db1" "conversations db' = conversations db1"
      "\<forall>r \<in> set (runs db). \<exists>r' \<in> set (runs db'). same_run r r'"
  shows "later Q db db'"
proof -
  note d = post_messageD [OF p]
  let ?c = "c'\<lparr>cv_next_message_seq := cv_next_message_seq c' + 1, cv_updated_at := u\<rparr>"
  have dist: "distinct (map cv_id (conversations db))" using ok by (simp add: msgs_ok_def)
  have conv: "conversations db' = put_row cv_id ?c (conversations db)" using d(2) db0 db' by simp
  have "\<exists>y \<in> set (conversations db'). same_conv Q x y" if "x \<in> set (conversations db)" for x
    unfolding conv by (rule conversation_put_keeps [OF c dist that]) (use c' in simp_all)
  moreover have "messages db' = messages db @ [m]" using d(2) db0 db' by simp
  ultimately show ?thesis using db'(3) unfolding later_def by blast
qed

lemma submit_later:
  assumes ms: "msgs_ok db" and s: "submit_new u cid content key fids mid rid clk db = Inr ((m, r), db')"
  shows "later Q db db'"
  using s
proof (rule submit_new_cases)
  fix c fs db1
  assume c: "owned_conversation u cid db = Some c"
    and p: "post_message mid c RoleUser content
       [(lit ''attachments'', JArr (map attachment fs)),
        (lit ''media'', JArr (map (\<lambda>f. JStr (fl_workspace_path f)) fs))]
       None (clk 0) (clk 3) (revoke_automation cid (clk 1) (clk 2) db) = Inr (m, db1)"
    and db': "db' = log_event r (lit ''run.queued'')
       [jstatus ''queued'', (lit ''input_message_id'', JStr (ms_id m))] (clk 5)
       (db1\<lparr>runs := runs db1 @ [r]\<rparr>)"
  have row: "row_by cv_id (cv_id c) (conversations db) = Some c"
    by (rule msgs_ok_conversation [OF ms]) (use owned_conversationD [OF c] in simp)
  have "runs db1 = runs db" using post_message_queue_frame [OF p] by (simp add: frame_simps)
  then have "\<forall>x \<in> set (runs db). \<exists>x' \<in> set (runs db'). same_run x x'"
    using same_run_refl by (fastforce simp: db' frame_simps)
  then show ?thesis
    by (intro post_later [OF ms row refl refl _ p]) (simp_all add: frame_simps db')
qed

lemma append_later:
  assumes "msgs_ok db"
    and "append_user_message_and_run u cid content ikey fids seen mid rid clk db = Inr ((m, r), db')"
  shows "later Q db db'"
  using assms(2)
proof (cases rule: append_user_message_and_run_cases)
  case fresh
  then show ?thesis by (rule submit_later [OF assms(1)])
qed simp

lemma ingest_new_later:
  assumes ms: "msgs_ok db" and s: "ingest_new p ev ch content fids mid rid clk db = Inr ((m, r), db')"
  shows "later Q db db'"
  using s
proof (rule ingest_new_cases)
  fix l c fs db1 db2
  assume c: "row_by cv_id (lk_conversation_id l) (conversations db) = Some c"
    and p: "post_message mid c RoleUser content
       [(lit ''channel'', JStr p), (lit ''channel_link_id'', JStr (lk_id l)),
        (lit ''attachments'', JArr (map attachment fs)),
        (lit ''media'', JArr (map (\<lambda>f. JStr (fl_workspace_path f)) fs))]
       None (clk 0) (clk 1) db = Inr (m, db1)"
    and b: "insert_inbound p ev (lk_id l) (ms_id m) (clk 3) (db1\<lparr>runs := runs db1 @ [r]\<rparr>) = Inr db2"
    and db': "db' = log_event r (lit ''run.queued'') [jstatus ''queued'', (lit ''channel'', JStr p)] (clk 4) db2"
  note d2 = insert_inboundD [OF b, THEN conjunct2]
  have "runs db1 = runs db" using post_message_queue_frame [OF p] by simp
  then have "\<forall>x \<in> set (runs db). \<exists>x' \<in> set (runs db'). same_run x x'"
    using same_run_refl by (fastforce simp: db' frame_simps d2)
  then show ?thesis
    by (intro post_later [OF ms row_by_present [OF c] refl refl _ p]) (simp_all add: frame_simps db' d2)
qed

lemma ingest_later:
  assumes "msgs_ok db"
    and "ingest_channel_message p ev ch content fids seen mid rid clk db = Inr ((m, r, new), db')"
  shows "later Q db db'"
  using assms(2)
proof (cases rule: ingest_channel_message_cases)
  case (fresh r')
  from fresh(1) show ?thesis by (rule ingest_new_later [OF assms(1)])
qed simp

lemma complete_later:
  assumes ok: "queue_ok db" "msgs_ok db"
    and h: "complete_run i w content mid ameta cmeta lc fresh clk db = Inr ((r', out), db')"
    and elsewhere: "\<And>r. row_by rn_id i (runs db) = Some r \<Longrightarrow> rn_conversation_id r \<notin> Q"
  shows "later Q db db' \<and> msgs_ok db'"
  using h
proof (cases rule: complete_run_cases)
  case (cancelled r)
  have e: "rn_id r' = rn_id r" by (simp add: cancelled(6))
  have "later Q db db'"
    by (rule later_put_run [OF ok(1), of r' r])
      (use row_by_present [OF cancelled(1)] in \<open>simp_all add: e, simp_all add: cancelled(6,7) same_run_def frame_simps\<close>)
  moreover have "msgs_ok db'"
    using ok(2) by (subst msgs_ok_cong [of _ db]) (simp_all add: cancelled(7) frame_simps)
  ultimately show ?thesis by blast
next
  case (completed r c c' m id db1)
  have e: "rn_id r' = rn_id r" "same_run r r'" by (simp_all add: completed(11) same_run_def)
  have row: "row_by cv_id (cv_id c) (conversations db) = Some c" by (rule row_by_present [OF completed(6)])
  have c: "row_by cv_id (cv_id c') (conversations db) = Some c" using row by (simp add: completed(7))
  have rs: "runs db' = put_row rn_id r' (runs db)"
    using post_message_queue_frame [OF completed(10)] by (simp add: completed(12) frame_simps)
  have "distinct (map rn_id (runs db))" using ok(1) by (simp add: queue_ok_def runs_ok_def)
  then have "\<forall>x \<in> set (runs db). \<exists>x' \<in> set (runs db'). same_run x x'"
    unfolding rs using put_run_keeps [of r' "runs db" r] row_by_present [OF completed(1)] e by simp
  moreover have "cv_id c \<notin> Q" using elsewhere [OF completed(1)] row_by_SomeD [OF completed(6)] by simp
  ultimately have "later Q db db'"
    by (intro post_later [OF ok(2) row completed(7,8) _ completed(10)]) (simp_all add: completed(12) frame_simps)
  moreover have "msgs_ok db1" by (rule msgs_ok_post [OF ok(2) c completed(9,10)])
  then have "msgs_ok db'" by (subst msgs_ok_cong [of _ db1]) (simp_all add: completed(12) frame_simps)
  ultimately show ?thesis by blast
qed

section \<open>Histories\<close>

text \<open>One transaction of the store while no Run of the conversations of \<open>Q\<close> is completed.\<close>

inductive store_step :: "uuid set \<Rightarrow> cloud_db \<Rightarrow> cloud_db \<Rightarrow> bool" for Q where
  st_submit: "append_user_message_and_run u cid content ikey fids seen mid rid clk db = Inr ((m, r), db') \<Longrightarrow>
     store_step Q db db'"
| st_ingest: "ingest_channel_message p ev ch content fids seen mid rid clk db = Inr ((m, r', new), db') \<Longrightarrow>
     store_step Q db db'"
| st_claim: "claim_next_run w n clk busy locked db = (o', db') \<Longrightarrow> store_step Q db db'"
| st_heartbeat: "heartbeat_run i w n now db = Inr (b, db') \<Longrightarrow> store_step Q db db'"
| st_complete: "complete_run i w content mid' ameta cmeta lc fresh clk db = Inr ((r, out), db') \<Longrightarrow>
     \<forall>r. row_by rn_id i (runs db) = Some r \<longrightarrow> rn_conversation_id r \<notin> Q \<Longrightarrow> store_step Q db db'"
| st_fail: "fail_run i w err clk db = Inr (r, db') \<Longrightarrow> store_step Q db db'"
| st_cancel_owned: "cancel_owned_run i w clk db = Inr (r, db') \<Longrightarrow> store_step Q db db'"
| st_request_cancel: "request_cancel u i clk db = Inr (r, db') \<Longrightarrow> store_step Q db db'"
| st_requeue: "requeue_expired_runs n' clk locked db = (k, db') \<Longrightarrow> store_step Q db db'"
| st_event: "append_runtime_run_event i ty d t db = Inr (ev', db') \<Longrightarrow> store_step Q db db'"
| st_other: "later Q db db' \<Longrightarrow> queue_ok db' \<Longrightarrow> msgs_ok db' \<Longrightarrow> store_step Q db db'"

lemma store_step_keeps:
  assumes "store_step Q db db'" "queue_ok db" "msgs_ok db"
  shows "later Q db db' \<and> queue_ok db' \<and> msgs_ok db'"
  using assms(1)
proof cases
  case st_submit
  then show ?thesis
    using append_later [OF assms(3) st_submit] append_user_message_and_run_ok [OF assms(2,3) st_submit] by simp
next
  case st_ingest
  then show ?thesis
    using ingest_later [OF assms(3) st_ingest] ingest_channel_message_ok [OF assms(2,3) st_ingest] by simp
next
  case st_claim
  from claim_later [OF assms(2) st_claim] claim_next_run_queue_ok [OF assms(2) st_claim] show ?thesis
    using assms(3) msgs_ok_cong by blast
next
  case st_heartbeat
  from heartbeat_later [OF assms(2) st_heartbeat] heartbeat_run_queue_ok [OF assms(2) st_heartbeat] show ?thesis
    using assms(3) msgs_ok_cong by blast
next
  case st_complete
  from complete_later [OF assms(2,3) st_complete(1)] st_complete(2) complete_run_queue_ok [OF assms(2) st_complete(1)]
  show ?thesis by blast
next
  case st_fail
  from fail_later [OF assms(2) st_fail] fail_run_queue_ok [OF assms(2) st_fail] show ?thesis
    using assms(3) msgs_ok_cong by blast
next
  case st_cancel_owned
  from cancel_owned_later [OF assms(2) st_cancel_owned] cancel_owned_run_queue_ok [OF assms(2) st_cancel_owned]
  show ?thesis using assms(3) msgs_ok_cong by blast
next
  case st_request_cancel
  from request_cancel_later [OF assms(2) st_request_cancel] request_cancel_queue_ok [OF assms(2) st_request_cancel]
  show ?thesis using assms(3) msgs_ok_cong by blast
next
  case st_requeue
  from requeue_later [OF assms(2) st_requeue] requeue_expired_runs_queue_ok [OF assms(2) st_requeue] show ?thesis
    using assms(3) msgs_ok_cong by blast
next
  case (st_event i ty d t ev')
  have f: "messages db' = messages db" "conversations db' = conversations db" "runs db' = runs db"
    using st_event by (auto simp: append_runtime_run_event_def append_run_event_def Let_def split: option.splits)
  moreover have "\<exists>r' \<in> set (runs db'). same_run r r'" if "r \<in> set (runs db)" for r
    using that same_run_refl unfolding f(3) by blast
  ultimately have "later Q db db'" by (intro later_runs)
  then show ?thesis using append_runtime_run_event_queue_ok [OF assms(2) st_event] assms(3) f msgs_ok_cong by blast
next
  case st_other
  then show ?thesis by blast
qed

lemma store_steps_keep:
  assumes "(store_step Q)\<^sup>*\<^sup>* db db'" "queue_ok db" "msgs_ok db"
  shows "later Q db db' \<and> queue_ok db' \<and> msgs_ok db'"
  using assms(1)
proof (induction rule: rtranclp_induct)
  case base
  then show ?case using assms(2,3) by simp
next
  case (step b c)
  then show ?case using store_step_keeps [OF step(2)] later_trans by blast
qed

section \<open>A keyed submission later on\<close>

lemma later_conversation:
  assumes "later Q db db'" "owned_conversation u cid db = Some c"
  shows "\<exists>c'. owned_conversation u cid db' = Some c'"
proof -
  have c: "c \<in> set (conversations db)" "cv_id c = cid" "cv_user_id c = u" using owned_conversationD [OF assms(2)] by auto
  obtain y where "y \<in> set (conversations db')" "cv_id y = cid \<and> cv_user_id y = u"
    using assms(1) c unfolding later_def same_conv_def by metis
  then show ?thesis
    by (cases "owned_conversation u cid db'") (auto simp: owned_conversation_def find_None_iff)
qed

lemma later_admitted:
  assumes a: "admitted u cid k m r db" and l: "later Q db db'" and ok: "msgs_ok db'"
  shows "\<exists>r'. same_run r r' \<and> admitted u cid k m r' db'"
proof -
  have r: "r \<in> set (runs db)" "rn_user_id r = u" "rn_idempotency_key r = Some k" "rn_conversation_id r = cid"
      "row_by ms_id (rn_input_message_id r) (messages db) = Some m"
    using a by (auto simp: admitted_def replay_submission_def split: if_splits option.splits)
  obtain r' where r': "r' \<in> set (runs db')" "same_run r r'" using l r(1) unfolding later_def by meson
  have "m \<in> set (messages db')" using row_by_SomeD [OF r(5)] l unfolding later_def by auto
  then have "row_by ms_id (ms_id m) (messages db') = Some m" by (rule message_by_id [OF ok])
  then have "row_by ms_id (rn_input_message_id r') (messages db') = Some m"
    using row_by_SomeD [OF r(5)] r'(2) by (simp add: same_run_def)
  then have "admitted u cid k m r' db'"
    using r r' by (simp add: admitted_def replay_submission_def same_run_def)
  then show ?thesis using r'(2) by blast
qed

text \<open>A retry whose snapshot shows the Run returns it before anything else is looked at.\<close>

lemma retry_seen:
  assumes q: "queue_ok db" and a: "admitted u cid k m r db" and k: "normal_key ikey = Some k"
    and valid: "\<not> key_invalid k"
    and body: "strip content \<noteq> [] \<or> (case fids of None \<Rightarrow> [] | Some l \<Rightarrow> l) \<noteq> []"
    and seen: "set seen \<subseteq> set (runs db)" "r \<in> set seen"
  shows "append_user_message_and_run u cid content ikey fids seen mid rid clk db = Inr ((m, r), db)"
proof -
  have x: "r \<in> set (runs db)" "rn_user_id r = u" "rn_idempotency_key r = Some k"
    and rep: "replay_submission cid r db = Inr (m, r)"
    using a by (simp_all add: admitted_def)
  have "runs_ok (runs db)" using q by (simp add: queue_ok_def)
  from find_submission_unique [OF this x seen(1)] have "find_submission u k seen = Some r"
    using seen(2) x by (cases "find_submission u k seen") (auto simp: find_submission_def find_None_iff)
  then show ?thesis using body valid rep by (auto simp: append_user_message_and_run_def Let_def k)
qed

end
