(* ===== verification/RunTheorems.thy ===== *)
theory RunTheorems
  imports CloudSample StoreHistory
begin

text \<open>
  What the Run queue and the admission of input promise, stated over the operations of
  \<open>CloudRuns\<close> and \<open>CloudAdmission\<close>, each with an application to a concrete database.
\<close>

section \<open>What an append writes\<close>

lemma next_event_seq: "queue_ok db \<Longrightarrow> last_seq (run_seqs db i) = int (length (run_seqs db i))"
  unfolding queue_ok_def events_ok_def by (metis fold_max_upto)

lemma log_event_row:
  assumes "queue_ok db" and "run_events db0 = run_events db"
  shows "log_event r ty d t db0 = db0\<lparr>run_events := run_events db @
    [\<lparr>ev_run_id = rn_id r, ev_user_id = rn_user_id r, ev_seq = int (length (run_seqs db (rn_id r))) + 1,
      ev_type = ty, ev_data = d, ev_created_at = t\<rparr>]\<rparr>"
  using next_event_seq [OF assms(1), of "rn_id r"] by (simp add: append_run_event_def Let_def run_seqs_def assms(2))

definition new_delivery :: "nat \<Rightarrow> link_row \<Rightarrow> uuid \<Rightarrow> instant \<Rightarrow> delivery_row" where
  "new_delivery i l mid t = \<lparr>dl_id = i, dl_link_id = lk_id l, dl_message_id = mid, dl_status = DlvPending,
     dl_attempt = 0, dl_lease_owner = None, dl_lease_expires_at = None, dl_last_error = [], dl_created_at = t,
     dl_sent_at = None\<rparr>"

lemma add_deliveries_rows:
  "deliveries (add_deliveries t mid ls db) =
     deliveries db @ map (\<lambda>(i, l). new_delivery i l mid t) (enumerate (next_delivery_id db) ls)"
  by (induction ls arbitrary: db) (simp_all add: new_delivery_def)

lemma enqueue_rows:
  "deliveries (enqueue_channel_deliveries t m db) = deliveries db @
     map (\<lambda>(i, l). new_delivery i l (ms_id m) t) (enumerate (next_delivery_id db)
       (filter (\<lambda>l. lk_conversation_id l = ms_conversation_id m \<and> lk_enabled l) (links db)))"
  by (simp add: enqueue_channel_deliveries_def add_deliveries_rows)

lemma filter_single:
  assumes "distinct xs" "x \<in> set xs" "P x" "\<And>y. y \<in> set xs \<Longrightarrow> P y \<Longrightarrow> y = x"
  shows "filter P xs = [x]"
proof -
  obtain a b where ab: "xs = a @ x # b" using split_list [OF assms(2)] by blast
  have "\<not> P y" if "y \<in> set (a @ b)" for y
  proof
    assume "P y"
    then have "y = x" using assms(4) that by (simp add: ab)
    then show False using that assms(1) by (auto simp: ab)
  qed
  then have "filter P a = []" "filter P b = []" by (simp_all add: filter_empty_conv)
  then show ?thesis using assms(3) by (simp add: ab)
qed

section \<open>Claims, reports and lost leases\<close>

text \<open>C1: a claim hands out the oldest queued Run among the conversations that are not busy, and its
  conversation had no running Run.  It changes two things and nothing else in any table: the row of that Run,
  which is running under the caller's lease with one attempt more, and the list of events, which gets one
  \<open>run.started\<close> numbered next for the Run.\<close>

theorem run_claim_fifo:
  assumes "queue_ok db" and "claim_next_run w n clk busy locked db = (Some r', db')"
  shows "\<exists>r \<in> set (runs db). rn_status r = RunQueued \<and>
    r' = r\<lparr>rn_status := RunRunning, rn_lease_owner := Some w,
           rn_lease_expires_at := Some (clk 0 + seconds (max 10 n)),
           rn_heartbeat_at := Some (clk 0), rn_started_at := opt_or (rn_started_at r) (clk 0),
           rn_attempt := rn_attempt r + 1\<rparr> \<and>
    db' = db\<lparr>runs := put_row rn_id r' (runs db), run_events := run_events db @
      [\<lparr>ev_run_id = rn_id r, ev_user_id = rn_user_id r, ev_seq = int (length (run_seqs db (rn_id r))) + 1,
        ev_type = lit ''run.started'',
        ev_data = [(lit ''status'', JStr (lit ''running'')), (lit ''attempt'', JInt (rn_attempt r + 1))],
        ev_created_at = clk 1\<rparr>]\<rparr> \<and> queue_ok db' \<and>
    (\<forall>x \<in> set (runs db). rn_status x = RunQueued \<and> rn_conversation_id x \<notin> set busy \<and>
       rn_id x \<notin> set locked \<longrightarrow> (rn_created_at r, rn_id r) \<le> (rn_created_at x, rn_id x)) \<and>
    (\<forall>x \<in> set (runs db). rn_conversation_id x = rn_conversation_id r \<longrightarrow> rn_status x \<noteq> RunRunning) \<and>
    rn_conversation_id r \<notin> set busy \<and> rn_id r \<notin> set locked"
proof -
  obtain r where f: "first_row (\<lambda>r. (rn_created_at r, rn_id r))
      (\<lambda>r. rn_status r = RunQueued \<and> rn_conversation_id r \<notin> set busy \<and> rn_id r \<notin> set locked)
      (runs db) = Some r"
    and r': "r' = r\<lparr>rn_status := RunRunning, rn_lease_owner := Some w,
            rn_lease_expires_at := Some (clk 0 + seconds (max 10 n)),
            rn_heartbeat_at := Some (clk 0), rn_started_at := opt_or (rn_started_at r) (clk 0),
            rn_attempt := rn_attempt r + 1\<rparr>"
    and idle: "\<not> conversation_running (rn_conversation_id r) db"
    and db': "db' = log_event r' (lit ''run.started'')
             [jstatus ''running'', (lit ''attempt'', JInt (rn_attempt r'))] (clk 1) (put_run r' db)"
    using assms(2) by (rule claim_next_run_cases)
  note s = first_row_SomeD [OF f]
  have "\<forall>x \<in> set (runs db). rn_conversation_id x = rn_conversation_id r \<longrightarrow> rn_status x \<noteq> RunRunning"
    using idle by (auto simp: conversation_running_def)
  moreover have "rn_id r' = rn_id r" "rn_user_id r' = rn_user_id r" "rn_attempt r' = rn_attempt r + 1" by (simp_all add: r')
  moreover have "db' = put_run r' db\<lparr>run_events := run_events db @
      [\<lparr>ev_run_id = rn_id r', ev_user_id = rn_user_id r', ev_seq = int (length (run_seqs db (rn_id r'))) + 1,
        ev_type = lit ''run.started'', ev_data = [jstatus ''running'', (lit ''attempt'', JInt (rn_attempt r'))],
        ev_created_at = clk 1\<rparr>]\<rparr>"
    unfolding db' by (rule log_event_row [OF assms(1)]) simp
  moreover have "queue_ok db'" by (rule claim_next_run_queue_ok [OF assms])
  ultimately show ?thesis using s r' by (intro bexI [of _ r] conjI) simp_all
qed

lemma run_claim_fifo_witness:
  "\<exists>r' db'. claim_next_run [119] 60 (\<lambda>_. 7) [] [] (sm_db [sm_queued]) = (Some r', db') \<and>
     rn_attempt r' = 1 \<and> queue_ok db'"
proof -
  obtain r' db' where c: "claim_next_run [119] 60 (\<lambda>_. 7) [] [] (sm_db [sm_queued]) = (Some r', db')"
    by (simp add: claim_next_run_def first_row_def conversation_running_def sm_queued_def Let_def)
  have "queue_ok (sm_db [sm_queued])" by simp
  from run_claim_fifo [OF this c] c show ?thesis by (auto simp: sm_queued_def)
qed

text \<open>C2: a worker that does not hold the lease of a Run, because it never claimed it or because the
  lease was recovered and given to another, is refused by every operation that reports on the Run.\<close>

theorem run_lost_lease_rejected:
  assumes "row_by rn_id i (runs db) = Some r" and "run_owner db i \<noteq> Some w"
  shows "complete_run i w content mid ameta cmeta lc fresh clk db = Inl not_owner \<and>
    fail_run i w err clk db = Inl not_owner \<and>
    cancel_owned_run i w clk db = Inl not_owner \<and>
    heartbeat_run i w n now db = Inl not_owner"
  using assms
  by (auto simp: run_owner_def complete_run_def fail_run_def cancel_owned_run_def heartbeat_run_def
      split: if_splits)

lemma run_lost_lease_rejected_witness:
  "complete_run [4] [120] [] None None None None [8] (\<lambda>_. 0) (sm_db [sm_running]) = Inl not_owner"
  using run_lost_lease_rejected [of "[4]" "sm_db [sm_running]" sm_running "[120]" "[]" None None None
      None "[8]" "\<lambda>_. 0" "[]" 0 0]
  by (simp add: run_owner_def sm_running_def sm_queued_def)

text \<open>C5: in every history of the queue that starts with a Run nobody holds, the terminal reports
  accepted on the Run are at most the claims made of it, one fewer while it is held: a claim is
  reported on at most once.\<close>

theorem run_reports_le_claims:
  assumes "rl.lease_run db es db'" and "run_owner db i = None"
  shows "length (filter (is_finish i) es) + (if run_owner db' i = None then 0 else 1)
    \<le> length (filter (is_claim i) es)"
  using assms by (rule rl.finishes_le_claims)

lemma run_reports_le_claims_witness:
  "\<exists>db'. rl.lease_run (sm_db [sm_queued]) [Claimed [4] [119]] db' \<and>
     length (filter (is_finish [4]) [Claimed [4] [119]]) + (if run_owner db' [4] = None then 0 else 1)
       \<le> length (filter (is_claim [4]) [Claimed [4] [119]])"
proof -
  obtain r' db' where c: "claim_next_run [119] 60 (\<lambda>_. 7) [] [] (sm_db [sm_queued]) = (Some r', db')"
      "rn_id r' = [4]"
    by (simp add: claim_next_run_def first_row_def conversation_running_def sm_queued_def Let_def)
  then have "run_claim 7 [119] (sm_db [sm_queued]) [4] db'"
    unfolding run_claim_def
    by (intro conjI exI [of _ 60] exI [of _ "\<lambda>_. 7"] exI [of _ "[]"] exI [of _ r']) simp_all
  then have h: "rl.lease_run (sm_db [sm_queued]) ([] @ [Claimed [4] [119]]) db'"
    by (rule rl.lease_claim [OF rl.lease_nil])
  have "run_owner (sm_db [sm_queued]) [4] = None" by (simp add: run_owner_def sm_queued_def)
  from run_reports_le_claims [OF h this] h show ?thesis by auto
qed

section \<open>Terminal transitions\<close>

text \<open>C27: completing a Run that was not cancelled appends exactly one assistant message, numbered
  next in its conversation, queues one delivery per enabled link of the conversation, each a pending row with the next
  serial id that names the link and the new message, ends the Run with that message as its output and no
  lease, and writes exactly one event, \<open>run.completed\<close> with the id of the message, numbered next for the Run.\<close>

theorem run_complete_effect:
  assumes "queue_ok db" and "msgs_ok db"
    and "complete_run i w content mid ameta cmeta lc fresh clk db = Inr ((r', Some m), db')"
  shows "messages db' = messages db @ [m] \<and> ms_content m = content \<and> ms_role m = RoleAssistant \<and>
    ms_seq m = int (length (conv_seqs db (ms_conversation_id m))) + 1 \<and>
    ms_agent_metadata m = (case ameta of None \<Rightarrow> [] | Some d \<Rightarrow> d) \<and>
    ms_conversation_id m = rn_conversation_id r' \<and>
    deliveries db' = deliveries db @ map (\<lambda>(k, l). new_delivery k l (ms_id m) (clk 2))
      (enumerate (next_delivery_id db)
        (filter (\<lambda>l. lk_conversation_id l = ms_conversation_id m \<and> lk_enabled l) (links db))) \<and>
    length (deliveries db') = length (deliveries db) +
      length (filter (\<lambda>l. lk_conversation_id l = ms_conversation_id m \<and> lk_enabled l) (links db)) \<and>
    (\<exists>r. row_by rn_id i (runs db) = Some r \<and> runs db' = put_row rn_id r' (runs db) \<and>
       r' = r\<lparr>rn_output_message_id := Some (ms_id m), rn_status := RunCompleted, rn_completed_at := Some (clk 3),
              rn_lease_owner := None, rn_lease_expires_at := None\<rparr>) \<and>
    row_by rn_id i (runs db') = Some r' \<and> rn_status r' = RunCompleted \<and>
    rn_output_message_id r' = Some (ms_id m) \<and> run_owner db' i = None \<and>
    run_events db' = run_events db @
      [\<lparr>ev_run_id = i, ev_user_id = rn_user_id r', ev_seq = int (length (run_seqs db i)) + 1,
        ev_type = lit ''run.completed'',
        ev_data = [(lit ''status'', JStr (lit ''completed'')), (lit ''output_message_id'', JStr (ms_id m))],
        ev_created_at = clk 4\<rparr>] \<and> queue_ok db' \<and> msgs_ok db'"
  using assms(3)
proof (cases rule: complete_run_cases)
  case (completed r c c' m1 id db1)
  have m: "m1 = m" using completed(5) by simp
  note p = completed(10) [unfolded m]
  note d = post_messageD [OF p]
  let ?db2 = "enqueue_channel_deliveries (clk 2) m db1"
  have rid: "rn_id r = i" "rn_id r' = i" using row_by_SomeD [OF completed(1)] by (simp_all add: completed(11))
  have c: "row_by cv_id (cv_id c') (conversations db) = Some c"
    using row_by_present [OF completed(6)] by (simp add: completed(7))
  have rows: "runs db' = put_row rn_id r' (runs db)" "messages db' = messages db @ [m]"
    by (simp_all add: completed(12) m frame_simps d(2))
  have row: "row_by rn_id i (runs db') = Some r'"
    by (simp add: rows(1) row_by_put_row rid completed(1))
  have "msgs_ok db1" by (rule msgs_ok_post [OF assms(2) c completed(9) p])
  then have "msgs_ok db'"
    by (subst msgs_ok_cong [of _ db1]) (simp_all add: completed(12) m frame_simps)
  moreover have "ms_seq m = int (length (conv_seqs db (ms_conversation_id m))) + 1"
    using assms(2) row_by_SomeD [OF c] completed(9) by (auto simp: d(1) msgs_ok_def)
  moreover have "length (deliveries db') = length (deliveries db) +
      length (filter (\<lambda>l. lk_conversation_id l = ms_conversation_id m \<and> lk_enabled l) (links db))"
    using enqueue_count [of "clk 2" m db1] by (simp add: completed(12) m frame_simps d(2))
  moreover have "deliveries db' = deliveries db @ map (\<lambda>(k, l). new_delivery k l (ms_id m) (clk 2))
      (enumerate (next_delivery_id db)
        (filter (\<lambda>l. lk_conversation_id l = ms_conversation_id m \<and> lk_enabled l) (links db)))"
    using enqueue_rows [of "clk 2" m db1] by (simp add: completed(12) m frame_simps d(2))
  moreover have "run_events db' = run_events db @
      [\<lparr>ev_run_id = i, ev_user_id = rn_user_id r', ev_seq = int (length (run_seqs db i)) + 1,
        ev_type = lit ''run.completed'',
        ev_data = [(lit ''status'', JStr (lit ''completed'')), (lit ''output_message_id'', JStr (ms_id m))],
        ev_created_at = clk 4\<rparr>]"
    using next_event_seq [OF assms(1), of i]
    by (simp add: completed(12) m append_run_event_def Let_def run_seqs_def rid frame_simps d(2))
  moreover have "ms_content m = content" "ms_role m = RoleAssistant" "ms_conversation_id m = cv_id c'"
      "ms_agent_metadata m = (case ameta of None \<Rightarrow> [] | Some d \<Rightarrow> d)"
    by (subst d(1), simp)+
  moreover have "cv_id c' = rn_conversation_id r'"
    using row_by_SomeD [OF completed(6)] by (simp add: completed(7,11))
  moreover have "queue_ok db'" by (rule complete_run_queue_ok [OF assms(1,3)])
  moreover have "run_owner db' i = None" using row by (simp add: run_owner_def completed(11))
  moreover have "rn_status r' = RunCompleted" "rn_output_message_id r' = Some (ms_id m)"
    by (simp_all add: completed(11) m)
  ultimately show ?thesis
    using row rows completed(1) completed(11) [unfolded m] by (intro conjI exI [of _ r]) simp_all
qed simp

lemma run_complete_effect_witness:
  "\<exists>r' m db'. complete_run [4] [119] [72] None None None None [8] (\<lambda>_. 0) (sm_db [sm_running]) =
     Inr ((r', Some m), db') \<and> ms_seq m = 2 \<and> length (deliveries db') = 1"
proof -
  obtain r' m db' where c: "complete_run [4] [119] [72] None None None None [8] (\<lambda>_. 0)
      (sm_db [sm_running]) = Inr ((r', Some m), db')" "ms_conversation_id m = [2]"
    by (simp add: complete_run_def sm_running_def sm_queued_def sm_conv_def sm_input_def
        post_message_def insert_message_def message_clash_def Let_def)
  have "queue_ok (sm_db [sm_running])" "msgs_ok (sm_db [sm_running])" by simp_all
  from run_complete_effect [OF this c(1)] c show ?thesis
    by (auto simp: conv_seqs_def sm_input_def sm_link_def)
qed

text \<open>once cancellation was requested, whatever its owner reports the Run ends cancelled, and no
  message is appended.\<close>

theorem run_cancel_wins:
  assumes "row_by rn_id i (runs db) = Some r" and "run_owner db i = Some w"
    and "rn_cancel_requested_at r \<noteq> None"
  shows "\<exists>r1 r2 r3 db1 db2 db3.
    complete_run i w content mid ameta cmeta lc fresh clk db = Inr ((r1, None), db1) \<and>
    fail_run i w err clk db = Inr (r2, db2) \<and> cancel_owned_run i w clk db = Inr (r3, db3) \<and>
    rn_status r1 = RunCancelled \<and> rn_status r2 = RunCancelled \<and> rn_status r3 = RunCancelled \<and>
    rn_output_message_id r1 = rn_output_message_id r \<and>
    messages db1 = messages db \<and> messages db2 = messages db \<and> messages db3 = messages db"
  using assms
  by (auto simp: run_owner_def complete_run_def fail_run_def cancel_owned_run_def Let_def frame_simps
      split: if_splits)

lemma run_cancel_wins_witness:
  "\<exists>r1 db1. complete_run [4] [119] [72] None None None None [8] (\<lambda>_. 0)
     (sm_db [sm_running\<lparr>rn_cancel_requested_at := Some 5\<rparr>]) = Inr ((r1, None), db1) \<and>
     rn_status r1 = RunCancelled"
proof -
  let ?r = "sm_running\<lparr>rn_cancel_requested_at := Some 5\<rparr>"
  have "row_by rn_id [4] (runs (sm_db [?r])) = Some ?r" "run_owner (sm_db [?r]) [4] = Some [119]"
    by (simp_all add: run_owner_def sm_running_def sm_queued_def)
  from run_cancel_wins [OF this, where content = "[72]" and mid = None and ameta = None and cmeta = None
      and lc = None and fresh = "[8]" and clk = "\<lambda>_. 0" and err = "[]"]
  show ?thesis by auto
qed

text \<open>recovery touches exactly the running Runs whose lease has expired, at most \<open>limit\<close> of them
  and the longest expired first; each goes back to the queue, or to cancelled when that was asked,
  and loses its lease; every other Run is unchanged.\<close>

theorem run_requeue_effect:
  assumes "queue_ok db" and "requeue_expired_runs limit clk locked db = (k, db')"
  shows "let hit = rn_id ` set (expired_runs limit (clk 0) locked db)
    in runs db' = map (\<lambda>r. if rn_id r \<in> hit then recovered (clk 0) r else r) (runs db) \<and>
       k = card hit \<and> k \<le> nat (max 1 limit) \<and> queue_ok db' \<and>
       (\<forall>r \<in> set (runs db). rn_id r \<in> hit \<longrightarrow> rn_status r = RunRunning \<and>
          (\<exists>e. rn_lease_expires_at r = Some e \<and> e < clk 0)) \<and>
       (k < nat (max 1 limit) \<longrightarrow> (\<forall>r \<in> set (runs db). rn_status r = RunRunning \<and>
          (\<exists>e. rn_lease_expires_at r = Some e \<and> e < clk 0) \<and> rn_id r \<notin> set locked \<longrightarrow> rn_id r \<in> hit))"
proof -
  let ?x = "expired_runs limit (clk 0) locked db"
  have st: "stored_running ?x db" by (rule expired_runs_stored [OF assms(1)])
  have e: "k = length ?x" "db' = recover_runs (clk 0) (\<lambda>i. clk (Suc i)) ?x db"
    using assms(2) by (simp_all add: requeue_expired_runs_def Let_def)
  have "distinct (map rn_id ?x)" using st by (simp add: stored_running_def)
  then have k: "k = card (rn_id ` set ?x)" by (metis e(1) distinct_card length_map list.set_map)
  have hit: "rn_status r = RunRunning \<and> (\<exists>e. rn_lease_expires_at r = Some e \<and> e < clk 0)"
    if r: "r \<in> set (runs db)" "rn_id r \<in> rn_id ` set ?x" for r
  proof -
    obtain y where y: "y \<in> set ?x" "rn_id r = rn_id y" using r(2) by blast
    then have "row_by rn_id (rn_id r) (runs db) = Some y" using st by (simp add: stored_running_def)
    moreover have "row_by rn_id (rn_id r) (runs db) = Some r"
      using assms(1) r(1) by (simp add: queue_ok_def runs_ok_row)
    ultimately have "y = r" by simp
    moreover have "y \<in> set (filter (\<lambda>r. rn_status r = RunRunning \<and>
              (case rn_lease_expires_at r of None \<Rightarrow> False | Some e \<Rightarrow> e < clk 0) \<and>
              rn_id r \<notin> set locked) (runs db))"
      using in_set_takeD [OF y(1) [unfolded expired_runs_def]] by simp
    ultimately show ?thesis by (auto split: option.splits)
  qed
  have all: "rn_id r \<in> rn_id ` set ?x"
    if "k < nat (max 1 limit)" "r \<in> set (runs db)" "rn_status r = RunRunning"
      "rn_lease_expires_at r = Some e" "e < clk 0" "rn_id r \<notin> set locked" for r e
    using that e(1) by (auto simp: expired_runs_def)
  have "k \<le> nat (max 1 limit)" by (simp add: e(1) expired_runs_def)
  then show ?thesis
    using recover_runs_result [OF assms(1) st] k hit all by (simp add: Let_def e(2)) blast
qed

lemma run_requeue_effect_witness:
  "\<exists>db'. requeue_expired_runs 5 (\<lambda>_. 20000000) [] (sm_db [sm_running]) = (1, db') \<and>
     runs db' = [recovered 20000000 sm_running]"
proof -
  obtain db' where c: "requeue_expired_runs 5 (\<lambda>_. 20000000) [] (sm_db [sm_running]) = (1, db')"
    by (simp add: requeue_expired_runs_def expired_runs_def sm_running_def sm_queued_def Let_def)
  have "queue_ok (sm_db [sm_running])" by simp
  from run_requeue_effect [OF this c] c show ?thesis
    by (simp add: expired_runs_def Let_def sm_running_def)
qed

section \<open>The event stream\<close>

text \<open>a reader that resumes after event \<open>a\<close> gets the events \<open>a+1, a+2, ...\<close> of its Run in
  order and without a gap, up to the page limit, and only events of its own Run and user.\<close>

theorem run_events_resume:
  assumes "queue_ok db" and "list_run_events u i a limit db = Inr es"
  shows "map ev_seq es = map (\<lambda>k. int k) [nat (max 0 a) + 1 ..<
      min (length (run_seqs db i)) (nat (max 0 a) + nat (min (max 1 limit) 1000)) + 1] \<and>
    (\<forall>e \<in> set es. ev_run_id e = i \<and> ev_user_id e = u)"
proof -
  obtain r where r: "find (\<lambda>r. rn_id r = i \<and> rn_user_id r = u) (runs db) = Some r"
    using assms(2) by (auto simp: list_run_events_def split: option.splits)
  let ?P = "\<lambda>e. ev_run_id e = i \<and> ev_user_id e = u \<and> max 0 a < ev_seq e"
  let ?f = "filter ?P (run_events db)" and ?k = "nat (min (max 1 limit) 1000)"
  have es: "es = take ?k (sort_key ev_seq ?f)"
    using assms(2) r by (auto simp: list_run_events_def)
  have ev: "events_ok db" "runs_ok (runs db)" using assms(1) by (simp_all add: queue_ok_def)
  have rr: "r \<in> set (runs db)" "rn_id r = i" "rn_user_id r = u" using r by (auto simp: find_Some_iff)
  have owner: "ev_user_id e = u" if e: "e \<in> set (run_events db)" "ev_run_id e = i" for e
  proof -
    obtain x where "x \<in> set (runs db)" "rn_id x = i" "rn_user_id x = ev_user_id e"
      using ev(1) e by (auto simp: events_ok_def)
    then show ?thesis using rr ev(2) by (metis row_by_uniqueD row_by_unique runs_ok_def)
  qed
  let ?n = "length (run_seqs db i)" and ?a = "nat (max 0 a)"
  have "map ev_seq ?f = filter (\<lambda>x. max 0 a < x) (run_seqs db i)"
  proof -
    have "?f = filter (\<lambda>e. max 0 a < ev_seq e) (filter (\<lambda>e. ev_run_id e = i) (run_events db))"
      using owner by (auto intro!: filter_cong)
    then show ?thesis by (simp add: run_seqs_def filter_map o_def)
  qed
  also have "\<dots> = filter (\<lambda>x. max 0 a < x) (upto_int ?n)"
    using ev(1) unfolding events_ok_def by metis
  also have "\<dots> = map int (filter (\<lambda>k. ?a < k) [1..<Suc ?n])"
    by (auto simp: upto_int_def filter_map o_def intro!: filter_cong)
  also have "filter (\<lambda>k. ?a < k) [1..<Suc ?n] = [?a + 1..<Suc ?n]"
    by (rule filter_less_upt)
  finally have f: "map ev_seq ?f = map int [?a + 1..<Suc ?n]" .
  have "sorted (map int [?a + 1..<Suc ?n])"
    by (simp only: sorted_map sorted_wrt_upt_le)
  then have "sorted (map ev_seq ?f)" unfolding f .
  then have srt: "sort_key ev_seq ?f = ?f" by (rule sort_key_id_if_sorted)
  have "map ev_seq es = take ?k (map ev_seq ?f)" by (simp only: es srt take_map)
  also have "\<dots> = map int (take ?k [?a + 1..<Suc ?n])" by (simp only: f take_map)
  also have "take ?k [?a + 1..<Suc ?n] = [?a + 1..<min ?n (?a + ?k) + 1]"
    by (rule take_upt_min)
  finally show ?thesis using owner by (auto simp: es dest!: in_set_takeD)
qed

lemma run_events_resume_witness:
  "\<exists>db' es. request_cancel [1] [4] (\<lambda>_. 9) (sm_db [sm_queued]) = Inr db' \<and>
     list_run_events [1] [4] 0 50 (snd db') = Inr es \<and> map ev_seq es = [1]"
proof -
  obtain r' db' where c: "request_cancel [1] [4] (\<lambda>_. 9) (sm_db [sm_queued]) = Inr (r', db')"
    and l: "length (run_seqs db' [4]) = 1" "runs db' = [r']" "rn_id r' = [4]" "rn_user_id r' = [1]"
    by (simp add: request_cancel_def sm_queued_def Let_def frame_simps)
      (simp add: run_seqs_def)
  then obtain es where e: "list_run_events [1] [4] 0 50 db' = Inr es"
    by (simp add: list_run_events_def)
  have "queue_ok db'" using request_cancel_queue_ok [OF _ c] by simp
  from run_events_resume [OF this e] c e l show ?thesis by (auto simp: upt_rec)
qed

section \<open>Admission\<close>

text \<open>C25: a submission that is not a replay appends one user message, numbered next in the
  conversation, and one queued Run on it with one \<open>run.queued\<close> event; nobody holds the lease of the
  conversation's background work afterwards; the invariants are kept.\<close>

theorem submission_effect:
  assumes "queue_ok db" and "msgs_ok db"
    and "submit_new u cid content key fids mid rid clk db = Inr ((m, r), db')"
  shows "messages db' = messages db @ [m] \<and> ms_role m = RoleUser \<and> ms_content m = content \<and>
    ms_conversation_id m = cid \<and> ms_seq m = int (length (conv_seqs db cid)) + 1 \<and>
    runs db' = runs db @ [r] \<and> rn_status r = RunQueued \<and> rn_input_message_id r = ms_id m \<and>
    rn_user_id r = u \<and> run_seqs db' rid = [1] \<and>
    (\<forall>a. row_by at_conversation_id cid (automations db') = Some a \<longrightarrow> at_lease_owner a = None) \<and>
    queue_ok db' \<and> msgs_ok db'"
  using assms(3)
proof (rule submit_new_cases)
  fix c fs db1
  assume c: "owned_conversation u cid db = Some c"
    and p: "post_message mid c RoleUser content
       [(lit ''attachments'', JArr (map attachment fs)),
        (lit ''media'', JArr (map (\<lambda>f. JStr (fl_workspace_path f)) fs))]
       None (clk 0) (clk 3) (revoke_automation cid (clk 1) (clk 2) db) = Inr (m, db1)"
    and r: "r = queued_run rid u cid (ms_id m) key (clk 4)"
    and fresh: "\<forall>r' \<in> set (runs db1). \<not> run_clash r r'"
    and db': "db' = log_event r (lit ''run.queued'')
       [jstatus ''queued'', (lit ''input_message_id'', JStr (ms_id m))] (clk 5)
       (db1\<lparr>runs := runs db1 @ [r]\<rparr>)"
  note d = post_messageD [OF p]
  have cc: "c \<in> set (conversations db)" "cv_id c = cid" using owned_conversationD [OF c] by simp_all
  have num: "ms_seq m = int (length (conv_seqs db cid)) + 1"
    using assms(2) cc by (auto simp: d(1) msgs_ok_def)
  have msg: "ms_role m = RoleUser" "ms_content m = content" "ms_conversation_id m = cid"
    by (subst d(1), simp add: cc(2))+
  have db1: "runs db1 = runs db" "run_events db1 = run_events db" "messages db1 = messages db @ [m]"
    "automations db1 = automations (revoke_automation cid (clk 1) (clk 2) db)"
    by (simp_all add: d(2) frame_simps)
  have rows: "messages db' = messages db @ [m]" "runs db' = runs db @ [r]"
    "automations db' = automations (revoke_automation cid (clk 1) (clk 2) db)"
    by (simp_all add: db' frame_simps db1)
  have "\<forall>x \<in> set (runs db). rn_id x \<noteq> rid"
    using fresh db1(1) by (auto simp: run_clash_def r)
  then have "\<forall>e \<in> set (run_events db). ev_run_id e \<noteq> rid"
    using assms(1) unfolding queue_ok_def events_ok_def by metis
  then have "run_seqs (db1\<lparr>runs := runs db1 @ [r]\<rparr>) rid = []" by (simp add: run_seqs_def db1(2))
  then have seqs: "run_seqs db' rid = [1]"
    by (simp add: db' run_seqs_simps r last_seq_def)
  have auto: "at_lease_owner a = None"
    if "row_by at_conversation_id cid (automations db') = Some a" for a
    using that unfolding rows(3)
    by (auto simp: revoke_automation_def row_by_put_row split: option.splits if_splits
        dest: row_by_SomeD)
  have run: "rn_status r = RunQueued" "rn_input_message_id r = ms_id m" "rn_user_id r = u" by (simp_all add: r)
  show ?thesis
    using rows(1,2) msg num run seqs auto submit_new_ok [OF assms] by (intro conjI allI impI) simp_all
qed

lemma submission_effect_witness:
  "\<exists>m r db'. submit_new [1] [2] [104] (Some [75]) [] [8] [9] (\<lambda>_. 0) (sm_db []) = Inr ((m, r), db') \<and>
     ms_seq m = 2 \<and> runs db' = [r]"
proof -
  obtain m r db' where s: "submit_new [1] [2] [104] (Some [75]) [] [8] [9] (\<lambda>_. 0) (sm_db []) = Inr ((m, r), db')"
    by (simp add: submit_new_def owned_conversation_def sm_conv_def sm_input_def resolve_files_def
        revoke_automation_def post_message_def insert_message_def message_clash_def insert_run_def Let_def)
  from submission_effect [OF _ _ this] s show ?thesis
    by (simp add: conv_seqs_def sm_input_def)
qed

text \<open>C26: a submission with an idempotency key is admitted at most once.  Whatever the first call
  returned and whatever was committed since, claims, reports, cancellations and other submissions included, short of a
  deletion of the conversation, a
  later call with the key returns the first message and the Run as it is then stored, and leaves the database as
  it is: with any other content, ids and clock readings, and with any file ids when its snapshot shows the Run;
  with a snapshot that does not show it yet, when its files resolve.  The key has exactly that one Run.\<close>

theorem submission_idempotent:
  assumes "queue_ok db" and "msgs_ok db" and "tenants_ok db" and "set seen \<subseteq> set (runs db)"
    and "normal_key ikey = Some k"
    and "append_user_message_and_run u cid content ikey fids seen mid rid clk db = Inr ((m, r), db1)"
    and "(store_step {})\<^sup>*\<^sup>* db1 db2"
    and "normal_key ikey' = Some k"
    and "strip content' \<noteq> [] \<or> (case fids' of None \<Rightarrow> [] | Some l \<Rightarrow> l) \<noteq> []"
    and "set seen' \<subseteq> set (runs db2)"
    and "rn_id r \<in> rn_id ` set seen' \<or> (\<exists>fs. resolve_files (lit ''one or more files were not found'') u cid
      (case fids' of None \<Rightarrow> [] | Some l \<Rightarrow> l) db2 = Inr fs)"
  shows "\<exists>r2. same_run r r2 \<and>
    append_user_message_and_run u cid content' ikey' fids' seen' mid' rid' clk' db2 = Inr ((m, r2), db2) \<and>
    filter (\<lambda>x. rn_user_id x = u \<and> rn_idempotency_key x = Some k) (runs db2) = [r2]"
proof -
  note ok1 = append_user_message_and_run_ok [OF assms(1,2,6)]
  note l = store_steps_keep [OF assms(7) ok1]
  have "admitted u cid k m r db1"
    by (rule append_user_message_and_run_admitted [OF assms(1,2,4-6)])
  then obtain r2 where r2: "same_run r r2" "admitted u cid k m r2 db2" using later_admitted l by blast
  have v: "\<not> key_invalid k"
    using assms(5,6) by (auto simp: append_user_message_and_run_def Let_def split: if_splits)
  obtain c1 where "owned_conversation u cid db1 = Some c1"
    using append_user_message_and_run_tenants(2) [OF assms(2-4,6)] by (rule owner_pair_conversation)
  then obtain c where c: "owned_conversation u cid db2 = Some c" using later_conversation l by blast
  have q: "queue_ok db2" using l by blast
  then have ro: "runs_ok (runs db2)" by (simp add: queue_ok_def)
  have x: "r2 \<in> set (runs db2)" "rn_user_id r2 = u" "rn_idempotency_key r2 = Some k"
    using r2(2) by (simp_all add: admitted_def)
  have again: "append_user_message_and_run u cid content' ikey' fids' seen' mid' rid' clk' db2 = Inr ((m, r2), db2)"
    using assms(11)
  proof
    assume "rn_id r \<in> rn_id ` set seen'"
    then obtain y where y: "y \<in> set seen'" "rn_id y = rn_id r2" using r2(1) by (auto simp: same_run_def)
    then have "y = r2" using assms(10) ro x(1) by (metis row_by_unique row_by_uniqueD runs_ok_def subsetD)
    then show ?thesis using retry_seen [OF q r2(2) assms(8) v assms(9,10)] y(1) by blast
  next
    assume "\<exists>fs. resolve_files (lit ''one or more files were not found'') u cid
      (case fids' of None \<Rightarrow> [] | Some l \<Rightarrow> l) db2 = Inr fs"
    then show ?thesis using retry_absorbed [OF q r2(2) assms(8) v assms(9,10) c] by blast
  qed
  have "y = r2" if "y \<in> set (runs db2)" "rn_user_id y = u \<and> rn_idempotency_key y = Some k" for y
    using find_submission_unique [OF ro x, of "[y]" y] that by (simp add: find_submission_def)
  moreover have "distinct (runs db2)" using ro by (auto simp: runs_ok_def distinct_map)
  ultimately have "filter (\<lambda>x. rn_user_id x = u \<and> rn_idempotency_key x = Some k) (runs db2) = [r2]"
    using x by (intro filter_single) blast+
  then show ?thesis using r2(1) again by blast
qed

lemma submission_idempotent_witness:
  "\<exists>m r db1 r1 db2 r2 out db3 r3.
     append_user_message_and_run [1] [2] [104] (Some [75]) None [] [8] [9] (\<lambda>_. 0) (sm_db []) = Inr ((m, r), db1) \<and>
     claim_next_run [119] 60 (\<lambda>_. 7) [] [] db1 = (Some r1, db2) \<and>
     complete_run [9] [119] [72] None None None None [10] (\<lambda>_. 8) db2 = Inr ((r2, Some out), db3) \<and>
     append_user_message_and_run [1] [2] [105] (Some [75]) (Some [[77]]) (runs db3) [18] [19] (\<lambda>_. 9) db3 =
       Inr ((m, r3), db3)"
proof -
  obtain m r db1 where s: "append_user_message_and_run [1] [2] [104] (Some [75]) None [] [8] [9] (\<lambda>_. 0)
      (sm_db []) = Inr ((m, r), db1)"
    and d1: "runs db1 = [r]" "rn_id r = [9]" "rn_status r = RunQueued" "rn_conversation_id r = [2]"
      "rn_cancel_requested_at r = None" "rn_created_at r = 0"
      "\<exists>c. conversations db1 = [c] \<and> cv_id c = [2] \<and> cv_next_message_seq c = 3"
      "messages db1 = [sm_input, m]" "ms_id m = [8]" "ms_conversation_id m = [2]" "ms_seq m = 2"
    by (simp add: append_user_message_and_run_def normal_key_def strip_def py_space_def key_invalid_def
        find_submission_def submit_new_def owned_conversation_def sm_conv_def sm_input_def resolve_files_def
        revoke_automation_def post_message_def insert_message_def message_clash_def insert_run_def Let_def
        queued_run_def frame_simps)
  obtain r1 db2 where c: "claim_next_run [119] 60 (\<lambda>_. 7) [] [] db1 = (Some r1, db2)"
    and d2: "runs db2 = [r1]" "rn_id r1 = [9]" "rn_status r1 = RunRunning" "rn_conversation_id r1 = [2]"
      "rn_lease_owner r1 = Some [119]" "rn_cancel_requested_at r1 = None" "messages db2 = messages db1"
      "conversations db2 = conversations db1"
    using d1(1-6) by (simp add: claim_next_run_def first_row_def conversation_running_def Let_def frame_simps)
  obtain cv where cv: "conversations db2 = [cv]" "cv_id cv = [2]" "cv_next_message_seq cv = 3" using d1(7) d2(8) by auto
  obtain r2 out db3 where f: "complete_run [9] [119] [72] None None None None [10] (\<lambda>_. 8) db2 = Inr ((r2, Some out), db3)"
    and d3: "runs db3 = [r2]" "rn_id r2 = [9]"
    using d2(1-6) cv d1(8-11) d2(7)
    by (simp add: complete_run_def post_message_def insert_message_def message_clash_def frame_simps sm_input_def Let_def
        del: One_nat_def)
  have "(store_step {})\<^sup>*\<^sup>* db1 db3"
    using st_claim [OF c, of "{}"] st_complete [OF f, of "{}"] by auto
  moreover have k: "normal_key (Some [75]) = Some [75]" by (simp add: normal_key_def strip_def py_space_def)
  moreover have "rn_id r \<in> rn_id ` set (runs db3)" using d1(2) d3 by simp
  ultimately obtain r3 where "append_user_message_and_run [1] [2] [105] (Some [75]) (Some [[77]]) (runs db3) [18] [19]
      (\<lambda>_. 9) db3 = Inr ((m, r3), db3)"
    using submission_idempotent [OF _ _ _ _ k s, of db3 "Some [75]" "[105]" "Some [[77]]" "runs db3" "[18]" "[19]" "\<lambda>_. 9"]
    by auto
  then show ?thesis using s c f by blast
qed

text \<open>C36: the derived idempotency key of a channel event keeps 128 characters, so a second, distinct
  event of the same link whose key agrees with a stored one on them is refused with an integrity error,
  on every attempt, and is never answered.\<close>

theorem channel_key_collision:
  assumes "r \<in> set (runs db)" and "rn_user_id r = lk_user_id l"
    and "rn_idempotency_key r = Some (channel_key p ev)"
    and "channel_key p ev' = channel_key p ev" and "find_link p ch db = Some l"
    and "row_by cv_id (lk_conversation_id l) (conversations db) = Some c"
    and "find_inbound p ev' (inbounds db) = None" and "strip content \<noteq> []"
  shows "ingest_channel_message p ev' ch content None (inbounds db) mid rid clk db = Inl IntegrityError"
  using ingest_truncated_key_refused [OF assms(1,2) _ assms(5-8)] assms(3,4) by simp

lemma channel_key_collision_witness:
  "ingest_channel_message (lit ''qq'') (replicate 117 120 @ [2]) [7] [104] None [] [18] [19] (\<lambda>_. 5)
     (sm_db [sm_queued\<lparr>rn_idempotency_key := Some (channel_key (lit ''qq'') (replicate 117 120 @ [1]))\<rparr>])
   = Inl IntegrityError"
proof -
  let ?r = "sm_queued\<lparr>rn_idempotency_key := Some (channel_key (lit ''qq'') (replicate 117 120 @ [1]))\<rparr>"
  have k: "channel_key (lit ''qq'') (replicate 117 120 @ [2]) = channel_key (lit ''qq'') (replicate 117 120 @ [1])"
    by (simp add: channel_key_def)
  have "find_link (lit ''qq'') [7] (sm_db [?r]) = Some sm_link"
    by (simp add: find_link_def sm_link_def)
  from channel_key_collision [OF _ _ _ k this, of ?r sm_conv "[104]" "[18]" "[19]" "\<lambda>_. 5"]
  show ?thesis
    by (simp add: sm_link_def sm_queued_def sm_conv_def find_inbound_def strip_def py_space_def)
qed

end
