(* ===== verification/PySha256.thy ===== *)
theory PySha256
  imports KPrelude "HOL-Library.Word"
begin

unbundle bit_operations_syntax

text \<open>
  The part of the standard library behind \<open>hashlib.sha256(text.encode()).hexdigest()\<close>, which
  the store applies to pairing codes, session tokens and tool arguments: UTF-8 encoding, which
  raises on a surrogate, SHA-256 on 32-bit words, and the lower-case hexadecimal text.
\<close>

section \<open>UTF-8\<close>

definition utf8_char :: "nat \<Rightarrow> nat list option" where
  "utf8_char c =
     (if c < 128 then Some [c]
      else if c < 2048 then Some [192 + c div 64, 128 + c mod 64]
      else if 55296 \<le> c \<and> c < 57344 then None
      else if c < 65536 then Some [224 + c div 4096, 128 + (c div 64) mod 64, 128 + c mod 64]
      else Some [240 + c div 262144, 128 + (c div 4096) mod 64, 128 + (c div 64) mod 64,
                 128 + c mod 64])"

fun utf8_encode :: "pystr \<Rightarrow> nat list option" where
  "utf8_encode [] = Some []"
| "utf8_encode (c # cs) =
     (case (utf8_char c, utf8_encode cs) of
        (Some b, Some bs) \<Rightarrow> Some (b @ bs)
      | _ \<Rightarrow> None)"

section \<open>SHA-256\<close>

text \<open>
  The constants are the first 32 bits of the fractional parts of the cube roots (rounds) and
  square roots (initial state) of the first primes, computed here as integer roots bit by bit.
\<close>

fun root_bits :: "nat \<Rightarrow> nat \<Rightarrow> nat \<Rightarrow> nat \<Rightarrow> nat" where
  "root_bits k n 0 r = r"
| "root_bits k n (Suc b) r = root_bits k n b (if (r + 2 ^ b) ^ k \<le> n then r + 2 ^ b else r)"

definition root_word :: "nat \<Rightarrow> nat \<Rightarrow> 32 word" where
  "root_word k p = word_of_nat (root_bits k (p * 2 ^ (32 * k)) 37 0)"

definition small_primes :: "nat list" where
  "small_primes = filter (\<lambda>n. list_all (\<lambda>d. n mod d \<noteq> 0) [2..<n]) [2..<312]"

definition sha_k :: "32 word list" where
  "sha_k = map (root_word 3) small_primes"

definition sha_init :: "32 word list" where
  "sha_init = map (root_word 2) [2, 3, 5, 7, 11, 13, 17, 19]"

definition sha_pad :: "nat list \<Rightarrow> nat list" where
  "sha_pad bs =
     bs @ [128] @ replicate ((119 - length bs mod 64) mod 64) 0 @
     map (\<lambda>i. (8 * length bs) div 256 ^ i mod 256) (rev [0..<8])"

fun sha_words :: "nat list \<Rightarrow> 32 word list" where
  "sha_words (a # b # c # d # rest) =
     word_of_nat (16777216 * a + 65536 * b + 256 * c + d) # sha_words rest"
| "sha_words _ = []"

definition sha_s0 :: "32 word \<Rightarrow> 32 word" where
  "sha_s0 x = word_rotr 7 x XOR word_rotr 18 x XOR drop_bit 3 x"

definition sha_s1 :: "32 word \<Rightarrow> 32 word" where
  "sha_s1 x = word_rotr 17 x XOR word_rotr 19 x XOR drop_bit 10 x"

text \<open>The schedule is built with the newest word first.\<close>

fun sha_extend :: "nat \<Rightarrow> 32 word list \<Rightarrow> 32 word list" where
  "sha_extend 0 ws = rev ws"
| "sha_extend (Suc n) ws =
     sha_extend n ((sha_s1 (ws ! 1) + ws ! 6 + sha_s0 (ws ! 14) + ws ! 15) # ws)"

fun sha_round :: "32 word list \<Rightarrow> 32 word \<times> 32 word \<Rightarrow> 32 word list" where
  "sha_round [a, b, c, d, e, f, g, h] (k, w) =
     (let s1 = word_rotr 6 e XOR word_rotr 11 e XOR word_rotr 25 e;
          ch = (e AND f) XOR (NOT e AND g);
          t1 = h + s1 + ch + k + w;
          s0 = word_rotr 2 a XOR word_rotr 13 a XOR word_rotr 22 a;
          maj = (a AND b) XOR (a AND c) XOR (b AND c)
      in [t1 + s0 + maj, a, b, c, d + t1, e, f, g])"
| "sha_round st _ = st"

definition sha_block :: "32 word list \<Rightarrow> nat list \<Rightarrow> 32 word list" where
  "sha_block st block =
     map (\<lambda>(x, y). x + y)
       (zip st (foldl sha_round st (zip sha_k (sha_extend 48 (rev (sha_words block))))))"

fun sha_blocks :: "nat \<Rightarrow> 32 word list \<Rightarrow> nat list \<Rightarrow> 32 word list" where
  "sha_blocks 0 st bs = st"
| "sha_blocks (Suc n) st bs = sha_blocks n (sha_block st (take 64 bs)) (drop 64 bs)"

definition sha_digit :: "nat \<Rightarrow> nat" where
  "sha_digit d = (if d < 10 then 48 + d else 87 + d)"

definition word_hex :: "32 word \<Rightarrow> pystr" where
  "word_hex w = map (\<lambda>i. sha_digit (unat w div 16 ^ i mod 16)) (rev [0..<8])"

definition sha256_bytes :: "nat list \<Rightarrow> pystr" where
  "sha256_bytes bs =
     (let p = sha_pad bs in concat (map word_hex (sha_blocks (length p div 64) sha_init p)))"

text \<open>\<open>None\<close> is the \<open>UnicodeEncodeError\<close> of \<open>encode\<close>.\<close>

definition sha256_text :: "pystr \<Rightarrow> pystr option" where
  "sha256_text s = map_option sha256_bytes (utf8_encode s)"

lemma length_sha_round [simp]: "length st = 8 \<Longrightarrow> length (sha_round st p) = 8"
  by (cases "(st, p)" rule: sha_round.cases) (simp_all add: Let_def)

lemma length_sha_extend [simp]: "length (sha_extend n ws) = n + length ws"
  by (induction n ws rule: sha_extend.induct) auto

lemma length_foldl_round: "length st = 8 \<Longrightarrow> length (foldl sha_round st ps) = 8"
  by (induction ps arbitrary: st) simp_all

lemma length_sha_block [simp]: "length st = 8 \<Longrightarrow> length (sha_block st b) = 8"
  by (simp add: sha_block_def length_foldl_round)

lemma length_sha_blocks [simp]: "length st = 8 \<Longrightarrow> length (sha_blocks n st bs) = 8"
  by (induction n arbitrary: st bs) simp_all

lemma length_sha_pad: "64 dvd length (sha_pad bs)"
proof -
  have len: "length (sha_pad bs) = length bs + 9 + (119 - length bs mod 64) mod 64"
    by (simp add: sha_pad_def)
  have "(r + 9 + (119 - r) mod 64) mod 64 = 0" if "r < 64" for r :: nat
  proof (cases "r < 56")
    case True
    then have "(119 - r) mod 64 = 55 - r" using mod_add_self2 [of "55 - r" 64] by simp
    moreover have "r + 9 + (55 - r) = 64" using True by simp
    ultimately show ?thesis by (simp only: mod_self)
  next
    case False
    then have "(119 - r) mod 64 = 119 - r" using that by simp
    moreover have "r + 9 + (119 - r) = 64 * 2" using False that by simp
    ultimately show ?thesis by (simp only: mod_mult_self1_is_0)
  qed
  then have "64 dvd length bs mod 64 + 9 + (119 - length bs mod 64) mod 64"
    by (simp only: mod_eq_0_iff_dvd mod_less_divisor zero_less_numeral)
  moreover have "64 dvd 64 * (length bs div 64)" by simp
  ultimately have "64 dvd 64 * (length bs div 64) + (length bs mod 64 + 9 + (119 - length bs mod 64) mod 64)"
    by (rule dvd_add [rotated])
  moreover have "64 * (length bs div 64) + (length bs mod 64 + 9 + (119 - length bs mod 64) mod 64) =
      length bs + 9 + (119 - length bs mod 64) mod 64"
    by (simp only: add.assoc [symmetric] mult_div_mod_eq)
  ultimately show ?thesis using len by (simp only:)
qed

lemma length_concat_const: "(\<And>x. x \<in> set xs \<Longrightarrow> length x = n) \<Longrightarrow> length (concat xs) = n * length xs"
  by (induction xs) auto

text \<open>A digest is always 64 hexadecimal digits, the width of the columns that hold it.\<close>

lemma sha256_bytes_length: "length (sha256_bytes bs) = 64"
proof -
  have "length (sha_blocks n sha_init p) = 8" for n p
    by (simp add: sha_init_def)
  then show ?thesis
    unfolding sha256_bytes_def Let_def
    by (subst length_concat_const [of _ 8]) (auto simp: word_hex_def)
qed

lemma sha256_text_length: "sha256_text s = Some d \<Longrightarrow> length d = 64"
  by (auto simp: sha256_text_def sha256_bytes_length)

end
