(* ===== verification/CloudChannels.thy ===== *)
theory CloudChannels
  imports CloudAdmission PySha256
begin

text \<open>
  The channel side of \<open>src/cloud/store.py\<close>: pairing codes, links, pushed messages and the
  delivery outbox, whose rows are claimed under a lease.
\<close>

section \<open>Operations\<close>

definition encode_error :: py_error where
  "encode_error = ValueError (lit ''surrogates not allowed'')"

definition channel_providers :: "pystr set" where
  "channel_providers = {lit ''telegram'', lit ''qq'', lit ''qqbot''}"

definition create_channel_pairing ::
  "uuid \<Rightarrow> uuid \<Rightarrow> pystr \<Rightarrow> pystr \<Rightarrow> clock \<Rightarrow> cloud_db \<Rightarrow> (pairing_row \<times> cloud_db) res" where
  "create_channel_pairing user_id conversation_id provider raw_code clk db =
     (if provider \<notin> channel_providers then Inl (ValueError (lit ''unsupported channel provider''))
      else case sha256_text raw_code of
        None \<Rightarrow> Inl encode_error
      | Some code_hash \<Rightarrow>
          (case owned_conversation user_id conversation_id db of
             None \<Rightarrow> Inl (StoreNotFoundError (lit ''conversation not found''))
           | Some c \<Rightarrow>
               (let pairing = \<lparr>pr_code_hash = code_hash, pr_user_id = user_id,
                               pr_conversation_id = conversation_id, pr_provider = provider,
                               pr_expires_at = clk 0 + seconds (10 * 60),
                               pr_consumed_at = None, pr_created_at = clk 1\<rparr>
                in if code_hash \<in> pr_code_hash ` set (pairings db) then Inl IntegrityError
                   else Inr (pairing, db\<lparr>pairings := pairings db @ [pairing]\<rparr>))))"

definition insert_link :: "link_row \<Rightarrow> cloud_db \<Rightarrow> cloud_db res" where
  "insert_link l db =
     (if \<exists>x \<in> set (links db). lk_id x = lk_id l \<or>
          (lk_provider x = lk_provider l \<and> lk_external_chat_id x = lk_external_chat_id l)
      then Inl IntegrityError else Inr (db\<lparr>links := links db @ [l]\<rparr>))"

text \<open>\<open>seen\<close> is the snapshot of the link table that the occupancy query reads.\<close>

definition consume_channel_pairing ::
  "pystr \<Rightarrow> pystr \<Rightarrow> pystr \<Rightarrow> pystr \<Rightarrow> pystr \<Rightarrow> link_row list \<Rightarrow> uuid \<Rightarrow> clock \<Rightarrow> cloud_db \<Rightarrow>
   (link_row \<times> cloud_db) res" where
  "consume_channel_pairing raw_code provider external_user_id external_chat_id display_name seen
       fresh clk db =
     (case sha256_text raw_code of
        None \<Rightarrow> Inl encode_error
      | Some code_hash \<Rightarrow>
          (case row_by pr_code_hash code_hash (pairings db) of
             None \<Rightarrow> Inl (StoreStateError (lit ''invalid or expired pairing code''))
           | Some p \<Rightarrow>
               if pr_provider p \<noteq> provider \<or> pr_consumed_at p \<noteq> None \<or> pr_expires_at p < clk 0
               then Inl (StoreStateError (lit ''invalid or expired pairing code''))
               else if \<exists>l \<in> set seen. lk_provider l = provider \<and>
                         lk_external_chat_id l = external_chat_id
               then Inl (StoreConflictError (lit ''channel chat is already linked''))
               else
                 (let link = \<lparr>lk_id = fresh, lk_user_id = pr_user_id p,
                              lk_conversation_id = pr_conversation_id p, lk_provider = provider,
                              lk_external_user_id = take 300 external_user_id,
                              lk_external_chat_id = take 300 external_chat_id,
                              lk_display_name = take 300 display_name, lk_enabled = True,
                              lk_created_at = clk 2\<rparr>;
                      db1 = db\<lparr>pairings := put_row pr_code_hash
                               (p\<lparr>pr_consumed_at := Some (clk 1)\<rparr>) (pairings db)\<rparr>
                  in case insert_link link db1 of
                       Inl e \<Rightarrow> Inl e
                     | Inr db2 \<Rightarrow> Inr (link, db2))))"

definition list_channel_links :: "uuid \<Rightarrow> cloud_db \<Rightarrow> link_row list" where
  "list_channel_links user_id db =
     sort_key lk_created_at (filter (\<lambda>l. lk_user_id l = user_id \<and> lk_enabled l) (links db))"

definition resolve_channel_link :: "pystr \<Rightarrow> pystr \<Rightarrow> cloud_db \<Rightarrow> link_row res" where
  "resolve_channel_link provider external_chat_id db =
     (case find_link provider external_chat_id db of
        None \<Rightarrow> Inl (StoreNotFoundError (lit ''channel chat is not linked''))
      | Some l \<Rightarrow> Inr l)"

text \<open>The foreign keys of inbound events and deliveries cascade.\<close>

definition delete_channel_link :: "uuid \<Rightarrow> uuid \<Rightarrow> cloud_db \<Rightarrow> (unit \<times> cloud_db) res" where
  "delete_channel_link user_id link_id db =
     (case find (\<lambda>l. lk_id l = link_id \<and> lk_user_id l = user_id) (links db) of
        None \<Rightarrow> Inl (StoreNotFoundError (lit ''channel link not found''))
      | Some l \<Rightarrow>
          Inr ((), db\<lparr>links := filter (\<lambda>x. lk_id x \<noteq> link_id) (links db),
                     inbounds := filter (\<lambda>x. ib_link_id x \<noteq> link_id) (inbounds db),
                     deliveries := filter (\<lambda>x. dl_link_id x \<noteq> link_id) (deliveries db)\<rparr>))"

definition enqueue_channel_push ::
  "uuid \<Rightarrow> uuid \<Rightarrow> pystr \<Rightarrow> pystr \<Rightarrow> pystr \<Rightarrow> pystr list \<Rightarrow> pystr \<Rightarrow> uuid \<Rightarrow> clock \<Rightarrow> cloud_db \<Rightarrow>
   (message_row \<times> cloud_db) res" where
  "enqueue_channel_push user_id conversation_id provider external_chat_id content media
       push_hex mid clk db =
     (case find (\<lambda>l. lk_user_id l = user_id \<and> lk_conversation_id l = conversation_id \<and>
                  lk_provider l = provider \<and> lk_external_chat_id l = external_chat_id \<and>
                  lk_enabled l) (links db) of
        None \<Rightarrow> Inl (StoreNotFoundError (lit ''target channel is not linked to this conversation''))
      | Some l \<Rightarrow>
          (case row_by cv_id conversation_id (conversations db) of
             None \<Rightarrow> Inl (StoreNotFoundError (lit ''conversation not found''))
           | Some c \<Rightarrow>
               (case post_message mid c RoleAssistant content
                       [(lit ''source'', JStr (lit ''message_push'')),
                        (lit ''media'', JArr (map JStr media))]
                       (Some (lit ''push:'' @ push_hex)) (clk 0) (clk 1) db of
                  Inl e \<Rightarrow> Inl e
                | Inr (m, db1) \<Rightarrow> Inr (m, add_deliveries (clk 2) (ms_id m) [l] db1))))"

text \<open>
  At most 20 expired rows are released per call.  The query has no order; as \<open>locked\<close> is
  arbitrary, every choice it can make is one of the table-order choices below.
\<close>

definition expired_deliveries :: "instant \<Rightarrow> nat list \<Rightarrow> cloud_db \<Rightarrow> delivery_row list" where
  "expired_deliveries now locked db =
     take 20 (filter (\<lambda>d. dl_status d = DlvRunning \<and>
       (case dl_lease_expires_at d of None \<Rightarrow> False | Some e \<Rightarrow> e < now) \<and>
       dl_id d \<notin> set locked) (deliveries db))"

definition release_deliveries :: "nat list \<Rightarrow> delivery_row list \<Rightarrow> delivery_row list" where
  "release_deliveries ids ds =
     map (\<lambda>d. if dl_id d \<in> set ids
              then d\<lparr>dl_status := DlvPending, dl_lease_owner := None,
                     dl_lease_expires_at := None\<rparr> else d) ds"

definition claim_channel_delivery ::
  "pystr \<Rightarrow> int \<Rightarrow> instant \<Rightarrow> nat list \<Rightarrow> nat list \<Rightarrow> cloud_db \<Rightarrow>
   (delivery_row \<times> link_row \<times> message_row) option \<times> cloud_db" where
  "claim_channel_delivery worker_id lease_seconds now locked1 locked2 db =
     (let ds = release_deliveries (map dl_id (expired_deliveries now locked1 db)) (deliveries db)
      in case first_row (\<lambda>d. (dl_created_at d, dl_id d))
                (\<lambda>d. dl_status d = DlvPending \<and> dl_id d \<notin> set locked2) ds of
           None \<Rightarrow> (None, db\<lparr>deliveries := ds\<rparr>)
         | Some d \<Rightarrow>
             (let d' = d\<lparr>dl_status := DlvRunning, dl_lease_owner := Some (take 200 worker_id),
                         dl_lease_expires_at := Some (now + seconds (max 10 lease_seconds)),
                         dl_attempt := dl_attempt d + 1\<rparr>
              in case (row_by lk_id (dl_link_id d) (links db),
                       row_by ms_id (dl_message_id d) (messages db)) of
                   (Some l, Some m) \<Rightarrow>
                     (Some (d', l, m), db\<lparr>deliveries := put_row dl_id d' ds\<rparr>)
                 | _ \<Rightarrow>
                     (None, db\<lparr>deliveries := put_row dl_id
                        (d'\<lparr>dl_status := DlvFailed,
                            dl_last_error := lit ''delivery dependency is missing''\<rparr>) ds\<rparr>)))"

definition finish_channel_delivery ::
  "nat \<Rightarrow> pystr \<Rightarrow> bool \<Rightarrow> pystr \<Rightarrow> instant \<Rightarrow> cloud_db \<Rightarrow> (unit \<times> cloud_db) res" where
  "finish_channel_delivery delivery_id worker_id sent err now db =
     (case row_by dl_id delivery_id (deliveries db) of
        None \<Rightarrow> Inl (StoreStateError (lit ''channel worker does not own delivery''))
      | Some d \<Rightarrow>
          if dl_lease_owner d \<noteq> Some (take 200 worker_id)
          then Inl (StoreStateError (lit ''channel worker does not own delivery''))
          else Inr ((), db\<lparr>deliveries := put_row dl_id
                 (d\<lparr>dl_status := (if sent then DlvSent
                                  else if dl_attempt d < 5 then DlvPending else DlvFailed),
                    dl_last_error := take 500 err,
                    dl_sent_at := (if sent then Some now else None),
                    dl_lease_owner := None, dl_lease_expires_at := None\<rparr>) (deliveries db)\<rparr>))"

section \<open>The invariant of the outbox\<close>

definition delivery_ok :: "delivery_row \<Rightarrow> bool" where
  "delivery_ok d \<longleftrightarrow> 0 \<le> dl_attempt d \<and>
     (dl_status d = DlvRunning \<longleftrightarrow> dl_lease_owner d \<noteq> None) \<and>
     (dl_lease_owner d = None \<longleftrightarrow> dl_lease_expires_at d = None) \<and>
     (dl_status d = DlvSent \<longleftrightarrow> dl_sent_at d \<noteq> None) \<and>
     (dl_status d \<noteq> DlvPending \<longrightarrow> 1 \<le> dl_attempt d) \<and>
     (dl_status d = DlvFailed \<longrightarrow> 5 \<le> dl_attempt d)"

definition outbox_ok :: "cloud_db \<Rightarrow> bool" where
  "outbox_ok db \<longleftrightarrow>
     distinct (map dl_id (deliveries db)) \<and>
     distinct (map (\<lambda>d. (dl_link_id d, dl_message_id d)) (deliveries db)) \<and>
     distinct (map lk_id (links db)) \<and>
     distinct (map (\<lambda>l. (lk_provider l, lk_external_chat_id l)) (links db)) \<and>
     (\<forall>d \<in> set (deliveries db). delivery_ok d \<and> dl_id d < next_delivery_id db \<and>
        dl_link_id d \<in> lk_id ` set (links db) \<and> dl_message_id d \<in> ms_id ` set (messages db))"

lemma outbox_ok_cong:
  "deliveries db' = deliveries db \<Longrightarrow> links db' = links db \<Longrightarrow>
   ms_id ` set (messages db) \<subseteq> ms_id ` set (messages db') \<Longrightarrow>
   next_delivery_id db' = next_delivery_id db \<Longrightarrow> outbox_ok db \<Longrightarrow> outbox_ok db'"
  by (auto simp: outbox_ok_def)

lemma outbox_row:
  assumes "outbox_ok db" "row_by dl_id i (deliveries db) = Some d"
  shows "d \<in> set (deliveries db)" "dl_id d = i" "delivery_ok d"
    "row_by dl_id (dl_id d) (deliveries db) = Some d"
  using assms row_by_SomeD [OF assms(2)] by (auto simp: outbox_ok_def)

lemma outbox_ok_put:
  assumes ok: "outbox_ok db" and d: "row_by dl_id (dl_id d') (deliveries db) = Some d"
    and same: "dl_link_id d' = dl_link_id d" "dl_message_id d' = dl_message_id d"
    and new: "delivery_ok d'"
  shows "outbox_ok (db\<lparr>deliveries := put_row dl_id d' (deliveries db)\<rparr>)"
proof -
  have dist: "distinct (map dl_id (deliveries db))" using ok by (simp add: outbox_ok_def)
  note r = row_by_SomeD [OF d]
  have "map (\<lambda>d. (dl_link_id d, dl_message_id d)) (put_row dl_id d' (deliveries db)) =
      map (\<lambda>d. (dl_link_id d, dl_message_id d)) (deliveries db)"
    by (rule map_put_row) (use row_by_uniqueD [OF dist d] same in auto)
  moreover have "delivery_ok x \<and> dl_id x < next_delivery_id db \<and>
      dl_link_id x \<in> lk_id ` set (links db) \<and> dl_message_id x \<in> ms_id ` set (messages db)"
    if "x \<in> set (put_row dl_id d' (deliveries db))" for x
    using that
  proof (rule put_rowE)
    assume "x = d'"
    moreover have "dl_id d < next_delivery_id db \<and> dl_link_id d \<in> lk_id ` set (links db) \<and>
        dl_message_id d \<in> ms_id ` set (messages db)"
      using ok conjunct1 [OF r] unfolding outbox_ok_def by blast
    ultimately show ?thesis using conjunct2 [OF r] same new by simp
  next
    assume "x \<in> set (deliveries db)"
    then show ?thesis using ok by (simp add: outbox_ok_def)
  qed
  ultimately show ?thesis using ok by (simp add: outbox_ok_def)
qed

section \<open>Every operation keeps the invariant\<close>

lemma add_deliveries_ok:
  assumes "outbox_ok db" and "mi \<in> ms_id ` set (messages db)"
    and "distinct (map lk_id ls)" and "lk_id ` set ls \<subseteq> lk_id ` set (links db)"
    and "\<forall>d \<in> set (deliveries db). dl_message_id d = mi \<longrightarrow> dl_link_id d \<notin> lk_id ` set ls"
  shows "outbox_ok (add_deliveries t mi ls db)"
  using assms
proof (induction ls arbitrary: db)
  case (Cons l ls)
  let ?d = "\<lparr>dl_id = next_delivery_id db, dl_link_id = lk_id l, dl_message_id = mi,
      dl_status = DlvPending, dl_attempt = 0, dl_lease_owner = None,
      dl_lease_expires_at = None, dl_last_error = [], dl_created_at = t, dl_sent_at = None\<rparr>"
  let ?db = "db\<lparr>deliveries := deliveries db @ [?d], next_delivery_id := Suc (next_delivery_id db)\<rparr>"
  have "next_delivery_id db \<notin> dl_id ` set (deliveries db)"
    using Cons.prems(1) by (fastforce simp: outbox_ok_def)
  moreover have "(lk_id l, mi) \<notin> (\<lambda>d. (dl_link_id d, dl_message_id d)) ` set (deliveries db)"
    using Cons.prems(5) by auto
  moreover have "lk_id l \<in> lk_id ` set (links db)" using Cons.prems(4) by simp
  ultimately have "outbox_ok ?db"
    using Cons.prems(1,2) by (auto simp: outbox_ok_def delivery_ok_def less_Suc_eq)
  then have "outbox_ok (add_deliveries t mi ls ?db)"
    using Cons.prems by (intro Cons.IH) auto
  then show ?case by simp
qed simp

lemma enqueue_channel_deliveries_ok:
  assumes ok: "outbox_ok db" and m: "m \<in> set (messages db)"
    and fresh: "ms_id m \<notin> dl_message_id ` set (deliveries db)"
  shows "outbox_ok (enqueue_channel_deliveries t m db)"
  unfolding enqueue_channel_deliveries_def
proof (rule add_deliveries_ok [OF ok])
  show "distinct (map lk_id (filter (\<lambda>l. lk_conversation_id l = ms_conversation_id m \<and> lk_enabled l) (links db)))"
    using ok by (simp add: outbox_ok_def distinct_map_filter)
  show "\<forall>d \<in> set (deliveries db). dl_message_id d = ms_id m \<longrightarrow>
      dl_link_id d \<notin> lk_id ` set (filter (\<lambda>l. lk_conversation_id l = ms_conversation_id m \<and> lk_enabled l) (links db))"
    using fresh by (metis imageI)
qed (use m in auto)

text \<open>A message that was just posted has no delivery yet.\<close>

lemma post_message_outbox:
  assumes "outbox_ok db" and "post_message mid c r content meta key u t db = Inr (m, db')"
  shows "outbox_ok db'" and "m \<in> set (messages db')" and "ms_id m \<notin> dl_message_id ` set (deliveries db')"
proof -
  note d = post_messageD [OF assms(2)]
  show "outbox_ok db'"
    by (rule outbox_ok_cong [OF _ _ _ _ assms(1)]) (auto simp: d(2))
  show "m \<in> set (messages db')" by (simp add: d(2))
  have "ms_id m \<notin> ms_id ` set (messages db)"
    using d(3) by (auto simp: message_clash_def)
  then show "ms_id m \<notin> dl_message_id ` set (deliveries db')"
    using assms(1) by (auto simp: d(2) outbox_ok_def)
qed

lemma enqueue_channel_push_ok:
  assumes ok: "outbox_ok db"
    and p: "enqueue_channel_push u cid pr ch content media hx mid clk db = Inr (m, db')"
  shows "outbox_ok db'" and "msgs_ok db \<Longrightarrow> msgs_ok db'" and "queue_ok db \<Longrightarrow> queue_ok db'"
proof -
  obtain l where l: "find (\<lambda>l. lk_user_id l = u \<and> lk_conversation_id l = cid \<and>
      lk_provider l = pr \<and> lk_external_chat_id l = ch \<and> lk_enabled l) (links db) = Some l"
    using p by (auto simp: enqueue_channel_push_def split: option.splits)
  obtain c where c: "row_by cv_id cid (conversations db) = Some c"
    using p l by (auto simp: enqueue_channel_push_def split: option.splits)
  obtain db1 where post: "post_message mid c RoleAssistant content
      [(lit ''source'', JStr (lit ''message_push'')), (lit ''media'', JArr (map JStr media))]
      (Some (lit ''push:'' @ hx)) (clk 0) (clk 1) db = Inr (m, db1)"
    and db': "db' = add_deliveries (clk 2) (ms_id m) [l] db1"
    using p l c by (auto simp: enqueue_channel_push_def simp del: add_deliveries.simps split: sum.splits)
  note o = post_message_outbox [OF ok post]
  have "links db1 = links db" using post_message_queue_frame [OF post] by simp
  moreover have "l \<in> set (links db)" using l by (auto simp: find_Some_iff)
  moreover have "\<forall>d \<in> set (deliveries db1). dl_message_id d \<noteq> ms_id m" using o(3) by (metis imageI)
  ultimately show "outbox_ok db'"
    unfolding db' using o(1,2) by (intro add_deliveries_ok) auto
  show "msgs_ok db'" if "msgs_ok db"
  proof -
    have "msgs_ok db1" by (rule msgs_ok_post [OF that _ refl post]) (use row_by_present [OF c] in simp)
    then show ?thesis unfolding db' by (subst msgs_ok_cong [of _ db1]) (simp_all only: add_deliveries_frame)
  qed
  show "queue_ok db'" if "queue_ok db"
    unfolding db' using that post_message_queue_frame [OF post]
    by (subst queue_ok_cong [of _ db]) (simp_all only: add_deliveries_frame)
qed

lemma release_deliveries_map:
  "map f (release_deliveries ids ds) = map f ds"
  if "\<And>d. f (d\<lparr>dl_status := DlvPending, dl_lease_owner := None, dl_lease_expires_at := None\<rparr>) = f d"
  using that by (simp add: release_deliveries_def)

lemma release_deliveriesE:
  assumes "x \<in> set (release_deliveries ids ds)"
  obtains "x \<in> set ds" "dl_id x \<notin> set ids"
  | d where "d \<in> set ds" "dl_id d \<in> set ids"
      "x = d\<lparr>dl_status := DlvPending, dl_lease_owner := None, dl_lease_expires_at := None\<rparr>"
  using assms by (auto simp: release_deliveries_def split: if_splits)

lemma expired_delivery:
  assumes "outbox_ok db" "dl_id d \<in> set (map dl_id (expired_deliveries now locked db))" "d \<in> set (deliveries db)"
  shows "dl_status d = DlvRunning \<and> (\<exists>e. dl_lease_expires_at d = Some e \<and> e < now)"
proof -
  obtain x where x: "x \<in> set (expired_deliveries now locked db)" "dl_id x = dl_id d"
    using assms(2) by auto
  then have xm: "x \<in> set (deliveries db)" "dl_status x = DlvRunning"
      "\<exists>e. dl_lease_expires_at x = Some e \<and> e < now"
    by (auto simp: expired_deliveries_def split: option.splits dest!: in_set_takeD)
  moreover have "distinct (map dl_id (deliveries db))" using assms(1) by (simp add: outbox_ok_def)
  ultimately have "x = d" using x(2) assms(3) by (metis row_by_unique row_by_uniqueD)
  then show ?thesis using xm by simp
qed

lemma release_deliveries_ok:
  assumes ok: "outbox_ok db"
  shows "outbox_ok (db\<lparr>deliveries := release_deliveries (map dl_id (expired_deliveries now locked db)) (deliveries db)\<rparr>)"
proof -
  let ?ds = "release_deliveries (map dl_id (expired_deliveries now locked db)) (deliveries db)"
  have "map dl_id ?ds = map dl_id (deliveries db)"
    "map (\<lambda>d. (dl_link_id d, dl_message_id d)) ?ds = map (\<lambda>d. (dl_link_id d, dl_message_id d)) (deliveries db)"
    by (rule release_deliveries_map, simp)+
  moreover have "delivery_ok x \<and> dl_id x < next_delivery_id db \<and>
      dl_link_id x \<in> lk_id ` set (links db) \<and> dl_message_id x \<in> ms_id ` set (messages db)"
    if "x \<in> set ?ds" for x
    using that
  proof (cases rule: release_deliveriesE)
    case 1
    then show ?thesis using ok by (simp add: outbox_ok_def)
  next
    case (2 d)
    have "delivery_ok d \<and> dl_status d = DlvRunning"
      using ok 2 expired_delivery [OF ok 2(2,1)] by (simp add: outbox_ok_def)
    moreover have "dl_id d < next_delivery_id db \<and>
      dl_link_id d \<in> lk_id ` set (links db) \<and> dl_message_id d \<in> ms_id ` set (messages db)"
      using ok 2(1) by (simp add: outbox_ok_def)
    ultimately show ?thesis by (auto simp: 2(3) delivery_ok_def)
  qed
  ultimately show ?thesis using ok by (simp add: outbox_ok_def)
qed

text \<open>The outcome of a claim: under the foreign keys the missing-dependency branch is dead.\<close>

lemma claim_channel_delivery_cases:
  fixes locked1 :: "nat list" and now :: instant
  assumes ok: "outbox_ok db"
  defines "ds \<equiv> release_deliveries (map dl_id (expired_deliveries now locked1 db)) (deliveries db)"
  obtains (empty) "claim_channel_delivery w n now locked1 locked2 db = (None, db\<lparr>deliveries := ds\<rparr>)"
      "\<forall>d \<in> set ds. dl_status d = DlvPending \<longrightarrow> dl_id d \<in> set locked2"
  | (claimed) d l m where
      "first_row (\<lambda>d. (dl_created_at d, dl_id d))
         (\<lambda>d. dl_status d = DlvPending \<and> dl_id d \<notin> set locked2) ds = Some d"
      "row_by lk_id (dl_link_id d) (links db) = Some l"
      "row_by ms_id (dl_message_id d) (messages db) = Some m"
      "claim_channel_delivery w n now locked1 locked2 db =
         (Some (d\<lparr>dl_status := DlvRunning, dl_lease_owner := Some (take 200 w),
                  dl_lease_expires_at := Some (now + seconds (max 10 n)),
                  dl_attempt := dl_attempt d + 1\<rparr>, l, m),
          db\<lparr>deliveries := put_row dl_id
              (d\<lparr>dl_status := DlvRunning, dl_lease_owner := Some (take 200 w),
                 dl_lease_expires_at := Some (now + seconds (max 10 n)),
                 dl_attempt := dl_attempt d + 1\<rparr>) ds\<rparr>)"
proof (cases "first_row (\<lambda>d. (dl_created_at d, dl_id d))
         (\<lambda>d. dl_status d = DlvPending \<and> dl_id d \<notin> set locked2) ds")
  case None
  then show ?thesis
    by (intro empty) (simp add: claim_channel_delivery_def ds_def Let_def, simp add: first_row_None)
next
  case (Some d)
  have "d \<in> set ds" using first_row_SomeD [OF Some] by simp
  moreover have "outbox_ok (db\<lparr>deliveries := ds\<rparr>)" unfolding ds_def by (rule release_deliveries_ok [OF ok])
  ultimately have "dl_link_id d \<in> lk_id ` set (links db)" "dl_message_id d \<in> ms_id ` set (messages db)"
    by (auto simp: outbox_ok_def)
  then obtain l m where "row_by lk_id (dl_link_id d) (links db) = Some l"
      "row_by ms_id (dl_message_id d) (messages db) = Some m"
    by (metis not_None_eq row_by_None)
  then show ?thesis
    using Some by (intro claimed) (auto simp: claim_channel_delivery_def ds_def Let_def)
qed

lemma claim_channel_delivery_ok:
  assumes ok: "outbox_ok db" and c: "claim_channel_delivery w n now locked1 locked2 db = (res, db')"
  shows "outbox_ok db'"
proof (cases rule: claim_channel_delivery_cases [OF ok, where w = w and n = n and now = now
      and ?locked1.0 = locked1 and ?locked2.0 = locked2])
  case 1
  then show ?thesis using c release_deliveries_ok [OF ok] by auto
next
  case (2 d l m)
  let ?ds = "release_deliveries (map dl_id (expired_deliveries now locked1 db)) (deliveries db)"
  have ok1: "outbox_ok (db\<lparr>deliveries := ?ds\<rparr>)" by (rule release_deliveries_ok [OF ok])
  have d: "d \<in> set ?ds" "dl_status d = DlvPending" using first_row_SomeD [OF 2(1)] by auto
  have "distinct (map dl_id ?ds)" using ok1 by (simp add: outbox_ok_def)
  then have "row_by dl_id (dl_id d) ?ds = Some d" using d(1) by (rule row_by_unique)
  moreover have "delivery_ok d" using ok1 d by (simp add: outbox_ok_def)
  ultimately have "outbox_ok (db\<lparr>deliveries := ?ds\<rparr>\<lparr>deliveries := put_row dl_id
      (d\<lparr>dl_status := DlvRunning, dl_lease_owner := Some (take 200 w),
         dl_lease_expires_at := Some (now + seconds (max 10 n)),
         dl_attempt := dl_attempt d + 1\<rparr>) ?ds\<rparr>)"
    using outbox_ok_put [OF ok1, of "d\<lparr>dl_status := DlvRunning, dl_lease_owner := Some (take 200 w),
         dl_lease_expires_at := Some (now + seconds (max 10 n)),
         dl_attempt := dl_attempt d + 1\<rparr>" d] d(2)
    by (auto simp: delivery_ok_def)
  then show ?thesis using 2(4) c by auto
qed

lemma finish_channel_delivery_cases:
  assumes "finish_channel_delivery i w sent err now db = Inr (u, db')"
  obtains d where "row_by dl_id i (deliveries db) = Some d" "dl_lease_owner d = Some (take 200 w)"
    "db' = db\<lparr>deliveries := put_row dl_id
                 (d\<lparr>dl_status := (if sent then DlvSent
                                  else if dl_attempt d < 5 then DlvPending else DlvFailed),
                    dl_last_error := take 500 err,
                    dl_sent_at := (if sent then Some now else None),
                    dl_lease_owner := None, dl_lease_expires_at := None\<rparr>) (deliveries db)\<rparr>"
  using assms by (auto simp: finish_channel_delivery_def split: option.splits if_splits)

lemma finish_channel_delivery_ok:
  assumes ok: "outbox_ok db" and f: "finish_channel_delivery i w sent err now db = Inr (u, db')"
  shows "outbox_ok db'"
  using f
proof (cases rule: finish_channel_delivery_cases)
  case (1 d)
  note r = outbox_row [OF ok 1(1)]
  show ?thesis
    unfolding 1(3) using r 1(2) by (intro outbox_ok_put [OF ok, of _ d]) (auto simp: delivery_ok_def)
qed

lemma delete_channel_link_ok:
  assumes ok: "outbox_ok db" and d: "delete_channel_link u i db = Inr (x, db')"
  shows "outbox_ok db'"
proof -
  have db': "db' = db\<lparr>links := filter (\<lambda>x. lk_id x \<noteq> i) (links db),
      inbounds := filter (\<lambda>x. ib_link_id x \<noteq> i) (inbounds db),
      deliveries := filter (\<lambda>x. dl_link_id x \<noteq> i) (deliveries db)\<rparr>"
    using d by (auto simp: delete_channel_link_def split: option.splits)
  show ?thesis
    using ok by (auto simp: db' outbox_ok_def distinct_map_filter)
qed

lemma consume_channel_pairing_cases:
  assumes "consume_channel_pairing code pr eu ech dn seen fresh clk db = Inr (l, db')"
  obtains h p where "sha256_text code = Some h" "row_by pr_code_hash h (pairings db) = Some p"
    "pr_provider p = pr" "pr_consumed_at p = None" "clk 0 \<le> pr_expires_at p"
    "l = \<lparr>lk_id = fresh, lk_user_id = pr_user_id p, lk_conversation_id = pr_conversation_id p,
           lk_provider = pr, lk_external_user_id = take 300 eu, lk_external_chat_id = take 300 ech,
           lk_display_name = take 300 dn, lk_enabled = True, lk_created_at = clk 2\<rparr>"
    "\<forall>x \<in> set (links db). lk_id x \<noteq> fresh \<and> \<not> (lk_provider x = pr \<and> lk_external_chat_id x = take 300 ech)"
    "db' = db\<lparr>pairings := put_row pr_code_hash (p\<lparr>pr_consumed_at := Some (clk 1)\<rparr>) (pairings db),
             links := links db @ [l]\<rparr>"
  using assms
  by (auto simp: consume_channel_pairing_def insert_link_def Let_def
      split: option.splits if_splits sum.splits)

lemma consume_channel_pairing_ok:
  assumes ok: "outbox_ok db" and c: "consume_channel_pairing code pr eu ech dn seen fresh clk db = Inr (l, db')"
  shows "outbox_ok db'"
  using c
proof (cases rule: consume_channel_pairing_cases)
  case (1 h p)
  then have "lk_id l \<notin> lk_id ` set (links db)"
    "(lk_provider l, lk_external_chat_id l) \<notin> (\<lambda>l. (lk_provider l, lk_external_chat_id l)) ` set (links db)"
    by auto
  then show ?thesis using ok 1(8) by (auto simp: outbox_ok_def)
qed

section \<open>The outbox as a leased table\<close>

definition dlv_owner :: "cloud_db \<Rightarrow> nat \<Rightarrow> pystr option" where
  "dlv_owner db i = (case row_by dl_id i (deliveries db) of None \<Rightarrow> None | Some d \<Rightarrow> dl_lease_owner d)"

definition dlv_expires :: "cloud_db \<Rightarrow> nat \<Rightarrow> instant option" where
  "dlv_expires db i = (case row_by dl_id i (deliveries db) of None \<Rightarrow> None | Some d \<Rightarrow> dl_lease_expires_at d)"

definition dlv_claim :: "instant \<Rightarrow> pystr \<Rightarrow> cloud_db \<Rightarrow> nat \<Rightarrow> cloud_db \<Rightarrow> bool" where
  "dlv_claim now w db i db' \<longleftrightarrow> outbox_ok db \<and>
     (\<exists>wid n locked1 locked2 d l m. w = take 200 wid \<and> dl_id d = i \<and>
        claim_channel_delivery wid n now locked1 locked2 db = (Some (d, l, m), db'))"

definition dlv_finish :: "pystr \<Rightarrow> cloud_db \<Rightarrow> nat \<Rightarrow> cloud_db \<Rightarrow> bool" where
  "dlv_finish w db i db' \<longleftrightarrow> outbox_ok db \<and>
     (\<exists>wid sent err now. w = take 200 wid \<and> finish_channel_delivery i wid sent err now db = Inr ((), db'))"

text \<open>Expiry without a claim, new pending rows, and the removal of rows with their link.\<close>

definition dlv_other :: "cloud_db \<Rightarrow> cloud_db \<Rightarrow> bool" where
  "dlv_other db db' \<longleftrightarrow> outbox_ok db \<and>
     ((\<exists>wid n now locked1 locked2. claim_channel_delivery wid n now locked1 locked2 db = (None, db')) \<or>
      (\<exists>new. deliveries db' = deliveries db @ new \<and> (\<forall>d \<in> set new. dl_lease_owner d = None)) \<or>
      (\<exists>u i. delete_channel_link u i db = Inr ((), db')))"

lemma row_by_release:
  "row_by dl_id i (release_deliveries ids ds) =
   map_option (\<lambda>d. if dl_id d \<in> set ids then d\<lparr>dl_status := DlvPending, dl_lease_owner := None,
     dl_lease_expires_at := None\<rparr> else d) (row_by dl_id i ds)"
  by (induction ds) (auto simp: release_deliveries_def)

lemma dlv_owner_release:
  "dlv_owner (db\<lparr>deliveries := release_deliveries ids (deliveries db)\<rparr>) i =
   (if i \<in> set ids then None else dlv_owner db i)"
  by (auto simp: dlv_owner_def row_by_release split: option.splits dest: row_by_SomeD)

lemma dlv_claim_effect:
  assumes "dlv_claim now w db i db'"
  shows "dlv_owner db' i = Some w" and "\<exists>e. dlv_expires db' i = Some e \<and> now < e"
    and "dlv_owner db i = Some v \<Longrightarrow> \<exists>e. dlv_expires db i = Some e \<and> e < now"
    and "j \<noteq> i \<Longrightarrow> dlv_owner db' j = Some v \<Longrightarrow> dlv_owner db j = Some v"
proof -
  obtain wid n locked1 locked2 d' l m where ok: "outbox_ok db" and w: "w = take 200 wid"
    and i: "dl_id d' = i" and c: "claim_channel_delivery wid n now locked1 locked2 db = (Some (d', l, m), db')"
    using assms by (auto simp: dlv_claim_def)
  let ?ids = "map dl_id (expired_deliveries now locked1 db)"
  let ?ds = "release_deliveries ?ids (deliveries db)"
  have ok1: "outbox_ok (db\<lparr>deliveries := ?ds\<rparr>)" by (rule release_deliveries_ok [OF ok])
  obtain d where f: "first_row (\<lambda>d. (dl_created_at d, dl_id d))
         (\<lambda>d. dl_status d = DlvPending \<and> dl_id d \<notin> set locked2) ?ds = Some d"
    and d': "d' = d\<lparr>dl_status := DlvRunning, dl_lease_owner := Some w,
        dl_lease_expires_at := Some (now + seconds (max 10 n)), dl_attempt := dl_attempt d + 1\<rparr>"
    and db': "db' = db\<lparr>deliveries := put_row dl_id d' ?ds\<rparr>"
    by (rule claim_channel_delivery_cases [OF ok, where w = wid and n = n and now = now
      and ?locked1.0 = locked1 and ?locked2.0 = locked2]) (use c w in auto)
  have d: "d \<in> set ?ds" "dl_status d = DlvPending" using first_row_SomeD [OF f] by auto
  have di: "dl_id d = i" using i d' by simp
  have "distinct (map dl_id ?ds)" using ok1 by (simp add: outbox_ok_def)
  then have row: "row_by dl_id i ?ds = Some d" using row_by_unique [of dl_id ?ds d] d(1) di by simp
  have new: "row_by dl_id i (put_row dl_id d' ?ds) = Some d'"
    unfolding row_by_put_row using row i by simp
  have "dl_lease_owner d' = Some w" "dl_lease_expires_at d' = Some (now + seconds (max 10 n))"
    by (simp_all add: d')
  then show "dlv_owner db' i = Some w" "\<exists>e. dlv_expires db' i = Some e \<and> now < e"
    using new by (simp_all add: dlv_owner_def dlv_expires_def db' seconds_def)
  have "delivery_ok d" using ok1 d(1) by (simp add: outbox_ok_def)
  then have "dl_lease_owner d = None" using d(2) unfolding delivery_ok_def by (metis delivery_status.distinct(1))
  then have "dlv_owner (db\<lparr>deliveries := ?ds\<rparr>) i = None" by (simp add: dlv_owner_def row)
  then have freed: "i \<in> set ?ids \<or> dlv_owner db i = None"
    unfolding dlv_owner_release by (metis (full_types))
  show "\<exists>e. dlv_expires db i = Some e \<and> e < now" if owned: "dlv_owner db i = Some v"
  proof -
    obtain x where x: "row_by dl_id i (deliveries db) = Some x"
      using owned by (auto simp: dlv_owner_def split: option.splits)
    note xr = outbox_row [OF ok x]
    have "dl_id x \<in> set ?ids" using freed owned xr(2) by simp
    then have "\<exists>e. dl_lease_expires_at x = Some e \<and> e < now"
      using expired_delivery [OF ok _ xr(1)] by blast
    then show ?thesis using x by (simp add: dlv_expires_def)
  qed
  show "dlv_owner db j = Some v" if "j \<noteq> i" "dlv_owner db' j = Some v"
  proof -
    have "dlv_owner db' j = dlv_owner (db\<lparr>deliveries := ?ds\<rparr>) j"
      using that(1) i by (simp add: dlv_owner_def db' row_by_put_row)
    then show ?thesis using that(2) dlv_owner_release by (metis option.distinct(1))
  qed
qed

lemma dlv_finish_effect:
  assumes "dlv_finish w db i db'"
  shows "dlv_owner db i = Some w" and "dlv_owner db' i = None"
    and "j \<noteq> i \<Longrightarrow> dlv_owner db' j = dlv_owner db j"
proof -
  obtain wid sent err now where w: "w = take 200 wid"
    and f: "finish_channel_delivery i wid sent err now db = Inr ((), db')"
    using assms by (auto simp: dlv_finish_def)
  obtain d where d: "row_by dl_id i (deliveries db) = Some d" "dl_lease_owner d = Some (take 200 wid)"
    and db': "db' = db\<lparr>deliveries := put_row dl_id
                 (d\<lparr>dl_status := (if sent then DlvSent
                                  else if dl_attempt d < 5 then DlvPending else DlvFailed),
                    dl_last_error := take 500 err,
                    dl_sent_at := (if sent then Some now else None),
                    dl_lease_owner := None, dl_lease_expires_at := None\<rparr>) (deliveries db)\<rparr>"
    using f by (rule finish_channel_delivery_cases)
  have "dl_id d = i" using row_by_SomeD [OF d(1)] by simp
  then show "dlv_owner db i = Some w" "dlv_owner db' i = None"
    and "j \<noteq> i \<Longrightarrow> dlv_owner db' j = dlv_owner db j"
    using d w by (auto simp: dlv_owner_def db' row_by_put_row)
qed

lemma dlv_other_effect:
  assumes "dlv_other db db'" and "dlv_owner db' j = Some v"
  shows "dlv_owner db j = Some v"
proof -
  have ok: "outbox_ok db" using assms(1) by (simp add: dlv_other_def)
  consider (none) wid n now locked1 locked2 where
      "claim_channel_delivery wid n now locked1 locked2 db = (None, db')"
    | (new) new where "deliveries db' = deliveries db @ new" "\<forall>d \<in> set new. dl_lease_owner d = None"
    | (del) u i where "delete_channel_link u i db = Inr ((), db')"
    using assms(1) by (auto simp: dlv_other_def)
  then show ?thesis
  proof cases
    case none
    have "db' = db\<lparr>deliveries := release_deliveries
        (map dl_id (expired_deliveries now locked1 db)) (deliveries db)\<rparr>"
      by (rule claim_channel_delivery_cases [OF ok, where w = wid and n = n and now = now
        and ?locked1.0 = locked1 and ?locked2.0 = locked2]) (use none in auto)
    then show ?thesis using assms(2) dlv_owner_release by (metis option.distinct(1))
  next
    case new
    then show ?thesis using assms(2)
      by (auto simp: dlv_owner_def row_by_append split: option.splits dest: row_by_SomeD)
  next
    case del
    then have "deliveries db' = filter (\<lambda>x. dl_link_id x \<noteq> i) (deliveries db)"
      by (auto simp: delete_channel_link_def split: option.splits)
    then obtain d where "row_by dl_id j (filter (\<lambda>x. dl_link_id x \<noteq> i) (deliveries db)) = Some d"
        "dl_lease_owner d = Some v"
      using assms(2) by (auto simp: dlv_owner_def split: option.splits)
    moreover from this have "d \<in> set (deliveries db)" "dl_id d = j"
      by (auto dest!: row_by_SomeD)
    moreover have "distinct (map dl_id (deliveries db))" using ok by (simp add: outbox_ok_def)
    ultimately show ?thesis using row_by_unique [of dl_id "deliveries db" d] by (simp add: dlv_owner_def)
  qed
qed

interpretation dq: leased_table dlv_owner dlv_expires dlv_claim dlv_finish dlv_other
proof
  fix now w s i s' j v
  show "dlv_claim now w s i s' \<Longrightarrow> dlv_owner s' i = Some w"
    by (rule dlv_claim_effect(1))
  show "dlv_claim now w s i s' \<Longrightarrow> \<exists>e. dlv_expires s' i = Some e \<and> now < e"
    by (rule dlv_claim_effect(2))
  show "dlv_claim now w s i s' \<Longrightarrow> dlv_owner s i = Some v \<Longrightarrow>
      \<forall>e. dlv_expires s i = Some e \<longrightarrow> e \<le> now"
    using dlv_claim_effect(3) by fastforce
  show "dlv_claim now w s i s' \<Longrightarrow> j \<noteq> i \<Longrightarrow> dlv_owner s' j = Some v \<Longrightarrow> dlv_owner s j = Some v"
    by (rule dlv_claim_effect(4))
  show "dlv_finish w s i s' \<Longrightarrow> dlv_owner s i = Some w"
    by (rule dlv_finish_effect(1))
  show "dlv_finish w s i s' \<Longrightarrow> dlv_owner s' i = None"
    by (rule dlv_finish_effect(2))
  show "dlv_finish w s i s' \<Longrightarrow> j \<noteq> i \<Longrightarrow> dlv_owner s' j = Some v \<Longrightarrow> dlv_owner s j = Some v"
    by (simp add: dlv_finish_effect(3))
  show "dlv_other s s' \<Longrightarrow> dlv_owner s' j = Some v \<Longrightarrow> dlv_owner s j = Some v"
    by (rule dlv_other_effect)
qed

end
