(* ===== verification/PyText.thy ===== *)
theory PyText
  imports KPrelude
begin

text \<open>
  More of Python's \<open>str\<close>: splitting on white space, the decimal digits that \<open>\d\<close> matches and
  \<open>int\<close> reads (the first of each run of ten in the Unicode 14 category Nd), and lower-casing as
  far as the code relies on it.
\<close>

fun split_words :: "pystr \<Rightarrow> pystr \<Rightarrow> pystr list" where
  "split_words w [] = (if w = [] then [] else [w])"
| "split_words w (c # cs) =
     (if py_space c then (if w = [] then split_words [] cs else w # split_words [] cs)
      else split_words (w @ [c]) cs)"

definition py_split :: "pystr \<Rightarrow> pystr list" where
  "py_split s = split_words [] s"

definition digit_zeros :: "nat list" where
  "digit_zeros =
     [48, 1632, 1776, 1984, 2406, 2534, 2662, 2790, 2918, 3046, 3174, 3302, 3430, 3558, 3664,
      3792, 3872, 4160, 4240, 6112, 6160, 6470, 6608, 6784, 6800, 6992, 7088, 7232, 7248, 42528,
      43216, 43264, 43472, 43504, 43600, 44016, 65296, 66720, 68912, 69734, 69872, 69942, 70096,
      70384, 70736, 70864, 71248, 71360, 71472, 71904, 72016, 72784, 73040, 73120, 92768, 92864,
      93008, 120782, 120792, 120802, 120812, 120822, 123200, 123632, 125264, 130032]"

definition digit_value :: "nat \<Rightarrow> nat option" where
  "digit_value c = map_option (\<lambda>z. c - z) (find (\<lambda>z. z \<le> c \<and> c < z + 10) digit_zeros)"

definition is_digit :: "nat \<Rightarrow> bool" where
  "is_digit c \<longleftrightarrow> digit_value c \<noteq> None"

definition digits_value :: "pystr \<Rightarrow> int" where
  "digits_value s = foldl (\<lambda>n c. 10 * n + int (the (digit_value c))) 0 s"

text \<open>
  \<open>str.lower\<close> restricted to ASCII.  The code only compares lower-cased texts with words without
  \<open>k\<close>, and no other character lower-cases to an ASCII letter than these and the Kelvin sign.
\<close>

definition ascii_lower :: "pystr \<Rightarrow> pystr" where
  "ascii_lower s = map (\<lambda>c. if 65 \<le> c \<and> c \<le> 90 then c + 32 else c) s"

lemma digits_value_nonneg: "0 \<le> digits_value s"
proof -
  have "0 \<le> n \<Longrightarrow> 0 \<le> foldl (\<lambda>n c. 10 * n + int (the (digit_value c))) n s" for n
    by (induction s arbitrary: n) auto
  then show ?thesis by (simp add: digits_value_def)
qed

lemma split_words_nonempty: "w \<in> set (split_words v s) \<Longrightarrow> w \<noteq> []"
  by (induction v s rule: split_words.induct) (auto split: if_splits)

end
