(* ===== verification/CloudSchedule.thy ===== *)
theory CloudSchedule
  imports CloudChannels PyText
begin

text \<open>
  Scheduled jobs: the store operations of \<open>src/cloud/store.py\<close>, the parsing of a schedule and
  the worker of \<open>src/cloud/scheduler.py\<close>.  The cron engine (\<open>apscheduler\<close>) is the parameter
  \<open>cron expr tz after\<close>, the next fire time or the error it raises.
\<close>

section \<open>Store operations\<close>

definition job_active :: "job_row \<Rightarrow> bool" where
  "job_active j \<longleftrightarrow> jb_status j = JobPending \<or> jb_status j = JobRunning"

definition active_jobs :: "uuid \<Rightarrow> job_row list \<Rightarrow> nat" where
  "active_jobs user_id js = length (filter (\<lambda>j. jb_user_id j = user_id \<and> job_active j) js)"

text \<open>\<open>seen\<close> is the snapshot of the job table that the count reads.\<close>

definition create_scheduled_job ::
  "uuid \<Rightarrow> uuid \<Rightarrow> pystr \<Rightarrow> pystr \<Rightarrow> instant \<Rightarrow> int \<Rightarrow> int \<Rightarrow> job_tier \<Rightarrow> job_trigger \<Rightarrow> pystr \<Rightarrow>
   pystr \<Rightarrow> pystr \<Rightarrow> pystr \<Rightarrow> job_row list \<Rightarrow> clock \<Rightarrow> cloud_db \<Rightarrow> (job_row \<times> cloud_db) res" where
  "create_scheduled_job user_id conversation_id message prompt run_at interval_seconds
       remaining_runs tier trigger cron_expr timezone name hex seen clk db =
     (case owned_conversation user_id conversation_id db of
        None \<Rightarrow> Inl (StoreNotFoundError (lit ''conversation not found''))
      | Some c \<Rightarrow>
          if 10 \<le> active_jobs user_id seen
          then Inl (StoreConflictError (lit ''schedule_capacity_reached active=10 max=10''))
          else
            (let job = \<lparr>jb_id = lit ''job_'' @ take 20 hex, jb_user_id = user_id,
                        jb_conversation_id = conversation_id, jb_message = message,
                        jb_prompt = prompt, jb_run_at = run_at,
                        jb_interval_seconds = max 0 interval_seconds,
                        jb_remaining_runs = remaining_runs, jb_status = JobPending,
                        jb_tier = tier, jb_trigger = trigger, jb_cron_expr = cron_expr,
                        jb_timezone = timezone, jb_name = take 200 name,
                        jb_lease_owner = None, jb_lease_expires_at = None,
                        jb_fire_token = None, jb_last_error = [],
                        jb_created_at = clk 0, jb_updated_at = clk 1\<rparr>
             in if jb_id job \<in> jb_id ` set (jobs db) then Inl IntegrityError
                else Inr (job, db\<lparr>jobs := jobs db @ [job]\<rparr>)))"

definition list_scheduled_jobs :: "uuid \<Rightarrow> bool \<Rightarrow> cloud_db \<Rightarrow> job_row list" where
  "list_scheduled_jobs user_id include_finished db =
     sort_key jb_run_at
       (filter (\<lambda>j. jb_user_id j = user_id \<and> (include_finished \<or> job_active j)) (jobs db))"

fun job_status_text :: "job_status \<Rightarrow> pystr" where
  "job_status_text JobPending = lit ''pending''"
| "job_status_text JobRunning = lit ''running''"
| "job_status_text JobCompleted = lit ''completed''"
| "job_status_text JobCancelled = lit ''cancelled''"
| "job_status_text JobFailed = lit ''failed''"
| "job_status_text JobMissed = lit ''missed''"

abbreviation put_job :: "job_row \<Rightarrow> cloud_db \<Rightarrow> cloud_db" where
  "put_job j db \<equiv> db\<lparr>jobs := put_row jb_id j (jobs db)\<rparr>"

definition cancel_scheduled_job ::
  "uuid \<Rightarrow> pystr \<Rightarrow> instant \<Rightarrow> cloud_db \<Rightarrow> (job_row \<times> cloud_db) res" where
  "cancel_scheduled_job user_id job_id now db =
     (case find (\<lambda>j. jb_id j = job_id \<and> jb_user_id j = user_id) (jobs db) of
        None \<Rightarrow> Inl (StoreNotFoundError (lit ''schedule not found''))
      | Some j \<Rightarrow>
          if jb_status j \<noteq> JobPending
          then Inl (StoreStateError (lit ''schedule is already '' @ job_status_text (jb_status j)))
          else (let j' = j\<lparr>jb_status := JobCancelled, jb_updated_at := now\<rparr>
                in Inr (j', put_job j' db)))"

text \<open>
  \<open>while next_at <= now: next_at += step\<close>.  With a step that is not positive it does not end, so
  not returning is the value \<open>None\<close>.
\<close>

partial_function (option) advance :: "instant \<Rightarrow> instant \<Rightarrow> int \<Rightarrow> instant option" where
  "advance now next_at step =
     (if next_at \<le> now then advance now (next_at + step) step else Some next_at)"

lemmas advance_code [code] = advance.simps

text \<open>\<open>datetime + timedelta\<close> stays below the year 10000.\<close>

definition datetime_add :: "instant \<Rightarrow> int \<Rightarrow> instant res" where
  "datetime_add t d =
     (if 253402300799999999 < t + d then Inl (OverflowError (lit ''date value out of range''))
      else Inr (t + d))"

text \<open>The loop with its sums.  All but the last are instants up to \<open>now\<close>, so only the last can leave the range.\<close>

definition catch_up :: "instant \<Rightarrow> instant \<Rightarrow> int \<Rightarrow> instant res option" where
  "catch_up now next_at step =
     (case advance now next_at step of
        None \<Rightarrow> None
      | Some t \<Rightarrow> Some (datetime_add t 0))"

definition expired_jobs :: "instant \<Rightarrow> pystr list \<Rightarrow> cloud_db \<Rightarrow> job_row list" where
  "expired_jobs now locked db =
     take 20 (filter (\<lambda>j. jb_status j = JobRunning \<and>
       (case jb_lease_expires_at j of None \<Rightarrow> False | Some e \<Rightarrow> e < now) \<and>
       jb_id j \<notin> set locked) (jobs db))"

text \<open>\<open>stamp\<close> gives the reading that \<open>onupdate\<close> takes for each released row.\<close>

definition release_job :: "(pystr \<Rightarrow> instant) \<Rightarrow> job_row \<Rightarrow> job_row" where
  "release_job stamp j =
     j\<lparr>jb_status := JobPending, jb_lease_owner := None, jb_lease_expires_at := None,
       jb_updated_at := stamp (jb_id j)\<rparr>"

definition release_jobs :: "(pystr \<Rightarrow> instant) \<Rightarrow> pystr list \<Rightarrow> job_row list \<Rightarrow> job_row list" where
  "release_jobs stamp ids js = map (\<lambda>j. if jb_id j \<in> set ids then release_job stamp j else j) js"

definition due_jobs :: "instant \<Rightarrow> pystr list \<Rightarrow> job_row list \<Rightarrow> job_row list" where
  "due_jobs now locked js =
     take 20 (sort_key (\<lambda>j. (jb_run_at j, jb_id j))
       (filter (\<lambda>j. jb_status j = JobPending \<and> jb_run_at j \<le> now \<and> jb_id j \<notin> set locked) js))"

definition job_misfired :: "instant \<Rightarrow> job_row \<Rightarrow> bool" where
  "job_misfired now j \<longleftrightarrow> jb_fire_token j = None \<and> seconds 300 < now - jb_run_at j"

definition repeats_after_misfire :: "job_row \<Rightarrow> bool" where
  "repeats_after_misfire j \<longleftrightarrow>
     jb_trigger j = TrigEvery \<or> (0 < jb_interval_seconds j \<and> 1 < jb_remaining_runs j)"

text \<open>What a misfired job becomes: moved to its next slot, or missed.\<close>

definition skip_misfire ::
  "(pystr \<Rightarrow> pystr \<Rightarrow> instant \<Rightarrow> instant res) \<Rightarrow> instant \<Rightarrow> job_row \<Rightarrow> job_row res option" where
  "skip_misfire cron now j =
     (if repeats_after_misfire j then
        (if jb_cron_expr j \<noteq> [] then
           (case cron (jb_cron_expr j) (jb_timezone j) now of
              Inl e \<Rightarrow> Some (Inl e)
            | Inr t \<Rightarrow> Some (Inr (j\<lparr>jb_run_at := t, jb_updated_at := now\<rparr>)))
         else
           (case catch_up now (jb_run_at j) (seconds (jb_interval_seconds j)) of
              None \<Rightarrow> None
            | Some (Inl e) \<Rightarrow> Some (Inl e)
            | Some (Inr t) \<Rightarrow> Some (Inr (j\<lparr>jb_run_at := t, jb_updated_at := now\<rparr>))))
      else Some (Inr (j\<lparr>jb_status := JobMissed,
                        jb_last_error := lit ''missed while scheduler was offline'',
                        jb_updated_at := now\<rparr>)))"

definition claimed_job :: "pystr \<Rightarrow> int \<Rightarrow> pystr \<Rightarrow> instant \<Rightarrow> job_row \<Rightarrow> job_row" where
  "claimed_job owner lease_seconds hex now j =
     j\<lparr>jb_status := JobRunning, jb_lease_owner := Some owner,
       jb_lease_expires_at := Some (now + seconds (max 10 lease_seconds)),
       jb_fire_token := (case jb_fire_token j of
          None \<Rightarrow> Some hex | Some t \<Rightarrow> Some (or_else t hex)),
       jb_updated_at := now\<rparr>"

fun scan_jobs ::
  "(pystr \<Rightarrow> pystr \<Rightarrow> instant \<Rightarrow> instant res) \<Rightarrow> pystr \<Rightarrow> int \<Rightarrow> pystr \<Rightarrow> instant \<Rightarrow> job_row list \<Rightarrow>
   cloud_db \<Rightarrow> (job_row option \<times> cloud_db) res option" where
  "scan_jobs cron owner lease_seconds hex now [] db = Some (Inr (None, db))"
| "scan_jobs cron owner lease_seconds hex now (j # js) db =
     (if job_misfired now j then
        (case skip_misfire cron now j of
           None \<Rightarrow> None
         | Some (Inl e) \<Rightarrow> Some (Inl e)
         | Some (Inr j') \<Rightarrow> scan_jobs cron owner lease_seconds hex now js (put_job j' db))
      else
        (let j' = claimed_job owner lease_seconds hex now j
         in Some (Inr (Some j', put_job j' db))))"

definition claim_next_scheduled_job ::
  "(pystr \<Rightarrow> pystr \<Rightarrow> instant \<Rightarrow> instant res) \<Rightarrow> pystr \<Rightarrow> int \<Rightarrow> instant \<Rightarrow> (pystr \<Rightarrow> instant) \<Rightarrow>
   pystr \<Rightarrow> pystr list \<Rightarrow> pystr list \<Rightarrow> cloud_db \<Rightarrow> (job_row option \<times> cloud_db) res option" where
  "claim_next_scheduled_job cron worker_id lease_seconds now stamp hex locked1 locked2 db =
     (let js = release_jobs stamp (map jb_id (expired_jobs now locked1 db)) (jobs db)
      in scan_jobs cron (take 200 worker_id) lease_seconds hex now (due_jobs now locked2 js)
           (db\<lparr>jobs := js\<rparr>))"

definition heartbeat_scheduled_job ::
  "pystr \<Rightarrow> pystr \<Rightarrow> pystr \<Rightarrow> int \<Rightarrow> clock \<Rightarrow> cloud_db \<Rightarrow> (unit \<times> cloud_db) res" where
  "heartbeat_scheduled_job job_id worker_id fire_token lease_seconds clk db =
     (case row_by jb_id job_id (jobs db) of
        None \<Rightarrow> Inl (StoreStateError (lit ''scheduler worker does not own this fire''))
      | Some j \<Rightarrow>
          if jb_status j \<noteq> JobRunning \<or> jb_lease_owner j \<noteq> Some (take 200 worker_id) \<or>
             jb_fire_token j \<noteq> Some fire_token
          then Inl (StoreStateError (lit ''scheduler worker does not own this fire''))
          else Inr ((), put_job (j\<lparr>jb_lease_expires_at :=
                                     Some (clk 0 + seconds (max 10 lease_seconds)),
                                   jb_updated_at := clk 1\<rparr>) db))"

datatype delivered = DMessage message_row | DRun run_row

definition schedule_key :: "string \<Rightarrow> pystr \<Rightarrow> pystr \<Rightarrow> pystr" where
  "schedule_key pre job_id fire_token = take 128 (lit pre @ job_id @ lit '':'' @ fire_token)"

definition conversation_busy :: "uuid \<Rightarrow> run_row list \<Rightarrow> bool" where
  "conversation_busy c rs \<longleftrightarrow>
     (\<exists>r \<in> set rs. rn_conversation_id r = c \<and> (rn_status r = RunQueued \<or> rn_status r = RunRunning))"

definition find_delivery :: "uuid \<Rightarrow> pystr \<Rightarrow> cloud_db \<Rightarrow> message_row option" where
  "find_delivery c key db =
     find (\<lambda>m. ms_conversation_id m = c \<and> ms_delivery_key m = Some key) (messages db)"

definition deliver_instant ::
  "job_row \<Rightarrow> conversation_row \<Rightarrow> pystr \<Rightarrow> run_row list \<Rightarrow> uuid \<Rightarrow> clock \<Rightarrow> cloud_db \<Rightarrow>
   (delivered \<times> cloud_db) res" where
  "deliver_instant j c key seen mid clk db =
     (case find_delivery (cv_id c) key db of
        Some m \<Rightarrow> Inr (DMessage m, db)
      | None \<Rightarrow>
          if conversation_busy (cv_id c) seen
          then Inl (StoreStateError (lit ''conversation has an active passive Run''))
          else
            (case post_message mid c RoleAssistant (jb_message j)
                    [(lit ''scheduled_job_id'', JStr (jb_id j)),
                     (lit ''source'', JStr (lit ''scheduler''))]
                    (Some key) (clk 0) (clk 1) db of
               Inl e \<Rightarrow> Inl e
             | Inr (m, db1) \<Rightarrow>
                 Inr (DMessage m, enqueue_channel_deliveries (clk 2) m db1)))"

definition soft_metadata :: "pystr \<Rightarrow> pydict" where
  "soft_metadata job_id =
     [(lit ''scheduled_job_id'', JStr job_id),
      (lit ''session_key_override'', JStr (lit ''scheduler:'' @ job_id)),
      (lit ''omit_user_turn'', JBool True),
      (lit ''skip_post_memory'', JBool True),
      (lit ''skip_memory_retrieval'', JBool True),
      (lit ''disabled_tools'',
       JArr [JStr (lit ''message_push''), JStr (lit ''recall_memory''), JStr (lit ''memorize''),
             JStr (lit ''reinforce_memory''), JStr (lit ''forget_memory'')])]"

definition deliver_soft ::
  "job_row \<Rightarrow> conversation_row \<Rightarrow> pystr \<Rightarrow> pystr \<Rightarrow> uuid \<Rightarrow> uuid \<Rightarrow> clock \<Rightarrow> cloud_db \<Rightarrow>
   (delivered \<times> cloud_db) res" where
  "deliver_soft j c key fire_token mid rid clk db =
     (case find_submission (jb_user_id j) key (runs db) of
        Some r \<Rightarrow> Inr (DRun r, db)
      | None \<Rightarrow>
          (case post_message mid c RoleUser (jb_prompt j) (soft_metadata (jb_id j))
                  (Some (schedule_key ''schedule-input:'' (jb_id j) fire_token))
                  (clk 0) (clk 1) db of
             Inl e \<Rightarrow> Inl e
           | Inr (m, db1) \<Rightarrow>
               (let r = queued_run rid (jb_user_id j) (cv_id c) (ms_id m) (Some key) (clk 2)
                in case insert_run r db1 of
                     Inl e \<Rightarrow> Inl e
                   | Inr db2 \<Rightarrow>
                       Inr (DRun r,
                            log_event r (lit ''run.queued'')
                              [jstatus ''queued'', (lit ''input_message_id'', JStr (ms_id m)),
                               (lit ''scheduled_job_id'', JStr (jb_id j))] (clk 3) db2))))"

text \<open>\<open>seen\<close> is the snapshot of the Run table that the busy count of an instant job reads.\<close>

definition deliver_scheduled_job ::
  "pystr \<Rightarrow> pystr \<Rightarrow> pystr \<Rightarrow> run_row list \<Rightarrow> uuid \<Rightarrow> uuid \<Rightarrow> clock \<Rightarrow> cloud_db \<Rightarrow>
   (delivered \<times> cloud_db) res" where
  "deliver_scheduled_job job_id worker_id fire_token seen mid rid clk db =
     (let key = schedule_key ''schedule:'' job_id fire_token
      in case row_by jb_id job_id (jobs db) of
        None \<Rightarrow> Inl (StoreStateError (lit ''scheduler delivery has no matching lease''))
      | Some j \<Rightarrow>
          if jb_status j \<noteq> JobRunning \<or> jb_lease_owner j \<noteq> Some (take 200 worker_id) \<or>
             jb_fire_token j \<noteq> Some fire_token
          then Inl (StoreStateError (lit ''scheduler delivery has no matching lease''))
          else
            (case owned_conversation (jb_user_id j) (jb_conversation_id j) db of
               None \<Rightarrow> Inl (StoreStateError (lit ''schedule conversation is missing''))
             | Some c \<Rightarrow>
                 (case jb_tier j of
                    TierInstant \<Rightarrow> deliver_instant j c key seen mid clk db
                  | TierSoft \<Rightarrow> deliver_soft j c key fire_token mid rid clk db)))"

definition finish_scheduled_job ::
  "pystr \<Rightarrow> pystr \<Rightarrow> pystr \<Rightarrow> job_status \<Rightarrow> int \<Rightarrow> instant option \<Rightarrow> pystr \<Rightarrow> instant \<Rightarrow> cloud_db \<Rightarrow>
   (job_row \<times> cloud_db) res" where
  "finish_scheduled_job job_id worker_id fire_token status remaining_runs next_run_at err now db =
     (case row_by jb_id job_id (jobs db) of
        None \<Rightarrow> Inl (StoreStateError (lit ''scheduler worker does not own this fire''))
      | Some j \<Rightarrow>
          if jb_lease_owner j \<noteq> Some (take 200 worker_id) \<or> jb_fire_token j \<noteq> Some fire_token
          then Inl (StoreStateError (lit ''scheduler worker does not own this fire''))
          else
            (let j' = j\<lparr>jb_status := status, jb_remaining_runs := remaining_runs,
                        jb_run_at := (case next_run_at of None \<Rightarrow> jb_run_at j | Some t \<Rightarrow> t),
                        jb_last_error := take 500 err,
                        jb_lease_owner := None, jb_lease_expires_at := None,
                        jb_fire_token := (if status = JobPending then None else jb_fire_token j),
                        jb_updated_at := now\<rparr>
             in Inr (j', put_job j' db)))"

section \<open>The catch-up loop\<close>

lemma advance_stop: "now < t \<Longrightarrow> advance now t step = Some t"
  by (subst advance.simps) simp

lemma advance_step: "t \<le> now \<Longrightarrow> advance now t step = advance now (t + step) step"
  by (subst advance.simps) simp

lemma advance_some:
  assumes "0 < step"
  shows "advance now t step =
    Some (if t \<le> now then t + ((now - t) div step + 1) * step else t)"
proof (induction "nat (now - t + 1)" arbitrary: t rule: less_induct)
  case less
  show ?case
  proof (cases "t \<le> now")
    case True
    have "nat (now - (t + step) + 1) < nat (now - t + 1)" using True assms by simp
    note IH = less [OF this]
    show ?thesis
    proof (cases "t + step \<le> now")
      case le: True
      have "(now - t) div step = (now - (t + step)) div step + 1"
        using assms by (metis add_diff_cancel_left' diff_add_cancel diff_diff_eq
            div_add_self2 less_irrefl)
      then show ?thesis using True le IH by (simp add: advance_step algebra_simps)
    next
      case False
      have "(now - t) div step = 0" using True False by (simp add: div_pos_pos_trivial)
      then show ?thesis using True False IH by (simp add: advance_step)
    qed
  qed (simp add: advance_stop)
qed

text \<open>The next slot is the first one of the original grid that lies after \<open>now\<close>.\<close>

lemma advance_first_slot:
  assumes "0 < step" "t \<le> now"
  obtains t' where "advance now t step = Some t'" "now < t'" "t' \<le> now + step" "step dvd t' - t"
proof (rule that)
  show "advance now t step = Some (t + ((now - t) div step + 1) * step)"
    using assms by (simp add: advance_some)
  define p where "p = (now - t) div step * step"
  have e: "p + (now - t) mod step = now - t" by (simp add: p_def)
  have "t + ((now - t) div step + 1) * step = t + p + step" by (simp add: p_def algebra_simps)
  moreover have "0 \<le> (now - t) mod step" "(now - t) mod step < step" using assms by auto
  ultimately show "now < t + ((now - t) div step + 1) * step" "t + ((now - t) div step + 1) * step \<le> now + step"
    using e by linarith+
qed simp

lemma advance_diverges:
  assumes "step \<le> 0" "t \<le> now"
  shows "advance now t step = None"
proof -
  have "c \<le> 0 \<longrightarrow> \<not> b \<le> n" if "advance n b c = Some y" for n b c y
  proof (rule advance.raw_induct [where P = "\<lambda>n b c y. c \<le> 0 \<longrightarrow> \<not> b \<le> n", OF _ that])
    fix adv :: "instant \<Rightarrow> instant \<Rightarrow> int \<Rightarrow> instant option" and n b c y :: int
    assume IH: "\<And>n b c y. adv n b c = Some y \<Longrightarrow> c \<le> 0 \<longrightarrow> \<not> b \<le> n"
      and body: "(if b \<le> n then adv n (b + c) c else Some b) = Some y"
    show "c \<le> 0 \<longrightarrow> \<not> b \<le> n"
    proof (intro impI notI)
      assume le: "c \<le> 0" "b \<le> n"
      then have "adv n (b + c) c = Some y" using body by simp
      with IH le(1) have "\<not> b + c \<le> n" by blast
      with le show False by linarith
    qed
  qed
  then show ?thesis using assms by (cases "advance now t step") blast+
qed

section \<open>The invariant of the job table\<close>

definition job_ok :: "job_row \<Rightarrow> bool" where
  "job_ok j \<longleftrightarrow>
     (jb_status j = JobRunning \<longleftrightarrow> jb_lease_owner j \<noteq> None) \<and>
     (jb_lease_owner j = None \<longleftrightarrow> jb_lease_expires_at j = None) \<and>
     (jb_status j = JobRunning \<longrightarrow> jb_fire_token j \<noteq> None) \<and>
     (jb_trigger j = TrigEvery \<and> jb_cron_expr j = [] \<longrightarrow> 0 < jb_interval_seconds j)"

definition jobs_ok :: "job_row list \<Rightarrow> bool" where
  "jobs_ok js \<longleftrightarrow> distinct (map jb_id js) \<and> (\<forall>j \<in> set js. job_ok j)"

text \<open>The capacity of a user: at most ten pending or running jobs.\<close>

definition capacity_ok :: "job_row list \<Rightarrow> bool" where
  "capacity_ok js \<longleftrightarrow> (\<forall>u. active_jobs u js \<le> 10)"

lemma jobs_ok_lookup:
  assumes "jobs_ok js" "row_by jb_id i js = Some j"
  shows "j \<in> set js" "jb_id j = i" "job_ok j" "row_by jb_id (jb_id j) js = Some j"
  using assms row_by_SomeD [OF assms(2)] by (auto simp: jobs_ok_def)

lemma jobs_ok_put: "jobs_ok js \<Longrightarrow> job_ok j \<Longrightarrow> jobs_ok (put_row jb_id j js)"
  by (auto simp: jobs_ok_def elim!: put_rowE)

text \<open>Replacing one row by an active one of the same user adds nothing when the row was active.\<close>

lemma active_jobs_put:
  assumes "distinct (map jb_id js)" "row_by jb_id (jb_id j') js = Some j" "jb_user_id j' = jb_user_id j"
    and "job_active j' \<Longrightarrow> job_active j"
  shows "active_jobs u (put_row jb_id j' js) \<le> active_jobs u js"
  using assms
proof (induction js)
  case (Cons x js)
  show ?case
  proof (cases "jb_id x = jb_id j'")
    case True
    with Cons.prems have "x = j" "put_row jb_id j' js = js"
      by (auto simp: put_row_def image_iff intro!: map_idI)
    then show ?thesis using Cons.prems True by (auto simp: active_jobs_def)
  next
    case False
    with Cons show ?thesis by (auto simp: active_jobs_def)
  qed
qed simp

lemma capacity_ok_put:
  assumes "capacity_ok js" "distinct (map jb_id js)" "row_by jb_id (jb_id j') js = Some j"
    "jb_user_id j' = jb_user_id j" "job_active j' \<Longrightarrow> job_active j"
  shows "capacity_ok (put_row jb_id j' js)"
  unfolding capacity_ok_def
  by (meson active_jobs_put assms capacity_ok_def order_trans)

definition schedule_ok :: "cloud_db \<Rightarrow> bool" where
  "schedule_ok db \<longleftrightarrow> jobs_ok (jobs db) \<and> capacity_ok (jobs db)"

lemma schedule_ok_put:
  assumes "schedule_ok db" "row_by jb_id (jb_id j') (jobs db) = Some j" "jb_user_id j' = jb_user_id j"
    "job_active j' \<Longrightarrow> job_active j" "job_ok j'"
  shows "schedule_ok (put_job j' db)"
  using assms jobs_ok_put capacity_ok_put by (auto simp: schedule_ok_def jobs_ok_def)

lemma schedule_ok_cong: "jobs db' = jobs db \<Longrightarrow> schedule_ok db' = schedule_ok db"
  by (simp add: schedule_ok_def)

lemma create_scheduled_job_ok:
  assumes ok: "schedule_ok db"
    and c: "create_scheduled_job u cid msg pr t n rem tier trig cr tz nm hex (jobs db) clk db = Inr (j, db')"
    and shape: "trig = TrigEvery \<Longrightarrow> cr = [] \<Longrightarrow> 0 < n"
  shows "schedule_ok db'" "jb_status j = JobPending" "j \<in> set (jobs db')" "jb_user_id j = u"
proof -
  have j: "db' = db\<lparr>jobs := jobs db @ [j]\<rparr>" "jb_id j \<notin> jb_id ` set (jobs db)" "jb_user_id j = u"
      "jb_status j = JobPending" "active_jobs u (jobs db) < 10"
      "jb_lease_owner j = None" "jb_lease_expires_at j = None" "jb_trigger j = trig"
      "jb_cron_expr j = cr" "jb_interval_seconds j = max 0 n"
    using c by (auto simp: create_scheduled_job_def Let_def split: option.splits if_splits)
  have "job_ok j" using j shape by (auto simp: job_ok_def)
  moreover have "active_jobs v (jobs db @ [j]) \<le> 10" for v
    using ok j(3,5) by (auto simp: schedule_ok_def capacity_ok_def active_jobs_def)
  ultimately show "schedule_ok db'" "jb_status j = JobPending" "j \<in> set (jobs db')" "jb_user_id j = u"
    using ok j by (auto simp: schedule_ok_def jobs_ok_def capacity_ok_def)
qed

lemma cancel_scheduled_job_ok:
  assumes ok: "schedule_ok db" and c: "cancel_scheduled_job u i now db = Inr (j', db')"
  shows "schedule_ok db'"
proof -
  obtain j where f: "find (\<lambda>j. jb_id j = i \<and> jb_user_id j = u) (jobs db) = Some j"
    and p: "jb_status j = JobPending" "j' = j\<lparr>jb_status := JobCancelled, jb_updated_at := now\<rparr>"
      "db' = put_job j' db"
    using c by (auto simp: cancel_scheduled_job_def Let_def split: option.splits if_splits)
  have "j \<in> set (jobs db)" using f by (auto simp: find_Some_iff)
  then have "row_by jb_id (jb_id j) (jobs db) = Some j" "job_ok j"
    using ok by (auto simp: schedule_ok_def jobs_ok_def row_by_unique)
  then show ?thesis
    unfolding p(3) using p(1,2) by (intro schedule_ok_put [OF ok, of _ j]) (auto simp: job_ok_def job_active_def)
qed

lemma heartbeat_scheduled_job_ok:
  assumes ok: "schedule_ok db" and h: "heartbeat_scheduled_job i w tok n clk db = Inr (x, db')"
  shows "schedule_ok db'"
proof -
  obtain j where j: "row_by jb_id i (jobs db) = Some j" "jb_status j = JobRunning"
      "db' = put_job (j\<lparr>jb_lease_expires_at := Some (clk 0 + seconds (max 10 n)), jb_updated_at := clk 1\<rparr>) db"
    using h by (auto simp: heartbeat_scheduled_job_def split: option.splits if_splits)
  have "jobs_ok (jobs db)" using ok by (simp add: schedule_ok_def)
  note l = jobs_ok_lookup [OF this j(1)]
  show ?thesis
    unfolding j(3) using l j(2) by (intro schedule_ok_put [OF ok, of _ j]) (auto simp: job_ok_def job_active_def)
qed

lemma finish_scheduled_job_ok:
  assumes ok: "schedule_ok db" and f: "finish_scheduled_job i w tok st rem nx err now db = Inr (j', db')"
    and st: "st \<noteq> JobRunning"
  shows "schedule_ok db'"
proof -
  obtain j where j: "row_by jb_id i (jobs db) = Some j" "jb_lease_owner j = Some (take 200 w)"
    and j': "j' = j\<lparr>jb_status := st, jb_remaining_runs := rem,
                        jb_run_at := (case nx of None \<Rightarrow> jb_run_at j | Some t \<Rightarrow> t),
                        jb_last_error := take 500 err,
                        jb_lease_owner := None, jb_lease_expires_at := None,
                        jb_fire_token := (if st = JobPending then None else jb_fire_token j),
                        jb_updated_at := now\<rparr>" "db' = put_job j' db"
    using f by (auto simp: finish_scheduled_job_def Let_def split: option.splits if_splits)
  have "jobs_ok (jobs db)" using ok by (simp add: schedule_ok_def)
  note l = jobs_ok_lookup [OF this j(1)]
  show ?thesis
    unfolding j'(2) using l j(2) st
    by (intro schedule_ok_put [OF ok, of _ j]) (auto simp: j'(1) job_ok_def job_active_def)
qed

section \<open>Claiming a job\<close>

definition job_owner :: "cloud_db \<Rightarrow> pystr \<Rightarrow> pystr option" where
  "job_owner db i = (case row_by jb_id i (jobs db) of None \<Rightarrow> None | Some j \<Rightarrow> jb_lease_owner j)"

definition job_expires :: "cloud_db \<Rightarrow> pystr \<Rightarrow> instant option" where
  "job_expires db i = (case row_by jb_id i (jobs db) of None \<Rightarrow> None | Some j \<Rightarrow> jb_lease_expires_at j)"

definition stored_pending :: "job_row list \<Rightarrow> cloud_db \<Rightarrow> bool" where
  "stored_pending cs db \<longleftrightarrow> distinct (map jb_id cs) \<and>
     (\<forall>j \<in> set cs. row_by jb_id (jb_id j) (jobs db) = Some j \<and> jb_status j = JobPending)"

lemma job_owner_put:
  assumes "row_by jb_id (jb_id j) (jobs db) = Some x"
  shows "job_owner (put_job j db) i = (if i = jb_id j then jb_lease_owner j else job_owner db i)"
    and "job_expires (put_job j db) i = (if i = jb_id j then jb_lease_expires_at j else job_expires db i)"
  using assms by (simp_all add: job_owner_def job_expires_def row_by_put_row)

lemma skip_misfire_total:
  assumes "job_ok j" shows "skip_misfire cron now j \<noteq> None"
proof -
  have "0 < seconds (jb_interval_seconds j)" if "repeats_after_misfire j" "jb_cron_expr j = []"
    using assms that by (auto simp: repeats_after_misfire_def job_ok_def)
  then show ?thesis
    by (auto simp: skip_misfire_def catch_up_def advance_some split: sum.splits)
qed

lemma skip_misfireD:
  assumes "skip_misfire cron now j = Some (Inr j')"
  shows "jb_id j' = jb_id j" "jb_user_id j' = jb_user_id j" "jb_lease_owner j' = jb_lease_owner j"
    "jb_lease_expires_at j' = jb_lease_expires_at j" "jb_status j' = jb_status j \<or> jb_status j' = JobMissed"
    "jb_fire_token j' = jb_fire_token j"
    "job_ok j \<Longrightarrow> jb_status j = JobPending \<Longrightarrow> job_ok j'"
  using assms
  by (auto simp: skip_misfire_def job_ok_def split: if_splits sum.splits option.splits)

lemma scan_jobs_total:
  "\<forall>j \<in> set cs. job_ok j \<Longrightarrow> scan_jobs cron owner n hex now cs db \<noteq> None"
proof (induction cs arbitrary: db)
  case (Cons j cs)
  then have "skip_misfire cron now j \<noteq> None" by (simp add: skip_misfire_total)
  with Cons show ?case by (auto simp: Let_def split: sum.splits)
qed simp

lemma scan_jobs_result:
  assumes "schedule_ok db" "stored_pending cs db"
    and "scan_jobs cron owner n hex now cs db = Some (Inr (r, db'))"
  shows "schedule_ok db' \<and> (\<exists>js. db' = db\<lparr>jobs := js\<rparr>) \<and>
    (case r of
       None \<Rightarrow> (\<forall>j \<in> set cs. job_misfired now j) \<and> job_owner db' = job_owner db
     | Some j' \<Rightarrow> (\<exists>pre j post. cs = pre @ j # post \<and> (\<forall>x \<in> set pre. job_misfired now x) \<and>
         \<not> job_misfired now j \<and> j' = claimed_job owner n hex now j) \<and>
         row_by jb_id (jb_id j') (jobs db') = Some j' \<and>
         (\<forall>i. i \<noteq> jb_id j' \<longrightarrow> job_owner db' i = job_owner db i))"
  using assms
proof (induction cs arbitrary: db)
  case Nil
  then show ?case by (auto intro: exI [of _ "jobs db"])
next
  case (Cons j cs)
  have row: "row_by jb_id (jb_id j) (jobs db) = Some j" "jb_status j = JobPending"
    using Cons.prems(2) by (auto simp: stored_pending_def)
  have jok: "job_ok j"
    using Cons.prems(1) jobs_ok_lookup(3) [OF _ row(1)] by (simp add: schedule_ok_def)
  show ?case
  proof (cases "job_misfired now j")
    case False
    let ?j = "claimed_job owner n hex now j"
    have e: "r = Some ?j" "db' = put_job ?j db" using Cons.prems(3) False by (auto simp: Let_def)
    have id: "jb_id ?j = jb_id j" by (simp add: claimed_job_def)
    have "schedule_ok (put_job ?j db)"
      using jok row by (intro schedule_ok_put [OF Cons.prems(1), of _ j])
        (auto simp: claimed_job_def job_ok_def job_active_def split: option.splits)
    moreover have "row_by jb_id (jb_id ?j) (jobs (put_job ?j db)) = Some ?j"
      using row id by (simp add: row_by_put_row)
    moreover have "job_owner (put_job ?j db) i = job_owner db i" if "i \<noteq> jb_id ?j" for i
      using job_owner_put(1) [of ?j db j i] row(1) id that by simp
    moreover have "j # cs = [] @ j # cs \<and> (\<forall>x \<in> set []. job_misfired now x)" by simp
    ultimately show ?thesis
      using e False by (simp only: option.case) blast
  next
    case True
    obtain j' where sk: "skip_misfire cron now j = Some (Inr j')"
      and rest: "scan_jobs cron owner n hex now cs (put_job j' db) = Some (Inr (r, db'))"
      using Cons.prems(3) True by (auto split: option.splits sum.splits)
    note d = skip_misfireD [OF sk]
    have row': "row_by jb_id (jb_id j') (jobs db) = Some j" using row d(1) by simp
    have ok1: "schedule_ok (put_job j' db)"
      using d jok row row' by (intro schedule_ok_put [OF Cons.prems(1), of _ j]) (auto simp: job_active_def)
    have "stored_pending cs (put_job j' db)"
      unfolding stored_pending_def
    proof (intro conjI ballI)
      show "distinct (map jb_id cs)" using Cons.prems(2) by (simp add: stored_pending_def)
      fix x assume x: "x \<in> set cs"
      have "jb_id j \<notin> jb_id ` set cs" using Cons.prems(2) by (simp add: stored_pending_def)
      then have "jb_id x \<noteq> jb_id j'" unfolding d(1) using x by (metis imageI)
      moreover have "row_by jb_id (jb_id x) (jobs db) = Some x" "jb_status x = JobPending"
        using Cons.prems(2) x by (simp_all add: stored_pending_def)
      ultimately show "row_by jb_id (jb_id x) (jobs (put_job j' db)) = Some x" "jb_status x = JobPending"
        by (simp_all add: row_by_put_row)
    qed
    note IH = Cons.IH [OF ok1 this rest]
    have free: "jb_lease_owner j = None" using jok row(2) by (simp add: job_ok_def)
    have same: "job_owner (put_job j' db) = job_owner db"
      using job_owner_put(1) [OF row'] d(3) free row(1) d(1)
      by (auto simp: fun_eq_iff job_owner_def)
    show ?thesis
    proof (cases r)
      case None
      then show ?thesis using IH True same by simp
    next
      case (Some c)
      then obtain pre x post where x: "cs = pre @ x # post" "\<forall>y \<in> set pre. job_misfired now y"
          "\<not> job_misfired now x" "c = claimed_job owner n hex now x"
        using IH by auto
      then have "j # cs = (j # pre) @ x # post \<and> (\<forall>y \<in> set (j # pre). job_misfired now y)"
        using True by simp
      then have "\<exists>pre x post. j # cs = pre @ x # post \<and> (\<forall>y \<in> set pre. job_misfired now y) \<and>
          \<not> job_misfired now x \<and> c = claimed_job owner n hex now x" using x by blast
      moreover have "\<exists>js. db' = db\<lparr>jobs := js\<rparr>" using IH by auto
      ultimately show ?thesis using IH Some same by simp
    qed
  qed
qed

lemma release_jobs_ids [simp]: "map jb_id (release_jobs stamp ids js) = map jb_id js"
  by (simp add: release_jobs_def release_job_def)

lemma release_jobsE:
  assumes "x \<in> set (release_jobs stamp ids js)"
  obtains "x \<in> set js" "jb_id x \<notin> set ids"
  | j where "j \<in> set js" "jb_id j \<in> set ids" "x = release_job stamp j"
  using assms by (auto simp: release_jobs_def split: if_splits)

lemma release_jobs_active:
  "(\<And>j. j \<in> set js \<Longrightarrow> jb_id j \<in> set ids \<Longrightarrow> jb_status j = JobRunning) \<Longrightarrow>
   active_jobs u (release_jobs stamp ids js) = active_jobs u js"
proof (induction js)
  case (Cons j js)
  have "jb_user_id (release_job stamp j) = jb_user_id j" "job_active (release_job stamp j)"
    by (simp_all add: release_job_def job_active_def)
  moreover have "jb_id j \<in> set ids \<Longrightarrow> job_active j" using Cons.prems [of j] by (simp add: job_active_def)
  moreover have "active_jobs u (release_jobs stamp ids js) = active_jobs u js"
    using Cons by simp
  ultimately show ?case by (simp add: release_jobs_def active_jobs_def)
qed (simp add: release_jobs_def)

lemma expired_job:
  assumes "jobs_ok (jobs db)" "jb_id j \<in> set (map jb_id (expired_jobs now locked db))" "j \<in> set (jobs db)"
  shows "jb_status j = JobRunning \<and> (\<exists>e. jb_lease_expires_at j = Some e \<and> e < now)"
proof -
  obtain x where x: "x \<in> set (expired_jobs now locked db)" "jb_id x = jb_id j"
    using assms(2) by auto
  then have xm: "x \<in> set (jobs db)" "jb_status x = JobRunning"
      "\<exists>e. jb_lease_expires_at x = Some e \<and> e < now"
    by (auto simp: expired_jobs_def split: option.splits dest!: in_set_takeD)
  moreover have "distinct (map jb_id (jobs db))" using assms(1) by (simp add: jobs_ok_def)
  ultimately have "x = j" using x(2) assms(3) by (metis row_by_unique row_by_uniqueD)
  then show ?thesis using xm by simp
qed

lemma release_jobs_ok:
  assumes ok: "schedule_ok db"
  shows "schedule_ok (db\<lparr>jobs := release_jobs stamp (map jb_id (expired_jobs now locked db)) (jobs db)\<rparr>)"
proof -
  let ?ids = "map jb_id (expired_jobs now locked db)"
  have jo: "jobs_ok (jobs db)" using ok by (simp add: schedule_ok_def)
  have "job_ok j" if "j \<in> set (release_jobs stamp ?ids (jobs db))" for j
    using that
  proof (cases rule: release_jobsE)
    case 1
    then show ?thesis using jo by (simp add: jobs_ok_def)
  next
    case (2 x)
    then have "job_ok x" using jo by (simp add: jobs_ok_def)
    then show ?thesis by (simp add: 2(3) release_job_def job_ok_def)
  qed
  moreover have "active_jobs u (release_jobs stamp ?ids (jobs db)) = active_jobs u (jobs db)" for u
    by (rule release_jobs_active) (use expired_job [OF jo] in blast)
  ultimately show ?thesis
    using ok by (simp add: schedule_ok_def jobs_ok_def capacity_ok_def)
qed

lemma due_jobs_stored:
  assumes ok: "jobs_ok js"
  shows "distinct (map jb_id (due_jobs now locked js))"
    and "j \<in> set (due_jobs now locked js) \<Longrightarrow> row_by jb_id (jb_id j) js = Some j \<and>
      jb_status j = JobPending \<and> jb_run_at j \<le> now \<and> jb_id j \<notin> set locked"
proof -
  let ?f = "filter (\<lambda>j. jb_status j = JobPending \<and> jb_run_at j \<le> now \<and> jb_id j \<notin> set locked) js"
  let ?s = "sort_key (\<lambda>j. (jb_run_at j, jb_id j)) ?f"
  have "distinct (map jb_id ?f)" using ok by (simp add: jobs_ok_def distinct_map_filter)
  then have "distinct ?f \<and> inj_on jb_id (set ?f)" by (simp add: distinct_map)
  then have "distinct (map jb_id ?s)" by (simp add: distinct_map)
  then have "distinct (take 20 (map jb_id ?s))" by (rule distinct_take)
  then show "distinct (map jb_id (due_jobs now locked js))"
    unfolding due_jobs_def by (simp only: take_map)
  show "row_by jb_id (jb_id j) js = Some j \<and>
      jb_status j = JobPending \<and> jb_run_at j \<le> now \<and> jb_id j \<notin> set locked"
    if "j \<in> set (due_jobs now locked js)"
  proof -
    have "j \<in> set ?s" using that unfolding due_jobs_def by (rule in_set_takeD)
    then have "j \<in> set ?f" by simp
    then show ?thesis using ok by (auto simp: jobs_ok_def row_by_unique)
  qed
qed

text \<open>A claim returns; it keeps the invariant and gives at most one job to the caller.\<close>

lemma claim_next_scheduled_job_total:
  assumes "schedule_ok db"
  shows "claim_next_scheduled_job cron w n now stamp hex l1 l2 db \<noteq> None"
proof -
  let ?db = "db\<lparr>jobs := release_jobs stamp (map jb_id (expired_jobs now l1 db)) (jobs db)\<rparr>"
  have "jobs_ok (jobs ?db)" using release_jobs_ok [OF assms] by (simp add: schedule_ok_def)
  then have "\<forall>j \<in> set (due_jobs now l2 (jobs ?db)). job_ok j"
    using due_jobs_stored(2) jobs_ok_lookup(3) by blast
  then show ?thesis
    unfolding claim_next_scheduled_job_def Let_def by (intro scan_jobs_total) simp
qed

lemma claim_next_scheduled_job_result:
  fixes now :: instant
  assumes ok: "schedule_ok db"
    and c: "claim_next_scheduled_job cron w n now stamp hex l1 l2 db = Some (Inr (r, db'))"
  defines "js \<equiv> release_jobs stamp (map jb_id (expired_jobs now l1 db)) (jobs db)"
  shows "schedule_ok db' \<and> (\<exists>js. db' = db\<lparr>jobs := js\<rparr>) \<and>
    (case r of
       None \<Rightarrow> (\<forall>j \<in> set (due_jobs now l2 js). job_misfired now j) \<and> job_owner db' = job_owner (db\<lparr>jobs := js\<rparr>)
     | Some j' \<Rightarrow> (\<exists>pre j post. due_jobs now l2 js = pre @ j # post \<and> (\<forall>x \<in> set pre. job_misfired now x) \<and>
         \<not> job_misfired now j \<and> j' = claimed_job (take 200 w) n hex now j) \<and>
         row_by jb_id (jb_id j') (jobs db') = Some j' \<and>
         (\<forall>i. i \<noteq> jb_id j' \<longrightarrow> job_owner db' i = job_owner (db\<lparr>jobs := js\<rparr>) i))"
proof -
  have ok1: "schedule_ok (db\<lparr>jobs := js\<rparr>)" unfolding js_def by (rule release_jobs_ok [OF ok])
  then have "jobs_ok js" by (simp add: schedule_ok_def)
  then have "stored_pending (due_jobs now l2 js) (db\<lparr>jobs := js\<rparr>)"
    using due_jobs_stored by (simp add: stored_pending_def)
  moreover have "scan_jobs cron (take 200 w) n hex now (due_jobs now l2 js) (db\<lparr>jobs := js\<rparr>) = Some (Inr (r, db'))"
    using c by (simp add: claim_next_scheduled_job_def js_def Let_def)
  ultimately have "schedule_ok db' \<and> (\<exists>ks. db' = db\<lparr>jobs := js\<rparr>\<lparr>jobs := ks\<rparr>) \<and>
    (case r of
       None \<Rightarrow> (\<forall>j \<in> set (due_jobs now l2 js). job_misfired now j) \<and> job_owner db' = job_owner (db\<lparr>jobs := js\<rparr>)
     | Some j' \<Rightarrow> (\<exists>pre j post. due_jobs now l2 js = pre @ j # post \<and> (\<forall>x \<in> set pre. job_misfired now x) \<and>
         \<not> job_misfired now j \<and> j' = claimed_job (take 200 w) n hex now j) \<and>
         row_by jb_id (jb_id j') (jobs db') = Some j' \<and>
         (\<forall>i. i \<noteq> jb_id j' \<longrightarrow> job_owner db' i = job_owner (db\<lparr>jobs := js\<rparr>) i))"
    by (rule scan_jobs_result [OF ok1])
  then show ?thesis by simp
qed

section \<open>The job table as a leased table\<close>

definition job_claim :: "instant \<Rightarrow> pystr \<Rightarrow> cloud_db \<Rightarrow> pystr \<Rightarrow> cloud_db \<Rightarrow> bool" where
  "job_claim now w db i db' \<longleftrightarrow> schedule_ok db \<and>
     (\<exists>cron wid n stamp hex l1 l2 j. w = take 200 wid \<and> jb_id j = i \<and>
        claim_next_scheduled_job cron wid n now stamp hex l1 l2 db = Some (Inr (Some j, db')))"

definition job_finish :: "pystr \<Rightarrow> cloud_db \<Rightarrow> pystr \<Rightarrow> cloud_db \<Rightarrow> bool" where
  "job_finish w db i db' \<longleftrightarrow> schedule_ok db \<and>
     (\<exists>wid tok st rem nx err now j. w = take 200 wid \<and> st \<noteq> JobRunning \<and>
        finish_scheduled_job i wid tok st rem nx err now db = Inr (j, db'))"

definition job_other :: "cloud_db \<Rightarrow> cloud_db \<Rightarrow> bool" where
  "job_other db db' \<longleftrightarrow> schedule_ok db \<and>
     ((\<exists>cron wid n now stamp hex l1 l2.
         claim_next_scheduled_job cron wid n now stamp hex l1 l2 db = Some (Inr (None, db'))) \<or>
      (\<exists>i wid tok n clk. heartbeat_scheduled_job i wid tok n clk db = Inr ((), db')) \<or>
      (\<exists>u i now j. cancel_scheduled_job u i now db = Inr (j, db')) \<or>
      (\<exists>new. jobs db' = jobs db @ new \<and> (\<forall>j \<in> set new. jb_lease_owner j = None)))"

lemma row_by_release_jobs:
  "row_by jb_id i (release_jobs stamp ids js) =
   map_option (\<lambda>j. if jb_id j \<in> set ids then release_job stamp j else j) (row_by jb_id i js)"
  by (induction js) (auto simp: release_jobs_def release_job_def)

lemma job_owner_release:
  "job_owner (db\<lparr>jobs := release_jobs stamp ids (jobs db)\<rparr>) i =
   (if i \<in> set ids then None else job_owner db i)"
  by (auto simp: job_owner_def row_by_release_jobs release_job_def split: option.splits dest: row_by_SomeD)

lemma job_claim_effect:
  assumes "job_claim now w db i db'"
  shows "job_owner db' i = Some w" and "\<exists>e. job_expires db' i = Some e \<and> now < e"
    and "job_owner db i = Some v \<Longrightarrow> \<exists>e. job_expires db i = Some e \<and> e < now"
    and "k \<noteq> i \<Longrightarrow> job_owner db' k = Some v \<Longrightarrow> job_owner db k = Some v"
proof -
  obtain cron wid n stamp hex l1 l2 j' where ok: "schedule_ok db" and w: "w = take 200 wid"
    and i: "jb_id j' = i"
    and c: "claim_next_scheduled_job cron wid n now stamp hex l1 l2 db = Some (Inr (Some j', db'))"
    using assms by (auto simp: job_claim_def)
  let ?ids = "map jb_id (expired_jobs now l1 db)"
  let ?js = "release_jobs stamp ?ids (jobs db)"
  have jo: "jobs_ok (jobs db)" using ok by (simp add: schedule_ok_def)
  have jo1: "jobs_ok ?js" using release_jobs_ok [OF ok] by (simp add: schedule_ok_def)
  note r = claim_next_scheduled_job_result [OF ok c, simplified option.case]
  obtain pre j post where due: "due_jobs now l2 ?js = pre @ j # post"
    and j': "j' = claimed_job w n hex now j" using r w by blast
  have row': "row_by jb_id i (jobs db') = Some j'" using r i by blast
  have other: "\<forall>k. k \<noteq> i \<longrightarrow> job_owner db' k = job_owner (db\<lparr>jobs := ?js\<rparr>) k" using r i by blast
  show "job_owner db' i = Some w" "\<exists>e. job_expires db' i = Some e \<and> now < e"
    using row' j' by (simp_all add: job_owner_def job_expires_def claimed_job_def seconds_def)
  show "job_owner db k = Some v" if "k \<noteq> i" "job_owner db' k = Some v"
    using that other job_owner_release by (metis option.distinct(1))
  have "j \<in> set (due_jobs now l2 ?js)" using due by simp
  from due_jobs_stored(2) [OF jo1 this]
  have jrow: "row_by jb_id (jb_id j) ?js = Some j" "jb_status j = JobPending" by auto
  have ji: "jb_id j = i" using i j' by (simp add: claimed_job_def)
  have "jb_lease_owner j = None"
    using jobs_ok_lookup(3) [OF jo1 jrow(1)] jrow(2) by (simp add: job_ok_def)
  then have "job_owner (db\<lparr>jobs := ?js\<rparr>) i = None" using jrow(1) ji by (simp add: job_owner_def)
  then have freed: "i \<in> set ?ids \<or> job_owner db i = None"
    unfolding job_owner_release by (metis (full_types))
  show "\<exists>e. job_expires db i = Some e \<and> e < now" if owned: "job_owner db i = Some v"
  proof -
    obtain x where x: "row_by jb_id i (jobs db) = Some x"
      using owned by (auto simp: job_owner_def split: option.splits)
    note xr = jobs_ok_lookup [OF jo x]
    have "jb_id x \<in> set ?ids" using freed owned xr(2) by simp
    then have "\<exists>e. jb_lease_expires_at x = Some e \<and> e < now"
      using expired_job [OF jo _ xr(1)] by blast
    then show ?thesis using x by (simp add: job_expires_def)
  qed
qed

lemma job_finish_effect:
  assumes "job_finish w db i db'"
  shows "job_owner db i = Some w" and "job_owner db' i = None"
    and "k \<noteq> i \<Longrightarrow> job_owner db' k = job_owner db k"
proof -
  obtain wid tok st rem nx err now j' where w: "w = take 200 wid"
    and f: "finish_scheduled_job i wid tok st rem nx err now db = Inr (j', db')"
    using assms by (auto simp: job_finish_def)
  obtain j where j: "row_by jb_id i (jobs db) = Some j" "jb_lease_owner j = Some (take 200 wid)"
    and j': "jb_id j' = jb_id j" "jb_lease_owner j' = None" "db' = put_job j' db"
    using f by (auto simp: finish_scheduled_job_def Let_def split: option.splits if_splits)
  have id: "jb_id j = i" using row_by_SomeD [OF j(1)] by simp
  have row: "row_by jb_id (jb_id j') (jobs db) = Some j" using j(1) j'(1) id by simp
  show "job_owner db i = Some w" using j w by (simp add: job_owner_def)
  show "job_owner db' i = None" "k \<noteq> i \<Longrightarrow> job_owner db' k = job_owner db k"
    unfolding j'(3) job_owner_put(1) [OF row] using j'(1,2) id by simp_all
qed

lemma job_other_effect:
  assumes "job_other db db'" and owned: "job_owner db' k = Some v"
  shows "job_owner db k = Some v"
proof -
  have ok: "schedule_ok db" using assms(1) by (simp add: job_other_def)
  consider (none) cron wid n now stamp hex l1 l2 where
      "claim_next_scheduled_job cron wid n now stamp hex l1 l2 db = Some (Inr (None, db'))"
    | (hb) i wid tok n clk where "heartbeat_scheduled_job i wid tok n clk db = Inr ((), db')"
    | (cancel) u i now j where "cancel_scheduled_job u i now db = Inr (j, db')"
    | (new) new where "jobs db' = jobs db @ new" "\<forall>j \<in> set new. jb_lease_owner j = None"
    using assms(1) unfolding job_other_def by blast
  then show ?thesis
  proof cases
    case none
    note r = claim_next_scheduled_job_result [OF ok none, simplified option.case]
    then have "job_owner db' = job_owner (db\<lparr>jobs := release_jobs stamp
        (map jb_id (expired_jobs now l1 db)) (jobs db)\<rparr>)" by blast
    then show ?thesis using owned job_owner_release by (metis option.distinct(1))
  next
    case hb
    then obtain j where j: "row_by jb_id i (jobs db) = Some j"
      and e: "db' = put_job (j\<lparr>jb_lease_expires_at := Some (clk 0 + seconds (max 10 n)),
        jb_updated_at := clk 1\<rparr>) db"
      by (auto simp: heartbeat_scheduled_job_def split: option.splits if_splits)
    have "jb_id j = i" using row_by_SomeD [OF j] by simp
    then show ?thesis
      using owned job_owner_put(1) [of "j\<lparr>jb_lease_expires_at := Some (clk 0 + seconds (max 10 n)),
        jb_updated_at := clk 1\<rparr>" db j k] j e by (auto simp: job_owner_def split: if_splits)
  next
    case cancel
    then obtain x where x: "find (\<lambda>j. jb_id j = i \<and> jb_user_id j = u) (jobs db) = Some x"
      and e: "db' = put_job (x\<lparr>jb_status := JobCancelled, jb_updated_at := now\<rparr>) db"
      by (auto simp: cancel_scheduled_job_def Let_def split: option.splits if_splits)
    have "x \<in> set (jobs db)" using x by (auto simp: find_Some_iff)
    then have "row_by jb_id (jb_id x) (jobs db) = Some x"
      using ok by (auto simp: schedule_ok_def jobs_ok_def row_by_unique)
    then show ?thesis
      using owned job_owner_put(1) [of "x\<lparr>jb_status := JobCancelled, jb_updated_at := now\<rparr>" db x k] e
      by (auto simp: job_owner_def split: if_splits)
  next
    case new
    then show ?thesis using owned
      by (auto simp: job_owner_def row_by_append split: option.splits dest: row_by_SomeD)
  qed
qed

interpretation sq: leased_table job_owner job_expires job_claim job_finish job_other
proof
  fix now w s i s' j v
  show "job_claim now w s i s' \<Longrightarrow> job_owner s' i = Some w"
    by (rule job_claim_effect(1))
  show "job_claim now w s i s' \<Longrightarrow> \<exists>e. job_expires s' i = Some e \<and> now < e"
    by (rule job_claim_effect(2))
  show "job_claim now w s i s' \<Longrightarrow> job_owner s i = Some v \<Longrightarrow>
      \<forall>e. job_expires s i = Some e \<longrightarrow> e \<le> now"
    using job_claim_effect(3) by fastforce
  show "job_claim now w s i s' \<Longrightarrow> j \<noteq> i \<Longrightarrow> job_owner s' j = Some v \<Longrightarrow> job_owner s j = Some v"
    by (rule job_claim_effect(4))
  show "job_finish w s i s' \<Longrightarrow> job_owner s i = Some w"
    by (rule job_finish_effect(1))
  show "job_finish w s i s' \<Longrightarrow> job_owner s' i = None"
    by (rule job_finish_effect(2))
  show "job_finish w s i s' \<Longrightarrow> j \<noteq> i \<Longrightarrow> job_owner s' j = Some v \<Longrightarrow> job_owner s j = Some v"
    by (simp add: job_finish_effect(3))
  show "job_other s s' \<Longrightarrow> job_owner s' j = Some v \<Longrightarrow> job_owner s j = Some v"
    by (rule job_other_effect)
qed

section \<open>Delivering a fire\<close>

lemma deliver_instant_cases:
  assumes "deliver_instant j c key seen mid clk db = Inr (d, db')"
  obtains (old) m where "find_delivery (cv_id c) key db = Some m" "d = DMessage m" "db' = db"
  | (fresh) m db1 where "find_delivery (cv_id c) key db = None" "\<not> conversation_busy (cv_id c) seen"
      "post_message mid c RoleAssistant (jb_message j)
         [(lit ''scheduled_job_id'', JStr (jb_id j)), (lit ''source'', JStr (lit ''scheduler''))]
         (Some key) (clk 0) (clk 1) db = Inr (m, db1)"
      "d = DMessage m" "db' = enqueue_channel_deliveries (clk 2) m db1"
  using assms by (auto simp: deliver_instant_def split: option.splits if_splits sum.splits)

lemma deliver_soft_cases:
  assumes "deliver_soft j c key tok mid rid clk db = Inr (d, db')"
  obtains (old) r where "find_submission (jb_user_id j) key (runs db) = Some r" "d = DRun r" "db' = db"
  | (fresh) m db1 r where "find_submission (jb_user_id j) key (runs db) = None"
      "post_message mid c RoleUser (jb_prompt j) (soft_metadata (jb_id j))
         (Some (schedule_key ''schedule-input:'' (jb_id j) tok)) (clk 0) (clk 1) db = Inr (m, db1)"
      "r = queued_run rid (jb_user_id j) (cv_id c) (ms_id m) (Some key) (clk 2)"
      "insert_run r db1 = Inr (db1\<lparr>runs := runs db1 @ [r]\<rparr>)" "d = DRun r"
      "db' = log_event r (lit ''run.queued'')
         [jstatus ''queued'', (lit ''input_message_id'', JStr (ms_id m)),
          (lit ''scheduled_job_id'', JStr (jb_id j))] (clk 3) (db1\<lparr>runs := runs db1 @ [r]\<rparr>)"
proof (cases "find_submission (jb_user_id j) key (runs db)")
  case (Some r)
  then have "d = DRun r" "db' = db" using assms by (auto simp: deliver_soft_def)
  then show ?thesis using Some by (rule old [rotated])
next
  case None
  obtain m db1 where p: "post_message mid c RoleUser (jb_prompt j) (soft_metadata (jb_id j))
         (Some (schedule_key ''schedule-input:'' (jb_id j) tok)) (clk 0) (clk 1) db = Inr (m, db1)"
    using assms None by (auto simp: deliver_soft_def split: sum.splits)
  define r where "r = queued_run rid (jb_user_id j) (cv_id c) (ms_id m) (Some key) (clk 2)"
  have step: "(case insert_run r db1 of Inl e \<Rightarrow> Inl e
      | Inr db2 \<Rightarrow> Inr (DRun r, log_event r (lit ''run.queued'')
          [jstatus ''queued'', (lit ''input_message_id'', JStr (ms_id m)),
           (lit ''scheduled_job_id'', JStr (jb_id j))] (clk 3) db2)) = Inr (d, db')"
    using assms unfolding deliver_soft_def None option.case p sum.case prod.case Let_def r_def .
  obtain db2 where i: "insert_run r db1 = Inr db2" using step by (auto split: sum.splits)
  have db2: "db2 = db1\<lparr>runs := runs db1 @ [r]\<rparr>" using insert_runD [OF i] by simp
  have "d = DRun r" "db' = log_event r (lit ''run.queued'')
          [jstatus ''queued'', (lit ''input_message_id'', JStr (ms_id m)),
           (lit ''scheduled_job_id'', JStr (jb_id j))] (clk 3) db2"
    using step i by auto
  then show ?thesis
    unfolding db2 by (intro fresh [OF None p r_def i [unfolded db2]])
qed

lemma deliver_scheduled_job_cases:
  assumes "deliver_scheduled_job i w tok seen mid rid clk db = Inr (d, db')"
  obtains j c where "row_by jb_id i (jobs db) = Some j" "jb_status j = JobRunning"
    "jb_lease_owner j = Some (take 200 w)" "jb_fire_token j = Some tok"
    "owned_conversation (jb_user_id j) (jb_conversation_id j) db = Some c"
    "(case jb_tier j of TierInstant \<Rightarrow> deliver_instant j c (schedule_key ''schedule:'' i tok) seen mid clk db
      | TierSoft \<Rightarrow> deliver_soft j c (schedule_key ''schedule:'' i tok) tok mid rid clk db) = Inr (d, db')"
proof -
  obtain j where j: "row_by jb_id i (jobs db) = Some j"
    using assms by (auto simp: deliver_scheduled_job_def Let_def split: option.splits)
  have guard: "jb_status j = JobRunning" "jb_lease_owner j = Some (take 200 w)" "jb_fire_token j = Some tok"
    using assms j by (auto simp: deliver_scheduled_job_def Let_def split: if_splits)
  obtain c where c: "owned_conversation (jb_user_id j) (jb_conversation_id j) db = Some c"
    using assms j guard by (auto simp: deliver_scheduled_job_def Let_def split: option.splits)
  show ?thesis
    by (rule that [OF j guard c])
      (use assms j guard c in \<open>simp add: deliver_scheduled_job_def Let_def\<close>)
qed

text \<open>Delivering keeps every invariant it touches.\<close>

lemma deliver_instant_ok:
  assumes d: "deliver_instant j c key seen mid clk db = Inr (d, db')"
    and c: "c \<in> set (conversations db)"
    and ok: "queue_ok db" "msgs_ok db" "outbox_ok db"
  shows "queue_ok db' \<and> msgs_ok db' \<and> outbox_ok db' \<and> jobs db' = jobs db"
  using d
proof (cases rule: deliver_instant_cases)
  case (fresh m db1)
  note p = fresh(3)
  note o = post_message_outbox [OF ok(3) p]
  note fr = post_message_queue_frame [OF p]
  have "row_by cv_id (cv_id c) (conversations db) = Some c"
    using msgs_ok_conversation [OF ok(2) c] .
  then have "msgs_ok db1" using msgs_ok_post [OF ok(2) _ refl p] by blast
  then have "msgs_ok db'"
    unfolding fresh(5) by (subst msgs_ok_cong [of _ db1]) (simp_all add: frame_simps)
  moreover have "queue_ok db'"
    using ok(1) fr unfolding fresh(5) by (subst queue_ok_cong [of _ db]) (simp_all add: frame_simps)
  moreover have "outbox_ok db'"
    unfolding fresh(5) by (rule enqueue_channel_deliveries_ok [OF o])
  moreover have "jobs db' = jobs db"
    unfolding fresh(5) by (simp add: frame_simps post_messageD(2) [OF p])
  ultimately show ?thesis by simp
qed (use ok in simp)

lemma deliver_soft_ok:
  assumes d: "deliver_soft j c key tok mid rid clk db = Inr (d, db')"
    and c: "c \<in> set (conversations db)"
    and ok: "queue_ok db" "msgs_ok db" "outbox_ok db"
  shows "queue_ok db' \<and> msgs_ok db' \<and> outbox_ok db' \<and> jobs db' = jobs db"
  using d
proof (cases rule: deliver_soft_cases)
  case (fresh m db1 r)
  note p = fresh(2)
  note o = post_message_outbox [OF ok(3) p]
  note fr = post_message_queue_frame [OF p]
  let ?db2 = "db1\<lparr>runs := runs db1 @ [r]\<rparr>"
  have "row_by cv_id (cv_id c) (conversations db) = Some c"
    using msgs_ok_conversation [OF ok(2) c] .
  then have "msgs_ok db1" using msgs_ok_post [OF ok(2) _ refl p] by blast
  then have "msgs_ok db'"
    unfolding fresh(6) by (subst msgs_ok_cong [of _ db1]) (simp_all add: frame_simps)
  moreover have "queue_ok db1" using ok(1) fr by (subst queue_ok_cong [of _ db]) simp_all
  then have "queue_ok ?db2" using queue_ok_insert(1) [OF _ _ fresh(4)] fresh(3) by simp
  then have "queue_ok db'"
    unfolding fresh(6) by (simp add: queue_ok_def frame_simps events_ok_log)
  moreover have "outbox_ok db'"
    unfolding fresh(6) by (rule outbox_ok_cong [OF _ _ _ _ o(1)]) (simp_all add: frame_simps)
  moreover have "jobs db' = jobs db"
    unfolding fresh(6) by (simp add: frame_simps post_messageD(2) [OF p])
  ultimately show ?thesis by simp
qed (use ok in simp)

lemma deliver_scheduled_job_ok:
  assumes d: "deliver_scheduled_job i w tok seen mid rid clk db = Inr (d, db')"
    and ok: "queue_ok db" "msgs_ok db" "outbox_ok db"
  shows "queue_ok db'" "msgs_ok db'" "outbox_ok db'" "jobs db' = jobs db"
proof -
  obtain j c where c: "owned_conversation (jb_user_id j) (jb_conversation_id j) db = Some c"
    and e: "(case jb_tier j of TierInstant \<Rightarrow> deliver_instant j c (schedule_key ''schedule:'' i tok) seen mid clk db
      | TierSoft \<Rightarrow> deliver_soft j c (schedule_key ''schedule:'' i tok) tok mid rid clk db) = Inr (d, db')"
    using d by (rule deliver_scheduled_job_cases)
  have "c \<in> set (conversations db)" using owned_conversationD [OF c] by simp
  then have "queue_ok db' \<and> msgs_ok db' \<and> outbox_ok db' \<and> jobs db' = jobs db"
    using e deliver_instant_ok [OF _ _ ok] deliver_soft_ok [OF _ _ ok] by (cases "jb_tier j") simp_all
  then show "queue_ok db'" "msgs_ok db'" "outbox_ok db'" "jobs db' = jobs db" by blast+
qed

text \<open>
  A fire is delivered once: once a delivery has committed, every later one with the same token,
  by whatever worker holds the lease then, returns the same row and changes nothing.
\<close>

lemma find_delivery_present:
  assumes "msgs_ok db" "m \<in> set (messages db)" "ms_conversation_id m = c" "ms_delivery_key m = Some key"
  shows "find_delivery c key db = Some m"
proof (cases "find_delivery c key db")
  case None
  then show ?thesis using assms by (auto simp: find_delivery_def find_None_iff)
next
  case (Some x)
  then have x: "x \<in> set (messages db)" "ms_conversation_id x = c" "ms_delivery_key x = Some key"
    by (auto simp: find_delivery_def find_Some_iff)
  have clash: "message_clash x m" "message_clash m x" using x assms by (auto simp: message_clash_def)
  have "sorted_wrt (\<lambda>m m'. \<not> message_clash m m') (messages db)" using assms(1) by (simp add: msgs_ok_def)
  then have "x = m"
    using x(1) assms(2) clash unfolding sorted_wrt_iff_nth_less in_set_conv_nth
    by (metis linorder_neqE_nat)
  then show ?thesis using Some by simp
qed

lemma post_message_conversation:
  assumes p: "post_message mid c r content meta key u t db = Inr (m, db')"
    and ok: "msgs_ok db" and c: "c \<in> set (conversations db)"
  shows "owned_conversation (cv_user_id c) (cv_id c) db' =
    Some (c\<lparr>cv_next_message_seq := cv_next_message_seq c + 1, cv_updated_at := u\<rparr>)"
proof -
  have "cv_id x = cv_id c" if "cv_id x = cv_id c \<and> cv_user_id x = cv_user_id c" for x
    using that by simp
  then show ?thesis
    unfolding owned_conversation_def post_messageD(2) [OF p] using c
    by (simp, intro find_put_row) (auto simp: image_iff)
qed

text \<open>A fire is recorded when the rows hold what a later delivery looks up.\<close>

fun recorded :: "pystr \<Rightarrow> pystr \<Rightarrow> job_row \<Rightarrow> cloud_db \<Rightarrow> delivered \<Rightarrow> bool" where
  "recorded i tok j db (DMessage m) \<longleftrightarrow> jb_tier j = TierInstant \<and>
     find_delivery (jb_conversation_id j) (schedule_key ''schedule:'' i tok) db = Some m"
| "recorded i tok j db (DRun r) \<longleftrightarrow> jb_tier j = TierSoft \<and>
     find_submission (jb_user_id j) (schedule_key ''schedule:'' i tok) (runs db) = Some r"

lemma recorded_redelivery:
  assumes "recorded i tok j db d" and "row_by jb_id i (jobs db) = Some j"
    and "jb_status j = JobRunning" "jb_lease_owner j = Some (take 200 w)" "jb_fire_token j = Some tok"
    and "owned_conversation (jb_user_id j) (jb_conversation_id j) db = Some c"
  shows "deliver_scheduled_job i w tok seen mid rid clk db = Inr (d, db)"
proof -
  have "cv_id c = jb_conversation_id j" using owned_conversationD [OF assms(6)] by simp
  then show ?thesis
    using assms
    by (cases d) (simp_all add: deliver_scheduled_job_def Let_def deliver_instant_def deliver_soft_def)
qed

lemma deliver_scheduled_job_recorded:
  assumes d: "deliver_scheduled_job i w tok seen mid rid clk db = Inr (d, db')"
    and ok: "queue_ok db" "msgs_ok db" "outbox_ok db"
  obtains j c where "row_by jb_id i (jobs db') = Some j" "jb_status j = JobRunning"
    "jb_lease_owner j = Some (take 200 w)" "jb_fire_token j = Some tok"
    "owned_conversation (jb_user_id j) (jb_conversation_id j) db' = Some c"
    "recorded i tok j db' d"
proof -
  obtain j c where j: "row_by jb_id i (jobs db) = Some j" "jb_status j = JobRunning"
      "jb_lease_owner j = Some (take 200 w)" "jb_fire_token j = Some tok"
    and c: "owned_conversation (jb_user_id j) (jb_conversation_id j) db = Some c"
    and e: "(case jb_tier j of TierInstant \<Rightarrow> deliver_instant j c (schedule_key ''schedule:'' i tok) seen mid clk db
      | TierSoft \<Rightarrow> deliver_soft j c (schedule_key ''schedule:'' i tok) tok mid rid clk db) = Inr (d, db')"
    using d by (rule deliver_scheduled_job_cases)
  note ok' = deliver_scheduled_job_ok [OF d ok]
  have cd: "c \<in> set (conversations db)" "cv_id c = jb_conversation_id j" "cv_user_id c = jb_user_id j"
    using owned_conversationD [OF c] by auto
  have "(\<exists>c'. owned_conversation (jb_user_id j) (jb_conversation_id j) db' = Some c') \<and> recorded i tok j db' d"
  proof (cases "jb_tier j")
    case TierInstant
    then have "deliver_instant j c (schedule_key ''schedule:'' i tok) seen mid clk db = Inr (d, db')"
      using e by simp
    then show ?thesis
    proof (cases rule: deliver_instant_cases)
      case (old m)
      then show ?thesis using TierInstant c cd by simp
    next
      case (fresh m db1)
      note p = fresh(3)
      have m: "m \<in> set (messages db')" "ms_conversation_id m = jb_conversation_id j"
          "ms_delivery_key m = Some (schedule_key ''schedule:'' i tok)"
        by (simp_all add: fresh(5) frame_simps post_messageD(2) [OF p])
          (simp_all add: post_messageD(1) [OF p] cd(2))
      have "conversations db' = conversations db1" by (simp add: fresh(5) frame_simps)
      then have "owned_conversation (jb_user_id j) (jb_conversation_id j) db' =
          owned_conversation (cv_user_id c) (cv_id c) db1"
        using cd by (simp add: owned_conversation_def)
      then show ?thesis
        using find_delivery_present [OF ok'(2) m] TierInstant fresh(4)
          post_message_conversation [OF p ok(2) cd(1)] by simp
    qed
  next
    case TierSoft
    then have "deliver_soft j c (schedule_key ''schedule:'' i tok) tok mid rid clk db = Inr (d, db')"
      using e by simp
    then show ?thesis
    proof (cases rule: deliver_soft_cases)
      case (old r)
      then show ?thesis using TierSoft c by simp
    next
      case (fresh m db1 r)
      note p = fresh(2)
      have r: "r \<in> set (runs db')" "rn_user_id r = jb_user_id j"
          "rn_idempotency_key r = Some (schedule_key ''schedule:'' i tok)"
        by (simp_all add: fresh(6) frame_simps) (simp_all add: fresh(3))
      have "runs_ok (runs db')" using ok'(1) by (simp add: queue_ok_def)
      note f = find_submission_present [OF this r]
      have "conversations db' = conversations db1" by (simp add: fresh(6) frame_simps)
      then have "owned_conversation (jb_user_id j) (jb_conversation_id j) db' =
          owned_conversation (cv_user_id c) (cv_id c) db1"
        using cd by (simp add: owned_conversation_def)
      then show ?thesis
        using f TierSoft fresh(5) post_message_conversation [OF p ok(2) cd(1)] by simp
    qed
  qed
  then show ?thesis using that j ok'(4) by auto
qed

end
