(* ===== verification/CloudAutomation.thy ===== *)
theory CloudAutomation
  imports CloudChannels CloudSchedule
begin

text \<open>
  The Proactive/Drift automation of a conversation, in \<open>src/cloud/store.py\<close>: its configuration,
  the inbox of external events, the lease on its ticks and the messages a tick delivers.
\<close>

section \<open>Configuration\<close>

definition get_automation :: "uuid \<Rightarrow> uuid \<Rightarrow> cloud_db \<Rightarrow> automation_row option res" where
  "get_automation user_id conversation_id db =
     (case get_conversation user_id conversation_id db of
        Inl e \<Rightarrow> Inl e
      | Inr _ \<Rightarrow>
          Inr (find (\<lambda>a. at_conversation_id a = conversation_id \<and> at_user_id a = user_id)
                 (automations db)))"

definition switch_off :: "(uuid \<Rightarrow> instant) \<Rightarrow> automation_row \<Rightarrow> automation_row" where
  "switch_off stamp a =
     a\<lparr>at_enabled := False, at_proactive_enabled := False, at_drift_enabled := False,
       at_lease_owner := None, at_lease_expires_at := None, at_tick_token := None,
       at_updated_at := stamp (at_conversation_id a)\<rparr>"

text \<open>The other automations of the user that the configuration switches off: those enabled in the
  query's snapshot \<open>seen\<close> and still enabled when their lock is taken.\<close>

definition other_target :: "uuid \<Rightarrow> uuid \<Rightarrow> automation_row list \<Rightarrow> automation_row \<Rightarrow> bool" where
  "other_target user_id conversation_id seen a \<longleftrightarrow>
     at_user_id a = user_id \<and> at_conversation_id a \<noteq> conversation_id \<and> at_enabled a \<and>
     (\<exists>s \<in> set seen. at_conversation_id s = at_conversation_id a \<and> at_enabled s)"

definition forget_continuity :: "uuid \<Rightarrow> cloud_db \<Rightarrow> cloud_db" where
  "forget_continuity user_id db =
     db\<lparr>continuity := filter (\<lambda>x. cr_user_id x \<noteq> user_id) (continuity db),
        inbox := filter (\<lambda>x. bx_user_id x \<noteq> user_id) (inbox db)\<rparr>"

definition configured ::
  "bool \<Rightarrow> bool \<Rightarrow> pystr \<Rightarrow> instant \<Rightarrow> automation_row \<Rightarrow> automation_row" where
  "configured proactive drift context now a =
     a\<lparr>at_proactive_enabled := proactive, at_drift_enabled := drift,
       at_enabled := (proactive \<or> drift), at_proactive_context := take 20000 context,
       at_next_tick_at := now, at_lease_owner := None, at_lease_expires_at := None,
       at_tick_token := None, at_last_error := [], at_updated_at := now\<rparr>"

definition new_automation :: "uuid \<Rightarrow> uuid \<Rightarrow> instant \<Rightarrow> automation_row" where
  "new_automation user_id conversation_id now =
     \<lparr>at_conversation_id = conversation_id, at_user_id = user_id, at_enabled = False,
      at_proactive_enabled = False, at_drift_enabled = False, at_proactive_context = [],
      at_next_tick_at = now, at_lease_owner = None, at_lease_expires_at = None,
      at_tick_token = None, at_last_started_at = None, at_last_finished_at = None,
      at_last_error = [], at_updated_at = now\<rparr>"

definition configure_automation ::
  "uuid \<Rightarrow> uuid \<Rightarrow> bool \<Rightarrow> bool \<Rightarrow> pystr \<Rightarrow> automation_row list \<Rightarrow> instant \<Rightarrow> (uuid \<Rightarrow> instant) \<Rightarrow>
   cloud_db \<Rightarrow> (automation_row \<times> cloud_db) res" where
  "configure_automation user_id conversation_id proactive drift context seen now stamp db =
     (case owned_conversation user_id conversation_id db of
        None \<Rightarrow> Inl (StoreNotFoundError (lit ''conversation not found''))
      | Some c \<Rightarrow>
          (let hit = other_target user_id conversation_id seen;
               on = (proactive \<or> drift);
               db1 = (if on \<and> (\<exists>a \<in> set (automations db). hit a)
                      then forget_continuity user_id
                             (db\<lparr>automations := map (\<lambda>a. if hit a then switch_off stamp a else a)
                                               (automations db)\<rparr>)
                      else db)
           in case row_by at_conversation_id conversation_id (automations db1) of
                None \<Rightarrow>
                  (let a = configured proactive drift context now
                             (new_automation user_id conversation_id now)
                   in Inr (a, db1\<lparr>automations := automations db1 @ [a]\<rparr>))
              | Some a0 \<Rightarrow>
                  (let a = configured proactive drift context now a0
                   in Inr (a, db1\<lparr>automations :=
                                put_row at_conversation_id a (automations db1)\<rparr>))))"

section \<open>The inbox of external events\<close>

text \<open>PostgreSQL refuses a text longer than its \<open>VARCHAR\<close> column; the widths are those of the
  table \<open>automation_inbox_events\<close>.\<close>

definition inbox_fits :: "inbox_row \<Rightarrow> bool" where
  "inbox_fits b \<longleftrightarrow> length (bx_id b) \<le> 64 \<and> length (bx_source_id b) \<le> 200 \<and>
     length (bx_source_event_id b) \<le> 300 \<and> length (bx_kind b) \<le> 32"

definition insert_inbox :: "inbox_row \<Rightarrow> cloud_db \<Rightarrow> cloud_db res" where
  "insert_inbox b db =
     (if \<not> inbox_fits b then Inl DataError
      else if \<exists>x \<in> set (inbox db). bx_id x = bx_id b \<or>
           (bx_user_id x = bx_user_id b \<and> bx_conversation_id x = bx_conversation_id b \<and>
            bx_source_id x = bx_source_id b \<and> bx_source_event_id x = bx_source_event_id b)
      then Inl IntegrityError
      else Inr (db\<lparr>inbox := inbox db @ [b]\<rparr>))"

definition event_identity :: "uuid \<Rightarrow> pystr \<Rightarrow> pystr \<Rightarrow> pystr option" where
  "event_identity conversation_id source event =
     map_option (\<lambda>d. lit ''cloud:'' @ d)
       (sha256_text (conversation_id @ [0] @ source @ [0] @ event))"

definition event_payload ::
  "pydict \<Rightarrow> pystr \<Rightarrow> pystr \<Rightarrow> pystr \<Rightarrow> pystr \<Rightarrow> uuid \<Rightarrow> pydict" where
  "event_payload payload kind item_id event source conversation_id =
     dict_update payload
       [(lit ''kind'', JStr kind), (lit ''item_id'', JStr item_id), (lit ''_source'', JStr []),
        (lit ''event_id'', JStr event), (lit ''cloud_source_id'', JStr source),
        (lit ''conversation_id'', JStr conversation_id)]"

definition ingest_proactive_event ::
  "uuid \<Rightarrow> uuid \<Rightarrow> pystr \<Rightarrow> pystr \<Rightarrow> pystr \<Rightarrow> pydict \<Rightarrow> clock \<Rightarrow> cloud_db \<Rightarrow>
   ((pystr \<times> bool) \<times> cloud_db) res" where
  "ingest_proactive_event user_id conversation_id kind source_id event_id payload clk db =
     (let source = strip source_id; event = strip event_id
      in if kind \<noteq> lit ''alert'' \<and> kind \<noteq> lit ''content''
         then Inl (ValueError (lit ''kind must be alert or content''))
         else if source = [] \<or> event = []
         then Inl (ValueError (lit ''source_id and event_id are required''))
         else
           (case event_identity conversation_id source event of
              None \<Rightarrow> Inl encode_error
            | Some item_id \<Rightarrow>
                (case find (\<lambda>a. at_conversation_id a = conversation_id \<and> at_user_id a = user_id \<and>
                       at_enabled a \<and> at_proactive_enabled a) (automations db) of
                   None \<Rightarrow> Inl (StoreStateError (lit ''proactive automation is not enabled''))
                 | Some a \<Rightarrow>
                     if row_by bx_id item_id (inbox db) \<noteq> None then Inr ((item_id, False), db)
                     else
                       (case insert_inbox
                               \<lparr>bx_id = item_id, bx_user_id = user_id,
                                bx_conversation_id = conversation_id, bx_source_id = source,
                                bx_source_event_id = event, bx_kind = kind,
                                bx_payload = event_payload payload kind item_id event source
                                               conversation_id,
                                bx_created_at = clk 1, bx_acknowledged_at = None\<rparr> db of
                          Inl e \<Rightarrow> Inl e
                        | Inr db1 \<Rightarrow>
                            Inr ((item_id, True),
                                 db1\<lparr>automations := put_row at_conversation_id
                                   (a\<lparr>at_next_tick_at := clk 0, at_updated_at := clk 2\<rparr>)
                                   (automations db1)\<rparr>)))))"

definition fetch_automation_inbox :: "uuid \<Rightarrow> uuid \<Rightarrow> cloud_db \<Rightarrow> pydict list" where
  "fetch_automation_inbox user_id conversation_id db =
     map (\<lambda>b. dict_update (bx_payload b)
            [(lit ''kind'', JStr (bx_kind b)), (lit ''event_id'', JStr (bx_id b)),
             (lit ''item_id'', JStr (bx_id b))])
       (sort_key (\<lambda>b. (bx_created_at b, bx_id b))
         (filter (\<lambda>b. bx_user_id b = user_id \<and> bx_conversation_id b = conversation_id \<and>
              bx_acknowledged_at b = None) (inbox db)))"

definition acknowledge_automation_inbox ::
  "uuid \<Rightarrow> uuid \<Rightarrow> pystr list \<Rightarrow> (pystr \<Rightarrow> instant) \<Rightarrow> cloud_db \<Rightarrow> cloud_db" where
  "acknowledge_automation_inbox user_id conversation_id event_ids stamp db =
     (let ids = filter (\<lambda>i. i \<noteq> []) event_ids
      in if ids = [] then db
         else db\<lparr>inbox := map (\<lambda>b. if bx_user_id b = user_id \<and> bx_conversation_id b = conversation_id \<and>
                              bx_id b \<in> set ids
                            then b\<lparr>bx_acknowledged_at := Some (stamp (bx_id b))\<rparr> else b) (inbox db)\<rparr>)"

section \<open>Ticks\<close>

text \<open>\<open>seen\<close> is the statement's snapshot of the Run table, \<open>locked\<close> the rows it skips.\<close>

definition claim_next_automation ::
  "pystr \<Rightarrow> int \<Rightarrow> clock \<Rightarrow> pystr \<Rightarrow> run_row list \<Rightarrow> uuid list \<Rightarrow> cloud_db \<Rightarrow>
   automation_row option \<times> cloud_db" where
  "claim_next_automation worker_id lease_seconds clk hex seen locked db =
     (let now = clk 0
      in case first_row (\<lambda>a. (at_next_tick_at a, at_conversation_id a))
                (\<lambda>a. at_enabled a \<and> at_next_tick_at a \<le> now \<and>
                     (case at_lease_expires_at a of None \<Rightarrow> True | Some e \<Rightarrow> e \<le> now) \<and>
                     \<not> conversation_busy (at_conversation_id a) seen \<and>
                     at_conversation_id a \<notin> set locked) (automations db) of
           None \<Rightarrow> (None, db)
         | Some a \<Rightarrow>
             (let a' = a\<lparr>at_lease_owner := Some (take 200 worker_id),
                         at_lease_expires_at := Some (now + seconds (max 10 lease_seconds)),
                         at_last_started_at := Some now,
                         at_tick_token := (case at_tick_token a of
                            None \<Rightarrow> Some hex | Some t \<Rightarrow> Some (or_else t hex)),
                         at_updated_at := clk 1\<rparr>
              in (Some a', db\<lparr>automations := put_row at_conversation_id a' (automations db)\<rparr>)))"

definition finish_automation ::
  "uuid \<Rightarrow> pystr \<Rightarrow> instant \<Rightarrow> pystr \<Rightarrow> clock \<Rightarrow> cloud_db \<Rightarrow> (unit \<times> cloud_db) res" where
  "finish_automation conversation_id worker_id next_tick_at err clk db =
     (case row_by at_conversation_id conversation_id (automations db) of
        None \<Rightarrow> Inl (StoreStateError (lit ''automation lease is not owned by worker''))
      | Some a \<Rightarrow>
          if at_lease_owner a \<noteq> Some (take 200 worker_id)
          then Inl (StoreStateError (lit ''automation lease is not owned by worker''))
          else Inr ((), db\<lparr>automations := put_row at_conversation_id
                 (a\<lparr>at_next_tick_at := next_tick_at, at_last_finished_at := Some (clk 0),
                    at_last_error := take 500 err, at_lease_owner := None,
                    at_lease_expires_at := None,
                    at_tick_token := (if err = [] then None else at_tick_token a),
                    at_updated_at := clk 1\<rparr>) (automations db)\<rparr>))"

definition heartbeat_automation ::
  "uuid \<Rightarrow> pystr \<Rightarrow> pystr \<Rightarrow> int \<Rightarrow> clock \<Rightarrow> cloud_db \<Rightarrow> (unit \<times> cloud_db) res" where
  "heartbeat_automation conversation_id worker_id tick_token lease_seconds clk db =
     (case row_by at_conversation_id conversation_id (automations db) of
        None \<Rightarrow> Inl (StoreStateError (lit ''automation lease was lost''))
      | Some a \<Rightarrow>
          if at_lease_owner a \<noteq> Some (take 200 worker_id) \<or> at_tick_token a \<noteq> Some tick_token
          then Inl (StoreStateError (lit ''automation lease was lost''))
          else Inr ((), db\<lparr>automations := put_row at_conversation_id
                 (a\<lparr>at_lease_expires_at := Some (clk 0 + seconds (max 10 lease_seconds)),
                    at_updated_at := clk 1\<rparr>) (automations db)\<rparr>))"

definition require_automation_tool_access ::
  "uuid \<Rightarrow> pystr \<Rightarrow> pystr \<Rightarrow> cloud_db \<Rightarrow> unit res" where
  "require_automation_tool_access conversation_id worker_id tick_token db =
     (if \<not> (\<exists>a \<in> set (automations db). at_conversation_id a = conversation_id \<and>
            at_lease_owner a = Some (take 200 worker_id) \<and> at_tick_token a = Some tick_token \<and>
            at_enabled a) \<or>
         conversation_busy conversation_id (runs db)
      then Inl (StoreStateError
             (lit ''automation tool invocation fenced by passive activity or lost lease''))
      else Inr ())"

definition load_automation_context ::
  "automation_row \<Rightarrow> cloud_db \<Rightarrow> (user_row \<times> conversation_row \<times> message_row list) res" where
  "load_automation_context a db =
     (case (row_by us_id (at_user_id a) (users db),
            owned_conversation (at_user_id a) (at_conversation_id a) db) of
        (Some u, Some c) \<Rightarrow>
          Inr (u, c, sort_key ms_seq
                 (filter (\<lambda>m. ms_conversation_id m = at_conversation_id a) (messages db)))
      | _ \<Rightarrow> Inl (StoreStateError (lit ''automation references missing owner or conversation'')))"

definition append_automation_message ::
  "uuid \<Rightarrow> uuid \<Rightarrow> pystr \<Rightarrow> pystr \<Rightarrow> pystr \<Rightarrow> pystr \<Rightarrow> pydict option \<Rightarrow> run_row list \<Rightarrow> uuid \<Rightarrow> clock \<Rightarrow>
   cloud_db \<Rightarrow> (message_row \<times> cloud_db) res" where
  "append_automation_message user_id conversation_id worker_id tick_token source content metadata
       seen mid clk db =
     (let delivery_key = take 128 (source @ lit '':'' @ tick_token)
      in case find (\<lambda>a. at_conversation_id a = conversation_id \<and> at_user_id a = user_id)
                (automations db) of
           None \<Rightarrow> Inl (StoreStateError (lit ''automation delivery has no matching lease''))
         | Some a \<Rightarrow>
             if at_lease_owner a \<noteq> Some (take 200 worker_id) \<or> at_tick_token a \<noteq> Some tick_token
             then Inl (StoreStateError (lit ''automation delivery has no matching lease''))
             else
               (case find_delivery conversation_id delivery_key db of
                  Some m \<Rightarrow> Inr (m, db)
                | None \<Rightarrow>
                    if conversation_busy conversation_id seen
                    then Inl (StoreStateError
                           (lit ''passive Run became active during automation tick''))
                    else
                      (case owned_conversation user_id conversation_id db of
                         None \<Rightarrow> Inl (StoreNotFoundError (lit ''conversation not found''))
                       | Some c \<Rightarrow>
                           (case post_message mid c RoleAssistant content
                                   (case metadata of None \<Rightarrow> [] | Some d \<Rightarrow> d)
                                   (Some delivery_key) (clk 0) (clk 1) db of
                              Inl e \<Rightarrow> Inl e
                            | Inr (m, db1) \<Rightarrow>
                                Inr (m, enqueue_channel_deliveries (clk 2) m db1)))))"

section \<open>The invariant of the automation table\<close>

definition automation_ok :: "automation_row \<Rightarrow> bool" where
  "automation_ok a \<longleftrightarrow> (at_enabled a \<longleftrightarrow> at_proactive_enabled a \<or> at_drift_enabled a) \<and>
     (at_lease_owner a = None \<longleftrightarrow> at_lease_expires_at a = None) \<and>
     (at_lease_owner a \<noteq> None \<longrightarrow> at_enabled a \<and> at_tick_token a \<noteq> None)"

definition one_target :: "automation_row list \<Rightarrow> bool" where
  "one_target ats \<longleftrightarrow> (\<forall>a \<in> set ats. \<forall>b \<in> set ats.
     at_enabled a \<longrightarrow> at_enabled b \<longrightarrow> at_user_id a = at_user_id b \<longrightarrow>
     at_conversation_id a = at_conversation_id b)"

definition automations_ok :: "automation_row list \<Rightarrow> bool" where
  "automations_ok ats \<longleftrightarrow> distinct (map at_conversation_id ats) \<and> (\<forall>a \<in> set ats. automation_ok a) \<and>
     one_target ats"

abbreviation put_auto :: "automation_row \<Rightarrow> cloud_db \<Rightarrow> cloud_db" where
  "put_auto a db \<equiv> db\<lparr>automations := put_row at_conversation_id a (automations db)\<rparr>"

lemma automations_ok_row:
  assumes "automations_ok ats" "row_by at_conversation_id c ats = Some a"
  shows "a \<in> set ats" "at_conversation_id a = c" "automation_ok a"
    "row_by at_conversation_id (at_conversation_id a) ats = Some a"
  using assms row_by_SomeD [OF assms(2)] by (auto simp: automations_ok_def)

lemma one_target_put:
  assumes ot: "one_target ats"
    and safe: "\<And>x. at_enabled a \<Longrightarrow> x \<in> set ats \<Longrightarrow> at_enabled x \<Longrightarrow> at_user_id x = at_user_id a \<Longrightarrow>
      at_conversation_id x = at_conversation_id a"
  shows "one_target (put_row at_conversation_id a ats)"
  unfolding one_target_def
proof (intro ballI impI)
  fix x y
  assume x: "x \<in> set (put_row at_conversation_id a ats)" "at_enabled x"
    and y: "y \<in> set (put_row at_conversation_id a ats)" "at_enabled y" and u: "at_user_id x = at_user_id y"
  from x(1) show "at_conversation_id x = at_conversation_id y"
  proof (rule put_rowE)
    assume xa: "x = a"
    from y(1) show ?thesis
    proof (rule put_rowE)
      assume "y = a"
      then show ?thesis using xa by simp
    next
      assume "y \<in> set ats"
      then show ?thesis using safe xa x(2) y(2) u by metis
    qed
  next
    assume xm: "x \<in> set ats"
    from y(1) show ?thesis
    proof (rule put_rowE)
      assume "y = a"
      then show ?thesis using safe xm x(2) y(2) u by metis
    next
      assume "y \<in> set ats"
      then show ?thesis using ot xm x(2) y(2) u unfolding one_target_def by blast
    qed
  qed
qed

lemma one_target_append:
  assumes ot: "one_target ats"
    and safe: "\<And>x. at_enabled a \<Longrightarrow> x \<in> set ats \<Longrightarrow> at_enabled x \<Longrightarrow> at_user_id x = at_user_id a \<Longrightarrow>
      at_conversation_id x = at_conversation_id a"
  shows "one_target (ats @ [a])"
  unfolding one_target_def
proof (intro ballI impI)
  fix x y
  assume x: "x \<in> set (ats @ [a])" "at_enabled x" and y: "y \<in> set (ats @ [a])" "at_enabled y"
    and u: "at_user_id x = at_user_id y"
  consider "x = a" "y = a" | "x = a" "y \<in> set ats" | "x \<in> set ats" "y = a" | "x \<in> set ats" "y \<in> set ats"
    using x(1) y(1) by auto
  then show "at_conversation_id x = at_conversation_id y"
  proof cases
    case 1
    then show ?thesis by simp
  next
    case 2
    then show ?thesis using safe [of y] x(2) y(2) u by simp
  next
    case 3
    then show ?thesis using safe [of x] x(2) y(2) u by simp
  next
    case 4
    then show ?thesis using ot x(2) y(2) u unfolding one_target_def by blast
  qed
qed

lemma automations_ok_put:
  assumes ok: "automations_ok ats" and a: "automation_ok a"
    and safe: "\<And>x. at_enabled a \<Longrightarrow> x \<in> set ats \<Longrightarrow> at_enabled x \<Longrightarrow> at_user_id x = at_user_id a \<Longrightarrow>
      at_conversation_id x = at_conversation_id a"
  shows "automations_ok (put_row at_conversation_id a ats)"
proof -
  have "one_target (put_row at_conversation_id a ats)"
    using ok safe unfolding automations_ok_def by (intro one_target_put) blast+
  moreover have "automation_ok x" if "x \<in> set (put_row at_conversation_id a ats)" for x
    using that by (rule put_rowE) (use ok a in \<open>simp_all add: automations_ok_def\<close>)
  ultimately show ?thesis using ok by (simp add: automations_ok_def)
qed

text \<open>A change that keeps the row's user and does not switch it on.\<close>

lemma automations_ok_update:
  assumes ok: "automations_ok ats" and r: "row_by at_conversation_id (at_conversation_id a') ats = Some a"
    and same: "at_user_id a' = at_user_id a" and a: "automation_ok a'" and on: "at_enabled a' \<Longrightarrow> at_enabled a"
  shows "automations_ok (put_row at_conversation_id a' ats)"
proof (rule automations_ok_put [OF ok a])
  note m = automations_ok_row [OF ok r]
  fix x assume "at_enabled a'" "x \<in> set ats" "at_enabled x" "at_user_id x = at_user_id a'"
  then show "at_conversation_id x = at_conversation_id a'"
    using ok m on same r unfolding automations_ok_def one_target_def by (metis row_by_SomeD)
qed

lemma put_auto_ok:
  assumes "automations_ok (automations db)"
    and "row_by at_conversation_id (at_conversation_id a') (automations db) = Some a"
    and "at_user_id a' = at_user_id a" "automation_ok a'" "at_enabled a' \<Longrightarrow> at_enabled a"
  shows "automations_ok (automations (put_auto a' db))"
  using automations_ok_update [OF assms] by simp

lemma claim_next_automation_cases:
  assumes "claim_next_automation w n clk hex seen locked db = (Some a', db')"
  obtains a where "first_row (\<lambda>a. (at_next_tick_at a, at_conversation_id a))
      (\<lambda>a. at_enabled a \<and> at_next_tick_at a \<le> clk 0 \<and>
         (case at_lease_expires_at a of None \<Rightarrow> True | Some e \<Rightarrow> e \<le> clk 0) \<and>
         \<not> conversation_busy (at_conversation_id a) seen \<and> at_conversation_id a \<notin> set locked)
      (automations db) = Some a"
    "a' = a\<lparr>at_lease_owner := Some (take 200 w),
            at_lease_expires_at := Some (clk 0 + seconds (max 10 n)), at_last_started_at := Some (clk 0),
            at_tick_token := (case at_tick_token a of None \<Rightarrow> Some hex | Some t \<Rightarrow> Some (or_else t hex)),
            at_updated_at := clk 1\<rparr>"
    "db' = put_auto a' db"
  using assms by (auto simp: claim_next_automation_def Let_def split: option.splits)

lemma claim_next_automation_ok:
  assumes ok: "automations_ok (automations db)"
    and c: "claim_next_automation w n clk hex seen locked db = (r, db')"
  shows "automations_ok (automations db')"
proof (cases r)
  case None
  then show ?thesis using ok c by (auto simp: claim_next_automation_def Let_def split: option.splits)
next
  case (Some a')
  show ?thesis
  proof (rule claim_next_automation_cases [OF c [unfolded Some]])
    fix a
    assume f: "first_row (\<lambda>a. (at_next_tick_at a, at_conversation_id a))
      (\<lambda>a. at_enabled a \<and> at_next_tick_at a \<le> clk 0 \<and>
         (case at_lease_expires_at a of None \<Rightarrow> True | Some e \<Rightarrow> e \<le> clk 0) \<and>
         \<not> conversation_busy (at_conversation_id a) seen \<and> at_conversation_id a \<notin> set locked)
      (automations db) = Some a"
      and a': "a' = a\<lparr>at_lease_owner := Some (take 200 w),
            at_lease_expires_at := Some (clk 0 + seconds (max 10 n)), at_last_started_at := Some (clk 0),
            at_tick_token := (case at_tick_token a of None \<Rightarrow> Some hex | Some t \<Rightarrow> Some (or_else t hex)),
            at_updated_at := clk 1\<rparr>"
      and db': "db' = put_auto a' db"
    note s = first_row_SomeD(1,2) [OF f]
    have "row_by at_conversation_id (at_conversation_id a) (automations db) = Some a" "automation_ok a"
      using ok s(1) by (auto simp: automations_ok_def row_by_unique)
    then show ?thesis
      using s(2) unfolding db' by (intro put_auto_ok [OF ok, of _ a])
        (auto simp: a' automation_ok_def split: option.splits)
  qed
qed

lemma finish_automation_ok:
  assumes ok: "automations_ok (automations db)" and f: "finish_automation c w nx err clk db = Inr (u, db')"
  shows "automations_ok (automations db')"
proof -
  obtain a where a: "row_by at_conversation_id c (automations db) = Some a"
    and db': "db' = put_auto (a\<lparr>at_next_tick_at := nx, at_last_finished_at := Some (clk 0),
                    at_last_error := take 500 err, at_lease_owner := None, at_lease_expires_at := None,
                    at_tick_token := (if err = [] then None else at_tick_token a), at_updated_at := clk 1\<rparr>) db"
    using f by (auto simp: finish_automation_def split: option.splits if_splits)
  note r = automations_ok_row [OF ok a]
  show ?thesis
    using r unfolding db' by (intro put_auto_ok [OF ok, of _ a]) (auto simp: automation_ok_def)
qed

lemma heartbeat_automation_ok:
  assumes ok: "automations_ok (automations db)" and f: "heartbeat_automation c w tok n clk db = Inr (u, db')"
  shows "automations_ok (automations db')"
proof -
  obtain a where a: "row_by at_conversation_id c (automations db) = Some a" "at_lease_owner a = Some (take 200 w)"
    and db': "db' = put_auto (a\<lparr>at_lease_expires_at := Some (clk 0 + seconds (max 10 n)), at_updated_at := clk 1\<rparr>) db"
    using f by (auto simp: heartbeat_automation_def split: option.splits if_splits)
  note r = automations_ok_row [OF ok a(1)]
  show ?thesis
    using r a(2) unfolding db' by (intro put_auto_ok [OF ok, of _ a]) (auto simp: automation_ok_def)
qed

lemma revoke_automation_ok:
  assumes ok: "automations_ok (automations db)"
  shows "automations_ok (automations (revoke_automation c t u db))"
proof (cases "row_by at_conversation_id c (automations db)")
  case (Some a)
  note r = automations_ok_row [OF ok Some]
  have "automations_ok (put_row at_conversation_id (a\<lparr>at_lease_owner := None, at_lease_expires_at := None,
      at_next_tick_at := t, at_updated_at := u\<rparr>) (automations db))"
    using r by (intro automations_ok_update [OF ok, of _ a]) (auto simp: automation_ok_def)
  then show ?thesis using ok Some by (simp add: revoke_automation_def)
qed (use ok in \<open>simp add: revoke_automation_def\<close>)

lemma ingest_proactive_event_ok:
  assumes ok: "automations_ok (automations db)"
    and i: "ingest_proactive_event u c k s e p clk db = Inr (r, db')"
  shows "automations_ok (automations db')"
proof -
  consider "automations db' = automations db"
    | a where "find (\<lambda>a. at_conversation_id a = c \<and> at_user_id a = u \<and> at_enabled a \<and> at_proactive_enabled a)
        (automations db) = Some a"
      "automations db' = put_row at_conversation_id (a\<lparr>at_next_tick_at := clk 0, at_updated_at := clk 2\<rparr>) (automations db)"
    using i by (auto simp: ingest_proactive_event_def insert_inbox_def Let_def
        split: if_splits option.splits sum.splits)
  then show ?thesis
  proof cases
    case 2
    then have "a \<in> set (automations db)" by (auto simp: find_Some_iff)
    then have "row_by at_conversation_id (at_conversation_id a) (automations db) = Some a" "automation_ok a"
      using ok by (auto simp: automations_ok_def row_by_unique)
    then show ?thesis
      unfolding 2(2) by (intro automations_ok_update [OF ok, of _ a]) (auto simp: automation_ok_def)
  qed (use ok in simp)
qed

text \<open>Switching the target: the others of the user go off first.\<close>

lemma switch_off_ok [simp]:
  "automation_ok (switch_off stamp a)" "at_conversation_id (switch_off stamp a) = at_conversation_id a"
  "at_user_id (switch_off stamp a) = at_user_id a" "\<not> at_enabled (switch_off stamp a)"
  "at_lease_owner (switch_off stamp a) = None" "at_tick_token (switch_off stamp a) = None"
  by (simp_all add: switch_off_def automation_ok_def)

lemma switched_ok:
  assumes ok: "automations_ok ats"
  shows "automations_ok (map (\<lambda>a. if hit a then switch_off stamp a else a) ats)"
proof -
  let ?f = "\<lambda>a. if hit a then switch_off stamp a else a"
  have "map at_conversation_id (map ?f ats) = map at_conversation_id ats"
    by (simp cong: map_cong)
  then have "distinct (map at_conversation_id (map ?f ats))" using ok unfolding automations_ok_def by metis
  moreover have each: "automation_ok (?f a)" if "a \<in> set ats" for a
    using that ok by (simp add: automations_ok_def)
  moreover have "one_target (map ?f ats)"
  proof -
    have keep: "at_enabled (?f a) \<Longrightarrow> ?f a = a" for a by (cases "hit a") simp_all
    have old: "one_target ats" using ok by (simp add: automations_ok_def)
    have "at_conversation_id (?f a) = at_conversation_id (?f b)"
      if "a \<in> set ats" "b \<in> set ats" "at_enabled (?f a)" "at_enabled (?f b)"
        "at_user_id (?f a) = at_user_id (?f b)" for a b
      using old that keep [OF that(3)] keep [OF that(4)] unfolding one_target_def by metis
    then show ?thesis unfolding one_target_def by (simp only: set_map) blast
  qed
  moreover have "\<forall>x \<in> set (map ?f ats). automation_ok x" using each by (simp only: set_map) blast
  ultimately show ?thesis by (simp only: automations_ok_def)
qed

lemma configured_ok [simp]:
  "automation_ok (configured p d ctx now a)" "at_conversation_id (configured p d ctx now a) = at_conversation_id a"
  "at_user_id (configured p d ctx now a) = at_user_id a" "at_enabled (configured p d ctx now a) = (p \<or> d)"
  "at_lease_owner (configured p d ctx now a) = None" "at_tick_token (configured p d ctx now a) = None"
  by (simp_all add: configured_def automation_ok_def)

lemma configure_automation_cases:
  assumes "configure_automation u c p d ctx seen now stamp db = Inr (a, db')"
  obtains db1 where "\<exists>x. owned_conversation u c db = Some x"
    "db1 = (if (p \<or> d) \<and> (\<exists>a \<in> set (automations db). other_target u c seen a)
        then forget_continuity u (db\<lparr>automations := map (\<lambda>a. if other_target u c seen a
               then switch_off stamp a else a) (automations db)\<rparr>) else db)"
    "(row_by at_conversation_id c (automations db1) = None \<and>
      a = configured p d ctx now (new_automation u c now) \<and>
      db' = db1\<lparr>automations := automations db1 @ [a]\<rparr>) \<or>
     (\<exists>a0. row_by at_conversation_id c (automations db1) = Some a0 \<and>
      a = configured p d ctx now a0 \<and> db' = put_auto a db1)"
  using assms
  by (auto simp: configure_automation_def Let_def split: option.splits)

text \<open>With a current snapshot the configured automation is the only one its user has enabled.\<close>

lemma configure_automation_result:
  assumes ok: "automations_ok (automations db)" and seen: "seen = automations db"
    and c: "configure_automation u c p d ctx seen now stamp db = Inr (a, db')"
    and owner: "\<And>x. row_by at_conversation_id c (automations db) = Some x \<Longrightarrow> at_user_id x = u"
  shows "automations_ok (automations db')" and "a \<in> set (automations db')"
    and "at_conversation_id a = c" "at_user_id a = u" "at_enabled a \<longleftrightarrow> p \<or> d" "at_lease_owner a = None"
proof -
  from c obtain db1 where db1: "db1 = (if (p \<or> d) \<and> (\<exists>a \<in> set (automations db). other_target u c seen a)
        then forget_continuity u (db\<lparr>automations := map (\<lambda>a. if other_target u c seen a
               then switch_off stamp a else a) (automations db)\<rparr>) else db)"
    and res: "(row_by at_conversation_id c (automations db1) = None \<and>
      a = configured p d ctx now (new_automation u c now) \<and>
      db' = db1\<lparr>automations := automations db1 @ [a]\<rparr>) \<or>
     (\<exists>a0. row_by at_conversation_id c (automations db1) = Some a0 \<and>
      a = configured p d ctx now a0 \<and> db' = put_auto a db1)"
    by (rule configure_automation_cases)
  let ?hit = "other_target u c seen"
  have ok1: "automations_ok (automations db1)"
    using ok switched_ok [OF ok, of ?hit stamp] by (simp add: db1 forget_continuity_def)
  have on: "x \<in> set (automations db1) \<Longrightarrow> at_enabled x \<Longrightarrow> at_user_id x = u \<Longrightarrow> at_conversation_id x = c"
    if "p \<or> d" for x
  proof (rule ccontr)
    assume x: "x \<in> set (automations db1)" "at_enabled x" "at_user_id x = u" "at_conversation_id x \<noteq> c"
    have "x \<in> set (automations db) \<and> \<not> ?hit x"
      using x that by (auto simp: db1 forget_continuity_def split: if_splits)
    then show False using x seen by (auto simp: other_target_def)
  qed
  have row1: "at_user_id a0 = u \<and> at_conversation_id a0 = c"
    if a0: "row_by at_conversation_id c (automations db1) = Some a0" for a0
  proof -
    have m: "a0 \<in> set (automations db1)" "at_conversation_id a0 = c" using row_by_SomeD [OF a0] by auto
    then have "a0 \<in> set (automations db)"
      by (auto simp: db1 forget_continuity_def other_target_def split: if_splits)
    then have "row_by at_conversation_id c (automations db) = Some a0"
      using ok m(2) row_by_unique by (fastforce simp: automations_ok_def)
    then show ?thesis using owner m by simp
  qed
  have a: "automation_ok a" "at_conversation_id a = c" "at_user_id a = u" "at_enabled a \<longleftrightarrow> p \<or> d"
      "at_lease_owner a = None"
    using res row1 by (auto simp: new_automation_def)
  then show "at_conversation_id a = c" "at_user_id a = u" "at_enabled a \<longleftrightarrow> p \<or> d" "at_lease_owner a = None"
    by simp_all
  from res show "a \<in> set (automations db')"
  proof
    assume "\<exists>a0. row_by at_conversation_id c (automations db1) = Some a0 \<and>
      a = configured p d ctx now a0 \<and> db' = put_auto a db1"
    then obtain a0 where "row_by at_conversation_id c (automations db1) = Some a0" "db' = put_auto a db1"
      by blast
    moreover from this(1) have "at_conversation_id a \<in> at_conversation_id ` set (automations db1)"
      using a(2) row_by_SomeD by (metis imageI)
    ultimately show ?thesis by (simp add: put_row_mem)
  qed simp
  from res show "automations_ok (automations db')"
  proof
    assume n: "row_by at_conversation_id c (automations db1) = None \<and>
      a = configured p d ctx now (new_automation u c now) \<and>
      db' = db1\<lparr>automations := automations db1 @ [a]\<rparr>"
    then have "c \<notin> at_conversation_id ` set (automations db1)" by (simp add: row_by_None)
    moreover have "one_target (automations db1 @ [a])"
    proof (rule one_target_append)
      show "one_target (automations db1)" using ok1 by (simp add: automations_ok_def)
      fix x assume "at_enabled a" and x: "x \<in> set (automations db1)" "at_enabled x" "at_user_id x = at_user_id a"
      then have pd: "p \<or> d" using a(4) by blast
      have "at_conversation_id x = c" using x(3) a(3) by (intro on [OF pd x(1,2)]) simp
      then show "at_conversation_id x = at_conversation_id a" using a(2) by simp
    qed
    moreover have "\<forall>x \<in> set (automations db1 @ [a]). automation_ok x"
      using ok1 a(1) unfolding automations_ok_def by simp
    moreover have "distinct (map at_conversation_id (automations db1))"
      using ok1 unfolding automations_ok_def by simp
    ultimately have "automations_ok (automations db1 @ [a])"
      unfolding automations_ok_def using a(2) by simp
    then show ?thesis using n by simp
  next
    assume "\<exists>a0. row_by at_conversation_id c (automations db1) = Some a0 \<and>
      a = configured p d ctx now a0 \<and> db' = put_auto a db1"
    then have "automations db' = put_row at_conversation_id a (automations db1)" by auto
    moreover have "automations_ok (put_row at_conversation_id a (automations db1))"
    proof (rule automations_ok_put [OF ok1 a(1)])
      fix x assume "at_enabled a" and x: "x \<in> set (automations db1)" "at_enabled x" "at_user_id x = at_user_id a"
      then have pd: "p \<or> d" using a(4) by blast
      have "at_conversation_id x = c" using x(3) a(3) by (intro on [OF pd x(1,2)]) simp
      then show "at_conversation_id x = at_conversation_id a" using a(2) by simp
    qed
    ultimately show ?thesis by simp
  qed
qed

section \<open>The automation table as a leased table\<close>

definition auto_owner :: "cloud_db \<Rightarrow> uuid \<Rightarrow> pystr option" where
  "auto_owner db c = (case row_by at_conversation_id c (automations db) of None \<Rightarrow> None
     | Some a \<Rightarrow> at_lease_owner a)"

definition auto_expires :: "cloud_db \<Rightarrow> uuid \<Rightarrow> instant option" where
  "auto_expires db c = (case row_by at_conversation_id c (automations db) of None \<Rightarrow> None
     | Some a \<Rightarrow> at_lease_expires_at a)"

definition auto_claim :: "instant \<Rightarrow> pystr \<Rightarrow> cloud_db \<Rightarrow> uuid \<Rightarrow> cloud_db \<Rightarrow> bool" where
  "auto_claim now w db c db' \<longleftrightarrow> automations_ok (automations db) \<and>
     (\<exists>wid n clk hex seen locked a. now = clk 0 \<and> w = take 200 wid \<and> at_conversation_id a = c \<and>
        claim_next_automation wid n clk hex seen locked db = (Some a, db'))"

definition auto_finish :: "pystr \<Rightarrow> cloud_db \<Rightarrow> uuid \<Rightarrow> cloud_db \<Rightarrow> bool" where
  "auto_finish w db c db' \<longleftrightarrow> automations_ok (automations db) \<and>
     (\<exists>wid nx err clk. w = take 200 wid \<and> finish_automation c wid nx err clk db = Inr ((), db'))"

text \<open>Heartbeats, revocation by a passive message, and reconfiguration.\<close>

definition auto_other :: "cloud_db \<Rightarrow> cloud_db \<Rightarrow> bool" where
  "auto_other db db' \<longleftrightarrow> automations_ok (automations db) \<and>
     ((\<exists>c w tok n clk. heartbeat_automation c w tok n clk db = Inr ((), db')) \<or>
      (\<exists>c t u. automations db' = automations (revoke_automation c t u db)) \<or>
      (\<exists>u c p d ctx seen now stamp a. configure_automation u c p d ctx seen now stamp db = Inr (a, db')))"

lemma auto_owner_put:
  assumes "row_by at_conversation_id (at_conversation_id a) (automations db) = Some x"
  shows "auto_owner (put_auto a db) c = (if c = at_conversation_id a then at_lease_owner a else auto_owner db c)"
    and "auto_expires (put_auto a db) c =
      (if c = at_conversation_id a then at_lease_expires_at a else auto_expires db c)"
  using assms by (simp_all add: auto_owner_def auto_expires_def row_by_put_row)

lemma auto_claim_effect:
  assumes "auto_claim now w db c db'"
  shows "auto_owner db' c = Some w" and "\<exists>e. auto_expires db' c = Some e \<and> now < e"
    and "auto_owner db c = Some v \<Longrightarrow> \<forall>e. auto_expires db c = Some e \<longrightarrow> e \<le> now"
    and "k \<noteq> c \<Longrightarrow> auto_owner db' k = auto_owner db k"
proof -
  obtain wid n clk hex seen locked a' where ok: "automations_ok (automations db)"
    and w: "now = clk 0" "w = take 200 wid" "at_conversation_id a' = c"
    and cl: "claim_next_automation wid n clk hex seen locked db = (Some a', db')"
    using assms unfolding auto_claim_def by blast
  obtain a where f: "first_row (\<lambda>a. (at_next_tick_at a, at_conversation_id a))
      (\<lambda>a. at_enabled a \<and> at_next_tick_at a \<le> clk 0 \<and>
         (case at_lease_expires_at a of None \<Rightarrow> True | Some e \<Rightarrow> e \<le> clk 0) \<and>
         \<not> conversation_busy (at_conversation_id a) seen \<and> at_conversation_id a \<notin> set locked)
      (automations db) = Some a"
    and a': "a' = a\<lparr>at_lease_owner := Some (take 200 wid),
            at_lease_expires_at := Some (clk 0 + seconds (max 10 n)), at_last_started_at := Some (clk 0),
            at_tick_token := (case at_tick_token a of None \<Rightarrow> Some hex | Some t \<Rightarrow> Some (or_else t hex)),
            at_updated_at := clk 1\<rparr>" and db': "db' = put_auto a' db"
    using cl by (rule claim_next_automation_cases)
  note s = first_row_SomeD(1,2) [OF f]
  have id: "at_conversation_id a = c" using w(3) a' by simp
  have "row_by at_conversation_id (at_conversation_id a) (automations db) = Some a"
    using ok s(1) by (simp add: automations_ok_def row_by_unique)
  then have row: "row_by at_conversation_id (at_conversation_id a') (automations db) = Some a"
    using id w(3) by simp
  have "at_lease_owner a' = Some w" "at_lease_expires_at a' = Some (now + seconds (max 10 n))"
    by (simp_all add: a' w)
  then show "auto_owner db' c = Some w" "\<exists>e. auto_expires db' c = Some e \<and> now < e"
    and "k \<noteq> c \<Longrightarrow> auto_owner db' k = auto_owner db k"
    using auto_owner_put [OF row] w(3) by (simp_all add: db' seconds_def)
  have "auto_expires db c = at_lease_expires_at a" using row w(3) by (simp add: auto_expires_def)
  then show "auto_owner db c = Some v \<Longrightarrow> \<forall>e. auto_expires db c = Some e \<longrightarrow> e \<le> now"
    using s(2) w(1) by auto
qed

lemma auto_finish_effect:
  assumes "auto_finish w db c db'"
  shows "auto_owner db c = Some w" and "auto_owner db' c = None"
    and "k \<noteq> c \<Longrightarrow> auto_owner db' k = auto_owner db k"
proof -
  obtain wid nx err clk where w: "w = take 200 wid"
    and f: "finish_automation c wid nx err clk db = Inr ((), db')"
    using assms by (auto simp: auto_finish_def)
  obtain a where a: "row_by at_conversation_id c (automations db) = Some a" "at_lease_owner a = Some w"
    and db': "db' = put_auto (a\<lparr>at_next_tick_at := nx, at_last_finished_at := Some (clk 0),
                    at_last_error := take 500 err, at_lease_owner := None, at_lease_expires_at := None,
                    at_tick_token := (if err = [] then None else at_tick_token a), at_updated_at := clk 1\<rparr>) db"
    using f w by (auto simp: finish_automation_def split: option.splits if_splits)
  define a' where "a' = a\<lparr>at_next_tick_at := nx, at_last_finished_at := Some (clk 0),
                    at_last_error := take 500 err, at_lease_owner := None, at_lease_expires_at := None,
                    at_tick_token := (if err = [] then None else at_tick_token a), at_updated_at := clk 1\<rparr>"
  have a': "at_conversation_id a' = at_conversation_id a" "at_lease_owner a' = None" "db' = put_auto a' db"
    using db' by (simp_all add: a'_def)
  have id: "at_conversation_id a = c" using row_by_SomeD [OF a(1)] by simp
  have row: "row_by at_conversation_id (at_conversation_id a') (automations db) = Some a" using a(1) a'(1) id by simp
  show "auto_owner db c = Some w" using a by (simp add: auto_owner_def)
  show "auto_owner db' c = None" "k \<noteq> c \<Longrightarrow> auto_owner db' k = auto_owner db k"
    unfolding a'(3) auto_owner_put(1) [OF row] using a'(1,2) id by simp_all
qed

lemma row_by_switched:
  "row_by at_conversation_id c (map (\<lambda>a. if hit a then switch_off stamp a else a) ats) =
   map_option (\<lambda>a. if hit a then switch_off stamp a else a) (row_by at_conversation_id c ats)"
  by (induction ats) auto

lemma auto_other_effect:
  assumes "auto_other db db'" and owned: "auto_owner db' k = Some v"
  shows "auto_owner db k = Some v"
proof -
  have ok: "automations_ok (automations db)" using assms(1) by (simp add: auto_other_def)
  consider (hb) c w tok n clk where "heartbeat_automation c w tok n clk db = Inr ((), db')"
    | (rv) c t u where "automations db' = automations (revoke_automation c t u db)"
    | (cf) u c p d ctx seen now stamp a where "configure_automation u c p d ctx seen now stamp db = Inr (a, db')"
    using assms(1) unfolding auto_other_def by blast
  then show ?thesis
  proof cases
    case hb
    then obtain a where a: "row_by at_conversation_id c (automations db) = Some a"
      and e: "db' = put_auto (a\<lparr>at_lease_expires_at := Some (clk 0 + seconds (max 10 n)), at_updated_at := clk 1\<rparr>) db"
      by (auto simp: heartbeat_automation_def split: option.splits if_splits)
    have "at_conversation_id a = c" using row_by_SomeD [OF a] by simp
    then show ?thesis
      using owned auto_owner_put(1) [of "a\<lparr>at_lease_expires_at := Some (clk 0 + seconds (max 10 n)),
        at_updated_at := clk 1\<rparr>" db a k] a e by (auto simp: auto_owner_def split: if_splits)
  next
    case rv
    show ?thesis
      using owned rv by (auto simp: auto_owner_def revoke_automation_def row_by_put_row
          split: option.splits if_splits dest: row_by_SomeD)
  next
    case cf
    then show ?thesis
    proof (rule configure_automation_cases)
      fix db1
      assume db1: "db1 = (if (p \<or> d) \<and> (\<exists>a \<in> set (automations db). other_target u c seen a)
        then forget_continuity u (db\<lparr>automations := map (\<lambda>a. if other_target u c seen a
               then switch_off stamp a else a) (automations db)\<rparr>) else db)"
        and res: "(row_by at_conversation_id c (automations db1) = None \<and>
          a = configured p d ctx now (new_automation u c now) \<and>
          db' = db1\<lparr>automations := automations db1 @ [a]\<rparr>) \<or>
         (\<exists>a0. row_by at_conversation_id c (automations db1) = Some a0 \<and>
          a = configured p d ctx now a0 \<and> db' = put_auto a db1)"
      have le: "auto_owner db1 k = Some v \<Longrightarrow> auto_owner db k = Some v"
        by (auto simp: db1 auto_owner_def forget_continuity_def row_by_switched
            split: if_splits option.splits)
      have "auto_owner db1 k = Some v"
        using res owned
        by (auto simp: auto_owner_def row_by_append row_by_put_row split: option.splits if_splits)
      then show ?thesis by (rule le)
    qed
  qed
qed

interpretation aq: leased_table auto_owner auto_expires auto_claim auto_finish auto_other
proof
  fix now w s i s' j v
  show "auto_claim now w s i s' \<Longrightarrow> auto_owner s' i = Some w"
    by (rule auto_claim_effect(1))
  show "auto_claim now w s i s' \<Longrightarrow> \<exists>e. auto_expires s' i = Some e \<and> now < e"
    by (rule auto_claim_effect(2))
  show "auto_claim now w s i s' \<Longrightarrow> auto_owner s i = Some v \<Longrightarrow>
      \<forall>e. auto_expires s i = Some e \<longrightarrow> e \<le> now"
    by (rule auto_claim_effect(3))
  show "auto_claim now w s i s' \<Longrightarrow> j \<noteq> i \<Longrightarrow> auto_owner s' j = Some v \<Longrightarrow> auto_owner s j = Some v"
    by (simp add: auto_claim_effect(4))
  show "auto_finish w s i s' \<Longrightarrow> auto_owner s i = Some w"
    by (rule auto_finish_effect(1))
  show "auto_finish w s i s' \<Longrightarrow> auto_owner s' i = None"
    by (rule auto_finish_effect(2))
  show "auto_finish w s i s' \<Longrightarrow> j \<noteq> i \<Longrightarrow> auto_owner s' j = Some v \<Longrightarrow> auto_owner s j = Some v"
    by (simp add: auto_finish_effect(3))
  show "auto_other s s' \<Longrightarrow> auto_owner s' j = Some v \<Longrightarrow> auto_owner s j = Some v"
    by (rule auto_other_effect)
qed

end
