(* ===== verification/AutomationTheorems.thy ===== *)
theory AutomationTheorems
  imports CloudAutomation CloudSample
begin

text \<open>
  The properties of the automation of a conversation: one enabled target per user, the race in which two
  configurations each miss the other, and the inbox of external events, whose identifiers do not fit
  their column.
\<close>

section \<open>The inbox\<close>

lemma event_identity_long: "event_identity c s e = Some i \<Longrightarrow> length i = 70"
  by (auto simp: event_identity_def lit_def dest!: sha256_text_length)

lemma inbox_insert_long: "length (bx_id b) = 70 \<Longrightarrow> insert_inbox b db = Inl DataError"
  by (simp add: insert_inbox_def inbox_fits_def)

text \<open>no proactive event is ever accepted: the identifier of an event has 70 characters and the
  column holds 64, so with an inbox whose rows fit their columns every call is refused, and a call whose
  arguments are valid and whose automation is enabled with \<open>DataError\<close>.\<close>

theorem proactive_event_refused:
  assumes fits: "\<forall>b \<in> set (inbox db). inbox_fits b"
  shows "(\<nexists>r. ingest_proactive_event u c k s e p clk db = Inr r) \<and>
    (k \<in> {lit ''alert'', lit ''content''} \<and> strip s \<noteq> [] \<and> strip e \<noteq> [] \<and>
     event_identity c (strip s) (strip e) \<noteq> None \<and>
     (\<exists>a \<in> set (automations db). at_conversation_id a = c \<and> at_user_id a = u \<and> at_enabled a \<and> at_proactive_enabled a) \<longrightarrow>
     ingest_proactive_event u c k s e p clk db = Inl DataError)"
proof -
  have absent: "row_by bx_id i (inbox db) = None" if "length i = 70" for i
  proof (cases "row_by bx_id i (inbox db)")
    case (Some b)
    then have "b \<in> set (inbox db)" "bx_id b = i" using row_by_SomeD [OF Some] by auto
    then show ?thesis using fits that by (auto simp: inbox_fits_def)
  qed
  have refused: "ingest_proactive_event u c k s e p clk db = Inl DataError"
    if "k = lit ''alert'' \<or> k = lit ''content''" "strip s \<noteq> []" "strip e \<noteq> []"
      "event_identity c (strip s) (strip e) = Some i"
      "find (\<lambda>a. at_conversation_id a = c \<and> at_user_id a = u \<and> at_enabled a \<and> at_proactive_enabled a)
        (automations db) = Some a" for i a
  proof -
    have n: "length i = 70" by (rule event_identity_long [OF that(4)])
    have ins: "insert_inbox b db = Inl DataError" if "bx_id b = i" for b
      using that n by (simp add: inbox_insert_long)
    show ?thesis using that absent [OF n] by (auto simp: ingest_proactive_event_def Let_def ins)
  qed
  have "\<exists>er. ingest_proactive_event u c k s e p clk db = Inl er"
  proof (cases "(k = lit ''alert'' \<or> k = lit ''content'') \<and> strip s \<noteq> [] \<and> strip e \<noteq> []")
    case False
    then show ?thesis by (auto simp: ingest_proactive_event_def Let_def)
  next
    case True
    then show ?thesis
      using refused by (cases "event_identity c (strip s) (strip e)"; cases "find (\<lambda>a. at_conversation_id a = c \<and>
          at_user_id a = u \<and> at_enabled a \<and> at_proactive_enabled a) (automations db)")
        (auto simp: ingest_proactive_event_def Let_def)
  qed
  then have "ingest_proactive_event u c k s e p clk db \<noteq> Inr r" for r by auto
  moreover have "\<exists>a. find (\<lambda>a. at_conversation_id a = c \<and> at_user_id a = u \<and> at_enabled a \<and> at_proactive_enabled a)
        (automations db) = Some a"
    if "\<exists>a \<in> set (automations db). at_conversation_id a = c \<and> at_user_id a = u \<and> at_enabled a \<and> at_proactive_enabled a"
  proof (rule ccontr)
    assume "\<not> ?thesis"
    then show False using that by (auto simp: find_None_iff)
  qed
  ultimately show ?thesis using refused by blast
qed

section \<open>One target per user\<close>

text \<open>configuring an automation, with a query that reads the committed table, leaves at most one
  enabled automation of every user; when it is switched on it is the only one of its user, no worker
  keeps a lease on an automation that went off, and a change of target forgets what was unread.\<close>

theorem automation_single_target:
  assumes "automations_ok (automations db)"
    and "configure_automation u c p d ctx (automations db) now stamp db = Inr (a, db')"
    and "\<And>x. row_by at_conversation_id c (automations db) = Some x \<Longrightarrow> at_user_id x = u"
  shows "automations_ok (automations db') \<and> at_enabled a = (p \<or> d) \<and>
    (p \<or> d \<longrightarrow> {x \<in> set (automations db'). at_user_id x = u \<and> at_enabled x} = {a})"
proof -
  note r = configure_automation_result [OF assms(1) refl assms(2,3)]
  have "x = a" if "x \<in> set (automations db')" "at_user_id x = u" "at_enabled x" "p \<or> d" for x
  proof -
    have "one_target (automations db')" "distinct (map at_conversation_id (automations db'))"
      using r(1) by (simp_all add: automations_ok_def)
    moreover have "at_enabled a" using r(5) that(4) by simp
    ultimately have "at_conversation_id x = at_conversation_id a"
      using r(2,4) that(1-3) unfolding one_target_def by metis
    then show ?thesis using \<open>distinct (map at_conversation_id (automations db'))\<close> r(2) that(1)
      by (auto simp: distinct_map inj_on_def)
  qed
  then have "p \<or> d \<Longrightarrow> {x \<in> set (automations db'). at_user_id x = u \<and> at_enabled x} = {a}"
    using r(2,4,5) by blast
  then show ?thesis using r(1,5) by blast
qed

text \<open>Two configurations of different conversations of one user whose queries both read the table before
  the other committed: they lock different rows, and both automations are enabled.\<close>

lemma automation_two_targets:
  assumes none: "\<forall>x \<in> set (automations db). at_user_id x \<noteq> u \<and> at_conversation_id x \<noteq> c1 \<and> at_conversation_id x \<noteq> c2"
    and c: "c1 \<noteq> c2" "owned_conversation u c1 db = Some v1" "owned_conversation u c2 db = Some v2"
  shows "\<exists>a1 db1 a2 db2.
    configure_automation u c1 True False ctx1 (automations db) t1 stamp1 db = Inr (a1, db1) \<and>
    configure_automation u c2 True False ctx2 (automations db) t2 stamp2 db1 = Inr (a2, db2) \<and>
    a1 \<in> set (automations db2) \<and> a2 \<in> set (automations db2) \<and> at_enabled a1 \<and> at_enabled a2 \<and>
    at_user_id a1 = at_user_id a2 \<and> at_conversation_id a1 \<noteq> at_conversation_id a2"
proof -
  have row: "row_by at_conversation_id ci (automations db) = None" if "ci = c1 \<or> ci = c2" for ci
    using none that by (auto simp: row_by_None)
  have hit1: "\<not> (\<exists>a \<in> set (automations db). other_target u c1 (automations db) a)"
    using none by (auto simp: other_target_def)
  let ?a1 = "configured True False ctx1 t1 (new_automation u c1 t1)"
  let ?db1 = "db\<lparr>automations := automations db @ [?a1]\<rparr>"
  have s1: "configure_automation u c1 True False ctx1 (automations db) t1 stamp1 db = Inr (?a1, ?db1)"
    using c(2) row [of c1] hit1 by (simp add: configure_automation_def Let_def)
  have hit2: "\<not> (\<exists>a \<in> set (automations ?db1). other_target u c2 (automations db) a)"
    using none by (auto simp: other_target_def new_automation_def configured_def)
  let ?a2 = "configured True False ctx2 t2 (new_automation u c2 t2)"
  have "row_by at_conversation_id c2 (automations ?db1) = None"
    using none c(1) by (auto simp: row_by_None new_automation_def)
  then have s2: "configure_automation u c2 True False ctx2 (automations db) t2 stamp2 ?db1 =
      Inr (?a2, ?db1\<lparr>automations := automations ?db1 @ [?a2]\<rparr>)"
    using c(3) hit2 by (simp add: configure_automation_def Let_def owned_conversation_def)
  show ?thesis
    by (intro exI conjI, rule s1, rule s2) (use c(1) in \<open>simp_all add: new_automation_def\<close>)
qed

section \<open>Applications\<close>

definition wit_auto :: automation_row where
  "wit_auto = configured True False [] 0 (new_automation [1] [2] 0)"

definition wit_auto_db :: cloud_db where
  "wit_auto_db = (sm_db [])\<lparr>automations := [wit_auto]\<rparr>"

lemma wit_auto_ok: "automations_ok (automations wit_auto_db)"
  by (simp add: wit_auto_db_def wit_auto_def automations_ok_def one_target_def)

theorem proactive_event_refused_witness:
  "\<nexists>r. ingest_proactive_event [1] [2] (lit ''alert'') [115] [101] [] (\<lambda>_. 0) wit_auto_db = Inr r"
proof -
  have "\<forall>b \<in> set (inbox wit_auto_db). inbox_fits b" by (simp add: wit_auto_db_def sm_db_def empty_db_def)
  then show ?thesis by (rule proactive_event_refused [THEN conjunct1])
qed

theorem automation_single_target_witness:
  "\<exists>a db'. configure_automation [1] [2] True True [] (automations wit_auto_db) 5 (\<lambda>_. 5) wit_auto_db = Inr (a, db') \<and>
    {x \<in> set (automations db'). at_user_id x = [1] \<and> at_enabled x} = {a}"
proof -
  obtain a db' where c: "configure_automation [1] [2] True True [] (automations wit_auto_db) 5 (\<lambda>_. 5) wit_auto_db = Inr (a, db')"
    by (simp add: configure_automation_def Let_def wit_auto_db_def owned_conversation_def sm_conv_def
        other_target_def row_by_def wit_auto_def new_automation_def)
  have "at_user_id x = [1]" if "row_by at_conversation_id [2] (automations wit_auto_db) = Some x" for x
    using that by (auto simp: wit_auto_db_def wit_auto_def new_automation_def row_by_def split: if_splits)
  from automation_single_target [OF wit_auto_ok c this] c show ?thesis by blast
qed

end
