(* ===== verification/ScheduleWorker.thy ===== *)
theory ScheduleWorker
  imports CloudSchedule
begin

text \<open>
  \<open>src/cloud/scheduler.py\<close> and the parsing it takes from \<open>src/agent/scheduler.py\<close>: what a
  request becomes before it is stored, and one turn of the schedule worker, a sequence of
  transactions between which other processes may change the database.
\<close>

section \<open>Durations and cron texts\<close>

text \<open>
  One group \<open>(?:(\d+)u)?\<close> of the duration pattern.  The units differ, so a group that can
  match must: skipping it leaves a digit run no later group accepts.
\<close>

definition take_unit :: "char \<Rightarrow> pystr \<Rightarrow> pystr option \<times> pystr" where
  "take_unit u s =
     (let ds = takeWhile is_digit s; rest = dropWhile is_digit s
      in case rest of
           [] \<Rightarrow> (None, s)
         | c # cs \<Rightarrow> if ds \<noteq> [] \<and> c = of_char u then (Some ds, cs) else (None, s))"

definition unit_value :: "pystr option \<Rightarrow> int res" where
  "unit_value g =
     (case g of None \<Rightarrow> Inr 0
      | Some ds \<Rightarrow>
          if 4300 < length ds
          then Inl (ValueError (lit ''Exceeds the limit for integer string conversion''))
          else Inr (digits_value ds))"

text \<open>A \<open>timedelta\<close> of whole seconds; more than 999999999 days raise \<open>OverflowError\<close>.\<close>

definition timedelta_seconds :: "int \<Rightarrow> int res" where
  "timedelta_seconds n =
     (if n div 86400 < - 999999999 \<or> 999999999 < n div 86400
      then Inl (OverflowError (lit ''days out of range'')) else Inr n)"

definition parse_duration :: "pystr \<Rightarrow> int res" where
  "parse_duration v =
     (let (d, s1) = take_unit (CHR ''d'') (strip v);
          (h, s2) = take_unit (CHR ''h'') s1;
          (m, s3) = take_unit (CHR ''m'') s2;
          (s, s4) = take_unit (CHR ''s'') s3
      in if s4 \<noteq> [] \<or> (d = None \<and> h = None \<and> m = None \<and> s = None)
         then Inl (ValueError (lit ''invalid duration; examples: 30s, 5m, 2h, 1h30m''))
         else
           (case unit_value d of Inl e \<Rightarrow> Inl e | Inr days \<Rightarrow>
             (case unit_value h of Inl e \<Rightarrow> Inl e | Inr hours \<Rightarrow>
               (case unit_value m of Inl e \<Rightarrow> Inl e | Inr minutes \<Rightarrow>
                 (case unit_value s of Inl e \<Rightarrow> Inl e | Inr secs \<Rightarrow>
                   timedelta_seconds (((days * 24 + hours) * 60 + minutes) * 60 + secs))))))"

definition is_cron_expr :: "pystr \<Rightarrow> bool" where
  "is_cron_expr v \<longleftrightarrow> length (py_split (strip v)) = 5 \<or> length (py_split (strip v)) = 6"

section \<open>Creating a schedule\<close>

text \<open>
  What the parsing takes from the time-zone database, \<open>datetime.fromisoformat\<close> and apscheduler:
  whether a zone exists, \<open>parse_when_at\<close>, the base time of a request, and the next cron fire.
\<close>

record sched_env =
  se_zone :: "pystr \<Rightarrow> bool"
  se_when_at :: "pystr \<Rightarrow> pystr \<Rightarrow> instant res"
  se_request :: "pystr \<Rightarrow> pystr \<Rightarrow> instant res"
  se_cron :: "pystr \<Rightarrow> pystr \<Rightarrow> instant \<Rightarrow> instant res"

type_synonym resolved = "instant \<times> job_trigger \<times> int \<times> int \<times> pystr"

definition resolve_every ::
  "sched_env \<Rightarrow> pystr \<Rightarrow> pystr \<Rightarrow> int \<Rightarrow> clock \<Rightarrow> resolved res" where
  "resolve_every env tz when interval clk =
     (if is_cron_expr when then
        (case se_cron env (strip when) tz (clk 0) of
           Inl e \<Rightarrow> Inl e
         | Inr t \<Rightarrow> Inr (t, TrigEvery, interval, - 1, strip when))
      else
        (case parse_duration when of
           Inl e \<Rightarrow> Inl e
         | Inr n \<Rightarrow>
             if n \<le> 0 then Inl (ValueError (lit ''every interval must be positive''))
             else (case datetime_add (clk 0) (seconds n) of
                     Inl e \<Rightarrow> Inl e
                   | Inr t \<Rightarrow> Inr (t, TrigEvery, n, - 1, []))))"

definition resolve_trigger ::
  "sched_env \<Rightarrow> pystr \<Rightarrow> pystr \<Rightarrow> pystr \<Rightarrow> pystr \<Rightarrow> int \<Rightarrow> int \<Rightarrow> int \<Rightarrow> pystr \<Rightarrow> clock \<Rightarrow>
   resolved res" where
  "resolve_trigger env tz trig when run_at delay_seconds interval repeats request_time clk =
     (if trig \<noteq> [] then
        (if trig \<noteq> lit ''at'' \<and> trig \<noteq> lit ''after'' \<and> trig \<noteq> lit ''every''
         then Inl (ValueError (lit ''trigger must be at, after, or every''))
         else if strip when = [] then Inl (ValueError (lit ''when is required with trigger''))
         else if trig = lit ''at'' then
           (case se_when_at env when tz of
              Inl e \<Rightarrow> Inl e | Inr t \<Rightarrow> Inr (t, TrigAt, interval, repeats, []))
         else if trig = lit ''after'' then
           (case (if request_time \<noteq> [] then se_request env request_time tz else Inr (clk 0)) of
              Inl e \<Rightarrow> Inl e
            | Inr base \<Rightarrow>
                (case parse_duration when of
                   Inl e \<Rightarrow> Inl e
                 | Inr n \<Rightarrow>
                     (case datetime_add base (seconds n) of
                        Inl e \<Rightarrow> Inl e
                      | Inr t \<Rightarrow> Inr (t, TrigAfter, interval, repeats, []))))
         else resolve_every env tz when interval clk)
      else if run_at \<noteq> [] then
        (case se_when_at env run_at tz of
           Inl e \<Rightarrow> Inl e | Inr t \<Rightarrow> Inr (t, TrigAt, interval, repeats, []))
      else if 0 < delay_seconds then
        (case timedelta_seconds delay_seconds of
           Inl e \<Rightarrow> Inl e
         | Inr n \<Rightarrow>
             (case datetime_add (clk 0) (seconds n) of
                Inl e \<Rightarrow> Inl e
              | Inr t \<Rightarrow> Inr (t, TrigAfter, interval, repeats, [])))
      else Inl (ValueError (lit ''provide trigger/when, run_at, or a positive delay_seconds'')))"

definition create_cloud_schedule ::
  "sched_env \<Rightarrow> uuid \<Rightarrow> uuid \<Rightarrow> pystr \<Rightarrow> pystr \<Rightarrow> int \<Rightarrow> int \<Rightarrow> int \<Rightarrow> pystr \<Rightarrow> pystr \<Rightarrow> pystr \<Rightarrow>
   pystr \<Rightarrow> pystr \<Rightarrow> pystr \<Rightarrow> pystr \<Rightarrow> pystr \<Rightarrow> job_row list \<Rightarrow> clock \<Rightarrow> cloud_db \<Rightarrow>
   (job_row \<times> cloud_db) res" where
  "create_cloud_schedule env user_id conversation_id message run_at delay_seconds
       interval_seconds repeat_count tier trigger when prompt timezone name request_time
       hex seen clk db =
     (let tier' = ascii_lower (strip tier);
          message' = strip message;
          prompt' = strip prompt;
          tz = or_else (strip timezone) (lit ''UTC'');
          interval = max 0 interval_seconds;
          repeats = max 1 (min 1000 repeat_count)
      in if tier' \<noteq> lit ''instant'' \<and> tier' \<noteq> lit ''soft''
         then Inl (ValueError (lit ''tier must be instant or soft''))
         else if tier' = lit ''instant'' \<and> message' = []
         then Inl (ValueError (lit ''message is required for tier=instant''))
         else if tier' = lit ''soft'' \<and> prompt' = []
         then Inl (ValueError (lit ''prompt is required for tier=soft''))
         else if \<not> se_zone env tz then Inl (ValueError (lit ''invalid timezone: '' @ tz))
         else
           (case resolve_trigger env tz (ascii_lower (strip trigger)) when run_at delay_seconds
                   interval repeats request_time clk of
              Inl e \<Rightarrow> Inl e
            | Inr (scheduled_at, trig, ival, reps, cron_expr) \<Rightarrow>
                if scheduled_at \<le> clk 1
                then Inl (ValueError (lit ''scheduled time must be in the future''))
                else if trig \<noteq> TrigEvery \<and> 1 < reps \<and> ival \<le> 0
                then Inl (ValueError
                       (lit ''interval_seconds is required when repeat_count > 1''))
                else create_scheduled_job user_id conversation_id message' prompt' scheduled_at
                       ival reps (if tier' = lit ''instant'' then TierInstant else TierSoft)
                       trig cron_expr tz (strip name) hex seen (\<lambda>i. clk (2 + i)) db))"

section \<open>One turn of the worker\<close>

definition next_run ::
  "(pystr \<Rightarrow> pystr \<Rightarrow> instant \<Rightarrow> instant res) \<Rightarrow> instant \<Rightarrow> job_row \<Rightarrow> instant option res option" where
  "next_run cron now j =
     (if jb_trigger j = TrigEvery \<and> jb_cron_expr j \<noteq> [] then
        (case cron (jb_cron_expr j) (jb_timezone j) (max (jb_run_at j) now) of
           Inl e \<Rightarrow> Some (Inl e)
         | Inr t \<Rightarrow> Some (Inr (Some t)))
      else if (jb_trigger j = TrigEvery \<or> 1 < jb_remaining_runs j) \<and> 0 < jb_interval_seconds j
      then (case catch_up now (jb_run_at j + seconds (jb_interval_seconds j))
                     (seconds (jb_interval_seconds j)) of
              None \<Rightarrow> None
            | Some (Inl e) \<Rightarrow> Some (Inl e)
            | Some (Inr t) \<Rightarrow> Some (Inr (Some t)))
      else Some (Inr None))"

fun contains :: "pystr \<Rightarrow> pystr \<Rightarrow> bool" where
  "contains p [] = (p = [])"
| "contains p (c # cs) = (take (length p) (c # cs) = p \<or> contains p cs)"

text \<open>
  \<open>env 0\<close> and \<open>env 1\<close> are what other processes commit between the claim, the delivery and the
  settling transaction; \<open>summary\<close> is \<open>safe_exception_summary\<close>.  An exception that leaves the
  function keeps what was committed before; \<open>None\<close> is a turn that never returns.
\<close>

record fire_env =
  fe_env :: "nat \<Rightarrow> cloud_db \<Rightarrow> cloud_db"
  fe_clk :: clock
  fe_stamp :: "pystr \<Rightarrow> instant"
  fe_hex :: pystr
  fe_locked1 :: "pystr list"
  fe_locked2 :: "pystr list"
  fe_mid :: uuid
  fe_rid :: uuid
  fe_seen :: "cloud_db \<Rightarrow> run_row list"

definition settle_error ::
  "(py_error \<Rightarrow> pystr) \<Rightarrow> job_row \<Rightarrow> pystr \<Rightarrow> pystr \<Rightarrow> py_error \<Rightarrow> clock \<Rightarrow> cloud_db \<Rightarrow>
   bool res \<times> cloud_db" where
  "settle_error summary j wid token e clk db =
     (case (case e of
              StoreStateError msg \<Rightarrow>
                if contains (lit ''active passive Run'') msg
                then finish_scheduled_job (jb_id j) wid token JobPending (jb_remaining_runs j)
                       (Some (clk 0 + seconds 5)) msg (clk 1) db
                else finish_scheduled_job (jb_id j) wid token JobFailed (jb_remaining_runs j)
                       None (summary e) (clk 0) db
            | _ \<Rightarrow> finish_scheduled_job (jb_id j) wid token JobFailed (jb_remaining_runs j)
                     None (summary e) (clk 0) db) of
        Inl e' \<Rightarrow> (Inl e', db)
      | Inr (_, db') \<Rightarrow> (Inr True, db'))"

definition schedule_run_once ::
  "(pystr \<Rightarrow> pystr \<Rightarrow> instant \<Rightarrow> instant res) \<Rightarrow> (py_error \<Rightarrow> pystr) \<Rightarrow> pystr \<Rightarrow> int \<Rightarrow> fire_env \<Rightarrow>
   cloud_db \<Rightarrow> (bool res \<times> cloud_db) option" where
  "schedule_run_once cron summary worker_id lease_seconds fe db =
     (let wid = take 200 worker_id;
          clk = fe_clk fe
      in case claim_next_scheduled_job cron wid (max 10 lease_seconds) (clk 0) (fe_stamp fe)
                (fe_hex fe) (fe_locked1 fe) (fe_locked2 fe) db of
        None \<Rightarrow> None
      | Some (Inl e) \<Rightarrow> Some (Inl e, db)
      | Some (Inr (None, db1)) \<Rightarrow> Some (Inr False, db1)
      | Some (Inr (Some j, db1)) \<Rightarrow>
          (let token = (case jb_fire_token j of None \<Rightarrow> [] | Some t \<Rightarrow> t);
               db1' = fe_env fe 0 db1
           in case deliver_scheduled_job (jb_id j) wid token (fe_seen fe db1') (fe_mid fe)
                     (fe_rid fe) (\<lambda>i. clk (4 + i)) db1' of
                Inl e \<Rightarrow>
                  Some (settle_error summary j wid token e (\<lambda>i. clk (2 + i)) (fe_env fe 1 db1'))
              | Inr (d, db2) \<Rightarrow>
                  (let remaining = (if 0 < jb_remaining_runs j then jb_remaining_runs j - 1
                                    else jb_remaining_runs j);
                       db2' = fe_env fe 1 db2
                   in case next_run cron (clk 1) j of
                        None \<Rightarrow> None
                      | Some (Inl e) \<Rightarrow>
                          Some (settle_error summary j wid token e (\<lambda>i. clk (2 + i)) db2')
                      | Some (Inr next_at) \<Rightarrow>
                          (case finish_scheduled_job (jb_id j) wid token
                                  (if next_at \<noteq> None \<and> remaining \<noteq> 0 then JobPending
                                   else JobCompleted)
                                  remaining next_at [] (clk 2) db2' of
                             Inl e \<Rightarrow>
                               Some (settle_error summary j wid token e (\<lambda>i. clk (2 + i)) db2')
                           | Inr (_, db3) \<Rightarrow> Some (Inr True, db3)))))"

section \<open>What a request becomes\<close>

lemma unit_value_nonneg: "unit_value g = Inr n \<Longrightarrow> 0 \<le> n"
  by (auto simp: unit_value_def digits_value_nonneg split: option.splits if_splits)

lemma parse_duration_nonneg:
  assumes "parse_duration v = Inr n" shows "0 \<le> n"
proof -
  obtain d s1 h s2 m s3 s s4 where t: "take_unit (CHR ''d'') (strip v) = (d, s1)"
      "take_unit (CHR ''h'') s1 = (h, s2)" "take_unit (CHR ''m'') s2 = (m, s3)"
      "take_unit (CHR ''s'') s3 = (s, s4)"
    by (metis surj_pair)
  then obtain a b c e where u: "unit_value d = Inr a" "unit_value h = Inr b" "unit_value m = Inr c"
      "unit_value s = Inr e" and r: "timedelta_seconds (((a * 24 + b) * 60 + c) * 60 + e) = Inr n"
    using assms by (auto simp: parse_duration_def split: if_splits sum.splits)
  then have "n = ((a * 24 + b) * 60 + c) * 60 + e"
    by (auto simp: timedelta_seconds_def split: if_splits)
  moreover have "0 \<le> a" "0 \<le> b" "0 \<le> c" "0 \<le> e" using u unit_value_nonneg by blast+
  ultimately show ?thesis by simp
qed

lemma split_words_blank: "\<forall>c \<in> set s. py_space c \<Longrightarrow> split_words [] s = []"
  by (induction s) auto

lemma cron_text_nonempty: "is_cron_expr v \<Longrightarrow> strip v \<noteq> []"
  by (auto simp: is_cron_expr_def py_split_def)

lemma resolve_trigger_every:
  assumes "resolve_trigger env tz trig when ra ds iv reps rq clk = Inr (t, TrigEvery, iv', reps', cr)"
  shows "cr = [] \<Longrightarrow> 0 < iv'"
proof -
  have "resolve_every env tz when iv clk = Inr (t, TrigEvery, iv', reps', cr)"
    using assms by (auto simp: resolve_trigger_def split: if_splits sum.splits)
  then show "cr = [] \<Longrightarrow> 0 < iv'"
    using cron_text_nonempty by (auto simp: resolve_every_def split: if_splits sum.splits)
qed

text \<open>A stored schedule lies in the future, and repeats only if it has a positive step or a cron text.\<close>

lemma create_cloud_schedule_cases:
  assumes "create_cloud_schedule env u cid msg ra ds iv rc tier trig when pr tzn nm rq hex seen clk db
    = Inr (j, db')"
  obtains t tg iv' reps cr where
    "clk 1 < t" "tg = TrigEvery \<Longrightarrow> cr = [] \<Longrightarrow> 0 < iv'"
    "tg \<noteq> TrigEvery \<Longrightarrow> 1 < reps \<Longrightarrow> 0 < iv'"
    "create_scheduled_job u cid (strip msg) (strip pr) t iv' reps
       (if ascii_lower (strip tier) = lit ''instant'' then TierInstant else TierSoft)
       tg cr (or_else (strip tzn) (lit ''UTC'')) (strip nm) hex seen (\<lambda>i. clk (2 + i)) db = Inr (j, db')"
proof -
  obtain t tg iv' reps cr where r: "resolve_trigger env (or_else (strip tzn) (lit ''UTC''))
      (ascii_lower (strip trig)) when ra ds (max 0 iv) (max 1 (min 1000 rc)) rq clk = Inr (t, tg, iv', reps, cr)"
    using assms by (auto simp: create_cloud_schedule_def Let_def split: if_splits sum.splits)
  then have "clk 1 < t \<and> (tg \<noteq> TrigEvery \<longrightarrow> 1 < reps \<longrightarrow> 0 < iv') \<and>
    create_scheduled_job u cid (strip msg) (strip pr) t iv' reps
       (if ascii_lower (strip tier) = lit ''instant'' then TierInstant else TierSoft)
       tg cr (or_else (strip tzn) (lit ''UTC'')) (strip nm) hex seen (\<lambda>i. clk (2 + i)) db = Inr (j, db')"
    using assms by (auto simp: create_cloud_schedule_def Let_def not_le split: if_splits)
  moreover have "tg = TrigEvery \<Longrightarrow> cr = [] \<Longrightarrow> 0 < iv'" using r resolve_trigger_every by blast
  ultimately show ?thesis using that by blast
qed

lemma create_cloud_schedule_ok:
  assumes ok: "schedule_ok db"
    and c: "create_cloud_schedule env u cid msg ra ds iv rc tier trig when pr tzn nm rq hex (jobs db) clk db
      = Inr (j, db')"
  shows "schedule_ok db'" "clk 1 < jb_run_at j" "jb_status j = JobPending" "j \<in> set (jobs db')"
    "jb_user_id j = u"
    "1 < jb_remaining_runs j \<or> jb_trigger j = TrigEvery \<Longrightarrow> jb_cron_expr j \<noteq> [] \<or> 0 < jb_interval_seconds j"
proof -
  obtain t tg iv' reps cr where t: "clk 1 < t" and e: "tg = TrigEvery \<Longrightarrow> cr = [] \<Longrightarrow> 0 < iv'"
    and n: "tg \<noteq> TrigEvery \<Longrightarrow> 1 < reps \<Longrightarrow> 0 < iv'"
    and s: "create_scheduled_job u cid (strip msg) (strip pr) t iv' reps
       (if ascii_lower (strip tier) = lit ''instant'' then TierInstant else TierSoft)
       tg cr (or_else (strip tzn) (lit ''UTC'')) (strip nm) hex (jobs db) (\<lambda>i. clk (2 + i)) db = Inr (j, db')"
    using c by (rule create_cloud_schedule_cases) blast
  show "schedule_ok db'" "jb_status j = JobPending" "j \<in> set (jobs db')" "jb_user_id j = u"
    using create_scheduled_job_ok [OF ok s e] by blast+
  have f: "jb_run_at j = t" "jb_remaining_runs j = reps" "jb_trigger j = tg" "jb_cron_expr j = cr"
      "jb_interval_seconds j = max 0 iv'"
    using s by (auto simp: create_scheduled_job_def Let_def split: option.splits if_splits)
  then show "clk 1 < jb_run_at j" using t by simp
  show "1 < jb_remaining_runs j \<or> jb_trigger j = TrigEvery \<Longrightarrow> jb_cron_expr j \<noteq> [] \<or> 0 < jb_interval_seconds j"
    using f e n by (cases "tg = TrigEvery") auto
qed

section \<open>What a turn of the worker does\<close>

lemma next_run_total:
  "next_run cron now j \<noteq> None"
  by (auto simp: next_run_def catch_up_def advance_some split: sum.splits)

text \<open>The next fire of a repeating interval job lies after \<open>now\<close> and at most one step later.\<close>

lemma next_run_interval:
  assumes "next_run cron now j = Some (Inr (Some t))" "jb_cron_expr j = []" "jb_run_at j \<le> now"
  shows "now < t" "t \<le> now + seconds (jb_interval_seconds j)"
    "seconds (jb_interval_seconds j) dvd t - jb_run_at j"
proof -
  let ?s = "seconds (jb_interval_seconds j)"
  have pos: "0 < ?s" and a: "advance now (jb_run_at j + ?s) ?s = Some t"
    using assms(1,2) by (auto simp: next_run_def catch_up_def datetime_add_def split: if_splits option.splits sum.splits)
  have "advance now (jb_run_at j) ?s = Some t" using a assms(3) by (simp add: advance_step)
  then show "now < t" "t \<le> now + ?s" "?s dvd t - jb_run_at j"
    using advance_first_slot [OF pos assms(3)] by (metis option.inject)+
qed

definition holds_fire :: "pystr \<Rightarrow> pystr \<Rightarrow> pystr \<Rightarrow> cloud_db \<Rightarrow> bool" where
  "holds_fire i wid tok db \<longleftrightarrow> (\<exists>j. row_by jb_id i (jobs db) = Some j \<and>
     jb_lease_owner j = Some wid \<and> jb_fire_token j = Some tok)"

lemma finish_iff_holds:
  assumes "length wid \<le> 200"
  shows "(\<exists>j db'. finish_scheduled_job i wid tok st rem nx err now db = Inr (j, db')) \<longleftrightarrow> holds_fire i wid tok db"
    and "\<not> holds_fire i wid tok db \<Longrightarrow> finish_scheduled_job i wid tok st rem nx err now db =
      Inl (StoreStateError (lit ''scheduler worker does not own this fire''))"
  using assms
  by (auto simp: finish_scheduled_job_def holds_fire_def Let_def split: option.splits)

lemma settle_error_holds:
  assumes "length wid \<le> 200" "holds_fire (jb_id j) wid tok db"
  shows "\<exists>st rem nx err now j' db'. st \<noteq> JobRunning \<and> settle_error summary j wid tok e clk db = (Inr True, db') \<and>
    finish_scheduled_job (jb_id j) wid tok st rem nx err now db = Inr (j', db')"
proof -
  have "\<exists>j' db'. finish_scheduled_job (jb_id j) wid tok st rem nx err now db = Inr (j', db')" for st rem nx err now
    using finish_iff_holds(1) [OF assms(1)] assms(2) by blast
  note f = this
  show ?thesis
  proof (cases "case e of StoreStateError msg \<Rightarrow> contains (lit ''active passive Run'') msg | _ \<Rightarrow> False")
    case True
    then obtain msg where e: "e = StoreStateError msg" "contains (lit ''active passive Run'') msg"
      by (cases e) auto
    obtain j' db' where g: "finish_scheduled_job (jb_id j) wid tok JobPending (jb_remaining_runs j)
        (Some (clk 0 + seconds 5)) msg (clk 1) db = Inr (j', db')"
      using f by blast
    have "settle_error summary j wid tok e clk db = (Inr True, db')"
      by (simp add: settle_error_def e g del: One_nat_def)
    then show ?thesis using g by blast
  next
    case False
    obtain j' db' where g: "finish_scheduled_job (jb_id j) wid tok JobFailed (jb_remaining_runs j)
        None (summary e) (clk 0) db = Inr (j', db')"
      using f by blast
    have "settle_error summary j wid tok e clk db = (Inr True, db')"
      using False g by (cases e) (simp_all add: settle_error_def)
    then show ?thesis using g by blast
  qed
qed

lemma settle_error_lost:
  assumes "length wid \<le> 200" "\<not> holds_fire (jb_id j) wid tok db"
  shows "settle_error summary j wid tok e clk db =
    (Inl (StoreStateError (lit ''scheduler worker does not own this fire'')), db)"
  using finish_iff_holds(2) [OF assms]
  by (cases e) (simp_all add: settle_error_def)

text \<open>A turn without interference whose claim does not raise returns and leaves nothing leased to the worker.\<close>

lemma claimed_holds:
  assumes ok: "schedule_ok db" and w: "length wid \<le> 200"
    and c: "claim_next_scheduled_job cron wid n now stamp hex l1 l2 db = Some (Inr (Some j, db1))"
  obtains tok where "jb_fire_token j = Some tok" "jb_status j = JobRunning"
    "row_by jb_id (jb_id j) (jobs db1) = Some j" "jb_lease_owner j = Some wid" "schedule_ok db1"
proof -
  note r = claim_next_scheduled_job_result [OF ok c, simplified option.case]
  then obtain x where x: "j = claimed_job (take 200 wid) n hex now x" by blast
  have "\<exists>tok. jb_fire_token j = Some tok" by (simp add: x claimed_job_def split: option.splits)
  moreover have "jb_status j = JobRunning" "jb_lease_owner j = Some wid"
    using w by (simp_all add: x claimed_job_def)
  ultimately show ?thesis using that r by blast
qed

lemma schedule_run_once_quiet:
  assumes ok: "schedule_ok db" "queue_ok db" "msgs_ok db" "outbox_ok db"
    and quiet: "\<And>i d. fe_env fe i d = d"
    and total: "\<And>e. claim_next_scheduled_job cron (take 200 w) (max 10 n) (fe_clk fe 0) (fe_stamp fe) (fe_hex fe)
      (fe_locked1 fe) (fe_locked2 fe) db \<noteq> Some (Inl e)"
  shows "\<exists>b db'. schedule_run_once cron summary w n fe db = Some (Inr b, db') \<and> schedule_ok db'"
proof -
  let ?w = "take 200 w" and ?clk = "fe_clk fe"
  have len: "length ?w \<le> 200" by simp
  obtain res where c: "claim_next_scheduled_job cron ?w (max 10 n) (?clk 0) (fe_stamp fe) (fe_hex fe)
      (fe_locked1 fe) (fe_locked2 fe) db = Some res"
    using claim_next_scheduled_job_total [OF ok(1)] by blast
  show ?thesis
  proof (cases res)
    case (Inl e)
    then have False using total c by blast
    then show ?thesis ..
  next
    case (Inr out)
    obtain oj db1 where out: "out = (oj, db1)" by (cases out)
    note c1 = c [unfolded Inr out]
    show ?thesis
    proof (cases oj)
      case None
      have "schedule_ok db1" using claim_next_scheduled_job_result [OF ok(1) c1] by blast
      moreover have "schedule_run_once cron summary w n fe db = Some (Inr False, db1)"
        using c1 None by (simp add: schedule_run_once_def Let_def)
      ultimately show ?thesis by blast
    next
      case (Some j)
      note c2 = c1 [unfolded Some]
      obtain tok where tok: "jb_fire_token j = Some tok" "jb_status j = JobRunning"
          "row_by jb_id (jb_id j) (jobs db1) = Some j" "jb_lease_owner j = Some ?w" and ok1: "schedule_ok db1"
        using claimed_holds [OF ok(1) len c2] by blast
      have holds1: "holds_fire (jb_id j) ?w tok db1" using tok by (auto simp: holds_fire_def)
      obtain js where db1: "db1 = db\<lparr>jobs := js\<rparr>"
        using claim_next_scheduled_job_result [OF ok(1) c2] by blast
      have "queue_ok db1 = queue_ok db" "msgs_ok db1 = msgs_ok db"
        by (rule queue_ok_cong msgs_ok_cong, simp_all add: db1)+
      moreover have "outbox_ok db1" by (rule outbox_ok_cong [OF _ _ _ _ ok(4)]) (simp_all add: db1)
      ultimately have inv: "queue_ok db1" "msgs_ok db1" "outbox_ok db1" using ok(2-4) by simp_all
      show ?thesis
      proof (cases "deliver_scheduled_job (jb_id j) ?w tok (fe_seen fe db1) (fe_mid fe) (fe_rid fe)
          (\<lambda>i. ?clk (4 + i)) db1")
        case (Inl e)
        obtain db' where s: "settle_error summary j ?w tok e (\<lambda>i. ?clk (2 + i)) db1 = (Inr True, db')" "schedule_ok db'"
          using settle_error_holds [OF len holds1] finish_scheduled_job_ok [OF ok1] by metis
        have "schedule_run_once cron summary w n fe db = Some (settle_error summary j ?w tok e (\<lambda>i. ?clk (2 + i)) db1)"
          using c2 tok(1) Inl by (simp add: schedule_run_once_def Let_def quiet)
        then show ?thesis using s by (intro exI [of _ True] exI [of _ db']) simp
      next
        case (Inr dd)
        obtain d db2 where dd: "dd = (d, db2)" by (cases dd)
        have jobs2: "jobs db2 = jobs db1" by (rule deliver_scheduled_job_ok(4) [OF Inr [unfolded dd] inv])
        have ok2: "schedule_ok db2" using ok1 schedule_ok_cong [OF jobs2] by simp
        have holds2: "holds_fire (jb_id j) ?w tok db2" using holds1 by (simp add: holds_fire_def jobs2)
        obtain r where r: "next_run cron (?clk 1) j = Some r" using next_run_total by fast
        show ?thesis
        proof (cases r)
          case l: (Inl e)
          obtain db' where s: "settle_error summary j ?w tok e (\<lambda>i. ?clk (2 + i)) db2 = (Inr True, db')" "schedule_ok db'"
            using settle_error_holds [OF len holds2] finish_scheduled_job_ok [OF ok2] by metis
          have "schedule_run_once cron summary w n fe db = Some (settle_error summary j ?w tok e (\<lambda>i. ?clk (2 + i)) db2)"
            using c2 tok(1) Inr dd r l by (simp add: schedule_run_once_def Let_def quiet del: One_nat_def)
          then show ?thesis using s by (intro exI [of _ True] exI [of _ db']) simp
        next
          case n: (Inr nx)
          note nx = r [unfolded n]
          let ?rem = "if 0 < jb_remaining_runs j then jb_remaining_runs j - 1 else jb_remaining_runs j"
          let ?st = "if nx \<noteq> None \<and> ?rem \<noteq> 0 then JobPending else JobCompleted"
          obtain j' db' where f: "finish_scheduled_job (jb_id j) ?w tok ?st ?rem nx [] (?clk 2) db2 = Inr (j', db')"
            using finish_iff_holds(1) [OF len] holds2 by blast
          have "schedule_ok db'" by (rule finish_scheduled_job_ok [OF ok2 f]) simp
          moreover have "schedule_run_once cron summary w n fe db = Some (Inr True, db')"
            using c2 tok(1) Inr dd nx f
            by (simp add: schedule_run_once_def Let_def quiet del: One_nat_def)
          ultimately show ?thesis by blast
        qed
      qed
    qed
  qed
qed

text \<open>
  A lease lost before the settling transaction: the settling of the fire is refused, so is the one in
  the exception handler, and the error leaves the turn.
\<close>

lemma schedule_run_once_lost_lease:
  assumes c: "claim_next_scheduled_job cron (take 200 w) (max 10 n) (fe_clk fe 0) (fe_stamp fe) (fe_hex fe)
      (fe_locked1 fe) (fe_locked2 fe) db = Some (Inr (Some j, db1))"
    and tok: "jb_fire_token j = Some tok"
    and lost: "\<And>d. \<not> holds_fire (jb_id j) (take 200 w) tok (fe_env fe 1 d)"
  shows "\<exists>db'. schedule_run_once cron summary w n fe db =
    Some (Inl (StoreStateError (lit ''scheduler worker does not own this fire'')), db')"
proof -
  let ?w = "take 200 w"
  have len: "length ?w \<le> 200" by simp
  note settle = settle_error_lost [OF len lost]
  show ?thesis
  proof (cases "deliver_scheduled_job (jb_id j) ?w tok (fe_seen fe (fe_env fe 0 db1)) (fe_mid fe) (fe_rid fe)
      (\<lambda>i. fe_clk fe (4 + i)) (fe_env fe 0 db1)")
    case (Inl e)
    then show ?thesis using c tok
      by (simp add: schedule_run_once_def Let_def settle del: One_nat_def)
  next
    case (Inr dd)
    obtain d db2 where dd: "dd = (d, db2)" by (cases dd)
    obtain r where nx: "next_run cron (fe_clk fe 1) j = Some r" using next_run_total by fast
    show ?thesis
    proof (cases r)
      case (Inl e)
      then show ?thesis using c tok Inr dd nx
        by (simp add: schedule_run_once_def Let_def settle del: One_nat_def)
    next
      case (Inr nxt)
      have "finish_scheduled_job (jb_id j) ?w tok st rem nx err now (fe_env fe 1 db2) =
          Inl (StoreStateError (lit ''scheduler worker does not own this fire''))" for st rem nx err now
        using finish_iff_holds(2) [OF len lost] .
      then show ?thesis using c tok \<open>deliver_scheduled_job _ _ _ _ _ _ _ _ = Inr dd\<close> dd nx Inr
        by (simp add: schedule_run_once_def Let_def settle del: One_nat_def)
    qed
  qed
qed

end
