(* ===== verification/ScheduleTheorems.thy ===== *)
theory ScheduleTheorems
  imports ScheduleWorker CloudSample
begin

text \<open>
  The properties of scheduled jobs: a turn of the worker always returns, the table never holds more than
  ten active jobs of a user, a fire is delivered once however often it is claimed, and what a turn does
  when its lease is taken away.
\<close>

section \<open>The tables between two deliveries\<close>

text \<open>What other transactions may do between two deliveries of one fire: they add rows and change the
  state of Runs, and never delete a message or a Run or give a Run another key.\<close>

definition rows_kept :: "cloud_db \<Rightarrow> cloud_db \<Rightarrow> bool" where
  "rows_kept db db' \<longleftrightarrow> set (messages db) \<subseteq> set (messages db') \<and>
     (\<forall>r \<in> set (runs db). \<exists>r' \<in> set (runs db'). rn_id r' = rn_id r \<and> rn_user_id r' = rn_user_id r \<and>
        rn_idempotency_key r' = rn_idempotency_key r)"

text \<open>The job as a later claim finds it: its target and its tier are those of its creation.\<close>

definition same_job :: "job_row \<Rightarrow> job_row \<Rightarrow> bool" where
  "same_job j j' \<longleftrightarrow> jb_id j' = jb_id j \<and> jb_user_id j' = jb_user_id j \<and>
     jb_conversation_id j' = jb_conversation_id j \<and> jb_tier j' = jb_tier j"

fun same_delivery :: "delivered \<Rightarrow> delivered \<Rightarrow> bool" where
  "same_delivery (DMessage m) d \<longleftrightarrow> d = DMessage m"
| "same_delivery (DRun r) d \<longleftrightarrow> (\<exists>r'. d = DRun r' \<and> rn_id r' = rn_id r)"

lemma recorded_kept:
  assumes rec: "recorded i tok j db d" and kept: "rows_kept db db'" and same: "same_job j j'"
    and ok: "queue_ok db'" "msgs_ok db'"
  obtains d' where "recorded i tok j' db' d'" "same_delivery d d'"
proof (cases d)
  case (DMessage m)
  then have m: "m \<in> set (messages db)" "ms_conversation_id m = jb_conversation_id j"
      "ms_delivery_key m = Some (schedule_key ''schedule:'' i tok)" and tier: "jb_tier j = TierInstant"
    using rec by (auto simp: find_delivery_def find_Some_iff)
  have "m \<in> set (messages db')" using m(1) kept by (auto simp: rows_kept_def)
  then have "find_delivery (jb_conversation_id j) (schedule_key ''schedule:'' i tok) db' = Some m"
    using find_delivery_present [OF ok(2)] m(2,3) by blast
  then show ?thesis using that [of d] DMessage tier same by (simp add: same_job_def)
next
  case (DRun r)
  then have r: "r \<in> set (runs db)" "rn_user_id r = jb_user_id j"
      "rn_idempotency_key r = Some (schedule_key ''schedule:'' i tok)" and tier: "jb_tier j = TierSoft"
    using rec by (auto simp: find_submission_def find_Some_iff)
  obtain r' where r': "r' \<in> set (runs db')" "rn_id r' = rn_id r" "rn_user_id r' = jb_user_id j"
      "rn_idempotency_key r' = Some (schedule_key ''schedule:'' i tok)"
    using kept r unfolding rows_kept_def by metis
  have "runs_ok (runs db')" using ok(1) by (simp add: queue_ok_def)
  then have "find_submission (jb_user_id j) (schedule_key ''schedule:'' i tok) (runs db') = Some r'"
    using find_submission_present r' by blast
  then show ?thesis using that [of "DRun r'"] DRun tier same r'(2) by (simp add: same_job_def)
qed

section \<open>The operations on the job table\<close>

text \<open>One transaction on the job table; the count of a creation reads the committed table.\<close>

inductive schedule_step :: "cloud_db \<Rightarrow> cloud_db \<Rightarrow> bool" where
  step_create: "create_cloud_schedule env u cid msg ra ds iv rc tier trig wh pr tzn nm rq hex (jobs db) clk db
     = Inr (j, db') \<Longrightarrow> schedule_step db db'"
| step_cancel: "cancel_scheduled_job u i now db = Inr (j, db') \<Longrightarrow> schedule_step db db'"
| step_claim: "claim_next_scheduled_job cron w n now stamp hex l1 l2 db = Some (Inr (r, db')) \<Longrightarrow> schedule_step db db'"
| step_heartbeat: "heartbeat_scheduled_job i w tok n clk db = Inr ((), db') \<Longrightarrow> schedule_step db db'"
| step_finish: "finish_scheduled_job i w tok st rem nx err now db = Inr (j, db') \<Longrightarrow> st \<noteq> JobRunning \<Longrightarrow>
     schedule_step db db'"
| step_elsewhere: "jobs db' = jobs db \<Longrightarrow> schedule_step db db'"

lemma schedule_step_ok: "schedule_step db db' \<Longrightarrow> schedule_ok db \<Longrightarrow> schedule_ok db'"
proof (induction rule: schedule_step.induct)
  case step_create
  from step_create(2,1) show ?case by (rule create_cloud_schedule_ok(1))
next
  case step_cancel
  from step_cancel(2,1) show ?case by (rule cancel_scheduled_job_ok)
next
  case step_claim
  from claim_next_scheduled_job_result [OF step_claim(2,1)] show ?case by (rule conjunct1)
next
  case step_heartbeat
  from step_heartbeat(2,1) show ?case by (rule heartbeat_scheduled_job_ok)
next
  case step_finish
  from step_finish(3,1,2) show ?case by (rule finish_scheduled_job_ok)
next
  case step_elsewhere
  then show ?case by (simp only: schedule_ok_cong [OF step_elsewhere(1)])
qed

lemma schedule_steps_ok: "schedule_step\<^sup>*\<^sup>* db db' \<Longrightarrow> schedule_ok db \<Longrightarrow> schedule_ok db'"
proof (induction rule: rtranclp_induct)
  case (step b c)
  from schedule_step_ok [OF step(2) step(3) [OF step(4)]] show ?case .
qed assumption

section \<open>The theorems\<close>

text \<open>C29: a turn of the schedule worker always returns: the loops that catch up a repeating job end,
  whatever other processes commit between its transactions and whatever the cron engine answers.\<close>

theorem schedule_turn_returns:
  assumes "schedule_ok db"
  shows "\<exists>r. schedule_run_once cron summary w n fe db = Some r"
proof -
  obtain c where c: "claim_next_scheduled_job cron (take 200 w) (max 10 n) (fe_clk fe 0) (fe_stamp fe) (fe_hex fe)
      (fe_locked1 fe) (fe_locked2 fe) db = Some c"
    using claim_next_scheduled_job_total [OF assms] by fast
  consider e where "c = Inl e" | d where "c = Inr (None, d)" | j d where "c = Inr (Some j, d)"
    by (metis option.exhaust prod.exhaust sum.exhaust)
  then show ?thesis
  proof cases
    case 3
    obtain r where r: "next_run cron (fe_clk fe 1) j = Some r" using next_run_total by fast
    show ?thesis
      by (simp add: schedule_run_once_def Let_def c [unfolded 3] r del: One_nat_def split: sum.split prod.split)
  qed (simp_all add: schedule_run_once_def Let_def c)
qed

text \<open>C30: in every history of the job table, with counts that read the committed table, a user has at
  most ten active jobs, exactly the running ones are leased, each running one has a fire token, and a
  repeating job without a cron expression has a positive interval, so its catch-up ends.\<close>

theorem schedule_table_invariant:
  assumes "schedule_step\<^sup>*\<^sup>* db db'" and "jobs db = []"
  shows "active_jobs u (jobs db') \<le> 10 \<and> (\<forall>j \<in> set (jobs db'). job_ok j)"
  using schedule_steps_ok [OF assms(1)] assms(2)
  by (auto simp: schedule_ok_def jobs_ok_def capacity_ok_def active_jobs_def)

text \<open>C28: a fire is delivered once: after one delivery has committed, a delivery of the same fire by any
  worker, whatever was committed in between, returns the row of the first one and changes nothing.\<close>

theorem fire_delivered_once:
  assumes first: "deliver_scheduled_job i w tok seen mid rid clk db = Inr (d, db1)"
    and ok: "queue_ok db" "msgs_ok db" "outbox_ok db"
    and later: "rows_kept db1 db2" "queue_ok db2" "msgs_ok db2"
    and job: "row_by jb_id i (jobs db) = Some j" "row_by jb_id i (jobs db2) = Some j2" "same_job j j2"
    and lease: "jb_status j2 = JobRunning" "jb_lease_owner j2 = Some (take 200 w2)" "jb_fire_token j2 = Some tok"
    and conv: "owned_conversation (jb_user_id j2) (jb_conversation_id j2) db2 = Some c"
  shows "\<exists>d2. deliver_scheduled_job i w2 tok seen2 mid2 rid2 clk2 db2 = Inr (d2, db2) \<and> same_delivery d d2"
proof -
  obtain j1 where j1: "row_by jb_id i (jobs db1) = Some j1" "recorded i tok j1 db1 d"
    using deliver_scheduled_job_recorded [OF first ok] by blast
  have "j1 = j" using j1(1) job(1) deliver_scheduled_job_ok(4) [OF first ok] by simp
  then obtain d2 where d2: "recorded i tok j2 db2 d2" "same_delivery d d2"
    using recorded_kept [OF _ later(1) job(3) later(2,3)] j1(2) by blast
  show ?thesis using recorded_redelivery [OF d2(1) job(2) lease conv] d2(2) by blast
qed

text \<open>a turn whose lease is taken away before it settles ends in an exception: the report of the
  fire is refused, so is the one the exception handler makes, and the second error leaves the turn,
  although a delivery that was committed stays.\<close>

theorem schedule_lost_lease_escapes:
  assumes "claim_next_scheduled_job cron (take 200 w) (max 10 n) (fe_clk fe 0) (fe_stamp fe) (fe_hex fe)
      (fe_locked1 fe) (fe_locked2 fe) db = Some (Inr (Some j, db1))"
    and "jb_fire_token j = Some tok"
    and "\<And>d. \<not> holds_fire (jb_id j) (take 200 w) tok (fe_env fe 1 d)"
  shows "\<exists>db'. schedule_run_once cron summary w n fe db =
    Some (Inl (StoreStateError (lit ''scheduler worker does not own this fire'')), db')"
  by (rule schedule_run_once_lost_lease [OF assms])


text \<open>A job that posts every minute, claimed at its first fire.\<close>

definition wit_job :: job_row where
  "wit_job = \<lparr>jb_id = [106], jb_user_id = [1], jb_conversation_id = [2], jb_message = [104], jb_prompt = [],
     jb_run_at = 0, jb_interval_seconds = 60, jb_remaining_runs = - 1, jb_status = JobRunning, jb_tier = TierInstant,
     jb_trigger = TrigEvery, jb_cron_expr = [], jb_timezone = [], jb_name = [], jb_lease_owner = Some [119],
     jb_lease_expires_at = Some 10000000, jb_fire_token = Some [102], jb_last_error = [], jb_created_at = 0,
     jb_updated_at = 0\<rparr>"

definition wit_due :: job_row where
  "wit_due = wit_job\<lparr>jb_status := JobPending, jb_lease_owner := None, jb_lease_expires_at := None, jb_fire_token := None\<rparr>"

definition wit_sched :: "job_row \<Rightarrow> cloud_db" where
  "wit_sched j = (sm_db [])\<lparr>jobs := [j]\<rparr>"

definition wit_fire :: "(nat \<Rightarrow> cloud_db \<Rightarrow> cloud_db) \<Rightarrow> fire_env" where
  "wit_fire env = \<lparr>fe_env = env, fe_clk = (\<lambda>i. int i), fe_stamp = (\<lambda>_. 0), fe_hex = [102], fe_locked1 = [],
     fe_locked2 = [], fe_mid = [8], fe_rid = [9], fe_seen = runs\<rparr>"

lemma wit_sched_ok:
  "schedule_ok (wit_sched wit_due)" "schedule_ok (wit_sched wit_job)"
  "queue_ok (wit_sched wit_job)" "msgs_ok (wit_sched wit_job)" "outbox_ok (wit_sched wit_job)"
proof -
  show "schedule_ok (wit_sched wit_due)" "schedule_ok (wit_sched wit_job)"
    by (simp_all add: wit_sched_def wit_due_def wit_job_def schedule_ok_def jobs_ok_def job_ok_def capacity_ok_def active_jobs_def)
  show "queue_ok (wit_sched wit_job)" by (subst queue_ok_cong [of _ "sm_db []"]) (simp_all add: wit_sched_def)
  show "msgs_ok (wit_sched wit_job)" by (subst msgs_ok_cong [of _ "sm_db []"]) (simp_all add: wit_sched_def)
  show "outbox_ok (wit_sched wit_job)" by (simp add: wit_sched_def outbox_ok_def sm_link_def sm_input_def)
qed

theorem schedule_turn_returns_witness:
  "\<exists>r. schedule_run_once (\<lambda>_ _ _. Inl DataError) (\<lambda>_. []) [119] 60 (wit_fire (\<lambda>_ d. d)) (wit_sched wit_due) = Some r"
  by (rule schedule_turn_returns [OF wit_sched_ok(1)])

lemma wit_created:
  "\<exists>j db'. create_cloud_schedule \<lparr>se_zone = (\<lambda>_. True), se_when_at = (\<lambda>_ _. Inr 0), se_request = (\<lambda>_ _. Inr 0),
     se_cron = (\<lambda>_ _ _. Inr 0)\<rparr> [1] [2] [104] [] 60 0 1 (lit ''instant'') [] [] [] [] [] [] [104]
     (jobs (sm_db [])) (\<lambda>i. int i) (sm_db []) = Inr (j, db')"
  by (simp add: create_cloud_schedule_def Let_def ascii_lower_def strip_def py_space_def lit_def or_else_def
      resolve_trigger_def timedelta_seconds_def datetime_add_def create_scheduled_job_def owned_conversation_def
      sm_conv_def active_jobs_def seconds_def)

theorem schedule_table_invariant_witness:
  "\<exists>db'. schedule_step (sm_db []) db' \<and> active_jobs [1] (jobs db') \<le> 10"
proof -
  obtain db' where s: "schedule_step (sm_db []) db'" by (rule exE [OF wit_created]) (erule exE, drule step_create, rule that)
  then have "schedule_step\<^sup>*\<^sup>* (sm_db []) db'" by blast
  then have "active_jobs [1] (jobs db') \<le> 10" using schedule_table_invariant [of "sm_db []" db' "[1]"] by simp
  then show ?thesis using s by blast
qed

lemma wit_first_delivery:
  "\<exists>d db'. deliver_scheduled_job [106] [119] [102] [] [8] [9] (\<lambda>i. int i) (wit_sched wit_job) = Inr (d, db')"
  by (simp add: deliver_scheduled_job_def Let_def wit_sched_def wit_job_def owned_conversation_def sm_conv_def
      deliver_instant_def find_delivery_def sm_input_def conversation_busy_def post_message_def insert_message_def message_clash_def)


theorem fire_delivered_once_witness:
  "\<exists>d db1 d2. deliver_scheduled_job [106] [119] [102] [] [8] [9] (\<lambda>i. int i) (wit_sched wit_job) = Inr (d, db1) \<and>
     deliver_scheduled_job [106] [119] [102] [] [10] [11] (\<lambda>i. 5 + int i) db1 = Inr (d2, db1) \<and> same_delivery d d2"
proof -
  obtain d db1 where d: "deliver_scheduled_job [106] [119] [102] [] [8] [9] (\<lambda>i. int i) (wit_sched wit_job) = Inr (d, db1)"
    using wit_first_delivery by blast
  note inv = deliver_scheduled_job_ok [OF d wit_sched_ok(3,4,5)]
  obtain j c where j: "row_by jb_id [106] (jobs db1) = Some j" "jb_status j = JobRunning"
      "jb_lease_owner j = Some (take 200 [119])" "jb_fire_token j = Some [102]"
    and c: "owned_conversation (jb_user_id j) (jb_conversation_id j) db1 = Some c"
    using deliver_scheduled_job_recorded [OF d wit_sched_ok(3,4,5)] by metis
  have "row_by jb_id [106] (jobs (wit_sched wit_job)) = Some j" using j(1) inv(4) by simp
  moreover have "rows_kept db1 db1" "same_job j j" by (auto simp: rows_kept_def same_job_def)
  ultimately show ?thesis
    using fire_delivered_once [OF d wit_sched_ok(3,4,5) _ inv(1,2) _ j(1) _ j(2-4) c] d by blast
qed

lemma wit_claimed:
  "\<exists>j db1. claim_next_scheduled_job (\<lambda>_ _ _. Inl DataError) (take 200 [119]) (max 10 60) 0 (\<lambda>_. 0) [102] [] []
     (wit_sched wit_due) = Some (Inr (Some j, db1)) \<and> jb_id j = [106] \<and> jb_fire_token j = Some [102]"
  by (simp add: claim_next_scheduled_job_def Let_def wit_sched_def wit_due_def wit_job_def expired_jobs_def
      release_jobs_def due_jobs_def job_misfired_def seconds_def claimed_job_def)

theorem schedule_lost_lease_escapes_witness:
  "\<exists>db'. schedule_run_once (\<lambda>_ _ _. Inl DataError) (\<lambda>_. []) [119] 60
     (wit_fire (\<lambda>i d. if i = 1 then d\<lparr>jobs := []\<rparr> else d)) (wit_sched wit_due) =
     Some (Inl (StoreStateError (lit ''scheduler worker does not own this fire'')), db')"
proof -
  let ?fe = "wit_fire (\<lambda>i d. if i = 1 then d\<lparr>jobs := []\<rparr> else d)"
  obtain j db1 where c: "claim_next_scheduled_job (\<lambda>_ _ _. Inl DataError) (take 200 [119]) (max 10 60) (fe_clk ?fe 0)
      (fe_stamp ?fe) (fe_hex ?fe) (fe_locked1 ?fe) (fe_locked2 ?fe) (wit_sched wit_due) = Some (Inr (Some j, db1))"
    and tok: "jb_fire_token j = Some [102]"
    using wit_claimed by (auto simp: wit_fire_def)
  have "\<not> holds_fire (jb_id j) (take 200 [119]) [102] (fe_env ?fe 1 d)" for d
    by (simp add: holds_fire_def wit_fire_def)
  then show ?thesis by (rule schedule_lost_lease_escapes [OF c tok])
qed

end
