(* ===== verification/CloudExtensions.thy ===== *)
theory CloudExtensions
  imports CloudDb KContracts
begin

text \<open>
  The tenant's own extensions in \<open>src/cloud/store.py\<close>: MCP servers, remote plugins with their
  timed tasks, and skills.
\<close>

section \<open>MCP servers\<close>

definition mcp_clash :: "mcp_row \<Rightarrow> mcp_row \<Rightarrow> bool" where
  "mcp_clash a b \<longleftrightarrow> mc_id a = mc_id b \<or> (mc_user_id a = mc_user_id b \<and> mc_name a = mc_name b)"

definition create_mcp_server ::
  "uuid \<Rightarrow> pystr \<Rightarrow> pystr \<Rightarrow> pystr \<Rightarrow> uuid \<Rightarrow> clock \<Rightarrow> cloud_db \<Rightarrow> (mcp_row \<times> cloud_db) res" where
  "create_mcp_server user_id name base_url encrypted_headers fresh clk db =
     (let item = \<lparr>mc_id = fresh, mc_user_id = user_id, mc_name = name, mc_base_url = base_url,
                  mc_encrypted_headers = encrypted_headers, mc_enabled = True,
                  mc_created_at = clk 0, mc_updated_at = clk 1\<rparr>
      in if (\<exists>x \<in> set (mcp_servers db). mcp_clash item x) \<or> user_id \<notin> us_id ` set (users db)
         then Inl (StoreConflictError (lit ''MCP server name already exists''))
         else Inr (item, db\<lparr>mcp_servers := mcp_servers db @ [item]\<rparr>))"

definition list_mcp_servers :: "uuid \<Rightarrow> bool \<Rightarrow> cloud_db \<Rightarrow> mcp_row list" where
  "list_mcp_servers user_id enabled_only db =
     sort_key mc_name
       (filter (\<lambda>x. mc_user_id x = user_id \<and> (\<not> enabled_only \<or> mc_enabled x)) (mcp_servers db))"

definition delete_mcp_server :: "uuid \<Rightarrow> uuid \<Rightarrow> cloud_db \<Rightarrow> (unit \<times> cloud_db) res" where
  "delete_mcp_server user_id server_id db =
     (case find (\<lambda>x. mc_id x = server_id \<and> mc_user_id x = user_id) (mcp_servers db) of
        None \<Rightarrow> Inl (StoreNotFoundError (lit ''MCP server not found''))
      | Some x \<Rightarrow> Inr ((), db\<lparr>mcp_servers := filter (\<lambda>y. mc_id y \<noteq> server_id) (mcp_servers db)\<rparr>))"

section \<open>Plugins\<close>

text \<open>The tasks a manifest declares, jobs before sources.  A manifest reaches the store only after
  \<open>validate_plugin_manifest\<close>, so an id is a text and an interval a number; another shape is
  rejected here.\<close>

fun task_specs :: "task_kind \<Rightarrow> json list \<Rightarrow> (task_kind \<times> pystr \<times> int) list res" where
  "task_specs kind [] = Inr []"
| "task_specs kind (JObj spec # rest) =
     (case map_of spec (lit ''id'') of
        None \<Rightarrow> Inl (KeyError (lit ''id''))
      | Some (JStr i) \<Rightarrow>
          (case map_of spec (lit ''interval_seconds'') of
             None \<Rightarrow> Inl (KeyError (lit ''interval_seconds''))
           | Some (JInt n) \<Rightarrow>
               (case task_specs kind rest of Inl e \<Rightarrow> Inl e | Inr ts \<Rightarrow> Inr ((kind, i, n) # ts))
           | Some _ \<Rightarrow> Inl (ValueError (lit ''interval_seconds'')))
      | Some _ \<Rightarrow> Inl (ValueError (lit ''id'')))"
| "task_specs kind (_ # rest) = Inl (ValueError (lit ''spec''))"

definition manifest_list :: "pydict \<Rightarrow> string \<Rightarrow> json list" where
  "manifest_list manifest key =
     (case map_of manifest (lit key) of Some (JArr xs) \<Rightarrow> xs | _ \<Rightarrow> [])"

definition manifest_tasks :: "pydict \<Rightarrow> (task_kind \<times> pystr \<times> int) list res" where
  "manifest_tasks manifest =
     (case task_specs KindJob (manifest_list manifest ''jobs'') of
        Inl e \<Rightarrow> Inl e
      | Inr js \<Rightarrow>
          (case task_specs KindSource (manifest_list manifest ''sources'') of
             Inl e \<Rightarrow> Inl e
           | Inr ss \<Rightarrow> Inr (js @ ss)))"

definition plugin_clash :: "plugin_row \<Rightarrow> plugin_row \<Rightarrow> bool" where
  "plugin_clash a b \<longleftrightarrow> pg_id a = pg_id b \<or> (pg_user_id a = pg_user_id b \<and> pg_name a = pg_name b)"

definition task_clash :: "task_row \<Rightarrow> task_row \<Rightarrow> bool" where
  "task_clash a b \<longleftrightarrow> tk_id a = tk_id b \<or>
     (tk_plugin_id a = tk_plugin_id b \<and> tk_task_id a = tk_task_id b \<and> tk_kind a = tk_kind b)"

text \<open>\<open>ids k\<close> is the fresh id of the k-th task row; its two clock reads are its own.\<close>

fun add_tasks ::
  "uuid \<Rightarrow> uuid \<Rightarrow> nat \<Rightarrow> (task_kind \<times> pystr \<times> int) list \<Rightarrow> (nat \<Rightarrow> uuid) \<Rightarrow> clock \<Rightarrow> cloud_db \<Rightarrow> cloud_db res" where
  "add_tasks plugin user_id k [] ids clk db = Inr db"
| "add_tasks plugin user_id k ((kind, i, n) # ts) ids clk db =
     (let row = \<lparr>tk_id = ids k, tk_plugin_id = plugin, tk_user_id = user_id, tk_task_id = i,
                 tk_kind = kind, tk_interval_seconds = n, tk_enabled = True,
                 tk_next_run_at = clk (2 + 2 * k), tk_lease_owner = None,
                 tk_lease_expires_at = None, tk_last_error = [], tk_updated_at = clk (3 + 2 * k)\<rparr>
      in if \<exists>x \<in> set (plugin_tasks db). task_clash row x then Inl IntegrityError
         else add_tasks plugin user_id (k + 1) ts ids clk
                (db\<lparr>plugin_tasks := plugin_tasks db @ [row]\<rparr>))"

definition create_plugin ::
  "uuid \<Rightarrow> pystr \<Rightarrow> pystr \<Rightarrow> pystr \<Rightarrow> pydict \<Rightarrow> uuid \<Rightarrow> (nat \<Rightarrow> uuid) \<Rightarrow> clock \<Rightarrow> cloud_db \<Rightarrow>
   (plugin_row \<times> cloud_db) res" where
  "create_plugin user_id name base_url encrypted_headers manifest fresh ids clk db =
     (let item = \<lparr>pg_id = fresh, pg_user_id = user_id, pg_name = name, pg_base_url = base_url,
                  pg_encrypted_headers = encrypted_headers, pg_manifest = manifest,
                  pg_enabled = True, pg_created_at = clk 0, pg_updated_at = clk 1\<rparr>;
          conflict = StoreConflictError (lit ''plugin name or task id already exists'')
      in if (\<exists>x \<in> set (plugins db). plugin_clash item x) \<or> user_id \<notin> us_id ` set (users db)
         then Inl conflict
         else
           (case manifest_tasks manifest of
              Inl e \<Rightarrow> Inl e
            | Inr ts \<Rightarrow>
                (case add_tasks fresh user_id 0 ts ids clk (db\<lparr>plugins := plugins db @ [item]\<rparr>) of
                   Inl e \<Rightarrow> Inl conflict
                 | Inr db1 \<Rightarrow> Inr (item, db1))))"

definition list_plugins :: "uuid \<Rightarrow> bool \<Rightarrow> cloud_db \<Rightarrow> plugin_row list" where
  "list_plugins user_id enabled_only db =
     sort_key pg_name
       (filter (\<lambda>x. pg_user_id x = user_id \<and> (\<not> enabled_only \<or> pg_enabled x)) (plugins db))"

definition delete_plugin :: "uuid \<Rightarrow> uuid \<Rightarrow> cloud_db \<Rightarrow> (unit \<times> cloud_db) res" where
  "delete_plugin user_id plugin_id db =
     (case find (\<lambda>x. pg_id x = plugin_id \<and> pg_user_id x = user_id) (plugins db) of
        None \<Rightarrow> Inl (StoreNotFoundError (lit ''plugin not found''))
      | Some x \<Rightarrow> Inr ((), db\<lparr>plugins := filter (\<lambda>y. pg_id y \<noteq> plugin_id) (plugins db),
                            plugin_tasks := filter (\<lambda>t. tk_plugin_id t \<noteq> plugin_id)
                                              (plugin_tasks db)\<rparr>))"

section \<open>Plugin tasks\<close>

abbreviation put_task :: "task_row \<Rightarrow> cloud_db \<Rightarrow> cloud_db" where
  "put_task t db \<equiv> db\<lparr>plugin_tasks := put_row tk_id t (plugin_tasks db)\<rparr>"

definition task_due :: "instant \<Rightarrow> uuid list \<Rightarrow> cloud_db \<Rightarrow> task_row \<Rightarrow> bool" where
  "task_due now locked db t \<longleftrightarrow>
     (\<exists>p \<in> set (plugins db). pg_id p = tk_plugin_id t \<and> pg_enabled p) \<and> tk_enabled t \<and>
     tk_next_run_at t \<le> now \<and>
     (case tk_lease_expires_at t of None \<Rightarrow> True | Some e \<Rightarrow> e < now) \<and> tk_id t \<notin> set locked"

definition claim_next_plugin_task ::
  "pystr \<Rightarrow> int \<Rightarrow> clock \<Rightarrow> uuid list \<Rightarrow> cloud_db \<Rightarrow> (task_row \<times> plugin_row) option \<times> cloud_db" where
  "claim_next_plugin_task worker_id lease_seconds clk locked db =
     (case first_row (\<lambda>t. (tk_next_run_at t, tk_id t)) (task_due (clk 0) locked db) (plugin_tasks db) of
        None \<Rightarrow> (None, db)
      | Some t \<Rightarrow>
          (case row_by pg_id (tk_plugin_id t) (plugins db) of
             None \<Rightarrow> (None, db)
           | Some p \<Rightarrow>
               (let t' = t\<lparr>tk_lease_owner := Some (take 200 worker_id),
                           tk_lease_expires_at := Some (clk 0 + seconds (max 10 lease_seconds)),
                           tk_updated_at := clk 1\<rparr>
                in (Some (t', p), put_task t' db))))"

definition finish_plugin_task ::
  "uuid \<Rightarrow> pystr \<Rightarrow> pystr \<Rightarrow> clock \<Rightarrow> cloud_db \<Rightarrow> (unit \<times> cloud_db) res" where
  "finish_plugin_task task_id worker_id err clk db =
     (case row_by tk_id task_id (plugin_tasks db) of
        None \<Rightarrow> Inl (StoreStateError (lit ''plugin worker does not own this task''))
      | Some t \<Rightarrow>
          if tk_lease_owner t \<noteq> Some (take 200 worker_id)
          then Inl (StoreStateError (lit ''plugin worker does not own this task''))
          else Inr ((), put_task
                 (t\<lparr>tk_next_run_at := clk 0 + seconds (tk_interval_seconds t), tk_lease_owner := None,
                    tk_lease_expires_at := None, tk_last_error := take 500 err,
                    tk_updated_at := clk 1\<rparr>) db))"

section \<open>Skills\<close>

definition skill_clash :: "skill_row \<Rightarrow> skill_row \<Rightarrow> bool" where
  "skill_clash a b \<longleftrightarrow> sk_id a = sk_id b \<or> (sk_user_id a = sk_user_id b \<and> sk_name a = sk_name b)"

definition create_skill ::
  "uuid \<Rightarrow> pystr \<Rightarrow> pystr \<Rightarrow> pystr \<Rightarrow> pystr \<Rightarrow> bool \<Rightarrow> uuid \<Rightarrow> clock \<Rightarrow> cloud_db \<Rightarrow>
   (skill_row \<times> cloud_db) res" where
  "create_skill user_id name description when_to_use body always fresh clk db =
     (let item = \<lparr>sk_id = fresh, sk_user_id = user_id, sk_name = name,
                  sk_description = or_else (take 1000 description) (lit ''-''),
                  sk_when_to_use = take 2000 when_to_use, sk_body = body, sk_always = always,
                  sk_enabled = True, sk_created_at = clk 0, sk_updated_at = clk 1\<rparr>
      in if (\<exists>x \<in> set (skills db). skill_clash item x) \<or> user_id \<notin> us_id ` set (users db)
         then Inl (StoreConflictError (lit ''skill name already exists''))
         else Inr (item, db\<lparr>skills := skills db @ [item]\<rparr>))"

definition list_skills :: "uuid \<Rightarrow> bool \<Rightarrow> cloud_db \<Rightarrow> skill_row list" where
  "list_skills user_id enabled_only db =
     sort_key sk_name
       (filter (\<lambda>x. sk_user_id x = user_id \<and> (\<not> enabled_only \<or> sk_enabled x)) (skills db))"

definition delete_skill :: "uuid \<Rightarrow> uuid \<Rightarrow> cloud_db \<Rightarrow> (unit \<times> cloud_db) res" where
  "delete_skill user_id skill_id db =
     (case find (\<lambda>x. sk_id x = skill_id \<and> sk_user_id x = user_id) (skills db) of
        None \<Rightarrow> Inl (StoreNotFoundError (lit ''skill not found''))
      | Some x \<Rightarrow> Inr ((), db\<lparr>skills := filter (\<lambda>y. sk_id y \<noteq> skill_id) (skills db)\<rparr>))"

section \<open>Invariants\<close>

definition extensions_ok :: "cloud_db \<Rightarrow> bool" where
  "extensions_ok db \<longleftrightarrow> sorted_wrt (\<lambda>a b. \<not> mcp_clash b a) (mcp_servers db) \<and>
     sorted_wrt (\<lambda>a b. \<not> plugin_clash b a) (plugins db) \<and>
     sorted_wrt (\<lambda>a b. \<not> skill_clash b a) (skills db) \<and>
     sorted_wrt (\<lambda>a b. \<not> task_clash b a) (plugin_tasks db) \<and>
     (\<forall>t \<in> set (plugin_tasks db). (tk_lease_owner t = None \<longleftrightarrow> tk_lease_expires_at t = None) \<and>
        (\<exists>p \<in> set (plugins db). pg_id p = tk_plugin_id t \<and> pg_user_id p = tk_user_id t))"

lemma sorted_wrt_snoc: "sorted_wrt R (xs @ [x]) \<longleftrightarrow> sorted_wrt R xs \<and> (\<forall>y \<in> set xs. R y x)"
  by (auto simp: sorted_wrt_append)

lemma sorted_wrt_filter_any: "sorted_wrt R xs \<Longrightarrow> sorted_wrt R (filter P xs)"
  by (induction xs) auto

lemma create_mcp_server_ok:
  "extensions_ok db \<Longrightarrow> create_mcp_server u n b h f clk db = Inr (x, db') \<Longrightarrow> extensions_ok db'"
  by (auto simp: create_mcp_server_def Let_def extensions_ok_def sorted_wrt_snoc split: if_splits)

lemma create_skill_ok:
  "extensions_ok db \<Longrightarrow> create_skill u n d w b a f clk db = Inr (x, db') \<Longrightarrow> extensions_ok db'"
  by (auto simp: create_skill_def Let_def extensions_ok_def sorted_wrt_snoc split: if_splits)

lemma delete_mcp_server_ok:
  "extensions_ok db \<Longrightarrow> delete_mcp_server u i db = Inr (x, db') \<Longrightarrow> extensions_ok db'"
  by (auto simp: delete_mcp_server_def extensions_ok_def sorted_wrt_filter_any split: option.splits)

lemma delete_skill_ok:
  "extensions_ok db \<Longrightarrow> delete_skill u i db = Inr (x, db') \<Longrightarrow> extensions_ok db'"
  by (auto simp: delete_skill_def extensions_ok_def sorted_wrt_filter_any split: option.splits)

lemma delete_plugin_ok:
  assumes "extensions_ok db" and "delete_plugin u i db = Inr (x, db')"
  shows "extensions_ok db'" and "\<forall>t \<in> set (plugin_tasks db'). tk_plugin_id t \<noteq> i"
proof -
  have e: "db' = db\<lparr>plugins := filter (\<lambda>y. pg_id y \<noteq> i) (plugins db),
      plugin_tasks := filter (\<lambda>t. tk_plugin_id t \<noteq> i) (plugin_tasks db)\<rparr>"
    using assms(2) by (auto simp: delete_plugin_def split: option.splits)
  have "\<exists>p \<in> set (plugins db'). pg_id p = tk_plugin_id t \<and> pg_user_id p = tk_user_id t"
    if "t \<in> set (plugin_tasks db')" for t
    using that assms(1) unfolding e extensions_ok_def by fastforce
  then show "extensions_ok db'"
    using assms(1) by (auto simp: e extensions_ok_def sorted_wrt_filter_any)
  show "\<forall>t \<in> set (plugin_tasks db'). tk_plugin_id t \<noteq> i" by (simp add: e)
qed

lemma add_tasks_frame:
  "add_tasks p u k ts ids clk db = Inr db' \<Longrightarrow> plugins db' = plugins db \<and> users db' = users db \<and>
     mcp_servers db' = mcp_servers db \<and> skills db' = skills db \<and>
     (\<exists>new. plugin_tasks db' = plugin_tasks db @ new \<and> (\<forall>t \<in> set new. tk_plugin_id t = p \<and> tk_user_id t = u \<and>
        tk_lease_owner t = None \<and> tk_lease_expires_at t = None))"
proof (induction p u k ts ids clk db rule: add_tasks.induct)
  case (2 plugin user_id k kind i n ts ids clk db)
  then show ?case by (auto simp: Let_def split: if_splits)
qed auto

lemma add_tasks_sorted:
  "add_tasks p u k ts ids clk db = Inr db' \<Longrightarrow> sorted_wrt (\<lambda>a b. \<not> task_clash b a) (plugin_tasks db) \<Longrightarrow>
   sorted_wrt (\<lambda>a b. \<not> task_clash b a) (plugin_tasks db')"
  by (induction p u k ts ids clk db rule: add_tasks.induct)
    (auto simp: Let_def sorted_wrt_snoc split: if_splits)

lemma create_plugin_cases:
  assumes "create_plugin u n b h man f ids clk db = Inr (x, db')"
  obtains ts where "\<not> (\<exists>y \<in> set (plugins db). plugin_clash x y)" "pg_id x = f" "pg_user_id x = u"
    "manifest_tasks man = Inr ts"
    "add_tasks f u 0 ts ids clk (db\<lparr>plugins := plugins db @ [x]\<rparr>) = Inr db'"
proof -
  let ?x = "\<lparr>pg_id = f, pg_user_id = u, pg_name = n, pg_base_url = b, pg_encrypted_headers = h,
    pg_manifest = man, pg_enabled = True, pg_created_at = clk 0, pg_updated_at = clk 1\<rparr>"
  have free: "\<not> (\<exists>y \<in> set (plugins db). plugin_clash ?x y)" and x: "x = ?x"
    using assms by (auto simp: create_plugin_def Let_def split: if_splits sum.splits)
  obtain ts where "manifest_tasks man = Inr ts"
      "add_tasks f u 0 ts ids clk (db\<lparr>plugins := plugins db @ [?x]\<rparr>) = Inr db'"
    using assms by (auto simp: create_plugin_def Let_def split: if_splits sum.splits)
  then show ?thesis using free by (intro that) (simp_all add: x)
qed

lemma create_plugin_ok:
  assumes "extensions_ok db" and "create_plugin u n b h man f ids clk db = Inr (x, db')"
  shows "extensions_ok db'"
proof -
  obtain ts where c: "\<not> (\<exists>y \<in> set (plugins db). plugin_clash x y)" "pg_id x = f" "pg_user_id x = u"
    and a: "add_tasks f u 0 ts ids clk (db\<lparr>plugins := plugins db @ [x]\<rparr>) = Inr db'"
    using assms(2) by (rule create_plugin_cases)
  note fr = add_tasks_frame [OF a]
  have "sorted_wrt (\<lambda>a b. \<not> task_clash b a) (plugin_tasks db')"
    using add_tasks_sorted [OF a] assms(1) by (simp add: extensions_ok_def)
  then show ?thesis
    using fr assms(1) c by (auto simp: extensions_ok_def sorted_wrt_snoc)
qed

section \<open>The plugin tasks as a leased table\<close>

definition task_owner :: "cloud_db \<Rightarrow> uuid \<Rightarrow> pystr option" where
  "task_owner db i = (case row_by tk_id i (plugin_tasks db) of None \<Rightarrow> None | Some t \<Rightarrow> tk_lease_owner t)"

definition task_expires :: "cloud_db \<Rightarrow> uuid \<Rightarrow> instant option" where
  "task_expires db i =
     (case row_by tk_id i (plugin_tasks db) of None \<Rightarrow> None | Some t \<Rightarrow> tk_lease_expires_at t)"

definition tasks_distinct :: "cloud_db \<Rightarrow> bool" where
  "tasks_distinct db \<longleftrightarrow> distinct (map tk_id (plugin_tasks db))"

lemma extensions_tasks_distinct: "extensions_ok db \<Longrightarrow> tasks_distinct db"
proof -
  have "sorted_wrt (\<lambda>a b. \<not> task_clash b a) ts \<Longrightarrow> distinct (map tk_id ts)" for ts
    by (induction ts) (auto simp: task_clash_def)
  then show "extensions_ok db \<Longrightarrow> tasks_distinct db" by (simp add: extensions_ok_def tasks_distinct_def)
qed

definition task_claim :: "instant \<Rightarrow> pystr \<Rightarrow> cloud_db \<Rightarrow> uuid \<Rightarrow> cloud_db \<Rightarrow> bool" where
  "task_claim now w db i db' \<longleftrightarrow> extensions_ok db \<and>
     (\<exists>wid n clk locked t p. now = clk 0 \<and> w = take 200 wid \<and> tk_id t = i \<and>
        claim_next_plugin_task wid n clk locked db = (Some (t, p), db'))"

definition task_finish :: "pystr \<Rightarrow> cloud_db \<Rightarrow> uuid \<Rightarrow> cloud_db \<Rightarrow> bool" where
  "task_finish w db i db' \<longleftrightarrow> extensions_ok db \<and>
     (\<exists>wid err clk. w = take 200 wid \<and> finish_plugin_task i wid err clk db = Inr ((), db'))"

text \<open>Creating and deleting a plugin.\<close>

definition task_other :: "cloud_db \<Rightarrow> cloud_db \<Rightarrow> bool" where
  "task_other db db' \<longleftrightarrow> extensions_ok db \<and>
     ((\<exists>u n b h man f ids clk x. create_plugin u n b h man f ids clk db = Inr (x, db')) \<or>
      (\<exists>u i. delete_plugin u i db = Inr ((), db')))"

lemma task_owner_put:
  assumes "row_by tk_id (tk_id t) (plugin_tasks db) = Some x"
  shows "task_owner (put_task t db) i = (if i = tk_id t then tk_lease_owner t else task_owner db i)"
    and "task_expires (put_task t db) i = (if i = tk_id t then tk_lease_expires_at t else task_expires db i)"
  using assms by (simp_all add: task_owner_def task_expires_def row_by_put_row)

lemma claim_next_plugin_task_cases:
  assumes "claim_next_plugin_task w n clk locked db = (Some (t', p), db')"
  obtains t where "first_row (\<lambda>t. (tk_next_run_at t, tk_id t)) (task_due (clk 0) locked db) (plugin_tasks db) = Some t"
    "row_by pg_id (tk_plugin_id t) (plugins db) = Some p" "db' = put_task t' db"
    "t' = t\<lparr>tk_lease_owner := Some (take 200 w), tk_lease_expires_at := Some (clk 0 + seconds (max 10 n)),
            tk_updated_at := clk 1\<rparr>"
proof -
  obtain t where t: "first_row (\<lambda>t. (tk_next_run_at t, tk_id t)) (task_due (clk 0) locked db) (plugin_tasks db) = Some t"
    using assms by (auto simp: claim_next_plugin_task_def split: option.splits)
  obtain q where q: "row_by pg_id (tk_plugin_id t) (plugins db) = Some q"
    using assms t by (auto simp: claim_next_plugin_task_def split: option.splits)
  have "q = p \<and> db' = put_task t' db \<and>
    t' = t\<lparr>tk_lease_owner := Some (take 200 w), tk_lease_expires_at := Some (clk 0 + seconds (max 10 n)),
            tk_updated_at := clk 1\<rparr>"
    using assms by (auto simp: claim_next_plugin_task_def t q Let_def)
  then show ?thesis using that t q by blast
qed

lemma finish_plugin_task_cases:
  assumes "finish_plugin_task i w err clk db = Inr (x, db')"
  obtains t t' where "row_by tk_id i (plugin_tasks db) = Some t" "tk_lease_owner t = Some (take 200 w)"
    "db' = put_task t' db"
    "t' = t\<lparr>tk_next_run_at := clk 0 + seconds (tk_interval_seconds t), tk_lease_owner := None,
            tk_lease_expires_at := None, tk_last_error := take 500 err, tk_updated_at := clk 1\<rparr>"
proof -
  obtain t where t: "row_by tk_id i (plugin_tasks db) = Some t" "tk_lease_owner t = Some (take 200 w)"
    and d: "db' = put_task (t\<lparr>tk_next_run_at := clk 0 + seconds (tk_interval_seconds t), tk_lease_owner := None,
            tk_lease_expires_at := None, tk_last_error := take 500 err, tk_updated_at := clk 1\<rparr>) db"
    using assms by (auto simp: finish_plugin_task_def split: option.splits if_splits)
  show ?thesis by (rule that [OF t d refl])
qed

lemma put_task_ok:
  assumes ok: "extensions_ok db" and r: "row_by tk_id (tk_id t') (plugin_tasks db) = Some t"
    and same: "tk_plugin_id t' = tk_plugin_id t" "tk_user_id t' = tk_user_id t" "tk_task_id t' = tk_task_id t"
      "tk_kind t' = tk_kind t" and l: "tk_lease_owner t' = None \<longleftrightarrow> tk_lease_expires_at t' = None"
  shows "extensions_ok (put_task t' db)"
proof -
  have t: "t \<in> set (plugin_tasks db)" "tk_id t = tk_id t'" using row_by_SomeD [OF r] by auto
  have d: "distinct (map tk_id (plugin_tasks db))"
    using extensions_tasks_distinct [OF ok] by (simp add: tasks_distinct_def)
  let ?f = "\<lambda>x. if tk_id x = tk_id t' then t' else x"
  have cl: "task_clash (?f a) (?f b) = task_clash a b" if "a \<in> set (plugin_tasks db)" "b \<in> set (plugin_tasks db)" for a b
  proof -
    have "x = t" if "x \<in> set (plugin_tasks db)" "tk_id x = tk_id t'" for x
      using row_by_uniqueD [OF d r that] .
    then show ?thesis using that same by (auto simp: task_clash_def)
  qed
  have "sorted_wrt (\<lambda>a b. \<not> task_clash b a) (map ?f (plugin_tasks db))"
    unfolding sorted_wrt_map
  proof (rule sorted_wrt_mono_rel)
    show "sorted_wrt (\<lambda>a b. \<not> task_clash b a) (plugin_tasks db)" using ok by (simp add: extensions_ok_def)
  qed (simp only: cl not_False_eq_True)
  moreover have "(tk_lease_owner x = None \<longleftrightarrow> tk_lease_expires_at x = None) \<and>
      (\<exists>p \<in> set (plugins db). pg_id p = tk_plugin_id x \<and> pg_user_id p = tk_user_id x)"
    if "x \<in> set (put_row tk_id t' (plugin_tasks db))" for x
    using that
  proof (rule put_rowE)
    assume "x = t'"
    then show ?thesis using ok t(1) same(1,2) l unfolding extensions_ok_def by simp
  next
    assume "x \<in> set (plugin_tasks db)"
    then show ?thesis using ok unfolding extensions_ok_def by simp
  qed
  ultimately show ?thesis using ok by (simp add: extensions_ok_def put_row_def)
qed

lemma task_claim_effect:
  assumes "task_claim now w db i db'"
  shows "task_owner db' i = Some w" and "\<exists>e. task_expires db' i = Some e \<and> now < e"
    and "task_owner db i = Some v \<Longrightarrow> \<forall>e. task_expires db i = Some e \<longrightarrow> e \<le> now"
    and "k \<noteq> i \<Longrightarrow> task_owner db' k = task_owner db k" and "extensions_ok db'"
proof -
  obtain wid n clk locked t' p where ok: "extensions_ok db" and w: "now = clk 0" "w = take 200 wid" "tk_id t' = i"
    and cl: "claim_next_plugin_task wid n clk locked db = (Some (t', p), db')"
    using assms unfolding task_claim_def by blast
  obtain t where f: "first_row (\<lambda>t. (tk_next_run_at t, tk_id t)) (task_due (clk 0) locked db) (plugin_tasks db) = Some t"
    and db': "db' = put_task t' db"
    and t': "t' = t\<lparr>tk_lease_owner := Some (take 200 wid), tk_lease_expires_at := Some (clk 0 + seconds (max 10 n)),
            tk_updated_at := clk 1\<rparr>"
    using cl by (rule claim_next_plugin_task_cases)
  note s = first_row_SomeD(1,2) [OF f]
  have "row_by tk_id (tk_id t) (plugin_tasks db) = Some t"
    using extensions_tasks_distinct [OF ok] s(1) by (simp add: tasks_distinct_def row_by_unique)
  then have row: "row_by tk_id (tk_id t') (plugin_tasks db) = Some t" by (simp add: t')
  have "tk_lease_owner t' = Some w" "tk_lease_expires_at t' = Some (now + seconds (max 10 n))" by (simp_all add: t' w)
  then show "task_owner db' i = Some w" "\<exists>e. task_expires db' i = Some e \<and> now < e"
    and "k \<noteq> i \<Longrightarrow> task_owner db' k = task_owner db k"
    using task_owner_put [OF row] w(3) by (simp_all add: db' seconds_def)
  have "task_expires db i = tk_lease_expires_at t" using row w(3) by (simp add: task_expires_def)
  then show "task_owner db i = Some v \<Longrightarrow> \<forall>e. task_expires db i = Some e \<longrightarrow> e \<le> now"
    using s(2) w(1) by (auto simp: task_due_def)
  show "extensions_ok db'" unfolding db' by (rule put_task_ok [OF ok row]) (simp_all add: t')
qed

lemma task_finish_effect:
  assumes "task_finish w db i db'"
  shows "task_owner db i = Some w" and "task_owner db' i = None"
    and "k \<noteq> i \<Longrightarrow> task_owner db' k = task_owner db k" and "extensions_ok db'"
proof -
  obtain wid err clk where ok: "extensions_ok db" and w: "w = take 200 wid"
    and f: "finish_plugin_task i wid err clk db = Inr ((), db')"
    using assms by (auto simp: task_finish_def)
  obtain t t' where t: "row_by tk_id i (plugin_tasks db) = Some t" "tk_lease_owner t = Some (take 200 wid)"
    and db': "db' = put_task t' db"
    and t': "t' = t\<lparr>tk_next_run_at := clk 0 + seconds (tk_interval_seconds t), tk_lease_owner := None,
            tk_lease_expires_at := None, tk_last_error := take 500 err, tk_updated_at := clk 1\<rparr>"
    using f by (rule finish_plugin_task_cases)
  have id: "tk_id t' = i" "tk_lease_owner t' = None" using row_by_SomeD [OF t(1)] by (simp_all add: t')
  have row: "row_by tk_id (tk_id t') (plugin_tasks db) = Some t" using t(1) id by simp
  show "task_owner db i = Some w" using t w by (simp add: task_owner_def)
  show "task_owner db' i = None" "k \<noteq> i \<Longrightarrow> task_owner db' k = task_owner db k"
    unfolding db' task_owner_put(1) [OF row] using id by simp_all
  show "extensions_ok db'" unfolding db' by (rule put_task_ok [OF ok row]) (simp_all add: t')
qed

lemma task_other_effect:
  assumes "task_other db db'" and "task_owner db' k = Some v"
  shows "task_owner db k = Some v"
proof -
  consider (new) u n b h man f ids clk x where "create_plugin u n b h man f ids clk db = Inr (x, db')"
    | (del) u i where "delete_plugin u i db = Inr ((), db')"
    using assms(1) unfolding task_other_def by blast
  then show ?thesis
  proof cases
    case new
    then obtain ts where "add_tasks f u 0 ts ids clk (db\<lparr>plugins := plugins db @ [x]\<rparr>) = Inr db'"
      by (rule create_plugin_cases)
    from add_tasks_frame [OF this] obtain fresh where "plugin_tasks db' = plugin_tasks db @ fresh"
        "\<forall>t \<in> set fresh. tk_lease_owner t = None" by auto
    then show ?thesis using assms(2)
      by (auto simp: task_owner_def row_by_append split: option.splits dest: row_by_SomeD)
  next
    case del
    then have e: "plugin_tasks db' = filter (\<lambda>t. tk_plugin_id t \<noteq> i) (plugin_tasks db)"
      by (auto simp: delete_plugin_def split: option.splits)
    obtain t where t: "row_by tk_id k (plugin_tasks db') = Some t" "tk_lease_owner t = Some v"
      using assms(2) by (auto simp: task_owner_def split: option.splits)
    have d: "distinct (map tk_id (plugin_tasks db))"
      using assms(1) extensions_tasks_distinct by (auto simp: task_other_def tasks_distinct_def)
    have "t \<in> set (plugin_tasks db)" "tk_id t = k" using row_by_SomeD [OF t(1)] e by auto
    then have "row_by tk_id k (plugin_tasks db) = Some t" using row_by_unique [OF d] by blast
    then show ?thesis using t(2) by (simp add: task_owner_def)
  qed
qed

interpretation pq: leased_table task_owner task_expires task_claim task_finish task_other
proof
  fix now w s i s' j v
  show "task_claim now w s i s' \<Longrightarrow> task_owner s' i = Some w"
    by (rule task_claim_effect(1))
  show "task_claim now w s i s' \<Longrightarrow> \<exists>e. task_expires s' i = Some e \<and> now < e"
    by (rule task_claim_effect(2))
  show "task_claim now w s i s' \<Longrightarrow> task_owner s i = Some v \<Longrightarrow>
      \<forall>e. task_expires s i = Some e \<longrightarrow> e \<le> now"
    by (rule task_claim_effect(3))
  show "task_claim now w s i s' \<Longrightarrow> j \<noteq> i \<Longrightarrow> task_owner s' j = Some v \<Longrightarrow> task_owner s j = Some v"
    by (simp add: task_claim_effect(4))
  show "task_finish w s i s' \<Longrightarrow> task_owner s i = Some w"
    by (rule task_finish_effect(1))
  show "task_finish w s i s' \<Longrightarrow> task_owner s' i = None"
    by (rule task_finish_effect(2))
  show "task_finish w s i s' \<Longrightarrow> j \<noteq> i \<Longrightarrow> task_owner s' j = Some v \<Longrightarrow> task_owner s j = Some v"
    by (simp add: task_finish_effect(3))
  show "task_other s s' \<Longrightarrow> task_owner s' j = Some v \<Longrightarrow> task_owner s j = Some v"
    by (rule task_other_effect)
qed

end
