(* ===== verification/CloudSubagents.thy ===== *)
theory CloudSubagents
  imports CloudAdmission
begin

text \<open>
  Durable child-agent jobs: the operations of \<open>src/cloud/store.py\<close> and the tool and worker of
  \<open>src/cloud/subagents.py\<close> that drive them.  Where a query orders rows by a key that two rows can
  share, or not at all, \<open>tie\<close> is the order in which the database returns them.
\<close>

section \<open>Operations\<close>

definition sub_active :: "subagent_row \<Rightarrow> bool" where
  "sub_active s \<longleftrightarrow> sb_status s \<in> {SubQueued, SubRunning}"

definition active_subagents :: "uuid \<Rightarrow> subagent_row list \<Rightarrow> nat" where
  "active_subagents user_id rows = length (filter (\<lambda>s. sb_user_id s = user_id \<and> sub_active s) rows)"

abbreviation put_sub :: "subagent_row \<Rightarrow> cloud_db \<Rightarrow> cloud_db" where
  "put_sub s db \<equiv> db\<lparr>subagents := put_row sb_id s (subagents db)\<rparr>"

text \<open>\<open>seen\<close> is the snapshot of the job table the capacity count reads.\<close>

definition create_subagent_job ::
  "uuid \<Rightarrow> uuid \<Rightarrow> pystr \<Rightarrow> pystr \<Rightarrow> pystr \<Rightarrow> int \<Rightarrow> sub_status \<Rightarrow> subagent_row list \<Rightarrow> pystr \<Rightarrow> clock \<Rightarrow>
   cloud_db \<Rightarrow> (subagent_row \<times> cloud_db) res" where
  "create_subagent_job user_id conversation_id task label profile max_iterations status seen hex
       clk db =
     (case owned_conversation user_id conversation_id db of
        None \<Rightarrow> Inl (StoreNotFoundError (lit ''conversation not found''))
      | Some c \<Rightarrow>
          if 3 \<le> active_subagents user_id seen
          then Inl (StoreStateError (lit ''subagent capacity reached (limit 3 per user)''))
          else
            (let item = \<lparr>sb_id = lit ''sub_'' @ take 12 hex, sb_user_id = user_id,
                         sb_conversation_id = conversation_id, sb_task = task,
                         sb_label = take 200 label, sb_profile = profile,
                         sb_max_iterations = max_iterations, sb_status = status, sb_result = [],
                         sb_result_metadata = [], sb_lease_owner = None, sb_lease_expires_at = None,
                         sb_cancel_requested_at = None, sb_created_at = clk 1,
                         sb_started_at = (if status = SubRunning then Some (clk 0) else None),
                         sb_completed_at = None\<rparr>
             in if sb_id item \<in> sb_id ` set (subagents db) then Inl IntegrityError
                else Inr (item, db\<lparr>subagents := subagents db @ [item]\<rparr>)))"

definition list_subagent_jobs :: "uuid \<Rightarrow> (pystr \<Rightarrow> nat) \<Rightarrow> cloud_db \<Rightarrow> subagent_row list" where
  "list_subagent_jobs user_id tie db =
     take 100 (sort_key (\<lambda>s. (- sb_created_at s, tie (sb_id s)))
       (filter (\<lambda>s. sb_user_id s = user_id) (subagents db)))"

definition cancel_subagent_job ::
  "uuid \<Rightarrow> pystr \<Rightarrow> instant \<Rightarrow> cloud_db \<Rightarrow> (subagent_row \<times> cloud_db) res" where
  "cancel_subagent_job user_id task_id now db =
     (case find (\<lambda>s. sb_id s = task_id \<and> sb_user_id s = user_id) (subagents db) of
        None \<Rightarrow> Inl (StoreNotFoundError (lit ''subagent job not found''))
      | Some s \<Rightarrow>
          (let s' = (if sb_status s = SubQueued
                     then s\<lparr>sb_status := SubCancelled, sb_completed_at := Some now\<rparr>
                     else if sb_status s = SubRunning
                     then s\<lparr>sb_cancel_requested_at := Some now\<rparr> else s)
           in Inr (s', put_sub s' db)))"

text \<open>The running jobs whose lease ran out, at most twenty of them.\<close>

definition stale_subagents ::
  "instant \<Rightarrow> (pystr \<Rightarrow> nat) \<Rightarrow> pystr list \<Rightarrow> subagent_row list \<Rightarrow> subagent_row list" where
  "stale_subagents now tie locked rows =
     take 20 (sort_key (\<lambda>s. tie (sb_id s))
       (filter (\<lambda>s. sb_status s = SubRunning \<and>
            (case sb_lease_expires_at s of None \<Rightarrow> False | Some e \<Rightarrow> e < now) \<and>
            sb_id s \<notin> set locked) rows))"

definition requeued :: "subagent_row \<Rightarrow> subagent_row" where
  "requeued s = s\<lparr>sb_status := SubQueued, sb_lease_owner := None, sb_lease_expires_at := None\<rparr>"

definition requeue_stale :: "pystr list \<Rightarrow> subagent_row list \<Rightarrow> subagent_row list" where
  "requeue_stale ids rows = map (\<lambda>s. if sb_id s \<in> set ids then requeued s else s) rows"

definition leased_sub :: "pystr \<Rightarrow> instant \<Rightarrow> int \<Rightarrow> instant \<Rightarrow> subagent_row \<Rightarrow> subagent_row" where
  "leased_sub worker_id now lease_seconds started s =
     s\<lparr>sb_status := SubRunning, sb_started_at := Some started,
       sb_lease_owner := Some (take 200 worker_id),
       sb_lease_expires_at := Some (now + seconds (max 30 lease_seconds))\<rparr>"

definition claim_next_subagent_job ::
  "pystr \<Rightarrow> int \<Rightarrow> instant \<Rightarrow> (pystr \<Rightarrow> nat) \<Rightarrow> pystr list \<Rightarrow> cloud_db \<Rightarrow>
   subagent_row option \<times> cloud_db" where
  "claim_next_subagent_job worker_id lease_seconds now tie locked db =
     (let db1 = db\<lparr>subagents := requeue_stale
                 (map sb_id (stale_subagents now tie locked (subagents db))) (subagents db)\<rparr>
      in case first_row (\<lambda>s. (sb_created_at s, tie (sb_id s)))
                (\<lambda>s. sb_status s = SubQueued \<and> sb_id s \<notin> set locked) (subagents db1) of
           None \<Rightarrow> (None, db1)
         | Some s \<Rightarrow>
             (let s' = leased_sub worker_id now lease_seconds
                         (case sb_started_at s of None \<Rightarrow> now | Some t \<Rightarrow> t) s
              in (Some s', put_sub s' db1)))"

definition claim_subagent_job ::
  "pystr \<Rightarrow> pystr \<Rightarrow> int \<Rightarrow> instant \<Rightarrow> cloud_db \<Rightarrow> (subagent_row \<times> cloud_db) res" where
  "claim_subagent_job task_id worker_id lease_seconds now db =
     (case row_by sb_id task_id (subagents db) of
        None \<Rightarrow> Inl (StoreStateError (lit ''subagent job is not claimable''))
      | Some s \<Rightarrow>
          if sb_status s \<noteq> SubQueued
          then Inl (StoreStateError (lit ''subagent job is not claimable''))
          else (let s' = leased_sub worker_id now lease_seconds now s in Inr (s', put_sub s' db)))"

definition not_sub_owner :: py_error where
  "not_sub_owner = StoreStateError (lit ''subagent worker does not own this job'')"

definition heartbeat_subagent_job ::
  "pystr \<Rightarrow> pystr \<Rightarrow> int \<Rightarrow> instant \<Rightarrow> cloud_db \<Rightarrow> (bool \<times> cloud_db) res" where
  "heartbeat_subagent_job task_id worker_id lease_seconds now db =
     (case row_by sb_id task_id (subagents db) of
        None \<Rightarrow> Inl not_sub_owner
      | Some s \<Rightarrow>
          if sb_lease_owner s \<noteq> Some (take 200 worker_id) then Inl not_sub_owner
          else Inr (sb_cancel_requested_at s \<noteq> None,
                 put_sub (s\<lparr>sb_lease_expires_at := Some (now + seconds (max 30 lease_seconds))\<rparr>) db))"

definition cancelled_text :: pystr where
  "cancelled_text = [21518, 21488, 23376, 20219, 21153, 24050, 30001, 29992, 25143, 21462, 28040, 12290]"

definition finished_sub :: "sub_status \<Rightarrow> pystr \<Rightarrow> pydict \<Rightarrow> instant \<Rightarrow> subagent_row \<Rightarrow> subagent_row" where
  "finished_sub status result metadata now s =
     s\<lparr>sb_status := (if sb_cancel_requested_at s \<noteq> None then SubCancelled else status),
       sb_result := take 1000000 (if sb_cancel_requested_at s \<noteq> None then cancelled_text else result),
       sb_result_metadata := metadata, sb_lease_owner := None, sb_lease_expires_at := None,
       sb_completed_at := Some now\<rparr>"

definition finish_subagent_job ::
  "pystr \<Rightarrow> pystr \<Rightarrow> sub_status \<Rightarrow> pystr \<Rightarrow> pydict \<Rightarrow> bool \<Rightarrow> uuid \<Rightarrow> clock \<Rightarrow> cloud_db \<Rightarrow>
   (subagent_row \<times> cloud_db) res" where
  "finish_subagent_job task_id worker_id status result metadata deliver mid clk db =
     (case row_by sb_id task_id (subagents db) of
        None \<Rightarrow> Inl not_sub_owner
      | Some s \<Rightarrow>
          if sb_lease_owner s \<noteq> Some (take 200 worker_id) then Inl not_sub_owner
          else
            (let s' = finished_sub status result metadata (clk 0) s; db1 = put_sub s' db
             in if \<not> deliver then Inr (s', db1)
                else
                  (case row_by cv_id (sb_conversation_id s') (conversations db1) of
                     None \<Rightarrow> Inl (StoreNotFoundError (lit ''parent conversation not found''))
                   | Some c \<Rightarrow>
                       (case post_message mid c RoleAssistant
                               (lit ''['' @ [23376, 20195, 29702] @ lit '' '' @ or_else (sb_label s') (sb_id s') @ lit '']'' @ [10] @
                                sb_result s')
                               (dict_update [(lit ''subagent_job_id'', JStr (sb_id s'))] metadata)
                               (Some (lit ''subagent:'' @ sb_id s')) (clk 1) (clk 2) db1 of
                          Inl e \<Rightarrow> Inl e
                        | Inr (m, db2) \<Rightarrow> Inr (s', enqueue_channel_deliveries (clk 3) m db2)))))"

section \<open>The tool and the worker\<close>

text \<open>What \<open>spawn\<close> makes of its arguments: an error text, or the job it creates.\<close>

definition spawn_request ::
  "pystr \<Rightarrow> int \<Rightarrow> pystr \<Rightarrow> pystr \<Rightarrow> pystr \<Rightarrow> pystr + (pystr \<times> pystr \<times> int)" where
  "spawn_request task max_iterations mode label profile =
     (let t = strip task
      in if t = [] then Inl (lit ''Error: subagent task is empty'')
         else if mode \<noteq> lit ''inline'' \<and> mode \<noteq> lit ''background''
         then Inl (lit ''Error: mode must be inline or background'')
         else if profile \<notin> {lit ''research'', lit ''scripting'', lit ''general''}
         then Inl (lit ''Error: profile must be research, scripting, or general'')
         else Inr (t, or_else (strip label) (take 30 t), max 1 (min 20 max_iterations)))"

text \<open>\<open>run_once\<close> after its claim: the report of an execution that raised, or that returned.\<close>

definition settle_subagent ::
  "subagent_row \<Rightarrow> pystr \<Rightarrow> pystr + (sub_status \<times> pystr \<times> pydict) \<Rightarrow> uuid \<Rightarrow> clock \<Rightarrow> cloud_db \<Rightarrow>
   (subagent_row \<times> cloud_db) res" where
  "settle_subagent job worker_id outcome mid clk db =
     (case outcome of
        Inl summary \<Rightarrow> finish_subagent_job (sb_id job) worker_id SubFailed summary [] True mid clk db
      | Inr (status, result, metadata) \<Rightarrow>
          finish_subagent_job (sb_id job) worker_id status result metadata True mid clk db)"

section \<open>The invariant of the job table\<close>

definition sub_ok :: "subagent_row \<Rightarrow> bool" where
  "sub_ok s \<longleftrightarrow> (sb_lease_owner s = None \<longleftrightarrow> sb_lease_expires_at s = None) \<and>
     (sb_lease_owner s \<noteq> None \<longrightarrow> sb_status s = SubRunning)"

definition subs_ok :: "subagent_row list \<Rightarrow> bool" where
  "subs_ok rows \<longleftrightarrow> distinct (map sb_id rows) \<and> (\<forall>s \<in> set rows. sub_ok s) \<and>
     (\<forall>u. active_subagents u rows \<le> 3)"

lemma active_subagents_map:
  assumes "\<And>s. s \<in> set rows \<Longrightarrow> sb_user_id (f s) = sb_user_id s"
    and "\<And>s. s \<in> set rows \<Longrightarrow> sub_active (f s) \<Longrightarrow> sub_active s"
  shows "active_subagents u (map f rows) \<le> active_subagents u rows"
  using assms by (induction rows) (auto simp: active_subagents_def)

lemma subs_ok_map:
  assumes ok: "subs_ok rows" and f: "\<And>s. s \<in> set rows \<Longrightarrow> sb_id (f s) = sb_id s \<and> sb_user_id (f s) = sb_user_id s \<and>
      sub_ok (f s) \<and> (sub_active (f s) \<longrightarrow> sub_active s)"
  shows "subs_ok (map f rows)"
proof -
  have "map sb_id (map f rows) = map sb_id rows" using f by simp
  moreover have "active_subagents u (map f rows) \<le> 3" for u
  proof -
    have "active_subagents u (map f rows) \<le> active_subagents u rows"
      by (rule active_subagents_map) (use f in blast)+
    then show ?thesis using ok unfolding subs_ok_def by (meson order_trans)
  qed
  ultimately show ?thesis using ok f unfolding subs_ok_def by (metis (no_types, lifting) imageE list.set_map)
qed

lemma subs_ok_put:
  assumes ok: "subs_ok rows" and r: "row_by sb_id (sb_id s') rows = Some s"
    and u: "sb_user_id s' = sb_user_id s" and s: "sub_ok s'" and a: "sub_active s' \<Longrightarrow> sub_active s"
  shows "subs_ok (put_row sb_id s' rows)"
  unfolding put_row_def
proof (rule subs_ok_map [OF ok])
  fix x assume x: "x \<in> set rows"
  show "sb_id (if sb_id x = sb_id s' then s' else x) = sb_id x \<and>
    sb_user_id (if sb_id x = sb_id s' then s' else x) = sb_user_id x \<and>
    sub_ok (if sb_id x = sb_id s' then s' else x) \<and>
    (sub_active (if sb_id x = sb_id s' then s' else x) \<longrightarrow> sub_active x)"
  proof (cases "sb_id x = sb_id s'")
    case True
    have "distinct (map sb_id rows)" using ok by (simp add: subs_ok_def)
    then have "x = s" using r x True by (rule row_by_uniqueD)
    then show ?thesis using True u s a by simp
  next
    case False
    then show ?thesis using ok x by (simp add: subs_ok_def)
  qed
qed

lemma subs_row:
  assumes "subs_ok rows" "row_by sb_id i rows = Some s"
  shows "s \<in> set rows" "sb_id s = i" "sub_ok s"
  using assms row_by_SomeD [OF assms(2)] by (auto simp: subs_ok_def)

lemma requeue_stale_ok: "subs_ok rows \<Longrightarrow> subs_ok (requeue_stale (map sb_id (stale_subagents now tie locked rows)) rows)"
  unfolding requeue_stale_def
proof (rule subs_ok_map)
  fix s assume ok: "subs_ok rows" and s: "s \<in> set rows"
  have stale: "x \<in> set rows \<and> sb_status x = SubRunning" if "x \<in> set (stale_subagents now tie locked rows)" for x
    using in_set_takeD [OF that [unfolded stale_subagents_def]] by simp
  have "sub_active s" if hit: "sb_id s \<in> set (map sb_id (stale_subagents now tie locked rows))"
  proof -
    obtain x where x: "x \<in> set (stale_subagents now tie locked rows)" "sb_id x = sb_id s" using hit by auto
    have "distinct (map sb_id rows)" using ok by (simp add: subs_ok_def)
    then have "x = s" using s stale [OF x(1)] x(2) by (metis row_by_unique row_by_uniqueD)
    then show ?thesis using stale [OF x(1)] by (simp add: sub_active_def)
  qed
  then show "sb_id (if sb_id s \<in> set (map sb_id (stale_subagents now tie locked rows)) then requeued s else s) = sb_id s \<and>
    sb_user_id (if sb_id s \<in> set (map sb_id (stale_subagents now tie locked rows)) then requeued s else s) = sb_user_id s \<and>
    sub_ok (if sb_id s \<in> set (map sb_id (stale_subagents now tie locked rows)) then requeued s else s) \<and>
    (sub_active (if sb_id s \<in> set (map sb_id (stale_subagents now tie locked rows)) then requeued s else s) \<longrightarrow>
      sub_active s)"
    using ok s by (auto simp: requeued_def sub_ok_def subs_ok_def)
qed

lemma create_subagent_job_ok:
  assumes ok: "subs_ok (subagents db)" and st: "status = SubQueued"
    and c: "create_subagent_job u cid t l p n status (subagents db) hex clk db = Inr (s, db')"
  shows "subs_ok (subagents db')"
proof -
  have less: "active_subagents u (subagents db) < 3" and new: "sb_id s \<notin> sb_id ` set (subagents db)"
    and s: "sb_user_id s = u" "sub_ok s" and e: "db' = db\<lparr>subagents := subagents db @ [s]\<rparr>"
    using c st by (auto simp: create_subagent_job_def Let_def sub_ok_def split: option.splits if_splits)
  have "active_subagents v (subagents db @ [s]) \<le> 3" for v
  proof (cases "v = u")
    case True
    then show ?thesis using less by (simp add: active_subagents_def)
  next
    case False
    then have "active_subagents v (subagents db @ [s]) = active_subagents v (subagents db)"
      using s(1) by (simp add: active_subagents_def)
    then show ?thesis using ok by (simp add: subs_ok_def)
  qed
  then show ?thesis using ok new s(2) by (auto simp: e subs_ok_def)
qed

lemma cancel_subagent_job_ok:
  assumes ok: "subs_ok (subagents db)" and c: "cancel_subagent_job u i now db = Inr (s', db')"
  shows "subs_ok (subagents db')"
proof -
  obtain s where s: "find (\<lambda>s. sb_id s = i \<and> sb_user_id s = u) (subagents db) = Some s"
    and s': "s' = (if sb_status s = SubQueued then s\<lparr>sb_status := SubCancelled, sb_completed_at := Some now\<rparr>
                   else if sb_status s = SubRunning then s\<lparr>sb_cancel_requested_at := Some now\<rparr> else s)"
    and e: "db' = put_sub s' db"
    using c by (auto simp: cancel_subagent_job_def Let_def split: option.splits)
  have m: "s \<in> set (subagents db)" using s by (auto simp: find_Some_iff)
  then have r: "row_by sb_id (sb_id s') (subagents db) = Some s" "sub_ok s"
    using ok s' by (auto simp: subs_ok_def row_by_unique)
  have "sub_ok s'" using r(2) s' by (auto simp: sub_ok_def)
  moreover have "sub_active s' \<Longrightarrow> sub_active s" "sb_user_id s' = sb_user_id s"
    using s' by (auto simp: sub_active_def split: if_splits)
  ultimately show ?thesis using subs_ok_put [OF ok r(1)] by (simp add: e)
qed

lemma claim_next_subagent_job_cases:
  assumes "claim_next_subagent_job w n now tie locked db = (Some s', db')"
  obtains rows s st where "rows = requeue_stale (map sb_id (stale_subagents now tie locked (subagents db))) (subagents db)"
    "first_row (\<lambda>s. (sb_created_at s, tie (sb_id s))) (\<lambda>s. sb_status s = SubQueued \<and> sb_id s \<notin> set locked) rows = Some s"
    "s' = leased_sub w now n st s" "db' = db\<lparr>subagents := put_row sb_id s' rows\<rparr>"
proof -
  let ?rows = "requeue_stale (map sb_id (stale_subagents now tie locked (subagents db))) (subagents db)"
  obtain s where s: "first_row (\<lambda>s. (sb_created_at s, tie (sb_id s)))
      (\<lambda>s. sb_status s = SubQueued \<and> sb_id s \<notin> set locked) ?rows = Some s"
    using assms by (auto simp: claim_next_subagent_job_def Let_def split: option.splits)
  have "s' = leased_sub w now n (case sb_started_at s of None \<Rightarrow> now | Some t \<Rightarrow> t) s \<and>
      db' = db\<lparr>subagents := put_row sb_id s' ?rows\<rparr>"
    using assms by (auto simp: claim_next_subagent_job_def s Let_def)
  then show ?thesis using that [OF refl s] by blast
qed

lemma leased_sub_simps [simp]:
  "sb_id (leased_sub w now n st s) = sb_id s" "sb_user_id (leased_sub w now n st s) = sb_user_id s"
  "sub_ok (leased_sub w now n st s)" "sub_active (leased_sub w now n st s)"
  "sb_lease_owner (leased_sub w now n st s) = Some (take 200 w)"
  "sb_lease_expires_at (leased_sub w now n st s) = Some (now + seconds (max 30 n))"
  by (simp_all add: leased_sub_def sub_ok_def sub_active_def)

lemma claim_next_subagent_job_ok:
  assumes ok: "subs_ok (subagents db)" and c: "claim_next_subagent_job w n now tie locked db = (r, db')"
  shows "subs_ok (subagents db')"
proof (cases r)
  case None
  then show ?thesis using c requeue_stale_ok [OF ok]
    by (auto simp: claim_next_subagent_job_def Let_def split: option.splits)
next
  case (Some s')
  show ?thesis
  proof (rule claim_next_subagent_job_cases [OF c [unfolded Some]])
    fix rows s st
    assume rows: "rows = requeue_stale (map sb_id (stale_subagents now tie locked (subagents db))) (subagents db)"
      and f: "first_row (\<lambda>s. (sb_created_at s, tie (sb_id s))) (\<lambda>s. sb_status s = SubQueued \<and> sb_id s \<notin> set locked) rows = Some s"
      and s': "s' = leased_sub w now n st s" and e: "db' = db\<lparr>subagents := put_row sb_id s' rows\<rparr>"
    have okr: "subs_ok rows" unfolding rows by (rule requeue_stale_ok [OF ok])
    note m = first_row_SomeD(1,2) [OF f]
    have r: "row_by sb_id (sb_id s') rows = Some s" using okr m(1) by (simp add: s' subs_ok_def row_by_unique)
    have "subs_ok (put_row sb_id s' rows)"
      by (rule subs_ok_put [OF okr r]) (use m(2) in \<open>simp_all add: s' sub_active_def\<close>)
    then show ?thesis by (simp add: e)
  qed
qed

lemma claim_subagent_job_ok:
  assumes ok: "subs_ok (subagents db)" and c: "claim_subagent_job i w n now db = Inr (s', db')"
  shows "subs_ok (subagents db')"
proof -
  obtain s where s: "row_by sb_id i (subagents db) = Some s" "sb_status s = SubQueued"
    and e: "s' = leased_sub w now n now s" "db' = put_sub s' db"
    using c by (auto simp: claim_subagent_job_def Let_def split: option.splits if_splits)
  have r: "row_by sb_id (sb_id s') (subagents db) = Some s" using s(1) row_by_SomeD [OF s(1)] by (simp add: e(1))
  have "subs_ok (put_row sb_id s' (subagents db))"
    by (rule subs_ok_put [OF ok r]) (use s(2) in \<open>simp_all add: e(1) sub_active_def\<close>)
  then show ?thesis by (simp add: e(2))
qed

lemma heartbeat_subagent_job_ok:
  assumes ok: "subs_ok (subagents db)" and c: "heartbeat_subagent_job i w n now db = Inr (b, db')"
  shows "subs_ok (subagents db')"
proof -
  obtain s where s: "row_by sb_id i (subagents db) = Some s" "sb_lease_owner s = Some (take 200 w)"
    and e: "db' = put_sub (s\<lparr>sb_lease_expires_at := Some (now + seconds (max 30 n))\<rparr>) db"
    using c by (auto simp: heartbeat_subagent_job_def split: option.splits if_splits)
  let ?s = "s\<lparr>sb_lease_expires_at := Some (now + seconds (max 30 n))\<rparr>"
  note m = subs_row [OF ok s(1)]
  have r: "row_by sb_id (sb_id ?s) (subagents db) = Some s" using s(1) m(2) by simp
  have "subs_ok (put_row sb_id ?s (subagents db))"
    by (rule subs_ok_put [OF ok r]) (use m(3) s(2) in \<open>simp_all add: sub_ok_def sub_active_def\<close>)
  then show ?thesis by (simp add: e)
qed

lemma finish_subagent_job_cases:
  assumes "finish_subagent_job i w st res meta dl mid clk db = Inr (s', db')"
  obtains s where "row_by sb_id i (subagents db) = Some s" "sb_lease_owner s = Some (take 200 w)"
    "s' = finished_sub st res meta (clk 0) s" "subagents db' = put_row sb_id s' (subagents db)"
    "\<not> dl \<Longrightarrow> db' = put_sub s' db"
    "dl \<Longrightarrow> \<exists>c m db2. row_by cv_id (sb_conversation_id s') (conversations db) = Some c \<and>
       post_message mid c RoleAssistant
         (lit ''['' @ [23376, 20195, 29702] @ lit '' '' @ or_else (sb_label s') (sb_id s') @ lit '']'' @ [10] @ sb_result s')
         (dict_update [(lit ''subagent_job_id'', JStr (sb_id s'))] meta)
         (Some (lit ''subagent:'' @ sb_id s')) (clk 1) (clk 2) (put_sub s' db) = Inr (m, db2) \<and>
       db' = enqueue_channel_deliveries (clk 3) m db2"
proof -
  obtain s where s: "row_by sb_id i (subagents db) = Some s" "sb_lease_owner s = Some (take 200 w)"
    using assms by (auto simp: finish_subagent_job_def split: option.splits if_splits)
  have s': "s' = finished_sub st res meta (clk 0) s"
    using assms s by (auto simp: finish_subagent_job_def Let_def split: option.splits if_splits sum.splits)
  show ?thesis
  proof (cases dl)
    case False
    then have "db' = put_sub s' db" using assms s s' by (auto simp: finish_subagent_job_def Let_def)
    then show ?thesis using that [OF s s'] False by simp
  next
    case True
    obtain c where c: "row_by cv_id (sb_conversation_id s') (conversations db) = Some c"
      using assms s s' True by (auto simp: finish_subagent_job_def Let_def split: option.splits)
    obtain m db2 where p: "post_message mid c RoleAssistant
         (lit ''['' @ [23376, 20195, 29702] @ lit '' '' @ or_else (sb_label s') (sb_id s') @ lit '']'' @ [10] @ sb_result s')
         (dict_update [(lit ''subagent_job_id'', JStr (sb_id s'))] meta)
         (Some (lit ''subagent:'' @ sb_id s')) (clk 1) (clk 2) (put_sub s' db) = Inr (m, db2)"
      and e: "db' = enqueue_channel_deliveries (clk 3) m db2"
      using assms s s' True c by (auto simp: finish_subagent_job_def Let_def split: sum.splits)
    have "subagents db' = put_row sb_id s' (subagents db)"
      using post_messageD(2) [OF p] by (simp add: e frame_simps)
    then show ?thesis using that [OF s s'] True c p e by blast
  qed
qed

lemma finished_sub_simps [simp]:
  "sb_id (finished_sub st res meta t s) = sb_id s" "sb_user_id (finished_sub st res meta t s) = sb_user_id s"
  "sub_ok (finished_sub st res meta t s)" "sb_lease_owner (finished_sub st res meta t s) = None"
  by (simp_all add: finished_sub_def sub_ok_def)

lemma finish_subagent_job_ok:
  assumes ok: "subs_ok (subagents db)" and f: "finish_subagent_job i w st res meta dl mid clk db = Inr (s', db')"
  shows "subs_ok (subagents db')"
  using f
proof (rule finish_subagent_job_cases)
  fix s
  assume s: "row_by sb_id i (subagents db) = Some s" "sb_lease_owner s = Some (take 200 w)"
    and s': "s' = finished_sub st res meta (clk 0) s" and e: "subagents db' = put_row sb_id s' (subagents db)"
  note m = subs_row [OF ok s(1)]
  have r: "row_by sb_id (sb_id s') (subagents db) = Some s" using s(1) m(2) by (simp add: s')
  have "sub_active s" using m(3) s(2) by (simp add: sub_ok_def sub_active_def)
  then have "subs_ok (put_row sb_id s' (subagents db))" by (intro subs_ok_put [OF ok r]) (simp_all add: s')
  then show ?thesis by (simp add: e)
qed

section \<open>The job table as a leased table\<close>

definition sub_owner :: "cloud_db \<Rightarrow> pystr \<Rightarrow> pystr option" where
  "sub_owner db i = (case row_by sb_id i (subagents db) of None \<Rightarrow> None | Some s \<Rightarrow> sb_lease_owner s)"

definition sub_expires :: "cloud_db \<Rightarrow> pystr \<Rightarrow> instant option" where
  "sub_expires db i = (case row_by sb_id i (subagents db) of None \<Rightarrow> None | Some s \<Rightarrow> sb_lease_expires_at s)"

definition sub_claim :: "instant \<Rightarrow> pystr \<Rightarrow> cloud_db \<Rightarrow> pystr \<Rightarrow> cloud_db \<Rightarrow> bool" where
  "sub_claim now w db i db' \<longleftrightarrow> subs_ok (subagents db) \<and>
     (\<exists>wid n s. w = take 200 wid \<and> sb_id s = i \<and>
        ((\<exists>tie locked. claim_next_subagent_job wid n now tie locked db = (Some s, db')) \<or>
         claim_subagent_job i wid n now db = Inr (s, db')))"

definition sub_finish :: "pystr \<Rightarrow> cloud_db \<Rightarrow> pystr \<Rightarrow> cloud_db \<Rightarrow> bool" where
  "sub_finish w db i db' \<longleftrightarrow> subs_ok (subagents db) \<and>
     (\<exists>wid st res meta dl mid clk s. w = take 200 wid \<and>
        finish_subagent_job i wid st res meta dl mid clk db = Inr (s, db'))"

text \<open>Creating, cancelling and renewing jobs, and a claim that finds only expired jobs to requeue.\<close>

definition sub_other :: "cloud_db \<Rightarrow> cloud_db \<Rightarrow> bool" where
  "sub_other db db' \<longleftrightarrow> subs_ok (subagents db) \<and>
     ((\<exists>u c t l p n seen hex clk s. create_subagent_job u c t l p n SubQueued seen hex clk db = Inr (s, db')) \<or>
      (\<exists>u i now s. cancel_subagent_job u i now db = Inr (s, db')) \<or>
      (\<exists>i wid n now b. heartbeat_subagent_job i wid n now db = Inr (b, db')) \<or>
      (\<exists>wid n now tie locked. claim_next_subagent_job wid n now tie locked db = (None, db')))"

lemma sub_owner_put:
  assumes "row_by sb_id (sb_id s') (subagents db) = Some s"
  shows "sub_owner (put_sub s' db) j = (if j = sb_id s' then sb_lease_owner s' else sub_owner db j)"
    and "sub_expires (put_sub s' db) j = (if j = sb_id s' then sb_lease_expires_at s' else sub_expires db j)"
  using assms by (simp_all add: sub_owner_def sub_expires_def row_by_put_row)

lemma row_by_requeue_stale:
  "row_by sb_id i (requeue_stale ids rows) =
     map_option (\<lambda>s. if sb_id s \<in> set ids then requeued s else s) (row_by sb_id i rows)"
  unfolding requeue_stale_def by (induction rows) (auto simp: row_by_def requeued_def)

lemma sub_owner_requeue:
  "sub_owner (db\<lparr>subagents := requeue_stale ids (subagents db)\<rparr>) j = Some v \<Longrightarrow> sub_owner db j = Some v"
  by (auto simp: sub_owner_def row_by_requeue_stale requeued_def split: option.splits if_splits)

lemma stale_subagentsD:
  "s \<in> set (stale_subagents now tie locked rows) \<Longrightarrow>
     s \<in> set rows \<and> sb_status s = SubRunning \<and> (\<exists>e. sb_lease_expires_at s = Some e \<and> e < now)"
  unfolding stale_subagents_def by (drule in_set_takeD) (auto split: option.splits)

text \<open>What either claim does to the row it hands out.\<close>

lemma sub_claim_cases:
  assumes c: "sub_claim now w db i db'"
  obtains db1 s s' where "subs_ok (subagents db1)" "row_by sb_id i (subagents db1) = Some s"
    "sb_status s = SubQueued" "sb_id s' = i" "sb_lease_owner s' = Some w"
    "\<exists>e. sb_lease_expires_at s' = Some e \<and> now < e" "db' = put_sub s' db1"
    "\<And>j v. sub_owner db1 j = Some v \<Longrightarrow> sub_owner db j = Some v"
    "sub_owner db i = None \<or> (\<exists>e. sub_expires db i = Some e \<and> e < now)"
proof -
  obtain wid n s' where ok: "subs_ok (subagents db)" and w: "w = take 200 wid" and i: "sb_id s' = i"
    and cl: "(\<exists>tie locked. claim_next_subagent_job wid n now tie locked db = (Some s', db')) \<or>
         claim_subagent_job i wid n now db = Inr (s', db')"
    using c unfolding sub_claim_def by blast
  have free: "sub_owner db i = None" if "row_by sb_id i (subagents db) = Some s" "sb_status s = SubQueued" for s
    using that subs_row(3) [OF ok that(1)] by (auto simp: sub_owner_def sub_ok_def)
  from cl show ?thesis
  proof
    assume "\<exists>tie locked. claim_next_subagent_job wid n now tie locked db = (Some s', db')"
    then obtain tie locked where nx: "claim_next_subagent_job wid n now tie locked db = (Some s', db')" by blast
    show ?thesis
    proof (rule claim_next_subagent_job_cases [OF nx])
      fix rows s st
      let ?ids = "map sb_id (stale_subagents now tie locked (subagents db))"
      assume rows: "rows = requeue_stale ?ids (subagents db)"
        and f: "first_row (\<lambda>s. (sb_created_at s, tie (sb_id s))) (\<lambda>s. sb_status s = SubQueued \<and> sb_id s \<notin> set locked) rows = Some s"
        and s': "s' = leased_sub wid now n st s" and e: "db' = db\<lparr>subagents := put_row sb_id s' rows\<rparr>"
      define db1 where "db1 = db\<lparr>subagents := rows\<rparr>"
      have okr: "subs_ok rows" unfolding rows by (rule requeue_stale_ok [OF ok])
      note m = first_row_SomeD(1,2) [OF f]
      have d: "distinct (map sb_id rows)" using okr by (simp add: subs_ok_def)
      have r: "row_by sb_id i rows = Some s" using row_by_unique [OF d m(1)] i by (simp add: s')
      have fr: "sub_owner db i = None \<or> (\<exists>e. sub_expires db i = Some e \<and> e < now)"
      proof -
        obtain x where x: "row_by sb_id i (subagents db) = Some x" "s = (if sb_id x \<in> set ?ids then requeued x else x)"
          using r unfolding rows row_by_requeue_stale by auto
        show ?thesis
        proof (cases "sb_id x \<in> set ?ids")
          case True
          then obtain y where y: "y \<in> set (stale_subagents now tie locked (subagents db))" "sb_id y = sb_id x" by auto
          have "distinct (map sb_id (subagents db))" using ok by (simp add: subs_ok_def)
          then have "y = x" using stale_subagentsD [OF y(1)] x(1) y(2) subs_row(2) [OF ok x(1)]
            by (metis row_by_uniqueD)
          then show ?thesis using stale_subagentsD [OF y(1)] x(1) by (auto simp: sub_expires_def)
        next
          case False
          then show ?thesis using free x m(2) by simp
        qed
      qed
      have own: "sub_owner db1 j = Some v \<Longrightarrow> sub_owner db j = Some v" for j v
        unfolding db1_def rows by (rule sub_owner_requeue)
      show ?thesis
        by (rule that [of db1 s s']) (use okr r m(2) i fr own in \<open>simp_all add: db1_def s' w e seconds_def\<close>)
    qed
  next
    assume "claim_subagent_job i wid n now db = Inr (s', db')"
    then obtain s where s: "row_by sb_id i (subagents db) = Some s" "sb_status s = SubQueued"
      and e: "s' = leased_sub wid now n now s" "db' = put_sub s' db"
      by (auto simp: claim_subagent_job_def Let_def split: option.splits if_splits)
    have l: "sb_lease_owner s' = Some w" "\<exists>e. sb_lease_expires_at s' = Some e \<and> now < e"
      by (simp_all add: e(1) w seconds_def)
    show ?thesis by (rule that [OF ok s i l e(2)]) (simp_all add: free [OF s])
  qed
qed

lemma sub_claim_effect:
  assumes c: "sub_claim now w db i db'"
  shows "sub_owner db' i = Some w" and "\<exists>e. sub_expires db' i = Some e \<and> now < e"
    and "sub_owner db i = Some v \<Longrightarrow> \<forall>e. sub_expires db i = Some e \<longrightarrow> e \<le> now"
    and "k \<noteq> i \<Longrightarrow> sub_owner db' k = Some u \<Longrightarrow> sub_owner db k = Some u"
proof -
  have "sub_owner db' i = Some w \<and> (\<exists>e. sub_expires db' i = Some e \<and> now < e) \<and>
    (sub_owner db i = None \<or> (\<exists>e. sub_expires db i = Some e \<and> e < now)) \<and>
    (\<forall>k u. k \<noteq> i \<longrightarrow> sub_owner db' k = Some u \<longrightarrow> sub_owner db k = Some u)"
  proof (rule sub_claim_cases [OF c])
    fix db1 s s'
    assume r: "row_by sb_id i (subagents db1) = Some s"
      and s': "sb_id s' = i" "sb_lease_owner s' = Some w" "\<exists>e. sb_lease_expires_at s' = Some e \<and> now < e"
      and e: "db' = put_sub s' db1" and own: "\<And>j v. sub_owner db1 j = Some v \<Longrightarrow> sub_owner db j = Some v"
      and fr: "sub_owner db i = None \<or> (\<exists>e. sub_expires db i = Some e \<and> e < now)"
    have row: "row_by sb_id (sb_id s') (subagents db1) = Some s" using r s'(1) by simp
    show ?thesis unfolding e sub_owner_put [OF row] using s' own fr by simp
  qed
  then show "sub_owner db' i = Some w" "\<exists>e. sub_expires db' i = Some e \<and> now < e"
    "sub_owner db i = Some v \<Longrightarrow> \<forall>e. sub_expires db i = Some e \<longrightarrow> e \<le> now"
    "k \<noteq> i \<Longrightarrow> sub_owner db' k = Some u \<Longrightarrow> sub_owner db k = Some u" by auto
qed

lemma sub_finish_effect:
  assumes "sub_finish w db i db'"
  shows "sub_owner db i = Some w" and "sub_owner db' i = None"
    and "k \<noteq> i \<Longrightarrow> sub_owner db' k = sub_owner db k"
proof -
  obtain wid st res meta dl mid clk s' where ok: "subs_ok (subagents db)" and w: "w = take 200 wid"
    and f: "finish_subagent_job i wid st res meta dl mid clk db = Inr (s', db')"
    using assms unfolding sub_finish_def by blast
  obtain s where s: "row_by sb_id i (subagents db) = Some s" "sb_lease_owner s = Some (take 200 wid)"
    and s': "s' = finished_sub st res meta (clk 0) s" and e: "subagents db' = put_row sb_id s' (subagents db)"
    using f by (rule finish_subagent_job_cases)
  have i: "sb_id s' = i" using subs_row(2) [OF ok s(1)] by (simp add: s')
  have row: "row_by sb_id (sb_id s') (subagents db) = Some s" using s(1) i by simp
  have put: "sub_owner db' j = sub_owner (put_sub s' db) j" for j by (simp add: sub_owner_def e)
  show "sub_owner db i = Some w" using s w by (simp add: sub_owner_def)
  show "sub_owner db' i = None" "k \<noteq> i \<Longrightarrow> sub_owner db' k = sub_owner db k"
    unfolding put sub_owner_put(1) [OF row] using i by (simp_all add: s')
qed

lemma sub_other_effect:
  assumes o: "sub_other db db'" and v: "sub_owner db' k = Some v"
  shows "sub_owner db k = Some v"
proof -
  have ok: "subs_ok (subagents db)" using o by (simp add: sub_other_def)
  consider (new) u c t l p n seen hex clk s where "create_subagent_job u c t l p n SubQueued seen hex clk db = Inr (s, db')"
    | (cancel) u i now s where "cancel_subagent_job u i now db = Inr (s, db')"
    | (beat) i wid n now b where "heartbeat_subagent_job i wid n now db = Inr (b, db')"
    | (idle) wid n now tie locked where "claim_next_subagent_job wid n now tie locked db = (None, db')"
    using o unfolding sub_other_def by (elim conjE disjE exE)
  then show ?thesis
  proof cases
    case new
    then have "db' = db\<lparr>subagents := subagents db @ [s]\<rparr>" "sb_lease_owner s = None"
      by (auto simp: create_subagent_job_def Let_def split: option.splits if_splits)
    then show ?thesis using v
      by (auto simp: sub_owner_def row_by_append split: option.splits if_splits)
  next
    case cancel
    obtain x where x: "find (\<lambda>s. sb_id s = i \<and> sb_user_id s = u) (subagents db) = Some x"
      and s: "sb_id s = sb_id x" "sb_lease_owner s = sb_lease_owner x" and e: "db' = put_sub s db"
      using cancel by (auto simp: cancel_subagent_job_def Let_def split: option.splits if_splits)
    have "x \<in> set (subagents db)" using x by (auto simp: find_Some_iff)
    then have row: "row_by sb_id (sb_id s) (subagents db) = Some x"
      using ok s(1) by (auto simp: subs_ok_def row_by_unique)
    show ?thesis using v row s unfolding e sub_owner_put(1) [OF row]
      by (auto simp: sub_owner_def split: if_splits)
  next
    case beat
    obtain x where x: "row_by sb_id i (subagents db) = Some x"
      and e: "db' = put_sub (x\<lparr>sb_lease_expires_at := Some (now + seconds (max 30 n))\<rparr>) db"
      using beat by (auto simp: heartbeat_subagent_job_def split: option.splits if_splits)
    let ?x = "x\<lparr>sb_lease_expires_at := Some (now + seconds (max 30 n))\<rparr>"
    have row: "row_by sb_id (sb_id ?x) (subagents db) = Some x" using x subs_row(2) [OF ok x] by simp
    show ?thesis using v row unfolding e sub_owner_put(1) [OF row]
      by (auto simp: sub_owner_def split: if_splits)
  next
    case idle
    then have "db' = db\<lparr>subagents := requeue_stale (map sb_id (stale_subagents now tie locked (subagents db))) (subagents db)\<rparr>"
      by (auto simp: claim_next_subagent_job_def Let_def split: option.splits)
    then show ?thesis using v sub_owner_requeue by blast
  qed
qed

interpretation sa: leased_table sub_owner sub_expires sub_claim sub_finish sub_other
proof
  fix now w s i s' j v
  show "sub_claim now w s i s' \<Longrightarrow> sub_owner s' i = Some w" by (rule sub_claim_effect(1))
  show "sub_claim now w s i s' \<Longrightarrow> \<exists>e. sub_expires s' i = Some e \<and> now < e" by (rule sub_claim_effect(2))
  show "sub_claim now w s i s' \<Longrightarrow> sub_owner s i = Some v \<Longrightarrow> \<forall>e. sub_expires s i = Some e \<longrightarrow> e \<le> now"
    by (rule sub_claim_effect(3))
  show "sub_claim now w s i s' \<Longrightarrow> j \<noteq> i \<Longrightarrow> sub_owner s' j = Some v \<Longrightarrow> sub_owner s j = Some v"
    by (rule sub_claim_effect(4))
  show "sub_finish w s i s' \<Longrightarrow> sub_owner s i = Some w" by (rule sub_finish_effect(1))
  show "sub_finish w s i s' \<Longrightarrow> sub_owner s' i = None" by (rule sub_finish_effect(2))
  show "sub_finish w s i s' \<Longrightarrow> j \<noteq> i \<Longrightarrow> sub_owner s' j = Some v \<Longrightarrow> sub_owner s j = Some v"
    by (simp add: sub_finish_effect(3))
  show "sub_other s s' \<Longrightarrow> sub_owner s' j = Some v \<Longrightarrow> sub_owner s j = Some v" by (rule sub_other_effect)
qed

end
