(* ===== verification/PluginGenerations.thy ===== *)
theory PluginGenerations
  imports KPrelude PySha256 "HOL-Library.AList" "HOL-Library.Multiset"
begin

text \<open>
  Per-plugin generations, \<open>src/agent/plugins/generation.py\<close>.  A generation is a mutable object
  that turns hold leases on, so the registry keeps a heap of generations and refers to them by
  address; a Python dict is an association list, updated in place as \<open>AList.update\<close> does.
\<close>

section \<open>Gates\<close>

record semantic_check =
  ck_id :: pystr
  ck_passed :: bool
  ck_detail :: pystr

datatype gate_status = GatePassed | GateFailed

record gate_result =
  gt_plugin_id :: pystr
  gt_candidate_revision :: pystr
  gt_status :: gate_status
  gt_checks :: "semantic_check list"
  gt_failure_reason :: pystr

definition from_checks :: "pystr \<Rightarrow> pystr \<Rightarrow> semantic_check list \<Rightarrow> gate_result" where
  "from_checks plugin_id revision checks =
     (let failed = filter (\<lambda>c. \<not> ck_passed c) checks
      in \<lparr>gt_plugin_id = plugin_id, gt_candidate_revision = revision,
          gt_status = (if failed \<noteq> [] then GateFailed else GatePassed), gt_checks = checks,
          gt_failure_reason =
            py_join (lit ''; '') (map (\<lambda>c. ck_id c @ lit '': '' @ ck_detail c) failed)\<rparr>)"

definition gate_passed :: "gate_result \<Rightarrow> bool" where
  "gate_passed g \<longleftrightarrow> gt_status g = GatePassed"

lemma gate_passed_iff: "gate_passed (from_checks p r cs) \<longleftrightarrow> (\<forall>c \<in> set cs. ck_passed c)"
  by (auto simp: gate_passed_def from_checks_def Let_def filter_empty_conv)

section \<open>Generations\<close>

datatype gen_state = Compiled | Active | Retired | Quiesced

fun gen_state_text :: "gen_state \<Rightarrow> pystr" where
  "gen_state_text Compiled = lit ''compiled''"
| "gen_state_text Active = lit ''active''"
| "gen_state_text Retired = lit ''retired''"
| "gen_state_text Quiesced = lit ''quiesced''"

record generation =
  gn_plugin_id :: pystr
  gn_generation_id :: pystr
  gn_source_revision :: pystr
  gn_config_revision :: pystr
  gn_gate_result :: gate_result
  gn_state :: gen_state
  gn_lease_count :: int

definition compute_generation_id :: "pystr \<Rightarrow> pystr \<Rightarrow> pystr \<Rightarrow> pystr option" where
  "compute_generation_id plugin_id source_revision config_revision =
     map_option (take 16)
       (sha256_text (plugin_id @ lit ''|'' @ source_revision @ lit ''|'' @ config_revision))"

definition can_quiesce :: "generation \<Rightarrow> bool" where
  "can_quiesce g \<longleftrightarrow> gn_state g = Retired \<and> gn_lease_count g \<le> 0"

definition acquire :: "generation \<Rightarrow> generation res" where
  "acquire g =
     (if gn_state g \<noteq> Compiled \<and> gn_state g \<noteq> Active
      then Inl (RuntimeError (lit ''plugin generation '' @ [19981, 20877, 25509, 21463, 31199, 32422] @ lit '': '' @ gn_plugin_id g @
                      lit '' ('' @ gen_state_text (gn_state g) @ lit '')''))
      else Inr (g\<lparr>gn_lease_count := gn_lease_count g + 1\<rparr>))"

definition release :: "generation \<Rightarrow> generation res" where
  "release g =
     (if gn_lease_count g \<le> 0
      then Inl (RuntimeError (lit ''plugin generation '' @ [31199, 32422, 37325, 22797, 37322, 25918] @ lit '': '' @ gn_plugin_id g))
      else Inr (g\<lparr>gn_lease_count := gn_lease_count g - 1\<rparr>))"

section \<open>The registry\<close>

record registry =
  rg_heap :: "generation list"
  rg_current :: "(pystr \<times> nat) list"
  rg_retired :: "nat list"
  rg_publishing :: bool

definition empty_registry :: registry where
  "empty_registry = \<lparr>rg_heap = [], rg_current = [], rg_retired = [], rg_publishing = False\<rparr>"

definition gen_at :: "registry \<Rightarrow> nat \<Rightarrow> generation" where
  "gen_at rg a = rg_heap rg ! a"

definition set_gen :: "nat \<Rightarrow> generation \<Rightarrow> registry \<Rightarrow> registry" where
  "set_gen a g rg = rg\<lparr>rg_heap := (rg_heap rg)[a := g]\<rparr>"

definition set_state :: "gen_state \<Rightarrow> nat \<Rightarrow> registry \<Rightarrow> registry" where
  "set_state st a rg = set_gen a ((gen_at rg a)\<lparr>gn_state := st\<rparr>) rg"

definition begin_publication :: "registry \<Rightarrow> registry res" where
  "begin_publication rg =
     (if rg_publishing rg
      then Inl (RuntimeError (lit ''plugin publication transaction already in flight''))
      else Inr (rg\<lparr>rg_publishing := True\<rparr>))"

definition finish_publication :: "registry \<Rightarrow> registry" where
  "finish_publication rg = rg\<lparr>rg_publishing := False\<rparr>"

definition active_gens :: "registry \<Rightarrow> nat list" where
  "active_gens rg = map (\<lambda>k. the (map_of (rg_current rg) k)) (sort (map fst (rg_current rg)))"

text \<open>A candidate is a freshly built object: publishing it allocates its address.\<close>

definition publish :: "generation \<Rightarrow> registry \<Rightarrow> (nat option \<times> registry) res" where
  "publish g rg =
     (if \<not> gate_passed (gn_gate_result g)
      then Inl (ValueError (lit ''plugin gate '' @ [26410, 36890, 36807] @ lit '','' @ [25298, 32477, 21457, 24067, 20195, 38469] @ lit '': '' @ gn_plugin_id g @
                      lit '' ('' @ gt_failure_reason (gn_gate_result g) @ lit '')''))
      else
        (let a = length (rg_heap rg);
             previous = map_of (rg_current rg) (gn_plugin_id g);
             rg1 = rg\<lparr>rg_heap := rg_heap rg @ [g\<lparr>gn_state := Active\<rparr>],
                      rg_current := AList.update (gn_plugin_id g) a (rg_current rg)\<rparr>
         in case previous of
              None \<Rightarrow> Inr (None, rg1)
            | Some p \<Rightarrow>
                Inr (Some p, (set_state Retired p rg1)\<lparr>rg_retired := rg_retired rg1 @ [p]\<rparr>)))"

definition retire :: "pystr \<Rightarrow> registry \<Rightarrow> nat option \<times> registry" where
  "retire plugin_id rg =
     (case map_of (rg_current rg) plugin_id of
        None \<Rightarrow> (None, rg)
      | Some a \<Rightarrow>
          (Some a, (set_state Retired a rg)\<lparr>rg_current := AList.delete plugin_id (rg_current rg),
                      rg_retired := rg_retired rg @ [a]\<rparr>))"

fun retire_each :: "nat list \<Rightarrow> registry \<Rightarrow> registry" where
  "retire_each [] rg = rg"
| "retire_each (a # as') rg =
     retire_each as' ((set_state Retired a rg)\<lparr>rg_retired := rg_retired rg @ [a]\<rparr>)"

definition retire_all :: "registry \<Rightarrow> nat list \<times> registry" where
  "retire_all rg =
     (let rg1 = (retire_each (map snd (rg_current rg)) rg)\<lparr>rg_current := []\<rparr>
      in (rg_retired rg1, rg1))"

definition drain_quiescible :: "registry \<Rightarrow> nat list \<times> registry" where
  "drain_quiescible rg =
     (let ready = filter (\<lambda>a. can_quiesce (gen_at rg a)) (rg_retired rg)
      in if ready = [] then ([], rg)
         else (ready, fold (set_state Quiesced) ready
                 (rg\<lparr>rg_retired := filter (\<lambda>a. a \<notin> set ready) (rg_retired rg)\<rparr>)))"

text \<open>Taking a lease on each active generation in turn: the addresses leased so far, the error
  that stopped the loop if one did, and the registry it leaves.\<close>

fun acquire_each :: "nat list \<Rightarrow> nat list \<Rightarrow> registry \<Rightarrow> nat list \<times> py_error option \<times> registry" where
  "acquire_each leased [] rg = (leased, None, rg)"
| "acquire_each leased (a # as') rg =
     (case acquire (gen_at rg a) of
        Inl e \<Rightarrow> (leased, Some e, rg)
      | Inr g \<Rightarrow> acquire_each (leased @ [a]) as' (set_gen a g rg))"

text \<open>The release loop of \<open>lease_active\<close> logs a failing release and goes on; the one of
  \<open>lease_committed\<close> stops at it.\<close>

fun release_each :: "nat list \<Rightarrow> registry \<Rightarrow> registry" where
  "release_each [] rg = rg"
| "release_each (a # as') rg =
     (case release (gen_at rg a) of
        Inl e \<Rightarrow> release_each as' rg
      | Inr g \<Rightarrow> release_each as' (set_gen a g rg))"

fun release_strict :: "nat list \<Rightarrow> registry \<Rightarrow> py_error option \<times> registry" where
  "release_strict [] rg = (None, rg)"
| "release_strict (a # as') rg =
     (case release (gen_at rg a) of
        Inl e \<Rightarrow> (Some e, rg)
      | Inr g \<Rightarrow> release_strict as' (set_gen a g rg))"

definition enter_lease_active :: "registry \<Rightarrow> nat list res \<times> registry" where
  "enter_lease_active rg =
     (case acquire_each [] (active_gens rg) rg of
        (leased, Some e, rg1) \<Rightarrow> (Inl e, release_each (rev leased) rg1)
      | (leased, None, rg1) \<Rightarrow> (Inr leased, rg1))"

definition exit_lease_active :: "nat list \<Rightarrow> registry \<Rightarrow> registry" where
  "exit_lease_active leased rg = release_each (rev leased) rg"

text \<open>\<open>None\<close>: the caller waits until the publication in progress ends.\<close>

definition enter_lease_committed :: "registry \<Rightarrow> (nat list res \<times> registry) option" where
  "enter_lease_committed rg =
     (if rg_publishing rg then None
      else Some (case acquire_each [] (active_gens rg) rg of
        (leased, Some e, rg1) \<Rightarrow> (Inl e, rg1)
      | (leased, None, rg1) \<Rightarrow> (Inr leased, rg1)))"

definition exit_lease_committed :: "nat list \<Rightarrow> registry \<Rightarrow> py_error option \<times> registry" where
  "exit_lease_committed leased rg = release_strict (rev leased) rg"

section \<open>Leases as arithmetic on the heap\<close>

text \<open>\<open>add_leases d xs rg\<close> adds \<open>d\<close> leases to a generation for each occurrence of its address in
  \<open>xs\<close>: the specification of the acquire and release loops.\<close>

definition add_leases :: "int \<Rightarrow> nat list \<Rightarrow> registry \<Rightarrow> registry" where
  "add_leases d xs rg =
     rg\<lparr>rg_heap := map (\<lambda>a. (gen_at rg a)\<lparr>gn_lease_count :=
           gn_lease_count (gen_at rg a) + d * int (count_list xs a)\<rparr>) [0..<length (rg_heap rg)]\<rparr>"

named_theorems reg_simps "what the registry operations leave alone"

lemma set_gen_frame [reg_simps]:
  "rg_current (set_gen a g rg) = rg_current rg" "rg_retired (set_gen a g rg) = rg_retired rg"
  "rg_publishing (set_gen a g rg) = rg_publishing rg" "length (rg_heap (set_gen a g rg)) = length (rg_heap rg)"
  "a < length (rg_heap rg) \<Longrightarrow> gen_at (set_gen a g rg) b = (if b = a then g else gen_at rg b)"
  by (auto simp: set_gen_def gen_at_def nth_list_update)

lemma set_state_frame [reg_simps]:
  "rg_current (set_state st a rg) = rg_current rg" "rg_retired (set_state st a rg) = rg_retired rg"
  "rg_publishing (set_state st a rg) = rg_publishing rg"
  "length (rg_heap (set_state st a rg)) = length (rg_heap rg)"
  "a < length (rg_heap rg) \<Longrightarrow> gen_at (set_state st a rg) b =
     (if b = a then (gen_at rg a)\<lparr>gn_state := st\<rparr> else gen_at rg b)"
  by (simp_all add: set_state_def reg_simps)

lemma gen_id_set_state: "gn_generation_id (gen_at (set_state st p rg) a) = gn_generation_id (gen_at rg a)"
  by (cases "p < length (rg_heap rg)")
    (auto simp: set_state_def set_gen_def gen_at_def nth_list_update list_update_beyond)

lemma gen_at_frame [reg_simps]:
  "gen_at (rg\<lparr>rg_current := c\<rparr>) a = gen_at rg a" "gen_at (rg\<lparr>rg_retired := r\<rparr>) a = gen_at rg a"
  "gen_at (rg\<lparr>rg_publishing := p\<rparr>) a = gen_at rg a"
  by (simp_all add: gen_at_def)

lemma add_leases_frame [reg_simps]:
  "rg_current (add_leases d xs rg) = rg_current rg" "rg_retired (add_leases d xs rg) = rg_retired rg"
  "rg_publishing (add_leases d xs rg) = rg_publishing rg"
  "length (rg_heap (add_leases d xs rg)) = length (rg_heap rg)"
  "a < length (rg_heap rg) \<Longrightarrow> gen_at (add_leases d xs rg) a =
     (gen_at rg a)\<lparr>gn_lease_count := gn_lease_count (gen_at rg a) + d * int (count_list xs a)\<rparr>"
  by (simp_all add: add_leases_def gen_at_def)

lemma registry_eqI:
  assumes "length (rg_heap r1) = length (rg_heap r2)"
    and "\<And>a. a < length (rg_heap r1) \<Longrightarrow> gen_at r1 a = gen_at r2 a"
    and "rg_current r1 = rg_current r2" "rg_retired r1 = rg_retired r2" "rg_publishing r1 = rg_publishing r2"
  shows "r1 = r2"
proof -
  have "rg_heap r1 = rg_heap r2" using assms(1,2) by (auto simp: gen_at_def intro: nth_equalityI)
  then show ?thesis using assms(3-5) by simp
qed

lemma add_leases_Nil [simp]: "add_leases d [] rg = rg"
  by (rule registry_eqI) (simp_all add: reg_simps)

lemma add_leases_Cons:
  assumes "a < length (rg_heap rg)"
  shows "add_leases d (a # xs) rg = add_leases d xs
    (set_gen a ((gen_at rg a)\<lparr>gn_lease_count := gn_lease_count (gen_at rg a) + d\<rparr>) rg)"
  using assms by (intro registry_eqI) (simp_all add: reg_simps algebra_simps)

lemma acquire_each_eq:
  assumes "\<forall>a \<in> set xs. a < length (rg_heap rg) \<and> gn_state (gen_at rg a) = Active"
  shows "acquire_each leased xs rg = (leased @ xs, None, add_leases 1 xs rg)"
  using assms
proof (induction xs arbitrary: leased rg)
  case (Cons a xs)
  have a: "a < length (rg_heap rg)" "gn_state (gen_at rg a) = Active" using Cons.prems by simp_all
  let ?g = "(gen_at rg a)\<lparr>gn_lease_count := gn_lease_count (gen_at rg a) + 1\<rparr>"
  have "\<forall>b \<in> set xs. b < length (rg_heap (set_gen a ?g rg)) \<and> gn_state (gen_at (set_gen a ?g rg) b) = Active"
    using Cons.prems a by (auto simp: reg_simps)
  from Cons.IH [OF this] show ?case using a by (simp add: acquire_def add_leases_Cons)
qed simp

lemma release_eq_both:
  assumes "\<forall>a \<in> set xs. a < length (rg_heap rg) \<and> int (count_list xs a) \<le> gn_lease_count (gen_at rg a)"
  shows "release_each xs rg = add_leases (- 1) xs rg \<and> release_strict xs rg = (None, add_leases (- 1) xs rg)"
  using assms
proof (induction xs arbitrary: rg)
  case (Cons a xs)
  have a: "a < length (rg_heap rg)" "1 + int (count_list xs a) \<le> gn_lease_count (gen_at rg a)"
    using Cons.prems by simp_all
  let ?g = "(gen_at rg a)\<lparr>gn_lease_count := gn_lease_count (gen_at rg a) - 1\<rparr>"
  have "\<forall>b \<in> set xs. b < length (rg_heap (set_gen a ?g rg)) \<and>
      int (count_list xs b) \<le> gn_lease_count (gen_at (set_gen a ?g rg) b)"
    using Cons.prems a by (auto simp: reg_simps split: if_splits)
  note ih = Cons.IH [OF this]
  have "\<not> gn_lease_count (gen_at rg a) \<le> 0" using a(2) by linarith
  then show ?case using a ih by (simp add: release_def add_leases_Cons)
qed simp

lemmas release_eq = release_eq_both [THEN conjunct1] release_eq_both [THEN conjunct2]

section \<open>The invariant of the registry and the turns that hold leases\<close>

definition current_ok :: "registry \<Rightarrow> bool" where
  "current_ok rg \<longleftrightarrow> distinct (map fst (rg_current rg)) \<and>
     (\<forall>(k, a) \<in> set (rg_current rg). a < length (rg_heap rg) \<and> gn_plugin_id (gen_at rg a) = k \<and>
        gn_state (gen_at rg a) = Active)"

definition retired_ok :: "registry \<Rightarrow> bool" where
  "retired_ok rg \<longleftrightarrow> distinct (rg_retired rg) \<and>
     (\<forall>a \<in> set (rg_retired rg). a < length (rg_heap rg) \<and> gn_state (gen_at rg a) = Retired) \<and>
     (\<forall>a < length (rg_heap rg). gn_state (gen_at rg a) = Retired \<longrightarrow> a \<in> set (rg_retired rg))"

definition counts_ok :: "registry \<Rightarrow> nat list list \<Rightarrow> bool" where
  "counts_ok rg ts \<longleftrightarrow> (\<forall>t \<in> set ts. \<forall>a \<in> set t. a < length (rg_heap rg)) \<and>
     (\<forall>a < length (rg_heap rg). gn_lease_count (gen_at rg a) = int (count_list (concat ts) a)) \<and>
     (\<forall>a < length (rg_heap rg). gn_state (gen_at rg a) = Quiesced \<longrightarrow> gn_lease_count (gen_at rg a) = 0)"

definition gens_ok :: "registry \<Rightarrow> nat list list \<Rightarrow> bool" where
  "gens_ok rg ts \<longleftrightarrow> current_ok rg \<and> retired_ok rg \<and> counts_ok rg ts"

text \<open>The steps of the registry and of the turns: \<open>ts\<close> lists the leases of the open turns.\<close>

inductive gen_step :: "registry \<times> nat list list \<Rightarrow> registry \<times> nat list list \<Rightarrow> bool" where
  turn_begin: "enter_lease_active rg = (Inr l, rg') \<Longrightarrow> gen_step (rg, ts) (rg', ts @ [l])"
| turn_commit: "enter_lease_committed rg = Some (Inr l, rg') \<Longrightarrow> gen_step (rg, ts) (rg', ts @ [l])"
| turn_end: "gen_step (rg, ts @ l # us) (exit_lease_active l rg, ts @ us)"
| turn_end_committed:
    "exit_lease_committed l rg = (None, rg') \<Longrightarrow> gen_step (rg, ts @ l # us) (rg', ts @ us)"
| gen_publish: "gn_lease_count g = 0 \<Longrightarrow> publish g rg = Inr (p, rg') \<Longrightarrow> gen_step (rg, ts) (rg', ts)"
| gen_retire: "gen_step (rg, ts) (snd (retire k rg), ts)"
| gen_retire_all: "gen_step (rg, ts) (snd (retire_all rg), ts)"
| gen_drain: "gen_step (rg, ts) (snd (drain_quiescible rg), ts)"
| gen_begin: "begin_publication rg = Inr rg' \<Longrightarrow> gen_step (rg, ts) (rg', ts)"
| gen_finish: "gen_step (rg, ts) (finish_publication rg, ts)"

lemma active_gens_mem:
  assumes "current_ok rg"
  shows "set (active_gens rg) = snd ` set (rg_current rg)" "distinct (active_gens rg)"
    and "\<forall>a \<in> set (active_gens rg). a < length (rg_heap rg) \<and> gn_state (gen_at rg a) = Active"
proof -
  have d: "distinct (map fst (rg_current rg))" using assms by (simp add: current_ok_def)
  have val: "the (map_of (rg_current rg) k) = a" if "(k, a) \<in> set (rg_current rg)" for k a
    using that d by (simp add: map_of_eq_Some_iff)
  show s: "set (active_gens rg) = snd ` set (rg_current rg)"
  proof -
    have "set (active_gens rg) = (\<lambda>k. the (map_of (rg_current rg) k)) ` fst ` set (rg_current rg)"
      by (simp add: active_gens_def)
    also have "\<dots> = (\<lambda>p. the (map_of (rg_current rg) (fst p))) ` set (rg_current rg)"
      by (simp add: image_image)
    also have "\<dots> = snd ` set (rg_current rg)"
      by (rule image_cong) (use val in \<open>auto\<close>)
    finally show ?thesis .
  qed
  have "inj_on (\<lambda>k. the (map_of (rg_current rg) k)) (fst ` set (rg_current rg))"
  proof (rule inj_onI)
    fix k l assume kl: "k \<in> fst ` set (rg_current rg)" "l \<in> fst ` set (rg_current rg)"
      and e: "the (map_of (rg_current rg) k) = the (map_of (rg_current rg) l)"
    obtain a where a: "(k, a) \<in> set (rg_current rg)" using kl(1) by auto
    obtain b where b: "(l, b) \<in> set (rg_current rg)" using kl(2) by auto
    have "a = b" using e unfolding val [OF a] val [OF b] .
    moreover have "gn_plugin_id (gen_at rg a) = k" "gn_plugin_id (gen_at rg b) = l"
      using a b assms unfolding current_ok_def by blast+
    ultimately show "k = l" by simp
  qed
  then show "distinct (active_gens rg)" using d by (simp add: active_gens_def distinct_map)
  show "\<forall>a \<in> set (active_gens rg). a < length (rg_heap rg) \<and> gn_state (gen_at rg a) = Active"
    using assms unfolding s current_ok_def by force
qed

lemma enter_lease_active_eq:
  assumes "current_ok rg"
  shows "enter_lease_active rg = (Inr (active_gens rg), add_leases 1 (active_gens rg) rg)"
    and "\<not> rg_publishing rg \<Longrightarrow>
      enter_lease_committed rg = Some (Inr (active_gens rg), add_leases 1 (active_gens rg) rg)"
  using acquire_each_eq [OF active_gens_mem(3) [OF assms], of "[]"]
  by (simp_all add: enter_lease_active_def enter_lease_committed_def)

lemma count_list_concat_split:
  "count_list (concat (ts @ l # us)) a = count_list (concat (ts @ us)) a + count_list l a"
  by (simp add: count_list_append)

lemma exit_lease_eq:
  assumes "counts_ok rg (ts @ l # us)"
  shows "exit_lease_active l rg = add_leases (- 1) l rg" "exit_lease_committed l rg = (None, add_leases (- 1) l rg)"
proof -
  have "\<forall>a \<in> set (rev l). a < length (rg_heap rg) \<and> int (count_list (rev l) a) \<le> gn_lease_count (gen_at rg a)"
    using assms by (auto simp: counts_ok_def count_list_concat_split)
  moreover have "add_leases (- 1) (rev l) rg = add_leases (- 1) l rg" by (simp add: add_leases_def)
  ultimately show "exit_lease_active l rg = add_leases (- 1) l rg"
      "exit_lease_committed l rg = (None, add_leases (- 1) l rg)"
    using release_eq [of "rev l" rg] by (simp_all add: exit_lease_active_def exit_lease_committed_def)
qed

lemma gens_okI:
  assumes "distinct (map fst (rg_current rg))"
    and "\<And>k a. (k, a) \<in> set (rg_current rg) \<Longrightarrow>
      a < length (rg_heap rg) \<and> gn_plugin_id (gen_at rg a) = k \<and> gn_state (gen_at rg a) = Active"
    and "distinct (rg_retired rg)"
    and "\<And>a. a \<in> set (rg_retired rg) \<Longrightarrow> a < length (rg_heap rg) \<and> gn_state (gen_at rg a) = Retired"
    and "\<And>a. a < length (rg_heap rg) \<Longrightarrow> gn_state (gen_at rg a) = Retired \<Longrightarrow> a \<in> set (rg_retired rg)"
    and "\<And>t a. t \<in> set ts \<Longrightarrow> a \<in> set t \<Longrightarrow> a < length (rg_heap rg)"
    and "\<And>a. a < length (rg_heap rg) \<Longrightarrow> gn_lease_count (gen_at rg a) = int (count_list (concat ts) a)"
    and "\<And>a. a < length (rg_heap rg) \<Longrightarrow> gn_state (gen_at rg a) = Quiesced \<Longrightarrow> gn_lease_count (gen_at rg a) = 0"
  shows "gens_ok rg ts"
  using assms unfolding gens_ok_def current_ok_def retired_ok_def counts_ok_def by blast

lemma gens_okD:
  assumes "gens_ok rg ts"
  shows "distinct (map fst (rg_current rg))"
    and "(k, a) \<in> set (rg_current rg) \<Longrightarrow>
      a < length (rg_heap rg) \<and> gn_plugin_id (gen_at rg a) = k \<and> gn_state (gen_at rg a) = Active"
    and "distinct (rg_retired rg)"
    and "a \<in> set (rg_retired rg) \<Longrightarrow> a < length (rg_heap rg) \<and> gn_state (gen_at rg a) = Retired"
    and "a < length (rg_heap rg) \<Longrightarrow> gn_state (gen_at rg a) = Retired \<Longrightarrow> a \<in> set (rg_retired rg)"
    and "t \<in> set ts \<Longrightarrow> a \<in> set t \<Longrightarrow> a < length (rg_heap rg)"
    and "a < length (rg_heap rg) \<Longrightarrow> gn_lease_count (gen_at rg a) = int (count_list (concat ts) a)"
    and "a < length (rg_heap rg) \<Longrightarrow> gn_state (gen_at rg a) = Quiesced \<Longrightarrow> gn_lease_count (gen_at rg a) = 0"
  using assms unfolding gens_ok_def current_ok_def retired_ok_def counts_ok_def by blast+

text \<open>Leases of a new turn on active generations, and the end of a turn.\<close>

lemma gens_ok_lease:
  assumes ok: "gens_ok rg ts" and l: "\<forall>a \<in> set l. a < length (rg_heap rg) \<and> gn_state (gen_at rg a) = Active"
  shows "gens_ok (add_leases 1 l rg) (ts @ [l])"
proof (rule gens_okI)
  fix a assume "a < length (rg_heap (add_leases 1 l rg))"
  then have a: "a < length (rg_heap rg)" by (simp add: reg_simps)
  show "gn_lease_count (gen_at (add_leases 1 l rg) a) = int (count_list (concat (ts @ [l])) a)"
    using gens_okD(7) [OF ok a] a by (simp add: reg_simps count_list_append)
  show "gn_state (gen_at (add_leases 1 l rg) a) = Retired \<Longrightarrow> a \<in> set (rg_retired (add_leases 1 l rg))"
    using gens_okD(5) [OF ok a] a by (simp add: reg_simps)
  assume q: "gn_state (gen_at (add_leases 1 l rg) a) = Quiesced"
  then have "a \<notin> set l" using l a by (auto simp: reg_simps)
  then show "gn_lease_count (gen_at (add_leases 1 l rg) a) = 0"
    using q a gens_okD(8) [OF ok a] by (simp add: reg_simps)
next
  fix t a assume "t \<in> set (ts @ [l])" "a \<in> set t"
  then show "a < length (rg_heap (add_leases 1 l rg))"
    using gens_okD(6) [OF ok, of t a] l by (auto simp: reg_simps)
next
  fix k a assume "(k, a) \<in> set (rg_current (add_leases 1 l rg))"
  then show "a < length (rg_heap (add_leases 1 l rg)) \<and> gn_plugin_id (gen_at (add_leases 1 l rg) a) = k \<and>
      gn_state (gen_at (add_leases 1 l rg) a) = Active"
    using gens_okD(2) [OF ok, of k a] by (simp add: reg_simps)
next
  fix a assume "a \<in> set (rg_retired (add_leases 1 l rg))"
  then show "a < length (rg_heap (add_leases 1 l rg)) \<and> gn_state (gen_at (add_leases 1 l rg) a) = Retired"
    using gens_okD(4) [OF ok, of a] by (simp add: reg_simps)
qed (simp_all add: reg_simps gens_okD(1,3) [OF ok])

lemma gens_ok_unlease:
  assumes ok: "gens_ok rg (ts @ l # us)"
  shows "gens_ok (add_leases (- 1) l rg) (ts @ us)"
proof (rule gens_okI)
  fix a assume a: "a < length (rg_heap (add_leases (- 1) l rg))"
  then have c: "gn_lease_count (gen_at rg a) = int (count_list (concat (ts @ us)) a + count_list l a)"
    using gens_okD(7) [OF ok, of a] by (simp only: reg_simps count_list_concat_split)
  have a': "a < length (rg_heap rg)" using a by (simp add: reg_simps)
  show "gn_lease_count (gen_at (add_leases (- 1) l rg) a) = int (count_list (concat (ts @ us)) a)"
    using a' c by (simp add: reg_simps)
  show "gn_state (gen_at (add_leases (- 1) l rg) a) = Retired \<Longrightarrow> a \<in> set (rg_retired (add_leases (- 1) l rg))"
    using gens_okD(5) [OF ok a'] a' by (simp add: reg_simps)
  assume "gn_state (gen_at (add_leases (- 1) l rg) a) = Quiesced"
  then have "gn_lease_count (gen_at rg a) = 0" using a' gens_okD(8) [OF ok a'] by (simp add: reg_simps)
  then show "gn_lease_count (gen_at (add_leases (- 1) l rg) a) = 0" using a' c by (simp add: reg_simps)
next
  fix t a assume "t \<in> set (ts @ us)" "a \<in> set t"
  then show "a < length (rg_heap (add_leases (- 1) l rg))"
    using gens_okD(6) [OF ok, of t a] by (auto simp: reg_simps)
next
  fix k a assume "(k, a) \<in> set (rg_current (add_leases (- 1) l rg))"
  then show "a < length (rg_heap (add_leases (- 1) l rg)) \<and>
      gn_plugin_id (gen_at (add_leases (- 1) l rg) a) = k \<and> gn_state (gen_at (add_leases (- 1) l rg) a) = Active"
    using gens_okD(2) [OF ok, of k a] by (simp add: reg_simps)
next
  fix a assume "a \<in> set (rg_retired (add_leases (- 1) l rg))"
  then show "a < length (rg_heap (add_leases (- 1) l rg)) \<and> gn_state (gen_at (add_leases (- 1) l rg) a) = Retired"
    using gens_okD(4) [OF ok, of a] by (simp add: reg_simps)
qed (simp_all add: reg_simps gens_okD(1,3) [OF ok])

text \<open>A current generation goes to the retired list; a fresh one becomes current.\<close>

lemma gens_ok_demote:
  assumes ok: "gens_ok rg ts" and ka: "(k, a) \<in> set (rg_current rg)"
    and c: "set c = {(j, b). (j, b) \<in> set (rg_current rg) \<and> j \<noteq> k}" "distinct (map fst c)"
  shows "gens_ok ((set_state Retired a rg)\<lparr>rg_current := c, rg_retired := rg_retired rg @ [a]\<rparr>) ts"
proof -
  note d = gens_okD [OF ok]
  have a: "a < length (rg_heap rg)" "gn_plugin_id (gen_at rg a) = k" "gn_state (gen_at rg a) = Active"
    using d(2) [OF ka] by auto
  let ?rg = "(set_state Retired a rg)\<lparr>rg_current := c, rg_retired := rg_retired rg @ [a]\<rparr>"
  have at: "gen_at ?rg b = (if b = a then (gen_at rg a)\<lparr>gn_state := Retired\<rparr> else gen_at rg b)" for b
    using a(1) by (simp add: reg_simps)
  have len: "length (rg_heap ?rg) = length (rg_heap rg)" by (simp add: reg_simps)
  have new: "a \<notin> set (rg_retired rg)" using d(4) [of a] a(3) by auto
  show ?thesis
  proof (rule gens_okI)
    fix b assume "b < length (rg_heap ?rg)"
    then have b: "b < length (rg_heap rg)" by (simp add: reg_simps)
    show "gn_lease_count (gen_at ?rg b) = int (count_list (concat ts) b)" using d(7) [OF b] by (auto simp: at)
    show "gn_state (gen_at ?rg b) = Quiesced \<Longrightarrow> gn_lease_count (gen_at ?rg b) = 0"
      using d(8) [OF b] by (simp add: at split: if_splits)
    show "gn_state (gen_at ?rg b) = Retired \<Longrightarrow> b \<in> set (rg_retired ?rg)"
      using d(5) [OF b] by (simp add: at split: if_splits)
  next
    fix j b assume "(j, b) \<in> set (rg_current ?rg)"
    then have jb: "(j, b) \<in> set (rg_current rg)" "j \<noteq> k" using c(1) by simp_all
    then have "b \<noteq> a" using d(2) [OF jb(1)] a(2) by metis
    then show "b < length (rg_heap ?rg) \<and> gn_plugin_id (gen_at ?rg b) = j \<and> gn_state (gen_at ?rg b) = Active"
      using d(2) [OF jb(1)] a(1) by (simp add: reg_simps)
  next
    fix b assume "b \<in> set (rg_retired ?rg)"
    then show "b < length (rg_heap ?rg) \<and> gn_state (gen_at ?rg b) = Retired"
      using d(4) [of b] a(1) by (auto simp: at reg_simps)
  next
    fix t b assume "t \<in> set ts" "b \<in> set t"
    then show "b < length (rg_heap ?rg)" using d(6) [of t b] by (simp add: reg_simps)
  qed (use new d(3) c(2) in \<open>simp_all\<close>)
qed

lemma gens_ok_promote:
  assumes ok: "gens_ok rg ts" and g: "gn_lease_count g = 0" "gn_plugin_id g = k"
    and c: "set c = insert (k, length (rg_heap rg)) (set (rg_current rg))" "distinct (map fst c)"
  shows "gens_ok (rg\<lparr>rg_heap := rg_heap rg @ [g\<lparr>gn_state := Active\<rparr>], rg_current := c\<rparr>) ts"
proof -
  note d = gens_okD [OF ok]
  let ?rg = "rg\<lparr>rg_heap := rg_heap rg @ [g\<lparr>gn_state := Active\<rparr>], rg_current := c\<rparr>"
  have at: "gen_at ?rg a = (if a < length (rg_heap rg) then gen_at rg a else g\<lparr>gn_state := Active\<rparr>)"
    if "a < Suc (length (rg_heap rg))" for a
    using that by (simp add: gen_at_def nth_append)
  have "length (rg_heap rg) \<notin> set (concat ts)" using d(6) by auto
  then have z: "count_list (concat ts) (length (rg_heap rg)) = 0" by (simp add: count_notin)
  show ?thesis
  proof (rule gens_okI)
    fix a assume "a < length (rg_heap ?rg)"
    then have a: "a < Suc (length (rg_heap rg))" by simp
    show "gn_lease_count (gen_at ?rg a) = int (count_list (concat ts) a)"
      using a d(7) [of a] z g(1) by (cases "a = length (rg_heap rg)") (simp_all add: at)
    show "gn_state (gen_at ?rg a) = Quiesced \<Longrightarrow> gn_lease_count (gen_at ?rg a) = 0"
      using a d(8) [of a] by (simp add: at split: if_splits)
    show "gn_state (gen_at ?rg a) = Retired \<Longrightarrow> a \<in> set (rg_retired ?rg)"
      using a d(5) [of a] by (simp add: at split: if_splits)
  next
    fix j a assume "(j, a) \<in> set (rg_current ?rg)"
    then consider "j = k" "a = length (rg_heap rg)" | "(j, a) \<in> set (rg_current rg)" using c(1) by auto
    then show "a < length (rg_heap ?rg) \<and> gn_plugin_id (gen_at ?rg a) = j \<and> gn_state (gen_at ?rg a) = Active"
      using d(2) [of j a] g(2) by cases (auto simp: at)
  next
    fix a assume "a \<in> set (rg_retired ?rg)"
    then show "a < length (rg_heap ?rg) \<and> gn_state (gen_at ?rg a) = Retired"
      using d(4) [of a] by (auto simp: at)
  next
    fix t a assume "t \<in> set ts" "a \<in> set t"
    then show "a < length (rg_heap ?rg)" using d(6) [of t a] by simp
  qed (use d c in simp_all)
qed

lemma gens_ok_retire: "gens_ok rg ts \<Longrightarrow> gens_ok (snd (retire k rg)) ts"
proof (cases "map_of (rg_current rg) k")
  case (Some a)
  assume ok: "gens_ok rg ts"
  have "set (AList.delete k (rg_current rg)) = {(j, b). (j, b) \<in> set (rg_current rg) \<and> j \<noteq> k}"
    by (auto simp: AList.delete_eq)
  moreover have "distinct (map fst (AList.delete k (rg_current rg)))"
    using gens_okD(1) [OF ok] by (simp add: distinct_delete)
  ultimately show ?thesis
    using gens_ok_demote [OF ok map_of_SomeD [OF Some]] Some by (simp add: retire_def)
qed (simp add: retire_def)

text \<open>Publishing makes the candidate the current generation of its plugin and returns the one it
  replaced.\<close>

lemma publish_result:
  assumes "publish g rg = Inr (pr, rg')"
  shows "pr = map_of (rg_current rg) (gn_plugin_id g)"
    and "map_of (rg_current rg') (gn_plugin_id g) = Some (length (rg_heap rg))"
    and "gn_generation_id (gen_at rg' (length (rg_heap rg))) = gn_generation_id g"
proof -
  let ?r1 = "rg\<lparr>rg_heap := rg_heap rg @ [g\<lparr>gn_state := Active\<rparr>],
                rg_current := AList.update (gn_plugin_id g) (length (rg_heap rg)) (rg_current rg)\<rparr>"
  have id: "gn_generation_id (gen_at ?r1 (length (rg_heap rg))) = gn_generation_id g"
    by (simp add: gen_at_def)
  consider "pr = None" "map_of (rg_current rg) (gn_plugin_id g) = None" "rg' = ?r1"
    | p where "pr = Some p" "map_of (rg_current rg) (gn_plugin_id g) = Some p"
      "rg' = (set_state Retired p ?r1)\<lparr>rg_retired := rg_retired rg @ [p]\<rparr>"
  proof (cases "map_of (rg_current rg) (gn_plugin_id g)")
    case None
    with assms show ?thesis by (intro that(1)) (simp_all add: publish_def Let_def split: if_splits)
  next
    case (Some p)
    with assms show ?thesis by (intro that(2) [of p]) (simp_all add: publish_def Let_def split: if_splits)
  qed
  then show "pr = map_of (rg_current rg) (gn_plugin_id g)"
    "map_of (rg_current rg') (gn_plugin_id g) = Some (length (rg_heap rg))"
    "gn_generation_id (gen_at rg' (length (rg_heap rg))) = gn_generation_id g"
    using id by (cases; simp add: AList.update_conv' reg_simps gen_id_set_state)+
qed

lemma gens_ok_publish:
  assumes ok: "gens_ok rg ts" and g: "gn_lease_count g = 0" and p: "publish g rg = Inr (pr, rg')"
  shows "gens_ok rg' ts"
proof -
  let ?k = "gn_plugin_id g" and ?n = "length (rg_heap rg)"
  let ?c = "AList.update ?k ?n (rg_current rg)"
  have dc: "distinct (map fst (rg_current rg))" by (rule gens_okD(1) [OF ok])
  then have du: "distinct (map fst ?c)" by (simp add: distinct_update)
  have su: "set ?c = insert (?k, ?n) {(j, b). (j, b) \<in> set (rg_current rg) \<and> j \<noteq> ?k}"
  proof -
    have "(j, b) \<in> set ?c \<longleftrightarrow> map_of ?c j = Some b" for j b using du by simp
    moreover have "map_of ?c j = (if j = ?k then Some ?n else map_of (rg_current rg) j)" for j
      by (simp add: update_conv)
    moreover have "(j, b) \<in> set (rg_current rg) \<longleftrightarrow> map_of (rg_current rg) j = Some b" for j b using dc by simp
    ultimately show ?thesis by (auto split: if_splits)
  qed
  show ?thesis
  proof (cases "map_of (rg_current rg) ?k")
    case None
    then have "{(j, b). (j, b) \<in> set (rg_current rg) \<and> j \<noteq> ?k} = set (rg_current rg)"
      by (auto simp: map_of_eq_None_iff image_iff)
    then show ?thesis
      using p None gens_ok_promote [OF ok g refl _ du] su by (auto simp: publish_def Let_def split: if_splits)
  next
    case (Some a)
    let ?d = "AList.delete ?k (rg_current rg)"
    let ?r = "(set_state Retired a rg)\<lparr>rg_current := ?d, rg_retired := rg_retired rg @ [a]\<rparr>"
    have sd: "set ?d = {(j, b). (j, b) \<in> set (rg_current rg) \<and> j \<noteq> ?k}" by (auto simp: AList.delete_eq)
    have r: "gens_ok ?r ts"
      using sd dc by (intro gens_ok_demote [OF ok map_of_SomeD [OF Some]]) (simp_all add: distinct_delete)
    have a: "a < ?n" using gens_okD(2) [OF ok map_of_SomeD [OF Some]] by simp
    have "gens_ok (?r\<lparr>rg_heap := rg_heap ?r @ [g\<lparr>gn_state := Active\<rparr>], rg_current := ?c\<rparr>) ts"
      by (rule gens_ok_promote [OF r g refl _ du]) (simp add: su sd reg_simps)
    moreover have "rg' = ?r\<lparr>rg_heap := rg_heap ?r @ [g\<lparr>gn_state := Active\<rparr>], rg_current := ?c\<rparr>"
      using p Some a by (auto simp: publish_def Let_def set_state_def set_gen_def gen_at_def nth_append
          list_update_append split: if_splits)
    ultimately show ?thesis by simp
  qed
qed

lemma fold_quiesce:
  assumes "\<forall>a \<in> set xs. a < length (rg_heap rg)"
  shows "rg_current (fold (set_state Quiesced) xs rg) = rg_current rg"
    "rg_retired (fold (set_state Quiesced) xs rg) = rg_retired rg"
    "rg_publishing (fold (set_state Quiesced) xs rg) = rg_publishing rg"
    "length (rg_heap (fold (set_state Quiesced) xs rg)) = length (rg_heap rg)"
    "gen_at (fold (set_state Quiesced) xs rg) b =
       (if b \<in> set xs then (gen_at rg b)\<lparr>gn_state := Quiesced\<rparr> else gen_at rg b)"
  using assms by (induction xs arbitrary: rg) (auto simp: reg_simps)

lemma drain_cases:
  assumes ok: "gens_ok rg ts" and d: "drain_quiescible rg = (ready, rg')"
  shows "ready = filter (\<lambda>a. can_quiesce (gen_at rg a)) (rg_retired rg)"
    "rg_current rg' = rg_current rg" "rg_retired rg' = filter (\<lambda>a. a \<notin> set ready) (rg_retired rg)"
    "length (rg_heap rg') = length (rg_heap rg)" "rg_publishing rg' = rg_publishing rg"
    "gen_at rg' b = (if b \<in> set ready then (gen_at rg b)\<lparr>gn_state := Quiesced\<rparr> else gen_at rg b)"
proof -
  show r: "ready = filter (\<lambda>a. can_quiesce (gen_at rg a)) (rg_retired rg)"
    using d by (auto simp: drain_quiescible_def Let_def split: if_splits)
  then have in': "\<forall>a \<in> set ready. a < length (rg_heap rg)" using gens_okD(4) [OF ok] by auto
  let ?r0 = "rg\<lparr>rg_retired := filter (\<lambda>a. a \<notin> set ready) (rg_retired rg)\<rparr>"
  have e: "rg' = fold (set_state Quiesced) ready ?r0"
    using d by (auto simp: drain_quiescible_def Let_def split: if_splits)
  note f = fold_quiesce [of ready ?r0]
  show "rg_current rg' = rg_current rg" "rg_retired rg' = filter (\<lambda>a. a \<notin> set ready) (rg_retired rg)"
    "length (rg_heap rg') = length (rg_heap rg)" "rg_publishing rg' = rg_publishing rg"
    "gen_at rg' b = (if b \<in> set ready then (gen_at rg b)\<lparr>gn_state := Quiesced\<rparr> else gen_at rg b)"
    using f in' unfolding e by (simp_all add: reg_simps)
qed

lemma gens_ok_drain:
  assumes ok: "gens_ok rg ts" and d: "drain_quiescible rg = (ready, rg')"
  shows "gens_ok rg' ts"
proof -
  note c = drain_cases [OF ok d]
  have z: "gn_lease_count (gen_at rg a) = 0" if "a \<in> set ready" for a
    using that c(1) gens_okD(7) [OF ok, of a] gens_okD(4) [OF ok, of a] by (auto simp: can_quiesce_def)
  have rd: "a \<in> set (rg_retired rg)" if "a \<in> set ready" for a using that c(1) by simp
  show ?thesis
  proof (rule gens_okI)
    fix a assume "a < length (rg_heap rg')"
    then have a: "a < length (rg_heap rg)" by (simp add: c(4))
    show "gn_lease_count (gen_at rg' a) = int (count_list (concat ts) a)"
      using gens_okD(7) [OF ok a] by (auto simp: c(6))
    show "gn_state (gen_at rg' a) = Quiesced \<Longrightarrow> gn_lease_count (gen_at rg' a) = 0"
      using gens_okD(8) [OF ok a] z [of a] by (auto simp: c(6) split: if_splits)
    show "gn_state (gen_at rg' a) = Retired \<Longrightarrow> a \<in> set (rg_retired rg')"
      using gens_okD(5) [OF ok a] by (auto simp: c(3,6) split: if_splits)
  next
    fix k a assume "(k, a) \<in> set (rg_current rg')"
    then have ka: "a < length (rg_heap rg)" "gn_plugin_id (gen_at rg a) = k" "gn_state (gen_at rg a) = Active"
      using gens_okD(2) [OF ok, of k a] by (simp_all add: c(2))
    then have "a \<notin> set ready" using rd [of a] gens_okD(4) [OF ok, of a] by auto
    then show "a < length (rg_heap rg') \<and> gn_plugin_id (gen_at rg' a) = k \<and> gn_state (gen_at rg' a) = Active"
      using ka by (simp add: c(4,6))
  next
    fix a assume "a \<in> set (rg_retired rg')"
    then show "a < length (rg_heap rg') \<and> gn_state (gen_at rg' a) = Retired"
      using gens_okD(4) [OF ok, of a] by (simp add: c(3,4,6))
  next
    fix t a assume "t \<in> set ts" "a \<in> set t"
    then show "a < length (rg_heap rg')" using gens_okD(6) [OF ok, of t a] by (simp add: c(4))
  qed (use gens_okD(1,3) [OF ok] in \<open>simp_all add: c(2,3)\<close>)
qed

lemma retire_each_frame:
  "rg_current (retire_each xs rg) = rg_current rg"
  "retire_each xs (rg\<lparr>rg_current := c\<rparr>) = (retire_each xs rg)\<lparr>rg_current := c\<rparr>"
proof (induction xs arbitrary: rg c)
  case (Cons a xs)
  {
    case 1
    show ?case using Cons.IH(1) by (simp add: reg_simps)
  next
    case 2
    have "(set_state Retired a (rg\<lparr>rg_current := c\<rparr>))\<lparr>rg_retired := rg_retired rg @ [a]\<rparr> =
        ((set_state Retired a rg)\<lparr>rg_retired := rg_retired rg @ [a]\<rparr>)\<lparr>rg_current := c\<rparr>"
      by (simp add: set_state_def set_gen_def gen_at_def)
    then show ?case using Cons.IH(2) by (simp add: reg_simps)
  }
qed simp_all

lemma gens_ok_retire_each:
  assumes "gens_ok (rg\<lparr>rg_current := c\<rparr>) ts"
  shows "gens_ok ((retire_each (map snd c) rg)\<lparr>rg_current := []\<rparr>) ts"
  using assms
proof (induction c arbitrary: rg)
  case (Cons p c)
  obtain k a where p: "p = (k, a)" by (cases p)
  let ?r = "rg\<lparr>rg_current := p # c\<rparr>"
  have ka: "(k, a) \<in> set (rg_current ?r)" by (simp add: p)
  have dp: "distinct (map fst (p # c))" using gens_okD(1) [OF Cons.prems] by simp
  then have dc: "distinct (map fst c)" by simp
  have kn: "k \<notin> fst ` set c" using dp by (simp add: p)
  then have "j \<noteq> k" if "(j, b) \<in> set c" for j b using that by (metis fst_conv imageI)
  then have sc: "set c = {(j, b). (j, b) \<in> set (rg_current ?r) \<and> j \<noteq> k}" by (auto simp: p)
  have "gens_ok ((set_state Retired a ?r)\<lparr>rg_current := c, rg_retired := rg_retired ?r @ [a]\<rparr>) ts"
    by (rule gens_ok_demote [OF Cons.prems ka sc dc])
  moreover have "(set_state Retired a (rg\<lparr>rg_current := p # c\<rparr>))\<lparr>rg_current := c,
      rg_retired := rg_retired (rg\<lparr>rg_current := p # c\<rparr>) @ [a]\<rparr> =
    ((set_state Retired a rg)\<lparr>rg_retired := rg_retired rg @ [a]\<rparr>)\<lparr>rg_current := c\<rparr>"
    by (simp add: set_state_def set_gen_def gen_at_def)
  ultimately show ?case using Cons.IH by (simp add: p)
qed simp

lemma gens_ok_retire_all: "gens_ok rg ts \<Longrightarrow> gens_ok (snd (retire_all rg)) ts"
  using gens_ok_retire_each [of "rg_current rg" rg ts] by (simp add: retire_all_def Let_def)

lemma gens_ok_publishing: "gens_ok (rg\<lparr>rg_publishing := b\<rparr>) ts = gens_ok rg ts"
  by (simp add: gens_ok_def current_ok_def retired_ok_def counts_ok_def reg_simps)

inductive_cases gen_stepE: "gen_step (rg, ts) st"

theorem gen_step_ok:
  assumes "gen_step (rg, ts) (rg', ts')" and "gens_ok rg ts"
  shows "gens_ok rg' ts'"
  using assms(1)
proof (cases rule: gen_step.cases)
  case (turn_begin l)
  have c: "current_ok rg" using assms(2) by (simp add: gens_ok_def)
  show ?thesis
    using turn_begin enter_lease_active_eq(1) [OF c] gens_ok_lease [OF assms(2) active_gens_mem(3) [OF c]] by auto
next
  case (turn_commit l)
  have c: "current_ok rg" using assms(2) by (simp add: gens_ok_def)
  have "\<not> rg_publishing rg" using turn_commit by (simp add: enter_lease_committed_def split: if_splits)
  then show ?thesis
    using turn_commit enter_lease_active_eq(2) [OF c] gens_ok_lease [OF assms(2) active_gens_mem(3) [OF c]] by auto
next
  case (turn_end ts l us)
  then have "counts_ok rg (ts @ l # us)" using assms(2) by (simp add: gens_ok_def)
  then show ?thesis using turn_end exit_lease_eq(1) gens_ok_unlease assms(2) by metis
next
  case (turn_end_committed l ts us)
  then have "counts_ok rg (ts @ l # us)" using assms(2) by (simp add: gens_ok_def)
  then show ?thesis using turn_end_committed exit_lease_eq(2) gens_ok_unlease assms(2) by (metis prod.inject)
next
  case (gen_publish g p)
  then show ?thesis using gens_ok_publish [OF assms(2)] by blast
next
  case (gen_retire k)
  then show ?thesis using gens_ok_retire [OF assms(2)] by simp
next
  case gen_retire_all
  then show ?thesis using gens_ok_retire_all [OF assms(2)] by simp
next
  case gen_drain
  then show ?thesis using gens_ok_drain [OF assms(2)] by (metis prod.collapse)
next
  case gen_begin
  then show ?thesis using assms(2) by (auto simp: begin_publication_def gens_ok_publishing split: if_splits)
next
  case gen_finish
  then show ?thesis using assms(2) by (simp add: finish_publication_def gens_ok_publishing)
qed

lemma gens_ok_empty [simp]: "gens_ok empty_registry []"
  by (rule gens_okI) (simp_all add: empty_registry_def)

lemma gen_reachable_ok:
  assumes "gen_step\<^sup>*\<^sup>* (empty_registry, []) (rg, ts)"
  shows "gens_ok rg ts"
proof -
  have "\<forall>rg ts. s = (rg, ts) \<longrightarrow> gens_ok rg ts" if "gen_step\<^sup>*\<^sup>* (empty_registry, []) s" for s
    using that
  proof (induction rule: rtranclp_induct)
    case (step y z)
    then show ?case using gen_step_ok by (cases y) blast
  qed simp
  then show ?thesis using assms by blast
qed

end
