(* ===== verification/PyJson.thy ===== *)
theory PyJson
  imports KPrelude
begin

text \<open>
  The texts of the standard library's \<open>json\<close>: decimal integers, and
  \<open>json.dumps (v, ensure_ascii=False, separators=(",", ":"))\<close> on the values the program dumps.
\<close>

fun nat_text :: "nat \<Rightarrow> pystr" where
  "nat_text n = (if n < 10 then [48 + n] else nat_text (n div 10) @ [48 + n mod 10])"

definition int_text :: "int \<Rightarrow> pystr" where
  "int_text i = (if i < 0 then lit ''-'' @ nat_text (nat (- i)) else nat_text (nat i))"

text \<open>What \<open>json.loads (json.dumps (d, sort_keys=True))\<close> gives back.\<close>

primrec sort_keys :: "json \<Rightarrow> json" where
  "sort_keys JNull = JNull"
| "sort_keys (JBool b) = JBool b"
| "sort_keys (JInt i) = JInt i"
| "sort_keys (JStr s) = JStr s"
| "sort_keys (JArr xs) = JArr (map sort_keys xs)"
| "sort_keys (JObj d) = JObj (sort_key fst (map (map_prod id sort_keys) d))"

definition json_hex :: "nat \<Rightarrow> nat" where
  "json_hex d = (if d < 10 then 48 + d else 87 + d)"

definition json_char :: "nat \<Rightarrow> pystr" where
  "json_char c =
     (if c = 34 then [92, 34] else if c = 92 then [92, 92]
      else if c = 8 then [92, 98] else if c = 12 then [92, 102]
      else if c = 10 then [92, 110] else if c = 13 then [92, 114] else if c = 9 then [92, 116]
      else if c < 32 then [92, 117, 48, 48, json_hex (c div 16), json_hex (c mod 16)]
      else [c])"

definition json_string :: "pystr \<Rightarrow> pystr" where
  "json_string s = [34] @ concat (map json_char s) @ [34]"

primrec json_text :: "json \<Rightarrow> pystr" where
  "json_text JNull = lit ''null''"
| "json_text (JBool b) = (if b then lit ''true'' else lit ''false'')"
| "json_text (JInt i) = int_text i"
| "json_text (JStr s) = json_string s"
| "json_text (JArr xs) = [91] @ py_join [44] (map json_text xs) @ [93]"
| "json_text (JObj d) = [123] @ py_join [44]
     (map (\<lambda>(k, t). json_string k @ [58] @ t) (map (map_prod id json_text) d)) @ [125]"

end
