(* ===== verification/ReloadJournal.thy ===== *)
theory ReloadJournal
  imports KContracts PluginGenerations PyJson
begin

text \<open>
  The durable journal of plugin generation replacements, \<open>src/agent/plugins/reload_journal.py\<close>,
  the transaction that publishes one generation under it and the start-up recovery that reads it
  back (\<open>_publish_generation_transaction\<close>, \<open>_finish_reload_drains\<close> and the recovery part of
  \<open>load_all\<close> in \<open>src/agent/plugins/manager.py\<close>).  An SQLite transaction is a function that either
  raises and leaves the journal as it was, or returns the committed one; a JSON column is the
  value it encodes, and a time stamp its instant.
\<close>

section \<open>Phases\<close>

datatype reload_phase =
    Preparing | Prepared | Validating | CommitStarted | Committed | Draining
  | Complete | Aborted | Recovered

fun phase_text :: "reload_phase \<Rightarrow> pystr" where
  "phase_text Preparing = lit ''preparing''"
| "phase_text Prepared = lit ''prepared''"
| "phase_text Validating = lit ''validating''"
| "phase_text CommitStarted = lit ''commit_started''"
| "phase_text Committed = lit ''committed''"
| "phase_text Draining = lit ''draining''"
| "phase_text Complete = lit ''complete''"
| "phase_text Aborted = lit ''aborted''"
| "phase_text Recovered = lit ''recovered''"

definition terminal_phase :: "reload_phase \<Rightarrow> bool" where
  "terminal_phase p \<longleftrightarrow> p \<in> {Complete, Aborted, Recovered}"

fun phase_transitions :: "reload_phase \<Rightarrow> reload_phase list" where
  "phase_transitions Preparing = [Prepared, Aborted]"
| "phase_transitions Prepared = [Validating, Aborted]"
| "phase_transitions Validating = [CommitStarted, Aborted]"
| "phase_transitions CommitStarted = [Committed, Aborted, Recovered]"
| "phase_transitions Committed = [Draining, Complete, Recovered]"
| "phase_transitions Draining = [Complete, Recovered]"
| "phase_transitions _ = []"

fun phase_rank :: "reload_phase \<Rightarrow> nat" where
  "phase_rank Preparing = 0" | "phase_rank Prepared = 1" | "phase_rank Validating = 2"
| "phase_rank CommitStarted = 3" | "phase_rank Committed = 4" | "phase_rank Draining = 5"
| "phase_rank _ = 6"

definition phase_step :: "reload_phase \<Rightarrow> reload_phase \<Rightarrow> bool" where
  "phase_step a b \<longleftrightarrow> b \<in> set (phase_transitions a)"

interpretation ph: status_machine phase_step terminal_phase phase_rank 6
proof
  fix a b
  show "phase_step a b \<Longrightarrow> phase_rank a < phase_rank b"
    by (cases a) (auto simp: phase_step_def)
  show "phase_rank a \<le> 6" by (cases a) simp_all
  show "terminal_phase a \<Longrightarrow> \<not> phase_step a b"
    by (auto simp: phase_step_def terminal_phase_def)
  show "\<not> terminal_phase a \<Longrightarrow> \<exists>b. phase_step a b"
    by (cases a) (auto simp: phase_step_def terminal_phase_def)
qed

section \<open>The journal\<close>

record reload_tx =
  tx_id :: pystr
  tx_plugin_id :: pystr
  tx_base_snapshot_id :: "pystr option"
  tx_candidate_snapshot_id :: "pystr option"
  tx_generation_id :: pystr
  tx_source_revision :: pystr
  tx_config_revision :: pystr
  tx_phase :: reload_phase
  tx_started_at :: instant
  tx_updated_at :: instant
  tx_error :: pystr

record reload_event =
  je_sequence :: nat
  je_tx_id :: pystr
  je_phase :: reload_phase
  je_details :: json
  je_created_at :: instant

record journal =
  jr_txs :: "reload_tx list"
  jr_events :: "reload_event list"
  jr_next :: nat

definition empty_journal :: journal where
  "empty_journal = \<lparr>jr_txs = [], jr_events = [], jr_next = 1\<rparr>"

definition append_event :: "pystr \<Rightarrow> reload_phase \<Rightarrow> pydict \<Rightarrow> instant \<Rightarrow> journal \<Rightarrow> journal" where
  "append_event tx phase details now jr =
     jr\<lparr>jr_events := jr_events jr @ [\<lparr>je_sequence = jr_next jr, je_tx_id = tx, je_phase = phase,
          je_details = sort_keys (JObj details), je_created_at = now\<rparr>],
        jr_next := Suc (jr_next jr)\<rparr>"

definition journal_begin ::
  "pystr \<Rightarrow> pystr option \<Rightarrow> pystr \<Rightarrow> pystr \<Rightarrow> pystr \<Rightarrow> pystr \<Rightarrow> instant \<Rightarrow> journal \<Rightarrow> (pystr \<times> journal) res" where
  "journal_begin plugin_id base generation_id source_revision config_revision tx now jr =
     (if row_by tx_id tx (jr_txs jr) \<noteq> None then Inl IntegrityError
      else Inr (tx, append_event tx Preparing [] now
        (jr\<lparr>jr_txs := jr_txs jr @ [\<lparr>tx_id = tx, tx_plugin_id = plugin_id, tx_base_snapshot_id = base,
              tx_candidate_snapshot_id = None, tx_generation_id = generation_id,
              tx_source_revision = source_revision, tx_config_revision = config_revision,
              tx_phase = Preparing, tx_started_at = now, tx_updated_at = now, tx_error = []\<rparr>]\<rparr>)))"

definition no_tx :: "pystr \<Rightarrow> py_error" where
  "no_tx tx = KeyError (lit ''ReloadTransaction '' @ [19981, 23384, 22312] @ lit '': '' @ tx)"

definition journal_advance ::
  "pystr \<Rightarrow> reload_phase \<Rightarrow> pystr option \<Rightarrow> pydict \<Rightarrow> pystr \<Rightarrow> instant \<Rightarrow> journal \<Rightarrow> journal res" where
  "journal_advance tx phase candidate details err now jr =
     (case row_by tx_id tx (jr_txs jr) of
        None \<Rightarrow> Inl (no_tx tx)
      | Some t \<Rightarrow>
          if phase \<notin> set (phase_transitions (tx_phase t))
          then Inl (RuntimeError (lit ''ReloadTransaction '' @ [29366, 24577, 36339, 36716, 26080, 25928] @ lit '': '' @ phase_text (tx_phase t) @
                                  lit '' -> '' @ phase_text phase))
          else Inr (append_event tx phase details now
                 (jr\<lparr>jr_txs := put_row tx_id
                    (t\<lparr>tx_phase := phase,
                       tx_candidate_snapshot_id := (case candidate of None \<Rightarrow> tx_candidate_snapshot_id t
                          | Some c \<Rightarrow> Some c),
                       tx_updated_at := now, tx_error := err\<rparr>) (jr_txs jr)\<rparr>)))"

definition journal_get :: "pystr \<Rightarrow> journal \<Rightarrow> reload_tx res" where
  "journal_get tx jr =
     (case row_by tx_id tx (jr_txs jr) of None \<Rightarrow> Inl (no_tx tx) | Some t \<Rightarrow> Inr t)"

definition journal_events :: "pystr \<Rightarrow> journal \<Rightarrow> reload_event list" where
  "journal_events tx jr =
     sort_key je_sequence (filter (\<lambda>e. je_tx_id e = tx) (jr_events jr))"

section \<open>Recovery work\<close>

datatype recovery_name = DiscardCandidate | RestoreCommitted

fun recovery_text :: "recovery_name \<Rightarrow> pystr" where
  "recovery_text DiscardCandidate = lit ''discard_candidate''"
| "recovery_text RestoreCommitted = lit ''restore_committed''"

record recovery_action =
  ra_tx_id :: pystr
  ra_plugin_id :: pystr
  ra_generation_id :: pystr
  ra_source_revision :: pystr
  ra_action :: recovery_name

definition recovery_of :: "reload_tx \<Rightarrow> recovery_action" where
  "recovery_of t =
     \<lparr>ra_tx_id = tx_id t, ra_plugin_id = tx_plugin_id t, ra_generation_id = tx_generation_id t,
      ra_source_revision = tx_source_revision t,
      ra_action = (if tx_phase t \<in> {CommitStarted, Committed, Draining} then RestoreCommitted
                   else DiscardCandidate)\<rparr>"

definition pending_recovery :: "journal \<Rightarrow> recovery_action list" where
  "pending_recovery jr =
     sort_key (\<lambda>a. (ra_action a \<noteq> RestoreCommitted, ra_tx_id a))
       (map recovery_of
         (sort_key (\<lambda>t. (tx_started_at t, tx_id t))
           (filter (\<lambda>t. \<not> terminal_phase (tx_phase t)) (jr_txs jr))))"

definition finish_recovery :: "recovery_action \<Rightarrow> instant \<Rightarrow> journal \<Rightarrow> journal res" where
  "finish_recovery a now jr =
     journal_advance (ra_tx_id a)
       (if ra_action a = RestoreCommitted then Recovered else Aborted) None
       [(lit ''recovery_action'', JStr (recovery_text (ra_action a)))] (lit ''startup recovery'') now jr"

section \<open>Publishing one generation under the journal\<close>

record plugin_host =
  ph_journal :: journal
  ph_registry :: registry
  ph_drains :: "(pystr \<times> pystr) list"

text \<open>\<open>str (exc) or type (exc).__name__\<close> for the exceptions that reach the handler.\<close>

fun error_text :: "py_error \<Rightarrow> pystr" where
  "error_text (StoreConflictError m) = or_else m (lit ''StoreConflictError'')"
| "error_text (StoreNotFoundError m) = or_else m (lit ''StoreNotFoundError'')"
| "error_text (StoreStateError m) = or_else m (lit ''StoreStateError'')"
| "error_text (ValueError m) = or_else m (lit ''ValueError'')"
| "error_text (RuntimeError m) = or_else m (lit ''RuntimeError'')"
| "error_text (KeyError m) = lit [CHR 0x27] @ m @ lit [CHR 0x27]"
| "error_text (AttributeError m) = or_else m (lit ''AttributeError'')"
| "error_text (OverflowError m) = or_else m (lit ''OverflowError'')"
| "error_text IntegrityError = lit ''IntegrityError''"
| "error_text DataError = lit ''DataError''"

text \<open>The handler of a failed publication: a transaction not yet committed is aborted.\<close>

definition abort_transaction :: "pystr \<Rightarrow> py_error \<Rightarrow> instant \<Rightarrow> journal \<Rightarrow> py_error \<times> journal" where
  "abort_transaction tx e now jr =
     (case journal_get tx jr of
        Inl e' \<Rightarrow> (e', jr)
      | Inr t \<Rightarrow>
          if tx_phase t \<in> {Preparing, Prepared, Validating, CommitStarted}
          then (case journal_advance tx Aborted None [] (error_text e) now jr of
                  Inl e' \<Rightarrow> (e', jr)
                | Inr jr1 \<Rightarrow> (e, jr1))
          else (e, jr))"

text \<open>The advances before the commit point, in order.\<close>

definition prepare_transaction :: "pystr \<Rightarrow> generation \<Rightarrow> clock \<Rightarrow> journal \<Rightarrow> py_error option \<times> journal" where
  "prepare_transaction tx g clk jr =
     (case journal_advance tx Prepared (Some (gn_generation_id g)) [] [] (clk 1) jr of
        Inl e \<Rightarrow> (Some e, jr)
      | Inr j1 \<Rightarrow>
          (case journal_advance tx Validating None [] [] (clk 2) j1 of
             Inl e \<Rightarrow> (Some e, j1)
           | Inr j2 \<Rightarrow>
               (case journal_advance tx CommitStarted None [] [] (clk 3) j2 of
                  Inl e \<Rightarrow> (Some e, j2)
                | Inr j3 \<Rightarrow> (None, j3))))"

text \<open>The advances after it: the replaced generation, when there is one, still has to drain.\<close>

definition settle_transaction ::
  "pystr \<Rightarrow> nat option \<Rightarrow> clock \<Rightarrow> plugin_host \<Rightarrow> py_error option \<times> plugin_host" where
  "settle_transaction tx previous clk h =
     (case journal_advance tx Committed None [] [] (clk 4) (ph_journal h) of
        Inl e \<Rightarrow> (Some e, h)
      | Inr j4 \<Rightarrow>
          (case journal_advance tx (if previous = None then Complete else Draining) None [] [] (clk 5) j4 of
             Inl e \<Rightarrow> (Some e, h\<lparr>ph_journal := j4\<rparr>)
           | Inr j5 \<Rightarrow>
               (None, h\<lparr>ph_journal := j5,
                  ph_drains := (case previous of None \<Rightarrow> ph_drains h
                    | Some p \<Rightarrow> AList.update (gn_generation_id (gen_at (ph_registry h) p)) tx
                                  (ph_drains h))\<rparr>)))"

definition publish_generation_transaction ::
  "generation \<Rightarrow> pystr \<Rightarrow> clock \<Rightarrow> plugin_host \<Rightarrow> nat option res \<times> plugin_host" where
  "publish_generation_transaction g tx clk h =
     (let base = map_option (\<lambda>a. gn_generation_id (gen_at (ph_registry h) a))
                   (map_of (rg_current (ph_registry h)) (gn_plugin_id g))
      in case journal_begin (gn_plugin_id g) base (gn_generation_id g) (gn_source_revision g)
                (gn_config_revision g) tx (clk 0) (ph_journal h) of
           Inl e \<Rightarrow> (Inl e, h)
         | Inr (_, j0) \<Rightarrow>
             (case prepare_transaction tx g clk j0 of
                (Some e, j1) \<Rightarrow>
                  (let (e', j2) = abort_transaction tx e (clk 6) j1 in (Inl e', h\<lparr>ph_journal := j2\<rparr>))
              | (None, j3) \<Rightarrow>
                  (case publish g (ph_registry h) of
                     Inl e \<Rightarrow>
                       (let (e', j4) = abort_transaction tx e (clk 6) j3
                        in (Inl e', h\<lparr>ph_journal := j4\<rparr>))
                   | Inr (previous, rg) \<Rightarrow>
                       (case settle_transaction tx previous clk (h\<lparr>ph_journal := j3, ph_registry := rg\<rparr>) of
                          (Some e, h1) \<Rightarrow>
                            (let (e', j4) = abort_transaction tx e (clk 6) (ph_journal h1)
                             in (Inl e', h1\<lparr>ph_journal := j4\<rparr>))
                        | (None, h1) \<Rightarrow> (Inr previous, h1)))))"

text \<open>The drained generations complete the transactions that replaced them.\<close>

fun finish_reload_drains :: "nat list \<Rightarrow> clock \<Rightarrow> plugin_host \<Rightarrow> py_error option \<times> plugin_host" where
  "finish_reload_drains [] clk h = (None, h)"
| "finish_reload_drains (a # as') clk h =
     (let g = gn_generation_id (gen_at (ph_registry h) a);
          h1 = h\<lparr>ph_drains := AList.delete g (ph_drains h)\<rparr>
      in case map_of (ph_drains h) g of
           None \<Rightarrow> finish_reload_drains as' clk h1
         | Some tx \<Rightarrow>
             (case journal_get tx (ph_journal h1) of
                Inl e \<Rightarrow> (Some e, h1)
              | Inr t \<Rightarrow>
                  if tx_phase t = Draining
                  then (case journal_advance tx Complete None [] [] (clk (length as')) (ph_journal h1) of
                          Inl e \<Rightarrow> (Some e, h1)
                        | Inr j \<Rightarrow> finish_reload_drains as' clk (h1\<lparr>ph_journal := j\<rparr>))
                  else finish_reload_drains as' clk h1))"

text \<open>The generations of the plugins that are loaded: what \<open>build_generation\<close> made of each, \<open>None\<close> when it
  raised, with the id and the clock of its transaction.  A gate that did not pass keeps the old generation, and an
  exception of one plugin does not reach the others.  The errors that are kept for display are left out.\<close>

fun publish_generations :: "(generation option \<times> pystr \<times> clock) list \<Rightarrow> plugin_host \<Rightarrow> pystr list \<times> plugin_host" where
  "publish_generations [] h = ([], h)"
| "publish_generations ((g, tx, clk) # bs) h =
     (case g of
        None \<Rightarrow> publish_generations bs h
      | Some c \<Rightarrow>
          if \<not> gate_passed (gn_gate_result c) then publish_generations bs h
          else
            (case publish_generation_transaction c tx clk h of
               (Inl e, h1) \<Rightarrow> publish_generations bs h1
             | (Inr previous, h1) \<Rightarrow>
                 (case publish_generations bs h1 of (ids, h2) \<Rightarrow> (gn_generation_id c # ids, h2))))"

section \<open>Start-up\<close>

text \<open>The check \<open>load_all\<close> makes before it touches anything: \<open>discovered p\<close> is the source
  revision of plugin \<open>p\<close> on disk, when it is there.\<close>

fun recovery_check :: "(pystr \<Rightarrow> pystr option) \<Rightarrow> recovery_action list \<Rightarrow> py_error option" where
  "recovery_check discovered [] = None"
| "recovery_check discovered (a # as') =
     (if ra_action a \<noteq> RestoreCommitted then recovery_check discovered as'
      else case discovered (ra_plugin_id a) of
             None \<Rightarrow> Some (RuntimeError (lit ''ReloadTransaction '' @ [24674, 22797, 32570, 23569, 25554, 20214] @ lit '': '' @ ra_plugin_id a))
           | Some actual \<Rightarrow>
               if actual \<noteq> ra_source_revision a
               then Some (RuntimeError (lit ''ReloadTransaction '' @ [24674, 22797, 28304, 30721, 19981, 19968, 33268] @ lit '': '' @ ra_plugin_id a @
                      lit '' expected='' @ ra_source_revision a @ lit '' actual='' @ actual))
               else recovery_check discovered as')"

fun discard_candidates :: "recovery_action list \<Rightarrow> clock \<Rightarrow> journal \<Rightarrow> py_error option \<times> journal" where
  "discard_candidates [] clk jr = (None, jr)"
| "discard_candidates (a # as') clk jr =
     (if ra_action a = DiscardCandidate
      then (case finish_recovery a (clk (length as')) jr of
              Inl e \<Rightarrow> (Some e, jr)
            | Inr j \<Rightarrow> discard_candidates as' clk j)
      else discard_candidates as' clk jr)"

text \<open>After the plugins were activated and published: each committed transaction is closed when the
  generation it names is the current one.\<close>

fun restore_committed :: "recovery_action list \<Rightarrow> clock \<Rightarrow> registry \<Rightarrow> journal \<Rightarrow> py_error option \<times> journal" where
  "restore_committed [] clk rg jr = (None, jr)"
| "restore_committed (a # as') clk rg jr =
     (if ra_action a \<noteq> RestoreCommitted then restore_committed as' clk rg jr
      else
        (let current = map_option (\<lambda>x. gn_generation_id (gen_at rg x))
                         (map_of (rg_current rg) (ra_plugin_id a))
         in if current \<noteq> Some (ra_generation_id a)
            then (Some (RuntimeError (lit ''ReloadTransaction '' @ [24674, 22797, 20195, 38469, 19981, 19968, 33268] @ lit '': '' @ ra_plugin_id a @
                   lit '' expected='' @ ra_generation_id a @ lit '' actual='' @
                   (case current of None \<Rightarrow> lit ''None'' | Some c \<Rightarrow> c))), jr)
            else (case finish_recovery a (clk (length as')) jr of
                    Inl e \<Rightarrow> (Some e, jr)
                  | Inr j \<Rightarrow> restore_committed as' clk rg j)))"

text \<open>The recovery of \<open>load_all\<close>, around the part that activates, wires and publishes the plugins that were
  found, which is an argument and may raise.  The rows of the journal that were written stay written whatever comes after.\<close>

definition load_all_recovery ::
  "(pystr \<Rightarrow> pystr option) \<Rightarrow> (plugin_host \<Rightarrow> py_error option \<times> plugin_host) \<Rightarrow> clock \<Rightarrow> clock \<Rightarrow> plugin_host \<Rightarrow>
   py_error option \<times> plugin_host" where
  "load_all_recovery discovered activate clk clk' h =
     (let recovery = pending_recovery (ph_journal h)
      in case recovery_check discovered recovery of
           Some e \<Rightarrow> (Some e, h)
         | None \<Rightarrow>
             (case discard_candidates recovery clk (ph_journal h) of
                (Some e, j1) \<Rightarrow> (Some e, h\<lparr>ph_journal := j1\<rparr>)
              | (None, j1) \<Rightarrow>
                  (case activate (h\<lparr>ph_journal := j1\<rparr>) of
                     (Some e, h1) \<Rightarrow> (Some e, h1)
                   | (None, h1) \<Rightarrow>
                       (case restore_committed recovery clk' (ph_registry h1) (ph_journal h1) of
                          (e, j2) \<Rightarrow> (e, h1\<lparr>ph_journal := j2\<rparr>)))))"

section \<open>The invariant of the journal\<close>

definition tx_log :: "journal \<Rightarrow> pystr \<Rightarrow> reload_phase list" where
  "tx_log jr i = map je_phase (filter (\<lambda>e. je_tx_id e = i) (jr_events jr))"

text \<open>The recorded phases of a transaction are a run of the phase machine from \<open>preparing\<close> to the
  phase its row shows.\<close>

definition journal_ok :: "journal \<Rightarrow> bool" where
  "journal_ok jr \<longleftrightarrow> distinct (map tx_id (jr_txs jr)) \<and>
     sorted_wrt (<) (map je_sequence (jr_events jr)) \<and>
     (\<forall>e \<in> set (jr_events jr). je_sequence e < jr_next jr \<and> je_tx_id e \<in> tx_id ` set (jr_txs jr)) \<and>
     (\<forall>t \<in> set (jr_txs jr). \<exists>ps. tx_log jr (tx_id t) = Preparing # ps \<and> ph.history Preparing ps \<and>
        last (Preparing # ps) = tx_phase t)"

lemma append_event_frame [simp]:
  "jr_txs (append_event i p d now jr) = jr_txs jr" "jr_next (append_event i p d now jr) = Suc (jr_next jr)"
  "tx_log (append_event i p d now jr) j = tx_log jr j @ (if j = i then [p] else [])"
  by (simp_all add: append_event_def tx_log_def)

lemma tx_log_frame [simp]: "tx_log (jr\<lparr>jr_txs := ts\<rparr>) i = tx_log jr i"
  by (simp add: tx_log_def)

lemma append_event_sequence:
  assumes "sorted_wrt (<) (map je_sequence (jr_events jr))"
    and "\<forall>e \<in> set (jr_events jr). je_sequence e < jr_next jr \<and> je_tx_id e \<in> I" and "i \<in> I"
  shows "sorted_wrt (<) (map je_sequence (jr_events (append_event i p d now jr)))"
    and "\<forall>e \<in> set (jr_events (append_event i p d now jr)).
      je_sequence e < jr_next (append_event i p d now jr) \<and> je_tx_id e \<in> I"
  using assms by (auto simp: append_event_def sorted_wrt_append less_Suc_eq)

lemma journal_begin_ok:
  assumes ok: "journal_ok jr" and b: "journal_begin p bs g s c i now jr = Inr (j, jr')"
  shows "journal_ok jr'" and "j = i" and "tx_log jr' i = [Preparing]"
    and "row_by tx_id i (jr_txs jr') = Some \<lparr>tx_id = i, tx_plugin_id = p, tx_base_snapshot_id = bs,
      tx_candidate_snapshot_id = None, tx_generation_id = g, tx_source_revision = s,
      tx_config_revision = c, tx_phase = Preparing, tx_started_at = now, tx_updated_at = now, tx_error = []\<rparr>"
    and "k \<noteq> i \<Longrightarrow> row_by tx_id k (jr_txs jr') = row_by tx_id k (jr_txs jr)"
proof -
  let ?t = "\<lparr>tx_id = i, tx_plugin_id = p, tx_base_snapshot_id = bs,
      tx_candidate_snapshot_id = None, tx_generation_id = g, tx_source_revision = s,
      tx_config_revision = c, tx_phase = Preparing, tx_started_at = now, tx_updated_at = now, tx_error = []\<rparr>"
  have new: "row_by tx_id i (jr_txs jr) = None" and e: "j = i"
    and jr': "jr' = append_event i Preparing [] now (jr\<lparr>jr_txs := jr_txs jr @ [?t]\<rparr>)"
    using b by (auto simp: journal_begin_def split: if_splits)
  show "j = i" by (rule e)
  have fresh: "i \<notin> tx_id ` set (jr_txs jr)" using new by (simp add: row_by_None)
  then have none: "filter (\<lambda>e. je_tx_id e = i) (jr_events jr) = []"
    using ok by (auto simp: journal_ok_def filter_empty_conv)
  show l: "tx_log jr' i = [Preparing]" using none by (simp add: jr') (simp add: tx_log_def)
  show "row_by tx_id i (jr_txs jr') = Some ?t" using new by (simp add: jr' row_by_append)
  show "row_by tx_id k (jr_txs jr') = row_by tx_id k (jr_txs jr)" if "k \<noteq> i"
    using that by (simp add: jr' row_by_append split: option.splits)
  have old: "tx_log jr' (tx_id t) = tx_log jr (tx_id t)" if "t \<in> set (jr_txs jr)" for t
    using that fresh by (auto simp: jr')
  have s: "sorted_wrt (<) (map je_sequence (jr_events (jr\<lparr>jr_txs := jr_txs jr @ [?t]\<rparr>)))"
      "\<forall>e \<in> set (jr_events (jr\<lparr>jr_txs := jr_txs jr @ [?t]\<rparr>)). je_sequence e < jr_next (jr\<lparr>jr_txs := jr_txs jr @ [?t]\<rparr>) \<and>
         je_tx_id e \<in> insert i (tx_id ` set (jr_txs jr))"
    using ok by (auto simp: journal_ok_def)
  note sq = append_event_sequence [OF s, of i Preparing "[]" now]
  have "\<exists>ps. tx_log jr' (tx_id t) = Preparing # ps \<and> ph.history Preparing ps \<and>
        last (Preparing # ps) = tx_phase t" if tm: "t \<in> set (jr_txs jr')" for t
  proof -
    consider "t \<in> set (jr_txs jr)" | "t = ?t" using tm by (auto simp: jr')
    then show ?thesis
    proof cases
      case 1
      then show ?thesis using old [OF 1] ok unfolding journal_ok_def by metis
    qed (simp add: l)
  qed
  then show "journal_ok jr'"
    using ok fresh sq unfolding journal_ok_def by (auto simp: jr')
qed

lemma journal_advance_cases:
  assumes "journal_advance i p cand d err now jr = Inr jr'"
  obtains t t' where "row_by tx_id i (jr_txs jr) = Some t" "phase_step (tx_phase t) p"
    "t' = t\<lparr>tx_phase := p, tx_candidate_snapshot_id := (case cand of None \<Rightarrow> tx_candidate_snapshot_id t
        | Some c \<Rightarrow> Some c), tx_updated_at := now, tx_error := err\<rparr>"
    "jr' = append_event i p d now (jr\<lparr>jr_txs := put_row tx_id t' (jr_txs jr)\<rparr>)"
    "row_by tx_id i (jr_txs jr') = Some t'"
    "\<And>k. k \<noteq> i \<Longrightarrow> row_by tx_id k (jr_txs jr') = row_by tx_id k (jr_txs jr)"
proof -
  obtain t where t: "row_by tx_id i (jr_txs jr) = Some t" "p \<in> set (phase_transitions (tx_phase t))"
    and jr': "jr' = append_event i p d now (jr\<lparr>jr_txs := put_row tx_id
                    (t\<lparr>tx_phase := p,
                       tx_candidate_snapshot_id := (case cand of None \<Rightarrow> tx_candidate_snapshot_id t
                          | Some c \<Rightarrow> Some c),
                       tx_updated_at := now, tx_error := err\<rparr>) (jr_txs jr)\<rparr>)"
    using assms by (auto simp: journal_advance_def split: option.splits if_splits)
  have id: "tx_id t = i" using row_by_SomeD [OF t(1)] by simp
  show ?thesis
    by (rule that [OF t(1) _ refl]) (use t id in \<open>simp_all add: jr' phase_step_def row_by_put_row\<close>)
qed

lemma journal_advance_ok:
  assumes ok: "journal_ok jr" and a: "journal_advance i p cand d err now jr = Inr jr'"
  shows "journal_ok jr'"
proof -
  obtain t t' where t: "row_by tx_id i (jr_txs jr) = Some t" "phase_step (tx_phase t) p"
    and t': "t' = t\<lparr>tx_phase := p, tx_candidate_snapshot_id := (case cand of None \<Rightarrow> tx_candidate_snapshot_id t
        | Some c \<Rightarrow> Some c), tx_updated_at := now, tx_error := err\<rparr>"
    and jr': "jr' = append_event i p d now (jr\<lparr>jr_txs := put_row tx_id t' (jr_txs jr)\<rparr>)"
    using a by (rule journal_advance_cases) blast
  have m: "t \<in> set (jr_txs jr)" "tx_id t = i" using row_by_SomeD [OF t(1)] by auto
  have id: "tx_id t' = i" "tx_phase t' = p" by (simp_all add: t' m)
  obtain ps where ps: "tx_log jr i = Preparing # ps" "ph.history Preparing ps" "last (Preparing # ps) = tx_phase t"
    using ok m unfolding journal_ok_def by blast
  have now: "tx_log jr' i = Preparing # (ps @ [p])" "ph.history Preparing (ps @ [p])"
    using ps t(2) by (simp_all add: jr' ph.history_append)
  have "\<exists>qs. tx_log jr' (tx_id x) = Preparing # qs \<and> ph.history Preparing qs \<and> last (Preparing # qs) = tx_phase x"
    if "x \<in> set (jr_txs jr')" for x
  proof -
    from that have "x \<in> set (put_row tx_id t' (jr_txs jr))" by (simp add: jr')
    then show ?thesis
    proof (rule put_rowE)
      assume "x = t'"
      then show ?thesis using now id by (intro exI [of _ "ps @ [p]"]) simp
    next
      assume x: "x \<in> set (jr_txs jr)" "tx_id x \<noteq> tx_id t'"
      then have "tx_log jr' (tx_id x) = tx_log jr (tx_id x)" by (simp add: jr' id)
      then show ?thesis using ok x(1) unfolding journal_ok_def by simp
    qed
  qed
  moreover have "sorted_wrt (<) (map je_sequence (jr_events jr'))"
    "\<forall>e \<in> set (jr_events jr'). je_sequence e < jr_next jr' \<and> je_tx_id e \<in> tx_id ` set (jr_txs jr)"
    unfolding jr'
    by (rule append_event_sequence [where I = "tx_id ` set (jr_txs jr)" and
          jr = "jr\<lparr>jr_txs := put_row tx_id t' (jr_txs jr)\<rparr>"];
        use ok m in \<open>auto simp: journal_ok_def\<close>)+
  moreover have "tx_id ` set (jr_txs jr') = tx_id ` set (jr_txs jr)" by (simp add: jr')
  moreover have "distinct (map tx_id (jr_txs jr'))" using ok by (simp add: jr' journal_ok_def)
  ultimately show ?thesis unfolding journal_ok_def by simp
qed

lemma journal_log_bounded:
  assumes "journal_ok jr" and "t \<in> set (jr_txs jr)"
  shows "length (tx_log jr (tx_id t)) \<le> 7" and "last (tx_log jr (tx_id t)) = tx_phase t"
    and "k < length (tx_log jr (tx_id t)) \<Longrightarrow> terminal_phase (tx_log jr (tx_id t) ! k) \<Longrightarrow>
      k = length (tx_log jr (tx_id t)) - 1"
proof -
  obtain ps where ps: "tx_log jr (tx_id t) = Preparing # ps" "ph.history Preparing ps"
      "last (Preparing # ps) = tx_phase t"
    using assms unfolding journal_ok_def by blast
  show "length (tx_log jr (tx_id t)) \<le> 7" using ph.history_bounded [OF ps(2)] ps(1) by simp
  show "last (tx_log jr (tx_id t)) = tx_phase t" using ps by simp
  assume k: "k < length (tx_log jr (tx_id t))" "terminal_phase (tx_log jr (tx_id t) ! k)"
  show "k = length (tx_log jr (tx_id t)) - 1"
  proof (cases k)
    case 0
    then show ?thesis using k(2) ps(1) by (simp add: terminal_phase_def)
  next
    case (Suc n)
    then have "n < length ps" "terminal_phase (ps ! n)" using k ps(1) by simp_all
    then have "n = length ps - 1" by (rule ph.history_terminal_last [OF ps(2)])
    then show ?thesis using Suc ps(1) \<open>n < length ps\<close> by simp
  qed
qed

section \<open>Start-up recovery\<close>

lemma pending_recovery_set:
  "set (pending_recovery jr) = recovery_of ` {t \<in> set (jr_txs jr). \<not> terminal_phase (tx_phase t)}"
  by (simp add: pending_recovery_def)

lemma pending_recovery_Nil: "pending_recovery jr = [] \<longleftrightarrow> (\<forall>t \<in> set (jr_txs jr). terminal_phase (tx_phase t))"
proof -
  have "pending_recovery jr = [] \<longleftrightarrow> set (pending_recovery jr) = {}" by (simp only: set_empty)
  then show ?thesis by (auto simp: pending_recovery_set)
qed

lemma pending_recovery_ids:
  assumes "journal_ok jr"
  shows "distinct (map ra_tx_id (pending_recovery jr))"
proof -
  let ?f = "filter (\<lambda>t. \<not> terminal_phase (tx_phase t)) (jr_txs jr)"
  have "distinct (map tx_id ?f)" using assms by (simp add: journal_ok_def distinct_map_filter)
  moreover have "mset (map ra_tx_id (pending_recovery jr)) = mset (map tx_id ?f)"
    by (simp add: pending_recovery_def recovery_of_def flip: image_mset.compositionality)
      (simp add: image_mset.compositionality comp_def recovery_of_def)
  ultimately show ?thesis by (metis mset_eq_imp_distinct_iff)
qed

text \<open>Closing the transaction of a pending action always succeeds.\<close>

lemma finish_recovery_effect:
  assumes t: "row_by tx_id (ra_tx_id a) (jr_txs jr) = Some t" and a: "a = recovery_of t"
    and open_tx: "\<not> terminal_phase (tx_phase t)"
  obtains j t' where "finish_recovery a now jr = Inr j" "row_by tx_id (ra_tx_id a) (jr_txs j) = Some t'"
    "terminal_phase (tx_phase t')"
    "\<And>k. k \<noteq> ra_tx_id a \<Longrightarrow> row_by tx_id k (jr_txs j) = row_by tx_id k (jr_txs jr)"
    "journal_ok jr \<Longrightarrow> journal_ok j"
proof -
  let ?p = "if ra_action a = RestoreCommitted then Recovered else Aborted"
  have st: "?p \<in> set (phase_transitions (tx_phase t))"
    using open_tx by (cases "tx_phase t") (simp_all add: a recovery_of_def terminal_phase_def)
  obtain j where j: "finish_recovery a now jr = Inr j"
    using t st by (simp add: finish_recovery_def journal_advance_def)
  note j' = j [unfolded finish_recovery_def]
  obtain t0 t' where "t' = t0\<lparr>tx_phase := ?p, tx_candidate_snapshot_id := (case None of None \<Rightarrow> tx_candidate_snapshot_id t0
        | Some c \<Rightarrow> Some c), tx_updated_at := now, tx_error := lit ''startup recovery''\<rparr>"
    and r: "row_by tx_id (ra_tx_id a) (jr_txs j) = Some t'"
      "\<And>k. k \<noteq> ra_tx_id a \<Longrightarrow> row_by tx_id k (jr_txs j) = row_by tx_id k (jr_txs jr)"
    using j' by (rule journal_advance_cases) blast
  then have "terminal_phase (tx_phase t')" by (simp add: terminal_phase_def)
  then show ?thesis using that [OF j r(1) _ r(2)] journal_advance_ok [OF _ j'] by blast
qed

text \<open>One pass over pending actions: it succeeds, ends the transactions it is responsible for and
  leaves the other rows as they were.\<close>

definition stored_actions :: "recovery_action list \<Rightarrow> journal \<Rightarrow> bool" where
  "stored_actions acts jr \<longleftrightarrow> distinct (map ra_tx_id acts) \<and>
     (\<forall>a \<in> set acts. \<exists>t. row_by tx_id (ra_tx_id a) (jr_txs jr) = Some t \<and> a = recovery_of t \<and>
        \<not> terminal_phase (tx_phase t))"

lemma stored_pending:
  assumes "journal_ok jr"
  shows "stored_actions (pending_recovery jr) jr"
proof -
  have "row_by tx_id (tx_id t) (jr_txs jr) = Some t" if "t \<in> set (jr_txs jr)" for t
    using assms that by (simp add: journal_ok_def row_by_unique)
  then show ?thesis
    using pending_recovery_ids [OF assms] by (auto simp: stored_actions_def pending_recovery_set recovery_of_def)
qed

lemma stored_actions_tail:
  assumes "stored_actions (a # acts) jr"
    and "\<And>k. k \<noteq> ra_tx_id a \<Longrightarrow> row_by tx_id k (jr_txs j) = row_by tx_id k (jr_txs jr)"
  shows "stored_actions acts j"
  using assms unfolding stored_actions_def by (auto simp: image_iff)

definition closes :: "pystr set \<Rightarrow> journal \<Rightarrow> journal \<Rightarrow> bool" where
  "closes I jr j \<longleftrightarrow> (\<forall>i \<in> I. \<exists>t. row_by tx_id i (jr_txs j) = Some t \<and> terminal_phase (tx_phase t)) \<and>
     (\<forall>i. i \<notin> I \<longrightarrow> row_by tx_id i (jr_txs j) = row_by tx_id i (jr_txs jr))"

lemma closes_Cons:
  assumes "row_by tx_id i (jr_txs j) = Some t" "terminal_phase (tx_phase t)"
    and "\<And>k. k \<noteq> i \<Longrightarrow> row_by tx_id k (jr_txs j) = row_by tx_id k (jr_txs jr)"
    and "closes I j j'" "i \<notin> I"
  shows "closes (insert i I) jr j'"
  using assms unfolding closes_def by (auto simp: image_iff)

lemma discard_candidates_effect:
  assumes "journal_ok jr" and "stored_actions acts jr"
  shows "\<exists>j. discard_candidates acts clk jr = (None, j) \<and> journal_ok j \<and>
    closes (ra_tx_id ` {a \<in> set acts. ra_action a = DiscardCandidate}) jr j"
  using assms
proof (induction acts arbitrary: jr)
  case (Cons a acts)
  show ?case
  proof (cases "ra_action a = DiscardCandidate")
    case True
    obtain t where t: "row_by tx_id (ra_tx_id a) (jr_txs jr) = Some t" "a = recovery_of t" "\<not> terminal_phase (tx_phase t)"
      using Cons.prems(2) by (auto simp: stored_actions_def)
    obtain j t' where j: "finish_recovery a (clk (length acts)) jr = Inr j"
        "row_by tx_id (ra_tx_id a) (jr_txs j) = Some t'" "terminal_phase (tx_phase t')"
      and other: "\<And>k. k \<noteq> ra_tx_id a \<Longrightarrow> row_by tx_id k (jr_txs j) = row_by tx_id k (jr_txs jr)"
      and ok: "journal_ok jr \<Longrightarrow> journal_ok j"
      using t by (rule finish_recovery_effect) blast
    obtain j' where j': "discard_candidates acts clk j = (None, j')" "journal_ok j'"
        "closes (ra_tx_id ` {a \<in> set acts. ra_action a = DiscardCandidate}) j j'"
      using Cons.IH [OF ok [OF Cons.prems(1)] stored_actions_tail [OF Cons.prems(2) other]] by blast
    have "ra_tx_id a \<notin> ra_tx_id ` {a \<in> set acts. ra_action a = DiscardCandidate}"
      using Cons.prems(2) by (auto simp: stored_actions_def)
    from closes_Cons [OF j(2,3) other j'(3) this]
    have "closes (insert (ra_tx_id a) (ra_tx_id ` {a \<in> set acts. ra_action a = DiscardCandidate})) jr j'" by simp
    moreover have "ra_tx_id ` {x \<in> set (a # acts). ra_action x = DiscardCandidate} =
        insert (ra_tx_id a) (ra_tx_id ` {a \<in> set acts. ra_action a = DiscardCandidate})" using True by auto
    ultimately show ?thesis using True j(1) j' by simp
  next
    case False
    then have "{x \<in> set (a # acts). ra_action x = DiscardCandidate} = {a \<in> set acts. ra_action a = DiscardCandidate}"
      by auto
    then show ?thesis
      using False Cons.IH [OF Cons.prems(1) stored_actions_tail [OF Cons.prems(2) refl]] by simp
  qed
qed (simp add: closes_def)

definition current_generation :: "registry \<Rightarrow> pystr \<Rightarrow> pystr option" where
  "current_generation rg p = map_option (\<lambda>x. gn_generation_id (gen_at rg x)) (map_of (rg_current rg) p)"

lemma restore_committed_effect:
  assumes "journal_ok jr"
    and "stored_actions (filter (\<lambda>a. ra_action a = RestoreCommitted) acts) jr"
    and "\<forall>a \<in> set acts. ra_action a = RestoreCommitted \<longrightarrow>
      current_generation rg (ra_plugin_id a) = Some (ra_generation_id a)"
  shows "\<exists>j. restore_committed acts clk rg jr = (None, j) \<and> journal_ok j \<and>
    closes (ra_tx_id ` {a \<in> set acts. ra_action a = RestoreCommitted}) jr j"
  using assms
proof (induction acts arbitrary: jr)
  case (Cons a acts)
  show ?case
  proof (cases "ra_action a = RestoreCommitted")
    case True
    have st: "stored_actions (a # filter (\<lambda>a. ra_action a = RestoreCommitted) acts) jr" using Cons.prems(2) True by simp
    obtain t where t: "row_by tx_id (ra_tx_id a) (jr_txs jr) = Some t" "a = recovery_of t" "\<not> terminal_phase (tx_phase t)"
      using st by (auto simp: stored_actions_def)
    obtain j t' where j: "finish_recovery a (clk (length acts)) jr = Inr j"
        "row_by tx_id (ra_tx_id a) (jr_txs j) = Some t'" "terminal_phase (tx_phase t')"
      and other: "\<And>k. k \<noteq> ra_tx_id a \<Longrightarrow> row_by tx_id k (jr_txs j) = row_by tx_id k (jr_txs jr)"
      and ok: "journal_ok jr \<Longrightarrow> journal_ok j"
      using t by (rule finish_recovery_effect) blast
    have "\<forall>a \<in> set acts. ra_action a = RestoreCommitted \<longrightarrow>
        current_generation rg (ra_plugin_id a) = Some (ra_generation_id a)" using Cons.prems(3) by simp
    then obtain j' where j': "restore_committed acts clk rg j = (None, j')" "journal_ok j'"
        "closes (ra_tx_id ` {a \<in> set acts. ra_action a = RestoreCommitted}) j j'"
      using Cons.IH [OF ok [OF Cons.prems(1)] stored_actions_tail [OF st other]] by blast
    have "ra_tx_id a \<notin> ra_tx_id ` {a \<in> set acts. ra_action a = RestoreCommitted}"
      using st by (auto simp: stored_actions_def)
    from closes_Cons [OF j(2,3) other j'(3) this]
    have "closes (insert (ra_tx_id a) (ra_tx_id ` {a \<in> set acts. ra_action a = RestoreCommitted})) jr j'" by simp
    moreover have "ra_tx_id ` {x \<in> set (a # acts). ra_action x = RestoreCommitted} =
        insert (ra_tx_id a) (ra_tx_id ` {a \<in> set acts. ra_action a = RestoreCommitted})" using True by auto
    moreover have "current_generation rg (ra_plugin_id a) = Some (ra_generation_id a)" using Cons.prems(3) True by simp
    ultimately show ?thesis using True j(1) j' by (simp add: current_generation_def Let_def)
  next
    case False
    then have "{x \<in> set (a # acts). ra_action x = RestoreCommitted} = {a \<in> set acts. ra_action a = RestoreCommitted}"
      by auto
    then show ?thesis using False Cons.IH [OF Cons.prems(1)] Cons.prems(2,3) by simp
  qed
qed (simp add: closes_def)

lemma recovery_check_conflict:
  assumes "a \<in> set acts" "b \<in> set acts" "ra_action a = RestoreCommitted" "ra_action b = RestoreCommitted"
    and "ra_plugin_id a = ra_plugin_id b" "ra_source_revision a \<noteq> ra_source_revision b"
  shows "\<exists>e. recovery_check discovered acts = Some e"
proof -
  have pass: "discovered (ra_plugin_id x) = Some (ra_source_revision x)"
    if "recovery_check discovered acts = None" "x \<in> set acts" "ra_action x = RestoreCommitted" for x
    using that
    by (induction acts) (auto split: if_splits option.splits)
  show ?thesis
  proof (cases "recovery_check discovered acts")
    case None
    then show ?thesis using pass [OF None assms(1,3)] pass [OF None assms(2,4)] assms(5,6) by simp
  qed simp
qed

lemma recovery_restores_set:
  "(\<forall>a \<in> set (pending_recovery jr). ra_action a = RestoreCommitted \<longrightarrow> P a) \<longleftrightarrow>
   (\<forall>t \<in> set (jr_txs jr). tx_phase t \<in> {CommitStarted, Committed, Draining} \<longrightarrow> P (recovery_of t))"
  by (auto simp: pending_recovery_set recovery_of_def terminal_phase_def)

lemma restore_committed_current:
  assumes "restore_committed acts clk rg jr = (None, j)" "a \<in> set acts" "ra_action a = RestoreCommitted"
  shows "current_generation rg (ra_plugin_id a) = Some (ra_generation_id a)"
  using assms
  by (induction acts arbitrary: jr) (auto simp: Let_def current_generation_def split: if_splits sum.splits)

definition rows_stay :: "journal \<Rightarrow> journal \<Rightarrow> bool" where
  "rows_stay jr j \<longleftrightarrow> (\<forall>i t. row_by tx_id i (jr_txs jr) = Some t \<longrightarrow> row_by tx_id i (jr_txs j) = Some t)"

text \<open>The actions by what they do, and what is left of them once the candidates are discarded.\<close>

abbreviation discarded :: "journal \<Rightarrow> pystr set" where
  "discarded jr \<equiv> ra_tx_id ` {a \<in> set (pending_recovery jr). ra_action a = DiscardCandidate}"

abbreviation restored :: "journal \<Rightarrow> pystr set" where
  "restored jr \<equiv> ra_tx_id ` {a \<in> set (pending_recovery jr). ra_action a = RestoreCommitted}"

lemma recovery_disjoint:
  assumes "journal_ok jr" "i \<in> restored jr"
  shows "i \<notin> discarded jr"
proof
  assume "i \<in> discarded jr"
  then obtain b where b: "b \<in> set (pending_recovery jr)" "ra_action b = DiscardCandidate" "ra_tx_id b = i" by blast
  obtain a where a: "a \<in> set (pending_recovery jr)" "ra_action a = RestoreCommitted" "ra_tx_id a = i" using assms(2) by blast
  have "inj_on ra_tx_id (set (pending_recovery jr))" using pending_recovery_ids [OF assms(1)] by (simp add: distinct_map)
  from inj_onD [OF this _ a(1) b(1)] have "a = b" by (simp only: a(3) b(3))
  then show False using a(2) b(2) by simp
qed

lemma recovery_open:
  assumes "t \<in> set (jr_txs jr)" "\<not> terminal_phase (tx_phase t)"
  shows "tx_id t \<in> discarded jr \<or> tx_id t \<in> restored jr"
proof -
  have "recovery_of t \<in> set (pending_recovery jr)" using assms by (simp add: pending_recovery_set)
  moreover have "ra_tx_id (recovery_of t) = tx_id t" by (simp add: recovery_of_def)
  ultimately show ?thesis
    by (cases "ra_action (recovery_of t)") (metis (mono_tags, lifting) imageI mem_Collect_eq)+
qed

lemma recovery_left:
  assumes ok: "journal_ok jr" and j1: "closes (discarded jr) jr j1" and stay: "rows_stay j1 j2"
  shows "stored_actions (filter (\<lambda>a. ra_action a = RestoreCommitted) (pending_recovery jr)) j2"
proof -
  have st: "stored_actions (pending_recovery jr) jr" by (rule stored_pending [OF ok])
  have "\<exists>t. row_by tx_id (ra_tx_id a) (jr_txs j2) = Some t \<and> a = recovery_of t \<and> \<not> terminal_phase (tx_phase t)"
    if a: "a \<in> set (pending_recovery jr)" "ra_action a = RestoreCommitted" for a
  proof -
    obtain t where t: "row_by tx_id (ra_tx_id a) (jr_txs jr) = Some t" "a = recovery_of t" "\<not> terminal_phase (tx_phase t)"
      using st a(1) by (auto simp: stored_actions_def)
    have "ra_tx_id a \<notin> discarded jr" by (rule recovery_disjoint [OF ok]) (use a in blast)
    then have "row_by tx_id (ra_tx_id a) (jr_txs j1) = Some t" using j1 t(1) unfolding closes_def by metis
    then show ?thesis using stay t(2,3) unfolding rows_stay_def by blast
  qed
  then show ?thesis using st by (simp add: stored_actions_def distinct_map_filter)
qed

text \<open>A start-up that succeeds has closed every transaction that was open, whatever its phase; the others are those
  that the activation left.\<close>

lemma load_all_recovery_closes:
  assumes ok: "journal_ok (ph_journal h)"
    and run: "load_all_recovery discovered activate clk clk' h = (None, h')"
    and act: "\<And>j h1. journal_ok j \<Longrightarrow> activate (h\<lparr>ph_journal := j\<rparr>) = (None, h1) \<Longrightarrow>
      journal_ok (ph_journal h1) \<and> rows_stay j (ph_journal h1)"
  obtains j1 h1 where "activate (h\<lparr>ph_journal := j1\<rparr>) = (None, h1)" "journal_ok j1"
    "\<forall>i. row_by tx_id i (jr_txs (ph_journal h)) = None \<longrightarrow> row_by tx_id i (jr_txs j1) = None"
    "journal_ok (ph_journal h')" "ph_registry h' = ph_registry h1"
    "\<forall>i t. row_by tx_id i (jr_txs (ph_journal h)) = Some t \<longrightarrow>
       (\<exists>t'. row_by tx_id i (jr_txs (ph_journal h')) = Some t' \<and> terminal_phase (tx_phase t'))"
    "\<forall>i. row_by tx_id i (jr_txs (ph_journal h)) = None \<longrightarrow>
       row_by tx_id i (jr_txs (ph_journal h')) = row_by tx_id i (jr_txs (ph_journal h1))"
proof -
  let ?jr = "ph_journal h"
  let ?acts = "pending_recovery ?jr"
  obtain j1 where j1: "discard_candidates ?acts clk ?jr = (None, j1)" "journal_ok j1" "closes (discarded ?jr) ?jr j1"
    using discard_candidates_effect [OF ok stored_pending [OF ok]] by blast
  obtain h1 j2 where h1: "activate (h\<lparr>ph_journal := j1\<rparr>) = (None, h1)"
    and j2: "restore_committed ?acts clk' (ph_registry h1) (ph_journal h1) = (None, j2)" and h': "h' = h1\<lparr>ph_journal := j2\<rparr>"
    using run by (auto simp: load_all_recovery_def Let_def j1(1) split: option.splits prod.splits)
  note a = act [OF j1(2) h1]
  have "\<forall>a \<in> set ?acts. ra_action a = RestoreCommitted \<longrightarrow>
      current_generation (ph_registry h1) (ra_plugin_id a) = Some (ra_generation_id a)"
    using restore_committed_current [OF j2] by blast
  from restore_committed_effect [OF conjunct1 [OF a] recovery_left [OF ok j1(3) conjunct2 [OF a]] this, of clk'] j2
  have c: "journal_ok j2" "closes (restored ?jr) (ph_journal h1) j2" by auto
  have fresh: "i \<notin> restored ?jr \<and> i \<notin> discarded ?jr" if "row_by tx_id i (jr_txs ?jr) = None" for i
    using that stored_pending [OF ok] by (auto simp: stored_actions_def)
  have closed: "\<exists>t'. row_by tx_id i (jr_txs j2) = Some t' \<and> terminal_phase (tx_phase t')"
    if t: "row_by tx_id i (jr_txs ?jr) = Some t" for i t
  proof (cases "i \<in> restored ?jr")
    case True
    then show ?thesis using c(2) unfolding closes_def by blast
  next
    case False
    have "\<exists>t'. row_by tx_id i (jr_txs j1) = Some t' \<and> terminal_phase (tx_phase t')"
    proof (cases "i \<in> discarded ?jr")
      case True
      then show ?thesis using j1(3) unfolding closes_def by blast
    next
      case nD: False
      have "terminal_phase (tx_phase t)" using recovery_open [of t ?jr] row_by_SomeD [OF t] False nD by blast
      moreover have "row_by tx_id i (jr_txs j1) = Some t" using j1(3) nD t unfolding closes_def by metis
      ultimately show ?thesis by blast
    qed
    then obtain t' where t': "row_by tx_id i (jr_txs j1) = Some t'" "terminal_phase (tx_phase t')" by blast
    have "row_by tx_id i (jr_txs (ph_journal h1)) = Some t'" using a t'(1) unfolding rows_stay_def by blast
    moreover have "row_by tx_id i (jr_txs j2) = row_by tx_id i (jr_txs (ph_journal h1))"
      using c(2) False unfolding closes_def by blast
    ultimately show ?thesis using t'(2) by simp
  qed
  show ?thesis
  proof (rule that [OF h1 j1(2)])
    show "\<forall>i. row_by tx_id i (jr_txs ?jr) = None \<longrightarrow> row_by tx_id i (jr_txs j1) = None"
      using fresh j1(3) unfolding closes_def by metis
    show "\<forall>i. row_by tx_id i (jr_txs ?jr) = None \<longrightarrow>
       row_by tx_id i (jr_txs (ph_journal h')) = row_by tx_id i (jr_txs (ph_journal h1))"
      using fresh c(2) unfolding closes_def by (simp add: h')
  qed (use c(1) closed in \<open>simp_all add: h'\<close>)
qed

text \<open>It succeeds when the source of every committed transaction is on disk and the activation makes its generation
  the current one.\<close>

lemma load_all_recovery_runs:
  assumes ok: "journal_ok (ph_journal h)"
    and chk: "recovery_check discovered (pending_recovery (ph_journal h)) = None"
    and act: "\<And>j. journal_ok j \<Longrightarrow> (\<forall>i. row_by tx_id i (jr_txs (ph_journal h)) = None \<longrightarrow> row_by tx_id i (jr_txs j) = None) \<Longrightarrow>
      \<exists>h1. activate (h\<lparr>ph_journal := j\<rparr>) = (None, h1) \<and> journal_ok (ph_journal h1) \<and> rows_stay j (ph_journal h1) \<and>
        (\<forall>t \<in> set (jr_txs (ph_journal h)). tx_phase t \<in> {CommitStarted, Committed, Draining} \<longrightarrow>
           current_generation (ph_registry h1) (tx_plugin_id t) = Some (tx_generation_id t))"
  shows "\<exists>h'. load_all_recovery discovered activate clk clk' h = (None, h')"
proof -
  let ?jr = "ph_journal h"
  let ?acts = "pending_recovery ?jr"
  obtain j1 where j1: "discard_candidates ?acts clk ?jr = (None, j1)" "journal_ok j1" "closes (discarded ?jr) ?jr j1"
    using discard_candidates_effect [OF ok stored_pending [OF ok]] by blast
  have "i \<notin> discarded ?jr" if "row_by tx_id i (jr_txs ?jr) = None" for i
    using that stored_pending [OF ok] by (auto simp: stored_actions_def)
  then have "\<forall>i. row_by tx_id i (jr_txs ?jr) = None \<longrightarrow> row_by tx_id i (jr_txs j1) = None"
    using j1(3) unfolding closes_def by metis
  from act [OF j1(2) this] obtain h1 where h1: "activate (h\<lparr>ph_journal := j1\<rparr>) = (None, h1)" "journal_ok (ph_journal h1)"
      "rows_stay j1 (ph_journal h1)"
    and gens: "\<forall>t \<in> set (jr_txs ?jr). tx_phase t \<in> {CommitStarted, Committed, Draining} \<longrightarrow>
           current_generation (ph_registry h1) (tx_plugin_id t) = Some (tx_generation_id t)" by blast
  have "\<forall>a \<in> set ?acts. ra_action a = RestoreCommitted \<longrightarrow>
      current_generation (ph_registry h1) (ra_plugin_id a) = Some (ra_generation_id a)"
    using gens by (simp add: recovery_restores_set) (simp add: recovery_of_def)
  from restore_committed_effect [OF h1(2) recovery_left [OF ok j1(3) h1(3)] this, of clk'] show ?thesis
    by (auto simp: load_all_recovery_def Let_def chk j1(1) h1(1))
qed

section \<open>Publication under the journal\<close>

text \<open>The row an advance leaves, computed from the row before.\<close>

definition tx_after :: "reload_phase \<Rightarrow> pystr option \<Rightarrow> pystr \<Rightarrow> instant \<Rightarrow> reload_tx \<Rightarrow> reload_tx" where
  "tx_after p cand err now t =
     t\<lparr>tx_phase := p, tx_candidate_snapshot_id := (case cand of None \<Rightarrow> tx_candidate_snapshot_id t
         | Some c \<Rightarrow> Some c), tx_updated_at := now, tx_error := err\<rparr>"

lemma tx_after_simps [simp]:
  "tx_phase (tx_after p c e n t) = p" "tx_id (tx_after p c e n t) = tx_id t" "tx_error (tx_after p c e n t) = e"
  "tx_plugin_id (tx_after p c e n t) = tx_plugin_id t" "tx_generation_id (tx_after p c e n t) = tx_generation_id t"
  "tx_source_revision (tx_after p c e n t) = tx_source_revision t"
  by (simp_all add: tx_after_def)

definition advanced ::
  "pystr \<Rightarrow> reload_phase \<Rightarrow> pystr option \<Rightarrow> pydict \<Rightarrow> pystr \<Rightarrow> instant \<Rightarrow> reload_tx \<Rightarrow> journal \<Rightarrow> journal" where
  "advanced i p cand d err now t jr =
     append_event i p d now (jr\<lparr>jr_txs := put_row tx_id (tx_after p cand err now t) (jr_txs jr)\<rparr>)"

lemma journal_advance_eq:
  assumes "row_by tx_id i (jr_txs jr) = Some t" and "p \<in> set (phase_transitions (tx_phase t))"
  shows "journal_advance i p cand d err now jr = Inr (advanced i p cand d err now t jr)"
  using assms by (simp add: journal_advance_def tx_after_def advanced_def)

lemma advanced_row:
  assumes "row_by tx_id i (jr_txs jr) = Some t"
  shows "row_by tx_id k (jr_txs (advanced i p cand d err now t jr)) =
    (if k = i then Some (tx_after p cand err now t) else row_by tx_id k (jr_txs jr))"
    and "tx_log (advanced i p cand d err now t jr) k = tx_log jr k @ (if k = i then [p] else [])"
  using assms row_by_SomeD [OF assms] by (simp_all add: advanced_def row_by_put_row)

text \<open>The three advances before the commit point and the two after it.\<close>

lemma prepare_transaction_effect:
  assumes t: "row_by tx_id i (jr_txs jr) = Some t" "tx_phase t = Preparing"
  obtains jr' t' where "prepare_transaction i g clk jr = (None, jr')" "row_by tx_id i (jr_txs jr') = Some t'"
    "tx_phase t' = CommitStarted" "tx_plugin_id t' = tx_plugin_id t" "tx_generation_id t' = tx_generation_id t"
    "tx_source_revision t' = tx_source_revision t" "tx_candidate_snapshot_id t' = Some (gn_generation_id g)"
    "\<forall>k. k \<noteq> i \<longrightarrow> row_by tx_id k (jr_txs jr') = row_by tx_id k (jr_txs jr)"
    "\<forall>k. tx_log jr' k = tx_log jr k @ (if k = i then [Prepared, Validating, CommitStarted] else [])"
    "journal_ok jr \<longrightarrow> journal_ok jr'"
proof -
  define t1 where "t1 = tx_after Prepared (Some (gn_generation_id g)) [] (clk 1) t"
  define t2 where "t2 = tx_after Validating None [] (clk 2) t1"
  define t3 where "t3 = tx_after CommitStarted None [] (clk 3) t2"
  define j1 where "j1 = advanced i Prepared (Some (gn_generation_id g)) [] [] (clk 1) t jr"
  define j2 where "j2 = advanced i Validating None [] [] (clk 2) t1 j1"
  define j3 where "j3 = advanced i CommitStarted None [] [] (clk 3) t2 j2"
  have a1: "journal_advance i Prepared (Some (gn_generation_id g)) [] [] (clk 1) jr = Inr j1"
    unfolding j1_def by (rule journal_advance_eq) (simp_all add: t)
  have r1: "row_by tx_id k (jr_txs j1) = (if k = i then Some t1 else row_by tx_id k (jr_txs jr))" for k
    unfolding j1_def t1_def by (rule advanced_row(1) [OF t(1)])
  have a2: "journal_advance i Validating None [] [] (clk 2) j1 = Inr j2"
    unfolding j2_def by (rule journal_advance_eq) (simp_all add: r1 t1_def)
  have r2: "row_by tx_id k (jr_txs j2) = (if k = i then Some t2 else row_by tx_id k (jr_txs jr))" for k
    using advanced_row(1) [of i j1 t1 k] by (simp add: j2_def t2_def r1)
  have a3: "journal_advance i CommitStarted None [] [] (clk 3) j2 = Inr j3"
    unfolding j3_def by (rule journal_advance_eq) (simp_all add: r2 t2_def)
  have r3: "row_by tx_id k (jr_txs j3) = (if k = i then Some t3 else row_by tx_id k (jr_txs jr))" for k
    using advanced_row(1) [of i j2 t2 k] by (simp add: j3_def t3_def r2)
  have log: "tx_log j3 k = tx_log jr k @ (if k = i then [Prepared, Validating, CommitStarted] else [])" for k
    using t(1) by (simp add: j3_def j2_def j1_def advanced_def)
  have "journal_ok j3" if "journal_ok jr"
    using journal_advance_ok [OF journal_advance_ok [OF journal_advance_ok [OF that a1] a2] a3] .
  moreover have "prepare_transaction i g clk jr = (None, j3)"
    by (simp add: prepare_transaction_def a1 a2 a3 del: One_nat_def)
  ultimately show ?thesis
    using r3 log by (intro that [of j3 t3]) (simp_all add: t3_def t2_def t1_def tx_after_def)
qed

lemma settle_transaction_effect:
  assumes t: "row_by tx_id i (jr_txs (ph_journal h)) = Some t" "tx_phase t = CommitStarted"
  obtains h' t' where "settle_transaction i pr clk h = (None, h')" "row_by tx_id i (jr_txs (ph_journal h')) = Some t'"
    "tx_phase t' = (if pr = None then Complete else Draining)" "tx_plugin_id t' = tx_plugin_id t"
    "tx_generation_id t' = tx_generation_id t" "tx_source_revision t' = tx_source_revision t"
    "\<forall>k. k \<noteq> i \<longrightarrow> row_by tx_id k (jr_txs (ph_journal h')) = row_by tx_id k (jr_txs (ph_journal h))"
    "ph_registry h' = ph_registry h"
    "\<forall>k. tx_log (ph_journal h') k = tx_log (ph_journal h) k @
       (if k = i then [Committed, if pr = None then Complete else Draining] else [])"
    "journal_ok (ph_journal h) \<longrightarrow> journal_ok (ph_journal h')"
proof -
  let ?q = "if pr = None then Complete else Draining"
  define t1 where "t1 = tx_after Committed None [] (clk 4) t"
  define t2 where "t2 = tx_after ?q None [] (clk 5) t1"
  define j1 where "j1 = advanced i Committed None [] [] (clk 4) t (ph_journal h)"
  define j2 where "j2 = advanced i ?q None [] [] (clk 5) t1 j1"
  have a1: "journal_advance i Committed None [] [] (clk 4) (ph_journal h) = Inr j1"
    unfolding j1_def by (rule journal_advance_eq) (simp_all add: t)
  have r1: "row_by tx_id k (jr_txs j1) = (if k = i then Some t1 else row_by tx_id k (jr_txs (ph_journal h)))" for k
    unfolding j1_def t1_def by (rule advanced_row(1) [OF t(1)])
  have a2: "journal_advance i ?q None [] [] (clk 5) j1 = Inr j2"
    unfolding j2_def by (rule journal_advance_eq) (simp_all add: r1 t1_def)
  have r2: "row_by tx_id k (jr_txs j2) = (if k = i then Some t2 else row_by tx_id k (jr_txs (ph_journal h)))" for k
    using advanced_row(1) [of i j1 t1 k] by (simp add: j2_def t2_def r1)
  have log: "tx_log j2 k = tx_log (ph_journal h) k @ (if k = i then [Committed, ?q] else [])" for k
    by (simp add: j2_def j1_def advanced_def)
  have "journal_ok j2" if "journal_ok (ph_journal h)"
    using journal_advance_ok [OF journal_advance_ok [OF that a1] a2] .
  moreover define h' where "h' = h\<lparr>ph_journal := j2,
      ph_drains := (case pr of None \<Rightarrow> ph_drains h
        | Some p \<Rightarrow> AList.update (gn_generation_id (gen_at (ph_registry h) p)) i (ph_drains h))\<rparr>"
  moreover have "settle_transaction i pr clk h = (None, h')"
    using a2 by (simp add: settle_transaction_def a1 h'_def)
  ultimately show ?thesis
    using r2 log by (intro that [of h' t2]) (simp_all add: t2_def t1_def tx_after_def)
qed

text \<open>A passed gate: the transaction ends complete, or draining when a generation was replaced.  A
  failed gate: it ends aborted, and the registry is the one before.\<close>

lemma publish_generation_transaction_run:
  assumes ok: "journal_ok (ph_journal h)" and new: "row_by tx_id i (jr_txs (ph_journal h)) = None"
    and pub: "publish g (ph_registry h) = Inr (pr, rg)"
  obtains h' t where "publish_generation_transaction g i clk h = (Inr pr, h')" "ph_registry h' = rg"
    "row_by tx_id i (jr_txs (ph_journal h')) = Some t" "tx_phase t = (if pr = None then Complete else Draining)"
    "tx_plugin_id t = gn_plugin_id g" "tx_generation_id t = gn_generation_id g"
    "tx_source_revision t = gn_source_revision g"
    "\<forall>k. k \<noteq> i \<longrightarrow> row_by tx_id k (jr_txs (ph_journal h')) = row_by tx_id k (jr_txs (ph_journal h))"
    "tx_log (ph_journal h') i =
      [Preparing, Prepared, Validating, CommitStarted, Committed, if pr = None then Complete else Draining]"
    "journal_ok (ph_journal h')"
proof -
  let ?base = "map_option (\<lambda>a. gn_generation_id (gen_at (ph_registry h) a))
                   (map_of (rg_current (ph_registry h)) (gn_plugin_id g))"
  obtain j j0 where b: "journal_begin (gn_plugin_id g) ?base (gn_generation_id g) (gn_source_revision g)
                (gn_config_revision g) i (clk 0) (ph_journal h) = Inr (j, j0)"
    using new by (simp add: journal_begin_def)
  note bg = journal_begin_ok [OF ok b]
  obtain j3 t3 where pt: "prepare_transaction i g clk j0 = (None, j3)" "row_by tx_id i (jr_txs j3) = Some t3"
      "tx_phase t3 = CommitStarted" "tx_plugin_id t3 = gn_plugin_id g" "tx_generation_id t3 = gn_generation_id g"
      "tx_source_revision t3 = gn_source_revision g"
      "\<forall>k. k \<noteq> i \<longrightarrow> row_by tx_id k (jr_txs j3) = row_by tx_id k (jr_txs j0)"
      "\<forall>k. tx_log j3 k = tx_log j0 k @ (if k = i then [Prepared, Validating, CommitStarted] else [])"
      "journal_ok j3"
    using bg(1) by (rule_tac prepare_transaction_effect [OF bg(4), of g clk]) simp_all
  let ?h = "h\<lparr>ph_journal := j3, ph_registry := rg\<rparr>"
  have row: "row_by tx_id i (jr_txs (ph_journal ?h)) = Some t3" using pt(2) by simp
  obtain h1 t1 where st: "settle_transaction i pr clk ?h = (None, h1)"
      "row_by tx_id i (jr_txs (ph_journal h1)) = Some t1"
      "tx_phase t1 = (if pr = None then Complete else Draining)" "tx_plugin_id t1 = tx_plugin_id t3"
      "tx_generation_id t1 = tx_generation_id t3" "tx_source_revision t1 = tx_source_revision t3"
      "\<forall>k. k \<noteq> i \<longrightarrow> row_by tx_id k (jr_txs (ph_journal h1)) = row_by tx_id k (jr_txs (ph_journal ?h))"
      "ph_registry h1 = ph_registry ?h"
      "\<forall>k. tx_log (ph_journal h1) k = tx_log (ph_journal ?h) k @
         (if k = i then [Committed, if pr = None then Complete else Draining] else [])"
      "journal_ok (ph_journal ?h) \<longrightarrow> journal_ok (ph_journal h1)"
    by (rule settle_transaction_effect [OF row pt(3), of pr clk]) blast
  have e: "publish_generation_transaction g i clk h = (Inr pr, h1)"
    using b pt(1) pub st(1) by (simp add: publish_generation_transaction_def Let_def)
  show ?thesis
    by (rule that [OF e, of t1]) (use st pt bg(3,5) in \<open>simp_all\<close>)
qed

lemma publish_generation_transaction_gate:
  assumes ok: "journal_ok (ph_journal h)" and new: "row_by tx_id i (jr_txs (ph_journal h)) = None"
    and gate: "\<not> gate_passed (gn_gate_result g)"
  obtains e h' t where "publish_generation_transaction g i clk h = (Inl e, h')"
    "ph_registry h' = ph_registry h" "ph_drains h' = ph_drains h"
    "row_by tx_id i (jr_txs (ph_journal h')) = Some t" "tx_phase t = Aborted" "tx_error t = error_text e"
    "\<forall>k. k \<noteq> i \<longrightarrow> row_by tx_id k (jr_txs (ph_journal h')) = row_by tx_id k (jr_txs (ph_journal h))"
    "journal_ok (ph_journal h')"
proof -
  let ?base = "map_option (\<lambda>a. gn_generation_id (gen_at (ph_registry h) a))
                   (map_of (rg_current (ph_registry h)) (gn_plugin_id g))"
  obtain j j0 where b: "journal_begin (gn_plugin_id g) ?base (gn_generation_id g) (gn_source_revision g)
                (gn_config_revision g) i (clk 0) (ph_journal h) = Inr (j, j0)"
    using new by (simp add: journal_begin_def)
  note bg = journal_begin_ok [OF ok b]
  obtain j3 t3 where pt: "prepare_transaction i g clk j0 = (None, j3)" "row_by tx_id i (jr_txs j3) = Some t3"
      "tx_phase t3 = CommitStarted"
      "\<forall>k. k \<noteq> i \<longrightarrow> row_by tx_id k (jr_txs j3) = row_by tx_id k (jr_txs j0)" "journal_ok j3"
    using bg(1) by (rule_tac prepare_transaction_effect [OF bg(4), of g clk]) simp_all
  obtain e where e: "publish g (ph_registry h) = Inl e" using gate by (simp add: publish_def)
  let ?j = "advanced i Aborted None [] (error_text e) (clk 6) t3 j3"
  have adv: "journal_advance i Aborted None [] (error_text e) (clk 6) j3 = Inr ?j"
    by (rule journal_advance_eq) (simp_all add: pt(2,3))
  have "abort_transaction i e (clk 6) j3 = (e, ?j)"
    by (simp add: abort_transaction_def journal_get_def pt(2,3) adv)
  then have r: "publish_generation_transaction g i clk h = (Inl e, h\<lparr>ph_journal := ?j\<rparr>)"
    using b pt(1) e by (simp add: publish_generation_transaction_def Let_def)
  show ?thesis
    by (rule that [OF r, of "tx_after Aborted None (error_text e) (clk 6) t3"])
      (use pt bg(5) journal_advance_ok [OF pt(5) adv] in \<open>simp_all add: advanced_row(1) [OF pt(2)]\<close>)
qed

lemma publish_generation_transaction_ok:
  assumes ok: "journal_ok (ph_journal h)"
    and p: "publish_generation_transaction g i clk h = (Inr pr, h')"
  obtains t where "publish g (ph_registry h) = Inr (pr, ph_registry h')"
    "row_by tx_id i (jr_txs (ph_journal h')) = Some t" "tx_phase t = (if pr = None then Complete else Draining)"
    "tx_plugin_id t = gn_plugin_id g" "tx_generation_id t = gn_generation_id g"
    "tx_source_revision t = gn_source_revision g" "row_by tx_id i (jr_txs (ph_journal h)) = None"
    "\<forall>k. k \<noteq> i \<longrightarrow> row_by tx_id k (jr_txs (ph_journal h')) = row_by tx_id k (jr_txs (ph_journal h))"
    "tx_log (ph_journal h') i =
      [Preparing, Prepared, Validating, CommitStarted, Committed, if pr = None then Complete else Draining]"
    "journal_ok (ph_journal h')"
proof -
  have new: "row_by tx_id i (jr_txs (ph_journal h)) = None"
    using p by (auto simp: publish_generation_transaction_def journal_begin_def Let_def split: if_splits)
  have gate: "gate_passed (gn_gate_result g)"
  proof (rule ccontr)
    assume "\<not> gate_passed (gn_gate_result g)"
    then show False
      by (rule publish_generation_transaction_gate [OF ok new, of g clk]) (use p in simp)
  qed
  obtain pr0 rg where pub: "publish g (ph_registry h) = Inr (pr0, rg)"
    using gate by (simp add: publish_def Let_def split: option.splits) (cases "map_of (rg_current (ph_registry h)) (gn_plugin_id g)"; simp)
  show ?thesis
    by (rule publish_generation_transaction_run [OF ok new pub, of clk], rule that)
      (use p pub new in \<open>simp_all\<close>)
qed

section \<open>Publishing the loaded plugins\<close>

definition admitted_gens :: "(generation option \<times> pystr \<times> clock) list \<Rightarrow> (generation \<times> pystr) list" where
  "admitted_gens bs = concat (map (\<lambda>(g, tx, clk). case g of None \<Rightarrow> []
     | Some c \<Rightarrow> if gate_passed (gn_gate_result c) then [(c, tx)] else []) bs)"

lemma admitted_gens_Cons:
  "admitted_gens ((g, tx, clk) # bs) = (case g of None \<Rightarrow> []
     | Some c \<Rightarrow> if gate_passed (gn_gate_result c) then [(c, tx)] else []) @ admitted_gens bs"
  by (simp add: admitted_gens_def)

definition addresses_ok :: "registry \<Rightarrow> bool" where
  "addresses_ok rg \<longleftrightarrow> (\<forall>k a. map_of (rg_current rg) k = Some a \<longrightarrow> a < length (rg_heap rg))"

lemma publish_first:
  assumes "publish g rg = Inr (None, rg')" "addresses_ok rg"
  shows "addresses_ok rg'" "current_generation rg' (gn_plugin_id g) = Some (gn_generation_id g)"
    and "k \<noteq> gn_plugin_id g \<Longrightarrow> map_of (rg_current rg') k = map_of (rg_current rg) k"
    and "k \<noteq> gn_plugin_id g \<Longrightarrow> current_generation rg' k = current_generation rg k"
proof -
  have rg': "rg' = rg\<lparr>rg_heap := rg_heap rg @ [g\<lparr>gn_state := Active\<rparr>],
      rg_current := AList.update (gn_plugin_id g) (length (rg_heap rg)) (rg_current rg)\<rparr>"
    using assms(1) by (auto simp: publish_def Let_def split: if_splits option.splits)
  show "addresses_ok rg'"
    using assms(2) by (auto simp: addresses_ok_def rg' AList.update_conv' less_SucI split: if_splits)
  show "current_generation rg' (gn_plugin_id g) = Some (gn_generation_id g)"
    by (simp add: current_generation_def rg' AList.update_conv' gen_at_def)
  show "map_of (rg_current rg') k = map_of (rg_current rg) k" if "k \<noteq> gn_plugin_id g" for k
    using that by (simp add: rg' AList.update_conv')
  show "current_generation rg' k = current_generation rg k" if "k \<noteq> gn_plugin_id g" for k
    using that assms(2)
    by (cases "map_of (rg_current rg) k") (auto simp: current_generation_def rg' AList.update_conv' gen_at_def nth_append addresses_ok_def)
qed

lemma journal_begin_refused:
  assumes "row_by tx_id i (jr_txs (ph_journal h)) \<noteq> None"
  shows "\<exists>e. publish_generation_transaction g i clk h = (Inl e, h)"
  using assms by (simp add: publish_generation_transaction_def journal_begin_def Let_def)

text \<open>With one generation per plugin and none published before, every transaction it opens ends complete.\<close>

lemma publish_generations_effect:
  assumes "journal_ok (ph_journal h)" "addresses_ok (ph_registry h)"
    and "distinct (map (gn_plugin_id \<circ> fst) (admitted_gens bs))"
    and "\<forall>(c, tx) \<in> set (admitted_gens bs). map_of (rg_current (ph_registry h)) (gn_plugin_id c) = None"
  shows "journal_ok (ph_journal (snd (publish_generations bs h))) \<and>
    rows_stay (ph_journal h) (ph_journal (snd (publish_generations bs h))) \<and>
    (\<forall>i t. row_by tx_id i (jr_txs (ph_journal h)) = None \<longrightarrow>
       row_by tx_id i (jr_txs (ph_journal (snd (publish_generations bs h)))) = Some t \<longrightarrow> tx_phase t = Complete) \<and>
    (\<forall>k. k \<notin> gn_plugin_id ` fst ` set (admitted_gens bs) \<longrightarrow>
       current_generation (ph_registry (snd (publish_generations bs h))) k = current_generation (ph_registry h) k) \<and>
    (distinct (map snd (admitted_gens bs)) \<and> (\<forall>(c, tx) \<in> set (admitted_gens bs). row_by tx_id tx (jr_txs (ph_journal h)) = None) \<longrightarrow>
       (\<forall>(c, tx) \<in> set (admitted_gens bs).
          current_generation (ph_registry (snd (publish_generations bs h))) (gn_plugin_id c) = Some (gn_generation_id c)))"
  using assms
proof (induction bs arbitrary: h)
  case Nil
  then show ?case by (simp add: rows_stay_def admitted_gens_def)
next
  case (Cons b bs)
  obtain g tx clk where b: "b = (g, tx, clk)" by (cases b)
  show ?case
  proof (cases "\<exists>c. g = Some c \<and> gate_passed (gn_gate_result c)")
    case False
    then have "publish_generations (b # bs) h = publish_generations bs h" "admitted_gens (b # bs) = admitted_gens bs"
      by (auto simp: b admitted_gens_Cons split: option.splits)
    then show ?thesis using Cons by simp
  next
    case True
    then obtain c where c: "g = Some c" "gate_passed (gn_gate_result c)" by blast
    have adm: "admitted_gens (b # bs) = (c, tx) # admitted_gens bs" using c by (simp add: b admitted_gens_Cons)
    have d: "gn_plugin_id c \<notin> gn_plugin_id ` fst ` set (admitted_gens bs)"
        "distinct (map (gn_plugin_id \<circ> fst) (admitted_gens bs))"
      using Cons.prems(3) by (auto simp: adm o_def)
    show ?thesis
    proof (cases "row_by tx_id tx (jr_txs (ph_journal h))")
      case (Some t0)
      obtain e where "publish_generation_transaction c tx clk h = (Inl e, h)"
        using journal_begin_refused [of tx h c clk] Some by auto
      then have p: "publish_generations (b # bs) h = publish_generations bs h" using c by (simp add: b)
      show ?thesis using Cons.IH [OF Cons.prems(1,2) d(2)] Cons.prems(4) Some unfolding p by (simp add: adm)
    next
      case None
      have free: "map_of (rg_current (ph_registry h)) (gn_plugin_id c) = None" using Cons.prems(4) by (simp add: adm)
      obtain rg where pub: "publish c (ph_registry h) = Inr (None, rg)"
        using c(2) free by (simp add: publish_def Let_def)
      note pf = publish_first [OF pub Cons.prems(2)]
      obtain h1 t where h1: "publish_generation_transaction c tx clk h = (Inr None, h1)" "ph_registry h1 = rg"
          "row_by tx_id tx (jr_txs (ph_journal h1)) = Some t" "tx_phase t = Complete"
          "\<forall>k. k \<noteq> tx \<longrightarrow> row_by tx_id k (jr_txs (ph_journal h1)) = row_by tx_id k (jr_txs (ph_journal h))"
          "journal_ok (ph_journal h1)"
        by (rule publish_generation_transaction_run [OF Cons.prems(1) None pub, of clk]) simp
      have p: "snd (publish_generations (b # bs) h) = snd (publish_generations bs h1)"
        using c h1(1) by (simp add: b split: prod.splits)
      have "\<forall>(c', tx') \<in> set (admitted_gens bs). map_of (rg_current (ph_registry h1)) (gn_plugin_id c') = None"
      proof (clarify)
        fix x y assume xy: "(x, y) \<in> set (admitted_gens bs)"
        have "gn_plugin_id x \<in> gn_plugin_id ` fst ` set (admitted_gens bs)" using imageI [OF imageI [OF xy, of fst], of gn_plugin_id] by simp
        then have "gn_plugin_id x \<noteq> gn_plugin_id c" using d(1) by metis
        from pf(3) [OF this] show "map_of (rg_current (ph_registry h1)) (gn_plugin_id x) = None"
          using Cons.prems(4) xy by (auto simp: adm h1(2))
      qed
      note IH = Cons.IH [OF h1(6) pf(1) [folded h1(2)] d(2) this]
      let ?h = "snd (publish_generations bs h1)"
      have stay: "rows_stay (ph_journal h) (ph_journal ?h)"
        using IH h1(5) None unfolding rows_stay_def by (metis option.distinct(1))
      have new: "tx_phase x = Complete"
        if "row_by tx_id i (jr_txs (ph_journal h)) = None" "row_by tx_id i (jr_txs (ph_journal ?h)) = Some x" for i x
      proof (cases "i = tx")
        case True
        have "row_by tx_id tx (jr_txs (ph_journal ?h)) = Some t" using IH h1(3) unfolding rows_stay_def by blast
        then show ?thesis using that(2) True h1(4) by simp
      next
        case False
        then have "row_by tx_id i (jr_txs (ph_journal h1)) = None" using h1(5) that(1) by simp
        then show ?thesis using IH that(2) by blast
      qed
      have others: "current_generation (ph_registry ?h) k = current_generation (ph_registry h) k"
        if "k \<notin> gn_plugin_id ` fst ` set (admitted_gens (b # bs))" for k
        using that IH pf(4) by (simp add: adm h1(2))
      have own: "current_generation (ph_registry ?h) (gn_plugin_id c) = Some (gn_generation_id c)"
        using IH d(1) pf(2) by (simp add: h1(2))
      have later_ones: "current_generation (ph_registry ?h) (gn_plugin_id c') = Some (gn_generation_id c')"
        if f: "distinct (map snd (admitted_gens (b # bs)))"
          "\<forall>(c, tx) \<in> set (admitted_gens (b # bs)). row_by tx_id tx (jr_txs (ph_journal h)) = None"
          and m: "(c', tx') \<in> set (admitted_gens bs)" for c' tx'
      proof -
        have "\<forall>(c, tx') \<in> set (admitted_gens bs). row_by tx_id tx' (jr_txs (ph_journal h1)) = None"
        proof (clarify)
          fix x y assume xy: "(x, y) \<in> set (admitted_gens bs)"
          then have "y \<in> snd ` set (admitted_gens bs)" by force
          then have "y \<noteq> tx" using f(1) by (auto simp: adm)
          then show "row_by tx_id y (jr_txs (ph_journal h1)) = None" using f(2) xy h1(5) by (auto simp: adm)
        qed
        moreover have "distinct (map snd (admitted_gens bs))" using f(1) by (simp add: adm)
        ultimately show ?thesis using IH m by blast
      qed
      show ?thesis unfolding p using IH stay new others own later_ones by (auto simp: adm)
    qed
  qed
qed

end
