(* ===== verification/PluginTheorems.thy ===== *)
theory PluginTheorems
  imports ReloadJournal
begin

text \<open>
  What the hot reload of plugins promises: generations in use survive, the journal of a reload is
  a bounded run of its phase machine, and what start-up makes of the transactions it finds open.
\<close>

section \<open>A small host\<close>

definition sg_gate :: gate_result where
  "sg_gate = from_checks [97] [114] []"

definition sg_gen :: "nat \<Rightarrow> generation" where
  "sg_gen n = \<lparr>gn_plugin_id = [97], gn_generation_id = [n], gn_source_revision = [n], gn_config_revision = [],
     gn_gate_result = sg_gate, gn_state = Compiled, gn_lease_count = 0\<rparr>"

lemma sg_passed [simp]: "gate_passed (gn_gate_result (sg_gen n))"
  by (simp add: sg_gen_def sg_gate_def gate_passed_iff)

definition sg_host :: plugin_host where
  "sg_host = \<lparr>ph_journal = empty_journal,
     ph_registry = empty_registry\<lparr>rg_heap := [(sg_gen 0)\<lparr>gn_state := Active\<rparr>], rg_current := [([97], 0)]\<rparr>,
     ph_drains = []\<rparr>"

lemma empty_journal_ok [simp]: "journal_ok empty_journal"
  by (simp add: journal_ok_def empty_journal_def)

lemma sg_host_ok [simp]: "journal_ok (ph_journal sg_host)" "ph_journal sg_host = empty_journal"
  by (simp_all add: sg_host_def)

lemma sg_first:
  obtains h where "publish_generation_transaction (sg_gen 1) [1] (\<lambda>_. 0) sg_host = (Inr (Some 0), h)"
    "rg_current (ph_registry h) = [([97], 1)]" "length (rg_heap (ph_registry h)) = 2"
    "gn_generation_id (gen_at (ph_registry h) 1) = [1]" "ph_journal h \<noteq> empty_journal"
proof -
  let ?rg = "ph_registry sg_host"
  obtain rg where p: "publish (sg_gen 1) ?rg = Inr (Some 0, rg)" "rg_current rg = [([97], 1)]"
      "length (rg_heap rg) = 2" "gn_generation_id (gen_at rg 1) = [1]"
    by (simp add: publish_def Let_def)
      (simp add: sg_gen_def sg_host_def empty_registry_def set_state_def set_gen_def gen_at_def)
  have new: "row_by tx_id [1] (jr_txs (ph_journal sg_host)) = None" by (simp add: empty_journal_def)
  show ?thesis
    by (rule publish_generation_transaction_run [OF sg_host_ok(1) new p(1), of "\<lambda>_. 0"], rule that)
      (use p in \<open>auto simp: empty_journal_def\<close>)
qed

section \<open>Generations in use\<close>

text \<open>C18: in every history of publications, retirements, drains and turns, a drain never destroys a
  generation that an open turn holds a lease on, destroys every retired one that none holds, and
  leaves the current ones alone.\<close>

theorem generation_in_use_kept:
  assumes "gen_step\<^sup>*\<^sup>* (empty_registry, []) (rg, ts)" and "drain_quiescible rg = (ready, rg')"
  shows "(\<forall>t \<in> set ts. set t \<inter> set ready = {}) \<and>
    (\<forall>a < length (rg_heap rg). gn_state (gen_at rg a) = Retired \<and> (\<forall>t \<in> set ts. a \<notin> set t) \<longrightarrow>
       a \<in> set ready \<and> gn_state (gen_at rg' a) = Quiesced) \<and>
    (\<forall>(k, a) \<in> set (rg_current rg). gen_at rg' a = gen_at rg a)"
proof -
  note ok = gen_reachable_ok [OF assms(1)]
  note c = drain_cases [OF ok assms(2)] and d = gens_okD [OF ok]
  have held: "a \<notin> set ready" if "t \<in> set ts" "a \<in> set t" for t a
  proof
    assume "a \<in> set ready"
    then have "gn_lease_count (gen_at rg a) \<le> 0" "a < length (rg_heap rg)"
      using c(1) d(4) [of a] by (auto simp: can_quiesce_def)
    moreover have "0 < count_list (concat ts) a" using that by (auto simp: count_list_0_iff intro: gr0I)
    ultimately show False using d(7) [of a] by simp
  qed
  have free: "a \<in> set ready"
    if "a < length (rg_heap rg)" "gn_state (gen_at rg a) = Retired" "\<forall>t \<in> set ts. a \<notin> set t" for a
  proof -
    have "count_list (concat ts) a = 0" using that(3) by (auto simp: count_list_0_iff)
    then show ?thesis using that d(5) [of a] d(7) [of a] by (simp add: c(1) can_quiesce_def)
  qed
  have current: "a \<notin> set ready" if "(k, a) \<in> set (rg_current rg)" for k a
    using that c(1) d(2) [of k a] by (auto simp: can_quiesce_def)
  have "set t \<inter> set ready = {}" if "t \<in> set ts" for t
    using held [OF that] by blast
  then show ?thesis using free current by (auto simp: c(6))
qed

lemma generation_in_use_kept_witness:
  "\<exists>rg ready rg'. gen_step\<^sup>*\<^sup>* (empty_registry, []) (rg, [[0]]) \<and> drain_quiescible rg = (ready, rg') \<and>
     length (rg_heap rg) = 2 \<and> 0 \<notin> set ready"
proof -
  obtain p1 r1 where r1: "publish (sg_gen 0) empty_registry = Inr (p1, r1)" "length (rg_heap r1) = 1"
      "active_gens r1 = [0]"
    by (simp add: publish_def Let_def empty_registry_def active_gens_def)
  have s1: "gen_step (empty_registry, []) (r1, [])"
    by (rule gen_publish [OF _ r1(1)]) (simp add: sg_gen_def)
  have "current_ok r1" using gen_step_ok [OF s1 gens_ok_empty] by (simp add: gens_ok_def)
  then have r2: "enter_lease_active r1 = (Inr [0], add_leases 1 [0] r1)"
    using enter_lease_active_eq(1) r1(3) by simp
  obtain p3 r3 where r3: "publish (sg_gen 1) (add_leases 1 [0] r1) = Inr (p3, r3)" "length (rg_heap r3) = 2"
    using r1(2) by (cases "map_of (rg_current r1) [97]")
      (simp_all add: publish_def Let_def reg_simps, simp_all add: sg_gen_def reg_simps)
  have "gen_step (r1, []) (add_leases 1 [0] r1, [] @ [[0]])" by (rule turn_begin [OF r2])
  moreover have "gen_step (add_leases 1 [0] r1, [[0]]) (r3, [[0]])"
    by (rule gen_publish [OF _ r3(1)]) (simp add: sg_gen_def)
  ultimately have reach: "gen_step\<^sup>*\<^sup>* (empty_registry, []) (r3, [[0]])"
    using s1 by (auto intro: rtranclp.rtrancl_into_rtrancl)
  obtain ready r4 where d: "drain_quiescible r3 = (ready, r4)" by (cases "drain_quiescible r3")
  from generation_in_use_kept [OF reach d] have "0 \<notin> set ready" by simp
  then show ?thesis using reach d r3(2) by blast
qed

section \<open>The journal\<close>

text \<open>The journals that occur: the empty one the schema creates, and whatever its two writers make of one.
  \<open>finish_recovery\<close> is an advance; \<open>get\<close>, \<open>events\<close> and \<open>pending_recovery\<close> only read.\<close>

inductive journal_reachable :: "journal \<Rightarrow> bool" where
  reach_empty: "journal_reachable empty_journal"
| reach_begin: "journal_reachable jr \<Longrightarrow> journal_begin p base g s c i now jr = Inr (j, jr') \<Longrightarrow> journal_reachable jr'"
| reach_advance: "journal_reachable jr \<Longrightarrow> journal_advance i p cand d err now jr = Inr jr' \<Longrightarrow> journal_reachable jr'"
| reach_recovery: "journal_reachable jr \<Longrightarrow> finish_recovery a now jr = Inr jr' \<Longrightarrow> journal_reachable jr'"

lemma journal_reachable_ok: "journal_reachable jr \<Longrightarrow> journal_ok jr"
proof (induction rule: journal_reachable.induct)
  case (reach_begin jr p base g s c i now j jr')
  from journal_begin_ok(1) [OF reach_begin.IH reach_begin.hyps(2)] show ?case .
next
  case (reach_advance jr i p cand d err now jr')
  from journal_advance_ok [OF reach_advance.IH reach_advance.hyps(2)] show ?case .
next
  case (reach_recovery jr a now jr')
  from journal_advance_ok [OF reach_recovery.IH reach_recovery.hyps(2) [unfolded finish_recovery_def]] show ?case .
qed simp

lemma history_successive: "ph.history p ps \<longleftrightarrow> successively phase_step (p # ps)"
  by (induction ps arbitrary: p) auto

text \<open>C32: in every history of the journal the phases recorded of a transaction start with \<open>preparing\<close>, follow
  the transition table step by step and end with the phase of its row; there are at most seven, only the last of
  them can be terminal, the events are numbered upwards and each belongs to a stored transaction.  A phase is
  accepted exactly when the table allows it after the one that is stored.\<close>

theorem reload_journal_phases:
  assumes "journal_reachable jr" and "t \<in> set (jr_txs jr)"
  shows "hd (tx_log jr (tx_id t)) = Preparing \<and> successively phase_step (tx_log jr (tx_id t)) \<and>
    last (tx_log jr (tx_id t)) = tx_phase t \<and> length (tx_log jr (tx_id t)) \<le> 7 \<and>
    (\<forall>k < length (tx_log jr (tx_id t)). terminal_phase (tx_log jr (tx_id t) ! k) \<longrightarrow>
       k = length (tx_log jr (tx_id t)) - 1) \<and>
    sorted_wrt (<) (map je_sequence (jr_events jr)) \<and> je_tx_id ` set (jr_events jr) \<subseteq> tx_id ` set (jr_txs jr) \<and>
    ((\<exists>jr'. journal_advance (tx_id t) p cand d err now jr = Inr jr') \<longleftrightarrow> phase_step (tx_phase t) p)"
proof -
  have ok: "journal_ok jr" by (rule journal_reachable_ok [OF assms(1)])
  obtain ps where ps: "tx_log jr (tx_id t) = Preparing # ps" "ph.history Preparing ps"
    using ok assms(2) unfolding journal_ok_def by blast
  have "successively phase_step (tx_log jr (tx_id t))" unfolding ps(1) using ps(2) history_successive by blast
  moreover have "row_by tx_id (tx_id t) (jr_txs jr) = Some t" using ok assms(2) by (simp add: journal_ok_def row_by_unique)
  then have "(\<exists>jr'. journal_advance (tx_id t) p cand d err now jr = Inr jr') \<longleftrightarrow> phase_step (tx_phase t) p"
    by (simp add: journal_advance_def phase_step_def)
  moreover have "sorted_wrt (<) (map je_sequence (jr_events jr))" "je_tx_id ` set (jr_events jr) \<subseteq> tx_id ` set (jr_txs jr)"
    using ok unfolding journal_ok_def by blast+
  ultimately show ?thesis using ps(1) journal_log_bounded [OF ok assms(2)] by simp
qed

lemma reload_journal_phases_witness:
  "\<exists>j jr jr' t. journal_begin [97] None [1] [1] [] [5] 0 empty_journal = Inr (j, jr) \<and>
     journal_advance [5] Aborted None [] [] 1 jr = Inr jr' \<and> row_by tx_id [5] (jr_txs jr') = Some t \<and>
     successively phase_step (tx_log jr' [5]) \<and> last (tx_log jr' [5]) = Aborted"
proof -
  obtain j jr where b: "journal_begin [97] None [1] [1] [] [5] 0 empty_journal = Inr (j, jr)"
    by (simp add: journal_begin_def empty_journal_def)
  note o = journal_begin_ok [OF empty_journal_ok b]
  obtain jr' where a: "journal_advance [5] Aborted None [] [] 1 jr = Inr jr'"
    using o(4) by (simp add: journal_advance_def)
  have r: "journal_reachable jr'" by (rule reach_advance [OF reach_begin [OF reach_empty b] a])
  obtain t where t: "row_by tx_id [5] (jr_txs jr') = Some t" "tx_phase t = Aborted"
    by (rule journal_advance_cases [OF a]) simp
  then have "t \<in> set (jr_txs jr')" "tx_id t = [5]" using row_by_SomeD by fastforce+
  from reload_journal_phases [OF r this(1)] this(2) show ?thesis using a b t by auto
qed

text \<open>publishing a generation that passed its gate makes it the current one of its plugin, in a
  transaction whose phases are recorded in order and that ends complete, or draining while the
  generation it replaced still drains; no other transaction changes.\<close>

theorem reload_publication:
  assumes "journal_ok (ph_journal h)"
    and "publish_generation_transaction g i clk h = (Inr pr, h')"
  shows "tx_log (ph_journal h') i =
      [Preparing, Prepared, Validating, CommitStarted, Committed, if pr = None then Complete else Draining] \<and>
    current_generation (ph_registry h') (gn_plugin_id g) = Some (gn_generation_id g) \<and>
    pr = map_of (rg_current (ph_registry h)) (gn_plugin_id g) \<and>
    (\<forall>k. k \<noteq> i \<longrightarrow> row_by tx_id k (jr_txs (ph_journal h')) = row_by tx_id k (jr_txs (ph_journal h))) \<and>
    journal_ok (ph_journal h')"
proof -
  obtain t where p: "publish g (ph_registry h) = Inr (pr, ph_registry h')"
    and o: "\<forall>k. k \<noteq> i \<longrightarrow> row_by tx_id k (jr_txs (ph_journal h')) = row_by tx_id k (jr_txs (ph_journal h))"
    "tx_log (ph_journal h') i =
      [Preparing, Prepared, Validating, CommitStarted, Committed, if pr = None then Complete else Draining]"
    "journal_ok (ph_journal h')"
    using assms by (rule publish_generation_transaction_ok) blast
  show ?thesis using publish_result [OF p] o by (simp add: current_generation_def)
qed

lemma reload_publication_witness:
  "\<exists>h. publish_generation_transaction (sg_gen 1) [1] (\<lambda>_. 0) sg_host = (Inr (Some 0), h) \<and>
     current_generation (ph_registry h) [97] = Some [1]"
proof -
  obtain h where h: "publish_generation_transaction (sg_gen 1) [1] (\<lambda>_. 0) sg_host = (Inr (Some 0), h)"
    by (rule sg_first)
  from reload_publication [OF sg_host_ok(1) h] h show ?thesis by (simp add: sg_gen_def)
qed

section \<open>Start-up\<close>

text \<open>C33: a start-up that succeeds leaves no reload transaction pending, neither one of the journal it found nor one
  that its own publications opened, with one generation per plugin and no assumption on what is found on disk, on the
  gates or on the ids.  It succeeds when the source of every committed transaction is the one on disk and its generation
  is rebuilt and passes its gate, in transactions with new ids.\<close>

theorem startup_recovery_closes:
  assumes "journal_ok (ph_journal h)" and "ph_registry h = empty_registry"
    and "distinct (map (gn_plugin_id \<circ> fst) (admitted_gens built))"
  shows "(\<forall>h'. load_all_recovery discovered (\<lambda>h. (None, snd (publish_generations built h))) clk clk' h = (None, h') \<longrightarrow>
       journal_ok (ph_journal h') \<and> pending_recovery (ph_journal h') = [] \<and>
       tx_id ` set (jr_txs (ph_journal h)) \<subseteq> tx_id ` set (jr_txs (ph_journal h'))) \<and>
    (recovery_check discovered (pending_recovery (ph_journal h)) = None \<and> distinct (map snd (admitted_gens built)) \<and>
     (\<forall>(c, tx) \<in> set (admitted_gens built). row_by tx_id tx (jr_txs (ph_journal h)) = None) \<and>
     (\<forall>t \<in> set (jr_txs (ph_journal h)). tx_phase t \<in> {CommitStarted, Committed, Draining} \<longrightarrow>
        (\<exists>(c, tx) \<in> set (admitted_gens built). gn_plugin_id c = tx_plugin_id t \<and> gn_generation_id c = tx_generation_id t)) \<longrightarrow>
     (\<exists>h'. load_all_recovery discovered (\<lambda>h. (None, snd (publish_generations built h))) clk clk' h = (None, h')))"
proof (intro conjI allI impI)
  let ?act = "\<lambda>h. (None :: py_error option, snd (publish_generations built h))"
  have reg: "addresses_ok (ph_registry (h\<lparr>ph_journal := j\<rparr>))"
    "\<forall>(c, tx) \<in> set (admitted_gens built). map_of (rg_current (ph_registry (h\<lparr>ph_journal := j\<rparr>))) (gn_plugin_id c) = None" for j
    by (auto simp: assms(2) addresses_ok_def empty_registry_def)
  note eff = publish_generations_effect [OF _ reg(1) assms(3) reg(2), simplified]
  fix h'
  assume run: "load_all_recovery discovered ?act clk clk' h = (None, h')"
  obtain j1 h1 where r: "?act (h\<lparr>ph_journal := j1\<rparr>) = (None, h1)" "journal_ok j1"
    "\<forall>i. row_by tx_id i (jr_txs (ph_journal h)) = None \<longrightarrow> row_by tx_id i (jr_txs j1) = None"
    "journal_ok (ph_journal h')"
    "\<forall>i t. row_by tx_id i (jr_txs (ph_journal h)) = Some t \<longrightarrow>
       (\<exists>t'. row_by tx_id i (jr_txs (ph_journal h')) = Some t' \<and> terminal_phase (tx_phase t'))"
    "\<forall>i. row_by tx_id i (jr_txs (ph_journal h)) = None \<longrightarrow>
       row_by tx_id i (jr_txs (ph_journal h')) = row_by tx_id i (jr_txs (ph_journal h1))"
    by (rule load_all_recovery_closes [OF assms(1) run]) (use eff in auto)
  have h1: "h1 = snd (publish_generations built (h\<lparr>ph_journal := j1\<rparr>))" using r(1) by simp
  have "terminal_phase (tx_phase t)" if t: "t \<in> set (jr_txs (ph_journal h'))" for t
  proof -
    have row: "row_by tx_id (tx_id t) (jr_txs (ph_journal h')) = Some t" using r(4) t by (simp add: journal_ok_def row_by_unique)
    show ?thesis
    proof (cases "row_by tx_id (tx_id t) (jr_txs (ph_journal h))")
      case None
      then have "row_by tx_id (tx_id t) (jr_txs (ph_journal h1)) = Some t" using r(6) row by simp
      then have "tx_phase t = Complete" using eff [OF r(2)] None r(3) unfolding h1 by blast
      then show ?thesis by (simp add: terminal_phase_def)
    next
      case (Some t0)
      then show ?thesis using r(5) row by fastforce
    qed
  qed
  then show "pending_recovery (ph_journal h') = []" by (simp add: pending_recovery_Nil)
  show "journal_ok (ph_journal h')" by (rule r(4))
  show "tx_id ` set (jr_txs (ph_journal h)) \<subseteq> tx_id ` set (jr_txs (ph_journal h'))"
  proof (clarify)
    fix t assume "t \<in> set (jr_txs (ph_journal h))"
    then have "row_by tx_id (tx_id t) (jr_txs (ph_journal h)) = Some t" using assms(1) by (simp add: journal_ok_def row_by_unique)
    then obtain t' where "row_by tx_id (tx_id t) (jr_txs (ph_journal h')) = Some t'" using r(5) by blast
    from row_by_SomeD [OF this] show "tx_id t \<in> tx_id ` set (jr_txs (ph_journal h'))" by (metis imageI)
  qed
next
  let ?act = "\<lambda>h. (None :: py_error option, snd (publish_generations built h))"
  have reg: "addresses_ok (ph_registry (h\<lparr>ph_journal := j\<rparr>))"
    "\<forall>(c, tx) \<in> set (admitted_gens built). map_of (rg_current (ph_registry (h\<lparr>ph_journal := j\<rparr>))) (gn_plugin_id c) = None" for j
    by (auto simp: assms(2) addresses_ok_def empty_registry_def)
  note eff = publish_generations_effect [OF _ reg(1) assms(3) reg(2), simplified]
  assume a: "recovery_check discovered (pending_recovery (ph_journal h)) = None \<and> distinct (map snd (admitted_gens built)) \<and>
     (\<forall>(c, tx) \<in> set (admitted_gens built). row_by tx_id tx (jr_txs (ph_journal h)) = None) \<and>
     (\<forall>t \<in> set (jr_txs (ph_journal h)). tx_phase t \<in> {CommitStarted, Committed, Draining} \<longrightarrow>
        (\<exists>(c, tx) \<in> set (admitted_gens built). gn_plugin_id c = tx_plugin_id t \<and> gn_generation_id c = tx_generation_id t))"
  show "\<exists>h'. load_all_recovery discovered ?act clk clk' h = (None, h')"
  proof (rule load_all_recovery_runs [OF assms(1) conjunct1 [OF a]])
    fix j assume j: "journal_ok j" "\<forall>i. row_by tx_id i (jr_txs (ph_journal h)) = None \<longrightarrow> row_by tx_id i (jr_txs j) = None"
    let ?h1 = "snd (publish_generations built (h\<lparr>ph_journal := j\<rparr>))"
    have "\<forall>(c, tx) \<in> set (admitted_gens built). row_by tx_id tx (jr_txs j) = None" using a j(2) by blast
    then have cur: "\<forall>(c, tx) \<in> set (admitted_gens built). current_generation (ph_registry ?h1) (gn_plugin_id c) = Some (gn_generation_id c)"
      using eff [OF j(1)] a by blast
    have "current_generation (ph_registry ?h1) (tx_plugin_id t) = Some (tx_generation_id t)"
      if t: "t \<in> set (jr_txs (ph_journal h))" "tx_phase t \<in> {CommitStarted, Committed, Draining}" for t
    proof -
      obtain c tx where "(c, tx) \<in> set (admitted_gens built)" "gn_plugin_id c = tx_plugin_id t" "gn_generation_id c = tx_generation_id t"
        using conjunct2 [OF conjunct2 [OF conjunct2 [OF a]], rule_format, OF t] by auto
      then show ?thesis using cur by fastforce
    qed
    then show "\<exists>h1. ?act (h\<lparr>ph_journal := j\<rparr>) = (None, h1) \<and> journal_ok (ph_journal h1) \<and> rows_stay j (ph_journal h1) \<and>
        (\<forall>t \<in> set (jr_txs (ph_journal h)). tx_phase t \<in> {CommitStarted, Committed, Draining} \<longrightarrow>
           current_generation (ph_registry h1) (tx_plugin_id t) = Some (tx_generation_id t))"
      using eff [OF j(1)] by simp
  qed
qed

lemma startup_recovery_closes_witness:
  "\<exists>h h'. publish_generation_transaction (sg_gen 1) [1] (\<lambda>_. 0) sg_host = (Inr (Some 0), h) \<and>
     pending_recovery (ph_journal h) \<noteq> [] \<and>
     load_all_recovery (\<lambda>_. Some [1]) (\<lambda>h. (None, snd (publish_generations [(Some (sg_gen 1), [2], \<lambda>_. 9)] h)))
       (\<lambda>_. 9) (\<lambda>_. 9) (h\<lparr>ph_registry := empty_registry, ph_drains := []\<rparr>) = (None, h') \<and>
     pending_recovery (ph_journal h') = []"
proof -
  obtain h where h: "publish_generation_transaction (sg_gen 1) [1] (\<lambda>_. 0) sg_host = (Inr (Some 0), h)" by (rule sg_first)
  obtain t where t: "row_by tx_id [1] (jr_txs (ph_journal h)) = Some t" "tx_phase t = Draining"
      "tx_plugin_id t = [97]" "tx_generation_id t = [1]" "tx_source_revision t = [1]"
      "\<forall>k. k \<noteq> [1] \<longrightarrow> row_by tx_id k (jr_txs (ph_journal h)) = row_by tx_id k (jr_txs (ph_journal sg_host))"
      "journal_ok (ph_journal h)"
    by (rule publish_generation_transaction_ok [OF sg_host_ok(1) h]) (simp add: sg_gen_def)
  have none: "row_by tx_id k (jr_txs (ph_journal h)) = None" if "k \<noteq> [1]" for k
    using that t(6) by (simp add: empty_journal_def)
  have only: "x = t" if "x \<in> set (jr_txs (ph_journal h))" for x
  proof -
    have "row_by tx_id (tx_id x) (jr_txs (ph_journal h)) = Some x"
      using that t(7) by (simp add: journal_ok_def row_by_unique)
    then show ?thesis using t(1) none by (cases "tx_id x = [1]") auto
  qed
  have chk: "recovery_check (\<lambda>_. Some [1]) acts = None" if "\<forall>a \<in> set acts. ra_source_revision a = [1]" for acts
    using that by (induction acts) auto
  let ?h = "h\<lparr>ph_registry := empty_registry, ph_drains := []\<rparr>"
  let ?built = "[(Some (sg_gen 1), [2::nat], \<lambda>_::nat. 9::int)]"
  have c: "recovery_check (\<lambda>_. Some [1]) (pending_recovery (ph_journal ?h)) = None"
    by (rule chk) (use only t(5) in \<open>auto simp: pending_recovery_set recovery_of_def\<close>)
  have adm: "admitted_gens ?built = [(sg_gen 1, [2])]" by (simp add: admitted_gens_def)
  have old: "\<forall>x \<in> set (jr_txs (ph_journal ?h)). tx_phase x \<in> {CommitStarted, Committed, Draining} \<longrightarrow>
      (\<exists>(g, tx) \<in> set (admitted_gens ?built). gn_plugin_id g = tx_plugin_id x \<and> gn_generation_id g = tx_generation_id x)"
    unfolding adm using only t(3,4) by (auto simp: sg_gen_def)
  have pend: "pending_recovery (ph_journal h) \<noteq> []"
    using t(1,2) row_by_SomeD by (fastforce simp: pending_recovery_Nil terminal_phase_def)
  have hyp: "journal_ok (ph_journal ?h)" "ph_registry ?h = empty_registry" "distinct (map (gn_plugin_id \<circ> fst) (admitted_gens ?built))"
    unfolding adm using t(7) by simp_all
  note th = startup_recovery_closes [OF hyp, of "\<lambda>_. Some [1]" "\<lambda>_. 9" "\<lambda>_. 9"]
  have "\<exists>h'. load_all_recovery (\<lambda>_. Some [1]) (\<lambda>h. (None, snd (publish_generations ?built h))) (\<lambda>_. 9) (\<lambda>_. 9) ?h = (None, h')"
    using conjunct2 [OF th] c old none unfolding adm by simp
  then show ?thesis using th h pend by blast
qed

text \<open>C37: when a plugin is replaced twice, by generations of different source, and the process ends
  before the replaced ones have drained, no start-up succeeds any more: whatever source is on disk, the
  check of the recovery work raises before anything is recovered, and the journal is left as it was.\<close>

theorem reload_overlap_blocks_startup:
  assumes "journal_ok (ph_journal h)"
    and "publish_generation_transaction g1 i1 clk1 h = (Inr (Some p1), h1)"
    and "publish_generation_transaction g2 i2 clk2 h1 = (Inr (Some p2), h2)"
    and "gn_plugin_id g1 = gn_plugin_id g2" and "gn_source_revision g1 \<noteq> gn_source_revision g2"
  shows "\<exists>e. load_all_recovery discovered activate clk clk' h2 = (Some e, h2)"
proof -
  obtain t1 where t1: "row_by tx_id i1 (jr_txs (ph_journal h1)) = Some t1" "tx_phase t1 = Draining"
      "tx_plugin_id t1 = gn_plugin_id g1" "tx_source_revision t1 = gn_source_revision g1" "journal_ok (ph_journal h1)"
    by (rule publish_generation_transaction_ok [OF assms(1,2)]) simp
  obtain t2 where t2: "row_by tx_id i2 (jr_txs (ph_journal h2)) = Some t2" "tx_phase t2 = Draining"
      "tx_plugin_id t2 = gn_plugin_id g2" "tx_source_revision t2 = gn_source_revision g2"
      "row_by tx_id i2 (jr_txs (ph_journal h1)) = None"
      "\<forall>k. k \<noteq> i2 \<longrightarrow> row_by tx_id k (jr_txs (ph_journal h2)) = row_by tx_id k (jr_txs (ph_journal h1))"
    by (rule publish_generation_transaction_ok [OF t1(5) assms(3)]) simp
  have "i1 \<noteq> i2" using t1(1) t2(5) by auto
  then have "row_by tx_id i1 (jr_txs (ph_journal h2)) = Some t1" using t1(1) t2(6) by simp
  then have "t1 \<in> set (jr_txs (ph_journal h2))" "t2 \<in> set (jr_txs (ph_journal h2))"
    using t2(1) by (auto dest: row_by_SomeD)
  then have "recovery_of t1 \<in> set (pending_recovery (ph_journal h2))"
      "recovery_of t2 \<in> set (pending_recovery (ph_journal h2))"
    using t1(2) t2(2) by (simp_all add: pending_recovery_set terminal_phase_def)
  then obtain e where "recovery_check discovered (pending_recovery (ph_journal h2)) = Some e"
    using recovery_check_conflict [of "recovery_of t1" "pending_recovery (ph_journal h2)" "recovery_of t2" discovered]
      t1 t2 assms(4,5) by (auto simp: recovery_of_def)
  then show ?thesis by (simp add: load_all_recovery_def Let_def)
qed

lemma reload_overlap_blocks_startup_witness:
  "\<exists>h1 h2 e. publish_generation_transaction (sg_gen 1) [1] (\<lambda>_. 0) sg_host = (Inr (Some 0), h1) \<and>
     publish_generation_transaction (sg_gen 2) [2] (\<lambda>_. 0) h1 = (Inr (Some 1), h2) \<and>
     load_all_recovery (\<lambda>_. Some [2]) (\<lambda>h. (None, h)) (\<lambda>_. 9) (\<lambda>_. 9) h2 = (Some e, h2)"
proof -
  obtain h1 where h1: "publish_generation_transaction (sg_gen 1) [1] (\<lambda>_. 0) sg_host = (Inr (Some 0), h1)"
    and cur: "rg_current (ph_registry h1) = [([97], 1)]"
    by (rule sg_first)
  obtain t where t: "\<forall>k. k \<noteq> [1] \<longrightarrow> row_by tx_id k (jr_txs (ph_journal h1)) = row_by tx_id k (jr_txs (ph_journal sg_host))"
      "journal_ok (ph_journal h1)"
    by (rule publish_generation_transaction_ok [OF sg_host_ok(1) h1])
  have new: "row_by tx_id [2] (jr_txs (ph_journal h1)) = None" using t(1) by (simp add: empty_journal_def)
  obtain rg where "publish (sg_gen 2) (ph_registry h1) = Inr (Some 1, rg)"
    using cur by (simp add: publish_def Let_def) (simp add: sg_gen_def)
  then obtain h2 where h2: "publish_generation_transaction (sg_gen 2) [2] (\<lambda>_. 0) h1 = (Inr (Some 1), h2)"
    by (rule publish_generation_transaction_run [OF t(2) new])
  have "gn_plugin_id (sg_gen 1) = gn_plugin_id (sg_gen 2)" "gn_source_revision (sg_gen 1) \<noteq> gn_source_revision (sg_gen 2)"
    by (simp_all add: sg_gen_def)
  from reload_overlap_blocks_startup [OF sg_host_ok(1) h1 h2 this, of "\<lambda>_. Some [2]" "\<lambda>h. (None, h)" "\<lambda>_. 9" "\<lambda>_. 9"] h1 h2
  show ?thesis by blast
qed

end
