(* ===== verification/ControlTurns.thy ===== *)
theory ControlTurns
  imports KContracts
begin

text \<open>
  The control plane's turns: the domain objects of \<open>src/agent/control/models.py\<close> with their JSON
  forms, and the SQLite store of \<open>src/agent/control/store.py\<close>, a compare-and-set status machine.
  A column that holds JSON text is the value it encodes; a time stamp is its instant.
\<close>

section \<open>Errors\<close>

datatype control_error =
    TurnStateTransitionError pystr
  | TurnNotFoundError pystr
  | CtlValueError pystr
  | CtlRuntimeError pystr
  | CtlIntegrityError
  | CtlTypeError pystr
  | CtlOSError
  | RestartRejectedError pystr
  | RuntimeClosedError pystr
  | ThreadBusyError pystr
  | SlowConsumerError pystr
  | QueueFull
  | ControlExecutionError pystr pystr bool

type_synonym 'a ctl = "control_error + 'a"

section \<open>Statuses and item kinds\<close>

datatype turn_status = TQueued | TInProgress | TCompleted | TInterrupted | TFailed | TCancelled

fun status_text :: "turn_status \<Rightarrow> pystr" where
  "status_text TQueued = lit ''queued''"
| "status_text TInProgress = lit ''in_progress''"
| "status_text TCompleted = lit ''completed''"
| "status_text TInterrupted = lit ''interrupted''"
| "status_text TFailed = lit ''failed''"
| "status_text TCancelled = lit ''cancelled''"

definition status_terminal :: "turn_status \<Rightarrow> bool" where
  "status_terminal s \<longleftrightarrow> s \<in> {TCompleted, TInterrupted, TFailed, TCancelled}"

datatype item_kind = UserMessage | AssistantMessage | Reasoning | ToolCallItem | ErrorItem

fun kind_text :: "item_kind \<Rightarrow> pystr" where
  "kind_text UserMessage = lit ''userMessage''"
| "kind_text AssistantMessage = lit ''assistantMessage''"
| "kind_text Reasoning = lit ''reasoning''"
| "kind_text ToolCallItem = lit ''toolCall''"
| "kind_text ErrorItem = lit ''error''"

text \<open>\<open>StrEnum(value)\<close>: the member with that value, or a \<open>ValueError\<close>.\<close>

definition parse_enum :: "('e \<Rightarrow> pystr) \<Rightarrow> 'e list \<Rightarrow> pystr \<Rightarrow> pystr \<Rightarrow> 'e ctl" where
  "parse_enum txt members cls s =
     (case find (\<lambda>e. txt e = s) members of
        None \<Rightarrow> Inl (CtlValueError (lit [CHR 0x27] @ s @ lit [CHR 0x27] @ lit '' is not a valid '' @ cls))
      | Some e \<Rightarrow> Inr e)"

definition parse_status :: "pystr \<Rightarrow> turn_status ctl" where
  "parse_status = parse_enum status_text
     [TQueued, TInProgress, TCompleted, TInterrupted, TFailed, TCancelled] (lit ''TurnStatus'')"

definition parse_kind :: "pystr \<Rightarrow> item_kind ctl" where
  "parse_kind = parse_enum kind_text
     [UserMessage, AssistantMessage, Reasoning, ToolCallItem, ErrorItem] (lit ''TurnItemKind'')"

lemma parse_status_text [simp]: "parse_status (status_text s) = Inr s"
  by (cases s) (simp_all add: parse_status_def parse_enum_def)

lemma parse_kind_text [simp]: "parse_kind (kind_text k) = Inr k"
  by (cases k) (simp_all add: parse_kind_def parse_enum_def)

section \<open>JSON forms\<close>

definition require_dict :: "json option \<Rightarrow> pystr \<Rightarrow> pydict ctl" where
  "require_dict v field =
     (case v of
        Some (JObj d) \<Rightarrow> Inr d
      | _ \<Rightarrow> Inl (CtlValueError (field @ lit '' '' @ [24517, 39035, 26159] @ lit '' JSON object'')))"

record turn_item =
  ti_kind :: item_kind
  ti_id :: pystr
  ti_data :: pydict

definition item_to_dict :: "turn_item \<Rightarrow> json" where
  "item_to_dict i = JObj [(lit ''id'', JStr (ti_id i)), (lit ''type'', JStr (kind_text (ti_kind i))),
     (lit ''data'', JObj (ti_data i))]"

definition item_from_dict :: "json \<Rightarrow> turn_item ctl" where
  "item_from_dict payload =
     (case require_dict (Some payload) (lit ''turn item'') of
        Inl e \<Rightarrow> Inl e
      | Inr d \<Rightarrow>
          (case map_of d (lit ''id'') of
             Some (JStr item_id) \<Rightarrow>
               (case map_of d (lit ''type'') of
                  Some (JStr item_type) \<Rightarrow>
                    (case parse_kind item_type of
                       Inl e \<Rightarrow> Inl e
                     | Inr k \<Rightarrow>
                         (case require_dict (map_of d (lit ''data'')) (lit ''turn item data'') of
                            Inl e \<Rightarrow> Inl e
                          | Inr x \<Rightarrow>
                              if item_id = [] then Inl (CtlValueError (lit ''turn item id '' @ [19981, 33021, 20026, 31354]))
                              else Inr \<lparr>ti_kind = k, ti_id = item_id, ti_data = x\<rparr>))
                | _ \<Rightarrow> Inl (CtlValueError (lit ''turn item type '' @ [24517, 39035, 26159, 23383, 31526, 20018])))
           | _ \<Rightarrow> Inl (CtlValueError (lit ''turn item id '' @ [24517, 39035, 26159, 23383, 31526, 20018]))))"

record turn_usage =
  tu_input_tokens :: "int option"
  tu_cached_input_tokens :: "int option"
  tu_output_tokens :: "int option"
  tu_reasoning_output_tokens :: "int option"
  tu_request_count :: int
  tu_covered_request_count :: int
  tu_coverage :: pystr

definition opt_nonneg :: "int option \<Rightarrow> bool" where
  "opt_nonneg v \<longleftrightarrow> (case v of None \<Rightarrow> True | Some i \<Rightarrow> 0 \<le> i)"

text \<open>The constructor checks ranges and the coverage.\<close>

definition usage_valid :: "turn_usage \<Rightarrow> unit ctl" where
  "usage_valid u =
     (if \<not> (opt_nonneg (tu_input_tokens u) \<and> opt_nonneg (tu_cached_input_tokens u) \<and>
            opt_nonneg (tu_output_tokens u) \<and> opt_nonneg (tu_reasoning_output_tokens u) \<and>
            0 \<le> tu_request_count u \<and> 0 \<le> tu_covered_request_count u)
      then Inl (CtlValueError (lit ''turn usage token/count '' @ [23383, 27573, 19981, 24471, 20026, 36127, 25968]))
      else if tu_coverage u \<notin> {lit ''exact'', lit ''partial'', lit ''unavailable''}
      then Inl (CtlValueError (lit ''turn usage coverage '' @ [26080, 25928] @ lit '': '' @ tu_coverage u))
      else Inr ())"

definition json_opt_int :: "int option \<Rightarrow> json" where
  "json_opt_int v = (case v of None \<Rightarrow> JNull | Some i \<Rightarrow> JInt i)"

definition usage_to_dict :: "turn_usage \<Rightarrow> json" where
  "usage_to_dict u = JObj
     [(lit ''inputTokens'', json_opt_int (tu_input_tokens u)),
      (lit ''cachedInputTokens'', json_opt_int (tu_cached_input_tokens u)),
      (lit ''outputTokens'', json_opt_int (tu_output_tokens u)),
      (lit ''reasoningOutputTokens'', json_opt_int (tu_reasoning_output_tokens u)),
      (lit ''requestCount'', JInt (tu_request_count u)),
      (lit ''coveredRequestCount'', JInt (tu_covered_request_count u)),
      (lit ''coverage'', JStr (tu_coverage u))]"

text \<open>\<open>isinstance(value, int) and not isinstance(value, bool)\<close>, null or missing allowed.\<close>

definition token_field :: "pydict \<Rightarrow> string \<Rightarrow> int option ctl" where
  "token_field d name =
     (case map_of d (lit name) of
        None \<Rightarrow> Inr None
      | Some JNull \<Rightarrow> Inr None
      | Some (JInt i) \<Rightarrow> Inr (Some i)
      | _ \<Rightarrow> Inl (CtlValueError (lit ''turn usage '' @ lit name @ lit '' '' @ [24517, 39035, 26159, 25972, 25968, 25110] @ lit '' null'')))"

definition count_field :: "pydict \<Rightarrow> string \<Rightarrow> int ctl" where
  "count_field d name =
     (case map_of d (lit name) of
        None \<Rightarrow> Inr 0
      | Some (JInt i) \<Rightarrow> Inr i
      | _ \<Rightarrow> Inl (CtlValueError (lit ''turn usage '' @ lit name @ lit '' '' @ [24517, 39035, 26159, 25972, 25968])))"

definition usage_from_dict :: "json \<Rightarrow> turn_usage ctl" where
  "usage_from_dict payload =
     (case require_dict (Some payload) (lit ''turn usage'') of
        Inl e \<Rightarrow> Inl e
      | Inr d \<Rightarrow>
     (case token_field d ''inputTokens'' of Inl e \<Rightarrow> Inl e | Inr a \<Rightarrow>
     (case token_field d ''cachedInputTokens'' of Inl e \<Rightarrow> Inl e | Inr b \<Rightarrow>
     (case token_field d ''outputTokens'' of Inl e \<Rightarrow> Inl e | Inr c \<Rightarrow>
     (case token_field d ''reasoningOutputTokens'' of Inl e \<Rightarrow> Inl e | Inr r \<Rightarrow>
     (case count_field d ''requestCount'' of Inl e \<Rightarrow> Inl e | Inr m \<Rightarrow>
     (case count_field d ''coveredRequestCount'' of Inl e \<Rightarrow> Inl e | Inr n \<Rightarrow>
     (case (case map_of d (lit ''coverage'') of None \<Rightarrow> JStr (lit ''unavailable'') | Some v \<Rightarrow> v) of
        JStr cov \<Rightarrow>
          (let u = \<lparr>tu_input_tokens = a, tu_cached_input_tokens = b, tu_output_tokens = c,
                    tu_reasoning_output_tokens = r, tu_request_count = m,
                    tu_covered_request_count = n, tu_coverage = cov\<rparr>
           in case usage_valid u of Inl e \<Rightarrow> Inl e | Inr _ \<Rightarrow> Inr u)
      | _ \<Rightarrow> Inl (CtlValueError (lit ''turn usage coverage '' @ [24517, 39035, 26159, 23383, 31526, 20018]))))))))))"

record turn_error =
  te_type :: pystr
  te_message :: pystr
  te_retryable :: bool
  te_data :: "pydict option"

definition error_to_dict :: "turn_error \<Rightarrow> json" where
  "error_to_dict e = JObj
     ([(lit ''type'', JStr (te_type e)), (lit ''message'', JStr (te_message e)),
       (lit ''retryable'', JBool (te_retryable e))] @
      (case te_data e of None \<Rightarrow> [] | Some d \<Rightarrow> [(lit ''data'', JObj d)]))"

definition error_data :: "pydict \<Rightarrow> pydict option ctl" where
  "error_data d =
     (case map_of d (lit ''data'') of
        None \<Rightarrow> Inr None
      | Some JNull \<Rightarrow> Inr None
      | Some v \<Rightarrow> (case require_dict (Some v) (lit ''turn error data'') of
                     Inl e \<Rightarrow> Inl e | Inr x \<Rightarrow> Inr (Some x)))"

definition error_from_dict :: "json \<Rightarrow> turn_error ctl" where
  "error_from_dict payload =
     (case require_dict (Some payload) (lit ''turn error'') of
        Inl e \<Rightarrow> Inl e
      | Inr d \<Rightarrow>
     (case error_data d of Inl e \<Rightarrow> Inl e | Inr x \<Rightarrow>
     (case map_of d (lit ''retryable'') of
        Some (JBool b) \<Rightarrow>
          (case map_of d (lit ''type'') of
             Some (JStr t) \<Rightarrow>
               if t = [] then Inl (CtlValueError (lit ''turn error type '' @ [24517, 39035, 26159, 38750, 31354, 23383, 31526, 20018]))
               else (case map_of d (lit ''message'') of
                       Some (JStr m) \<Rightarrow>
                         if m = [] then Inl (CtlValueError (lit ''turn error message '' @ [24517, 39035, 26159, 38750, 31354, 23383, 31526, 20018]))
                         else Inr \<lparr>te_type = t, te_message = m, te_retryable = b, te_data = x\<rparr>
                     | _ \<Rightarrow> Inl (CtlValueError (lit ''turn error message '' @ [24517, 39035, 26159, 38750, 31354, 23383, 31526, 20018])))
           | _ \<Rightarrow> Inl (CtlValueError (lit ''turn error type '' @ [24517, 39035, 26159, 38750, 31354, 23383, 31526, 20018])))
      | _ \<Rightarrow> Inl (CtlValueError (lit ''turn error retryable '' @ [24517, 39035, 26159, 24067, 23572, 20540])))))"

lemma item_roundtrip: "ti_id i \<noteq> [] \<Longrightarrow> item_from_dict (item_to_dict i) = Inr i"
  by (simp add: item_from_dict_def item_to_dict_def require_dict_def)

lemma usage_roundtrip: "usage_valid u = Inr () \<Longrightarrow> usage_from_dict (usage_to_dict u) = Inr u"
  by (cases u) (auto simp: usage_from_dict_def usage_to_dict_def require_dict_def token_field_def
      count_field_def json_opt_int_def Let_def split: option.splits)

lemma error_roundtrip:
  "te_type e \<noteq> [] \<Longrightarrow> te_message e \<noteq> [] \<Longrightarrow> error_from_dict (error_to_dict e) = Inr e"
  by (cases "te_data e") (simp_all add: error_from_dict_def error_to_dict_def error_data_def require_dict_def)

lemma error_empty_message:
  "te_type e \<noteq> [] \<Longrightarrow> te_message e = [] \<Longrightarrow>
   error_from_dict (error_to_dict e) = Inl (CtlValueError (lit ''turn error message '' @ [24517, 39035, 26159, 38750, 31354, 23383, 31526, 20018]))"
  by (cases "te_data e") (simp_all add: error_from_dict_def error_to_dict_def error_data_def require_dict_def)

section \<open>Turn records and rows\<close>

record turn_record =
  tr_id :: pystr
  tr_thread_id :: pystr
  tr_status :: turn_status
  tr_input :: pystr
  tr_metadata :: pydict
  tr_items :: "turn_item list"
  tr_usage :: "turn_usage option"
  tr_error :: "turn_error option"
  tr_created_at :: instant
  tr_started_at :: "instant option"
  tr_completed_at :: "instant option"
  tr_final_response :: "pystr option"

record turn_row =
  tw_id :: pystr
  tw_session_key :: pystr
  tw_status :: pystr
  tw_input_json :: json
  tw_items_json :: json
  tw_usage_json :: "json option"
  tw_error_json :: "json option"
  tw_final_response :: "pystr option"
  tw_created_at :: instant
  tw_started_at :: "instant option"
  tw_completed_at :: "instant option"

record thread_row =
  th_key :: pystr
  th_created_at :: instant
  th_updated_at :: instant
  th_metadata :: pydict

record control_db =
  turns :: "turn_row list"
  threads :: "thread_row list"

fun ctl_map :: "('a \<Rightarrow> 'b ctl) \<Rightarrow> 'a list \<Rightarrow> 'b list ctl" where
  "ctl_map f [] = Inr []"
| "ctl_map f (x # xs) =
     (case f x of Inl e \<Rightarrow> Inl e
      | Inr y \<Rightarrow> (case ctl_map f xs of Inl e \<Rightarrow> Inl e | Inr ys \<Rightarrow> Inr (y # ys)))"

definition ctl_opt :: "('a \<Rightarrow> 'b ctl) \<Rightarrow> 'a option \<Rightarrow> 'b option ctl" where
  "ctl_opt f v = (case v of None \<Rightarrow> Inr None
     | Some x \<Rightarrow> (case f x of Inl e \<Rightarrow> Inl e | Inr y \<Rightarrow> Inr (Some y)))"

definition row_to_turn :: "turn_row \<Rightarrow> turn_record ctl" where
  "row_to_turn w =
     (case tw_input_json w of
        JObj payload \<Rightarrow>
          (case map_of payload (lit ''input'') of
             Some (JStr input_text) \<Rightarrow>
               (case map_of payload (lit ''metadata'') of
                  Some (JObj metadata) \<Rightarrow>
                    (case tw_items_json w of
                       JArr raw_items \<Rightarrow>
                         (case parse_status (tw_status w) of Inl e \<Rightarrow> Inl e | Inr st \<Rightarrow>
                         (case ctl_map item_from_dict raw_items of Inl e \<Rightarrow> Inl e | Inr its \<Rightarrow>
                         (case ctl_opt usage_from_dict (tw_usage_json w) of Inl e \<Rightarrow> Inl e | Inr us \<Rightarrow>
                         (case ctl_opt error_from_dict (tw_error_json w) of Inl e \<Rightarrow> Inl e | Inr er \<Rightarrow>
                            Inr \<lparr>tr_id = tw_id w, tr_thread_id = tw_session_key w, tr_status = st,
                                 tr_input = input_text, tr_metadata = metadata, tr_items = its,
                                 tr_usage = us, tr_error = er, tr_created_at = tw_created_at w,
                                 tr_started_at = tw_started_at w, tr_completed_at = tw_completed_at w,
                                 tr_final_response = tw_final_response w\<rparr>))))
                     | _ \<Rightarrow> Inl (CtlValueError (lit ''turn items '' @ [24517, 39035, 26159] @ lit '' JSON array: '' @ tw_id w)))
                | _ \<Rightarrow> Inl (CtlValueError (lit ''turn input.metadata '' @ [24517, 39035, 26159] @ lit '' JSON object: '' @ tw_id w)))
           | _ \<Rightarrow> Inl (CtlValueError (lit ''turn input.input '' @ [24517, 39035, 26159, 23383, 31526, 20018] @ lit '': '' @ tw_id w)))
      | _ \<Rightarrow> Inl (CtlValueError (lit ''turn input '' @ [24517, 39035, 26159] @ lit '' JSON object: '' @ tw_id w)))"

definition items_json :: "turn_item list \<Rightarrow> json" where
  "items_json its = JArr (map item_to_dict its)"

definition turn_row_of :: "turn_record \<Rightarrow> turn_row" where
  "turn_row_of r =
     \<lparr>tw_id = tr_id r, tw_session_key = tr_thread_id r, tw_status = status_text (tr_status r),
      tw_input_json = JObj [(lit ''input'', JStr (tr_input r)), (lit ''metadata'', JObj (tr_metadata r))],
      tw_items_json = items_json (tr_items r), tw_usage_json = map_option usage_to_dict (tr_usage r),
      tw_error_json = map_option error_to_dict (tr_error r), tw_final_response = tr_final_response r,
      tw_created_at = tr_created_at r, tw_started_at = tr_started_at r,
      tw_completed_at = tr_completed_at r\<rparr>"

text \<open>The records the store can give back.\<close>

definition readable :: "turn_record \<Rightarrow> bool" where
  "readable r \<longleftrightarrow> (\<forall>i \<in> set (tr_items r). ti_id i \<noteq> []) \<and>
     (case tr_usage r of None \<Rightarrow> True | Some u \<Rightarrow> usage_valid u = Inr ()) \<and>
     (case tr_error r of None \<Rightarrow> True | Some e \<Rightarrow> te_type e \<noteq> [] \<and> te_message e \<noteq> [])"

lemma ctl_map_roundtrip:
  "(\<And>x. x \<in> set xs \<Longrightarrow> f (g x) = Inr x) \<Longrightarrow> ctl_map f (map g xs) = Inr xs"
  by (induction xs) simp_all

lemma row_roundtrip: "readable r \<Longrightarrow> row_to_turn (turn_row_of r) = Inr r"
  by (cases r) (auto simp: row_to_turn_def turn_row_of_def readable_def items_json_def ctl_opt_def
      item_roundtrip usage_roundtrip error_roundtrip ctl_map_roundtrip split: option.splits)

section \<open>Threads\<close>

definition upsert_thread :: "pystr \<Rightarrow> pydict \<Rightarrow> instant \<Rightarrow> control_db \<Rightarrow> control_db" where
  "upsert_thread key metadata now db =
     (case row_by th_key key (threads db) of
        None \<Rightarrow> db\<lparr>threads := threads db @ [\<lparr>th_key = key, th_created_at = now, th_updated_at = now,
                              th_metadata = metadata\<rparr>]\<rparr>
      | Some t \<Rightarrow> db\<lparr>threads := put_row th_key (t\<lparr>th_updated_at := now, th_metadata := metadata\<rparr>)
                              (threads db)\<rparr>)"

definition touch_thread :: "pystr \<Rightarrow> instant \<Rightarrow> control_db \<Rightarrow> control_db" where
  "touch_thread key now db =
     db\<lparr>threads := map (\<lambda>t. if th_key t = key then t\<lparr>th_updated_at := now\<rparr> else t) (threads db)\<rparr>"

definition get_thread_meta :: "pystr \<Rightarrow> control_db \<Rightarrow> thread_row option" where
  "get_thread_meta key db = row_by th_key key (threads db)"

definition list_threads :: "control_db \<Rightarrow> pystr list" where
  "list_threads db = map th_key (rev (sort_key (\<lambda>t. (th_updated_at t, th_key t)) (threads db)))"

definition delete_thread :: "pystr \<Rightarrow> control_db \<Rightarrow> bool \<times> control_db" where
  "delete_thread key db =
     (\<exists>t \<in> set (threads db). th_key t = key,
      db\<lparr>threads := filter (\<lambda>t. th_key t \<noteq> key) (threads db),
         turns := filter (\<lambda>w. tw_session_key w \<noteq> key) (turns db)\<rparr>)"

section \<open>Turns\<close>

definition read_turn :: "pystr \<Rightarrow> control_db \<Rightarrow> turn_record option ctl" where
  "read_turn turn_id db = ctl_opt row_to_turn (row_by tw_id turn_id (turns db))"

text \<open>The value, or \<open>RuntimeError\<close> when the row has gone.\<close>

definition reread :: "pystr \<Rightarrow> pystr \<Rightarrow> control_db \<Rightarrow> turn_record ctl" where
  "reread msg turn_id db =
     (case read_turn turn_id db of
        Inl e \<Rightarrow> Inl e
      | Inr None \<Rightarrow> Inl (CtlRuntimeError (msg @ turn_id))
      | Inr (Some r) \<Rightarrow> Inr r)"

definition create_turn :: "turn_record \<Rightarrow> control_db \<Rightarrow> turn_record ctl \<times> control_db" where
  "create_turn r db =
     (if tr_status r \<noteq> TQueued
      then (Inl (TurnStateTransitionError (lit ''turn '' @ [21019, 24314, 26102, 24517, 39035, 22788, 20110] @ lit '' queued '' @ [29366, 24577])), db)
      else if tr_started_at r \<noteq> None \<or> tr_completed_at r \<noteq> None
      then (Inl (TurnStateTransitionError (lit ''queued turn '' @ [19981, 24471, 21253, 21547] @ lit '' started_at/completed_at'')), db)
      else if tr_usage r \<noteq> None \<or> tr_error r \<noteq> None \<or> tr_final_response r \<noteq> None
      then (Inl (TurnStateTransitionError (lit ''queued turn '' @ [19981, 24471, 21253, 21547] @ lit '' usage/error/final_response'')), db)
      else if row_by tw_id (tr_id r) (turns db) \<noteq> None then (Inl CtlIntegrityError, db)
      else
        (let db1 = db\<lparr>turns := turns db @ [turn_row_of r]\<rparr>
         in (reread (lit ''turn '' @ [21019, 24314, 21518, 26080, 27861, 35835, 21462] @ lit '': '') (tr_id r) db1, db1)))"

fun turn_transitions :: "turn_status \<Rightarrow> turn_status list" where
  "turn_transitions TQueued = [TInProgress, TCancelled]"
| "turn_transitions TInProgress = [TCompleted, TInterrupted, TFailed, TCancelled]"
| "turn_transitions _ = []"

text \<open>The fields an update sets besides the status.\<close>

record turn_patch =
  tp_items :: "turn_item list option"
  tp_usage :: "turn_usage option"
  tp_error :: "turn_error option"
  tp_final_response :: "pystr option"

definition patched :: "turn_status \<Rightarrow> turn_patch \<Rightarrow> instant \<Rightarrow> turn_row \<Rightarrow> turn_row" where
  "patched st p now w =
     w\<lparr>tw_status := status_text st,
       tw_started_at := (if st = TInProgress then Some now else tw_started_at w),
       tw_completed_at := (if status_terminal st then Some now else tw_completed_at w),
       tw_items_json := (case tp_items p of None \<Rightarrow> tw_items_json w | Some its \<Rightarrow> items_json its),
       tw_usage_json := (case tp_usage p of None \<Rightarrow> tw_usage_json w | Some u \<Rightarrow> Some (usage_to_dict u)),
       tw_error_json := (case tp_error p of None \<Rightarrow> tw_error_json w | Some e \<Rightarrow> Some (error_to_dict e)),
       tw_final_response := (case tp_final_response p of None \<Rightarrow> tw_final_response w | Some f \<Rightarrow> Some f)\<rparr>"

text \<open>The row the \<open>UPDATE\<close> hits: right id, right status, and right thread when one is given.\<close>

definition cas_hits :: "turn_status \<Rightarrow> pystr option \<Rightarrow> turn_row \<Rightarrow> bool" where
  "cas_hits expected thread w \<longleftrightarrow> tw_status w = status_text expected \<and>
     (case thread of None \<Rightarrow> True | Some k \<Rightarrow> tw_session_key w = k)"

definition transition_turn ::
  "pystr \<Rightarrow> turn_status \<Rightarrow> turn_status \<Rightarrow> pystr option \<Rightarrow> turn_patch \<Rightarrow> instant \<Rightarrow> control_db \<Rightarrow>
   turn_record ctl \<times> control_db" where
  "transition_turn turn_id expected status thread_id patch now db =
     (if status \<notin> set (turn_transitions expected)
      then (Inl (TurnStateTransitionError ([38750, 27861] @ lit '' turn '' @ [29366, 24577, 36716, 25442] @ lit '': '' @ status_text expected @
                  lit '' -> '' @ status_text status)), db)
      else if status = TFailed \<and> tp_error patch = None
      then (Inl (TurnStateTransitionError (lit ''failed turn '' @ [24517, 39035, 21253, 21547] @ lit '' error'')), db)
      else
        (case row_by tw_id turn_id (turns db) of
           None \<Rightarrow> (Inl (TurnNotFoundError (lit ''turn '' @ [19981, 23384, 22312] @ lit '': '' @ turn_id)), db)
         | Some w \<Rightarrow>
             if cas_hits expected thread_id w
             then (let db1 = db\<lparr>turns := put_row tw_id (patched status patch now w) (turns db)\<rparr>
                   in (reread (lit ''turn '' @ [36716, 25442, 21518, 26080, 27861, 35835, 21462] @ lit '': '') turn_id db1, db1))
             else if thread_id \<noteq> None \<and> thread_id \<noteq> Some (tw_session_key w)
             then (Inl (TurnNotFoundError (lit ''turn '' @ [19981, 23646, 20110] @ lit '' thread: '' @ the thread_id @ lit ''/'' @ turn_id)), db)
             else (Inl (TurnStateTransitionError (lit ''turn CAS '' @ [22833, 36133] @ lit '','' @ [26399, 26395] @ lit '' '' @ status_text expected @
                     lit '','' @ [23454, 38469] @ lit '' '' @ tw_status w @ lit '': '' @ turn_id)), db)))"

definition list_turns :: "pystr \<Rightarrow> int \<Rightarrow> control_db \<Rightarrow> turn_record list ctl" where
  "list_turns thread_id limit db =
     (if limit \<le> 0 \<or> limit > 200 then Inl (CtlValueError (lit ''turn list limit '' @ [24517, 39035, 22312] @ lit '' 1..200''))
      else ctl_map row_to_turn
        (take (nat limit) (rev (sort_key (\<lambda>w. (tw_created_at w, tw_id w))
          (filter (\<lambda>w. tw_session_key w = thread_id) (turns db))))))"

section \<open>The status machine\<close>

definition turn_step :: "turn_status \<Rightarrow> turn_status \<Rightarrow> bool" where
  "turn_step a b \<longleftrightarrow> b \<in> set (turn_transitions a)"

fun status_rank :: "turn_status \<Rightarrow> nat" where
  "status_rank TQueued = 0" | "status_rank TInProgress = 1" | "status_rank _ = 2"

interpretation tm: status_machine turn_step status_terminal status_rank 2
proof
  fix a b
  show "turn_step a b \<Longrightarrow> status_rank a < status_rank b"
    by (cases a) (auto simp: turn_step_def)
  show "status_rank a \<le> 2" by (cases a) simp_all
  show "status_terminal a \<Longrightarrow> \<not> turn_step a b"
    by (auto simp: turn_step_def status_terminal_def)
  show "\<not> status_terminal a \<Longrightarrow> \<exists>b. turn_step a b"
    by (cases a) (auto simp: turn_step_def status_terminal_def)
qed

text \<open>Rows as the store writes them: distinct ids, a known status, and the fields its status allows.\<close>

definition row_ok :: "turn_row \<Rightarrow> bool" where
  "row_ok w \<longleftrightarrow> (\<exists>s. tw_status w = status_text s \<and>
     (s = TQueued \<longrightarrow> tw_started_at w = None) \<and> (s = TInProgress \<longrightarrow> tw_started_at w \<noteq> None) \<and>
     (status_terminal s \<longleftrightarrow> tw_completed_at w \<noteq> None) \<and> (s = TFailed \<longrightarrow> tw_error_json w \<noteq> None))"

definition turns_ok :: "control_db \<Rightarrow> bool" where
  "turns_ok db \<longleftrightarrow> distinct (map tw_id (turns db)) \<and> (\<forall>w \<in> set (turns db). row_ok w)"

lemma status_text_inj [simp]: "status_text a = status_text b \<longleftrightarrow> a = b"
  by (cases a; cases b) simp_all

lemma create_turn_cases:
  assumes "create_turn r db = (res, db')"
  obtains (refused) e where "res = Inl e" "db' = db"
  | (created) "tr_status r = TQueued" "tr_started_at r = None" "tr_completed_at r = None" "tr_usage r = None"
      "tr_error r = None" "tr_final_response r = None" "row_by tw_id (tr_id r) (turns db) = None"
      "db' = db\<lparr>turns := turns db @ [turn_row_of r]\<rparr>"
      "res = reread (lit ''turn '' @ [21019, 24314, 21518, 26080, 27861, 35835, 21462] @ lit '': '') (tr_id r) db'"
proof (cases "tr_status r \<noteq> TQueued \<or> tr_started_at r \<noteq> None \<or> tr_completed_at r \<noteq> None \<or> tr_usage r \<noteq> None \<or>
    tr_error r \<noteq> None \<or> tr_final_response r \<noteq> None \<or> row_by tw_id (tr_id r) (turns db) \<noteq> None")
  case True
  then have "\<exists>e. create_turn r db = (Inl e, db)" unfolding create_turn_def by (elim disjE) simp_all
  then show ?thesis using refused assms by auto
next
  case False
  let ?db = "db\<lparr>turns := turns db @ [turn_row_of r]\<rparr>"
  have e: "db' = ?db" using False assms by (simp add: create_turn_def Let_def)
  moreover have "res = reread (lit ''turn '' @ [21019, 24314, 21518, 26080, 27861, 35835, 21462] @ lit '': '') (tr_id r) ?db"
    using False assms by (auto simp: create_turn_def Let_def)
  ultimately show ?thesis using False by (intro created) simp_all
qed

lemma transition_turn_cases:
  assumes "transition_turn i ex st th p now db = (res, db')"
  obtains (refused) e where "res = Inl e" "db' = db"
  | (moved) w where "row_by tw_id i (turns db) = Some w" "turn_step ex st" "tw_status w = status_text ex"
      "st = TFailed \<Longrightarrow> tp_error p \<noteq> None" "th = None \<or> th = Some (tw_session_key w)"
      "db' = db\<lparr>turns := put_row tw_id (patched st p now w) (turns db)\<rparr>"
      "res = reread (lit ''turn '' @ [36716, 25442, 21518, 26080, 27861, 35835, 21462] @ lit '': '') i db'"
proof (cases "st \<notin> set (turn_transitions ex) \<or> (st = TFailed \<and> tp_error p = None) \<or>
    (case row_by tw_id i (turns db) of None \<Rightarrow> True | Some w \<Rightarrow> \<not> cas_hits ex th w)")
  case True
  then have "\<exists>e. res = Inl e \<and> db' = db"
    using assms by (auto simp: transition_turn_def Let_def split: if_splits option.splits)
  then show ?thesis using refused by blast
next
  case False
  then obtain w where w: "row_by tw_id i (turns db) = Some w" "cas_hits ex th w" by (auto split: option.splits)
  have "th = None \<or> th = Some (tw_session_key w)" "tw_status w = status_text ex"
    using w(2) by (auto simp: cas_hits_def split: option.splits)
  then show ?thesis
    using moved [OF w(1)] False w assms by (auto simp: transition_turn_def Let_def turn_step_def)
qed

lemma patched_simps [simp]:
  "tw_id (patched st p now w) = tw_id w" "tw_session_key (patched st p now w) = tw_session_key w"
  "tw_status (patched st p now w) = status_text st" "tw_input_json (patched st p now w) = tw_input_json w"
  "tw_created_at (patched st p now w) = tw_created_at w"
  by (simp_all add: patched_def)

lemma create_turn_ok:
  assumes "turns_ok db" and "create_turn r db = (res, db')"
  shows "turns_ok db'"
  using assms(2)
proof (cases rule: create_turn_cases)
  case created
  have "row_ok (turn_row_of r)"
    unfolding row_ok_def by (rule exI [of _ TQueued]) (simp add: created(1-6) turn_row_of_def status_terminal_def)
  moreover have "tw_id (turn_row_of r) \<notin> tw_id ` set (turns db)"
    using created(7) by (simp add: row_by_None turn_row_of_def)
  moreover have "turns db' = turns db @ [turn_row_of r]" by (simp add: created(8))
  ultimately show ?thesis using assms(1) unfolding turns_ok_def by simp
qed (use assms(1) in simp)

lemma transition_turn_ok:
  assumes ok: "turns_ok db" and t: "transition_turn i ex st th p now db = (res, db')"
  shows "turns_ok db'"
  using t
proof (cases rule: transition_turn_cases)
  case (moved w)
  have wok: "row_ok w" using ok row_by_SomeD [OF moved(1)] by (simp add: turns_ok_def)
  have "row_ok (patched st p now w)"
  proof -
    have s: "st = TInProgress \<longrightarrow> \<not> status_terminal st" "st \<noteq> TQueued" "status_terminal st \<or> st = TInProgress"
      using moved(2) by (cases ex; auto simp: turn_step_def status_terminal_def)+
    have c: "tw_completed_at w = None"
      using wok moved(2,3) by (cases ex) (auto simp: row_ok_def turn_step_def status_terminal_def)
    show ?thesis
      using s moved(4) c by (auto simp: row_ok_def patched_def intro!: exI [of _ st] split: option.splits)
  qed
  then have "row_ok x" if "x \<in> set (turns db')" for x
    using that ok moved(6) by (auto simp: turns_ok_def elim: put_rowE)
  then show ?thesis using ok moved(6) by (simp add: turns_ok_def)
qed (use ok in simp)

end
