(* ===== verification/ControlTheorems.thy ===== *)
theory ControlTheorems
  imports ControlTurns
begin

text \<open>
  What the turn store promises: what is written is read back, a transition is taken by at most one
  caller, a turn moves at most twice and stops at its first terminal status; and the one record the
  store commits and can never give back.
\<close>

section \<open>Histories of the store\<close>

datatype control_op =
    OpCreate turn_record
  | OpMove pystr turn_status turn_status "pystr option" turn_patch instant
  | OpUpsert pystr pydict instant
  | OpTouch pystr instant
  | OpDelete pystr

fun control_step :: "control_op \<Rightarrow> control_db \<Rightarrow> control_db" where
  "control_step (OpCreate r) db = snd (create_turn r db)"
| "control_step (OpMove i ex st th p now) db = snd (transition_turn i ex st th p now db)"
| "control_step (OpUpsert k m now) db = upsert_thread k m now db"
| "control_step (OpTouch k now) db = touch_thread k now db"
| "control_step (OpDelete k) db = snd (delete_thread k db)"

definition stored_status :: "pystr \<Rightarrow> control_db \<Rightarrow> pystr option" where
  "stored_status i db = map_option tw_status (row_by tw_id i (turns db))"

text \<open>The statuses turn \<open>i\<close> takes one after the other while the operations run.\<close>

fun moves :: "pystr \<Rightarrow> control_op list \<Rightarrow> control_db \<Rightarrow> pystr list" where
  "moves i [] db = []"
| "moves i (a # ops) db =
     (let db' = control_step a db
      in if stored_status i db' = stored_status i db then moves i ops db'
         else the (stored_status i db') # moves i ops db')"

lemma threads_only [simp]:
  "turns (upsert_thread k m now db) = turns db" "turns (touch_thread k now db) = turns db"
  by (simp_all add: upsert_thread_def touch_thread_def split: option.splits)

lemma delete_thread_row:
  assumes "row_by tw_id i (turns db) = Some w" "k \<noteq> tw_session_key w"
  shows "row_by tw_id i (turns (snd (delete_thread k db))) = Some w"
proof -
  have "row_by tw_id i (filter (\<lambda>w. tw_session_key w \<noteq> k) ws) = Some w" if "row_by tw_id i ws = Some w" for ws
    using that by (induction ws) (use assms(2) in \<open>auto split: if_splits\<close>)
  then show ?thesis using assms(1) by (simp add: delete_thread_def)
qed

lemma delete_thread_gone:
  assumes "distinct (map tw_id (turns db))" "row_by tw_id i (turns db) = Some w"
  shows "row_by tw_id i (turns (snd (delete_thread (tw_session_key w) db))) = None"
proof -
  have "tw_id x \<noteq> i" if "x \<in> set (turns db)" "tw_session_key x \<noteq> tw_session_key w" for x
    using row_by_uniqueD [OF assms that(1)] that(2) by auto
  then show ?thesis by (auto simp: delete_thread_def row_by_None)
qed

lemma control_step_ok: "turns_ok db \<Longrightarrow> turns_ok (control_step a db)"
proof (cases a)
  case (OpCreate r)
  then show "turns_ok db \<Longrightarrow> ?thesis" using create_turn_ok by (metis control_step.simps(1) prod.collapse)
next
  case (OpMove i ex st th p now)
  then show "turns_ok db \<Longrightarrow> ?thesis" using transition_turn_ok by (metis control_step.simps(2) prod.collapse)
next
  case (OpDelete k)
  then show "turns_ok db \<Longrightarrow> ?thesis" by (simp add: turns_ok_def delete_thread_def distinct_map_filter)
qed (simp_all add: turns_ok_def)

lemma control_steps_ok: "turns_ok db \<Longrightarrow> turns_ok (fold control_step ops db)"
  by (induction ops arbitrary: db) (simp_all add: control_step_ok)

text \<open>The row of a turn under one operation: kept, or moved along the table.\<close>

lemma control_step_row:
  assumes w: "row_by tw_id i (turns db) = Some w" and k: "a \<noteq> OpDelete (tw_session_key w)"
  shows "row_by tw_id i (turns (control_step a db)) = Some w \<or>
    (\<exists>ex st p now. turn_step ex st \<and> tw_status w = status_text ex \<and>
       row_by tw_id i (turns (control_step a db)) = Some (patched st p now w))"
proof (cases a)
  case (OpCreate r)
  have "create_turn r db = (fst (create_turn r db), snd (create_turn r db))" by simp
  then show ?thesis
  proof (cases rule: create_turn_cases)
    case created
    then show ?thesis using w OpCreate by (simp add: row_by_append)
  qed (use w OpCreate in simp_all)
next
  case (OpMove j ex st th p now)
  have "transition_turn j ex st th p now db =
      (fst (transition_turn j ex st th p now db), snd (transition_turn j ex st th p now db))" by simp
  then show ?thesis
  proof (cases rule: transition_turn_cases)
    case (moved v)
    have j: "tw_id v = j" using row_by_SomeD [OF moved(1)] by simp
    have "row_by tw_id i (turns (control_step a db)) = (if i = j then Some (patched st p now v) else Some w)"
      using w OpMove j moved(1) by (simp add: moved(6) row_by_put_row)
    then show ?thesis using moved(1-3) w by (cases "i = j") auto
  qed (use w OpMove in simp_all)
next
  case (OpDelete k')
  then show ?thesis using delete_thread_row [OF w] k by simp
qed (use w in simp_all)

text \<open>Once a turn is terminal its row is never written again; it goes with its thread.\<close>

lemma terminal_row_stays:
  assumes "row_by tw_id i (turns db) = Some w" "tw_status w = status_text s" "status_terminal s"
    and "OpDelete (tw_session_key w) \<notin> set ops"
  shows "row_by tw_id i (turns (fold control_step ops db)) = Some w"
  using assms(1,4)
proof (induction ops arbitrary: db)
  case (Cons a ops)
  have "row_by tw_id i (turns (control_step a db)) = Some w"
    using control_step_row [OF Cons.prems(1), of a] Cons.prems(2) assms(2,3) tm.terminal_final by fastforce
  then show ?case using Cons by simp
qed simp

lemma moves_history:
  assumes "row_by tw_id i (turns db) = Some w" and "tw_status w = status_text s"
    and "OpDelete (tw_session_key w) \<notin> set ops"
  shows "\<exists>ss. moves i ops db = map status_text ss \<and> tm.history s ss \<and>
    stored_status i (fold control_step ops db) = Some (status_text (last (s # ss)))"
  using assms
proof (induction ops arbitrary: db w s)
  case Nil
  then show ?case by (intro exI [of _ "[]"]) (simp add: stored_status_def)
next
  case (Cons a ops)
  consider (kept) "row_by tw_id i (turns (control_step a db)) = Some w"
    | (moved) ex st p now where "turn_step ex st" "tw_status w = status_text ex"
        "row_by tw_id i (turns (control_step a db)) = Some (patched st p now w)"
    using control_step_row [OF Cons.prems(1), of a] Cons.prems(3) by auto
  then show ?case
  proof cases
    case kept
    then show ?thesis using Cons by (simp add: stored_status_def)
  next
    case moved
    have "s = ex" using Cons.prems(2) moved(2) by simp
    moreover have "st \<noteq> ex" using tm.step_rank [OF moved(1)] by auto
    moreover obtain ss where ss: "moves i ops (control_step a db) = map status_text ss" "tm.history st ss"
      "stored_status i (fold control_step ops (control_step a db)) = Some (status_text (last (st # ss)))"
      using Cons.IH [OF moved(3), of st] Cons.prems(3) by auto
    ultimately show ?thesis
      using moved Cons.prems by (intro exI [of _ "st # ss"]) (simp add: stored_status_def)
  qed
qed

lemma ctl_map_all: "ctl_map f xs = Inr ys \<Longrightarrow> x \<in> set xs \<Longrightarrow> \<exists>y. f x = Inr y"
  by (induction xs arbitrary: ys) (auto split: sum.splits)

section \<open>Sample turns\<close>

definition st_record :: "pystr \<Rightarrow> turn_record" where
  "st_record i = \<lparr>tr_id = i, tr_thread_id = lit ''t'', tr_status = TQueued, tr_input = lit ''hi'', tr_metadata = [],
     tr_items = [\<lparr>ti_kind = UserMessage, ti_id = lit ''a'', ti_data = []\<rparr>], tr_usage = None, tr_error = None,
     tr_created_at = 0, tr_started_at = None, tr_completed_at = None, tr_final_response = None\<rparr>"

definition no_patch :: turn_patch where
  "no_patch = \<lparr>tp_items = None, tp_usage = None, tp_error = None, tp_final_response = None\<rparr>"

definition st_db :: control_db where
  "st_db = \<lparr>turns = [turn_row_of (st_record (lit ''x''))], threads = []\<rparr>"

definition st_running :: control_db where
  "st_running = snd (transition_turn (lit ''x'') TQueued TInProgress None no_patch 1 st_db)"

lemma st_rows:
  "row_by tw_id (lit ''x'') (turns st_db) = Some (turn_row_of (st_record (lit ''x'')))"
  "row_by tw_id (lit ''x'') (turns st_running) =
     Some (patched TInProgress no_patch 1 (turn_row_of (st_record (lit ''x''))))"
  by (simp_all add: st_db_def st_running_def transition_turn_def cas_hits_def Let_def turn_row_of_def
      st_record_def patched_def put_row_def)

lemma st_ok: "turns_ok st_db" "turns_ok st_running"
proof -
  have "row_ok (turn_row_of (st_record (lit ''x'')))"
    unfolding row_ok_def by (rule exI [of _ TQueued]) (simp add: turn_row_of_def st_record_def status_terminal_def)
  then show "turns_ok st_db" by (simp add: turns_ok_def st_db_def)
  then show "turns_ok st_running"
    unfolding st_running_def by (rule transition_turn_ok) (rule prod.collapse [symmetric])
qed

definition st_begun :: turn_record where
  "st_begun = (st_record (lit ''x''))\<lparr>tr_status := TInProgress, tr_started_at := Some 1\<rparr>"

lemma st_begun_reads: "row_to_turn (patched TInProgress no_patch 1 (turn_row_of (st_record (lit ''x'')))) = Inr st_begun"
proof -
  have "patched TInProgress no_patch 1 (turn_row_of (st_record (lit ''x''))) = turn_row_of st_begun"
    by (simp add: patched_def turn_row_of_def no_patch_def st_record_def st_begun_def status_terminal_def)
  then show ?thesis using row_roundtrip [of st_begun] by (simp add: readable_def st_record_def st_begun_def)
qed

section \<open>Properties\<close>

text \<open>A queued turn with a fresh id whose items have non-empty ids is stored and given back
  exactly as it was handed in, by \<open>create_turn\<close> and by every later \<open>read_turn\<close>; the other turns
  read as before.\<close>

theorem create_turn_reads_back:
  assumes "tr_status r = TQueued" "tr_started_at r = None" "tr_completed_at r = None" "tr_usage r = None"
    and "tr_error r = None" "tr_final_response r = None" "\<forall>i \<in> set (tr_items r). ti_id i \<noteq> []"
    and "row_by tw_id (tr_id r) (turns db) = None"
  shows "fst (create_turn r db) = Inr r \<and> read_turn (tr_id r) (snd (create_turn r db)) = Inr (Some r) \<and>
    (\<forall>j. j \<noteq> tr_id r \<longrightarrow> read_turn j (snd (create_turn r db)) = read_turn j db)"
proof -
  let ?db = "db\<lparr>turns := turns db @ [turn_row_of r]\<rparr>"
  have "readable r" using assms(4,5,7) by (simp add: readable_def)
  then have row: "row_to_turn (turn_row_of r) = Inr r" by (rule row_roundtrip)
  have id: "tw_id (turn_row_of r) = tr_id r" by (simp add: turn_row_of_def)
  have read: "read_turn (tr_id r) ?db = Inr (Some r)"
    using assms(8) row by (simp add: read_turn_def row_by_append id ctl_opt_def)
  moreover have "read_turn j ?db = read_turn j db" if "j \<noteq> tr_id r" for j
    using that id by (simp add: read_turn_def row_by_append split: option.splits)
  moreover have "create_turn r db = (Inr r, ?db)"
    using assms(1-6,8) read by (simp add: create_turn_def reread_def Let_def)
  ultimately show ?thesis by simp
qed

lemma create_turn_reads_back_witness:
  "fst (create_turn (st_record (lit ''y'')) st_db) = Inr (st_record (lit ''y''))"
  using create_turn_reads_back [of "st_record (lit ''y'')" st_db]
  by (simp add: st_record_def st_db_def turn_row_of_def)

text \<open>A transition is a compare-and-set that one caller wins: once a caller moved a turn away
  from the status it expected, every other transition of that turn that expects this status is
  refused and leaves the store as it is, whatever it wants to write.\<close>

theorem turn_cas_one_winner:
  assumes "transition_turn i ex st th p now db = (Inr r, db')"
  shows "tr_id r = i \<and> tr_status r = st \<and>
    (\<exists>e. transition_turn i ex st' th' p' now' db' = (Inl e, db'))"
  using assms
proof (cases rule: transition_turn_cases)
  case (moved w)
  have w: "tw_id w = i" using row_by_SomeD [OF moved(1)] by simp
  have row: "row_by tw_id i (turns db') = Some (patched st p now w)"
    using moved(1) w by (simp add: moved(6) row_by_put_row)
  have ne: "st \<noteq> ex" using tm.step_rank [OF moved(2)] by auto
  have "read_turn i db' = Inr (Some r)" using moved(7) by (auto simp: reread_def split: sum.splits option.splits)
  then have "row_to_turn (patched st p now w) = Inr r"
    by (auto simp: read_turn_def row ctl_opt_def split: sum.splits)
  then have "tr_id r = i \<and> parse_status (status_text st) = Inr (tr_status r)"
    using w by (auto simp: row_to_turn_def split: json.splits option.splits sum.splits)
  moreover have "parse_status (status_text st) = Inr st" by (cases st) (simp_all add: parse_status_def parse_enum_def)
  moreover have "\<exists>e. transition_turn i ex st' th' p' now' db' = (Inl e, db')"
  proof -
    obtain res db2 where t: "transition_turn i ex st' th' p' now' db' = (res, db2)" by fastforce
    then show ?thesis
    proof (cases rule: transition_turn_cases)
      case (refused e)
      then show ?thesis using t by simp
    next
      case (moved v)
      have "tw_status v = status_text st" using moved(1) row by auto
      then have "st = ex" using moved(3) by simp
      then show ?thesis using ne by simp
    qed
  qed
  ultimately show ?thesis by auto
qed simp

lemma turn_cas_one_winner_witness:
  "\<exists>e. transition_turn (lit ''x'') TQueued TCancelled None no_patch 2 st_running = (Inl e, st_running)"
proof -
  let ?r = "st_begun"
  have "read_turn (lit ''x'') st_running = Inr (Some ?r)"
    by (simp add: read_turn_def st_rows(2) ctl_opt_def st_begun_reads)
  then have "transition_turn (lit ''x'') TQueued TInProgress None no_patch 1 st_db = (Inr ?r, st_running)"
    using st_rows(1) by (simp add: st_running_def transition_turn_def Let_def reread_def cas_hits_def turn_row_of_def st_record_def)
  from turn_cas_one_winner [OF this] show ?thesis by blast
qed

text \<open>Whatever operations run on the store, as long as the thread is not deleted, the statuses a turn goes through are a path of the
  transition table: a terminal status can only be the last of them, there are at most two moves, and
  the stored status is where the path ends.\<close>

theorem turn_history_bounded:
  assumes "row_by tw_id i (turns db) = Some w" and "tw_status w = status_text s"
    and "OpDelete (tw_session_key w) \<notin> set ops"
  shows "\<exists>ss. moves i ops db = map status_text ss \<and> tm.history s ss \<and> length ss \<le> 2 \<and>
    (\<forall>k < length ss. status_terminal (ss ! k) \<longrightarrow> k = length ss - 1) \<and>
    stored_status i (fold control_step ops db) = Some (status_text (last (s # ss)))"
proof -
  obtain ss where ss: "moves i ops db = map status_text ss" "tm.history s ss"
    "stored_status i (fold control_step ops db) = Some (status_text (last (s # ss)))"
    using moves_history [OF assms] by blast
  moreover have "length ss \<le> 2" using tm.history_bounded [OF ss(2)] by simp
  ultimately show ?thesis using tm.history_terminal_last [OF ss(2)] by blast
qed

lemma turn_history_bounded_witness:
  "\<exists>ss. moves (lit ''x'') [OpMove (lit ''x'') TQueued TInProgress None no_patch 1,
     OpMove (lit ''x'') TInProgress TCompleted None no_patch 2, OpTouch (lit ''t'') 3] st_db = map status_text ss \<and>
     length ss \<le> 2"
proof -
  have "tw_status (turn_row_of (st_record (lit ''x''))) = status_text TQueued" by (simp add: turn_row_of_def st_record_def)
  from turn_history_bounded [OF st_rows(1) this, of "[OpMove (lit ''x'') TQueued TInProgress None no_patch 1,
     OpMove (lit ''x'') TInProgress TCompleted None no_patch 2, OpTouch (lit ''t'') 3]"] show ?thesis by auto
qed

text \<open>C35: A turn that fails with an exception whose text is empty is committed as failed, but the
  stored error can never be read back: the transition itself raises, and after every later sequence of operations on the
  store that does not delete the thread the turn is still stored as failed, \<open>read_turn\<close> of it raises the same error
  and so does every page of \<open>list_turns\<close> that reaches it.  Only the deletion of the thread ends this, with
  the record.\<close>

theorem failed_turn_unreadable:
  assumes "turns_ok db" and "row_by tw_id i (turns db) = Some w" and "row_to_turn w = Inr r"
    and "tr_status r = TInProgress" and "tp_error p = Some e" and "te_type e \<noteq> []" "te_message e = []"
    and "\<forall>x \<in> set (case tp_items p of None \<Rightarrow> [] | Some its \<Rightarrow> its). ti_id x \<noteq> []"
    and "tp_usage p = None"
  shows "let (res, db1) = transition_turn i TInProgress TFailed None p now db;
             bad = CtlValueError (lit ''turn error message '' @ [24517, 39035, 26159, 38750, 31354, 23383, 31526, 20018])
         in res = Inl bad \<and>
           (\<forall>ops. OpDelete (tw_session_key w) \<notin> set ops \<longrightarrow>
              (let db' = fold control_step ops db1 in
                 stored_status i db' = Some (lit ''failed'') \<and> read_turn i db' = Inl bad \<and>
                 read_turn i (control_step (OpDelete (tw_session_key w)) db') = Inr None \<and>
                 (\<forall>n. 0 < n \<and> n \<le> 200 \<and> length (filter (\<lambda>x. tw_session_key x = tw_session_key w) (turns db')) \<le> nat n \<longrightarrow>
                    (\<exists>err. list_turns (tw_session_key w) n db' = Inl err))))"
proof -
  let ?bad = "CtlValueError (lit ''turn error message '' @ [24517, 39035, 26159, 38750, 31354, 23383, 31526, 20018])"
  let ?w = "patched TFailed p now w"
  let ?db = "db\<lparr>turns := put_row tw_id ?w (turns db)\<rparr>"
  have id: "tw_id w = i" using row_by_SomeD [OF assms(2)] by simp
  have st: "tw_status w = status_text TInProgress"
  proof -
    have "parse_status (tw_status w) = Inr TInProgress"
      using assms(3,4) by (auto simp: row_to_turn_def split: json.splits option.splits sum.splits)
    moreover obtain s where "tw_status w = status_text s"
      using assms(1) row_by_SomeD [OF assms(2)] by (auto simp: turns_ok_def row_ok_def)
    ultimately show ?thesis by (cases s) (auto simp: parse_status_def parse_enum_def)
  qed
  obtain payload inp meta where inpt: "tw_input_json w = JObj payload" "map_of payload (lit ''input'') = Some (JStr inp)"
      "map_of payload (lit ''metadata'') = Some (JObj meta)"
    using assms(3) by (auto simp: row_to_turn_def split: json.splits option.splits)
  obtain raw its us where rest: "tw_items_json w = JArr raw" "ctl_map item_from_dict raw = Inr its"
      "ctl_opt usage_from_dict (tw_usage_json w) = Inr us"
    using assms(3) by (auto simp: row_to_turn_def split: json.splits option.splits sum.splits)
  obtain raw' its' where items: "tw_items_json ?w = JArr raw'" "ctl_map item_from_dict raw' = Inr its'"
    using rest(1,2) assms(8)
    by (cases "tp_items p") (auto simp: patched_def items_json_def item_roundtrip ctl_map_roundtrip)
  have "tw_usage_json ?w = tw_usage_json w" "tw_error_json ?w = Some (error_to_dict e)"
    using assms(5,9) by (simp_all add: patched_def)
  moreover have "parse_status (status_text TFailed) = Inr TFailed" by (simp add: parse_status_def parse_enum_def)
  ultimately have bad: "row_to_turn ?w = Inl ?bad"
    using inpt items rest(3) error_empty_message [OF assms(6,7)]
    by (simp add: row_to_turn_def ctl_opt_def del: status_text.simps)
  have row: "row_by tw_id i (turns ?db) = Some ?w" using assms(2) id by (simp add: row_by_put_row)
  have reads: "read_turn i d = Inl ?bad" if "row_by tw_id i (turns d) = Some ?w" for d
    using bad that by (simp add: read_turn_def ctl_opt_def)
  have t: "transition_turn i TInProgress TFailed None p now db = (Inl ?bad, ?db)"
    using assms(2,5) st reads [OF row] by (simp add: transition_turn_def cas_hits_def Let_def reread_def)
  then have ok1: "turns_ok ?db" by (rule transition_turn_ok [OF assms(1)])
  have after: "stored_status i d = Some (lit ''failed'') \<and> read_turn i d = Inl ?bad \<and>
      read_turn i (control_step (OpDelete (tw_session_key w)) d) = Inr None \<and>
      (\<forall>n. 0 < n \<and> n \<le> 200 \<and> length (filter (\<lambda>x. tw_session_key x = tw_session_key w) (turns d)) \<le> nat n \<longrightarrow>
        (\<exists>err. list_turns (tw_session_key w) n d = Inl err))"
    if ops: "OpDelete (tw_session_key w) \<notin> set ops" and d: "d = fold control_step ops ?db" for ops d
  proof -
    have row': "row_by tw_id i (turns d) = Some ?w"
      unfolding d by (rule terminal_row_stays [OF row, of TFailed]) (use ops in \<open>simp_all add: status_terminal_def patched_def\<close>)
    have "turns_ok d" unfolding d by (rule control_steps_ok [OF ok1])
    then have "distinct (map tw_id (turns d))" by (simp add: turns_ok_def)
    from delete_thread_gone [OF this row'] have "read_turn i (control_step (OpDelete (tw_session_key w)) d) = Inr None"
      by (simp add: read_turn_def ctl_opt_def)
    moreover have "stored_status i d = Some (lit ''failed'')" using row' by (simp add: stored_status_def patched_def)
    moreover have "\<exists>err. list_turns (tw_session_key w) n d = Inl err"
      if n: "0 < n \<and> n \<le> 200 \<and> length (filter (\<lambda>x. tw_session_key x = tw_session_key w) (turns d)) \<le> nat n" for n
    proof -
      let ?page = "filter (\<lambda>x. tw_session_key x = tw_session_key w) (turns d)"
      have "?w \<in> set ?page" using row_by_SomeD [OF row'] by simp
      then have "?w \<in> set (take (nat n) (rev (sort_key (\<lambda>w. (tw_created_at w, tw_id w)) ?page)))" using n by simp
      from ctl_map_all [OF _ this, of row_to_turn] bad n show ?thesis
        by (cases "list_turns (tw_session_key w) n d") (auto simp: list_turns_def)
    qed
    ultimately show ?thesis using reads [OF row'] by blast
  qed
  show ?thesis using after unfolding t by (simp add: Let_def)
qed

lemma failed_turn_unreadable_witness:
  "\<exists>err. read_turn (lit ''x'') (fold control_step
       [OpMove (lit ''x'') TInProgress TCompleted None no_patch 6, OpUpsert (lit ''t'') [] 7]
       (snd (transition_turn (lit ''x'') TInProgress TFailed None
        (no_patch\<lparr>tp_error := Some \<lparr>te_type = lit ''TimeoutError'', te_message = [], te_retryable = False,
           te_data = None\<rparr>\<rparr>) 5 st_running))) = Inl err"
proof -
  let ?p = "no_patch\<lparr>tp_error := Some \<lparr>te_type = lit ''TimeoutError'', te_message = [], te_retryable = False,
     te_data = None\<rparr>\<rparr>"
  let ?ops = "[OpMove (lit ''x'') TInProgress TCompleted None no_patch 6, OpUpsert (lit ''t'') [] 7]"
  let ?key = "tw_session_key (patched TInProgress no_patch 1 (turn_row_of (st_record (lit ''x''))))"
  have "let (res, db1) = transition_turn (lit ''x'') TInProgress TFailed None ?p 5 st_running;
             bad = CtlValueError (lit ''turn error message '' @ [24517, 39035, 26159, 38750, 31354, 23383, 31526, 20018])
         in res = Inl bad \<and>
           (\<forall>ops. OpDelete ?key \<notin> set ops \<longrightarrow>
              (let db' = fold control_step ops db1 in
                 stored_status (lit ''x'') db' = Some (lit ''failed'') \<and> read_turn (lit ''x'') db' = Inl bad \<and>
                 read_turn (lit ''x'') (control_step (OpDelete ?key) db') = Inr None \<and>
                 (\<forall>n. 0 < n \<and> n \<le> 200 \<and> length (filter (\<lambda>x. tw_session_key x = ?key) (turns db')) \<le> nat n \<longrightarrow>
                    (\<exists>err. list_turns ?key n db' = Inl err))))"
    by (rule failed_turn_unreadable [where e = "\<lparr>te_type = lit ''TimeoutError'', te_message = [],
          te_retryable = False, te_data = None\<rparr>", OF st_ok(2) st_rows(2) st_begun_reads])
      (simp_all add: no_patch_def st_begun_def)
  then have "\<forall>ops. OpDelete ?key \<notin> set ops \<longrightarrow> (\<exists>err. read_turn (lit ''x'') (fold control_step ops
       (snd (transition_turn (lit ''x'') TInProgress TFailed None ?p 5 st_running))) = Inl err)"
    by (auto simp: Let_def split: prod.splits)
  from spec [OF this, of ?ops] show ?thesis by simp
qed

end
