(* ===== verification/Restart.thy ===== *)
theory Restart
  imports ControlTurns PyJson
begin

text \<open>
  The restart hand-over: the coordinator of \<open>src/agent/restart.py\<close> with the pipe it writes its
  commit frame to, and the supervisor of \<open>src/agent/supervisor.py\<close> that reads it.  The pipe holds
  lines, each as the JSON value it decodes to (\<open>None\<close> when it does not), and a torn last line
  after a short write.  The runtime whose admission the coordinator freezes is any state \<open>'a\<close> with
  the two operations the coordinator is given; \<open>admission\<close> states what it relies on.
\<close>

section \<open>The commit channel\<close>

record restart_request =
  rq_id :: pystr
  rq_boot_id :: pystr
  rq_turn_id :: pystr
  rq_session_key :: pystr
  rq_channel :: pystr
  rq_chat_id :: pystr
  rq_reason :: pystr

record pipe =
  pi_lines :: "json option list"
  pi_torn :: bool

record commit_channel =
  cc_fd :: int
  cc_boot_id :: pystr
  cc_nonce :: pystr
  cc_pipe :: pipe

definition empty_pipe :: pipe where
  "empty_pipe = \<lparr>pi_lines = [], pi_torn = False\<rparr>"

definition open_channel :: "int \<Rightarrow> bool \<Rightarrow> pystr \<Rightarrow> pystr \<Rightarrow> commit_channel ctl" where
  "open_channel fd is_open boot_id nonce =
     (if fd \<le> 2 then Inl (CtlValueError (lit ''restart commit fd '' @ [24517, 39035, 26159, 32487, 25215, 30340, 31169, 26377, 25551, 36848, 31526]))
      else if boot_id = [] \<or> length nonce < 32
      then Inl (CtlValueError (lit ''restart commit channel '' @ [36523, 20221, 26080, 25928]))
      else if \<not> is_open then Inl CtlOSError
      else Inr \<lparr>cc_fd = fd, cc_boot_id = boot_id, cc_nonce = nonce, cc_pipe = empty_pipe\<rparr>)"

text \<open>\<open>_env\<close>: either spelling of a variable, the supervisor's own first.\<close>

definition env_var :: "(pystr \<rightharpoonup> pystr) \<Rightarrow> string \<Rightarrow> pystr \<Rightarrow> pystr" where
  "env_var env name dflt =
     (case env (lit ''AKASHIC_'' @ lit name) of
        Some v \<Rightarrow> v
      | None \<Rightarrow> (case env (lit ''KIRAKIRA_'' @ lit name) of Some v \<Rightarrow> v | None \<Rightarrow> dflt))"

text \<open>\<open>parse_int\<close> is Python's \<open>int\<close> on a text, and \<open>is_open\<close> tells the open descriptors.\<close>

definition channel_from_environment ::
  "(pystr \<Rightarrow> int option) \<Rightarrow> (int \<Rightarrow> bool) \<Rightarrow> (pystr \<rightharpoonup> pystr) \<Rightarrow> commit_channel option ctl" where
  "channel_from_environment parse_int is_open env =
     (if env_var env ''SUPERVISED'' [] \<noteq> lit ''1'' then Inr None
      else
        (let raw_fd = env_var env ''RESTART_COMMIT_FD'' []
         in if raw_fd = [] then Inl (CtlRuntimeError (lit ''supervised child '' @ [32570, 23569] @ lit '' restart commit fd''))
            else (case parse_int raw_fd of
                    None \<Rightarrow> Inl (CtlRuntimeError (lit ''restart commit fd '' @ [19981, 26159, 25972, 25968]))
                  | Some fd \<Rightarrow>
                      (case open_channel fd (is_open fd) (env_var env ''BOOT_ID'' []) (env_var env ''RESTART_NONCE'' []) of
                         Inl e \<Rightarrow> Inl e
                       | Inr ch \<Rightarrow> Inr (Some ch)))))"

definition commit_frame :: "commit_channel \<Rightarrow> restart_request \<Rightarrow> json" where
  "commit_frame ch req =
     JObj [(lit ''type'', JStr (lit ''restart_commit'')), (lit ''bootId'', JStr (cc_boot_id ch)),
           (lit ''nonce'', JStr (cc_nonce ch)), (lit ''requestId'', JStr (rq_id req))]"

text \<open>One write: whole, or short and then torn; after a torn line the next one cannot be decoded.  A write that raises before
  a byte is out is counted as a short one: the channel fails either way.\<close>

definition write_line :: "bool \<Rightarrow> json \<Rightarrow> pipe \<Rightarrow> pipe" where
  "write_line whole v p =
     (if \<not> whole then p\<lparr>pi_torn := True\<rparr>
      else p\<lparr>pi_lines := pi_lines p @ [if pi_torn p then None else Some v], pi_torn := False\<rparr>)"

definition channel_commit :: "bool \<Rightarrow> restart_request \<Rightarrow> commit_channel \<Rightarrow> pystr option \<times> commit_channel" where
  "channel_commit whole req ch =
     (if rq_boot_id req \<noteq> cc_boot_id ch
      then (Some (lit ''restart request boot_id '' @ [19982] @ lit '' commit channel '' @ [19981, 21305, 37197]), ch)
      else
        (let ch1 = ch\<lparr>cc_pipe := write_line whole (commit_frame ch req) (cc_pipe ch)\<rparr>
         in (if whole then None else Some (lit ''restart commit pipe '' @ [21457, 29983, 30701, 20889]), ch1)))"

section \<open>The coordinator\<close>

datatype restart_state = RIdle | RArmed | RWaitingDelivery | RCommitted | RCancelled

record coordinator =
  co_boot_id :: pystr
  co_supervised :: bool
  co_commit :: "commit_channel option"
  co_timeout_text :: pystr
  co_state :: restart_state
  co_pending :: "restart_request option"
  co_last_error :: "pystr option"
  co_turn_completed :: bool
  co_delivered :: bool
  co_committed_event :: bool
  co_watchdog :: "pystr option"
  co_bound :: bool

text \<open>\<open>timeout_text\<close> is the \<open>:g\<close> form of a delivery timeout that is checked to be positive.\<close>

definition new_coordinator ::
  "pystr \<Rightarrow> bool \<Rightarrow> commit_channel option \<Rightarrow> bool \<Rightarrow> pystr \<Rightarrow> coordinator ctl" where
  "new_coordinator boot_id supervised commit timeout_positive timeout_text =
     (if strip boot_id = [] then Inl (CtlValueError (lit ''boot_id '' @ [19981, 33021, 20026, 31354]))
      else if \<not> timeout_positive then Inl (CtlValueError (lit ''delivery_timeout_s '' @ [24517, 39035, 22823, 20110] @ lit '' 0''))
      else if supervised \<noteq> (commit \<noteq> None)
      then Inl (CtlValueError (lit ''supervised '' @ [19982] @ lit '' restart commit channel '' @ [24517, 39035, 21516, 26102, 25104, 31435]))
      else Inr \<lparr>co_boot_id = boot_id, co_supervised = supervised, co_commit = commit,
                co_timeout_text = timeout_text, co_state = RIdle, co_pending = None, co_last_error = None,
                co_turn_completed = False, co_delivered = False, co_committed_event = False,
                co_watchdog = None, co_bound = False\<rparr>)"

definition bind_admission :: "coordinator \<Rightarrow> coordinator ctl" where
  "bind_admission co =
     (if co_bound co then Inl (CtlRuntimeError (lit ''restart admission '' @ [24050, 32465, 23450]))
      else Inr (co\<lparr>co_bound := True\<rparr>))"

text \<open>\<open>hex\<close> is the fresh \<open>uuid4\<close> of the request.\<close>

definition arm ::
  "(pystr \<Rightarrow> 'a \<Rightarrow> 'a ctl) \<Rightarrow> pystr \<Rightarrow> pystr \<Rightarrow> pystr \<Rightarrow> pystr \<Rightarrow> pystr \<Rightarrow> pystr \<Rightarrow> coordinator \<times> 'a \<Rightarrow>
   restart_request ctl \<times> coordinator \<times> 'a" where
  "arm quiesce turn_id session_key channel chat_id reason hex w =
     (case w of (co, a) \<Rightarrow>
        if \<not> co_supervised co
        then (Inl (RestartRejectedError ([24403, 21069, 36827, 31243, 26410, 30001] @ lit '' supervisor '' @ [25176, 31649])), w)
        else if \<not> co_bound co
        then (Inl (CtlRuntimeError (lit ''restart admission '' @ [23578, 26410, 32465, 23450])), w)
        else if length (strip reason) < 1 \<or> 300 < length (strip reason)
        then (Inl (CtlValueError (lit ''reason '' @ [38271, 24230, 24517, 39035, 20026] @ lit '' 1..300'')), w)
        else if turn_id = [] \<or> session_key = [] \<or> channel = [] \<or> chat_id = []
        then (Inl (RestartRejectedError ([37325, 21551, 24037, 20855, 32570, 23569, 23436, 25972] @ lit '' turn '' @ [19978, 19979, 25991])), w)
        else
          (case co_pending co of
             Some p \<Rightarrow>
               if rq_turn_id p = turn_id then (Inr p, w)
               else (Inl (RestartRejectedError ([24050, 26377, 37325, 21551, 35831, 27714, 31561, 24453, 25552, 20132] @ lit '': '' @ rq_id p)), w)
           | None \<Rightarrow>
               (case quiesce turn_id a of
                  Inl e \<Rightarrow> (Inl e, w)
                | Inr a1 \<Rightarrow>
                    (let r = \<lparr>rq_id = lit ''restart_'' @ hex, rq_boot_id = co_boot_id co, rq_turn_id = turn_id,
                              rq_session_key = session_key, rq_channel = channel, rq_chat_id = chat_id,
                              rq_reason = strip reason\<rparr>
                     in (Inr r, co\<lparr>co_pending := Some r, co_state := RArmed, co_last_error := None,
                                   co_turn_completed := False, co_delivered := False,
                                   co_watchdog := Some (rq_id r)\<rparr>, a1)))))"

definition restart_cancel ::
  "(pystr \<Rightarrow> 'a \<Rightarrow> 'a ctl) \<Rightarrow> pystr \<Rightarrow> coordinator \<times> 'a \<Rightarrow> control_error option \<times> coordinator \<times> 'a" where
  "restart_cancel resume reason w =
     (case w of (co, a) \<Rightarrow>
        (case co_pending co of
           None \<Rightarrow> (None, w)
         | Some p \<Rightarrow>
             (let co1 = co\<lparr>co_watchdog := None, co_state := RCancelled, co_last_error := Some reason,
                           co_pending := None, co_turn_completed := False, co_delivered := False\<rparr>
              in case resume (rq_turn_id p) a of
                   Inl e \<Rightarrow> (Some e, co1, a)
                 | Inr a1 \<Rightarrow> (None, co1, a1))))"

text \<open>\<open>whole\<close> tells whether the operating system took the whole frame.\<close>

definition commit_if_ready ::
  "(pystr \<Rightarrow> 'a \<Rightarrow> 'a ctl) \<Rightarrow> bool \<Rightarrow> coordinator \<times> 'a \<Rightarrow> control_error option \<times> coordinator \<times> 'a" where
  "commit_if_ready resume whole w =
     (case w of (co, a) \<Rightarrow>
        if co_state co = RCommitted \<or> \<not> co_turn_completed co \<or> \<not> co_delivered co then (None, w)
        else
          (case (co_pending co, co_commit co) of
             (Some p, Some ch) \<Rightarrow>
               (case channel_commit whole p ch of
                  (Some e, ch1) \<Rightarrow>
                    restart_cancel resume (lit ''supervisor commit failed: '' @ e) (co\<lparr>co_commit := Some ch1\<rparr>, a)
                | (None, ch1) \<Rightarrow>
                    (None, co\<lparr>co_commit := Some ch1, co_state := RCommitted, co_watchdog := None,
                              co_committed_event := True\<rparr>, a))
           | _ \<Rightarrow> (Some (CtlRuntimeError (lit ''restart commit '' @ [32570, 23569, 27491, 24335, 35831, 27714, 25110, 31169, 26377, 36890, 36947])), w)))"

definition pending_is :: "pystr \<Rightarrow> coordinator \<Rightarrow> bool" where
  "pending_is turn_id co \<longleftrightarrow> (case co_pending co of None \<Rightarrow> False | Some p \<Rightarrow> rq_turn_id p = turn_id)"

definition mark_turn_terminal ::
  "(pystr \<Rightarrow> 'a \<Rightarrow> 'a ctl) \<Rightarrow> bool \<Rightarrow> pystr \<Rightarrow> pystr \<Rightarrow> coordinator \<times> 'a \<Rightarrow>
   control_error option \<times> coordinator \<times> 'a" where
  "mark_turn_terminal resume whole turn_id status w =
     (case w of (co, a) \<Rightarrow>
        if co_state co = RCommitted \<or> \<not> pending_is turn_id co then (None, w)
        else if status \<noteq> lit ''completed''
        then restart_cancel resume (lit ''restart caller turn ended as '' @ status) w
        else commit_if_ready resume whole
               (co\<lparr>co_turn_completed := True, co_state := RWaitingDelivery\<rparr>, a))"

definition mark_delivered ::
  "(pystr \<Rightarrow> 'a \<Rightarrow> 'a ctl) \<Rightarrow> bool \<Rightarrow> pystr \<Rightarrow> coordinator \<times> 'a \<Rightarrow> control_error option \<times> coordinator \<times> 'a" where
  "mark_delivered resume whole turn_id w =
     (case w of (co, a) \<Rightarrow>
        if co_state co = RCommitted \<or> \<not> pending_is turn_id co then (None, w)
        else commit_if_ready resume whole (co\<lparr>co_delivered := True\<rparr>, a))"

definition mark_delivery_failed ::
  "(pystr \<Rightarrow> 'a \<Rightarrow> 'a ctl) \<Rightarrow> pystr \<Rightarrow> pystr \<Rightarrow> coordinator \<times> 'a \<Rightarrow> control_error option \<times> coordinator \<times> 'a" where
  "mark_delivery_failed resume turn_id reason w =
     (case w of (co, a) \<Rightarrow>
        if co_state co = RCommitted \<or> \<not> pending_is turn_id co then (None, w)
        else restart_cancel resume (lit ''restart response delivery failed: '' @ reason) w)"

text \<open>The watchdog of request \<open>request_id\<close> wakes up; a cancelled one never does.\<close>

definition delivery_watchdog ::
  "(pystr \<Rightarrow> 'a \<Rightarrow> 'a ctl) \<Rightarrow> pystr \<Rightarrow> coordinator \<times> 'a \<Rightarrow> control_error option \<times> coordinator \<times> 'a" where
  "delivery_watchdog resume request_id w =
     (case w of (co, a) \<Rightarrow>
        if co_watchdog co \<noteq> Some request_id then (None, w)
        else
          (case co_pending co of
             None \<Rightarrow> (None, w)
           | Some p \<Rightarrow>
               if rq_id p \<noteq> request_id then (None, w)
               else restart_cancel resume
                      (lit ''delivery acknowledgement timed out after '' @ co_timeout_text co @ lit ''s'') w))"

text \<open>\<open>None\<close>: still waiting.\<close>

definition wait_committed :: "coordinator \<Rightarrow> restart_request ctl option" where
  "wait_committed co =
     (if \<not> co_committed_event co then None
      else Some (case co_pending co of
        Some p \<Rightarrow> if co_state co = RCommitted then Inr p
                  else Inl (CtlRuntimeError (lit ''restart committed event '' @ [32570, 23569, 27491, 24335, 35831, 27714]))
      | None \<Rightarrow> Inl (CtlRuntimeError (lit ''restart committed event '' @ [32570, 23569, 27491, 24335, 35831, 27714]))))"

section \<open>The supervisor\<close>

text \<open>\<open>str (x or "")\<close>, where \<open>repr\<close> is Python's text of a list or dict.\<close>

fun str_or_empty :: "(json \<Rightarrow> pystr) \<Rightarrow> json option \<Rightarrow> pystr" where
  "str_or_empty repr None = []"
| "str_or_empty repr (Some JNull) = []"
| "str_or_empty repr (Some (JBool b)) = (if b then lit ''True'' else [])"
| "str_or_empty repr (Some (JInt i)) = (if i = 0 then [] else int_text i)"
| "str_or_empty repr (Some (JStr s)) = s"
| "str_or_empty repr (Some (JArr xs)) = (if xs = [] then [] else repr (JArr xs))"
| "str_or_empty repr (Some (JObj d)) = (if d = [] then [] else repr (JObj d))"

text \<open>\<open>secrets.compare_digest\<close> refuses texts outside ASCII.\<close>

definition compare_digest :: "pystr \<Rightarrow> pystr \<Rightarrow> bool ctl" where
  "compare_digest a b =
     (if \<exists>c \<in> set a \<union> set b. 128 \<le> c
      then Inl (CtlTypeError (lit ''comparing strings with non-ASCII characters is not supported''))
      else Inr (a = b))"

definition pipe_lines :: "pipe \<Rightarrow> json option list" where
  "pipe_lines p = pi_lines p @ (if pi_torn p then [None] else [])"

definition valid_commit :: "(json \<Rightarrow> pystr) \<Rightarrow> json option list \<Rightarrow> pystr \<Rightarrow> pystr \<Rightarrow> bool ctl" where
  "valid_commit repr lines boot_id nonce =
     (case lines of
        [Some (JObj frame)] \<Rightarrow>
          if map_of frame (lit ''type'') = Some (JStr (lit ''restart_commit'')) \<and>
             map_of frame (lit ''bootId'') = Some (JStr boot_id)
          then (case compare_digest (str_or_empty repr (map_of frame (lit ''nonce''))) nonce of
                  Inl e \<Rightarrow> Inl e
                | Inr same \<Rightarrow>
                    Inr (same \<and> prefix (lit ''restart_'') (str_or_empty repr (map_of frame (lit ''requestId'')))))
          else Inr False
      | _ \<Rightarrow> Inr False)"

text \<open>The readiness file: \<open>None\<close> when it is missing or cannot be decoded.\<close>

definition matches_readiness :: "json option \<Rightarrow> pystr \<Rightarrow> int \<Rightarrow> bool" where
  "matches_readiness payload boot_id pid =
     (case payload of
        Some (JObj d) \<Rightarrow>
          map_of d (lit ''bootId'') = Some (JStr boot_id) \<and> map_of d (lit ''pid'') = Some (JInt pid) \<and>
          map_of d (lit ''state'') = Some (JStr (lit ''ready'')) \<and>
          (\<forall>(k, v) \<in> set d. k \<in> {lit ''bootId'', lit ''pid'', lit ''state''})
      | _ \<Rightarrow> False)"

text \<open>The polls while the child lives: what the readiness file holds and whether the deadline has
  passed.  \<open>None\<close>: the child was not ready in time.\<close>

fun poll_ready :: "pystr \<Rightarrow> int \<Rightarrow> bool \<Rightarrow> (json option \<times> bool) list \<Rightarrow> bool option" where
  "poll_ready boot_id pid ready [] = Some ready"
| "poll_ready boot_id pid ready ((payload, late) # ps) =
     (let r = ready \<or> matches_readiness payload boot_id pid
      in if \<not> r \<and> late then None else poll_ready boot_id pid r ps)"

record child_result =
  cx_exit_code :: int
  cx_ready :: bool
  cx_commit_valid :: bool

definition supervisor_failure :: int where
  "supervisor_failure = 70"

definition restart_exit_code :: int where
  "restart_exit_code = 75"

definition wait_child ::
  "(json \<Rightarrow> pystr) \<Rightarrow> pystr \<Rightarrow> pystr \<Rightarrow> int \<Rightarrow> (json option \<times> bool) list \<Rightarrow> json option \<Rightarrow> int \<Rightarrow> pipe \<Rightarrow>
   child_result ctl" where
  "wait_child repr boot_id nonce pid polls last_payload returncode p =
     (case poll_ready boot_id pid False polls of
        None \<Rightarrow> Inr \<lparr>cx_exit_code = supervisor_failure, cx_ready = False, cx_commit_valid = False\<rparr>
      | Some ready \<Rightarrow>
          (case valid_commit repr (pipe_lines p) boot_id nonce of
             Inl e \<Rightarrow> Inl e
           | Inr v \<Rightarrow> Inr \<lparr>cx_exit_code = returncode,
                           cx_ready = (ready \<or> matches_readiness last_payload boot_id pid),
                           cx_commit_valid = v\<rparr>))"

definition portable_exit_code :: "int \<Rightarrow> int" where
  "portable_exit_code code = (if 0 \<le> code then code else 128 + \<bar>code\<bar>)"

text \<open>One child process each: a stop signal came before it was there, or it ended, possibly after a
  stop signal.  \<open>None\<close>: another child is started.\<close>

datatype generation_end = StoppedBeforeSpawn | ChildEnded bool child_result

fun run_supervisor :: "generation_end list \<Rightarrow> int option" where
  "run_supervisor [] = None"
| "run_supervisor (StoppedBeforeSpawn # rest) = Some 0"
| "run_supervisor (ChildEnded stopping r # rest) =
     (if stopping then Some 0
      else if cx_exit_code r \<noteq> restart_exit_code then Some (portable_exit_code (cx_exit_code r))
      else if \<not> cx_ready r \<or> \<not> cx_commit_valid r then Some supervisor_failure
      else run_supervisor rest)"

end
