(* ===== verification/ControlRuntime.thy ===== *)
theory ControlRuntime
  imports Restart "HOL-Library.AList"
begin

text \<open>
  The conversation runtime of \<open>src/agent/control/runtime.py\<close>, composed with the turn store and the
  restart coordinator.  The coroutine of a turn is a frame; the code between two \<open>await\<close>s is one
  operation here, so every interleaving of turns, subscribers and interrupts is a sequence of
  operations.  The executor is outside: it publishes items while it executes, and it returns,
  raises or is cancelled.  Subscriber queues live at addresses; an event carries the record or item
  whose \<open>to_dict\<close> it sends, and not its time stamp, which nothing reads.
\<close>

section \<open>Requests, results and events\<close>

record turn_request =
  tq_thread_id :: pystr
  tq_input :: pystr
  tq_metadata :: pydict

record turn_result =
  ts_id :: pystr
  ts_thread_id :: pystr
  ts_status :: turn_status
  ts_started_at :: "instant option"
  ts_completed_at :: "instant option"
  ts_final_response :: "pystr option"
  ts_items :: "turn_item list"
  ts_usage :: "turn_usage option"
  ts_error :: "turn_error option"

definition result_of :: "turn_record \<Rightarrow> turn_result" where
  "result_of r =
     \<lparr>ts_id = tr_id r, ts_thread_id = tr_thread_id r, ts_status = tr_status r,
      ts_started_at = tr_started_at r, ts_completed_at = tr_completed_at r,
      ts_final_response = tr_final_response r, ts_items = tr_items r, ts_usage = tr_usage r,
      ts_error = tr_error r\<rparr>"

definition duration_ms :: "turn_result \<Rightarrow> int option" where
  "duration_ms r =
     (case (ts_started_at r, ts_completed_at r) of
        (Some a, Some b) \<Rightarrow> Some (max 0 (if a \<le> b then (b - a) div 1000 else - ((a - b) div 1000)))
      | _ \<Rightarrow> None)"

record execution_result =
  ex_response :: pystr
  ex_items :: "turn_item list"
  ex_deltas :: "pystr list"
  ex_usage :: "turn_usage option"
  ex_assistant_data :: pydict

datatype event_data = TurnData turn_record | ItemData turn_item | DeltaData pystr pystr nat

record turn_event =
  tv_method :: pystr
  tv_thread_id :: pystr
  tv_turn_id :: pystr
  tv_data :: event_data

abbreviation turn_event_of :: "string \<Rightarrow> pystr \<Rightarrow> pystr \<Rightarrow> event_data \<Rightarrow> turn_event" where
  "turn_event_of method thread turn data \<equiv>
     \<lparr>tv_method = lit method, tv_thread_id = thread, tv_turn_id = turn, tv_data = data\<rparr>"

datatype stream_value = SEvent turn_event | SError control_error | SEnd

datatype stream_outcome = StreamEnded | StreamFailed control_error

record stream =
  sq_turn :: pystr
  sq_items :: "stream_value list"
  sq_yielded :: "turn_event list"
  sq_outcome :: "stream_outcome option"

datatype turn_future = Pending | Settled turn_result | Broken control_error

datatype run_stage = Unstarted | WaitingAdmission | Executing

record run_frame =
  rf_request :: turn_request
  rf_stage :: run_stage
  rf_items :: "turn_item list"
  rf_observed :: "(pystr \<times> turn_item) list"
  rf_open :: "pystr list"
  rf_live :: "pystr list"

record conv_runtime =
  rt_store :: control_db
  rt_queue_size :: nat
  rt_active :: "pystr \<rightharpoonup> pystr"
  rt_busy :: "pystr list"
  rt_tasks :: "pystr list"
  rt_results :: "pystr \<rightharpoonup> turn_future"
  rt_history :: "pystr \<rightharpoonup> turn_event list"
  rt_subs :: "pystr \<Rightarrow> nat list"
  rt_streams :: "nat \<rightharpoonup> stream"
  rt_next_stream :: nat
  rt_interrupts :: "pystr list"
  rt_closed :: bool
  rt_accepting :: bool
  rt_owner :: "pystr option"
  rt_admission :: "pystr option"
  rt_frames :: "pystr \<rightharpoonup> run_frame"
  rt_cancelling :: "pystr list"

type_synonym plane = "coordinator option \<times> conv_runtime"

definition new_runtime :: "nat \<Rightarrow> control_db \<Rightarrow> conv_runtime ctl" where
  "new_runtime cap db =
     (if cap < 2 then Inl (CtlValueError (lit ''subscriber_queue_size '' @ [24517, 39035, 33267, 23569, 20026] @ lit '' 2''))
      else Inr \<lparr>rt_store = db, rt_queue_size = cap, rt_active = Map.empty, rt_busy = [], rt_tasks = [],
                rt_results = Map.empty, rt_history = Map.empty, rt_subs = (\<lambda>_. []), rt_streams = Map.empty,
                rt_next_stream = 0, rt_interrupts = [], rt_closed = False, rt_accepting = True, rt_owner = None,
                rt_admission = None, rt_frames = Map.empty, rt_cancelling = []\<rparr>)"

section \<open>Event streams\<close>

definition history_of :: "conv_runtime \<Rightarrow> pystr \<Rightarrow> turn_event list" where
  "history_of rt t = (case rt_history rt t of None \<Rightarrow> [] | Some h \<Rightarrow> h)"

definition slow_consumer :: "pystr \<Rightarrow> control_error" where
  "slow_consumer turn_id = SlowConsumerError (lit ''turn event consumer too slow: '' @ turn_id)"

text \<open>\<open>put_nowait\<close>, and what the runtime does when the queue is full: drop everything for an error.\<close>

definition queue_full :: "nat \<Rightarrow> stream \<Rightarrow> bool" where
  "queue_full cap q \<longleftrightarrow> cap \<le> length (sq_items q)"

definition offer :: "nat \<Rightarrow> pystr \<Rightarrow> stream_value \<Rightarrow> stream \<Rightarrow> stream" where
  "offer cap turn_id v q =
     (if queue_full cap q then q\<lparr>sq_items := [SError (slow_consumer turn_id)]\<rparr>
      else q\<lparr>sq_items := sq_items q @ [v]\<rparr>)"

definition to_subscribers :: "pystr \<Rightarrow> (stream \<Rightarrow> stream) \<Rightarrow> conv_runtime \<Rightarrow> conv_runtime" where
  "to_subscribers turn_id f rt =
     rt\<lparr>rt_streams := (\<lambda>a. if a \<in> set (rt_subs rt turn_id) then map_option f (rt_streams rt a)
                          else rt_streams rt a)\<rparr>"

definition overflown :: "conv_runtime \<Rightarrow> nat \<Rightarrow> bool" where
  "overflown rt a = (case rt_streams rt a of None \<Rightarrow> False | Some q \<Rightarrow> queue_full (rt_queue_size rt) q)"

definition publish_event :: "turn_event \<Rightarrow> conv_runtime \<Rightarrow> conv_runtime" where
  "publish_event ev rt =
     (let t = tv_turn_id ev;
          rt1 = to_subscribers t (offer (rt_queue_size rt) t (SEvent ev)) rt
      in rt1\<lparr>rt_history := (rt_history rt)(t \<mapsto> history_of rt t @ [ev]),
             rt_subs := (rt_subs rt)(t := filter (\<lambda>a. \<not> overflown rt a) (rt_subs rt t))\<rparr>)"

definition finish_streams :: "pystr \<Rightarrow> conv_runtime \<Rightarrow> conv_runtime" where
  "finish_streams turn_id rt = to_subscribers turn_id (offer (rt_queue_size rt) turn_id SEnd) rt"

definition fail_streams :: "pystr \<Rightarrow> control_error \<Rightarrow> conv_runtime \<Rightarrow> conv_runtime" where
  "fail_streams turn_id e rt = to_subscribers turn_id (\<lambda>q. q\<lparr>sq_items := [SError e]\<rparr>) rt"

definition runtime_read_turn :: "pystr \<Rightarrow> pystr \<Rightarrow> conv_runtime \<Rightarrow> turn_record ctl" where
  "runtime_read_turn thread_id turn_id rt =
     (let missing = TurnNotFoundError (lit ''turn '' @ [19981, 23384, 22312] @ lit '': '' @ thread_id @ lit ''/'' @ turn_id)
      in case read_turn turn_id (rt_store rt) of
           Inl e \<Rightarrow> Inl e
         | Inr None \<Rightarrow> Inl missing
         | Inr (Some r) \<Rightarrow> if tr_thread_id r \<noteq> thread_id then Inl missing else Inr r)"

text \<open>The address of the new stream; \<open>None\<close> when the generator ends at once.\<close>

definition subscribe :: "pystr \<Rightarrow> pystr \<Rightarrow> conv_runtime \<Rightarrow> nat option ctl \<times> conv_runtime" where
  "subscribe thread_id turn_id rt =
     (case runtime_read_turn thread_id turn_id rt of
        Inl e \<Rightarrow> (Inl e, rt)
      | Inr r \<Rightarrow>
          (case rt_history rt turn_id of
             None \<Rightarrow>
               if status_terminal (tr_status r) then (Inr None, rt)
               else (Inl (TurnNotFoundError (lit ''turn '' @ [19981, 22312, 24403, 21069] @ lit '' runtime: '' @ thread_id @ lit ''/'' @ turn_id)), rt)
           | Some h \<Rightarrow>
               (let vs = map SEvent h @ (if status_terminal (tr_status r) then [SEnd] else []);
                    a = rt_next_stream rt
                in if rt_queue_size rt < length vs then (Inl QueueFull, rt)
                   else (Inr (Some a),
                         rt\<lparr>rt_streams := (rt_streams rt)(a \<mapsto> \<lparr>sq_turn = turn_id, sq_items = vs,
                              sq_yielded = [], sq_outcome = None\<rparr>),
                            rt_next_stream := a + 1,
                            rt_subs := (if status_terminal (tr_status r) then rt_subs rt
                              else (rt_subs rt)(turn_id := rt_subs rt turn_id @ [a]))\<rparr>))))"

text \<open>The consumer takes one value; a value that ends its loop also leaves the subscribers.\<close>

definition next_value :: "nat \<Rightarrow> conv_runtime \<Rightarrow> conv_runtime" where
  "next_value a rt =
     (case rt_streams rt a of
        None \<Rightarrow> rt
      | Some q \<Rightarrow>
          if sq_outcome q \<noteq> None then rt
          else
            (case sq_items q of
               [] \<Rightarrow> rt
             | SEvent ev # vs \<Rightarrow>
                 rt\<lparr>rt_streams := (rt_streams rt)(a \<mapsto> q\<lparr>sq_items := vs, sq_yielded := sq_yielded q @ [ev]\<rparr>)\<rparr>
             | SError e # vs \<Rightarrow>
                 rt\<lparr>rt_streams := (rt_streams rt)(a \<mapsto> q\<lparr>sq_items := vs, sq_outcome := Some (StreamFailed e)\<rparr>),
                    rt_subs := (rt_subs rt)(sq_turn q := filter (\<lambda>b. b \<noteq> a) (rt_subs rt (sq_turn q)))\<rparr>
             | SEnd # vs \<Rightarrow>
                 rt\<lparr>rt_streams := (rt_streams rt)(a \<mapsto> q\<lparr>sq_items := vs, sq_outcome := Some StreamEnded\<rparr>),
                    rt_subs := (rt_subs rt)(sq_turn q := filter (\<lambda>b. b \<noteq> a) (rt_subs rt (sq_turn q)))\<rparr>))"

section \<open>Restart admission\<close>

definition quiesce_for_restart :: "pystr \<Rightarrow> conv_runtime \<Rightarrow> conv_runtime ctl" where
  "quiesce_for_restart caller rt =
     (if caller \<notin> set (rt_tasks rt)
      then Inl (RuntimeClosedError (lit ''restart caller turn '' @ [19981, 22312, 24403, 21069] @ lit '' runtime: '' @ caller))
      else if \<exists>t \<in> set (rt_tasks rt). t \<noteq> caller
      then Inl (RuntimeClosedError ([20173, 26377, 20854, 20182] @ lit '' turn '' @ [31561, 24453, 25110, 25191, 34892, 65292, 25298, 32477, 37325, 21551] @ lit '': '' @
             list_text (sort (filter (\<lambda>t. t \<noteq> caller) (rt_tasks rt)))))
      else if \<not> rt_accepting rt
      then (if rt_owner rt = Some caller then Inr rt
            else Inl (RuntimeClosedError (lit ''conversation runtime '' @ [24050, 22312, 25490, 31354])))
      else Inr (rt\<lparr>rt_accepting := False, rt_owner := Some caller\<rparr>))"

definition resume_after_restart_cancel :: "pystr \<Rightarrow> conv_runtime \<Rightarrow> conv_runtime ctl" where
  "resume_after_restart_cancel caller rt =
     (if rt_owner rt \<noteq> Some caller
      then Inl (CtlRuntimeError (lit ''restart admission owner '' @ [19981, 21305, 37197] @ lit '': '' @ caller))
      else Inr (rt\<lparr>rt_owner := None, rt_accepting := (rt_accepting rt \<or> \<not> rt_closed rt)\<rparr>))"

section \<open>Starting a turn\<close>

text \<open>A turn handle is the pair of its thread and turn ids.\<close>

definition start_turn :: "turn_request \<Rightarrow> pystr \<Rightarrow> pystr \<Rightarrow> instant \<Rightarrow> conv_runtime \<Rightarrow> (pystr \<times> pystr) ctl \<times> conv_runtime" where
  "start_turn req turn_id item_id now rt =
     (let th = tq_thread_id req;
          user_item = \<lparr>ti_kind = UserMessage, ti_id = item_id, ti_data = [(lit ''content'', JStr (tq_input req))]\<rparr>
      in if rt_closed rt \<or> \<not> rt_accepting rt
         then (Inl (RuntimeClosedError (lit ''conversation runtime is shutting down'')), rt)
         else if rt_active rt th \<noteq> None
         then (Inl (ThreadBusyError (lit ''thread '' @ [24050, 26377] @ lit '' active turn: '' @ th)), rt)
         else
           (case create_turn \<lparr>tr_id = turn_id, tr_thread_id = th, tr_status = TQueued, tr_input = tq_input req,
                   tr_metadata = tq_metadata req, tr_items = [user_item], tr_usage = None, tr_error = None,
                   tr_created_at = now, tr_started_at = None, tr_completed_at = None,
                   tr_final_response = None\<rparr> (rt_store rt) of
              (Inl e, db) \<Rightarrow> (Inl e, rt\<lparr>rt_store := db\<rparr>)
            | (Inr r, db) \<Rightarrow>
                (let rt1 = rt\<lparr>rt_store := db, rt_active := (rt_active rt)(th \<mapsto> turn_id),
                              rt_busy := th # rt_busy rt, rt_results := (rt_results rt)(turn_id \<mapsto> Pending),
                              rt_history := (rt_history rt)(turn_id \<mapsto> []), rt_subs := (rt_subs rt)(turn_id := [])\<rparr>;
                     rt2 = publish_event (turn_event_of ''turn/queued'' th turn_id (TurnData r)) rt1;
                     rt3 = publish_event (turn_event_of ''item/started'' th turn_id (ItemData user_item)) rt2;
                     rt4 = publish_event (turn_event_of ''item/completed'' th turn_id (ItemData user_item)) rt3
                 in (Inr (th, turn_id),
                     rt4\<lparr>rt_tasks := rt_tasks rt4 @ [turn_id],
                         rt_frames := (rt_frames rt4)(turn_id \<mapsto>
                           \<lparr>rf_request = req, rf_stage = Unstarted, rf_items = [], rf_observed = [],
                            rf_open = [], rf_live = []\<rparr>)\<rparr>))))"

section \<open>The end of a turn\<close>

text \<open>\<open>type (exc).__name__\<close>, \<open>str (exc)\<close> and the \<open>retryable\<close> attribute of an exception.\<close>

fun error_parts :: "control_error \<Rightarrow> pystr \<times> pystr \<times> bool" where
  "error_parts (TurnStateTransitionError m) = (lit ''TurnStateTransitionError'', m, False)"
| "error_parts (TurnNotFoundError m) = (lit ''TurnNotFoundError'', m, False)"
| "error_parts (CtlValueError m) = (lit ''ValueError'', m, False)"
| "error_parts (CtlRuntimeError m) = (lit ''RuntimeError'', m, False)"
| "error_parts CtlIntegrityError = (lit ''IntegrityError'', lit ''UNIQUE constraint failed: turns.id'', False)"
| "error_parts (CtlTypeError m) = (lit ''TypeError'', m, False)"
| "error_parts CtlOSError = (lit ''OSError'', [], False)"
| "error_parts (RestartRejectedError m) = (lit ''RestartRejectedError'', m, False)"
| "error_parts (RuntimeClosedError m) = (lit ''RuntimeClosedError'', m, False)"
| "error_parts (ThreadBusyError m) = (lit ''ThreadBusyError'', m, False)"
| "error_parts (SlowConsumerError m) = (lit ''SlowConsumerError'', m, False)"
| "error_parts QueueFull = (lit ''QueueFull'', [], False)"
| "error_parts (ControlExecutionError t m r) = (t, m, r)"

text \<open>\<open>future.set_result\<close> and \<open>set_exception\<close>, unless the future is done.\<close>

definition settle_future :: "pystr \<Rightarrow> turn_future \<Rightarrow> conv_runtime \<Rightarrow> conv_runtime" where
  "settle_future turn_id v rt =
     (if rt_results rt turn_id = Some Pending then rt\<lparr>rt_results := (rt_results rt)(turn_id \<mapsto> v)\<rparr> else rt)"

definition release_thread :: "pystr \<Rightarrow> conv_runtime \<Rightarrow> conv_runtime" where
  "release_thread th rt =
     rt\<lparr>rt_active := (rt_active rt)(th := None), rt_busy := filter (\<lambda>k. k \<noteq> th) (rt_busy rt)\<rparr>"

definition drop_task :: "pystr \<Rightarrow> conv_runtime \<Rightarrow> conv_runtime" where
  "drop_task turn_id rt = rt\<lparr>rt_tasks := filter (\<lambda>t. t \<noteq> turn_id) (rt_tasks rt)\<rparr>"

text \<open>The coroutine ends: its frame goes, and with it a cancellation that was on its way.\<close>

definition end_frame :: "pystr \<Rightarrow> conv_runtime \<Rightarrow> conv_runtime" where
  "end_frame turn_id rt =
     rt\<lparr>rt_frames := (rt_frames rt)(turn_id := None),
        rt_cancelling := filter (\<lambda>t. t \<noteq> turn_id) (rt_cancelling rt)\<rparr>"

definition complete_turn :: "pystr \<Rightarrow> turn_record \<Rightarrow> conv_runtime \<Rightarrow> conv_runtime" where
  "complete_turn th r rt =
     finish_streams (tr_id r) (settle_future (tr_id r) (Settled (result_of r))
       (publish_event (turn_event_of ''turn/completed'' th (tr_id r) (TurnData r)) rt))"

text \<open>The \<open>finally\<close> block of \<open>_run\<close>: \<open>Inl\<close> is no terminal record, with the fatal error if there is
  one.  An exception of the coordinator leaves the rest of the block out.\<close>

definition run_finally ::
  "bool \<Rightarrow> pystr \<Rightarrow> pystr \<Rightarrow> control_error option + turn_record \<Rightarrow> plane \<Rightarrow> plane" where
  "run_finally whole th turn_id terminal w =
     (case w of (co, rt) \<Rightarrow>
        (case terminal of
           Inl fatal \<Rightarrow>
             (let e = (case fatal of None \<Rightarrow> CtlRuntimeError (lit ''turn '' @ [26410, 24314, 31435, 32456, 24577] @ lit '': '' @ turn_id)
                       | Some e \<Rightarrow> e);
                  rt1 = fail_streams turn_id e (settle_future turn_id (Broken e) rt)
              in (co, end_frame turn_id ((drop_task turn_id (release_thread th rt1))
                        \<lparr>rt_interrupts := filter (\<lambda>t. t \<noteq> turn_id) (rt_interrupts rt1)\<rparr>)))
         | Inr r \<Rightarrow>
             (case (case co of None \<Rightarrow> (None, None, rt)
                    | Some c \<Rightarrow>
                        (case mark_turn_terminal resume_after_restart_cancel whole turn_id
                                (status_text (tr_status r)) (c, rt) of
                           (e, c1, rt1) \<Rightarrow> (e, Some c1, rt1))) of
                (Some e, co1, rt1) \<Rightarrow> (co1, end_frame turn_id rt1)
              | (None, co1, rt1) \<Rightarrow>
                  (let rt2 = complete_turn th r rt1
                   in (co1, end_frame turn_id ((drop_task turn_id (release_thread th rt2))
                        \<lparr>rt_interrupts := filter (\<lambda>t. t \<noteq> turn_id) (rt_interrupts rt2)\<rparr>))))))"

section \<open>Running a turn\<close>

definition plain_patch :: turn_patch where
  "plain_patch = \<lparr>tp_items = None, tp_usage = None, tp_error = None, tp_final_response = None\<rparr>"

definition put_frame :: "pystr \<Rightarrow> run_frame \<Rightarrow> conv_runtime \<Rightarrow> conv_runtime" where
  "put_frame turn_id f rt = rt\<lparr>rt_frames := (rt_frames rt)(turn_id \<mapsto> f)\<rparr>"

text \<open>\<open>close_observed_items\<close>: every item still open is closed with the status of the turn.\<close>

fun close_items :: "pystr \<Rightarrow> pystr \<Rightarrow> pystr \<Rightarrow> pystr list \<Rightarrow> (pystr \<times> turn_item) list \<Rightarrow> conv_runtime \<Rightarrow>
    (pystr \<times> turn_item) list \<times> conv_runtime" where
  "close_items th turn_id status [] observed rt = (observed, rt)"
| "close_items th turn_id status (i # is') observed rt =
     (case map_of observed i of
        None \<Rightarrow> close_items th turn_id status is' observed rt
      | Some item \<Rightarrow>
          (let closed = item\<lparr>ti_data := dict_set (lit ''status'') (JStr status) (ti_data item)\<rparr>
           in close_items th turn_id status is' (AList.update i closed observed)
                (publish_event (turn_event_of ''item/completed'' th turn_id (ItemData closed)) rt)))"

definition release_admission :: "pystr \<Rightarrow> conv_runtime \<Rightarrow> conv_runtime" where
  "release_admission turn_id rt =
     (if rt_admission rt = Some turn_id then rt\<lparr>rt_admission := None\<rparr> else rt)"

text \<open>The handler of an exception of the turn.\<close>

definition run_failed :: "bool \<Rightarrow> instant \<Rightarrow> pystr \<Rightarrow> run_frame \<Rightarrow> control_error \<Rightarrow> plane \<Rightarrow> plane" where
  "run_failed whole now turn_id f exc w =
     (case w of (co, rt0) \<Rightarrow>
        (let th = tq_thread_id (rf_request f); rt = release_admission turn_id rt0
         in case read_turn turn_id (rt_store rt) of
              Inl e \<Rightarrow> run_finally whole th turn_id (Inl None) (co, rt)
            | Inr None \<Rightarrow> run_finally whole th turn_id (Inl (Some exc)) (co, rt)
            | Inr (Some cur) \<Rightarrow>
                if tr_status cur \<noteq> TInProgress then run_finally whole th turn_id (Inl (Some exc)) (co, rt)
                else
                  (case close_items th turn_id (status_text TFailed) (rf_open f) (rf_observed f) rt of
                     (observed, rt1) \<Rightarrow>
                       (case error_parts exc of (ty, msg, retry) \<Rightarrow>
                          (case transition_turn turn_id TInProgress TFailed (Some th)
                                  (plain_patch\<lparr>tp_items := Some (tr_items cur @ map snd observed),
                                     tp_error := Some \<lparr>te_type = ty, te_message = msg, te_retryable = retry,
                                                       te_data = None\<rparr>\<rparr>) now (rt_store rt1) of
                             (Inl e, db) \<Rightarrow> run_finally whole th turn_id (Inl None) (co, rt1\<lparr>rt_store := db\<rparr>)
                           | (Inr r, db) \<Rightarrow> run_finally whole th turn_id (Inr r) (co, rt1\<lparr>rt_store := db\<rparr>))))))"

text \<open>The handler of \<open>CancelledError\<close>.\<close>

definition run_cancelled :: "bool \<Rightarrow> instant \<Rightarrow> pystr \<Rightarrow> run_frame \<Rightarrow> plane \<Rightarrow> plane" where
  "run_cancelled whole now turn_id f w =
     (case w of (co, rt0) \<Rightarrow>
        (let th = tq_thread_id (rf_request f); rt = release_admission turn_id rt0
         in case read_turn turn_id (rt_store rt) of
              Inl e \<Rightarrow> run_finally whole th turn_id (Inl None) (co, rt)
            | Inr None \<Rightarrow> run_finally whole th turn_id (Inl None) (co, rt)
            | Inr (Some cur) \<Rightarrow>
                if status_terminal (tr_status cur) then run_finally whole th turn_id (Inr cur) (co, rt)
                else
                  (let st = (if tr_status cur = TInProgress \<and> turn_id \<in> set (rt_interrupts rt)
                             then TInterrupted else TCancelled)
                   in case close_items th turn_id (status_text st) (rf_open f) (rf_observed f) rt of
                        (observed, rt1) \<Rightarrow>
                          (case transition_turn turn_id (tr_status cur) st (Some th)
                                  (plain_patch\<lparr>tp_items := Some (tr_items cur @ map snd observed)\<rparr>) now
                                  (rt_store rt1) of
                             (Inl e, db) \<Rightarrow> run_finally whole th turn_id (Inl None) (co, rt1\<lparr>rt_store := db\<rparr>)
                           | (Inr r, db) \<Rightarrow> run_finally whole th turn_id (Inr r) (co, rt1\<lparr>rt_store := db\<rparr>)))))"

text \<open>The task first runs: it waits for the global admission.\<close>

definition run_first_step :: "pystr \<Rightarrow> run_frame \<Rightarrow> plane \<Rightarrow> plane" where
  "run_first_step turn_id f w =
     (case w of (co, rt) \<Rightarrow> (co, put_frame turn_id (f\<lparr>rf_stage := WaitingAdmission\<rparr>) rt))"

text \<open>It gets the admission and starts the executor.\<close>

definition run_admitted :: "bool \<Rightarrow> instant \<Rightarrow> instant \<Rightarrow> pystr \<Rightarrow> run_frame \<Rightarrow> plane \<Rightarrow> plane" where
  "run_admitted whole now now' turn_id f w =
     (case w of (co, rt0) \<Rightarrow>
        (let th = tq_thread_id (rf_request f); rt = rt0\<lparr>rt_admission := Some turn_id\<rparr>
         in case transition_turn turn_id TQueued TInProgress (Some th) plain_patch now (rt_store rt) of
              (Inl e, db) \<Rightarrow> run_failed whole now' turn_id f e (co, rt\<lparr>rt_store := db\<rparr>)
            | (Inr r, db) \<Rightarrow>
                (co, put_frame turn_id (f\<lparr>rf_stage := Executing, rf_items := tr_items r\<rparr>)
                       (publish_event (turn_event_of ''turn/started'' th turn_id (TurnData r))
                         (rt\<lparr>rt_store := db\<rparr>)))))"

text \<open>The callback \<open>publish_item\<close> the executor is given: the error it raises, if any.\<close>

definition publish_item :: "pystr \<Rightarrow> turn_item \<Rightarrow> pystr \<Rightarrow> run_frame \<Rightarrow> plane \<Rightarrow> control_error option \<times> plane" where
  "publish_item method item turn_id f w =
     (case w of (co, rt) \<Rightarrow>
        (let i = ti_id item; f1 = f\<lparr>rf_live := i # rf_live f\<rparr>;
             ev = \<lparr>tv_method = method, tv_thread_id = tq_thread_id (rf_request f), tv_turn_id = turn_id,
                   tv_data = ItemData item\<rparr>
         in if method = lit ''item/started''
            then (if map_of (rf_observed f) i \<noteq> None
                  then (Some (CtlValueError (lit ''item '' @ [37325, 22797] @ lit '' started: '' @ i)), co, put_frame turn_id f1 rt)
                  else (None, co, publish_event ev (put_frame turn_id
                         (f1\<lparr>rf_observed := AList.update i item (rf_observed f), rf_open := rf_open f @ [i]\<rparr>) rt)))
            else if method = lit ''item/completed''
            then (if i \<notin> set (rf_open f)
                  then (Some (CtlValueError (lit ''item '' @ [26410] @ lit '' started '' @ [21363] @ lit '' completed: '' @ i)),
                        co, put_frame turn_id f1 rt)
                  else (None, co, publish_event ev (put_frame turn_id
                         (f1\<lparr>rf_observed := AList.update i item (rf_observed f),
                             rf_open := filter (\<lambda>k. k \<noteq> i) (rf_open f)\<rparr>) rt)))
            else (Some (CtlValueError ([26410, 30693] @ lit '' control item event: '' @ method)), co, put_frame turn_id f1 rt)))"

fun publish_all :: "turn_event list \<Rightarrow> conv_runtime \<Rightarrow> conv_runtime" where
  "publish_all [] rt = rt"
| "publish_all (ev # evs) rt = publish_all evs (publish_event ev rt)"

text \<open>What the success path publishes: items not yet seen live, then the assistant message.\<close>

definition result_events :: "pystr \<Rightarrow> pystr \<Rightarrow> pystr list \<Rightarrow> execution_result \<Rightarrow> turn_item \<Rightarrow> turn_event list" where
  "result_events th turn_id live ex assistant =
     concat (map (\<lambda>item. [turn_event_of ''item/started'' th turn_id (ItemData item),
                          turn_event_of ''item/completed'' th turn_id (ItemData item)])
               (filter (\<lambda>item. ti_id item \<notin> set live) (ex_items ex))) @
     [turn_event_of ''item/started'' th turn_id (ItemData assistant)] @
     (let deltas = (if ex_deltas ex = [] then [ex_response ex] else ex_deltas ex)
      in map (\<lambda>n. turn_event_of ''item/assistantMessage/delta'' th turn_id
                    (DeltaData (ti_id assistant) (deltas ! n) n)) [0..<length deltas]) @
     [turn_event_of ''item/completed'' th turn_id (ItemData assistant)]"

definition run_returned ::
  "bool \<Rightarrow> instant \<Rightarrow> instant \<Rightarrow> pystr \<Rightarrow> execution_result \<Rightarrow> pystr \<Rightarrow> run_frame \<Rightarrow> plane \<Rightarrow> plane" where
  "run_returned whole now now' item_id ex turn_id f w =
     (case w of (co, rt) \<Rightarrow>
        (let th = tq_thread_id (rf_request f);
             assistant = \<lparr>ti_kind = AssistantMessage, ti_id = item_id,
                          ti_data = dict_update [(lit ''content'', JStr (ex_response ex))] (ex_assistant_data ex)\<rparr>
         in if rf_open f \<noteq> []
            then run_failed whole now' turn_id f
                   (CtlRuntimeError (lit ''executor '' @ [36820, 22238, 26102, 20173, 26377, 26410, 38381, 21512] @ lit '' item: '' @ list_text (sort (rf_open f)))) w
            else
              (let rt1 = publish_all (result_events th turn_id (rf_live f) ex assistant) rt
               in case transition_turn turn_id TInProgress TCompleted (Some th)
                         (plain_patch\<lparr>tp_items := Some (rf_items f @ ex_items ex @ [assistant]),
                            tp_usage := ex_usage ex, tp_final_response := Some (ex_response ex)\<rparr>) now (rt_store rt1) of
                    (Inl e, db) \<Rightarrow> run_failed whole now' turn_id f e (co, rt1\<lparr>rt_store := db\<rparr>)
                  | (Inr r, db) \<Rightarrow>
                      run_finally whole th turn_id (Inr r) (co, release_admission turn_id (rt1\<lparr>rt_store := db\<rparr>)))))"

section \<open>Interrupts and shutdown\<close>

definition request_cancel_task :: "pystr \<Rightarrow> conv_runtime \<Rightarrow> conv_runtime" where
  "request_cancel_task turn_id rt = rt\<lparr>rt_cancelling := turn_id # rt_cancelling rt\<rparr>"

text \<open>\<open>interrupt_turn\<close> up to its first \<open>await\<close>: a terminal record at once, or a cancellation requested
  (\<open>Inr None\<close>).\<close>

definition interrupt_turn :: "pystr \<Rightarrow> pystr \<Rightarrow> conv_runtime \<Rightarrow> turn_record option ctl \<times> conv_runtime" where
  "interrupt_turn thread_id turn_id rt =
     (case runtime_read_turn thread_id turn_id rt of
        Inl e \<Rightarrow> (Inl e, rt)
      | Inr r \<Rightarrow>
          if status_terminal (tr_status r) then (Inr (Some r), rt)
          else if rt_active rt thread_id \<noteq> Some turn_id
          then (Inl (TurnNotFoundError (lit ''active turn '' @ [19981, 21305, 37197] @ lit '': '' @ thread_id @ lit ''/'' @ turn_id)), rt)
          else if tr_status r = TQueued then (Inr None, request_cancel_task turn_id rt)
          else (Inr None, request_cancel_task turn_id (rt\<lparr>rt_interrupts := turn_id # rt_interrupts rt\<rparr>)))"

text \<open>The rest of it for a queued turn, once the task has ended; a task cancelled before its first
  step ends without running a line.\<close>

definition interrupt_queued :: "pystr \<Rightarrow> pystr \<Rightarrow> instant \<Rightarrow> conv_runtime \<Rightarrow> turn_record ctl \<times> conv_runtime" where
  "interrupt_queued thread_id turn_id now rt =
     (if rt_results rt turn_id \<noteq> Some Pending then (runtime_read_turn thread_id turn_id rt, rt)
      else
        (case transition_turn turn_id TQueued TCancelled (Some thread_id) plain_patch now (rt_store rt) of
           (Inl e, db) \<Rightarrow> (Inl e, rt\<lparr>rt_store := db\<rparr>)
         | (Inr r, db) \<Rightarrow>
             (Inr r, drop_task turn_id (release_thread thread_id (complete_turn thread_id r (rt\<lparr>rt_store := db\<rparr>))))))"

definition request_interrupt :: "pystr \<Rightarrow> conv_runtime \<Rightarrow> bool" where
  "request_interrupt session_key rt = (rt_active rt session_key \<noteq> None)"

definition is_thread_active :: "pystr \<Rightarrow> conv_runtime \<Rightarrow> bool" where
  "is_thread_active thread_id rt = (rt_active rt thread_id \<noteq> None)"

text \<open>\<open>None\<close>: still waiting.\<close>

definition wait_result :: "pystr \<Rightarrow> pystr \<Rightarrow> conv_runtime \<Rightarrow> turn_result ctl option" where
  "wait_result thread_id turn_id rt =
     (case runtime_read_turn thread_id turn_id rt of
        Inl e \<Rightarrow> Some (Inl e)
      | Inr r \<Rightarrow>
          if status_terminal (tr_status r) then Some (Inr (result_of r))
          else
            (case rt_results rt turn_id of
               None \<Rightarrow> Some (Inl (TurnNotFoundError (lit ''turn '' @ [19981, 22312, 24403, 21069] @ lit '' runtime: '' @ thread_id @ lit ''/'' @ turn_id)))
             | Some Pending \<Rightarrow> None
             | Some (Settled v) \<Rightarrow> Some (Inr v)
             | Some (Broken e) \<Rightarrow> Some (Inl e)))"

definition shutdown :: "conv_runtime \<Rightarrow> conv_runtime" where
  "shutdown rt =
     (if rt_closed rt then rt
      else rt\<lparr>rt_closed := True, rt_cancelling := rt_tasks rt @ rt_cancelling rt\<rparr>)"

end
