(* ===== verification/ControlReads.thy ===== *)
theory ControlReads
  imports ControlTurns
begin

text \<open>
  The store seen through its records: what \<open>transition_turn\<close> does to a turn whose record can be
  read, as an update of that record.
\<close>

section \<open>Rows of readable records\<close>

text \<open>The record a row stands for when its JSON columns are in the form the store writes.\<close>

definition patch_ok :: "turn_patch \<Rightarrow> bool" where
  "patch_ok p \<longleftrightarrow> (case tp_items p of None \<Rightarrow> True | Some its \<Rightarrow> \<forall>i \<in> set its. ti_id i \<noteq> []) \<and>
     (case tp_usage p of None \<Rightarrow> True | Some u \<Rightarrow> usage_valid u = Inr ()) \<and>
     (case tp_error p of None \<Rightarrow> True | Some e \<Rightarrow> te_type e \<noteq> [] \<and> te_message e \<noteq> [])"

definition patch_record :: "turn_status \<Rightarrow> turn_patch \<Rightarrow> instant \<Rightarrow> turn_record \<Rightarrow> turn_record" where
  "patch_record st p now r =
     r\<lparr>tr_status := st,
       tr_started_at := (if st = TInProgress then Some now else tr_started_at r),
       tr_completed_at := (if status_terminal st then Some now else tr_completed_at r),
       tr_items := (case tp_items p of None \<Rightarrow> tr_items r | Some its \<Rightarrow> its),
       tr_usage := (case tp_usage p of None \<Rightarrow> tr_usage r | Some u \<Rightarrow> Some u),
       tr_error := (case tp_error p of None \<Rightarrow> tr_error r | Some e \<Rightarrow> Some e),
       tr_final_response := (case tp_final_response p of None \<Rightarrow> tr_final_response r | Some f \<Rightarrow> Some f)\<rparr>"

text \<open>Rows that hold a readable record exactly as it is encoded.\<close>

definition holds_record :: "pystr \<Rightarrow> turn_record \<Rightarrow> control_db \<Rightarrow> bool" where
  "holds_record i r db \<longleftrightarrow> row_by tw_id i (turns db) = Some (turn_row_of r) \<and> readable r \<and> tr_id r = i"

lemma patched_row: "patched st p now (turn_row_of r) = turn_row_of (patch_record st p now r)"
  by (simp add: patched_def turn_row_of_def patch_record_def split: option.splits)

lemma readable_patch: "readable r \<Longrightarrow> patch_ok p \<Longrightarrow> readable (patch_record st p now r)"
  by (simp add: readable_def patch_ok_def patch_record_def split: option.splits)

lemma patch_record_simps [simp]:
  "tr_id (patch_record st p now r) = tr_id r" "tr_thread_id (patch_record st p now r) = tr_thread_id r"
  "tr_status (patch_record st p now r) = st"
  by (simp_all add: patch_record_def)

lemma holds_read: "holds_record i r db \<Longrightarrow> read_turn i db = Inr (Some r)"
  by (simp add: holds_record_def read_turn_def ctl_opt_def row_roundtrip)

lemma holds_id: "holds_record i r db \<Longrightarrow> tr_id r = i"
  by (simp add: holds_record_def)

lemma holds_unique: "holds_record i r db \<Longrightarrow> holds_record i r' db \<Longrightarrow> r = r'"
  using holds_read [of i r db] holds_read [of i r' db] by simp

text \<open>A transition along the table on such a row succeeds and gives the patched record.\<close>

lemma transition_holds:
  assumes h: "holds_record i r db" and s: "turn_step (tr_status r) st" and f: "st = TFailed \<Longrightarrow> tp_error p \<noteq> None"
    and th: "th = None \<or> th = Some (tr_thread_id r)" and p: "patch_ok p"
  shows "fst (transition_turn i (tr_status r) st th p now db) = Inr (patch_record st p now r)"
    and "holds_record i (patch_record st p now r) (snd (transition_turn i (tr_status r) st th p now db))"
    and "j \<noteq> i \<Longrightarrow> row_by tw_id j (turns (snd (transition_turn i (tr_status r) st th p now db))) = row_by tw_id j (turns db)"
proof -
  let ?r = "patch_record st p now r"
  let ?db = "db\<lparr>turns := put_row tw_id (turn_row_of ?r) (turns db)\<rparr>"
  have id: "tr_id r = i" and rd: "readable ?r" and row: "row_by tw_id i (turns db) = Some (turn_row_of r)"
    using h readable_patch [OF _ p] by (simp_all add: holds_record_def)
  have rid: "tw_id (turn_row_of ?r) = i" using id by (simp add: turn_row_of_def)
  have "cas_hits (tr_status r) th (turn_row_of r)" using th by (auto simp: cas_hits_def turn_row_of_def)
  then have t: "transition_turn i (tr_status r) st th p now db =
      (reread (lit ''turn '' @ [36716, 25442, 21518, 26080, 27861, 35835, 21462] @ lit '': '') i ?db, ?db)"
  proof -
    have "\<not> (st = TFailed \<and> tp_error p = None)" using f by blast
    then show ?thesis
      using \<open>cas_hits _ _ _\<close> s row by (auto simp: transition_turn_def turn_step_def Let_def patched_row)
  qed
  have new: "holds_record i ?r ?db"
    using rd id row rid by (simp add: holds_record_def row_by_put_row)
  show "fst (transition_turn i (tr_status r) st th p now db) = Inr ?r"
    "holds_record i ?r (snd (transition_turn i (tr_status r) st th p now db))"
    using new holds_read [OF new] by (simp_all add: t reread_def)
  show "row_by tw_id j (turns (snd (transition_turn i (tr_status r) st th p now db))) = row_by tw_id j (turns db)" if "j \<noteq> i"
    using that rid by (simp add: t row_by_put_row)
qed

text \<open>With an error that has no text or no type the row can no longer be read.\<close>

lemma transition_unreadable:
  assumes h: "holds_record i r db" and s: "tr_status r = TInProgress" and th: "th = None \<or> th = Some (tr_thread_id r)"
    and e: "tp_error p = Some e" "te_type e = [] \<or> te_message e = []" and u: "tp_usage p = None"
    and its: "tp_items p = Some its" "\<forall>x \<in> set its. ti_id x \<noteq> []"
  shows "\<exists>err. transition_turn i TInProgress TFailed th p now db =
      (Inl err, snd (transition_turn i TInProgress TFailed th p now db)) \<and>
      read_turn i (snd (transition_turn i TInProgress TFailed th p now db)) = Inl err"
    and "j \<noteq> i \<Longrightarrow> row_by tw_id j (turns (snd (transition_turn i TInProgress TFailed th p now db))) = row_by tw_id j (turns db)"
proof -
  let ?r = "patch_record TFailed p now r"
  let ?db = "db\<lparr>turns := put_row tw_id (turn_row_of ?r) (turns db)\<rparr>"
  have id: "tr_id r = i" and rd: "readable r" and row: "row_by tw_id i (turns db) = Some (turn_row_of r)"
    using h by (simp_all add: holds_record_def)
  have rid: "tw_id (turn_row_of ?r) = i" using id by (simp add: turn_row_of_def)
  have "cas_hits TInProgress th (turn_row_of r)" using th s by (auto simp: cas_hits_def turn_row_of_def)
  then have t: "transition_turn i TInProgress TFailed th p now db =
      (reread (lit ''turn '' @ [36716, 25442, 21518, 26080, 27861, 35835, 21462] @ lit '': '') i ?db, ?db)"
    using e(1) row by (simp add: transition_turn_def Let_def patched_row)
  have "\<exists>err. error_from_dict (error_to_dict e) = Inl err"
    using e(2) by (cases "te_data e")
      (auto simp: error_from_dict_def error_to_dict_def error_data_def require_dict_def)
  then obtain err where err: "error_from_dict (error_to_dict e) = Inl err" by blast
  have us: "tr_usage ?r = tr_usage r" "tr_error ?r = Some e" "tr_items ?r = its"
    using e(1) u its(1) by (simp_all add: patch_record_def)
  have "ctl_opt usage_from_dict (map_option usage_to_dict (tr_usage r)) = Inr (tr_usage r)"
    using rd by (cases "tr_usage r") (simp_all add: ctl_opt_def readable_def usage_roundtrip)
  moreover have "ctl_map item_from_dict (map item_to_dict its) = Inr its"
    by (rule ctl_map_roundtrip) (use its(2) in \<open>simp add: item_roundtrip\<close>)
  ultimately have bad: "row_to_turn (turn_row_of ?r) = Inl err"
    using us err by (simp add: row_to_turn_def turn_row_of_def items_json_def ctl_opt_def del: status_text.simps)
  have new: "row_by tw_id i (turns ?db) = Some (turn_row_of ?r)" using row rid by (simp add: row_by_put_row)
  have read: "read_turn i ?db = Inl err" unfolding read_turn_def new by (simp add: ctl_opt_def bad)
  show "\<exists>err. transition_turn i TInProgress TFailed th p now db =
      (Inl err, snd (transition_turn i TInProgress TFailed th p now db)) \<and>
      read_turn i (snd (transition_turn i TInProgress TFailed th p now db)) = Inl err"
    by (rule exI [of _ err]) (simp add: t reread_def read)
  show "row_by tw_id j (turns (snd (transition_turn i TInProgress TFailed th p now db))) = row_by tw_id j (turns db)"
    if "j \<noteq> i" using that rid by (simp add: t row_by_put_row)
qed

text \<open>A new queued turn.\<close>

lemma create_holds:
  assumes "tr_status r = TQueued" "tr_started_at r = None" "tr_completed_at r = None" "tr_usage r = None"
    and "tr_error r = None" "tr_final_response r = None" "\<forall>i \<in> set (tr_items r). ti_id i \<noteq> []"
  shows "(\<exists>e. create_turn r db = (Inl e, db) \<and> row_by tw_id (tr_id r) (turns db) \<noteq> None) \<or>
    (row_by tw_id (tr_id r) (turns db) = None \<and> fst (create_turn r db) = Inr r \<and>
     holds_record (tr_id r) r (snd (create_turn r db)) \<and>
     (\<forall>j. j \<noteq> tr_id r \<longrightarrow> row_by tw_id j (turns (snd (create_turn r db))) = row_by tw_id j (turns db)))"
proof (cases "row_by tw_id (tr_id r) (turns db)")
  case (Some w)
  then show ?thesis using assms by (simp add: create_turn_def)
next
  case None
  let ?db = "db\<lparr>turns := turns db @ [turn_row_of r]\<rparr>"
  have id: "tw_id (turn_row_of r) = tr_id r" by (simp add: turn_row_of_def)
  have new: "holds_record (tr_id r) r ?db"
    using None assms id by (simp add: holds_record_def readable_def row_by_append)
  have c: "create_turn r db = (Inr r, ?db)"
    using assms None holds_read [OF new] by (simp add: create_turn_def Let_def reread_def)
  show ?thesis using None new id by (simp add: c row_by_append split: option.splits)
qed

lemma holds_frame:
  "holds_record j r db \<Longrightarrow> row_by tw_id j (turns db') = row_by tw_id j (turns db) \<Longrightarrow> holds_record j r db'"
  "row_by tw_id j (turns db') = row_by tw_id j (turns db) \<Longrightarrow> read_turn j db' = read_turn j db"
  by (simp_all add: holds_record_def read_turn_def)

end
