(* ===== verification/RestartProofs.thy ===== *)
theory RestartProofs
  imports Restart
begin

text \<open>
  What the restart coordinator keeps true, for any runtime that offers the admission contract: a
  request is pending exactly while the runtime's admission is held for its turn, the pipe carries a
  frame only once the request is committed, and the supervisor believes a pipe exactly then.
\<close>

section \<open>The admission contract\<close>

text \<open>\<open>holder a\<close> is the turn the admission is frozen for; \<open>good\<close> is the runtime's own invariant.\<close>

locale admission =
  fixes quiesce :: "pystr \<Rightarrow> 'a \<Rightarrow> 'a ctl" and resume :: "pystr \<Rightarrow> 'a \<Rightarrow> 'a ctl"
    and holder :: "'a \<Rightarrow> pystr option" and good :: "'a \<Rightarrow> bool"
  assumes quiesce_holds: "good a \<Longrightarrow> quiesce t a = Inr a' \<Longrightarrow> holder a' = Some t \<and> good a'"
    and resume_frees: "good a \<Longrightarrow> holder a = Some t \<Longrightarrow> \<exists>a'. resume t a = Inr a' \<and> holder a' = None \<and> good a'"

section \<open>The coordinator's invariant\<close>

definition request_ok :: "coordinator \<Rightarrow> restart_request \<Rightarrow> bool" where
  "request_ok co r \<longleftrightarrow> rq_boot_id r = co_boot_id co \<and> prefix (lit ''restart_'') (rq_id r) \<and> rq_turn_id r \<noteq> []"

text \<open>The channel of a supervised process speaks for this boot, with an ASCII nonce; before the commit
  no whole line was written, after it exactly one.\<close>

definition channel_ok :: "coordinator \<Rightarrow> commit_channel \<Rightarrow> bool" where
  "channel_ok co ch \<longleftrightarrow> cc_boot_id ch = co_boot_id co \<and> (\<forall>c \<in> set (cc_nonce ch). c < 128) \<and>
     (if co_state co = RCommitted
      then \<exists>r. co_pending co = Some r \<and> \<not> pi_torn (cc_pipe ch) \<and>
             (pi_lines (cc_pipe ch) = [Some (commit_frame ch r)] \<or> pi_lines (cc_pipe ch) = [None])
      else pi_lines (cc_pipe ch) = [])"

definition coordinator_ok :: "coordinator \<Rightarrow> bool" where
  "coordinator_ok co \<longleftrightarrow> (co_supervised co \<longleftrightarrow> co_commit co \<noteq> None) \<and>
     (case co_commit co of None \<Rightarrow> True | Some ch \<Rightarrow> channel_ok co ch) \<and>
     (case co_pending co of
        None \<Rightarrow> \<not> co_turn_completed co \<and> \<not> co_delivered co \<and> co_state co \<in> {RIdle, RCancelled} \<and> co_watchdog co = None
      | Some r \<Rightarrow> request_ok co r \<and> co_supervised co \<and> co_state co \<in> {RArmed, RWaitingDelivery, RCommitted} \<and>
          (co_state co = RCommitted \<longleftrightarrow> co_turn_completed co \<and> co_delivered co) \<and>
          (co_state co = RArmed \<longleftrightarrow> \<not> co_turn_completed co) \<and>
          (co_state co = RCommitted \<longrightarrow> co_watchdog co = None)) \<and>
     (co_committed_event co \<longleftrightarrow> co_state co = RCommitted)"

text \<open>The invariant without the clause that a request with both marks is committed: what holds while
  \<open>_commit_if_ready\<close> decides.\<close>

definition coordinator_pre :: "coordinator \<Rightarrow> bool" where
  "coordinator_pre co \<longleftrightarrow> (co_supervised co \<longleftrightarrow> co_commit co \<noteq> None) \<and> co_supervised co \<and>
     (case co_commit co of None \<Rightarrow> True | Some ch \<Rightarrow> channel_ok co ch) \<and>
     (\<exists>r. co_pending co = Some r \<and> request_ok co r) \<and> co_state co \<in> {RArmed, RWaitingDelivery} \<and>
     (co_state co = RArmed \<longleftrightarrow> \<not> co_turn_completed co) \<and> \<not> co_committed_event co"

lemma new_coordinator_ok:
  assumes "new_coordinator boot sv commit pos txt = Inr co"
    and "\<And>ch. commit = Some ch \<Longrightarrow> cc_boot_id ch = boot \<and> (\<forall>c \<in> set (cc_nonce ch). c < 128) \<and> cc_pipe ch = empty_pipe"
  shows "coordinator_ok co" and "co_pending co = None"
  using assms by (auto simp: new_coordinator_def coordinator_ok_def channel_ok_def empty_pipe_def
      split: if_splits option.splits)

text \<open>The supervisor's reading of the pipe.\<close>

lemma valid_commit_frame:
  assumes "\<forall>c \<in> set (cc_nonce ch). c < 128" and "prefix (lit ''restart_'') (rq_id r)"
  shows "valid_commit repr [Some (commit_frame ch r)] (cc_boot_id ch) (cc_nonce ch) = Inr True"
  using assms by (auto simp: valid_commit_def commit_frame_def compare_digest_def)

lemma supervisor_reads:
  assumes ok: "coordinator_ok co" and ch: "co_commit co = Some ch"
  shows "valid_commit repr (pipe_lines (cc_pipe ch)) (cc_boot_id ch) (cc_nonce ch) =
    Inr (co_state co = RCommitted \<and> pi_lines (cc_pipe ch) \<noteq> [None])"
proof -
  have c: "channel_ok co ch" using ok ch by (simp add: coordinator_ok_def)
  show ?thesis
  proof (cases "co_state co = RCommitted")
    case True
    then obtain r where r: "co_pending co = Some r" "\<not> pi_torn (cc_pipe ch)"
      "pi_lines (cc_pipe ch) = [Some (commit_frame ch r)] \<or> pi_lines (cc_pipe ch) = [None]"
      using c by (auto simp: channel_ok_def)
    have "request_ok co r" using ok r(1) by (simp add: coordinator_ok_def)
    then have "prefix (lit ''restart_'') (rq_id r)" by (simp add: request_ok_def)
    then show ?thesis using r True c valid_commit_frame [of ch r repr]
      by (auto simp: pipe_lines_def channel_ok_def) (simp add: valid_commit_def)
  next
    case False
    then have "pi_lines (cc_pipe ch) = []" using c by (simp add: channel_ok_def)
    then show ?thesis using False by (simp add: pipe_lines_def valid_commit_def)
  qed
qed

section \<open>Preservation\<close>

context admission
begin

definition world_ok :: "coordinator \<times> 'a \<Rightarrow> bool" where
  "world_ok w \<longleftrightarrow> good (snd w) \<and>
     (\<forall>r. co_pending (fst w) = Some r \<longrightarrow> holder (snd w) = Some (rq_turn_id r))"

lemma arm_ok:
  assumes ok: "coordinator_ok co" "world_ok (co, a)" and a: "arm quiesce t s c i why hex (co, a) = (res, co', a')"
  shows "coordinator_ok co'" and "world_ok (co', a')"
    and "co' \<noteq> co \<Longrightarrow> co_pending co = None \<and> quiesce t a = Inr a'"
    and "co' = co \<Longrightarrow> a' = a"
proof -
  have "(co' = co \<and> a' = a) \<or> (co_pending co = None \<and> co_supervised co \<and> quiesce t a = Inr a' \<and> t \<noteq> [] \<and>
      co' = co\<lparr>co_pending := Some \<lparr>rq_id = lit ''restart_'' @ hex, rq_boot_id = co_boot_id co, rq_turn_id = t,
           rq_session_key = s, rq_channel = c, rq_chat_id = i, rq_reason = strip why\<rparr>,
         co_state := RArmed, co_last_error := None, co_turn_completed := False, co_delivered := False,
         co_watchdog := Some (lit ''restart_'' @ hex)\<rparr>)"
    using a by (auto simp: arm_def Let_def split: if_splits option.splits sum.splits)
  then have "coordinator_ok co' \<and> world_ok (co', a') \<and> (co' \<noteq> co \<longrightarrow> co_pending co = None \<and> quiesce t a = Inr a') \<and>
      (co' = co \<longrightarrow> a' = a)"
  proof (elim disjE conjE)
    assume "co' = co" "a' = a"
    then show ?thesis using ok by simp
  next
    assume armed: "co_pending co = None" "co_supervised co" "quiesce t a = Inr a'" "t \<noteq> []"
      "co' = co\<lparr>co_pending := Some \<lparr>rq_id = lit ''restart_'' @ hex, rq_boot_id = co_boot_id co, rq_turn_id = t,
           rq_session_key = s, rq_channel = c, rq_chat_id = i, rq_reason = strip why\<rparr>,
         co_state := RArmed, co_last_error := None, co_turn_completed := False, co_delivered := False,
         co_watchdog := Some (lit ''restart_'' @ hex)\<rparr>"
    have "co_state co \<noteq> RCommitted" using ok(1) armed(1) by (auto simp: coordinator_ok_def)
    then have "coordinator_ok co'"
      using ok(1) armed(1,2,4) by (auto simp: armed(5) coordinator_ok_def request_ok_def channel_ok_def split: option.splits)
    moreover have "world_ok (co', a')"
      using ok(2) quiesce_holds [OF _ armed(3)] by (simp add: armed(5) world_ok_def)
    moreover have "co' \<noteq> co"
    proof
      assume "co' = co"
      then have "co_pending co' = co_pending co" by simp
      then show False using armed(1) by (simp add: armed(5))
    qed
    ultimately show ?thesis using armed(1,3) by simp
  qed
  then show "coordinator_ok co'" "world_ok (co', a')" "co' \<noteq> co \<Longrightarrow> co_pending co = None \<and> quiesce t a = Inr a'"
    "co' = co \<Longrightarrow> a' = a" by blast+
qed

text \<open>A cancellation frees the admission and reports no error.\<close>

lemma cancel_frees:
  assumes w: "world_ok (co, a)" and p: "co_pending co = Some r"
  obtains a' where "restart_cancel resume why (co, a) = (None, co\<lparr>co_watchdog := None, co_state := RCancelled,
      co_last_error := Some why, co_pending := None, co_turn_completed := False, co_delivered := False\<rparr>, a')"
    "resume (rq_turn_id r) a = Inr a'" "holder a' = None" "good a'"
proof -
  have "good a" "holder a = Some (rq_turn_id r)" using w p by (simp_all add: world_ok_def)
  then obtain a' where "resume (rq_turn_id r) a = Inr a'" "holder a' = None" "good a'" using resume_frees by blast
  then show ?thesis using that p by (simp add: restart_cancel_def Let_def)
qed

lemma cancel_ok:
  assumes ok: "coordinator_pre co" and w: "world_ok (co, a)" and c: "restart_cancel resume why (co, a) = (e, co', a')"
  shows "e = None \<and> coordinator_ok co' \<and> world_ok (co', a') \<and> co_pending co' = None \<and>
    (\<exists>r. co_pending co = Some r \<and> resume (rq_turn_id r) a = Inr a')"
proof -
  obtain r where r: "co_pending co = Some r" using ok by (auto simp: coordinator_pre_def)
  from w r show ?thesis
  proof (rule cancel_frees)
    fix b
    let ?co = "co\<lparr>co_watchdog := None, co_state := RCancelled, co_last_error := Some why, co_pending := None,
        co_turn_completed := False, co_delivered := False\<rparr>"
    assume b: "restart_cancel resume why (co, a) = (None, ?co, b)" "resume (rq_turn_id r) a = Inr b" "holder b = None" "good b"
    have "co_state co \<noteq> RCommitted" using ok by (auto simp: coordinator_pre_def)
    then have "coordinator_ok ?co"
      using ok by (auto simp: coordinator_pre_def coordinator_ok_def channel_ok_def split: option.splits)
    moreover have "e = None" "co' = ?co" "a' = b" using c unfolding b(1) by simp_all
    ultimately show ?thesis using b(2-4) r by (simp add: world_ok_def)
  qed
qed

lemma commit_if_ready_ok:
  assumes ok: "coordinator_pre co" and w: "world_ok (co, a)" and c: "commit_if_ready resume whole (co, a) = (e, co', a')"
  shows "e = None \<and> coordinator_ok co' \<and> world_ok (co', a') \<and>
    (co_state co' = RCommitted \<longrightarrow> co_turn_completed co \<and> co_delivered co \<and> co_pending co' = co_pending co \<and> a' = a) \<and>
    (a' = a \<or> (\<exists>r. co_pending co = Some r \<and> resume (rq_turn_id r) a = Inr a'))"
proof -
  obtain r ch where r: "co_pending co = Some r" "request_ok co r" and ch: "co_commit co = Some ch" "channel_ok co ch"
    using ok by (auto simp: coordinator_pre_def split: option.splits)
  have st: "co_state co \<noteq> RCommitted" using ok by (auto simp: coordinator_pre_def)
  show ?thesis
  proof (cases "co_turn_completed co \<and> co_delivered co")
    case False
    then have "e = None" "co' = co" "a' = a" using c st by (auto simp: commit_if_ready_def)
    moreover have "coordinator_ok co" using ok False r st by (auto simp: coordinator_pre_def coordinator_ok_def)
    ultimately show ?thesis using w st by simp
  next
    case True
    have boot: "rq_boot_id r = cc_boot_id ch" and empty: "pi_lines (cc_pipe ch) = []"
      using r(2) ch(2) st by (simp_all add: request_ok_def channel_ok_def)
    show ?thesis
    proof (cases whole)
      case True
      let ?ch = "ch\<lparr>cc_pipe := write_line True (commit_frame ch r) (cc_pipe ch)\<rparr>"
      have res: "e = None" "a' = a" and co': "co' = co\<lparr>co_commit := Some ?ch, co_state := RCommitted, co_watchdog := None,
          co_committed_event := True\<rparr>"
        using c True \<open>co_turn_completed co \<and> co_delivered co\<close> st r ch boot
        by (auto simp: commit_if_ready_def channel_commit_def Let_def)
      have "commit_frame ?ch r = commit_frame ch r" by (simp add: commit_frame_def)
      then have "channel_ok co' ?ch"
        using r(1) ch(2) empty by (simp add: co' channel_ok_def write_line_def)
      then have "coordinator_ok co'"
        using ok r ch(1) True \<open>co_turn_completed co \<and> co_delivered co\<close>
        by (simp add: co' coordinator_pre_def coordinator_ok_def request_ok_def)
      then show ?thesis using res w True \<open>co_turn_completed co \<and> co_delivered co\<close> by (simp add: co' world_ok_def)
    next
      case False
      let ?co = "co\<lparr>co_commit := Some (ch\<lparr>cc_pipe := write_line False (commit_frame ch r) (cc_pipe ch)\<rparr>)\<rparr>"
      let ?why = "lit ''supervisor commit failed: '' @ lit ''restart commit pipe '' @ [21457, 29983, 30701, 20889]"
      have cc: "restart_cancel resume ?why (?co, a) = (e, co', a')"
        using c False True st r ch boot by (simp add: commit_if_ready_def channel_commit_def Let_def)
      have "coordinator_pre ?co"
        using ok ch st empty r by (auto simp: coordinator_pre_def channel_ok_def write_line_def request_ok_def)
      moreover have "world_ok (?co, a)" using w by (simp add: world_ok_def)
      ultimately have "e = None \<and> coordinator_ok co' \<and> world_ok (co', a') \<and> co_pending co' = None \<and>
          (\<exists>r. co_pending ?co = Some r \<and> resume (rq_turn_id r) a = Inr a')"
        using cc by (rule cancel_ok)
      then show ?thesis by (auto simp: coordinator_ok_def)
    qed
  qed
qed

lemma pending_pre:
  assumes "coordinator_ok co" "co_state co \<noteq> RCommitted" "co_pending co = Some r"
  shows "coordinator_pre co" and "\<not> (co_turn_completed co \<and> co_delivered co)"
  using assms by (auto simp: coordinator_ok_def coordinator_pre_def)

text \<open>The three reports and the watchdog.\<close>

lemma mark_turn_terminal_ok:
  assumes ok: "coordinator_ok co" "world_ok (co, a)" and m: "mark_turn_terminal resume whole t st (co, a) = (e, co', a')"
  shows "e = None \<and> coordinator_ok co' \<and> world_ok (co', a') \<and>
    (co_turn_completed co' \<longrightarrow> co_turn_completed co \<or> (st = lit ''completed'' \<and> pending_is t co)) \<and>
    (co_pending co' \<noteq> None \<longrightarrow> co_pending co' = co_pending co) \<and>
    (a' = a \<or> (\<exists>r. co_pending co = Some r \<and> resume (rq_turn_id r) a = Inr a'))"
proof (cases "co_state co = RCommitted \<or> \<not> pending_is t co")
  case True
  then show ?thesis using m ok by (auto simp: mark_turn_terminal_def)
next
  case False
  then obtain r where r: "co_pending co = Some r" "rq_turn_id r = t" by (auto simp: pending_is_def split: option.splits)
  note pre = pending_pre [OF ok(1) _ r(1)]
  show ?thesis
  proof (cases "st = lit ''completed''")
    case True
    let ?co = "co\<lparr>co_turn_completed := True, co_state := RWaitingDelivery\<rparr>"
    have c: "commit_if_ready resume whole (?co, a) = (e, co', a')" using m False True by (simp add: mark_turn_terminal_def)
    have "channel_ok ?co ch" if "co_commit co = Some ch" for ch
      using that ok(1) False by (auto simp: coordinator_ok_def channel_ok_def)
    then have "coordinator_pre ?co"
      using pre(1) False by (auto simp: coordinator_pre_def request_ok_def split: option.splits)
    moreover have "world_ok (?co, a)" using ok(2) by (simp add: world_ok_def)
    ultimately have i: "e = None \<and> coordinator_ok co' \<and> world_ok (co', a') \<and>
        (co_state co' = RCommitted \<longrightarrow> co_turn_completed ?co \<and> co_delivered ?co \<and> co_pending co' = co_pending ?co \<and> a' = a) \<and>
        (a' = a \<or> (\<exists>r. co_pending ?co = Some r \<and> resume (rq_turn_id r) a = Inr a'))"
      using c by (rule commit_if_ready_ok)
    moreover have "co_pending co' \<noteq> None \<longrightarrow> co_pending co' = co_pending co"
      using c ok(2) by (auto simp: commit_if_ready_def restart_cancel_def Let_def channel_commit_def split: if_splits option.splits sum.splits)
    ultimately show ?thesis using True False by auto
  next
    case st: False
    have "restart_cancel resume (lit ''restart caller turn ended as '' @ st) (co, a) = (e, co', a')"
      using m False st by (simp add: mark_turn_terminal_def)
    with pre(1) ok(2) have "e = None \<and> coordinator_ok co' \<and> world_ok (co', a') \<and> co_pending co' = None \<and>
        (\<exists>r. co_pending co = Some r \<and> resume (rq_turn_id r) a = Inr a')"
      using False by (intro cancel_ok) auto
    then show ?thesis by (auto simp: coordinator_ok_def)
  qed
qed

lemma mark_delivered_ok:
  assumes ok: "coordinator_ok co" "world_ok (co, a)" and m: "mark_delivered resume whole t (co, a) = (e, co', a')"
  shows "e = None \<and> coordinator_ok co' \<and> world_ok (co', a') \<and> (co_turn_completed co' \<longrightarrow> co_turn_completed co) \<and>
    (co_pending co' \<noteq> None \<longrightarrow> co_pending co' = co_pending co) \<and>
    (a' = a \<or> (\<exists>r. co_pending co = Some r \<and> resume (rq_turn_id r) a = Inr a'))"
proof (cases "co_state co = RCommitted \<or> \<not> pending_is t co")
  case True
  then show ?thesis using m ok by (auto simp: mark_delivered_def)
next
  case False
  then obtain r where r: "co_pending co = Some r" "rq_turn_id r = t" by (auto simp: pending_is_def split: option.splits)
  note pre = pending_pre [OF ok(1) _ r(1)]
  let ?co = "co\<lparr>co_delivered := True\<rparr>"
  have c: "commit_if_ready resume whole (?co, a) = (e, co', a')" using m False by (simp add: mark_delivered_def)
  have "channel_ok ?co ch = channel_ok co ch" for ch by (simp add: channel_ok_def)
  then have "coordinator_pre ?co"
    using pre(1) False by (auto simp: coordinator_pre_def request_ok_def split: option.splits)
  moreover have "world_ok (?co, a)" using ok(2) by (simp add: world_ok_def)
  ultimately have "e = None \<and> coordinator_ok co' \<and> world_ok (co', a') \<and>
      (co_state co' = RCommitted \<longrightarrow> co_turn_completed ?co \<and> co_delivered ?co \<and> co_pending co' = co_pending ?co \<and> a' = a) \<and>
      (a' = a \<or> (\<exists>r. co_pending ?co = Some r \<and> resume (rq_turn_id r) a = Inr a'))"
    using c by (rule commit_if_ready_ok)
  moreover have "(co_pending co' \<noteq> None \<longrightarrow> co_pending co' = co_pending co) \<and> (co_turn_completed co' \<longrightarrow> co_turn_completed co)"
    using c ok(2) by (auto simp: commit_if_ready_def restart_cancel_def Let_def channel_commit_def split: if_splits option.splits sum.splits)
  ultimately show ?thesis by auto
qed

lemma cancelling_report_ok:
  assumes ok: "coordinator_ok co" "world_ok (co, a)"
    and m: "(e, co', a') = (None, co, a) \<or> (co_state co \<noteq> RCommitted \<and> co_pending co \<noteq> None \<and>
      restart_cancel resume why (co, a) = (e, co', a'))"
  shows "e = None \<and> coordinator_ok co' \<and> world_ok (co', a') \<and> (co_turn_completed co' \<longrightarrow> co_turn_completed co) \<and>
    (co_pending co' \<noteq> None \<longrightarrow> co_pending co' = co_pending co) \<and>
    (a' = a \<or> (\<exists>r. co_pending co = Some r \<and> resume (rq_turn_id r) a = Inr a'))"
  using m
proof
  assume "(e, co', a') = (None, co, a)"
  then show ?thesis using ok by simp
next
  assume c: "co_state co \<noteq> RCommitted \<and> co_pending co \<noteq> None \<and> restart_cancel resume why (co, a) = (e, co', a')"
  then obtain r where r: "co_pending co = Some r" by blast
  have "e = None \<and> coordinator_ok co' \<and> world_ok (co', a') \<and> co_pending co' = None \<and>
        (\<exists>r. co_pending co = Some r \<and> resume (rq_turn_id r) a = Inr a')"
    using c pending_pre(1) [OF ok(1) _ r] ok(2) by (intro cancel_ok) auto
  then show ?thesis by (auto simp: coordinator_ok_def)
qed

lemma mark_delivery_failed_ok:
  assumes ok: "coordinator_ok co" "world_ok (co, a)" and m: "mark_delivery_failed resume t why (co, a) = (e, co', a')"
  shows "e = None \<and> coordinator_ok co' \<and> world_ok (co', a') \<and> (co_turn_completed co' \<longrightarrow> co_turn_completed co) \<and>
    (co_pending co' \<noteq> None \<longrightarrow> co_pending co' = co_pending co) \<and>
    (a' = a \<or> (\<exists>r. co_pending co = Some r \<and> resume (rq_turn_id r) a = Inr a'))"
  using ok by (rule cancelling_report_ok [where why = "lit ''restart response delivery failed: '' @ why"])
    (use m in \<open>auto simp: mark_delivery_failed_def pending_is_def split: if_splits option.splits\<close>)

lemma delivery_watchdog_ok:
  assumes ok: "coordinator_ok co" "world_ok (co, a)" and m: "delivery_watchdog resume i (co, a) = (e, co', a')"
  shows "e = None \<and> coordinator_ok co' \<and> world_ok (co', a') \<and> (co_turn_completed co' \<longrightarrow> co_turn_completed co) \<and>
    (co_pending co' \<noteq> None \<longrightarrow> co_pending co' = co_pending co) \<and>
    (a' = a \<or> (\<exists>r. co_pending co = Some r \<and> resume (rq_turn_id r) a = Inr a'))"
  using ok by (rule cancelling_report_ok
      [where why = "lit ''delivery acknowledgement timed out after '' @ co_timeout_text co @ lit ''s''"])
    (use m ok(1) in \<open>auto simp: delivery_watchdog_def coordinator_ok_def split: if_splits option.splits\<close>)

end

end
