(* ===== verification/RuntimeProofs.thy ===== *)
theory RuntimeProofs
  imports ControlRuntime ControlReads RestartProofs
begin

text \<open>
  The invariant of the conversation runtime: every turn is pending, settled or broken, consistently
  in its store row, its future, its task, its thread and its event history; and every subscriber's
  queue continues exactly what its turn has published.
\<close>

section \<open>Streams\<close>

definition stream_ok :: "conv_runtime \<Rightarrow> nat \<Rightarrow> stream \<Rightarrow> bool" where
  "stream_ok rt a q \<longleftrightarrow>
     (let h = history_of rt (sq_turn q); pend = (rt_results rt (sq_turn q) = Some Pending);
          sub = (a \<in> set (rt_subs rt (sq_turn q)))
      in case sq_outcome q of
           None \<Rightarrow>
             (\<exists>evs. sq_items q = map SEvent evs \<and> sq_yielded q @ evs = h \<and> sub \<and> pend) \<or>
             (\<exists>evs. sq_items q = map SEvent evs @ [SEnd] \<and> sq_yielded q @ evs = h \<and> \<not> pend) \<or>
             (\<exists>e. sq_items q = [SError e] \<and> prefix (sq_yielded q) h \<and> (pend \<longrightarrow> \<not> sub))
         | Some StreamEnded \<Rightarrow> sq_yielded q = h \<and> \<not> pend
         | Some (StreamFailed e) \<Rightarrow> prefix (sq_yielded q) h \<and> (pend \<longrightarrow> \<not> sub))"

lemma stream_ok_cong:
  assumes "stream_ok rt b x" and "rt_results rt' (sq_turn x) = rt_results rt (sq_turn x)"
    and "history_of rt' (sq_turn x) = history_of rt (sq_turn x)"
    and "b \<in> set (rt_subs rt' (sq_turn x)) \<longleftrightarrow> b \<in> set (rt_subs rt (sq_turn x))"
  shows "stream_ok rt' b x"
  using assms(1) unfolding stream_ok_def assms(2-4) .

definition streams_at :: "conv_runtime \<Rightarrow> pystr \<Rightarrow> bool" where
  "streams_at rt t \<longleftrightarrow> (\<forall>a q. rt_streams rt a = Some q \<and> sq_turn q = t \<longrightarrow> stream_ok rt a q)"

definition subs_wf :: "conv_runtime \<Rightarrow> bool" where
  "subs_wf rt \<longleftrightarrow> (\<forall>t. \<forall>a \<in> set (rt_subs rt t). \<exists>q. rt_streams rt a = Some q \<and> sq_turn q = t) \<and>
     (\<forall>a. rt_next_stream rt \<le> a \<longrightarrow> rt_streams rt a = None) \<and>
     (\<forall>a q. rt_streams rt a = Some q \<longrightarrow> rt_history rt (sq_turn q) \<noteq> None)"

lemma subs_wfD: "subs_wf rt \<Longrightarrow> a \<in> set (rt_subs rt t) \<Longrightarrow> \<exists>q. rt_streams rt a = Some q \<and> sq_turn q = t"
  unfolding subs_wf_def by blast

lemma subs_wf_history: "subs_wf rt \<Longrightarrow> rt_streams rt a = Some q \<Longrightarrow> rt_history rt (sq_turn q) \<noteq> None"
  unfolding subs_wf_def by blast

lemma offer_simps [simp]:
  "sq_turn (offer cap t v q) = sq_turn q" "sq_yielded (offer cap t v q) = sq_yielded q"
  "sq_outcome (offer cap t v q) = sq_outcome q"
  by (simp_all add: offer_def)

lemma publish_fields [simp]:
  "rt_store (publish_event ev rt) = rt_store rt" "rt_active (publish_event ev rt) = rt_active rt"
  "rt_results (publish_event ev rt) = rt_results rt" "rt_tasks (publish_event ev rt) = rt_tasks rt"
  "rt_frames (publish_event ev rt) = rt_frames rt" "rt_admission (publish_event ev rt) = rt_admission rt"
  "rt_owner (publish_event ev rt) = rt_owner rt" "rt_accepting (publish_event ev rt) = rt_accepting rt"
  "rt_closed (publish_event ev rt) = rt_closed rt" "rt_interrupts (publish_event ev rt) = rt_interrupts rt"
  "rt_cancelling (publish_event ev rt) = rt_cancelling rt" "rt_busy (publish_event ev rt) = rt_busy rt"
  "rt_queue_size (publish_event ev rt) = rt_queue_size rt"
  "rt_next_stream (publish_event ev rt) = rt_next_stream rt"
  by (simp_all add: publish_event_def Let_def to_subscribers_def)

lemma publish_history:
  "history_of (publish_event ev rt) t = history_of rt t @ (if t = tv_turn_id ev then [ev] else [])"
  "rt_history (publish_event ev rt) t = (if t = tv_turn_id ev then Some (history_of rt t @ [ev]) else rt_history rt t)"
  "rt_subs (publish_event ev rt) t =
     (if t = tv_turn_id ev then filter (\<lambda>a. \<not> overflown rt a) (rt_subs rt t) else rt_subs rt t)"
  "rt_streams (publish_event ev rt) a =
     (if a \<in> set (rt_subs rt (tv_turn_id ev))
      then map_option (offer (rt_queue_size rt) (tv_turn_id ev) (SEvent ev)) (rt_streams rt a) else rt_streams rt a)"
  by (simp_all add: publish_event_def Let_def to_subscribers_def history_of_def)

lemma publish_subs_wf: "subs_wf rt \<Longrightarrow> subs_wf (publish_event ev rt)"
  by (force simp: subs_wf_def publish_history)

lemma streams_at_other:
  assumes "streams_at rt t" and "rt_results rt' t = rt_results rt t" "history_of rt' t = history_of rt t"
    and "rt_subs rt' t = rt_subs rt t"
    and "\<And>a q. rt_streams rt' a = Some q \<Longrightarrow> sq_turn q = t \<Longrightarrow> rt_streams rt a = Some q"
  shows "streams_at rt' t"
  using assms by (auto simp: streams_at_def stream_ok_def)

text \<open>One more event for a turn that is still pending.\<close>

lemma publish_stream_ok:
  assumes ok: "streams_at rt t" and w: "subs_wf rt" and p: "rt_results rt t = Some Pending" and ev: "tv_turn_id ev = t"
  shows "streams_at (publish_event ev rt) t"
  unfolding streams_at_def
proof (intro allI impI, elim conjE)
  fix a q' assume q': "rt_streams (publish_event ev rt) a = Some q'" and turn: "sq_turn q' = t"
  show "stream_ok (publish_event ev rt) a q'"
  proof (cases "a \<in> set (rt_subs rt t)")
    case True
    then obtain q where q: "rt_streams rt a = Some q" "sq_turn q = t" using subs_wfD [OF w] by blast
    have qe: "q' = offer (rt_queue_size rt) t (SEvent ev) q" using q' True q by (simp add: publish_history ev)
    have so: "stream_ok rt a q" using ok q by (simp add: streams_at_def)
    have out: "sq_outcome q = None" and live: "\<exists>evs. sq_items q = map SEvent evs \<and> sq_yielded q @ evs = history_of rt t"
      using so True p q(2) by (auto simp: stream_ok_def Let_def split: option.splits stream_outcome.splits)
    obtain evs where e: "sq_items q = map SEvent evs" "sq_yielded q @ evs = history_of rt t" using live by blast
    show ?thesis
    proof (cases "queue_full (rt_queue_size rt) q")
      case True
      have "a \<notin> set (rt_subs (publish_event ev rt) t)" using True q by (simp add: publish_history ev overflown_def)
      moreover have "prefix (sq_yielded q) (history_of rt t @ [ev])"
        using e(2) by (metis append_assoc prefixI)
      ultimately show ?thesis using True out q(2) ev
        by (simp add: stream_ok_def Let_def qe offer_def publish_history)
    next
      case False
      have "a \<in> set (rt_subs (publish_event ev rt) t)" using \<open>a \<in> set (rt_subs rt t)\<close> False q
        by (simp add: publish_history ev overflown_def)
      then show ?thesis using False out q(2) ev e p
        by (auto simp: stream_ok_def Let_def qe offer_def publish_history intro!: exI [of _ "evs @ [ev]"])
    qed
  next
    case False
    then have "rt_streams rt a = Some q'" using q' by (simp add: publish_history ev)
    then have so: "stream_ok rt a q'" using ok turn by (simp add: streams_at_def)
    moreover have "a \<notin> set (rt_subs (publish_event ev rt) t)" using False by (simp add: publish_history ev)
    ultimately show ?thesis using False turn p ev
      by (auto simp: stream_ok_def Let_def publish_history split: option.splits stream_outcome.splits)
  qed
qed

lemma publish_streams:
  assumes ok: "\<forall>t. streams_at rt t" and w: "subs_wf rt" and p: "rt_results rt (tv_turn_id ev) = Some Pending"
  shows "\<forall>t. streams_at (publish_event ev rt) t"
proof
  fix t
  show "streams_at (publish_event ev rt) t"
  proof (cases "t = tv_turn_id ev")
    case True
    show ?thesis unfolding True by (rule publish_stream_ok [OF spec [OF ok] w p refl])
  next
    case False
    show ?thesis
    proof (rule streams_at_other [of rt])
      fix a q assume q: "rt_streams (publish_event ev rt) a = Some q" "sq_turn q = t"
      have "a \<notin> set (rt_subs rt (tv_turn_id ev))"
      proof
        assume m: "a \<in> set (rt_subs rt (tv_turn_id ev))"
        then obtain x where x: "rt_streams rt a = Some x" "sq_turn x = tv_turn_id ev" using subs_wfD [OF w] by blast
        have "Some q = Some (offer (rt_queue_size rt) (tv_turn_id ev) (SEvent ev) x)"
          using q(1) unfolding publish_history(4) x(1) using m by simp
        then have "sq_turn q = sq_turn x" by simp
        then show False using q(2) False x(2) by simp
      qed
      then show "rt_streams rt a = Some q" using q by (simp add: publish_history)
    qed (use ok False in \<open>simp_all add: publish_history\<close>)
  qed
qed

lemma settle_fields [simp]:
  "rt_store (settle_future t v rt) = rt_store rt" "rt_active (settle_future t v rt) = rt_active rt"
  "rt_tasks (settle_future t v rt) = rt_tasks rt" "rt_history (settle_future t v rt) = rt_history rt"
  "rt_frames (settle_future t v rt) = rt_frames rt" "rt_admission (settle_future t v rt) = rt_admission rt"
  "rt_owner (settle_future t v rt) = rt_owner rt" "rt_accepting (settle_future t v rt) = rt_accepting rt"
  "rt_closed (settle_future t v rt) = rt_closed rt" "rt_interrupts (settle_future t v rt) = rt_interrupts rt"
  "rt_subs (settle_future t v rt) = rt_subs rt" "rt_streams (settle_future t v rt) = rt_streams rt"
  "rt_queue_size (settle_future t v rt) = rt_queue_size rt" "rt_next_stream (settle_future t v rt) = rt_next_stream rt"
  "history_of (settle_future t v rt) = history_of rt"
  by (auto simp: settle_future_def history_of_def fun_eq_iff)

lemma settle_results:
  "rt_results rt t = Some Pending \<Longrightarrow> rt_results (settle_future t v rt) = (rt_results rt)(t \<mapsto> v)"
  by (simp add: settle_future_def)

lemma to_subs_fields [simp]:
  "rt_store (to_subscribers t f rt) = rt_store rt" "rt_active (to_subscribers t f rt) = rt_active rt"
  "rt_tasks (to_subscribers t f rt) = rt_tasks rt" "rt_history (to_subscribers t f rt) = rt_history rt"
  "rt_frames (to_subscribers t f rt) = rt_frames rt" "rt_admission (to_subscribers t f rt) = rt_admission rt"
  "rt_owner (to_subscribers t f rt) = rt_owner rt" "rt_accepting (to_subscribers t f rt) = rt_accepting rt"
  "rt_closed (to_subscribers t f rt) = rt_closed rt" "rt_interrupts (to_subscribers t f rt) = rt_interrupts rt"
  "rt_subs (to_subscribers t f rt) = rt_subs rt" "rt_results (to_subscribers t f rt) = rt_results rt"
  "rt_queue_size (to_subscribers t f rt) = rt_queue_size rt" "rt_next_stream (to_subscribers t f rt) = rt_next_stream rt"
  "history_of (to_subscribers t f rt) = history_of rt"
  "rt_streams (to_subscribers t f rt) a =
     (if a \<in> set (rt_subs rt t) then map_option f (rt_streams rt a) else rt_streams rt a)"
  by (simp_all add: to_subscribers_def history_of_def fun_eq_iff)

lemma to_subs_wf: "subs_wf rt \<Longrightarrow> (\<And>q. sq_turn (f q) = sq_turn q) \<Longrightarrow> subs_wf (to_subscribers t f rt)"
  by (force simp: subs_wf_def)

text \<open>The end of a pending turn: each subscriber gets the end mark, or an error.\<close>

lemma close_stream_ok:
  assumes ok: "\<forall>t. streams_at rt t" and w: "subs_wf rt" and p: "rt_results rt t = Some Pending" and v: "v \<noteq> Pending"
    and f: "f = offer (rt_queue_size rt) t SEnd \<or> f = (\<lambda>q. q\<lparr>sq_items := [SError e]\<rparr>)"
  shows "\<forall>u. streams_at (to_subscribers t f (settle_future t v rt)) u"
proof
  fix u
  let ?rt = "to_subscribers t f (settle_future t v rt)"
  have keep: "sq_turn (f q) = sq_turn q" "sq_yielded (f q) = sq_yielded q" "sq_outcome (f q) = sq_outcome q" for q
    using f by auto
  show "streams_at ?rt u"
  proof (cases "u = t")
    case False
    show ?thesis
    proof (rule streams_at_other [of rt])
      fix a q assume q: "rt_streams ?rt a = Some q" "sq_turn q = u"
      have "a \<notin> set (rt_subs rt t)"
      proof
        assume a: "a \<in> set (rt_subs rt t)"
        then obtain x where "rt_streams rt a = Some x" "sq_turn x = t" using subs_wfD [OF w] by blast
        then show False using q False a keep(1) by auto
      qed
      then show "rt_streams rt a = Some q" using q by simp
    qed (use ok False p in \<open>simp_all add: settle_results\<close>)
  next
    case True
    show ?thesis unfolding streams_at_def
    proof (intro allI impI, elim conjE)
      fix a q' assume q': "rt_streams ?rt a = Some q'" "sq_turn q' = u"
      have np: "rt_results ?rt t \<noteq> Some Pending" using p v by (simp add: settle_results)
      show "stream_ok ?rt a q'"
      proof (cases "a \<in> set (rt_subs rt t)")
        case sub: True
        then obtain q where q: "rt_streams rt a = Some q" "sq_turn q = t" using subs_wfD [OF w] by blast
        have qe: "q' = f q" using q' sub q by simp
        have "stream_ok rt a q" using ok q by (simp add: streams_at_def)
        then obtain evs where e: "sq_outcome q = None" "sq_items q = map SEvent evs" "sq_yielded q @ evs = history_of rt t"
          using sub p q(2) by (auto simp: stream_ok_def Let_def split: option.splits stream_outcome.splits)
        have "prefix (sq_yielded q) (history_of rt t)" using e(3) by (metis prefixI)
        then show ?thesis using f e q(2) np
          by (auto simp: stream_ok_def Let_def qe offer_def)
      next
        case nsub: False
        then have "rt_streams rt a = Some q'" using q' by simp
        then have "stream_ok rt a q'" using ok q'(2) by (simp add: streams_at_def)
        then show ?thesis using nsub np p q'(2) True
          by (auto simp: stream_ok_def Let_def split: option.splits stream_outcome.splits)
      qed
    qed
  qed
qed

section \<open>Turns\<close>

definition completed_event :: "turn_event \<Rightarrow> bool" where
  "completed_event ev \<longleftrightarrow> tv_method ev = lit ''turn/completed''"

text \<open>Items the executor makes have ids; so do the ones a frame keeps.\<close>

definition frame_ok :: "run_frame \<Rightarrow> bool" where
  "frame_ok f \<longleftrightarrow> (\<forall>i \<in> set (rf_items f). ti_id i \<noteq> []) \<and> (\<forall>i \<in> set (map snd (rf_observed f)). ti_id i \<noteq> [])"

definition active_record :: "conv_runtime \<Rightarrow> pystr \<Rightarrow> turn_record \<Rightarrow> bool" where
  "active_record rt t r \<longleftrightarrow> holds_record t r (rt_store rt) \<and> rt_active rt (tr_thread_id r) = Some t \<and>
     (case rt_frames rt t of
        None \<Rightarrow> tr_status r = TQueued
      | Some f \<Rightarrow> frame_ok f \<and> tq_thread_id (rf_request f) = tr_thread_id r \<and>
          tr_status r = (if rf_stage f = Executing then TInProgress else TQueued))"

definition turn_ok :: "conv_runtime \<Rightarrow> pystr \<Rightarrow> bool" where
  "turn_ok rt t \<longleftrightarrow>
     (case rt_results rt t of
        None \<Rightarrow> rt_history rt t = None \<and> rt_subs rt t = [] \<and> rt_frames rt t = None \<and> t \<notin> set (rt_tasks rt)
      | Some Pending \<Rightarrow>
          t \<in> set (rt_tasks rt) \<and> rt_history rt t \<noteq> None \<and> (\<exists>r. active_record rt t r) \<and>
          (\<forall>ev \<in> set (history_of rt t). \<not> completed_event ev)
      | Some (Settled v) \<Rightarrow>
          t \<notin> set (rt_tasks rt) \<and> rt_frames rt t = None \<and>
          (\<exists>r h. holds_record t r (rt_store rt) \<and> status_terminal (tr_status r) \<and> v = result_of r \<and>
             rt_history rt t = Some (h @ [turn_event_of ''turn/completed'' (tr_thread_id r) t (TurnData r)]) \<and>
             (\<forall>ev \<in> set h. \<not> completed_event ev))
      | Some (Broken e) \<Rightarrow>
          t \<notin> set (rt_tasks rt) \<and> rt_frames rt t = None \<and> rt_history rt t \<noteq> None \<and>
          (\<exists>err. read_turn t (rt_store rt) = Inl err) \<and> (\<forall>ev \<in> set (history_of rt t). \<not> completed_event ev))"

definition threads_wf :: "conv_runtime \<Rightarrow> bool" where
  "threads_wf rt \<longleftrightarrow> (\<forall>th t. rt_active rt th = Some t \<longrightarrow> rt_results rt t = Some Pending \<and>
     (\<exists>r. holds_record t r (rt_store rt) \<and> tr_thread_id r = th))"

definition admission_wf :: "conv_runtime \<Rightarrow> bool" where
  "admission_wf rt \<longleftrightarrow> (\<forall>t. rt_admission rt = Some t \<longleftrightarrow> (\<exists>f. rt_frames rt t = Some f \<and> rf_stage f = Executing))"

definition shared_ok :: "conv_runtime \<Rightarrow> bool" where
  "shared_ok rt \<longleftrightarrow> (\<forall>t. streams_at rt t) \<and> subs_wf rt \<and> distinct (rt_tasks rt)"

definition runtime_ok :: "conv_runtime \<Rightarrow> bool" where
  "runtime_ok rt \<longleftrightarrow> shared_ok rt \<and> (\<forall>t. turn_ok rt t) \<and> threads_wf rt \<and> admission_wf rt"

text \<open>While the code of turn \<open>t\<close> (on thread \<open>th\<close>) runs, its own row, frame and admission may be
  ahead of the rest; everything else is in order.\<close>

definition running :: "pystr \<Rightarrow> pystr \<Rightarrow> conv_runtime \<Rightarrow> bool" where
  "running t th rt \<longleftrightarrow> shared_ok rt \<and> (\<forall>u. u \<noteq> t \<longrightarrow> turn_ok rt u) \<and>
     (\<forall>k u. u \<noteq> t \<longrightarrow> rt_active rt k = Some u \<longrightarrow> rt_results rt u = Some Pending \<and>
        (\<exists>r. holds_record u r (rt_store rt) \<and> tr_thread_id r = k)) \<and>
     (\<forall>u. u \<noteq> t \<longrightarrow> (rt_admission rt = Some u \<longleftrightarrow> (\<exists>f. rt_frames rt u = Some f \<and> rf_stage f = Executing))) \<and>
     rt_results rt t = Some Pending \<and> t \<in> set (rt_tasks rt) \<and> rt_history rt t \<noteq> None \<and>
     (\<forall>k. rt_active rt k = Some t \<longleftrightarrow> k = th) \<and> (\<forall>ev \<in> set (history_of rt t). \<not> completed_event ev)"

lemma turn_ok_cong:
  assumes "turn_ok rt t" and "rt_results rt' t = rt_results rt t" "rt_history rt' t = rt_history rt t"
    and "rt_subs rt' t = rt_subs rt t" and "rt_frames rt' t = rt_frames rt t"
    and "t \<in> set (rt_tasks rt') \<longleftrightarrow> t \<in> set (rt_tasks rt)"
    and "row_by tw_id t (turns (rt_store rt')) = row_by tw_id t (turns (rt_store rt))"
    and "\<And>k. rt_active rt k = Some t \<Longrightarrow> rt_active rt' k = Some t"
  shows "turn_ok rt' t"
proof -
  have "holds_record t r (rt_store rt') \<longleftrightarrow> holds_record t r (rt_store rt)" for r
    using assms(7) by (simp add: holds_record_def)
  moreover have "read_turn t (rt_store rt') = read_turn t (rt_store rt)" using assms(7) by (simp add: read_turn_def)
  moreover have "history_of rt' t = history_of rt t" using assms(3) by (simp add: history_of_def)
  ultimately show ?thesis
    using assms unfolding turn_ok_def active_record_def by (auto split: option.splits turn_future.splits)
qed

lemma running_of_ok:
  assumes ok: "runtime_ok rt" and f: "rt_frames rt t = Some f"
  shows "running t (tq_thread_id (rf_request f)) rt" and "frame_ok f"
    and "\<exists>r. holds_record t r (rt_store rt) \<and> tr_thread_id r = tq_thread_id (rf_request f) \<and>
      tr_status r = (if rf_stage f = Executing then TInProgress else TQueued)"
proof -
  let ?th = "tq_thread_id (rf_request f)"
  have t: "turn_ok rt t" using ok by (simp add: runtime_ok_def)
  then have p: "rt_results rt t = Some Pending"
    using f by (auto simp: turn_ok_def split: option.splits turn_future.splits)
  obtain r where r: "active_record rt t r" and hist: "t \<in> set (rt_tasks rt)" "rt_history rt t \<noteq> None"
    "\<forall>ev \<in> set (history_of rt t). \<not> completed_event ev"
    using t p by (auto simp: turn_ok_def)
  have rf: "holds_record t r (rt_store rt)" "rt_active rt (tr_thread_id r) = Some t" "frame_ok f" "?th = tr_thread_id r"
    "tr_status r = (if rf_stage f = Executing then TInProgress else TQueued)"
    using r f by (simp_all add: active_record_def)
  have one: "rt_active rt k = Some t \<longleftrightarrow> k = ?th" for k
    using ok rf(1,2,4) holds_unique unfolding runtime_ok_def threads_wf_def by metis
  show "running t ?th rt"
    using ok p hist one unfolding running_def runtime_ok_def threads_wf_def admission_wf_def by blast
  show "frame_ok f" by (rule rf(3))
  show "\<exists>r. holds_record t r (rt_store rt) \<and> tr_thread_id r = ?th \<and>
      tr_status r = (if rf_stage f = Executing then TInProgress else TQueued)"
    using rf by auto
qed

text \<open>Coming back to the invariant.\<close>

lemma ok_of_running:
  assumes "running t th rt" and "active_record rt t r"
    and "rt_admission rt = Some t \<longleftrightarrow> (\<exists>f. rt_frames rt t = Some f \<and> rf_stage f = Executing)"
  shows "runtime_ok rt"
proof -
  have "tr_thread_id r = th" using assms(1,2) by (auto simp: running_def active_record_def)
  then have "threads_wf rt"
    using assms(1,2) unfolding running_def threads_wf_def active_record_def by metis
  moreover have "turn_ok rt u" for u
  proof (cases "u = t")
    case True
    then show ?thesis using assms(1,2) unfolding running_def turn_ok_def by auto
  next
    case False
    then show ?thesis using assms(1) by (simp add: running_def)
  qed
  moreover have "admission_wf rt" using assms(1,3) unfolding running_def admission_wf_def by metis
  ultimately show ?thesis using assms(1) by (simp add: runtime_ok_def running_def)
qed

lemma running_publish:
  assumes r: "running t th rt" and ev: "tv_turn_id ev = t" "\<not> completed_event ev"
  shows "running t th (publish_event ev rt)"
proof -
  have sh: "shared_ok (publish_event ev rt)"
    using r ev publish_streams [of rt ev] publish_subs_wf [of rt ev] unfolding running_def shared_ok_def by simp
  have "turn_ok (publish_event ev rt) u" if "u \<noteq> t" for u
    by (rule turn_ok_cong [of rt]) (use r that ev in \<open>simp_all add: running_def publish_history\<close>)
  then show ?thesis using r ev sh unfolding running_def by (simp add: publish_history)
qed

lemma running_publish_all:
  "running t th rt \<Longrightarrow> \<forall>ev \<in> set evs. tv_turn_id ev = t \<and> \<not> completed_event ev \<Longrightarrow> running t th (publish_all evs rt)"
  by (induction evs arbitrary: rt) (simp_all add: running_publish)

text \<open>Changing the fields that belong to turn \<open>t\<close>, and those the invariant does not read.\<close>

lemma running_update:
  assumes r: "running t th rt"
    and "rt_results rt' = rt_results rt" "rt_history rt' = rt_history rt" "rt_subs rt' = rt_subs rt"
    and "rt_streams rt' = rt_streams rt" "rt_tasks rt' = rt_tasks rt" "rt_active rt' = rt_active rt"
    and "rt_next_stream rt' = rt_next_stream rt"
    and fr: "\<And>u. u \<noteq> t \<Longrightarrow> rt_frames rt' u = rt_frames rt u"
    and row: "\<And>u. u \<noteq> t \<Longrightarrow> row_by tw_id u (turns (rt_store rt')) = row_by tw_id u (turns (rt_store rt))"
    and ad: "\<And>u. u \<noteq> t \<Longrightarrow> rt_admission rt' = Some u \<longleftrightarrow> rt_admission rt = Some u"
  shows "running t th rt'"
proof -
  have hist: "history_of rt' = history_of rt" using assms(3) by (simp add: history_of_def fun_eq_iff)
  have "streams_at rt' u = streams_at rt u" for u
    using assms(2-5) hist by (simp add: streams_at_def stream_ok_def)
  moreover have "subs_wf rt' = subs_wf rt" using assms(3-5,8) by (simp add: subs_wf_def)
  ultimately have "shared_ok rt'" using r assms(6) by (simp add: running_def shared_ok_def)
  moreover have "turn_ok rt' u" if "u \<noteq> t" for u
    by (rule turn_ok_cong [of rt]) (use r that fr row assms(2-7) in \<open>simp_all add: running_def\<close>)
  moreover have "holds_record u x (rt_store rt') \<longleftrightarrow> holds_record u x (rt_store rt)" if "u \<noteq> t" for u x
    using row [OF that] by (simp add: holds_record_def)
  ultimately show ?thesis using r assms(2,3,6,7) hist fr ad unfolding running_def by simp
qed

section \<open>The end of a turn\<close>

lemma ok_of_ended:
  assumes r: "running t th rt" and sh: "shared_ok rt'" and t: "turn_ok rt' t"
    and res: "rt_results rt' = (rt_results rt)(t \<mapsto> v)" and act: "rt_active rt' = (rt_active rt)(th := None)"
    and fr: "rt_frames rt' = (rt_frames rt)(t := None)" and tk: "rt_tasks rt' = filter (\<lambda>u. u \<noteq> t) (rt_tasks rt)"
    and st: "rt_store rt' = rt_store rt" and ad: "rt_admission rt' = rt_admission rt" "rt_admission rt \<noteq> Some t"
    and h: "\<And>u. u \<noteq> t \<Longrightarrow> rt_history rt' u = rt_history rt u \<and> rt_subs rt' u = rt_subs rt u"
  shows "runtime_ok rt'"
proof -
  have mine: "rt_active rt k = Some t \<longleftrightarrow> k = th" for k using r by (simp add: running_def)
  have "turn_ok rt' u" for u
  proof (cases "u = t")
    case True
    then show ?thesis using t by simp
  next
    case False
    show ?thesis
    proof (rule turn_ok_cong [of rt])
      show "turn_ok rt u" using r False by (simp add: running_def)
      show "rt_active rt' k = Some u" if k: "rt_active rt k = Some u" for k
      proof -
        have "k \<noteq> th" using k mine [of k] False by simp
        then show ?thesis by (simp add: act k)
      qed
    qed (simp_all add: False res fr tk st h)
  qed
  moreover have "threads_wf rt'" unfolding threads_wf_def
  proof (intro allI impI)
    fix k u assume k: "rt_active rt' k = Some u"
    then have "k \<noteq> th" "rt_active rt k = Some u" using act by (auto split: if_splits)
    moreover have "u \<noteq> t" using calculation mine by auto
    ultimately show "rt_results rt' u = Some Pending \<and> (\<exists>r. holds_record u r (rt_store rt') \<and> tr_thread_id r = k)"
      using r res st by (auto simp: running_def)
  qed
  moreover have "admission_wf rt'"
    using r ad fr unfolding running_def admission_wf_def by auto
  ultimately show ?thesis using sh by (simp add: runtime_ok_def)
qed

lemma streams_update:
  assumes "rt_results rt' = rt_results rt" "rt_history rt' = rt_history rt" "rt_subs rt' = rt_subs rt"
    and "rt_streams rt' = rt_streams rt" "rt_next_stream rt' = rt_next_stream rt"
  shows "streams_at rt' u = streams_at rt u" and "subs_wf rt' = subs_wf rt"
proof -
  have "history_of rt' = history_of rt" using assms(2) by (simp add: history_of_def fun_eq_iff)
  then show "streams_at rt' u = streams_at rt u" using assms by (simp add: streams_at_def stream_ok_def)
  show "subs_wf rt' = subs_wf rt" using assms by (simp add: subs_wf_def)
qed

lemma complete_turn_fields:
  assumes "rt_results rt t = Some Pending" and "tr_id r = t"
  shows "rt_results (complete_turn th r rt) = (rt_results rt)(t \<mapsto> Settled (result_of r))"
    and "rt_active (complete_turn th r rt) = rt_active rt" "rt_tasks (complete_turn th r rt) = rt_tasks rt"
    and "rt_store (complete_turn th r rt) = rt_store rt" "rt_frames (complete_turn th r rt) = rt_frames rt"
    and "rt_admission (complete_turn th r rt) = rt_admission rt"
    and "rt_owner (complete_turn th r rt) = rt_owner rt" "rt_accepting (complete_turn th r rt) = rt_accepting rt"
    and "rt_closed (complete_turn th r rt) = rt_closed rt"
    and "rt_history (complete_turn th r rt) = (rt_history rt)(t \<mapsto> history_of rt t @
          [turn_event_of ''turn/completed'' th t (TurnData r)])"
    and "u \<noteq> t \<Longrightarrow> rt_subs (complete_turn th r rt) u = rt_subs rt u"
  using assms by (auto simp: complete_turn_def finish_streams_def settle_results publish_history fun_eq_iff)

lemma complete_turn_shared:
  assumes r: "running t th rt" and id: "tr_id r = t"
  shows "\<forall>u. streams_at (complete_turn th r rt) u" and "subs_wf (complete_turn th r rt)"
proof -
  let ?ev = "turn_event_of ''turn/completed'' th (tr_id r) (TurnData r)"
  let ?p = "publish_event ?ev rt"
  have p: "rt_results ?p t = Some Pending" using r by (simp add: running_def)
  have sh: "\<forall>u. streams_at ?p u" "subs_wf ?p"
    using r publish_streams [of rt ?ev] publish_subs_wf [of rt ?ev] id unfolding running_def shared_ok_def by simp_all
  show "\<forall>u. streams_at (complete_turn th r rt) u"
    unfolding complete_turn_def finish_streams_def id settle_fields
    using close_stream_ok [OF sh p, of "Settled (result_of r)" "offer (rt_queue_size ?p) t SEnd"] by (simp add: id)
  have "subs_wf (settle_future t v ?p) = subs_wf ?p" for v by (simp add: subs_wf_def)
  then show "subs_wf (complete_turn th r rt)"
    unfolding complete_turn_def finish_streams_def id using sh(2) by (intro to_subs_wf) (simp_all add: id)
qed

definition ended :: "pystr \<Rightarrow> pystr \<Rightarrow> conv_runtime \<Rightarrow> conv_runtime" where
  "ended th t rt = end_frame t ((drop_task t (release_thread th rt))
     \<lparr>rt_interrupts := filter (\<lambda>u. u \<noteq> t) (rt_interrupts rt)\<rparr>)"

lemma ended_fields [simp]:
  "rt_results (ended th t rt) = rt_results rt" "rt_active (ended th t rt) = (rt_active rt)(th := None)"
  "rt_frames (ended th t rt) = (rt_frames rt)(t := None)" "rt_tasks (ended th t rt) = filter (\<lambda>u. u \<noteq> t) (rt_tasks rt)"
  "rt_store (ended th t rt) = rt_store rt" "rt_admission (ended th t rt) = rt_admission rt"
  "rt_history (ended th t rt) = rt_history rt" "rt_subs (ended th t rt) = rt_subs rt"
  "rt_streams (ended th t rt) = rt_streams rt" "rt_next_stream (ended th t rt) = rt_next_stream rt"
  "rt_owner (ended th t rt) = rt_owner rt" "rt_accepting (ended th t rt) = rt_accepting rt"
  "rt_closed (ended th t rt) = rt_closed rt" "history_of (ended th t rt) = history_of rt"
  by (simp_all add: ended_def end_frame_def drop_task_def release_thread_def history_of_def fun_eq_iff)

lemma completed_ok:
  assumes r: "running t th rt" and h: "holds_record t r (rt_store rt)" "status_terminal (tr_status r)" "tr_thread_id r = th"
    and ad: "rt_admission rt \<noteq> Some t"
  shows "runtime_ok (ended th t (complete_turn th r rt))"
    and "rt_frames rt t = None \<Longrightarrow> runtime_ok (drop_task t (release_thread th (complete_turn th r rt)))"
proof -
  have id: "tr_id r = t" using holds_id [OF h(1)] .
  have p: "rt_results rt t = Some Pending" using r by (simp add: running_def)
  note cf = complete_turn_fields [OF p id]
  note cs = complete_turn_shared [OF r id]
  have hist: "rt_history rt t = Some (history_of rt t)" "\<forall>ev \<in> set (history_of rt t). \<not> completed_event ev"
    using r by (auto simp: running_def history_of_def)
  have d: "distinct (rt_tasks rt)" using r by (simp add: running_def shared_ok_def)
  have end_ok: "runtime_ok rt'"
    if "rt_results rt' = rt_results (complete_turn th r rt)" "rt_active rt' = (rt_active rt)(th := None)"
      "rt_frames rt' = (rt_frames rt)(t := None)" "rt_tasks rt' = filter (\<lambda>u. u \<noteq> t) (rt_tasks rt)"
      "rt_store rt' = rt_store rt" "rt_admission rt' = rt_admission rt" "rt_history rt' = rt_history (complete_turn th r rt)"
      "rt_subs rt' = rt_subs (complete_turn th r rt)" "rt_streams rt' = rt_streams (complete_turn th r rt)"
      "rt_next_stream rt' = rt_next_stream (complete_turn th r rt)" for rt'
  proof (rule ok_of_ended [OF r])
    show "shared_ok rt'"
      using cs streams_update [of rt' "complete_turn th r rt"] that d by (simp add: shared_ok_def)
    show "turn_ok rt' t"
      unfolding turn_ok_def using that cf h hist(2) by (auto intro!: exI [of _ r] exI [of _ "history_of rt t"])
  qed (use that cf ad in auto)
  show "runtime_ok (ended th t (complete_turn th r rt))" by (rule end_ok) (simp_all add: cf)
  show "runtime_ok (drop_task t (release_thread th (complete_turn th r rt)))" if "rt_frames rt t = None"
    by (rule end_ok) (use that in \<open>auto simp: cf drop_task_def release_thread_def fun_eq_iff\<close>)
qed

lemma broken_ok:
  assumes r: "running t th rt" and e: "read_turn t (rt_store rt) = Inl err" and ad: "rt_admission rt \<noteq> Some t"
  shows "runtime_ok (ended th t (fail_streams t x (settle_future t (Broken x) rt)))"
proof (rule ok_of_ended [OF r])
  let ?rt = "fail_streams t x (settle_future t (Broken x) rt)"
  have p: "rt_results rt t = Some Pending" and sh: "\<forall>u. streams_at rt u" "subs_wf rt" and d: "distinct (rt_tasks rt)"
    using r by (simp_all add: running_def shared_ok_def)
  have "\<forall>u. streams_at ?rt u" unfolding fail_streams_def by (rule close_stream_ok [OF sh p, where e = x]) simp_all
  moreover have "subs_wf (settle_future t (Broken x) rt) = subs_wf rt" by (simp add: subs_wf_def)
  then have "subs_wf ?rt" unfolding fail_streams_def using sh(2) by (intro to_subs_wf) simp_all
  ultimately show "shared_ok (ended th t ?rt)"
    using streams_update [of "ended th t ?rt" ?rt] d by (simp add: shared_ok_def fail_streams_def)
  show "turn_ok (ended th t ?rt) t"
    using r e p by (auto simp: turn_ok_def running_def fail_streams_def settle_results)
qed (use r ad in \<open>simp_all add: fail_streams_def settle_results running_def\<close>)

end
