(* ===== verification/PlaneProofs.thy ===== *)
theory PlaneProofs
  imports RuntimeProofs
begin

text \<open>
  The runtime together with the restart coordinator: every operation of \<open>_run\<close>, of the interrupts
  and of the coordinator keeps both invariants, and the two agree on who holds the admission.
\<close>

section \<open>The runtime offers the admission contract\<close>

definition admission_ok :: "conv_runtime \<Rightarrow> bool" where
  "admission_ok rt \<longleftrightarrow> (\<forall>t. rt_owner rt = Some t \<longrightarrow> \<not> rt_accepting rt \<and> set (rt_tasks rt) \<subseteq> {t})"

lemma quiesce_cases:
  assumes "quiesce_for_restart t a = Inr a'"
  shows "(rt_owner a = Some t \<and> a' = a) \<or> (a' = a\<lparr>rt_accepting := False, rt_owner := Some t\<rparr> \<and> set (rt_tasks a) \<subseteq> {t})"
proof -
  define others where "others = (\<exists>u \<in> set (rt_tasks a). u \<noteq> t)"
  have "\<not> others \<and> ((rt_owner a = Some t \<and> a' = a) \<or> a' = a\<lparr>rt_accepting := False, rt_owner := Some t\<rparr>)"
    using assms unfolding quiesce_for_restart_def others_def [symmetric] by (auto split: if_splits)
  then show ?thesis unfolding others_def by blast
qed

interpretation ra: admission quiesce_for_restart resume_after_restart_cancel rt_owner admission_ok
proof
  fix a a' t
  show "rt_owner a' = Some t \<and> admission_ok a'" if g: "admission_ok a" "quiesce_for_restart t a = Inr a'"
    using quiesce_cases [OF g(2)]
  proof
    assume "rt_owner a = Some t \<and> a' = a"
    then show ?thesis using g(1) by simp
  next
    assume "a' = a\<lparr>rt_accepting := False, rt_owner := Some t\<rparr> \<and> set (rt_tasks a) \<subseteq> {t}"
    then show ?thesis by (simp add: admission_ok_def)
  qed
  show "\<exists>a'. resume_after_restart_cancel t a = Inr a' \<and> rt_owner a' = None \<and> admission_ok a'"
    if "admission_ok a" "rt_owner a = Some t"
    using that by (simp add: resume_after_restart_cancel_def admission_ok_def)
qed

definition completed_stored :: "coordinator \<Rightarrow> control_db \<Rightarrow> bool" where
  "completed_stored c db \<longleftrightarrow> (co_turn_completed c \<longrightarrow>
     (\<exists>q r. co_pending c = Some q \<and> holds_record (rq_turn_id q) r db \<and> tr_status r = TCompleted))"

lemma completed_pending: "coordinator_ok c \<Longrightarrow> co_turn_completed c \<Longrightarrow> co_pending c \<noteq> None"
  by (auto simp: coordinator_ok_def split: option.splits)

definition linked :: "plane \<Rightarrow> bool" where
  "linked w \<longleftrightarrow> admission_ok (snd w) \<and>
     (case fst w of None \<Rightarrow> True
      | Some c \<Rightarrow> coordinator_ok c \<and> ra.world_ok (c, snd w) \<and> completed_stored c (rt_store (snd w)))"

definition plane_ok :: "plane \<Rightarrow> bool" where
  "plane_ok w \<longleftrightarrow> runtime_ok (snd w) \<and> linked w"

text \<open>What the coordinator can do to the runtime: nothing, or reopen its admission.\<close>

definition reopened :: "conv_runtime \<Rightarrow> conv_runtime \<Rightarrow> bool" where
  "reopened rt rt' \<longleftrightarrow> (\<exists>o' acc. rt' = rt\<lparr>rt_owner := o', rt_accepting := acc\<rparr>)"

lemma reopened_resume: "resume_after_restart_cancel t rt = Inr rt' \<Longrightarrow> reopened rt rt'"
  by (auto simp: resume_after_restart_cancel_def reopened_def split: if_splits)

lemma reopened_refl [simp]: "reopened rt rt"
  unfolding reopened_def by (rule exI [of _ "rt_owner rt"], rule exI [of _ "rt_accepting rt"]) simp

lemma reopened_fields:
  assumes "reopened rt rt'"
  shows "rt_store rt' = rt_store rt" "rt_active rt' = rt_active rt" "rt_results rt' = rt_results rt"
    "rt_history rt' = rt_history rt" "rt_frames rt' = rt_frames rt" "rt_admission rt' = rt_admission rt"
    "rt_tasks rt' = rt_tasks rt" "rt_subs rt' = rt_subs rt" "rt_streams rt' = rt_streams rt"
    "rt_next_stream rt' = rt_next_stream rt" "rt_interrupts rt' = rt_interrupts rt"
    "rt_cancelling rt' = rt_cancelling rt" "rt_queue_size rt' = rt_queue_size rt"
  using assms by (auto simp: reopened_def)

lemma running_reopened: "running t th rt \<Longrightarrow> reopened rt rt' \<Longrightarrow> running t th rt'"
  by (rule running_update) (simp_all add: reopened_fields)

lemma runtime_ok_cong:
  assumes ok: "runtime_ok rt" and "rt_results rt' = rt_results rt" "rt_history rt' = rt_history rt"
    and "rt_subs rt' = rt_subs rt" "rt_streams rt' = rt_streams rt" "rt_next_stream rt' = rt_next_stream rt"
    and "rt_tasks rt' = rt_tasks rt" "rt_active rt' = rt_active rt" "rt_frames rt' = rt_frames rt"
    and "rt_store rt' = rt_store rt" "rt_admission rt' = rt_admission rt"
  shows "runtime_ok rt'"
proof -
  have "shared_ok rt'"
    using ok streams_update [of rt' rt] assms by (simp add: runtime_ok_def shared_ok_def)
  moreover have "turn_ok rt' t" for t
    by (rule turn_ok_cong [of rt]) (use ok assms in \<open>simp_all add: runtime_ok_def\<close>)
  ultimately show ?thesis using ok assms by (simp add: runtime_ok_def threads_wf_def admission_wf_def)
qed

lemma runtime_ok_reopened: "runtime_ok rt \<Longrightarrow> reopened rt rt' \<Longrightarrow> runtime_ok rt'"
  by (rule runtime_ok_cong) (simp_all add: reopened_fields)

section \<open>The end of a turn\<close>

lemma linked_shrink:
  assumes l: "linked (co, rt)" and o: "rt_owner rt' = rt_owner rt" "rt_accepting rt' = rt_accepting rt"
    and t: "set (rt_tasks rt') \<subseteq> set (rt_tasks rt)"
    and s: "\<And>q r. holds_record q r (rt_store rt) \<Longrightarrow> tr_status r = TCompleted \<Longrightarrow> holds_record q r (rt_store rt')"
  shows "linked (co, rt')"
proof -
  have "admission_ok rt'" using l o t unfolding linked_def admission_ok_def by auto
  moreover have "coordinator_ok c \<and> ra.world_ok (c, rt') \<and> completed_stored c (rt_store rt')" if "co = Some c" for c
  proof -
    have "coordinator_ok c" "ra.world_ok (c, rt)" "completed_stored c (rt_store rt)"
      using l that by (simp_all add: linked_def)
    then show ?thesis using \<open>admission_ok rt'\<close> o s unfolding ra.world_ok_def completed_stored_def by auto
  qed
  ultimately show ?thesis by (simp add: linked_def split: option.splits)
qed

lemma finally_done:
  assumes r: "running t th rt" and h: "holds_record t r (rt_store rt)" "status_terminal (tr_status r)" "tr_thread_id r = th"
    and ad: "rt_admission rt \<noteq> Some t" and l: "linked (co, rt)"
  shows "plane_ok (run_finally whole th t (Inr r) (co, rt))"
    and "rt_results (snd (run_finally whole th t (Inr r) (co, rt))) = (rt_results rt)(t \<mapsto> Settled (result_of r))"
    and "rt_active (snd (run_finally whole th t (Inr r) (co, rt))) = (rt_active rt)(th := None)"
    and "rt_store (snd (run_finally whole th t (Inr r) (co, rt))) = rt_store rt"
proof -
  have id: "tr_id r = t" using holds_id [OF h(1)] .
  have p: "rt_results rt t = Some Pending" using r by (simp add: running_def)
  obtain co1 rt1 where w: "run_finally whole th t (Inr r) (co, rt) = (co1, ended th t (complete_turn th r rt1))"
    and re: "reopened rt rt1" and l1: "linked (co1, rt1)"
  proof (cases co)
    case None
    have "run_finally whole th t (Inr r) (co, rt) = (None, ended th t (complete_turn th r rt))"
      by (simp add: None run_finally_def ended_def Let_def)
    then show ?thesis using that [OF _ reopened_refl] l None by simp
  next
    case (Some c)
    obtain e c1 rt1 where m: "mark_turn_terminal resume_after_restart_cancel whole t (status_text (tr_status r)) (c, rt) = (e, c1, rt1)"
      by (metis prod_cases3)
    have ok: "coordinator_ok c" "ra.world_ok (c, rt)" "completed_stored c (rt_store rt)" using l Some by (simp_all add: linked_def)
    have f: "e = None \<and> coordinator_ok c1 \<and> ra.world_ok (c1, rt1) \<and>
        (co_turn_completed c1 \<longrightarrow> co_turn_completed c \<or> (status_text (tr_status r) = lit ''completed'' \<and> pending_is t c)) \<and>
        (co_pending c1 \<noteq> None \<longrightarrow> co_pending c1 = co_pending c) \<and>
        (rt1 = rt \<or> (\<exists>q. co_pending c = Some q \<and> resume_after_restart_cancel (rq_turn_id q) rt = Inr rt1))"
      by (rule ra.mark_turn_terminal_ok [OF ok(1,2) m])
    have re: "reopened rt rt1" using f reopened_resume reopened_refl by blast
    have "completed_stored c1 (rt_store rt1)"
      unfolding completed_stored_def
    proof
      assume fin: "co_turn_completed c1"
      then have pend: "co_pending c1 \<noteq> None" using f completed_pending by blast
      have "co_turn_completed c \<or> (tr_status r = TCompleted \<and> pending_is t c)"
        using f fin status_text_inj [of "tr_status r" TCompleted] by auto
      then show "\<exists>q r. co_pending c1 = Some q \<and> holds_record (rq_turn_id q) r (rt_store rt1) \<and> tr_status r = TCompleted"
      proof
        assume "co_turn_completed c"
        then show ?thesis using ok(3) pend f reopened_fields(1) [OF re] unfolding completed_stored_def by auto
      next
        assume "tr_status r = TCompleted \<and> pending_is t c"
        then show ?thesis using pend f h(1) reopened_fields(1) [OF re] by (auto simp: pending_is_def split: option.splits)
      qed
    qed
    then have "linked (Some c1, rt1)" using f by (simp add: linked_def ra.world_ok_def)
    moreover have "run_finally whole th t (Inr r) (co, rt) = (Some c1, ended th t (complete_turn th r rt1))"
      using m f by (simp add: Some run_finally_def ended_def Let_def)
    ultimately show ?thesis using that re by blast
  qed
  note rf = reopened_fields [OF re]
  have r1: "running t th rt1" by (rule running_reopened [OF r re])
  have p1: "rt_results rt1 t = Some Pending" using p rf by simp
  note cf = complete_turn_fields [OF p1 id]
  have "runtime_ok (ended th t (complete_turn th r rt1))"
    by (rule completed_ok [OF r1]) (use h ad rf in simp_all)
  moreover have "linked (co1, ended th t (complete_turn th r rt1))"
    by (rule linked_shrink [OF l1]) (auto simp: cf)
  ultimately show "plane_ok (run_finally whole th t (Inr r) (co, rt))" by (simp add: w plane_ok_def)
  show "rt_results (snd (run_finally whole th t (Inr r) (co, rt))) = (rt_results rt)(t \<mapsto> Settled (result_of r))"
    "rt_active (snd (run_finally whole th t (Inr r) (co, rt))) = (rt_active rt)(th := None)"
    "rt_store (snd (run_finally whole th t (Inr r) (co, rt))) = rt_store rt"
    by (simp_all add: w cf rf)
qed

lemma finally_broken:
  assumes r: "running t th rt" and e: "read_turn t (rt_store rt) = Inl err" and ad: "rt_admission rt \<noteq> Some t"
    and l: "linked (co, rt)"
  shows "plane_ok (run_finally whole th t (Inl fatal) (co, rt))"
    and "\<exists>x. rt_results (snd (run_finally whole th t (Inl fatal) (co, rt))) = (rt_results rt)(t \<mapsto> Broken x)"
    and "rt_active (snd (run_finally whole th t (Inl fatal) (co, rt))) = (rt_active rt)(th := None)"
proof -
  have p: "rt_results rt t = Some Pending" using r by (simp add: running_def)
  obtain x where w: "run_finally whole th t (Inl fatal) (co, rt) =
      (co, ended th t (fail_streams t x (settle_future t (Broken x) rt)))"
    by (auto simp: run_finally_def ended_def Let_def)
  let ?rt = "ended th t (fail_streams t x (settle_future t (Broken x) rt))"
  have "runtime_ok ?rt" by (rule broken_ok [OF r e ad])
  moreover have "linked (co, ?rt)"
    by (rule linked_shrink [OF l]) (auto simp: fail_streams_def)
  ultimately show "plane_ok (run_finally whole th t (Inl fatal) (co, rt))" by (simp add: w plane_ok_def)
  show "\<exists>x. rt_results (snd (run_finally whole th t (Inl fatal) (co, rt))) = (rt_results rt)(t \<mapsto> Broken x)"
    by (rule exI [of _ x]) (simp add: w fail_streams_def settle_results p)
  show "rt_active (snd (run_finally whole th t (Inl fatal) (co, rt))) = (rt_active rt)(th := None)"
    by (simp add: w fail_streams_def)
qed

section \<open>The handlers\<close>

lemma update_snd: "\<forall>i \<in> set (map snd xs). P i \<Longrightarrow> P v \<Longrightarrow> \<forall>i \<in> set (map snd (AList.update k v xs)). P i"
  by (induction xs) auto

lemma close_items_ok:
  assumes "close_items th t st is' obs rt = (obs', rt')" and "running t th rt"
    and "\<forall>i \<in> set (map snd obs). ti_id i \<noteq> []"
  shows "running t th rt' \<and> rt_store rt' = rt_store rt \<and> rt_admission rt' = rt_admission rt \<and>
    rt_owner rt' = rt_owner rt \<and> rt_accepting rt' = rt_accepting rt \<and> rt_tasks rt' = rt_tasks rt \<and>
    rt_results rt' = rt_results rt \<and> rt_active rt' = rt_active rt \<and> (\<forall>i \<in> set (map snd obs'). ti_id i \<noteq> [])"
  using assms
proof (induction th t st is' obs rt rule: close_items.induct)
  case (1 th t st obs rt)
  then show ?case by simp
next
  case (2 th t st i is' obs rt)
  show ?case
  proof (cases "map_of obs i")
    case None
    then show ?thesis using 2 by simp
  next
    case (Some item)
    let ?c = "item\<lparr>ti_data := dict_set (lit ''status'') (JStr st) (ti_data item)\<rparr>"
    let ?rt = "publish_event (turn_event_of ''item/completed'' th t (ItemData ?c)) rt"
    have "ti_id item \<noteq> []" using 2(5) map_of_SomeD [OF Some] by force
    then have obs: "\<forall>i \<in> set (map snd (AList.update i ?c obs)). ti_id i \<noteq> []"
      using 2(5) by (intro update_snd) simp_all
    have r: "running t th ?rt" by (rule running_publish [OF 2(4)]) (simp_all add: completed_event_def)
    have "close_items th t st is' (AList.update i ?c obs) ?rt = (obs', rt')" using 2(3) Some by (simp add: Let_def)
    from 2(2) [OF Some refl this r obs] show ?thesis by simp
  qed
qed

lemma release_admission_fields [simp]:
  "rt_store (release_admission t rt) = rt_store rt" "rt_admission (release_admission t rt) \<noteq> Some t"
  "rt_owner (release_admission t rt) = rt_owner rt" "rt_accepting (release_admission t rt) = rt_accepting rt"
  "rt_tasks (release_admission t rt) = rt_tasks rt" "rt_results (release_admission t rt) = rt_results rt"
  "rt_active (release_admission t rt) = rt_active rt" "rt_interrupts (release_admission t rt) = rt_interrupts rt"
  "rt_frames (release_admission t rt) = rt_frames rt"
  by (simp_all add: release_admission_def)

lemma running_release: "running t th rt \<Longrightarrow> running t th (release_admission t rt)"
  by (rule running_update [of t th rt]) (auto simp: release_admission_def)

lemma running_store:
  assumes "running t th rt" and "\<And>u. u \<noteq> t \<Longrightarrow> row_by tw_id u (turns db) = row_by tw_id u (turns (rt_store rt))"
  shows "running t th (rt\<lparr>rt_store := db\<rparr>)"
  by (rule running_update [of t th rt "rt\<lparr>rt_store := db\<rparr>", OF assms(1)]) (simp_all add: assms(2))

text \<open>A terminal transition of the running turn, then the \<open>finally\<close> block.\<close>

lemma linked_store:
  assumes l: "linked (co, rt)" and h: "holds_record t r (rt_store rt)" "tr_status r \<noteq> TCompleted"
    and row: "\<And>u. u \<noteq> t \<Longrightarrow> row_by tw_id u (turns db) = row_by tw_id u (turns (rt_store rt))"
  shows "linked (co, rt\<lparr>rt_store := db\<rparr>)"
proof (rule linked_shrink [OF l])
  fix q x assume q: "holds_record q x (rt_store rt)" "tr_status x = TCompleted"
  have "q \<noteq> t" using q h holds_unique by metis
  then show "holds_record q x (rt_store (rt\<lparr>rt_store := db\<rparr>))" using q(1) row by (simp add: holds_record_def)
qed simp_all

lemma terminal_finally:
  assumes r: "running t th rt" and h: "holds_record t r (rt_store rt)" "tr_thread_id r = th"
    and s: "turn_step (tr_status r) st" "status_terminal st" and f: "st = TFailed \<Longrightarrow> tp_error p \<noteq> None"
    and pk: "patch_ok p" and ad: "rt_admission rt \<noteq> Some t" and l: "linked (co, rt)"
  shows "\<exists>r' db. transition_turn t (tr_status r) st (Some th) p now (rt_store rt) = (Inr r', db) \<and> tr_status r' = st \<and> tr_thread_id r' = th \<and>
    plane_ok (run_finally whole th t (Inr r') (co, rt\<lparr>rt_store := db\<rparr>)) \<and>
    rt_results (snd (run_finally whole th t (Inr r') (co, rt\<lparr>rt_store := db\<rparr>))) = (rt_results rt)(t \<mapsto> Settled (result_of r')) \<and>
    rt_active (snd (run_finally whole th t (Inr r') (co, rt\<lparr>rt_store := db\<rparr>))) = (rt_active rt)(th := None) \<and>
    holds_record t r' (rt_store (snd (run_finally whole th t (Inr r') (co, rt\<lparr>rt_store := db\<rparr>)))) \<and>
    (\<forall>u. u \<noteq> t \<longrightarrow> row_by tw_id u (turns (rt_store (snd (run_finally whole th t (Inr r') (co, rt\<lparr>rt_store := db\<rparr>))))) =
       row_by tw_id u (turns (rt_store rt)))"
proof -
  have thr: "Some th = None \<or> Some th = Some (tr_thread_id r)" using h(2) by simp
  let ?t = "transition_turn t (tr_status r) st (Some th) p now (rt_store rt)"
  let ?r = "patch_record st p now r"
  note tr = transition_holds [OF h(1) s(1) f thr pk, where now = now]
  have e: "?t = (Inr ?r, snd ?t)" using tr(1) by (metis prod.collapse)
  let ?rt = "rt\<lparr>rt_store := snd ?t\<rparr>"
  have r1: "running t th ?rt" by (rule running_store [OF r tr(3)])
  have nc: "tr_status r \<noteq> TCompleted" using s(1) by (auto simp: turn_step_def)
  have l1: "linked (co, ?rt)" by (rule linked_store [OF l h(1) nc tr(3)])
  have h1: "holds_record t ?r (rt_store ?rt)" "status_terminal (tr_status ?r)" "tr_thread_id ?r = th"
    using tr(2) s(2) h(2) by simp_all
  have ad1: "rt_admission ?rt \<noteq> Some t" using ad by simp
  note fd = finally_done [OF r1 h1 ad1 l1, of whole]
  show ?thesis using e fd tr(2,3) h1(3) by (intro exI [of _ ?r] exI [of _ "snd ?t"]) simp
qed

end
