(* ===== verification/PlaneSteps.thy ===== *)
theory PlaneSteps
  imports PlaneProofs
begin

text \<open>
  The operations of the control plane as steps, and the proof that each keeps the invariant: the
  handlers and the success path of a turn, starting one, subscribing, interrupting, shutting down,
  and the reports the restart coordinator receives.
\<close>

section \<open>The handlers of a running turn\<close>

lemma run_failed_ok:
  assumes r: "running t th rt" and h: "holds_record t r (rt_store rt)" "tr_thread_id r = th" "tr_status r = TInProgress"
    and f: "frame_ok f" "tq_thread_id (rf_request f) = th" and l: "linked (co, rt)"
  shows "plane_ok (run_failed whole now t f exc (co, rt)) \<and>
    (\<exists>v. v \<noteq> Pending \<and> rt_results (snd (run_failed whole now t f exc (co, rt))) = (rt_results rt)(t \<mapsto> v)) \<and>
    rt_active (snd (run_failed whole now t f exc (co, rt))) = (rt_active rt)(th := None)"
proof -
  let ?rt = "release_admission t rt"
  obtain obs rt1 where c: "close_items th t (status_text TFailed) (rf_open f) (rf_observed f) ?rt = (obs, rt1)"
    by (metis prod.exhaust)
  have "\<forall>i \<in> set (map snd (rf_observed f)). ti_id i \<noteq> []" using f(1) by (simp add: frame_ok_def)
  from close_items_ok [OF c running_release [OF r] this]
  have r1: "running t th rt1" and eq: "rt_store rt1 = rt_store rt" "rt_admission rt1 = rt_admission ?rt" "rt_owner rt1 = rt_owner rt"
      "rt_accepting rt1 = rt_accepting rt" "rt_tasks rt1 = rt_tasks rt" "rt_results rt1 = rt_results rt" "rt_active rt1 = rt_active rt"
    and ids: "\<forall>i \<in> set (map snd obs). ti_id i \<noteq> []" by simp_all
  have ad: "rt_admission rt1 \<noteq> Some t" using eq(2) by simp
  have l1: "linked (co, rt1)" by (rule linked_shrink [OF l]) (simp_all add: eq)
  have h1: "holds_record t r (rt_store rt1)" using h(1) eq(1) by simp
  obtain ty msg retry where ep: "error_parts exc = (ty, msg, retry)" by (metis prod_cases3)
  define err where "err = \<lparr>te_type = ty, te_message = msg, te_retryable = retry, te_data = None\<rparr>"
  define p where "p = plain_patch\<lparr>tp_items := Some (tr_items r @ map snd obs), tp_error := Some err\<rparr>"
  have its: "\<forall>i \<in> set (tr_items r @ map snd obs). ti_id i \<noteq> []"
    using h(1) ids by (auto simp: holds_record_def readable_def)
  have pf: "tp_error p = Some err" "tp_usage p = None" "tp_items p = Some (tr_items r @ map snd obs)"
    by (simp_all add: p_def plain_patch_def)
  have step: "run_failed whole now t f exc (co, rt) =
      (case transition_turn t TInProgress TFailed (Some th) p now (rt_store rt1) of
         (Inl e, db) \<Rightarrow> run_finally whole th t (Inl None) (co, rt1\<lparr>rt_store := db\<rparr>)
       | (Inr r, db) \<Rightarrow> run_finally whole th t (Inr r) (co, rt1\<lparr>rt_store := db\<rparr>))"
    using holds_read [OF h(1)] h(3) c ep by (simp add: run_failed_def Let_def f(2) p_def err_def)
  show ?thesis
  proof (cases "ty = [] \<or> msg = []")
    case True
    have thr: "Some th = None \<or> Some th = Some (tr_thread_id r)" using h(2) by simp
    have bad: "te_type err = [] \<or> te_message err = []" using True by (simp add: err_def)
    note un = transition_unreadable [OF h1 h(3) thr pf(1) bad pf(2,3) its, where now = now]
    let ?t = "transition_turn t TInProgress TFailed (Some th) p now (rt_store rt1)"
    obtain e where e: "?t = (Inl e, snd ?t)" "read_turn t (snd ?t) = Inl e" using un(1) by blast
    let ?rt2 = "rt1\<lparr>rt_store := snd ?t\<rparr>"
    have r2: "running t th ?rt2" by (rule running_store [OF r1 un(2)])
    have nc: "tr_status r \<noteq> TCompleted" using h(3) by simp
    have l2: "linked (co, ?rt2)" by (rule linked_store [OF l1 h1 nc un(2)])
    have e2: "read_turn t (rt_store ?rt2) = Inl e" and ad2: "rt_admission ?rt2 \<noteq> Some t" using e(2) ad by simp_all
    have "run_failed whole now t f exc (co, rt) = run_finally whole th t (Inl None) (co, ?rt2)"
      unfolding step by (subst e(1)) simp
    then show ?thesis using finally_broken [OF r2 e2 ad2 l2, of whole None] eq by (auto intro: exI [of _ "Broken _"])
  next
    case False
    have "turn_step (tr_status r) TFailed" "status_terminal TFailed" by (simp_all add: h(3) turn_step_def status_terminal_def)
    moreover have "patch_ok p" using pf its False by (simp add: patch_ok_def err_def)
    ultimately obtain r' db where "transition_turn t (tr_status r) TFailed (Some th) p now (rt_store rt1) = (Inr r', db)"
      "plane_ok (run_finally whole th t (Inr r') (co, rt1\<lparr>rt_store := db\<rparr>))"
      "rt_results (snd (run_finally whole th t (Inr r') (co, rt1\<lparr>rt_store := db\<rparr>))) = (rt_results rt1)(t \<mapsto> Settled (result_of r'))"
      "rt_active (snd (run_finally whole th t (Inr r') (co, rt1\<lparr>rt_store := db\<rparr>))) = (rt_active rt1)(th := None)"
      using terminal_finally [OF r1 h1 h(2) _ _ _ _ ad l1, of TFailed p now whole] pf(1) by blast
    then show ?thesis using step h(3) eq by (auto intro: exI [of _ "Settled (result_of r')"])
  qed
qed

lemma run_cancelled_ok:
  assumes r: "running t th rt" and h: "holds_record t r (rt_store rt)" "tr_thread_id r = th" "tr_status r \<in> {TQueued, TInProgress}"
    and f: "frame_ok f" "tq_thread_id (rf_request f) = th" and l: "linked (co, rt)"
  shows "plane_ok (run_cancelled whole now t f (co, rt)) \<and>
    (\<exists>r'. rt_results (snd (run_cancelled whole now t f (co, rt))) = (rt_results rt)(t \<mapsto> Settled (result_of r')) \<and>
       holds_record t r' (rt_store (snd (run_cancelled whole now t f (co, rt)))) \<and> tr_thread_id r' = th \<and>
       tr_status r' = (if tr_status r = TInProgress \<and> t \<in> set (rt_interrupts rt) then TInterrupted else TCancelled)) \<and>
    rt_active (snd (run_cancelled whole now t f (co, rt))) = (rt_active rt)(th := None)"
proof -
  let ?rt = "release_admission t rt"
  define st where "st = (if tr_status r = TInProgress \<and> t \<in> set (rt_interrupts rt) then TInterrupted else TCancelled)"
  obtain obs rt1 where c: "close_items th t (status_text st) (rf_open f) (rf_observed f) ?rt = (obs, rt1)"
    by (metis prod.exhaust)
  have "\<forall>i \<in> set (map snd (rf_observed f)). ti_id i \<noteq> []" using f(1) by (simp add: frame_ok_def)
  from close_items_ok [OF c running_release [OF r] this]
  have r1: "running t th rt1" and eq: "rt_store rt1 = rt_store rt" "rt_admission rt1 = rt_admission ?rt" "rt_owner rt1 = rt_owner rt"
      "rt_accepting rt1 = rt_accepting rt" "rt_tasks rt1 = rt_tasks rt" "rt_results rt1 = rt_results rt" "rt_active rt1 = rt_active rt"
    and ids: "\<forall>i \<in> set (map snd obs). ti_id i \<noteq> []" by simp_all
  have ad: "rt_admission rt1 \<noteq> Some t" using eq(2) by simp
  have l1: "linked (co, rt1)" by (rule linked_shrink [OF l]) (simp_all add: eq)
  have h1: "holds_record t r (rt_store rt1)" using h(1) eq(1) by simp
  define p where "p = plain_patch\<lparr>tp_items := Some (tr_items r @ map snd obs)\<rparr>"
  have "\<forall>i \<in> set (tr_items r @ map snd obs). ti_id i \<noteq> []"
    using h(1) ids by (auto simp: holds_record_def readable_def)
  then have pk: "patch_ok p" by (simp add: p_def plain_patch_def patch_ok_def)
  have nt: "\<not> status_terminal (tr_status r)" using h(3) by (auto simp: status_terminal_def)
  have step: "run_cancelled whole now t f (co, rt) =
      (case transition_turn t (tr_status r) st (Some th) p now (rt_store rt1) of
         (Inl e, db) \<Rightarrow> run_finally whole th t (Inl None) (co, rt1\<lparr>rt_store := db\<rparr>)
       | (Inr r, db) \<Rightarrow> run_finally whole th t (Inr r) (co, rt1\<lparr>rt_store := db\<rparr>))"
    using holds_read [OF h(1)] nt c by (simp add: run_cancelled_def Let_def f(2) p_def st_def)
  have "turn_step (tr_status r) st" "status_terminal st" "st \<noteq> TFailed"
    using h(3) by (auto simp: st_def turn_step_def status_terminal_def)
  then obtain r' db where "transition_turn t (tr_status r) st (Some th) p now (rt_store rt1) = (Inr r', db)" "tr_status r' = st" "tr_thread_id r' = th"
      "plane_ok (run_finally whole th t (Inr r') (co, rt1\<lparr>rt_store := db\<rparr>))"
      "rt_results (snd (run_finally whole th t (Inr r') (co, rt1\<lparr>rt_store := db\<rparr>))) = (rt_results rt1)(t \<mapsto> Settled (result_of r'))"
      "rt_active (snd (run_finally whole th t (Inr r') (co, rt1\<lparr>rt_store := db\<rparr>))) = (rt_active rt1)(th := None)"
      "holds_record t r' (rt_store (snd (run_finally whole th t (Inr r') (co, rt1\<lparr>rt_store := db\<rparr>))))"
    using terminal_finally [OF r1 h1 h(2) _ _ _ pk ad l1, of st now whole] by blast
  then show ?thesis using step eq st_def by auto
qed

text \<open>What the success path publishes belongs to the turn and does not complete it.\<close>

lemma result_events_plain:
  "\<forall>ev \<in> set (result_events th t live ex a). tv_turn_id ev = t \<and> \<not> completed_event ev"
  by (auto simp: result_events_def completed_event_def Let_def)

lemma publish_all_fields [simp]:
  "rt_store (publish_all evs rt) = rt_store rt" "rt_admission (publish_all evs rt) = rt_admission rt"
  "rt_owner (publish_all evs rt) = rt_owner rt" "rt_accepting (publish_all evs rt) = rt_accepting rt"
  "rt_tasks (publish_all evs rt) = rt_tasks rt" "rt_results (publish_all evs rt) = rt_results rt"
  "rt_active (publish_all evs rt) = rt_active rt" "rt_frames (publish_all evs rt) = rt_frames rt"
  by (induction evs arbitrary: rt) simp_all

definition execution_ok :: "execution_result \<Rightarrow> bool" where
  "execution_ok ex \<longleftrightarrow> (\<forall>i \<in> set (ex_items ex). ti_id i \<noteq> []) \<and>
     (case ex_usage ex of None \<Rightarrow> True | Some u \<Rightarrow> usage_valid u = Inr ())"

lemma run_returned_ok:
  assumes r: "running t th rt" and h: "holds_record t r (rt_store rt)" "tr_thread_id r = th" "tr_status r = TInProgress"
    and f: "frame_ok f" "tq_thread_id (rf_request f) = th" and l: "linked (co, rt)"
    and ex: "execution_ok ex" "i \<noteq> []"
  shows "plane_ok (run_returned whole now now' i ex t f (co, rt)) \<and>
    (\<exists>v. v \<noteq> Pending \<and> rt_results (snd (run_returned whole now now' i ex t f (co, rt))) = (rt_results rt)(t \<mapsto> v)) \<and>
    rt_active (snd (run_returned whole now now' i ex t f (co, rt))) = (rt_active rt)(th := None)"
    and "rf_open f = [] \<Longrightarrow> \<exists>r'. rt_results (snd (run_returned whole now now' i ex t f (co, rt))) =
      (rt_results rt)(t \<mapsto> Settled (result_of r')) \<and> tr_status r' = TCompleted"
proof -
  let ?a = "\<lparr>ti_kind = AssistantMessage, ti_id = i, ti_data = dict_update [(lit ''content'', JStr (ex_response ex))] (ex_assistant_data ex)\<rparr>"
  let ?rt = "publish_all (result_events th t (rf_live f) ex ?a) rt"
  have good: "\<exists>r'. plane_ok (run_returned whole now now' i ex t f (co, rt)) \<and>
      rt_results (snd (run_returned whole now now' i ex t f (co, rt))) = (rt_results rt)(t \<mapsto> Settled (result_of r')) \<and>
      tr_status r' = TCompleted \<and>
      rt_active (snd (run_returned whole now now' i ex t f (co, rt))) = (rt_active rt)(th := None)" if "rf_open f = []"
  proof -
    let ?rr = "release_admission t ?rt"
    have rr: "running t th ?rr" by (rule running_release, rule running_publish_all [OF r result_events_plain])
    have hr: "holds_record t r (rt_store ?rr)" using h(1) by simp
    have lr: "linked (co, ?rr)" by (rule linked_shrink [OF l]) simp_all
    define p where "p = plain_patch\<lparr>tp_items := Some (rf_items f @ ex_items ex @ [?a]), tp_usage := ex_usage ex,
      tp_final_response := Some (ex_response ex)\<rparr>"
    have pk: "patch_ok p"
      using f(1) ex by (auto simp: p_def plain_patch_def patch_ok_def frame_ok_def execution_ok_def split: option.splits)
    have ad: "rt_admission ?rr \<noteq> Some t" by simp
    have "turn_step (tr_status r) TCompleted" "status_terminal TCompleted" "TCompleted \<noteq> TFailed"
      by (simp_all add: h(3) turn_step_def status_terminal_def)
    then obtain r' db where w: "transition_turn t (tr_status r) TCompleted (Some th) p now (rt_store ?rr) = (Inr r', db)"
        "tr_status r' = TCompleted"
        "plane_ok (run_finally whole th t (Inr r') (co, ?rr\<lparr>rt_store := db\<rparr>))"
        "rt_results (snd (run_finally whole th t (Inr r') (co, ?rr\<lparr>rt_store := db\<rparr>))) = (rt_results ?rr)(t \<mapsto> Settled (result_of r'))"
        "rt_active (snd (run_finally whole th t (Inr r') (co, ?rr\<lparr>rt_store := db\<rparr>))) = (rt_active ?rr)(th := None)"
      using terminal_finally [OF rr hr h(2) _ _ _ pk ad lr, of TCompleted now whole] by blast
    have "release_admission t (?rt\<lparr>rt_store := db\<rparr>) = ?rr\<lparr>rt_store := db\<rparr>" by (simp add: release_admission_def)
    then have "run_returned whole now now' i ex t f (co, rt) = run_finally whole th t (Inr r') (co, ?rr\<lparr>rt_store := db\<rparr>)"
      using w(1) h(3) that by (simp add: run_returned_def Let_def f(2) p_def)
    then show ?thesis using w(2-5) by (intro exI [of _ r']) simp
  qed
  then show "rf_open f = [] \<Longrightarrow> \<exists>r'. rt_results (snd (run_returned whole now now' i ex t f (co, rt))) =
      (rt_results rt)(t \<mapsto> Settled (result_of r')) \<and> tr_status r' = TCompleted" by blast
  show "plane_ok (run_returned whole now now' i ex t f (co, rt)) \<and>
    (\<exists>v. v \<noteq> Pending \<and> rt_results (snd (run_returned whole now now' i ex t f (co, rt))) = (rt_results rt)(t \<mapsto> v)) \<and>
    rt_active (snd (run_returned whole now now' i ex t f (co, rt))) = (rt_active rt)(th := None)"
  proof (cases "rf_open f = []")
    case True
    then show ?thesis using good by blast
  next
    case False
    then show ?thesis using run_failed_ok [OF r h f l] by (simp add: run_returned_def Let_def)
  qed
qed

section \<open>Taking the admission and publishing items\<close>

lemma ok_with_frame:
  assumes r: "running t th rt" and h: "holds_record t r (rt_store rt)" "tr_thread_id r = th"
    and f: "rt_frames rt t = Some f" "frame_ok f" "tq_thread_id (rf_request f) = th"
    and st: "tr_status r = (if rf_stage f = Executing then TInProgress else TQueued)"
    and ad: "rt_admission rt = Some t \<longleftrightarrow> rf_stage f = Executing"
  shows "runtime_ok rt"
proof (rule ok_of_running [OF r])
  show "active_record rt t r" using r h f st by (simp add: active_record_def running_def)
  show "rt_admission rt = Some t \<longleftrightarrow> (\<exists>f. rt_frames rt t = Some f \<and> rf_stage f = Executing)" using f(1) ad by simp
qed

lemma linked_fields:
  assumes "linked (co, rt)" "rt_owner rt' = rt_owner rt" "rt_accepting rt' = rt_accepting rt"
    and "set (rt_tasks rt') \<subseteq> set (rt_tasks rt)" "rt_store rt' = rt_store rt"
  shows "linked (co, rt')"
  using assms by (intro linked_shrink [OF assms(1)]) simp_all

lemma put_frame_fields [simp]:
  "rt_store (put_frame t f rt) = rt_store rt" "rt_owner (put_frame t f rt) = rt_owner rt"
  "rt_accepting (put_frame t f rt) = rt_accepting rt" "rt_tasks (put_frame t f rt) = rt_tasks rt"
  "rt_admission (put_frame t f rt) = rt_admission rt" "rt_results (put_frame t f rt) = rt_results rt"
  "rt_active (put_frame t f rt) = rt_active rt" "rt_frames (put_frame t f rt) = (rt_frames rt)(t \<mapsto> f)"
  by (simp_all add: put_frame_def)

lemma running_put_frame: "running t th rt \<Longrightarrow> running t th (put_frame t f rt)"
  by (rule running_update [of t th rt]) (auto simp: put_frame_def)

lemma run_admitted_ok:
  assumes ok: "plane_ok (co, rt)" and f: "rt_frames rt t = Some f" "rf_stage f = WaitingAdmission"
    and free: "rt_admission rt = None"
  shows "plane_ok (run_admitted whole now now' t f (co, rt))"
proof -
  let ?th = "tq_thread_id (rf_request f)"
  have rok: "runtime_ok rt" and l: "linked (co, rt)" using ok by (simp_all add: plane_ok_def)
  note rf = running_of_ok [OF rok f(1)]
  obtain r where h: "holds_record t r (rt_store rt)" "tr_thread_id r = ?th" "tr_status r = TQueued"
    using rf(3) f(2) by auto
  let ?rt0 = "rt\<lparr>rt_admission := Some t\<rparr>"
  have r0: "running t ?th ?rt0" by (rule running_update [OF rf(1)]) (use free in simp_all)
  have thr: "Some ?th = None \<or> Some ?th = Some (tr_thread_id r)" using h(2) by simp
  have step: "turn_step (tr_status r) TInProgress" "TInProgress = TFailed \<Longrightarrow> tp_error plain_patch \<noteq> None"
    by (simp_all add: h(3) turn_step_def)
  have pk: "patch_ok plain_patch" by (simp add: patch_ok_def plain_patch_def)
  note tr = transition_holds [OF h(1) step thr pk, where now = now]
  let ?r = "patch_record TInProgress plain_patch now r"
  obtain db where e: "transition_turn t TQueued TInProgress (Some ?th) plain_patch now (rt_store rt) = (Inr ?r, db)"
    using tr(1) h(3) by (metis prod.collapse)
  have h1: "holds_record t ?r db" using tr(2) e h(3) by simp
  have row: "row_by tw_id u (turns db) = row_by tw_id u (turns (rt_store rt))" if "u \<noteq> t" for u
    using tr(3) [of u] that e h(3) by simp
  let ?rt1 = "?rt0\<lparr>rt_store := db\<rparr>"
  have r1: "running t ?th ?rt1" by (rule running_store [OF r0]) (use row in simp)
  let ?ev = "turn_event_of ''turn/started'' ?th t (TurnData ?r)"
  let ?f = "f\<lparr>rf_stage := Executing, rf_items := tr_items ?r\<rparr>"
  let ?rt2 = "put_frame t ?f (publish_event ?ev ?rt1)"
  have r2: "running t ?th ?rt2"
    by (rule running_put_frame, rule running_publish [OF r1]) (simp_all add: completed_event_def)
  have "tr_items ?r = tr_items r" by (simp add: patch_record_def plain_patch_def)
  then have fok: "frame_ok ?f" using rf(2) h(1) by (simp add: frame_ok_def holds_record_def readable_def)
  have "runtime_ok ?rt2"
    by (rule ok_with_frame [OF r2, where r = ?r and f = ?f]) (use h1 h(2) fok in simp_all)
  moreover have nc: "tr_status r \<noteq> TCompleted" using h(3) by simp
  have "linked (co, rt\<lparr>rt_store := db\<rparr>)" by (rule linked_store [OF l h(1) nc row])
  then have "linked (co, ?rt2)" by (rule linked_fields) simp_all
  moreover have "run_admitted whole now now' t f (co, rt) = (co, ?rt2)"
    by (simp add: run_admitted_def Let_def e)
  ultimately show ?thesis by (simp add: plane_ok_def)
qed

lemma publish_item_ok:
  assumes ok: "plane_ok (co, rt)" and f: "rt_frames rt t = Some f" "rf_stage f = Executing" and i: "ti_id item \<noteq> []"
  shows "plane_ok (snd (publish_item method item t f (co, rt)))"
proof -
  let ?th = "tq_thread_id (rf_request f)"
  have rok: "runtime_ok rt" and l: "linked (co, rt)" using ok by (simp_all add: plane_ok_def)
  note rf = running_of_ok [OF rok f(1)]
  obtain r where h: "holds_record t r (rt_store rt)" "tr_thread_id r = ?th" "tr_status r = TInProgress"
    using rf(3) f(2) by auto
  have ad: "rt_admission rt = Some t" using rok f by (auto simp: runtime_ok_def admission_wf_def)
  have one: "plane_ok (co, put_frame t g rt)"
    if g: "frame_ok g" "rf_request g = rf_request f" "rf_stage g = Executing" for g
    using ok_with_frame [OF running_put_frame [OF rf(1), of g], where r = r and f = g] h g ad linked_fields [OF l, of "put_frame t g rt"]
    by (simp add: plane_ok_def)
  have two: "plane_ok (co, publish_event ev (put_frame t g rt))"
    if g: "frame_ok g" "rf_request g = rf_request f" "rf_stage g = Executing" and ev: "tv_turn_id ev = t" "\<not> completed_event ev" for g ev
    using ok_with_frame [OF running_publish [OF running_put_frame [OF rf(1), of g] ev], where r = r and f = g] h g ad
      linked_fields [OF l, of "publish_event ev (put_frame t g rt)"]
    by (simp add: plane_ok_def)
  have obs: "\<forall>x \<in> set (map snd (AList.update (ti_id item) item (rf_observed f))). ti_id x \<noteq> []"
    using rf(2) i by (intro update_snd) (simp_all add: frame_ok_def)
  have fo: "\<forall>x \<in> set (rf_items f). ti_id x \<noteq> []" "\<forall>x \<in> set (map snd (rf_observed f)). ti_id x \<noteq> []"
    using rf(2) by (simp_all add: frame_ok_def)
  let ?live = "f\<lparr>rf_live := ti_id item # rf_live f\<rparr>"
  have refuse: "plane_ok (co, put_frame t ?live rt)" by (rule one) (use fo f(2) in \<open>simp_all add: frame_ok_def\<close>)
  have accept: "plane_ok (co, publish_event \<lparr>tv_method = method, tv_thread_id = ?th, tv_turn_id = t, tv_data = ItemData item\<rparr>
      (put_frame t (?live\<lparr>rf_observed := AList.update (ti_id item) item (rf_observed f), rf_open := opn\<rparr>) rt))"
    if "method = lit ''item/started'' \<or> method = lit ''item/completed''" for opn
    by (rule two) (use that fo(1) obs f(2) in \<open>auto simp: frame_ok_def completed_event_def\<close>)
  show ?thesis
  proof (cases "method = lit ''item/started'' \<or> method = lit ''item/completed''")
    case True
    show ?thesis using True refuse accept [OF True] by (auto simp: publish_item_def Let_def)
  next
    case False
    then show ?thesis using refuse by (simp add: publish_item_def Let_def)
  qed
qed

lemma first_step_ok:
  assumes ok: "plane_ok (co, rt)" and f: "rt_frames rt t = Some f" "rf_stage f = Unstarted"
  shows "plane_ok (run_first_step t f (co, rt))"
proof -
  have rok: "runtime_ok rt" and l: "linked (co, rt)" using ok by (simp_all add: plane_ok_def)
  note rf = running_of_ok [OF rok f(1)]
  obtain r where h: "holds_record t r (rt_store rt)" "tr_thread_id r = tq_thread_id (rf_request f)" "tr_status r = TQueued"
    using rf(3) f(2) by auto
  have ad: "rt_admission rt \<noteq> Some t" using rok f by (auto simp: runtime_ok_def admission_wf_def)
  let ?f = "f\<lparr>rf_stage := WaitingAdmission\<rparr>"
  have "runtime_ok (put_frame t ?f rt)"
    by (rule ok_with_frame [OF running_put_frame [OF rf(1), of ?f], where r = r and f = ?f]) (use h ad rf(2) in \<open>simp_all add: frame_ok_def\<close>)
  moreover have "linked (co, put_frame t ?f rt)" by (rule linked_fields [OF l]) simp_all
  ultimately show ?thesis by (simp add: run_first_step_def plane_ok_def)
qed

text \<open>A task that is cancelled before its first step leaves its turn queued.\<close>

lemma killed_ok:
  assumes ok: "plane_ok (co, rt)" and f: "rt_frames rt t = Some f" "rf_stage f = Unstarted"
  shows "plane_ok (co, end_frame t rt)"
proof -
  have rok: "runtime_ok rt" and l: "linked (co, rt)" using ok by (simp_all add: plane_ok_def)
  note rf = running_of_ok [OF rok f(1)]
  obtain r where h: "holds_record t r (rt_store rt)" "tr_thread_id r = tq_thread_id (rf_request f)" "tr_status r = TQueued"
    using rf(3) f(2) by auto
  have ad: "rt_admission rt \<noteq> Some t" using rok f by (auto simp: runtime_ok_def admission_wf_def)
  have r1: "running t (tq_thread_id (rf_request f)) (end_frame t rt)"
    by (rule running_update [OF rf(1)]) (simp_all add: end_frame_def)
  have "rt_active rt (tr_thread_id r) = Some t" using rf(1) h(2) by (simp add: running_def)
  then have "active_record (end_frame t rt) t r" using h by (simp add: active_record_def end_frame_def)
  then have "runtime_ok (end_frame t rt)" by (rule ok_of_running [OF r1]) (use ad in \<open>simp add: end_frame_def\<close>)
  moreover have "linked (co, end_frame t rt)" by (rule linked_fields [OF l]) (simp_all add: end_frame_def)
  ultimately show ?thesis by (simp add: plane_ok_def)
qed

section \<open>Starting a turn\<close>

definition start_events :: "turn_request \<Rightarrow> pystr \<Rightarrow> turn_item \<Rightarrow> turn_record \<Rightarrow> turn_event list" where
  "start_events req t item r =
     [turn_event_of ''turn/queued'' (tq_thread_id req) t (TurnData r),
      turn_event_of ''item/started'' (tq_thread_id req) t (ItemData item),
      turn_event_of ''item/completed'' (tq_thread_id req) t (ItemData item)]"

lemma publish_commute:
  "(publish_event ev rt)\<lparr>rt_tasks := ts, rt_frames := fs\<rparr> = publish_event ev (rt\<lparr>rt_tasks := ts, rt_frames := fs\<rparr>)"
  by (simp add: publish_event_def Let_def to_subscribers_def history_of_def overflown_def cong: if_cong option.case_cong)

lemma start_turn_cases:
  assumes i: "i \<noteq> []" and s: "start_turn req t i now rt = (res, rt')"
  shows "(\<exists>e. res = Inl e \<and> rt' = rt) \<or>
    (\<exists>item r db. res = Inr (tq_thread_id req, t) \<and> \<not> rt_closed rt \<and> rt_accepting rt \<and> rt_active rt (tq_thread_id req) = None \<and>
       row_by tw_id t (turns (rt_store rt)) = None \<and> ti_id item = i \<and> tr_status r = TQueued \<and>
       tr_thread_id r = tq_thread_id req \<and> holds_record t r db \<and>
       (\<forall>u. u \<noteq> t \<longrightarrow> row_by tw_id u (turns db) = row_by tw_id u (turns (rt_store rt))) \<and>
       rt' = publish_all (start_events req t item r)
         (rt\<lparr>rt_store := db, rt_active := (rt_active rt)(tq_thread_id req \<mapsto> t), rt_busy := tq_thread_id req # rt_busy rt,
            rt_results := (rt_results rt)(t \<mapsto> Pending), rt_history := (rt_history rt)(t \<mapsto> []),
            rt_subs := (rt_subs rt)(t := []), rt_tasks := rt_tasks rt @ [t],
            rt_frames := (rt_frames rt)(t \<mapsto> \<lparr>rf_request = req, rf_stage = Unstarted, rf_items = [],
               rf_observed = [], rf_open = [], rf_live = []\<rparr>)\<rparr>))"
proof -
  let ?th = "tq_thread_id req"
  let ?item = "\<lparr>ti_kind = UserMessage, ti_id = i, ti_data = [(lit ''content'', JStr (tq_input req))]\<rparr>"
  let ?r = "\<lparr>tr_id = t, tr_thread_id = ?th, tr_status = TQueued, tr_input = tq_input req, tr_metadata = tq_metadata req,
      tr_items = [?item], tr_usage = None, tr_error = None, tr_created_at = now, tr_started_at = None,
      tr_completed_at = None, tr_final_response = None\<rparr>"
  show ?thesis
  proof (cases "rt_closed rt \<or> \<not> rt_accepting rt \<or> rt_active rt ?th \<noteq> None")
    case True
    then have "\<exists>e. start_turn req t i now rt = (Inl e, rt)" by (auto simp: start_turn_def Let_def)
    then show ?thesis using s by auto
  next
    case False
    have "(\<exists>e. create_turn ?r (rt_store rt) = (Inl e, rt_store rt) \<and> row_by tw_id (tr_id ?r) (turns (rt_store rt)) \<noteq> None) \<or>
        (row_by tw_id (tr_id ?r) (turns (rt_store rt)) = None \<and> fst (create_turn ?r (rt_store rt)) = Inr ?r \<and>
         holds_record (tr_id ?r) ?r (snd (create_turn ?r (rt_store rt))) \<and>
         (\<forall>j. j \<noteq> tr_id ?r \<longrightarrow> row_by tw_id j (turns (snd (create_turn ?r (rt_store rt)))) = row_by tw_id j (turns (rt_store rt))))"
      by (rule create_holds) (simp_all add: i)
    then show ?thesis
    proof
      assume "\<exists>e. create_turn ?r (rt_store rt) = (Inl e, rt_store rt) \<and> row_by tw_id (tr_id ?r) (turns (rt_store rt)) \<noteq> None"
      then obtain e where "create_turn ?r (rt_store rt) = (Inl e, rt_store rt)" by blast
      then have "start_turn req t i now rt = (Inl e, rt)" using False by (simp add: start_turn_def Let_def)
      then show ?thesis using s by auto
    next
      assume c: "row_by tw_id (tr_id ?r) (turns (rt_store rt)) = None \<and> fst (create_turn ?r (rt_store rt)) = Inr ?r \<and>
         holds_record (tr_id ?r) ?r (snd (create_turn ?r (rt_store rt))) \<and>
         (\<forall>j. j \<noteq> tr_id ?r \<longrightarrow> row_by tw_id j (turns (snd (create_turn ?r (rt_store rt)))) = row_by tw_id j (turns (rt_store rt)))"
      obtain db where db: "create_turn ?r (rt_store rt) = (Inr ?r, db)" using c by (metis prod.collapse)
      have res: "res = Inr (?th, t)" and rt': "rt' = publish_all (start_events req t ?item ?r)
         (rt\<lparr>rt_store := db, rt_active := (rt_active rt)(?th \<mapsto> t), rt_busy := ?th # rt_busy rt,
            rt_results := (rt_results rt)(t \<mapsto> Pending), rt_history := (rt_history rt)(t \<mapsto> []),
            rt_subs := (rt_subs rt)(t := []), rt_tasks := rt_tasks rt @ [t],
            rt_frames := (rt_frames rt)(t \<mapsto> \<lparr>rf_request = req, rf_stage = Unstarted, rf_items = [],
               rf_observed = [], rf_open = [], rf_live = []\<rparr>)\<rparr>)"
        using s False by (auto simp: start_turn_def Let_def db start_events_def publish_commute)
      show ?thesis
        by (rule disjI2, rule exI [of _ ?item], rule exI [of _ ?r], rule exI [of _ db])
          (use c db False res rt' in \<open>simp add: holds_record_def\<close>)
    qed
  qed
qed

lemma turn_row_none:
  assumes "turn_ok rt t" and "row_by tw_id t (turns (rt_store rt)) = None"
  shows "rt_results rt t = None"
proof (cases "rt_results rt t")
  case (Some v)
  then show ?thesis using assms
    by (cases v) (auto simp: turn_ok_def active_record_def holds_record_def read_turn_def ctl_opt_def)
qed simp

lemma start_turn_ok:
  assumes ok: "plane_ok (co, rt)" and i: "i \<noteq> []" and s: "start_turn req t i now rt = (res, rt')"
  shows "plane_ok (co, rt')"
  using start_turn_cases [OF i s]
proof (elim disjE exE conjE)
  fix e assume "rt' = rt"
  then show ?thesis using ok by simp
next
  fix item r db
  let ?th = "tq_thread_id req"
  let ?f = "\<lparr>rf_request = req, rf_stage = Unstarted, rf_items = [], rf_observed = [], rf_open = [], rf_live = []\<rparr>"
  let ?rt = "rt\<lparr>rt_store := db, rt_active := (rt_active rt)(?th \<mapsto> t), rt_busy := ?th # rt_busy rt,
            rt_results := (rt_results rt)(t \<mapsto> Pending), rt_history := (rt_history rt)(t \<mapsto> []),
            rt_subs := (rt_subs rt)(t := []), rt_tasks := rt_tasks rt @ [t], rt_frames := (rt_frames rt)(t \<mapsto> ?f)\<rparr>"
  assume acc: "rt_accepting rt" and idle: "rt_active rt ?th = None" and new: "row_by tw_id t (turns (rt_store rt)) = None"
    and r: "tr_status r = TQueued" "tr_thread_id r = ?th" and h: "holds_record t r db"
    and row: "\<forall>u. u \<noteq> t \<longrightarrow> row_by tw_id u (turns db) = row_by tw_id u (turns (rt_store rt))"
    and rt': "rt' = publish_all (start_events req t item r) ?rt"
  have rok: "runtime_ok rt" and l: "linked (co, rt)" using ok by (simp_all add: plane_ok_def)
  have tok: "turn_ok rt t" using rok by (simp add: runtime_ok_def)
  have none: "rt_results rt t = None" by (rule turn_row_none [OF tok new])
  have clean: "rt_history rt t = None" "rt_subs rt t = []" "rt_frames rt t = None" "t \<notin> set (rt_tasks rt)"
    using tok none by (simp_all add: turn_ok_def)
  have sh: "\<forall>u. streams_at rt u" "subs_wf rt" "distinct (rt_tasks rt)"
    using rok by (simp_all add: runtime_ok_def shared_ok_def)
  have nost: "rt_streams rt a = Some q \<Longrightarrow> sq_turn q \<noteq> t" for a q using subs_wf_history [OF sh(2)] clean(1) by blast
  have "streams_at ?rt u" for u
  proof (cases "u = t")
    case True
    then show ?thesis using nost by (auto simp: streams_at_def)
  next
    case False
    then show ?thesis by (intro streams_at_other [OF spec [OF sh(1), of u]]) (simp_all add: history_of_def)
  qed
  moreover have "subs_wf ?rt" using sh(2) clean(2) by (auto simp: subs_wf_def)
  ultimately have sok: "shared_ok ?rt" using sh(3) clean(4) by (simp add: shared_ok_def)
  have others: "turn_ok ?rt u" if "u \<noteq> t" for u
  proof (rule turn_ok_cong [of rt])
    show "turn_ok rt u" using rok by (simp add: runtime_ok_def)
    show "rt_active ?rt k = Some u" if "rt_active rt k = Some u" for k using that idle by auto
  qed (use that row in simp_all)
  have thr: "rt_results rt u = Some Pending \<and> (\<exists>x. holds_record u x (rt_store rt) \<and> tr_thread_id x = k)"
    if "rt_active rt k = Some u" for k u using rok that by (simp add: runtime_ok_def threads_wf_def)
  have "running t ?th ?rt"
    unfolding running_def
  proof (intro conjI allI impI)
    show "shared_ok ?rt" by (rule sok)
  next
    fix u assume "u \<noteq> t"
    then show "turn_ok ?rt u" by (rule others)
  next
    fix k u assume u: "u \<noteq> t" "rt_active ?rt k = Some u"
    then have k: "rt_active rt k = Some u" by (simp split: if_splits)
    have "holds_record u x (rt_store ?rt) = holds_record u x (rt_store rt)" for x using row u(1) by (simp add: holds_record_def)
    then show "\<exists>x. holds_record u x (rt_store ?rt) \<and> tr_thread_id x = k" using thr [OF k] by simp
    show "rt_results ?rt u = Some Pending" using thr [OF k] u(1) by simp
  next
    fix u assume u: "u \<noteq> t"
    then show "rt_admission ?rt = Some u \<longleftrightarrow> (\<exists>f. rt_frames ?rt u = Some f \<and> rf_stage f = Executing)"
      using rok by (simp add: runtime_ok_def admission_wf_def)
  next
    fix k
    show "rt_active ?rt k = Some t \<longleftrightarrow> k = ?th" using thr none by auto
  qed (auto simp: history_of_def)
  then have run: "running t ?th rt'"
    unfolding rt' by (rule running_publish_all) (simp add: start_events_def completed_event_def)
  have "rt_admission rt \<noteq> Some t" using rok clean(3) by (auto simp: runtime_ok_def admission_wf_def)
  then have "runtime_ok rt'"
    by (intro ok_with_frame [OF run, where r = r and f = ?f]) (use h r in \<open>simp_all add: rt' frame_ok_def\<close>)
  moreover have "linked (co, rt')"
  proof -
    have own: "rt_owner rt = None" using l acc by (auto simp: linked_def admission_ok_def)
    have "admission_ok rt'" using own by (simp add: admission_ok_def rt')
    moreover have "coordinator_ok c \<and> ra.world_ok (c, rt') \<and> completed_stored c (rt_store rt')" if "co = Some c" for c
    proof -
      have c: "coordinator_ok c" "ra.world_ok (c, rt)" using l that by (simp_all add: linked_def)
      have "co_pending c = None" using c(2) own by (auto simp: ra.world_ok_def)
      then have "\<not> co_turn_completed c" using completed_pending [OF c(1)] by blast
      then show ?thesis using c \<open>admission_ok rt'\<close> \<open>co_pending c = None\<close>
        by (simp add: ra.world_ok_def completed_stored_def)
    qed
    ultimately show ?thesis by (simp add: linked_def split: option.splits)
  qed
  ultimately show ?thesis by (simp add: plane_ok_def)
qed

section \<open>Subscribers\<close>

text \<open>A turn is terminal in the store exactly when its future is settled.\<close>

lemma readable_pending:
  assumes t: "turn_ok rt t" and r: "read_turn t (rt_store rt) = Inr (Some r)" and h: "rt_history rt t = Some hs"
  shows "status_terminal (tr_status r) \<longleftrightarrow> rt_results rt t \<noteq> Some Pending"
proof (cases "rt_results rt t")
  case None
  then show ?thesis using t h by (simp add: turn_ok_def)
next
  case (Some v)
  show ?thesis
  proof (cases v)
    case Pending
    then obtain x where x: "active_record rt t x" using t Some by (auto simp: turn_ok_def)
    then have "r = x" using r holds_read [of t x "rt_store rt"] by (simp add: active_record_def)
    then show ?thesis using x Some Pending by (auto simp: active_record_def status_terminal_def split: option.splits if_splits)
  next
    case (Settled w)
    then obtain x where x: "holds_record t x (rt_store rt)" "status_terminal (tr_status x)" using t Some by (auto simp: turn_ok_def)
    then show ?thesis using r holds_read [OF x(1)] Some Settled by simp
  next
    case (Broken e)
    then show ?thesis using t Some r by (simp add: turn_ok_def)
  qed
qed

lemma ok_streams_only:
  assumes ok: "plane_ok (co, rt)" and "rt_results rt' = rt_results rt" "rt_history rt' = rt_history rt"
    and "rt_tasks rt' = rt_tasks rt" "rt_active rt' = rt_active rt" "rt_frames rt' = rt_frames rt" "rt_store rt' = rt_store rt"
    and "rt_admission rt' = rt_admission rt" "rt_owner rt' = rt_owner rt" "rt_accepting rt' = rt_accepting rt"
    and sub: "\<And>t. rt_results rt t = None \<Longrightarrow> rt_subs rt' t = []"
    and st: "\<forall>t. streams_at rt' t" "subs_wf rt'"
  shows "plane_ok (co, rt')"
proof -
  have rok: "runtime_ok rt" and l: "linked (co, rt)" using ok by (simp_all add: plane_ok_def)
  have hist: "history_of rt' = history_of rt" using assms(3) by (simp add: history_of_def fun_eq_iff)
  have "turn_ok rt' t" for t
  proof -
    have t: "turn_ok rt t" using rok by (simp add: runtime_ok_def)
    have ar: "active_record rt' t = active_record rt t"
      unfolding active_record_def by (simp add: assms(2-7) fun_eq_iff)
    show ?thesis using t sub [of t] unfolding turn_ok_def assms(2-7) hist ar
      by (cases "rt_results rt t") simp_all
  qed
  then have "runtime_ok rt'"
    using rok st assms by (simp add: runtime_ok_def shared_ok_def threads_wf_def admission_wf_def)
  moreover have "linked (co, rt')" by (rule linked_fields [OF l]) (simp_all add: assms)
  ultimately show ?thesis by (simp add: plane_ok_def)
qed

lemma subscribe_cases:
  assumes s: "subscribe th t rt = (res, rt')"
  obtains (same) "rt' = rt" | (new) r h a q where "read_turn t (rt_store rt) = Inr (Some r)" "rt_history rt t = Some h" "a = rt_next_stream rt"
      "q = \<lparr>sq_turn = t, sq_items = map SEvent h @ (if status_terminal (tr_status r) then [SEnd] else []), sq_yielded = [], sq_outcome = None\<rparr>"
      "rt' = rt\<lparr>rt_streams := (rt_streams rt)(a \<mapsto> q), rt_next_stream := a + 1,
         rt_subs := (if status_terminal (tr_status r) then rt_subs rt else (rt_subs rt)(t := rt_subs rt t @ [a]))\<rparr>"
proof (cases "runtime_read_turn th t rt")
  case (Inl e)
  then show ?thesis using s same by (simp add: subscribe_def)
next
  case (Inr r)
  then have rd: "read_turn t (rt_store rt) = Inr (Some r)"
    by (auto simp: runtime_read_turn_def Let_def split: sum.splits option.splits if_splits)
  show ?thesis
  proof (cases "rt_history rt t")
    case None
    then show ?thesis using s Inr same by (simp add: subscribe_def split: if_splits)
  next
    case (Some h)
    let ?vs = "map SEvent h @ (if status_terminal (tr_status r) then [SEnd] else [])"
    show ?thesis
    proof (cases "rt_queue_size rt < length ?vs")
      case True
      then have "rt' = rt" using s Inr Some unfolding subscribe_def by (simp add: Let_def)
      then show ?thesis by (rule same)
    next
      case False
      have "rt' = rt\<lparr>rt_streams := (rt_streams rt)(rt_next_stream rt \<mapsto>
             \<lparr>sq_turn = t, sq_items = ?vs, sq_yielded = [], sq_outcome = None\<rparr>), rt_next_stream := rt_next_stream rt + 1,
           rt_subs := (if status_terminal (tr_status r) then rt_subs rt
             else (rt_subs rt)(t := rt_subs rt t @ [rt_next_stream rt]))\<rparr>"
        using s Inr Some False unfolding subscribe_def by (simp add: Let_def split: if_splits)
      then show ?thesis by (rule new [OF rd Some refl refl])
    qed
  qed
qed

lemma subscribe_ok:
  assumes ok: "plane_ok (co, rt)" and s: "subscribe th t rt = (res, rt')"
  shows "plane_ok (co, rt')"
proof -
  have rok: "runtime_ok rt" using ok by (simp add: plane_ok_def)
  have sh: "\<forall>u. streams_at rt u" "subs_wf rt" using rok by (simp_all add: runtime_ok_def shared_ok_def)
  consider (same) "rt' = rt" | (new) r h a q where "read_turn t (rt_store rt) = Inr (Some r)" "rt_history rt t = Some h" "a = rt_next_stream rt"
      "q = \<lparr>sq_turn = t, sq_items = map SEvent h @ (if status_terminal (tr_status r) then [SEnd] else []), sq_yielded = [], sq_outcome = None\<rparr>"
      "rt' = rt\<lparr>rt_streams := (rt_streams rt)(a \<mapsto> q), rt_next_stream := a + 1,
         rt_subs := (if status_terminal (tr_status r) then rt_subs rt else (rt_subs rt)(t := rt_subs rt t @ [a]))\<rparr>"
    by (rule subscribe_cases [OF s])
  then show ?thesis
  proof cases
    case same
    then show ?thesis using ok by simp
  next
    case new
    have tok: "turn_ok rt t" using rok by (simp add: runtime_ok_def)
    have fin: "status_terminal (tr_status r) \<longleftrightarrow> rt_results rt t \<noteq> Some Pending"
      by (rule readable_pending [OF tok new(1,2)])
    have fresh: "rt_streams rt a = None" using sh(2) new(3) by (simp add: subs_wf_def)
    have notsub: "a \<notin> set (rt_subs rt u)" for u using subs_wfD [OF sh(2)] fresh by fastforce
    have res: "rt_results rt t \<noteq> None" using tok new(2) by (cases "rt_results rt t") (simp_all add: turn_ok_def)
    have h: "history_of rt' = history_of rt" by (simp add: new(5) history_of_def fun_eq_iff)
    show ?thesis
    proof (rule ok_streams_only [OF ok])
      show "rt_subs rt' u = []" if "rt_results rt u = None" for u
      proof -
        have "turn_ok rt u" using rok by (simp add: runtime_ok_def)
        then show ?thesis using that res by (auto simp: new(5) turn_ok_def)
      qed
      show "\<forall>u. streams_at rt' u"
        unfolding streams_at_def
      proof (intro allI impI, elim conjE)
        fix u b x assume b: "rt_streams rt' b = Some x" "sq_turn x = u"
        show "stream_ok rt' b x"
        proof (cases "b = a")
          case True
          then have "x = q" using b by (simp add: new(5))
          then show ?thesis using True fin new(2)
            by (auto simp: stream_ok_def Let_def h new(4,5) history_of_def)
        next
          case False
          then have "rt_streams rt b = Some x" using b by (simp add: new(5))
          then have "stream_ok rt b x" using sh(1) b(2) by (simp add: streams_at_def)
          then show ?thesis by (rule stream_ok_cong) (use False in \<open>auto simp: new(5) history_of_def\<close>)
        qed
      qed
      show "subs_wf rt'"
        unfolding subs_wf_def
      proof (intro conjI allI ballI impI)
        fix u b assume b: "b \<in> set (rt_subs rt' u)"
        show "\<exists>x. rt_streams rt' b = Some x \<and> sq_turn x = u"
        proof (cases "b = a")
          case True
          have "u = t"
          proof (rule ccontr)
            assume "u \<noteq> t"
            then have "b \<in> set (rt_subs rt u)" using b by (simp add: new(5) split: if_splits)
            then show False using notsub True by simp
          qed
          then show ?thesis using True by (simp add: new(4,5))
        next
          case False
          then have "b \<in> set (rt_subs rt u)" using b by (auto simp: new(5) split: if_splits)
          then show ?thesis using subs_wfD [OF sh(2)] False by (simp add: new(5))
        qed
      next
        fix b assume "rt_next_stream rt' \<le> b"
        then show "rt_streams rt' b = None" using sh(2) by (simp add: new(3,5) subs_wf_def)
      next
        fix b x assume "rt_streams rt' b = Some x"
        then show "rt_history rt' (sq_turn x) \<noteq> None"
          using subs_wf_history [OF sh(2)] new(2) by (auto simp: new(4,5) split: if_splits)
      qed
    qed (simp_all add: new(5))
  qed
qed

lemma subs_wf_swap:
  assumes w: "subs_wf rt" and q: "rt_streams rt a = Some q" "sq_turn q' = sq_turn q"
    and s: "rt_streams rt' = (rt_streams rt)(a \<mapsto> q')" "\<And>t b. b \<in> set (rt_subs rt' t) \<Longrightarrow> b \<in> set (rt_subs rt t)"
    and h: "rt_history rt' = rt_history rt" "rt_next_stream rt' = rt_next_stream rt"
  shows "subs_wf rt'"
  unfolding subs_wf_def
proof (intro conjI allI ballI impI)
  fix t b assume "b \<in> set (rt_subs rt' t)"
  then obtain x where "rt_streams rt b = Some x" "sq_turn x = t" using subs_wfD [OF w] s(2) by blast
  then show "\<exists>x. rt_streams rt' b = Some x \<and> sq_turn x = t" using q s(1) by (cases "b = a") auto
next
  fix b assume b: "rt_next_stream rt' \<le> b"
  then have "rt_streams rt b = None" using w h(2) by (simp add: subs_wf_def)
  then show "rt_streams rt' b = None" using q(1) s(1) by auto
next
  fix b x assume "rt_streams rt' b = Some x"
  then show "rt_history rt' (sq_turn x) \<noteq> None"
    using subs_wf_history [OF w] q s(1) h(1) by (cases "b = a") auto
qed

text \<open>One value taken by a consumer.\<close>

lemma next_value_ok:
  assumes ok: "plane_ok (co, rt)"
  shows "plane_ok (co, next_value a rt)"
proof -
  have rok: "runtime_ok rt" using ok by (simp add: plane_ok_def)
  have sh: "\<forall>u. streams_at rt u" "subs_wf rt" using rok by (simp_all add: runtime_ok_def shared_ok_def)
  consider (same) "next_value a rt = rt"
    | (took) q q' where "rt_streams rt a = Some q" "sq_turn q' = sq_turn q" "stream_ok rt a q"
        "next_value a rt = rt\<lparr>rt_streams := (rt_streams rt)(a \<mapsto> q')\<rparr>"
        "stream_ok (rt\<lparr>rt_streams := (rt_streams rt)(a \<mapsto> q')\<rparr>) a q'"
    | (left) q q' where "rt_streams rt a = Some q" "sq_turn q' = sq_turn q"
        "next_value a rt = rt\<lparr>rt_streams := (rt_streams rt)(a \<mapsto> q'),
            rt_subs := (rt_subs rt)(sq_turn q := filter (\<lambda>b. b \<noteq> a) (rt_subs rt (sq_turn q)))\<rparr>"
        "stream_ok (rt\<lparr>rt_streams := (rt_streams rt)(a \<mapsto> q'),
            rt_subs := (rt_subs rt)(sq_turn q := filter (\<lambda>b. b \<noteq> a) (rt_subs rt (sq_turn q)))\<rparr>) a q'"
  proof (cases "rt_streams rt a")
    case None
    then show ?thesis using same by (simp add: next_value_def)
  next
    case (Some q)
    have so: "stream_ok rt a q" using sh(1) Some by (simp add: streams_at_def)
    have hist: "history_of (rt\<lparr>rt_streams := m\<rparr>) = history_of rt" "history_of (rt\<lparr>rt_streams := m, rt_subs := s\<rparr>) = history_of rt" for m s
      by (simp_all add: history_of_def fun_eq_iff)
    show ?thesis
    proof (cases "sq_outcome q = None \<and> sq_items q \<noteq> []")
      case False
      then have "next_value a rt = rt" using Some by (auto simp: next_value_def split: list.splits)
      then show ?thesis using same by blast
    next
      case True
      then obtain v vs where v: "sq_items q = v # vs" by (cases "sq_items q") auto
      show ?thesis
      proof (cases v)
        case (SEvent ev)
        let ?q = "q\<lparr>sq_items := vs, sq_yielded := sq_yielded q @ [ev]\<rparr>"
        have "stream_ok (rt\<lparr>rt_streams := (rt_streams rt)(a \<mapsto> ?q)\<rparr>) a ?q"
        proof -
          have "(\<exists>evs. sq_items q = map SEvent evs \<and> sq_yielded q @ evs = history_of rt (sq_turn q) \<and>
                a \<in> set (rt_subs rt (sq_turn q)) \<and> rt_results rt (sq_turn q) = Some Pending) \<or>
              (\<exists>evs. sq_items q = map SEvent evs @ [SEnd] \<and> sq_yielded q @ evs = history_of rt (sq_turn q) \<and>
                rt_results rt (sq_turn q) \<noteq> Some Pending)"
            using so True v SEvent unfolding stream_ok_def Let_def by auto
          then show ?thesis
          proof (elim disjE exE conjE)
            fix evs assume e: "sq_items q = map SEvent evs" "sq_yielded q @ evs = history_of rt (sq_turn q)"
              "a \<in> set (rt_subs rt (sq_turn q))" "rt_results rt (sq_turn q) = Some Pending"
            then obtain zs where "evs = ev # zs" "vs = map SEvent zs" using v SEvent by (cases evs) auto
            then show ?thesis using e True unfolding stream_ok_def Let_def hist by simp blast
          next
            fix evs assume e: "sq_items q = map SEvent evs @ [SEnd]" "sq_yielded q @ evs = history_of rt (sq_turn q)"
              "rt_results rt (sq_turn q) \<noteq> Some Pending"
            then obtain zs where "evs = ev # zs" "vs = map SEvent zs @ [SEnd]" using v SEvent by (cases evs) auto
            then show ?thesis using e True unfolding stream_ok_def Let_def hist by simp blast
          qed
        qed
        then show ?thesis using took [OF Some _ so, of ?q] True v SEvent Some by (simp add: next_value_def)
      next
        case (SError e)
        let ?q = "q\<lparr>sq_items := vs, sq_outcome := Some (StreamFailed e)\<rparr>"
        have "prefix (sq_yielded q) (history_of rt (sq_turn q))"
          using so True v SError by (auto simp: stream_ok_def Let_def Cons_eq_map_conv Cons_eq_append_conv)
        then show ?thesis using left [OF Some, of ?q] True v SError Some by (simp add: next_value_def stream_ok_def Let_def hist)
      next
        case SEnd
        let ?q = "q\<lparr>sq_items := vs, sq_outcome := Some StreamEnded\<rparr>"
        have "sq_yielded q = history_of rt (sq_turn q) \<and> rt_results rt (sq_turn q) \<noteq> Some Pending"
          using so True v SEnd by (auto simp: stream_ok_def Let_def Cons_eq_map_conv Cons_eq_append_conv)
        then show ?thesis using left [OF Some, of ?q] True v SEnd Some by (simp add: next_value_def stream_ok_def Let_def hist)
      qed
    qed
  qed
  then show ?thesis
  proof cases
    case same
    then show ?thesis using ok by simp
  next
    case took
    let ?rt = "rt\<lparr>rt_streams := (rt_streams rt)(a \<mapsto> q')\<rparr>"
    have h: "history_of ?rt = history_of rt" by (simp add: history_of_def fun_eq_iff)
    have "stream_ok ?rt b x" if "b \<noteq> a" "rt_streams rt b = Some x" for b x
    proof -
      have "stream_ok rt b x" using sh(1) that(2) by (simp add: streams_at_def)
      then show ?thesis by (rule stream_ok_cong) (use that(1) in \<open>simp_all add: h\<close>)
    qed
    then have "\<forall>u. streams_at ?rt u" using took(5) by (auto simp: streams_at_def split: if_splits)
    moreover have "subs_wf ?rt" by (rule subs_wf_swap [OF sh(2) took(1,2)]) simp_all
    moreover have "rt_subs ?rt u = []" if "rt_results rt u = None" for u
    proof -
      have "turn_ok rt u" using rok by (simp add: runtime_ok_def)
      then show ?thesis using that by (simp add: turn_ok_def)
    qed
    ultimately have "plane_ok (co, ?rt)" by (intro ok_streams_only [OF ok]) simp_all
    then show ?thesis using took(4) by simp
  next
    case left
    let ?rt = "rt\<lparr>rt_streams := (rt_streams rt)(a \<mapsto> q'),
            rt_subs := (rt_subs rt)(sq_turn q := filter (\<lambda>b. b \<noteq> a) (rt_subs rt (sq_turn q)))\<rparr>"
    have h: "history_of ?rt = history_of rt" by (simp add: history_of_def fun_eq_iff)
    have "stream_ok ?rt b x" if "b \<noteq> a" "rt_streams rt b = Some x" for b x
    proof -
      have "stream_ok rt b x" using sh(1) that(2) by (simp add: streams_at_def)
      then show ?thesis by (rule stream_ok_cong) (use that(1) in \<open>simp_all add: h\<close>)
    qed
    then have "\<forall>u. streams_at ?rt u" using left(4) by (auto simp: streams_at_def split: if_splits)
    moreover have "subs_wf ?rt" by (rule subs_wf_swap [OF sh(2) left(1,2)]) (auto split: if_splits)
    moreover have "rt_subs ?rt u = []" if "rt_results rt u = None" for u
    proof -
      have "turn_ok rt u" using rok by (simp add: runtime_ok_def)
      then show ?thesis using that by (auto simp: turn_ok_def)
    qed
    ultimately have "plane_ok (co, ?rt)" by (intro ok_streams_only [OF ok]) simp_all
    then show ?thesis using left(3) by simp
  qed
qed

section \<open>Interrupts, shutdown and the coordinator's reports\<close>

lemma ok_flags:
  assumes ok: "plane_ok (co, rt)" and "rt_results rt' = rt_results rt" "rt_history rt' = rt_history rt"
    and "rt_subs rt' = rt_subs rt" "rt_streams rt' = rt_streams rt" "rt_next_stream rt' = rt_next_stream rt"
    and "rt_tasks rt' = rt_tasks rt" "rt_active rt' = rt_active rt" "rt_frames rt' = rt_frames rt"
    and "rt_store rt' = rt_store rt" "rt_admission rt' = rt_admission rt" "rt_owner rt' = rt_owner rt"
    and "rt_accepting rt' = rt_accepting rt"
  shows "plane_ok (co, rt')"
proof -
  have "runtime_ok rt'" by (rule runtime_ok_cong [of rt]) (use ok assms in \<open>simp_all add: plane_ok_def\<close>)
  moreover have "linked (co, rt')" by (rule linked_fields [of co rt]) (use ok assms in \<open>simp_all add: plane_ok_def\<close>)
  ultimately show ?thesis by (simp add: plane_ok_def)
qed

lemma interrupt_turn_ok: "plane_ok (co, rt) \<Longrightarrow> interrupt_turn th t rt = (res, rt') \<Longrightarrow> plane_ok (co, rt')"
  by (rule ok_flags [of co rt])
    (auto simp: interrupt_turn_def request_cancel_task_def split: sum.splits if_splits)

lemma shutdown_ok: "plane_ok (co, rt) \<Longrightarrow> plane_ok (co, shutdown rt)"
  by (rule ok_flags [of co rt]) (simp_all add: shutdown_def)

lemma interrupt_queued_ok:
  assumes ok: "plane_ok (co, rt)" and act: "rt_active rt th = Some t" and fr: "rt_frames rt t = None"
    and s: "interrupt_queued th t now rt = (res, rt')"
  shows "plane_ok (co, rt')" and "\<exists>r. res = Inr r \<and> tr_status r = TCancelled \<and> rt_active rt' th = None"
proof -
  have rok: "runtime_ok rt" and l: "linked (co, rt)" using ok by (simp_all add: plane_ok_def)
  have p: "rt_results rt t = Some Pending" using rok act by (simp add: runtime_ok_def threads_wf_def)
  have t: "turn_ok rt t" using rok by (simp add: runtime_ok_def)
  obtain r where r: "active_record rt t r" and hist: "t \<in> set (rt_tasks rt)" "rt_history rt t \<noteq> None"
    "\<forall>ev \<in> set (history_of rt t). \<not> completed_event ev"
    using t p by (auto simp: turn_ok_def)
  have h: "holds_record t r (rt_store rt)" "tr_status r = TQueued" using r fr by (simp_all add: active_record_def)
  have th: "rt_active rt k = Some t \<longleftrightarrow> k = th" for k
    using rok act holds_unique unfolding runtime_ok_def threads_wf_def by metis
  have thr: "tr_thread_id r = th" using r th by (simp add: active_record_def)
  have run: "running t th rt"
    using rok p hist th unfolding running_def runtime_ok_def threads_wf_def admission_wf_def by blast
  have ad: "rt_admission rt \<noteq> Some t" using rok fr by (auto simp: runtime_ok_def admission_wf_def)
  have pk: "patch_ok plain_patch" by (simp add: patch_ok_def plain_patch_def)
  have thc: "Some th = None \<or> Some th = Some (tr_thread_id r)" using thr by simp
  have st: "turn_step (tr_status r) TCancelled" "TCancelled = TFailed \<Longrightarrow> tp_error plain_patch \<noteq> None"
    by (simp_all add: h(2) turn_step_def)
  note tr = transition_holds [OF h(1) st thc pk, where now = now]
  let ?r = "patch_record TCancelled plain_patch now r"
  obtain db where e: "transition_turn t TQueued TCancelled (Some th) plain_patch now (rt_store rt) = (Inr ?r, db)"
    using tr(1) h(2) by (metis prod.collapse)
  have h1: "holds_record t ?r db" using tr(2) e h(2) by simp
  have row: "row_by tw_id u (turns db) = row_by tw_id u (turns (rt_store rt))" if "u \<noteq> t" for u
    using tr(3) [of u] that e h(2) by simp
  let ?rt = "rt\<lparr>rt_store := db\<rparr>"
  have run1: "running t th ?rt" by (rule running_store [OF run row])
  have res: "res = Inr ?r" "rt' = drop_task t (release_thread th (complete_turn th ?r ?rt))"
    using s p e by (simp_all add: interrupt_queued_def)
  have "runtime_ok rt'" unfolding res(2)
    by (rule completed_ok(2) [OF run1]) (use h1 thr ad fr in \<open>simp_all add: status_terminal_def\<close>)
  moreover have nc: "tr_status r \<noteq> TCompleted" using h(2) by simp
  have l1: "linked (co, ?rt)" by (rule linked_store [OF l h(1) nc row])
  have p1: "rt_results ?rt t = Some Pending" using p by simp
  have id: "tr_id ?r = t" using holds_id [OF h1] .
  have "linked (co, rt')"
    by (rule linked_fields [OF l1]) (simp_all add: res(2) drop_task_def release_thread_def complete_turn_fields [OF p1 id])
  ultimately show "plane_ok (co, rt')" by (simp add: plane_ok_def)
  show "\<exists>r. res = Inr r \<and> tr_status r = TCancelled \<and> rt_active rt' th = None"
    using res by (simp add: drop_task_def release_thread_def)
qed

text \<open>The reports: \<open>ra\<close> gives what the coordinator keeps, the runtime only reopens.\<close>

lemma coordinator_report_ok:
  assumes ok: "plane_ok (Some c, rt)"
    and f: "e = None \<and> coordinator_ok c' \<and> ra.world_ok (c', rt') \<and> (co_turn_completed c' \<longrightarrow> co_turn_completed c) \<and>
      (co_pending c' \<noteq> None \<longrightarrow> co_pending c' = co_pending c) \<and>
      (rt' = rt \<or> (\<exists>q. co_pending c = Some q \<and> resume_after_restart_cancel (rq_turn_id q) rt = Inr rt'))"
  shows "plane_ok (Some c', rt')"
proof -
  have re: "reopened rt rt'" using f reopened_resume reopened_refl by blast
  have rok: "runtime_ok rt'" by (rule runtime_ok_reopened [OF _ re]) (use ok in \<open>simp add: plane_ok_def\<close>)
  have cs: "completed_stored c (rt_store rt)" using ok by (simp add: plane_ok_def linked_def)
  have "completed_stored c' (rt_store rt')"
    unfolding completed_stored_def
  proof
    assume fin: "co_turn_completed c'"
    then have "co_pending c' \<noteq> None" using f completed_pending by blast
    then show "\<exists>q r. co_pending c' = Some q \<and> holds_record (rq_turn_id q) r (rt_store rt') \<and> tr_status r = TCompleted"
      using fin f cs reopened_fields(1) [OF re] unfolding completed_stored_def by auto
  qed
  then show ?thesis using rok f by (simp add: plane_ok_def linked_def ra.world_ok_def)
qed

lemma plane_coordinator:
  assumes "plane_ok (Some c, rt)"
  shows "coordinator_ok c" and "ra.world_ok (c, rt)"
  using assms by (simp_all add: plane_ok_def linked_def)

lemma arm_plane_ok:
  assumes ok: "plane_ok (Some c, rt)" and a: "arm quiesce_for_restart t s ch i why hex (c, rt) = (res, c', rt')"
  shows "plane_ok (Some c', rt')"
proof -
  note f = ra.arm_ok [OF plane_coordinator [OF ok] a]
  show ?thesis
  proof (cases "c' = c")
    case True
    then show ?thesis using f(4) ok by simp
  next
    case False
    then have p: "co_pending c = None" and q: "quiesce_for_restart t rt = Inr rt'" using f(3) by simp_all
    have re: "reopened rt rt'"
      using quiesce_cases [OF q]
    proof
      assume "rt_owner rt = Some t \<and> rt' = rt"
      then show ?thesis by simp
    next
      assume "rt' = rt\<lparr>rt_accepting := False, rt_owner := Some t\<rparr> \<and> set (rt_tasks rt) \<subseteq> {t}"
      then show ?thesis unfolding reopened_def by (intro exI [of _ "Some t"] exI [of _ False]) simp
    qed
    have "runtime_ok rt'" by (rule runtime_ok_reopened [OF _ re]) (use ok in \<open>simp add: plane_ok_def\<close>)
    moreover have "\<not> co_turn_completed c'"
      using a False by (auto simp: arm_def Let_def split: if_splits option.splits sum.splits)
    ultimately show ?thesis using f(1,2) by (simp add: plane_ok_def linked_def completed_stored_def ra.world_ok_def)
  qed
qed

section \<open>The step relation\<close>

inductive plane_step :: "plane \<Rightarrow> plane \<Rightarrow> bool" where
  step_start: "start_turn req t i now rt = (res, rt') \<Longrightarrow> i \<noteq> [] \<Longrightarrow> plane_step (co, rt) (co, rt')"
| step_first: "rt_frames rt t = Some f \<Longrightarrow> rf_stage f = Unstarted \<Longrightarrow> t \<notin> set (rt_cancelling rt) \<Longrightarrow>
    plane_step (co, rt) (run_first_step t f (co, rt))"
| step_killed: "rt_frames rt t = Some f \<Longrightarrow> rf_stage f = Unstarted \<Longrightarrow> t \<in> set (rt_cancelling rt) \<Longrightarrow>
    plane_step (co, rt) (co, end_frame t rt)"
| step_admitted: "rt_frames rt t = Some f \<Longrightarrow> rf_stage f = WaitingAdmission \<Longrightarrow> rt_admission rt = None \<Longrightarrow>
    plane_step (co, rt) (run_admitted whole now now' t f (co, rt))"
| step_item: "rt_frames rt t = Some f \<Longrightarrow> rf_stage f = Executing \<Longrightarrow> ti_id item \<noteq> [] \<Longrightarrow>
    plane_step (co, rt) (snd (publish_item method item t f (co, rt)))"
| step_returned: "rt_frames rt t = Some f \<Longrightarrow> rf_stage f = Executing \<Longrightarrow> execution_ok ex \<Longrightarrow> i \<noteq> [] \<Longrightarrow>
    plane_step (co, rt) (run_returned whole now now' i ex t f (co, rt))"
| step_raised: "rt_frames rt t = Some f \<Longrightarrow> rf_stage f = Executing \<Longrightarrow>
    plane_step (co, rt) (run_failed whole now t f exc (co, rt))"
| step_cancelled: "rt_frames rt t = Some f \<Longrightarrow> rf_stage f \<noteq> Unstarted \<Longrightarrow> t \<in> set (rt_cancelling rt) \<Longrightarrow>
    plane_step (co, rt) (run_cancelled whole now t f (co, rt))"
| step_subscribe: "subscribe th t rt = (sub, rt') \<Longrightarrow> plane_step (co, rt) (co, rt')"
| step_consume: "plane_step (co, rt) (co, next_value a rt)"
| step_interrupt: "interrupt_turn th t rt = (ir, rt') \<Longrightarrow> plane_step (co, rt) (co, rt')"
| step_interrupt_queued: "rt_active rt th = Some t \<Longrightarrow> rt_frames rt t = None \<Longrightarrow>
    interrupt_queued th t now rt = (iq, rt') \<Longrightarrow> plane_step (co, rt) (co, rt')"
| step_shutdown: "plane_step (co, rt) (co, shutdown rt)"
| step_arm: "arm quiesce_for_restart t s ch i why hex (c, rt) = (ares, c', rt') \<Longrightarrow>
    plane_step (Some c, rt) (Some c', rt')"
| step_delivered: "mark_delivered resume_after_restart_cancel whole t (c, rt) = (e, c', rt') \<Longrightarrow>
    plane_step (Some c, rt) (Some c', rt')"
| step_undelivered: "mark_delivery_failed resume_after_restart_cancel t why (c, rt) = (e, c', rt') \<Longrightarrow>
    plane_step (Some c, rt) (Some c', rt')"
| step_watchdog: "delivery_watchdog resume_after_restart_cancel i (c, rt) = (e, c', rt') \<Longrightarrow>
    plane_step (Some c, rt) (Some c', rt')"

inductive_cases plane_stepE: "plane_step (co, rt) w"

lemma frame_record:
  assumes "plane_ok (co, rt)" and "rt_frames rt t = Some f"
  obtains r where "running t (tq_thread_id (rf_request f)) rt" "frame_ok f" "holds_record t r (rt_store rt)"
    "tr_thread_id r = tq_thread_id (rf_request f)" "tr_status r = (if rf_stage f = Executing then TInProgress else TQueued)"
    "linked (co, rt)"
  using assms running_of_ok [of rt t f] by (auto simp: plane_ok_def)

lemma plane_step_ok: "plane_step w w' \<Longrightarrow> plane_ok w \<Longrightarrow> plane_ok w'"
proof (induction rule: plane_step.induct)
  case (step_returned rt t f ex i co whole now now')
  from step_returned(5,1) show ?case
  proof (rule frame_record)
    fix r assume r: "running t (tq_thread_id (rf_request f)) rt" "frame_ok f" "holds_record t r (rt_store rt)"
      "tr_thread_id r = tq_thread_id (rf_request f)" "tr_status r = (if rf_stage f = Executing then TInProgress else TQueued)"
      "linked (co, rt)"
    have st: "tr_status r = TInProgress" using r(5) step_returned(2) by simp
    show ?thesis using run_returned_ok(1) [OF r(1,3,4) st r(2) refl r(6) step_returned(3,4)] by blast
  qed
next
  case (step_raised rt t f co whole now exc)
  from step_raised(3,1) show ?case
  proof (rule frame_record)
    fix r assume r: "running t (tq_thread_id (rf_request f)) rt" "frame_ok f" "holds_record t r (rt_store rt)"
      "tr_thread_id r = tq_thread_id (rf_request f)" "tr_status r = (if rf_stage f = Executing then TInProgress else TQueued)"
      "linked (co, rt)"
    have st: "tr_status r = TInProgress" using r(5) step_raised(2) by simp
    show ?thesis using run_failed_ok [OF r(1,3,4) st r(2) refl r(6)] by blast
  qed
next
  case (step_cancelled rt t f co whole now)
  from step_cancelled(4,1) show ?case
  proof (rule frame_record)
    fix r assume r: "running t (tq_thread_id (rf_request f)) rt" "frame_ok f" "holds_record t r (rt_store rt)"
      "tr_thread_id r = tq_thread_id (rf_request f)" "tr_status r = (if rf_stage f = Executing then TInProgress else TQueued)"
      "linked (co, rt)"
    have st: "tr_status r \<in> {TQueued, TInProgress}" using r(5) by simp
    show ?thesis using run_cancelled_ok [OF r(1,3,4) st r(2) refl r(6)] by blast
  qed
next
  case (step_delivered whole t c rt e c' rt')
  show ?case
    by (rule coordinator_report_ok [OF step_delivered(2) ra.mark_delivered_ok [OF plane_coordinator [OF step_delivered(2)] step_delivered(1)]])
next
  case (step_undelivered t why c rt e c' rt')
  show ?case
    by (rule coordinator_report_ok [OF step_undelivered(2)
          ra.mark_delivery_failed_ok [OF plane_coordinator [OF step_undelivered(2)] step_undelivered(1)]])
next
  case (step_watchdog i c rt e c' rt')
  show ?case
    by (rule coordinator_report_ok [OF step_watchdog(2) ra.delivery_watchdog_ok [OF plane_coordinator [OF step_watchdog(2)] step_watchdog(1)]])
qed (blast intro: start_turn_ok first_step_ok killed_ok run_admitted_ok publish_item_ok subscribe_ok next_value_ok
    interrupt_turn_ok interrupt_queued_ok(1) shutdown_ok arm_plane_ok)+

theorem plane_reachable_ok: "plane_step\<^sup>*\<^sup>* w w' \<Longrightarrow> plane_ok w \<Longrightarrow> plane_ok w'"
  by (induction rule: rtranclp_induct) (auto dest: plane_step_ok)

lemma new_runtime_ok: "new_runtime cap db = Inr rt \<Longrightarrow> plane_ok (None, rt)"
  by (auto simp: new_runtime_def plane_ok_def runtime_ok_def shared_ok_def streams_at_def subs_wf_def turn_ok_def
      threads_wf_def admission_wf_def linked_def admission_ok_def split: if_splits)

text \<open>The plane as it is put together at start-up.\<close>

lemma new_plane_ok:
  assumes "new_runtime cap db = Inr rt" and "coordinator_ok c" "co_pending c = None"
  shows "plane_ok (Some c, rt)"
proof -
  have "plane_ok (None, rt)" by (rule new_runtime_ok [OF assms(1)])
  moreover have "\<not> co_turn_completed c" using completed_pending [OF assms(2)] assms(3) by blast
  ultimately show ?thesis using assms(2,3) by (simp add: plane_ok_def linked_def ra.world_ok_def completed_stored_def)
qed

end
