(* ===== verification/StrandedTurns.thy ===== *)
theory StrandedTurns
  imports PlaneSteps
begin

text \<open>
  What the steps of the control plane leave alone: a step that runs the code of one turn touches neither the
  row, nor the future, nor the frame of another.  So a turn whose task is gone can only be settled by a request
  that names it.
\<close>

section \<open>The other turns\<close>

definition untouched :: "pystr \<Rightarrow> conv_runtime \<Rightarrow> conv_runtime \<Rightarrow> bool" where
  "untouched t rt rt' \<longleftrightarrow> rt_results rt' t = rt_results rt t \<and> rt_frames rt' t = rt_frames rt t \<and>
     row_by tw_id t (turns (rt_store rt')) = row_by tw_id t (turns (rt_store rt)) \<and>
     (rt_closed rt \<longrightarrow> rt_closed rt')"

lemma untouched_refl [simp]: "untouched t rt rt"
  by (simp add: untouched_def)

lemma untouched_trans: "untouched t a b \<Longrightarrow> untouched t b c \<Longrightarrow> untouched t a c"
  by (simp add: untouched_def)

lemma untouched_fields:
  "rt_results rt' = rt_results rt \<Longrightarrow> rt_frames rt' = rt_frames rt \<Longrightarrow> rt_store rt' = rt_store rt \<Longrightarrow>
   rt_closed rt' = rt_closed rt \<Longrightarrow> untouched t rt rt'"
  by (simp add: untouched_def)

lemma untouched_publish: "untouched t rt (publish_event ev rt)"
  by (rule untouched_fields) simp_all

lemma untouched_publish_all: "untouched t rt (publish_all evs rt)"
  by (induction evs arbitrary: rt) (auto intro: untouched_trans [OF untouched_publish])

lemma untouched_close: "close_items th u st is' obs rt = (obs', rt') \<Longrightarrow> untouched t rt rt'"
proof (induction is' arbitrary: obs rt)
  case (Cons i is')
  then show ?case
    by (auto simp: Let_def split: option.splits intro: untouched_trans [OF untouched_publish])
qed simp

lemma untouched_release: "untouched t rt (release_admission u rt)"
  by (simp add: release_admission_def untouched_def)

lemma untouched_put_frame: "u \<noteq> t \<Longrightarrow> untouched t rt (put_frame u f rt)"
  by (simp add: put_frame_def untouched_def)

lemma untouched_end: "u \<noteq> t \<Longrightarrow> untouched t rt (end_frame u rt)"
  by (simp add: end_frame_def untouched_def)

lemma untouched_settle: "u \<noteq> t \<Longrightarrow> untouched t rt (settle_future u v rt)"
  by (simp add: settle_future_def untouched_def)

lemma untouched_subscribers: "untouched t rt (to_subscribers u f rt)"
  by (rule untouched_fields) simp_all

lemma untouched_complete: "tr_id r \<noteq> t \<Longrightarrow> untouched t rt (complete_turn th r rt)"
  unfolding complete_turn_def finish_streams_def
  by (rule untouched_trans [OF untouched_publish untouched_trans [OF untouched_settle untouched_subscribers]])

lemma untouched_ending: "u \<noteq> t \<Longrightarrow> untouched t rt (end_frame u ((drop_task u (release_thread th rt))\<lparr>rt_interrupts := is'\<rparr>))"
  by (simp add: untouched_def end_frame_def drop_task_def release_thread_def)

lemma untouched_reopened: "reopened rt rt' \<Longrightarrow> untouched t rt rt'"
  by (auto simp: reopened_def untouched_def)

lemma untouched_transition:
  assumes "transition_turn u ex st th p now (rt_store rt) = (res, db)" "u \<noteq> t"
  shows "untouched t rt (rt\<lparr>rt_store := db\<rparr>)"
  using assms(1)
proof (cases rule: transition_turn_cases)
  case (moved w)
  then have "tw_id w = u" using row_by_SomeD by fastforce
  then show ?thesis using moved(1) assms(2) by (simp add: untouched_def moved(6) row_by_put_row)
qed (simp add: untouched_def)

lemma read_turn_id:
  assumes "read_turn i db = Inr (Some r)"
  shows "tr_id r = i"
proof -
  obtain w where "row_by tw_id i (turns db) = Some w" "row_to_turn w = Inr r"
    using assms by (auto simp: read_turn_def ctl_opt_def split: option.splits sum.splits)
  then show ?thesis using row_by_SomeD
    by (fastforce simp: row_to_turn_def split: json.splits option.splits sum.splits)
qed

lemma transition_id:
  assumes "transition_turn i ex st th p now db = (Inr r, db')"
  shows "tr_id r = i"
  using assms
proof (cases rule: transition_turn_cases)
  case (moved w)
  then have "read_turn i db' = Inr (Some r)" by (auto simp: reread_def split: sum.splits option.splits)
  then show ?thesis by (rule read_turn_id)
qed simp

section \<open>The coordinator\<close>

lemma cancel_reopens: "restart_cancel resume_after_restart_cancel why (c, rt) = (e, c', rt') \<Longrightarrow> reopened rt rt'"
  by (auto simp: restart_cancel_def Let_def split: if_splits option.splits sum.splits dest: reopened_resume)

lemma commit_reopens: "commit_if_ready resume_after_restart_cancel whole (c, rt) = (e, c', rt') \<Longrightarrow> reopened rt rt'"
  by (auto simp: commit_if_ready_def Let_def split: if_splits option.splits prod.splits dest: cancel_reopens)

lemma terminal_reopens:
  "mark_turn_terminal resume_after_restart_cancel whole u st (c, rt) = (e, c', rt') \<Longrightarrow> reopened rt rt'"
  by (auto simp: mark_turn_terminal_def split: if_splits dest: cancel_reopens commit_reopens)

lemma delivered_reopens: "mark_delivered resume_after_restart_cancel whole u (c, rt) = (e, c', rt') \<Longrightarrow> reopened rt rt'"
  by (auto simp: mark_delivered_def split: if_splits dest: commit_reopens)

lemma undelivered_reopens: "mark_delivery_failed resume_after_restart_cancel u why (c, rt) = (e, c', rt') \<Longrightarrow> reopened rt rt'"
  by (auto simp: mark_delivery_failed_def split: if_splits dest: cancel_reopens)

lemma watchdog_reopens: "delivery_watchdog resume_after_restart_cancel i (c, rt) = (e, c', rt') \<Longrightarrow> reopened rt rt'"
  by (auto simp: delivery_watchdog_def split: if_splits option.splits dest: cancel_reopens)

lemma arm_state:
  assumes "arm quiesce u s ch i why hex (c, a) = (res, c', a')"
  shows "a' = a \<or> quiesce u a = Inr a'"
proof (cases "quiesce u a")
  case (Inl e)
  then have "snd (snd (arm quiesce u s ch i why hex (c, a))) = a"
    unfolding arm_def by (simp split: option.split)
  then show ?thesis using assms by simp
next
  case (Inr a1)
  then have "snd (snd (arm quiesce u s ch i why hex (c, a))) = a \<or> snd (snd (arm quiesce u s ch i why hex (c, a))) = a1"
    unfolding arm_def by (simp add: Let_def split: option.split)
  then show ?thesis using assms Inr by auto
qed

lemma quiesce_untouched:
  assumes "quiesce_for_restart u rt = Inr rt'"
  shows "untouched t rt rt'"
proof -
  have "rt' = rt \<or> rt' = rt\<lparr>rt_accepting := False, rt_owner := Some u\<rparr>"
    using assms unfolding quiesce_for_restart_def by (metis sum.distinct(1) sum.inject(2))
  then show ?thesis by (elim disjE) (simp_all add: untouched_def)
qed

lemma arm_untouched: "arm quiesce_for_restart u s ch i why hex (c, rt) = (res, c', rt') \<Longrightarrow> untouched t rt rt'"
  using arm_state quiesce_untouched untouched_refl by metis

section \<open>The code of a turn\<close>

lemma finally_untouched:
  assumes "u \<noteq> t" and "\<And>r. terminal = Inr r \<Longrightarrow> tr_id r = u"
  shows "untouched t rt (snd (run_finally whole th u terminal (co, rt)))"
proof (cases terminal)
  case (Inl fatal)
  have ending: "untouched t rt (end_frame u ((drop_task u (release_thread th (fail_streams u e (settle_future u (Broken e) rt))))
      \<lparr>rt_interrupts := is'\<rparr>))" for e is'
  proof -
    have "untouched t rt (settle_future u (Broken e) rt)" by (rule untouched_settle [OF assms(1)])
    moreover have "untouched t (settle_future u (Broken e) rt) (fail_streams u e (settle_future u (Broken e) rt))"
      by (simp only: fail_streams_def untouched_subscribers)
    ultimately have "untouched t rt (fail_streams u e (settle_future u (Broken e) rt))" by (rule untouched_trans)
    then show ?thesis by (rule untouched_trans) (rule untouched_ending [OF assms(1)])
  qed
  show ?thesis unfolding run_finally_def Inl by (simp only: prod.case sum.case Let_def snd_conv ending)
next
  case (Inr r)
  have id: "tr_id r \<noteq> t" using assms Inr by simp
  obtain e co1 rt1 where m: "(case co of None \<Rightarrow> (None, None, rt)
      | Some c \<Rightarrow> (case mark_turn_terminal resume_after_restart_cancel whole u (status_text (tr_status r)) (c, rt) of
           (e, c1, rt1) \<Rightarrow> (e, Some c1, rt1))) = (e, co1, rt1)" by (metis prod_cases3)
  have "reopened rt rt1"
    using m by (auto split: option.splits prod.splits dest: terminal_reopens)
  then have u1: "untouched t rt rt1" by (rule untouched_reopened)
  show ?thesis
  proof (cases e)
    case None
    have "snd (run_finally whole th u terminal (co, rt)) = end_frame u ((drop_task u (release_thread th (complete_turn th r rt1)))
        \<lparr>rt_interrupts := filter (\<lambda>t. t \<noteq> u) (rt_interrupts (complete_turn th r rt1))\<rparr>)"
      using m None by (simp add: run_finally_def Inr Let_def)
    then show ?thesis
      using untouched_trans [OF u1 untouched_trans [OF untouched_complete [OF id] untouched_ending [OF assms(1)]]] by simp
  next
    case (Some x)
    have "snd (run_finally whole th u terminal (co, rt)) = end_frame u rt1"
      using m Some by (simp add: run_finally_def Inr)
    then show ?thesis using untouched_trans [OF u1 untouched_end [OF assms(1)]] by simp
  qed
qed

lemma failed_untouched:
  assumes "u \<noteq> t"
  shows "untouched t rt (snd (run_failed whole now u f exc (co, rt)))"
proof -
  let ?th = "tq_thread_id (rf_request f)" and ?rt = "release_admission u rt"
  have fin: "untouched t rt (snd (run_finally whole ?th u x (co, rt2)))"
    if "untouched t ?rt rt2" "\<And>r. x = Inr r \<Longrightarrow> tr_id r = u" for x rt2
    by (rule untouched_trans [OF untouched_trans [OF untouched_release that(1)] finally_untouched [OF assms that(2)]])
  show ?thesis
  proof (cases "read_turn u (rt_store ?rt)")
    case (Inl e)
    then show ?thesis using fin [OF untouched_refl, of "Inl None"] by (simp add: run_failed_def Let_def)
  next
    case (Inr c)
    show ?thesis
    proof (cases c)
      case None
      then show ?thesis using fin [OF untouched_refl, of "Inl (Some exc)"] Inr by (simp add: run_failed_def Let_def)
    next
      case (Some cur)
      show ?thesis
      proof (cases "tr_status cur = TInProgress")
        case True
        obtain observed rt1 where c: "close_items ?th u (status_text TFailed) (rf_open f) (rf_observed f) ?rt = (observed, rt1)" by fastforce
        obtain ty msg retry where ep: "error_parts exc = (ty, msg, retry)" by (metis prod_cases3)
        let ?p = "plain_patch\<lparr>tp_items := Some (tr_items cur @ map snd observed),
            tp_error := Some \<lparr>te_type = ty, te_message = msg, te_retryable = retry, te_data = None\<rparr>\<rparr>"
        obtain res db where tr: "transition_turn u TInProgress TFailed (Some ?th) ?p now (rt_store rt1) = (res, db)" by fastforce
        have un: "untouched t ?rt (rt1\<lparr>rt_store := db\<rparr>)"
          by (rule untouched_trans [OF untouched_close [OF c] untouched_transition [OF tr assms]])
        show ?thesis
        proof (cases res)
          case (Inl e)
          then show ?thesis using fin [OF un, of "Inl None"] Inr Some True c ep tr by (simp add: run_failed_def Let_def)
        next
          case r: (Inr r)
          have "tr_id r = u" by (rule transition_id [OF tr [unfolded r]])
          then show ?thesis using fin [OF un, of "Inr r"] Inr Some True c ep tr r by (simp add: run_failed_def Let_def)
        qed
      next
        case False
        then show ?thesis using fin [OF untouched_refl, of "Inl (Some exc)"] Inr Some by (simp add: run_failed_def Let_def)
      qed
    qed
  qed
qed

lemma cancelled_untouched:
  assumes "u \<noteq> t"
  shows "untouched t rt (snd (run_cancelled whole now u f (co, rt)))"
proof -
  let ?th = "tq_thread_id (rf_request f)" and ?rt = "release_admission u rt"
  have fin: "untouched t rt (snd (run_finally whole ?th u x (co, rt2)))"
    if "untouched t ?rt rt2" "\<And>r. x = Inr r \<Longrightarrow> tr_id r = u" for x rt2
    by (rule untouched_trans [OF untouched_trans [OF untouched_release that(1)] finally_untouched [OF assms that(2)]])
  show ?thesis
  proof (cases "read_turn u (rt_store ?rt)")
    case (Inl e)
    then show ?thesis using fin [OF untouched_refl, of "Inl None"] by (simp add: run_cancelled_def Let_def)
  next
    case (Inr c)
    show ?thesis
    proof (cases c)
      case None
      then show ?thesis using fin [OF untouched_refl, of "Inl None"] Inr by (simp add: run_cancelled_def Let_def)
    next
      case (Some cur)
      have idc: "tr_id cur = u" by (rule read_turn_id [OF Inr [unfolded Some]])
      show ?thesis
      proof (cases "status_terminal (tr_status cur)")
        case False
        let ?st = "if tr_status cur = TInProgress \<and> u \<in> set (rt_interrupts ?rt) then TInterrupted else TCancelled"
        obtain observed rt1 where c: "close_items ?th u (status_text ?st) (rf_open f) (rf_observed f) ?rt = (observed, rt1)" by fastforce
        let ?p = "plain_patch\<lparr>tp_items := Some (tr_items cur @ map snd observed)\<rparr>"
        obtain res db where tr: "transition_turn u (tr_status cur) ?st (Some ?th) ?p now (rt_store rt1) = (res, db)" by fastforce
        have un: "untouched t ?rt (rt1\<lparr>rt_store := db\<rparr>)"
          by (rule untouched_trans [OF untouched_close [OF c] untouched_transition [OF tr assms]])
        show ?thesis
        proof (cases res)
          case (Inl e)
          then show ?thesis using fin [OF un, of "Inl None"] Inr Some False c tr unfolding run_cancelled_def Let_def by simp
        next
          case r: (Inr r)
          have "tr_id r = u" by (rule transition_id [OF tr [unfolded r]])
          then show ?thesis using fin [OF un, of "Inr r"] Inr Some False c tr r unfolding run_cancelled_def Let_def by simp
        qed
      next
        case True
        then show ?thesis using fin [OF untouched_refl, of "Inr cur"] idc Inr Some by (simp add: run_cancelled_def Let_def)
      qed
    qed
  qed
qed

lemma admitted_untouched:
  assumes "u \<noteq> t"
  shows "untouched t rt (snd (run_admitted whole now now' u f (co, rt)))"
proof -
  let ?th = "tq_thread_id (rf_request f)" and ?rt = "rt\<lparr>rt_admission := Some u\<rparr>"
  obtain res db where tr: "transition_turn u TQueued TInProgress (Some ?th) plain_patch now (rt_store ?rt) = (res, db)" by fastforce
  have un: "untouched t rt (?rt\<lparr>rt_store := db\<rparr>)"
    by (rule untouched_trans [OF _ untouched_transition [OF tr assms]]) (rule untouched_fields, simp_all)
  show ?thesis
  proof (cases res)
    case (Inl e)
    then show ?thesis
      using untouched_trans [OF un failed_untouched [OF assms]] tr by (simp add: run_admitted_def Let_def)
  next
    case (Inr r)
    then show ?thesis
      using untouched_trans [OF un untouched_trans [OF untouched_publish untouched_put_frame [OF assms]]] tr
      by (simp add: run_admitted_def Let_def)
  qed
qed

lemma returned_untouched:
  assumes "u \<noteq> t"
  shows "untouched t rt (snd (run_returned whole now now' i ex u f (co, rt)))"
proof (cases "rf_open f = []")
  case True
  let ?th = "tq_thread_id (rf_request f)"
  let ?a = "\<lparr>ti_kind = AssistantMessage, ti_id = i, ti_data = dict_update [(lit ''content'', JStr (ex_response ex))] (ex_assistant_data ex)\<rparr>"
  let ?rt1 = "publish_all (result_events ?th u (rf_live f) ex ?a) rt"
  let ?p = "plain_patch\<lparr>tp_items := Some (rf_items f @ ex_items ex @ [?a]), tp_usage := ex_usage ex, tp_final_response := Some (ex_response ex)\<rparr>"
  obtain res db where tr: "transition_turn u TInProgress TCompleted (Some ?th) ?p now (rt_store ?rt1) = (res, db)" by fastforce
  have un: "untouched t rt (?rt1\<lparr>rt_store := db\<rparr>)"
    by (rule untouched_trans [OF untouched_publish_all untouched_transition [OF tr assms]])
  show ?thesis
  proof (cases res)
    case (Inl e)
    then show ?thesis
      using untouched_trans [OF un failed_untouched [OF assms]] tr True by (simp add: run_returned_def Let_def)
  next
    case (Inr r)
    have "tr_id r = u" by (rule transition_id [OF tr [unfolded Inr]])
    then have "untouched t rt (snd (run_finally whole ?th u (Inr r) (co, release_admission u (?rt1\<lparr>rt_store := db\<rparr>))))"
      by (intro untouched_trans [OF un untouched_trans [OF untouched_release finally_untouched [OF assms]]]) simp
    then show ?thesis using tr True Inr by (simp add: run_returned_def Let_def)
  qed
qed (use failed_untouched [OF assms] in \<open>simp add: run_returned_def Let_def\<close>)

lemma item_untouched: "u \<noteq> t \<Longrightarrow> untouched t rt (snd (snd (publish_item mt item u f (co, rt))))"
  by (auto simp: publish_item_def Let_def intro: untouched_put_frame untouched_trans [OF untouched_put_frame untouched_publish])

lemma queued_untouched:
  assumes "u \<noteq> t" "interrupt_queued th u now rt = (res, rt')"
  shows "untouched t rt rt'"
proof (cases "rt_results rt u = Some Pending")
  case True
  obtain x db where tr: "transition_turn u TQueued TCancelled (Some th) plain_patch now (rt_store rt) = (x, db)" by fastforce
  note un = untouched_transition [OF tr assms(1)]
  show ?thesis
  proof (cases x)
    case (Inl e)
    then show ?thesis using assms(2) True tr un by (simp add: interrupt_queued_def)
  next
    case (Inr r)
    have "tr_id r \<noteq> t" using transition_id [OF tr [unfolded Inr]] assms(1) by simp
    from untouched_trans [OF un untouched_complete [OF this]]
    have "untouched t rt (complete_turn th r (rt\<lparr>rt_store := db\<rparr>))" .
    moreover have "rt' = drop_task u (release_thread th (complete_turn th r (rt\<lparr>rt_store := db\<rparr>)))"
      using assms(2) True tr Inr by (simp add: interrupt_queued_def)
    ultimately show ?thesis by (simp add: untouched_def drop_task_def release_thread_def)
  qed
qed (use assms(2) in \<open>simp add: interrupt_queued_def\<close>)

section \<open>A turn without a task\<close>

text \<open>A step of a closed runtime leaves a turn without a frame alone, unless it is an interrupt of that turn.\<close>

lemma frameless_step:
  assumes "plane_step w w'" and "rt_closed (snd w)" "rt_frames (snd w) t = None"
  shows "untouched t (snd w) (snd w') \<or>
    (\<exists>th now iq. rt_active (snd w) th = Some t \<and> interrupt_queued th t now (snd w) = (iq, snd w') \<and> fst w' = fst w)"
  using assms
proof (induction rule: plane_step.induct)
  case (step_start req u i now rt res rt' co)
  then show ?case by (simp add: start_turn_def Let_def)
next
  case (step_first rt u f co)
  then have "u \<noteq> t" by auto
  then show ?case by (simp add: run_first_step_def untouched_put_frame)
next
  case (step_killed rt u f co)
  then have "u \<noteq> t" by auto
  then show ?case by (simp add: untouched_end)
next
  case (step_admitted rt u f co whole now now')
  then have "u \<noteq> t" by auto
  then show ?case by (simp add: admitted_untouched)
next
  case (step_item rt u f item mt co)
  then have "u \<noteq> t" by auto
  then show ?case by (simp add: item_untouched)
next
  case (step_returned rt u f ex i co whole now now')
  then have "u \<noteq> t" by auto
  then show ?case by (simp add: returned_untouched)
next
  case (step_raised rt u f co whole now exc)
  then have "u \<noteq> t" by auto
  then show ?case by (simp add: failed_untouched)
next
  case (step_cancelled rt u f co whole now)
  then have "u \<noteq> t" by auto
  then show ?case by (simp add: cancelled_untouched)
next
  case (step_subscribe th u rt sub rt' co)
  show ?case by (rule subscribe_cases [OF step_subscribe(1)]) (simp_all add: untouched_def)
next
  case (step_consume co rt a)
  show ?case by (simp add: next_value_def untouched_def split: option.splits list.splits stream_value.splits)
next
  case (step_interrupt th u rt ir rt' co)
  then show ?case
    by (auto simp: interrupt_turn_def request_cancel_task_def untouched_def split: sum.splits if_splits)
next
  case (step_interrupt_queued rt th u now iq rt' co)
  show ?case
  proof (cases "u = t")
    case True
    then show ?thesis using step_interrupt_queued(1,3) by auto
  next
    case False
    then show ?thesis using queued_untouched [OF False step_interrupt_queued(3)] by simp
  qed
next
  case (step_shutdown co rt)
  show ?case by (simp add: shutdown_def untouched_def)
next
  case (step_arm u s ch i why hex c rt ares c' rt')
  then show ?case using arm_untouched by simp
next
  case (step_delivered whole u c rt e c' rt')
  then show ?case using untouched_reopened [OF delivered_reopens] by simp
next
  case (step_undelivered u why c rt e c' rt')
  then show ?case using untouched_reopened [OF undelivered_reopens] by simp
next
  case (step_watchdog i c rt e c' rt')
  then show ?case using untouched_reopened [OF watchdog_reopens] by simp
qed

section \<open>Stranded turns\<close>

text \<open>In a closed runtime the turn is queued in the store, no coroutine runs it, those who wait for it wait,
  and nothing new is admitted.\<close>

definition stranded :: "pystr \<Rightarrow> turn_record \<Rightarrow> conv_runtime \<Rightarrow> bool" where
  "stranded t r rt \<longleftrightarrow> rt_closed rt \<and> rt_frames rt t = None \<and> rt_results rt t = Some Pending \<and>
     read_turn t (rt_store rt) = Inr (Some r) \<and> tr_status r = TQueued"

lemma stranded_waits: "stranded t r rt \<Longrightarrow> wait_result (tr_thread_id r) t rt = None"
  by (simp add: stranded_def wait_result_def runtime_read_turn_def Let_def status_terminal_def)

lemma closed_refuses:
  "rt_closed rt \<Longrightarrow> start_turn req u i now rt = (Inl (RuntimeClosedError (lit ''conversation runtime is shutting down'')), rt)"
  by (simp add: start_turn_def Let_def)

lemma stranded_untouched:
  assumes "untouched t rt rt'" "stranded t r rt"
  shows "stranded t r rt'"
proof -
  have "read_turn t (rt_store rt') = read_turn t (rt_store rt)"
    using assms(1) unfolding untouched_def read_turn_def by metis
  then show ?thesis using assms unfolding untouched_def stranded_def by simp
qed

lemma stranded_until_interrupted:
  assumes "plane_step\<^sup>*\<^sup>* w w'" and "stranded t r (snd w)"
  shows "stranded t r (snd w') \<or>
    (\<exists>w1 w2 th now. plane_step\<^sup>*\<^sup>* w w1 \<and> stranded t r (snd w1) \<and> fst w2 = fst w1 \<and>
       snd w2 = snd (interrupt_queued th t now (snd w1)) \<and> plane_step\<^sup>*\<^sup>* w2 w')"
  using assms(1)
proof (induction rule: rtranclp_induct)
  case base
  show ?case using assms(2) by simp
next
  case (step x y)
  from step.IH show ?case
  proof (elim disjE exE conjE)
    assume x: "stranded t r (snd x)"
    have c: "rt_closed (snd x)" "rt_frames (snd x) t = None" using x by (simp_all add: stranded_def)
    from frameless_step [OF step.hyps(2) c] show ?thesis
    proof (elim disjE exE conjE)
      assume "untouched t (snd x) (snd y)"
      then show ?thesis using stranded_untouched [OF _ x] by blast
    next
      fix th now iq
      assume q: "interrupt_queued th t now (snd x) = (iq, snd y)" "fst y = fst x"
      have "snd y = snd (interrupt_queued th t now (snd x))" using q(1) by simp
      then show ?thesis using step.hyps(1) x q(2) by blast
    qed
  next
    fix w1 w2 th now
    assume a: "plane_step\<^sup>*\<^sup>* w w1" "stranded t r (snd w1)" "fst w2 = fst w1"
      "snd w2 = snd (interrupt_queued th t now (snd w1))" "plane_step\<^sup>*\<^sup>* w2 x"
    then have "plane_step\<^sup>*\<^sup>* w2 y" using step.hyps(2) by simp
    then show ?thesis using a(1-4) by blast
  qed
qed

end
