(* ===== verification/RuntimeTheorems.thy ===== *)
theory RuntimeTheorems
  imports StrandedTurns
begin

text \<open>
  What the control plane guarantees in every state it can reach from start-up: exact event streams,
  one outcome per turn, one turn at a time, cancellations that settle, and a restart that is only
  handed over once its turn is stored, delivered and alone.
\<close>

section \<open>Reachable planes\<close>

text \<open>A plane at start-up: an empty runtime, and a coordinator bound to it unless the process is
  not supervised; its channel carries the boot id of the process and an ASCII nonce.\<close>

definition start_plane :: "plane \<Rightarrow> bool" where
  "start_plane w \<longleftrightarrow> (\<exists>cap db. new_runtime cap db = Inr (snd w)) \<and>
     (case fst w of
        None \<Rightarrow> True
      | Some c \<Rightarrow> \<exists>boot commit pos tt c0. new_coordinator boot (commit \<noteq> None) commit pos tt = Inr c0 \<and>
          bind_admission c0 = Inr c \<and>
          (\<forall>ch. commit = Some ch \<longrightarrow> (\<exists>fd nonce. open_channel fd True boot nonce = Inr ch \<and> (\<forall>k \<in> set nonce. k < 128))))"

definition reachable_plane :: "plane \<Rightarrow> bool" where
  "reachable_plane w \<longleftrightarrow> (\<exists>w0. start_plane w0 \<and> plane_step\<^sup>*\<^sup>* w0 w)"

lemma bound_ok:
  assumes ok: "coordinator_ok c0" and b: "bind_admission c0 = Inr c"
  shows "coordinator_ok c \<and> co_pending c = co_pending c0"
proof -
  have c: "c = c0\<lparr>co_bound := True\<rparr>" using b by (simp add: bind_admission_def split: if_splits)
  have ch: "channel_ok c = channel_ok c0" "request_ok c = request_ok c0"
    by (simp_all add: c channel_ok_def request_ok_def fun_eq_iff)
  have eq: "co_supervised c = co_supervised c0" "co_commit c = co_commit c0" "co_pending c = co_pending c0"
      "co_turn_completed c = co_turn_completed c0" "co_delivered c = co_delivered c0" "co_state c = co_state c0"
      "co_watchdog c = co_watchdog c0" "co_committed_event c = co_committed_event c0"
    by (simp_all add: c)
  show ?thesis using ok unfolding coordinator_ok_def ch eq by blast
qed

lemma start_plane_ok:
  assumes "start_plane w"
  shows "plane_ok w"
proof -
  obtain co rt where w: "w = (co, rt)" by (metis prod.exhaust)
  obtain cap db where rt: "new_runtime cap db = Inr rt" using assms by (auto simp: start_plane_def w)
  show ?thesis
  proof (cases co)
    case None
    then show ?thesis using new_runtime_ok [OF rt] w by simp
  next
    case (Some c)
    then obtain boot commit pos tt c0 where c: "new_coordinator boot (commit \<noteq> None) commit pos tt = Inr c0"
        "bind_admission c0 = Inr c"
        "\<And>ch. commit = Some ch \<Longrightarrow> \<exists>fd nonce. open_channel fd True boot nonce = Inr ch \<and> (\<forall>k \<in> set nonce. k < 128)"
      using assms by (auto simp: start_plane_def w)
    have ch: "cc_boot_id ch = boot \<and> (\<forall>k \<in> set (cc_nonce ch). k < 128) \<and> cc_pipe ch = empty_pipe" if "commit = Some ch" for ch
      using c(3) [OF that] by (auto simp: open_channel_def split: if_splits)
    note n = new_coordinator_ok [OF c(1) ch]
    show ?thesis unfolding w Some
      using bound_ok [OF n(1) c(2)] n(2) by (intro new_plane_ok [OF rt]) simp_all
  qed
qed

lemma reachable_ok: "reachable_plane w \<Longrightarrow> plane_ok w"
  unfolding reachable_plane_def using plane_reachable_ok start_plane_ok by blast

lemma reachable_turn: "reachable_plane (co, rt) \<Longrightarrow> turn_ok rt t"
  using reachable_ok [of "(co, rt)"] by (simp add: plane_ok_def runtime_ok_def)

lemma reachable_stream: "reachable_plane (co, rt) \<Longrightarrow> rt_streams rt a = Some q \<Longrightarrow> stream_ok rt a q"
  using reachable_ok [of "(co, rt)"] by (simp add: plane_ok_def runtime_ok_def shared_ok_def streams_at_def)

lemma reachable_start: "start_plane w \<Longrightarrow> reachable_plane w"
  unfolding reachable_plane_def by blast

lemma reachable_step: "reachable_plane w \<Longrightarrow> plane_step w w' \<Longrightarrow> reachable_plane w'"
  unfolding reachable_plane_def by (meson rtranclp.rtrancl_into_rtrancl)

section \<open>Sample planes\<close>

text \<open>One turn of thread \<open>t\<close> on an unsupervised runtime with the smallest queue that takes its start.\<close>

definition sample_request :: turn_request where
  "sample_request = \<lparr>tq_thread_id = lit ''t'', tq_input = lit ''hi'', tq_metadata = []\<rparr>"

definition sample_runtime :: "nat \<Rightarrow> conv_runtime" where
  "sample_runtime cap = (case new_runtime cap \<lparr>turns = [], threads = []\<rparr> of Inr rt \<Rightarrow> rt)"

definition sample_started :: "nat \<Rightarrow> conv_runtime" where
  "sample_started cap = snd (start_turn sample_request (lit ''x'') (lit ''a'') 1 (sample_runtime cap))"

definition sample_subscribed :: "nat \<Rightarrow> conv_runtime" where
  "sample_subscribed cap = snd (subscribe (lit ''t'') (lit ''x'') (sample_started cap))"

definition sample_waiting :: conv_runtime where
  "sample_waiting = snd (run_first_step (lit ''x'') (the (rt_frames (sample_started 4) (lit ''x''))) (None, sample_started 4))"

definition sample_cancelled :: conv_runtime where
  "sample_cancelled = snd (interrupt_turn (lit ''t'') (lit ''x'') sample_waiting)"

definition sample_record :: turn_record where
  "sample_record = \<lparr>tr_id = lit ''x'', tr_thread_id = lit ''t'', tr_status = TQueued, tr_input = lit ''hi'', tr_metadata = [],
     tr_items = [\<lparr>ti_kind = UserMessage, ti_id = lit ''a'', ti_data = [(lit ''content'', JStr (lit ''hi''))]\<rparr>],
     tr_usage = None, tr_error = None, tr_created_at = 1, tr_started_at = None, tr_completed_at = None,
     tr_final_response = None\<rparr>"

lemma sample_row: "row_to_turn (turn_row_of sample_record) = Inr sample_record" "tw_id (turn_row_of sample_record) = lit ''x''"
proof -
  have "readable sample_record" by (simp add: readable_def sample_record_def)
  then show "row_to_turn (turn_row_of sample_record) = Inr sample_record" by (rule row_roundtrip)
  show "tw_id (turn_row_of sample_record) = lit ''x''" by (simp add: turn_row_of_def sample_record_def)
qed

lemma sample_create:
  "create_turn sample_record \<lparr>turns = [], threads = []\<rparr> = (Inr sample_record, \<lparr>turns = [turn_row_of sample_record], threads = []\<rparr>)"
  using sample_row by (simp add: create_turn_def reread_def read_turn_def ctl_opt_def sample_record_def)

definition sample_events :: "turn_event list" where
  "sample_events =
     [turn_event_of ''turn/queued'' (lit ''t'') (lit ''x'') (TurnData sample_record),
      turn_event_of ''item/started'' (lit ''t'') (lit ''x'') (ItemData (hd (tr_items sample_record))),
      turn_event_of ''item/completed'' (lit ''t'') (lit ''x'') (ItemData (hd (tr_items sample_record)))]"

lemma sample_started_fields:
  assumes "2 \<le> cap"
  shows "rt_store (sample_started cap) = \<lparr>turns = [turn_row_of sample_record], threads = []\<rparr>"
    and "rt_queue_size (sample_started cap) = cap" and "rt_results (sample_started cap) = [lit ''x'' \<mapsto> Pending]"
    and "rt_history (sample_started cap) = [lit ''x'' \<mapsto> sample_events]"
    and "rt_streams (sample_started cap) = Map.empty" and "rt_next_stream (sample_started cap) = 0"
    and "rt_subs (sample_started cap) = (\<lambda>_. [])" and "rt_tasks (sample_started cap) = [lit ''x'']"
    and "rt_active (sample_started cap) = [lit ''t'' \<mapsto> lit ''x'']" and "rt_admission (sample_started cap) = None"
    and "rt_cancelling (sample_started cap) = []" and "rt_interrupts (sample_started cap) = []"
    and "rt_closed (sample_started cap) = False"
    and "rt_frames (sample_started cap) = [lit ''x'' \<mapsto> \<lparr>rf_request = sample_request, rf_stage = Unstarted, rf_items = [],
           rf_observed = [], rf_open = [], rf_live = []\<rparr>]"
proof -
  note c = sample_create [unfolded sample_record_def]
  have s: "sample_started cap = snd (start_turn sample_request (lit ''x'') (lit ''a'') 1
      \<lparr>rt_store = \<lparr>turns = [], threads = []\<rparr>, rt_queue_size = cap, rt_active = Map.empty, rt_busy = [], rt_tasks = [],
        rt_results = Map.empty, rt_history = Map.empty, rt_subs = (\<lambda>_. []), rt_streams = Map.empty,
        rt_next_stream = 0, rt_interrupts = [], rt_closed = False, rt_accepting = True, rt_owner = None,
        rt_admission = None, rt_frames = Map.empty, rt_cancelling = []\<rparr>)"
    using assms by (simp add: sample_started_def sample_runtime_def new_runtime_def)
  show "rt_store (sample_started cap) = \<lparr>turns = [turn_row_of sample_record], threads = []\<rparr>"
    "rt_queue_size (sample_started cap) = cap" "rt_results (sample_started cap) = [lit ''x'' \<mapsto> Pending]"
    "rt_history (sample_started cap) = [lit ''x'' \<mapsto> sample_events]"
    "rt_streams (sample_started cap) = Map.empty" "rt_next_stream (sample_started cap) = 0"
    "rt_subs (sample_started cap) = (\<lambda>_. [])" "rt_tasks (sample_started cap) = [lit ''x'']"
    "rt_active (sample_started cap) = [lit ''t'' \<mapsto> lit ''x'']" "rt_admission (sample_started cap) = None"
    "rt_cancelling (sample_started cap) = []" "rt_interrupts (sample_started cap) = []"
    "rt_closed (sample_started cap) = False"
    "rt_frames (sample_started cap) = [lit ''x'' \<mapsto> \<lparr>rf_request = sample_request, rf_stage = Unstarted, rf_items = [],
           rf_observed = [], rf_open = [], rf_live = []\<rparr>]"
    unfolding s
    by (simp_all add: start_turn_def Let_def sample_request_def c publish_event_def to_subscribers_def history_of_def
        sample_events_def sample_record_def fun_upd_idem)
qed

lemma sample_read: "read_turn (lit ''x'') \<lparr>turns = [turn_row_of sample_record], threads = []\<rparr> = Inr (Some sample_record)"
  by (simp add: read_turn_def ctl_opt_def sample_row)

lemma sample_subscribed_stream:
  "rt_streams (sample_subscribed 4) 0 =
     Some \<lparr>sq_turn = lit ''x'', sq_items = map SEvent sample_events, sq_yielded = [], sq_outcome = None\<rparr>"
proof -
  have "runtime_read_turn (lit ''t'') (lit ''x'') (sample_started 4) = Inr sample_record"
    by (simp add: runtime_read_turn_def sample_started_fields sample_read Let_def) (simp add: sample_record_def)
  moreover have "\<not> status_terminal (tr_status sample_record)" by (simp add: sample_record_def status_terminal_def)
  ultimately show ?thesis
    by (simp add: sample_subscribed_def subscribe_def sample_started_fields Let_def) (simp add: sample_events_def)
qed

lemma sample_reachable:
  "2 \<le> cap \<Longrightarrow> reachable_plane (None, sample_runtime cap)"
  "2 \<le> cap \<Longrightarrow> reachable_plane (None, sample_started cap)"
  "2 \<le> cap \<Longrightarrow> reachable_plane (None, sample_subscribed cap)"
proof -
  assume cap: "2 \<le> cap"
  have "\<exists>cap' db. new_runtime cap' db = Inr (sample_runtime cap)"
    using cap by (intro exI [of _ cap] exI [of _ "\<lparr>turns = [], threads = []\<rparr>"]) (simp add: sample_runtime_def new_runtime_def)
  then show r0: "reachable_plane (None, sample_runtime cap)" by (intro reachable_start) (simp add: start_plane_def)
  show r1: "reachable_plane (None, sample_started cap)"
    by (rule reachable_step [OF r0], unfold sample_started_def, rule step_start [OF prod.collapse [symmetric]]) (simp add: lit_def)
  show "reachable_plane (None, sample_subscribed cap)"
    by (rule reachable_step [OF r1], unfold sample_subscribed_def, rule step_subscribe [OF prod.collapse [symmetric]])
qed


text \<open>The turn waits for its admission when it is interrupted.\<close>

definition sample_frame :: run_frame where
  "sample_frame = \<lparr>rf_request = sample_request, rf_stage = WaitingAdmission, rf_items = [], rf_observed = [], rf_open = [], rf_live = []\<rparr>"

lemma sample_waiting_eq: "sample_waiting = put_frame (lit ''x'') sample_frame (sample_started 4)"
  by (simp add: sample_waiting_def run_first_step_def sample_started_fields sample_frame_def)

lemma sample_cancelled_eq: "sample_cancelled = request_cancel_task (lit ''x'') sample_waiting"
proof -
  have "runtime_read_turn (lit ''t'') (lit ''x'') sample_waiting = Inr sample_record"
    by (simp add: runtime_read_turn_def sample_waiting_eq put_frame_def sample_started_fields sample_read Let_def)
      (simp add: sample_record_def)
  moreover have "rt_active sample_waiting (lit ''t'') = Some (lit ''x'')"
    by (simp add: sample_waiting_eq put_frame_def sample_started_fields)
  ultimately show ?thesis
    by (simp add: sample_cancelled_def interrupt_turn_def) (simp add: sample_record_def status_terminal_def)
qed

lemma sample_cancelling:
  "reachable_plane (None, sample_cancelled)" "rt_frames sample_cancelled (lit ''x'') = Some sample_frame"
  "rf_stage sample_frame \<noteq> Unstarted" "lit ''x'' \<in> set (rt_cancelling sample_cancelled)"
proof -
  let ?f = "\<lparr>rf_request = sample_request, rf_stage = Unstarted, rf_items = [], rf_observed = [], rf_open = [], rf_live = []\<rparr>"
  have "run_first_step (lit ''x'') ?f (None, sample_started 4) = (None, sample_waiting)"
    by (simp add: run_first_step_def sample_waiting_eq sample_frame_def)
  moreover have "plane_step (None, sample_started 4) (run_first_step (lit ''x'') ?f (None, sample_started 4))"
    by (rule step_first) (simp_all add: sample_started_fields)
  ultimately have "plane_step (None, sample_started 4) (None, sample_waiting)" by simp
  then have "reachable_plane (None, sample_waiting)" by (rule reachable_step [OF sample_reachable(2), rotated]) simp
  then show "reachable_plane (None, sample_cancelled)"
    by (rule reachable_step) (unfold sample_cancelled_def, rule step_interrupt [OF prod.collapse [symmetric]])
  show "rt_frames sample_cancelled (lit ''x'') = Some sample_frame" "lit ''x'' \<in> set (rt_cancelling sample_cancelled)"
    by (simp_all add: sample_cancelled_eq request_cancel_task_def sample_waiting_eq put_frame_def)
  show "rf_stage sample_frame \<noteq> Unstarted" by (simp add: sample_frame_def)
qed

lemma sample_settled:
  "\<exists>v. rt_results (snd (run_cancelled True 2 (lit ''x'') sample_frame (None, sample_cancelled))) (lit ''x'') = Some (Settled v)"
  using reachable_ok [OF sample_cancelling(1)] sample_cancelling(2)
proof (rule frame_record)
  fix r assume r: "running (lit ''x'') (tq_thread_id (rf_request sample_frame)) sample_cancelled" "frame_ok sample_frame"
    "holds_record (lit ''x'') r (rt_store sample_cancelled)" "tr_thread_id r = tq_thread_id (rf_request sample_frame)"
    "tr_status r = (if rf_stage sample_frame = Executing then TInProgress else TQueued)" "linked (None, sample_cancelled)"
  have st: "tr_status r \<in> {TQueued, TInProgress}" using r(5) by simp
  show ?thesis using run_cancelled_ok [OF r(1,3,4) st r(2) refl r(6), of True 2] by auto
qed

text \<open>A supervised process: its turn starts, executes, asks for a restart, returns and is delivered.\<close>

definition sample_channel :: commit_channel where
  "sample_channel = \<lparr>cc_fd = 3, cc_boot_id = lit ''b'', cc_nonce = replicate 32 97, cc_pipe = empty_pipe\<rparr>"

definition sample_coordinator :: coordinator where
  "sample_coordinator = \<lparr>co_boot_id = lit ''b'', co_supervised = True, co_commit = Some sample_channel,
     co_timeout_text = lit ''30'', co_state = RIdle, co_pending = None, co_last_error = None, co_turn_completed = False,
     co_delivered = False, co_committed_event = False, co_watchdog = None, co_bound = True\<rparr>"

definition sample_restart :: restart_request where
  "sample_restart = \<lparr>rq_id = lit ''restart_0'', rq_boot_id = lit ''b'', rq_turn_id = lit ''x'', rq_session_key = lit ''t'',
     rq_channel = lit ''c'', rq_chat_id = lit ''d'', rq_reason = lit ''update''\<rparr>"

definition sample_armed :: coordinator where
  "sample_armed = sample_coordinator\<lparr>co_pending := Some sample_restart, co_state := RArmed,
     co_watchdog := Some (lit ''restart_0'')\<rparr>"

definition sample_completed :: coordinator where
  "sample_completed = sample_armed\<lparr>co_turn_completed := True, co_state := RWaitingDelivery\<rparr>"

lemma sample_supervised: "2 \<le> cap \<Longrightarrow> start_plane (Some sample_coordinator, sample_runtime cap)"
proof -
  assume cap: "2 \<le> cap"
  have rt: "\<exists>cap' db. new_runtime cap' db = Inr (sample_runtime cap)"
    using cap by (intro exI [of _ cap] exI [of _ "\<lparr>turns = [], threads = []\<rparr>"]) (simp add: sample_runtime_def new_runtime_def)
  have st: "strip (lit ''b'') \<noteq> []" by (simp add: strip_def py_space_def lit_def)
  have ch: "open_channel 3 True (lit ''b'') (replicate 32 97) = Inr sample_channel"
    by (simp add: open_channel_def sample_channel_def)
  show ?thesis unfolding start_plane_def
    by (intro conjI, use rt in simp, unfold prod.sel option.case,
        rule exI [of _ "lit ''b''"], rule exI [of _ "Some sample_channel"], rule exI [of _ True], rule exI [of _ "lit ''30''"],
        rule exI [of _ "sample_coordinator\<lparr>co_bound := False\<rparr>"])
      (use st ch in \<open>auto simp: new_coordinator_def bind_admission_def sample_coordinator_def
        intro!: exI [of _ 3] exI [of _ "replicate 32 97"]\<close>)
qed

lemma sample_arm:
  assumes "quiesce_for_restart (lit ''x'') rt = Inr rt'"
  shows "arm quiesce_for_restart (lit ''x'') (lit ''t'') (lit ''c'') (lit ''d'') (lit ''update'') (lit ''0'') (sample_coordinator, rt) =
      (Inr sample_restart, sample_armed, rt')"
proof -
  have st: "strip (lit ''update'') = lit ''update''" by (simp add: strip_def py_space_def lit_def)
  show ?thesis
    by (simp add: arm_def Let_def st assms sample_coordinator_def sample_armed_def sample_restart_def) (simp add: lit_def)
qed

lemma mark_completed:
  "mark_turn_terminal resume_after_restart_cancel True (lit ''x'') (lit ''completed'') (sample_armed, rt) =
     (None, sample_completed, rt)"
  by (simp add: mark_turn_terminal_def commit_if_ready_def pending_is_def sample_armed_def sample_completed_def
      sample_restart_def sample_coordinator_def)

lemma sample_delivered:
  "\<exists>c ch. mark_delivered resume_after_restart_cancel True (lit ''x'') (sample_completed, rt) = (None, c, rt) \<and>
     co_commit c = Some ch \<and> co_state c = RCommitted \<and> pi_lines (cc_pipe ch) = [Some (commit_frame ch sample_restart)] \<and>
     co_pending c = Some sample_restart"
  by (simp add: mark_delivered_def commit_if_ready_def pending_is_def sample_armed_def sample_completed_def
      sample_restart_def sample_coordinator_def sample_channel_def channel_commit_def write_line_def empty_pipe_def
      commit_frame_def)

definition sample_execution :: execution_result where
  "sample_execution = \<lparr>ex_response = lit ''ok'', ex_items = [], ex_deltas = [], ex_usage = None, ex_assistant_data = []\<rparr>"

lemma sample_holds: "holds_record (lit ''x'') sample_record \<lparr>turns = [turn_row_of sample_record], threads = []\<rparr>"
  by (simp add: holds_record_def sample_row(2)) (simp add: sample_record_def readable_def)

lemma sample_executing:
  "\<exists>rt f r. reachable_plane (Some sample_coordinator, rt) \<and> rt_frames rt (lit ''x'') = Some f \<and> rf_stage f = Executing \<and>
     rf_open f = [] \<and> rf_request f = sample_request \<and> holds_record (lit ''x'') r (rt_store rt) \<and> tr_status r = TInProgress \<and>
     tr_thread_id r = lit ''t'' \<and> quiesce_for_restart (lit ''x'') rt = Inr (rt\<lparr>rt_accepting := False, rt_owner := Some (lit ''x'')\<rparr>)"
proof -
  let ?c = "Some sample_coordinator" and ?x = "lit ''x''"
  let ?f = "\<lparr>rf_request = sample_request, rf_stage = Unstarted, rf_items = [], rf_observed = [], rf_open = [], rf_live = []\<rparr>"
  have r0: "reachable_plane (?c, sample_runtime 9)" by (rule reachable_start [OF sample_supervised]) simp
  have r1: "reachable_plane (?c, sample_started 9)"
    by (rule reachable_step [OF r0], unfold sample_started_def, rule step_start [OF prod.collapse [symmetric]]) (simp add: lit_def)
  let ?w2 = "put_frame ?x (?f\<lparr>rf_stage := WaitingAdmission\<rparr>) (sample_started 9)"
  have s2: "run_first_step ?x ?f (?c, sample_started 9) = (?c, ?w2)"
    by (simp add: run_first_step_def)
  have "plane_step (?c, sample_started 9) (run_first_step ?x ?f (?c, sample_started 9))"
    by (rule step_first) (simp_all add: sample_started_fields)
  then have r2: "reachable_plane (?c, ?w2)" using reachable_step [OF r1] s2 by simp
  let ?f2 = "?f\<lparr>rf_stage := WaitingAdmission\<rparr>"
  have ok: "turn_step (tr_status sample_record) TInProgress" "patch_ok plain_patch"
      "Some (lit ''t'') = None \<or> Some (lit ''t'') = Some (tr_thread_id sample_record)"
    by (simp_all add: sample_record_def turn_step_def patch_ok_def plain_patch_def)
  note tr = transition_holds [OF sample_holds ok(1) _ ok(3,2), where now = 2]
  obtain db where db: "transition_turn ?x TQueued TInProgress (Some (lit ''t'')) plain_patch 2 (rt_store ?w2) =
      (Inr (patch_record TInProgress plain_patch 2 sample_record), db)"
      "holds_record ?x (patch_record TInProgress plain_patch 2 sample_record) db"
    using tr(1,2) by (simp add: sample_started_fields put_frame_def) (metis prod.collapse sample_record_def turn_record.select_convs(3))
  let ?r = "patch_record TInProgress plain_patch 2 sample_record"
  let ?rt = "put_frame ?x (?f2\<lparr>rf_stage := Executing, rf_items := tr_items ?r\<rparr>)
      (publish_event (turn_event_of ''turn/started'' (lit ''t'') ?x (TurnData ?r)) (?w2\<lparr>rt_admission := Some ?x, rt_store := db\<rparr>))"
  have s3: "run_admitted True 2 2 ?x ?f2 (?c, ?w2) = (?c, ?rt)"
    using db(1) by (simp add: run_admitted_def Let_def sample_request_def put_frame_def)
  have "plane_step (?c, ?w2) (run_admitted True 2 2 ?x ?f2 (?c, ?w2))"
    by (rule step_admitted) (simp_all add: put_frame_def sample_started_fields)
  then have r3: "reachable_plane (?c, ?rt)" using reachable_step [OF r2] s3 by simp
  have acc: "rt_accepting (sample_started 9)"
    by (simp add: sample_started_def start_turn_def Let_def sample_runtime_def new_runtime_def split: sum.splits prod.splits)
  have "quiesce_for_restart ?x ?rt = Inr (?rt\<lparr>rt_accepting := False, rt_owner := Some ?x\<rparr>)"
    using acc by (simp add: quiesce_for_restart_def sample_started_fields put_frame_def)
  moreover have "rt_frames ?rt ?x = Some (?f2\<lparr>rf_stage := Executing, rf_items := tr_items ?r\<rparr>)" "rt_store ?rt = db"
    by (simp_all add: put_frame_def)
  moreover have "tr_status ?r = TInProgress" "tr_thread_id ?r = lit ''t''" by (simp_all add: patch_record_def sample_record_def)
  ultimately show ?thesis using r3 db(2)
    by (intro exI [of _ ?rt] exI [of _ "?f2\<lparr>rf_stage := Executing, rf_items := tr_items ?r\<rparr>"] exI [of _ ?r]) simp
qed

lemma sample_thread: "rf_request f = sample_request \<Longrightarrow> tq_thread_id (rf_request f) = lit ''t''"
  by (simp add: sample_request_def)

lemma sample_handover:
  "\<exists>c rt ch. reachable_plane (Some c, rt) \<and> co_commit c = Some ch \<and> co_state c = RCommitted \<and>
     pi_lines (cc_pipe ch) = [Some (commit_frame ch sample_restart)] \<and> co_pending c = Some sample_restart"
proof -
  let ?x = "lit ''x''"
  obtain rt f r where s: "reachable_plane (Some sample_coordinator, rt)" "rt_frames rt ?x = Some f" "rf_stage f = Executing"
      "rf_open f = []" "rf_request f = sample_request" "holds_record ?x r (rt_store rt)" "tr_status r = TInProgress"
      "tr_thread_id r = lit ''t''" "quiesce_for_restart ?x rt = Inr (rt\<lparr>rt_accepting := False, rt_owner := Some ?x\<rparr>)"
    using sample_executing by blast
  let ?q = "rt\<lparr>rt_accepting := False, rt_owner := Some ?x\<rparr>"
  have r4: "reachable_plane (Some sample_armed, ?q)"
    by (rule reachable_step [OF s(1) step_arm [OF sample_arm [OF s(9)]]])
  let ?a = "\<lparr>ti_kind = AssistantMessage, ti_id = lit ''a2'',
      ti_data = dict_update [(lit ''content'', JStr (ex_response sample_execution))] (ex_assistant_data sample_execution)\<rparr>"
  let ?p = "plain_patch\<lparr>tp_items := Some (rf_items f @ ex_items sample_execution @ [?a]), tp_usage := ex_usage sample_execution,
      tp_final_response := Some (ex_response sample_execution)\<rparr>"
  let ?pub = "publish_all (result_events (lit ''t'') ?x (rf_live f) sample_execution ?a) ?q"
  have fok: "frame_ok f" using running_of_ok(2) [of rt ?x f] reachable_ok [OF s(1)] s(2) by (simp add: plane_ok_def)
  have "patch_ok ?p" using fok by (auto simp: patch_ok_def plain_patch_def sample_execution_def frame_ok_def lit_def)
  moreover have "turn_step (tr_status r) TCompleted" using s(7) by (simp add: turn_step_def)
  moreover have "Some (lit ''t'') = None \<or> Some (lit ''t'') = Some (tr_thread_id r)" using s(8) by simp
  ultimately have "fst (transition_turn ?x (tr_status r) TCompleted (Some (lit ''t'')) ?p 3 (rt_store rt)) =
      Inr (patch_record TCompleted ?p 3 r)"
    using transition_holds(1) [OF s(6)] by blast
  moreover have "rt_store ?pub = rt_store rt" by simp
  ultimately have tr: "fst (transition_turn ?x TInProgress TCompleted (Some (lit ''t'')) ?p 3 (rt_store ?pub)) =
      Inr (patch_record TCompleted ?p 3 r)" using s(7) by (simp only:)
  let ?t = "transition_turn ?x TInProgress TCompleted (Some (lit ''t'')) ?p 3 (rt_store ?pub)"
  have db: "?t = (Inr (patch_record TCompleted ?p 3 r), snd ?t)" by (subst tr [symmetric]) (rule prod.collapse [symmetric])
  have st: "tr_status (patch_record TCompleted ?p 3 r) = TCompleted" by (simp add: patch_record_def)
  have fin: "\<exists>rt5. run_finally True (lit ''t'') ?x (Inr r') (Some sample_armed, rt') = (Some sample_completed, rt5)"
    if "tr_status r' = TCompleted" for r' rt' using that by (simp add: run_finally_def mark_completed Let_def)
  have "run_returned True 3 3 (lit ''a2'') sample_execution ?x f (Some sample_armed, ?q) =
      run_finally True (lit ''t'') ?x (Inr (patch_record TCompleted ?p 3 r))
        (Some sample_armed, release_admission ?x (?pub\<lparr>rt_store := snd ?t\<rparr>))"
    unfolding run_returned_def Let_def prod.case using s(4,5) by (subst sample_thread [OF s(5)])+ (subst db, simp)
  then obtain rt5 where s5: "run_returned True 3 3 (lit ''a2'') sample_execution ?x f (Some sample_armed, ?q) =
      (Some sample_completed, rt5)" using fin [OF st] by metis
  have "plane_step (Some sample_armed, ?q) (run_returned True 3 3 (lit ''a2'') sample_execution ?x f (Some sample_armed, ?q))"
    by (rule step_returned) (use s(2,3) in \<open>simp_all add: execution_ok_def sample_execution_def lit_def\<close>)
  then have r5: "reachable_plane (Some sample_completed, rt5)" using reachable_step [OF r4] s5 by simp
  obtain c ch where c: "mark_delivered resume_after_restart_cancel True ?x (sample_completed, rt5) = (None, c, rt5)"
      "co_commit c = Some ch" "co_state c = RCommitted" "pi_lines (cc_pipe ch) = [Some (commit_frame ch sample_restart)]"
      "co_pending c = Some sample_restart"
    using sample_delivered by blast
  have "reachable_plane (Some c, rt5)" by (rule reachable_step [OF r5 step_delivered [OF c(1)]])
  then show ?thesis using c by blast
qed

section \<open>Properties\<close>

text \<open>C16: In every reachable plane the events a subscriber of a turn has been handed are a prefix of
  what the turn published, with no gap, no repetition and nothing of another turn; a stream that
  ended in the regular way was handed all of it, and its turn is over.\<close>

theorem stream_exact:
  assumes "reachable_plane (co, rt)" and "rt_streams rt a = Some q"
  shows "prefix (sq_yielded q) (history_of rt (sq_turn q)) \<and>
    (sq_outcome q = Some StreamEnded \<longrightarrow> sq_yielded q = history_of rt (sq_turn q) \<and>
       rt_results rt (sq_turn q) \<noteq> Some Pending)"
proof -
  have cut: "ys @ zs = h \<Longrightarrow> prefix ys h" for ys zs h :: "turn_event list" by (metis prefixI)
  show ?thesis using reachable_stream [OF assms]
    by (auto simp: stream_ok_def Let_def split: option.splits stream_outcome.splits intro: cut)
qed

theorem stream_exact_witness:
  "\<exists>q. rt_streams (next_value 0 (sample_subscribed 4)) 0 = Some q \<and> length (sq_yielded q) = 1 \<and>
     prefix (sq_yielded q) (history_of (next_value 0 (sample_subscribed 4)) (sq_turn q))"
proof -
  have r: "reachable_plane (None, next_value 0 (sample_subscribed 4))"
    by (rule reachable_step [OF sample_reachable(3) step_consume]) simp
  have "rt_streams (next_value 0 (sample_subscribed 4)) 0 =
      Some \<lparr>sq_turn = lit ''x'', sq_items = map SEvent (tl sample_events), sq_yielded = [hd sample_events], sq_outcome = None\<rparr>"
    by (simp add: next_value_def sample_subscribed_stream) (simp add: sample_events_def)
  from stream_exact [OF r this] this show ?thesis by simp
qed


lemma turn_settled:
  assumes reach: "reachable_plane (co, rt)" and v: "rt_results rt t = Some (Settled v)"
  shows "\<exists>r h. read_turn t (rt_store rt) = Inr (Some r) \<and> status_terminal (tr_status r) \<and> v = result_of r \<and>
    wait_result (tr_thread_id r) t rt = Some (Inr v) \<and>
    rt_history rt t = Some (h @ [turn_event_of ''turn/completed'' (tr_thread_id r) t (TurnData r)]) \<and>
    (\<forall>ev \<in> set h. tv_method ev \<noteq> lit ''turn/completed'') \<and> t \<notin> set (rt_tasks rt) \<and> rt_frames rt t = None"
proof -
  have "turn_ok rt t" by (rule reachable_turn [OF reach])
  then obtain r h where r: "holds_record t r (rt_store rt)" "status_terminal (tr_status r)" "v = result_of r"
      and h: "rt_history rt t = Some (h @ [turn_event_of ''turn/completed'' (tr_thread_id r) t (TurnData r)])"
        "\<forall>ev \<in> set h. \<not> completed_event ev"
      and gone: "t \<notin> set (rt_tasks rt)" "rt_frames rt t = None"
    using v by (auto simp: turn_ok_def)
  have rd: "read_turn t (rt_store rt) = Inr (Some r)" by (rule holds_read [OF r(1)])
  then have "wait_result (tr_thread_id r) t rt = Some (Inr v)"
    using r(2,3) by (simp add: wait_result_def runtime_read_turn_def Let_def)
  then show ?thesis using rd r(2,3) h gone unfolding completed_event_def by blast
qed

text \<open>C14: Once the result of a turn is there it agrees everywhere: the stored record is terminal and
  is what \<open>wait_result\<close> returns, the turn's last event, and only it, is \<open>turn/completed\<close> with that
  record, and neither its task nor its coroutine is left.\<close>

theorem turn_outcome_recorded:
  assumes reach: "reachable_plane (co, rt)" and v: "rt_results rt t = Some (Settled v)"
  shows "\<exists>r h. read_turn t (rt_store rt) = Inr (Some r) \<and> status_terminal (tr_status r) \<and> v = result_of r \<and>
    wait_result (tr_thread_id r) t rt = Some (Inr v) \<and>
    rt_history rt t = Some (h @ [turn_event_of ''turn/completed'' (tr_thread_id r) t (TurnData r)]) \<and>
    (\<forall>ev \<in> set h. tv_method ev \<noteq> lit ''turn/completed'') \<and> t \<notin> set (rt_tasks rt) \<and> rt_frames rt t = None"
  by (rule turn_settled [OF assms])

theorem turn_outcome_recorded_witness:
  "\<exists>r v. read_turn (lit ''x'') (rt_store (snd (run_cancelled True 2 (lit ''x'') sample_frame (None, sample_cancelled)))) = Inr (Some r) \<and>
     status_terminal (tr_status r) \<and> v = result_of r \<and>
     wait_result (tr_thread_id r) (lit ''x'') (snd (run_cancelled True 2 (lit ''x'') sample_frame (None, sample_cancelled))) = Some (Inr v)"
proof -
  let ?w = "run_cancelled True 2 (lit ''x'') sample_frame (None, sample_cancelled)"
  obtain v where v: "rt_results (snd ?w) (lit ''x'') = Some (Settled v)" using sample_settled by blast
  have "reachable_plane (fst ?w, snd ?w)"
    unfolding prod.collapse by (rule reachable_step [OF sample_cancelling(1) step_cancelled [OF sample_cancelling(2) _ sample_cancelling(4)]])
      (simp add: sample_cancelling(3))
  from turn_outcome_recorded [OF this v] show ?thesis by blast
qed

text \<open>C15: At most one turn executes at any time, a thread has at most one turn that is not over, and
  while a restart holds the admission no turn but its caller is left.\<close>

theorem one_turn_at_a_time:
  assumes reach: "reachable_plane (co, rt)"
  shows "(\<forall>t f u g. rt_frames rt t = Some f \<and> rf_stage f = Executing \<and> rt_frames rt u = Some g \<and> rf_stage g = Executing \<longrightarrow> t = u) \<and>
    (\<forall>t u r s. rt_results rt t = Some Pending \<and> rt_results rt u = Some Pending \<and>
       read_turn t (rt_store rt) = Inr (Some r) \<and> read_turn u (rt_store rt) = Inr (Some s) \<and>
       tr_thread_id r = tr_thread_id s \<longrightarrow> t = u) \<and>
    (\<forall>t. rt_owner rt = Some t \<longrightarrow> \<not> rt_accepting rt \<and> set (rt_tasks rt) \<subseteq> {t})"
proof -
  have ok: "runtime_ok rt" "admission_ok rt" using reachable_ok [OF reach] by (simp_all add: plane_ok_def linked_def)
  have "t = u" if "rt_frames rt t = Some f \<and> rf_stage f = Executing \<and> rt_frames rt u = Some g \<and> rf_stage g = Executing" for t f u g
    using ok(1) that unfolding runtime_ok_def admission_wf_def by (metis option.inject)
  moreover have active: "rt_active rt (tr_thread_id r) = Some t"
    if p: "rt_results rt t = Some Pending" and rd: "read_turn t (rt_store rt) = Inr (Some r)" for t r
  proof -
    obtain x where x: "active_record rt t x" using reachable_turn [OF reach, of t] p by (auto simp: turn_ok_def)
    then have "x = r" using holds_read [of t x "rt_store rt"] rd by (simp add: active_record_def)
    then show ?thesis using x by (simp add: active_record_def)
  qed
  have "t = u" if "rt_results rt t = Some Pending \<and> rt_results rt u = Some Pending \<and>
      read_turn t (rt_store rt) = Inr (Some r) \<and> read_turn u (rt_store rt) = Inr (Some s) \<and> tr_thread_id r = tr_thread_id s" for t u r s
    using active [of t r] active [of u s] that by simp
  ultimately show ?thesis using ok(2) unfolding admission_ok_def by blast
qed

theorem one_turn_at_a_time_witness:
  "\<not> (\<exists>u r s. rt_results (sample_started 2) u = Some Pending \<and>
     read_turn (lit ''x'') (rt_store (sample_started 2)) = Inr (Some r) \<and>
     read_turn u (rt_store (sample_started 2)) = Inr (Some s) \<and> tr_thread_id r = tr_thread_id s \<and> u \<noteq> lit ''x'')"
proof -
  have "rt_results (sample_started 2) (lit ''x'') = Some Pending" by (simp add: sample_started_fields)
  then show ?thesis using one_turn_at_a_time [OF sample_reachable(2), of 2] by blast
qed

text \<open>C17: Cancelling a turn that has begun always settles it.  Whatever it was doing, its handler
  commits \<open>interrupted\<close> when an interrupt of an executing turn was asked for and \<open>cancelled\<close>
  otherwise, the waiters get that record, and its thread and the admission are free.\<close>

theorem cancellation_settles:
  assumes reach: "reachable_plane (co, rt)" and f: "rt_frames rt t = Some f" "rf_stage f \<noteq> Unstarted"
    and c: "t \<in> set (rt_cancelling rt)"
  shows "let w' = run_cancelled whole now t f (co, rt); th = tq_thread_id (rf_request f) in
    plane_step (co, rt) w' \<and>
    (\<exists>r. read_turn t (rt_store (snd w')) = Inr (Some r) \<and> wait_result th t (snd w') = Some (Inr (result_of r)) \<and>
       tr_status r = (if rf_stage f = Executing \<and> t \<in> set (rt_interrupts rt) then TInterrupted else TCancelled)) \<and>
    rt_active (snd w') th = None \<and> rt_admission (snd w') \<noteq> Some t"
proof -
  have ok: "plane_ok (co, rt)" by (rule reachable_ok [OF reach])
  from ok f(1) show ?thesis
  proof (rule frame_record)
    fix r assume r: "running t (tq_thread_id (rf_request f)) rt" "frame_ok f" "holds_record t r (rt_store rt)"
      "tr_thread_id r = tq_thread_id (rf_request f)" "tr_status r = (if rf_stage f = Executing then TInProgress else TQueued)"
      "linked (co, rt)"
    let ?w = "run_cancelled whole now t f (co, rt)"
    have st: "tr_status r \<in> {TQueued, TInProgress}" using r(5) by simp
    note rc = run_cancelled_ok [OF r(1,3,4) st r(2) refl r(6), of whole now]
    obtain r' where r': "rt_results (snd ?w) t = Some (Settled (result_of r'))" "holds_record t r' (rt_store (snd ?w))"
        "tr_thread_id r' = tq_thread_id (rf_request f)"
        "tr_status r' = (if tr_status r = TInProgress \<and> t \<in> set (rt_interrupts rt) then TInterrupted else TCancelled)"
      using rc by auto
    have step: "plane_step (co, rt) ?w" by (rule step_cancelled [OF f c])
    have reach': "reachable_plane (fst ?w, snd ?w)" using reachable_step [OF reach step] by simp
    obtain x where x: "read_turn t (rt_store (snd ?w)) = Inr (Some x)" "wait_result (tr_thread_id x) t (snd ?w) = Some (Inr (result_of r'))"
        "rt_frames (snd ?w) t = None"
      using turn_settled [OF reach' r'(1)] by blast
    have xr: "x = r'" using holds_read [OF r'(2)] x(1) by simp
    have st': "tr_status r' = (if rf_stage f = Executing \<and> t \<in> set (rt_interrupts rt) then TInterrupted else TCancelled)"
      using r'(4) r(5) by auto
    have "rt_active (snd ?w) (tq_thread_id (rf_request f)) = None" using rc by simp
    moreover have "rt_admission (snd ?w) \<noteq> Some t"
      using reachable_ok [OF reach'] x(3) by (simp add: plane_ok_def runtime_ok_def admission_wf_def)
    ultimately show ?thesis using step x(1,2) xr r'(3) st' unfolding Let_def by auto
  qed
qed

theorem cancellation_settles_witness:
  "\<exists>r. read_turn (lit ''x'') (rt_store (snd (run_cancelled True 2 (lit ''x'') sample_frame (None, sample_cancelled)))) = Inr (Some r) \<and>
     wait_result (lit ''t'') (lit ''x'') (snd (run_cancelled True 2 (lit ''x'') sample_frame (None, sample_cancelled))) =
       Some (Inr (result_of r)) \<and> tr_status r = TCancelled"
  using cancellation_settles [OF sample_cancelling(1-3), of True 2] sample_cancelling(4)
  by (auto simp: Let_def sample_frame_def sample_request_def)


text \<open>C31: A restart is handed over only for a finished conversation.  If the supervisor accepts the
  commit frame it reads from the pipe of a reachable control plane, the request is the committed one,
  its turn is stored as completed, its answer was delivered, no task is left and no new turn can
  start.\<close>

theorem restart_handover:
  assumes reach: "reachable_plane (Some c, rt)" and ch: "co_commit c = Some ch"
    and v: "valid_commit repr (pipe_lines (cc_pipe ch)) (cc_boot_id ch) (cc_nonce ch) = Inr True"
  shows "\<exists>q r. wait_committed c = Some (Inr q) \<and> pi_lines (cc_pipe ch) = [Some (commit_frame ch q)] \<and>
    rq_boot_id q = cc_boot_id ch \<and> co_delivered c \<and> read_turn (rq_turn_id q) (rt_store rt) = Inr (Some r) \<and>
    tr_status r = TCompleted \<and> rt_tasks rt = [] \<and>
    (\<forall>req t i now. start_turn req t i now rt =
       (Inl (RuntimeClosedError (lit ''conversation runtime is shutting down'')), rt))"
proof -
  have ok: "plane_ok (Some c, rt)" by (rule reachable_ok [OF reach])
  have cok: "coordinator_ok c" by (rule plane_coordinator [OF ok])
  have com: "co_state c = RCommitted" "pi_lines (cc_pipe ch) \<noteq> [None]"
    using supervisor_reads [OF cok ch, of repr] v by simp_all
  have chok: "channel_ok c ch" using cok ch by (simp add: coordinator_ok_def)
  then obtain q where q: "co_pending c = Some q" "pi_lines (cc_pipe ch) = [Some (commit_frame ch q)]"
    using com by (auto simp: channel_ok_def)
  have marks: "co_turn_completed c" "co_delivered c" "co_committed_event c" "rq_boot_id q = co_boot_id c"
    using cok q(1) com(1) by (simp_all add: coordinator_ok_def request_ok_def)
  have boot: "rq_boot_id q = cc_boot_id ch" using marks(4) chok by (simp add: channel_ok_def)
  have "completed_stored c (rt_store rt)" "admission_ok rt" "ra.world_ok (c, rt)"
    using ok by (simp_all add: plane_ok_def linked_def)
  then obtain r where r: "holds_record (rq_turn_id q) r (rt_store rt)" "tr_status r = TCompleted"
      and own: "rt_owner rt = Some (rq_turn_id q)" "\<not> rt_accepting rt" "set (rt_tasks rt) \<subseteq> {rq_turn_id q}"
    using q(1) marks(1) by (auto simp: completed_stored_def admission_ok_def ra.world_ok_def)
  have rd: "read_turn (rq_turn_id q) (rt_store rt) = Inr (Some r)" by (rule holds_read [OF r(1)])
  have "rq_turn_id q \<notin> set (rt_tasks rt)"
  proof
    assume task: "rq_turn_id q \<in> set (rt_tasks rt)"
    have t: "turn_ok rt (rq_turn_id q)" by (rule reachable_turn [OF reach])
    then have p: "rt_results rt (rq_turn_id q) = Some Pending"
      using task by (auto simp: turn_ok_def split: option.splits turn_future.splits)
    then obtain h where "rt_history rt (rq_turn_id q) = Some h" using t by (auto simp: turn_ok_def)
    from readable_pending [OF t rd this] show False using p r(2) by (simp add: status_terminal_def)
  qed
  then have "rt_tasks rt = []" using own(3) by (cases "rt_tasks rt") auto
  moreover have "wait_committed c = Some (Inr q)" using q(1) com(1) marks(3) by (simp add: wait_committed_def)
  moreover have "start_turn req t i now rt = (Inl (RuntimeClosedError (lit ''conversation runtime is shutting down'')), rt)"
    for req t i now using own(2) by (simp add: start_turn_def Let_def)
  ultimately show ?thesis using q(2) boot marks(2) rd r(2) by blast
qed

theorem restart_handover_witness:
  "\<exists>c rt ch r. reachable_plane (Some c, rt) \<and> co_commit c = Some ch \<and>
     pi_lines (cc_pipe ch) = [Some (commit_frame ch sample_restart)] \<and>
     read_turn (lit ''x'') (rt_store rt) = Inr (Some r) \<and> tr_status r = TCompleted \<and> rt_tasks rt = []"
proof -
  obtain c rt ch where h: "reachable_plane (Some c, rt)" "co_commit c = Some ch" "co_state c = RCommitted"
      "pi_lines (cc_pipe ch) = [Some (commit_frame ch sample_restart)]" "co_pending c = Some sample_restart"
    using sample_handover by blast
  have "coordinator_ok c" by (rule plane_coordinator [OF reachable_ok [OF h(1)]])
  then have "valid_commit (\<lambda>_. []) (pipe_lines (cc_pipe ch)) (cc_boot_id ch) (cc_nonce ch) = Inr True"
    using supervisor_reads [OF _ h(2)] h(3,4) by simp
  from restart_handover [OF h(1,2) this] obtain q r where "wait_committed c = Some (Inr q)"
      "read_turn (rq_turn_id q) (rt_store rt) = Inr (Some r)" "tr_status r = TCompleted" "rt_tasks rt = []" by blast
  moreover from this(1) have "q = sample_restart" using h(5) by (simp add: wait_committed_def split: if_splits)
  ultimately have "read_turn (lit ''x'') (rt_store rt) = Inr (Some r)" by (simp add: sample_restart_def)
  then show ?thesis using h(1,2,4) \<open>tr_status r = TCompleted\<close> \<open>rt_tasks rt = []\<close> by blast
qed

text \<open>A subscription of a readable turn whose events, with the end mark of a finished turn, fit into
  the queue is a stream that holds all of them; one event more and it is refused with \<open>QueueFull\<close>,
  although nothing is wrong with the turn.\<close>

theorem subscribe_replays_or_refuses:
  assumes reach: "reachable_plane (co, rt)" and r: "runtime_read_turn th t rt = Inr r" and h: "rt_history rt t = Some h"
  shows "let n = length h + (if status_terminal (tr_status r) then 1 else 0); w = subscribe th t rt in
    if n \<le> rt_queue_size rt
    then \<exists>a q. fst w = Inr (Some a) \<and> rt_streams rt a = None \<and> rt_streams (snd w) a = Some q \<and>
      sq_items q = map SEvent h @ (if rt_results rt t \<noteq> Some Pending then [SEnd] else []) \<and>
      (a \<in> set (rt_subs (snd w) t) \<longleftrightarrow> rt_results rt t = Some Pending)
    else w = (Inl QueueFull, rt)"
proof -
  let ?vs = "map SEvent h @ (if status_terminal (tr_status r) then [SEnd] else [])"
  have rd: "read_turn t (rt_store rt) = Inr (Some r)"
    using r by (auto simp: runtime_read_turn_def Let_def split: sum.splits option.splits if_splits)
  note fin = readable_pending [OF reachable_turn [OF reach] rd h]
  have wf: "subs_wf rt" using reachable_ok [OF reach] by (simp add: plane_ok_def runtime_ok_def shared_ok_def)
  then have fresh: "rt_streams rt (rt_next_stream rt) = None" by (simp add: subs_wf_def)
  then have notsub: "rt_next_stream rt \<notin> set (rt_subs rt t)" using subs_wfD [OF wf] by fastforce
  have len: "length ?vs = length h + (if status_terminal (tr_status r) then 1 else 0)" by simp
  show ?thesis
  proof (cases "length ?vs \<le> rt_queue_size rt")
    case True
    let ?q = "\<lparr>sq_turn = t, sq_items = ?vs, sq_yielded = [], sq_outcome = None\<rparr>"
    have "subscribe th t rt = (Inr (Some (rt_next_stream rt)),
        rt\<lparr>rt_streams := (rt_streams rt)(rt_next_stream rt \<mapsto> ?q), rt_next_stream := rt_next_stream rt + 1,
          rt_subs := (if status_terminal (tr_status r) then rt_subs rt
            else (rt_subs rt)(t := rt_subs rt t @ [rt_next_stream rt]))\<rparr>)"
      using r h True by (simp add: subscribe_def Let_def)
    then show ?thesis using True len fresh notsub fin unfolding Let_def by (auto simp: len)
  next
    case False
    then show ?thesis using r h len unfolding Let_def by (simp add: subscribe_def Let_def)
  qed
qed

theorem subscribe_replays_or_refuses_witness:
  "subscribe (lit ''t'') (lit ''x'') (sample_started 2) = (Inl QueueFull, sample_started 2)"
proof -
  have r: "runtime_read_turn (lit ''t'') (lit ''x'') (sample_started 2) = Inr sample_record"
    by (simp add: runtime_read_turn_def sample_started_fields sample_read Let_def) (simp add: sample_record_def)
  have h: "rt_history (sample_started 2) (lit ''x'') = Some sample_events" by (simp add: sample_started_fields)
  have "length sample_events = 3" by (simp add: sample_events_def)
  then show ?thesis
    using subscribe_replays_or_refuses [OF sample_reachable(2) r h] by (simp add: Let_def sample_started_fields)
qed



end
