(* ===== verification/ToolHooks.thy ===== *)
theory ToolHooks
  imports PyJson
begin

text \<open>
  The tool executor of \<open>src/agent/tool_hooks/__init__.py\<close>: hooks that rewrite, refuse, replay or
  abort a tool call before it happens and see its result afterwards.  A hook acts on a state \<open>'s\<close>;
  every \<open>await\<close> can also be where the worker goes away (\<open>Gone\<close>: the process dies or the task is
  cancelled, which no handler here catches), after the effects it had so far.
\<close>

record tool_request =
  tk_session_key :: pystr
  tk_channel :: pystr
  tk_chat_id :: pystr
  tk_tool_name :: pystr
  tk_arguments :: pydict
  tk_call_id :: pystr
  tk_request_text :: pystr
  tk_iteration :: int
  tk_call_index :: int

datatype hook_event = PreToolUse | PostToolUse | PostToolError

record hook_context =
  hc_event :: hook_event
  hc_request :: tool_request
  hc_arguments :: pydict
  hc_result :: "pystr option"
  hc_error :: pystr

datatype decision = Allow | Deny | Replay | Abort

datatype replay_status = ReplaySuccess | ReplayError

record hook_outcome =
  ho_decision :: decision
  ho_updated_input :: "pydict option"
  ho_reason :: pystr
  ho_extra_message :: pystr
  ho_replay_status :: replay_status
  ho_replay_output :: pystr
  ho_replay_attention :: "pystr option"

definition plain_outcome :: hook_outcome where
  "plain_outcome = \<lparr>ho_decision = Allow, ho_updated_input = None, ho_reason = [], ho_extra_message = [],
     ho_replay_status = ReplaySuccess, ho_replay_output = [], ho_replay_attention = None\<rparr>"

text \<open>What an \<open>await\<close> comes back with.\<close>

datatype 'a awaited = Returned 'a | Raised pystr | Gone

record 's hook =
  hk_name :: pystr
  hk_event :: hook_event
  hk_matches :: "hook_context \<Rightarrow> pystr + bool"
  hk_run :: "hook_context \<Rightarrow> 's \<Rightarrow> hook_outcome awaited \<times> 's"

datatype tool_status = ToolSuccess | ToolDenied | ToolError

record tool_result =
  tl_status :: tool_status
  tl_output :: pystr
  tl_arguments :: pydict
  tl_extra :: "pystr list"
  tl_attention :: "pystr option"

text \<open>The invocation itself: a text or a tool result (its content, whether it is an error, its
  attention mark), an exception, the timeout, or the end of the worker.\<close>

datatype invoked = IText pystr | IResult pystr bool "pystr option" | IRaised pystr | ITimeout | IGone

datatype executed = Done tool_result | Aborted pystr | Lost

definition add_message :: "pystr \<Rightarrow> pystr list \<Rightarrow> pystr list" where
  "add_message m extra = (if m = [] then extra else extra @ [m])"

section \<open>Before the call\<close>

datatype pre_result = Go pydict "pystr list" | Stop tool_result | PreAbort pystr | PreGone

definition failed_hook :: "pystr \<Rightarrow> pystr \<Rightarrow> pydict \<Rightarrow> pystr list \<Rightarrow> tool_result" where
  "failed_hook name e args extra =
     \<lparr>tl_status = ToolError, tl_output = lit ''Error: Pre-tool hook '' @ [39] @ name @ [39] @ lit '' failed: '' @ e,
      tl_arguments = args, tl_extra = extra, tl_attention = None\<rparr>"

definition replayed :: "replay_status \<Rightarrow> tool_status" where
  "replayed st = (case st of ReplaySuccess \<Rightarrow> ToolSuccess | ReplayError \<Rightarrow> ToolError)"

fun run_pre_hooks :: "'s hook list \<Rightarrow> tool_request \<Rightarrow> pydict \<Rightarrow> pystr list \<Rightarrow> 's \<Rightarrow> pre_result \<times> 's" where
  "run_pre_hooks [] req args extra s = (Go args extra, s)"
| "run_pre_hooks (h # hs) req args extra s =
     (if hk_event h \<noteq> PreToolUse then run_pre_hooks hs req args extra s
      else
        (let ctx = \<lparr>hc_event = PreToolUse, hc_request = req, hc_arguments = args, hc_result = None, hc_error = []\<rparr>
         in case hk_matches h ctx of
              Inl e \<Rightarrow> (Stop (failed_hook (hk_name h) e args extra), s)
            | Inr False \<Rightarrow> run_pre_hooks hs req args extra s
            | Inr True \<Rightarrow>
                (case hk_run h ctx s of
                   (Raised e, s') \<Rightarrow> (Stop (failed_hook (hk_name h) e args extra), s')
                 | (Gone, s') \<Rightarrow> (PreGone, s')
                 | (Returned out, s') \<Rightarrow>
                     (let args' = (case ho_updated_input out of None \<Rightarrow> args | Some a \<Rightarrow> a);
                          extra' = add_message (ho_extra_message out) extra
                      in case ho_decision out of
                           Deny \<Rightarrow>
                             (Stop \<lparr>tl_status = ToolDenied,
                                    tl_output = or_else (ho_reason out) ([24037, 20855, 35843, 29992, 34987, 25318, 25130]),
                                    tl_arguments = args', tl_extra = extra', tl_attention = None\<rparr>, s')
                         | Replay \<Rightarrow>
                             (Stop \<lparr>tl_status = replayed (ho_replay_status out), tl_output = ho_replay_output out,
                                    tl_arguments = args', tl_extra = extra',
                                    tl_attention = ho_replay_attention out\<rparr>, s')
                         | Abort \<Rightarrow>
                             (PreAbort (or_else (ho_reason out) (lit ''tool execution cannot be safely resumed'')), s')
                         | Allow \<Rightarrow> run_pre_hooks hs req args' extra' s'))))"

section \<open>After the call\<close>

text \<open>The hooks of one event see the same context; what they raise is logged and forgotten.\<close>

fun run_after_hooks :: "hook_context \<Rightarrow> 's hook list \<Rightarrow> pystr list \<Rightarrow> 's \<Rightarrow> pystr list option \<times> 's" where
  "run_after_hooks ctx [] extra s = (Some extra, s)"
| "run_after_hooks ctx (h # hs) extra s =
     (if hk_event h \<noteq> hc_event ctx then run_after_hooks ctx hs extra s
      else
        (case hk_matches h ctx of
           Inl e \<Rightarrow> run_after_hooks ctx hs extra s
         | Inr False \<Rightarrow> run_after_hooks ctx hs extra s
         | Inr True \<Rightarrow>
             (case hk_run h ctx s of
                (Returned out, s') \<Rightarrow> run_after_hooks ctx hs (add_message (ho_extra_message out) extra) s'
              | (Raised e, s') \<Rightarrow> run_after_hooks ctx hs extra s'
              | (Gone, s') \<Rightarrow> (None, s'))))"

definition run_error_hooks ::
  "'s hook list \<Rightarrow> tool_request \<Rightarrow> pydict \<Rightarrow> pystr \<Rightarrow> pystr \<Rightarrow> pystr list \<Rightarrow> 's \<Rightarrow> pystr list option \<times> 's" where
  "run_error_hooks hs req args error output =
     run_after_hooks \<lparr>hc_event = PostToolError, hc_request = req, hc_arguments = args, hc_result = Some output,
       hc_error = error\<rparr> hs"

definition run_post_hooks ::
  "'s hook list \<Rightarrow> tool_request \<Rightarrow> pydict \<Rightarrow> pystr \<Rightarrow> pystr list \<Rightarrow> 's \<Rightarrow> pystr list option \<times> 's" where
  "run_post_hooks hs req args output =
     run_after_hooks \<lparr>hc_event = PostToolUse, hc_request = req, hc_arguments = args, hc_result = Some output,
       hc_error = []\<rparr> hs"

definition settled :: "tool_status \<Rightarrow> pystr \<Rightarrow> pydict \<Rightarrow> pystr option \<Rightarrow> pystr list option \<times> 's \<Rightarrow> executed \<times> 's" where
  "settled st output args attention w =
     (case w of
        (None, s) \<Rightarrow> (Lost, s)
      | (Some extra, s) \<Rightarrow>
          (Done \<lparr>tl_status = st, tl_output = output, tl_arguments = args, tl_extra = extra, tl_attention = attention\<rparr>, s))"

text \<open>\<open>secs\<close> is the \<open>%.1f\<close> form of the timeout.\<close>

definition finish_call ::
  "pystr \<Rightarrow> 's hook list \<Rightarrow> tool_request \<Rightarrow> pydict \<Rightarrow> pystr list \<Rightarrow> invoked \<times> 's \<Rightarrow> executed \<times> 's" where
  "finish_call secs hs req args extra w =
     (case w of (r, s) \<Rightarrow>
        (case r of
           IGone \<Rightarrow> (Lost, s)
         | ITimeout \<Rightarrow>
             (let error = lit ''tool timed out after '' @ secs @ lit '' seconds''; output = lit ''Error: '' @ error
              in settled ToolError output args None (run_error_hooks hs req args error output extra s))
         | IRaised e \<Rightarrow>
             (let output = [24037, 20855, 25191, 34892, 20986, 38169] @ lit '': '' @ e
              in settled ToolError output args None (run_error_hooks hs req args e output extra s))
         | IResult content is_error attention \<Rightarrow>
             if is_error
             then settled ToolError content args attention (run_error_hooks hs req args content content extra s)
             else settled ToolSuccess content args attention (run_post_hooks hs req args content extra s)
         | IText t \<Rightarrow> settled ToolSuccess t args None (run_post_hooks hs req args t extra s)))"

definition execute_tool ::
  "pystr \<Rightarrow> 's hook list \<Rightarrow> tool_request \<Rightarrow> (pystr \<Rightarrow> pydict \<Rightarrow> 's \<Rightarrow> invoked \<times> 's) \<Rightarrow> 's \<Rightarrow> executed \<times> 's" where
  "execute_tool secs hs req invoker s =
     (case run_pre_hooks hs req (tk_arguments req) [] s of
        (Stop r, s') \<Rightarrow> (Done r, s')
      | (PreAbort why, s') \<Rightarrow> (Aborted why, s')
      | (PreGone, s') \<Rightarrow> (Lost, s')
      | (Go args extra, s') \<Rightarrow> finish_call secs hs req args extra (invoker (tk_tool_name req) args s'))"

end
