(* ===== verification/ToolCheckpoints.thy ===== *)
theory ToolCheckpoints
  imports ToolHooks CloudDb PyUuid
begin

text \<open>
  The fence around tool calls of a cloud Run: the checkpoint rows of \<open>src/cloud/store.py\<close>, the hooks
  of \<open>src/cloud/tool_checkpoints.py\<close> that the executor runs around every call, and the calls of the
  successive workers of a Run.
\<close>

section \<open>Checkpoint rows\<close>

text \<open>The unique slot of a checkpoint: Run, iteration and call index, the last two at least 0.\<close>

type_synonym tool_slot = "uuid \<times> int \<times> int"

definition slot_of :: "uuid \<Rightarrow> int \<Rightarrow> int \<Rightarrow> tool_slot" where
  "slot_of run_id iteration call_index = (run_id, max 0 iteration, max 0 call_index)"

definition cp_slot :: "checkpoint_row \<Rightarrow> tool_slot" where
  "cp_slot c = (cp_run_id c, cp_iteration c, cp_call_index c)"

datatype begun = BNew | BReplay | BAmbiguous | BDiverged

definition begin_tool_checkpoint ::
  "uuid \<Rightarrow> int \<Rightarrow> int \<Rightarrow> pystr \<Rightarrow> pystr \<Rightarrow> pydict \<Rightarrow> instant \<Rightarrow> cloud_db \<Rightarrow> ((begun \<times> checkpoint_row) \<times> cloud_db) res" where
  "begin_tool_checkpoint run_id iteration call_index signature tool_name arguments now db =
     (if row_by rn_id run_id (runs db) = None then Inl (StoreNotFoundError (lit ''run not found''))
      else
        (case row_by cp_slot (slot_of run_id iteration call_index) (checkpoints db) of
           None \<Rightarrow>
             (let c = \<lparr>cp_run_id = run_id, cp_iteration = max 0 iteration, cp_call_index = max 0 call_index,
                       cp_signature = signature, cp_tool_name = take 200 tool_name, cp_arguments = arguments,
                       cp_status = CpStarted, cp_output = None, cp_mobile_attention = None, cp_started_at = now,
                       cp_completed_at = None\<rparr>
              in Inr ((BNew, c), db\<lparr>checkpoints := checkpoints db @ [c]\<rparr>))
         | Some c \<Rightarrow>
             Inr ((if cp_signature c \<noteq> signature then BDiverged
                   else if cp_status c = CpStarted then BAmbiguous else BReplay, c), db)))"

text \<open>\<open>status\<close> is \<open>None\<close> for a text that is neither \<open>success\<close> nor \<open>error\<close>.\<close>

definition finish_tool_checkpoint ::
  "uuid \<Rightarrow> int \<Rightarrow> int \<Rightarrow> pystr \<Rightarrow> replay_status option \<Rightarrow> pystr \<Rightarrow> pystr option \<Rightarrow> instant \<Rightarrow> cloud_db \<Rightarrow>
   (checkpoint_row \<times> cloud_db) res" where
  "finish_tool_checkpoint run_id iteration call_index signature status output attention now db =
     (case status of
        None \<Rightarrow> Inl (ValueError (lit ''tool checkpoint status must be success or error''))
      | Some st \<Rightarrow>
          (case row_by cp_slot (slot_of run_id iteration call_index) (checkpoints db) of
             None \<Rightarrow> Inl (StoreStateError (lit ''tool checkpoint slot is missing or diverged''))
           | Some c \<Rightarrow>
               if cp_signature c \<noteq> signature
               then Inl (StoreStateError (lit ''tool checkpoint slot is missing or diverged''))
               else
                 (let c' = c\<lparr>cp_status := (case st of ReplaySuccess \<Rightarrow> CpSuccess | ReplayError \<Rightarrow> CpError),
                             cp_output := Some output, cp_mobile_attention := attention, cp_completed_at := Some now\<rparr>
                  in Inr (c', db\<lparr>checkpoints := put_row cp_slot c' (checkpoints db)\<rparr>))))"

section \<open>The hooks\<close>

text \<open>The signature: \<open>digest\<close> is \<open>hashlib.sha256 (raw.encode ()).hexdigest ()\<close>, and \<open>None\<close> where the
  encoding raises; \<open>PySha256\<close> computes it.\<close>

definition tool_signature :: "(pystr \<Rightarrow> pystr option) \<Rightarrow> pystr \<Rightarrow> pydict \<Rightarrow> pystr option" where
  "tool_signature digest tool_name arguments =
     digest (json_text (sort_keys (JObj [(lit ''tool'', JStr tool_name), (lit ''arguments'', JObj arguments)])))"

text \<open>The state a call works on: the database, the tool calls that were really made, and the rest of
  the world.\<close>

record 'w tool_world =
  tw_db :: cloud_db
  tw_log :: "tool_slot list"
  tw_rest :: 'w

text \<open>What happens to a transaction: it commits, it fails with an error of the connection, or the
  worker goes away before or after the commit.\<close>

datatype fault = Fine | Fails pystr | DiesBefore | DiesAfter

definition error_message :: "py_error \<Rightarrow> pystr" where
  "error_message e = (case e of StoreNotFoundError m \<Rightarrow> m | StoreStateError m \<Rightarrow> m | ValueError m \<Rightarrow> m | _ \<Rightarrow> [])"

definition transaction ::
  "fault \<Rightarrow> (cloud_db \<Rightarrow> ('a \<times> cloud_db) res) \<Rightarrow> 'w tool_world \<Rightarrow> 'a awaited \<times> 'w tool_world" where
  "transaction f t w =
     (case f of
        DiesBefore \<Rightarrow> (Gone, w)
      | Fails e \<Rightarrow> (Raised e, w)
      | _ \<Rightarrow>
          (case t (tw_db w) of
             Inl e \<Rightarrow> (Raised (error_message e), w)
           | Inr (a, db) \<Rightarrow> (if f = DiesAfter then Gone else Returned a, w\<lparr>tw_db := db\<rparr>)))"

definition begun_outcome :: "begun \<times> checkpoint_row \<Rightarrow> hook_outcome" where
  "begun_outcome b =
     (case b of
        (BNew, c) \<Rightarrow> plain_outcome
      | (BReplay, c) \<Rightarrow>
          plain_outcome\<lparr>ho_decision := Replay,
            ho_replay_status := (if cp_status c = CpSuccess then ReplaySuccess else ReplayError),
            ho_replay_output := (case cp_output c of None \<Rightarrow> [] | Some t \<Rightarrow> t),
            ho_replay_attention := cp_mobile_attention c\<rparr>
      | (BDiverged, c) \<Rightarrow>
          plain_outcome\<lparr>ho_decision := Abort, ho_reason := lit ''tool checkpoint diverged during retry''\<rparr>
      | (BAmbiguous, c) \<Rightarrow>
          plain_outcome\<lparr>ho_decision := Abort, ho_reason :=
            lit ''tool outcome is ambiguous after worker interruption; refusing duplicate execution''\<rparr>)"

definition map_awaited :: "('a \<Rightarrow> 'b) \<Rightarrow> 'a awaited \<times> 's \<Rightarrow> 'b awaited \<times> 's" where
  "map_awaited f w = (case w of (Returned a, s) \<Rightarrow> (Returned (f a), s) | (Raised e, s) \<Rightarrow> (Raised e, s) | (Gone, s) \<Rightarrow> (Gone, s))"

definition checkpoint_run ::
  "(pystr \<Rightarrow> pystr option) \<Rightarrow> hook_event \<Rightarrow> fault \<Rightarrow> instant \<Rightarrow> hook_context \<Rightarrow> 'w tool_world \<Rightarrow>
   hook_outcome awaited \<times> 'w tool_world" where
  "checkpoint_run digest event f now ctx w =
     (let req = hc_request ctx
      in case parse_uuid (tk_chat_id req) of
           None \<Rightarrow> (Raised (lit ''badly formed hexadecimal UUID string''), w)
         | Some run_id \<Rightarrow>
             (case tool_signature digest (tk_tool_name req) (hc_arguments ctx) of
                None \<Rightarrow> (Raised (lit ''surrogates not allowed''), w)
              | Some signature \<Rightarrow>
                  if event = PreToolUse
                  then map_awaited begun_outcome
                         (transaction f (begin_tool_checkpoint run_id (tk_iteration req) (tk_call_index req) signature
                            (tk_tool_name req) (hc_arguments ctx) now) w)
                  else map_awaited (\<lambda>_. plain_outcome)
                         (transaction f (finish_tool_checkpoint run_id (tk_iteration req) (tk_call_index req) signature
                            (Some (if event = PostToolUse then ReplaySuccess else ReplayError))
                            (case hc_result ctx of None \<Rightarrow> [] | Some t \<Rightarrow> t) None now) w)))"

definition event_name :: "hook_event \<Rightarrow> pystr" where
  "event_name ev = (case ev of PreToolUse \<Rightarrow> lit ''pre_tool_use'' | PostToolUse \<Rightarrow> lit ''post_tool_use''
     | PostToolError \<Rightarrow> lit ''post_tool_error'')"

definition checkpoint_hook ::
  "(pystr \<Rightarrow> pystr option) \<Rightarrow> hook_event \<Rightarrow> fault \<Rightarrow> instant \<Rightarrow> 'w tool_world hook" where
  "checkpoint_hook digest event f now =
     \<lparr>hk_name = lit ''cloud-tool-checkpoint-'' @ event_name event, hk_event = event,
      hk_matches = (\<lambda>ctx. Inr (tk_chat_id (hc_request ctx) \<noteq> [])), hk_run = checkpoint_run digest event f now\<rparr>"

definition checkpoint_hooks ::
  "(pystr \<Rightarrow> pystr option) \<Rightarrow> fault \<Rightarrow> fault \<Rightarrow> instant \<Rightarrow> 'w tool_world hook list" where
  "checkpoint_hooks digest before after now =
     [checkpoint_hook digest PreToolUse before now, checkpoint_hook digest PostToolUse after now,
      checkpoint_hook digest PostToolError after now]"

section \<open>The calls of a Run\<close>

text \<open>One call as a worker makes it: the request, what the tool did, the faults of the transactions
  before and after it, and the hooks of plugins, which come after the hooks of the runtime.\<close>

record 'w tool_call =
  tc_request :: tool_request
  tc_invoked :: "invoked \<times> 'w"
  tc_before :: fault
  tc_after :: fault
  tc_plugins :: "'w tool_world hook list"
  tc_now :: instant

definition invoke_tool :: "invoked \<times> 'w \<Rightarrow> tool_slot \<Rightarrow> 'w tool_world \<Rightarrow> invoked \<times> 'w tool_world" where
  "invoke_tool r slot w = (fst r, w\<lparr>tw_log := tw_log w @ [slot], tw_rest := snd r\<rparr>)"

definition request_slot :: "tool_request \<Rightarrow> tool_slot" where
  "request_slot req =
     (case parse_uuid (tk_chat_id req) of
        None \<Rightarrow> slot_of [] (tk_iteration req) (tk_call_index req)
      | Some i \<Rightarrow> slot_of i (tk_iteration req) (tk_call_index req))"

definition call_tool ::
  "(pystr \<Rightarrow> pystr option) \<Rightarrow> pystr \<Rightarrow> 'w tool_call \<Rightarrow> 'w tool_world \<Rightarrow> executed \<times> 'w tool_world" where
  "call_tool digest secs c =
     execute_tool secs (checkpoint_hooks digest (tc_before c) (tc_after c) (tc_now c) @ tc_plugins c) (tc_request c)
       (\<lambda>name args. invoke_tool (tc_invoked c) (request_slot (tc_request c)))"

fun call_tools ::
  "(pystr \<Rightarrow> pystr option) \<Rightarrow> pystr \<Rightarrow> 'w tool_call list \<Rightarrow> 'w tool_world \<Rightarrow> 'w tool_world" where
  "call_tools digest secs [] w = w"
| "call_tools digest secs (c # cs) w = call_tools digest secs cs (snd (call_tool digest secs c w))"

text \<open>Plugin hooks act on the rest of the world only.\<close>

definition plugin_hook :: "'w tool_world hook \<Rightarrow> bool" where
  "plugin_hook h \<longleftrightarrow> (\<forall>ctx w. tw_db (snd (hk_run h ctx w)) = tw_db w \<and> tw_log (snd (hk_run h ctx w)) = tw_log w)"

end
