(* ===== verification/ToolTheorems.thy ===== *)
theory ToolTheorems
  imports ToolCheckpoints CloudSample
begin

text \<open>
  What the checkpoints give: a tool call of a Run happens at most once however often the Run is
  taken over, a call whose result was recorded is replayed, and a call whose arguments a plugin
  rewrote can never be replayed.
\<close>

section \<open>Frames\<close>

abbreviation cp_at :: "tool_slot \<Rightarrow> 'w tool_world \<Rightarrow> checkpoint_row option" where
  "cp_at s w \<equiv> row_by cp_slot s (checkpoints (tw_db w))"

lemma parsed_slot: "parse_uuid (tk_chat_id req) = Some i \<Longrightarrow>
    slot_of i (tk_iteration req) (tk_call_index req) = request_slot req"
  by (simp add: request_slot_def)

text \<open>The checkpoint hook before the call: what it can come back with and leave behind.\<close>

lemma begin_cases:
  assumes "checkpoint_run digest PreToolUse f now ctx w = (r, w')" and req: "hc_request ctx = req"
  obtains (quiet) "w' = w" "r = Gone \<or> (\<exists>e. r = Raised e) \<or> (\<exists>out. r = Returned out \<and> ho_decision out \<in> {Replay, Abort})"
  | (fresh) c where "cp_at (request_slot req) w = None" "w' = w\<lparr>tw_db := (tw_db w)\<lparr>checkpoints := checkpoints (tw_db w) @ [c]\<rparr>\<rparr>"
      "cp_slot c = request_slot req" "cp_status c = CpStarted"
      "tool_signature digest (tk_tool_name req) (hc_arguments ctx) = Some (cp_signature c)"
      "r = Returned plain_outcome \<or> r = Gone" "\<exists>i. parse_uuid (tk_chat_id req) = Some i \<and> row_by rn_id i (runs (tw_db w)) \<noteq> None"
proof (cases "parse_uuid (tk_chat_id req)")
  case None
  then show ?thesis using assms by (intro quiet) (auto simp: checkpoint_run_def)
next
  case (Some i)
  note i = Some
  show ?thesis
  proof (cases "tool_signature digest (tk_tool_name req) (hc_arguments ctx)")
    case None
    then show ?thesis using assms i by (intro quiet) (auto simp: checkpoint_run_def)
  next
    case (Some sg)
    let ?t = "begin_tool_checkpoint i (tk_iteration req) (tk_call_index req) sg (tk_tool_name req) (hc_arguments ctx) now"
    have run: "(r, w') = map_awaited begun_outcome (transaction f ?t w)"
      using assms i Some by (simp add: checkpoint_run_def)
    show ?thesis
    proof (cases "f = DiesBefore \<or> (\<exists>e. f = Fails e)")
      case True
      then show ?thesis using run quiet by (auto simp: transaction_def map_awaited_def)
    next
      case False
      then have f: "f = Fine \<or> f = DiesAfter" by (cases f) auto
      show ?thesis
      proof (cases "?t (tw_db w)")
        case (Inl e)
        then show ?thesis using run f quiet by (auto simp: transaction_def map_awaited_def)
      next
        case (Inr p)
        obtain b c db where p: "p = ((b, c), db)" by (metis prod.exhaust)
        have out: "w' = w\<lparr>tw_db := db\<rparr>" "r = (if f = DiesAfter then Gone else Returned (begun_outcome (b, c)))"
          using run f Inr p by (auto simp: transaction_def map_awaited_def)
        show ?thesis
        proof (cases "cp_at (request_slot req) w")
          case None
          have new: "b = BNew" "db = (tw_db w)\<lparr>checkpoints := checkpoints (tw_db w) @ [c]\<rparr>"
              "cp_slot c = request_slot req" "cp_status c = CpStarted" "cp_signature c = sg" "row_by rn_id i (runs (tw_db w)) \<noteq> None"
            using Inr p None by (auto simp: begin_tool_checkpoint_def parsed_slot [OF i] Let_def cp_slot_def
                parsed_slot [OF i, symmetric] slot_of_def split: if_splits)
          show ?thesis by (rule fresh [OF None]) (use new out f Some i in \<open>auto simp: begun_outcome_def\<close>)
        next
          case (Some c0)
          have "db = tw_db w" "b \<noteq> BNew"
            using Inr p Some by (auto simp: begin_tool_checkpoint_def parsed_slot [OF i] split: if_splits)
          then show ?thesis using out f quiet
            by (cases b) (auto simp: begun_outcome_def plain_outcome_def)
        qed
      qed
    qed
  qed
qed

text \<open>The checkpoint hooks after the call touch the row of their own slot only.\<close>

lemma finish_cases:
  assumes "checkpoint_run digest ev f now ctx w = (r, w')" and req: "hc_request ctx = req" and ev: "ev \<noteq> PreToolUse"
  obtains (quiet) "w' = w"
  | (closed) c where "cp_at (request_slot req) w = Some c" "tool_signature digest (tk_tool_name req) (hc_arguments ctx) = Some (cp_signature c)"
      "w' = w\<lparr>tw_db := (tw_db w)\<lparr>checkpoints := put_row cp_slot (c\<lparr>cp_status := (if ev = PostToolUse then CpSuccess else CpError),
          cp_output := Some (case hc_result ctx of None \<Rightarrow> [] | Some t \<Rightarrow> t), cp_mobile_attention := None,
          cp_completed_at := Some now\<rparr>) (checkpoints (tw_db w))\<rparr>\<rparr>"
proof (cases "parse_uuid (tk_chat_id req)")
  case None
  then show ?thesis using assms quiet by (simp add: checkpoint_run_def)
next
  case (Some i)
  note i = Some
  show ?thesis
  proof (cases "tool_signature digest (tk_tool_name req) (hc_arguments ctx)")
    case None
    then show ?thesis using assms i quiet by (simp add: checkpoint_run_def)
  next
    case (Some sg)
    let ?t = "finish_tool_checkpoint i (tk_iteration req) (tk_call_index req) sg
      (Some (if ev = PostToolUse then ReplaySuccess else ReplayError)) (case hc_result ctx of None \<Rightarrow> [] | Some t \<Rightarrow> t) None now"
    have run: "(r, w') = map_awaited (\<lambda>_. plain_outcome) (transaction f ?t w)"
      using assms i Some by (simp add: checkpoint_run_def)
    show ?thesis
    proof (cases "?t (tw_db w)")
      case (Inl e)
      then show ?thesis using run quiet by (cases f) (auto simp: transaction_def map_awaited_def)
    next
      case (Inr p)
      obtain c' db where p: "p = (c', db)" by (metis prod.exhaust)
      obtain c where c: "cp_at (request_slot req) w = Some c" "cp_signature c = sg"
          "db = (tw_db w)\<lparr>checkpoints := put_row cp_slot (c\<lparr>cp_status := (if ev = PostToolUse then CpSuccess else CpError),
            cp_output := Some (case hc_result ctx of None \<Rightarrow> [] | Some t \<Rightarrow> t), cp_mobile_attention := None,
            cp_completed_at := Some now\<rparr>) (checkpoints (tw_db w))\<rparr>"
        using Inr p by (auto simp: finish_tool_checkpoint_def parsed_slot [OF i] Let_def split: option.splits if_splits)
      have "w' = w \<or> w' = w\<lparr>tw_db := db\<rparr>"
        using run Inr p by (cases f) (auto simp: transaction_def map_awaited_def)
      then show ?thesis
      proof
        assume "w' = w\<lparr>tw_db := db\<rparr>"
        then show ?thesis using closed [OF c(1)] c(2,3) Some by simp
      qed (rule quiet)
    qed
  qed
qed

text \<open>Every hook of a call leaves the log alone, keeps the rows there are, and changes none but that
  of the call's slot.\<close>

definition fence_hook :: "tool_slot \<Rightarrow> 'w tool_world hook \<Rightarrow> bool" where
  "fence_hook s h \<longleftrightarrow> (\<forall>ctx w. request_slot (hc_request ctx) = s \<longrightarrow>
     tw_log (snd (hk_run h ctx w)) = tw_log w \<and> runs (tw_db (snd (hk_run h ctx w))) = runs (tw_db w) \<and> (\<forall>u. u \<noteq> s \<longrightarrow> cp_at u (snd (hk_run h ctx w)) = cp_at u w) \<and>
     (cp_at s w \<noteq> None \<longrightarrow> cp_at s (snd (hk_run h ctx w)) \<noteq> None))"

lemma fence_plugin: "plugin_hook h \<Longrightarrow> fence_hook s h"
  by (simp add: plugin_hook_def fence_hook_def)

lemma fence_checkpoint: "fence_hook s (checkpoint_hook digest ev f now)"
proof -
  have "tw_log w' = tw_log w \<and> runs (tw_db w') = runs (tw_db w) \<and> (\<forall>u. u \<noteq> s \<longrightarrow> cp_at u w' = cp_at u w) \<and> (cp_at s w \<noteq> None \<longrightarrow> cp_at s w' \<noteq> None)"
    if run: "checkpoint_run digest ev f now ctx w = (r, w')" and slot: "request_slot (hc_request ctx) = s" for ctx w r w'
  proof (cases "ev = PreToolUse")
    case True
    from run [unfolded True] refl show ?thesis
    proof (cases rule: begin_cases)
      case (fresh c)
      then show ?thesis using slot by (auto simp: row_by_append split: option.splits)
    qed simp
  next
    case False
    from run refl False show ?thesis
    proof (cases rule: finish_cases)
      case (closed c)
      have "cp_slot c = s" using row_by_SomeD [OF closed(1)] slot by simp
      then show ?thesis using closed slot by (auto simp: row_by_put_row cp_slot_def)
    qed simp
  qed
  then show ?thesis unfolding fence_hook_def checkpoint_hook_def by (metis hook.select_convs(4) prod.collapse)
qed

definition fence_moves :: "tool_slot \<Rightarrow> 'w tool_world \<Rightarrow> 'w tool_world \<Rightarrow> bool" where
  "fence_moves s w w' \<longleftrightarrow> tw_log w' = tw_log w \<and> runs (tw_db w') = runs (tw_db w) \<and> (\<forall>u. u \<noteq> s \<longrightarrow> cp_at u w' = cp_at u w) \<and>
     (cp_at s w \<noteq> None \<longrightarrow> cp_at s w' \<noteq> None)"

lemma fence_moves_refl [simp]: "fence_moves s w w"
  by (simp add: fence_moves_def)

lemma fence_moves_trans: "fence_moves s w w' \<Longrightarrow> fence_moves s w' w'' \<Longrightarrow> fence_moves s w w''"
  by (simp add: fence_moves_def)

lemma after_moves:
  "\<forall>h \<in> set hs. fence_hook (request_slot (hc_request ctx)) h \<Longrightarrow>
   fence_moves (request_slot (hc_request ctx)) w (snd (run_after_hooks ctx hs extra w))"
proof (induction ctx hs extra w rule: run_after_hooks.induct)
  case (2 ctx h hs extra w)
  have step: "fence_moves (request_slot (hc_request ctx)) w (snd (hk_run h ctx w))"
    using 2(6) by (simp add: fence_hook_def fence_moves_def)
  show ?case
    using 2(1-5) 2(6) step
    by (auto split: sum.splits bool.splits awaited.splits prod.splits intro: fence_moves_trans)
qed simp

text \<open>Plugin hooks leave the database and the log alone.\<close>

lemma plugin_pre:
  "\<forall>h \<in> set hs. plugin_hook h \<Longrightarrow>
   tw_db (snd (run_pre_hooks hs req args extra w)) = tw_db w \<and> tw_log (snd (run_pre_hooks hs req args extra w)) = tw_log w"
proof (induction hs req args extra w rule: run_pre_hooks.induct)
  case (2 h hs req args extra w)
  let ?ctx = "\<lparr>hc_event = PreToolUse, hc_request = req, hc_arguments = args, hc_result = None, hc_error = []\<rparr>"
  have step: "tw_db (snd (hk_run h ?ctx w)) = tw_db w \<and> tw_log (snd (hk_run h ?ctx w)) = tw_log w"
    using 2(4) by (simp add: plugin_hook_def)
  show ?case
    using 2(1-3) 2(4) step
    by (auto simp: Let_def split: sum.splits bool.splits awaited.splits prod.splits decision.splits)
qed simp

lemma plugin_after:
  "\<forall>h \<in> set hs. plugin_hook h \<Longrightarrow>
   tw_db (snd (run_after_hooks ctx hs extra w)) = tw_db w \<and> tw_log (snd (run_after_hooks ctx hs extra w)) = tw_log w"
proof (induction ctx hs extra w rule: run_after_hooks.induct)
  case (2 ctx h hs extra w)
  have step: "tw_db (snd (hk_run h ctx w)) = tw_db w \<and> tw_log (snd (hk_run h ctx w)) = tw_log w"
    using 2(6) by (simp add: plugin_hook_def)
  show ?case
    using 2(1-5) 2(6) step
    by (auto split: sum.splits bool.splits awaited.splits prod.splits)
qed simp

section \<open>One call\<close>

definition fenced_call :: "'w tool_call \<Rightarrow> bool" where
  "fenced_call c \<longleftrightarrow> tk_chat_id (tc_request c) \<noteq> [] \<and> (\<forall>h \<in> set (tc_plugins c). plugin_hook h)"

abbreviation call_hooks :: "(pystr \<Rightarrow> pystr option) \<Rightarrow> 'w tool_call \<Rightarrow> 'w tool_world hook list" where
  "call_hooks digest c \<equiv> checkpoint_hooks digest (tc_before c) (tc_after c) (tc_now c) @ tc_plugins c"

lemma call_fence_hooks: "fenced_call c \<Longrightarrow> \<forall>h \<in> set (call_hooks digest c). fence_hook s h"
  by (auto simp: checkpoint_hooks_def fence_checkpoint fenced_call_def fence_plugin)

lemma pre_checkpoint:
  assumes "tk_chat_id req \<noteq> []"
  shows "run_pre_hooks (checkpoint_hooks digest b a now @ ps) req args [] w =
    (case checkpoint_run digest PreToolUse b now \<lparr>hc_event = PreToolUse, hc_request = req, hc_arguments = args, hc_result = None, hc_error = []\<rparr> w of
       (Raised e, s') \<Rightarrow> (Stop (failed_hook (lit ''cloud-tool-checkpoint-'' @ event_name PreToolUse) e args []), s')
     | (Gone, s') \<Rightarrow> (PreGone, s')
     | (Returned out, s') \<Rightarrow>
         (let args' = (case ho_updated_input out of None \<Rightarrow> args | Some a \<Rightarrow> a);
              extra' = add_message (ho_extra_message out) []
          in case ho_decision out of
               Deny \<Rightarrow>
                 (Stop \<lparr>tl_status = ToolDenied, tl_output = or_else (ho_reason out) ([24037, 20855, 35843, 29992, 34987, 25318, 25130]),
                        tl_arguments = args', tl_extra = extra', tl_attention = None\<rparr>, s')
             | Replay \<Rightarrow>
                 (Stop \<lparr>tl_status = replayed (ho_replay_status out), tl_output = ho_replay_output out,
                        tl_arguments = args', tl_extra = extra', tl_attention = ho_replay_attention out\<rparr>, s')
             | Abort \<Rightarrow> (PreAbort (or_else (ho_reason out) (lit ''tool execution cannot be safely resumed'')), s')
             | Allow \<Rightarrow> run_pre_hooks ps req args' extra' s'))"
  using assms by (simp add: checkpoint_hooks_def checkpoint_hook_def Let_def split: awaited.split prod.split decision.split)

lemma call_tool_cases:
  assumes c: "fenced_call c" and call: "call_tool digest secs c w = (e, w')"
  obtains (blocked) "tw_log w' = tw_log w" "fence_moves (request_slot (tc_request c)) w w'"
      "cp_at (request_slot (tc_request c)) w \<noteq> None \<longrightarrow> w' = w"
  | (invoked) r args extra w1 where "cp_at (request_slot (tc_request c)) w = None"
      "\<exists>i. parse_uuid (tk_chat_id (tc_request c)) = Some i \<and> row_by rn_id i (runs (tw_db w)) \<noteq> None"
      "cp_at (request_slot (tc_request c)) w1 = Some r" "cp_status r = CpStarted"
      "tool_signature digest (tk_tool_name (tc_request c)) (tk_arguments (tc_request c)) = Some (cp_signature r)"
      "fence_moves (request_slot (tc_request c)) w w1"
      "(e, w') = finish_call secs (call_hooks digest c) (tc_request c) args extra
         (invoke_tool (tc_invoked c) (request_slot (tc_request c)) w1)"
proof -
  let ?req = "tc_request c" and ?slot = "request_slot (tc_request c)"
  let ?ctx = "\<lparr>hc_event = PreToolUse, hc_request = ?req, hc_arguments = tk_arguments ?req, hc_result = None, hc_error = []\<rparr>"
  obtain r wx where run: "checkpoint_run digest PreToolUse (tc_before c) (tc_now c) ?ctx w = (r, wx)" by (metis prod.exhaust)
  have chat: "tk_chat_id ?req \<noteq> []" using c by (simp add: fenced_call_def)
  note pre = pre_checkpoint [OF chat, of digest "tc_before c" "tc_after c" "tc_now c" "tc_plugins c" "tk_arguments ?req" w,
      unfolded run prod.case]
  have req: "hc_request ?ctx = ?req" by simp
  from run req show ?thesis
  proof (cases rule: begin_cases)
    case quiet
    have "w' = w" using quiet call pre unfolding call_tool_def execute_tool_def
      by (elim disjE exE conjE) (auto simp: Let_def plain_outcome_def)
    then show ?thesis using blocked by simp
  next
    case (fresh k)
    have mv: "fence_moves ?slot w wx" using fresh(2,3) by (auto simp: fence_moves_def row_by_append split: option.splits)
    have row: "cp_at ?slot wx = Some k" using fresh(1,2,3) by (simp add: row_by_append)
    from fresh(6) show ?thesis
    proof
      assume "r = Gone"
      then have "w' = wx" using call pre unfolding call_tool_def execute_tool_def by simp
      then show ?thesis using blocked mv fresh(1) by (simp add: fence_moves_def)
    next
      assume r: "r = Returned plain_outcome"
      obtain q wp where q: "run_pre_hooks (tc_plugins c) ?req (tk_arguments ?req) [] wx = (q, wp)" by (metis prod.exhaust)
      have go: "run_pre_hooks (call_hooks digest c) ?req (tk_arguments ?req) [] w = (q, wp)"
        using pre r q by (simp add: plain_outcome_def add_message_def)
      have same: "tw_db wp = tw_db wx" "tw_log wp = tw_log wx"
        using plugin_pre [of "tc_plugins c" ?req "tk_arguments ?req" "[]" wx] c q by (simp_all add: fenced_call_def)
      have mvp: "fence_moves ?slot w wp" using mv same by (simp add: fence_moves_def)
      show ?thesis
      proof (cases q)
        case (Go args extra)
        then have fin: "(e, w') = finish_call secs (call_hooks digest c) ?req args extra (invoke_tool (tc_invoked c) ?slot wp)"
          using call go unfolding call_tool_def execute_tool_def by simp
        have "tool_signature digest (tk_tool_name ?req) (tk_arguments ?req) = Some (cp_signature k)" using fresh(5) by simp
        then show ?thesis using fresh(1,4,7) row same(1) mvp fin by (intro invoked [of wp k args extra]) simp_all
      next
        case (Stop x)
        then have "w' = wp" using call go unfolding call_tool_def execute_tool_def by simp
        then show ?thesis using blocked mvp fresh(1) by (simp add: fence_moves_def)
      next
        case (PreAbort x)
        then have "w' = wp" using call go unfolding call_tool_def execute_tool_def by simp
        then show ?thesis using blocked mvp fresh(1) by (simp add: fence_moves_def)
      next
        case PreGone
        then have "w' = wp" using call go unfolding call_tool_def execute_tool_def by simp
        then show ?thesis using blocked mvp fresh(1) by (simp add: fence_moves_def)
      qed
    qed
  qed
qed

text \<open>What a finished invocation leaves behind, whatever the tool did.\<close>

lemma settled_snd [simp]: "snd (settled st out args att w) = snd w"
  by (simp add: settled_def split: prod.split option.split)

lemma finish_snd:
  "snd (finish_call secs hs req args extra (r, w)) = w \<or>
   (\<exists>ev out err. snd (finish_call secs hs req args extra (r, w)) = snd (run_after_hooks
      \<lparr>hc_event = ev, hc_request = req, hc_arguments = args, hc_result = Some out, hc_error = err\<rparr> hs extra w))"
  by (cases r) (auto simp: finish_call_def run_error_hooks_def run_post_hooks_def Let_def)

lemma finish_moves:
  assumes "\<forall>h \<in> set hs. fence_hook (request_slot req) h" and "finish_call secs hs req args extra (r, w) = (e, w')"
  shows "fence_moves (request_slot req) w w'"
proof -
  have "fence_moves (request_slot req) w (snd (run_after_hooks
      \<lparr>hc_event = ev, hc_request = req, hc_arguments = args, hc_result = Some out, hc_error = err\<rparr> hs extra w))" for ev out err
    using after_moves [of hs "\<lparr>hc_event = ev, hc_request = req, hc_arguments = args, hc_result = Some out, hc_error = err\<rparr>" w extra]
      assms(1) by simp
  then show ?thesis using finish_snd [of secs hs req args extra r w] assms(2) by auto
qed

lemma fence_moves_other: "fence_moves s w w' \<Longrightarrow> u \<noteq> s \<Longrightarrow> cp_at u w' = cp_at u w"
  unfolding fence_moves_def by blast

text \<open>The row after a call that came back is what the checkpoint hook made of it.\<close>

lemma after_row:
  assumes "tk_chat_id (hc_request ctx) \<noteq> []" and "\<forall>h \<in> set ps. plugin_hook h" and "hc_event ctx \<in> {PostToolUse, PostToolError}"
  shows "cp_at s (snd (run_after_hooks ctx (checkpoint_hooks digest b a now @ ps) extra w)) =
    cp_at s (snd (checkpoint_run digest (hc_event ctx) a now ctx w))"
proof -
  have p: "cp_at s (snd (run_after_hooks ctx ps x v)) = cp_at s v" for x v
    using plugin_after [OF assms(2), of ctx x v] by simp
  show ?thesis
    using assms(1,3) p
    by (auto simp: checkpoint_hooks_def checkpoint_hook_def split: awaited.split prod.split)
qed

lemma finish_done:
  assumes c: "tk_chat_id req \<noteq> []" "\<forall>h \<in> set ps. plugin_hook h"
    and f: "finish_call secs (checkpoint_hooks digest b a now @ ps) req args extra (r, w) = (Done t, w')"
  shows "\<exists>ev err. ev \<noteq> PreToolUse \<and> tl_arguments t = args \<and> tl_status t = (if ev = PostToolUse then ToolSuccess else ToolError) \<and>
    cp_at s w' = cp_at s (snd (checkpoint_run digest ev a now
      \<lparr>hc_event = ev, hc_request = req, hc_arguments = args, hc_result = Some (tl_output t), hc_error = err\<rparr> w))"
proof -
  let ?hs = "checkpoint_hooks digest b a now @ ps"
  define Q where "Q \<longleftrightarrow> (\<exists>ev err. ev \<noteq> PreToolUse \<and> tl_arguments t = args \<and>
      tl_status t = (if ev = PostToolUse then ToolSuccess else ToolError) \<and>
      cp_at s w' = cp_at s (snd (checkpoint_run digest ev a now
        \<lparr>hc_event = ev, hc_request = req, hc_arguments = args, hc_result = Some (tl_output t), hc_error = err\<rparr> w)))"
  have post: Q
    if st: "settled st out args att (run_after_hooks \<lparr>hc_event = ev, hc_request = req, hc_arguments = args, hc_result = Some out, hc_error = err\<rparr> ?hs extra w) = (Done t, w')"
      and ev: "(ev = PostToolUse \<and> st = ToolSuccess) \<or> (ev = PostToolError \<and> st = ToolError)" for st out att ev err
  proof -
    let ?ctx = "\<lparr>hc_event = ev, hc_request = req, hc_arguments = args, hc_result = Some out, hc_error = err\<rparr>"
    have t: "tl_status t = st" "tl_output t = out" "tl_arguments t = args" "w' = snd (run_after_hooks ?ctx ?hs extra w)"
      using st by (auto simp: settled_def split: prod.splits option.splits)
    have "cp_at s w' = cp_at s (snd (checkpoint_run digest ev a now ?ctx w))"
      using after_row [of ?ctx ps s digest b a now extra w] c ev unfolding t(4) by auto
    then show ?thesis unfolding Q_def using t ev by (intro exI [of _ ev] exI [of _ err]) auto
  qed
  have Q
    using f post [of ToolError _ _ PostToolError] post [of ToolSuccess _ _ PostToolUse]
    by (cases r) (auto simp: finish_call_def run_error_hooks_def run_post_hooks_def Let_def split: if_splits)
  then show ?thesis unfolding Q_def .
qed

section \<open>Invariants\<close>

definition fenced :: "'w tool_world \<Rightarrow> bool" where
  "fenced w \<longleftrightarrow> distinct (tw_log w) \<and> (\<forall>s \<in> set (tw_log w). cp_at s w \<noteq> None)"

lemma fence_moves_present: "fence_moves s w w' \<Longrightarrow> cp_at u w \<noteq> None \<Longrightarrow> cp_at u w' \<noteq> None"
  unfolding fence_moves_def by metis

lemma call_tool_fenced:
  assumes w: "fenced w" and c: "fenced_call c"
  shows "fenced (snd (call_tool digest secs c w))"
proof -
  let ?slot = "request_slot (tc_request c)"
  obtain e w' where call: "call_tool digest secs c w = (e, w')" by (metis prod.exhaust)
  from c call show ?thesis
  proof (cases rule: call_tool_cases)
    case blocked
    then show ?thesis using w fence_moves_present [OF blocked(2)] unfolding call snd_conv fenced_def by metis
  next
    case (invoked r args extra w1)
    let ?w2 = "w1\<lparr>tw_log := tw_log w1 @ [?slot], tw_rest := snd (tc_invoked c)\<rparr>"
    have fc: "finish_call secs (call_hooks digest c) (tc_request c) args extra (fst (tc_invoked c), ?w2) = (e, w')"
      using invoked(7) by (simp add: invoke_tool_def)
    note mv = finish_moves [OF call_fence_hooks [OF c] fc]
    have log: "tw_log w' = tw_log w @ [?slot]" using mv invoked(6) by (simp add: fence_moves_def)
    have "?slot \<notin> set (tw_log w)" using w invoked(1) by (auto simp: fenced_def)
    moreover have "cp_at u w' \<noteq> None" if "u \<in> set (tw_log w) \<or> u = ?slot" for u
    proof -
      have "cp_at u w1 \<noteq> None"
        using that w invoked(3) fence_moves_present [OF invoked(6), of u] by (auto simp: fenced_def)
      then have "cp_at u ?w2 \<noteq> None" by simp
      then show ?thesis by (rule fence_moves_present [OF mv])
    qed
    ultimately show ?thesis using w log by (auto simp: call fenced_def)
  qed
qed

text \<open>A call changes no row but one it makes itself.\<close>

lemma call_tool_keeps:
  assumes c: "fenced_call c" and row: "cp_at s w = Some r"
  shows "cp_at s (snd (call_tool digest secs c w)) = Some r"
proof -
  let ?slot = "request_slot (tc_request c)"
  obtain e w' where call: "call_tool digest secs c w = (e, w')" by (metis prod.exhaust)
  from c call have "cp_at s w' = Some r"
  proof (cases rule: call_tool_cases)
    case blocked
    then show ?thesis using row unfolding fence_moves_def by (metis option.discI)
  next
    case (invoked k args extra w1)
    let ?w2 = "w1\<lparr>tw_log := tw_log w1 @ [?slot], tw_rest := snd (tc_invoked c)\<rparr>"
    have fc: "finish_call secs (call_hooks digest c) (tc_request c) args extra (fst (tc_invoked c), ?w2) = (e, w')"
      using invoked(7) by (simp add: invoke_tool_def)
    note mv = finish_moves [OF call_fence_hooks [OF c] fc]
    have ne: "s \<noteq> ?slot" using invoked(1) row by auto
    have "cp_at s w' = cp_at s ?w2" by (rule fence_moves_other [OF mv ne])
    then show ?thesis using row fence_moves_other [OF invoked(6) ne] by simp
  qed
  then show ?thesis by (simp add: call)
qed

lemma call_tools_keeps:
  "\<forall>c \<in> set cs. fenced_call c \<Longrightarrow> cp_at s w = Some r \<Longrightarrow> cp_at s (call_tools digest secs cs w) = Some r"
  by (induction cs arbitrary: w) (simp_all add: call_tool_keeps)

text \<open>A call whose row is there is answered by it.\<close>

lemma call_tool_answered:
  assumes c: "fenced_call c" and f: "tc_before c = Fine" and row: "cp_at (request_slot (tc_request c)) w = Some r"
    and id: "parse_uuid (tk_chat_id (tc_request c)) = Some i" and run: "row_by rn_id i (runs (tw_db w)) \<noteq> None"
    and sg: "tool_signature digest (tk_tool_name (tc_request c)) (tk_arguments (tc_request c)) = Some (cp_signature r)"
  shows "call_tool digest secs c w =
    (if cp_status r = CpStarted
     then Aborted (lit ''tool outcome is ambiguous after worker interruption; refusing duplicate execution'')
     else Done \<lparr>tl_status = (if cp_status r = CpSuccess then ToolSuccess else ToolError),
       tl_output = (case cp_output r of None \<Rightarrow> [] | Some t \<Rightarrow> t), tl_arguments = tk_arguments (tc_request c),
       tl_extra = [], tl_attention = cp_mobile_attention r\<rparr>, w)"
proof -
  let ?req = "tc_request c"
  let ?ctx = "\<lparr>hc_event = PreToolUse, hc_request = ?req, hc_arguments = tk_arguments ?req, hc_result = None, hc_error = []\<rparr>"
  have slot: "slot_of i (tk_iteration ?req) (tk_call_index ?req) = request_slot ?req" by (rule parsed_slot [OF id])
  have w: "w\<lparr>tw_db := tw_db w\<rparr> = w" by simp
  have run: "checkpoint_run digest PreToolUse Fine (tc_now c) ?ctx w =
      (Returned (begun_outcome (if cp_status r = CpStarted then BAmbiguous else BReplay, r)), w)"
    using id run row sg slot by (auto simp: checkpoint_run_def transaction_def begin_tool_checkpoint_def map_awaited_def)
  have chat: "tk_chat_id ?req \<noteq> []" using c by (simp add: fenced_call_def)
  note pre = pre_checkpoint [OF chat, of digest "tc_before c" "tc_after c" "tc_now c" "tc_plugins c" "tk_arguments ?req" w,
      unfolded f run prod.case]
  show ?thesis
    unfolding call_tool_def execute_tool_def f pre
    by (cases "cp_status r = CpStarted") (auto simp: begun_outcome_def plain_outcome_def or_else_def add_message_def replayed_def Let_def)
qed

section \<open>Sample calls\<close>

lemma remove_sub_absent: "p = c # p' \<Longrightarrow> c \<notin> set s \<Longrightarrow> remove_sub p s = s"
  by (induction p s rule: remove_sub.induct) auto

lemma zero_digits: "hex_digits 0 (replicate n 48) = Some 0"
  by (induction n) (simp_all add: hex_digit_def)

lemma zero_uuid: "parse_uuid (replicate 32 48) = Some (uuid_text 0)"
proof -
  have a: "lit ''urn:'' = 117 # lit ''rn:''" "lit ''uuid:'' = 117 # lit ''uid:''" by (simp_all add: lit_def)
  have r: "remove_sub (lit ''uuid:'') (remove_sub (lit ''urn:'') (replicate 32 48)) = replicate 32 48"
    by (simp add: remove_sub_absent [OF a(1)] remove_sub_absent [OF a(2)])
  have s: "strip (replicate 32 48) = replicate 32 (48::nat)" by (simp add: strip_def py_space_def)
  have u: "replicate 32 (48::nat) = 48 # 48 # replicate 30 48" by (simp add: eval_nat_numeral)
  have n: "int_base16 (replicate 32 48) = Some 0"
    unfolding int_base16_def Let_def s unfolding u by (simp add: hex_number_def hex_digit_def zero_digits)
  show ?thesis by (simp add: parse_uuid_def r Let_def n)
qed

definition sample_tool_request :: tool_request where
  "sample_tool_request = \<lparr>tk_session_key = [], tk_channel = lit ''cloud'', tk_chat_id = replicate 32 48,
     tk_tool_name = lit ''shell'', tk_arguments = [], tk_call_id = [], tk_request_text = [], tk_iteration = 1,
     tk_call_index = 0\<rparr>"

definition sample_world :: "unit tool_world" where
  "sample_world = \<lparr>tw_db = sm_db [sm_running\<lparr>rn_id := uuid_text 0\<rparr>], tw_log = [], tw_rest = ()\<rparr>"

definition sample_call :: "unit tool_world hook list \<Rightarrow> unit tool_call" where
  "sample_call ps = \<lparr>tc_request = sample_tool_request, tc_invoked = (IText (lit ''ok''), ()), tc_before = Fine,
     tc_after = Fine, tc_plugins = ps, tc_now = 1\<rparr>"

text \<open>A plugin that rewrites the arguments.\<close>

definition sample_plugin :: "unit tool_world hook" where
  "sample_plugin = \<lparr>hk_name = lit ''p'', hk_event = PreToolUse, hk_matches = (\<lambda>_. Inr True),
     hk_run = (\<lambda>_ w. (Returned (plain_outcome\<lparr>ho_updated_input := Some [(lit ''a'', JNull)]\<rparr>), w))\<rparr>"

lemma sample_fenced: "fenced_call (sample_call [])" "fenced_call (sample_call [sample_plugin])"
  by (simp_all add: fenced_call_def sample_call_def sample_tool_request_def plugin_hook_def sample_plugin_def)

lemma sample_signature:
  "tool_signature Some (lit ''shell'') [] \<noteq> tool_signature Some (lit ''shell'') [(lit ''a'', JNull)]"
  by (simp add: tool_signature_def lit_def json_string_def json_char_def)

lemma sample_outcome:
  "\<exists>t w1. call_tool Some (lit ''1.0'') (sample_call []) sample_world = (Done t, w1) \<and> tw_log w1 \<noteq> [] \<and>
     tl_arguments t = [] \<and> tl_output t = lit ''ok'' \<and> tl_status t = ToolSuccess"
  "\<exists>t w1. call_tool Some (lit ''1.0'') (sample_call [sample_plugin]) sample_world = (Done t, w1) \<and> tw_log w1 \<noteq> [] \<and>
     tl_arguments t = [(lit ''a'', JNull)]"
proof -
  have chat: "tk_chat_id sample_tool_request \<noteq> []" by (simp add: sample_tool_request_def)
  obtain sg where sg: "tool_signature Some (lit ''shell'') [] = Some sg" by (simp add: tool_signature_def)
  have w: "row_by rn_id (uuid_text 0) (runs (tw_db sample_world)) \<noteq> None" "checkpoints (tw_db sample_world) = []" "tw_log sample_world = []"
    by (simp_all add: sample_world_def) (simp add: sm_defs)
  have "\<exists>c. checkpoint_run Some PreToolUse Fine 1 \<lparr>hc_event = PreToolUse, hc_request = sample_tool_request, hc_arguments = [],
      hc_result = None, hc_error = []\<rparr> sample_world = (Returned plain_outcome, sample_world\<lparr>tw_db := (tw_db sample_world)\<lparr>checkpoints := [c]\<rparr>\<rparr>)"
    using w by (subst checkpoint_run_def) (simp add: sample_tool_request_def zero_uuid sg begin_tool_checkpoint_def
        transaction_def map_awaited_def Let_def begun_outcome_def, blast)
  then obtain c where run: "checkpoint_run Some PreToolUse Fine 1 \<lparr>hc_event = PreToolUse, hc_request = sample_tool_request, hc_arguments = [],
      hc_result = None, hc_error = []\<rparr> sample_world = (Returned plain_outcome, sample_world\<lparr>tw_db := (tw_db sample_world)\<lparr>checkpoints := [c]\<rparr>\<rparr>)"
    by blast
  have after: "\<exists>x v. run_after_hooks ctx (checkpoint_hooks Some Fine Fine 1 @ ps) extra u = (Some x, v) \<and> tw_log v = tw_log u"
    if "hc_event ctx = PostToolUse" "hc_request ctx = sample_tool_request" "ps = [] \<or> ps = [sample_plugin]" for ctx ps extra u
  proof -
    obtain r v where rv: "checkpoint_run Some PostToolUse Fine 1 ctx u = (r, v)" by (metis prod.exhaust)
    have "r \<noteq> Gone" using rv by (auto simp: checkpoint_run_def transaction_def map_awaited_def Let_def
        split: option.splits prod.splits sum.splits awaited.splits)
    moreover have "tw_log v = tw_log u" using fence_checkpoint [of "request_slot sample_tool_request" Some PostToolUse Fine 1] rv that(2)
      unfolding fence_hook_def checkpoint_hook_def by (metis hook.select_convs(4) snd_conv)
    ultimately show ?thesis using that rv chat
      by (cases r) (auto simp: checkpoint_hooks_def checkpoint_hook_def sample_plugin_def)
  qed
  have go: "run_pre_hooks (checkpoint_hooks Some Fine Fine 1 @ ps) sample_tool_request [] [] sample_world =
      run_pre_hooks ps sample_tool_request [] [] (sample_world\<lparr>tw_db := (tw_db sample_world)\<lparr>checkpoints := [c]\<rparr>\<rparr>)" for ps
    by (subst pre_checkpoint [OF chat]) (simp add: run, simp add: plain_outcome_def add_message_def)
  note ev = call_tool_def execute_tool_def sample_call_def go go [of "[]", simplified] plain_outcome_def add_message_def
    finish_call_def settled_def run_post_hooks_def invoke_tool_def
  have args: "tk_arguments sample_tool_request = []" by (simp add: sample_tool_request_def)
  show "\<exists>t w1. call_tool Some (lit ''1.0'') (sample_call []) sample_world = (Done t, w1) \<and> tw_log w1 \<noteq> [] \<and>
     tl_arguments t = [] \<and> tl_output t = lit ''ok'' \<and> tl_status t = ToolSuccess"
  proof -
    let ?u = "sample_world\<lparr>tw_db := (tw_db sample_world)\<lparr>checkpoints := [c]\<rparr>, tw_log := [request_slot sample_tool_request], tw_rest := ()\<rparr>"
    let ?ctx = "\<lparr>hc_event = PostToolUse, hc_request = sample_tool_request, hc_arguments = [], hc_result = Some (lit ''ok''), hc_error = []\<rparr>"
    obtain x v where "run_after_hooks ?ctx (checkpoint_hooks Some Fine Fine 1 @ []) [] ?u = (Some x, v)" "tw_log v = tw_log ?u"
      using after [of ?ctx "[]" "[]" ?u] by auto
    then show ?thesis by (simp add: ev args w Let_def)
  qed
  show "\<exists>t w1. call_tool Some (lit ''1.0'') (sample_call [sample_plugin]) sample_world = (Done t, w1) \<and> tw_log w1 \<noteq> [] \<and>
     tl_arguments t = [(lit ''a'', JNull)]"
  proof -
    let ?u = "sample_world\<lparr>tw_db := (tw_db sample_world)\<lparr>checkpoints := [c]\<rparr>, tw_log := [request_slot sample_tool_request], tw_rest := ()\<rparr>"
    let ?ctx = "\<lparr>hc_event = PostToolUse, hc_request = sample_tool_request, hc_arguments = [(lit ''a'', JNull)], hc_result = Some (lit ''ok''), hc_error = []\<rparr>"
    obtain x v where "run_after_hooks ?ctx (checkpoint_hooks Some Fine Fine 1 @ [sample_plugin]) [] ?u = (Some x, v)" "tw_log v = tw_log ?u"
      using after [of ?ctx "[sample_plugin]" "[]" ?u] by auto
    then show ?thesis by (simp add: ev args w Let_def) (simp add: ev args w Let_def sample_plugin_def)
  qed
qed

section \<open>Properties\<close>

text \<open>C6: However often the workers of a Run call tools, retry them, crash before or after a
  transaction or during a call, and whatever plugin hooks there are, a tool slot of a Run is really
  invoked at most once.\<close>

theorem tool_at_most_once:
  assumes "\<forall>c \<in> set cs. fenced_call c" and "tw_log w = []"
  shows "distinct (tw_log (call_tools digest secs cs w))"
proof -
  have "fenced (call_tools digest secs cs w)" if "fenced w" using assms(1) that
    by (induction cs arbitrary: w) (simp_all add: call_tool_fenced)
  then show ?thesis using assms(2) by (simp add: fenced_def)
qed

theorem tool_at_most_once_witness:
  "distinct (tw_log (call_tools Some (lit ''1.0'') [sample_call [], sample_call [sample_plugin], sample_call []] sample_world))"
  by (rule tool_at_most_once) (auto simp: sample_fenced, simp add: sample_world_def)

text \<open>The row a call leaves that was made and came back.\<close>

lemma made_call:
  fixes c :: "'w tool_call"
  assumes c: "fenced_call c" and call: "call_tool digest secs c w = (Done t, w1)" "tw_log w1 \<noteq> tw_log w"
  obtains r ev err i and w0 :: "'w tool_world" where "cp_at (request_slot (tc_request c)) w0 = Some r" "cp_status r = CpStarted"
      "tool_signature digest (tk_tool_name (tc_request c)) (tk_arguments (tc_request c)) = Some (cp_signature r)"
      "ev \<noteq> PreToolUse" "tl_status t = (if ev = PostToolUse then ToolSuccess else ToolError)"
      "cp_at (request_slot (tc_request c)) w1 = cp_at (request_slot (tc_request c)) (snd (checkpoint_run digest ev (tc_after c) (tc_now c)
        \<lparr>hc_event = ev, hc_request = tc_request c, hc_arguments = tl_arguments t, hc_result = Some (tl_output t), hc_error = err\<rparr> w0))"
      "parse_uuid (tk_chat_id (tc_request c)) = Some i" "row_by rn_id i (runs (tw_db w1)) \<noteq> None"
  using c call(1)
proof (cases rule: call_tool_cases)
  case blocked
  then show ?thesis using call(2) by simp
next
  case (invoked r args extra wb)
  let ?slot = "request_slot (tc_request c)"
  let ?w2 = "wb\<lparr>tw_log := tw_log wb @ [?slot], tw_rest := snd (tc_invoked c)\<rparr>"
  have fc: "finish_call secs (call_hooks digest c) (tc_request c) args extra (fst (tc_invoked c), ?w2) = (Done t, w1)"
    using invoked(7) by (simp add: invoke_tool_def)
  have runs: "runs (tw_db w1) = runs (tw_db w)"
    using finish_moves [OF call_fence_hooks [OF c] fc] invoked(6) by (simp add: fence_moves_def)
  have chat: "tk_chat_id (tc_request c) \<noteq> []" "\<forall>h \<in> set (tc_plugins c). plugin_hook h" using c by (simp_all add: fenced_call_def)
  obtain ev err where ev: "ev \<noteq> PreToolUse" "tl_arguments t = args" "tl_status t = (if ev = PostToolUse then ToolSuccess else ToolError)"
      "cp_at ?slot w1 = cp_at ?slot (snd (checkpoint_run digest ev (tc_after c) (tc_now c)
        \<lparr>hc_event = ev, hc_request = tc_request c, hc_arguments = args, hc_result = Some (tl_output t), hc_error = err\<rparr> ?w2))"
    using finish_done [OF chat fc] by blast
  have "cp_at ?slot ?w2 = Some r" using invoked(3) by simp
  then show ?thesis using that [of ?w2 r ev err] ev invoked(2,4,5) runs by auto
qed

lemma call_tools_runs: "\<forall>c \<in> set cs. fenced_call c \<Longrightarrow> runs (tw_db (call_tools digest secs cs w)) = runs (tw_db w)"
proof (induction cs arbitrary: w)
  case (Cons c cs)
  have c: "fenced_call c" using Cons.prems by simp
  obtain e w' where call: "call_tool digest secs c w = (e, w')" by (metis prod.exhaust)
  from c call have "runs (tw_db w') = runs (tw_db w)"
  proof (cases rule: call_tool_cases)
    case blocked
    then show ?thesis by (simp add: fence_moves_def)
  next
    case (invoked r args extra w1)
    have fc: "finish_call secs (call_hooks digest c) (tc_request c) args extra (fst (tc_invoked c),
        w1\<lparr>tw_log := tw_log w1 @ [request_slot (tc_request c)], tw_rest := snd (tc_invoked c)\<rparr>) = (e, w')"
      using invoked(7) by (simp add: invoke_tool_def)
    show ?thesis using finish_moves [OF call_fence_hooks [OF c] fc] invoked(6) by (simp add: fence_moves_def)
  qed
  then show ?case using Cons by (simp add: call)
qed simp

text \<open>Once a call went through with the arguments the model asked for and its result was
  recorded, every later call for the same slot with the same arguments is answered by that record:
  the tool is not invoked, nothing changes, and the status and the output are the ones of the first
  time, whatever calls happened in between.  Only the attention mark of the tool is lost on the
  way.\<close>

theorem tool_call_replayed:
  assumes c: "fenced_call c" "fenced_call c'" and cs: "\<forall>k \<in> set cs. fenced_call k"
    and first: "call_tool digest secs c w = (Done t, w1)" "tw_log w1 \<noteq> tw_log w" "tl_arguments t = tk_arguments (tc_request c)"
      "tc_after c = Fine"
    and again: "tc_request c' = tc_request c" "tc_before c' = Fine"
  shows "call_tool digest secs c' (call_tools digest secs cs w1) =
    (Done (t\<lparr>tl_extra := [], tl_attention := None\<rparr>), call_tools digest secs cs w1)"
  using c(1) first(1,2)
proof (rule made_call)
  fix r ev err w0 i
  let ?slot = "request_slot (tc_request c)"
  let ?ctx = "\<lparr>hc_event = ev, hc_request = tc_request c, hc_arguments = tl_arguments t, hc_result = Some (tl_output t), hc_error = err\<rparr>"
  assume r: "cp_at ?slot w0 = Some r" "cp_status r = CpStarted"
      "tool_signature digest (tk_tool_name (tc_request c)) (tk_arguments (tc_request c)) = Some (cp_signature r)"
    and ev: "ev \<noteq> PreToolUse" "tl_status t = (if ev = PostToolUse then ToolSuccess else ToolError)"
    and row: "cp_at ?slot w1 = cp_at ?slot (snd (checkpoint_run digest ev (tc_after c) (tc_now c) ?ctx w0))"
    and i: "parse_uuid (tk_chat_id (tc_request c)) = Some i" "row_by rn_id i (runs (tw_db w1)) \<noteq> None"
  let ?r = "r\<lparr>cp_status := (if ev = PostToolUse then CpSuccess else CpError), cp_output := Some (tl_output t),
      cp_mobile_attention := None, cp_completed_at := Some (tc_now c)\<rparr>"
  have slot: "cp_slot ?r = ?slot" using row_by_SomeD [OF r(1)] by (simp add: cp_slot_def)
  have "snd (checkpoint_run digest ev Fine (tc_now c) ?ctx w0) =
      w0\<lparr>tw_db := (tw_db w0)\<lparr>checkpoints := put_row cp_slot ?r (checkpoints (tw_db w0))\<rparr>\<rparr>"
    using r i ev(1) parsed_slot [OF i(1)]
    by (simp add: checkpoint_run_def first(3) finish_tool_checkpoint_def transaction_def map_awaited_def Let_def)
  then have "cp_at ?slot w1 = Some ?r" using row r(1) slot unfolding first(4) by (simp add: row_by_put_row)
  then have now: "cp_at ?slot (call_tools digest secs cs w1) = Some ?r" by (rule call_tools_keeps [OF cs])
  show ?thesis
    using call_tool_answered [OF c(2) again(2), of "call_tools digest secs cs w1" ?r i digest secs] now i r(3) ev(2)
    by (simp add: again(1) call_tools_runs [OF cs] first(3) [symmetric])
qed

theorem tool_call_replayed_witness:
  "\<exists>t w1. call_tool Some (lit ''1.0'') (sample_call []) sample_world = (Done t, w1) \<and> tl_output t = lit ''ok'' \<and>
     call_tool Some (lit ''1.0'') (sample_call []) w1 = (Done (t\<lparr>tl_extra := [], tl_attention := None\<rparr>), w1)"
proof -
  obtain t w1 where t: "call_tool Some (lit ''1.0'') (sample_call []) sample_world = (Done t, w1)" "tw_log w1 \<noteq> []"
      "tl_arguments t = []" "tl_output t = lit ''ok''" using sample_outcome(1) by blast
  have log: "tw_log w1 \<noteq> tw_log sample_world" using t(2) by (simp add: sample_world_def)
  have a: "tl_arguments t = tk_arguments (tc_request (sample_call []))" "tc_after (sample_call []) = Fine" "tc_before (sample_call []) = Fine"
    using t(3) by (simp_all add: sample_call_def sample_tool_request_def)
  have "\<forall>k \<in> set []. fenced_call k" by simp
  from tool_call_replayed [OF sample_fenced(1) sample_fenced(1) this t(1) log a(1,2) refl a(3)] t show ?thesis by auto
qed

text \<open>A call whose arguments a plugin hook rewrote is invoked but never recorded: the signature of
  the result does not match that of the request, the failure of the hook is swallowed, and when the
  Run is retried the same call aborts it as ambiguous although the call had come back.\<close>

theorem rewritten_call_aborts_retry:
  assumes c: "fenced_call c" "fenced_call c'" and cs: "\<forall>k \<in> set cs. fenced_call k"
    and first: "call_tool digest secs c w = (Done t, w1)" "tw_log w1 \<noteq> tw_log w"
      "tool_signature digest (tk_tool_name (tc_request c)) (tl_arguments t) \<noteq>
       tool_signature digest (tk_tool_name (tc_request c)) (tk_arguments (tc_request c))"
    and again: "tc_request c' = tc_request c" "tc_before c' = Fine"
  shows "call_tool digest secs c' (call_tools digest secs cs w1) =
    (Aborted (lit ''tool outcome is ambiguous after worker interruption; refusing duplicate execution''),
     call_tools digest secs cs w1)"
  using c(1) first(1,2)
proof (rule made_call)
  fix r ev err w0 i
  let ?slot = "request_slot (tc_request c)"
  let ?ctx = "\<lparr>hc_event = ev, hc_request = tc_request c, hc_arguments = tl_arguments t, hc_result = Some (tl_output t), hc_error = err\<rparr>"
  assume r: "cp_at ?slot w0 = Some r" "cp_status r = CpStarted"
      "tool_signature digest (tk_tool_name (tc_request c)) (tk_arguments (tc_request c)) = Some (cp_signature r)"
    and ev: "ev \<noteq> PreToolUse"
    and row: "cp_at ?slot w1 = cp_at ?slot (snd (checkpoint_run digest ev (tc_after c) (tc_now c) ?ctx w0))"
    and i: "parse_uuid (tk_chat_id (tc_request c)) = Some i" "row_by rn_id i (runs (tw_db w1)) \<noteq> None"
  obtain res wf where run: "checkpoint_run digest ev (tc_after c) (tc_now c) ?ctx w0 = (res, wf)" by (metis prod.exhaust)
  have req: "hc_request ?ctx = tc_request c" by simp
  from run req ev have "wf = w0"
  proof (cases rule: finish_cases)
    case (closed k)
    then show ?thesis using r(1,3) first(3) by simp
  qed
  then have "cp_at ?slot w1 = Some r" using row r(1) run by simp
  then have now: "cp_at ?slot (call_tools digest secs cs w1) = Some r" by (rule call_tools_keeps [OF cs])
  show ?thesis
    using call_tool_answered [OF c(2) again(2), of "call_tools digest secs cs w1" r i digest secs] now i r(2,3)
    by (simp add: again(1) call_tools_runs [OF cs])
qed

theorem rewritten_call_aborts_retry_witness:
  "\<exists>t w1. call_tool Some (lit ''1.0'') (sample_call [sample_plugin]) sample_world = (Done t, w1) \<and>
     call_tool Some (lit ''1.0'') (sample_call [sample_plugin]) w1 =
       (Aborted (lit ''tool outcome is ambiguous after worker interruption; refusing duplicate execution''), w1)"
proof -
  obtain t w1 where t: "call_tool Some (lit ''1.0'') (sample_call [sample_plugin]) sample_world = (Done t, w1)" "tw_log w1 \<noteq> []"
      "tl_arguments t = [(lit ''a'', JNull)]" using sample_outcome(2) by blast
  have log: "tw_log w1 \<noteq> tw_log sample_world" using t(2) by (simp add: sample_world_def)
  have a: "tool_signature Some (tk_tool_name (tc_request (sample_call [sample_plugin]))) (tl_arguments t) \<noteq>
      tool_signature Some (tk_tool_name (tc_request (sample_call [sample_plugin]))) (tk_arguments (tc_request (sample_call [sample_plugin])))"
    "tc_before (sample_call [sample_plugin]) = Fine"
    using sample_signature t(3) by (simp_all add: sample_call_def sample_tool_request_def)
  have "\<forall>k \<in> set []. fenced_call k" by simp
  from rewritten_call_aborts_retry [OF sample_fenced(2) sample_fenced(2) this t(1) log a(1) refl a(2)] t show ?thesis by auto
qed

end
