(* ===== verification/ModulePhases.thy ===== *)
theory ModulePhases
  imports PyJson "HOL-Library.AList"
begin

text \<open>
  The order of the modules of a lifecycle phase, \<open>src/agent/lifecycle/phase.py\<close>: modules whose
  requirements are missing are disabled, in cascade, and the others are sorted topologically, with
  plugin modules before built-in ones and then in the order of registration.
\<close>

section \<open>Modules and their slots\<close>

text \<open>\<open>pm_slot\<close> is \<open>None\<close> when the object has no \<open>slot\<close> that is a text; \<open>pm_type\<close> is the name of its type.\<close>

record phase_module =
  pm_slot :: "pystr option"
  pm_requires :: "pystr list"
  pm_type :: pystr

abbreviation slot_name :: "phase_module \<Rightarrow> pystr" where
  "slot_name m \<equiv> the (pm_slot m)"

definition builtin_prefixes :: "pystr list" where
  "builtin_prefixes = [lit ''before_turn.'', lit ''before_reasoning.'', lit ''prompt_render.'', lit ''before_step.'',
     lit ''after_step.'', lit ''after_reasoning.'', lit ''after_turn.'']"

definition is_builtin_slot :: "pystr \<Rightarrow> bool" where
  "is_builtin_slot slot \<longleftrightarrow> list_ex (\<lambda>p. prefix p slot) builtin_prefixes"

text \<open>A dot and no colon.\<close>

definition is_module_slot :: "pystr \<Rightarrow> bool" where
  "is_module_slot slot \<longleftrightarrow> 46 \<in> set slot \<and> 58 \<notin> set slot"

definition module_requires :: "phase_module \<Rightarrow> pystr list \<Rightarrow> pystr list" where
  "module_requires m known = filter (\<lambda>r. r \<in> set known) (pm_requires m)"

definition missing_module_requires :: "phase_module \<Rightarrow> pystr list \<Rightarrow> pystr list" where
  "missing_module_requires m active = filter (\<lambda>r. is_module_slot r \<and> r \<notin> set active) (pm_requires m)"

section \<open>Disabling in cascade\<close>

text \<open>The slots one round disables; the set of active slots is kept in the order of the modules.\<close>

definition disabled_slots :: "phase_module list \<Rightarrow> pystr list \<Rightarrow> pystr list" where
  "disabled_slots ms active =
     map slot_name (filter (\<lambda>m. slot_name m \<in> set active \<and> \<not> is_builtin_slot (slot_name m) \<and>
       missing_module_requires m active \<noteq> []) ms)"

lemma disabled_active: "s \<in> set (disabled_slots ms active) \<Longrightarrow> s \<in> set active"
  by (auto simp: disabled_slots_def)

function active_loop :: "phase_module list \<Rightarrow> pystr list \<Rightarrow> pystr list" where
  "active_loop ms active =
     (if disabled_slots ms active = [] then active
      else active_loop ms (filter (\<lambda>s. s \<notin> set (disabled_slots ms active)) active))"
  by pat_completeness auto

termination
proof (relation "measure (\<lambda>(ms, active). length active)")
  fix ms active assume "disabled_slots ms active \<noteq> []"
  then obtain s where s: "s \<in> set (disabled_slots ms active)" by (meson ex_in_conv set_empty)
  then have "s \<in> set active" by (rule disabled_active)
  then have "length (filter (\<lambda>x. x \<notin> set (disabled_slots ms active)) active) < length active"
    by (rule length_filter_less) (use s in simp)
  then show "((ms, filter (\<lambda>x. x \<notin> set (disabled_slots ms active)) active), ms, active)
      \<in> measure (\<lambda>(ms, active). length active)" by simp
qed simp

declare active_loop.simps [simp del]

definition active_module_slots :: "phase_module list \<Rightarrow> pystr list" where
  "active_module_slots ms = active_loop ms (map slot_name ms)"

section \<open>The topological sort\<close>

fun check_slots :: "pystr list \<Rightarrow> phase_module list \<Rightarrow> unit res" where
  "check_slots seen [] = Inr ()"
| "check_slots seen (m # ms) =
     (case pm_slot m of
        None \<Rightarrow> Inl (RuntimeError ([27169, 22359, 32570, 23569] @ lit '' slot '' @ [22768, 26126] @ lit '': '' @ pm_type m))
      | Some s \<Rightarrow>
          if s = [] then Inl (RuntimeError ([27169, 22359, 32570, 23569] @ lit '' slot '' @ [22768, 26126] @ lit '': '' @ pm_type m))
          else if s \<in> set seen then Inl (RuntimeError ([27169, 22359] @ lit '' slot '' @ [37325, 22797] @ lit '': '' @ s))
          else check_slots (s # seen) ms)"

text \<open>The position of a slot in the list of all modules.\<close>

fun slot_order :: "phase_module list \<Rightarrow> pystr \<Rightarrow> nat" where
  "slot_order [] s = 0"
| "slot_order (m # ms) s = (if pm_slot m = Some s then 0 else Suc (slot_order ms s))"

definition ready_key :: "phase_module list \<Rightarrow> pystr \<Rightarrow> bool \<times> nat" where
  "ready_key ms s = (is_builtin_slot s, slot_order ms s)"

definition in_degrees :: "phase_module list \<Rightarrow> (pystr \<times> nat) list" where
  "in_degrees ms = map (\<lambda>m. (slot_name m, length (module_requires m (map slot_name ms)))) ms"

text \<open>\<open>dependents[r]\<close>: a module once for every time it requires \<open>r\<close>.\<close>

definition dependents :: "phase_module list \<Rightarrow> pystr \<Rightarrow> pystr list" where
  "dependents ms r = concat (map (\<lambda>m. map (\<lambda>_. slot_name m)
     (filter (\<lambda>q. q = r) (module_requires m (map slot_name ms)))) ms)"

fun release_dependents :: "pystr list \<Rightarrow> (pystr \<times> nat) list \<Rightarrow> pystr list \<Rightarrow> (pystr \<times> nat) list \<times> pystr list" where
  "release_dependents [] deg queue = (deg, queue)"
| "release_dependents (d # ds) deg queue =
     (case map_of deg d of
        None \<Rightarrow> release_dependents ds deg queue
      | Some n \<Rightarrow>
          release_dependents ds (AList.update d (n - 1) deg) (if n = 1 then queue @ [d] else queue))"

definition waiting :: "(pystr \<times> nat) list \<Rightarrow> nat" where
  "waiting deg = length (filter (\<lambda>(s, n). 0 < n) deg)"

lemma waiting_update:
  "map_of deg d = Some n \<Longrightarrow> waiting (AList.update d (n - 1) deg) + (if n = 1 then 1 else 0) = waiting deg"
  by (induction deg) (auto simp: waiting_def)

lemma release_waiting:
  "release_dependents ds deg queue = (deg', queue') \<Longrightarrow> length queue' + waiting deg' = length queue + waiting deg"
proof (induction ds deg queue rule: release_dependents.induct)
  case (2 d ds deg queue)
  show ?case
  proof (cases "map_of deg d")
    case None
    then show ?thesis using 2 by simp
  next
    case (Some n)
    have "length queue' + waiting deg' = length (if n = 1 then queue @ [d] else queue) + waiting (AList.update d (n - 1) deg)"
      using 2(2) [OF Some] 2(3) Some by simp
    then show ?thesis using waiting_update [OF Some] by (simp split: if_splits)
  qed
qed simp

text \<open>The slots in the order they leave the queue, and the degrees that are left.\<close>

function topo_loop :: "phase_module list \<Rightarrow> phase_module list \<Rightarrow> pystr list \<Rightarrow> (pystr \<times> nat) list \<Rightarrow> pystr list \<Rightarrow>
    pystr list \<times> (pystr \<times> nat) list" where
  "topo_loop all ms queue deg out =
     (case sort_key (ready_key all) queue of
        [] \<Rightarrow> (out, deg)
      | s # rest \<Rightarrow>
          (case release_dependents (dependents ms s) deg rest of
             (deg', queue') \<Rightarrow> topo_loop all ms queue' deg' (out @ [s])))"
  by pat_completeness auto

termination
proof (relation "measure (\<lambda>(all, ms, queue, deg, out). length queue + waiting deg)")
  fix all ms queue deg out s rest deg' queue'
  assume q: "sort_key (ready_key all) queue = s # rest" and r: "(deg', queue') = release_dependents (dependents ms s) deg rest"
  have "length queue = Suc (length rest)" using q by (metis length_Cons length_sort)
  then show "((all, ms, queue', deg', out @ [s]), all, ms, queue, deg, out)
      \<in> measure (\<lambda>(all, ms, queue, deg, out). length queue + waiting deg)"
    using release_waiting [OF r [symmetric]] by simp
qed simp

declare topo_loop.simps [simp del]

definition topo_sort_modules :: "phase_module list \<Rightarrow> phase_module list res" where
  "topo_sort_modules modules =
     (case check_slots [] modules of
        Inl e \<Rightarrow> Inl e
      | Inr _ \<Rightarrow>
          (let active = active_module_slots modules;
               ms = filter (\<lambda>m. slot_name m \<in> set active) modules;
               deg = in_degrees ms;
               queue = map fst (filter (\<lambda>(s, n). n = 0) deg)
           in case topo_loop modules ms queue deg [] of
                (out, deg') \<Rightarrow>
                  if length out \<noteq> length ms
                  then Inl (RuntimeError ([27169, 22359, 24490, 29615, 20381, 36182] @ lit '': '' @
                         py_join (lit '', '') (sort (map fst (filter (\<lambda>(s, n). 0 < n) deg')))))
                  else Inr (map (\<lambda>s. the (row_by slot_name s ms)) out)))"

text \<open>The text that shows an order: \<open>%2d\<close> pads with a blank.\<close>

definition pad_two :: "nat \<Rightarrow> pystr" where
  "pad_two n = (if n < 10 then [32] else []) @ nat_text n"

definition inspect_phase :: "phase_module list \<Rightarrow> pystr res" where
  "inspect_phase modules =
     (case topo_sort_modules modules of
        Inl e \<Rightarrow> Inl e
      | Inr out \<Rightarrow>
          (let chain = py_join [10] (map (\<lambda>(i, m). lit ''  '' @ pad_two i @ lit ''. '' @
                 (if is_builtin_slot (slot_name m) then lit ''[B] '' else lit ''[P] '') @ slot_name m) (enumerate 0 out));
               edges = concat (map (\<lambda>m. map (\<lambda>r. lit ''  '' @ r @ lit '' -> '' @ slot_name m)
                 (module_requires m (map slot_name out))) out);
               deps = (if edges = [] then lit ''  ('' @ [26080, 20381, 36182] @ lit '')'' else py_join [10] edges)
           in Inr ([25191, 34892, 39034, 24207] @ lit '':'' @ [10] @ chain @ [10, 10] @ [20381, 36182] @ lit '':'' @ [10] @ deps)))"

end
