(* ===== verification/PhaseTheorems.thy ===== *)
theory PhaseTheorems
  imports ModulePhases "HOL-Library.Multiset"
begin

text \<open>
  The order of phase modules is what its documentation says: the modules that stay are the largest
  set whose requirements are met, the order is that of always taking the first module that is ready,
  and it fails exactly on a cycle.
\<close>

section \<open>The cascade\<close>

text \<open>A set of slots that needs nothing from outside.\<close>

definition closed_slots :: "phase_module list \<Rightarrow> pystr set \<Rightarrow> bool" where
  "closed_slots ms A \<longleftrightarrow> (\<forall>m \<in> set ms. slot_name m \<in> A \<longrightarrow> \<not> is_builtin_slot (slot_name m) \<longrightarrow>
     (\<forall>r \<in> set (pm_requires m). is_module_slot r \<longrightarrow> r \<in> A))"

lemma disabled_Nil: "disabled_slots ms active = [] \<Longrightarrow> closed_slots ms (set active)"
  by (auto simp: disabled_slots_def closed_slots_def missing_module_requires_def filter_empty_conv)

lemma disabled_outside: "closed_slots ms A \<Longrightarrow> A \<subseteq> set active \<Longrightarrow> s \<in> set (disabled_slots ms active) \<Longrightarrow> s \<notin> A"
  by (auto simp: disabled_slots_def closed_slots_def missing_module_requires_def filter_empty_conv)

lemma active_loop_closed: "closed_slots ms (set (active_loop ms active))"
  by (induction ms active rule: active_loop.induct) (subst active_loop.simps, auto simp: disabled_Nil)

lemma active_loop_subset: "set (active_loop ms active) \<subseteq> set active"
proof (induction ms active rule: active_loop.induct)
  case (1 ms active)
  then show ?case by (subst active_loop.simps) auto
qed

lemma active_loop_greatest: "closed_slots ms A \<Longrightarrow> A \<subseteq> set active \<Longrightarrow> A \<subseteq> set (active_loop ms active)"
proof (induction ms active rule: active_loop.induct)
  case (1 ms active)
  show ?case
  proof (cases "disabled_slots ms active = []")
    case True
    then show ?thesis using 1(3) by (simp add: active_loop.simps)
  next
    case False
    have "A \<subseteq> set (filter (\<lambda>s. s \<notin> set (disabled_slots ms active)) active)"
      using disabled_outside [OF 1(2,3)] 1(3) by auto
    then show ?thesis using 1(1) [OF False 1(2)] False by (simp add: active_loop.simps [of ms active])
  qed
qed

section \<open>The reference order\<close>

text \<open>The requirements of a module that are not placed yet.\<close>

definition unmet :: "phase_module list \<Rightarrow> pystr list \<Rightarrow> phase_module \<Rightarrow> nat" where
  "unmet ms out m = length (filter (\<lambda>r. r \<notin> set out) (module_requires m (map slot_name ms)))"

definition ready_slots :: "phase_module list \<Rightarrow> pystr list \<Rightarrow> pystr list" where
  "ready_slots ms out = map slot_name (filter (\<lambda>m. slot_name m \<notin> set out \<and> unmet ms out m = 0) ms)"

text \<open>Always the first module that is ready: a plugin before a built-in one, then the one registered first.\<close>

fun pick_order :: "phase_module list \<Rightarrow> phase_module list \<Rightarrow> nat \<Rightarrow> pystr list \<Rightarrow> pystr list" where
  "pick_order all ms 0 out = out"
| "pick_order all ms (Suc k) out =
     (case sort_key (ready_key all) (ready_slots ms out) of
        [] \<Rightarrow> out
      | s # _ \<Rightarrow> pick_order all ms k (out @ [s]))"

lemma check_slots_ok:
  "check_slots seen ms = Inr () \<Longrightarrow>
   (\<forall>m \<in> set ms. pm_slot m \<noteq> None) \<and> distinct (map slot_name ms) \<and> set (map slot_name ms) \<inter> set seen = {}"
  by (induction seen ms rule: check_slots.induct) (auto split: option.splits if_splits)

lemma slot_order_inj:
  "\<forall>m \<in> set all. pm_slot m \<noteq> None \<Longrightarrow> s \<in> set (map slot_name all) \<Longrightarrow> slot_order all s = slot_order all t \<Longrightarrow>
   t \<in> set (map slot_name all) \<Longrightarrow> s = t"
  by (induction all) (auto split: if_splits)

lemma ready_key_inj:
  "\<forall>m \<in> set all. pm_slot m \<noteq> None \<Longrightarrow> A \<subseteq> set (map slot_name all) \<Longrightarrow> inj_on (ready_key all) A"
  by (rule inj_onI, rule slot_order_inj [of all]) (auto simp: ready_key_def)

lemma sort_same:
  assumes "distinct xs" "distinct ys" "set xs = set ys" "inj_on f (set xs)"
  shows "sort_key f xs = sort_key f ys"
proof (rule sort_key_inj_key_eq)
  show "mset xs = mset (sort_key f ys)" using assms(1-3) by (simp add: set_eq_iff_mset_eq_distinct)
qed (use assms in simp_all)

section \<open>The loop\<close>

lemma update_map:
  "distinct (map fst deg) \<Longrightarrow> map_of deg d = Some n \<Longrightarrow>
   AList.update d (n - 1) deg = map (\<lambda>(k, m). (k, if k = d then m - 1 else m)) deg"
  by (induction deg) (auto simp: rev_image_eqI intro!: map_idI [symmetric])

lemma keys_of: "map fst xs = map fst ys \<Longrightarrow> fst ` set xs = fst ` set ys"
  by (metis list.set_map)

lemma release_dependents_result:
  assumes "distinct (map fst deg)" "set ds \<subseteq> fst ` set deg" "distinct queue" "\<forall>d \<in> set queue. map_of deg d = Some 0"
    and "release_dependents ds deg queue = (deg', queue')"
  shows "deg' = map (\<lambda>(k, n). (k, n - count_list ds k)) deg \<and> distinct queue' \<and>
    set queue' = set queue \<union> {k. \<exists>n. map_of deg k = Some n \<and> 0 < n \<and> n \<le> count_list ds k}"
  using assms
proof (induction ds deg queue rule: release_dependents.induct)
  case (1 deg queue)
  then show ?case by (auto intro!: map_idI [symmetric])
next
  case (2 d ds deg queue)
  obtain n where n: "map_of deg d = Some n" using 2(4) by (cases "map_of deg d") (auto simp: map_of_eq_None_iff)
  let ?deg = "AList.update d (n - 1) deg"
  let ?queue = "if n = 1 then queue @ [d] else queue"
  have u: "?deg = map (\<lambda>(k, m). (k, if k = d then m - 1 else m)) deg" by (rule update_map [OF 2(3) n])
  have mo: "map_of ?deg k = (if k = d then Some (n - 1) else map_of deg k)" for k by (simp add: update_conv')
  have keys: "map fst ?deg = map fst deg" unfolding u by (induction deg) auto
  have "distinct (map fst ?deg)" "set ds \<subseteq> fst ` set ?deg"
    using 2(3,4) keys_of [OF keys] by (simp_all only: keys list.set set_map) auto
  moreover have "distinct ?queue" "\<forall>k \<in> set ?queue. map_of ?deg k = Some 0"
    using 2(5,6) n by (auto simp: mo simp del: One_nat_def)
  ultimately have ih: "deg' = map (\<lambda>(k, n). (k, n - count_list ds k)) ?deg \<and> distinct queue' \<and>
      set queue' = set ?queue \<union> {k. \<exists>m. map_of ?deg k = Some m \<and> 0 < m \<and> m \<le> count_list ds k}"
    using 2(2) [OF n] 2(7) n by simp
  have "deg' = map (\<lambda>(k, n). (k, n - count_list (d # ds) k)) deg"
    using ih unfolding u by (auto simp: o_def case_prod_beta)
  moreover have "set queue' = set queue \<union> {k. \<exists>n. map_of deg k = Some n \<and> 0 < n \<and> n \<le> count_list (d # ds) k}"
  proof -
    have "k \<in> set ?queue \<or> (\<exists>m. map_of ?deg k = Some m \<and> 0 < m \<and> m \<le> count_list ds k) \<longleftrightarrow>
        k \<in> set queue \<or> (\<exists>n. map_of deg k = Some n \<and> 0 < n \<and> n \<le> count_list (d # ds) k)" for k
      using n 2(6) by (cases "k = d") (auto simp: mo simp del: One_nat_def split: if_splits)
    then show ?thesis using ih by blast
  qed
  ultimately show ?case using ih by simp
qed

lemma count_dependents:
  assumes "distinct (map slot_name ms)" "m \<in> set ms"
  shows "count_list (dependents ms s) (slot_name m) = count_list (module_requires m (map slot_name ms)) s"
proof -
  have "count_list (concat (map (\<lambda>m. map (\<lambda>_. slot_name m) (filter (\<lambda>q. q = s) (module_requires m known))) xs)) (slot_name m) =
      count_list (module_requires m known) s" if "distinct (map slot_name xs)" "m \<in> set xs" for xs known
    using that
  proof (induction xs)
    case (Cons x xs)
    have c: "count_list (map (\<lambda>_. slot_name x) (filter (\<lambda>q. q = s) rs)) (slot_name m) =
        (if slot_name x = slot_name m then count_list rs s else 0)" for rs by (induction rs) auto
    have none: "count_list (concat (map (\<lambda>m. map (\<lambda>_. slot_name m) (filter (\<lambda>q. q = s) (module_requires m known))) xs)) t = 0"
      if "t \<notin> slot_name ` set xs" for t using that by (auto simp: count_list_0_iff)
    show ?case using Cons c none by (cases "x = m") (auto simp: rev_image_eqI)
  qed simp
  then show ?thesis using assms unfolding dependents_def by blast
qed


text \<open>What the loop keeps: the degrees are the unmet requirements, and the queue holds the ready slots.\<close>

definition topo_inv :: "phase_module list \<Rightarrow> pystr list \<Rightarrow> (pystr \<times> nat) list \<Rightarrow> pystr list \<Rightarrow> bool" where
  "topo_inv ms queue deg out \<longleftrightarrow>
     deg = map (\<lambda>m. (slot_name m, unmet ms out m)) ms \<and> distinct out \<and> set out \<subseteq> slot_name ` set ms \<and>
     distinct queue \<and> set queue = set (ready_slots ms out) \<and>
     (\<forall>m \<in> set ms. slot_name m \<in> set out \<longrightarrow> unmet ms out m = 0)"

lemma topo_invD:
  assumes "topo_inv ms queue deg out"
  shows "deg = map (\<lambda>m. (slot_name m, unmet ms out m)) ms" "distinct out" "set out \<subseteq> slot_name ` set ms"
    "distinct queue" "set queue = set (ready_slots ms out)"
    "m \<in> set ms \<Longrightarrow> slot_name m \<in> set out \<Longrightarrow> unmet ms out m = 0"
  using assms by (auto simp: topo_inv_def)

lemma ready_slot: "s \<in> set (ready_slots ms out) \<longleftrightarrow> (\<exists>m \<in> set ms. s = slot_name m \<and> s \<notin> set out \<and> unmet ms out m = 0)"
  by (auto simp: ready_slots_def)

lemma unmet_snoc:
  assumes "s \<notin> set out"
  shows "unmet ms (out @ [s]) m = unmet ms out m - count_list (module_requires m (map slot_name ms)) s"
proof -
  have "length (filter (\<lambda>r. r \<notin> set out) rs) = length (filter (\<lambda>r. r \<notin> set (out @ [s])) rs) + count_list rs s" for rs
    using assms by (induction rs) auto
  then show ?thesis by (simp add: unmet_def)
qed

lemma map_of_slots:
  "distinct (map slot_name ms) \<Longrightarrow> m \<in> set ms \<Longrightarrow> map_of (map (\<lambda>m. (slot_name m, f m)) ms) (slot_name m) = Some (f m)"
  by (rule map_of_is_SomeI) (auto simp: o_def)

lemma map_of_slotsD:
  "map_of (map (\<lambda>m. (slot_name m, f m)) ms) k = Some n \<Longrightarrow> \<exists>m \<in> set ms. k = slot_name m \<and> n = f m"
  by (drule map_of_SomeD) auto

lemma topo_inv_start:
  assumes "distinct (map slot_name ms)"
  shows "topo_inv ms (map fst (filter (\<lambda>(s, n). n = 0) (in_degrees ms))) (in_degrees ms) []"
proof -
  have u: "unmet ms [] m = length (module_requires m (map slot_name ms))" for m by (simp add: unmet_def)
  have "map fst (filter (\<lambda>(s, n). n = 0) (map (\<lambda>m. (slot_name m, f m)) xs)) = map slot_name (filter (\<lambda>m. f m = 0) xs)"
    for f and xs :: "phase_module list" by (induction xs) auto
  note slots_zero = this
  have q: "map fst (filter (\<lambda>(s, n). n = 0) (in_degrees ms)) = ready_slots ms []"
    unfolding in_degrees_def ready_slots_def slots_zero by (simp add: u)
  have "distinct (ready_slots ms [])" using assms by (simp add: ready_slots_def distinct_map_filter)
  then show ?thesis unfolding topo_inv_def q by (simp add: in_degrees_def u)
qed

lemma topo_inv_step:
  assumes d: "distinct (map slot_name ms)" and inv: "topo_inv ms queue deg out"
    and q: "sort_key f queue = s # rest" and r: "release_dependents (dependents ms s) deg rest = (deg', queue')"
  shows "topo_inv ms queue' deg' (out @ [s])"
proof -
  note I = topo_invD [OF inv]
  have sq: "set queue = insert s (set rest)" "distinct (s # rest)"
    using q I(4) by (metis set_sort list.set(2)) (metis q I(4) distinct_sort)
  obtain ms0 where s: "ms0 \<in> set ms" "s = slot_name ms0" "s \<notin> set out" "unmet ms out ms0 = 0"
    using sq(1) I(5) ready_slot by (metis insertI1)
  have keys: "map fst deg = map slot_name ms" unfolding I(1) by simp
  have mo: "map_of deg (slot_name m) = Some (unmet ms out m)" if "m \<in> set ms" for m
    unfolding I(1) by (rule map_of_slots [OF d that])
  have c: "count_list (dependents ms s) (slot_name m) = count_list (module_requires m (map slot_name ms)) s" if "m \<in> set ms" for m
    by (rule count_dependents [OF d that])
  have "set (dependents ms s) \<subseteq> fst ` set deg" using keys_of [of deg "map (\<lambda>m. (slot_name m, ())) ms"] keys
    by (auto simp: dependents_def o_def image_image)
  moreover have "\<forall>k \<in> set rest. map_of deg k = Some 0"
  proof
    fix k assume "k \<in> set rest"
    then have "k \<in> set (ready_slots ms out)" using sq(1) I(5) by blast
    then show "map_of deg k = Some 0" using mo unfolding ready_slot by force
  qed
  ultimately have R: "deg' = map (\<lambda>(k, n). (k, n - count_list (dependents ms s) k)) deg" "distinct queue'"
      "set queue' = set rest \<union> {k. \<exists>n. map_of deg k = Some n \<and> 0 < n \<and> n \<le> count_list (dependents ms s) k}"
    using release_dependents_result [OF _ _ _ _ r] d keys sq(2) by auto
  have u: "unmet ms (out @ [s]) m = unmet ms out m - count_list (dependents ms s) (slot_name m)" if "m \<in> set ms" for m
    using unmet_snoc [OF s(3), of ms m] c [OF that] by simp
  have "deg' = map (\<lambda>m. (slot_name m, unmet ms (out @ [s]) m)) ms" unfolding R(1) I(1) using u by simp
  moreover have "set queue' = set (ready_slots ms (out @ [s]))"
  proof (rule set_eqI)
    fix k
    show "k \<in> set queue' \<longleftrightarrow> k \<in> set (ready_slots ms (out @ [s]))"
    proof (cases "k \<in> slot_name ` set ms")
      case False
      then have "map_of deg k = None" using keys by (metis list.set_map map_of_eq_None_iff)
      moreover have "k \<notin> set rest" using False sq(1) I(5) ready_slot [of k ms out] by blast
      ultimately show ?thesis using False unfolding R(3) by (auto simp: ready_slot)
    next
      case True
      then obtain m where m: "m \<in> set ms" "k = slot_name m" by blast
      have one: "m' = m" if "m' \<in> set ms" "slot_name m' = slot_name m" for m' using d m(1) that by (auto simp: distinct_map inj_on_def)
      have rest: "k \<in> set rest \<longleftrightarrow> k \<noteq> s \<and> k \<notin> set out \<and> unmet ms out m = 0"
      proof -
        have "k \<in> set (ready_slots ms out) \<longleftrightarrow> k \<notin> set out \<and> unmet ms out m = 0"
          unfolding ready_slot using m one by blast
        moreover have "set (ready_slots ms out) = insert s (set rest)" using sq(1) I(5) by metis
        moreover have "s \<notin> set rest" using sq(2) by simp
        ultimately show ?thesis by (metis insert_iff)
      qed
      have "unmet ms out m = 0" if "k = s" using that one m s by metis
      moreover have "unmet ms out m = 0" if "k \<in> set out" using I(6) [OF m(1)] that m(2) by simp
      moreover have "k \<in> set (ready_slots ms (out @ [s])) \<longleftrightarrow>
          k \<noteq> s \<and> k \<notin> set out \<and> unmet ms out m \<le> count_list (dependents ms s) k"
      proof -
        have "k \<in> set (ready_slots ms (out @ [s])) \<longleftrightarrow> k \<notin> set (out @ [s]) \<and> unmet ms (out @ [s]) m = 0"
          unfolding ready_slot using m one by blast
        then show ?thesis using u [OF m(1)] m(2) by auto
      qed
      moreover have "k \<in> set queue' \<longleftrightarrow>
          k \<in> set rest \<or> 0 < unmet ms out m \<and> unmet ms out m \<le> count_list (dependents ms s) k"
        unfolding R(3) using mo [OF m(1)] m(2) by simp
      ultimately show ?thesis using rest by (cases "unmet ms out m = 0") auto
    qed
  qed
  moreover have "unmet ms (out @ [s]) m = 0" if "m \<in> set ms" "slot_name m \<in> set (out @ [s])" for m
  proof -
    have "unmet ms out m = 0"
    proof (cases "slot_name m = s")
      case True
      then have "m = ms0" using d that(1) s(1,2) by (auto simp: distinct_map inj_on_def)
      then show ?thesis using s(4) by simp
    next
      case False
      then show ?thesis using that I(6) by simp
    qed
    then show ?thesis using u [OF that(1)] by simp
  qed
  ultimately show ?thesis unfolding topo_inv_def using I(2,3) s(1,2,3) R(2) by auto
qed


lemma unmet_zero: "set out = slot_name ` set ms \<Longrightarrow> unmet ms out m = 0"
  by (auto simp: unmet_def module_requires_def filter_empty_conv)

lemma topo_loop_pick:
  assumes all: "\<forall>m \<in> set all. pm_slot m \<noteq> None" "set ms \<subseteq> set all" and d: "distinct (map slot_name ms)"
    and inv: "topo_inv ms queue deg out" and k: "k + length out = length ms"
  shows "topo_loop all ms queue deg out =
    (let res = pick_order all ms k out in (res, map (\<lambda>m. (slot_name m, unmet ms res m)) ms))"
  using inv k
proof (induction k arbitrary: queue deg out)
  case 0
  note I = topo_invD [OF 0(1)]
  have "card (set out) = card (slot_name ` set ms)"
    using 0(2) d I(2) by (metis add_0 distinct_card list.set_map length_map)
  then have "set out = slot_name ` set ms" using I(3) by (simp add: card_subset_eq)
  then have "ready_slots ms out = []" by (auto simp: ready_slots_def filter_empty_conv)
  then have "queue = []" using I(5) by simp
  then show ?case using I(1) by (simp add: topo_loop.simps [of all ms "[]"])
next
  case (Suc k)
  note I = topo_invD [OF Suc(2)]
  have inj: "inj_on (ready_key all) (set queue)"
  proof (rule ready_key_inj [OF all(1)])
    show "set queue \<subseteq> set (map slot_name all)" unfolding I(5) using all(2) by (auto simp: ready_slots_def)
  qed
  have "distinct (ready_slots ms out)" using d by (simp add: ready_slots_def distinct_map_filter)
  then have same: "sort_key (ready_key all) queue = sort_key (ready_key all) (ready_slots ms out)"
    by (rule sort_same [OF I(4) _ I(5) inj])
  show ?case
  proof (cases "sort_key (ready_key all) queue")
    case Nil
    then show ?thesis using same I(1) by (simp add: topo_loop.simps [of all ms queue])
  next
    case (Cons s rest)
    obtain deg' queue' where r: "release_dependents (dependents ms s) deg rest = (deg', queue')" by fastforce
    have "topo_inv ms queue' deg' (out @ [s])" by (rule topo_inv_step [OF d Suc(2) Cons r])
    moreover have "k + length (out @ [s]) = length ms" using Suc(3) by simp
    ultimately show ?thesis
      using Suc(1) [of queue' deg' "out @ [s]"] Cons r same by (simp add: topo_loop.simps [of all ms queue])
  qed
qed

section \<open>What the order is\<close>

text \<open>The modules that stay, and the slots in the reference order.\<close>

definition active_modules :: "phase_module list \<Rightarrow> phase_module list" where
  "active_modules modules = filter (\<lambda>m. slot_name m \<in> set (active_module_slots modules)) modules"

definition picked :: "phase_module list \<Rightarrow> pystr list" where
  "picked modules = pick_order modules (active_modules modules) (length (active_modules modules)) []"

lemma active_distinct: "distinct (map slot_name modules) \<Longrightarrow> distinct (map slot_name (active_modules modules))"
  by (simp add: active_modules_def distinct_map_filter)

lemma topo_sort_cases:
  assumes "check_slots [] modules = Inr ()"
  shows "topo_sort_modules modules =
    (if length (picked modules) \<noteq> length (active_modules modules)
     then Inl (RuntimeError ([27169, 22359, 24490, 29615, 20381, 36182] @ lit '': '' @
       py_join (lit '', '') (sort (map slot_name (filter (\<lambda>m. 0 < unmet (active_modules modules) (picked modules) m)
         (active_modules modules))))))
     else Inr (map (\<lambda>s. the (row_by slot_name s (active_modules modules))) (picked modules)))"
proof -
  let ?ms = "active_modules modules"
  have ok: "\<forall>m \<in> set modules. pm_slot m \<noteq> None" "distinct (map slot_name modules)" using check_slots_ok [OF assms] by auto
  note d = active_distinct [OF ok(2)]
  have loop: "topo_loop modules ?ms (map fst (filter (\<lambda>(s, n). n = 0) (in_degrees ?ms))) (in_degrees ?ms) [] =
      (picked modules, map (\<lambda>m. (slot_name m, unmet ?ms (picked modules) m)) ?ms)"
    using topo_loop_pick [OF ok(1) _ d topo_inv_start [OF d], of "length ?ms"]
    by (simp add: picked_def Let_def active_modules_def)
  have pos: "map fst (filter (\<lambda>(s, n). 0 < n) (map (\<lambda>m. (slot_name m, f m)) xs)) = map slot_name (filter (\<lambda>m. 0 < f m) xs)"
    for f :: "phase_module \<Rightarrow> nat" and xs by (induction xs) auto
  show ?thesis
    using assms loop pos unfolding topo_sort_modules_def Let_def active_modules_def [symmetric] by simp
qed


text \<open>What the reference order keeps, and when it stops.\<close>

definition placed :: "phase_module list \<Rightarrow> pystr list \<Rightarrow> bool" where
  "placed ms out \<longleftrightarrow> distinct out \<and> set out \<subseteq> slot_name ` set ms \<and>
     (\<forall>i < length out. \<forall>m \<in> set ms. slot_name m = out ! i \<longrightarrow>
        set (module_requires m (map slot_name ms)) \<subseteq> set (take i out))"

lemma placedD:
  assumes "placed ms out" "i < length out" "m \<in> set ms" "slot_name m = out ! i"
    "r \<in> set (module_requires m (map slot_name ms))"
  shows "r \<in> set (take i out)"
proof -
  have "set (module_requires m (map slot_name ms)) \<subseteq> set (take i out)" using assms(1-4) by (simp add: placed_def)
  then show ?thesis using assms(5) by (rule subsetD)
qed

lemma placed_snoc:
  assumes "distinct (map slot_name ms)" "placed ms out" "s \<in> set (ready_slots ms out)"
  shows "placed ms (out @ [s])"
proof -
  obtain m0 where m0: "m0 \<in> set ms" "s = slot_name m0" "s \<notin> set out" "unmet ms out m0 = 0"
    using assms(3) by (auto simp: ready_slot)
  have "m = m0" if "m \<in> set ms" "slot_name m = s" for m
    using assms(1) that m0(1,2) by (auto simp: distinct_map inj_on_def)
  moreover have "set (module_requires m0 (map slot_name ms)) \<subseteq> set out"
    using m0(4) by (auto simp: unmet_def filter_empty_conv)
  ultimately show ?thesis
    using assms(2) m0(1,2,3) unfolding placed_def by (auto simp: nth_append less_Suc_eq)
qed

lemma pick_order_placed:
  assumes "distinct (map slot_name ms)" "placed ms out"
  shows "placed ms (pick_order all ms k out)"
  using assms(2)
proof (induction k arbitrary: out)
  case (Suc k)
  show ?case
  proof (cases "sort_key (ready_key all) (ready_slots ms out)")
    case Nil
    then show ?thesis using Suc(2) by simp
  next
    case (Cons s rest)
    then have "s \<in> set (ready_slots ms out)" by (metis list.set_intros(1) set_sort)
    then show ?thesis using Suc(1) placed_snoc [OF assms(1) Suc(2)] Cons by simp
  qed
qed simp

lemma pick_order_stuck:
  "length (pick_order all ms k out) \<noteq> k + length out \<Longrightarrow> ready_slots ms (pick_order all ms k out) = []"
proof (induction k arbitrary: out)
  case (Suc k)
  show ?case
  proof (cases "sort_key (ready_key all) (ready_slots ms out)")
    case Nil
    then have "ready_slots ms out = []" by (metis length_0_conv length_sort)
    then show ?thesis using Nil by simp
  next
    case (Cons s rest)
    then show ?thesis using Suc by simp
  qed
qed simp

lemma picked_placed:
  assumes "check_slots [] modules = Inr ()"
  shows "placed (active_modules modules) (picked modules)"
proof -
  have "distinct (map slot_name modules)" using check_slots_ok [OF assms] by simp
  then show ?thesis unfolding picked_def by (intro pick_order_placed active_distinct) (simp_all add: placed_def)
qed

text \<open>A module depends on the slots it requires, of those that stay.\<close>

definition requires_rel :: "phase_module list \<Rightarrow> (pystr \<times> pystr) set" where
  "requires_rel ms = {(r, slot_name m) | r m. m \<in> set ms \<and> r \<in> set (module_requires m (map slot_name ms))}"

lemma requires_finite: "finite (requires_rel ms)"
proof -
  have "requires_rel ms \<subseteq> (slot_name ` set ms) \<times> (slot_name ` set ms)"
    by (auto simp: requires_rel_def module_requires_def)
  then show ?thesis by (rule finite_subset) simp
qed

lemma place_of: "distinct xs \<Longrightarrow> j < length xs \<Longrightarrow> length (takeWhile (\<lambda>x. x \<noteq> xs ! j) xs) = j"
proof (induction xs arbitrary: j)
  case (Cons a xs)
  then show ?case by (cases j) auto
qed simp

lemma placed_all_acyclic:
  assumes "placed ms out" "length out = length ms" "distinct (map slot_name ms)"
  shows "acyclic (requires_rel ms)"
proof (rule acyclic_subset)
  let ?pos = "\<lambda>s. length (takeWhile (\<lambda>x. x \<noteq> s) out)"
  show "acyclic (inv_image {(i, j). i < (j :: nat)} ?pos)" by (intro wf_acyclic wf_inv_image wf_less)
  have all: "set out = slot_name ` set ms"
  proof (rule card_subset_eq)
    show "card (set out) = card (slot_name ` set ms)"
      using assms distinct_card [of out] distinct_card [of "map slot_name ms"] by (simp add: placed_def)
  qed (use assms(1) in \<open>simp_all add: placed_def\<close>)
  show "requires_rel ms \<subseteq> inv_image {(i, j). i < j} ?pos"
  proof
    fix x assume "x \<in> requires_rel ms"
    then obtain r m where x: "x = (r, slot_name m)" "m \<in> set ms" "r \<in> set (module_requires m (map slot_name ms))"
      by (auto simp: requires_rel_def)
    obtain i where i: "i < length out" "out ! i = slot_name m" using all x(2) by (metis image_eqI in_set_conv_nth)
    have d: "distinct out" using assms(1) by (simp add: placed_def)
    have "r \<in> set (take i out)" using i x(2,3) by (intro placedD [OF assms(1)]) simp_all
    then obtain j where "j < i" "out ! j = r" using i(1) by (auto simp: in_set_conv_nth)
    have "?pos r = j" using place_of [OF d, of j] \<open>j < i\<close> i(1) unfolding \<open>out ! j = r\<close> by linarith
    moreover have "?pos (slot_name m) = i" using place_of [OF d i(1)] unfolding i(2) .
    ultimately show "x \<in> inv_image {(i, j). i < j} ?pos" using x(1) \<open>j < i\<close> by simp
  qed
qed

lemma stuck_cyclic:
  assumes "ready_slots ms out = []" "\<not> slot_name ` set ms \<subseteq> set out"
  shows "\<not> acyclic (requires_rel ms)"
proof
  assume "acyclic (requires_rel ms)"
  then have wf: "wf (requires_rel ms)" by (rule finite_acyclic_wf [OF requires_finite])
  obtain s where "s \<in> slot_name ` set ms - set out" using assms(2) by blast
  then obtain z where z: "z \<in> slot_name ` set ms - set out"
      "\<And>y. (y, z) \<in> requires_rel ms \<Longrightarrow> y \<notin> slot_name ` set ms - set out"
    using wfE_min [OF wf] by metis
  obtain m where m: "m \<in> set ms" "z = slot_name m" using z(1) by blast
  have "unmet ms out m \<noteq> 0" using assms(1) m z(1) ready_slot [of z ms out] by auto
  then obtain r where r: "r \<in> set (module_requires m (map slot_name ms))" "r \<notin> set out"
    by (auto simp: unmet_def filter_empty_conv)
  then have "(r, z) \<in> requires_rel ms" "r \<in> slot_name ` set ms" using m by (auto simp: requires_rel_def module_requires_def)
  then show False using z(2) r(2) by blast
qed

lemma picked_complete:
  assumes "check_slots [] modules = Inr ()"
  shows "length (picked modules) = length (active_modules modules) \<longleftrightarrow> acyclic (requires_rel (active_modules modules))"
proof -
  let ?ms = "active_modules modules"
  have d: "distinct (map slot_name ?ms)" using check_slots_ok [OF assms] by (simp add: active_distinct)
  note p = picked_placed [OF assms]
  have "\<not> acyclic (requires_rel ?ms)" if "length (picked modules) \<noteq> length ?ms"
  proof (rule stuck_cyclic [of _ "picked modules"])
    show "ready_slots ?ms (picked modules) = []"
      using that unfolding picked_def by (intro pick_order_stuck) simp
    have card: "card (slot_name ` set ?ms) = length ?ms" using d by (metis distinct_card length_map list.set_map)
    show "\<not> slot_name ` set ?ms \<subseteq> set (picked modules)"
      using that p card by (metis distinct_card placed_def subset_antisym)
  qed
  then show ?thesis using placed_all_acyclic [OF p _ d] by blast
qed


lemma module_of: "distinct (map slot_name ms) \<Longrightarrow> m \<in> set ms \<Longrightarrow> the (row_by slot_name (slot_name m) ms) = m"
  by (induction ms) (auto simp: row_by_def)

section \<open>The theorems\<close>

text \<open>C20: the modules that stay after the cascade of disabling are the largest set of registered slots
  in which every plugin module has the slots it requires; built-in modules are never judged by their
  requirements.\<close>

theorem cascade_keeps_largest_closed:
  "set (active_module_slots modules) = \<Union> {A. A \<subseteq> set (map slot_name modules) \<and> closed_slots modules A}"
proof
  have "set (active_module_slots modules) \<subseteq> set (map slot_name modules)"
    unfolding active_module_slots_def by (rule active_loop_subset)
  moreover have "closed_slots modules (set (active_module_slots modules))"
    unfolding active_module_slots_def by (rule active_loop_closed)
  ultimately show "set (active_module_slots modules) \<subseteq> \<Union> {A. A \<subseteq> set (map slot_name modules) \<and> closed_slots modules A}"
    by blast
  show "\<Union> {A. A \<subseteq> set (map slot_name modules) \<and> closed_slots modules A} \<subseteq> set (active_module_slots modules)"
    unfolding active_module_slots_def by (rule Union_least) (blast intro: active_loop_greatest [THEN subsetD])
qed

text \<open>C19: the queue and the degrees of the sort compute the order of the reference: always the first
  module that is ready, a plugin module before a built-in one and then in the order of registration,
  and otherwise the error that names every module with an unmet requirement.\<close>

theorem phase_order_is_reference:
  assumes "check_slots [] modules = Inr ()"
  shows "topo_sort_modules modules =
    (if length (picked modules) \<noteq> length (active_modules modules)
     then Inl (RuntimeError ([27169, 22359, 24490, 29615, 20381, 36182] @ lit '': '' @
       py_join (lit '', '') (sort (map slot_name (filter (\<lambda>m. 0 < unmet (active_modules modules) (picked modules) m)
         (active_modules modules))))))
     else Inr (map (\<lambda>s. the (row_by slot_name s (active_modules modules))) (picked modules)))"
  by (rule topo_sort_cases [OF assms])

text \<open>when the sort returns, its result is the modules that stay, each once, and every module
  comes after all the modules it requires.\<close>

theorem phase_order_sound:
  assumes "topo_sort_modules modules = Inr order"
  shows "mset order = mset (active_modules modules) \<and>
    (\<forall>i < length order. \<forall>r \<in> set (pm_requires (order ! i)) \<inter> set (active_module_slots modules).
      \<exists>j < i. slot_name (order ! j) = r)"
proof -
  let ?ms = "active_modules modules"
  have c: "check_slots [] modules = Inr ()"
    using assms by (cases "check_slots [] modules") (simp_all add: topo_sort_modules_def)
  have d: "distinct (map slot_name ?ms)" using check_slots_ok [OF c] by (simp add: active_distinct)
  note p = picked_placed [OF c]
  have len: "length (picked modules) = length ?ms" and order: "order = map (\<lambda>s. the (row_by slot_name s ?ms)) (picked modules)"
    using assms unfolding topo_sort_cases [OF c] by (simp_all split: if_splits)
  have all: "set (picked modules) = set (map slot_name ?ms)"
    using p len d distinct_card [of "picked modules"] distinct_card [of "map slot_name ?ms"]
    by (simp add: placed_def card_subset_eq)
  have names: "map slot_name order = picked modules"
    unfolding order map_map by (rule map_idI) (use all in \<open>auto simp: module_of [OF d]\<close>)
  have undo: "the (row_by slot_name (slot_name m) ?ms) = m" if "m \<in> set ?ms" for m by (rule module_of [OF d that])
  have set: "set order = set ?ms" unfolding order set_map all image_image using undo by simp
  have "distinct (map slot_name order)" using p by (simp add: names placed_def)
  then have "distinct order" by (simp add: distinct_map)
  then have mset: "mset order = mset ?ms" using set d by (simp add: distinct_map flip: set_eq_iff_mset_eq_distinct)
  have "\<exists>j < i. slot_name (order ! j) = r"
    if i: "i < length order" and r: "r \<in> set (pm_requires (order ! i))" "r \<in> set (active_module_slots modules)" for i r
  proof -
    have "r \<in> slot_name ` set modules"
      using r(2) active_loop_subset [of modules "map slot_name modules"] unfolding active_module_slots_def by auto
    then have "r \<in> set (module_requires (order ! i) (map slot_name ?ms))"
      using r by (auto simp: module_requires_def active_modules_def)
    moreover have "order ! i \<in> set ?ms" using i set nth_mem by blast
    moreover have "slot_name (order ! i) = picked modules ! i" using i names by (metis nth_map)
    moreover have "i < length (picked modules)" using i by (simp flip: names)
    ultimately have "r \<in> set (take i (picked modules))" by (intro placedD [OF p])
    then show ?thesis using i by (auto simp: in_set_conv_nth simp flip: names)
  qed
  then show ?thesis using mset by blast
qed

text \<open>with unique slots the sort fails exactly when the modules that stay require each other in a
  cycle: no order is refused that could be given, and none is given that could not.\<close>

theorem phase_order_fails_on_cycle:
  assumes "check_slots [] modules = Inr ()"
  shows "(\<exists>e. topo_sort_modules modules = Inl e) \<longleftrightarrow> \<not> acyclic (requires_rel (active_modules modules))"
  using picked_complete [OF assms] unfolding topo_sort_cases [OF assms] by simp

text \<open>A phase of a module, the module it requires, and one whose requirement is not there.\<close>

definition wit_phase :: "phase_module list" where
  "wit_phase =
     [\<lparr>pm_slot = Some (lit ''a.x''), pm_requires = [lit ''b.y''], pm_type = lit ''A''\<rparr>,
      \<lparr>pm_slot = Some (lit ''b.y''), pm_requires = [], pm_type = lit ''B''\<rparr>,
      \<lparr>pm_slot = Some (lit ''c.z''), pm_requires = [lit ''d.w''], pm_type = lit ''C''\<rparr>]"

lemmas phase_eval = wit_phase_def lit_def active_modules_def active_module_slots_def active_loop.simps disabled_slots_def
  missing_module_requires_def module_requires_def is_builtin_slot_def builtin_prefixes_def is_module_slot_def

lemma wit_phase_checked: "check_slots [] wit_phase = Inr ()"
  by (simp add: phase_eval)

lemma wit_phase_active: "active_modules wit_phase = take 2 wit_phase"
  by (simp add: phase_eval)

lemma wit_phase_picked: "picked wit_phase = [lit ''b.y'', lit ''a.x'']"
  unfolding picked_def wit_phase_active
  by (simp add: phase_eval eval_nat_numeral ready_slots_def unmet_def ready_key_def)

theorem phase_order_is_reference_witness: "topo_sort_modules wit_phase = Inr [wit_phase ! 1, wit_phase ! 0]"
  unfolding phase_order_is_reference [OF wit_phase_checked] wit_phase_picked wit_phase_active
  by (simp add: wit_phase_def row_by_def)

lemma wit_phase_sorted: "topo_sort_modules wit_phase = Inr [wit_phase ! 1, wit_phase ! 0]"
  unfolding topo_sort_cases [OF wit_phase_checked] wit_phase_picked wit_phase_active
  by (simp add: wit_phase_def row_by_def)

theorem phase_order_sound_witness:
  "mset [wit_phase ! 1, wit_phase ! 0] = mset (active_modules wit_phase)"
  using phase_order_sound [OF wit_phase_sorted] by blast

theorem phase_order_fails_on_cycle_witness: "acyclic (requires_rel (active_modules wit_phase))"
  using phase_order_fails_on_cycle [OF wit_phase_checked] wit_phase_sorted by simp

end
