(* ===== verification/PyDyn.thy ===== *)
theory PyDyn
  imports PyJson
begin

text \<open>
  Python's operations on values whose type is only known at run time, for the values \<open>json\<close> has:
  truth, \<open>str\<close>, \<open>list\<close>, \<open>get\<close> and \<open>json.dumps\<close> with its default separators.  The text of
  a container under \<open>str\<close> is the parameter \<open>repr\<close>.
\<close>

primrec truthy :: "json \<Rightarrow> bool" where
  "truthy JNull = False"
| "truthy (JBool b) = b"
| "truthy (JInt i) = (i \<noteq> 0)"
| "truthy (JStr s) = (s \<noteq> [])"
| "truthy (JArr xs) = (xs \<noteq> [])"
| "truthy (JObj d) = (d \<noteq> [])"

fun py_str :: "(json \<Rightarrow> pystr) \<Rightarrow> json \<Rightarrow> pystr" where
  "py_str repr JNull = lit ''None''"
| "py_str repr (JBool b) = (if b then lit ''True'' else lit ''False'')"
| "py_str repr (JInt i) = int_text i"
| "py_str repr (JStr s) = s"
| "py_str repr v = repr v"

text \<open>\<open>d.get(k)\<close>, and \<open>d.get(k) or w\<close>.\<close>

abbreviation get :: "pydict \<Rightarrow> string \<Rightarrow> json option" where
  "get d k \<equiv> map_of d (lit k)"

definition get_or :: "pydict \<Rightarrow> string \<Rightarrow> json \<Rightarrow> json" where
  "get_or d k w = (case get d k of None \<Rightarrow> w | Some v \<Rightarrow> if truthy v then v else w)"

text \<open>\<open>d.get(k, w)\<close>, and what a missing key is worth as \<open>None\<close>.\<close>

definition get_default :: "pydict \<Rightarrow> string \<Rightarrow> json \<Rightarrow> json" where
  "get_default d k w = (case get d k of None \<Rightarrow> w | Some v \<Rightarrow> v)"

definition get_text :: "(json \<Rightarrow> pystr) \<Rightarrow> pydict \<Rightarrow> string \<Rightarrow> pystr" where
  "get_text repr d k = py_str repr (get_or d k (JStr []))"

text \<open>\<open>list(v)\<close>: the members of a list, the characters of a text, the keys of a dictionary.\<close>

fun py_list :: "json \<Rightarrow> json list res" where
  "py_list (JArr xs) = Inr xs"
| "py_list (JStr s) = Inr (map (\<lambda>c. JStr [c]) s)"
| "py_list (JObj d) = Inr (map (JStr \<circ> fst) d)"
| "py_list v = Inl (TypeError (lit ''object is not iterable''))"

text \<open>The value of \<open>v.get\<close> on what is not a dictionary.\<close>

fun as_dict :: "json \<Rightarrow> pydict res" where
  "as_dict (JObj d) = Inr d"
| "as_dict v = Inl (AttributeError (lit ''get''))"

text \<open>\<open>d[k]\<close>.\<close>

definition item :: "pydict \<Rightarrow> string \<Rightarrow> json res" where
  "item d k = (case get d k of None \<Rightarrow> Inl (KeyError (lit k)) | Some v \<Rightarrow> Inr v)"

text \<open>Membership of a literal set of texts: what cannot be hashed raises.\<close>

fun in_texts :: "json \<Rightarrow> string list \<Rightarrow> bool res" where
  "in_texts (JArr xs) ts = Inl (TypeError (lit ''unhashable type''))"
| "in_texts (JObj d) ts = Inl (TypeError (lit ''unhashable type''))"
| "in_texts (JStr s) ts = Inr (s \<in> set (map lit ts))"
| "in_texts v ts = Inr False"

fun res_map :: "('a \<Rightarrow> 'b res) \<Rightarrow> 'a list \<Rightarrow> 'b list res" where
  "res_map f [] = Inr []"
| "res_map f (x # xs) =
     (case f x of Inl e \<Rightarrow> Inl e
      | Inr y \<Rightarrow> (case res_map f xs of Inl e \<Rightarrow> Inl e | Inr ys \<Rightarrow> Inr (y # ys)))"

text \<open>\<open>json.dumps (v, ensure_ascii=False)\<close>.\<close>

primrec json_dumps :: "json \<Rightarrow> pystr" where
  "json_dumps JNull = lit ''null''"
| "json_dumps (JBool b) = (if b then lit ''true'' else lit ''false'')"
| "json_dumps (JInt i) = int_text i"
| "json_dumps (JStr s) = json_string s"
| "json_dumps (JArr xs) = [91] @ py_join (lit '', '') (map json_dumps xs) @ [93]"
| "json_dumps (JObj d) = [123] @ py_join (lit '', '')
     (map (\<lambda>(k, t). json_string k @ lit '': '' @ t) (map (map_prod id json_dumps) d)) @ [125]"

lemma res_map_ok: "(\<And>x. x \<in> set xs \<Longrightarrow> f x = Inr (g x)) \<Longrightarrow> res_map f xs = Inr (map g xs)"
  by (induction xs) auto

lemma res_map_length: "res_map f xs = Inr ys \<Longrightarrow> length ys = length xs"
  by (induction xs arbitrary: ys) (auto split: sum.splits)

lemma res_map_nth: "res_map f xs = Inr ys \<Longrightarrow> i < length xs \<Longrightarrow> f (xs ! i) = Inr (ys ! i)"
proof (induction xs arbitrary: ys i)
  case (Cons x xs)
  then show ?case by (cases i) (auto split: sum.splits)
qed simp

end
