(* ===== verification/QueryCompaction.thy ===== *)
theory QueryCompaction
  imports PyDyn PySha256
begin

text \<open>
  Compaction of the tool steps of one query: \<open>src/agent/model_runtime/query_compaction.py\<close>, and
  \<open>src/agent/model_runtime/execution_history.py\<close>, which finds the shell executions that are still
  running.  Messages are the dictionaries of the chat protocol.  Parameters are \<open>loads\<close>, what
  \<open>json.loads\<close> decodes (\<open>None\<close> for \<open>JSONDecodeError\<close>), \<open>repr\<close>, and the two callbacks of the
  compactor: the estimate of a list of messages and the summary, which runs on a state \<open>'s\<close>.
\<close>

section \<open>Running shell executions\<close>

definition json_object :: "(pystr \<Rightarrow> json option) \<Rightarrow> json option \<Rightarrow> pydict option" where
  "json_object loads v =
     (case v of Some (JObj d) \<Rightarrow> Some d
      | Some (JStr s) \<Rightarrow> (case loads s of Some (JObj d) \<Rightarrow> Some d | _ \<Rightarrow> None)
      | _ \<Rightarrow> None)"

text \<open>\<open>value.partition("\n")\<close>: whether there is a separator, and what follows it.\<close>

definition tool_result_object :: "(pystr \<Rightarrow> json option) \<Rightarrow> json option \<Rightarrow> pydict option" where
  "tool_result_object loads v =
     (case v of
        Some (JStr s) \<Rightarrow>
          if prefix (lit ''<tool_execution '') s
          then (if 10 \<notin> set s \<or> takeWhile (\<lambda>c. c \<noteq> 10) s \<noteq> lit ''<tool_execution transport_status='' @ [34] @ lit ''success'' @ [34] @ lit '' />'' then None
                else json_object loads (Some (JStr (tl (dropWhile (\<lambda>c. c \<noteq> 10) s)))))
          else json_object loads (Some (JStr s))
      | _ \<Rightarrow> None)"

fun execution_id :: "json option \<Rightarrow> int option" where
  "execution_id (Some (JInt i)) = (if i \<le> 0 then None else Some i)"
| "execution_id v = None"

text \<open>The running executions: identifier and the call that created it.\<close>

type_synonym active_execs = "(int \<times> pystr) list"

definition drop_exec :: "int \<Rightarrow> active_execs \<Rightarrow> active_execs" where
  "drop_exec i active = filter (\<lambda>(j, c). j \<noteq> i) active"

definition set_exec :: "int \<Rightarrow> pystr \<Rightarrow> active_execs \<Rightarrow> active_execs" where
  "set_exec i c active =
     (if i \<in> fst ` set active then map (\<lambda>(j, b). (j, if j = i then c else b)) active else active @ [(i, c)])"

definition update_active ::
  "pystr \<Rightarrow> json \<Rightarrow> pydict option \<Rightarrow> pydict option \<Rightarrow> active_execs \<Rightarrow> active_execs res" where
  "update_active call_id name arguments result active =
     (case result of
        None \<Rightarrow> Inr active
      | Some r \<Rightarrow>
          (let status = get_default r ''process_status'' JNull in
           case in_texts name [''shell'', ''bash''] of
             Inl e \<Rightarrow> Inl e
           | Inr shell \<Rightarrow>
               if shell \<and> status = JStr (lit ''running'')
               then Inr (case execution_id (get r ''execution_id'') of None \<Rightarrow> active | Some i \<Rightarrow> set_exec i call_id active)
               else
                 (case in_texts name [''write_stdin'', ''task_output'', ''task_stop''] of
                    Inl e \<Rightarrow> Inl e
                  | Inr False \<Rightarrow> Inr active
                  | Inr True \<Rightarrow>
                      (case arguments of
                         None \<Rightarrow> Inr active
                       | Some args \<Rightarrow>
                           (case execution_id (case get args ''execution_id'' of None \<Rightarrow> get args ''task_id'' | v \<Rightarrow> v) of
                              None \<Rightarrow> Inr active
                            | Some i \<Rightarrow>
                                if status = JStr (lit ''running'')
                                then Inr (if i \<in> fst ` set active then active else active @ [(i, call_id)])
                                else
                                  (case in_texts status [''succeeded'', ''failed'', ''timed_out'', ''stopped''] of
                                     Inl e \<Rightarrow> Inl e
                                   | Inr ended \<Rightarrow>
                                       Inr (if ended \<or> name = JStr (lit ''task_stop'') \<and>
                                              get r ''status'' = Some (JStr (lit ''stopped''))
                                            then drop_exec i active else active)))))))"

text \<open>The result a tool call got; a later one replaces an earlier one.\<close>

fun call_results :: "(pystr \<Rightarrow> json option) \<Rightarrow> pydict list \<Rightarrow> pystr \<Rightarrow> pydict option" where
  "call_results loads [] = (\<lambda>_. None)"
| "call_results loads (m # ms) =
     (\<lambda>c. case call_results loads ms c of
        Some r \<Rightarrow> Some r
      | None \<Rightarrow> if get m ''role'' = Some (JStr (lit ''tool'')) \<and> get m ''tool_call_id'' = Some (JStr c)
                then tool_result_object loads (get m ''content'') else None)"

text \<open>The calls of an assistant message that are dictionaries with a function.\<close>

fun message_calls :: "pydict \<Rightarrow> json list" where
  "message_calls m =
     (case (get m ''role'', get m ''tool_calls'') of
        (Some (JStr r), Some (JArr cs)) \<Rightarrow> if r = lit ''assistant'' then cs else []
      | _ \<Rightarrow> [])"

declare message_calls.simps [simp del]

definition track_call ::
  "(pystr \<Rightarrow> json option) \<Rightarrow> (json \<Rightarrow> pystr) \<Rightarrow> (pystr \<Rightarrow> pydict option) \<Rightarrow> json \<Rightarrow> active_execs \<Rightarrow> active_execs res" where
  "track_call loads repr results raw active =
     (case raw of
        JObj call \<Rightarrow>
          (let call_id = get_text repr call ''id'' in
           case get call ''function'' of
             Some (JObj f) \<Rightarrow>
               if call_id = [] then Inr active
               else update_active call_id (get_default f ''name'' JNull) (json_object loads (get f ''arguments''))
                      (results call_id) active
           | _ \<Rightarrow> Inr active)
      | _ \<Rightarrow> Inr active)"

fun track_calls ::
  "(pystr \<Rightarrow> json option) \<Rightarrow> (json \<Rightarrow> pystr) \<Rightarrow> (pystr \<Rightarrow> pydict option) \<Rightarrow> json list \<Rightarrow> active_execs \<Rightarrow> active_execs res" where
  "track_calls loads repr results [] active = Inr active"
| "track_calls loads repr results (c # cs) active =
     (case track_call loads repr results c active of
        Inl e \<Rightarrow> Inl e
      | Inr active' \<Rightarrow> track_calls loads repr results cs active')"

definition active_shell_execution_origins ::
  "(pystr \<Rightarrow> json option) \<Rightarrow> (json \<Rightarrow> pystr) \<Rightarrow> pydict list \<Rightarrow> active_execs res" where
  "active_shell_execution_origins loads repr ms =
     track_calls loads repr (call_results loads ms) (concat (map message_calls ms)) []"


section \<open>The persisted form\<close>

datatype compaction_trigger = SoftLimit | ContextOverflow

fun trigger_text :: "compaction_trigger \<Rightarrow> pystr" where
  "trigger_text SoftLimit = lit ''soft_limit''"
| "trigger_text ContextOverflow = lit ''context_overflow''"

record react_compaction =
  rc_summary :: pystr
  rc_groups :: int
  rc_generation :: int
  rc_trigger :: compaction_trigger
  rc_window :: int
  rc_soft :: int
  rc_before :: int
  rc_after :: int

definition to_payload :: "react_compaction \<Rightarrow> pydict" where
  "to_payload c =
     [(lit ''schema_version'', JInt 1), (lit ''summary'', JStr (rc_summary c)),
      (lit ''compacted_tool_groups'', JInt (rc_groups c)), (lit ''generation'', JInt (rc_generation c)),
      (lit ''trigger'', JStr (trigger_text (rc_trigger c))), (lit ''context_window'', JInt (rc_window c)),
      (lit ''soft_limit_tokens'', JInt (rc_soft c)), (lit ''estimated_tokens_before'', JInt (rc_before c)),
      (lit ''estimated_tokens_after'', JInt (rc_after c))]"

definition require_int :: "pydict \<Rightarrow> string \<Rightarrow> pystr \<Rightarrow> int res" where
  "require_int raw field source =
     (case get raw field of
        Some (JInt i) \<Rightarrow> Inr i
      | _ \<Rightarrow> Inl (ValueError (lit ''react_compaction.'' @ lit field @ lit '' '' @ [24517, 39035, 26159, 25972, 25968] @ lit '': '' @ source)))"

text \<open>\<open>True\<close> equals \<open>1\<close>; a trigger that cannot be hashed raises \<open>TypeError\<close>.\<close>

definition parse_react_compaction :: "json \<Rightarrow> pystr \<Rightarrow> react_compaction res" where
  "parse_react_compaction v source =
     (case v of
        JObj raw \<Rightarrow>
          if get raw ''schema_version'' \<noteq> Some (JInt 1) \<and> get raw ''schema_version'' \<noteq> Some (JBool True)
          then Inl (ValueError (lit ''react_compaction schema_version '' @ [26080, 25928] @ lit '': '' @ source))
          else
            (case get raw ''summary'' of
               Some (JStr summary) \<Rightarrow>
                 if strip summary = [] then Inl (ValueError (lit ''react_compaction.summary '' @ [24517, 39035, 26159, 38750, 31354, 23383, 31526, 20018] @ lit '': '' @ source))
                 else
                   (case utf8_encode summary of
                      None \<Rightarrow> Inl (ValueError (lit ''surrogates not allowed''))
                    | Some bytes \<Rightarrow>
                        if 524288 < length bytes then Inl (ValueError (lit ''react_compaction.summary '' @ [36229, 36807] @ lit '' 512 KiB: '' @ source))
                        else
                          (case in_texts (get_default raw ''trigger'' JNull) [''soft_limit'', ''context_overflow''] of
                             Inl e \<Rightarrow> Inl e
                           | Inr False \<Rightarrow> Inl (ValueError (lit ''react_compaction.trigger '' @ [26080, 25928] @ lit '': '' @ source))
                           | Inr True \<Rightarrow>
                               (case require_int raw ''compacted_tool_groups'' source of Inl e \<Rightarrow> Inl e | Inr groups \<Rightarrow>
                               (case require_int raw ''generation'' source of Inl e \<Rightarrow> Inl e | Inr generation \<Rightarrow>
                               (case require_int raw ''context_window'' source of Inl e \<Rightarrow> Inl e | Inr window \<Rightarrow>
                               (case require_int raw ''soft_limit_tokens'' source of Inl e \<Rightarrow> Inl e | Inr soft \<Rightarrow>
                               (case require_int raw ''estimated_tokens_before'' source of Inl e \<Rightarrow> Inl e | Inr before \<Rightarrow>
                               (case require_int raw ''estimated_tokens_after'' source of Inl e \<Rightarrow> Inl e | Inr after \<Rightarrow>
                                  if groups \<le> 0 \<or> generation \<le> 0
                                  then Inl (ValueError (lit ''react_compaction '' @ [35745, 25968, 24517, 39035, 22823, 20110] @ lit '' 0: '' @ source))
                                  else if window \<le> 0 \<or> soft \<le> 0 \<or> window \<le> soft
                                  then Inl (ValueError (lit ''react_compaction '' @ [27169, 22411, 39044, 31639, 26080, 25928] @ lit '': '' @ source))
                                  else if before < 0 \<or> after < 0
                                  then Inl (ValueError (lit ''react_compaction token '' @ [20272, 31639, 19981, 33021, 20026, 36127, 25968] @ lit '': '' @ source))
                                  else Inr \<lparr>rc_summary = strip summary, rc_groups = groups, rc_generation = generation,
                                    rc_trigger = (if get raw ''trigger'' = Some (JStr (lit ''soft_limit'')) then SoftLimit
                                      else ContextOverflow),
                                    rc_window = window, rc_soft = soft, rc_before = before, rc_after = after\<rparr>))))))))
             | _ \<Rightarrow> Inl (ValueError (lit ''react_compaction.summary '' @ [24517, 39035, 26159, 38750, 31354, 23383, 31526, 20018] @ lit '': '' @ source)))
      | _ \<Rightarrow> Inl (ValueError (lit ''react_compaction '' @ [24517, 39035, 26159] @ lit '' JSON object: '' @ source)))"

text \<open>\<open>None\<close>: the scope cannot be encoded.\<close>

definition compaction_call_id :: "pystr \<Rightarrow> int \<Rightarrow> pystr option" where
  "compaction_call_id scope generation =
     map_option (\<lambda>d. lit ''cmp_'' @ take 24 d) (sha256_text (scope @ [0] @ int_text generation))"

definition build_compaction_messages :: "react_compaction \<Rightarrow> pystr \<Rightarrow> pydict list" where
  "build_compaction_messages c call_id =
     [[(lit ''role'', JStr (lit ''assistant'')), (lit ''content'', JNull),
       (lit ''tool_calls'', JArr [JObj [(lit ''id'', JStr call_id), (lit ''type'', JStr (lit ''function'')),
          (lit ''function'', JObj [(lit ''name'', JStr (lit ''context_compact'')),
             (lit ''arguments'', JStr (json_text (JObj
                [(lit ''scope'', JStr (lit ''current_user_query'')),
                 (lit ''compacted_tool_groups'', JInt (rc_groups c)), (lit ''generation'', JInt (rc_generation c))])))])]])],
      [(lit ''role'', JStr (lit ''tool'')), (lit ''tool_call_id'', JStr call_id),
       (lit ''content'', JStr (rc_summary c))]]"

definition unencodable :: py_error where
  "unencodable = ValueError (lit ''surrogates not allowed'')"

definition build_replay_compaction_messages :: "react_compaction \<Rightarrow> pystr \<Rightarrow> pydict list res" where
  "build_replay_compaction_messages c message_id =
     (case compaction_call_id (lit ''persisted:'' @ message_id) (rc_generation c) of
        None \<Rightarrow> Inl unencodable
      | Some i \<Rightarrow> Inr (build_compaction_messages c i))"

section \<open>The compactor\<close>

text \<open>What can leave the compactor and the reasoner as an exception.\<close>

datatype run_error = ContextLengthError | ContentSafetyError | ContextCompactionError pystr | ToolAborted pystr | WorkerGone
  | PyError py_error

record compactor =
  qc_base :: "pydict list"
  qc_window :: int
  qc_hard :: int
  qc_soft :: int
  qc_scope :: pystr
  qc_batches :: "pydict list list"
  qc_compaction :: "react_compaction option"

definition new_compactor :: "pydict list \<Rightarrow> int \<Rightarrow> int \<Rightarrow> int option \<Rightarrow> pystr \<Rightarrow> compactor res" where
  "new_compactor base window soft hard_limit scope =
     (let hard = (case hard_limit of None \<Rightarrow> window | Some h \<Rightarrow> h)
      in if window < 0 \<or> hard < 0 \<or> window < hard
         then Inl (ValueError (lit ''hard_limit_tokens must be within [0, context_window]''))
         else Inr \<lparr>qc_base = base, qc_window = window, qc_hard = hard, qc_soft = soft, qc_scope = scope,
                   qc_batches = [], qc_compaction = None\<rparr>)"

definition tool_call_message :: "pydict \<Rightarrow> bool" where
  "tool_call_message m \<longleftrightarrow> get m ''role'' = Some (JStr (lit ''assistant'')) \<and>
     (case get m ''tool_calls'' of None \<Rightarrow> False | Some v \<Rightarrow> truthy v)"

definition record_completed_batch :: "pydict list \<Rightarrow> compactor \<Rightarrow> compactor res" where
  "record_completed_batch batch c =
     (if \<not> list_ex tool_call_message batch
      then Inl (ValueError ([23436, 25972, 24037, 20855, 25209, 27425, 24517, 39035, 21253, 21547] @ lit '' assistant tool_calls''))
      else Inr (c\<lparr>qc_batches := qc_batches c @ [batch]\<rparr>))"

definition persistence_payload :: "compactor \<Rightarrow> pydict option" where
  "persistence_payload c = map_option to_payload (qc_compaction c)"

text \<open>How many of the newest batches fit the budget; the first one always counts.\<close>

fun keep_batches :: "(pydict list \<Rightarrow> int) \<Rightarrow> int \<Rightarrow> int \<Rightarrow> nat \<Rightarrow> pydict list list \<Rightarrow> nat" where
  "keep_batches estimate budget kept n [] = n"
| "keep_batches estimate budget kept n (b # bs) =
     (if n \<noteq> 0 \<and> budget < kept + estimate b then n
      else keep_batches estimate budget (kept + estimate b) (Suc n) bs)"

text \<open>The batch in which each call was made; a later one replaces an earlier one.\<close>

fun call_batch :: "(json \<Rightarrow> pystr) \<Rightarrow> nat \<Rightarrow> pydict list list \<Rightarrow> pystr \<Rightarrow> nat option" where
  "call_batch repr i [] = (\<lambda>_. None)"
| "call_batch repr i (b # bs) =
     (\<lambda>c. case call_batch repr (Suc i) bs c of
        Some j \<Rightarrow> Some j
      | None \<Rightarrow>
          if \<exists>raw \<in> set (concat (map message_calls b)). (case raw of
               JObj call \<Rightarrow> (case get call ''id'' of None \<Rightarrow> False | Some v \<Rightarrow> truthy v \<and> py_str repr v = c) | _ \<Rightarrow> False)
          then Some i else None)"

definition active_execution_batch ::
  "(pystr \<Rightarrow> json option) \<Rightarrow> (json \<Rightarrow> pystr) \<Rightarrow> pydict list list \<Rightarrow> nat option res" where
  "active_execution_batch loads repr batches =
     (case active_shell_execution_origins loads repr (concat batches) of
        Inl e \<Rightarrow> Inl e
      | Inr active \<Rightarrow>
          (case List.map_filter (call_batch repr 0 batches \<circ> snd) active of
             [] \<Rightarrow> Inr None
           | b # bs \<Rightarrow> Inr (Some (fold min bs b))))"

text \<open>\<open>math.floor(hard * 0.20)\<close> is the quotient by five for every limit a model has.\<close>

definition select_count ::
  "(pystr \<Rightarrow> json option) \<Rightarrow> (json \<Rightarrow> pystr) \<Rightarrow> (pydict list \<Rightarrow> int) \<Rightarrow> compactor \<Rightarrow> nat res" where
  "select_count loads repr estimate c =
     (let n = length (qc_batches c) in
      if n < 2 then Inr 0
      else
        (let keep = keep_batches estimate (max 1 (qc_hard c div 5)) 0 0 (rev (qc_batches c));
             selected = min (n - 1) (max 1 (n - keep))
         in case active_execution_batch loads repr (qc_batches c) of
              Inl e \<Rightarrow> Inl e
            | Inr None \<Rightarrow> Inr selected
            | Inr (Some b) \<Rightarrow> Inr (min selected b)))"

definition prompt_lines :: "pystr list" where
  "prompt_lines =
    [[26356, 26032, 24403, 21069, 38271, 20219, 21153, 30340, 19978, 19979, 25991, 21387, 32553, 25688, 35201, 12290],
     [],
     [25688, 35201, 20250, 26367, 20195, 24050, 32463, 23436, 25104, 30340, 26087, 24037, 20855, 27493, 39588, 65292, 20379, 21516, 19968, 20010, 20219, 21153, 21518, 32493, 32487, 32493, 25191, 34892, 12290, 21482, 35760, 24405, 36755, 20837, 20013, 24050, 32463, 20986, 29616, 30340, 20107, 23454, 65292, 19981, 34917, 20805, 29468, 27979, 65292, 19981, 25226, 35745, 21010, 20889, 25104, 24050, 23436, 25104, 12290],
     [],
     [24517, 39035, 20351, 29992, 20197, 19979, 26631, 39064, 65306],
     lit ''## Goal'',
     lit ''## Constraints'',
     lit ''## Progress'',
     lit ''## Key facts and references'',
     lit ''## Decisions'',
     lit ''## Validation'',
     lit ''## Unfinished work'',
     lit ''## Next steps'',
     [],
     [20445, 30041, 25991, 20214, 36335, 24452, 12289, 31526, 21495, 12289, 21629, 20196, 12289, 38169, 35823, 12289, 25968, 20540, 21644, 39564, 35777, 32467, 26524, 12290, 30465, 30053, 37325, 22797, 25506, 32034, 12289, 26080, 29992, 26085, 24535, 12289] @ lit ''tool_call_id '' @ [21644, 20854, 20182, 21327, 35758, 32454, 33410, 12290, 21482, 36755, 20986, 25688, 35201, 27491, 25991, 12290]]"

definition summary_prompt :: pystr where
  "summary_prompt = py_join [10] prompt_lines"

text \<open>A long content is cut in the middle.\<close>

definition summary_message :: "(json \<Rightarrow> pystr) \<Rightarrow> pydict \<Rightarrow> pystr" where
  "summary_message repr m =
     (let clean = filter (\<lambda>(k, v). k \<noteq> lit ''reasoning_content'') m;
          content = get_text repr clean ''content'';
          clean' = (if 2000 < length content
                    then dict_set (lit ''content'') (JStr (take 1000 content @ [10] @ [8230] @ lit ''omitted'' @ [8230] @ [10] @
                           drop (length content - 1000) content)) clean
                    else clean)
      in [10] @ json_text (JObj clean'))"

definition summary_input :: "(json \<Rightarrow> pystr) \<Rightarrow> compactor \<Rightarrow> pydict list list \<Rightarrow> pystr" where
  "summary_input repr c evicted =
     summary_prompt @
     (case qc_compaction c of None \<Rightarrow> []
      | Some rc \<Rightarrow> [10] @ lit ''[Previous compaction summary]'' @ [10] @ rc_summary rc) @
     [10] @ lit ''[New completed steps]'' @ [10] @ concat (map (summary_message repr) (concat evicted))"

text \<open>What the reasoner gives the compactor: the decoder, \<open>repr\<close>, the estimate and the summary callback.\<close>

record 's compact_env =
  ce_loads :: "pystr \<Rightarrow> json option"
  ce_repr :: "json \<Rightarrow> pystr"
  ce_estimate :: "pydict list \<Rightarrow> int"
  ce_summarize :: "pystr \<Rightarrow> 's \<Rightarrow> (run_error + pystr) \<times> 's"

text \<open>The new messages and compactor, when the summary is there.\<close>

definition compact_with ::
  "'s compact_env \<Rightarrow> compactor \<Rightarrow> pydict list \<Rightarrow> nat option \<Rightarrow> compaction_trigger \<Rightarrow> nat \<Rightarrow> pystr \<Rightarrow>
   run_error + (compactor \<times> pydict list)" where
  "compact_with env c messages pending_start trigger count answer =
     (let summary = strip answer;
          generation = (case qc_compaction c of None \<Rightarrow> 1 | Some rc \<Rightarrow> rc_generation rc + 1);
          retained = drop count (qc_batches c);
          pending = (case pending_start of None \<Rightarrow> [] | Some p \<Rightarrow> drop p messages);
          candidate = \<lparr>rc_summary = summary,
            rc_groups = int count + (case qc_compaction c of None \<Rightarrow> 0 | Some rc \<Rightarrow> rc_groups rc),
            rc_generation = generation, rc_trigger = trigger, rc_window = qc_window c, rc_soft = qc_soft c,
            rc_before = ce_estimate env messages, rc_after = 0\<rparr>
      in if summary = [] then Inl (ContextCompactionError (lit ''context_compaction_summary_invalid''))
         else
           (case compaction_call_id (qc_scope c) generation of
              None \<Rightarrow> Inl (PyError unencodable)
            | Some call_id \<Rightarrow>
                (let rebuilt = qc_base c @ build_compaction_messages candidate call_id @ concat retained @ pending;
                     after = ce_estimate env rebuilt
                 in if qc_hard c \<le> after
                    then Inl (ContextCompactionError (lit ''context_compaction_insufficient estimated='' @ int_text after @
                                lit '' hard_limit='' @ int_text (qc_hard c)))
                    else Inr (c\<lparr>qc_compaction := Some (candidate\<lparr>rc_after := after\<rparr>), qc_batches := retained\<rparr>, rebuilt))))"

definition prepare ::
  "'s compact_env \<Rightarrow> compactor \<Rightarrow> pydict list \<Rightarrow> nat option \<Rightarrow> compaction_trigger \<Rightarrow> bool \<Rightarrow> 's \<Rightarrow>
   (run_error + (bool \<times> compactor \<times> pydict list)) \<times> 's" where
  "prepare env c messages pending_start trigger force s =
     (let before = ce_estimate env messages in
      if \<not> force \<and> (qc_soft c \<le> 0 \<or> before < qc_soft c) then (Inr (False, c, messages), s)
      else
        (case select_count (ce_loads env) (ce_repr env) (ce_estimate env) c of
           Inl e \<Rightarrow> (Inl (PyError e), s)
         | Inr count \<Rightarrow>
             if count = 0
             then (if force then Inl (ContextCompactionError (lit ''context_compaction_no_closed_prefix''))
                   else Inr (False, c, messages), s)
             else
               (case ce_summarize env (summary_input (ce_repr env) c (take count (qc_batches c))) s of
                  (Inl e, s') \<Rightarrow> (Inl e, s')
                | (Inr answer, s') \<Rightarrow>
                    ((case compact_with env c messages pending_start trigger count answer of
                        Inl e \<Rightarrow> Inl e | Inr (c', ms) \<Rightarrow> Inr (True, c', ms)), s'))))"

end
