(* ===== verification/SessionHistory.thy ===== *)
theory SessionHistory
  imports QueryCompaction PyText
begin

text \<open>
  Chat sessions, \<open>src/session/manager.py\<close>: the messages of a session, and the history it gives the
  model, in which the tool calls of every stored turn are replayed.  Messages are dictionaries; what a
  stored value of another type makes the code raise is an error of the model.
\<close>

section \<open>Truncated tool results\<close>

text \<open>\<open>str.splitlines\<close> counts the lines; \<open>"\r\n"\<close> is one boundary.\<close>

definition line_end :: "nat \<Rightarrow> bool" where
  "line_end c \<longleftrightarrow> c \<in> {10, 11, 12, 13, 28, 29, 30, 133, 8232, 8233}"

fun line_count :: "pystr \<Rightarrow> bool \<Rightarrow> nat" where
  "line_count [] open_line = (if open_line then 1 else 0)"
| "line_count (c # cs) open_line =
     (if c = 13 \<and> (case cs of d # ds \<Rightarrow> d = 10 | [] \<Rightarrow> False) then Suc (line_count (tl cs) False)
      else if line_end c then Suc (line_count cs False) else line_count cs True)"

definition truncation_marker :: "nat \<Rightarrow> pystr" where
  "truncation_marker omitted = [8230] @ nat_text omitted @ lit '' chars truncated'' @ [8230]"

definition kept_chars :: "nat \<Rightarrow> nat \<Rightarrow> nat" where
  "kept_chars limit omitted = limit - length (truncation_marker omitted)"

text \<open>The marker names the number of characters it replaces, so the number is searched.\<close>

partial_function (option) omitted_chars :: "nat \<Rightarrow> nat \<Rightarrow> nat \<Rightarrow> nat option" where
  "omitted_chars n limit omitted =
     (let actual = n - kept_chars limit omitted
      in if actual = omitted then Some omitted else omitted_chars n limit actual)"

text \<open>\<open>None\<close>: the search does not end.\<close>

definition truncate_tool_result :: "(json \<Rightarrow> pystr) \<Rightarrow> json \<Rightarrow> nat \<Rightarrow> pystr option" where
  "truncate_tool_result repr v limit =
     (let t = py_str repr v in
      if length t \<le> limit then Some t
      else
        (case omitted_chars (length t) limit (length t - limit) of
           None \<Rightarrow> None
         | Some omitted \<Rightarrow>
             (let keep = kept_chars limit omitted; head = keep div 2; rest = keep - head
              in Some (lit ''Total output lines: '' @ nat_text (line_count t False) @ [10, 10] @
                   take head t @ truncation_marker omitted @ (if rest = 0 then [] else drop (length t - rest) t)))))"

section \<open>Sessions\<close>

record session =
  sn_key :: pystr
  sn_messages :: "pydict list"
  sn_created_at :: pystr
  sn_updated_at :: pystr
  sn_metadata :: pydict
  sn_last_consolidated :: int
  sn_reserved :: "pystr option"

text \<open>\<open>int(v)\<close>.\<close>

fun digit_groups :: "pystr \<Rightarrow> bool \<Rightarrow> bool" where
  "digit_groups [] after_digit = after_digit"
| "digit_groups (c # cs) after_digit =
     (if is_digit c then digit_groups cs True else if c = 95 \<and> after_digit then digit_groups cs False else False)"

definition parse_int :: "pystr \<Rightarrow> int res" where
  "parse_int s =
     (let t = strip s;
          body = (case t of c # cs \<Rightarrow> if c = 43 \<or> c = 45 then cs else t | [] \<Rightarrow> []);
          ds = filter (\<lambda>c. c \<noteq> 95) body
      in if \<not> digit_groups body False then Inl (ValueError (lit ''invalid literal for int() with base 10''))
         else if 4300 < length ds then Inl (ValueError (lit ''Exceeds the limit for integer string conversion''))
         else Inr (if take 1 t = [45] then - digits_value ds else digits_value ds))"

fun py_int :: "json \<Rightarrow> int res" where
  "py_int (JInt i) = Inr i"
| "py_int (JBool b) = Inr (if b then 1 else 0)"
| "py_int (JStr s) = parse_int s"
| "py_int v = Inl (TypeError (lit ''int() argument must be a string or a real number''))"

definition next_seq :: "pydict list \<Rightarrow> int res" where
  "next_seq ms =
     (case res_map (\<lambda>m. py_int (get_default m ''seq'' (JInt (- 1)))) ms of
        Inl e \<Rightarrow> Inl e
      | Inr seqs \<Rightarrow> Inr ((case seqs of [] \<Rightarrow> - 1 | i # is \<Rightarrow> fold max is i) + 1))"

text \<open>\<open>fresh\<close> is a new identifier, \<open>now\<close> and \<open>later\<close> are the two readings of the clock.\<close>

definition add_message ::
  "pystr \<Rightarrow> pystr \<Rightarrow> json list \<Rightarrow> pydict \<Rightarrow> pystr \<Rightarrow> pystr \<Rightarrow> pystr \<Rightarrow> session \<Rightarrow> (pydict \<times> session) res" where
  "add_message role content media kwargs fresh now later s =
     (case next_seq (sn_messages s) of
        Inl e \<Rightarrow> Inl e
      | Inr seq \<Rightarrow>
          (let msg = dict_update
                 [(lit ''id'', JStr (case sn_reserved s of None \<Rightarrow> fresh | Some r \<Rightarrow> or_else r fresh)),
                  (lit ''seq'', JInt seq), (lit ''role'', JStr role), (lit ''content'', JStr content),
                  (lit ''timestamp'', JStr now)] kwargs;
               msg' = (if media = [] then msg else dict_set (lit ''media'') (JArr media) msg)
           in Inr (msg', s\<lparr>sn_messages := sn_messages s @ [msg'], sn_reserved := None, sn_updated_at := later\<rparr>)))"

section \<open>The history\<close>

definition has_role :: "string \<Rightarrow> pydict \<Rightarrow> bool" where
  "has_role r m \<longleftrightarrow> get m ''role'' = Some (JStr (lit r))"

text \<open>The last message of a user at or before \<open>start\<close>, or the first message.\<close>

fun back_to_user :: "pydict list \<Rightarrow> nat \<Rightarrow> nat" where
  "back_to_user ms 0 = 0"
| "back_to_user ms (Suc i) = (if has_role ''user'' (ms ! Suc i) then Suc i else back_to_user ms i)"

definition selected_messages :: "int \<Rightarrow> int option \<Rightarrow> pydict list \<Rightarrow> pydict list" where
  "selected_messages max_messages start_index ms =
     (if max_messages \<le> 0 then []
      else
        (case start_index of
           Some i \<Rightarrow>
             (let start = nat (max 0 (min i (int (length ms))))
              in if length ms \<le> start then [] else drop (back_to_user ms start) ms)
         | None \<Rightarrow> drop (length ms - nat max_messages) ms))"

text \<open>\<open>v[k]\<close>: what is not a dictionary cannot be indexed by a text.\<close>

fun item_of :: "json \<Rightarrow> string \<Rightarrow> json res" where
  "item_of (JObj d) k = item d k"
| "item_of v k = Inl (TypeError (lit ''indices must be integers''))"

definition replay_call :: "json \<Rightarrow> json res" where
  "replay_call call =
     (case item_of call ''call_id'' of Inl e \<Rightarrow> Inl e | Inr i \<Rightarrow>
     (case item_of call ''name'' of Inl e \<Rightarrow> Inl e | Inr name \<Rightarrow>
     (case as_dict call of Inl e \<Rightarrow> Inl e | Inr d \<Rightarrow>
        Inr (JObj [(lit ''id'', i), (lit ''type'', JStr (lit ''function'')),
          (lit ''function'', JObj [(lit ''name'', name), (lit ''arguments'', get_default d ''arguments'' (JObj []))])]))))"

definition replay_result :: "(json \<Rightarrow> pystr) \<Rightarrow> json \<Rightarrow> pydict res option" where
  "replay_result repr call =
     (case item_of call ''call_id'' of Inl e \<Rightarrow> Some (Inl e) | Inr i \<Rightarrow>
     (case as_dict call of Inl e \<Rightarrow> Some (Inl e) | Inr d \<Rightarrow>
     (case truncate_tool_result repr (get_default d ''result'' (JStr [])) 10000 of
        None \<Rightarrow> None
      | Some t \<Rightarrow> Some (Inr [(lit ''role'', JStr (lit ''tool'')), (lit ''tool_call_id'', i), (lit ''content'', JStr t)]))))"

text \<open>A loop whose body may raise, or not return.\<close>

fun each :: "('a \<Rightarrow> 'b list res option) \<Rightarrow> 'a list \<Rightarrow> 'b list res option" where
  "each f [] = Some (Inr [])"
| "each f (x # xs) =
     (case f x of
        None \<Rightarrow> None
      | Some (Inl e) \<Rightarrow> Some (Inl e)
      | Some (Inr ys) \<Rightarrow>
          (case each f xs of None \<Rightarrow> None | Some (Inl e) \<Rightarrow> Some (Inl e) | Some (Inr zs) \<Rightarrow> Some (Inr (ys @ zs))))"

definition replay_group :: "(json \<Rightarrow> pystr) \<Rightarrow> json \<Rightarrow> pydict list res option" where
  "replay_group repr grp =
     (case as_dict grp of Inl e \<Rightarrow> Some (Inl e) | Inr g \<Rightarrow>
     (case py_list (get_or g ''calls'' (JArr [])) of Inl e \<Rightarrow> Some (Inl e) | Inr calls \<Rightarrow>
        if calls = [] then Some (Inr [])
        else
          (case res_map replay_call calls of Inl e \<Rightarrow> Some (Inl e) | Inr tool_calls \<Rightarrow>
          (case each (\<lambda>c. map_option (map_sum id (\<lambda>m. [m])) (replay_result repr c)) calls of
             None \<Rightarrow> None
           | Some (Inl e) \<Rightarrow> Some (Inl e)
           | Some (Inr results) \<Rightarrow>
               Some (Inr (([(lit ''role'', JStr (lit ''assistant'')), (lit ''content'', get_or g ''text'' (JStr [])),
                  (lit ''tool_calls'', JArr tool_calls)] @
                  (if truthy (get_default g ''reasoning_content'' JNull)
                   then [(lit ''reasoning_content'', get_default g ''reasoning_content'' JNull)] else []))
                 # results))))))"

definition message_id :: "(json \<Rightarrow> pystr) \<Rightarrow> pystr \<Rightarrow> pydict \<Rightarrow> pystr" where
  "message_id repr key m =
     py_str repr (get_or m ''id'' (JStr (key @ lit '':'' @ py_str repr (get_default m ''seq'' (JStr (lit ''?''))))))"

text \<open>What a compaction of the turn puts in the place of its first groups, and the groups that are left.\<close>

definition replay_compaction :: "(json \<Rightarrow> pystr) \<Rightarrow> pystr \<Rightarrow> pydict \<Rightarrow> json list \<Rightarrow> (pydict list \<times> json list) res" where
  "replay_compaction repr key m chain =
     (if get_default m ''react_compaction'' JNull = JNull then Inr ([], chain)
      else
        (let i = message_id repr key m in
         case parse_react_compaction (get_default m ''react_compaction'' JNull) i of Inl e \<Rightarrow> Inl e | Inr c \<Rightarrow>
           if int (length chain) < rc_groups c
           then Inl (ValueError (lit ''react_compaction.compacted_tool_groups '' @ [36229, 36807] @ lit '' tool_chain '' @ [38271, 24230] @ lit '': '' @ i))
           else
             (case build_replay_compaction_messages c i of Inl e \<Rightarrow> Inl e
              | Inr ms \<Rightarrow> Inr (ms, drop (nat (rc_groups c)) chain))))"

definition replay_message :: "(json \<Rightarrow> pystr) \<Rightarrow> pystr \<Rightarrow> pydict \<Rightarrow> pydict list res option" where
  "replay_message repr key m =
     (if has_role ''user'' m
      then Some (Inr [[(lit ''role'', JStr (lit ''user'')), (lit ''content'', get_default m ''content'' (JStr []))]])
      else if \<not> has_role ''assistant'' m then Some (Inr [])
      else
        (case py_list (get_or m ''tool_chain'' (JArr [])) of Inl e \<Rightarrow> Some (Inl e) | Inr chain \<Rightarrow>
        (case replay_compaction repr key m chain of Inl e \<Rightarrow> Some (Inl e) | Inr (pair, groups) \<Rightarrow>
        (case each (replay_group repr) groups of
           None \<Rightarrow> None
         | Some (Inl e) \<Rightarrow> Some (Inl e)
         | Some (Inr steps) \<Rightarrow>
             Some (Inr (pair @ steps @
               (if \<not> truthy (get_default m ''content'' JNull) then []
                else
                  (let reasoning = get_or m ''reasoning_content'' (get_default m ''thinking'' JNull)
                   in [[(lit ''role'', JStr (lit ''assistant'')), (lit ''content'', get_default m ''content'' (JStr []))] @
                       (if truthy reasoning then [(lit ''reasoning_content'', reasoning)] else [])]))))))))"

definition get_history :: "(json \<Rightarrow> pystr) \<Rightarrow> int \<Rightarrow> int option \<Rightarrow> session \<Rightarrow> pydict list res option" where
  "get_history repr max_messages start_index s =
     each (replay_message repr (sn_key s))
       (dropWhile (\<lambda>m. \<not> has_role ''user'' m) (selected_messages max_messages start_index (sn_messages s)))"

section \<open>The form of a session file\<close>

definition session_json :: "session \<Rightarrow> pydict" where
  "session_json s =
     [(lit ''key'', JStr (sn_key s)), (lit ''messages'', JArr (map JObj (sn_messages s))),
      (lit ''created_at'', JStr (sn_created_at s)), (lit ''updated_at'', JStr (sn_updated_at s)),
      (lit ''metadata'', JObj (sn_metadata s)), (lit ''last_consolidated'', JInt (sn_last_consolidated s))]"

definition set_missing :: "string \<Rightarrow> json \<Rightarrow> pydict \<Rightarrow> pydict" where
  "set_missing k v m = (if get m k = None then m @ [(lit k, v)] else m)"

text \<open>The position and a digest of it stand in for a missing \<open>seq\<close> and a missing identifier.\<close>

fun number_messages :: "pystr \<Rightarrow> nat \<Rightarrow> pydict list \<Rightarrow> pydict list res" where
  "number_messages key i [] = Inr []"
| "number_messages key i (m # ms) =
     (case sha256_text (key @ [0] @ nat_text i) of
        None \<Rightarrow> Inl unencodable
      | Some d \<Rightarrow>
          (case number_messages key (Suc i) ms of
             Inl e \<Rightarrow> Inl e
           | Inr ms' \<Rightarrow> Inr (set_missing ''id'' (JStr (take 32 d)) (set_missing ''seq'' (JInt (int i)) m) # ms')))"

end
