(* ===== verification/SessionStore.thy ===== *)
theory SessionStore
  imports SessionHistory "HOL-Library.AList"
begin

text \<open>
  The store of chat sessions, \<open>SessionManager\<close> of \<open>src/session/manager.py\<close>: the tables
  \<open>sessions\<close>, \<open>messages\<close> and \<open>session_admissions\<close>, and the cache of session objects of one
  process.  A JSON column holds the value \<open>json.loads\<close> gives back.  An operation that raises has
  rolled its transaction back.  The files that mirror a session, the full-text index and the import of
  the first version are left out.
\<close>

section \<open>Tables\<close>

record session_row =
  sw_key :: pystr
  sw_created_at :: pystr
  sw_updated_at :: pystr
  sw_metadata :: pydict
  sw_last_consolidated :: int

record stored_message =
  mw_id :: pystr
  mw_key :: pystr
  mw_seq :: int
  mw_role :: pystr
  mw_content :: pystr
  mw_ts :: pystr
  mw_extra :: pydict

record admission_row =
  aw_key :: pystr
  aw_owner :: pystr
  aw_acquired_at :: pystr

record session_db =
  sd_sessions :: "session_row list"
  sd_messages :: "stored_message list"
  sd_admissions :: "admission_row list"

definition sorted_dict :: "pydict \<Rightarrow> pydict" where
  "sorted_dict d = (case sort_keys (JObj d) of JObj e \<Rightarrow> e | _ \<Rightarrow> [])"

text \<open>What SQLite takes: texts that can be encoded and integers of 64 bits.\<close>

definition text_ok :: "pystr \<Rightarrow> bool" where
  "text_ok s \<longleftrightarrow> utf8_encode s \<noteq> None"

definition int_ok :: "int \<Rightarrow> bool" where
  "int_ok i \<longleftrightarrow> - (2 ^ 63) \<le> i \<and> i < 2 ^ 63"

definition too_large :: py_error where
  "too_large = OverflowError (lit ''Python int too large to convert to SQLite INTEGER'')"

definition bind_all :: "pystr list \<Rightarrow> int \<Rightarrow> unit res" where
  "bind_all texts i =
     (if \<not> list_all text_ok texts then Inl unencodable else if \<not> int_ok i then Inl too_large else Inr ())"

section \<open>Rows of messages\<close>

definition row_keys :: "pystr list" where
  "row_keys = map lit [''id'', ''seq'', ''role'', ''content'', ''timestamp'']"

definition message_row :: "(json \<Rightarrow> pystr) \<Rightarrow> pystr \<Rightarrow> pydict \<Rightarrow> stored_message res" where
  "message_row repr key m =
     (case item m ''id'' of Inl e \<Rightarrow> Inl e | Inr i \<Rightarrow>
     (case item m ''seq'' of Inl e \<Rightarrow> Inl e | Inr s \<Rightarrow>
     (case py_int s of Inl e \<Rightarrow> Inl e | Inr n \<Rightarrow>
        Inr \<lparr>mw_id = py_str repr i, mw_key = key, mw_seq = n, mw_role = get_text repr m ''role'',
             mw_content = get_text repr m ''content'', mw_ts = get_text repr m ''timestamp'',
             mw_extra = sorted_dict (filter (\<lambda>(k, v). k \<notin> set row_keys) m)\<rparr>)))"

definition row_message :: "stored_message \<Rightarrow> pydict" where
  "row_message w =
     dict_update [(lit ''id'', JStr (mw_id w)), (lit ''seq'', JInt (mw_seq w)), (lit ''role'', JStr (mw_role w)),
       (lit ''content'', JStr (mw_content w)), (lit ''timestamp'', JStr (mw_ts w))] (mw_extra w)"

definition rows_of :: "pystr \<Rightarrow> session_db \<Rightarrow> stored_message list" where
  "rows_of key db = sort_key mw_seq (filter (\<lambda>w. mw_key w = key) (sd_messages db))"

definition load_message_rows :: "pystr \<Rightarrow> session_db \<Rightarrow> pydict list" where
  "load_message_rows key db = map row_message (rows_of key db)"

section \<open>Saving\<close>

text \<open>\<open>Session.from_json (session.to_json ())\<close> completes the messages in place; when the key cannot be
  encoded the first message has got its number.\<close>

definition normalize_messages :: "session \<Rightarrow> unit res \<times> session" where
  "normalize_messages s =
     (case number_messages (sn_key s) 0 (sn_messages s) of
        Inl e \<Rightarrow> (Inl e, s\<lparr>sn_messages :=
                   (case sn_messages s of [] \<Rightarrow> [] | m # ms \<Rightarrow> set_missing ''seq'' (JInt 0) m # ms)\<rparr>)
      | Inr ms \<Rightarrow> (Inr (), s\<lparr>sn_messages := ms\<rparr>))"

text \<open>What is stored may not differ from what the session has at its place.\<close>

fun check_persisted :: "(json \<Rightarrow> pystr) \<Rightarrow> pystr \<Rightarrow> pydict list \<Rightarrow> pydict list \<Rightarrow> unit res" where
  "check_persisted repr key [] ms = Inr ()"
| "check_persisted repr key (p # ps) [] = Inl (RuntimeError [27491, 24120, 28040, 24687, 20445, 23384, 19981, 24471, 21024, 38500, 24050, 25345, 20037, 21270, 28040, 24687])"
| "check_persisted repr key (p # ps) (m # ms) =
     (case message_row repr key p of Inl e \<Rightarrow> Inl e | Inr a \<Rightarrow>
     (case message_row repr key m of Inl e \<Rightarrow> Inl e | Inr b \<Rightarrow>
        if a \<noteq> b
        then Inl (RuntimeError ([27491, 24120, 28040, 24687, 20445, 23384, 19981, 24471, 26356, 26032, 24050, 25345, 20037, 21270, 28040, 24687] @ lit '': '' @ py_str repr (get_default p ''id'' JNull)))
        else check_persisted repr key ps ms))"

definition upsert_session :: "session \<Rightarrow> session_db \<Rightarrow> session_db" where
  "upsert_session s db =
     (case row_by sw_key (sn_key s) (sd_sessions db) of
        None \<Rightarrow> db\<lparr>sd_sessions := sd_sessions db @
                 [\<lparr>sw_key = sn_key s, sw_created_at = sn_created_at s, sw_updated_at = sn_updated_at s,
                   sw_metadata = sorted_dict (sn_metadata s), sw_last_consolidated = sn_last_consolidated s\<rparr>]\<rparr>
      | Some w \<Rightarrow> db\<lparr>sd_sessions := put_row sw_key
                 (w\<lparr>sw_updated_at := sn_updated_at s, sw_metadata := sorted_dict (sn_metadata s),
                    sw_last_consolidated := sn_last_consolidated s\<rparr>) (sd_sessions db)\<rparr>)"

definition session_texts :: "session \<Rightarrow> pystr list" where
  "session_texts s = [sn_key s, sn_created_at s, sn_updated_at s, json_dumps (JObj (sorted_dict (sn_metadata s)))]"

definition row_texts :: "stored_message \<Rightarrow> pystr list" where
  "row_texts w = [mw_id w, mw_key w, mw_role w, mw_content w, mw_ts w, json_dumps (JObj (mw_extra w))]"

definition message_row_clash :: "stored_message \<Rightarrow> stored_message \<Rightarrow> bool" where
  "message_row_clash w x \<longleftrightarrow> mw_id x = mw_id w \<or> mw_key x = mw_key w \<and> mw_seq x = mw_seq w"

fun insert_rows :: "stored_message list \<Rightarrow> stored_message list \<Rightarrow> stored_message list res" where
  "insert_rows t [] = Inr t"
| "insert_rows t (w # ws) =
     (case bind_all (row_texts w) (mw_seq w) of Inl e \<Rightarrow> Inl e | Inr _ \<Rightarrow>
        if list_ex (message_row_clash w) t then Inl IntegrityError else insert_rows (t @ [w]) ws)"

definition save_sqlite_append_only :: "(json \<Rightarrow> pystr) \<Rightarrow> session \<Rightarrow> session_db \<Rightarrow> session_db res \<times> session" where
  "save_sqlite_append_only repr s db =
     (case normalize_messages s of
        (Inl e, s') \<Rightarrow> (Inl e, s')
      | (Inr _, s') \<Rightarrow>
          (let existing = load_message_rows (sn_key s') db in
           if length (sn_messages s') < length existing
           then (Inl (RuntimeError [27491, 24120, 28040, 24687, 20445, 23384, 19981, 24471, 21024, 38500, 24050, 25345, 20037, 21270, 28040, 24687]), s')
           else
             (case check_persisted repr (sn_key s') existing (sn_messages s') of Inl e \<Rightarrow> (Inl e, s') | Inr _ \<Rightarrow>
             (case bind_all (session_texts s') (sn_last_consolidated s') of Inl e \<Rightarrow> (Inl e, s') | Inr _ \<Rightarrow>
             (case res_map (message_row repr (sn_key s')) (drop (length existing) (sn_messages s')) of
                Inl e \<Rightarrow> (Inl e, s')
              | Inr ws \<Rightarrow>
                  (case insert_rows (sd_messages db) ws of Inl e \<Rightarrow> (Inl e, s') | Inr t \<Rightarrow>
                     (Inr ((upsert_session s' db)\<lparr>sd_messages := t\<rparr>), s')))))))"

section \<open>The manager of one process\<close>

text \<open>The cache keeps the session objects in the order of their creation; the tables are shared with other
  processes.\<close>

record session_manager =
  sg_db :: session_db
  sg_cache :: "(pystr \<times> session) list"

definition cache_put :: "session \<Rightarrow> session_manager \<Rightarrow> session_manager" where
  "cache_put s g = g\<lparr>sg_cache := AList.update (sn_key s) s (sg_cache g)\<rparr>"

definition cache_drop :: "pystr list \<Rightarrow> session_manager \<Rightarrow> session_manager" where
  "cache_drop ks g = g\<lparr>sg_cache := filter (\<lambda>(k, s). k \<notin> set ks) (sg_cache g)\<rparr>"

definition loaded_session :: "pystr \<Rightarrow> session_row \<Rightarrow> session_db \<Rightarrow> session" where
  "loaded_session key w db =
     \<lparr>sn_key = key, sn_messages = load_message_rows key db, sn_created_at = sw_created_at w,
      sn_updated_at = sw_updated_at w, sn_metadata = sw_metadata w,
      sn_last_consolidated = sw_last_consolidated w, sn_reserved = None\<rparr>"

text \<open>\<open>now\<close> and \<open>later\<close> are the two readings of the clock a new session makes.\<close>

definition get_or_create :: "pystr \<Rightarrow> pystr \<Rightarrow> pystr \<Rightarrow> session_manager \<Rightarrow> (session \<times> session_manager) res" where
  "get_or_create key now later g =
     (case map_of (sg_cache g) key of
        Some s \<Rightarrow> Inr (s, g)
      | None \<Rightarrow>
          if \<not> text_ok key then Inl unencodable
          else
            (let s = (case row_by sw_key key (sd_sessions (sg_db g)) of
                        None \<Rightarrow> \<lparr>sn_key = key, sn_messages = [], sn_created_at = now, sn_updated_at = later,
                                 sn_metadata = [], sn_last_consolidated = 0, sn_reserved = None\<rparr>
                      | Some w \<Rightarrow> loaded_session key w (sg_db g))
             in Inr (s, cache_put s g)))"

definition session_exists :: "pystr \<Rightarrow> session_manager \<Rightarrow> bool res" where
  "session_exists key g =
     (if map_of (sg_cache g) key \<noteq> None then Inr True
      else if \<not> text_ok key then Inl unencodable
      else Inr (row_by sw_key key (sd_sessions (sg_db g)) \<noteq> None))"

definition get_session_meta :: "pystr \<Rightarrow> pystr \<Rightarrow> pystr \<Rightarrow> session_manager \<Rightarrow> (pydict option \<times> session_manager) res" where
  "get_session_meta key now later g =
     (case session_exists key g of
        Inl e \<Rightarrow> Inl e
      | Inr False \<Rightarrow> Inr (None, g)
      | Inr True \<Rightarrow>
          (case get_or_create key now later g of
             Inl e \<Rightarrow> Inl e
           | Inr (s, g') \<Rightarrow>
               Inr (Some [(lit ''key'', JStr (sn_key s)), (lit ''created_at'', JStr (sn_created_at s)),
                          (lit ''updated_at'', JStr (sn_updated_at s)), (lit ''metadata'', JObj (sn_metadata s))], g')))"

definition peek_next_message_id ::
  "pystr \<Rightarrow> pystr \<Rightarrow> pystr \<Rightarrow> pystr \<Rightarrow> session_manager \<Rightarrow> (pystr \<times> session_manager) res" where
  "peek_next_message_id key fresh now later g =
     (case get_or_create key now later g of
        Inl e \<Rightarrow> Inl e
      | Inr (s, g') \<Rightarrow>
          (case sn_reserved s of
             Some i \<Rightarrow> Inr (i, g')
           | None \<Rightarrow> Inr (fresh, cache_put (s\<lparr>sn_reserved := Some fresh\<rparr>) g')))"

text \<open>Saving the object the cache holds; a failed save keeps what the normalization has changed.\<close>

definition save_cached :: "(json \<Rightarrow> pystr) \<Rightarrow> pystr \<Rightarrow> session_manager \<Rightarrow> unit res \<times> session_manager" where
  "save_cached repr key g =
     (case map_of (sg_cache g) key of
        None \<Rightarrow> (Inl (KeyError key), g)
      | Some s \<Rightarrow>
          (case save_sqlite_append_only repr s (sg_db g) of
             (Inl e, s') \<Rightarrow> (Inl e, cache_put s' g)
           | (Inr db, s') \<Rightarrow> (Inr (), (cache_put s' g)\<lparr>sg_db := db\<rparr>)))"

section \<open>Reading messages\<close>

text \<open>\<open>LIKE\<close>: \<open>%\<close> stands for any text, \<open>_\<close> for any character, ASCII letters agree in both cases.\<close>

fun sql_like :: "pystr \<Rightarrow> pystr \<Rightarrow> bool" where
  "sql_like [] s = (s = [])"
| "sql_like (p # ps) [] = (p = 37 \<and> sql_like ps [])"
| "sql_like (p # ps) (c # cs) =
     (if p = 37 then sql_like ps (c # cs) \<or> sql_like (p # ps) cs
      else (p = 95 \<or> ascii_lower [p] = ascii_lower [c]) \<and> sql_like ps cs)"

definition max_one :: "int \<Rightarrow> nat" where
  "max_one n = nat (max 1 n)"

text \<open>\<open>lower\<close> is \<open>str.lower\<close>; messages of one instant come in the order of their rows.\<close>

definition search_messages :: "(pystr \<Rightarrow> pystr) \<Rightarrow> pystr \<Rightarrow> int \<Rightarrow> session_db \<Rightarrow> pydict list res" where
  "search_messages lower query limit db =
     (let needle = strip (lower query) in
      if needle = [] then Inr []
      else (case bind_all [needle] (max 1 limit) of Inl e \<Rightarrow> Inl e | Inr _ \<Rightarrow>
        Inr (map (\<lambda>w. [(lit ''source_ref'', JStr (mw_id w)), (lit ''session_key'', JStr (mw_key w)),
                       (lit ''role'', JStr (mw_role w)), (lit ''content'', JStr (take 500 (mw_content w))),
                       (lit ''timestamp'', JStr (mw_ts w))])
               (take (max_one limit)
                 (rev (sort_key mw_ts (rev (filter (\<lambda>w. sql_like ([37] @ needle @ [37]) (ascii_lower (mw_content w)))
                   (sd_messages db)))))))))"

text \<open>\<open>s.rsplit(":", 1)\<close> of a text with a colon.\<close>

definition rsplit_colon :: "pystr \<Rightarrow> pystr \<times> pystr" where
  "rsplit_colon s =
     (let tail = rev (takeWhile (\<lambda>c. c \<noteq> 58) (rev s)) in (take (length s - length tail - 1) s, tail))"

definition fetch_target :: "pystr \<Rightarrow> session_db \<Rightarrow> (pystr \<times> int) option" where
  "fetch_target ref db =
     (case row_by mw_id ref (sd_messages db) of
        Some w \<Rightarrow> Some (mw_key w, mw_seq w)
      | None \<Rightarrow>
          if 58 \<notin> set ref then None
          else (case rsplit_colon ref of (key, raw) \<Rightarrow>
                  (case parse_int raw of Inl e \<Rightarrow> None | Inr n \<Rightarrow> Some (key, n))))"

definition fetch_messages :: "pystr \<Rightarrow> int \<Rightarrow> session_db \<Rightarrow> pydict list res" where
  "fetch_messages ref context db =
     (if \<not> text_ok ref then Inl unencodable
      else
        (case fetch_target ref db of
           None \<Rightarrow> Inr []
         | Some (key, n) \<Rightarrow>
             (let radius = max 0 context in
              if \<not> int_ok (n - radius) \<or> \<not> int_ok (n + radius) then Inl too_large
              else Inr (map (\<lambda>w. [(lit ''source_ref'', JStr (mw_id w)), (lit ''role'', JStr (mw_role w)),
                                  (lit ''content'', JStr (mw_content w)), (lit ''timestamp'', JStr (mw_ts w))])
                         (filter (\<lambda>w. n - radius \<le> mw_seq w \<and> mw_seq w \<le> n + radius) (rows_of key db))))))"

section \<open>Listing\<close>

record session_item =
  si_key :: pystr
  si_created_at :: pystr
  si_updated_at :: pystr
  si_count :: nat
  si_metadata :: pydict

text \<open>\<open>sorted (reverse=True)\<close> keeps the order of equals.\<close>

definition newest_first :: "session_item list \<Rightarrow> session_item list" where
  "newest_first items = rev (sort_key si_updated_at (rev items))"

definition list_sessions :: "session_manager \<Rightarrow> session_item list" where
  "list_sessions g =
     (let stored = newest_first (map (\<lambda>w. \<lparr>si_key = sw_key w, si_created_at = sw_created_at w,
             si_updated_at = sw_updated_at w, si_count = length (rows_of (sw_key w) (sg_db g)),
             si_metadata = sw_metadata w\<rparr>) (sort_key sw_key (sd_sessions (sg_db g))));
          cached = map (\<lambda>(k, s). \<lparr>si_key = sn_key s, si_created_at = sn_created_at s,
             si_updated_at = sn_updated_at s, si_count = length (sn_messages s), si_metadata = sn_metadata s\<rparr>)
             (filter (\<lambda>(k, s). sn_key s \<notin> set (map si_key stored)) (sg_cache g))
      in newest_first (stored @ cached))"

definition get_channel_metadata :: "pystr \<Rightarrow> session_manager \<Rightarrow> pydict list" where
  "get_channel_metadata channel g =
     (let pre = channel @ [58] in
      map (\<lambda>i. [(lit ''chat_id'', JStr (drop (length pre) (si_key i))), (lit ''metadata'', JObj (si_metadata i))])
        (filter (\<lambda>i. prefix pre (si_key i)) (list_sessions g)))"

section \<open>Deleting\<close>

text \<open>\<open>mirrored\<close>: one of the two files of the session exists; a mirror is removed even when the transaction
  after it fails.\<close>

definition delete_session :: "pystr \<Rightarrow> bool \<Rightarrow> session_manager \<Rightarrow> bool res \<times> session_manager" where
  "delete_session key mirrored g =
     (case session_exists key g of
        Inl e \<Rightarrow> (Inl e, g)
      | Inr existed \<Rightarrow>
          if \<not> text_ok key then (Inl unencodable, cache_drop [key] g)
          else (Inr (existed \<or> mirrored),
            (cache_drop [key] g)\<lparr>sg_db :=
              \<lparr>sd_sessions = filter (\<lambda>w. sw_key w \<noteq> key) (sd_sessions (sg_db g)),
               sd_messages = filter (\<lambda>w. mw_key w \<noteq> key) (sd_messages (sg_db g)),
               sd_admissions = filter (\<lambda>a. aw_key a \<noteq> key) (sd_admissions (sg_db g))\<rparr>\<rparr>))"

text \<open>The number of deleted rows.\<close>

definition delete_messages :: "pystr list \<Rightarrow> pystr \<Rightarrow> session_manager \<Rightarrow> (nat \<times> session_manager) res" where
  "delete_messages message_ids now g =
     (let ids = remdups (filter (\<lambda>i. i \<noteq> []) (map strip message_ids));
          gone = filter (\<lambda>w. mw_id w \<in> set ids) (sd_messages (sg_db g));
          affected = map mw_key gone
      in if ids = [] then Inr (0, g)
         else if \<not> list_all text_ok ids then Inl unencodable
         else Inr (length gone,
           (cache_drop affected g)\<lparr>sg_db := (sg_db g)\<lparr>
              sd_messages := filter (\<lambda>w. mw_id w \<notin> set ids) (sd_messages (sg_db g)),
              sd_sessions := map (\<lambda>w. if sw_key w \<in> set affected then w\<lparr>sw_updated_at := now\<rparr> else w)
                (sd_sessions (sg_db g))\<rparr>\<rparr>))"

section \<open>Admission\<close>

definition acquire_admission :: "pystr \<Rightarrow> pystr \<Rightarrow> pystr \<Rightarrow> session_db \<Rightarrow> session_db res" where
  "acquire_admission key owner now db =
     (if \<not> text_ok key then Inl unencodable
      else if row_by aw_key key (sd_admissions db) \<noteq> None
      then Inl (RuntimeError (lit ''session '' @ [24050, 34987, 21478, 19968, 36827, 31243, 21344, 29992] @ lit '': '' @ key))
      else Inr (db\<lparr>sd_admissions := sd_admissions db @ [\<lparr>aw_key = key, aw_owner = owner, aw_acquired_at = now\<rparr>]\<rparr>))"

text \<open>The deletion is committed before its count is looked at.\<close>

definition release_admission :: "pystr \<Rightarrow> pystr \<Rightarrow> session_db \<Rightarrow> unit res \<times> session_db" where
  "release_admission key owner db =
     (if \<not> text_ok key then (Inl unencodable, db)
      else
        (let held = filter (\<lambda>a. aw_key a = key \<and> aw_owner a = owner) (sd_admissions db)
         in (if length held = 1 then Inr ()
             else Inl (RuntimeError (lit ''session admission owner '' @ [19981, 21305, 37197] @ lit '': '' @ key)),
             db\<lparr>sd_admissions := filter (\<lambda>a. \<not> (aw_key a = key \<and> aw_owner a = owner)) (sd_admissions db)\<rparr>)))"

end
