(* ===== verification/SessionStoreProofs.thy ===== *)
theory SessionStoreProofs
  imports SessionStore "HOL-Library.Multiset"
begin

text \<open>
  What the session store keeps: a row read back is the row that was written, a save extends what is
  stored, and the histories of the tables.
\<close>

section \<open>Dictionaries\<close>

lemma sort_key_fst_map:
  assumes "\<And>x. fst (f x) = fst x"
  shows "sort_key fst (map f xs) = map f (sort_key fst xs)"
proof -
  have "insort_key fst (f x) (map f ys) = map f (insort_key fst x ys)" for x ys
    by (induction ys) (simp_all add: assms)
  then show ?thesis by (induction xs) simp_all
qed

lemma sort_keys_idem [simp]: "sort_keys (sort_keys j) = sort_keys j"
proof (induction j)
  case (JObj d)
  let ?f = "map_prod id sort_keys"
  have "sort_key fst (map ?f (sort_key fst (map ?f d))) = map ?f (sort_key fst (sort_key fst (map ?f d)))"
    by (rule sort_key_fst_map) simp
  also have "sort_key fst (sort_key fst (map ?f d)) = sort_key fst (map ?f d)"
    by (rule sort_key_id_if_sorted) simp
  also have "map ?f (sort_key fst (map ?f d)) = sort_key fst (map ?f (map ?f d))"
    by (rule sort_key_fst_map [symmetric]) simp
  also have "map ?f (map ?f d) = map ?f d" using JObj by (auto simp: snds.simps)
  finally show ?case by (simp only: sort_keys.simps)
qed simp_all

lemma sorted_dict_idem [simp]: "sorted_dict (sorted_dict d) = sorted_dict d"
  using sort_keys_idem [of "JObj d"] by (simp add: sorted_dict_def)

lemma sorted_dict_keys: "mset (map fst (sorted_dict d)) = mset (map fst d)"
proof -
  have "mset (map fst (map (map_prod id sort_keys) d)) = mset (map fst d)" by (simp add: comp_def)
  then show ?thesis unfolding sorted_dict_def sort_keys.simps json.case by (simp add: multiset.map_comp comp_def)
qed

lemma sorted_dict_key_set [simp]: "fst ` set (sorted_dict d) = fst ` set d"
  using arg_cong [OF sorted_dict_keys [of d], of set_mset] by simp

lemma sorted_dict_distinct [simp]: "distinct (map fst (sorted_dict d)) = distinct (map fst d)"
  using sorted_dict_keys [of d] mset_eq_imp_distinct_iff by blast

lemma dict_set_new: "k \<notin> fst ` set d \<Longrightarrow> dict_set k v d = d @ [(k, v)]"
  by (induction k v d rule: dict_set.induct) auto

lemma dict_update_disjoint:
  "distinct (map fst e) \<Longrightarrow> fst ` set d \<inter> fst ` set e = {} \<Longrightarrow> dict_update d e = d @ e"
proof (induction e arbitrary: d)
  case (Cons p e)
  obtain k v where p: "p = (k, v)" by fastforce
  have "dict_update d (p # e) = dict_update (dict_set k v d) e" by (simp add: dict_update_def p)
  also have "\<dots> = dict_update (d @ [(k, v)]) e" using Cons(3) p by (subst dict_set_new) auto
  also have "\<dots> = (d @ [(k, v)]) @ e" by (rule Cons(1)) (use Cons(2,3) p in auto)
  finally show ?case by (simp add: p)
qed (simp add: dict_update_def)

section \<open>Rows\<close>

definition row_ok :: "stored_message \<Rightarrow> bool" where
  "row_ok w \<longleftrightarrow> distinct (map fst (mw_extra w)) \<and> fst ` set (mw_extra w) \<inter> set row_keys = {} \<and>
     sorted_dict (mw_extra w) = mw_extra w"

text \<open>The messages are dictionaries: their keys differ.\<close>

definition dict_ok :: "pydict \<Rightarrow> bool" where
  "dict_ok m \<longleftrightarrow> distinct (map fst m)"

lemma message_row_ok:
  assumes "message_row repr key m = Inr w" "dict_ok m"
  shows "row_ok w" "mw_key w = key"
proof -
  let ?e = "filter (\<lambda>(k, v). k \<notin> set row_keys) m"
  have e: "mw_extra w = sorted_dict ?e" and k: "mw_key w = key"
    using assms(1) by (auto simp: message_row_def split: sum.splits)
  have "distinct (map fst ?e)" using assms(2) by (simp add: dict_ok_def distinct_map_filter)
  then show "row_ok w" by (auto simp: row_ok_def e)
  show "mw_key w = key" by (rule k)
qed

lemma row_message_eq:
  assumes "row_ok w"
  shows "row_message w =
    [(lit ''id'', JStr (mw_id w)), (lit ''seq'', JInt (mw_seq w)), (lit ''role'', JStr (mw_role w)),
     (lit ''content'', JStr (mw_content w)), (lit ''timestamp'', JStr (mw_ts w))] @ mw_extra w"
  unfolding row_message_def
  by (rule dict_update_disjoint) (use assms in \<open>auto simp: row_ok_def row_keys_def\<close>)

text \<open>A row that is read and written again is the same row.\<close>

lemma message_row_message:
  assumes "row_ok w"
  shows "message_row repr (mw_key w) (row_message w) = Inr w"
proof -
  have "filter (\<lambda>(k, v). k \<notin> set row_keys) (mw_extra w) = mw_extra w"
    using assms by (auto simp: row_ok_def filter_id_conv)
  moreover have "sorted_dict (mw_extra w) = mw_extra w" using assms by (simp add: row_ok_def)
  ultimately show ?thesis
    by (simp add: message_row_def row_message_eq [OF assms] item_def get_text_def get_or_def row_keys_def split: option.splits)
qed

lemma row_message_dict: "row_ok w \<Longrightarrow> dict_ok (row_message w)"
  by (auto simp: row_message_eq dict_ok_def row_ok_def row_keys_def)

section \<open>The tables\<close>

definition db_ok :: "session_db \<Rightarrow> bool" where
  "db_ok db \<longleftrightarrow> (\<forall>w \<in> set (sd_messages db). row_ok w) \<and> distinct (map mw_id (sd_messages db)) \<and>
     distinct (map (\<lambda>w. (mw_key w, mw_seq w)) (sd_messages db)) \<and>
     distinct (map sw_key (sd_sessions db)) \<and> distinct (map aw_key (sd_admissions db))"

lemma set_rows_of [simp]: "set (rows_of key db) = {w \<in> set (sd_messages db). mw_key w = key}"
  by (simp add: rows_of_def)

lemma load_rows_back:
  assumes "db_ok db"
  shows "res_map (message_row repr key) (load_message_rows key db) = Inr (rows_of key db)"
proof -
  have rows: "res_map (message_row repr key) (map row_message ws) = Inr ws"
    if "\<And>w. w \<in> set ws \<Longrightarrow> row_ok w \<and> mw_key w = key" for ws
    using that
  proof (induction ws)
    case (Cons w ws)
    have "row_ok w" "mw_key w = key" using Cons(2) by auto
    then have "message_row repr key (row_message w) = Inr w" using message_row_message by blast
    then show ?case using Cons by simp
  qed simp
  show ?thesis unfolding load_message_rows_def by (rule rows) (use assms in \<open>simp add: db_ok_def\<close>)
qed

lemma insert_rows_ok:
  assumes "insert_rows t ws = Inr t'" "distinct (map mw_id t)" "distinct (map (\<lambda>w. (mw_key w, mw_seq w)) t)"
  shows "t' = t @ ws \<and> distinct (map mw_id t') \<and> distinct (map (\<lambda>w. (mw_key w, mw_seq w)) t')"
  using assms
proof (induction ws arbitrary: t)
  case (Cons w ws)
  have c: "\<not> list_ex (message_row_clash w) t" and r: "insert_rows (t @ [w]) ws = Inr t'"
    using Cons(2) by (auto split: sum.splits if_splits)
  have "mw_id w \<notin> mw_id ` set t" "(mw_key w, mw_seq w) \<notin> (\<lambda>w. (mw_key w, mw_seq w)) ` set t"
    using c by (auto simp: list_ex_iff message_row_clash_def image_iff)
  then have "distinct (map mw_id (t @ [w]))" "distinct (map (\<lambda>w. (mw_key w, mw_seq w)) (t @ [w]))"
    using Cons(3,4) by auto
  from Cons(1) [OF r this] show ?case by (metis append.assoc append_Cons append_Nil)
qed simp

lemma check_persisted_ok:
  assumes "check_persisted repr key ps ms = Inr u"
  shows "length ps \<le> length ms \<and>
    (res_map (message_row repr key) ps = Inr ws \<longrightarrow> res_map (message_row repr key) (take (length ps) ms) = Inr ws)"
  using assms
proof (induction repr key ps ms arbitrary: ws rule: check_persisted.induct)
  case (3 repr key p ps m ms)
  obtain a where a: "message_row repr key p = Inr a" "message_row repr key m = Inr a"
      "check_persisted repr key ps ms = Inr u"
    using 3(2) by (auto split: sum.splits if_splits)
  note ih = 3(1) [OF a(1,2) _ a(3)]
  show ?case using ih a(1,2) by (auto split: sum.splits)
qed simp_all

lemma res_map_append:
  "res_map f (xs @ ys) = (case res_map f xs of Inl e \<Rightarrow> Inl e | Inr us \<Rightarrow>
     (case res_map f ys of Inl e \<Rightarrow> Inl e | Inr vs \<Rightarrow> Inr (us @ vs)))"
  by (induction xs) (auto split: sum.splits)

lemma normalize_key: "normalize_messages s = (r, s') \<Longrightarrow> sn_key s' = sn_key s"
  by (auto simp: normalize_messages_def split: sum.splits)

lemma upsert_frame [simp]:
  "sd_messages (upsert_session s db) = sd_messages db" "sd_admissions (upsert_session s db) = sd_admissions db"
  by (auto simp: upsert_session_def split: option.splits)

text \<open>A save that succeeds has found the stored rows at the start of the session, and appends the others.\<close>

lemma save_appends:
  assumes save: "save_sqlite_append_only repr s db = (Inr db', s')" and ok: "db_ok db"
  obtains new where "res_map (message_row repr (sn_key s)) (sn_messages s') = Inr (rows_of (sn_key s) db @ new)"
    "sd_messages db' = sd_messages db @ new" "sd_admissions db' = sd_admissions db"
    "distinct (map mw_id (sd_messages db'))" "distinct (map (\<lambda>w. (mw_key w, mw_seq w)) (sd_messages db'))"
    "sd_sessions db' = sd_sessions (upsert_session s' db)" "normalize_messages s = (Inr (), s')"
proof -
  obtain r s1 where n: "normalize_messages s = (r, s1)" by fastforce
  have s1: "r = Inr ()" "s1 = s'" using save n by (auto simp: save_sqlite_append_only_def Let_def split: sum.splits if_splits)
  have key: "sn_key s' = sn_key s" using normalize_key n s1(2) by blast
  let ?old = "load_message_rows (sn_key s) db"
  obtain u v new t where c: "check_persisted repr (sn_key s) ?old (sn_messages s') = Inr u"
      "res_map (message_row repr (sn_key s)) (drop (length ?old) (sn_messages s')) = Inr new"
      "insert_rows (sd_messages db) new = Inr t" "db' = (upsert_session s' db)\<lparr>sd_messages := t\<rparr>"
    using save n s1 key by (auto simp: save_sqlite_append_only_def Let_def split: sum.splits if_splits)
  have t: "t = sd_messages db @ new" "distinct (map mw_id t)" "distinct (map (\<lambda>w. (mw_key w, mw_seq w)) t)"
    using insert_rows_ok [OF c(3)] ok unfolding db_ok_def by blast+
  have "res_map (message_row repr (sn_key s)) (take (length ?old) (sn_messages s')) = Inr (rows_of (sn_key s) db)"
    using check_persisted_ok [OF c(1)] load_rows_back [OF ok] by blast
  then have "res_map (message_row repr (sn_key s)) (take (length ?old) (sn_messages s') @ drop (length ?old) (sn_messages s')) =
      Inr (rows_of (sn_key s) db @ new)" using c(2) by (simp only: res_map_append sum.case)
  then show ?thesis using that [of new] c(4) t n s1 by simp
qed

end
