(* ===== verification/CompactionProofs.thy ===== *)
theory CompactionProofs
  imports QueryCompaction
begin

text \<open>
  What compaction keeps: the persisted form reads back, the tool steps are counted exactly, the newest
  batch and every batch with a running shell execution stay, and the messages remain a conversation the
  chat protocol accepts.
\<close>

section \<open>The persisted form\<close>

lemma lit_inj_map [simp]: "lit a \<in> lit ` A \<longleftrightarrow> a \<in> A"
  by (auto simp: image_iff)

text \<open>A compaction whose fields are in the ranges the reader demands.\<close>

definition compaction_valid :: "react_compaction \<Rightarrow> bool" where
  "compaction_valid c \<longleftrightarrow> rc_summary c \<noteq> [] \<and> strip (rc_summary c) = rc_summary c \<and>
     (\<exists>bs. utf8_encode (rc_summary c) = Some bs \<and> length bs \<le> 524288) \<and>
     0 < rc_groups c \<and> 0 < rc_generation c \<and> 0 < rc_window c \<and> 0 < rc_soft c \<and> rc_soft c < rc_window c \<and>
     0 \<le> rc_before c \<and> 0 \<le> rc_after c"

lemma parse_payload:
  assumes "compaction_valid c"
  shows "parse_react_compaction (JObj (to_payload c)) source = Inr c"
  using assms
  by (cases "rc_trigger c")
    (auto simp: parse_react_compaction_def to_payload_def compaction_valid_def require_int_def get_default_def
      intro: react_compaction.equality)

section \<open>The chat protocol\<close>

text \<open>A tool message answers a call when it carries its identifier.\<close>

definition answers :: "pydict \<Rightarrow> json \<Rightarrow> bool" where
  "answers m call \<longleftrightarrow> get m ''role'' = Some (JStr (lit ''tool'')) \<and>
     (case call of JObj d \<Rightarrow> get d ''id'' \<noteq> None \<and> get m ''tool_call_id'' = get d ''id'' | _ \<Rightarrow> False)"

text \<open>The tool messages of a conversation are exactly the answers to the calls of the assistant message
  before them, in their order.\<close>

function protocol :: "pydict list \<Rightarrow> bool" where
  "protocol [] = True"
| "protocol (m # ms) \<longleftrightarrow> get m ''role'' \<noteq> Some (JStr (lit ''tool'')) \<and>
     list_all2 answers (take (length (message_calls m)) ms) (message_calls m) \<and>
     protocol (drop (length (message_calls m)) ms)"
  by pat_completeness auto
termination by (relation "measure length") auto

declare protocol.simps(2) [simp del]

lemma protocol_append: "protocol xs \<Longrightarrow> protocol ys \<Longrightarrow> protocol (xs @ ys)"
proof (induction xs rule: protocol.induct)
  case (2 m ms)
  have "length (message_calls m) \<le> length ms"
    using 2(2) by (auto simp: protocol.simps(2) [of m ms] dest: list_all2_lengthD)
  then show ?case using 2 by (simp add: protocol.simps(2))
qed simp

lemma protocol_concat: "(\<And>b. b \<in> set bs \<Longrightarrow> protocol b) \<Longrightarrow> protocol (concat bs)"
  by (induction bs) (auto intro: protocol_append)

lemma protocol_single: "get m ''role'' \<noteq> Some (JStr (lit ''tool'')) \<Longrightarrow> message_calls m = [] \<Longrightarrow> protocol [m]"
  by (simp add: protocol.simps(2))

lemma protocol_block:
  "get m ''role'' \<noteq> Some (JStr (lit ''tool'')) \<Longrightarrow> list_all2 answers rs (message_calls m) \<Longrightarrow> protocol (m # rs)"
  using list_all2_lengthD [of answers rs "message_calls m"] by (simp add: protocol.simps(2))

lemma protocol_compaction: "protocol (build_compaction_messages c i)"
  by (simp add: build_compaction_messages_def protocol.simps(2) message_calls.simps answers_def)

section \<open>Selecting the prefix\<close>

lemma select_count_bound:
  assumes "select_count loads repr est c = Inr n" "0 < n"
  shows "n < length (qc_batches c)"
    and "active_execution_batch loads repr (qc_batches c) = Inr (Some b) \<Longrightarrow> n \<le> b"
proof -
  define k where "k = keep_batches est (max 1 (qc_hard c div 5)) 0 0 (rev (qc_batches c))"
  let ?m = "min (length (qc_batches c) - 1) (max 1 (length (qc_batches c) - k))"
  have two: "\<not> length (qc_batches c) < 2" using assms by (auto simp: select_count_def)
  have e: "select_count loads repr est c = (case active_execution_batch loads repr (qc_batches c) of
      Inl e \<Rightarrow> Inl e | Inr None \<Rightarrow> Inr ?m | Inr (Some b) \<Rightarrow> Inr (min ?m b))"
    unfolding select_count_def Let_def k_def [symmetric] if_not_P [OF two] by (rule refl)
  show "n < length (qc_batches c)"
  proof (cases "active_execution_batch loads repr (qc_batches c)")
    case (Inl er)
    then show ?thesis using e assms(1) by simp
  next
    case (Inr a)
    have "n \<le> ?m" using e assms(1) unfolding Inr by (cases a) (simp_all del: One_nat_def, linarith)
    also have "?m < length (qc_batches c)" using two by linarith
    finally show ?thesis .
  qed
  show "n \<le> b" if "active_execution_batch loads repr (qc_batches c) = Inr (Some b)" using e assms(1) unfolding that by simp
qed

section \<open>The invariant of the compactor\<close>

text \<open>\<open>n\<close> is the number of batches recorded so far: those compacted and those kept.\<close>

definition compactor_ok :: "nat \<Rightarrow> compactor \<Rightarrow> bool" where
  "compactor_ok n c \<longleftrightarrow>
     (case qc_compaction c of
        None \<Rightarrow> length (qc_batches c) = n
      | Some rc \<Rightarrow> rc_groups rc + int (length (qc_batches c)) = int n \<and> 0 < rc_groups rc \<and> 0 < rc_generation rc \<and>
          rc_summary rc \<noteq> [] \<and> strip (rc_summary rc) = rc_summary rc \<and> rc_window rc = qc_window c \<and>
          rc_soft rc = qc_soft c \<and> 0 \<le> rc_before rc \<and> 0 \<le> rc_after rc) \<and>
     protocol (qc_base c) \<and> (\<forall>b \<in> set (qc_batches c). protocol b)"

lemma compactor_ok_batch:
  assumes "compactor_ok n c" "protocol b" "record_completed_batch b c = Inr c'"
  shows "compactor_ok (Suc n) c'"
  using assms by (auto simp: compactor_ok_def record_completed_batch_def split: if_splits option.splits)

lemma strip_idem [simp]: "strip (strip s) = strip s"
proof -
  have d: "dropWhile P (dropWhile P xs) = dropWhile P xs" for P and xs :: pystr
    by (induction xs) auto
  have "dropWhile py_space (rev (dropWhile py_space (rev xs))) = rev (dropWhile py_space (rev xs))"
    if "dropWhile py_space xs = xs" for xs
  proof (cases xs)
    case (Cons a as)
    then have "\<not> py_space a" using that by (metis dropWhile_eq_self_iff list.distinct(1) list.sel(1))
    then have "\<exists>ys. dropWhile py_space (rev xs) = ys @ [a]"
      using Cons by (auto simp: dropWhile_append split: if_splits)
    then show ?thesis using \<open>\<not> py_space a\<close> by auto
  qed simp
  from this [of "dropWhile py_space s"] show ?thesis by (simp add: strip_def d)
qed

text \<open>A successful compaction: the prefix, not empty and without the newest batch, is replaced by the pair
  of messages with its summary; what is kept and what is pending follow in their order.\<close>

lemma compact_with_ok:
  assumes ok: "compactor_ok n c" and est: "\<And>ms. 0 \<le> ce_estimate env ms"
    and count: "0 < count" "count \<le> length (qc_batches c)"
    and r: "compact_with env c messages p trigger count answer = Inr (c', ms')"
  shows "compactor_ok n c' \<and> qc_batches c' = drop count (qc_batches c) \<and> qc_base c' = qc_base c \<and>
    qc_window c' = qc_window c \<and> qc_soft c' = qc_soft c \<and> qc_hard c' = qc_hard c \<and>
    ce_estimate env ms' < qc_hard c \<and>
    (\<exists>rc i. qc_compaction c' = Some rc \<and> rc_trigger rc = trigger \<and>
      ms' = qc_base c @ build_compaction_messages rc i @ concat (drop count (qc_batches c)) @
        (case p of None \<Rightarrow> [] | Some k \<Rightarrow> drop k messages))"
proof -
  let ?generation = "case qc_compaction c of None \<Rightarrow> 1 | Some rc \<Rightarrow> rc_generation rc + 1"
  define cand where "cand = \<lparr>rc_summary = strip answer,
      rc_groups = int count + (case qc_compaction c of None \<Rightarrow> 0 | Some rc \<Rightarrow> rc_groups rc),
      rc_generation = ?generation, rc_trigger = trigger, rc_window = qc_window c, rc_soft = qc_soft c,
      rc_before = ce_estimate env messages, rc_after = 0\<rparr>"
  obtain i where s: "strip answer \<noteq> []" and i: "compaction_call_id (qc_scope c) ?generation = Some i"
    using r by (auto simp: compact_with_def Let_def split: if_splits option.splits)
  define pending where "pending = (case p of None \<Rightarrow> [] | Some k \<Rightarrow> drop k messages)"
  define rebuilt where "rebuilt = qc_base c @ build_compaction_messages cand i @ concat (drop count (qc_batches c)) @ pending"
  define rc where "rc = cand\<lparr>rc_after := ce_estimate env rebuilt\<rparr>"
  have res: "ce_estimate env rebuilt < qc_hard c"
      "c' = c\<lparr>qc_compaction := Some rc, qc_batches := drop count (qc_batches c)\<rparr>" "ms' = rebuilt"
    using r s i by (auto simp: compact_with_def Let_def rebuilt_def pending_def cand_def rc_def split: if_splits)
  have b: "build_compaction_messages rc i = build_compaction_messages cand i"
    by (simp add: build_compaction_messages_def rc_def)
  have "\<forall>b \<in> set (drop count (qc_batches c)). protocol b" using ok in_set_dropD by (fastforce simp: compactor_ok_def)
  then have "compactor_ok n c'"
    using ok est count s by (auto simp: res(2) compactor_ok_def rc_def cand_def split: option.splits)
  moreover have "qc_compaction c' = Some rc" "rc_trigger rc = trigger" by (simp_all add: res(2) rc_def cand_def)
  moreover have "ms' = qc_base c @ build_compaction_messages rc i @ concat (drop count (qc_batches c)) @ pending"
    by (simp add: res(3) rebuilt_def b)
  ultimately show ?thesis using res(1,3) unfolding pending_def by (auto simp: res(2))
qed

end
