(* ===== verification/SessionProofs.thy ===== *)
theory SessionProofs
  imports SessionHistory CompactionProofs
begin

text \<open>
  What the history of a session is: the search of the truncation ends with the number it states, and the
  replayed messages are a conversation of the chat protocol.
\<close>

section \<open>Truncation\<close>

lemma nat_text_mono: "m \<le> n \<Longrightarrow> length (nat_text m) \<le> length (nat_text n)"
proof (induction n arbitrary: m rule: nat_text.induct)
  case (1 n)
  show ?case
  proof (cases "m < 10")
    case True
    then show ?thesis by (simp add: nat_text.simps [of m] nat_text.simps [of n])
  next
    case False
    then have n: "\<not> n < 10" using 1(2) by simp
    have "m div 10 \<le> n div 10" using 1(2) by (rule div_le_mono)
    from 1(1) [OF n this] show ?thesis using n False by (simp add: nat_text.simps [of m] nat_text.simps [of n])
  qed
qed

lemma kept_mono: "m \<le> n \<Longrightarrow> kept_chars limit n \<le> kept_chars limit m"
  using nat_text_mono [of m n] by (simp add: kept_chars_def truncation_marker_def del: nat_text.simps)

text \<open>The search climbs: the next number is never smaller, and never more than the text has.\<close>

lemma omitted_chars_ends:
  assumes "k \<le> n - kept_chars limit k"
  shows "\<exists>m. omitted_chars n limit k = Some m \<and> m = n - kept_chars limit m \<and> k \<le> m"
  using assms
proof (induction "n - k" arbitrary: k rule: less_induct)
  case less
  let ?a = "n - kept_chars limit k"
  show ?case
  proof (cases "?a = k")
    case True
    then show ?thesis by (subst omitted_chars.simps) (simp add: Let_def)
  next
    case False
    then have k: "k < ?a" using less(2) by simp
    then have "n - ?a < n - k" by simp
    moreover have "?a \<le> n - kept_chars limit ?a" using kept_mono [of k ?a limit] k by simp
    ultimately obtain m where "omitted_chars n limit ?a = Some m" "m = n - kept_chars limit m" "?a \<le> m"
      using less(1) by blast
    then show ?thesis using False k by (subst omitted_chars.simps) (auto simp: Let_def)
  qed
qed

text \<open>A long result is cut to a header, a head and a tail with the marker between them, whose number is what
  is missing.\<close>

lemma truncate_cases:
  fixes v :: json and repr :: "json \<Rightarrow> pystr"
  defines "t \<equiv> py_str repr v"
  obtains (whole) "length t \<le> limit" "truncate_tool_result repr v limit = Some t"
  | (cut) h r m where "limit < length t" "h + m + r = length t" "h = kept_chars limit m div 2" "h + r = kept_chars limit m"
      "truncate_tool_result repr v limit =
        Some (lit ''Total output lines: '' @ nat_text (line_count t False) @ [10, 10] @
          take h t @ truncation_marker m @ drop (h + m) t)"
proof (cases "length t \<le> limit")
  case True
  then show ?thesis by (intro whole) (simp_all add: truncate_tool_result_def t_def Let_def)
next
  case False
  have "length t - limit \<le> length t - kept_chars limit (length t - limit)" by (simp add: kept_chars_def)
  from omitted_chars_ends [OF this] obtain m
    where m: "omitted_chars (length t) limit (length t - limit) = Some m" "m = length t - kept_chars limit m" by blast
  have k: "kept_chars limit m \<le> limit" by (simp add: kept_chars_def)
  let ?k = "kept_chars limit m"
  have d: "(if ?k - ?k div 2 = 0 then [] else drop (length t - (?k - ?k div 2)) t) = drop (?k div 2 + m) t"
    using m(2) False k by (cases "?k - ?k div 2 = 0") (auto intro: arg_cong [of _ _ "\<lambda>i. drop i t"])
  show ?thesis
    by (rule cut [of "?k div 2" m "?k - ?k div 2"])
      (use False m k d in \<open>simp_all add: truncate_tool_result_def t_def [symmetric] Let_def\<close>)
qed

lemma truncate_total: "\<exists>t. truncate_tool_result repr v limit = Some t"
  by (rule truncate_cases [of repr v limit]) blast+

lemma truncate_not_None [simp]: "truncate_tool_result repr v limit \<noteq> None"
  using truncate_total [of repr v limit] by auto

section \<open>The replayed messages\<close>

lemma each_total: "(\<And>x. x \<in> set xs \<Longrightarrow> \<exists>r. f x = Some r) \<Longrightarrow> \<exists>r. each f xs = Some r"
proof (induction xs)
  case (Cons x xs)
  obtain r where r: "f x = Some r" using Cons(2) by auto
  obtain q where q: "each f xs = Some q" using Cons(1) Cons(2) by (metis list.set_intros(2))
  show ?case using r q by (cases r; cases q) auto
qed simp

lemma each_protocol:
  "each f xs = Some (Inr ys) \<Longrightarrow> (\<And>x zs. f x = Some (Inr zs) \<Longrightarrow> protocol zs) \<Longrightarrow> protocol ys"
proof (induction xs arbitrary: ys)
  case (Cons x xs)
  obtain zs ws where x: "f x = Some (Inr zs)" and r: "each f xs = Some (Inr ws)" and ys: "ys = zs @ ws"
    using Cons(2) by (auto split: option.splits sum.splits)
  show ?case unfolding ys by (rule protocol_append) (use Cons x r in blast)+
qed simp

text \<open>The results of a group, and each is the answer to its call.\<close>

lemma replay_result_total: "\<exists>r. replay_result repr call = Some r"
  by (auto simp: replay_result_def split: sum.splits option.splits)

lemma replay_answers:
  assumes "replay_call call = Inr c" "replay_result repr call = Some (Inr m)"
  shows "answers m c"
  using assms by (auto simp: replay_call_def replay_result_def answers_def split: sum.splits option.splits)

lemma each_single:
  "each (\<lambda>c. map_option (map_sum id (\<lambda>m. [m])) (f c)) (x # xs) = Some (Inr ys) \<longleftrightarrow>
    (\<exists>y zs. f x = Some (Inr y) \<and> each (\<lambda>c. map_option (map_sum id (\<lambda>m. [m])) (f c)) xs = Some (Inr zs) \<and> ys = y # zs)"
proof (cases "f x")
  case (Some r)
  then show ?thesis by (cases r) (auto split: option.splits sum.splits)
qed simp

lemma replay_results:
  assumes "each (\<lambda>c. map_option (map_sum id (\<lambda>m. [m])) (replay_result repr c)) calls = Some (Inr rs)"
    and "res_map replay_call calls = Inr cs"
  shows "list_all2 answers rs cs"
  using assms
proof (induction calls arbitrary: rs cs)
  case (Cons call calls)
  obtain c cs' where c: "replay_call call = Inr c" "res_map replay_call calls = Inr cs'" "cs = c # cs'"
    using Cons(3) by (auto split: sum.splits)
  obtain m rs' where m: "replay_result repr call = Some (Inr m)"
      "each (\<lambda>c. map_option (map_sum id (\<lambda>m. [m])) (replay_result repr c)) calls = Some (Inr rs')" "rs = m # rs'"
    using Cons(2) unfolding each_single by blast
  show ?case using Cons(1) [OF m(2) c(2)] replay_answers [OF c(1) m(1)] m(3) c(3) by simp
qed simp

lemma replay_group_total: "\<exists>r. replay_group repr g = Some r"
proof -
  have "\<exists>r. each (\<lambda>c. map_option (map_sum id (\<lambda>m. [m])) (replay_result repr c)) calls = Some r" for calls
    by (rule each_total) (use replay_result_total in fastforce)
  then show ?thesis by (auto simp: replay_group_def split: sum.splits option.splits) (metis option.simps(3))
qed

lemma replay_group_protocol:
  assumes "replay_group repr g = Some (Inr ms)"
  shows "protocol ms"
proof (cases "ms = []")
  case False
  obtain d calls cs rs m where d: "res_map replay_call calls = Inr cs"
      "each (\<lambda>c. map_option (map_sum id (\<lambda>m. [m])) (replay_result repr c)) calls = Some (Inr rs)"
      "ms = m # rs" "get m ''role'' = Some (JStr (lit ''assistant''))" "get m ''tool_calls'' = Some (JArr cs)"
    using assms False by (auto simp: replay_group_def split: sum.splits option.splits if_splits)
  have "message_calls m = cs" using d(4,5) by (simp add: message_calls.simps)
  then show ?thesis using protocol_block [of m rs] replay_results [OF d(2,1)] d(3,4) by simp
qed simp

lemma replay_groups_not_None [simp]: "each (replay_group repr) gs \<noteq> None"
  using each_total [of gs "replay_group repr"] replay_group_total by (metis option.simps(3))

lemma replay_message_total: "\<exists>r. replay_message repr key m = Some r"
  by (auto simp: replay_message_def split: sum.splits option.splits prod.splits)

lemma replay_message_protocol:
  assumes "replay_message repr key m = Some (Inr ms)"
  shows "protocol ms"
proof -
  have user: "protocol [[(lit ''role'', JStr (lit ''user'')), (lit ''content'', v)]]" for v
    by (rule protocol_single) (simp_all add: message_calls.simps)
  have reply: "protocol [[(lit ''role'', JStr (lit ''assistant'')), (lit ''content'', v)] @ (if b then [(lit ''reasoning_content'', w)] else [])]"
    for v w b by (rule protocol_single) (simp_all add: message_calls.simps)
  have pair: "protocol ps" if "replay_compaction repr key m chain = Inr (ps, gs)" for ps chain gs
    using that by (auto simp: replay_compaction_def build_replay_compaction_messages_def Let_def protocol_compaction
        split: if_splits sum.splits option.splits)
  have steps: "protocol ss" if "each (replay_group repr) gs = Some (Inr ss)" for ss gs
    by (rule each_protocol [OF that]) (rule replay_group_protocol)
  consider (u) "has_role ''user'' m" | (n) "\<not> has_role ''user'' m" "\<not> has_role ''assistant'' m" | (a) "\<not> has_role ''user'' m" "has_role ''assistant'' m"
    by blast
  then show ?thesis
  proof cases
    case a
    obtain chain ps gs ss where r: "replay_compaction repr key m chain = Inr (ps, gs)" "each (replay_group repr) gs = Some (Inr ss)"
        "ms = ps @ ss @ (if \<not> truthy (get_default m ''content'' JNull) then []
           else (let reasoning = get_or m ''reasoning_content'' (get_default m ''thinking'' JNull)
             in [[(lit ''role'', JStr (lit ''assistant'')), (lit ''content'', get_default m ''content'' (JStr []))] @
                (if truthy reasoning then [(lit ''reasoning_content'', reasoning)] else [])]))"
      using assms a unfolding replay_message_def by (auto split: sum.splits option.splits prod.splits simp del: append_assoc)
    show ?thesis unfolding r(3)
      by (intro protocol_append pair [OF r(1)] steps [OF r(2)]) (use reply in \<open>auto simp: Let_def\<close>)
  qed (use assms user in \<open>auto simp: replay_message_def\<close>)
qed

section \<open>The history\<close>

lemma get_history_total: "\<exists>r. get_history repr n i s = Some r"
  unfolding get_history_def by (rule each_total) (rule replay_message_total)

lemma get_history_protocol:
  assumes "get_history repr n i s = Some (Inr h)"
  shows "protocol h"
  using assms unfolding get_history_def by (rule each_protocol) (rule replay_message_protocol)

lemma get_history_starts:
  assumes "get_history repr n i s = Some (Inr h)" "h \<noteq> []"
  shows "has_role ''user'' (hd h)"
proof -
  let ?xs = "dropWhile (\<lambda>m. \<not> has_role ''user'' m) (selected_messages n i (sn_messages s))"
  have "?xs \<noteq> []" using assms unfolding get_history_def by (metis each.simps(1) option.inject sum.inject(2))
  then obtain m ms where x: "?xs = m # ms" by (meson neq_Nil_conv)
  then have "has_role ''user'' m" by (auto simp: dropWhile_eq_Cons_conv)
  then show ?thesis using assms(1) unfolding get_history_def x
    by (auto simp: replay_message_def has_role_def split: option.splits sum.splits)
qed

end
