(* ===== verification/SessionTheorems.thy ===== *)
theory SessionTheorems
  imports SessionStoreProofs SessionProofs
begin

text \<open>
  The properties of sessions (\<open>src/session/manager.py\<close>): what a history holds, what a save and a load
  keep, and what happens to stored rows and admissions in every history of the tables.
\<close>

section \<open>Histories of the tables\<close>

text \<open>The operations that were committed, by any process and on any session object; an operation that raised
  has changed nothing, except a release that did not find its row.\<close>

datatype session_event =
    Saved pystr
  | Acquired pystr pystr
  | Released pystr pystr
  | DeletedSession pystr
  | DeletedMessages "pystr list"

inductive session_history :: "(json \<Rightarrow> pystr) \<Rightarrow> session_db \<Rightarrow> session_event list \<Rightarrow> session_db \<Rightarrow> bool"
  for repr db where
  history_nil: "session_history repr db [] db"
| history_save: "session_history repr db es d \<Longrightarrow> list_all dict_ok (sn_messages s) \<Longrightarrow>
    save_sqlite_append_only repr s d = (Inr d', s') \<Longrightarrow> session_history repr db (es @ [Saved (sn_key s)]) d'"
| history_acquire: "session_history repr db es d \<Longrightarrow> acquire_admission key owner now d = Inr d' \<Longrightarrow>
    session_history repr db (es @ [Acquired key owner]) d'"
| history_release: "session_history repr db es d \<Longrightarrow> release_admission key owner d = (r, d') \<Longrightarrow>
    session_history repr db (es @ [Released key owner]) d'"
| history_delete: "session_history repr db es (sg_db g) \<Longrightarrow> delete_session key mirrored g = (Inr b, g') \<Longrightarrow>
    session_history repr db (es @ [DeletedSession key]) (sg_db g')"
| history_erase: "session_history repr db es (sg_db g) \<Longrightarrow> delete_messages ids now g = Inr (n, g') \<Longrightarrow>
    session_history repr db (es @ [DeletedMessages ids]) (sg_db g')"

text \<open>The events that may remove a row of a message, and the row of an admission.\<close>

fun erases :: "stored_message \<Rightarrow> session_event \<Rightarrow> bool" where
  "erases w (DeletedSession key) = (key = mw_key w)"
| "erases w (DeletedMessages ids) = (mw_id w \<in> strip ` set ids)"
| "erases w e = False"

fun frees :: "admission_row \<Rightarrow> session_event \<Rightarrow> bool" where
  "frees a (DeletedSession key) = (key = aw_key a)"
| "frees a (Released key owner) = (key = aw_key a \<and> owner = aw_owner a)"
| "frees a e = False"

section \<open>The tables stay well formed\<close>

lemma set_missing_ok: "dict_ok m \<Longrightarrow> dict_ok (set_missing k v m)"
  by (auto simp: dict_ok_def set_missing_def map_of_eq_None_iff)

lemma number_messages_ok:
  "number_messages key i ms = Inr ms' \<Longrightarrow> list_all dict_ok ms \<Longrightarrow> list_all dict_ok ms'"
proof (induction key i ms arbitrary: ms' rule: number_messages.induct)
  case (2 key i m ms)
  then show ?case by (auto simp: set_missing_ok split: option.splits sum.splits simp del: nat_text.simps)
qed simp

lemma normalize_dict_ok:
  "normalize_messages s = (Inr u, s') \<Longrightarrow> list_all dict_ok (sn_messages s) \<Longrightarrow> list_all dict_ok (sn_messages s')"
  by (auto simp: normalize_messages_def intro: number_messages_ok split: sum.splits)

lemma rows_ok:
  "res_map (message_row repr key) ms = Inr ws \<Longrightarrow> list_all dict_ok ms \<Longrightarrow> w \<in> set ws \<Longrightarrow> row_ok w \<and> mw_key w = key"
proof (induction ms arbitrary: ws)
  case (Cons m ms)
  then show ?case by (auto dest: message_row_ok split: sum.splits)
qed simp

lemma upsert_keys: "distinct (map sw_key (sd_sessions db)) \<Longrightarrow> distinct (map sw_key (sd_sessions (upsert_session s db)))"
  by (auto simp: upsert_session_def row_by_None split: option.splits)

lemma save_db_ok:
  assumes "save_sqlite_append_only repr s db = (Inr db', s')" "db_ok db" "list_all dict_ok (sn_messages s)"
  shows "db_ok db'"
proof (rule save_appends [OF assms(1,2)])
  fix new
  assume new: "res_map (message_row repr (sn_key s)) (sn_messages s') = Inr (rows_of (sn_key s) db @ new)"
    "sd_messages db' = sd_messages db @ new" "sd_admissions db' = sd_admissions db"
    "distinct (map mw_id (sd_messages db'))" "distinct (map (\<lambda>w. (mw_key w, mw_seq w)) (sd_messages db'))"
    "sd_sessions db' = sd_sessions (upsert_session s' db)" "normalize_messages s = (Inr (), s')"
  have "row_ok w" if "w \<in> set new" for w
    using rows_ok [OF new(1) normalize_dict_ok [OF new(7) assms(3)]] that by simp
  then have "\<forall>w \<in> set (sd_messages db'). row_ok w" using assms(2) new(2) by (auto simp: db_ok_def)
  then show "db_ok db'" using new(3-6) assms(2) upsert_keys [of db s'] by (simp add: db_ok_def)
qed

lemma distinct_filterI: "distinct (map f xs) \<Longrightarrow> distinct (map f (filter P xs))"
  by (rule distinct_map_filter)

lemma history_db_ok: "session_history repr db es d \<Longrightarrow> db_ok db \<Longrightarrow> db_ok d"
proof (induction rule: session_history.induct)
  case (history_save es d s d' s')
  then show ?case using save_db_ok by blast
next
  case (history_acquire es d key owner now d')
  then show ?case by (auto simp: db_ok_def acquire_admission_def row_by_None split: if_splits)
next
  case (history_release es d key owner r d')
  then show ?case by (auto simp: db_ok_def release_admission_def Let_def intro: distinct_filterI split: if_splits)
next
  case (history_delete es g key mirrored b g')
  then show ?case by (auto simp: db_ok_def delete_session_def intro: distinct_filterI split: sum.splits if_splits)
next
  case (history_erase es g ids now n g')
  have "map sw_key (map (\<lambda>w. if P w then w\<lparr>sw_updated_at := now\<rparr> else w) ws) = map sw_key ws" for P and ws :: "session_row list"
    by (induction ws) auto
  with history_erase show ?case
    by (auto simp: db_ok_def delete_messages_def Let_def cache_drop_def intro: distinct_filterI split: if_splits simp del: map_map)
qed simp

section \<open>Rows and admissions\<close>

lemma history_keeps_row:
  "session_history repr db es d \<Longrightarrow> db_ok db \<Longrightarrow> w \<in> set (sd_messages db) \<Longrightarrow> \<not> list_ex (erases w) es \<Longrightarrow>
    w \<in> set (sd_messages d)"
proof (induction rule: session_history.induct)
  case (history_save es d s d' s')
  have "db_ok d" using history_db_ok [OF history_save(1,5)] .
  from save_appends [OF history_save(3) this] obtain new where "sd_messages d' = sd_messages d @ new" by metis
  then show ?case using history_save by simp
next
  case (history_acquire es d key owner now d')
  then show ?case by (auto simp: acquire_admission_def split: if_splits)
next
  case (history_release es d key owner r d')
  then show ?case by (auto simp: release_admission_def Let_def split: if_splits)
next
  case (history_delete es g key mirrored b g')
  then show ?case by (auto simp: delete_session_def split: sum.splits if_splits)
next
  case (history_erase es g ids now n g')
  then show ?case by (auto simp: delete_messages_def Let_def cache_drop_def split: if_splits)
qed simp

lemma history_keeps_admission:
  "session_history repr db es d \<Longrightarrow> db_ok db \<Longrightarrow> a \<in> set (sd_admissions db) \<Longrightarrow> \<not> list_ex (frees a) es \<Longrightarrow>
    a \<in> set (sd_admissions d)"
proof (induction rule: session_history.induct)
  case (history_save es d s d' s')
  have "db_ok d" using history_db_ok [OF history_save(1,5)] .
  from save_appends [OF history_save(3) this] have "sd_admissions d' = sd_admissions d" by metis
  then show ?case using history_save by simp
next
  case (history_acquire es d key owner now d')
  then show ?case by (auto simp: acquire_admission_def split: if_splits)
next
  case (history_release es d key owner r d')
  then show ?case by (auto simp: release_admission_def Let_def split: if_splits)
next
  case (history_delete es g key mirrored b g')
  then show ?case by (auto simp: delete_session_def split: sum.splits if_splits)
next
  case (history_erase es g ids now n g')
  then show ?case by (auto simp: delete_messages_def Let_def cache_drop_def split: if_splits)
qed simp

section \<open>Reading back what was saved\<close>

text \<open>The five columns have the types the annotations of \<open>add_message\<close> give them.\<close>

definition typed_message :: "pydict \<Rightarrow> bool" where
  "typed_message m \<longleftrightarrow> dict_ok m \<and>
     (\<exists>i n r c t. get m ''id'' = Some (JStr i) \<and> get m ''seq'' = Some (JInt n) \<and> get m ''role'' = Some (JStr r) \<and>
        get m ''content'' = Some (JStr c) \<and> get m ''timestamp'' = Some (JStr t))"

lemma map_of_sorted_dict:
  assumes "distinct (map fst d)"
  shows "map_of (sorted_dict d) k = map_option sort_keys (map_of d k)"
proof -
  have d: "distinct (map fst (map (map_prod id sort_keys) d))" using assms by (simp add: comp_def)
  have e: "map_of (sorted_dict d) = map_of (map (map_prod id sort_keys) d)"
    unfolding sorted_dict_def sort_keys.simps json.case
    by (rule map_of_inject_set [THEN iffD2])
      (use d assms sorted_dict_distinct [of d] in \<open>simp_all add: sorted_dict_def\<close>)
  have "map_of (map (map_prod id sort_keys) d) k = map_option sort_keys (map_of d k)"
    by (induction d) auto
  then show ?thesis by (simp only: e)
qed

lemma row_message_reads:
  assumes "typed_message m" "message_row repr key m = Inr w"
  shows "map_of (row_message w) k = map_option sort_keys (map_of m k)"
proof -
  obtain i n r c t where f: "get m ''id'' = Some (JStr i)" "get m ''seq'' = Some (JInt n)" "get m ''role'' = Some (JStr r)"
      "get m ''content'' = Some (JStr c)" "get m ''timestamp'' = Some (JStr t)"
    using assms(1) by (auto simp: typed_message_def)
  let ?e = "filter (\<lambda>(k, v). k \<notin> set row_keys) m"
  have w: "mw_id w = i" "mw_seq w = n" "mw_role w = r" "mw_content w = c" "mw_ts w = t" "mw_extra w = sorted_dict ?e"
    using assms(2) f by (auto simp: message_row_def item_def get_text_def get_or_def split: sum.splits if_splits)
  have d: "distinct (map fst ?e)" using assms(1) by (simp add: typed_message_def dict_ok_def distinct_map_filter)
  have e: "map_of ?e k = (if k \<in> set row_keys then None else map_of m k)"
    by (induction m) auto
  show ?thesis
    unfolding row_message_eq [OF message_row_ok(1) [OF assms(2)], OF assms(1) [unfolded typed_message_def, THEN conjunct1]]
    using f w e map_of_sorted_dict [OF d, of k] by (auto simp: map_add_def row_keys_def split: option.splits if_splits)
qed

section \<open>A sample\<close>

definition hello_message :: pydict where
  "hello_message = [(lit ''id'', JStr [109]), (lit ''seq'', JInt 0), (lit ''role'', JStr (lit ''user'')),
     (lit ''content'', JStr [104]), (lit ''timestamp'', JStr [116])]"

definition hello_session :: session where
  "hello_session = \<lparr>sn_key = [107], sn_messages = [hello_message], sn_created_at = [48], sn_updated_at = [49],
     sn_metadata = [], sn_last_consolidated = 0, sn_reserved = None\<rparr>"

definition empty_db :: session_db where
  "empty_db = \<lparr>sd_sessions = [], sd_messages = [], sd_admissions = []\<rparr>"

definition hello_row :: stored_message where
  "hello_row = \<lparr>mw_id = [109], mw_key = [107], mw_seq = 0, mw_role = lit ''user'', mw_content = [104], mw_ts = [116],
     mw_extra = []\<rparr>"

definition hello_db :: session_db where
  "hello_db = \<lparr>sd_sessions = [\<lparr>sw_key = [107], sw_created_at = [48], sw_updated_at = [49], sw_metadata = [],
       sw_last_consolidated = 0\<rparr>], sd_messages = [hello_row], sd_admissions = []\<rparr>"

lemma empty_db_ok: "db_ok empty_db"
  by (simp add: db_ok_def empty_db_def)

lemma hello_normal: "normalize_messages hello_session = (Inr (), hello_session)"
  by (simp add: normalize_messages_def hello_session_def hello_message_def sha256_text_def utf8_char_def set_missing_def nat_text.simps [of 0]
    del: nat_text.simps)

lemma hello_row_of: "message_row repr [107] hello_message = Inr hello_row"
  by (simp add: message_row_def hello_message_def hello_row_def item_def get_text_def get_or_def row_keys_def sorted_dict_def)

lemma hello_save: "save_sqlite_append_only repr hello_session empty_db = (Inr hello_db, hello_session)"
proof -
  have b: "bind_all (session_texts hello_session) 0 = Inr ()" "bind_all (row_texts hello_row) 0 = Inr ()"
    by (simp_all add: bind_all_def session_texts_def row_texts_def hello_session_def hello_row_def text_ok_def int_ok_def
        utf8_char_def sorted_dict_def lit_def)
  have k: "sn_key hello_session = [107]" "sn_messages hello_session = [hello_message]" "sn_last_consolidated hello_session = 0"
    by (simp_all add: hello_session_def)
  have "mw_seq hello_row = 0" by (simp add: hello_row_def)
  then show ?thesis
    by (simp add: save_sqlite_append_only_def hello_normal k b hello_row_of load_message_rows_def rows_of_def empty_db_def
        upsert_session_def hello_db_def sorted_dict_def Let_def)
      (simp add: hello_session_def)
qed

lemma hello_typed: "typed_message hello_message"
  by (simp add: typed_message_def hello_message_def dict_ok_def)

lemma hello_history: "session_history repr empty_db [Saved [107]] hello_db"
  using history_save [OF history_nil [of repr empty_db], of hello_session hello_db hello_session] hello_save [of repr] hello_typed
  by (simp add: hello_session_def typed_message_def)

section \<open>The properties\<close>

definition seq_of :: "pydict \<Rightarrow> int" where
  "seq_of m = (case get m ''seq'' of Some (JInt n) \<Rightarrow> n | _ \<Rightarrow> 0)"

lemma typed_row_seq: "typed_message m \<Longrightarrow> message_row repr key m = Inr w \<Longrightarrow> mw_seq w = seq_of m"
  by (auto simp: typed_message_def message_row_def item_def seq_of_def split: sum.splits)

lemma rows_list_all2:
  "res_map (message_row repr key) ms = Inr ws \<Longrightarrow> list_all2 (\<lambda>w m. message_row repr key m = Inr w) ws ms"
proof (induction ms arbitrary: ws)
  case (Cons m ms)
  then show ?case by (auto split: sum.splits)
qed simp

lemma typed_seqs:
  "list_all2 (\<lambda>w m. message_row repr key m = Inr w) ws ms \<Longrightarrow> list_all typed_message ms \<Longrightarrow>
    map mw_seq ws = map seq_of ms"
  by (induction rule: list_all2_induct) (auto intro: typed_row_seq)

text \<open>With ascending numbers the stored rows come back in the order of the session.\<close>

lemma saved_rows_order:
  assumes "save_sqlite_append_only repr s db = (Inr db', s')" "db_ok db" "list_all dict_ok (sn_messages s)"
    and "list_all typed_message (sn_messages s')" "sorted_wrt (<) (map seq_of (sn_messages s'))"
  shows "res_map (message_row repr (sn_key s)) (sn_messages s') = Inr (rows_of (sn_key s) db')"
proof (rule save_appends [OF assms(1,2)])
  let ?key = "sn_key s"
  fix new
  assume new: "res_map (message_row repr ?key) (sn_messages s') = Inr (rows_of ?key db @ new)"
    "sd_messages db' = sd_messages db @ new" "distinct (map (\<lambda>w. (mw_key w, mw_seq w)) (sd_messages db'))"
    "normalize_messages s = (Inr (), s')"
  let ?F = "filter (\<lambda>w. mw_key w = ?key) (sd_messages db')" and ?R = "rows_of ?key db @ new"
  note rows = rows_list_all2 [OF new(1)]
  have "map mw_seq ?R = map seq_of (sn_messages s')" by (rule typed_seqs [OF rows assms(4)])
  then have "sorted (map mw_seq ?R)" using assms(5) by (simp add: strict_sorted_iff)
  moreover have "filter (\<lambda>w. mw_key w = ?key) new = new"
    using rows_ok [OF new(1) normalize_dict_ok [OF new(4) assms(3)]] by (simp add: filter_id_conv)
  then have "mset ?F = mset ?R" by (simp add: new(2) rows_of_def)
  moreover have "inj_on mw_seq (set ?F)" using new(3) by (auto simp: inj_on_def distinct_map)
  ultimately have "sort_key mw_seq ?F = ?R" by (intro sort_key_inj_key_eq)
  then show ?thesis using new(1) by (simp add: rows_of_def)
qed

text \<open>C23: What is saved is what is loaded: after a save of a session whose messages are numbered in
  ascending order, the messages another process loads are those of the session, one by one and field by
  field, with the keys of nested objects in order.\<close>

theorem session_loads_back:
  assumes "save_sqlite_append_only repr s db = (Inr db', s')" "db_ok db" "list_all dict_ok (sn_messages s)"
    and "list_all typed_message (sn_messages s')" "sorted_wrt (<) (map seq_of (sn_messages s'))"
  shows "list_all2 (\<lambda>loaded m. \<forall>k. map_of loaded k = map_option sort_keys (map_of m k))
    (load_message_rows (sn_key s) db') (sn_messages s')"
proof -
  note rows = rows_list_all2 [OF saved_rows_order [OF assms]]
  then show ?thesis using assms(4) unfolding load_message_rows_def
    by (auto simp: list_all2_conv_all_nth list_all_length intro!: row_message_reads)
qed

text \<open>C22: No stored message is lost or changed by a save: in every history of saves by any number of processes,
  admissions and deletions a row stays as it is until its session or its identifier is deleted, and until
  then every session object that does not hold it, a cached one of another process for example, is refused
  whatever it wants to save.\<close>

theorem stale_session_refused:
  assumes "session_history repr db es db'" "db_ok db" "w \<in> set (sd_messages db)" "\<not> list_ex (erases w) es"
    and "sn_key s = mw_key w"
    and "\<And>s' ws. normalize_messages s = (Inr (), s') \<Longrightarrow>
      res_map (message_row repr (sn_key s)) (sn_messages s') = Inr ws \<Longrightarrow> w \<notin> set ws"
  shows "w \<in> set (sd_messages db') \<and> (\<exists>e s'. save_sqlite_append_only repr s db' = (Inl e, s'))"
proof -
  have w: "w \<in> set (sd_messages db')" by (rule history_keeps_row [OF assms(1-4)])
  obtain r s' where r: "save_sqlite_append_only repr s db' = (r, s')" by fastforce
  have "r \<noteq> Inr d" for d
  proof
    assume "r = Inr d"
    from save_appends [OF r [unfolded this] history_db_ok [OF assms(1,2)]] obtain new where
      "res_map (message_row repr (sn_key s)) (sn_messages s') = Inr (rows_of (sn_key s) db' @ new)"
      "normalize_messages s = (Inr (), s')" by metis
    then show False using assms(6) w assms(5) by fastforce
  qed
  then show ?thesis using w r by (cases r) auto
qed

text \<open>An admission excludes everybody else until its owner releases it or the session is deleted; there
  is no other way out, so a session whose owner has died, and with it the only copy of its identifier,
  can never be used again.\<close>

theorem admission_excludes:
  assumes "session_history repr db es db'" "db_ok db" "a \<in> set (sd_admissions db)" "\<not> list_ex (frees a) es"
  shows "\<exists>e. acquire_admission (aw_key a) owner now db' = Inl e"
proof -
  have "a \<in> set (sd_admissions db')" by (rule history_keeps_admission [OF assms])
  then have "row_by aw_key (aw_key a) (sd_admissions db') \<noteq> None" by (auto simp: row_by_None)
  then show ?thesis by (simp add: acquire_admission_def)
qed

text \<open>C24: A session always gives a history or an error, never runs on, and a history is a conversation the
  model accepts: it starts with a user, every replayed tool call has its result, in order, and there is no
  result without a call.\<close>

theorem session_history_valid:
  "case get_history repr n i s of
     None \<Rightarrow> False
   | Some (Inl e) \<Rightarrow> True
   | Some (Inr h) \<Rightarrow> protocol h \<and> (h = [] \<or> has_role ''user'' (hd h))"
proof -
  obtain r where r: "get_history repr n i s = Some r" using get_history_total by blast
  show ?thesis
  proof (cases r)
    case (Inr h)
    have "h = [] \<or> has_role ''user'' (hd h)" using get_history_starts r Inr by blast
    then show ?thesis using get_history_protocol r Inr by simp
  qed (use r in simp)
qed

section \<open>Witnesses\<close>

theorem session_loads_back_witness:
  "list_all2 (\<lambda>loaded m. \<forall>k. map_of loaded k = map_option sort_keys (map_of m k))
    (load_message_rows [107] hello_db) [hello_message]"
  using session_loads_back [OF hello_save [of "\<lambda>_. []"] empty_db_ok] hello_typed
  by (simp add: hello_session_def typed_message_def)

definition late_session :: session where
  "late_session = hello_session\<lparr>sn_messages := []\<rparr>"

theorem stale_session_refused_witness:
  "hello_row \<in> set (sd_messages hello_db) \<and>
    (\<exists>e s'. save_sqlite_append_only (\<lambda>_. []) late_session hello_db = (Inl e, s'))"
proof (rule stale_session_refused [OF history_nil])
  show "db_ok hello_db" using history_db_ok [OF hello_history empty_db_ok] .
  show "hello_row \<in> set (sd_messages hello_db)" by (simp add: hello_db_def)
  show "\<not> list_ex (erases hello_row) []" by simp
  show "sn_key late_session = mw_key hello_row" by (simp add: late_session_def hello_session_def hello_row_def)
  fix s' ws
  assume "normalize_messages late_session = (Inr (), s')"
    and ws: "res_map (message_row (\<lambda>_. []) (sn_key late_session)) (sn_messages s') = Inr ws"
  then have "sn_messages s' = []" by (auto simp: normalize_messages_def late_session_def)
  then show "hello_row \<notin> set ws" using ws by simp
qed

definition held_db :: session_db where
  "held_db = \<lparr>sd_sessions = [], sd_messages = [], sd_admissions = [\<lparr>aw_key = [107], aw_owner = [1], aw_acquired_at = []\<rparr>]\<rparr>"

theorem admission_excludes_witness: "\<exists>e. acquire_admission [107] [2] [] held_db = Inl e"
  using admission_excludes [OF history_nil, of held_db "\<lparr>aw_key = [107], aw_owner = [1], aw_acquired_at = []\<rparr>" "[2]" "[]"]
  by (simp add: held_db_def db_ok_def)

end
