(* ===== verification/SessionCommit.thy ===== *)
theory SessionCommit
  imports SessionStore ReactLoop
begin

text \<open>
  The end of a turn: \<open>_commit_and_dispatch\<close> of \<open>src/agent/core/runtime.py\<close> adds the messages of
  the turn to the session, updates its metadata and saves it.  The session object stays as it was changed
  when a later line raises.  The events and the plugin modules after the save change nothing here.
  \<open>dict (v)\<close> of a list of pairs is not modelled: what is not a dictionary raises.
\<close>

record turn_commit =
  tm_omit_user :: bool
  tm_content :: pystr
  tm_media :: "json list"
  tm_inbound_at :: pystr
  tm_channel :: pystr
  tm_chat_id :: pystr
  tm_sender :: pystr
  tm_username :: json
  tm_reply :: pystr
  tm_reply_media :: "pystr list"
  tm_thinking :: pystr
  tm_tools_used :: "pystr list"
  tm_tool_chain :: "json list"
  tm_extra :: pydict

text \<open>The keyword arguments the call names itself, and the parameters of \<open>add_message\<close>.\<close>

definition own_keywords :: "pystr list" where
  "own_keywords = map lit [''self'', ''role'', ''content'', ''media'', ''reasoning_content'', ''tools_used'', ''tool_chain'']"

definition assistant_kwargs :: "turn_commit \<Rightarrow> pydict" where
  "assistant_kwargs c =
     [(lit ''reasoning_content'', JStr (tm_thinking c)), (lit ''tools_used'', JArr (map JStr (tm_tools_used c))),
      (lit ''tool_chain'', JArr (tm_tool_chain c))] @ tm_extra c"

text \<open>\<open>fresh i\<close> are new identifiers, \<open>clk i\<close> the readings of the clock.\<close>

definition commit_messages ::
  "turn_commit \<Rightarrow> (nat \<Rightarrow> pystr) \<Rightarrow> (nat \<Rightarrow> pystr) \<Rightarrow> session \<Rightarrow> unit res \<times> session" where
  "commit_messages c fresh clk s =
     (case (if tm_omit_user c then Inr ([], s)
            else SessionHistory.add_message (lit ''user'') (tm_content c) (tm_media c)
                   [(lit ''inbound_timestamp'', JStr (tm_inbound_at c))] (fresh 0) (clk 0) (clk 1) s) of
        Inl e \<Rightarrow> (Inl e, s)
      | Inr (m, s1) \<Rightarrow>
          if \<exists>k \<in> fst ` set (tm_extra c). k \<in> set own_keywords
          then (Inl (TypeError (lit ''got multiple values for keyword argument'')), s1)
          else
            (case SessionHistory.add_message (lit ''assistant'') (tm_reply c) (map JStr (tm_reply_media c)) (assistant_kwargs c)
                    (fresh 1) (clk 2) (clk 3) s1 of
               Inl e \<Rightarrow> (Inl e, s1)
             | Inr (m, s2) \<Rightarrow> (Inr (), s2)))"

fun py_len :: "json \<Rightarrow> nat res" where
  "py_len (JArr xs) = Inr (length xs)"
| "py_len (JStr s) = Inr (length s)"
| "py_len (JObj d) = Inr (length d)"
| "py_len v = Inl (TypeError (lit ''object has no len()''))"

definition group_calls :: "json \<Rightarrow> nat res" where
  "group_calls g = (case as_dict g of Inl e \<Rightarrow> Inl e | Inr d \<Rightarrow> py_len (get_or d ''calls'' (JArr [])))"

definition commit_metadata :: "turn_commit \<Rightarrow> pydict \<Rightarrow> pydict res" where
  "commit_metadata c md =
     (case py_int (get_or md ''turn_count'' (JInt 0)) of Inl e \<Rightarrow> Inl e | Inr turns \<Rightarrow>
     (case py_int (get_or md ''tool_call_count'' (JInt 0)) of Inl e \<Rightarrow> Inl e | Inr calls \<Rightarrow>
     (case res_map group_calls (tm_tool_chain c) of Inl e \<Rightarrow> Inl e | Inr ns \<Rightarrow>
        (let md' = dict_update md
               [(lit ''channel'', JStr (tm_channel c)), (lit ''chat_id'', JStr (tm_chat_id c)),
                (lit ''last_sender'', JStr (tm_sender c)), (lit ''last_turn_at'', JStr (tm_inbound_at c)),
                (lit ''turn_count'', JInt (turns + 1)), (lit ''tool_call_count'', JInt (calls + int (sum_list ns)))]
         in Inr md'))))"

text \<open>The last attempt with the name of the plan, or the last one.\<close>

fun attempt_named :: "(json \<Rightarrow> pystr) \<Rightarrow> pystr \<Rightarrow> json list \<Rightarrow> pydict option res" where
  "attempt_named repr plan [] = Inr None"
| "attempt_named repr plan (a # as) =
     (case as_dict a of Inl e \<Rightarrow> Inl e | Inr d \<Rightarrow>
        if get_text repr d ''name'' = plan then Inr (Some d) else attempt_named repr plan as)"

definition selected_attempt :: "(json \<Rightarrow> pystr) \<Rightarrow> pystr \<Rightarrow> json list \<Rightarrow> json res" where
  "selected_attempt repr plan attempts =
     (case attempt_named repr plan (rev attempts) of
        Inl e \<Rightarrow> Inl e
      | Inr (Some d) \<Rightarrow> Inr (JObj d)
      | Inr None \<Rightarrow> Inr (if attempts = [] then JObj [] else last attempts))"

text \<open>The trace of the context and its selected attempt.\<close>

definition commit_trace :: "(json \<Rightarrow> pystr) \<Rightarrow> turn_commit \<Rightarrow> (pydict \<times> json) res" where
  "commit_trace repr c =
     (case as_dict (get_or (tm_extra c) ''context_trace'' (JObj [])) of Inl e \<Rightarrow> Inl e | Inr trace \<Rightarrow>
     (case py_list (get_or trace ''attempts'' (JArr [])) of Inl e \<Rightarrow> Inl e | Inr attempts \<Rightarrow>
     (case selected_attempt repr (get_text repr trace ''selected_plan'') attempts of Inl e \<Rightarrow> Inl e | Inr a \<Rightarrow>
        Inr (trace, a))))"

definition post_reply_budget :: "(json \<Rightarrow> pystr) \<Rightarrow> pydict \<Rightarrow> json \<Rightarrow> pydict list \<Rightarrow> pydict res" where
  "post_reply_budget repr trace a history =
     (case as_dict a of Inl e \<Rightarrow> Inl e | Inr attempt \<Rightarrow>
     (case py_int (get_or attempt ''estimated_tokens'' (JInt 0)) of Inl e \<Rightarrow> Inl e | Inr tokens \<Rightarrow>
     (case py_int (get_or attempt ''input_budget'' (JInt 0)) of Inl e \<Rightarrow> Inl e | Inr budget \<Rightarrow>
     (case as_dict (get_or trace ''react_stats'' (JObj [])) of Inl e \<Rightarrow> Inl e | Inr stats \<Rightarrow>
     (case as_dict (get_or stats ''model_usage'' (JObj [])) of Inl e \<Rightarrow> Inl e | Inr usage \<Rightarrow>
        Inr [(lit ''history_messages'', JInt (int (length history))),
             (lit ''history_tokens_estimate'', JInt (estimate_context_tokens repr history [])),
             (lit ''estimate_quality'', JStr (lit ''approximate'')),
             (lit ''selected_plan'', JStr (get_text repr trace ''selected_plan'')),
             (lit ''last_prompt_tokens_estimate'', JInt tokens), (lit ''input_budget'', JInt budget),
             (lit ''model_usage'', JObj usage)])))))"

text \<open>Up to the save; \<open>window\<close> is the history window of the configuration.\<close>

definition commit_turn ::
  "(json \<Rightarrow> pystr) \<Rightarrow> int \<Rightarrow> turn_commit \<Rightarrow> (nat \<Rightarrow> pystr) \<Rightarrow> (nat \<Rightarrow> pystr) \<Rightarrow> session \<Rightarrow>
   (unit res \<times> session) option" where
  "commit_turn repr window c fresh clk s =
     (case commit_messages c fresh clk s of
        (Inl e, s1) \<Rightarrow> Some (Inl e, s1)
      | (Inr _, s1) \<Rightarrow>
          (case commit_metadata c (sn_metadata s1) of
             Inl e \<Rightarrow> Some (Inl e, s1)
           | Inr md \<Rightarrow>
               (let md' = (if truthy (tm_username c) then dict_set (lit ''username'') (JStr (py_str repr (tm_username c))) md
                           else md);
                    s2 = s1\<lparr>sn_metadata := md'\<rparr>
                in case commit_trace repr c of
                     Inl e \<Rightarrow> Some (Inl e, s2)
                   | Inr (trace, attempt) \<Rightarrow>
                       (case get_history repr window (Some (sn_last_consolidated s2)) s2 of
                          None \<Rightarrow> None
                        | Some (Inl e) \<Rightarrow> Some (Inl e, s2)
                        | Some (Inr history) \<Rightarrow>
                            (case post_reply_budget repr trace attempt history of
                               Inl e \<Rightarrow> Some (Inl e, s2)
                             | Inr budget \<Rightarrow>
                                 Some (Inr (), s2\<lparr>sn_metadata := dict_set (lit ''context_budget'') (JObj budget) md'\<rparr>))))))"

definition save_turn ::
  "(json \<Rightarrow> pystr) \<Rightarrow> int \<Rightarrow> turn_commit \<Rightarrow> (nat \<Rightarrow> pystr) \<Rightarrow> (nat \<Rightarrow> pystr) \<Rightarrow> session \<Rightarrow> session_db \<Rightarrow>
   (session_db res \<times> session) option" where
  "save_turn repr window c fresh clk s db =
     (case commit_turn repr window c fresh clk s of
        None \<Rightarrow> None
      | Some (Inl e, s') \<Rightarrow> Some (Inl e, s')
      | Some (Inr _, s') \<Rightarrow> Some (save_sqlite_append_only repr s' db))"

end
