(* ===== verification/ReactProofs.thy ===== *)
theory ReactProofs
  imports CompactionProofs ReactLoop
begin

text \<open>
  The reasoning loop observed: a log of what the model was asked and which calls reached a tool, kept
  beside the state of the outside, and the invariant of a run.
\<close>

section \<open>The log\<close>

datatype react_log = Asked "pydict list" | Invoked model_call

definition log_hook :: "'s hook \<Rightarrow> ('s \<times> react_log list) hook" where
  "log_hook h = \<lparr>hk_name = hk_name h, hk_event = hk_event h, hk_matches = hk_matches h,
     hk_run = (\<lambda>ctx (s, l). case hk_run h ctx s of (r, s') \<Rightarrow> (r, (s', l)))\<rparr>"

text \<open>The same environment, with the requests and the invocations written down.\<close>

definition logged :: "'s react_env \<Rightarrow> ('s \<times> react_log list) react_env" where
  "logged env =
     \<lparr>re_loads = re_loads env, re_repr = re_repr env, re_limit = re_limit env, re_repeat_limit = re_repeat_limit env,
      re_disabled = re_disabled env, re_specs = re_specs env, re_deferred = re_deferred env,
      re_model = (\<lambda>ms specs (s, l). case re_model env ms specs s of (r, s') \<Rightarrow> (r, (s', l @ [Asked ms]))),
      re_before_step = (\<lambda>i n names (s, l). case re_before_step env i n names s of (r, s') \<Rightarrow> (r, (s', l))),
      re_after_step = (\<lambda>i ms chain b (s, l). case re_after_step env i ms chain b s of (r, s') \<Rightarrow> (r, (s', l))),
      re_request = re_request env, re_hooks = map log_hook (re_hooks env), re_secs = re_secs env,
      re_invoke = (\<lambda>c name args (s, l). case re_invoke env c name args s of (r, s') \<Rightarrow> (r, (s', l @ [Invoked c]))),
      re_lru = (\<lambda>(s, l). re_lru env s), re_put_lru = (\<lambda>ns (s, l). (re_put_lru env ns s, l))\<rparr>"

lemma logged_simps [simp]:
  "re_loads (logged env) = re_loads env" "re_repr (logged env) = re_repr env" "re_limit (logged env) = re_limit env"
  "re_repeat_limit (logged env) = re_repeat_limit env" "re_disabled (logged env) = re_disabled env"
  "re_specs (logged env) = re_specs env" "re_deferred (logged env) = re_deferred env"
  "re_model (logged env) ms specs (s, l) = (case re_model env ms specs s of (r, s') \<Rightarrow> (r, (s', l @ [Asked ms])))"
  "re_before_step (logged env) i n names (s, l) = (case re_before_step env i n names s of (r, s') \<Rightarrow> (r, (s', l)))"
  "re_after_step (logged env) i ms chain b (s, l) = (case re_after_step env i ms chain b s of (r, s') \<Rightarrow> (r, (s', l)))"
  "re_request (logged env) = re_request env" "re_hooks (logged env) = map log_hook (re_hooks env)"
  "re_secs (logged env) = re_secs env"
  "re_invoke (logged env) c name args (s, l) = (case re_invoke env c name args s of (r, s') \<Rightarrow> (r, (s', l @ [Invoked c])))"
  "re_lru (logged env) (s, l) = re_lru env s" "re_put_lru (logged env) ns (s, l) = (re_put_lru env ns s, l)"
  by (simp_all add: logged_def)

lemma log_hook_simps [simp]:
  "hk_name (log_hook h) = hk_name h" "hk_event (log_hook h) = hk_event h" "hk_matches (log_hook h) = hk_matches h"
  "hk_run (log_hook h) ctx (s, l) = (case hk_run h ctx s of (r, s') \<Rightarrow> (r, (s', l)))"
  by (simp_all add: log_hook_def)

definition requests :: "react_log list \<Rightarrow> nat" where
  "requests l = length (filter (\<lambda>e. case e of Asked ms \<Rightarrow> True | Invoked c \<Rightarrow> False) l)"

definition invoked :: "pystr \<Rightarrow> react_log list \<Rightarrow> nat" where
  "invoked sig l = length (filter (\<lambda>e. case e of Asked ms \<Rightarrow> False | Invoked c \<Rightarrow> call_signature c = sig) l)"

lemma requests_simps [simp]:
  "requests [] = 0" "requests (l @ [Asked ms]) = Suc (requests l)" "requests (l @ [Invoked c]) = requests l"
  by (simp_all add: requests_def)

lemma invoked_simps [simp]:
  "invoked sig [] = 0" "invoked sig (l @ [Asked ms]) = invoked sig l"
  "invoked sig (l @ [Invoked c]) = invoked sig l + (if call_signature c = sig then 1 else 0)"
  by (simp_all add: invoked_def)

text \<open>Every request is a conversation, and no call was carried out more often than the loop guard allows.\<close>

definition log_ok :: "'s react_env \<Rightarrow> react_log list \<Rightarrow> bool" where
  "log_ok env l \<longleftrightarrow> (\<forall>ms. Asked ms \<in> set l \<longrightarrow> protocol ms) \<and>
     (\<forall>sig. int (invoked sig l) \<le> max 1 (re_repeat_limit env))"

lemma log_ok_Nil [simp]: "log_ok env []"
  by (simp add: log_ok_def)

lemma log_ok_asked [simp]: "log_ok env (l @ [Asked ms]) \<longleftrightarrow> log_ok env l \<and> protocol ms"
  by (auto simp: log_ok_def)

section \<open>Executing a call\<close>

lemma pre_hooks_log:
  "run_pre_hooks (map log_hook hs) req args extra (s, l) =
    (case run_pre_hooks hs req args extra s of (r, s') \<Rightarrow> (r, (s', l)))"
  by (induction hs req args extra s rule: run_pre_hooks.induct)
    (auto simp: Let_def split: sum.splits bool.splits prod.splits awaited.splits decision.splits)

lemma after_hooks_log:
  "run_after_hooks ctx (map log_hook hs) extra (s, l) =
    (case run_after_hooks ctx hs extra s of (r, s') \<Rightarrow> (r, (s', l)))"
  by (induction ctx hs extra s rule: run_after_hooks.induct)
    (auto split: sum.splits bool.splits prod.splits awaited.splits)

lemma finish_call_log:
  "finish_call secs (map log_hook hs) req args extra (r, (s, l)) =
    (case finish_call secs hs req args extra (r, s) of (d, s') \<Rightarrow> (d, (s', l)))"
  by (cases r)
    (simp_all add: finish_call_def settled_def run_error_hooks_def run_post_hooks_def after_hooks_log Let_def
      split: prod.split option.split)

lemma execute_tool_log:
  "\<exists>r s' l'. execute_tool secs (map log_hook hs) req (re_invoke (logged env) c) (s, l) = (r, (s', l')) \<and>
    (l' = l \<or> l' = l @ [Invoked c])"
  by (simp add: execute_tool_def pre_hooks_log finish_call_log split: prod.split pre_result.split)

lemma execute_call_log:
  assumes "execute_call (logged env) c i k (s, l) = (r, (s', l'))"
  shows "l' = l \<or> l' = l @ [Invoked c]"
proof -
  obtain d s1 l1 where e: "execute_tool (re_secs env) (map log_hook (re_hooks env)) (re_request env c i k)
      (re_invoke (logged env) c) (s, l) = (d, (s1, l1))" "l1 = l \<or> l1 = l @ [Invoked c]"
    using execute_tool_log by metis
  then have "l' = l1" using assms by (auto simp: execute_call_def Let_def split: executed.splits option.splits if_splits)
  then show ?thesis using e(2) by simp
qed

lemma answer_call_log:
  assumes "answer_call (logged env) c i k u n (s, l) = (r, (s', l'))"
  shows "l' = l \<or> (l' = l @ [Invoked c] \<and> int n \<le> max 1 (re_repeat_limit env))"
  using assms execute_call_log [of env c i k s l r s' l'] by (auto simp: answer_call_def split: if_splits)

section \<open>Answering the calls of a response\<close>

text \<open>The counts of the guard cover what was carried out.\<close>

definition counted :: "react_state \<Rightarrow> react_log list \<Rightarrow> bool" where
  "counted st l \<longleftrightarrow> (\<forall>sig. invoked sig l \<le> rs_repeated st sig)"

definition call_json :: "model_call \<Rightarrow> json" where
  "call_json c = function_call (mc_id c) (mc_name c) (JObj (mc_arguments c))"

definition same_frame :: "react_state \<Rightarrow> react_state \<Rightarrow> bool" where
  "same_frame st st' \<longleftrightarrow> rs_tool_chain st' = rs_tool_chain st \<and> rs_iteration st' = rs_iteration st \<and>
     rs_compactor st' = rs_compactor st"

lemma answers_call: "answers (tool_result_message (mc_id c) content e) (call_json c)"
  by (simp add: answers_def tool_result_message_def call_json_def function_call_def)

lemma unlock_frame:
  assumes "unlock (logged env) names st (s, l) = (st', (s', l'))"
  shows "l' = l" "same_frame st st'" "rs_messages st' = rs_messages st" "rs_repeated st' = rs_repeated st"
  using assms by (auto simp: unlock_def remember_def same_frame_def split: option.splits)

lemma run_calls_log:
  assumes "run_calls (logged env) it k cs records st (s, l) = (r, (s', l'))" "log_ok env l" "counted st l"
  shows "log_ok env l' \<and> requests l' = requests l \<and>
    (case r of Inl e \<Rightarrow> True
     | Inr (records', st') \<Rightarrow> counted st' l' \<and> same_frame st st' \<and>
         (\<exists>rs. rs_messages st' = rs_messages st @ rs \<and> list_all2 answers rs (map call_json cs)) \<and>
         (\<exists>outs. length outs = length cs \<and> records' = records @ map2 call_record cs outs))"
  using assms
proof (induction cs arbitrary: k records st s l)
  case Nil
  then show ?case by (auto simp: same_frame_def)
next
  case (Cons c cs)
  define n where "n = Suc (rs_repeated st (call_signature c))"
  define st1 where "st1 = st\<lparr>rs_repeated := (rs_repeated st)(call_signature c := n)\<rparr>"
  obtain a s1 l1 where a: "answer_call (logged env) c it k (rs_unlocked st1) n (s, l) = (a, (s1, l1))"
    by (metis surj_pair)
  have l1: "l1 = l \<or> (l1 = l @ [Invoked c] \<and> int n \<le> max 1 (re_repeat_limit env))" by (rule answer_call_log [OF a])
  have cnt: "invoked sig l \<le> rs_repeated st sig" for sig using Cons(4) by (simp add: counted_def)
  have req: "requests l1 = requests l" using l1 by auto
  have log1: "log_ok env l1"
    using l1
  proof
    assume x: "l1 = l @ [Invoked c] \<and> int n \<le> max 1 (re_repeat_limit env)"
    have "int (invoked sig l1) \<le> max 1 (re_repeat_limit env)" for sig
    proof (cases "call_signature c = sig")
      case True
      then have "invoked sig l1 \<le> n" using cnt [of sig] x by (simp add: n_def)
      then show ?thesis using x by linarith
    next
      case False
      then show ?thesis using Cons(3) x by (simp add: log_ok_def)
    qed
    then show ?thesis using Cons(3) x by (auto simp: log_ok_def)
  qed (use Cons(3) in simp)
  have cnt1: "counted st1 l1"
    unfolding counted_def
  proof
    fix sig
    show "invoked sig l1 \<le> rs_repeated st1 sig" using l1 cnt [of sig] by (auto simp: st1_def n_def)
  qed
  show ?case
  proof (cases a)
    case (Inl e)
    then show ?thesis using Cons(2) a log1 req by (auto simp: n_def st1_def Let_def)
  next
    case (Inr out)
    show ?thesis
    proof (cases "newly_unlocked (logged env) c out")
      case (Inl e)
      then show ?thesis using Cons(2) a Inr log1 req by (auto simp: n_def st1_def Let_def)
    next
      case names: (Inr names)
      obtain st2 s2 l2 where u: "unlock (logged env) names (called c out st1) (s1, l1) = (st2, (s2, l2))"
        by (metis surj_pair)
      note U = unlock_frame [OF u]
      have rec: "run_calls (logged env) it (Suc k) cs (records @ [call_record c out]) st2 (s2, l1) = (r, (s', l'))"
        using Cons(2) a Inr names u U(1) by (simp add: n_def st1_def Let_def)
      have "counted st2 l1" using cnt1 U(4) by (simp add: counted_def called_def)
      note ih = Cons(1) [OF rec log1 this]
      have fr: "same_frame st st2" using U(2) by (auto simp: same_frame_def called_def st1_def)
      have msg: "rs_messages st2 = rs_messages st @ [tool_result_message (mc_id c) (cl_content out) (cl_status out \<noteq> CallSuccess)]"
        using U(3) by (simp add: called_def st1_def)
      show ?thesis
      proof (cases r)
        case (Inl e)
        then show ?thesis using ih req by simp
      next
        case (Inr p)
        obtain records' st' where p: "p = (records', st')" by fastforce
        obtain rs outs where i: "counted st' l'" "same_frame st2 st'" "rs_messages st' = rs_messages st2 @ rs"
            "list_all2 answers rs (map call_json cs)" "length outs = length cs"
            "records' = (records @ [call_record c out]) @ map2 call_record cs outs"
          using ih unfolding Inr p by auto
        have "same_frame st st'" using fr i(2) by (simp add: same_frame_def)
        moreover have "\<exists>rs. rs_messages st' = rs_messages st @ rs \<and> list_all2 answers rs (map call_json (c # cs))"
          by (intro exI [of _ "tool_result_message (mc_id c) (cl_content out) (cl_status out \<noteq> CallSuccess) # rs"])
            (use i(3,4) msg answers_call in simp)
        moreover have "\<exists>outs. length outs = length (c # cs) \<and> records' = records @ map2 call_record (c # cs) outs"
          by (intro exI [of _ "out # outs"]) (use i(5,6) in simp)
        ultimately show ?thesis using ih req i(1) unfolding Inr p by simp
      qed
    qed
  qed
qed

section \<open>Compaction inside a run\<close>

lemma protocol_user: "protocol [user_message t]"
  by (rule protocol_single) (simp_all add: user_message_def message_calls.simps)

lemma estimate_pos: "1 \<le> estimate_context_tokens repr ms specs"
  by (simp add: estimate_context_tokens_def)

text \<open>A group of the tool chain: a response and a record of each of its calls.\<close>

definition group_ok :: "json \<Rightarrow> bool" where
  "group_ok g \<longleftrightarrow> (\<exists>r outs. mr_calls r \<noteq> [] \<and> length outs = length (mr_calls r) \<and>
     g = tool_group r (map2 call_record (mr_calls r) outs))"

text \<open>The invariant of a run: the messages are a conversation, the compactor has counted the groups of the
  tool chain, and its limits are those it was created with.\<close>

definition run_ok :: "int \<Rightarrow> int \<Rightarrow> react_state \<Rightarrow> bool" where
  "run_ok window soft st \<longleftrightarrow> protocol (rs_messages st) \<and>
     compactor_ok (length (rs_tool_chain st)) (rs_compactor st) \<and>
     qc_window (rs_compactor st) = window \<and> qc_soft (rs_compactor st) = soft \<and>
     (\<forall>g \<in> set (rs_tool_chain st). group_ok g)"

lemma summarize_log:
  assumes "summarize_compaction (logged env) prompt (us, (s, l)) = (r, (us', (s', l')))"
  shows "l' = l @ [Asked [user_message prompt]]"
  using assms by (auto simp: summarize_compaction_def split: prod.splits sum.splits if_splits)

lemma compact_state_log:
  assumes c: "compact_state (logged env) specs p trigger force st (s, l) = (r, (s', l'))"
    and ok: "run_ok window soft st" and log: "log_ok env l" and cnt: "counted st l"
    and pending: "\<And>k. p = Some k \<Longrightarrow> protocol (drop k (rs_messages st))"
  shows "log_ok env l' \<and> requests l' \<le> Suc (requests l) \<and>
    (case r of Inl e \<Rightarrow> True
     | Inr (b, st') \<Rightarrow> run_ok window soft st' \<and> counted st' l' \<and> rs_tool_chain st' = rs_tool_chain st \<and>
         rs_iteration st' = rs_iteration st \<and>
         (b \<longrightarrow> (\<exists>pre. rs_messages st' = pre @ (case p of None \<Rightarrow> [] | Some k \<Rightarrow> drop k (rs_messages st)))) \<and>
         (\<not> b \<longrightarrow> rs_messages st' = rs_messages st))"
proof -
  let ?cenv = "compaction_env (logged env) specs"
  define w where "w = prepare ?cenv (rs_compactor st) (rs_messages st) p trigger force (rs_usages st, (s, l))"
  note cs = c [unfolded compact_state_def w_def [symmetric]]
  have keep: "?thesis" if "w = (Inr (False, rs_compactor st, rs_messages st), (rs_usages st, (s, l)))"
    using cs that ok log cnt by (auto simp: run_ok_def counted_def)
  have fail: "?thesis" if "w = (Inl e, (us, (s1, l1)))" "log_ok env l1" "requests l1 \<le> Suc (requests l)" for e us s1 l1
    using cs that by auto
  show ?thesis
  proof (cases "select_count (ce_loads ?cenv) (ce_repr ?cenv) (ce_estimate ?cenv) (rs_compactor st)")
    case (Inl e)
    show ?thesis
    proof (cases "\<not> force \<and> (qc_soft (rs_compactor st) \<le> 0 \<or> ce_estimate ?cenv (rs_messages st) < qc_soft (rs_compactor st))")
      case True
      show ?thesis by (rule keep) (simp only: w_def prepare_def Let_def True if_True simp_thms)
    next
      case False
      have "w = (Inl (PyError e), (rs_usages st, (s, l)))"
        unfolding w_def prepare_def Let_def Inl if_not_P [OF False] by simp
      then show ?thesis by (rule fail) (use log in simp_all)
    qed
  next
    case (Inr count)
    obtain a us1 s1 l1 where a: "summarize_compaction (logged env)
        (summary_input (ce_repr ?cenv) (rs_compactor st) (take count (qc_batches (rs_compactor st)))) (rs_usages st, (s, l))
        = (a, (us1, (s1, l1)))" by (metis surj_pair)
    have l1: "l1 = l @ [Asked [user_message (summary_input (ce_repr ?cenv) (rs_compactor st)
        (take count (qc_batches (rs_compactor st))))]]" by (rule summarize_log [OF a])
    have log1: "log_ok env l1" "requests l1 = Suc (requests l)" using log l1 protocol_user by simp_all
    have cnt1: "counted st l1" using cnt l1 by (simp add: counted_def)
    have sum: "ce_summarize ?cenv = summarize_compaction (logged env)" by (simp add: compaction_env_def)
    show ?thesis
    proof (cases "\<not> force \<and> (qc_soft (rs_compactor st) \<le> 0 \<or> ce_estimate ?cenv (rs_messages st) < qc_soft (rs_compactor st)) \<or>
        count = 0")
      case True
      have "w = (Inr (False, rs_compactor st, rs_messages st), (rs_usages st, (s, l))) \<or>
          w = (Inl (ContextCompactionError (lit ''context_compaction_no_closed_prefix'')), (rs_usages st, (s, l)))"
        using True unfolding w_def prepare_def Let_def Inr by auto
      then show ?thesis
      proof
        assume "w = (Inr (False, rs_compactor st, rs_messages st), (rs_usages st, (s, l)))"
        then show ?thesis by (rule keep)
      next
        assume "w = (Inl (ContextCompactionError (lit ''context_compaction_no_closed_prefix'')), (rs_usages st, (s, l)))"
        then show ?thesis by (rule fail) (use log in simp_all)
      qed
    next
      case False
      then have w: "w = ((case a of Inl e \<Rightarrow> Inl e
          | Inr answer \<Rightarrow> (case compact_with ?cenv (rs_compactor st) (rs_messages st) p trigger count answer of
              Inl e \<Rightarrow> Inl e | Inr (c', ms) \<Rightarrow> Inr (True, c', ms))), (us1, (s1, l1)))"
        using Inr a by (cases a) (auto simp: w_def prepare_def Let_def sum)
      show ?thesis
      proof (cases a)
        case (Inl e)
        then show ?thesis using w fail log1 by simp
      next
        case a: (Inr answer)
        show ?thesis
        proof (cases "compact_with ?cenv (rs_compactor st) (rs_messages st) p trigger count answer")
          case (Inl e)
          then show ?thesis using w a fail log1 by simp
        next
          case cw: (Inr q)
          obtain c' ms where q: "q = (c', ms)" by fastforce
          have count: "0 < count" "count < length (qc_batches (rs_compactor st))"
            using False select_count_bound(1) [OF Inr] by simp_all
          have C: "compactor_ok (length (rs_tool_chain st)) (rs_compactor st)" using ok by (simp add: run_ok_def)
          have est: "0 \<le> ce_estimate ?cenv ms" for ms
            using estimate_pos [of "re_repr env" ms specs] by (simp add: compaction_env_def)
          define pend where "pend = (case p of None \<Rightarrow> [] | Some k \<Rightarrow> drop k (rs_messages st))"
          obtain rc i where R: "compactor_ok (length (rs_tool_chain st)) c'" "qc_window c' = qc_window (rs_compactor st)"
              "qc_soft c' = qc_soft (rs_compactor st)" "qc_base c' = qc_base (rs_compactor st)"
              "ms = qc_base (rs_compactor st) @ build_compaction_messages rc i @
                 concat (drop count (qc_batches (rs_compactor st))) @ pend"
            using compact_with_ok [OF C est count(1) less_imp_le [OF count(2)] cw [unfolded q]] pend_def by blast
          have "protocol pend" using pending by (auto simp: pend_def split: option.splits)
          moreover have "protocol (concat (drop count (qc_batches (rs_compactor st))))"
            using C by (intro protocol_concat) (auto simp: compactor_ok_def dest: in_set_dropD)
          moreover have "protocol (qc_base (rs_compactor st))" using C by (simp add: compactor_ok_def)
          ultimately have "protocol ms" unfolding R(5) by (intro protocol_append protocol_compaction)
          then have "run_ok window soft (st\<lparr>rs_compactor := c', rs_messages := ms, rs_usages := us1\<rparr>)"
            using ok R by (simp add: run_ok_def)
          moreover have "counted (st\<lparr>rs_compactor := c', rs_messages := ms, rs_usages := us1\<rparr>) l1"
            using cnt1 by (simp add: counted_def)
          moreover have "\<exists>pre. ms = pre @ pend" unfolding R(5) by (metis append.assoc)
          ultimately show ?thesis using cs w a cw q log1 by (auto simp: pend_def)
        qed
      qed
    qed
  qed
qed


section \<open>Asking the model\<close>

lemma ask_model_log:
  assumes a: "ask_model (logged env) specs start st (s, l) = (r, (s', l'))"
    and ok: "run_ok window soft st" and log: "log_ok env l" and cnt: "counted st l"
    and batch: "start \<le> length (rs_messages st)" "protocol (drop start (rs_messages st))"
  shows "log_ok env l' \<and> requests l' \<le> requests l + 3 \<and>
    (case r of Inl e \<Rightarrow> True
     | Inr (resp, start', st') \<Rightarrow> run_ok window soft st' \<and> counted st' l' \<and> rs_tool_chain st' = rs_tool_chain st \<and>
         rs_iteration st' = rs_iteration st \<and> start' \<le> length (rs_messages st') \<and> protocol (drop start' (rs_messages st')))"
proof -
  have prot: "protocol (rs_messages st)" using ok by (simp add: run_ok_def)
  obtain m s1 where m: "re_model env (rs_messages st) specs s = (m, s1)" by fastforce
  let ?l1 = "l @ [Asked (rs_messages st)]"
  have log1: "log_ok env ?l1" using log prot by simp
  have cnt1: "counted st ?l1" using cnt by (simp add: counted_def)
  consider (answer) resp where "m = Inr resp" | (overflow) "m = Inl ContextLengthError"
    | (other) e where "m = Inl e" "e \<noteq> ContextLengthError"
    by (cases m) auto
  then show ?thesis
  proof cases
    case answer
    then show ?thesis using a m ok log1 cnt1 batch by (auto simp: ask_model_def)
  next
    case other
    then have "r = Inl e" "l' = ?l1" using a m by (auto simp: ask_model_def split: run_error.splits)
    then show ?thesis using log1 by simp
  next
    case overflow
    obtain c s2 l2 where c: "compact_state (logged env) specs (Some start) ContextOverflow True st (s1, ?l1) = (c, (s2, l2))"
      by (metis surj_pair)
    have C: "log_ok env l2" "requests l2 \<le> Suc (requests ?l1)"
        "c = Inr (b, st') \<Longrightarrow> run_ok window soft st' \<and> counted st' l2 \<and> rs_tool_chain st' = rs_tool_chain st \<and>
         rs_iteration st' = rs_iteration st \<and> (b \<longrightarrow> (\<exists>pre. rs_messages st' = pre @ drop start (rs_messages st)))" for b st'
      using compact_state_log [OF c ok log1 cnt1] batch(2) by (auto split: sum.splits prod.splits)
    note step = a [unfolded ask_model_def logged_simps m overflow prod.case sum.case run_error.case c]
    show ?thesis
    proof (cases "\<exists>st'. c = Inr (True, st')")
      case False
      then have "(\<exists>e. r = Inl e) \<and> l' = l2"
        using step by (cases c) (auto split: run_error.splits bool.splits)
      then show ?thesis using C(1,2) by auto
    next
      case True
      then obtain st' where c': "c = Inr (True, st')" by blast
      obtain pre where S: "run_ok window soft st'" "counted st' l2" "rs_tool_chain st' = rs_tool_chain st"
          "rs_iteration st' = rs_iteration st" "rs_messages st' = pre @ drop start (rs_messages st)"
        using C(3) [OF c'] by blast
      obtain m2 s3 where m2: "re_model env (rs_messages st') specs s2 = (m2, s3)" by fastforce
      have l': "l' = l2 @ [Asked (rs_messages st')]" using step c' m2 by (auto split: sum.splits)
      have log': "log_ok env l'" using C(1) S(1) by (simp add: l' run_ok_def)
      have cnt': "counted st' l'" using S(2) by (simp add: l' counted_def)
      have req: "requests l' \<le> requests l + 3" using C(2) by (simp add: l')
      show ?thesis
      proof (cases m2)
        case (Inl e)
        then have "r = Inl e" using step c' m2 by simp
        then show ?thesis using log' req by simp
      next
        case (Inr resp)
        let ?start = "length (rs_messages st') - (length (rs_messages st) - start)"
        have r: "r = Inr (resp, ?start, st')" using step c' m2 Inr by simp
        have "?start = length pre" using S(5) batch(1) by simp
        then have "protocol (drop ?start (rs_messages st'))" "?start \<le> length (rs_messages st')"
          using S(5) batch(2) by simp_all
        then show ?thesis using log' req r S(1,3,4) cnt' by simp
      qed
    qed
  qed
qed

section \<open>One iteration\<close>

text \<open>What a result holds: the tool chain, and the payload of a compactor that has counted its groups.\<close>

definition result_ok :: "int \<Rightarrow> int \<Rightarrow> reasoner_result \<Rightarrow> bool" where
  "result_ok window soft r \<longleftrightarrow>
     (\<exists>c. compactor_ok (length (rr_tool_chain r)) c \<and> qc_window c = window \<and> qc_soft c = soft \<and>
        rr_compaction r = persistence_payload c) \<and> (\<forall>g \<in> set (rr_tool_chain r). group_ok g)"

lemma result_of_ok: "run_ok window soft st \<Longrightarrow> result_ok window soft (result_of_state reply b st)"
  by (auto simp: result_ok_def run_ok_def result_of_state_def)

lemma assistant_calls: "message_calls (assistant_message_from_response r) = map call_json (mr_calls r)"
  by (cases "mr_calls r") (simp_all add: assistant_message_from_response_def message_calls.simps call_json_def)

lemma assistant_role: "get (assistant_message_from_response r) ''role'' \<noteq> Some (JStr (lit ''tool''))"
  by (simp add: assistant_message_from_response_def)

text \<open>What an iteration leaves behind.\<close>

definition step_ok :: "'s react_env \<Rightarrow> int \<Rightarrow> int \<Rightarrow> int \<Rightarrow> run_error + step_result \<Rightarrow> react_log list \<Rightarrow> bool" where
  "step_ok env window soft i r l \<longleftrightarrow> log_ok env l \<and>
     (case r of Inl e \<Rightarrow> True
      | Inr (Finished res) \<Rightarrow> result_ok window soft res
      | Inr (Again st') \<Rightarrow> run_ok window soft st' \<and> counted st' l \<and> rs_iteration st' = i + 1)"

lemma final_step_log:
  assumes f: "final_step (logged env) r (answered r st) (s, l) = (res, (s', l'))"
    and ok: "run_ok window soft st" and log: "log_ok env l" and cnt: "counted st l" and none: "mr_calls r = []"
  shows "step_ok env window soft (rs_iteration st) res l' \<and> requests l' = requests l"
proof -
  have "protocol [assistant_message_from_response r]"
    by (rule protocol_single) (simp_all add: assistant_role assistant_calls none)
  then have a: "run_ok window soft (answered r st)"
    using ok by (auto simp: run_ok_def answered_def intro: protocol_append)
  then have b: "run_ok window soft ((answered r st)\<lparr>rs_retry_used := True,
      rs_messages := rs_messages (answered r st) @ [user_message thinking_reminder],
      rs_iteration := rs_iteration (answered r st) + 1\<rparr>)"
    by (simp add: run_ok_def protocol_append protocol_user)
  have "counted ((answered r st)\<lparr>rs_retry_used := True,
      rs_messages := rs_messages (answered r st) @ [user_message thinking_reminder],
      rs_iteration := rs_iteration (answered r st) + 1\<rparr>) l"
    using cnt by (simp add: counted_def answered_def)
  then show ?thesis
    using f a b log
    by (auto simp: final_step_def step_ok_def remember_def result_of_ok answered_def split: if_splits option.splits prod.splits)
qed

lemma tools_step_log:
  assumes t: "tools_step (logged env) start r (answered r st) (s, l) = (res, (s', l'))"
    and ok: "run_ok window soft st" and log: "log_ok env l" and cnt: "counted st l" and some: "mr_calls r \<noteq> []"
    and batch: "start \<le> length (rs_messages st)" "protocol (drop start (rs_messages st))"
  shows "step_ok env window soft (rs_iteration st) res l' \<and> requests l' = requests l"
proof -
  obtain c s1 l1 where c: "run_calls (logged env) (rs_iteration (answered r st)) 0 (mr_calls r) [] (answered r st) (s, l)
      = (c, (s1, l1))" by (metis surj_pair)
  have cnt0: "counted (answered r st) l" using cnt by (simp add: counted_def answered_def)
  note C = run_calls_log [OF c log cnt0]
  note step = t [unfolded tools_step_def c prod.case]
  show ?thesis
  proof (cases c)
    case (Inl e)
    then show ?thesis using step C by (auto simp: step_ok_def)
  next
    case (Inr q)
    obtain records st1 where q: "q = (records, st1)" by fastforce
    obtain rs outs where S: "log_ok env l1" "requests l1 = requests l" "counted st1 l1" "same_frame (answered r st) st1"
        "rs_messages st1 = rs_messages (answered r st) @ rs" "list_all2 answers rs (map call_json (mr_calls r))"
        "length outs = length (mr_calls r)" "records = map2 call_record (mr_calls r) outs"
      using C unfolding Inr q by auto
    have msgs: "rs_messages st1 = rs_messages st @ assistant_message_from_response r # rs"
      using S(5) by (simp add: answered_def)
    have blk: "protocol (assistant_message_from_response r # rs)"
      by (rule protocol_block [OF assistant_role]) (simp add: assistant_calls S(6))
    have p1: "protocol (rs_messages st1)" unfolding msgs using ok blk by (auto simp: run_ok_def intro: protocol_append)
    have p2: "protocol (drop start (rs_messages st1))" unfolding msgs using batch blk by (auto intro: protocol_append)
    have frame: "rs_tool_chain st1 = rs_tool_chain st" "rs_compactor st1 = rs_compactor st" "rs_iteration st1 = rs_iteration st"
      using S(4) by (simp_all add: same_frame_def answered_def)
    show ?thesis
    proof (cases "record_completed_batch (drop start (rs_messages st1)) (rs_compactor st1)")
      case (Inl e)
      then show ?thesis using step Inr q S(1,2) \<open>c = Inr q\<close> by (auto simp: step_ok_def)
    next
      case rec: (Inr k)
      have "compactor_ok (length (rs_tool_chain st)) (rs_compactor st1)" using ok frame by (simp add: run_ok_def)
      from compactor_ok_batch [OF this p2 rec]
      have kok: "compactor_ok (Suc (length (rs_tool_chain st))) k" .
      have kw: "qc_window k = window" "qc_soft k = soft"
        using rec ok frame(2) by (auto simp: record_completed_batch_def run_ok_def split: if_splits)
      define st2 where "st2 = st1\<lparr>rs_tool_chain := rs_tool_chain st1 @ [tool_group r records], rs_compactor := k\<rparr>"
      have "group_ok (tool_group r records)" using some S(7,8) unfolding group_ok_def by blast
      then have "run_ok window soft (st2\<lparr>rs_iteration := rs_iteration st2 + 1\<rparr>)"
        using p1 kok kw ok frame(1) by (auto simp: run_ok_def st2_def)
      moreover have "counted (st2\<lparr>rs_iteration := rs_iteration st2 + 1\<rparr>) l1" using S(3) by (simp add: counted_def st2_def)
      moreover have "rs_iteration (st2\<lparr>rs_iteration := rs_iteration st2 + 1\<rparr>) = rs_iteration st + 1"
        using frame(3) by (simp add: st2_def)
      ultimately show ?thesis
        using step rec S(1,2) unfolding \<open>c = Inr q\<close> q
        by (auto simp: Let_def st2_def [symmetric] step_ok_def split: option.splits prod.splits)
    qed
  qed
qed


lemma react_step_log:
  assumes t: "react_step (logged env) st (s, l) = (res, (s', l'))"
    and ok: "run_ok window soft st" and log: "log_ok env l" and cnt: "counted st l"
  shows "step_ok env window soft (rs_iteration st) res l' \<and> requests l' \<le> requests l + 4"
proof -
  define specs where "specs = visible_specs (logged env) (rs_unlocked st)"
  obtain c s1 l1 where c: "compact_state (logged env) specs None SoftLimit False st (s, l) = (c, (s1, l1))"
    by (metis surj_pair)
  have C: "log_ok env l1" "requests l1 \<le> Suc (requests l)"
      "c = Inr (b, st1) \<Longrightarrow> run_ok window soft st1 \<and> counted st1 l1 \<and> rs_iteration st1 = rs_iteration st" for b st1
    using compact_state_log [OF c ok log cnt] by (auto split: sum.splits prod.splits)
  note step = t [unfolded react_step_def Let_def specs_def [symmetric] c prod.case]
  show ?thesis
  proof (cases c)
    case (Inl e)
    then show ?thesis using step C(1,2) by (auto simp: step_ok_def)
  next
    case (Inr q)
    obtain b st1 where q: "q = (b, st1)" by fastforce
    have S1: "run_ok window soft st1" "counted st1 l1" "rs_iteration st1 = rs_iteration st" using C(3) [OF Inr [unfolded q]] by auto
    obtain k s2 where k: "re_before_step env (rs_iteration st1) (estimate_context_tokens (re_repr env) (rs_messages st1) specs)
        (map ts_name specs) s1 = (k, s2)" by fastforce
    note step1 = step [unfolded Inr q sum.case prod.case logged_simps k]
    show ?thesis
    proof (cases k)
      case (Inl e)
      then show ?thesis using step1 C(1,2) by (auto simp: step_ok_def)
    next
      case k': (Inr ctl)
      show ?thesis
      proof (cases "sc_early_stop ctl")
        case True
        then show ?thesis using step1 k' C(1,2) result_of_ok [OF S1(1)] by (auto simp: step_ok_def)
      next
        case False
        define hints where "hints = (if sc_hints ctl = [] then [] else [plugin_hint_message (sc_hints ctl)])"
        define st2 where "st2 = st1\<lparr>rs_messages := rs_messages st1 @ hints, rs_samples := rs_samples st1 @ [sc_tokens ctl]\<rparr>"
        have h: "protocol hints" by (simp add: hints_def plugin_hint_message_def Let_def protocol_user)
        have ok2: "run_ok window soft st2" using S1(1) h by (simp add: run_ok_def st2_def protocol_append)
        have cnt2: "counted st2 l1" using S1(2) by (simp add: counted_def st2_def)
        have batch: "length (rs_messages st1) \<le> length (rs_messages st2)"
            "protocol (drop (length (rs_messages st1)) (rs_messages st2))" using h by (simp_all add: st2_def)
        have it: "rs_iteration st2 = rs_iteration st" using S1(3) by (simp add: st2_def)
        obtain a s3 l3 where a: "ask_model (logged env) specs (length (rs_messages st1)) st2 (s2, l1) = (a, (s3, l3))"
          by (metis surj_pair)
        have A: "log_ok env l3" "requests l3 \<le> requests l1 + 3"
            "a = Inr (r, start, st3) \<Longrightarrow> run_ok window soft st3 \<and> counted st3 l3 \<and> rs_iteration st3 = rs_iteration st \<and>
             start \<le> length (rs_messages st3) \<and> protocol (drop start (rs_messages st3))" for r start st3
          using ask_model_log [OF a ok2 C(1) cnt2 batch] it by (auto split: sum.splits prod.splits)
        have req: "requests l3 \<le> requests l + 4" using A(2) C(2) by simp
        note step2 = step1 [unfolded k' sum.case if_not_P [OF False] hints_def [symmetric] st2_def [symmetric] a prod.case]
        show ?thesis
        proof (cases a)
          case (Inl e)
          then show ?thesis using step2 A(1) req by (auto simp: step_ok_def)
        next
          case a': (Inr w)
          obtain r start st3 where w: "w = (r, start, st3)" by (metis surj_pair)
          have S3: "run_ok window soft st3" "counted st3 l3" "rs_iteration st3 = rs_iteration st"
              "start \<le> length (rs_messages st3)" "protocol (drop start (rs_messages st3))"
            using A(3) a' w by blast+
          show ?thesis
          proof (cases "mr_calls r = []")
            case True
            have "final_step (logged env) r (answered r st3) (s3, l3) = (res, (s', l'))"
              using step2 a' w True by simp
            from final_step_log [OF this S3(1) A(1) S3(2) True] show ?thesis using S3(3) req by simp
          next
            case calls: False
            have "tools_step (logged env) start r (answered r st3) (s3, l3) = (res, (s', l'))"
              using step2 a' w calls by simp
            from tools_step_log [OF this S3(1) A(1) S3(2) calls S3(4,5)] show ?thesis using S3(3) req by simp
          qed
        qed
      qed
    qed
  qed
qed

section \<open>The loop\<close>

lemma budget_summary_log:
  assumes b: "budget_summary (logged env) st (s, l) = (res, (s', l'))"
    and ok: "run_ok window soft st" and log: "log_ok env l"
  shows "log_ok env l' \<and> requests l' \<le> Suc (requests l) \<and> (\<forall>r. res = Inr r \<longrightarrow> result_ok window soft r)"
proof -
  have p: "protocol (rs_messages st @ [user_message budget_reminder])"
    using ok by (auto simp: run_ok_def intro: protocol_append protocol_user)
  have "result_ok window soft (result_of_state reply c (st\<lparr>rs_thinking := t, rs_usages := us\<rparr>))" for reply c t us
    by (rule result_of_ok) (use ok in \<open>simp add: run_ok_def\<close>)
  then show ?thesis
    using b log p result_of_ok [OF ok]
    by (auto simp: budget_summary_def Let_def remember_def split: if_splits prod.splits sum.splits run_error.splits)
qed

lemma react_loop_log:
  fixes env :: "'s react_env" and s s' :: 's
  assumes "react_loop (logged env) st (s, l) = Some (res, (s', l'))" "run_ok window soft st" "log_ok env l" "counted st l"
  shows "log_ok env l' \<and> (\<forall>r. res = Inr r \<longrightarrow> result_ok window soft r)"
proof -
  define Q where "Q e st w y \<longleftrightarrow> (\<forall>s l s' l' res. e = logged env \<longrightarrow> w = (s, l) \<longrightarrow> y = (res, (s', l')) \<longrightarrow>
      run_ok window soft st \<longrightarrow> log_ok env l \<longrightarrow> counted st l \<longrightarrow>
      log_ok env l' \<and> (\<forall>r. res = Inr r \<longrightarrow> result_ok window soft r))"
    for e and st and w :: "'s \<times> react_log list" and y :: "(run_error + reasoner_result) \<times> 's \<times> react_log list"
  have main: "Q e st w y" if r: "react_loop e st w = Some y" for e st w y
  proof (rule react_loop.raw_induct [where P = Q, OF _ r])
    fix rec and e :: "('s \<times> react_log list) react_env" and st and w :: "'s \<times> react_log list" and y
    assume IH: "\<And>e st w y. rec e st w = Some y \<Longrightarrow> Q e st w y"
      and body: "(if re_limit e \<le> 0 \<or> rs_iteration st < re_limit e
          then (case react_step e st w of (Inl er, s') \<Rightarrow> Some (Inl er, s')
             | (Inr (Finished r), s') \<Rightarrow> Some (Inr r, s') | (Inr (Again st'), s') \<Rightarrow> rec e st' s')
          else Some (budget_summary e st w)) = Some y"
    show "Q e st w y"
      unfolding Q_def
    proof (intro allI impI)
      fix s l s' l' res
      assume e: "e = logged env" and w: "w = (s, l)" and y: "y = (res, (s', l'))"
        and ok: "run_ok window soft st" "log_ok env l" "counted st l"
      show "log_ok env l' \<and> (\<forall>r. res = Inr r \<longrightarrow> result_ok window soft r)"
      proof (cases "re_limit e \<le> 0 \<or> rs_iteration st < re_limit e")
        case False
        have "budget_summary (logged env) st (s, l) = (res, (s', l'))"
          using body [unfolded if_not_P [OF False], unfolded e w y] by (simp only: option.inject)
        from budget_summary_log [OF this ok(1,2)] show ?thesis by simp
      next
        case True
        obtain r s1 l1 where r: "react_step (logged env) st (s, l) = (r, (s1, l1))" by (metis surj_pair)
        have S: "step_ok env window soft (rs_iteration st) r l1" using react_step_log [OF r ok] by simp
        note body' = body [unfolded if_P [OF True], unfolded e w y r prod.case]
        consider (err) er where "r = Inl er" | (fin) x where "r = Inr (Finished x)" | (again) st' where "r = Inr (Again st')"
          by (metis step_result.exhaust sum.exhaust)
        then show ?thesis
        proof cases
          case again
          have "rec (logged env) st' (s1, l1) = Some (res, (s', l'))" using body' again by simp
          from IH [OF this] S again show ?thesis unfolding Q_def by (simp add: step_ok_def)
        qed (use body' S in \<open>auto simp: step_ok_def\<close>)
      qed
    qed
  qed
  show ?thesis using main [OF assms(1)] assms(2-4) unfolding Q_def by blast
qed

text \<open>With a positive limit the loop ends, after at most four requests for every iteration and one more.\<close>

lemma react_loop_ends:
  assumes "0 < re_limit env" "rs_iteration st \<le> re_limit env" "run_ok window soft st" "log_ok env l" "counted st l"
  shows "\<exists>res s' l'. react_loop (logged env) st (s, l) = Some (res, (s', l')) \<and>
    requests l' \<le> requests l + 4 * nat (re_limit env - rs_iteration st) + 1"
  using assms(2-)
proof (induction "nat (re_limit env - rs_iteration st)" arbitrary: st s l)
  case 0
  obtain res s' l' where b: "budget_summary (logged env) st (s, l) = (res, (s', l'))" by (metis surj_pair)
  have "\<not> (re_limit (logged env) \<le> 0 \<or> rs_iteration st < re_limit (logged env))" using 0 assms(1) by simp
  then have "react_loop (logged env) st (s, l) = Some (res, (s', l'))"
    using b by (subst react_loop.simps) simp
  then show ?case using budget_summary_log [OF b 0(3,4)] by auto
next
  case (Suc k)
  obtain r s1 l1 where r: "react_step (logged env) st (s, l) = (r, (s1, l1))" by (metis surj_pair)
  note S = react_step_log [OF r Suc(4,5,6)]
  have "0 < nat (re_limit env - rs_iteration st)" using Suc(2) by linarith
  then have lim: "re_limit (logged env) \<le> 0 \<or> rs_iteration st < re_limit (logged env)" by simp
  have k: "nat (re_limit env - rs_iteration st) = Suc k" using Suc(2) by simp
  note loop = react_loop.simps [of "logged env" st "(s, l)", unfolded if_P [OF lim] r prod.case]
  consider (err) er where "r = Inl er" | (fin) x where "r = Inr (Finished x)" | (again) st' where "r = Inr (Again st')"
    by (metis step_result.exhaust sum.exhaust)
  then show ?case
  proof cases
    case again
    have st': "run_ok window soft st'" "counted st' l1" "rs_iteration st' = rs_iteration st + 1" "log_ok env l1"
      using S again by (simp_all add: step_ok_def)
    have k': "k = nat (re_limit env - rs_iteration st')" using Suc(2) st'(3) by simp
    have "rs_iteration st' \<le> re_limit env" using lim assms(1) st'(3) by simp
    from Suc(1) [OF k' this st'(1,4,2), of s1] obtain res s' l' where
      x: "react_loop (logged env) st' (s1, l1) = Some (res, (s', l'))"
        "requests l' \<le> requests l1 + 4 * nat (re_limit env - rs_iteration st') + 1" by blast
    have "requests l' \<le> requests l + 4 * Suc k + 1" using x(2) S k' by simp
    then show ?thesis using loop again x(1) k by simp
  qed (use loop S k in simp_all)
qed

end
