(* ===== verification/ReactTheorems.thy ===== *)
theory ReactTheorems
  imports ReactProofs
begin

text \<open>
  The properties of the reasoning loop (\<open>src/agent/core/runtime.py\<close>): a run ends within its budget
  of requests, the model only ever sees conversations its protocol accepts, and the loop guard bounds how
  often one call is carried out.
\<close>

section \<open>The start of a run\<close>

lemma new_compactor_ok:
  assumes "new_compactor ms w soft h scope = Inr c" "protocol ms"
  shows "compactor_ok 0 c \<and> qc_window c = w \<and> qc_soft c = soft"
  using assms by (auto simp: new_compactor_def compactor_ok_def Let_def split: if_splits)

lemma start_ok:
  assumes "new_compactor ms w soft h scope = Inr c" "protocol ms"
  shows "run_ok w soft (start_state ms c u)" "counted (start_state ms c u) []"
  using new_compactor_ok [OF assms] assms(2) by (simp_all add: run_ok_def start_state_def counted_def)

text \<open>A run raises before its first request, or it is the loop from a state that keeps the invariant.\<close>

lemma react_run_cases:
  assumes "protocol ms"
  obtains (refused) e where "react_run (logged env) cfg ms (s, []) = Some (Inl e, (s, []))"
  | (starts) st hard where "react_run (logged env) cfg ms (s, []) = react_loop (logged env) st (s, [])"
      "run_ok (max 0 (rg_window cfg)) (soft_limit hard) st" "counted st []" "rs_iteration st = 0"
      "(if max 0 (rg_window cfg) = 0 then Inr 0
        else input_budget (rg_percent_ok cfg) (rg_effective cfg) (max 0 (rg_window cfg)) (rg_max_tokens cfg)) = Inr hard"
proof -
  let ?w = "max 0 (rg_window cfg)"
  define h where "h = (if ?w = 0 then Inr 0 else input_budget (rg_percent_ok cfg) (rg_effective cfg) ?w (rg_max_tokens cfg))"
  note run = react_run_def [of "logged env" cfg ms "(s, [])", unfolded Let_def h_def [symmetric]]
  show ?thesis
  proof (cases h)
    case (Inl e)
    then show ?thesis using run by (intro refused [of "PyError e"]) simp
  next
    case h: (Inr hard)
    show ?thesis
    proof (cases "new_compactor ms ?w (soft_limit hard) (Some hard) (rg_session_key cfg)")
      case (Inl e)
      then show ?thesis using run h by (intro refused [of "PyError e"]) simp
    next
      case (Inr c)
      let ?st = "start_state ms c (re_lru (logged env) (s, []))"
      show ?thesis
        by (rule starts [of ?st hard]) (use run h [unfolded h_def] h Inr start_ok [OF Inr assms] in \<open>simp_all add: start_state_def h_def\<close>)
    qed
  qed
qed

text \<open>What a run returns accounts for its tool chain within the limits of its budget.\<close>

lemma react_run_result:
  assumes "protocol ms" "react_run (logged env) cfg ms (s, []) = Some (Inr r, (s', l))" "0 < rg_window cfg"
    and "input_budget (rg_percent_ok cfg) (rg_effective cfg) (rg_window cfg) (rg_max_tokens cfg) = Inr hard"
  shows "result_ok (rg_window cfg) (soft_limit hard) r"
proof (rule react_run_cases [OF assms(1), of env cfg s])
  fix st h
  assume st: "react_run (logged env) cfg ms (s, []) = react_loop (logged env) st (s, [])"
    "run_ok (max 0 (rg_window cfg)) (soft_limit h) st" "counted st []"
    "(if max 0 (rg_window cfg) = 0 then Inr 0
      else input_budget (rg_percent_ok cfg) (rg_effective cfg) (max 0 (rg_window cfg)) (rg_max_tokens cfg)) = Inr h"
  have "h = hard" using st(4) assms(3,4) by simp
  moreover have "react_loop (logged env) st (s, []) = Some (Inr r, (s', l))" using assms(2) st(1) by simp
  from react_loop_log [OF this st(2) log_ok_Nil st(3)] have "result_ok (max 0 (rg_window cfg)) (soft_limit h) r" by simp
  ultimately show ?thesis using assms(3) by simp
qed (use assms(2) in simp)

section \<open>A sample environment\<close>

text \<open>A model that makes the same call twice at once and answers after the results.\<close>

definition react_call :: model_call where
  "react_call = \<lparr>mc_id = lit ''c1'', mc_name = lit ''t'', mc_arguments = []\<rparr>"

definition react_answer :: "pystr \<Rightarrow> model_call list \<Rightarrow> model_response" where
  "react_answer t cs = \<lparr>mr_text = t, mr_reasoning = [], mr_calls = cs, mr_usage = []\<rparr>"

definition react_request :: tool_request where
  "react_request = \<lparr>tk_session_key = [], tk_channel = [], tk_chat_id = [], tk_tool_name = lit ''t'', tk_arguments = [],
     tk_call_id = lit ''c1'', tk_request_text = [], tk_iteration = 0, tk_call_index = 0\<rparr>"

definition react_sample :: "unit react_env" where
  "react_sample =
     \<lparr>re_loads = (\<lambda>_. None), re_repr = (\<lambda>_. []), re_limit = 4, re_repeat_limit = 1, re_disabled = [],
      re_specs = (\<lambda>_. []), re_deferred = (\<lambda>_. False),
      re_model = (\<lambda>ms specs s. (Inr (if length ms < 2 then react_answer [] [react_call, react_call] else react_answer (lit ''ok'') []), s)),
      re_before_step = (\<lambda>i n names s. (Inr \<lparr>sc_early_stop = False, sc_reply = [], sc_hints = [], sc_tokens = n\<rparr>, s)),
      re_after_step = (\<lambda>i ms chain b s. (None, s)),
      re_request = (\<lambda>c i k. react_request), re_hooks = [], re_secs = [], re_invoke = (\<lambda>c n a s. (IText (lit ''done''), s)),
      re_lru = (\<lambda>_. []), re_put_lru = (\<lambda>_ s. s)\<rparr>"

definition react_sample_config :: react_config where
  "react_sample_config = \<lparr>rg_window = 0, rg_percent_ok = True, rg_effective = id, rg_max_tokens = 1, rg_session_key = []\<rparr>"

section \<open>The properties\<close>

text \<open>C9: With a positive budget of iterations a run always returns, whatever the model, the tools and the
  plugins do, and it sends at most four requests per iteration and one more: the request, the summary of
  a compaction before it, and after an overflow a forced summary and the second try; the last one asks
  for the final answer when the budget has ended.\<close>

theorem react_run_ends:
  assumes "0 < re_limit env" "protocol messages"
  shows "\<exists>res s' l. react_run (logged env) cfg messages (s, []) = Some (res, (s', l)) \<and>
    requests l \<le> 4 * nat (re_limit env) + 1"
proof (rule react_run_cases [OF assms(2), of env cfg s])
  fix st hard
  assume st: "react_run (logged env) cfg messages (s, []) = react_loop (logged env) st (s, [])"
    "run_ok (max 0 (rg_window cfg)) (soft_limit hard) st" "counted st []" "rs_iteration st = 0"
  show ?thesis
    using react_loop_ends [OF assms(1) _ st(2) log_ok_Nil st(3), of s] assms(1) st(1,4) by simp
qed simp

text \<open>C8: Every request a run sends, the compacted ones and those after an overflow included, is a
  conversation of the chat protocol: each tool message answers the call at its place in the assistant
  message before it, and no call is left without its answer.  And one call with the same name and
  arguments reaches the tool at most as often as the loop guard allows, whatever its identifier.\<close>

theorem react_requests_valid:
  assumes "protocol messages" "react_run (logged env) cfg messages (s, []) = Some (res, (s', l))"
  shows "(\<forall>ms. Asked ms \<in> set l \<longrightarrow> protocol ms) \<and> (\<forall>sig. int (invoked sig l) \<le> max 1 (re_repeat_limit env))"
proof (rule react_run_cases [OF assms(1), of env cfg s])
  fix st hard
  assume st: "react_run (logged env) cfg messages (s, []) = react_loop (logged env) st (s, [])"
    "run_ok (max 0 (rg_window cfg)) (soft_limit hard) st" "counted st []"
  have "react_loop (logged env) st (s, []) = Some (res, (s', l))" using assms(2) st(1) by simp
  from react_loop_log [OF this st(2) log_ok_Nil st(3)] show ?thesis by (simp add: log_ok_def)
qed (use assms(2) in simp)

section \<open>Witnesses\<close>

theorem react_run_ends_witness:
  "\<exists>res s' l. react_run (logged react_sample) react_sample_config [user_message (lit ''hi'')] ((), []) = Some (res, (s', l)) \<and>
    requests l \<le> 17"
  using react_run_ends [of react_sample "[user_message (lit ''hi'')]" react_sample_config "()"] protocol_user
  by (simp add: react_sample_def)

definition react_sample_request :: "pydict list" where
  "react_sample_request =
     [user_message (lit ''hi''), assistant_message_from_response (react_answer [] [react_call, react_call]),
      tool_result_message (lit ''c1'') (lit ''done'') False,
      tool_result_message (lit ''c1'') (lit ''Error: Repeated identical tool call blocked by loop guard'') True]"

definition react_sample_log :: "react_log list" where
  "react_sample_log =
     [Asked [user_message (lit ''hi'')], Invoked react_call,
      Asked react_sample_request]"

lemma react_sample_run:
  "\<exists>r. react_run (logged react_sample) react_sample_config [user_message (lit ''hi'')] ((), []) = Some (Inr r, ((), react_sample_log))"
  apply (simp add: react_run_def react_sample_config_def new_compactor_def soft_limit_def Let_def)
  apply (subst react_loop.simps)
  apply (simp add: react_step_def compact_state_def prepare_def compaction_env_def start_state_def react_sample_def Let_def
   ask_model_def react_answer_def tools_step_def answered_def answer_call_def execute_call_def execute_tool_def react_request_def
   finish_call_def settled_def run_post_hooks_def newly_unlocked_def unlock_def called_def react_call_def record_completed_batch_def
   tool_call_message_def assistant_message_from_response_def function_call_def visible_specs_def deny_tool_def)
  apply (subst react_loop.simps)
  apply (simp add: react_step_def compact_state_def prepare_def compaction_env_def start_state_def react_sample_def Let_def
   ask_model_def react_answer_def answered_def final_step_def remember_def visible_specs_def react_sample_log_def react_sample_request_def
    assistant_message_from_response_def function_call_def react_call_def)
  done

theorem react_requests_valid_witness:
  "protocol react_sample_request \<and> int (invoked (call_signature react_call) react_sample_log) \<le> 1"
proof -
  obtain r where r: "react_run (logged react_sample) react_sample_config [user_message (lit ''hi'')] ((), []) =
      Some (Inr r, ((), react_sample_log))" using react_sample_run by blast
  show ?thesis using react_requests_valid [OF protocol_user r] by (simp add: react_sample_def react_sample_log_def)
qed

end
