(* ===== verification/CommitTheorems.thy ===== *)
theory CommitTheorems
  imports SessionTheorems SessionCommit ReactTheorems
begin

text \<open>
  The reasoner, the commit of a turn and the history together: what a run returns can be stored and is
  replayed in every later turn.
\<close>

declare nat_text.simps [simp del]

section \<open>Replaying the groups of a run\<close>

lemma replay_call_record: "\<exists>c. replay_call (call_record call out) = Inr c"
  by (simp add: replay_call_def call_record_def item_def)

lemma replay_result_record: "\<exists>m. replay_result repr (call_record call out) = Some (Inr m)"
  by (auto simp: replay_result_def call_record_def item_def split: option.split)

lemma replay_calls_records: "\<exists>cs. res_map replay_call (map2 call_record calls outs) = Inr cs"
proof (induction calls outs rule: list_induct2')
  case (4 x xs y ys)
  then show ?case using replay_call_record [of x y] by auto
qed simp_all

lemma replay_results_records:
  "\<exists>rs. each (\<lambda>c. map_option (map_sum id (\<lambda>m. [m])) (replay_result repr c)) (map2 call_record calls outs) = Some (Inr rs)"
proof (induction calls outs rule: list_induct2')
  case (4 x xs y ys)
  then show ?case using replay_result_record [of repr x y] by (auto simp: each_single)
qed simp_all

lemma replay_group_ok:
  assumes "group_ok g"
  shows "\<exists>ms. replay_group repr g = Some (Inr ms)"
proof -
  obtain r outs where g: "mr_calls r \<noteq> []" "length outs = length (mr_calls r)"
      "g = tool_group r (map2 call_record (mr_calls r) outs)"
    using assms by (auto simp: group_ok_def)
  obtain cs where cs: "res_map replay_call (map2 call_record (mr_calls r) outs) = Inr cs" using replay_calls_records by blast
  obtain rs where rs: "each (\<lambda>c. map_option (map_sum id (\<lambda>m. [m])) (replay_result repr c)) (map2 call_record (mr_calls r) outs) = Some (Inr rs)"
    using replay_results_records by blast
  have n: "map2 call_record (mr_calls r) outs \<noteq> []" using g(1,2) by (cases "mr_calls r"; cases outs) simp_all
  show ?thesis using n cs rs unfolding g(3) by (simp add: replay_group_def tool_group_def get_or_def)
qed

lemma each_ok: "(\<And>x. x \<in> set xs \<Longrightarrow> \<exists>ys. f x = Some (Inr ys)) \<Longrightarrow> \<exists>zs. each f xs = Some (Inr zs)"
proof (induction xs)
  case (Cons x xs)
  obtain ys where ys: "f x = Some (Inr ys)" using Cons(2) by auto
  obtain zs where zs: "each f xs = Some (Inr zs)" using Cons(1) Cons(2) by (metis list.set_intros(2))
  show ?case using ys zs by simp
qed simp

section \<open>Replaying the compaction of a run\<close>

lemma ascii_encodes: "\<forall>c \<in> set s. c < 128 \<Longrightarrow> utf8_encode s = Some s"
  by (induction s) (auto simp: utf8_char_def)

lemma nat_text_ascii: "c \<in> set (nat_text n) \<Longrightarrow> c < 128"
proof (induction n rule: nat_text.induct)
  case (1 n)
  then show ?case by (cases "n < 10") (auto simp: nat_text.simps [of n])
qed

lemma call_id_exists:
  assumes "\<forall>c \<in> set i. c < 128"
  shows "\<exists>x. compaction_call_id (lit ''persisted:'' @ i) g = Some x"
proof -
  have "\<forall>c \<in> set (lit ''persisted:'' @ i @ [0] @ int_text g). c < 128"
    using assms nat_text_ascii by (auto simp: lit_def int_text_def)
  from ascii_encodes [OF this] show ?thesis by (simp add: compaction_call_id_def sha256_text_def)
qed

lemma compactor_valid:
  assumes "compactor_ok n c" "qc_compaction c = Some rc" "0 < qc_soft c" "qc_soft c < qc_window c"
    and "\<exists>bs. utf8_encode (rc_summary rc) = Some bs \<and> length bs \<le> 524288"
  shows "compaction_valid rc" "rc_groups rc \<le> int n"
  using assms by (auto simp: compactor_ok_def compaction_valid_def)

text \<open>A message that holds the tool chain and the compaction of a run is replayed.\<close>

definition summary_fits :: "reasoner_result \<Rightarrow> bool" where
  "summary_fits r \<longleftrightarrow>
     (case rr_compaction r of
        None \<Rightarrow> True
      | Some p \<Rightarrow> (case get p ''summary'' of
          Some (JStr t) \<Rightarrow> (case utf8_encode t of None \<Rightarrow> False | Some bs \<Rightarrow> length bs \<le> 524288) | _ \<Rightarrow> False))"

lemma replay_run_message:
  assumes ok: "result_ok window soft r" and soft: "0 < soft" "soft < window" and fits: "summary_fits r"
    and role: "has_role ''assistant'' m"
    and chain: "get m ''tool_chain'' = Some (JArr (rr_tool_chain r))"
    and comp: "get m ''react_compaction'' = map_option JObj (rr_compaction r)"
    and i: "get m ''id'' = Some (JStr i)" "i \<noteq> []" "\<forall>c \<in> set i. c < 128"
  shows "\<exists>ms. replay_message repr key m = Some (Inr ms)"
proof -
  obtain c where c: "compactor_ok (length (rr_tool_chain r)) c" "qc_window c = window" "qc_soft c = soft"
      "rr_compaction r = persistence_payload c" and groups: "\<forall>g \<in> set (rr_tool_chain r). group_ok g"
    using ok by (auto simp: result_ok_def)
  have l: "py_list (get_or m ''tool_chain'' (JArr [])) = Inr (rr_tool_chain r)" using chain by (simp add: get_or_def)
  have mid: "message_id repr key m = i" using i by (simp add: message_id_def get_or_def)
  have "\<exists>ps n. replay_compaction repr key m (rr_tool_chain r) = Inr (ps, drop n (rr_tool_chain r))"
  proof (cases "qc_compaction c")
    case None
    then have "get_default m ''react_compaction'' JNull = JNull" using comp c(4) by (simp add: get_default_def persistence_payload_def)
    then show ?thesis by (auto simp: replay_compaction_def intro: exI [of _ 0])
  next
    case (Some rc)
    have p: "rr_compaction r = Some (to_payload rc)" using c(4) Some by (simp add: persistence_payload_def)
    have "\<exists>bs. utf8_encode (rc_summary rc) = Some bs \<and> length bs \<le> 524288"
      using fits p by (auto simp: summary_fits_def to_payload_def split: option.splits)
    note V = compactor_valid [OF c(1) Some _ _ this, unfolded c(2,3), OF soft]
    have d: "get_default m ''react_compaction'' JNull = JObj (to_payload rc)" using comp p by (simp add: get_default_def)
    obtain x where "compaction_call_id (lit ''persisted:'' @ i) (rc_generation rc) = Some x" using call_id_exists [OF i(3)] by blast
    then show ?thesis using V parse_payload [OF V(1)] by (auto simp: replay_compaction_def d mid build_replay_compaction_messages_def Let_def)
  qed
  then obtain ps n where ps: "replay_compaction repr key m (rr_tool_chain r) = Inr (ps, drop n (rr_tool_chain r))" by blast
  obtain zs where zs: "each (replay_group repr) (drop n (rr_tool_chain r)) = Some (Inr zs)"
    using each_ok [of "drop n (rr_tool_chain r)" "replay_group repr"] groups replay_group_ok by (meson in_set_dropD)
  have "\<not> has_role ''user'' m" using role by (simp add: has_role_def)
  then show ?thesis using role l ps zs by (simp add: replay_message_def)
qed

section \<open>The committed messages\<close>

lemma map_of_rev_distinct: "distinct (map fst e) \<Longrightarrow> map_of (rev e) = map_of e"
  by (rule map_of_inject_set [THEN iffD2]) (simp_all add: rev_map [symmetric])

lemma add_messageD:
  assumes "SessionHistory.add_message role content media kwargs fresh now later s = Inr (m, s')"
  shows "sn_messages s' = sn_messages s @ [m]" "sn_key s' = sn_key s" "sn_reserved s' = None"
  using assms by (auto simp: SessionHistory.add_message_def Let_def split: sum.splits)

lemma add_message_get:
  assumes "SessionHistory.add_message role content media kwargs fresh now later s = Inr (m, s')"
    and "k \<noteq> lit ''media''" "k \<noteq> lit ''seq''"
  shows "map_of m k = (case map_of (rev kwargs) k of Some v \<Rightarrow> Some v
      | None \<Rightarrow> map_of [(lit ''id'', JStr (case sn_reserved s of None \<Rightarrow> fresh | Some r \<Rightarrow> or_else r fresh)),
          (lit ''role'', JStr role), (lit ''content'', JStr content), (lit ''timestamp'', JStr now)] k)"
  using assms
  by (auto simp: SessionHistory.add_message_def Let_def map_of_dict_update map_of_dict_set
      split: sum.splits option.splits if_splits)

definition id_ok :: "pystr \<Rightarrow> bool" where
  "id_ok i \<longleftrightarrow> i \<noteq> [] \<and> (\<forall>c \<in> set i. c < 128)"

text \<open>Every message of the session is replayed without an error.\<close>

definition replayable :: "(json \<Rightarrow> pystr) \<Rightarrow> session \<Rightarrow> bool" where
  "replayable repr s \<longleftrightarrow> (\<forall>m \<in> set (sn_messages s). \<exists>ms. replay_message repr (sn_key s) m = Some (Inr ms))"

lemma selected_subset: "set (selected_messages n i ms) \<subseteq> set ms"
  by (auto simp: selected_messages_def Let_def dest: in_set_dropD split: option.splits if_splits)

lemma replayable_history:
  assumes "replayable repr s"
  shows "\<exists>h. get_history repr n i s = Some (Inr h)"
  unfolding get_history_def
proof (rule each_ok)
  fix m assume "m \<in> set (dropWhile (\<lambda>m. \<not> has_role ''user'' m) (selected_messages n i (sn_messages s)))"
  then have "m \<in> set (sn_messages s)" using selected_subset set_dropWhileD by fastforce
  then show "\<exists>ys. replay_message repr (sn_key s) m = Some (Inr ys)" using assms by (simp add: replayable_def)
qed

text \<open>What a later turn replays of a turn are the two messages it adds.\<close>

lemma commit_messages_replayable:
  assumes c: "commit_messages c fresh clk s = (Inr (), s')" and s: "replayable repr s"
    and ok: "result_ok window soft r" "0 < soft" "soft < window" "summary_fits r"
    and turn: "tm_tool_chain c = rr_tool_chain r" "get (tm_extra c) ''react_compaction'' = map_option JObj (rr_compaction r)"
      "dict_ok (tm_extra c)" "get (tm_extra c) ''id'' = None"
    and ids: "id_ok (fresh 0)" "id_ok (fresh 1)" "case sn_reserved s of None \<Rightarrow> True | Some i \<Rightarrow> id_ok i"
  shows "replayable repr s'"
proof -
  define u where "u = (if tm_omit_user c then Inr ([], s)
      else SessionHistory.add_message (lit ''user'') (tm_content c) (tm_media c)
             [(lit ''inbound_timestamp'', JStr (tm_inbound_at c))] (fresh 0) (clk 0) (clk 1) s)"
  note step = c [unfolded commit_messages_def u_def [symmetric]]
  obtain m1 s1 m where u: "u = Inr (m1, s1)" and kw: "\<not> (\<exists>k \<in> fst ` set (tm_extra c). k \<in> set own_keywords)"
      and a: "SessionHistory.add_message (lit ''assistant'') (tm_reply c) (map JStr (tm_reply_media c)) (assistant_kwargs c)
        (fresh 1) (clk 2) (clk 3) s1 = Inr (m, s')"
    using step by (auto split: sum.splits if_splits)
  have s1: "replayable repr s1 \<and> sn_key s1 = sn_key s \<and> (case sn_reserved s1 of None \<Rightarrow> True | Some i \<Rightarrow> id_ok i)"
  proof (cases "tm_omit_user c")
    case True
    then show ?thesis using u s ids(3) by (simp add: u_def)
  next
    case False
    then have a1: "SessionHistory.add_message (lit ''user'') (tm_content c) (tm_media c)
        [(lit ''inbound_timestamp'', JStr (tm_inbound_at c))] (fresh 0) (clk 0) (clk 1) s = Inr (m1, s1)"
      using u by (simp add: u_def)
    have "has_role ''user'' m1" using add_message_get [OF a1, of "lit ''role''"] by (simp add: has_role_def)
    then show ?thesis using add_messageD [OF a1] s by (auto simp: replayable_def replay_message_def)
  qed
  have "distinct (map fst (assistant_kwargs c))"
    using turn(3) kw by (auto simp: assistant_kwargs_def dict_ok_def own_keywords_def)
  note kwargs = map_of_rev_distinct [OF this]
  have absent: "get (tm_extra c) k = None" if "lit k \<in> set own_keywords" for k
    using kw that by (auto simp: map_of_eq_None_iff)
  have role: "has_role ''assistant'' m"
    using add_message_get [OF a, of "lit ''role''", unfolded kwargs] absent [of "''role''"]
    by (simp add: has_role_def assistant_kwargs_def own_keywords_def split: option.splits)
  have chain: "get m ''tool_chain'' = Some (JArr (rr_tool_chain r))"
    using add_message_get [OF a, of "lit ''tool_chain''", unfolded kwargs] turn(1) by (simp add: assistant_kwargs_def)
  have comp: "get m ''react_compaction'' = map_option JObj (rr_compaction r)"
    using add_message_get [OF a, of "lit ''react_compaction''", unfolded kwargs] turn(2) by (simp add: assistant_kwargs_def split: option.splits)
  obtain i where i: "get m ''id'' = Some (JStr i)" "id_ok i"
    using add_message_get [OF a, of "lit ''id''", unfolded kwargs] turn(4) ids(2) s1
    by (cases "sn_reserved s1") (auto simp: assistant_kwargs_def or_else_def id_ok_def)
  have "\<exists>ms. replay_message repr (sn_key s1) m = Some (Inr ms)"
    by (rule replay_run_message [OF ok role chain comp i(1)]) (use i(2) in \<open>simp_all add: id_ok_def\<close>)
  then show ?thesis using s1 add_messageD [OF a] by (auto simp: replayable_def)
qed

lemma commit_turn_messages:
  assumes "commit_turn repr window c fresh clk s = Some (Inr (), s')"
  shows "\<exists>s1. commit_messages c fresh clk s = (Inr (), s1) \<and> sn_messages s' = sn_messages s1 \<and> sn_key s' = sn_key s1"
  using assms by (auto simp: commit_turn_def Let_def split: sum.splits prod.splits option.splits)

lemma budget_limits:
  assumes "input_budget p f w m = Inr hard" "2 \<le> hard" "f w \<le> w"
  shows "0 < soft_limit hard" "soft_limit hard < w"
proof -
  have "hard < w" using assms by (auto simp: input_budget_def split: if_splits)
  then show "0 < soft_limit hard" "soft_limit hard < w" using assms(2) by (auto simp: soft_limit_def)
qed

text \<open>C7: A turn never makes its session unreadable: what a run of the reasoner returns, compacted or not, is
  committed with its two messages, and afterwards every window of the session is still replayed without
  an error, if the summary of the compaction fits the column the reader allows and the budget of the
  model is at least two tokens.\<close>

theorem turn_keeps_history:
  assumes "replayable repr s"
    and "protocol base" "react_run (logged env) cfg base (x, []) = Some (Inr r, (x', l))"
    and "0 < rg_window cfg" "2 \<le> hard" "rg_effective cfg (rg_window cfg) \<le> rg_window cfg"
      "input_budget (rg_percent_ok cfg) (rg_effective cfg) (rg_window cfg) (rg_max_tokens cfg) = Inr hard"
    and "summary_fits r" "tm_tool_chain c = rr_tool_chain r"
      "get (tm_extra c) ''react_compaction'' = map_option JObj (rr_compaction r)"
      "dict_ok (tm_extra c)" "get (tm_extra c) ''id'' = None"
    and "id_ok (fresh 0)" "id_ok (fresh 1)" "case sn_reserved s of None \<Rightarrow> True | Some i \<Rightarrow> id_ok i"
    and "commit_turn repr window c fresh clk s = Some (Inr (), s')"
  shows "replayable repr s' \<and> (\<exists>h. get_history repr n i s' = Some (Inr h))"
proof -
  note ok = react_run_result [OF assms(2,3,4,7)]
  obtain s1 where s1: "commit_messages c fresh clk s = (Inr (), s1)" "sn_messages s' = sn_messages s1" "sn_key s' = sn_key s1"
    using commit_turn_messages [OF assms(16)] by blast
  have "replayable repr s1"
    by (rule commit_messages_replayable [OF s1(1) assms(1) ok budget_limits [OF assms(7,5,6)] assms(8-15)])
  then have "replayable repr s'" using s1 by (simp add: replayable_def)
  then show ?thesis using replayable_history by blast
qed

section \<open>Witnesses\<close>

definition short_env :: "unit react_env" where
  "short_env = react_sample\<lparr>re_model := (\<lambda>ms specs s. (Inr (react_answer (lit ''ok'') []), s))\<rparr>"

definition short_config :: react_config where
  "short_config = \<lparr>rg_window = 100, rg_percent_ok = True, rg_effective = id, rg_max_tokens = 10, rg_session_key = []\<rparr>"

definition short_result :: reasoner_result where
  "short_result = \<lparr>rr_reply = lit ''ok'', rr_tools_used = [], rr_tool_chain = [], rr_thinking = [],
     rr_stats = Some ([1], [[]]), rr_attention = None, rr_compaction = None\<rparr>"

lemma short_run: "react_run (logged short_env) short_config [] ((), []) = Some (Inr short_result, ((), [Asked []]))"
  apply (simp add: react_run_def short_config_def input_budget_def new_compactor_def soft_limit_def Let_def)
  apply (subst react_loop.simps)
  apply (simp add: react_step_def compact_state_def prepare_def compaction_env_def start_state_def short_env_def
      react_sample_def Let_def ask_model_def react_answer_def answered_def final_step_def remember_def visible_specs_def
      estimate_context_tokens_def strip_def lit_def py_space_def result_of_state_def or_else_def short_result_def
      persistence_payload_def)
  done

definition short_session :: session where
  "short_session = \<lparr>sn_key = [107], sn_messages = [], sn_created_at = [], sn_updated_at = [], sn_metadata = [],
     sn_last_consolidated = 0, sn_reserved = None\<rparr>"

definition short_commit :: turn_commit where
  "short_commit = \<lparr>tm_omit_user = False, tm_content = lit ''hi'', tm_media = [], tm_inbound_at = [], tm_channel = [],
     tm_chat_id = [], tm_sender = [], tm_username = JNull, tm_reply = lit ''ok'', tm_reply_media = [], tm_thinking = [],
     tm_tools_used = [], tm_tool_chain = [], tm_extra = []\<rparr>"

lemma short_commit_turn:
  "\<exists>s'. commit_turn (\<lambda>_. []) 10 short_commit (\<lambda>i. [97]) (\<lambda>i. []) short_session = Some (Inr (), s') \<and> length (sn_messages s') = 2"
  by (simp add: commit_turn_def commit_messages_def short_commit_def short_session_def SessionHistory.add_message_def next_seq_def
      get_default_def assistant_kwargs_def dict_update_def commit_metadata_def get_or_def commit_trace_def selected_attempt_def
      get_history_def selected_messages_def has_role_def replay_message_def replay_compaction_def post_reply_budget_def Let_def)

theorem turn_keeps_history_witness:
  "\<exists>s'. length (sn_messages s') = 2 \<and> replayable (\<lambda>_. []) s' \<and> (\<exists>h. get_history (\<lambda>_. []) 10 None s' = Some (Inr h))"
proof -
  obtain s' where s': "commit_turn (\<lambda>_. []) 10 short_commit (\<lambda>i. [97]) (\<lambda>i. []) short_session = Some (Inr (), s')"
      "length (sn_messages s') = 2" using short_commit_turn by blast
  have "replayable (\<lambda>_. []) s' \<and> (\<exists>h. get_history (\<lambda>_. []) 10 None s' = Some (Inr h))"
    by (rule turn_keeps_history [OF _ _ short_run, where hard = 90, OF _ _ _ _ _ _ _ _ _ _ _ _ _ _ s'(1)])
      (simp_all add: replayable_def short_session_def short_config_def input_budget_def summary_fits_def short_result_def
        short_commit_def dict_ok_def id_ok_def)
  then show ?thesis using s'(2) by blast
qed

end
