(* ===== verification/ChatLane.thy ===== *)
theory ChatLane
  imports KPrelude
begin

text \<open>
  The lane of one chat and the message bus, \<open>src/bus/queue.py\<close>.  Every critical section of the
  lane runs without a suspension, apart from the waits that give the lock back, so a coroutine is the
  sequence of its sections: what it does before it waits, what it does when it wakes up and may go on, and
  what its \<open>finally\<close> does.  A task is cancelled where it waits or while it sends.
\<close>

section \<open>The state of a lane\<close>

record lane =
  ln_passive_turns :: nat
  ln_passive_sends :: nat
  ln_sending :: bool
  ln_next_ticket :: nat
  ln_serving_ticket :: nat
  ln_next_other :: nat
  ln_serving_other :: nat
  ln_cancelled :: "nat list"

definition empty_lane :: lane where
  "empty_lane = \<lparr>ln_passive_turns = 0, ln_passive_sends = 0, ln_sending = False, ln_next_ticket = 0,
     ln_serving_ticket = 0, ln_next_other = 0, ln_serving_other = 0, ln_cancelled = []\<rparr>"

definition mark_passive_pending :: "lane \<Rightarrow> lane" where
  "mark_passive_pending l = l\<lparr>ln_passive_turns := ln_passive_turns l + 1\<rparr>"

definition mark_passive_done :: "lane \<Rightarrow> lane" where
  "mark_passive_done l = l\<lparr>ln_passive_turns := ln_passive_turns l - 1\<rparr>"

definition mark_passive_send_pending :: "lane \<Rightarrow> nat \<times> lane" where
  "mark_passive_send_pending l =
     (ln_next_ticket l, l\<lparr>ln_next_ticket := ln_next_ticket l + 1, ln_passive_sends := ln_passive_sends l + 1\<rparr>)"

text \<open>\<open>run_passive\<close>: when it may go on, what it sets, and its \<open>finally\<close>.\<close>

definition passive_ready :: "nat \<Rightarrow> lane \<Rightarrow> bool" where
  "passive_ready ticket l \<longleftrightarrow> \<not> ln_sending l \<and> ticket = ln_serving_ticket l"

definition begin_sending :: "lane \<Rightarrow> lane" where
  "begin_sending l = l\<lparr>ln_sending := True\<rparr>"

definition passive_end :: "lane \<Rightarrow> lane" where
  "passive_end l = l\<lparr>ln_passive_sends := ln_passive_sends l - 1, ln_serving_ticket := ln_serving_ticket l + 1,
     ln_sending := False\<rparr>"

text \<open>The set of cancelled tickets is a list without repetition.\<close>

function skip_from :: "nat \<Rightarrow> nat list \<Rightarrow> nat \<times> nat list" where
  "skip_from serving cancelled =
     (if serving \<in> set cancelled then skip_from (serving + 1) (remove1 serving cancelled) else (serving, cancelled))"
  by pat_completeness auto
termination by (relation "measure (length \<circ> snd)") (auto simp: length_remove1 dest: length_pos_if_in_set)

declare skip_from.simps [simp del]

definition skip_cancelled :: "lane \<Rightarrow> lane" where
  "skip_cancelled l =
     (case skip_from (ln_serving_other l) (ln_cancelled l) of
        (serving, cancelled) \<Rightarrow> l\<lparr>ln_serving_other := serving, ln_cancelled := cancelled\<rparr>)"

text \<open>\<open>run_non_passive\<close>: the ticket, when it may go on, and the two cases of its \<open>finally\<close>.\<close>

definition other_enter :: "lane \<Rightarrow> nat \<times> lane" where
  "other_enter l = (ln_next_other l, skip_cancelled (l\<lparr>ln_next_other := ln_next_other l + 1\<rparr>))"

definition other_ready :: "nat \<Rightarrow> lane \<Rightarrow> bool" where
  "other_ready ticket l \<longleftrightarrow> \<not> ln_sending l \<and> ln_passive_turns l = 0 \<and> ln_passive_sends l = 0 \<and>
     ticket = ln_serving_other l"

definition other_end :: "lane \<Rightarrow> lane" where
  "other_end l = skip_cancelled (l\<lparr>ln_serving_other := ln_serving_other l + 1, ln_sending := False\<rparr>)"

definition other_cancel :: "nat \<Rightarrow> lane \<Rightarrow> lane" where
  "other_cancel ticket l = skip_cancelled (l\<lparr>ln_cancelled := List.insert ticket (ln_cancelled l)\<rparr>)"

section \<open>The tasks of a lane\<close>

text \<open>What a task has reached; the log holds the sends in the order they began.\<close>

datatype lane_task = PassiveWaiting nat | PassiveSending nat | OtherWaiting nat | OtherSending nat | Ended

datatype lane_send = PassiveSend nat | OtherSend nat

record lane_world =
  lw_lane :: lane
  lw_tasks :: "lane_task list"
  lw_log :: "lane_send list"

definition empty_world :: lane_world where
  "empty_world = \<lparr>lw_lane = empty_lane, lw_tasks = [], lw_log = []\<rparr>"

definition set_task :: "nat \<Rightarrow> lane_task \<Rightarrow> lane \<Rightarrow> lane_world \<Rightarrow> lane_world" where
  "set_task i t l w = w\<lparr>lw_lane := l, lw_tasks := (lw_tasks w)[i := t]\<rparr>"

definition new_task :: "lane_task \<Rightarrow> lane \<Rightarrow> lane_world \<Rightarrow> lane_world" where
  "new_task t l w = w\<lparr>lw_lane := l, lw_tasks := lw_tasks w @ [t]\<rparr>"

text \<open>The flag says whether the step is the cancellation of a passive send that waits: the wait stands before
  the \<open>try\<close>, so the lane is left as it is.\<close>

inductive lane_step :: "bool \<Rightarrow> lane_world \<Rightarrow> lane_world \<Rightarrow> bool" where
  step_pending: "lane_step False w (w\<lparr>lw_lane := mark_passive_pending (lw_lane w)\<rparr>)"
| step_done: "lane_step False w (w\<lparr>lw_lane := mark_passive_done (lw_lane w)\<rparr>)"
| step_issue: "mark_passive_send_pending (lw_lane w) = (t, l) \<Longrightarrow> lane_step False w (new_task (PassiveWaiting t) l w)"
| step_passive: "i < length (lw_tasks w) \<Longrightarrow> lw_tasks w ! i = PassiveWaiting t \<Longrightarrow> passive_ready t (lw_lane w) \<Longrightarrow>
    lane_step False w ((set_task i (PassiveSending t) (begin_sending (lw_lane w)) w)\<lparr>lw_log := lw_log w @ [PassiveSend t]\<rparr>)"
| step_passive_end: "i < length (lw_tasks w) \<Longrightarrow> lw_tasks w ! i = PassiveSending t \<Longrightarrow>
    lane_step False w (set_task i Ended (passive_end (lw_lane w)) w)"
| step_passive_cancel: "i < length (lw_tasks w) \<Longrightarrow> lw_tasks w ! i = PassiveWaiting t \<Longrightarrow>
    lane_step True w (set_task i Ended (lw_lane w) w)"
| step_enter: "other_enter (lw_lane w) = (t, l) \<Longrightarrow> lane_step False w (new_task (OtherWaiting t) l w)"
| step_wake: "lane_step False w (w\<lparr>lw_lane := skip_cancelled (lw_lane w)\<rparr>)"
| step_other: "i < length (lw_tasks w) \<Longrightarrow> lw_tasks w ! i = OtherWaiting t \<Longrightarrow> other_ready t (lw_lane w) \<Longrightarrow>
    lane_step False w ((set_task i (OtherSending t) (begin_sending (lw_lane w)) w)\<lparr>lw_log := lw_log w @ [OtherSend t]\<rparr>)"
| step_other_end: "i < length (lw_tasks w) \<Longrightarrow> lw_tasks w ! i = OtherSending t \<Longrightarrow>
    lane_step False w (set_task i Ended (other_end (lw_lane w)) w)"
| step_other_cancel: "i < length (lw_tasks w) \<Longrightarrow> lw_tasks w ! i = OtherWaiting t \<Longrightarrow>
    lane_step False w (set_task i Ended (other_cancel t (lw_lane w)) w)"

text \<open>\<open>lane_run b w w'\<close>: a history in which waiting passive sends are only cancelled when \<open>b\<close> holds.\<close>

inductive lane_run :: "bool \<Rightarrow> lane_world \<Rightarrow> lane_world \<Rightarrow> bool" for b w where
  run_here: "lane_run b w w"
| run_step: "lane_run b w v \<Longrightarrow> lane_step c v u \<Longrightarrow> (c \<longrightarrow> b) \<Longrightarrow> lane_run b w u"

section \<open>The message bus\<close>

text \<open>A subscriber is a name and what it does with a message; \<open>None\<close> is an exception.\<close>

type_synonym ('m, 's) subscriber = "pystr \<times> ('m \<Rightarrow> 's \<Rightarrow> unit option \<times> 's)"
type_synonym ('m, 's) subscribers = "(pystr \<times> ('m, 's) subscriber list) list"

definition subscribe_outbound :: "pystr \<Rightarrow> ('m, 's) subscriber \<Rightarrow> ('m, 's) subscribers \<Rightarrow> ('m, 's) subscribers" where
  "subscribe_outbound channel cb subs =
     (case map_of subs channel of
        None \<Rightarrow> subs @ [(channel, [cb])]
      | Some cbs \<Rightarrow>
          map (\<lambda>(c, xs). (c, if c = channel \<and> fst cb \<notin> fst ` set xs then xs @ [cb] else xs)) subs)"

definition unsubscribe_outbound :: "pystr \<Rightarrow> pystr \<Rightarrow> ('m, 's) subscribers \<Rightarrow> ('m, 's) subscribers" where
  "unsubscribe_outbound channel name subs =
     filter (\<lambda>(c, xs). \<not> (c = channel \<and> xs = []))
       (map (\<lambda>(c, xs). (c, if c = channel then filter (\<lambda>cb. fst cb \<noteq> name) xs else xs)) subs)"

fun call_subscribers :: "('m, 's) subscriber list \<Rightarrow> 'm \<Rightarrow> 's \<Rightarrow> bool \<times> 's" where
  "call_subscribers [] m s = (True, s)"
| "call_subscribers (cb # cbs) m s =
     (case snd cb m s of (None, s') \<Rightarrow> (False, s') | (Some _, s') \<Rightarrow> call_subscribers cbs m s')"

definition send_outbound :: "('m, 's) subscribers \<Rightarrow> pystr \<Rightarrow> 'm \<Rightarrow> 's \<Rightarrow> unit res \<times> 's" where
  "send_outbound subs channel m s =
     (case map_of subs channel of
        None \<Rightarrow> (Inl (RuntimeError (lit ''no outbound subscriber for channel='' @ channel)), s)
      | Some [] \<Rightarrow> (Inl (RuntimeError (lit ''no outbound subscriber for channel='' @ channel)), s)
      | Some cbs \<Rightarrow>
          (case call_subscribers cbs m s of
             (True, s') \<Rightarrow> (Inr (), s')
           | (False, s') \<Rightarrow> (Inl (RuntimeError (lit ''outbound delivery failed channel='' @ channel)), s')))"

text \<open>How \<open>_dispatch_one\<close> ends and what becomes of the receipt, if there is one.\<close>

datatype receipt = ReceiptOpen | ReceiptDone | ReceiptFailed py_error | ReceiptCancelled

datatype dispatched = Sent "unit res" | DispatchCancelled

definition settle_receipt :: "dispatched \<Rightarrow> receipt \<Rightarrow> receipt" where
  "settle_receipt d r =
     (if r \<noteq> ReceiptOpen then r
      else (case d of
              DispatchCancelled \<Rightarrow> ReceiptCancelled
            | Sent (Inl e) \<Rightarrow> ReceiptFailed e
            | Sent (Inr _) \<Rightarrow> ReceiptDone))"

end
