(* ===== verification/LaneProofs.thy ===== *)
theory LaneProofs
  imports ChatLane
begin

text \<open>The invariant of a lane with its tasks, kept by every step.\<close>

section \<open>Cancelled tickets\<close>

lemma skip_from_ok:
  assumes "skip_from s cs = (s', cs')" "distinct cs" "\<And>c. c \<in> set cs \<Longrightarrow> s \<le> c \<and> c < n" "s \<le> n"
  shows "s \<le> s' \<and> s' \<le> n \<and> distinct cs' \<and> set cs' = {c \<in> set cs. s' < c} \<and> (\<forall>x. s \<le> x \<and> x < s' \<longrightarrow> x \<in> set cs)"
  using assms
proof (induction s cs rule: skip_from.induct)
  case (1 s cs)
  show ?case
  proof (cases "s \<in> set cs")
    case True
    have r: "skip_from (s + 1) (remove1 s cs) = (s', cs')" using 1(2) True by (simp add: skip_from.simps [of s])
    have "c \<noteq> s" if "c \<in> set (remove1 s cs)" for c using that 1(3) by auto
    then have c: "s + 1 \<le> c \<and> c < n" if "c \<in> set (remove1 s cs)" for c
      using that 1(4) by (metis Suc_eq_plus1 Suc_leI le_neq_implies_less set_remove1_subset subsetD)
    have "s + 1 \<le> n" using 1(4) [OF True] by simp
    note ih = 1(1) [OF True r _ c this]
    have "distinct (remove1 s cs)" using 1(3) by simp
    then have ih': "s + 1 \<le> s' \<and> s' \<le> n \<and> distinct cs' \<and> set cs' = {c \<in> set (remove1 s cs). s' < c} \<and>
        (\<forall>x. s + 1 \<le> x \<and> x < s' \<longrightarrow> x \<in> set (remove1 s cs))" using ih by blast
    have set: "set (remove1 s cs) = set cs - {s}" using 1(3) by simp
    have "x \<in> set cs" if "s \<le> x" "x < s'" for x using ih' that True set by (cases "x = s") auto
    then show ?thesis using ih' set by auto
  next
    case False
    then have "s' = s" "cs' = cs" using 1(2) by (simp_all add: skip_from.simps [of s])
    moreover have "s < c" if "c \<in> set cs" for c using 1(4) [OF that] that False by (metis le_neq_implies_less)
    ultimately show ?thesis using 1(3,5) by auto
  qed
qed

section \<open>The invariant\<close>

fun passive_of :: "lane_task \<Rightarrow> nat option" where
  "passive_of (PassiveWaiting t) = Some t"
| "passive_of (PassiveSending t) = Some t"
| "passive_of _ = None"

fun other_of :: "lane_task \<Rightarrow> nat option" where
  "other_of (OtherWaiting t) = Some t"
| "other_of (OtherSending t) = Some t"
| "other_of _ = None"

fun sends :: "lane_task \<Rightarrow> bool" where
  "sends (PassiveSending t) = True"
| "sends (OtherSending t) = True"
| "sends _ = False"

text \<open>Two tasks of a lane do not send at once and have different tickets of a kind.\<close>

definition apart :: "lane_task \<Rightarrow> lane_task \<Rightarrow> bool" where
  "apart x y \<longleftrightarrow> \<not> (sends x \<and> sends y) \<and> (passive_of x = None \<or> passive_of x \<noteq> passive_of y) \<and>
     (other_of x = None \<or> other_of x \<noteq> other_of y)"

lemma apart_sym: "apart x y \<Longrightarrow> apart y x"
  by (auto simp: apart_def)

definition tasks_unique :: "lane_task list \<Rightarrow> bool" where
  "tasks_unique ts \<longleftrightarrow> (\<forall>i < length ts. \<forall>j < length ts. i \<noteq> j \<longrightarrow> apart (ts ! i) (ts ! j))"

definition in_range :: "lane \<Rightarrow> lane_task \<Rightarrow> bool" where
  "in_range l t \<longleftrightarrow> (\<forall>n. passive_of t = Some n \<longrightarrow> ln_serving_ticket l \<le> n \<and> n < ln_next_ticket l) \<and>
     (\<forall>n. other_of t = Some n \<longrightarrow> ln_serving_other l \<le> n \<and> n < ln_next_other l \<and> n \<notin> set (ln_cancelled l)) \<and>
     (\<forall>n. t = PassiveSending n \<longrightarrow> n = ln_serving_ticket l) \<and> (\<forall>n. t = OtherSending n \<longrightarrow> n = ln_serving_other l)"

definition tasks_in_range :: "lane \<Rightarrow> lane_task list \<Rightarrow> bool" where
  "tasks_in_range l ts \<longleftrightarrow> (\<forall>t \<in> set ts. in_range l t)"

definition lane_counts :: "lane \<Rightarrow> lane_task list \<Rightarrow> bool" where
  "lane_counts l ts \<longleftrightarrow> ln_sending l = list_ex sends ts \<and>
     ln_passive_sends l + ln_serving_ticket l = ln_next_ticket l \<and>
     ln_serving_other l \<le> ln_next_other l \<and> distinct (ln_cancelled l) \<and>
     (\<forall>c \<in> set (ln_cancelled l). ln_serving_other l < c \<and> c < ln_next_other l)"

text \<open>The tickets of the sends that have begun.\<close>

definition passive_log :: "lane_send list \<Rightarrow> nat list" where
  "passive_log log = List.map_filter (\<lambda>x. case x of PassiveSend t \<Rightarrow> Some t | _ \<Rightarrow> None) log"

definition other_log :: "lane_send list \<Rightarrow> nat list" where
  "other_log log = List.map_filter (\<lambda>x. case x of OtherSend t \<Rightarrow> Some t | _ \<Rightarrow> None) log"

lemma logs_append [simp]:
  "passive_log (log @ [PassiveSend t]) = passive_log log @ [t]" "passive_log (log @ [OtherSend t]) = passive_log log"
  "other_log (log @ [OtherSend t]) = other_log log @ [t]" "other_log (log @ [PassiveSend t]) = other_log log"
  by (simp_all add: passive_log_def other_log_def List.map_filter_def)

lemma logs_Nil [simp]: "passive_log [] = []" "other_log [] = []"
  by (simp_all add: passive_log_def other_log_def List.map_filter_def)

definition passive_begun :: "lane_task list \<Rightarrow> nat" where
  "passive_begun ts = (if \<exists>t. PassiveSending t \<in> set ts then 1 else 0)"

definition other_begun :: "lane_task list \<Rightarrow> nat" where
  "other_begun ts = (if \<exists>t. OtherSending t \<in> set ts then 1 else 0)"

definition lane_log_ok :: "lane_world \<Rightarrow> bool" where
  "lane_log_ok w \<longleftrightarrow>
     passive_log (lw_log w) = [0..<ln_serving_ticket (lw_lane w) + passive_begun (lw_tasks w)] \<and>
     sorted_wrt (<) (other_log (lw_log w)) \<and>
     (\<forall>t \<in> set (other_log (lw_log w)). t < ln_serving_other (lw_lane w) + other_begun (lw_tasks w))"

definition lane_ok :: "lane_world \<Rightarrow> bool" where
  "lane_ok w \<longleftrightarrow> tasks_unique (lw_tasks w) \<and> tasks_in_range (lw_lane w) (lw_tasks w) \<and>
     lane_counts (lw_lane w) (lw_tasks w) \<and> lane_log_ok w"

section \<open>Changing one task\<close>

lemma unique_update:
  assumes "tasks_unique ts" "i < length ts"
    and "sends t \<Longrightarrow> sends (ts ! i) \<or> \<not> list_ex sends ts"
    and "passive_of t = None \<or> passive_of t = passive_of (ts ! i)" "other_of t = None \<or> other_of t = other_of (ts ! i)"
  shows "tasks_unique (ts[i := t])"
proof -
  have t: "apart t (ts ! j)" if "j < length ts" "j \<noteq> i" for j
  proof -
    have "apart (ts ! i) (ts ! j)" using assms(1,2) that by (auto simp: tasks_unique_def)
    then show ?thesis using assms(3-5) that by (auto simp: apart_def list_ex_iff)
  qed
  have "apart (ts[i := t] ! a) (ts[i := t] ! b)" if "a < length ts" "b < length ts" "a \<noteq> b" for a b
    using t [of a] t [of b] apart_sym that assms(1,2)
    by (cases "a = i"; cases "b = i") (auto simp: tasks_unique_def)
  then show ?thesis by (simp add: tasks_unique_def)
qed

lemma unique_append:
  assumes "tasks_unique ts" "\<And>x. x \<in> set ts \<Longrightarrow> apart t x"
  shows "tasks_unique (ts @ [t])"
proof -
  have "apart ((ts @ [t]) ! a) ((ts @ [t]) ! b)" if "a < Suc (length ts)" "b < Suc (length ts)" "a \<noteq> b" for a b
    using assms(2) [OF nth_mem, of a] assms(2) [OF nth_mem, of b] apart_sym that assms(1)
    by (cases "a = length ts"; cases "b = length ts") (auto simp: tasks_unique_def nth_append)
  then show ?thesis by (simp add: tasks_unique_def)
qed

lemma set_update_cases: "x \<in> set (ts[i := t]) \<Longrightarrow> i < length ts \<Longrightarrow> x = t \<or> (\<exists>j < length ts. j \<noteq> i \<and> x = ts ! j)"
  by (auto simp: in_set_conv_nth nth_list_update split: if_splits)

lemma update_other_mem: "j < length ts \<Longrightarrow> j \<noteq> i \<Longrightarrow> ts ! j \<in> set (ts[i := t])"
  by (metis length_list_update nth_list_update_neq nth_mem)

section \<open>Skipping\<close>

text \<open>Before the skip the ticket that is served may be a cancelled one.\<close>

definition counts_before :: "lane \<Rightarrow> lane_task list \<Rightarrow> bool" where
  "counts_before l ts \<longleftrightarrow> ln_sending l = list_ex sends ts \<and>
     ln_passive_sends l + ln_serving_ticket l = ln_next_ticket l \<and>
     ln_serving_other l \<le> ln_next_other l \<and> distinct (ln_cancelled l) \<and>
     (\<forall>c \<in> set (ln_cancelled l). ln_serving_other l \<le> c \<and> c < ln_next_other l)"

lemma counts_weaken: "lane_counts l ts \<Longrightarrow> counts_before l ts"
  by (auto simp: lane_counts_def counts_before_def)

lemma skip_laneE:
  assumes "counts_before l ts"
  obtains s cs where "skip_cancelled l = l\<lparr>ln_serving_other := s, ln_cancelled := cs\<rparr>"
    "ln_serving_other l \<le> s" "s \<le> ln_next_other l" "distinct cs" "set cs = {c \<in> set (ln_cancelled l). s < c}"
    "\<And>x. ln_serving_other l \<le> x \<Longrightarrow> x < s \<Longrightarrow> x \<in> set (ln_cancelled l)"
proof -
  obtain s cs where k: "skip_from (ln_serving_other l) (ln_cancelled l) = (s, cs)" by fastforce
  have "distinct (ln_cancelled l)" "ln_serving_other l \<le> ln_next_other l"
    "\<And>c. c \<in> set (ln_cancelled l) \<Longrightarrow> ln_serving_other l \<le> c \<and> c < ln_next_other l"
    using assms by (auto simp: counts_before_def)
  note K = skip_from_ok [OF k this(1,3,2)]
  show ?thesis by (rule that [where s = s and cs = cs]) (use K in \<open>auto simp: skip_cancelled_def k\<close>)
qed

lemma skip_counts:
  assumes "counts_before l ts"
  shows "lane_counts (skip_cancelled l) ts"
proof -
  obtain s cs where k: "skip_cancelled l = l\<lparr>ln_serving_other := s, ln_cancelled := cs\<rparr>" "s \<le> ln_next_other l"
      "distinct cs" "set cs = {c \<in> set (ln_cancelled l). s < c}"
    by (rule skip_laneE [OF assms])
  show ?thesis using assms by (auto simp: k counts_before_def lane_counts_def)
qed

lemma skip_range:
  assumes "counts_before l ts" "tasks_in_range l ts"
  shows "tasks_in_range (skip_cancelled l) ts"
proof -
  obtain s cs where k: "skip_cancelled l = l\<lparr>ln_serving_other := s, ln_cancelled := cs\<rparr>"
      "ln_serving_other l \<le> s" "set cs = {c \<in> set (ln_cancelled l). s < c}"
      "\<And>x. ln_serving_other l \<le> x \<Longrightarrow> x < s \<Longrightarrow> x \<in> set (ln_cancelled l)"
    by (rule skip_laneE [OF assms(1)]) blast
  have "s \<le> n" if "t \<in> set ts" "other_of t = Some n" for t n
    using assms(2) that k(4) [of n] by (force simp: tasks_in_range_def in_range_def)
  moreover have "n = s" if "OtherSending n \<in> set ts" for n
  proof -
    have "n = ln_serving_other l" "n \<notin> set (ln_cancelled l)" using assms(2) that by (force simp: tasks_in_range_def in_range_def)+
    then show ?thesis using k(2) k(4) [of n] by (metis le_less order_refl)
  qed
  ultimately show ?thesis using assms(2) by (auto simp: tasks_in_range_def in_range_def k(1,3))
qed

lemma skip_log:
  assumes "counts_before (lw_lane w) (lw_tasks w)" "lane_log_ok w"
  shows "lane_log_ok (w\<lparr>lw_lane := skip_cancelled (lw_lane w)\<rparr>)"
proof -
  obtain s cs where "skip_cancelled (lw_lane w) = (lw_lane w)\<lparr>ln_serving_other := s, ln_cancelled := cs\<rparr>"
      "ln_serving_other (lw_lane w) \<le> s"
    by (rule skip_laneE [OF assms(1)]) blast
  then show ?thesis using assms(2) by (fastforce simp: lane_log_ok_def)
qed

definition before_skip :: "lane_world \<Rightarrow> bool" where
  "before_skip w \<longleftrightarrow> tasks_unique (lw_tasks w) \<and> tasks_in_range (lw_lane w) (lw_tasks w) \<and>
     counts_before (lw_lane w) (lw_tasks w) \<and> lane_log_ok w"

lemma lane_ok_skip: "before_skip w \<Longrightarrow> lane_ok (w\<lparr>lw_lane := skip_cancelled (lw_lane w)\<rparr>)"
  using skip_counts skip_range skip_log by (auto simp: before_skip_def lane_ok_def)

lemma lane_ok_weaken: "lane_ok w \<Longrightarrow> before_skip w"
  using counts_weaken by (auto simp: before_skip_def lane_ok_def)

section \<open>Every step keeps the invariant\<close>

lemma world_updates: "w\<lparr>lw_tasks := ts, lw_lane := l\<rparr> = w\<lparr>lw_lane := l, lw_tasks := ts\<rparr>"
  by simp

lemma in_range_update:
  assumes "tasks_in_range l ts" "in_range l t"
  shows "tasks_in_range l (ts[i := t])"
  using assms set_update_subset_insert [of ts i t] by (auto simp: tasks_in_range_def)

lemma begun_update:
  assumes "tasks_unique ts" "i < length ts" "sends (ts ! i)" "\<not> sends t"
  shows "passive_begun (ts[i := t]) = 0" "other_begun (ts[i := t]) = 0" "\<not> list_ex sends (ts[i := t])"
proof -
  have n: "\<not> sends x" if "x \<in> set (ts[i := t])" for x
    using set_update_cases [OF that assms(2)] assms by (auto simp: tasks_unique_def apart_def)
  show "passive_begun (ts[i := t]) = 0" using n [of "PassiveSending _"] by (auto simp: passive_begun_def)
  show "other_begun (ts[i := t]) = 0" using n [of "OtherSending _"] by (auto simp: other_begun_def)
  show "\<not> list_ex sends (ts[i := t])" using n by (auto simp: list_ex_iff)
qed

lemma begun_same:
  assumes "i < length ts" "\<not> sends (ts ! i)" "\<not> sends t"
  shows "passive_begun (ts[i := t]) = passive_begun ts" "other_begun (ts[i := t]) = other_begun ts"
    "list_ex sends (ts[i := t]) = list_ex sends ts"
proof -
  have e: "x \<in> set (ts[i := t]) \<longleftrightarrow> x \<in> set ts" if "sends x" for x
  proof
    assume "x \<in> set (ts[i := t])"
    then show "x \<in> set ts" using set_update_subset_insert [of ts i t] that assms(3) by blast
  next
    assume "x \<in> set ts"
    then obtain j where "j < length ts" "x = ts ! j" by (metis in_set_conv_nth)
    then show "x \<in> set (ts[i := t])" using that assms update_other_mem [of j ts i t] by (cases "j = i") auto
  qed
  show "passive_begun (ts[i := t]) = passive_begun ts" "other_begun (ts[i := t]) = other_begun ts"
    using e [of "PassiveSending _"] e [of "OtherSending _"] by (simp_all add: passive_begun_def other_begun_def)
  show "list_ex sends (ts[i := t]) = list_ex sends ts" using e by (auto simp: list_ex_iff)
qed

lemma no_sends_begun: "\<not> list_ex sends ts \<Longrightarrow> passive_begun ts = 0 \<and> other_begun ts = 0"
  by (auto simp: passive_begun_def other_begun_def list_ex_iff)

lemma lane_okD:
  assumes "lane_ok w"
  shows "tasks_unique (lw_tasks w)" "tasks_in_range (lw_lane w) (lw_tasks w)" "lane_counts (lw_lane w) (lw_tasks w)"
    "lane_log_ok w"
  using assms by (simp_all add: lane_ok_def)

lemma range_at: "tasks_in_range l ts \<Longrightarrow> i < length ts \<Longrightarrow> in_range l (ts ! i)"
  by (simp add: tasks_in_range_def)

lemma ok_issue:
  assumes ok: "lane_ok w" and m: "mark_passive_send_pending (lw_lane w) = (t, l)"
  shows "lane_ok (new_task (PassiveWaiting t) l w)"
proof -
  have t: "t = ln_next_ticket (lw_lane w)" and l: "l = (lw_lane w)\<lparr>ln_next_ticket := t + 1, ln_passive_sends := ln_passive_sends (lw_lane w) + 1\<rparr>"
    using m by (auto simp: mark_passive_send_pending_def)
  have c: "ln_serving_ticket (lw_lane w) \<le> t" using lane_okD(3) [OF ok] by (simp add: lane_counts_def t)
  have "apart (PassiveWaiting t) x" if "x \<in> set (lw_tasks w)" for x
  proof -
    have "in_range (lw_lane w) x" using lane_okD(2) [OF ok] that by (simp add: tasks_in_range_def)
    then show ?thesis by (cases x) (auto simp: apart_def in_range_def t)
  qed
  then have "tasks_unique (lw_tasks w @ [PassiveWaiting t])" using lane_okD(1) [OF ok] by (intro unique_append)
  moreover have "tasks_in_range l (lw_tasks w @ [PassiveWaiting t])"
    using lane_okD(2) [OF ok] c by (force simp: tasks_in_range_def in_range_def l t)
  moreover have "lane_counts l (lw_tasks w @ [PassiveWaiting t])"
    using lane_okD(3) [OF ok] by (simp add: lane_counts_def l t)
  moreover have "passive_begun (lw_tasks w @ [PassiveWaiting t]) = passive_begun (lw_tasks w)"
    "other_begun (lw_tasks w @ [PassiveWaiting t]) = other_begun (lw_tasks w)"
    by (simp_all add: passive_begun_def other_begun_def)
  ultimately show ?thesis using lane_okD(4) [OF ok] by (simp add: lane_ok_def lane_log_ok_def new_task_def l)
qed

text \<open>A waiting task begins to send while nobody does.\<close>

lemma begun_start:
  assumes "\<not> list_ex sends ts" "i < length ts"
  shows "passive_begun (ts[i := PassiveSending t]) = 1" "other_begun (ts[i := PassiveSending t]) = 0"
    "passive_begun (ts[i := OtherSending t]) = 0" "other_begun (ts[i := OtherSending t]) = 1"
    "list_ex sends (ts[i := PassiveSending t])" "list_ex sends (ts[i := OtherSending t])"
proof -
  have n: "x = y" if "x \<in> set (ts[i := y])" "sends x" for x y
    using set_update_cases [OF that(1) assms(2)] assms(1) that(2) by (auto simp: list_ex_iff)
  have m: "y \<in> set (ts[i := y])" for y using assms(2) by (rule set_update_memI)
  show "passive_begun (ts[i := PassiveSending t]) = 1" "other_begun (ts[i := OtherSending t]) = 1"
    using m by (auto simp: passive_begun_def other_begun_def)
  show "other_begun (ts[i := PassiveSending t]) = 0"
    using n [of "OtherSending _" "PassiveSending t"] by (auto simp: other_begun_def)
  show "passive_begun (ts[i := OtherSending t]) = 0"
    using n [of "PassiveSending _" "OtherSending t"] by (auto simp: passive_begun_def)
  show "list_ex sends (ts[i := PassiveSending t])" "list_ex sends (ts[i := OtherSending t])"
    using m by (force simp: list_ex_iff)+
qed

lemma ok_passive:
  assumes ok: "lane_ok w" and i: "i < length (lw_tasks w)" "lw_tasks w ! i = PassiveWaiting t"
    and r: "passive_ready t (lw_lane w)"
  shows "lane_ok ((set_task i (PassiveSending t) (begin_sending (lw_lane w)) w)\<lparr>lw_log := lw_log w @ [PassiveSend t]\<rparr>)"
proof -
  let ?ts = "(lw_tasks w)[i := PassiveSending t]"
  have s: "\<not> list_ex sends (lw_tasks w)" and t: "t = ln_serving_ticket (lw_lane w)"
    using r lane_okD(3) [OF ok] by (auto simp: passive_ready_def lane_counts_def)
  have "tasks_unique ?ts" by (rule unique_update [OF lane_okD(1) [OF ok] i(1)]) (use s i in simp_all)
  moreover have "tasks_in_range (lw_lane w) ?ts"
    by (rule in_range_update [OF lane_okD(2) [OF ok]]) (use range_at [OF lane_okD(2) [OF ok] i(1)] i t in \<open>simp add: in_range_def\<close>)
  then have "tasks_in_range (begin_sending (lw_lane w)) ?ts" by (simp add: tasks_in_range_def in_range_def begin_sending_def)
  moreover have "lane_counts (begin_sending (lw_lane w)) ?ts"
    using lane_okD(3) [OF ok] begun_start [OF s i(1)] by (simp add: lane_counts_def begin_sending_def)
  ultimately show ?thesis
    using lane_okD(4) [OF ok] begun_start [OF s i(1)] no_sends_begun [OF s] t
    by (simp add: lane_ok_def lane_log_ok_def set_task_def begin_sending_def)
qed

lemma ok_other:
  assumes ok: "lane_ok w" and i: "i < length (lw_tasks w)" "lw_tasks w ! i = OtherWaiting t"
    and r: "other_ready t (lw_lane w)"
  shows "lane_ok ((set_task i (OtherSending t) (begin_sending (lw_lane w)) w)\<lparr>lw_log := lw_log w @ [OtherSend t]\<rparr>)"
proof -
  let ?ts = "(lw_tasks w)[i := OtherSending t]"
  have s: "\<not> list_ex sends (lw_tasks w)" and t: "t = ln_serving_other (lw_lane w)"
    using r lane_okD(3) [OF ok] by (auto simp: other_ready_def lane_counts_def)
  have "tasks_unique ?ts" by (rule unique_update [OF lane_okD(1) [OF ok] i(1)]) (use s i in simp_all)
  moreover have "tasks_in_range (lw_lane w) ?ts"
    by (rule in_range_update [OF lane_okD(2) [OF ok]]) (use range_at [OF lane_okD(2) [OF ok] i(1)] i t in \<open>simp add: in_range_def\<close>)
  then have "tasks_in_range (begin_sending (lw_lane w)) ?ts" by (simp add: tasks_in_range_def in_range_def begin_sending_def)
  moreover have "lane_counts (begin_sending (lw_lane w)) ?ts"
    using lane_okD(3) [OF ok] begun_start [OF s i(1)] by (simp add: lane_counts_def begin_sending_def)
  ultimately show ?thesis
    using lane_okD(4) [OF ok] begun_start [OF s i(1)] no_sends_begun [OF s] t
    by (auto simp: lane_ok_def lane_log_ok_def set_task_def begin_sending_def sorted_wrt_append)
qed

lemma others_not_sending:
  assumes "tasks_unique ts" "i < length ts" "sends (ts ! i)" "x \<in> set ts" "sends x"
  shows "x = ts ! i"
  using assms by (metis apart_def in_set_conv_nth tasks_unique_def)

lemma ok_passive_end:
  assumes ok: "lane_ok w" and i: "i < length (lw_tasks w)" "lw_tasks w ! i = PassiveSending t"
  shows "lane_ok (set_task i Ended (passive_end (lw_lane w)) w)"
proof -
  let ?ts = "(lw_tasks w)[i := Ended]" and ?l = "lw_lane w"
  have si: "sends (lw_tasks w ! i)" using i(2) by simp
  note b = begun_update [OF lane_okD(1) [OF ok] i(1) si, of Ended, simplified]
  have t: "t = ln_serving_ticket ?l" "t < ln_next_ticket ?l"
    using range_at [OF lane_okD(2) [OF ok] i(1)] i(2) by (simp_all add: in_range_def)
  have "tasks_unique ?ts" by (rule unique_update [OF lane_okD(1) [OF ok] i(1)]) simp_all
  moreover have "in_range (passive_end ?l) x" if "x \<in> set ?ts" for x
    using set_update_cases [OF that i(1)]
  proof
    assume "\<exists>j < length (lw_tasks w). j \<noteq> i \<and> x = lw_tasks w ! j"
    then obtain j where j: "j < length (lw_tasks w)" "j \<noteq> i" "x = lw_tasks w ! j" by blast
    have "apart x (PassiveSending t)" using lane_okD(1) [OF ok] j i by (metis tasks_unique_def)
    moreover have "in_range ?l x" using range_at [OF lane_okD(2) [OF ok] j(1)] j(3) by simp
    ultimately show ?thesis using t(1) by (cases x) (auto simp: apart_def in_range_def passive_end_def)
  qed (simp add: in_range_def)
  then have "tasks_in_range (passive_end ?l) ?ts" by (simp add: tasks_in_range_def)
  moreover have "lane_counts (passive_end ?l) ?ts"
    using lane_okD(3) [OF ok] b t by (auto simp: lane_counts_def passive_end_def)
  moreover have "passive_begun (lw_tasks w) = 1" using nth_mem [OF i(1)] i(2) by (auto simp: passive_begun_def)
  moreover have "other_begun (lw_tasks w) = 0"
    using others_not_sending [OF lane_okD(1) [OF ok] i(1) si, of "OtherSending _"] i(2) by (auto simp: other_begun_def)
  ultimately show ?thesis using lane_okD(4) [OF ok] b
    by (simp add: lane_ok_def lane_log_ok_def set_task_def passive_end_def)
qed

lemma ok_passive_cancel:
  assumes ok: "lane_ok w" and i: "i < length (lw_tasks w)" "lw_tasks w ! i = PassiveWaiting t"
  shows "lane_ok (set_task i Ended (lw_lane w) w)"
proof -
  let ?ts = "(lw_tasks w)[i := Ended]"
  have "tasks_unique ?ts" by (rule unique_update [OF lane_okD(1) [OF ok] i(1)]) simp_all
  moreover have "tasks_in_range (lw_lane w) ?ts"
    by (rule in_range_update [OF lane_okD(2) [OF ok]]) (simp add: in_range_def)
  moreover have "lane_counts (lw_lane w) ?ts"
    using lane_okD(3) [OF ok] begun_same [OF i(1), of Ended] i(2) by (simp add: lane_counts_def)
  ultimately show ?thesis using lane_okD(4) [OF ok] begun_same [OF i(1), of Ended] i(2)
    by (simp add: lane_ok_def lane_log_ok_def set_task_def)
qed

lemma ok_enter:
  assumes ok: "lane_ok w" and e: "other_enter (lw_lane w) = (t, l)"
  shows "lane_ok (new_task (OtherWaiting t) l w)"
proof -
  let ?l = "lw_lane w"
  define l1 where "l1 = ?l\<lparr>ln_next_other := ln_next_other ?l + 1\<rparr>"
  define w1 where "w1 = new_task (OtherWaiting t) l1 w"
  have t: "t = ln_next_other ?l" and l: "l = skip_cancelled l1" using e by (auto simp: other_enter_def l1_def)
  have c: "ln_serving_other ?l \<le> t" "t \<notin> set (ln_cancelled ?l)" using lane_okD(3) [OF ok] by (auto simp: lane_counts_def t)
  have "apart (OtherWaiting t) x" if "x \<in> set (lw_tasks w)" for x
  proof -
    have "in_range (lw_lane w) x" using lane_okD(2) [OF ok] that by (simp add: tasks_in_range_def)
    then show ?thesis by (cases x) (auto simp: apart_def in_range_def t)
  qed
  then have "tasks_unique (lw_tasks w1)" using lane_okD(1) [OF ok] by (simp add: w1_def new_task_def unique_append)
  moreover have "tasks_in_range l1 (lw_tasks w1)"
    using lane_okD(2) [OF ok] c by (force simp: tasks_in_range_def in_range_def w1_def new_task_def l1_def t)
  moreover have "counts_before l1 (lw_tasks w1)"
    using lane_okD(3) [OF ok] by (fastforce simp: lane_counts_def counts_before_def w1_def new_task_def l1_def)
  moreover have "lane_log_ok w1"
    using lane_okD(4) [OF ok] by (simp add: lane_log_ok_def w1_def new_task_def l1_def passive_begun_def other_begun_def)
  ultimately have "before_skip w1" by (simp add: before_skip_def w1_def new_task_def)
  from lane_ok_skip [OF this] show ?thesis by (simp add: w1_def new_task_def l world_updates)
qed

lemma ok_other_end:
  assumes ok: "lane_ok w" and i: "i < length (lw_tasks w)" "lw_tasks w ! i = OtherSending t"
  shows "lane_ok (set_task i Ended (other_end (lw_lane w)) w)"
proof -
  let ?ts = "(lw_tasks w)[i := Ended]" and ?l = "lw_lane w"
  define l1 where "l1 = ?l\<lparr>ln_serving_other := ln_serving_other ?l + 1, ln_sending := False\<rparr>"
  define w1 where "w1 = set_task i Ended l1 w"
  have si: "sends (lw_tasks w ! i)" using i(2) by simp
  note b = begun_update [OF lane_okD(1) [OF ok] i(1) si, of Ended, simplified]
  have t: "t = ln_serving_other ?l" "t < ln_next_other ?l"
    using range_at [OF lane_okD(2) [OF ok] i(1)] i(2) by (simp_all add: in_range_def)
  have "tasks_unique ?ts" by (rule unique_update [OF lane_okD(1) [OF ok] i(1)]) simp_all
  moreover have "in_range l1 x" if "x \<in> set ?ts" for x
    using set_update_cases [OF that i(1)]
  proof
    assume "\<exists>j < length (lw_tasks w). j \<noteq> i \<and> x = lw_tasks w ! j"
    then obtain j where j: "j < length (lw_tasks w)" "j \<noteq> i" "x = lw_tasks w ! j" by blast
    have "apart x (OtherSending t)" using lane_okD(1) [OF ok] j i by (metis tasks_unique_def)
    moreover have "in_range ?l x" using range_at [OF lane_okD(2) [OF ok] j(1)] j(3) by simp
    ultimately show ?thesis using t(1) by (cases x) (auto simp: apart_def in_range_def l1_def)
  qed (simp add: in_range_def)
  then have "tasks_in_range l1 ?ts" by (simp add: tasks_in_range_def)
  moreover have "counts_before l1 ?ts"
    using lane_okD(3) [OF ok] b t by (auto simp: lane_counts_def counts_before_def l1_def Suc_le_eq)
  moreover have "other_begun (lw_tasks w) = 1" using nth_mem [OF i(1)] i(2) by (auto simp: other_begun_def)
  moreover have "passive_begun (lw_tasks w) = 0"
    using others_not_sending [OF lane_okD(1) [OF ok] i(1) si, of "PassiveSending _"] i(2) by (auto simp: passive_begun_def)
  ultimately have "before_skip w1" using lane_okD(4) [OF ok] b
    by (simp add: before_skip_def lane_log_ok_def w1_def set_task_def l1_def)
  from lane_ok_skip [OF this] show ?thesis by (simp add: w1_def set_task_def other_end_def l1_def world_updates)
qed

lemma ok_other_cancel:
  assumes ok: "lane_ok w" and i: "i < length (lw_tasks w)" "lw_tasks w ! i = OtherWaiting t"
  shows "lane_ok (set_task i Ended (other_cancel t (lw_lane w)) w)"
proof -
  let ?ts = "(lw_tasks w)[i := Ended]" and ?l = "lw_lane w"
  define l1 where "l1 = ?l\<lparr>ln_cancelled := List.insert t (ln_cancelled ?l)\<rparr>"
  define w1 where "w1 = set_task i Ended l1 w"
  have t: "ln_serving_other ?l \<le> t" "t < ln_next_other ?l"
    using range_at [OF lane_okD(2) [OF ok] i(1)] i(2) by (simp_all add: in_range_def)
  have "tasks_unique ?ts" by (rule unique_update [OF lane_okD(1) [OF ok] i(1)]) simp_all
  moreover have "in_range l1 x" if "x \<in> set ?ts" for x
    using set_update_cases [OF that i(1)]
  proof
    assume "\<exists>j < length (lw_tasks w). j \<noteq> i \<and> x = lw_tasks w ! j"
    then obtain j where j: "j < length (lw_tasks w)" "j \<noteq> i" "x = lw_tasks w ! j" by blast
    have "apart x (OtherWaiting t)" using lane_okD(1) [OF ok] j i by (metis tasks_unique_def)
    moreover have "in_range ?l x" using range_at [OF lane_okD(2) [OF ok] j(1)] j(3) by simp
    ultimately show ?thesis by (cases x) (auto simp: apart_def in_range_def l1_def)
  qed (simp add: in_range_def)
  then have "tasks_in_range l1 ?ts" by (simp add: tasks_in_range_def)
  moreover have "counts_before l1 ?ts"
    using lane_okD(3) [OF ok] t begun_same [OF i(1), of Ended] i(2)
    by (auto simp: lane_counts_def counts_before_def l1_def less_imp_le)
  ultimately have "before_skip w1" using lane_okD(4) [OF ok] begun_same [OF i(1), of Ended] i(2)
    by (simp add: before_skip_def lane_log_ok_def w1_def set_task_def l1_def)
  from lane_ok_skip [OF this] show ?thesis by (simp add: w1_def set_task_def other_cancel_def l1_def world_updates)
qed

lemma lane_step_ok: "lane_step b w w' \<Longrightarrow> lane_ok w \<Longrightarrow> lane_ok w'"
proof (induction rule: lane_step.induct)
  case (step_pending w)
  then show ?case
    by (simp add: lane_ok_def lane_log_ok_def lane_counts_def tasks_in_range_def in_range_def mark_passive_pending_def)
next
  case (step_done w)
  then show ?case
    by (simp add: lane_ok_def lane_log_ok_def lane_counts_def tasks_in_range_def in_range_def mark_passive_done_def)
qed (blast intro: ok_issue ok_passive ok_passive_end ok_passive_cancel ok_enter ok_other ok_other_end ok_other_cancel
    lane_ok_skip lane_ok_weaken)+

lemma lane_run_ok: "lane_run b w w' \<Longrightarrow> lane_ok w \<Longrightarrow> lane_ok w'"
  by (induction rule: lane_run.induct) (auto intro: lane_step_ok)

lemma empty_world_ok: "lane_ok empty_world"
  by (simp add: lane_ok_def empty_world_def empty_lane_def tasks_unique_def tasks_in_range_def lane_counts_def
      lane_log_ok_def passive_begun_def other_begun_def)

end
