(* ===== verification/LaneTheorems.thy ===== *)
theory LaneTheorems
  imports LaneProofs
begin

text \<open>The properties of the lane of a chat (\<open>src/bus/queue.py\<close>).\<close>

section \<open>The order of the sends\<close>

lemma lane_run_empty: "lane_run b empty_world w \<Longrightarrow> lane_ok w"
  using lane_run_ok empty_world_ok by blast

lemma one_sender:
  assumes "lane_ok w" "i < length (lw_tasks w)" "j < length (lw_tasks w)" "sends (lw_tasks w ! i)" "sends (lw_tasks w ! j)"
  shows "i = j"
  using lane_okD(1) [OF assms(1)] assms(2-5) by (auto simp: tasks_unique_def apart_def)

lemma passive_log_prefix: "lane_ok w \<Longrightarrow> passive_log (lw_log w) = [0..<length (passive_log (lw_log w))]"
  using lane_okD(4) [of w] by (simp add: lane_log_ok_def)

section \<open>A ticket that nobody holds\<close>

definition ticket_lost :: "nat \<Rightarrow> lane_world \<Rightarrow> bool" where
  "ticket_lost t w \<longleftrightarrow> ln_serving_ticket (lw_lane w) \<le> t \<and> t < ln_next_ticket (lw_lane w) \<and>
     (\<forall>x \<in> set (lw_tasks w). passive_of x \<noteq> Some t)"

lemma skip_passive [simp]:
  "ln_serving_ticket (skip_cancelled l) = ln_serving_ticket l" "ln_next_ticket (skip_cancelled l) = ln_next_ticket l"
  "ln_passive_sends (skip_cancelled l) = ln_passive_sends l" "ln_next_other (skip_cancelled l) = ln_next_other l"
  "ln_passive_turns (skip_cancelled l) = ln_passive_turns l" "ln_sending (skip_cancelled l) = ln_sending l"
  by (simp_all add: skip_cancelled_def split: prod.splits)

lemma lost_update:
  assumes "ticket_lost t w" "passive_of x \<noteq> Some t" "ln_serving_ticket l \<le> t" "t < ln_next_ticket l"
  shows "ticket_lost t (set_task i x l w)"
  using assms set_update_subset_insert [of "lw_tasks w" i x] by (auto simp: ticket_lost_def set_task_def)

lemma lost_append:
  assumes "ticket_lost t w" "passive_of x \<noteq> Some t" "ln_serving_ticket l \<le> t" "t < ln_next_ticket l"
  shows "ticket_lost t (new_task x l w)"
  using assms by (auto simp: ticket_lost_def new_task_def)

lemma task_logs [simp]: "lw_log (set_task i x l w) = lw_log w" "lw_log (new_task x l w) = lw_log w"
  by (simp_all add: set_task_def new_task_def)

lemma lost_log [simp]: "ticket_lost t (w\<lparr>lw_log := g\<rparr>) = ticket_lost t w"
  by (simp add: ticket_lost_def)

lemma lost_sends: "lane_ok w \<Longrightarrow> ticket_lost t w \<Longrightarrow> 0 < ln_passive_sends (lw_lane w)"
  using lane_okD(3) [of w] by (auto simp: lane_counts_def ticket_lost_def)

lemma lost_not_held: "ticket_lost t w \<Longrightarrow> i < length (lw_tasks w) \<Longrightarrow> passive_of (lw_tasks w ! i) \<noteq> Some t"
  by (simp add: ticket_lost_def)

text \<open>No step serves the ticket, and no other send begins.\<close>

lemma lost_step:
  assumes s: "lane_step b w w'" and ok: "lane_ok w" and lost: "ticket_lost t w"
  shows "ticket_lost t w' \<and> other_log (lw_log w') = other_log (lw_log w)"
proof -
  have r: "ln_serving_ticket (lw_lane w) \<le> t" "t < ln_next_ticket (lw_lane w)" using lost by (simp_all add: ticket_lost_def)
  note held = lost_not_held [OF lost]
  show ?thesis
    using s
  proof (cases rule: lane_step.cases)
    case (step_passive i n)
    then show ?thesis using held [of i] r lost by (auto intro!: lost_update simp: begin_sending_def)
  next
    case (step_passive_end i n)
    have "n = ln_serving_ticket (lw_lane w)"
      using range_at [OF lane_okD(2) [OF ok] step_passive_end(3)] step_passive_end(4) by (simp add: in_range_def)
    then show ?thesis using held [of i] r lost step_passive_end by (auto intro!: lost_update simp: passive_end_def)
  next
    case (step_other i n)
    then show ?thesis using lost_sends [OF ok lost] by (simp add: other_ready_def)
  next
    case (step_issue n l)
    then show ?thesis using r lost by (auto intro!: lost_append simp: mark_passive_send_pending_def)
  next
    case (step_enter n l)
    then show ?thesis using r lost by (auto intro!: lost_append simp: other_enter_def)
  qed (use r lost in \<open>auto intro!: lost_update simp: other_end_def other_cancel_def
        mark_passive_pending_def mark_passive_done_def ticket_lost_def [of _ "w\<lparr>lw_lane := _\<rparr>"] ticket_lost_def [of _ w]\<close>)
qed

lemma lost_run:
  assumes "lane_run b w u" "lane_ok w" "ticket_lost t w"
  shows "lane_ok u \<and> ticket_lost t u \<and> other_log (lw_log u) = other_log (lw_log w)"
  using assms
proof (induction rule: lane_run.induct)
  case (run_step v c u)
  then show ?case using lost_step [of c v u t] lane_step_ok [of c v u] by simp
qed simp

lemma lost_passive_log:
  assumes "lane_ok w" "ticket_lost t w" "n \<in> set (passive_log (lw_log w))"
  shows "n < t"
proof -
  have l: "n < ln_serving_ticket (lw_lane w) + passive_begun (lw_tasks w)"
    using lane_okD(4) [OF assms(1)] assms(3) by (simp add: lane_log_ok_def)
  have "ln_serving_ticket (lw_lane w) < t" if "PassiveSending m \<in> set (lw_tasks w)" for m
  proof -
    have "m = ln_serving_ticket (lw_lane w)"
      using lane_okD(2) [OF assms(1)] that by (auto simp: tasks_in_range_def in_range_def)
    moreover have "m \<noteq> t" using assms(2) that by (force simp: ticket_lost_def)
    ultimately show ?thesis using assms(2) by (simp add: ticket_lost_def)
  qed
  then have "ln_serving_ticket (lw_lane w) + passive_begun (lw_tasks w) \<le> t"
    using assms(2) by (auto simp: passive_begun_def ticket_lost_def Suc_le_eq)
  then show ?thesis using l by simp
qed

lemma cancel_loses:
  assumes ok: "lane_ok w" and i: "i < length (lw_tasks w)" "lw_tasks w ! i = PassiveWaiting t"
  shows "ticket_lost t (set_task i Ended (lw_lane w) w)"
proof -
  have "passive_of x \<noteq> Some t" if "x \<in> set ((lw_tasks w)[i := Ended])" for x
    using set_update_cases [OF that i(1)]
  proof
    assume "\<exists>j < length (lw_tasks w). j \<noteq> i \<and> x = lw_tasks w ! j"
    then obtain j where j: "j < length (lw_tasks w)" "j \<noteq> i" "x = lw_tasks w ! j" by blast
    then have "apart (lw_tasks w ! i) x" using lane_okD(1) [OF ok] i(1) by (simp add: tasks_unique_def)
    then show ?thesis using i(2) by (auto simp: apart_def)
  qed simp
  then show ?thesis
    using range_at [OF lane_okD(2) [OF ok] i(1)] i(2) by (auto simp: ticket_lost_def set_task_def in_range_def)
qed

section \<open>Every ticket has a holder\<close>

definition passives_present :: "lane \<Rightarrow> lane_task list \<Rightarrow> bool" where
  "passives_present l ts \<longleftrightarrow> (\<forall>n. ln_serving_ticket l \<le> n \<and> n < ln_next_ticket l \<longrightarrow> (\<exists>x \<in> set ts. passive_of x = Some n))"

definition others_present :: "lane \<Rightarrow> lane_task list \<Rightarrow> bool" where
  "others_present l ts \<longleftrightarrow> (\<forall>n. ln_serving_other l \<le> n \<and> n < ln_next_other l \<longrightarrow>
     n \<in> set (ln_cancelled l) \<or> (\<exists>x \<in> set ts. other_of x = Some n))"

definition all_present :: "lane_world \<Rightarrow> bool" where
  "all_present w \<longleftrightarrow> passives_present (lw_lane w) (lw_tasks w) \<and> others_present (lw_lane w) (lw_tasks w)"

lemma holder_update:
  assumes "\<exists>x \<in> set ts. f x = Some n" "i < length ts" "f t = f (ts ! i) \<or> f (ts ! i) \<noteq> Some n"
  shows "\<exists>x \<in> set (ts[i := t]). f x = Some n"
proof -
  obtain j where j: "j < length ts" "f (ts ! j) = Some n" using assms(1) by (metis in_set_conv_nth)
  show ?thesis
  proof (cases "j = i")
    case True
    then have "f t = Some n" using j assms(3) by auto
    then show ?thesis using set_update_memI [OF assms(2), of t] by blast
  next
    case False
    then show ?thesis using update_other_mem [OF j(1) False, of t] j(2) by blast
  qed
qed

lemma passives_update:
  assumes "passives_present l ts" "i < length ts" "passive_of t = passive_of (ts ! i)"
    "ln_serving_ticket l' = ln_serving_ticket l" "ln_next_ticket l' = ln_next_ticket l"
  shows "passives_present l' (ts[i := t])"
  using assms(1,4,5) holder_update [of ts passive_of _ i t] assms(2,3) by (simp add: passives_present_def)

lemma others_update:
  assumes "others_present l ts" "i < length ts" "other_of t = other_of (ts ! i)"
    "ln_serving_other l' = ln_serving_other l" "ln_next_other l' = ln_next_other l" "ln_cancelled l' = ln_cancelled l"
  shows "others_present l' (ts[i := t])"
  using assms(1,4-6) holder_update [of ts other_of _ i t] assms(2,3) by (auto simp: others_present_def)

lemma skip_from_stops: "skip_from s cs = (s', cs') \<Longrightarrow> distinct cs \<Longrightarrow> s \<le> s' \<and> s' \<notin> set cs"
proof (induction s cs rule: skip_from.induct)
  case (1 s cs)
  show ?case
  proof (cases "s \<in> set cs")
    case True
    then have a: "s + 1 \<le> s' \<and> s' \<notin> set (remove1 s cs)"
      by (intro 1(1) [OF True]) (use 1(2,3) in \<open>simp_all add: skip_from.simps [of s]\<close>)
    then have "s' \<noteq> s" by linarith
    then show ?thesis using a in_set_remove1 [of s' s cs] by simp
  next
    case False
    then show ?thesis using 1(2) by (simp add: skip_from.simps [of s])
  qed
qed

lemma skip_present:
  assumes "counts_before l ts" "others_present l ts"
  shows "others_present (skip_cancelled l) ts"
proof -
  obtain s cs where k: "skip_from (ln_serving_other l) (ln_cancelled l) = (s, cs)" by fastforce
  obtain s2 cs2 where m: "skip_cancelled l = l\<lparr>ln_serving_other := s2, ln_cancelled := cs2\<rparr>"
      "ln_serving_other l \<le> s2" "set cs2 = {c \<in> set (ln_cancelled l). s2 < c}"
    by (rule skip_laneE [OF assms(1)]) blast
  have "distinct (ln_cancelled l)" using assms(1) by (simp add: counts_before_def)
  then have "s \<notin> set (ln_cancelled l)" using skip_from_stops [OF k] by simp
  moreover have "s2 = s" using m(1) k by (simp add: skip_cancelled_def) (metis lane.select_convs(7) lane.surjective lane.update_convs(7,8))
  ultimately have "n \<in> set cs2" if "n \<in> set (ln_cancelled l)" "s2 \<le> n" for n
    using m(3) that by (cases "n = s2") auto
  then have "n \<in> set cs2 \<or> (\<exists>x \<in> set ts. other_of x = Some n)" if "s2 \<le> n" "n < ln_next_other l" for n
    using assms(2) m(2) that unfolding others_present_def by (meson le_trans)
  then show ?thesis by (simp add: others_present_def m(1))
qed

lemma present_step:
  assumes s: "lane_step False w w'" and ok: "lane_ok w" and present: "all_present w"
  shows "all_present w'"
proof -
  let ?l = "lw_lane w" and ?ts = "lw_tasks w"
  have p: "passives_present ?l ?ts" and o: "others_present ?l ?ts" using present by (simp_all add: all_present_def)
  note counts = counts_weaken [OF lane_okD(3) [OF ok]]
  show ?thesis
    using s
  proof (cases rule: lane_step.cases)
    case (step_issue n l)
    have "passives_present l (?ts @ [PassiveWaiting n])"
      using p step_issue by (auto simp: passives_present_def mark_passive_send_pending_def less_Suc_eq)
    moreover have "others_present l (?ts @ [PassiveWaiting n])"
      using o step_issue by (auto simp: others_present_def mark_passive_send_pending_def)
    ultimately show ?thesis by (simp add: step_issue all_present_def new_task_def)
  next
    case (step_passive i n)
    then show ?thesis using passives_update [OF p, of i "PassiveSending n"] others_update [OF o, of i "PassiveSending n"]
      by (simp add: all_present_def set_task_def begin_sending_def)
  next
    case (step_passive_end i n)
    have n: "n = ln_serving_ticket ?l"
      using range_at [OF lane_okD(2) [OF ok] step_passive_end(2)] step_passive_end(3) by (simp add: in_range_def)
    have "passives_present (passive_end ?l) (?ts[i := Ended])"
      using p holder_update [of ?ts passive_of _ i Ended] step_passive_end(2,3) n
      by (auto simp: passives_present_def passive_end_def Suc_le_eq)
    moreover have "others_present (passive_end ?l) (?ts[i := Ended])"
      by (rule others_update [OF o step_passive_end(2)]) (simp_all add: step_passive_end passive_end_def)
    ultimately show ?thesis by (simp add: step_passive_end all_present_def set_task_def)
  next
    case (step_enter n l)
    let ?l1 = "?l\<lparr>ln_next_other := ln_next_other ?l + 1\<rparr>"
    have l: "l = skip_cancelled ?l1" and n: "n = ln_next_other ?l" using step_enter by (auto simp: other_enter_def)
    have "others_present ?l1 (?ts @ [OtherWaiting n])" using o n by (auto simp: others_present_def less_Suc_eq)
    moreover have "counts_before ?l1 (?ts @ [OtherWaiting n])" using counts by (auto simp: counts_before_def less_Suc_eq)
    ultimately have "others_present l (?ts @ [OtherWaiting n])" using skip_present l by simp
    moreover have "passives_present l (?ts @ [OtherWaiting n])" using p by (auto simp: passives_present_def l)
    ultimately show ?thesis by (simp add: step_enter all_present_def new_task_def)
  next
    case step_wake
    then show ?thesis using p skip_present [OF counts o] by (simp add: all_present_def passives_present_def)
  next
    case (step_other i n)
    then show ?thesis using passives_update [OF p, of i "OtherSending n"] others_update [OF o, of i "OtherSending n"]
      by (simp add: all_present_def set_task_def begin_sending_def)
  next
    case (step_other_end i n)
    let ?l1 = "?l\<lparr>ln_serving_other := ln_serving_other ?l + 1, ln_sending := False\<rparr>"
    have r: "n = ln_serving_other ?l" "n < ln_next_other ?l"
      using range_at [OF lane_okD(2) [OF ok] step_other_end(2)] step_other_end(3) by (simp_all add: in_range_def)
    have si: "sends (?ts ! i)" using step_other_end(3) by simp
    have "others_present ?l1 (?ts[i := Ended])"
      using o holder_update [of ?ts other_of _ i Ended] step_other_end(2,3) r
      by (simp add: others_present_def Suc_le_eq) (metis less_imp_le less_irrefl)
    moreover have "counts_before ?l1 (?ts[i := Ended])"
      using lane_okD(3) [OF ok] begun_update [OF lane_okD(1) [OF ok] step_other_end(2) si, of Ended] r
      by (auto simp: lane_counts_def counts_before_def Suc_le_eq)
    ultimately have "others_present (other_end ?l) (?ts[i := Ended])" using skip_present by (simp add: other_end_def)
    moreover have "passives_present (other_end ?l) (?ts[i := Ended])"
      by (rule passives_update [OF p step_other_end(2)]) (simp_all add: step_other_end other_end_def)
    ultimately show ?thesis by (simp add: step_other_end all_present_def set_task_def)
  next
    case (step_other_cancel i n)
    let ?l1 = "?l\<lparr>ln_cancelled := List.insert n (ln_cancelled ?l)\<rparr>"
    have r: "ln_serving_other ?l \<le> n" "n < ln_next_other ?l"
      using range_at [OF lane_okD(2) [OF ok] step_other_cancel(2)] step_other_cancel(3) by (simp_all add: in_range_def)
    have "others_present ?l1 (?ts[i := Ended])"
      using o holder_update [of ?ts other_of _ i Ended] step_other_cancel(2,3) by (auto simp: others_present_def)
    moreover have "counts_before ?l1 (?ts[i := Ended])"
      using counts r begun_same [OF step_other_cancel(2), of Ended] step_other_cancel(3) by (auto simp: counts_before_def)
    ultimately have "others_present (other_cancel n ?l) (?ts[i := Ended])" using skip_present by (simp add: other_cancel_def)
    moreover have "passives_present (other_cancel n ?l) (?ts[i := Ended])"
      by (rule passives_update [OF p step_other_cancel(2)]) (simp_all add: step_other_cancel other_cancel_def)
    ultimately show ?thesis by (simp add: step_other_cancel all_present_def set_task_def)
  qed (use p o in \<open>auto simp: all_present_def passives_present_def others_present_def mark_passive_pending_def
        mark_passive_done_def\<close>)
qed

lemma present_run: "lane_run False empty_world w \<Longrightarrow> all_present w"
proof (induction rule: lane_run.induct)
  case run_here
  show ?case by (simp add: all_present_def passives_present_def others_present_def empty_world_def empty_lane_def)
next
  case (run_step v c u)
  then show ?case using present_step [of v u] lane_run_empty [of False v] by simp
qed

lemma holder_waits:
  assumes "x \<in> set ts" "\<not> list_ex sends ts"
  shows "passive_of x = Some n \<Longrightarrow> x = PassiveWaiting n" "other_of x = Some n \<Longrightarrow> x = OtherWaiting n"
proof -
  have "\<not> sends x" using assms by (simp add: list_ex_iff)
  then show "passive_of x = Some n \<Longrightarrow> x = PassiveWaiting n" "other_of x = Some n \<Longrightarrow> x = OtherWaiting n"
    by (cases x; simp)+
qed

section \<open>A sample history\<close>

text \<open>Two passive sends and another one are announced.\<close>

definition lane_sample :: lane_world where
  "lane_sample = \<lparr>lw_lane = empty_lane\<lparr>ln_passive_sends := 2, ln_next_ticket := 2, ln_next_other := 1\<rparr>,
     lw_tasks = [PassiveWaiting 0, PassiveWaiting 1, OtherWaiting 0], lw_log = []\<rparr>"

lemma skip_from_Nil [simp]: "skip_from s [] = (s, [])"
  by (subst skip_from.simps) simp

lemma sample_run: "lane_run b empty_world lane_sample"
proof -
  let ?a = "\<lparr>lw_lane = empty_lane\<lparr>ln_passive_sends := 1, ln_next_ticket := 1\<rparr>, lw_tasks = [PassiveWaiting 0], lw_log = []\<rparr>"
  let ?b = "\<lparr>lw_lane = empty_lane\<lparr>ln_passive_sends := 2, ln_next_ticket := 2\<rparr>, lw_tasks = [PassiveWaiting 0, PassiveWaiting 1],
    lw_log = []\<rparr>"
  have 1: "lane_step False empty_world ?a"
    using step_issue [of empty_world 0 "empty_lane\<lparr>ln_passive_sends := 1, ln_next_ticket := 1\<rparr>"]
    by (simp add: mark_passive_send_pending_def new_task_def empty_world_def empty_lane_def)
  have 2: "lane_step False ?a ?b"
    using step_issue [of ?a 1 "empty_lane\<lparr>ln_passive_sends := 2, ln_next_ticket := 2\<rparr>"]
    by (simp add: mark_passive_send_pending_def new_task_def empty_world_def empty_lane_def)
  have 3: "lane_step False ?b lane_sample"
    using step_enter [of ?b 0 "lw_lane lane_sample"]
    by (simp add: other_enter_def new_task_def lane_sample_def empty_lane_def skip_cancelled_def)
  show ?thesis by (rule run_step [OF run_step [OF run_step [OF run_here 1] 2] 3]) simp_all
qed

section \<open>The properties\<close>

text \<open>C21: In every history of a lane at most one send is under way at a time, the sends of passive turns begin in the
  order of their tickets and none is left out, and the other sends begin in increasing order of their tickets.\<close>

theorem lane_order:
  assumes "lane_run True empty_world w"
  shows "(\<forall>i j. i < length (lw_tasks w) \<and> j < length (lw_tasks w) \<and> sends (lw_tasks w ! i) \<and> sends (lw_tasks w ! j) \<longrightarrow> i = j) \<and>
    passive_log (lw_log w) = [0..<length (passive_log (lw_log w))] \<and> sorted_wrt (<) (other_log (lw_log w))"
  using lane_run_empty [OF assms] one_sender passive_log_prefix lane_okD(4) by (fastforce simp: lane_log_ok_def)

theorem lane_order_witness:
  "passive_log (lw_log lane_sample) = [0..<length (passive_log (lw_log lane_sample))] \<and>
   sorted_wrt (<) (other_log (lw_log lane_sample))"
  using lane_order [OF sample_run] by simp

text \<open>C39: A passive send that is cancelled while it waits for its turn keeps its ticket: from then on, whatever
  happens, no passive send of that or a later ticket and no other send ever begins in the chat.\<close>

theorem cancelled_passive_blocks:
  assumes "lane_run True empty_world w" "i < length (lw_tasks w)" "lw_tasks w ! i = PassiveWaiting t"
    "lane_run True (set_task i Ended (lw_lane w) w) u"
  shows "(\<forall>n \<in> set (passive_log (lw_log u)). n < t) \<and> other_log (lw_log u) = other_log (lw_log w)"
proof -
  note ok = lane_run_empty [OF assms(1)]
  let ?v = "set_task i Ended (lw_lane w) w"
  have "lane_ok u \<and> ticket_lost t u \<and> other_log (lw_log u) = other_log (lw_log ?v)"
    by (rule lost_run [OF assms(4) ok_passive_cancel [OF ok assms(2,3)] cancel_loses [OF ok assms(2,3)]])
  then show ?thesis using lost_passive_log [of u t] by simp
qed

theorem cancelled_passive_blocks_witness:
  "list_all (\<lambda>n. n < 0) (passive_log (lw_log (set_task 0 Ended (lw_lane lane_sample) lane_sample))) \<and>
   other_log (lw_log (set_task 0 Ended (lw_lane lane_sample) lane_sample)) = other_log (lw_log lane_sample)"
  unfolding list_all_iff by (rule cancelled_passive_blocks [OF sample_run _ _ run_here]) (simp_all add: lane_sample_def)

text \<open>While no waiting passive send is cancelled, a lane never stops: when no send is under way, a passive send
  that waits can begin if there is one, and otherwise, once no passive turn is pending, the first of the other sends
  that wait can.\<close>

theorem lane_progress:
  assumes "lane_run False empty_world w" "\<not> ln_sending (lw_lane w)"
    "PassiveWaiting n \<in> set (lw_tasks w) \<or> (OtherWaiting n \<in> set (lw_tasks w) \<and> ln_passive_turns (lw_lane w) = 0)"
  shows "\<exists>t. (PassiveWaiting t \<in> set (lw_tasks w) \<and> passive_ready t (lw_lane w)) \<or>
    (OtherWaiting t \<in> set (lw_tasks w) \<and> other_ready t (lw_lane w))"
proof -
  let ?l = "lw_lane w" and ?ts = "lw_tasks w"
  note ok = lane_run_empty [OF assms(1)]
  have s: "\<not> list_ex sends ?ts" and c: "ln_passive_sends ?l + ln_serving_ticket ?l = ln_next_ticket ?l"
    using lane_okD(3) [OF ok] assms(2) by (simp_all add: lane_counts_def)
  have p: "passives_present ?l ?ts" and o: "others_present ?l ?ts" using present_run [OF assms(1)] by (simp_all add: all_present_def)
  note range = lane_okD(2) [OF ok]
  show ?thesis
  proof (cases "ln_serving_ticket ?l < ln_next_ticket ?l")
    case True
    then obtain x where "x \<in> set ?ts" "passive_of x = Some (ln_serving_ticket ?l)" using p by (auto simp: passives_present_def)
    then show ?thesis using holder_waits(1) [OF _ s] assms(2) by (auto simp: passive_ready_def)
  next
    case False
    then have none: "PassiveWaiting n \<notin> set ?ts" using range by (force simp: tasks_in_range_def in_range_def)
    then have "in_range ?l (OtherWaiting n)" using assms(3) range by (simp add: tasks_in_range_def)
    then have "ln_serving_other ?l < ln_next_other ?l" by (simp add: in_range_def)
    moreover have "ln_serving_other ?l \<notin> set (ln_cancelled ?l)" using lane_okD(3) [OF ok] by (auto simp: lane_counts_def)
    ultimately obtain x where "x \<in> set ?ts" "other_of x = Some (ln_serving_other ?l)" using o by (auto simp: others_present_def)
    moreover have "ln_passive_sends ?l = 0" using False c by simp
    ultimately show ?thesis using holder_waits(2) [OF _ s] assms(2,3) none by (auto simp: other_ready_def)
  qed
qed

theorem lane_progress_witness:
  "\<exists>t. (PassiveWaiting t \<in> set (lw_tasks lane_sample) \<and> passive_ready t (lw_lane lane_sample)) \<or>
    (OtherWaiting t \<in> set (lw_tasks lane_sample) \<and> other_ready t (lw_lane lane_sample))"
  by (rule lane_progress [OF sample_run, of 0]) (simp_all add: lane_sample_def empty_lane_def)

end
