(* ===== verification/CloudTranscript.thy ===== *)
theory CloudTranscript
  imports CloudRuns SessionHistory "HOL-Library.Sublist"
begin

text \<open>
  The transcript of one Run, \<open>src/cloud/transcript.py\<close>, and the adapter that runs the agent pipeline on it,
  \<open>src/cloud/executor.py\<close>.  The stored messages of a conversation become a session, the pipeline works on
  the session, and the one assistant message it adds is exported for the transaction that completes the Run.
  The pipeline and the step after it are parameters; the scopes the adapter enters change nothing here.
\<close>

section \<open>Hydration\<close>

text \<open>\<open>dict (v)\<close> of a list of pairs does not occur: what is not a dictionary raises.\<close>

definition hydrate_message :: "(json \<Rightarrow> pystr) \<Rightarrow> pydict \<Rightarrow> pydict res" where
  "hydrate_message repr i =
     (case as_dict (get_or i ''metadata'' (JObj [])) of Inl e \<Rightarrow> Inl e | Inr md \<Rightarrow>
     (case item i ''id'' of Inl e \<Rightarrow> Inl e | Inr mid \<Rightarrow>
     (case item i ''seq'' of Inl e \<Rightarrow> Inl e | Inr v \<Rightarrow>
     (case py_int v of Inl e \<Rightarrow> Inl e | Inr seq \<Rightarrow>
     (case item i ''role'' of Inl e \<Rightarrow> Inl e | Inr role \<Rightarrow>
        Inr (dict_update md
          [(lit ''id'', JStr (py_str repr mid)), (lit ''seq'', JInt seq), (lit ''role'', JStr (py_str repr role)),
           (lit ''content'', JStr (get_text repr i ''content'')),
           (lit ''timestamp'', JStr (get_text repr i ''created_at''))]))))))"

definition hydrate_item :: "(json \<Rightarrow> pystr) \<Rightarrow> json \<Rightarrow> pydict res" where
  "hydrate_item repr v = (case as_dict v of Inl e \<Rightarrow> Inl e | Inr i \<Rightarrow> hydrate_message repr i)"

record bound_transcript =
  bt_session :: session
  bt_initial :: nat
  bt_run_id :: "pystr option"
  bt_saved :: bool

text \<open>\<open>cur\<close> is the value of the context variable.\<close>

definition bind_transcript ::
  "(json \<Rightarrow> pystr) \<Rightarrow> pystr \<Rightarrow> pydict \<Rightarrow> bound_transcript option \<Rightarrow> bound_transcript res" where
  "bind_transcript repr conversation_id payload cur =
     (if cur \<noteq> None then Inl (RuntimeError (lit ''a Cloud transcript is already bound in this context''))
      else
        (case py_list (get_default payload ''messages'' (JArr [])) of Inl e \<Rightarrow> Inl e | Inr items \<Rightarrow>
        (case res_map (hydrate_item repr) items of Inl e \<Rightarrow> Inl e | Inr ms \<Rightarrow>
        (case as_dict (get_or payload ''metadata'' (JObj [])) of Inl e \<Rightarrow> Inl e | Inr md \<Rightarrow>
        (case py_int (get_or payload ''last_consolidated'' (JInt 0)) of Inl e \<Rightarrow> Inl e | Inr lc \<Rightarrow>
           Inr \<lparr>bt_session =
                  \<lparr>sn_key = conversation_id, sn_messages = ms, sn_created_at = get_text repr payload ''created_at'',
                   sn_updated_at = get_text repr payload ''updated_at'', sn_metadata = md,
                   sn_last_consolidated = lc, sn_reserved = None\<rparr>,
                bt_initial = length ms,
                bt_run_id = (case get payload ''run_id'' of None \<Rightarrow> None
                             | Some v \<Rightarrow> if truthy v then Some (py_str repr v) else None),
                bt_saved = False\<rparr>)))))"

section \<open>The transcript port\<close>

definition require_binding :: "pystr \<Rightarrow> bound_transcript option \<Rightarrow> bound_transcript res" where
  "require_binding key cur =
     (case cur of
        None \<Rightarrow> Inl (RuntimeError (lit ''Cloud transcript access requires an active Run binding''))
      | Some b \<Rightarrow>
          if sn_key (bt_session b) \<noteq> key
          then Inl (RuntimeError (lit ''bound Cloud transcript does not match conversation identity''))
          else Inr b)"

definition bound_session :: "pystr \<Rightarrow> bound_transcript option \<Rightarrow> session res" where
  "bound_session key cur = (case require_binding key cur of Inl e \<Rightarrow> Inl e | Inr b \<Rightarrow> Inr (bt_session b))"

definition bound_exists :: "pystr \<Rightarrow> bound_transcript option \<Rightarrow> bool" where
  "bound_exists key cur \<longleftrightarrow> (case cur of None \<Rightarrow> False | Some b \<Rightarrow> sn_key (bt_session b) = key)"

definition current_run_id :: "bound_transcript option \<Rightarrow> pystr option" where
  "current_run_id cur = (case cur of None \<Rightarrow> None | Some b \<Rightarrow> bt_run_id b)"

text \<open>\<open>fresh\<close> is \<open>uuid4 ().hex\<close>.\<close>

definition reserve_message_id ::
  "pystr \<Rightarrow> pystr \<Rightarrow> bound_transcript option \<Rightarrow> (pystr \<times> bound_transcript) res" where
  "reserve_message_id key fresh cur =
     (case require_binding key cur of Inl e \<Rightarrow> Inl e | Inr b \<Rightarrow>
        (let i = (case sn_reserved (bt_session b) of None \<Rightarrow> fresh | Some i \<Rightarrow> i)
         in Inr (i, b\<lparr>bt_session := (bt_session b)\<lparr>sn_reserved := Some i\<rparr>\<rparr>)))"

text \<open>\<open>same\<close> says whether the session given is the object that is bound.\<close>

definition save_bound :: "pystr \<Rightarrow> bool \<Rightarrow> bound_transcript option \<Rightarrow> bound_transcript res" where
  "save_bound key same cur =
     (case require_binding key cur of Inl e \<Rightarrow> Inl e | Inr b \<Rightarrow>
        if \<not> same then Inl (RuntimeError (lit ''cannot save a Session outside its bound Cloud Run''))
        else Inr (b\<lparr>bt_saved := True\<rparr>))"

definition search_result :: "(json \<Rightarrow> pystr) \<Rightarrow> pystr \<Rightarrow> pydict \<Rightarrow> pydict" where
  "search_result repr key m =
     [(lit ''source_ref'', JStr (get_text repr m ''id'')), (lit ''session_key'', JStr key),
      (lit ''role'', JStr (get_text repr m ''role'')), (lit ''content'', JStr (take 500 (get_text repr m ''content''))),
      (lit ''timestamp'', JStr (get_text repr m ''timestamp''))]"

text \<open>\<open>lower\<close> is \<open>str.lower\<close>.\<close>

definition search_bound ::
  "(json \<Rightarrow> pystr) \<Rightarrow> (pystr \<Rightarrow> pystr) \<Rightarrow> pystr \<Rightarrow> int \<Rightarrow> bound_transcript option \<Rightarrow> pydict list res" where
  "search_bound repr lower query limit cur =
     (case cur of
        None \<Rightarrow> Inl (RuntimeError (lit ''Cloud transcript search requires an active Run binding''))
      | Some b \<Rightarrow>
          (let needle = strip (lower query)
           in if needle = [] then Inr []
              else Inr (map (search_result repr (sn_key (bt_session b)))
                     (take (nat (max 1 limit))
                       (filter (\<lambda>m. sublist needle (lower (get_text repr m ''content'')))
                         (rev (sn_messages (bt_session b))))))))"

definition fetch_result :: "(json \<Rightarrow> pystr) \<Rightarrow> pydict \<Rightarrow> pydict" where
  "fetch_result repr m =
     [(lit ''source_ref'', JStr (get_text repr m ''id'')), (lit ''role'', JStr (get_text repr m ''role'')),
      (lit ''content'', JStr (get_text repr m ''content'')), (lit ''timestamp'', JStr (get_text repr m ''timestamp''))]"

fun index_of :: "('a \<Rightarrow> bool) \<Rightarrow> 'a list \<Rightarrow> nat option" where
  "index_of p [] = None"
| "index_of p (x # xs) = (if p x then Some 0 else map_option Suc (index_of p xs))"

definition fetch_bound ::
  "(json \<Rightarrow> pystr) \<Rightarrow> pystr \<Rightarrow> int \<Rightarrow> bound_transcript option \<Rightarrow> pydict list res" where
  "fetch_bound repr source_ref around cur =
     (case cur of
        None \<Rightarrow> Inl (RuntimeError (lit ''Cloud transcript fetch requires an active Run binding''))
      | Some b \<Rightarrow>
          (let ms = sn_messages (bt_session b)
           in case index_of (\<lambda>m. get_text repr m ''id'' = source_ref) ms of
                None \<Rightarrow> Inr []
              | Some t \<Rightarrow>
                  (let radius = nat (max 0 around); from = t - radius
                   in Inr (map (fetch_result repr) (take (t + radius + 1 - from) (drop from ms))))))"

section \<open>The adapter\<close>

record agent_request =
  aq_conversation_id :: pystr
  aq_content :: pystr
  aq_subject_id :: pystr
  aq_display_name :: pystr
  aq_origin_kind :: pystr
  aq_origin_name :: pystr
  aq_thread_id :: pystr
  aq_media :: "json list"
  aq_metadata :: pydict

record agent_result =
  ar_content :: pystr
  ar_thinking :: pystr
  ar_media :: "pystr list"
  ar_metadata :: pydict

type_synonym pipeline = "agent_request \<Rightarrow> bound_transcript \<Rightarrow> agent_result res \<times> bound_transcript"
type_synonym settling = "pystr \<Rightarrow> bound_transcript \<Rightarrow> unit res \<times> bound_transcript"

definition transcript_key :: "string" where "transcript_key = ''_cloud_transcript''"
definition commit_key :: "string" where "commit_key = ''_cloud_transcript_commit''"

text \<open>A new identifier and two readings of the clock.\<close>

record turn_clock =
  tk_fresh :: pystr
  tk_now :: pystr
  tk_later :: pystr

text \<open>The one message of the assistant, and the session with it.\<close>

definition new_assistant ::
  "turn_clock \<Rightarrow> agent_result \<Rightarrow> bound_transcript \<Rightarrow> (pydict \<times> session) res" where
  "new_assistant tk r b =
     (case drop (bt_initial b) (sn_messages (bt_session b)) of
        [] \<Rightarrow> add_message (lit ''assistant'') (ar_content r) (map JStr (ar_media r))
                [(lit ''reasoning_content'', JStr (ar_thinking r))] (tk_fresh tk) (tk_now tk) (tk_later tk) (bt_session b)
      | [m] \<Rightarrow>
          if has_role ''assistant'' m then Inr (m, bt_session b)
          else Inl (RuntimeError (lit ''the Agent pipeline must commit one assistant and no duplicate user message''))
      | _ \<Rightarrow> Inl (RuntimeError (lit ''the Agent pipeline must commit one assistant and no duplicate user message'')))"

definition row_keys_cloud :: "pystr set" where
  "row_keys_cloud = {lit ''id'', lit ''seq'', lit ''role'', lit ''content'', lit ''timestamp''}"

definition export_commit :: "(json \<Rightarrow> pystr) \<Rightarrow> pydict \<Rightarrow> session \<Rightarrow> pydict res" where
  "export_commit repr m s =
     (case item m ''id'' of Inl e \<Rightarrow> Inl e | Inr mid \<Rightarrow>
        Inr [(lit ''assistant_message_id'', JStr (py_str repr mid)),
             (lit ''assistant_metadata'', JObj (filter (\<lambda>(k, v). k \<notin> row_keys_cloud) m)),
             (lit ''conversation_metadata'', JObj (sn_metadata s)),
             (lit ''last_consolidated'', JInt (sn_last_consolidated s))])"

text \<open>What the turn leaves: its result, the message of the assistant and the session.\<close>

definition run_bound ::
  "(json \<Rightarrow> pystr) \<Rightarrow> pipeline \<Rightarrow> settling option \<Rightarrow> turn_clock \<Rightarrow> agent_request \<Rightarrow> agent_request \<Rightarrow> pydict \<Rightarrow>
   bound_transcript option \<Rightarrow> (agent_result \<times> pydict \<times> session) res" where
  "run_bound repr pipe settle tk request delegated transcript cur =
     (case bind_transcript repr (aq_conversation_id request) transcript cur of Inl e \<Rightarrow> Inl e | Inr b \<Rightarrow>
     (case pipe delegated b of (Inl e, b1) \<Rightarrow> Inl e | (Inr r, b1) \<Rightarrow>
     (case (case settle of None \<Rightarrow> (Inr (), b1) | Some f \<Rightarrow> f (aq_conversation_id request) b1) of
        (Inl e, b2) \<Rightarrow> Inl e
      | (Inr _, b2) \<Rightarrow>
          (case new_assistant tk r b2 of Inl e \<Rightarrow> Inl e | Inr (m, s) \<Rightarrow> Inr (r, m, s)))))"

definition execute_bound ::
  "(json \<Rightarrow> pystr) \<Rightarrow> pipeline \<Rightarrow> settling option \<Rightarrow> turn_clock \<Rightarrow> agent_request \<Rightarrow> agent_request \<Rightarrow> pydict \<Rightarrow>
   bound_transcript option \<Rightarrow> agent_result res" where
  "execute_bound repr pipe settle tk request delegated transcript cur =
     (case run_bound repr pipe settle tk request delegated transcript cur of Inl e \<Rightarrow> Inl e | Inr (r, m, s) \<Rightarrow>
     (case export_commit repr m s of Inl e \<Rightarrow> Inl e | Inr commit \<Rightarrow>
        Inr (r\<lparr>ar_metadata := dict_set (lit commit_key) (JObj commit) (ar_metadata r)\<rparr>)))"

definition execute_request ::
  "(json \<Rightarrow> pystr) \<Rightarrow> pipeline \<Rightarrow> settling option \<Rightarrow> turn_clock \<Rightarrow> agent_request \<Rightarrow>
   bound_transcript option \<Rightarrow> agent_result res" where
  "execute_request repr pipe settle tk request cur =
     (case get (aq_metadata request) transcript_key of
        Some (JObj transcript) \<Rightarrow>
          execute_bound repr pipe settle tk request
            (request\<lparr>aq_metadata := dict_set (lit ''omit_user_turn'') (JBool True)
                (filter (\<lambda>(k, v). k \<noteq> lit transcript_key) (aq_metadata request))\<rparr>) transcript cur
      | _ \<Rightarrow> Inl (ValueError (lit ''Cloud TurnRequest is missing its durable transcript'')))"

end
