(* ===== verification/CloudWorker.thy ===== *)
theory CloudWorker
  imports CloudTranscript
begin

text \<open>
  The worker of the Run queue, \<open>src/cloud/worker.py\<close>: a turn of \<open>run_once\<close> from the claim to the report,
  with what other processes commit before each of its transactions, and the two rows it keeps about itself in
  \<open>src/cloud/store.py\<close>.  The metrics and the log are not modelled, nor a cancellation of the worker inside a
  transaction; it may be cancelled while it waits for the turn.
\<close>

section \<open>The row of a worker\<close>

definition heartbeat_worker ::
  "pystr \<Rightarrow> uuid option \<Rightarrow> bool \<Rightarrow> instant \<Rightarrow> cloud_db \<Rightarrow> cloud_db res" where
  "heartbeat_worker worker_id current starting now db =
     (if (case current of None \<Rightarrow> False | Some i \<Rightarrow> row_by rn_id i (runs db) = None) then Inl IntegrityError
      else
        (let wid = take 200 worker_id
         in case row_by wk_worker_id wid (workers db) of
              None \<Rightarrow> Inr (db\<lparr>workers := workers db @
                        [\<lparr>wk_worker_id = wid, wk_status = WkRunning, wk_current_run_id = current,
                          wk_started_at = now, wk_heartbeat_at = now\<rparr>]\<rparr>)
            | Some k \<Rightarrow>
                Inr (db\<lparr>workers := put_row wk_worker_id
                          (k\<lparr>wk_status := WkRunning, wk_current_run_id := current, wk_heartbeat_at := now,
                             wk_started_at := if starting then now else wk_started_at k\<rparr>) (workers db)\<rparr>)))"

definition stop_worker :: "pystr \<Rightarrow> instant \<Rightarrow> cloud_db \<Rightarrow> cloud_db" where
  "stop_worker worker_id now db =
     (case row_by wk_worker_id (take 200 worker_id) (workers db) of
        None \<Rightarrow> db
      | Some k \<Rightarrow>
          db\<lparr>workers := put_row wk_worker_id
               (k\<lparr>wk_status := WkStopped, wk_current_run_id := None, wk_heartbeat_at := now\<rparr>) (workers db)\<rparr>)"

section \<open>The request of a Run\<close>

definition role_value :: "role \<Rightarrow> pystr" where
  "role_value r = (case r of RoleUser \<Rightarrow> lit ''user'' | RoleAssistant \<Rightarrow> lit ''assistant'' | RoleSystem \<Rightarrow> lit ''system'')"

text \<open>\<open>isoformat\<close> is \<open>datetime.isoformat\<close>.\<close>

definition transcript_item :: "(instant \<Rightarrow> pystr) \<Rightarrow> message_row \<Rightarrow> json" where
  "transcript_item isoformat m =
     JObj [(lit ''id'', JStr (ms_id m)), (lit ''role'', JStr (role_value (ms_role m))),
           (lit ''content'', JStr (ms_content m)), (lit ''seq'', JInt (ms_seq m)),
           (lit ''created_at'', JStr (isoformat (ms_created_at m))), (lit ''metadata'', JObj (ms_agent_metadata m))]"

definition transcript_payload ::
  "(instant \<Rightarrow> pystr) \<Rightarrow> run_row \<Rightarrow> conversation_row \<Rightarrow> message_row list \<Rightarrow> pydict" where
  "transcript_payload isoformat r c history =
     [(lit ''created_at'', JStr (isoformat (cv_created_at c))), (lit ''updated_at'', JStr (isoformat (cv_updated_at c))),
      (lit ''metadata'', JObj (cv_agent_metadata c)), (lit ''last_consolidated'', JInt (cv_last_consolidated c)),
      (lit ''run_id'', JStr (rn_id r)), (lit ''messages'', JArr (map (transcript_item isoformat) history))]"

text \<open>The constructors of the request refuse blank identities.\<close>

definition run_request ::
  "(instant \<Rightarrow> pystr) \<Rightarrow> run_row \<Rightarrow> user_row \<Rightarrow> conversation_row \<Rightarrow> message_row \<Rightarrow> message_row list \<Rightarrow>
   agent_request res" where
  "run_request isoformat r u c m history =
     (let scheduled = truthy (get_default (ms_agent_metadata m) ''scheduled_job_id'' JNull) in
      if strip (us_id u) = [] then Inl (ValueError (lit ''principal subject_id must not be blank''))
      else if strip (rn_id r) = []
      then Inl (ValueError (lit ''turn origin name and external_thread_id must not be blank''))
      else
        (case py_list (get_or (ms_agent_metadata m) ''media'' (JArr [])) of Inl e \<Rightarrow> Inl e | Inr media \<Rightarrow>
           if strip (rn_conversation_id r) = [] then Inl (ValueError (lit ''conversation_id must not be blank''))
           else
             Inr \<lparr>aq_conversation_id = rn_conversation_id r, aq_content = ms_content m, aq_subject_id = us_id u,
                  aq_display_name = us_email u,
                  aq_origin_kind = (if scheduled then lit ''scheduler'' else lit ''api''),
                  aq_origin_name = (if scheduled then lit ''cloud-scheduler'' else lit ''cloud''),
                  aq_thread_id = rn_id r, aq_media = media,
                  aq_metadata = dict_update (ms_agent_metadata m)
                    [(lit ''run_id'', JStr (rn_id r)),
                     (lit transcript_key, JObj (transcript_payload isoformat r c history))]\<rparr>))"

section \<open>What others do meanwhile\<close>

text \<open>\<open>we_others n\<close> is what other processes commit before the n-th transaction of the turn, \<open>we_wait k\<close> how the
  k-th wait for the execution ends, \<open>we_on_cancel\<close> the exception with which a cancelled execution ends, if it
  does not just end.\<close>

datatype wait_end = StillRunning | ExecutionEnded | WorkerInterrupted

datatype 'a execution = Returned 'a | Raised py_error | ExecutionCancelled

record worker_env =
  we_others :: "nat \<Rightarrow> cloud_db \<Rightarrow> cloud_db"
  we_clk :: "nat \<Rightarrow> clock"
  we_busy :: "uuid list"
  we_locked :: "uuid list"
  we_wait :: "nat \<Rightarrow> wait_end"
  we_execute :: "agent_request \<Rightarrow> agent_result execution"
  we_on_cancel :: "py_error option"
  we_fresh :: uuid
  we_iso :: "instant \<Rightarrow> pystr"
  we_summary :: "py_error \<Rightarrow> pystr"

section \<open>Waiting for the turn\<close>

datatype wait_outcome = TurnEnded | CancelRequested | HeartbeatFailed py_error | Interrupted

text \<open>\<open>None\<close>: the turn never ends and nobody cancels it.  The number is that of the next transaction.\<close>

partial_function (option) await_execution ::
  "worker_env \<Rightarrow> pystr \<Rightarrow> int \<Rightarrow> uuid \<Rightarrow> nat \<Rightarrow> cloud_db \<Rightarrow> (wait_outcome \<times> nat \<times> cloud_db) option" where
  "await_execution we w n i k db =
     (case we_wait we k of
        ExecutionEnded \<Rightarrow> Some (TurnEnded, 3 + k, db)
      | WorkerInterrupted \<Rightarrow> Some (Interrupted, 3 + k, db)
      | StillRunning \<Rightarrow>
          (let db1 = we_others we (3 + k) db
           in case heartbeat_run i w n (we_clk we (3 + k) 0) db1 of
                Inl e \<Rightarrow> Some (HeartbeatFailed e, 4 + k, db1)
              | Inr (cancel, db2) \<Rightarrow>
                  if cancel then Some (CancelRequested, 4 + k, db2) else await_execution we w n i (Suc k) db2))"

section \<open>The report\<close>

definition commit_text :: "pydict \<Rightarrow> string \<Rightarrow> pystr option res" where
  "commit_text d k =
     (case get_default d k JNull of
        JNull \<Rightarrow> Inr None
      | JStr s \<Rightarrow> Inr (Some s)
      | _ \<Rightarrow> Inl (AttributeError (lit ''replace'')))"

definition commit_dict :: "pydict \<Rightarrow> string \<Rightarrow> pydict option res" where
  "commit_dict d k =
     (case get_default d k JNull of
        JNull \<Rightarrow> Inr None
      | JObj v \<Rightarrow> Inr (Some v)
      | _ \<Rightarrow> Inl (TypeError (lit ''cannot convert to a dictionary'')))"

definition commit_int :: "pydict \<Rightarrow> string \<Rightarrow> int option res" where
  "commit_int d k =
     (case get_default d k JNull of
        JNull \<Rightarrow> Inr None
      | v \<Rightarrow> (case py_int v of Inl e \<Rightarrow> Inl e | Inr j \<Rightarrow> Inr (Some j)))"

definition transcript_commit :: "agent_result \<Rightarrow> pydict" where
  "transcript_commit r = (case get (ar_metadata r) commit_key of Some (JObj d) \<Rightarrow> d | _ \<Rightarrow> [])"

definition report_result ::
  "uuid \<Rightarrow> pystr \<Rightarrow> agent_result \<Rightarrow> uuid \<Rightarrow> clock \<Rightarrow> cloud_db \<Rightarrow> ((run_row \<times> message_row option) \<times> cloud_db) res" where
  "report_result i w r fresh clk db =
     (case commit_text (transcript_commit r) ''assistant_message_id'' of Inl e \<Rightarrow> Inl e | Inr mid \<Rightarrow>
     (case commit_dict (transcript_commit r) ''assistant_metadata'' of Inl e \<Rightarrow> Inl e | Inr ameta \<Rightarrow>
     (case commit_dict (transcript_commit r) ''conversation_metadata'' of Inl e \<Rightarrow> Inl e | Inr cmeta \<Rightarrow>
     (case commit_int (transcript_commit r) ''last_consolidated'' of Inl e \<Rightarrow> Inl e | Inr lc \<Rightarrow>
        complete_run i w (ar_content r) mid ameta cmeta lc fresh clk db))))"

section \<open>A turn of the worker\<close>

text \<open>How the \<open>try\<close> block ends, whether it leaves the execution running, and the number of the next transaction.\<close>

datatype turn_exit = TurnDone | TurnError py_error | TurnRaises py_error | TurnCancelled

definition end_turn ::
  "worker_env \<Rightarrow> pystr \<Rightarrow> uuid \<Rightarrow> agent_request \<Rightarrow> wait_outcome \<Rightarrow> nat \<Rightarrow> cloud_db \<Rightarrow>
   turn_exit \<times> bool \<times> nat \<times> cloud_db" where
  "end_turn we w i rq wr n db =
     (case wr of
        HeartbeatFailed e \<Rightarrow> (TurnError e, True, n, db)
      | Interrupted \<Rightarrow>
          ((case we_on_cancel we of None \<Rightarrow> TurnCancelled | Some e \<Rightarrow> TurnRaises e), False, n, db)
      | CancelRequested \<Rightarrow>
          (case we_on_cancel we of
             Some e \<Rightarrow> (TurnError e, False, n, db)
           | None \<Rightarrow>
               (let db1 = we_others we n db
                in case cancel_owned_run i w (we_clk we n) db1 of
                     Inl e \<Rightarrow> (TurnError e, False, Suc n, db1)
                   | Inr (r, db2) \<Rightarrow> (TurnDone, False, Suc n, db2)))
      | TurnEnded \<Rightarrow>
          (case we_execute we rq of
             Raised e \<Rightarrow> (TurnError e, False, n, db)
           | ExecutionCancelled \<Rightarrow> (TurnCancelled, False, n, db)
           | Returned result \<Rightarrow>
               (let db1 = we_others we n db
                in case report_result i w result (we_fresh we) (we_clk we n) db1 of
                     Inl e \<Rightarrow> (TurnError e, False, Suc n, db1)
                   | Inr (out, db2) \<Rightarrow> (TurnDone, False, Suc n, db2))))"

definition run_turn_of ::
  "worker_env \<Rightarrow> pystr \<Rightarrow> int \<Rightarrow> uuid \<Rightarrow> cloud_db \<Rightarrow> (turn_exit \<times> bool \<times> nat \<times> cloud_db) option" where
  "run_turn_of we w n i db =
     (case load_run_input i db of
        Inl e \<Rightarrow> Some (TurnError e, False, 3, db)
      | Inr (r, u, c, m, history) \<Rightarrow>
          (case run_request (we_iso we) r u c m history of
             Inl e \<Rightarrow> Some (TurnError e, False, 3, db)
           | Inr rq \<Rightarrow>
               (case await_execution we w n (rn_id r) 0 db of
                  None \<Rightarrow> None
                | Some (wr, next, db1) \<Rightarrow> Some (end_turn we w (rn_id r) rq wr next db1))))"

datatype worker_exit = WorkerReturns bool | WorkerRaises py_error | WorkerCancelled

fun state_error :: "py_error \<Rightarrow> bool" where
  "state_error (StoreStateError t) = True"
| "state_error e = False"

definition report_failure ::
  "worker_env \<Rightarrow> pystr \<Rightarrow> uuid \<Rightarrow> turn_exit \<times> bool \<times> nat \<times> cloud_db \<Rightarrow> worker_exit \<times> bool \<times> nat \<times> cloud_db" where
  "report_failure we w i t =
     (case t of (ex, left_running, n, db) \<Rightarrow>
        (case ex of
           TurnDone \<Rightarrow> (WorkerReturns True, left_running, n, db)
         | TurnCancelled \<Rightarrow> (WorkerCancelled, left_running, n, db)
         | TurnRaises e \<Rightarrow> (WorkerRaises e, left_running, n, db)
         | TurnError e \<Rightarrow>
             (let db1 = we_others we n db
              in case fail_run i w (we_summary we e) (we_clk we n) db1 of
                   Inr (r, db2) \<Rightarrow> (WorkerReturns True, left_running, Suc n, db2)
                 | Inl e' \<Rightarrow>
                     ((if state_error e' then WorkerReturns True else WorkerRaises e'), left_running, Suc n, db1))))"

definition worker_finally ::
  "worker_env \<Rightarrow> pystr \<Rightarrow> worker_exit \<times> bool \<times> nat \<times> cloud_db \<Rightarrow> worker_exit \<times> bool \<times> cloud_db" where
  "worker_finally we w t =
     (case t of (ex, left_running, n, db) \<Rightarrow>
        (let db1 = we_others we n db
         in case heartbeat_worker w None False (we_clk we n 0) db1 of
              Inl e \<Rightarrow> (ex, left_running, db1)
            | Inr db2 \<Rightarrow> (ex, left_running, db2)))"

text \<open>The flag: an execution of the turn is still running when the function returns.\<close>

definition worker_run_once ::
  "worker_env \<Rightarrow> pystr \<Rightarrow> int \<Rightarrow> cloud_db \<Rightarrow> (worker_exit \<times> bool \<times> cloud_db) option" where
  "worker_run_once we w n db =
     (case claim_next_run w n (we_clk we 0) (we_busy we) (we_locked we) (we_others we 0 db) of
        (None, db1) \<Rightarrow> Some (WorkerReturns False, False, db1)
      | (Some r, db1) \<Rightarrow>
          (let db1' = we_others we 1 db1
           in case heartbeat_worker w (Some (rn_id r)) False (we_clk we 1 0) db1' of
                Inl e \<Rightarrow> Some (WorkerRaises e, False, db1')
              | Inr db2 \<Rightarrow>
                  (case run_turn_of we w n (rn_id r) (we_others we 2 db2) of
                     None \<Rightarrow> None
                   | Some t \<Rightarrow> Some (worker_finally we w (report_failure we w (rn_id r) t)))))"

end
