(* ===== verification/WorkerTheorems.thy ===== *)
theory WorkerTheorems
  imports CloudWorker CloudSample StoreHistory
begin

text \<open>What a turn of the worker promises (\<open>src/cloud/worker.py\<close>).\<close>

section \<open>Holding a Run\<close>

definition holds_run :: "pystr \<Rightarrow> uuid \<Rightarrow> cloud_db \<Rightarrow> bool" where
  "holds_run w i db \<longleftrightarrow>
     (\<exists>r. row_by rn_id i (runs db) = Some r \<and> rn_status r = RunRunning \<and> rn_lease_owner r = Some w)"

definition run_settled :: "uuid \<Rightarrow> cloud_db \<Rightarrow> bool" where
  "run_settled i db \<longleftrightarrow>
     (\<exists>r. row_by rn_id i (runs db) = Some r \<and> rn_status r \<in> {RunCompleted, RunFailed, RunCancelled})"

lemma claim_holds:
  assumes "claim_next_run w n clk busy locked db = (Some r, db')"
  shows "holds_run w (rn_id r) db'"
  using assms
proof (rule claim_next_run_cases)
  fix r0
  assume f: "first_row (\<lambda>r. (rn_created_at r, rn_id r))
      (\<lambda>r. rn_status r = RunQueued \<and> rn_conversation_id r \<notin> set busy \<and> rn_id r \<notin> set locked) (runs db) = Some r0"
    and r: "r = r0\<lparr>rn_status := RunRunning, rn_lease_owner := Some w,
            rn_lease_expires_at := Some (clk 0 + seconds (max 10 n)), rn_heartbeat_at := Some (clk 0),
            rn_started_at := opt_or (rn_started_at r0) (clk 0), rn_attempt := rn_attempt r0 + 1\<rparr>"
    and db': "db' = log_event r (lit ''run.started'')
             [jstatus ''running'', (lit ''attempt'', JInt (rn_attempt r))] (clk 1) (put_run r db)"
  have "r0 \<in> set (runs db)" using first_row_SomeD [OF f] by simp
  then have "rn_id r \<in> rn_id ` set (runs db)" by (simp add: r)
  then have "row_by rn_id (rn_id r) (runs db) \<noteq> None" using row_by_None by metis
  then have "row_by rn_id (rn_id r) (runs db') = Some r" by (auto simp: db' frame_simps row_by_put_row)
  then show ?thesis by (simp add: holds_run_def r)
qed

lemma heartbeat_worker_runs:
  "heartbeat_worker w c s t db = Inr db' \<Longrightarrow> runs db' = runs db"
  by (auto simp: heartbeat_worker_def Let_def split: if_splits option.splits)

lemma holds_run_cong: "runs db' = runs db \<Longrightarrow> holds_run w i db' = holds_run w i db"
  by (simp add: holds_run_def)

lemma run_settled_cong: "runs db' = runs db \<Longrightarrow> run_settled i db' = run_settled i db"
  by (simp add: run_settled_def)

lemma holds_runE:
  assumes "holds_run w i db"
  obtains r where "row_by rn_id i (runs db) = Some r" "rn_id r = i" "rn_status r = RunRunning" "rn_lease_owner r = Some w"
  using assms row_by_SomeD by (fastforce simp: holds_run_def)

lemma heartbeat_worker_total: "row_by rn_id i (runs db) \<noteq> None \<Longrightarrow> \<exists>db'. heartbeat_worker w (Some i) s t db = Inr db'"
  by (cases "row_by wk_worker_id (take 200 w) (workers db)") (simp_all add: heartbeat_worker_def Let_def)

lemma holds_heartbeat:
  assumes "holds_run w i db"
  obtains db' where "heartbeat_worker w (Some i) s t db = Inr db'"
  using assms heartbeat_worker_total by (metis holds_runE option.distinct(1))

lemma holds_heartbeat_run:
  assumes "holds_run w i db"
  obtains c db' where "heartbeat_run i w n t db = Inr (c, db')" "holds_run w i db'"
  using assms by (elim holds_runE) (auto simp: heartbeat_run_def holds_run_def row_by_put_row)

lemma holds_cancel:
  assumes "holds_run w i db"
  obtains r db' where "cancel_owned_run i w clk db = Inr (r, db')" "run_settled i db'"
  using assms by (elim holds_runE) (auto simp: cancel_owned_run_def run_settled_def row_by_put_row Let_def frame_simps)

lemma holds_fail:
  assumes "holds_run w i db"
  obtains r db' where "fail_run i w err clk db = Inr (r, db')" "run_settled i db'"
proof -
  obtain r where r: "row_by rn_id i (runs db) = Some r" "rn_id r = i" "rn_status r = RunRunning" "rn_lease_owner r = Some w"
    using assms by (rule holds_runE)
  have "\<exists>x db'. fail_run i w err clk db = Inr (x, db') \<and> run_settled i db'"
    using r by (cases "rn_cancel_requested_at r")
      (simp_all add: fail_run_def run_settled_def row_by_put_row Let_def frame_simps)
  then show ?thesis using that by blast
qed

lemma complete_settles:
  assumes "complete_run i w content mid ameta cmeta lc fresh clk db = Inr ((r', out), db')"
  shows "run_settled i db'"
  using assms
proof (cases rule: complete_run_cases)
  case (cancelled r)
  then show ?thesis by (auto simp: run_settled_def row_by_put_row frame_simps dest: row_by_SomeD)
next
  case (completed r c c' m id db1)
  have "rn_id r = i" using row_by_SomeD [OF completed(1)] by simp
  then show ?thesis using completed(1) post_messageD(2) [OF completed(10)]
    by (simp add: run_settled_def completed(11,12) row_by_put_row frame_simps)
qed

lemma report_settles: "report_result i w r fresh clk db = Inr (out, db') \<Longrightarrow> run_settled i db'"
  by (cases out) (auto simp: report_result_def split: sum.splits dest: complete_settles)

section \<open>A turn under a lease that is kept\<close>

text \<open>Others may cancel the Run or write anything else, but leave the lease and a finished Run alone.\<close>

definition respects_lease :: "worker_env \<Rightarrow> pystr \<Rightarrow> uuid \<Rightarrow> bool" where
  "respects_lease we w i \<longleftrightarrow> (\<forall>n db. (holds_run w i db \<longrightarrow> holds_run w i (we_others we n db)) \<and>
     (run_settled i db \<longrightarrow> run_settled i (we_others we n db)))"

lemma await_keeps:
  assumes "respects_lease we w i" "holds_run w i db" "we_wait we (k + d) = ExecutionEnded"
    "\<forall>j < k + d. we_wait we j \<noteq> WorkerInterrupted"
  shows "\<exists>wr m db'. await_execution we w n i k db = Some (wr, m, db') \<and> wr \<in> {TurnEnded, CancelRequested} \<and>
    holds_run w i db'"
  using assms(2-)
proof (induction d arbitrary: k db)
  case 0
  then show ?case by (simp add: await_execution.simps)
next
  case (Suc d)
  show ?case
  proof (cases "we_wait we k")
    case StillRunning
    have "holds_run w i (we_others we (3 + k) db)" using assms(1) Suc.prems(1) by (simp add: respects_lease_def)
    then obtain c db' where h: "heartbeat_run i w n (we_clk we (3 + k) 0) (we_others we (3 + k) db) = Inr (c, db')"
      "holds_run w i db'"
      by (rule holds_heartbeat_run)
    have "\<exists>wr m db''. await_execution we w n i (Suc k) db' = Some (wr, m, db'') \<and> wr \<in> {TurnEnded, CancelRequested} \<and>
        holds_run w i db''"
      by (rule Suc.IH) (use Suc.prems h(2) in simp_all)
    then show ?thesis using h by (subst await_execution.simps) (simp add: StillRunning)
  next
    case ExecutionEnded
    then show ?thesis using Suc.prems(1) by (subst await_execution.simps) simp
  next
    case WorkerInterrupted
    then show ?thesis using Suc.prems(3) by simp
  qed
qed

text \<open>The \<open>try\<close> block reports, or ends with an error while the lease is still held.\<close>

lemma end_turn_keeps:
  assumes "respects_lease we w i" "holds_run w i db" "wr \<in> {TurnEnded, CancelRequested}"
    "\<forall>rq. we_execute we rq \<noteq> ExecutionCancelled"
  shows "\<exists>ex m db'. end_turn we w i rq wr n db = (ex, False, m, db') \<and>
    (ex = TurnDone \<and> run_settled i db' \<or> (\<exists>e. ex = TurnError e) \<and> holds_run w i db')"
proof -
  have h: "holds_run w i (we_others we n db)" using assms(1,2) by (simp add: respects_lease_def)
  show ?thesis
  proof (cases "wr = CancelRequested")
    case True
    obtain r db' where "cancel_owned_run i w (we_clk we n) (we_others we n db) = Inr (r, db')" "run_settled i db'"
      using h by (rule holds_cancel)
    then show ?thesis using True assms(2) by (cases "we_on_cancel we") (simp_all add: end_turn_def)
  next
    case False
    then have wr: "wr = TurnEnded" using assms(3) by simp
    show ?thesis
    proof (cases "we_execute we rq")
      case (Returned result)
      then show ?thesis using h report_settles
        by (cases "report_result i w result (we_fresh we) (we_clk we n) (we_others we n db)")
          (auto simp: end_turn_def wr)
    qed (use assms(2,4) in \<open>auto simp: end_turn_def wr\<close>)
  qed
qed

lemma turn_keeps:
  assumes lease: "respects_lease we w i" and h: "holds_run w i db" and fin: "we_wait we k = ExecutionEnded"
    "\<forall>j < k. we_wait we j \<noteq> WorkerInterrupted" "\<forall>rq. we_execute we rq \<noteq> ExecutionCancelled"
  shows "\<exists>ex m db'. run_turn_of we w n i db = Some (ex, False, m, db') \<and>
    (ex = TurnDone \<and> run_settled i db' \<or> (\<exists>e. ex = TurnError e) \<and> holds_run w i db')"
proof (cases "load_run_input i db")
  case (Inl e)
  then show ?thesis using h by (simp add: run_turn_of_def)
next
  case (Inr x)
  obtain r u c m hist where x: "x = (r, u, c, m, hist)" by (cases x) auto
  have r: "rn_id r = i" using Inr x by (auto simp: load_run_input_def split: option.splits dest: row_by_SomeD)
  show ?thesis
  proof (cases "run_request (we_iso we) r u c m hist")
    case (Inl e)
    then show ?thesis using h by (simp add: run_turn_of_def Inr x)
  next
    case rq: (Inr rq)
    obtain wr nx db1 where a: "await_execution we w n i 0 db = Some (wr, nx, db1)" "wr \<in> {TurnEnded, CancelRequested}"
        "holds_run w i db1"
      using await_keeps [OF lease h, of 0 k n] fin(1,2) by auto
    show ?thesis using end_turn_keeps [OF lease a(3,2) fin(3), of rq nx] by (simp add: run_turn_of_def Inr x rq r a(1))
  qed
qed

lemma failure_settles:
  assumes "respects_lease we w i" "ex = TurnDone \<and> run_settled i db \<or> (\<exists>e. ex = TurnError e) \<and> holds_run w i db"
  shows "\<exists>m db'. report_failure we w i (ex, l, n, db) = (WorkerReturns True, l, m, db') \<and> run_settled i db'"
proof (cases ex)
  case (TurnError e)
  then have "holds_run w i (we_others we n db)" using assms by (simp add: respects_lease_def)
  then obtain r db' where "fail_run i w (we_summary we e) (we_clk we n) (we_others we n db) = Inr (r, db')" "run_settled i db'"
    by (rule holds_fail)
  then show ?thesis by (simp add: report_failure_def TurnError)
qed (use assms(2) in \<open>auto simp: report_failure_def\<close>)

lemma finally_settled:
  assumes "respects_lease we w i" "run_settled i db"
  shows "\<exists>db'. worker_finally we w (ex, l, n, db) = (ex, l, db') \<and> run_settled i db'"
proof -
  have s: "run_settled i (we_others we n db)" using assms by (simp add: respects_lease_def)
  show ?thesis
  proof (cases "heartbeat_worker w None False (we_clk we n 0) (we_others we n db)")
    case (Inr db')
    then show ?thesis using s run_settled_cong [OF heartbeat_worker_runs [OF Inr]] by (simp add: worker_finally_def)
  qed (use s in \<open>simp add: worker_finally_def\<close>)
qed

text \<open>C3: A turn of the worker that claims a Run always returns and leaves that Run completed, failed or cancelled,
  with no execution left behind, whatever the execution returns or raises, whatever the report refuses and whatever
  else is committed meanwhile, if the execution ends, the worker is not interrupted and nobody takes the lease.\<close>

theorem worker_settles_run:
  assumes "claim_next_run w n (we_clk we 0) (we_busy we) (we_locked we) (we_others we 0 db) = (Some r, db1)"
    and "respects_lease we w (rn_id r)"
    and "we_wait we k = ExecutionEnded" "\<forall>j < k. we_wait we j \<noteq> WorkerInterrupted"
    and "\<forall>rq. we_execute we rq \<noteq> ExecutionCancelled"
  shows "\<exists>db'. worker_run_once we w n db = Some (WorkerReturns True, False, db') \<and> run_settled (rn_id r) db'"
proof -
  have keeps: "holds_run w (rn_id r) (we_others we j d)" if "holds_run w (rn_id r) d" for j d
    using assms(2) that by (simp add: respects_lease_def)
  note h1 = keeps [OF claim_holds [OF assms(1)], of 1]
  obtain db2 where b: "heartbeat_worker w (Some (rn_id r)) False (we_clk we 1 0) (we_others we 1 db1) = Inr db2"
    using h1 by (rule holds_heartbeat)
  have "holds_run w (rn_id r) (we_others we 2 db2)"
    by (rule keeps) (use h1 holds_run_cong [OF heartbeat_worker_runs [OF b]] in simp)
  from turn_keeps [OF assms(2) this assms(3-5), of n] obtain ex m db3 where
    t: "run_turn_of we w n (rn_id r) (we_others we 2 db2) = Some (ex, False, m, db3)"
      "ex = TurnDone \<and> run_settled (rn_id r) db3 \<or> (\<exists>e. ex = TurnError e) \<and> holds_run w (rn_id r) db3"
    by blast
  obtain m' db4 where f: "report_failure we w (rn_id r) (ex, False, m, db3) = (WorkerReturns True, False, m', db4)"
      "run_settled (rn_id r) db4"
    using failure_settles [OF assms(2) t(2)] by blast
  show ?thesis using finally_settled [OF assms(2) f(2), of "WorkerReturns True" False m']
    by (simp add: worker_run_once_def assms(1) b t(1) f(1) del: One_nat_def)
qed

definition sample_worker :: worker_env where
  "sample_worker = \<lparr>we_others = (\<lambda>_ db. db), we_clk = (\<lambda>_ _. 7), we_busy = [], we_locked = [],
     we_wait = (\<lambda>k. if k = 0 then StillRunning else ExecutionEnded),
     we_execute = (\<lambda>_. Returned \<lparr>ar_content = [72], ar_thinking = [], ar_media = [], ar_metadata = []\<rparr>),
     we_on_cancel = None, we_fresh = [8], we_iso = (\<lambda>_. []), we_summary = (\<lambda>_. [])\<rparr>"

lemma sample_claim:
  obtains r db' where "claim_next_run [119] 60 (\<lambda>_. 7) [] [] (sm_db [sm_queued]) = (Some r, db')" "rn_id r = [4]"
    "runs db' = [r]" "r = sm_running\<lparr>rn_lease_expires_at := Some (7 + seconds 60), rn_heartbeat_at := Some 7, rn_started_at := Some 7\<rparr>"
    "messages db' = [sm_input]" "conversations db' = [sm_conv]" "users db' = [sm_user]" "workers db' = []"
proof -
  have w: "workers (sm_db rs) = []" for rs by (simp add: sm_db_def empty_db_def)
  have e: "workers (log_event x ty d t db) = workers db" for x ty d t db by (simp add: append_run_event_def Let_def)
  show ?thesis
    by (rule that [of "sm_running\<lparr>rn_lease_expires_at := Some (7 + seconds 60), rn_heartbeat_at := Some 7, rn_started_at := Some 7\<rparr>"
        "snd (claim_next_run [119] 60 (\<lambda>_. 7) [] [] (sm_db [sm_queued]))"])
      (simp_all add: claim_next_run_def first_row_def conversation_running_def sm_running_def sm_queued_def Let_def frame_simps
        opt_or_def w e)
qed

theorem worker_settles_run_witness:
  "\<exists>db'. worker_run_once sample_worker [119] 60 (sm_db [sm_queued]) = Some (WorkerReturns True, False, db') \<and> run_settled [4] db'"
proof -
  obtain r db1 where c: "claim_next_run [119] 60 (\<lambda>_. 7) [] [] (sm_db [sm_queued]) = (Some r, db1)" "rn_id r = [4]"
    by (rule sample_claim)
  show ?thesis
    using worker_settles_run [of "[119]" 60 sample_worker "sm_db [sm_queued]" r db1 1] c
    by (simp add: sample_worker_def respects_lease_def)
qed

section \<open>A lease that is lost\<close>

lemma load_run_input_id: "load_run_input i db = Inr (r, u, c, m, hist) \<Longrightarrow> rn_id r = i"
  by (auto simp: load_run_input_def split: option.splits dest: row_by_SomeD)

lemma lost_fail:
  assumes "\<not> holds_run w i db"
  shows "fail_run i w err clk db =
    Inl (if row_by rn_id i (runs db) = None then StoreNotFoundError (lit ''run not found'') else not_owner)"
  using assms by (auto simp: fail_run_def holds_run_def split: option.splits)

lemma finally_runs: "worker_finally we w (ex, l, n, db) = (ex, l, db') \<Longrightarrow> runs db' = runs (we_others we n db)"
  by (auto simp: worker_finally_def Let_def heartbeat_worker_runs split: sum.splits)

text \<open>C40: When a heartbeat is refused because the lease is lost, the turn of the worker changes no Run any more, but the
  execution of the turn is not stopped: it still runs when the worker goes on to its next Run.  The turn returns as if
  it had been done; if the Run is gone, the exception ends the worker.\<close>

theorem lost_lease_leaves_turn:
  assumes "claim_next_run w n (we_clk we 0) (we_busy we) (we_locked we) (we_others we 0 db) = (Some r, db1)"
    and "heartbeat_worker w (Some (rn_id r)) False (we_clk we 1 0) (we_others we 1 db1) = Inr db2"
    and "load_run_input (rn_id r) (we_others we 2 db2) = Inr (r', u, c, m, hist)"
    and "run_request (we_iso we) r' u c m hist = Inr rq"
    and "await_execution we w n (rn_id r) 0 (we_others we 2 db2) = Some (HeartbeatFailed e, k, db3)"
    and "\<not> holds_run w (rn_id r) (we_others we k db3)"
  shows "\<exists>db'. worker_run_once we w n db =
      Some (if row_by rn_id (rn_id r) (runs (we_others we k db3)) = None
            then WorkerRaises (StoreNotFoundError (lit ''run not found'')) else WorkerReturns True, True, db') \<and>
    runs db' = runs (we_others we (Suc k) (we_others we k db3))"
proof -
  have id: "rn_id r' = rn_id r" using load_run_input_id [OF assms(3)] .
  have t: "run_turn_of we w n (rn_id r) (we_others we 2 db2) = Some (TurnError e, True, k, db3)"
    using assms(3-5) by (simp add: run_turn_of_def id end_turn_def)
  define ex where "ex = (if row_by rn_id (rn_id r) (runs (we_others we k db3)) = None
    then WorkerRaises (StoreNotFoundError (lit ''run not found'')) else WorkerReturns True)"
  have f: "report_failure we w (rn_id r) (TurnError e, True, k, db3) = (ex, True, Suc k, we_others we k db3)"
    by (simp add: report_failure_def lost_fail [OF assms(6)] not_owner_def ex_def Let_def)
  obtain db' where g: "worker_finally we w (ex, True, Suc k, we_others we k db3) = (ex, True, db')"
    by (cases "heartbeat_worker w None False (we_clk we (Suc k) 0) (we_others we (Suc k) (we_others we k db3))")
      (simp_all add: worker_finally_def Let_def)
  show ?thesis using finally_runs [OF g]
    by (simp add: worker_run_once_def assms(1,2) t f g ex_def [symmetric] del: One_nat_def)
qed

definition robbed_worker :: worker_env where
  "robbed_worker = sample_worker\<lparr>we_others := \<lambda>n db. if 3 \<le> n then sm_db [sm_queued] else db\<rparr>"

theorem lost_lease_leaves_turn_witness:
  "\<exists>db'. worker_run_once robbed_worker [119] 60 (sm_db [sm_queued]) = Some (WorkerReturns True, True, db') \<and>
     runs db' = [sm_queued]"
proof -
  obtain r db1 where c: "claim_next_run [119] 60 (\<lambda>_. 7) [] [] (sm_db [sm_queued]) = (Some r, db1)" "rn_id r = [4]"
    "runs db1 = [r]" "r = sm_running\<lparr>rn_lease_expires_at := Some (7 + seconds 60), rn_heartbeat_at := Some 7, rn_started_at := Some 7\<rparr>"
    "messages db1 = [sm_input]" "conversations db1 = [sm_conv]" "users db1 = [sm_user]" "workers db1 = []"
    by (rule sample_claim)
  obtain db2 where b: "heartbeat_worker [119] (Some (rn_id r)) False 7 db1 = Inr db2" "runs db2 = [r]"
      "messages db2 = [sm_input]" "conversations db2 = [sm_conv]" "users db2 = [sm_user]"
    by (simp add: heartbeat_worker_def c(2,3,5-8) Let_def)
  have l: "load_run_input (rn_id r) db2 = Inr (r, sm_user, sm_conv, sm_input, [])"
    by (simp add: load_run_input_def b c(2,4) sm_running_def sm_queued_def sm_user_def sm_conv_def sm_input_def)
  obtain rq where rq: "run_request (\<lambda>_. []) r sm_user sm_conv sm_input [] = Inr rq"
    by (simp add: run_request_def c(4) sm_running_def sm_queued_def sm_user_def sm_conv_def sm_input_def get_default_def
        get_or_def Let_def strip_def py_space_def)
  have q: "row_by rn_id [4] (runs (sm_db [sm_queued])) = Some sm_queued" by (simp add: sm_queued_def)
  then have f: "\<not> holds_run [119] [4] (sm_db [sm_queued])" by (simp add: holds_run_def sm_queued_def)
  have "heartbeat_run [4] [119] 60 7 (sm_db [sm_queued]) = Inl not_owner"
    using q by (simp add: heartbeat_run_def) (simp add: sm_queued_def)
  then have a: "await_execution robbed_worker [119] 60 [4] 0 db2 = Some (HeartbeatFailed not_owner, 4, sm_db [sm_queued])"
    by (subst await_execution.simps) (simp add: robbed_worker_def sample_worker_def Let_def)
  show ?thesis
    using lost_lease_leaves_turn [of "[119]" 60 robbed_worker "sm_db [sm_queued]" r db1 db2 r sm_user sm_conv sm_input "[]" rq
        not_owner 4 "sm_db [sm_queued]"] c(1,2) b(1) l rq a f q
    by (simp add: robbed_worker_def sample_worker_def)
qed

section \<open>The transcript from turn to turn\<close>

definition hydrated :: "(instant \<Rightarrow> pystr) \<Rightarrow> message_row \<Rightarrow> pydict" where
  "hydrated isoformat m = dict_update (ms_agent_metadata m)
     [(lit ''id'', JStr (ms_id m)), (lit ''seq'', JInt (ms_seq m)), (lit ''role'', JStr (role_value (ms_role m))),
      (lit ''content'', JStr (ms_content m)), (lit ''timestamp'', JStr (isoformat (ms_created_at m)))]"

lemma hydrate_row: "hydrate_item repr (transcript_item isoformat m) = Inr (hydrated isoformat m)"
  by (simp add: hydrate_item_def hydrate_message_def transcript_item_def hydrated_def get_or_def item_def get_text_def)

lemma bind_payload:
  "bind_transcript repr k (transcript_payload isoformat r c hist) None = Inr
     \<lparr>bt_session = \<lparr>sn_key = k, sn_messages = map (hydrated isoformat) hist, sn_created_at = isoformat (cv_created_at c),
        sn_updated_at = isoformat (cv_updated_at c), sn_metadata = cv_agent_metadata c,
        sn_last_consolidated = cv_last_consolidated c, sn_reserved = None\<rparr>,
      bt_initial = length hist, bt_run_id = (if rn_id r = [] then None else Some (rn_id r)), bt_saved = False\<rparr>"
proof -
  have "res_map (hydrate_item repr) (map (transcript_item isoformat) hist) = Inr (map (hydrated isoformat) hist)"
    by (induction hist) (simp_all add: hydrate_row)
  then show ?thesis
    by (simp add: bind_transcript_def transcript_payload_def get_default_def get_or_def get_text_def)
qed

lemma complete_msgs_ok:
  assumes "msgs_ok db" "complete_run i w content mid ameta cmeta lc fresh clk db = Inr ((r', Some m), db')"
  shows "msgs_ok db'"
  using assms(2)
proof (cases rule: complete_run_cases)
  case (completed r c c' m1 id db1)
  have c: "row_by cv_id (cv_id c') (conversations db) = Some c"
    using row_by_present [OF completed(6)] by (simp add: completed(7))
  have "msgs_ok db1" by (rule msgs_ok_post [OF assms(1) c completed(9,10)])
  then show ?thesis by (subst msgs_ok_cong [of _ db1]) (simp_all add: completed(12) frame_simps)
qed simp

text \<open>What completing a Run writes.\<close>

lemma complete_run_writes:
  assumes "complete_run i w content (Some t) (Some ameta) (Some cmeta) (Some lc) fresh clk db = Inr ((r', Some m), db')"
  shows "\<exists>c. messages db' = messages db @ [m] \<and> parse_uuid t = Some (ms_id m) \<and> ms_role m = RoleAssistant \<and>
    ms_content m = content \<and> ms_agent_metadata m = ameta \<and>
    row_by cv_id (ms_conversation_id m) (conversations db') = Some c \<and>
    cv_agent_metadata c = cmeta \<and> cv_last_consolidated c = max 0 lc"
proof -
  obtain r where r0: "row_by rn_id i (runs db) = Some r"
    using assms by (cases "row_by rn_id i (runs db)") (simp_all add: complete_run_def)
  have g: "rn_status r = RunRunning" "rn_lease_owner r = Some w" "rn_cancel_requested_at r = None"
    using assms by (auto simp: complete_run_def r0 Let_def split: if_splits)
  obtain c where c: "row_by cv_id (rn_conversation_id r) (conversations db) = Some c"
    using assms by (cases "row_by cv_id (rn_conversation_id r) (conversations db)") (simp_all add: complete_run_def r0 g)
  obtain mid where mid: "parse_uuid t = Some mid"
    using assms by (cases "parse_uuid t") (simp_all add: complete_run_def r0 g c)
  let ?c = "c\<lparr>cv_agent_metadata := cmeta, cv_last_consolidated := max 0 lc\<rparr>"
  obtain m1 db1 where p1: "post_message mid ?c RoleAssistant content ameta None (clk 0) (clk 1) db = Inr (m1, db1)"
    using assms by (cases "post_message mid ?c RoleAssistant content ameta None (clk 0) (clk 1) db")
      (auto simp: complete_run_def r0 g c mid Let_def)
  have m: "m1 = m" and db': "messages db' = messages (enqueue_channel_deliveries (clk 2) m db1)"
      "conversations db' = conversations (enqueue_channel_deliveries (clk 2) m db1)"
    using assms p1 by (auto simp: complete_run_def r0 g c mid Let_def frame_simps)
  note p = p1 [unfolded m] and r = c mid
  note d = post_messageD [OF p]
  have id: "cv_id c = rn_conversation_id r" using row_by_SomeD [OF r(1)] by simp
  show ?thesis
    by (intro exI [of _ "c\<lparr>cv_agent_metadata := cmeta, cv_last_consolidated := max 0 lc,
        cv_next_message_seq := cv_next_message_seq c + 1, cv_updated_at := clk 0\<rparr>"])
      (simp add: d(2) db' frame_simps r(2) row_by_put_row id r(1), simp add: d(1) id)
qed

lemma report_exported:
  assumes "export_commit repr a s = Inr commit"
    and "report_result i w (res\<lparr>ar_metadata := dict_set (lit commit_key) (JObj commit) (ar_metadata res)\<rparr>) fresh clk db =
      Inr ((r', Some m), db')"
  shows "\<exists>t. complete_run i w (ar_content res) (Some t) (Some (filter (\<lambda>(k, v). k \<notin> row_keys_cloud) a))
    (Some (sn_metadata s)) (Some (sn_last_consolidated s)) fresh clk db = Inr ((r', Some m), db')"
proof -
  obtain v where "item a ''id'' = Inr v" "commit =
      [(lit ''assistant_message_id'', JStr (py_str repr v)),
       (lit ''assistant_metadata'', JObj (filter (\<lambda>(k, v). k \<notin> row_keys_cloud) a)),
       (lit ''conversation_metadata'', JObj (sn_metadata s)), (lit ''last_consolidated'', JInt (sn_last_consolidated s))]"
    using assms(1) by (auto simp: export_commit_def split: sum.splits)
  then show ?thesis using assms(2)
    by (auto simp: report_result_def transcript_commit_def map_of_dict_set commit_text_def commit_dict_def commit_int_def
        get_default_def)
qed

text \<open>The rows of a conversation are stored in the order of their numbers.\<close>

lemma conversation_in_order:
  assumes "msgs_ok db"
  shows "sort_key ms_seq (filter (\<lambda>x. ms_conversation_id x = c \<and> P x) (messages db)) =
    filter (\<lambda>x. ms_conversation_id x = c \<and> P x) (messages db)"
proof -
  let ?f = "filter (\<lambda>x. ms_conversation_id x = c) (messages db)"
  have "sorted (map ms_seq ?f)"
  proof (cases "c \<in> cv_id ` set (conversations db)")
    case True
    then have "conv_seqs db c = upto_int (length (conv_seqs db c))" using assms by (auto simp: msgs_ok_def)
    then show ?thesis using upto_int_sorted(1) by (metis conv_seqs_def)
  next
    case False
    then have "?f = []" using assms by (auto simp: msgs_ok_def filter_empty_conv)
    then show ?thesis by simp
  qed
  then have "sorted (map ms_seq (filter P ?f))" by (rule sorted_filter)
  moreover have "filter P ?f = filter (\<lambda>x. ms_conversation_id x = c \<and> P x) (messages db)"
    by (simp add: conj_commute)
  ultimately show ?thesis by (simp add: sort_key_id_if_sorted)
qed

lemma map_of_filter_key: "P k \<Longrightarrow> map_of (filter (\<lambda>(k, v). P k) d) k = map_of d k"
  by (induction d) auto

text \<open>C4: What a turn leaves in its transcript is what the next turn of the conversation starts from, whatever is
  committed in between, submissions, claims, cancellations and completions elsewhere included, as long as no other Run
  of the conversation completes and the conversation is not deleted: the session of the next turn has the messages stored before the commit in order,
  then the new message of the assistant, then what was posted to the conversation since, all but the input of the
  new turn; every key of the assistant's message but those of the row is unchanged, and the metadata and the
  consolidation mark are those of the session.\<close>

theorem next_turn_starts_from_commit:
  assumes "run_bound repr pipe settle tk request delegated transcript None = Inr (res, a, s)"
    and "export_commit repr a s = Inr commit"
    and "report_result i w (res\<lparr>ar_metadata := dict_set (lit commit_key) (JObj commit) (ar_metadata res)\<rparr>) fresh clk db =
      Inr ((r', Some out), db1)"
    and "queue_ok db" and "msgs_ok db" and "(store_step {ms_conversation_id out})\<^sup>*\<^sup>* db1 db2"
    and "load_run_input j db2 = Inr (r2, u, c, m, hist)"
    and "rn_conversation_id r2 = ms_conversation_id out" and "ms_id m \<noteq> ms_id out"
  shows "\<exists>b more. bind_transcript repr key (transcript_payload isoformat r2 c hist) None = Inr b \<and>
    messages db2 = messages db @ out # more \<and>
    sn_messages (bt_session b) =
      map (hydrated isoformat) (filter (\<lambda>x. ms_conversation_id x = ms_conversation_id out \<and> ms_id x \<noteq> ms_id m) (messages db)) @
      [hydrated isoformat out] @
      map (hydrated isoformat) (filter (\<lambda>x. ms_conversation_id x = ms_conversation_id out \<and> ms_id x \<noteq> ms_id m) more) \<and>
    (\<forall>k. k \<notin> row_keys_cloud \<longrightarrow> map_of (hydrated isoformat out) k = map_of a k) \<and>
    get (hydrated isoformat out) ''role'' = Some (JStr (lit ''assistant'')) \<and>
    get (hydrated isoformat out) ''content'' = Some (JStr (ar_content res)) \<and>
    sn_metadata (bt_session b) = sn_metadata s \<and> sn_last_consolidated (bt_session b) = max 0 (sn_last_consolidated s)"
proof -
  let ?P = "\<lambda>x. ms_conversation_id x = ms_conversation_id out \<and> ms_id x \<noteq> ms_id m"
  obtain t where t: "complete_run i w (ar_content res) (Some t) (Some (filter (\<lambda>(k, v). k \<notin> row_keys_cloud) a))
      (Some (sn_metadata s)) (Some (sn_last_consolidated s)) fresh clk db = Inr ((r', Some out), db1)"
    using report_exported [OF assms(2,3)] by blast
  obtain c0 where w: "messages db1 = messages db @ [out]" "ms_role out = RoleAssistant" "ms_content out = ar_content res"
      "ms_agent_metadata out = filter (\<lambda>(k, v). k \<notin> row_keys_cloud) a"
      "row_by cv_id (ms_conversation_id out) (conversations db1) = Some c0"
      "cv_agent_metadata c0 = sn_metadata s" "cv_last_consolidated c0 = max 0 (sn_last_consolidated s)"
    using complete_run_writes [OF t] by blast
  note l = store_steps_keep [OF assms(6) complete_run_queue_ok [OF assms(4) t] complete_msgs_ok [OF assms(5) t]]
  obtain more where "messages db2 = messages db1 @ more" using l unfolding later_def by blast
  then have ms: "messages db2 = messages db @ out # more" using w(1) by simp
  have row: "row_by cv_id (ms_conversation_id out) (conversations db2) = Some c" and hist: "hist = sort_key ms_seq (filter ?P (messages db2))"
    using assms(7,8) by (auto simp: load_run_input_def split: option.splits)
  obtain c1 where c1: "c1 \<in> set (conversations db2)" "same_conv {ms_conversation_id out} c0 c1"
    using l row_by_SomeD [OF w(5)] unfolding later_def by blast
  then have id: "cv_id c1 = ms_conversation_id out" and meta: "cv_agent_metadata c1 = sn_metadata s"
      "cv_last_consolidated c1 = max 0 (sn_last_consolidated s)"
    using row_by_SomeD [OF w(5)] w(6,7) by (simp_all add: same_conv_def)
  have "distinct (map cv_id (conversations db2))" using l by (simp add: msgs_ok_def)
  from row_by_uniqueD [OF this row c1(1)] id have c: "c1 = c" by simp
  have ok2: "msgs_ok db2" using l by blast
  have "hist = filter ?P (messages db) @ [out] @ filter ?P more"
    unfolding hist conversation_in_order [OF ok2] using assms(9) by (simp add: ms)
  moreover have "map_of (hydrated isoformat out) k = map_of a k" if "k \<notin> row_keys_cloud" for k
    using that map_of_filter_key [of "\<lambda>k. k \<notin> row_keys_cloud" k a]
    by (simp add: hydrated_def map_of_dict_update w(4) row_keys_cloud_def)
  moreover have "get (hydrated isoformat out) ''role'' = Some (JStr (lit ''assistant''))"
    "get (hydrated isoformat out) ''content'' = Some (JStr (ar_content res))"
    by (simp_all add: hydrated_def map_of_dict_update w(2,3) role_value_def)
  ultimately show ?thesis using meta by (simp add: bind_payload ms c)
qed

text \<open>A turn that leaves the session as it is, as a command does.\<close>

definition sample_pipeline :: pipeline where
  "sample_pipeline request b = (Inr \<lparr>ar_content = [72], ar_thinking = [], ar_media = [], ar_metadata = []\<rparr>, b)"

definition sample_clock :: turn_clock where
  "sample_clock = \<lparr>tk_fresh = replicate 32 48, tk_now = [], tk_later = []\<rparr>"

definition zero_uuid :: uuid where
  "zero_uuid = uuid_text 0"

lemma parse_zero: "parse_uuid (replicate 32 48) = Some zero_uuid"
proof -
  have r: "remove_sub p (replicate n 48) = replicate n 48" if "p = lit ''uuid:'' \<or> p = lit ''urn:''" for p n
    using that by (induction n) (auto simp: lit_def)
  have d: "dropWhile P (replicate n 48) = (if P 48 then [] else replicate n (48::nat))" for P n
    by (induction n) auto
  have h: "hex_digits 0 (replicate n 48) = Some 0" for n by (induction n) (simp_all add: hex_digit_def)
  have s: "strip (replicate n 48) = replicate n 48" for n by (simp add: strip_def d py_space_def)
  have "int_base16 (replicate (Suc (Suc n)) 48) = Some 0" for n
    using h [of "Suc (Suc n)"] by (simp add: int_base16_def s [of "Suc (Suc n)", simplified] hex_number_def Let_def hex_digit_def)
  from this [of 30] have "int_base16 (replicate 32 48) = Some 0" by (simp add: numeral_eq_Suc)
  then show ?thesis by (simp add: parse_uuid_def zero_uuid_def Let_def r d filter_replicate)
qed

lemma zero_uuid_length: "length zero_uuid = 36"
proof -
  have "length (hex_text k n) = k" for k n by (induction k arbitrary: n) simp_all
  then show ?thesis by (simp add: zero_uuid_def uuid_text_def Let_def)
qed

definition sample_agent_request :: agent_request where
  "sample_agent_request = \<lparr>aq_conversation_id = [2], aq_content = [104], aq_subject_id = [1], aq_display_name = [9],
     aq_origin_kind = lit ''api'', aq_origin_name = lit ''cloud'', aq_thread_id = [4], aq_media = [], aq_metadata = []\<rparr>"

theorem next_turn_starts_from_commit_witness:
  "\<exists>res a s commit r' out db1 m r db2 r2 db3 u c m' hist b.
     run_bound (\<lambda>_. []) sample_pipeline None sample_clock sample_agent_request sample_agent_request [] None = Inr (res, a, s) \<and>
     export_commit (\<lambda>_. []) a s = Inr commit \<and>
     report_result [4] [119] (res\<lparr>ar_metadata := dict_set (lit commit_key) (JObj commit) (ar_metadata res)\<rparr>) [8] (\<lambda>_. 0)
       (sm_db [sm_running]) = Inr ((r', Some out), db1) \<and>
     append_user_message_and_run [1] [2] [105] None None [] [18] [19] (\<lambda>_. 1) db1 = Inr ((m, r), db2) \<and>
     claim_next_run [119] 60 (\<lambda>_. 7) [] [] db2 = (Some r2, db3) \<and>
     load_run_input [19] db3 = Inr (r2, u, c, m', hist) \<and>
     bind_transcript (\<lambda>_. []) [2] (transcript_payload (\<lambda>_. []) r2 c hist) None = Inr b \<and>
     sn_messages (bt_session b) = [hydrated (\<lambda>_. []) sm_input, hydrated (\<lambda>_. []) out]"
proof -
  let ?repr = "\<lambda>_::json. []::pystr"
  let ?s = "\<lparr>sn_key = aq_conversation_id sample_agent_request, sn_messages = [], sn_created_at = [], sn_updated_at = [], sn_metadata = [],
    sn_last_consolidated = 0, sn_reserved = None\<rparr>"
  let ?b = "\<lparr>bt_session = ?s, bt_initial = 0, bt_run_id = None, bt_saved = False\<rparr>"
  let ?res = "\<lparr>ar_content = [72], ar_thinking = [], ar_media = [], ar_metadata = []\<rparr>"
  have bind: "bind_transcript ?repr (aq_conversation_id sample_agent_request) [] None = Inr ?b"
    by (simp add: bind_transcript_def get_default_def get_or_def get_text_def)
  obtain a s where new: "new_assistant sample_clock ?res ?b = Inr (a, s)" "get a ''id'' = Some (JStr (replicate 32 48))"
      "sn_metadata s = []" "sn_last_consolidated s = 0"
    by (simp add: new_assistant_def add_message_def next_seq_def sample_clock_def Let_def dict_update_def)
  have run: "run_bound ?repr sample_pipeline None sample_clock sample_agent_request sample_agent_request [] None = Inr (?res, a, s)"
    by (simp add: run_bound_def bind sample_pipeline_def new)
  obtain commit where ex: "export_commit ?repr a s = Inr commit"
    by (simp add: export_commit_def item_def new(2))
  have c: "commit = [(lit ''assistant_message_id'', JStr (replicate 32 48)),
       (lit ''assistant_metadata'', JObj (filter (\<lambda>(k, v). k \<notin> row_keys_cloud) a)),
       (lit ''conversation_metadata'', JObj []), (lit ''last_consolidated'', JInt 0)]"
    using ex by (simp add: export_commit_def item_def new)
  have z: "zero_uuid \<noteq> [3]"
  proof
    assume "zero_uuid = [3]"
    from this zero_uuid_length have "length [3::nat] = 36" by (rule subst)
    then show False by simp
  qed
  let ?res' = "?res\<lparr>ar_metadata := dict_set (lit commit_key) (JObj commit) (ar_metadata ?res)\<rparr>"
  obtain r' out db1 where rep: "report_result [4] [119] ?res' [8] (\<lambda>_. 0) (sm_db [sm_running]) = Inr ((r', Some out), db1)"
      "ms_conversation_id out = [2]" "ms_id out = zero_uuid" "runs db1 = [r']" "rn_id r' = [4]" "rn_conversation_id r' = [2]"
      "rn_user_id r' = [1]" "rn_input_message_id r' = [3]" "users db1 = [sm_user]"
      "messages db1 = [sm_input, out]"
      "\<exists>c. conversations db1 = [c] \<and> cv_id c = [2] \<and> cv_user_id c = [1] \<and> cv_next_message_seq c = 3" "automations db1 = []"
      "rn_status r' = RunCompleted" "ms_seq out = 2"
    by (simp add: report_result_def transcript_commit_def c map_of_dict_set commit_text_def commit_dict_def commit_int_def
        get_default_def parse_zero complete_run_def sm_running_def sm_queued_def sm_conv_def sm_input_def post_message_def
        insert_message_def message_clash_def z Let_def frame_simps)
  obtain c0 where c0: "conversations db1 = [c0]" "cv_id c0 = [2]" "cv_user_id c0 = [1]" "cv_next_message_seq c0 = 3" using rep(11) by blast
  have z': "zero_uuid \<noteq> [18]"
  proof
    assume "zero_uuid = [18]"
    from this zero_uuid_length have "length [18::nat] = 36" by (rule subst)
    then show False by simp
  qed
  obtain m r db2 where sub: "append_user_message_and_run [1] [2] [105] None None [] [18] [19] (\<lambda>_. 1) db1 = Inr ((m, r), db2)"
    and d2: "runs db2 = [r', r]" "messages db2 = [sm_input, out, m]" "ms_id m = [18]" "ms_conversation_id m = [2]"
      "rn_id r = [19]" "rn_status r = RunQueued" "rn_conversation_id r = [2]" "rn_input_message_id r = [18]" "rn_user_id r = [1]"
      "users db2 = [sm_user]" "\<exists>c. conversations db2 = [c] \<and> cv_id c = [2]"
    using rep c0 z'
    by (simp add: append_user_message_and_run_def normal_key_def strip_def py_space_def submit_new_def owned_conversation_def
        resolve_files_def revoke_automation_def post_message_def insert_message_def message_clash_def insert_run_def
        run_clash_def queued_run_def sm_input_def frame_simps Let_def)
  obtain r2 db3 where cl: "claim_next_run [119] 60 (\<lambda>_. 7) [] [] db2 = (Some r2, db3)"
    and d3: "runs db3 = [r', r2]" "messages db3 = messages db2" "conversations db3 = conversations db2" "users db3 = users db2"
      "rn_id r2 = [19]" "rn_conversation_id r2 = [2]" "rn_input_message_id r2 = [18]" "rn_user_id r2 = [1]"
    using d2(1,5-9) rep(5,13)
    by (simp add: claim_next_run_def first_row_def conversation_running_def Let_def frame_simps)
  obtain c1 where c1: "conversations db3 = [c1]" "cv_id c1 = [2]" using d2(11) d3(3) by auto
  obtain hist where load: "load_run_input [19] db3 = Inr (r2, sm_user, c1, m, hist)"
    using d2(2-4,10) d3(1,2,4-8) c1 rep(2,3,5) z' by (simp add: load_run_input_def sm_user_def sm_input_def)
  have steps: "(store_step {ms_conversation_id out})\<^sup>*\<^sup>* db1 db3"
    using st_submit [OF sub] st_claim [OF cl] by (meson converse_rtranclp_into_rtranclp r_into_rtranclp)
  have "ms_id m \<noteq> ms_id out" using z' rep(3) d2(3) by simp
  from next_turn_starts_from_commit [OF run ex rep(1) _ sm_msgs_ok steps load _ this, of "[2]" "\<lambda>_. []"]
  obtain b more where b: "bind_transcript ?repr [2] (transcript_payload (\<lambda>_. []) r2 c1 hist) None = Inr b"
      "messages db3 = messages (sm_db [sm_running]) @ out # more"
      "sn_messages (bt_session b) =
      map (hydrated (\<lambda>_. [])) (filter (\<lambda>x. ms_conversation_id x = ms_conversation_id out \<and> ms_id x \<noteq> ms_id m)
        (messages (sm_db [sm_running]))) @ [hydrated (\<lambda>_. []) out] @
      map (hydrated (\<lambda>_. [])) (filter (\<lambda>x. ms_conversation_id x = ms_conversation_id out \<and> ms_id x \<noteq> ms_id m) more)"
    using rep(2) d3(6) by auto
  have "more = [m]" using b(2) d3(2) d2(2) by simp
  then have "sn_messages (bt_session b) = [hydrated (\<lambda>_. []) sm_input, hydrated (\<lambda>_. []) out]"
    using b(3) rep(2) d2(3) by (simp add: sm_input_def)
  then show ?thesis using run ex rep(1) sub cl load b(1) by blast
qed

end
