(* ===== verification/TurnRetry.thy ===== *)
theory TurnRetry
  imports ReactLoop
begin

text \<open>
  \<open>DefaultReasoner.run_turn\<close> of \<open>src/agent/core/runtime.py\<close>: the reasoning loop is tried with shorter and shorter
  prompts, \<open>src/agent/prompting/budget.py\<close>, until it does not overflow.  The rendering of a prompt, with the events
  and the plugin modules before it, is a parameter.
\<close>

section \<open>The plans\<close>

record prompt_plan =
  pn_name :: pystr
  pn_disabled :: "pystr list"
  pn_window :: nat

definition trim_plans :: "(pystr \<times> pystr list) list" where
  "trim_plans =
     [(lit ''full'', []),
      (lit ''trim_skills_catalog'', [lit ''skills_catalog'']),
      (lit ''trim_recent_context'', [lit ''skills_catalog'', lit ''recent_context'']),
      (lit ''trim_long_term_memory'', [lit ''skills_catalog'', lit ''recent_context'', lit ''long_term_memory'']),
      (lit ''trim_retrieved_memory'',
        [lit ''skills_catalog'', lit ''recent_context'', lit ''long_term_memory'', lit ''retrieved_memory''])]"

definition plan_key :: "prompt_plan \<Rightarrow> pystr list \<times> nat" where
  "plan_key p = (sort (remdups (pn_disabled p)), pn_window p)"

text \<open>A plan is added unless one with its sections and window is there.\<close>

definition add_plan :: "prompt_plan \<Rightarrow> prompt_plan list \<Rightarrow> prompt_plan list" where
  "add_plan p ps = (if plan_key p \<in> plan_key ` set ps then ps else ps @ [p])"

text \<open>\<open>int (total * 0.5)\<close> is the half, rounded down.\<close>

definition build_attempt_plans :: "nat \<Rightarrow> prompt_plan list" where
  "build_attempt_plans len =
     (let full = fold (\<lambda>(n, d). add_plan \<lparr>pn_name = n, pn_disabled = d, pn_window = len\<rparr>) trim_plans [];
          final = snd (last trim_plans)
      in fold (\<lambda>(percent, window). add_plan
             \<lparr>pn_name = lit ''trim_retrieved_memory_history_'' @ nat_text percent, pn_disabled = final, pn_window = window\<rparr>)
           [(50, len div 2), (0, 0)] full)"

definition slice_history :: "pydict list \<Rightarrow> nat \<Rightarrow> pydict list" where
  "slice_history history window =
     (if window = 0 then []
      else dropWhile (\<lambda>m. get m ''role'' \<noteq> Some (JStr (lit ''user''))) (drop (length history - window) history))"

definition deferred_tools_hint :: "(pystr \<Rightarrow> bool) \<Rightarrow> pystr list \<Rightarrow> pystr list \<Rightarrow> pystr" where
  "deferred_tools_hint deferred names unlocked =
     (let ns = filter (\<lambda>n. deferred n \<and> n \<notin> set unlocked) names
      in if ns = [] then []
         else [12304, 26410, 21152, 36733, 24037, 20855, 30446, 24405, 65288, 30693, 36947, 21517, 23383, 20294] @ lit '' schema '' @ [26410, 26292, 38706, 65289, 12305] @ [10] @ py_join (lit '', '') ns @ [10] @
           [21152, 36733, 26041, 24335, 65306, 24050, 30693, 21517, 23383, 26102, 35843, 29992] @ lit '' tool_search(query='' @ [34] @ lit ''select:'' @ [24037, 20855, 21517] @ [34] @
           lit '')'' @ [65307, 25353, 33021, 21147, 26597, 25214, 26102, 35843, 29992] @ lit '' tool_search(query='' @ [34] @ [20851, 38190, 35789] @ [34] @ lit '')'' @ [12290])"

section \<open>The attempts\<close>

record rendered_prompt =
  rd_messages :: "pydict list"
  rd_disabled :: "pystr list"
  rd_sections :: "json list"

record attempt_trace =
  ap_name :: pystr
  ap_window :: nat
  ap_history :: nat
  ap_disabled :: "pystr list"
  ap_tokens :: int
  ap_budget :: int
  ap_sections :: "json list"
  ap_error :: "pystr option"

record turn_reply =
  ty_result :: reasoner_result
  ty_attempts :: "attempt_trace list"
  ty_selected :: "pystr option"
  ty_trimmed :: "pystr list"

definition plain_reply :: "pystr \<Rightarrow> reasoner_result" where
  "plain_reply t = \<lparr>rr_reply = t, rr_tools_used = [], rr_tool_chain = [], rr_thinking = [], rr_stats = None,
     rr_attention = None, rr_compaction = None\<rparr>"

text \<open>The errors that shorten the prompt, and what is said when nothing is left to shorten.\<close>

fun overflow_name :: "run_error \<Rightarrow> pystr option" where
  "overflow_name ContextLengthError = Some (lit ''ContextLengthError'')"
| "overflow_name ContentSafetyError = Some (lit ''ContentSafetyError'')"
| "overflow_name e = None"

definition overflow_reply :: "run_error \<Rightarrow> pystr" where
  "overflow_reply e =
     (if e = ContextLengthError then [19978, 19979, 25991, 36807, 38271, 65292, 24050, 23581, 35797, 20998, 32423, 31934, 31616, 20294, 20173, 26080, 27861, 22788, 29702, 65307, 35831, 26032, 24314, 20250, 35805, 25110, 32553, 23567, 35831, 27714, 12290]
      else [24403, 21069, 19978, 19979, 25991, 35302, 21457, 20102, 20869, 23481, 23433, 20840, 38480, 21046, 65292, 26080, 27861, 32487, 32493, 22788, 29702, 12290])"

definition no_plan_reply :: pystr where
  "no_plan_reply = [19978, 19979, 25991, 20934, 22791, 22833, 36133, 12290]"

definition attempt_budget :: "react_config \<Rightarrow> int res" where
  "attempt_budget cfg =
     (if rg_window cfg = 0 then Inr 0
      else input_budget (rg_percent_ok cfg) (rg_effective cfg) (rg_window cfg) (rg_max_tokens cfg))"

type_synonym 's rendering = "prompt_plan \<Rightarrow> pydict list \<Rightarrow> 's \<Rightarrow> (run_error + rendered_prompt) \<times> 's"

definition trace_of :: "'s react_env \<Rightarrow> tool_spec list \<Rightarrow> prompt_plan \<Rightarrow> pydict list \<Rightarrow> rendered_prompt \<Rightarrow> int \<Rightarrow> attempt_trace" where
  "trace_of env specs p h rd budget =
     \<lparr>ap_name = pn_name p, ap_window = pn_window p, ap_history = length h,
      ap_disabled = sort (remdups (rd_disabled rd)), ap_tokens = estimate_context_tokens (re_repr env) (rd_messages rd) specs,
      ap_budget = budget, ap_sections = rd_sections rd, ap_error = None\<rparr>"

text \<open>\<open>render\<close> is everything an attempt does before its loop with code that is not the reasoner's: the prompt phase with
  its plugins, the context builder and the handlers of the event \<open>ContextPrepared\<close>.  \<open>None\<close>: the loop of an attempt does not
  end.\<close>

fun run_attempts ::
  "'s react_env \<Rightarrow> react_config \<Rightarrow> 's rendering \<Rightarrow> tool_spec list \<Rightarrow> pydict list \<Rightarrow> prompt_plan list \<Rightarrow>
   attempt_trace list \<Rightarrow> 's \<Rightarrow> ((run_error + turn_reply) \<times> 's) option" where
  "run_attempts env cfg render specs history [] tr s =
     Some (Inr \<lparr>ty_result = plain_reply no_plan_reply, ty_attempts = tr, ty_selected = None, ty_trimmed = []\<rparr>, s)"
| "run_attempts env cfg render specs history (p # ps) tr s =
     (let h = slice_history history (pn_window p) in
      case render p h s of
        (Inl e, s1) \<Rightarrow> Some (Inl e, s1)
      | (Inr rd, s1) \<Rightarrow>
          (case attempt_budget cfg of
             Inl e \<Rightarrow> Some (Inl (PyError e), s1)
           | Inr budget \<Rightarrow>
               (let at = trace_of env specs p h rd budget; trimmed = sort (remdups (rd_disabled rd)) in
                case react_run env cfg (rd_messages rd) s1 of
                  None \<Rightarrow> None
                | Some (Inr r, s2) \<Rightarrow>
                    Some (Inr \<lparr>ty_result = r, ty_attempts = tr @ [at], ty_selected = Some (pn_name p), ty_trimmed = trimmed\<rparr>, s2)
                | Some (Inl e, s2) \<Rightarrow>
                    (case overflow_name e of
                       None \<Rightarrow> Some (Inl e, s2)
                     | Some n \<Rightarrow>
                         if ps \<noteq> []
                         then run_attempts env cfg render specs history ps (tr @ [at\<lparr>ap_error := Some n\<rparr>]) s2
                         else Some (Inr \<lparr>ty_result = plain_reply (overflow_reply e),
                                 ty_attempts = tr @ [at\<lparr>ap_error := Some n\<rparr>], ty_selected = Some (pn_name p),
                                 ty_trimmed = trimmed\<rparr>, s2)))))"

definition run_turn ::
  "'s react_env \<Rightarrow> react_config \<Rightarrow> 's rendering \<Rightarrow> pydict list \<Rightarrow> 's \<Rightarrow> ((run_error + turn_reply) \<times> 's) option" where
  "run_turn env cfg render history s =
     run_attempts env cfg render (visible_specs env (re_lru env s)) history (build_attempt_plans (length history)) [] s"

end
