(* ===== verification/ModelUsage.thy ===== *)
theory ModelUsage
  imports TurnRetry SessionHistory
begin

text \<open>
  The accounting of model requests, \<open>src/agent/model_runtime/usage.py\<close>, the statistics of a run made from it
  and the trace of a turn that carries them, \<open>src/agent/core/runtime.py\<close>.
\<close>

section \<open>The usage of a request\<close>

datatype usage_coverage = UExact | UPartial | UUnavailable

fun coverage_text :: "usage_coverage \<Rightarrow> pystr" where
  "coverage_text UExact = lit ''exact''"
| "coverage_text UPartial = lit ''partial''"
| "coverage_text UUnavailable = lit ''unavailable''"

record model_usage =
  us_input :: "int option"
  us_cached :: "int option"
  us_output :: "int option"
  us_reasoning :: "int option"
  us_requests :: int
  us_covered :: int
  us_coverage :: usage_coverage

definition no_usage :: model_usage where
  "no_usage = \<lparr>us_input = None, us_cached = None, us_output = None, us_reasoning = None, us_requests = 0,
     us_covered = 0, us_coverage = UUnavailable\<rparr>"

definition optional_json :: "int option \<Rightarrow> json" where
  "optional_json v = (case v of None \<Rightarrow> JNull | Some i \<Rightarrow> JInt i)"

definition usage_dict :: "model_usage \<Rightarrow> pydict" where
  "usage_dict u =
     [(lit ''input_tokens'', optional_json (us_input u)), (lit ''cached_input_tokens'', optional_json (us_cached u)),
      (lit ''output_tokens'', optional_json (us_output u)),
      (lit ''reasoning_output_tokens'', optional_json (us_reasoning u)),
      (lit ''request_count'', JInt (us_requests u)), (lit ''covered_request_count'', JInt (us_covered u)),
      (lit ''coverage'', JStr (coverage_text (us_coverage u)))]"

definition mapping_of :: "json \<Rightarrow> pydict" where
  "mapping_of v = (case v of JObj d \<Rightarrow> d | _ \<Rightarrow> [])"

text \<open>\<open>int(v)\<close> of what is not a truth value, if it is a natural number.\<close>

definition optional_int :: "json \<Rightarrow> int option" where
  "optional_int v =
     (case v of JNull \<Rightarrow> None | JBool b \<Rightarrow> None
      | _ \<Rightarrow> (case py_int v of Inl e \<Rightarrow> None | Inr i \<Rightarrow> if 0 \<le> i then Some i else None))"

text \<open>\<open>d.get(k, d.get(l))\<close>.\<close>

definition get_either :: "pydict \<Rightarrow> string \<Rightarrow> string \<Rightarrow> json" where
  "get_either d k l = get_default d k (get_default d l JNull)"

definition usage_from_mapping :: "pydict \<Rightarrow> model_usage" where
  "usage_from_mapping d =
     (let input = optional_int (get_either d ''prompt_tokens'' ''input_tokens'');
          output = optional_int (get_either d ''completion_tokens'' ''output_tokens'');
          prompt_details = mapping_of (get_default d ''prompt_tokens_details'' JNull);
          output_details = mapping_of (get_either d ''completion_tokens_details'' ''output_tokens_details'');
          cached = (case optional_int (get_default prompt_details ''cached_tokens'' JNull) of
                      Some i \<Rightarrow> Some i
                    | None \<Rightarrow> optional_int (get_either d ''prompt_cache_hit_tokens'' ''cached_input_tokens''));
          reasoning = optional_int (get_default output_details ''reasoning_tokens''
                        (get_default d ''reasoning_output_tokens'' JNull));
          exact = (input \<noteq> None \<and> output \<noteq> None)
      in \<lparr>us_input = input, us_cached = cached, us_output = output, us_reasoning = reasoning, us_requests = 1,
          us_covered = (if exact then 1 else 0),
          us_coverage = (if exact then UExact
            else if input \<noteq> None \<or> cached \<noteq> None \<or> output \<noteq> None \<or> reasoning \<noteq> None then UPartial
            else UUnavailable)\<rparr>)"

section \<open>Sums of usages\<close>

definition known_total :: "int option list \<Rightarrow> int option" where
  "known_total vs = (let known = List.map_filter id vs in if known = [] then None else Some (sum_list known))"

definition aggregate_usage :: "model_usage list \<Rightarrow> model_usage" where
  "aggregate_usage us =
     (if us = [] then no_usage
      else
        (let requests = sum_list (map us_requests us); covered = sum_list (map us_covered us)
         in \<lparr>us_input = known_total (map us_input us), us_cached = known_total (map us_cached us),
             us_output = known_total (map us_output us), us_reasoning = known_total (map us_reasoning us),
             us_requests = requests, us_covered = covered,
             us_coverage = (if list_all (\<lambda>u. us_coverage u = UUnavailable) us then UUnavailable
               else if covered = requests \<and> list_all (\<lambda>u. us_coverage u = UExact) us then UExact
               else UPartial)\<rparr>))"

section \<open>The trace of a turn\<close>

definition react_stats :: "int list \<Rightarrow> pydict list \<Rightarrow> pydict" where
  "react_stats samples usages =
     (let totals = aggregate_usage (map usage_from_mapping usages)
      in [(lit ''iteration_count'', JInt (int (length samples))),
          (lit ''input_token_estimates'', JArr (map JInt samples)),
          (lit ''max_input_tokens_estimate'', JInt (case samples of [] \<Rightarrow> 0 | x # xs \<Rightarrow> fold max xs x)),
          (lit ''model_usage'', JObj (usage_dict totals)), (lit ''request_count'', JInt (us_requests totals))])"

definition attempt_dict :: "attempt_trace \<Rightarrow> pydict" where
  "attempt_dict a =
     [(lit ''name'', JStr (ap_name a)), (lit ''history_window'', JInt (int (ap_window a))),
      (lit ''history_messages'', JInt (int (ap_history a))), (lit ''disabled_sections'', JArr (map JStr (ap_disabled a))),
      (lit ''estimated_tokens'', JInt (ap_tokens a)), (lit ''estimate_quality'', JStr (lit ''approximate'')),
      (lit ''input_budget'', JInt (ap_budget a)), (lit ''sections'', JArr (ap_sections a))] @
     (case ap_error a of None \<Rightarrow> [] | Some e \<Rightarrow> [(lit ''error'', JStr e)])"

text \<open>The trace has statistics when the last attempt did not overflow.\<close>

definition context_trace :: "turn_reply \<Rightarrow> pydict" where
  "context_trace t =
     [(lit ''attempts'', JArr (map (JObj \<circ> attempt_dict) (ty_attempts t))),
      (lit ''selected_plan'', (case ty_selected t of None \<Rightarrow> JNull | Some n \<Rightarrow> JStr n))] @
     (if ty_selected t = None then [] else [(lit ''trimmed_sections'', JArr (map JStr (ty_trimmed t)))]) @
     (if ty_attempts t \<noteq> [] \<and> ap_error (last (ty_attempts t)) = None
      then [(lit ''react_stats'',
             JObj (case rr_stats (ty_result t) of None \<Rightarrow> [] | Some (samples, usages) \<Rightarrow> react_stats samples usages))]
      else [])"

section \<open>Parts of a sum\<close>

lemma known_total_none: "known_total vs = None \<longleftrightarrow> list_all (\<lambda>v. v = None) vs"
  by (induction vs) (auto simp: known_total_def map_filter_def split: option.splits)

lemma known_total_append:
  "known_total (xs @ ys) = known_total [known_total xs, known_total ys]"
  by (simp add: known_total_def map_filter_def Let_def)

text \<open>Totals of batches that are not empty are added like the requests themselves.\<close>

lemma aggregate_batches:
  assumes "xs \<noteq> []" "ys \<noteq> []"
    "list_all (\<lambda>u. us_covered u \<le> us_requests u) (xs @ ys)"
  shows "aggregate_usage (xs @ ys) = aggregate_usage [aggregate_usage xs, aggregate_usage ys]"
proof -
  have "sum_list (map us_covered zs) \<le> sum_list (map us_requests zs)" if "list_all (\<lambda>u. us_covered u \<le> us_requests u) zs" for zs
    using that by (induction zs) auto
  from this [of xs] this [of ys] have
    "sum_list (map us_covered xs) \<le> sum_list (map us_requests xs)" "sum_list (map us_covered ys) \<le> sum_list (map us_requests ys)"
    using assms(3) by simp_all
  moreover have "\<not> list_all (\<lambda>u. us_coverage u = UExact) zs" if "zs \<noteq> []" "list_all (\<lambda>u. us_coverage u = UUnavailable) zs" for zs
    using that by (cases zs) auto
  ultimately show ?thesis using assms known_total_append by (auto simp: aggregate_usage_def Let_def)
qed

end
