(* ===== verification/TurnPipeline.thy ===== *)
theory TurnPipeline
  imports ModelUsage SessionCommit
begin

text \<open>
  \<open>PassiveTurnPipeline\<close> of \<open>src/agent/core/runtime.py\<close>: one turn from the message that comes in to the reply that
  goes out.  Event handlers, plugin modules, memory, skills and tools act on a state \<open>'s\<close>; the transcript
  store is reached through its port on a state \<open>'d\<close>.  \<open>WorkerGone\<close> is the \<open>CancelledError\<close> that may come out of every
  \<open>await\<close>.  What other tasks do to the session object while the turn waits is not modelled.
\<close>

section \<open>Messages\<close>

record inbound =
  ib_channel :: pystr
  ib_sender :: pystr
  ib_chat_id :: pystr
  ib_content :: pystr
  ib_timestamp :: pystr
  ib_media :: "json list"
  ib_metadata :: pydict

text \<open>The timestamp is kept as its \<open>isoformat\<close>.  The attachments of a message that is stored here are texts.\<close>

definition session_key_of :: "(json \<Rightarrow> pystr) \<Rightarrow> inbound \<Rightarrow> pystr" where
  "session_key_of repr m =
     (let override = strip (get_text repr (ib_metadata m) ''session_key_override'')
      in if override \<noteq> [] then override else ib_channel m @ lit '':'' @ ib_chat_id m)"

definition context_channel :: "(json \<Rightarrow> pystr) \<Rightarrow> inbound \<Rightarrow> pystr" where
  "context_channel repr m = strip (py_str repr (get_or (ib_metadata m) ''context_channel'' (JStr (ib_channel m))))"

definition context_chat_id :: "(json \<Rightarrow> pystr) \<Rightarrow> inbound \<Rightarrow> pystr" where
  "context_chat_id repr m = strip (py_str repr (get_or (ib_metadata m) ''context_chat_id'' (JStr (ib_chat_id m))))"

record outbound =
  ob_channel :: pystr
  ob_chat_id :: pystr
  ob_content :: pystr
  ob_thinking :: pystr
  ob_reply_to :: pystr
  ob_media :: "pystr list"
  ob_metadata :: pydict
  ob_message_id :: "pystr option"
  ob_turn_id :: "pystr option"

definition new_outbound :: "pystr \<Rightarrow> pystr \<Rightarrow> pystr \<Rightarrow> pydict \<Rightarrow> outbound" where
  "new_outbound channel chat_id content md =
     \<lparr>ob_channel = channel, ob_chat_id = chat_id, ob_content = content, ob_thinking = [], ob_reply_to = [],
      ob_media = [], ob_metadata = md, ob_message_id = None, ob_turn_id = None\<rparr>"

section \<open>The contexts of the phases\<close>

record before_turn =
  bf_content :: pystr
  bf_memory :: pystr
  bf_history :: "pydict list"
  bf_skills :: "pystr list"
  bf_abort :: bool
  bf_abort_reply :: pystr
  bf_hints :: "pystr list"
  bf_extra :: pydict

record before_reasoning =
  br_content :: pystr
  br_skills :: "pystr list"
  br_memory :: pystr
  br_hints :: "pystr list"
  br_abort :: bool
  br_abort_reply :: pystr

record after_reasoning =
  ar_tools_used :: "pystr list"
  ar_thought :: pystr
  ar_tool_chain :: "json list"
  ar_reply :: pystr
  ar_files :: "pystr list"
  ar_outbound_metadata :: pydict

record tool_context =
  tc_session_key :: pystr
  tc_channel :: pystr
  tc_chat_id :: pystr
  tc_principal_id :: pystr
  tc_timestamp :: pystr

datatype turn_status = TurnSuccess | TurnFailed pystr | TurnInterrupted

datatype turn_event =
    TurnStarted pystr
  | ContextBudgetUpdated pystr pydict
  | TurnCommitted pystr pystr "pystr list" pydict
  | AfterTurn pystr pystr pydict
  | TurnFinished pystr turn_status "outbound option" bool

text \<open>A handler or a module gets a context and gives the one the next of them gets: the one it returned, or the
  same one with what it changed in it.\<close>

type_synonym ('c, 's) handler = "'c \<Rightarrow> 's \<Rightarrow> (run_error + 'c) \<times> 's"

fun run_handlers :: "('c, 's) handler list \<Rightarrow> 'c \<Rightarrow> 's \<Rightarrow> (run_error + 'c) \<times> 's" where
  "run_handlers [] c s = (Inr c, s)"
| "run_handlers (h # hs) c s = (case h c s of (Inl e, s') \<Rightarrow> (Inl e, s') | (Inr c', s') \<Rightarrow> run_handlers hs c' s')"

text \<open>The handlers of the event bus, the modules of the process and those of the leased snapshot.\<close>

record ('c, 's) phase =
  ph_handlers :: "('c, 's) handler list"
  ph_modules :: "('c, 's) handler list"
  ph_leased :: "('c, 's) handler list"

definition run_modules :: "('c, 's) phase \<Rightarrow> ('c, 's) handler" where
  "run_modules p = run_handlers (ph_modules p @ ph_leased p)"

definition run_phase :: "('c, 's) phase \<Rightarrow> ('c, 's) handler" where
  "run_phase p c s =
     (case run_handlers (ph_handlers p) c s of (Inl e, s') \<Rightarrow> (Inl e, s') | (Inr c', s') \<Rightarrow> run_modules p c' s')"

section \<open>What the pipeline is built from\<close>

text \<open>The port of a transcript store; saving may change the session object and fail.\<close>

record 'd transcript_port =
  po_open :: "pystr \<Rightarrow> 'd \<Rightarrow> session res \<times> 'd"
  po_save :: "session \<Rightarrow> 'd \<Rightarrow> unit res \<times> session \<times> 'd"
  po_keep :: "session \<Rightarrow> 'd \<Rightarrow> 'd"

text \<open>\<open>po_keep\<close>: the store that hands out the object sees what the turn changes in it.\<close>

record engine_result =
  en_block :: pystr
  en_engine :: json
  en_records :: nat

type_synonym 's engine_query = "pystr \<Rightarrow> inbound \<Rightarrow> 's \<Rightarrow> (run_error + engine_result) \<times> 's"
type_synonym 's lexical_query = "inbound \<Rightarrow> pydict list \<Rightarrow> pydict \<Rightarrow> 's \<Rightarrow> (run_error + (pystr \<times> pydict option) option) \<times> 's"

datatype 's retrieval = Engine "'s engine_query" | Lexical "'s lexical_query"

text \<open>A lease around the turn: how it is taken and how it is given back.\<close>

type_synonym 's lease = "('s \<Rightarrow> run_error option \<times> 's) \<times> ('s \<Rightarrow> run_error option \<times> 's)"

text \<open>The maintenance of the memory files: waiting for the last archiving of the session, and archiving now.\<close>

type_synonym 's maintenance =
  "(session \<Rightarrow> 's \<Rightarrow> (run_error + session) \<times> 's) \<times> (session \<Rightarrow> 's \<Rightarrow> run_error option \<times> session \<times> 's)"

record 's pipe_env =
  pe_repr :: "json \<Rightarrow> pystr"
  pe_error :: "run_error \<Rightarrow> pystr"
  pe_window :: int
  pe_fresh :: "'s \<Rightarrow> nat \<Rightarrow> pystr"
  pe_clock :: "'s \<Rightarrow> nat \<Rightarrow> pystr"
  pe_observe :: "turn_event \<Rightarrow> 's \<Rightarrow> bool \<times> 's"
  pe_before_turn :: "(before_turn, 's) phase"
  pe_before_reasoning :: "(before_reasoning, 's) phase"
  pe_after_reasoning :: "(after_reasoning, 's) phase"
  pe_after_turn :: "(turn_event, 's) phase"
  pe_skill_names :: "'s \<Rightarrow> pystr list"
  pe_tools_text :: "'s \<Rightarrow> (run_error + pystr) \<times> 's"
  pe_skills_text :: "'s \<Rightarrow> (run_error + pystr) \<times> 's"
  pe_memory_text :: "'s \<Rightarrow> (run_error + pystr) \<times> 's"
  pe_maintenance :: "'s maintenance option"
  pe_retrieval :: "'s retrieval"
  pe_react :: "tool_context \<Rightarrow> 's react_env"
  pe_config :: react_config
  pe_rendering :: "inbound \<Rightarrow> before_reasoning \<Rightarrow> 's rendering"
  pe_generation :: "'s lease option"
  pe_snapshot :: "'s lease option"

text \<open>What the turn has done so far, in order.\<close>

datatype pipe_action = Observed turn_event | Archived | Reasoned "pydict list" | SavedSession session | Published outbound

record ('d, 's) pipe_world =
  pw_store :: 'd
  pw_session :: "session option"
  pw_state :: 's
  pw_context :: "tool_context option"
  pw_log :: "pipe_action list"

definition act :: "pipe_action \<Rightarrow> ('d, 's) pipe_world \<Rightarrow> ('d, 's) pipe_world" where
  "act a w = w\<lparr>pw_log := pw_log w @ [a]\<rparr>"

section \<open>Steps of a turn\<close>

text \<open>A step may raise, and it may not return, which is \<open>None\<close>.\<close>

type_synonym ('a, 'w) step = "'w \<Rightarrow> ((run_error + 'a) \<times> 'w) option"

definition andthen :: "('a, 'w) step \<Rightarrow> ('a \<Rightarrow> ('b, 'w) step) \<Rightarrow> ('b, 'w) step" where
  "andthen f g w =
     (case f w of None \<Rightarrow> None | Some (Inl e, w') \<Rightarrow> Some (Inl e, w') | Some (Inr x, w') \<Rightarrow> g x w')"

definition give :: "'a \<Rightarrow> ('a, 'w) step" where
  "give x w = Some (Inr x, w)"

definition refuse :: "run_error \<Rightarrow> ('a, 'w) step" where
  "refuse e w = Some (Inl e, w)"

definition value_of :: "'a res \<Rightarrow> ('a, 'w) step" where
  "value_of r w = Some (case r of Inl e \<Rightarrow> Inl (PyError e) | Inr x \<Rightarrow> Inr x, w)"

definition doing :: "pipe_action \<Rightarrow> (unit, ('d, 's) pipe_world) step" where
  "doing a w = Some (Inr (), act a w)"

definition asking :: "('s \<Rightarrow> (run_error + 'a) \<times> 's) \<Rightarrow> ('a, ('d, 's) pipe_world) step" where
  "asking f w = (case f (pw_state w) of (r, s) \<Rightarrow> Some (r, w\<lparr>pw_state := s\<rparr>))"

text \<open>\<open>fanout\<close>: the exceptions of observers are logged, only a cancellation comes through.\<close>

definition observe :: "'s pipe_env \<Rightarrow> turn_event \<Rightarrow> (unit, ('d, 's) pipe_world) step" where
  "observe env ev w =
     (case pe_observe env ev (pw_state w) of
        (cancelled, s) \<Rightarrow> Some (if cancelled then Inl WorkerGone else Inr (), (act (Observed ev) w)\<lparr>pw_state := s\<rparr>))"

text \<open>What a turn is worth that may end early.\<close>

datatype 'a progress = TurnStops outbound | TurnGoes 'a

definition correlation :: "(json \<Rightarrow> pystr) \<Rightarrow> inbound \<Rightarrow> pystr" where
  "correlation repr m = strip (get_text repr (ib_metadata m) ''client_request_id'')"

definition dispatch_if_needed ::
  "'s pipe_env \<Rightarrow> inbound \<Rightarrow> bool \<Rightarrow> pystr \<Rightarrow> (outbound, ('d, 's) pipe_world) step" where
  "dispatch_if_needed env m dispatch content w =
     (let c = correlation (pe_repr env) m;
          ob = new_outbound (ib_channel m) (ib_chat_id m) content (if c = [] then [] else [(lit ''client_request_id'', JStr c)])
      in Some (Inr ob, if dispatch then act (Published ob) w else w))"

definition stop_with :: "'s pipe_env \<Rightarrow> inbound \<Rightarrow> bool \<Rightarrow> pystr \<Rightarrow> ('a progress, ('d, 's) pipe_world) step" where
  "stop_with env m dispatch content = andthen (dispatch_if_needed env m dispatch content) (\<lambda>ob. give (TurnStops ob))"

section \<open>Skills and commands\<close>

definition mention_char :: "nat \<Rightarrow> bool" where
  "mention_char c \<longleftrightarrow> 97 \<le> c \<and> c \<le> 122 \<or> 65 \<le> c \<and> c \<le> 90 \<or> 48 \<le> c \<and> c \<le> 57 \<or> c = 95 \<or> c = 58 \<or> c = 45"

function mentions :: "pystr \<Rightarrow> pystr list" where
  "mentions [] = []"
| "mentions (c # cs) =
     (if c = 36 \<and> takeWhile mention_char cs \<noteq> []
      then takeWhile mention_char cs # mentions (dropWhile mention_char cs)
      else mentions cs)"
  by pat_completeness auto
termination by (relation "measure length") (auto intro: le_imp_less_Suc length_dropWhile_le)

definition collect_skill_mentions :: "pystr list \<Rightarrow> pystr \<Rightarrow> pystr list" where
  "collect_skill_mentions names content =
     foldl (\<lambda>found n. if n \<in> set names \<and> n \<notin> set found then found @ [n] else found) [] (mentions content)"

text \<open>\<open>lower\<close> as far as it can give one of the commands: the Kelvin sign becomes a \<open>k\<close>.\<close>

definition command_lower :: "pystr \<Rightarrow> pystr" where
  "command_lower s = ascii_lower (map (\<lambda>c. if c = 8490 then 107 else c) s)"

definition core_command :: "'s pipe_env \<Rightarrow> pystr \<Rightarrow> (pystr option, ('d, 's) pipe_world) step" where
  "core_command env content =
     (let command = command_lower (strip content) in
      if command = lit ''/tools'' then andthen (asking (pe_tools_text env)) (\<lambda>t. give (Some t))
      else if command = lit ''/skills'' then andthen (asking (pe_skills_text env)) (\<lambda>t. give (Some t))
      else if command = lit ''/memory'' then andthen (asking (pe_memory_text env)) (\<lambda>t. give (Some t))
      else give None)"

definition disabled_tools :: "(json \<Rightarrow> pystr) \<Rightarrow> inbound \<Rightarrow> pystr list" where
  "disabled_tools repr m =
     (case get (ib_metadata m) ''disabled_tools'' of
        Some (JStr t) \<Rightarrow> if t = [] then [] else [t]
      | Some (JArr xs) \<Rightarrow> filter (\<lambda>t. t \<noteq> []) (map (py_str repr) xs)
      | _ \<Rightarrow> [])"

text \<open>\<open>content.lstrip().startswith("/")\<close>.\<close>

definition is_command :: "pystr \<Rightarrow> bool" where
  "is_command content \<longleftrightarrow> take 1 (dropWhile py_space content) = lit ''/''"

definition new_before_turn :: "inbound \<Rightarrow> pystr \<Rightarrow> pydict list \<Rightarrow> pystr list \<Rightarrow> before_turn" where
  "new_before_turn m retrieved history skills =
     \<lparr>bf_content = ib_content m, bf_memory = retrieved, bf_history = history, bf_skills = skills, bf_abort = False,
      bf_abort_reply = [], bf_hints = [], bf_extra = []\<rparr>"

text \<open>The modules before a turn, and what they add to the metadata of the turn.\<close>

definition before_turn_phase ::
  "'s pipe_env \<Rightarrow> inbound \<Rightarrow> bool \<Rightarrow> before_turn \<Rightarrow> pydict \<Rightarrow> ((before_turn \<times> pydict) progress, ('d, 's) pipe_world) step" where
  "before_turn_phase env m dispatch b extra =
     andthen (asking (run_phase (pe_before_turn env) b)) (\<lambda>b'.
       if bf_abort b' then stop_with env m dispatch (bf_abort_reply b')
       else give (TurnGoes (b', dict_update extra (bf_extra b'))))"

definition command_phase ::
  "'s pipe_env \<Rightarrow> inbound \<Rightarrow> bool \<Rightarrow> ((before_turn option \<times> pydict) progress, ('d, 's) pipe_world) step" where
  "command_phase env m dispatch w =
     (if \<not> is_command (ib_content m) then give (TurnGoes (None, [])) w
      else
        andthen (before_turn_phase env m dispatch
            (new_before_turn m [] [] (collect_skill_mentions (pe_skill_names env (pw_state w)) (ib_content m))) []) (\<lambda>p.
          case p of TurnStops ob \<Rightarrow> give (TurnStops ob)
          | TurnGoes (b, extra) \<Rightarrow>
              andthen (core_command env (ib_content m)) (\<lambda>reply.
                case reply of Some t \<Rightarrow> stop_with env m dispatch t | None \<Rightarrow> give (TurnGoes (Some b, extra)))) w)"

end
