(* ===== verification/TurnRun.thy ===== *)
theory TurnRun
  imports TurnPipeline CloudTranscript
begin

text \<open>
  The rest of \<open>PassiveTurnPipeline\<close>: the archiving before a turn, the retrieval of memories, the reasoning, the
  commit and the events around all of it, \<open>_run_turn\<close>, \<open>run\<close> and \<open>execute\<close> of \<open>src/agent/core/runtime.py\<close>.
\<close>

section \<open>The session of the turn\<close>

definition on_session :: "(session \<Rightarrow> ('a, ('d, 's) pipe_world) step) \<Rightarrow> ('a, ('d, 's) pipe_world) step" where
  "on_session f w =
     (case pw_session w of None \<Rightarrow> refuse (PyError (AttributeError (lit ''session''))) w | Some s \<Rightarrow> f s w)"

definition set_session :: "session \<Rightarrow> (unit, ('d, 's) pipe_world) step" where
  "set_session s w = Some (Inr (), w\<lparr>pw_session := Some s\<rparr>)"

definition open_session :: "'d transcript_port \<Rightarrow> pystr \<Rightarrow> (unit, ('d, 's) pipe_world) step" where
  "open_session port key w =
     (case po_open port key (pw_store w) of
        (Inl e, d) \<Rightarrow> Some (Inl (PyError e), w\<lparr>pw_store := d\<rparr>)
      | (Inr s, d) \<Rightarrow> Some (Inr (), w\<lparr>pw_store := d, pw_session := Some s\<rparr>))"

definition save_session :: "'d transcript_port \<Rightarrow> (unit, ('d, 's) pipe_world) step" where
  "save_session port = on_session (\<lambda>s w.
     case po_save port s (pw_store w) of
       (Inl e, s', d) \<Rightarrow> Some (Inl (PyError e), w\<lparr>pw_store := d, pw_session := Some s'\<rparr>)
     | (Inr _, s', d) \<Rightarrow> Some (Inr (), act (SavedSession s') (w\<lparr>pw_store := d, pw_session := Some s'\<rparr>)))"

definition history_of_session ::
  "(json \<Rightarrow> pystr) \<Rightarrow> int \<Rightarrow> int option \<Rightarrow> session \<Rightarrow> (pydict list, 'w) step" where
  "history_of_session repr window start s w =
     (case get_history repr window start s of None \<Rightarrow> None | Some r \<Rightarrow> value_of r w)"

section \<open>The guard of the history window\<close>

definition pending_messages :: "session \<Rightarrow> int" where
  "pending_messages s =
     (let total_count = int (length (sn_messages s))
      in total_count - max 0 (min (sn_last_consolidated s) total_count))"

definition guard_threshold :: "int \<Rightarrow> int" where
  "guard_threshold window = window + max 5 (window div 2)"

definition guard_reply :: pystr where
  "guard_reply = [24403, 21069, 20250, 35805, 23578, 26410, 24402, 26723, 30340, 19978, 19979, 25991, 24050, 36798, 21040, 23433, 20840, 38408, 20540, 65292, 33258, 21160] @ lit '' consolidation '' @ [26410, 33021, 25512, 36827, 12290, 20026, 36991, 20813, 38745, 40664, 20002, 22833, 21382, 21490, 65292, 26412, 36718, 24050, 20572, 27490, 65307, 35831, 31245, 21518, 37325, 35797, 25110, 26032, 24314, 20250, 35805, 12290]"

text \<open>Archiving now: what it raises is logged, unless the task is cancelled.\<close>

definition archive_now ::
  "(session \<Rightarrow> 's \<Rightarrow> run_error option \<times> session \<times> 's) \<Rightarrow> (bool, ('d, 's) pipe_world) step" where
  "archive_now archive = on_session (\<lambda>s w.
     case archive s (pw_state w) of (r, s', st) \<Rightarrow>
       (let w' = act Archived (w\<lparr>pw_state := st, pw_session := Some s'\<rparr>)
        in Some (case r of Some WorkerGone \<Rightarrow> Inl WorkerGone | Some _ \<Rightarrow> Inr False | None \<Rightarrow> Inr True, w')))"

definition guard_memory_context ::
  "'s pipe_env \<Rightarrow> 'd transcript_port \<Rightarrow> (pystr option, ('d, 's) pipe_world) step" where
  "guard_memory_context env port = on_session (\<lambda>s.
     if pending_messages s < guard_threshold (pe_window env) then give None
     else
       (case pe_maintenance env of
          None \<Rightarrow> give None
        | Some (wait, archive) \<Rightarrow>
            andthen (archive_now archive) (\<lambda>fine. on_session (\<lambda>s'.
              if sn_last_consolidated s < sn_last_consolidated s'
              then andthen (if fine then save_session port else give ()) (\<lambda>_. give None)
              else give (Some guard_reply)))))"

definition wait_for_archive :: "'s pipe_env \<Rightarrow> (unit, ('d, 's) pipe_world) step" where
  "wait_for_archive env =
     (case pe_maintenance env of
        None \<Rightarrow> give ()
      | Some (wait, archive) \<Rightarrow> on_session (\<lambda>s. andthen (asking (wait s)) set_session))"

text \<open>The history the model sees, or the reply of the guard.\<close>

definition history_phase ::
  "'s pipe_env \<Rightarrow> 'd transcript_port \<Rightarrow> inbound \<Rightarrow> bool \<Rightarrow> (pydict list progress, ('d, 's) pipe_world) step" where
  "history_phase env port m dispatch =
     andthen (wait_for_archive env) (\<lambda>_. andthen (guard_memory_context env port) (\<lambda>g.
       case g of Some t \<Rightarrow> stop_with env m dispatch t
       | None \<Rightarrow> on_session (\<lambda>s.
           andthen (history_of_session (pe_repr env) (pe_window env) (Some (sn_last_consolidated s)) s)
             (\<lambda>h. give (TurnGoes h)))))"

section \<open>The memories of the turn\<close>

definition retrieval_phase ::
  "'s pipe_env \<Rightarrow> inbound \<Rightarrow> pystr \<Rightarrow> pydict \<Rightarrow> (pystr \<times> pydict, ('d, 's) pipe_world) step" where
  "retrieval_phase env m who extra =
     (if truthy (get_default (ib_metadata m) ''skip_memory_retrieval'' JNull) then give ([], extra)
      else
        (case pe_retrieval env of
           Engine query \<Rightarrow>
             andthen (asking (query who m)) (\<lambda>r. give (en_block r,
               dict_set (lit ''retrieval_trace'') (JObj
                 [(lit ''engine'', en_engine r), (lit ''intent'', JStr (lit ''context'')),
                  (lit ''records'', JInt (int (en_records r)))]) extra))
         | Lexical query \<Rightarrow> on_session (\<lambda>s.
             andthen (history_of_session (pe_repr env) (max 1 (int (length (sn_messages s)))) None s) (\<lambda>h.
             andthen (asking (query m h (sn_metadata s))) (\<lambda>r.
               give (case r of
                   None \<Rightarrow> ([], extra)
                 | Some (block, None) \<Rightarrow> (block, extra)
                 | Some (block, Some trace) \<Rightarrow> (block, dict_set (lit ''retrieval_trace'') (JObj trace) extra)))))))"

text \<open>A command has passed the modules already and only gets the history and the memories.\<close>

definition prepare_phase ::
  "'s pipe_env \<Rightarrow> inbound \<Rightarrow> bool \<Rightarrow> before_turn option \<Rightarrow> pydict list \<Rightarrow> pystr \<Rightarrow> pydict \<Rightarrow>
   ((before_turn \<times> pydict) progress, ('d, 's) pipe_world) step" where
  "prepare_phase env m dispatch b history retrieved extra w =
     (case b of
        None \<Rightarrow>
          before_turn_phase env m dispatch
            (new_before_turn m retrieved history (collect_skill_mentions (pe_skill_names env (pw_state w)) (ib_content m))) extra w
      | Some b' \<Rightarrow>
          give (TurnGoes (b'\<lparr>bf_history := history,
             bf_memory := (if retrieved = [] then bf_memory b'
                           else py_join [10, 10] (filter (\<lambda>t. t \<noteq> []) [bf_memory b', retrieved]))\<rparr>, extra)) w)"

section \<open>The reasoning\<close>

definition new_before_reasoning :: "before_turn \<Rightarrow> inbound \<Rightarrow> before_reasoning" where
  "new_before_reasoning b m =
     \<lparr>br_content = ib_content m, br_skills = bf_skills b, br_memory = bf_memory b, br_hints = bf_hints b,
      br_abort = False, br_abort_reply = []\<rparr>"

definition ask_reasoner ::
  "'s pipe_env \<Rightarrow> tool_context \<Rightarrow> inbound \<Rightarrow> before_reasoning \<Rightarrow> pydict list \<Rightarrow> (turn_reply, ('d, 's) pipe_world) step" where
  "ask_reasoner env ctx m br history w =
     (case run_turn (pe_react env ctx\<lparr>re_disabled := disabled_tools (pe_repr env) m\<rparr>) (pe_config env)
             (pe_rendering env m br) history (pw_state w) of
        None \<Rightarrow> None
      | Some (r, s) \<Rightarrow> Some (r, act (Reasoned history) (w\<lparr>pw_state := s\<rparr>)))"

definition with_context :: "tool_context \<Rightarrow> ('a, ('d, 's) pipe_world) step \<Rightarrow> ('a, ('d, 's) pipe_world) step" where
  "with_context ctx f w =
     (case f (w\<lparr>pw_context := Some ctx\<rparr>) of None \<Rightarrow> None | Some (r, w') \<Rightarrow> Some (r, w'\<lparr>pw_context := pw_context w\<rparr>))"

definition reasoning_phase ::
  "'s pipe_env \<Rightarrow> inbound \<Rightarrow> pystr \<Rightarrow> pystr \<Rightarrow> bool \<Rightarrow> before_turn \<Rightarrow> (turn_reply progress, ('d, 's) pipe_world) step" where
  "reasoning_phase env m key who dispatch b =
     (let ctx = \<lparr>tc_session_key = key, tc_channel = ib_channel m, tc_chat_id = ib_chat_id m,
                 tc_principal_id = who, tc_timestamp = ib_timestamp m\<rparr>
      in with_context ctx
           (andthen (asking (run_phase (pe_before_reasoning env) (new_before_reasoning b m))) (\<lambda>br.
              if br_abort br then stop_with env m dispatch (br_abort_reply br)
              else andthen (ask_reasoner env ctx m br (bf_history b)) (\<lambda>t. give (TurnGoes t)))))"

definition reasoned_extra :: "turn_reply \<Rightarrow> pydict \<Rightarrow> pydict" where
  "reasoned_extra t extra =
     (let extra' = dict_set (lit ''context_trace'') (JObj (context_trace t)) extra
      in case rr_compaction (ty_result t) of None \<Rightarrow> extra' | Some c \<Rightarrow> dict_set (lit ''react_compaction'') (JObj c) extra')"

text \<open>A mark that comes in is dropped, only the tools of this turn can ask for attention.\<close>

definition new_after_reasoning :: "turn_reply \<Rightarrow> inbound \<Rightarrow> after_reasoning" where
  "new_after_reasoning t m =
     (let r = ty_result t in
      \<lparr>ar_tools_used = rr_tools_used r, ar_thought = rr_thinking r, ar_tool_chain = rr_tool_chain r,
       ar_reply = rr_reply r, ar_files = [],
       ar_outbound_metadata = dict_update (filter (\<lambda>(k, v). k \<noteq> lit ''mobile_attention'') (ib_metadata m))
         ([(lit ''tools_used'', JArr (map JStr (rr_tools_used r))), (lit ''tool_chain'', JArr (rr_tool_chain r))] @
          (case rr_attention r of None \<Rightarrow> [] | Some v \<Rightarrow> [(lit ''mobile_attention'', JStr v)]))\<rparr>)"

definition reply_outbound :: "(json \<Rightarrow> pystr) \<Rightarrow> inbound \<Rightarrow> after_reasoning \<Rightarrow> outbound" where
  "reply_outbound repr m a =
     (let c = correlation repr m;
          md = (if c = [] then ar_outbound_metadata a
                else dict_set (lit ''client_request_id'') (JStr c) (ar_outbound_metadata a))
      in (new_outbound (ib_channel m) (ib_chat_id m) (ar_reply a) md)\<lparr>ob_thinking := ar_thought a, ob_media := ar_files a\<rparr>)"

section \<open>The commit\<close>

definition turn_commit_of :: "inbound \<Rightarrow> after_reasoning \<Rightarrow> outbound \<Rightarrow> pydict \<Rightarrow> turn_commit" where
  "turn_commit_of m a ob extra =
     \<lparr>tm_omit_user = truthy (get_default (ib_metadata m) ''omit_user_turn'' JNull), tm_content = ib_content m,
      tm_media = ib_media m, tm_inbound_at = ib_timestamp m, tm_channel = ib_channel m,
      tm_chat_id = ib_chat_id m, tm_sender = ib_sender m, tm_username = get_default (ib_metadata m) ''username'' JNull,
      tm_reply = ob_content ob, tm_reply_media = ob_media ob, tm_thinking = ob_thinking ob,
      tm_tools_used = ar_tools_used a, tm_tool_chain = ar_tool_chain a, tm_extra = extra\<rparr>"

definition commit_session :: "'s pipe_env \<Rightarrow> turn_commit \<Rightarrow> (unit, ('d, 's) pipe_world) step" where
  "commit_session env c = on_session (\<lambda>s w.
     case commit_turn (pe_repr env) (pe_window env) c (pe_fresh env (pw_state w)) (pe_clock env (pw_state w)) s of
       None \<Rightarrow> None
     | Some (Inl e, s') \<Rightarrow> Some (Inl (PyError e), w\<lparr>pw_session := Some s'\<rparr>)
     | Some (Inr _, s') \<Rightarrow> Some (Inr (), w\<lparr>pw_session := Some s'\<rparr>))"

definition committed_extra :: "(json \<Rightarrow> pystr) \<Rightarrow> inbound \<Rightarrow> pydict" where
  "committed_extra repr m =
     (let p = get_default (ib_metadata m) ''principal_id'' JNull
      in if truthy p then [(lit ''principal_id'', JStr (py_str repr p))] else [])"

definition commit_and_dispatch ::
  "'s pipe_env \<Rightarrow> 'd transcript_port \<Rightarrow> inbound \<Rightarrow> pystr \<Rightarrow> bool \<Rightarrow> after_reasoning \<Rightarrow> outbound \<Rightarrow> pydict \<Rightarrow>
   (outbound, ('d, 's) pipe_world) step" where
  "commit_and_dispatch env port m key dispatch a ob extra =
     andthen (commit_session env (turn_commit_of m a ob extra)) (\<lambda>_.
     andthen (save_session port) (\<lambda>_. on_session (\<lambda>s.
     andthen (observe env (ContextBudgetUpdated key (mapping_of (get_default (sn_metadata s) ''context_budget'' JNull)))) (\<lambda>_.
     andthen (observe env (TurnCommitted key (ob_content ob) (ar_tools_used a) (committed_extra (pe_repr env) m))) (\<lambda>_.
     andthen (observe env (AfterTurn key (ob_content ob) extra)) (\<lambda>_.
     andthen (asking (run_modules (pe_after_turn env) (AfterTurn key (ob_content ob) extra))) (\<lambda>_.
     andthen (if dispatch then doing (Published ob) else give ()) (\<lambda>_. give ob))))))))"

section \<open>The turn\<close>

definition set_principal :: "pystr \<Rightarrow> (unit, ('d, 's) pipe_world) step" where
  "set_principal who = on_session (\<lambda>s.
     if who = [] then give ()
     else set_session (s\<lparr>sn_metadata := dict_set (lit ''principal_id'') (JStr who) (sn_metadata s)\<rparr>))"

definition unless_stopped ::
  "('a progress, 'w) step \<Rightarrow> ('a \<Rightarrow> (outbound, 'w) step) \<Rightarrow> (outbound, 'w) step" where
  "unless_stopped f g = andthen f (\<lambda>p. case p of TurnStops ob \<Rightarrow> give ob | TurnGoes x \<Rightarrow> g x)"

definition turn_body ::
  "'s pipe_env \<Rightarrow> 'd transcript_port \<Rightarrow> inbound \<Rightarrow> pystr \<Rightarrow> bool \<Rightarrow> (outbound, ('d, 's) pipe_world) step" where
  "turn_body env port m key dispatch =
     (let who = strip (get_text (pe_repr env) (ib_metadata m) ''principal_id'') in
      andthen (open_session port key) (\<lambda>_. andthen (set_principal who) (\<lambda>_.
      andthen (observe env (TurnStarted key)) (\<lambda>_.
      unless_stopped (command_phase env m dispatch) (\<lambda>(b, extra).
      unless_stopped (history_phase env port m dispatch) (\<lambda>history.
      andthen (retrieval_phase env m who extra) (\<lambda>(retrieved, extra1).
      unless_stopped (prepare_phase env m dispatch b history retrieved extra1) (\<lambda>(b', extra2).
      unless_stopped (reasoning_phase env m key who dispatch b') (\<lambda>t.
      andthen (asking (run_phase (pe_after_reasoning env) (new_after_reasoning t m))) (\<lambda>a.
        commit_and_dispatch env port m key dispatch a (reply_outbound (pe_repr env) m a) (reasoned_extra t extra2)))))))))))"

text \<open>However the turn ends, the store has the session object as the turn has left it.\<close>

definition run_turn_body ::
  "'s pipe_env \<Rightarrow> 'd transcript_port \<Rightarrow> inbound \<Rightarrow> pystr \<Rightarrow> bool \<Rightarrow> (outbound, ('d, 's) pipe_world) step" where
  "run_turn_body env port m key dispatch w =
     (case turn_body env port m key dispatch (w\<lparr>pw_session := None\<rparr>) of
        None \<Rightarrow> None
      | Some (r, w') \<Rightarrow>
          Some (r, case pw_session w' of None \<Rightarrow> w' | Some s \<Rightarrow> w'\<lparr>pw_store := po_keep port s (pw_store w')\<rparr>))"

text \<open>A lease is given back however the body ends; what that raises comes through.\<close>

definition leased :: "'s lease option \<Rightarrow> ('a, ('d, 's) pipe_world) step \<Rightarrow> ('a, ('d, 's) pipe_world) step" where
  "leased l f =
     (case l of None \<Rightarrow> f
      | Some (enter, leave) \<Rightarrow> (\<lambda>w.
          case enter (pw_state w) of
            (Some e, s) \<Rightarrow> Some (Inl e, w\<lparr>pw_state := s\<rparr>)
          | (None, s) \<Rightarrow>
              (case f (w\<lparr>pw_state := s\<rparr>) of
                 None \<Rightarrow> None
               | Some (r, w') \<Rightarrow>
                   (case leave (pw_state w') of (e, s') \<Rightarrow>
                      Some (case e of None \<Rightarrow> r | Some e' \<Rightarrow> Inl e', w'\<lparr>pw_state := s'\<rparr>)))))"

definition finish_turn ::
  "'s pipe_env \<Rightarrow> pystr \<Rightarrow> bool \<Rightarrow> run_error + outbound \<Rightarrow> (outbound, ('d, 's) pipe_world) step" where
  "finish_turn env key dispatch r =
     (case r of
        Inl e \<Rightarrow>
          andthen (observe env (TurnFinished key (if e = WorkerGone then TurnInterrupted else TurnFailed (pe_error env e)) None dispatch))
            (\<lambda>_. refuse e)
      | Inr ob \<Rightarrow> andthen (observe env (TurnFinished key TurnSuccess (Some ob) dispatch)) (\<lambda>_. give ob))"

definition pipeline_run ::
  "'s pipe_env \<Rightarrow> 'd transcript_port \<Rightarrow> inbound \<Rightarrow> pystr \<Rightarrow> bool \<Rightarrow> (outbound, ('d, 's) pipe_world) step" where
  "pipeline_run env port m key dispatch w =
     (case leased (pe_generation env) (leased (pe_snapshot env) (run_turn_body env port m key dispatch)) w of
        None \<Rightarrow> None
      | Some (r, w') \<Rightarrow> finish_turn env key dispatch r w')"

section \<open>Without a channel\<close>

text \<open>\<open>namespace\<close> and \<open>subject\<close> are the memory scope of the request, \<open>submitted\<close> its time.\<close>

definition request_inbound :: "agent_request \<Rightarrow> pystr \<Rightarrow> pystr \<Rightarrow> pystr \<Rightarrow> pystr \<Rightarrow> inbound" where
  "request_inbound q kind namespace subject submitted =
     \<lparr>ib_channel = aq_origin_name q, ib_sender = aq_subject_id q, ib_chat_id = aq_thread_id q, ib_content = aq_content q,
      ib_timestamp = submitted, ib_media = aq_media q,
      ib_metadata = dict_update (aq_metadata q)
        [(lit ''session_key_override'', JStr (aq_conversation_id q)), (lit ''context_channel'', JStr namespace),
         (lit ''context_chat_id'', JStr subject), (lit ''principal_id'', JStr (aq_subject_id q)),
         (lit ''principal_kind'', JStr kind), (lit ''turn_origin_kind'', JStr (aq_origin_kind q))]\<rparr>"

definition pipeline_execute ::
  "'s pipe_env \<Rightarrow> 'd transcript_port \<Rightarrow> pystr \<Rightarrow> pystr \<Rightarrow> pystr \<Rightarrow> pystr \<Rightarrow> agent_request \<Rightarrow>
   (agent_result, ('d, 's) pipe_world) step" where
  "pipeline_execute env port kind namespace subject submitted q =
     andthen (pipeline_run env port (request_inbound q kind namespace subject submitted) (aq_conversation_id q) False) (\<lambda>ob.
       give \<lparr>ar_content = ob_content ob, ar_thinking = ob_thinking ob, ar_media = ob_media ob, ar_metadata = ob_metadata ob\<rparr>)"

end
