(* ===== verification/TurnTheorems.thy ===== *)
theory TurnTheorems
  imports TurnRetry ReactTheorems
begin

text \<open>The attempts of a turn: they shorten the prompt step by step, and a turn always ends.\<close>

section \<open>The plans\<close>

lemma plan_key_sections: "plan_key p = plan_key q \<Longrightarrow> set (pn_disabled p) = set (pn_disabled q)"
  by (auto simp: plan_key_def dest: arg_cong [of _ _ set])

lemma plan_key_window: "plan_key p = plan_key q \<Longrightarrow> pn_window p = pn_window q"
  by (simp add: plan_key_def)

lemma add_plan_new:
  assumes "list_all (\<lambda>q. set (pn_disabled q) \<noteq> set (pn_disabled p) \<or> pn_window q \<noteq> pn_window p) ps"
  shows "add_plan p ps = ps @ [p]"
proof -
  have "plan_key p \<noteq> plan_key q" if "q \<in> set ps" for q
  proof
    assume k: "plan_key p = plan_key q"
    have "set (pn_disabled q) \<noteq> set (pn_disabled p) \<or> pn_window q \<noteq> pn_window p"
      using assms that unfolding list_all_iff by blast
    then show False using plan_key_sections [OF k] plan_key_window [OF k] by simp
  qed
  then show ?thesis by (simp add: add_plan_def image_iff)
qed

lemma add_plan_old: "q \<in> set ps \<Longrightarrow> pn_disabled q = pn_disabled p \<Longrightarrow> pn_window q = pn_window p \<Longrightarrow> add_plan p ps = ps"
proof -
  assume q: "q \<in> set ps" and "pn_disabled q = pn_disabled p" "pn_window q = pn_window p"
  then have "plan_key p = plan_key q" by (simp add: plan_key_def)
  then show ?thesis using q by (simp add: add_plan_def)
qed

lemma sets_differ: "x \<in> B \<Longrightarrow> x \<notin> A \<Longrightarrow> A \<noteq> B \<and> B \<noteq> A"
  by blast

lemma two_sections:
  "{lit ''skills_catalog'', lit ''recent_context''} \<noteq> {lit ''skills_catalog'', lit ''recent_context'', lit ''long_term_memory''} \<and>
   {lit ''skills_catalog'', lit ''recent_context'', lit ''long_term_memory''} \<noteq> {lit ''skills_catalog'', lit ''recent_context''}"
  by (rule sets_differ [of "lit ''long_term_memory''"]) simp_all

lemma two_of_four:
  "{lit ''skills_catalog'', lit ''recent_context''} \<noteq>
     {lit ''skills_catalog'', lit ''recent_context'', lit ''long_term_memory'', lit ''retrieved_memory''} \<and>
   {lit ''skills_catalog'', lit ''recent_context'', lit ''long_term_memory'', lit ''retrieved_memory''} \<noteq>
     {lit ''skills_catalog'', lit ''recent_context''}"
  by (rule sets_differ [of "lit ''long_term_memory''"]) simp_all

lemma three_sections:
  "{lit ''skills_catalog'', lit ''recent_context'', lit ''long_term_memory''} \<noteq>
     {lit ''skills_catalog'', lit ''recent_context'', lit ''long_term_memory'', lit ''retrieved_memory''} \<and>
   {lit ''skills_catalog'', lit ''recent_context'', lit ''long_term_memory'', lit ''retrieved_memory''} \<noteq>
     {lit ''skills_catalog'', lit ''recent_context'', lit ''long_term_memory''}"
  by (rule sets_differ [of "lit ''retrieved_memory''"]) simp_all

lemmas section_sets = two_sections two_of_four three_sections

definition full_plans :: "nat \<Rightarrow> prompt_plan list" where
  "full_plans len = map (\<lambda>(n, d). \<lparr>pn_name = n, pn_disabled = d, pn_window = len\<rparr>) trim_plans"

lemma full_plans_built: "fold (\<lambda>(n, d). add_plan \<lparr>pn_name = n, pn_disabled = d, pn_window = len\<rparr>) trim_plans [] = full_plans len"
  by (simp add: trim_plans_def full_plans_def add_plan_new section_sets)

definition cut_plan :: "nat \<Rightarrow> nat \<Rightarrow> prompt_plan" where
  "cut_plan percent window = \<lparr>pn_name = lit ''trim_retrieved_memory_history_'' @ nat_text percent,
     pn_disabled = snd (last trim_plans), pn_window = window\<rparr>"

lemma plans_built:
  "build_attempt_plans len = full_plans len @
     (if len = 0 then [] else if len = 1 then [cut_plan 50 0] else [cut_plan 50 (len div 2), cut_plan 0 0])"
proof -
  have l: "last trim_plans \<in> set trim_plans" by (simp add: trim_plans_def)
  have f: "q \<in> set (full_plans len) \<Longrightarrow> pn_window q = len" for q by (auto simp: full_plans_def)
  have old: "add_plan (cut_plan n 0) (full_plans 0) = full_plans 0" for n
    by (rule add_plan_old [of "\<lparr>pn_name = fst (last trim_plans), pn_disabled = snd (last trim_plans), pn_window = 0\<rparr>"])
      (use l in \<open>auto simp: full_plans_def cut_plan_def intro!: image_eqI [of _ _ "last trim_plans"] split: prod.splits\<close>)
  have b: "build_attempt_plans len = add_plan (cut_plan 0 0) (add_plan (cut_plan 50 (len div 2)) (full_plans len))"
    by (simp add: build_attempt_plans_def full_plans_built cut_plan_def Let_def)
  show ?thesis
  proof (cases "len = 0")
    case True
    then show ?thesis using old unfolding b by simp
  next
    case False
    have half: "add_plan (cut_plan 50 (len div 2)) (full_plans len) = full_plans len @ [cut_plan 50 (len div 2)]"
      by (rule add_plan_new) (use f False in \<open>auto simp: cut_plan_def list_all_iff\<close>)
    show ?thesis
    proof (cases "len = 1")
      case True
      have "add_plan (cut_plan 0 0) (full_plans len @ [cut_plan 50 0]) = full_plans len @ [cut_plan 50 0]"
        by (rule add_plan_old [of "cut_plan 50 0"]) (simp_all add: cut_plan_def)
      then show ?thesis using half unfolding b by (simp add: True)
    next
      case n: False
      have "add_plan (cut_plan 0 0) (full_plans len @ [cut_plan 50 (len div 2)]) =
          full_plans len @ [cut_plan 50 (len div 2)] @ [cut_plan 0 0]"
        by (subst add_plan_new) (use f False n in \<open>auto simp: cut_plan_def list_all_iff\<close>)
      then show ?thesis using half False n by (simp add: b)
    qed
  qed
qed

definition shrinks :: "prompt_plan \<Rightarrow> prompt_plan \<Rightarrow> bool" where
  "shrinks p q \<longleftrightarrow> set (pn_disabled p) \<subseteq> set (pn_disabled q) \<and> pn_window q \<le> pn_window p \<and>
     (set (pn_disabled p) \<noteq> set (pn_disabled q) \<or> pn_window q < pn_window p)"

text \<open>C34: A turn has at most seven prompts to try: the first has every section and the whole history, the last has no
  history, and each has fewer sections or less history than every one before it, and never more of either.\<close>

theorem attempt_plans_shrink:
  "let ps = build_attempt_plans len in 5 \<le> length ps \<and> length ps \<le> 7 \<and> sorted_wrt shrinks ps \<and>
     pn_disabled (hd ps) = [] \<and> pn_window (hd ps) = len \<and> pn_window (last ps) = 0"
  by (cases "len = 0"; cases "len = 1")
    (simp_all add: plans_built full_plans_def trim_plans_def cut_plan_def shrinks_def section_sets)

section \<open>An iteration counts\<close>

lemma compact_iteration: "compact_state env specs p t f st s = (Inr (b, st'), s') \<Longrightarrow> rs_iteration st' = rs_iteration st"
  by (auto simp: compact_state_def split: prod.splits sum.splits)

lemma ask_iteration: "ask_model env specs bs st s = (Inr (r, n, st'), s') \<Longrightarrow> rs_iteration st' = rs_iteration st"
  by (auto simp: ask_model_def split: prod.splits sum.splits run_error.splits bool.splits dest: compact_iteration)

lemma run_calls_iteration:
  "run_calls env it i cs recs st s = (Inr (recs', st'), s') \<Longrightarrow> rs_iteration st' = rs_iteration st"
proof (induction cs arbitrary: i recs st s)
  case (Cons c cs)
  from Cons.prems obtain st2 i2 recs2 s2 where "run_calls env it i2 cs recs2 st2 s2 = (Inr (recs', st'), s')"
    "rs_iteration st2 = rs_iteration st"
    by (auto simp: Let_def unlock_def called_def split: prod.splits sum.splits option.splits)
  then show ?case using Cons.IH by metis
qed simp

lemma step_iteration:
  assumes "react_step env st s = (Inr (Again st'), s')"
  shows "rs_iteration st' = rs_iteration st + 1"
proof -
  let ?specs = "visible_specs env (rs_unlocked st)"
  obtain b st1 s1 where c: "compact_state env ?specs None SoftLimit False st s = (Inr (b, st1), s1)"
    using assms by (auto simp: react_step_def Let_def split: prod.splits sum.splits)
  obtain ctl s2 where k: "re_before_step env (rs_iteration st1) (estimate_context_tokens (re_repr env) (rs_messages st1) ?specs)
      (map ts_name ?specs) s1 = (Inr ctl, s2)" "\<not> sc_early_stop ctl"
    using assms c by (auto simp: react_step_def Let_def split: prod.splits sum.splits if_splits)
  define st2 where "st2 = st1\<lparr>rs_messages := rs_messages st1 @ (if sc_hints ctl = [] then [] else [plugin_hint_message (sc_hints ctl)]),
    rs_samples := rs_samples st1 @ [sc_tokens ctl]\<rparr>"
  obtain r start st3 s3 where a: "ask_model env ?specs (length (rs_messages st1)) st2 s2 = (Inr (r, start, st3), s3)"
    using assms c k by (auto simp: react_step_def Let_def st2_def split: prod.splits sum.splits if_splits)
  have it: "rs_iteration st3 = rs_iteration st" using ask_iteration [OF a] compact_iteration [OF c] by (simp add: st2_def)
  have e: "(if mr_calls r = [] then final_step env r (answered r st3) s3 else tools_step env start r (answered r st3) s3) =
      (Inr (Again st'), s')"
    using assms c k a by (simp add: react_step_def Let_def st2_def)
  show ?thesis
  proof (cases "mr_calls r = []")
    case True
    then have "final_step env r (answered r st3) s3 = (Inr (Again st'), s')" using e by simp
    then show ?thesis using it by (auto simp: final_step_def answered_def split: if_splits prod.splits option.splits)
  next
    case False
    then have "tools_step env start r (answered r st3) s3 = (Inr (Again st'), s')" using e by simp
    then show ?thesis using it run_calls_iteration
      by (fastforce simp: tools_step_def answered_def Let_def split: prod.splits sum.splits option.splits)
  qed
qed

lemma loop_returns: "0 < re_limit env \<Longrightarrow> \<exists>y. react_loop env st s = Some y"
proof (induction "nat (re_limit env - rs_iteration st)" arbitrary: st s rule: less_induct)
  case less
  obtain res s1 where r: "react_step env st s = (res, s1)" by fastforce
  show ?case
  proof (cases "rs_iteration st < re_limit env")
    case True
    show ?thesis
    proof (cases res)
      case (Inl e)
      then show ?thesis using True r by (simp add: react_loop.simps)
    next
      case (Inr v)
      show ?thesis
      proof (cases v)
        case (Finished x)
        then show ?thesis using True r Inr by (simp add: react_loop.simps)
      next
        case (Again st')
        have "rs_iteration st' = rs_iteration st + 1" using r by (simp add: Inr Again step_iteration)
        then have "\<exists>y. react_loop env st' s1 = Some y" using less True by simp
        then show ?thesis using True r Inr Again by (subst react_loop.simps) simp
      qed
    qed
  next
    case False
    then show ?thesis using less(2) by (subst react_loop.simps) simp
  qed
qed

lemma run_returns: "0 < re_limit env \<Longrightarrow> \<exists>y. react_run env cfg messages s = Some y"
  using loop_returns by (auto simp: react_run_def Let_def split: sum.splits)

section \<open>The attempts\<close>

definition turn_trace_ok :: "prompt_plan list \<Rightarrow> turn_reply \<Rightarrow> bool" where
  "turn_trace_ok ps t \<longleftrightarrow> ty_attempts t \<noteq> [] \<and>
     map ap_name (ty_attempts t) = map pn_name (take (length (ty_attempts t)) ps) \<and>
     length (ty_attempts t) \<le> length ps \<and> list_all (\<lambda>a. ap_error a \<noteq> None) (butlast (ty_attempts t)) \<and>
     ty_selected t = Some (ap_name (last (ty_attempts t))) \<and>
     (ap_error (last (ty_attempts t)) \<noteq> None \<longrightarrow> length (ty_attempts t) = length ps)"

lemma attempts_ok:
  assumes "0 < re_limit env" "ps = done_ps @ qs" "qs \<noteq> []" "map ap_name tr = map pn_name done_ps"
    "list_all (\<lambda>a. ap_error a \<noteq> None) tr"
  shows "\<exists>res s'. run_attempts env cfg render specs history qs tr s = Some (res, s') \<and> (\<forall>t. res = Inr t \<longrightarrow> turn_trace_ok ps t)"
  using assms(2-)
proof (induction qs arbitrary: done_ps tr s)
  case (Cons p qs)
  have len: "length tr = length done_ps" using Cons.prems(3) by (metis length_map)
  let ?h = "slice_history history (pn_window p)"
  obtain x s1 where x: "render p ?h s = (x, s1)" by fastforce
  show ?case
  proof (cases x)
    case (Inl e)
    then show ?thesis by (simp add: x)
  next
    case rd: (Inr rd)
    show ?thesis
    proof (cases "attempt_budget cfg")
      case (Inl e)
      then show ?thesis by (simp add: x rd Let_def)
    next
      case (Inr b)
      obtain y s2 where y: "react_run env cfg (rd_messages rd) s1 = Some (y, s2)"
        using run_returns [OF assms(1)] by (metis surj_pair)
      define at where "at = trace_of env specs p ?h rd b"
      have at: "ap_name at = pn_name p" "ap_error at = None" by (simp_all add: at_def trace_of_def)
      show ?thesis
      proof (cases y)
        case r: (Inr r)
        then show ?thesis using Cons.prems len at
          by (simp add: x rd Inr y Let_def at_def [symmetric] turn_trace_ok_def butlast_append)
      next
        case e: (Inl e)
        show ?thesis
        proof (cases "overflow_name e")
          case None
          then show ?thesis by (simp add: x rd Inr y e Let_def)
        next
          case n: (Some n)
          show ?thesis
          proof (cases "qs = []")
            case True
            then show ?thesis using Cons.prems len at
              by (simp add: x rd Inr y e n Let_def at_def [symmetric] turn_trace_ok_def butlast_append)
          next
            case False
            have "\<exists>res s'. run_attempts env cfg render specs history qs (tr @ [at\<lparr>ap_error := Some n\<rparr>]) s2 = Some (res, s') \<and>
                (\<forall>t. res = Inr t \<longrightarrow> turn_trace_ok ps t)"
              by (rule Cons.IH [of "done_ps @ [p]"]) (use Cons.prems at False in simp_all)
            then show ?thesis using False by (simp add: x rd Inr y e n Let_def at_def [symmetric])
          qed
        qed
      qed
    qed
  qed
qed simp

lemma turn_replies:
  assumes "0 < re_limit env"
  shows "\<exists>res s'. run_turn env cfg render history s = Some (res, s') \<and>
    (\<forall>t. res = Inr t \<longrightarrow> turn_trace_ok (build_attempt_plans (length history)) t)"
  unfolding run_turn_def
proof (rule attempts_ok [OF assms])
  show "build_attempt_plans (length history) = [] @ build_attempt_plans (length history)" by simp
  show "build_attempt_plans (length history) \<noteq> []" by (simp add: plans_built full_plans_def trim_plans_def)
qed simp_all

text \<open>The attempts that failed: the prompt of every plan of the list was rendered and the loop raised one of the two
  errors on it, each attempt in the state the one before it left.\<close>

inductive overflowed :: "'s react_env \<Rightarrow> react_config \<Rightarrow> 's rendering \<Rightarrow> pydict list \<Rightarrow> 's \<Rightarrow> prompt_plan list \<Rightarrow> 's \<Rightarrow> bool"
  for env cfg render history where
  no_attempt: "overflowed env cfg render history s [] s"
| next_attempt: "render p (slice_history history (pn_window p)) s = (Inr rd, s1) \<Longrightarrow>
     react_run env cfg (rd_messages rd) s1 = Some (Inl e, s2) \<Longrightarrow> e = ContextLengthError \<or> e = ContentSafetyError \<Longrightarrow>
     overflowed env cfg render history s2 ps s' \<Longrightarrow> overflowed env cfg render history s (p # ps) s'"

text \<open>How the last attempt ends the turn: \<open>rest\<close> are the plans that are left.\<close>

definition last_attempt ::
  "'s react_env \<Rightarrow> react_config \<Rightarrow> 's rendering \<Rightarrow> pydict list \<Rightarrow> prompt_plan \<Rightarrow> prompt_plan list \<Rightarrow> 's \<Rightarrow>
   run_error + turn_reply \<Rightarrow> 's \<Rightarrow> bool" where
  "last_attempt env cfg render history p rest s res s' \<longleftrightarrow>
     (\<exists>e. render p (slice_history history (pn_window p)) s = (Inl e, s') \<and> res = Inl e) \<or>
     (\<exists>rd s1. render p (slice_history history (pn_window p)) s = (Inr rd, s1) \<and>
        ((\<exists>e. attempt_budget cfg = Inl e \<and> res = Inl (PyError e) \<and> s' = s1) \<or>
         (\<exists>r t. react_run env cfg (rd_messages rd) s1 = Some (Inr r, s') \<and> res = Inr t \<and> ty_result t = r) \<or>
         (\<exists>e. react_run env cfg (rd_messages rd) s1 = Some (Inl e, s') \<and> e \<noteq> ContextLengthError \<and> e \<noteq> ContentSafetyError \<and>
            res = Inl e) \<or>
         (\<exists>e t. react_run env cfg (rd_messages rd) s1 = Some (Inl e, s') \<and> (e = ContextLengthError \<or> e = ContentSafetyError) \<and>
            rest = [] \<and> res = Inr t \<and> ty_result t = plain_reply (overflow_reply e))))"

lemma overflow_errors: "overflow_name e = None \<longleftrightarrow> e \<noteq> ContextLengthError \<and> e \<noteq> ContentSafetyError"
  by (cases e) simp_all

lemma attempts_path:
  assumes "run_attempts env cfg render specs history ps tr s = Some (res, s')" "ps \<noteq> []"
  shows "\<exists>done_ps p rest s1. ps = done_ps @ p # rest \<and> overflowed env cfg render history s done_ps s1 \<and>
    last_attempt env cfg render history p rest s1 res s' \<and>
    (\<forall>t. res = Inr t \<longrightarrow> length (ty_attempts t) = length tr + length done_ps + 1)"
  using assms
proof (induction ps arbitrary: tr s)
  case (Cons p ps)
  have here: ?case if "last_attempt env cfg render history p ps s res s'" "\<forall>t. res = Inr t \<longrightarrow> length (ty_attempts t) = length tr + 1"
    using that no_attempt by (intro exI [of _ "[]"] exI [of _ p] exI [of _ ps] exI [of _ s]) simp
  obtain x s1 where x: "render p (slice_history history (pn_window p)) s = (x, s1)" by fastforce
  show ?case
  proof (cases x)
    case (Inl e)
    then have "res = Inl e" "s' = s1" using Cons.prems(1) x by simp_all
    then show ?thesis using x Inl by (intro here) (simp_all add: last_attempt_def)
  next
    case rd: (Inr rd)
    show ?thesis
    proof (cases "attempt_budget cfg")
      case (Inl e)
      then have "res = Inl (PyError e)" "s' = s1" using Cons.prems(1) x rd by (simp_all add: Let_def)
      then show ?thesis using x rd Inl by (intro here) (simp_all add: last_attempt_def)
    next
      case b: (Inr b)
      show ?thesis
      proof (cases "react_run env cfg (rd_messages rd) s1")
        case None
        then show ?thesis using Cons.prems(1) x rd b by (simp add: Let_def)
      next
        case (Some out)
        obtain y s2 where y: "react_run env cfg (rd_messages rd) s1 = Some (y, s2)" using Some by (cases out) simp
        show ?thesis
        proof (cases y)
          case r: (Inr r)
          obtain t where "res = Inr t" "ty_result t = r" "s' = s2" "length (ty_attempts t) = length tr + 1"
            using Cons.prems(1) x rd b y r by (auto simp: Let_def)
          then show ?thesis using x rd y r by (intro here) (simp_all add: last_attempt_def)
        next
          case e: (Inl e)
          show ?thesis
          proof (cases "overflow_name e")
            case None
            then have "res = Inl e" "s' = s2" using Cons.prems(1) x rd b y e by (simp_all add: Let_def)
            then show ?thesis
              using x rd y e None unfolding overflow_errors by (intro here) (simp_all add: last_attempt_def)
          next
            case n: (Some n)
            have err: "e = ContextLengthError \<or> e = ContentSafetyError" using n overflow_errors [of e] by auto
            show ?thesis
            proof (cases "ps = []")
              case True
              obtain t where "res = Inr t" "ty_result t = plain_reply (overflow_reply e)" "s' = s2"
                  "length (ty_attempts t) = length tr + 1"
                using Cons.prems(1) x rd b y e n True by (auto simp: Let_def)
              then show ?thesis using x rd y e err True by (intro here) (auto simp: last_attempt_def)
            next
              case False
              let ?at = "(trace_of env specs p (slice_history history (pn_window p)) rd b)\<lparr>ap_error := Some n\<rparr>"
              have "run_attempts env cfg render specs history ps (tr @ [?at]) s2 = Some (res, s')"
                using Cons.prems(1) x rd b y e n False by (simp add: Let_def)
              from Cons.IH [OF this False] obtain d q rest s3 where i: "ps = d @ q # rest"
                  "overflowed env cfg render history s2 d s3" "last_attempt env cfg render history q rest s3 res s'"
                  "\<forall>t. res = Inr t \<longrightarrow> length (ty_attempts t) = length tr + 1 + length d + 1" by auto
              have "overflowed env cfg render history s (p # d) s3"
                using next_attempt [of render p history s rd s1 env cfg e s2 d s3] x rd y e err i(2) by simp
              then show ?thesis using i
                by (intro exI [of _ "p # d"] exI [of _ q] exI [of _ rest] exI [of _ s3]) simp
            qed
          qed
        qed
      qed
    qed
  qed
qed simp

text \<open>C13: With a positive budget of iterations a turn always returns, whatever the model, the tools, the plugins and the
  rendering do.  It tries the plans in their order and goes on to the next one only after the loop raised a context length
  or a content safety error on the prompt of this one.  The first attempt that did not, or the last plan, settles the turn:
  what the loop returned is the result, any other exception leaves the turn at once, and only an overflow of the last
  plan is answered with the excuse.  The trace names the attempted plans in order and reports the last one as selected.\<close>

theorem run_turn_returns:
  assumes "0 < re_limit env"
  shows "\<exists>res s' done_ps p rest s1. run_turn env cfg render history s = Some (res, s') \<and>
    build_attempt_plans (length history) = done_ps @ p # rest \<and>
    overflowed env cfg render history s done_ps s1 \<and> last_attempt env cfg render history p rest s1 res s' \<and>
    (\<forall>t. res = Inr t \<longrightarrow> turn_trace_ok (build_attempt_plans (length history)) t \<and>
       length (ty_attempts t) = length done_ps + 1)"
proof -
  obtain res s' where r: "run_turn env cfg render history s = Some (res, s')"
    and t: "\<forall>t. res = Inr t \<longrightarrow> turn_trace_ok (build_attempt_plans (length history)) t"
    using turn_replies [OF assms] by blast
  have "build_attempt_plans (length history) \<noteq> []" by (simp add: plans_built full_plans_def trim_plans_def)
  from attempts_path [OF r [unfolded run_turn_def] this] show ?thesis using r t by auto
qed

section \<open>A sample\<close>

definition hi_rendering :: "unit rendering" where
  "hi_rendering p h s = (Inr \<lparr>rd_messages = [user_message (lit ''hi'')], rd_disabled = pn_disabled p, rd_sections = []\<rparr>, s)"

lemma run_turn_returns_witness:
  "\<exists>res s' done_ps p rest. run_turn react_sample react_sample_config hi_rendering [user_message (lit ''hi'')] () = Some (res, s') \<and>
     build_attempt_plans 1 = done_ps @ p # rest \<and>
     last_attempt react_sample react_sample_config hi_rendering [user_message (lit ''hi'')] p rest () res ()"
proof -
  have "0 < re_limit react_sample" by (simp add: react_sample_def)
  from run_turn_returns [OF this, of react_sample_config hi_rendering "[user_message (lit ''hi'')]" "()"]
  show ?thesis by simp blast
qed

end
