(* ===== verification/TurnRunProofs.thy ===== *)
theory TurnRunProofs
  imports TurnRun SessionProofs TurnTheorems
begin

text \<open>
  What every step of a turn keeps, by the combinators it is made of: it returns, it only adds to the log, and what
  it adds.
\<close>

section \<open>Steps that return and what they log\<close>

text \<open>\<open>logs P f\<close>: the step returns, and everything it adds to the log has \<open>P\<close>.\<close>

definition logs :: "(pipe_action \<Rightarrow> bool) \<Rightarrow> ('a, ('d, 's) pipe_world) step \<Rightarrow> bool" where
  "logs P f \<longleftrightarrow> (\<forall>w. \<exists>r w' l. f w = Some (r, w') \<and> pw_log w' = pw_log w @ l \<and> list_all P l)"

named_theorems logging "the steps of a turn and what they log"

lemma logsI: "(\<And>w. \<exists>r w' l. f w = Some (r, w') \<and> pw_log w' = pw_log w @ l \<and> list_all P l) \<Longrightarrow> logs P f"
  by (simp add: logs_def)

lemma logs_at: "logs P f \<Longrightarrow> \<exists>r w' l. f w = Some (r, w') \<and> pw_log w' = pw_log w @ l \<and> list_all P l"
  by (simp add: logs_def)

lemma logs_silent: "(\<And>w. \<exists>r w'. f w = Some (r, w') \<and> pw_log w' = pw_log w) \<Longrightarrow> logs P f"
  by (rule logsI) (metis append_Nil2 list.pred_inject(1))

lemma logs_andthen [logging]:
  assumes "logs P f" "\<And>x. logs P (g x)"
  shows "logs P (andthen f g)"
proof (rule logsI)
  fix w
  obtain r w1 l where f: "f w = Some (r, w1)" "pw_log w1 = pw_log w @ l" "list_all P l"
    using logs_at [OF assms(1)] by blast
  show "\<exists>r w' l. andthen f g w = Some (r, w') \<and> pw_log w' = pw_log w @ l \<and> list_all P l"
  proof (cases r)
    case (Inl e)
    then show ?thesis using f by (auto simp: andthen_def)
  next
    case (Inr x)
    obtain r' w2 l' where "g x w1 = Some (r', w2)" "pw_log w2 = pw_log w1 @ l'" "list_all P l'"
      using logs_at [OF assms(2)] by blast
    then show ?thesis using f Inr by (auto simp: andthen_def)
  qed
qed

lemma logs_give [logging]: "logs P (give x)"
  by (rule logs_silent) (simp add: give_def)

lemma logs_refuse [logging]: "logs P (refuse e)"
  by (rule logs_silent) (simp add: refuse_def)

lemma logs_value [logging]: "logs P (value_of r)"
  by (rule logs_silent) (simp add: value_of_def)

lemma logs_asking [logging]: "logs P (asking f)"
  by (rule logs_silent) (simp add: asking_def split: prod.split)

lemma logs_set_session [logging]: "logs P (set_session s)"
  by (rule logs_silent) (simp add: set_session_def)

lemma logs_open [logging]: "logs P (open_session port key)"
  by (rule logs_silent) (simp add: open_session_def split: prod.split sum.split)

lemma logs_doing: "P a \<Longrightarrow> logs P (doing a)"
  by (rule logsI) (simp add: doing_def act_def)

lemma logs_observe: "P (Observed ev) \<Longrightarrow> logs P (observe env ev)"
  by (rule logsI) (auto simp: observe_def act_def split: prod.split)

lemma logs_on_session [logging]: "(\<And>s. logs P (f s)) \<Longrightarrow> logs P (on_session f)"
proof (rule logsI)
  fix w :: "('a, 'b) pipe_world"
  assume f: "\<And>s. logs P (f s)"
  show "\<exists>r w' l. on_session f w = Some (r, w') \<and> pw_log w' = pw_log w @ l \<and> list_all P l"
  proof (cases "pw_session w")
    case None
    then show ?thesis by (simp add: on_session_def refuse_def)
  next
    case (Some s)
    then show ?thesis using logs_at [OF f [of s], of w] by (simp add: on_session_def)
  qed
qed

lemma logs_choose: "(\<And>v. logs P (f v)) \<Longrightarrow> logs P (\<lambda>w. f w w)"
  by (simp add: logs_def)

lemma logs_dispatch: "(\<And>ob. P (Published ob)) \<Longrightarrow> logs P (dispatch_if_needed env m dispatch t)"
  by (rule logsI) (auto simp: dispatch_if_needed_def Let_def act_def)

lemma logs_stop: "(\<And>ob. P (Published ob)) \<Longrightarrow> logs P (stop_with env m dispatch t)"
  unfolding stop_with_def by (intro logging logs_dispatch)

lemma logs_history [logging]: "logs P (history_of_session repr n i s)"
proof (rule logs_silent)
  fix w :: "('a, 'b) pipe_world"
  obtain r where "get_history repr n i s = Some r" using get_history_total by blast
  then show "\<exists>r w'. history_of_session repr n i s w = Some (r, w') \<and> pw_log w' = pw_log w"
    by (simp add: history_of_session_def value_of_def)
qed

lemma logs_unless [logging]: "logs P f \<Longrightarrow> (\<And>x. logs P (g x)) \<Longrightarrow> logs P (unless_stopped f g)"
  unfolding unless_stopped_def by (intro logging) (auto intro: logging split: progress.split)

lemma logs_with_context [logging]:
  assumes "logs P f"
  shows "logs P (with_context ctx f)"
proof (rule logsI)
  fix w :: "('a, 'b) pipe_world"
  obtain r w1 l where "f (w\<lparr>pw_context := Some ctx\<rparr>) = Some (r, w1)" "pw_log w1 = pw_log w @ l" "list_all P l"
    using logs_at [OF assms, of "w\<lparr>pw_context := Some ctx\<rparr>"] by auto
  then show "\<exists>r w' l. with_context ctx f w = Some (r, w') \<and> pw_log w' = pw_log w @ l \<and> list_all P l"
    by (simp add: with_context_def)
qed

lemma logs_leased [logging]:
  assumes "logs P f"
  shows "logs P (leased l f)"
proof (cases l)
  case None
  then show ?thesis using assms by (simp add: leased_def)
next
  case (Some p)
  obtain enter leave where p: "p = (enter, leave)" by fastforce
  show ?thesis
  proof (rule logsI)
    fix w :: "('a, 'b) pipe_world"
    obtain e s where e: "enter (pw_state w) = (e, s)" by fastforce
    obtain r w1 l' where f: "f (w\<lparr>pw_state := s\<rparr>) = Some (r, w1)" "pw_log w1 = pw_log w @ l'" "list_all P l'"
      using logs_at [OF assms, of "w\<lparr>pw_state := s\<rparr>"] by auto
    obtain e' s' where "leave (pw_state w1) = (e', s')" by fastforce
    then show "\<exists>r w' k. leased l f w = Some (r, w') \<and> pw_log w' = pw_log w @ k \<and> list_all P k"
      using e f by (cases e) (auto simp: leased_def Some p)
  qed
qed

section \<open>The phases\<close>

lemma logs_save: "(\<And>s. P (SavedSession s)) \<Longrightarrow> logs P (save_session port)"
  unfolding save_session_def
  by (intro logging, rule logsI) (auto simp: act_def split: prod.split sum.split)

lemma logs_archive: "P Archived \<Longrightarrow> logs P (archive_now f)"
  unfolding archive_now_def by (intro logging, rule logsI) (auto simp: act_def Let_def split: prod.split)

lemma logs_guard:
  assumes "P Archived" "\<And>s. P (SavedSession s)"
  shows "logs P (guard_memory_context env port)"
  unfolding guard_memory_context_def
  by (auto intro!: logging logs_archive logs_save assms split: option.split)

lemma logs_wait [logging]: "logs P (wait_for_archive env)"
  unfolding wait_for_archive_def by (auto intro!: logging split: option.split)

lemma logs_history_phase:
  assumes "P Archived" "\<And>s. P (SavedSession s)" "\<And>ob. P (Published ob)"
  shows "logs P (history_phase env port m dispatch)"
  unfolding history_phase_def by (auto intro!: logging logs_guard logs_stop assms split: option.split)

lemma logs_before_turn:
  assumes "\<And>ob. P (Published ob)"
  shows "logs P (before_turn_phase env m dispatch b extra)"
  unfolding before_turn_phase_def by (auto intro!: logging logs_stop assms)

lemma logs_core_command [logging]: "logs P (core_command env t)"
  unfolding core_command_def Let_def by (auto intro!: logging)

lemma logs_command:
  assumes "\<And>ob. P (Published ob)"
  shows "logs P (command_phase env m dispatch)"
proof -
  let ?f = "\<lambda>names. andthen (before_turn_phase env m dispatch
            (new_before_turn m [] [] (collect_skill_mentions names (ib_content m))) []) (\<lambda>p.
          case p of TurnStops ob \<Rightarrow> give (TurnStops ob)
          | TurnGoes (b, extra) \<Rightarrow>
              andthen (core_command env (ib_content m)) (\<lambda>reply.
                case reply of Some t \<Rightarrow> stop_with env m dispatch t | None \<Rightarrow> give (TurnGoes (Some b, extra))))"
  have "logs P (\<lambda>w. (\<lambda>w. if \<not> is_command (ib_content m) then give (TurnGoes (None, [])) else ?f (pe_skill_names env (pw_state w))) w w)"
    by (rule logs_choose) (auto intro!: logging logs_before_turn logs_stop assms split: progress.split option.split)
  then show ?thesis by (simp add: command_phase_def [abs_def] if_distrib [of "\<lambda>f. f _"])
qed

lemma logs_retrieval [logging]: "logs P (retrieval_phase env m who extra)"
  unfolding retrieval_phase_def by (auto intro!: logging split: retrieval.split)

lemma logs_prepare:
  assumes "\<And>ob. P (Published ob)"
  shows "logs P (prepare_phase env m dispatch b history retrieved extra)"
proof (cases b)
  case None
  have "logs P (\<lambda>w. (\<lambda>w. before_turn_phase env m dispatch
      (new_before_turn m retrieved history (collect_skill_mentions (pe_skill_names env (pw_state w)) (ib_content m))) extra) w w)"
    by (rule logs_choose) (intro logs_before_turn assms)
  then show ?thesis by (simp add: prepare_phase_def [abs_def] None)
next
  case (Some b')
  then show ?thesis by (simp add: prepare_phase_def [abs_def] logs_give)
qed

lemma logs_reasoner:
  assumes "\<And>h. P (Reasoned h)" "0 < re_limit (pe_react env ctx)"
  shows "logs P (ask_reasoner env ctx m br history)"
proof (rule logsI)
  fix w :: "('b, 'a) pipe_world"
  obtain r s where "run_turn (pe_react env ctx\<lparr>re_disabled := disabled_tools (pe_repr env) m\<rparr>) (pe_config env)
      (pe_rendering env m br) history (pw_state w) = Some (r, s)"
    using turn_replies [of "pe_react env ctx\<lparr>re_disabled := disabled_tools (pe_repr env) m\<rparr>"] assms(2) by fastforce
  then show "\<exists>r w' l. ask_reasoner env ctx m br history w = Some (r, w') \<and> pw_log w' = pw_log w @ l \<and> list_all P l"
    using assms(1) by (simp add: ask_reasoner_def act_def)
qed

lemma logs_reasoning:
  assumes "\<And>h. P (Reasoned h)" "\<And>ob. P (Published ob)" "\<And>ctx. 0 < re_limit (pe_react env ctx)"
  shows "logs P (reasoning_phase env m key who dispatch b)"
  unfolding reasoning_phase_def Let_def by (auto intro!: logging logs_stop logs_reasoner assms)

lemma commit_returns: "\<exists>r. commit_turn repr window c fresh clk s = Some r"
proof -
  have h: "get_history repr n i s' \<noteq> None" for n i s' using get_history_total [of repr n i s'] by auto
  show ?thesis
    by (auto simp: commit_turn_def Let_def h split: prod.splits sum.splits option.splits)
qed

lemma logs_commit_session [logging]: "logs P (commit_session env c)"
  unfolding commit_session_def
proof (intro logging, rule logs_silent)
  fix s and w :: "('a, 'b) pipe_world"
  obtain r s' where "commit_turn (pe_repr env) (pe_window env) c (pe_fresh env (pw_state w)) (pe_clock env (pw_state w)) s =
      Some (r, s')" using commit_returns by (metis surj_pair)
  then show "\<exists>r w'. (case commit_turn (pe_repr env) (pe_window env) c (pe_fresh env (pw_state w)) (pe_clock env (pw_state w)) s of
      None \<Rightarrow> None | Some (Inl e, s') \<Rightarrow> Some (Inl (PyError e), w\<lparr>pw_session := Some s'\<rparr>)
      | Some (Inr _, s') \<Rightarrow> Some (Inr (), w\<lparr>pw_session := Some s'\<rparr>)) = Some (r, w') \<and> pw_log w' = pw_log w"
    by (cases r) simp_all
qed

end
