(* ===== verification/TurnStore.thy ===== *)
theory TurnStore
  imports TurnRunProofs CommitTheorems
begin

text \<open>
  The contract between a turn and a transcript store, as a locale, what a turn leaves in every store that keeps it,
  and the two stores of the program: the sessions of one process and the transcript bound to a Run.
\<close>

section \<open>What is said in a session\<close>

definition spoken :: "session \<Rightarrow> (json option \<times> json option) list" where
  "spoken s = map (\<lambda>m. (get m ''role'', get m ''content'')) (sn_messages s)"

definition said :: "string \<Rightarrow> pystr \<Rightarrow> json option \<times> json option" where
  "said role t = (Some (JStr (lit role)), Some (JStr t))"

definition committed_speech :: "bool \<Rightarrow> pystr \<Rightarrow> pystr \<Rightarrow> (json option \<times> json option) list" where
  "committed_speech omit_user content reply = (if omit_user then [] else [said ''user'' content]) @ [said ''assistant'' reply]"

lemma spoken_metadata [simp]: "spoken (s\<lparr>sn_metadata := md\<rparr>) = spoken s"
  by (simp add: spoken_def)

lemma add_message_spoken:
  assumes a: "SessionHistory.add_message role t media kwargs fresh now later s = Inr (m, s')"
    and k: "lit ''role'' \<notin> fst ` set kwargs" "lit ''content'' \<notin> fst ` set kwargs"
  shows "spoken s' = spoken s @ [(Some (JStr role), Some (JStr t))]"
proof -
  have "map_of (rev kwargs) (lit ''role'') = None" "map_of (rev kwargs) (lit ''content'') = None"
    using k by (simp_all add: map_of_eq_None_iff)
  then show ?thesis
    using add_message_get [OF a, of "lit ''role''"] add_message_get [OF a, of "lit ''content''"] add_messageD [OF a]
    by (simp add: spoken_def)
qed

lemma commit_spoken:
  assumes "commit_turn repr window c fresh clk s = Some (Inr (), s')"
  shows "spoken s' = spoken s @ committed_speech (tm_omit_user c) (tm_content c) (tm_reply c) \<and> sn_key s' = sn_key s"
proof -
  obtain s1 where c: "commit_messages c fresh clk s = (Inr (), s1)" and s1: "sn_messages s' = sn_messages s1" "sn_key s' = sn_key s1"
    using commit_turn_messages [OF assms] by blast
  define u where "u = (if tm_omit_user c then Inr ([], s)
      else SessionHistory.add_message (lit ''user'') (tm_content c) (tm_media c)
             [(lit ''inbound_timestamp'', JStr (tm_inbound_at c))] (fresh 0) (clk 0) (clk 1) s)"
  note step = c [unfolded commit_messages_def u_def [symmetric]]
  obtain m1 s0 m where u: "u = Inr (m1, s0)" and kw: "\<not> (\<exists>k \<in> fst ` set (tm_extra c). k \<in> set own_keywords)"
      and a: "SessionHistory.add_message (lit ''assistant'') (tm_reply c) (map JStr (tm_reply_media c)) (assistant_kwargs c)
        (fresh 1) (clk 2) (clk 3) s0 = Inr (m, s1)"
    using step by (auto split: sum.splits if_splits)
  have s0: "spoken s0 = spoken s @ (if tm_omit_user c then [] else [said ''user'' (tm_content c)]) \<and> sn_key s0 = sn_key s"
  proof (cases "tm_omit_user c")
    case True
    then show ?thesis using u by (simp add: u_def)
  next
    case False
    then have a1: "SessionHistory.add_message (lit ''user'') (tm_content c) (tm_media c)
        [(lit ''inbound_timestamp'', JStr (tm_inbound_at c))] (fresh 0) (clk 0) (clk 1) s = Inr (m1, s0)"
      using u by (simp add: u_def)
    show ?thesis using False add_message_spoken [OF a1] add_messageD [OF a1] by (simp add: said_def)
  qed
  have "lit ''role'' \<notin> fst ` set (assistant_kwargs c)" "lit ''content'' \<notin> fst ` set (assistant_kwargs c)"
    using kw by (auto simp: assistant_kwargs_def own_keywords_def)
  from add_message_spoken [OF a this] have "spoken s1 = spoken s0 @ [said ''assistant'' (tm_reply c)]" by (simp add: said_def)
  then show ?thesis using s0 s1 add_messageD [OF a] by (simp add: spoken_def committed_speech_def)
qed

section \<open>Steps and what they give\<close>

text \<open>\<open>gives I f Q\<close>: a step that starts with \<open>I\<close> and does not raise ends with \<open>Q\<close>.\<close>

definition gives :: "('w \<Rightarrow> bool) \<Rightarrow> ('a, 'w) step \<Rightarrow> ('a \<Rightarrow> 'w \<Rightarrow> bool) \<Rightarrow> bool" where
  "gives I f Q \<longleftrightarrow> (\<forall>w x w'. I w \<longrightarrow> f w = Some (Inr x, w') \<longrightarrow> Q x w')"

named_theorems giving "the steps of a turn and what they keep"

lemma givesI: "(\<And>w x w'. I w \<Longrightarrow> f w = Some (Inr x, w') \<Longrightarrow> Q x w') \<Longrightarrow> gives I f Q"
  by (simp add: gives_def)

lemma givesD: "gives I f Q \<Longrightarrow> I w \<Longrightarrow> f w = Some (Inr x, w') \<Longrightarrow> Q x w'"
  by (simp add: gives_def)

lemma gives_andthen [giving]: "gives I f (\<lambda>_. J) \<Longrightarrow> (\<And>x. gives J (g x) Q) \<Longrightarrow> gives I (andthen f g) Q"
  by (rule givesI) (auto simp: andthen_def dest: givesD split: option.splits sum.splits prod.splits)

lemma gives_give: "(\<And>w. I w \<Longrightarrow> Q x w) \<Longrightarrow> gives I (give x) Q"
  by (simp add: gives_def give_def)

lemma gives_keep [giving]: "gives I (give x) (\<lambda>_. I)"
  by (simp add: gives_def give_def)

lemma gives_refuse [giving]: "gives I (refuse e) Q"
  by (simp add: gives_def refuse_def)

lemma gives_value [giving]: "gives I (value_of r) (\<lambda>_. I)"
  by (simp add: gives_def value_of_def)

lemma gives_choose: "(\<And>v. gives I (f v) Q) \<Longrightarrow> gives I (\<lambda>w. f w w) Q"
  by (simp add: gives_def)

lemma gives_history [giving]: "gives I (history_of_session repr n i s) (\<lambda>_. I)"
  by (simp add: gives_def history_of_session_def value_of_def split: option.split)

lemma gives_unless:
  assumes "gives I f (\<lambda>_. I)" "\<And>x. gives I (g x) Q" "\<And>ob w. I w \<Longrightarrow> Q ob w"
  shows "gives I (unless_stopped f g) Q"
  unfolding unless_stopped_def
  by (rule gives_andthen [OF assms(1)]) (auto intro: assms(2) gives_give assms(3) split: progress.split)

text \<open>Conditions that a longer log does not break, on the session and the store.\<close>

definition steady :: "(('d, 's) pipe_world \<Rightarrow> bool) \<Rightarrow> bool" where
  "steady I \<longleftrightarrow> (\<forall>w w' l. I w \<longrightarrow> pw_store w' = pw_store w \<longrightarrow> pw_session w' = pw_session w \<longrightarrow> pw_log w' = pw_log w @ l \<longrightarrow> I w')"

lemma steadyD: "steady I \<Longrightarrow> I w \<Longrightarrow> pw_store w' = pw_store w \<Longrightarrow> pw_session w' = pw_session w \<Longrightarrow> pw_log w' = pw_log w @ l \<Longrightarrow> I w'"
  by (simp add: steady_def)

lemma steady_same: "steady I \<Longrightarrow> I w \<Longrightarrow> pw_store w' = pw_store w \<Longrightarrow> pw_session w' = pw_session w \<Longrightarrow> pw_log w' = pw_log w \<Longrightarrow> I w'"
  using steadyD [of I w w' "[]"] by simp

lemma gives_asking: "steady I \<Longrightarrow> gives I (asking f) (\<lambda>_. I)"
  by (rule givesI) (auto simp: asking_def elim!: steady_same split: prod.splits)

lemma gives_observe: "steady I \<Longrightarrow> gives I (observe env ev) (\<lambda>_. I)"
  by (rule givesI) (auto simp: observe_def act_def elim!: steadyD split: prod.splits if_splits)

lemma gives_dispatch: "steady I \<Longrightarrow> gives I (dispatch_if_needed env m dispatch t) (\<lambda>_. I)"
  by (rule givesI) (auto simp: dispatch_if_needed_def act_def Let_def elim!: steadyD split: if_splits)

lemma gives_stop: "steady I \<Longrightarrow> gives I (stop_with env m dispatch t) (\<lambda>_. I)"
  unfolding stop_with_def by (rule gives_andthen [OF gives_dispatch gives_keep])

lemma gives_reasoner: "steady I \<Longrightarrow> gives I (ask_reasoner env ctx m br h) (\<lambda>_. I)"
  by (rule givesI) (auto simp: ask_reasoner_def act_def elim!: steadyD split: option.splits prod.splits)

lemma gives_context:
  assumes "steady I" "gives I f (\<lambda>_. I)"
  shows "gives I (with_context ctx f) (\<lambda>_. I)"
proof (rule givesI)
  fix w x w'
  assume i: "I w" and r: "with_context ctx f w = Some (Inr x, w')"
  obtain w1 where f: "f (w\<lparr>pw_context := Some ctx\<rparr>) = Some (Inr x, w1)" "w' = w1\<lparr>pw_context := pw_context w\<rparr>"
    using r by (auto simp: with_context_def split: option.splits prod.splits)
  have "I (w\<lparr>pw_context := Some ctx\<rparr>)" by (rule steady_same [OF assms(1) i]) simp_all
  then have "I w1" using givesD [OF assms(2) _ f(1)] by blast
  then show "I w'" unfolding f(2) by (rule steady_same [OF assms(1)]) simp_all
qed

lemma gives_session:
  assumes "\<And>s. gives (\<lambda>w. I w \<and> pw_session w = Some s) (f s) Q"
  shows "gives I (on_session f) Q"
proof (rule givesI)
  fix w x w'
  assume i: "I w" "on_session f w = Some (Inr x, w')"
  then obtain s where "pw_session w = Some s" "f s w = Some (Inr x, w')" by (auto simp: on_session_def refuse_def split: option.splits)
  then show "Q x w'" using givesD [OF assms [of s]] i(1) by blast
qed

lemma gives_weaken: "gives I f Q \<Longrightarrow> gives (\<lambda>w. I w \<and> C w) f Q"
  unfolding gives_def by blast

lemma gives_session_any [giving]: "(\<And>s. gives I (f s) Q) \<Longrightarrow> gives I (on_session f) Q"
  by (rule gives_session) (rule gives_weaken)

section \<open>A turn in a store that keeps its contract\<close>

text \<open>The turn has its session, and \<open>base\<close> is what is said in it.\<close>

definition in_turn ::
  "(pystr \<Rightarrow> 'd \<Rightarrow> bool) \<Rightarrow> pystr \<Rightarrow> (json option \<times> json option) list \<Rightarrow> ('d, 's) pipe_world \<Rightarrow> bool" where
  "in_turn ok key base w \<longleftrightarrow> ok key (pw_store w) \<and> (\<exists>s. pw_session w = Some s \<and> sn_key s = key \<and> spoken s = base)"

definition saved_turn ::
  "(pystr \<Rightarrow> 'd \<Rightarrow> bool) \<Rightarrow> pystr \<Rightarrow> (json option \<times> json option) list \<Rightarrow> ('d, 's) pipe_world \<Rightarrow> bool" where
  "saved_turn ok key ts w \<longleftrightarrow> in_turn ok key ts w \<and> (\<exists>s. SavedSession s \<in> set (pw_log w) \<and> spoken s = ts)"

lemma steady_in_turn [simp]: "steady (in_turn ok key base)"
  by (auto simp: steady_def in_turn_def)

lemma steady_saved [simp]: "steady (saved_turn ok key base)"
  by (auto simp: steady_def saved_turn_def in_turn_def)

text \<open>The maintenance moves the mark of what is archived, it changes no message.\<close>

definition keeps_messages :: "session \<Rightarrow> session \<Rightarrow> bool" where
  "keeps_messages s s' \<longleftrightarrow> sn_key s' = sn_key s \<and> sn_messages s' = sn_messages s"

definition maintenance_ok :: "'s pipe_env \<Rightarrow> bool" where
  "maintenance_ok env \<longleftrightarrow> (\<forall>wait archive. pe_maintenance env = Some (wait, archive) \<longrightarrow>
     (\<forall>s x s' y. wait s x = (Inr s', y) \<longrightarrow> keeps_messages s s') \<and>
     (\<forall>s x r s' y. archive s x = (r, s', y) \<longrightarrow> keeps_messages s s'))"

lemma in_turn_keeps:
  assumes "in_turn ok key base w" "pw_session w = Some s" "keeps_messages s s'"
  shows "in_turn ok key base (w\<lparr>pw_session := Some s', pw_state := x, pw_log := l\<rparr>)"
  using assms by (auto simp: in_turn_def keeps_messages_def spoken_def)

locale transcript_store =
  fixes port :: "'d transcript_port"
    and ok :: "pystr \<Rightarrow> 'd \<Rightarrow> bool"
  assumes open_ok: "ok key d \<Longrightarrow> po_open port key d = (Inr s, d') \<Longrightarrow> ok key d' \<and> sn_key s = key"
    and save_ok: "ok key d \<Longrightarrow> sn_key s = key \<Longrightarrow> po_save port s d = (r, s', d') \<Longrightarrow>
      ok key d' \<and> sn_key s' = key \<and> spoken s' = spoken s"
    and keep_ok: "ok key d \<Longrightarrow> sn_key s = key \<Longrightarrow> ok key (po_keep port s d) \<and>
      po_open port key (po_keep port s d) = (Inr s, po_keep port s d)"
begin

lemma gives_save: "gives (in_turn ok key base) (save_session port) (\<lambda>_. saved_turn ok key base)"
  unfolding save_session_def
proof (rule gives_session, rule givesI)
  fix s and w :: "('d, 's) pipe_world" and x w'
  assume i: "in_turn ok key base w \<and> pw_session w = Some s"
    and r: "(case po_save port s (pw_store w) of (Inl e, s', d) \<Rightarrow> Some (Inl (PyError e), w\<lparr>pw_store := d, pw_session := Some s'\<rparr>)
      | (Inr u, s', d) \<Rightarrow> Some (Inr (), act (SavedSession s') (w\<lparr>pw_store := d, pw_session := Some s'\<rparr>))) = Some (Inr x, w')"
  obtain q s' d where p: "po_save port s (pw_store w) = (q, s', d)" by (metis prod_cases3)
  then have "w' = act (SavedSession s') (w\<lparr>pw_store := d, pw_session := Some s'\<rparr>)" using r by (auto split: sum.splits)
  then show "saved_turn ok key base w'"
    using i save_ok [OF _ _ p] by (auto simp: saved_turn_def in_turn_def act_def)
qed

lemma saved_in_turn: "gives I f (\<lambda>_. saved_turn ok key base) \<Longrightarrow> gives I f (\<lambda>_. in_turn ok key base)"
  by (simp add: gives_def saved_turn_def)

lemma gives_wait:
  assumes "maintenance_ok env"
  shows "gives (in_turn ok key base) (wait_for_archive env) (\<lambda>_. in_turn ok key base)"
proof (cases "pe_maintenance env")
  case None
  then show ?thesis by (simp add: wait_for_archive_def gives_keep)
next
  case (Some p)
  obtain wait archive where p: "p = (wait, archive)" by fastforce
  have keeps: "keeps_messages s s'" if "wait s x = (Inr s', y)" for s x s' y
    using assms that by (simp add: maintenance_ok_def Some p) blast
  show ?thesis unfolding wait_for_archive_def Some p option.case prod.case
  proof (rule gives_session, rule givesI)
    fix s and w :: "('d, 'a) pipe_world" and x w'
    assume i: "in_turn ok key base w \<and> pw_session w = Some s"
      and r: "andthen (asking (wait s)) set_session w = Some (Inr x, w')"
    obtain s' y where y: "wait s (pw_state w) = (Inr s', y)" "w' = w\<lparr>pw_state := y, pw_session := Some s'\<rparr>"
      using r by (auto simp: andthen_def asking_def set_session_def split: prod.splits sum.splits option.splits)
    from in_turn_keeps [OF _ _ keeps [OF y(1)], where x = y and l = "pw_log w" and w = w and base = base and key = key and ok = ok] i
    show "in_turn ok key base w'" by (auto simp: y(2) in_turn_def)
  qed
qed

lemma gives_archive:
  assumes "\<And>s x r s' y. archive s x = (r, s', y) \<Longrightarrow> keeps_messages s s'"
  shows "gives (in_turn ok key base) (archive_now archive) (\<lambda>_. in_turn ok key base)"
  unfolding archive_now_def
proof (rule gives_session, rule givesI)
  fix s and w :: "('d, 'a) pipe_world" and x w'
  assume i: "in_turn ok key base w \<and> pw_session w = Some s"
    and r: "(case archive s (pw_state w) of (r, s', st) \<Rightarrow> (let w' = act Archived (w\<lparr>pw_state := st, pw_session := Some s'\<rparr>)
        in Some (case r of Some WorkerGone \<Rightarrow> Inl WorkerGone | Some _ \<Rightarrow> Inr False | None \<Rightarrow> Inr True, w'))) = Some (Inr x, w')"
  obtain q s' st where a: "archive s (pw_state w) = (q, s', st)" by (metis prod_cases3)
  then have "w' = act Archived (w\<lparr>pw_state := st, pw_session := Some s'\<rparr>)" using r by (simp add: Let_def)
  then show "in_turn ok key base w'"
    using in_turn_keeps [OF _ _ assms [OF a], where x = st and l = "pw_log w" and w = w and base = base and key = key and ok = ok] i by (auto simp: act_def in_turn_def)
qed

lemma gives_guard:
  assumes "maintenance_ok env"
  shows "gives (in_turn ok key base) (guard_memory_context env port) (\<lambda>_. in_turn ok key base)"
proof (cases "pe_maintenance env")
  case None
  then show ?thesis by (auto simp: guard_memory_context_def intro!: gives_session_any gives_keep)
next
  case (Some p)
  obtain wait archive where p: "p = (wait, archive)" by fastforce
  have "keeps_messages s s'" if "archive s x = (r, s', y)" for s x r s' y
    using assms that by (simp add: maintenance_ok_def Some p) blast
  then have a: "gives (in_turn ok key base) (archive_now archive) (\<lambda>_. in_turn ok key base)" by (rule gives_archive)
  show ?thesis unfolding guard_memory_context_def Some p option.case prod.case
    by (auto intro!: gives_session_any gives_keep gives_andthen [OF a] gives_andthen [OF _ gives_keep]
        saved_in_turn [OF gives_save])
qed

lemma gives_history_phase:
  assumes "maintenance_ok env"
  shows "gives (in_turn ok key base) (history_phase env port m dispatch) (\<lambda>_. in_turn ok key base)"
  unfolding history_phase_def
  by (auto intro!: gives_andthen [OF gives_wait] gives_andthen [OF gives_guard] gives_andthen [OF gives_history]
      gives_session_any gives_keep gives_stop assms split: option.split)

end

section \<open>The other phases\<close>

lemma gives_before_turn: "steady I \<Longrightarrow> gives I (before_turn_phase env m dispatch b extra) (\<lambda>_. I)"
  unfolding before_turn_phase_def by (auto intro!: gives_andthen [OF gives_asking] gives_keep gives_stop)

lemma gives_core: "steady I \<Longrightarrow> gives I (core_command env t) (\<lambda>_. I)"
  unfolding core_command_def Let_def by (auto intro!: gives_andthen [OF gives_asking] gives_keep)

lemma gives_command:
  assumes "steady I"
  shows "gives I (command_phase env m dispatch) (\<lambda>_. I)"
proof -
  let ?f = "\<lambda>names. andthen (before_turn_phase env m dispatch
            (new_before_turn m [] [] (collect_skill_mentions names (ib_content m))) []) (\<lambda>p.
          case p of TurnStops ob \<Rightarrow> give (TurnStops ob)
          | TurnGoes (b, extra) \<Rightarrow>
              andthen (core_command env (ib_content m)) (\<lambda>reply.
                case reply of Some t \<Rightarrow> stop_with env m dispatch t | None \<Rightarrow> give (TurnGoes (Some b, extra))))"
  have "gives I (\<lambda>w. (\<lambda>w. if \<not> is_command (ib_content m) then give (TurnGoes (None, [])) else ?f (pe_skill_names env (pw_state w))) w w)
      (\<lambda>_. I)"
    by (rule gives_choose) (auto intro!: gives_andthen [OF gives_before_turn] gives_andthen [OF gives_core] gives_stop gives_keep assms
        split: progress.split option.split)
  then show ?thesis by (simp add: command_phase_def [abs_def] if_distrib [of "\<lambda>f. f _"])
qed

lemma gives_retrieval: "steady I \<Longrightarrow> gives I (retrieval_phase env m who extra) (\<lambda>_. I)"
  unfolding retrieval_phase_def
  by (auto intro!: gives_session_any gives_andthen [OF gives_history] gives_andthen [OF gives_asking] gives_keep split: retrieval.split)

lemma gives_prepare:
  assumes "steady I"
  shows "gives I (prepare_phase env m dispatch b history retrieved extra) (\<lambda>_. I)"
proof (cases b)
  case None
  have "gives I (\<lambda>w. (\<lambda>w. before_turn_phase env m dispatch
      (new_before_turn m retrieved history (collect_skill_mentions (pe_skill_names env (pw_state w)) (ib_content m))) extra) w w) (\<lambda>_. I)"
    by (rule gives_choose) (rule gives_before_turn [OF assms])
  then show ?thesis by (simp add: prepare_phase_def [abs_def] None)
next
  case (Some b')
  then show ?thesis by (simp add: prepare_phase_def [abs_def] gives_keep)
qed

lemma gives_reasoning: "steady I \<Longrightarrow> gives I (reasoning_phase env m key who dispatch b) (\<lambda>_. I)"
  unfolding reasoning_phase_def Let_def
  by (auto intro!: gives_context gives_andthen [OF gives_asking] gives_andthen [OF gives_reasoner] gives_keep gives_stop)

lemma gives_set_principal: "gives (in_turn ok key base) (set_principal who) (\<lambda>_. in_turn ok key base)"
  unfolding set_principal_def
  by (rule gives_session, rule givesI) (auto simp: in_turn_def set_session_def give_def split: if_splits)

lemma gives_commit_session:
  "gives (in_turn ok key base) (commit_session env c)
     (\<lambda>_. in_turn ok key (base @ committed_speech (tm_omit_user c) (tm_content c) (tm_reply c)))"
  unfolding commit_session_def
  by (rule gives_session, rule givesI) (auto simp: in_turn_def dest!: commit_spoken split: option.splits prod.splits sum.splits)

section \<open>The outcome of a turn\<close>

text \<open>A turn that replies has added nothing to what is said, or the message of the user and the reply; then the
  session was saved with them before the reply went out.\<close>

definition turn_saved ::
  "(pystr \<Rightarrow> 'd \<Rightarrow> bool) \<Rightarrow> pystr \<Rightarrow> (json option \<times> json option) list \<Rightarrow> bool \<Rightarrow> outbound \<Rightarrow> ('d, 's) pipe_world \<Rightarrow> bool" where
  "turn_saved ok key ts dispatch ob w \<longleftrightarrow> in_turn ok key ts w \<and>
     (\<exists>l s. pw_log w = l @ (if dispatch then [Published ob] else []) \<and> SavedSession s \<in> set l \<and> spoken s = ts)"

definition omits_user :: "inbound \<Rightarrow> bool" where
  "omits_user m \<longleftrightarrow> truthy (get_default (ib_metadata m) ''omit_user_turn'' JNull)"

definition turn_outcome ::
  "(pystr \<Rightarrow> 'd \<Rightarrow> bool) \<Rightarrow> pystr \<Rightarrow> (json option \<times> json option) list \<Rightarrow> inbound \<Rightarrow> bool \<Rightarrow> outbound \<Rightarrow>
   ('d, 's) pipe_world \<Rightarrow> bool" where
  "turn_outcome ok key base m dispatch ob w \<longleftrightarrow> in_turn ok key base w \<or>
     turn_saved ok key (base @ committed_speech (omits_user m) (ib_content m) (ob_content ob)) dispatch ob w"

context transcript_store begin

lemma gives_commit:
  "gives (in_turn ok key base) (commit_and_dispatch env port m key dispatch a ob extra)
     (\<lambda>x w. x = ob \<and> turn_saved ok key (base @ committed_speech (omits_user m) (ib_content m) (ob_content ob)) dispatch ob w)"
proof -
  let ?c = "turn_commit_of m a ob extra"
  let ?ts = "base @ committed_speech (omits_user m) (ib_content m) (ob_content ob)"
  have c: "gives (in_turn ok key base) (commit_session env ?c) (\<lambda>_. in_turn ok key ?ts)"
    using gives_commit_session [of ok key base env ?c] by (simp add: turn_commit_of_def omits_user_def)
  have p: "gives (saved_turn ok key ?ts) (andthen (if dispatch then doing (Published ob) else give ()) (\<lambda>_. give ob))
      (\<lambda>x w. x = ob \<and> turn_saved ok key ?ts dispatch ob w)"
    by (rule givesI)
      (auto simp: andthen_def doing_def give_def act_def turn_saved_def saved_turn_def in_turn_def split: if_splits)
  show ?thesis unfolding commit_and_dispatch_def
    by (rule gives_andthen [OF c], rule gives_andthen [OF gives_save], rule gives_session_any,
        intro gives_andthen [OF gives_observe] gives_andthen [OF gives_asking] p) simp_all
qed

lemma gives_rest:
  assumes "maintenance_ok env"
  shows "gives (in_turn ok key base)
     (andthen (set_principal who) (\<lambda>_. andthen (observe env (TurnStarted key)) (\<lambda>_.
      unless_stopped (command_phase env m dispatch) (\<lambda>(b, extra).
      unless_stopped (history_phase env port m dispatch) (\<lambda>history.
      andthen (retrieval_phase env m who extra) (\<lambda>(retrieved, extra1).
      unless_stopped (prepare_phase env m dispatch b history retrieved extra1) (\<lambda>(b', extra2).
      unless_stopped (reasoning_phase env m key who dispatch b') (\<lambda>t.
      andthen (asking (run_phase (pe_after_reasoning env) (new_after_reasoning t m))) (\<lambda>a.
        commit_and_dispatch env port m key dispatch a (reply_outbound (pe_repr env) m a) (reasoned_extra t extra2)))))))))) 
     (turn_outcome ok key base m dispatch)"
proof -
  have c: "gives (in_turn ok key base) (commit_and_dispatch env port m key dispatch a ob extra) (turn_outcome ok key base m dispatch)"
    for a ob extra
    using gives_commit [of key base env m dispatch a ob extra] by (auto simp: gives_def turn_outcome_def)
  have stopped: "turn_outcome ok key base m dispatch ob w" if "in_turn ok key base w" for ob w
    using that by (simp add: turn_outcome_def)
  show ?thesis
    by (rule gives_andthen [OF gives_set_principal], rule gives_andthen [OF gives_observe], simp,
        rule gives_unless [OF gives_command], simp, clarify,
        rule gives_unless [OF gives_history_phase [OF assms]],
        rule gives_andthen [OF gives_retrieval], simp, clarify,
        rule gives_unless [OF gives_prepare], simp, clarify,
        rule gives_unless [OF gives_reasoning], simp,
        rule gives_andthen [OF gives_asking], simp, rule c)
      (simp_all add: stopped)
qed

end

end
