(* ===== verification/TurnStores.thy ===== *)
theory TurnStores
  imports TurnStore
begin

text \<open>
  The two transcript stores a turn runs on: the session manager of one process, \<open>src/session/manager.py\<close>, and the
  transcript bound to a Run, \<open>src/cloud/transcript.py\<close>; both keep the contract.
\<close>

section \<open>The ports\<close>

text \<open>\<open>SessionManager.save\<close>: \<open>mirror\<close> is what writing the mirror file raises after the transaction.\<close>

definition save_mirrored ::
  "(json \<Rightarrow> pystr) \<Rightarrow> (session \<Rightarrow> py_error option) \<Rightarrow> session \<Rightarrow> session_manager \<Rightarrow> unit res \<times> session \<times> session_manager" where
  "save_mirrored repr mirror s g =
     (case save_sqlite_append_only repr s (sg_db g) of
        (Inl e, s') \<Rightarrow> (Inl e, s', g)
      | (Inr db, s') \<Rightarrow> (case mirror s' of None \<Rightarrow> Inr () | Some e \<Rightarrow> Inl e, s', g\<lparr>sg_db := db\<rparr>))"

definition local_port ::
  "(json \<Rightarrow> pystr) \<Rightarrow> (session \<Rightarrow> py_error option) \<Rightarrow> pystr \<Rightarrow> pystr \<Rightarrow> session_manager transcript_port" where
  "local_port repr mirror now later =
     \<lparr>po_open = (\<lambda>key g. case get_or_create key now later g of Inl e \<Rightarrow> (Inl e, g) | Inr (s, g') \<Rightarrow> (Inr s, g')),
      po_save = save_mirrored repr mirror, po_keep = cache_put\<rparr>"

definition local_ok :: "pystr \<Rightarrow> session_manager \<Rightarrow> bool" where
  "local_ok key g \<longleftrightarrow> (\<forall>(k, s) \<in> set (sg_cache g). sn_key s = k)"

text \<open>The session given is the object that is bound.\<close>

definition bound_port :: "bound_transcript option transcript_port" where
  "bound_port =
     \<lparr>po_open = (\<lambda>key cur. (bound_session key cur, cur)),
      po_save = (\<lambda>s cur. case save_bound (sn_key s) True cur of Inl e \<Rightarrow> (Inl e, s, cur) | Inr b \<Rightarrow> (Inr (), s, Some b)),
      po_keep = (\<lambda>s. map_option (\<lambda>b. b\<lparr>bt_session := s\<rparr>))\<rparr>"

definition bound_ok :: "nat \<Rightarrow> pystr \<Rightarrow> bound_transcript option \<Rightarrow> bool" where
  "bound_ok i key cur \<longleftrightarrow> (\<exists>b. cur = Some b \<and> sn_key (bt_session b) = key \<and> bt_initial b = i)"

section \<open>The contract\<close>

lemma set_missing_get: "k \<noteq> lit j \<Longrightarrow> map_of (set_missing j v m) k = map_of m k"
  by (auto simp: set_missing_def map_add_def split: option.splits)

lemma number_spoken:
  "number_messages key i ms = Inr ms' \<Longrightarrow>
   map (\<lambda>m. (get m ''role'', get m ''content'')) ms' = map (\<lambda>m. (get m ''role'', get m ''content'')) ms"
proof (induction key i ms arbitrary: ms' rule: number_messages.induct)
  case (2 key i m ms)
  then show ?case by (auto simp: set_missing_get split: option.splits sum.splits simp del: nat_text.simps)
qed simp

lemma normalize_spoken: "normalize_messages s = (r, s') \<Longrightarrow> spoken s' = spoken s"
  by (auto simp: normalize_messages_def spoken_def set_missing_get dest: number_spoken split: sum.splits list.splits)

lemma save_spoken: "save_sqlite_append_only repr s db = (r, s') \<Longrightarrow> spoken s' = spoken s \<and> sn_key s' = sn_key s"
  by (auto simp: save_sqlite_append_only_def Let_def dest: normalize_spoken normalize_key split: prod.splits sum.splits if_splits)

lemma cache_members: "(k, s) \<in> set (AList.update k' s' al) \<Longrightarrow> k = k' \<and> s = s' \<or> (k, s) \<in> set al"
  by (induction al) (auto split: if_splits)

lemma local_keeps: "local_ok key g \<Longrightarrow> local_ok key (cache_put s g)"
  using cache_members by (fastforce simp: local_ok_def cache_put_def)

lemma local_opens:
  assumes "local_ok key g" "get_or_create key now later g = Inr (s, g')"
  shows "local_ok key g' \<and> sn_key s = key"
proof (cases "map_of (sg_cache g) key")
  case None
  then show ?thesis using assms local_keeps [OF assms(1)]
    by (auto simp: get_or_create_def Let_def loaded_session_def split: if_splits option.splits)
next
  case (Some x)
  then show ?thesis using assms map_of_SomeD [OF Some] by (auto simp: get_or_create_def local_ok_def)
qed

interpretation local_store: transcript_store "local_port repr mirror now later" local_ok for repr mirror now later
proof
  fix key d s d'
  assume "local_ok key d" "po_open (local_port repr mirror now later) key d = (Inr s, d')"
  then show "local_ok key d' \<and> sn_key s = key"
    using local_opens [of key d now later s d'] by (auto simp: local_port_def split: sum.splits prod.splits)
next
  fix key d s r s' d'
  assume "local_ok key d" "sn_key s = key" "po_save (local_port repr mirror now later) s d = (r, s', d')"
  then show "local_ok key d' \<and> sn_key s' = key \<and> spoken s' = spoken s"
    by (auto simp: local_port_def save_mirrored_def local_ok_def dest!: save_spoken split: prod.splits sum.splits)
next
  fix key d and s :: session
  assume "local_ok key d" "sn_key s = key"
  then show "local_ok key (po_keep (local_port repr mirror now later) s d) \<and>
      po_open (local_port repr mirror now later) key (po_keep (local_port repr mirror now later) s d) =
      (Inr s, po_keep (local_port repr mirror now later) s d)"
    using local_keeps [of key d s] by (auto simp: local_port_def get_or_create_def cache_put_def update_conv)
qed

interpretation bound_store: transcript_store bound_port "bound_ok i" for i
  by unfold_locales
    (auto simp: bound_port_def bound_ok_def bound_session_def require_binding_def save_bound_def split: if_splits sum.splits)

section \<open>Whole turns\<close>

lemma leased_success:
  assumes "leased l f w = Some (Inr x, w')"
  shows "\<exists>s w1 s'. f (w\<lparr>pw_state := s\<rparr>) = Some (Inr x, w1) \<and> w' = w1\<lparr>pw_state := s'\<rparr>"
proof (cases l)
  case None
  then have "f (w\<lparr>pw_state := pw_state w\<rparr>) = Some (Inr x, w')" using assms by (simp add: leased_def)
  then show ?thesis by (intro exI [of _ "pw_state w"] exI [of _ w'] exI [of _ "pw_state w'"]) simp
next
  case (Some p)
  then show ?thesis using assms
    by (cases p) (auto simp: leased_def split: prod.splits option.splits)
qed

lemma finish_success:
  assumes "finish_turn env key dispatch r w = Some (Inr ob, w')"
  shows "r = Inr ob \<and> pw_store w' = pw_store w \<and>
    pw_log w' = pw_log w @ [Observed (TurnFinished key TurnSuccess (Some ob) dispatch)]"
  using assms
  by (auto simp: finish_turn_def andthen_def observe_def act_def refuse_def give_def
      split: sum.splits option.splits prod.splits if_splits)

definition turn_leaves ::
  "session \<Rightarrow> session \<Rightarrow> inbound \<Rightarrow> pystr \<Rightarrow> bool \<Rightarrow> outbound \<Rightarrow> pipe_action list \<Rightarrow> bool" where
  "turn_leaves s s' m key dispatch ob log \<longleftrightarrow> spoken s' = spoken s \<or>
     spoken s' = spoken s @ committed_speech (omits_user m) (ib_content m) (ob_content ob) \<and>
     (\<exists>l x. log = l @ (if dispatch then [Published ob] else []) @ [Observed (TurnFinished key TurnSuccess (Some ob) dispatch)] \<and>
        SavedSession x \<in> set l \<and> spoken x = spoken s')"

context transcript_store begin

lemma pipeline_leaves:
  assumes ok: "ok key (pw_store w)" "maintenance_ok env"
    and r: "pipeline_run env port m key dispatch w = Some (Inr ob, w')"
  shows "\<exists>s d s'. po_open port key (pw_store w) = (Inr s, d) \<and> po_open port key (pw_store w') = (Inr s', pw_store w') \<and>
    ok key (pw_store w') \<and> turn_leaves s s' m key dispatch ob (pw_log w')"
proof -
  obtain q w1 where l: "leased (pe_generation env) (leased (pe_snapshot env) (run_turn_body env port m key dispatch)) w = Some (q, w1)"
      "finish_turn env key dispatch q w1 = Some (Inr ob, w')"
    using r by (auto simp: pipeline_run_def split: option.splits)
  note f = finish_success [OF l(2)]
  obtain x w2 where b: "run_turn_body env port m key dispatch (w\<lparr>pw_state := x\<rparr>) = Some (Inr ob, w2)"
      "pw_store w1 = pw_store w2" "pw_log w1 = pw_log w2"
  proof -
    obtain s1 u s1' where 1: "leased (pe_snapshot env) (run_turn_body env port m key dispatch) (w\<lparr>pw_state := s1\<rparr>) = Some (Inr ob, u)"
        "w1 = u\<lparr>pw_state := s1'\<rparr>"
      using leased_success [OF l(1) [unfolded f [THEN conjunct1]]] by blast
    obtain s2 v s2' where 2: "run_turn_body env port m key dispatch (w\<lparr>pw_state := s1\<rparr>\<lparr>pw_state := s2\<rparr>) = Some (Inr ob, v)"
        "u = v\<lparr>pw_state := s2'\<rparr>"
      using leased_success [OF 1(1)] by blast
    show ?thesis by (rule that [of s2 v]) (use 1 2 in simp_all)
  qed
  let ?w = "w\<lparr>pw_state := x, pw_session := None\<rparr>"
  obtain w3 where t: "turn_body env port m key dispatch ?w = Some (Inr ob, w3)"
      "w2 = (case pw_session w3 of None \<Rightarrow> w3 | Some s \<Rightarrow> w3\<lparr>pw_store := po_keep port s (pw_store w3)\<rparr>)"
    using b(1) by (auto simp: run_turn_body_def split: option.splits prod.splits)
  obtain s d where o: "po_open port key (pw_store w) = (Inr s, d)"
  proof (cases "po_open port key (pw_store w)")
    case (Pair q d)
    show ?thesis
    proof (cases q)
      case (Inl e)
      then show ?thesis using t(1) Pair by (simp add: turn_body_def Let_def andthen_def [of "open_session port key"] open_session_def)
    next
      case (Inr s)
      then show ?thesis using that Pair by simp
    qed
  qed
  have i: "in_turn ok key (spoken s) (?w\<lparr>pw_store := d, pw_session := Some s\<rparr>)"
    using open_ok [OF ok(1) o] by (simp add: in_turn_def)
  have "turn_outcome ok key (spoken s) m dispatch ob w3"
    by (rule givesD [OF gives_rest [OF ok(2)] i])
      (use t(1) o in \<open>simp add: turn_body_def Let_def andthen_def [of "open_session port key"] open_session_def\<close>)
  moreover have "\<exists>s'. pw_session w3 = Some s' \<and> sn_key s' = key \<and> ok key (pw_store w3)"
    using calculation by (auto simp: turn_outcome_def turn_saved_def in_turn_def)
  then obtain s' where s': "pw_session w3 = Some s'" "sn_key s' = key" "ok key (pw_store w3)" by blast
  have store: "pw_store w' = po_keep port s' (pw_store w3)" "pw_log w' = pw_log w3 @ [Observed (TurnFinished key TurnSuccess (Some ob) dispatch)]"
    using f b t(2) s'(1) by simp_all
  have re: "po_open port key (pw_store w') = (Inr s', pw_store w')" using keep_ok [OF s'(3,2)] store(1) by simp
  ultimately show ?thesis using o s' store re keep_ok [OF s'(3,2)]
    by (auto simp: turn_leaves_def turn_outcome_def turn_saved_def in_turn_def)
qed

end

end
