(* ===== verification/PipelineTheorems.thy ===== *)
theory PipelineTheorems
  imports TurnStores
begin

text \<open>
  A turn of the pipeline always ends and says so once, what it leaves in the session, and that a turn of a Run
  adds what the adapter expects.
\<close>

section \<open>The end of a turn\<close>

fun not_final :: "pipe_action \<Rightarrow> bool" where
  "not_final (Observed (TurnFinished k st ob d)) = False"
| "not_final a = True"

lemma logs_commit_dispatch: "logs not_final (commit_and_dispatch env port m key dispatch a ob extra)"
  unfolding commit_and_dispatch_def
  by (auto intro!: logging logs_save logs_observe logs_doing)

lemma logs_body:
  assumes "\<And>ctx. 0 < re_limit (pe_react env ctx)"
  shows "logs not_final (turn_body env port m key dispatch)"
  unfolding turn_body_def Let_def
  by (auto intro!: logging logs_observe logs_command logs_history_phase logs_prepare logs_reasoning logs_commit_dispatch
      assms simp: set_principal_def)

lemma logs_run_body:
  assumes "\<And>ctx. 0 < re_limit (pe_react env ctx)"
  shows "logs not_final (run_turn_body env port m key dispatch)"
proof (rule logsI)
  fix w :: "('b, 'a) pipe_world"
  have b: "logs not_final (turn_body env port m key dispatch)" by (rule logs_body [OF assms])
  obtain r w1 l where "turn_body env port m key dispatch (w\<lparr>pw_session := None\<rparr>) = Some (r, w1)" "pw_log w1 = pw_log w @ l"
      "list_all not_final l"
    using logs_at [OF b, of "w\<lparr>pw_session := None\<rparr>"] by auto
  then show "\<exists>r w' l. run_turn_body env port m key dispatch w = Some (r, w') \<and> pw_log w' = pw_log w @ l \<and> list_all not_final l"
    by (auto simp: run_turn_body_def split: option.split)
qed

definition status_fits :: "'s pipe_env \<Rightarrow> turn_status \<Rightarrow> outbound option \<Rightarrow> run_error + outbound \<Rightarrow> bool" where
  "status_fits env st ob r \<longleftrightarrow>
     (case st of
        TurnSuccess \<Rightarrow> ob \<noteq> None \<and> (r = Inr (the ob) \<or> r = Inl WorkerGone)
      | TurnInterrupted \<Rightarrow> ob = None \<and> r = Inl WorkerGone
      | TurnFailed t \<Rightarrow> ob = None \<and> (\<exists>e. e \<noteq> WorkerGone \<and> t = pe_error env e \<and> (r = Inl e \<or> r = Inl WorkerGone)))"

text \<open>C11: A turn of the pipeline always returns if the reasoner has a positive budget, whatever the handlers, plugins,
  tools, memories, stores and leases do, and it announces its end exactly once, as the last thing it does: with the
  reply when it returns one, as interrupted when it was cancelled, and as failed with the text of its error otherwise;
  only a cancellation while the end is announced can still change what it returns.\<close>

theorem pipeline_finishes_once:
  assumes "\<And>ctx. 0 < re_limit (pe_react env ctx)"
  shows "\<exists>r w' l st ob. pipeline_run env port m key dispatch w = Some (r, w') \<and>
    pw_log w' = pw_log w @ l @ [Observed (TurnFinished key st ob dispatch)] \<and> list_all not_final l \<and> status_fits env st ob r"
proof -
  obtain r w1 l where "leased (pe_generation env) (leased (pe_snapshot env) (run_turn_body env port m key dispatch)) w = Some (r, w1)"
      "pw_log w1 = pw_log w @ l" "list_all not_final l"
    using logs_at [OF logs_leased [OF logs_leased [OF logs_run_body [OF assms]]]] by blast
  then show ?thesis
    by (cases r) (auto simp: pipeline_run_def finish_turn_def andthen_def observe_def act_def refuse_def give_def status_fits_def
        split: prod.split)
qed

section \<open>What a turn leaves\<close>

text \<open>C12: A turn that replies has left the session of the process as it was, when a plugin, a command or the guard of
  the history answered, or it has appended the message of the user, unless the turn omits it, and the reply, and nothing
  else; then the session was saved with them before the reply was published.\<close>

theorem turn_leaves_session:
  assumes "local_ok key (pw_store w)" "maintenance_ok env" "pw_log w = []"
    and "pipeline_run env (local_port repr mirror now later) m key dispatch w = Some (Inr ob, w')"
  shows "\<exists>s g s'. get_or_create key now later (pw_store w) = Inr (s, g) \<and>
    get_or_create key now later (pw_store w') = Inr (s', pw_store w') \<and> turn_leaves s s' m key dispatch ob (pw_log w')"
proof -
  obtain s d s' where "po_open (local_port repr mirror now later) key (pw_store w) = (Inr s, d)"
      "po_open (local_port repr mirror now later) key (pw_store w') = (Inr s', pw_store w')"
      "turn_leaves s s' m key dispatch ob (pw_log w')"
    using local_store.pipeline_leaves [OF assms(1,2,4)] by blast
  then show ?thesis by (auto simp: local_port_def split: sum.splits prod.splits)
qed

lemma spoken_single:
  assumes "spoken s' = spoken s @ [said role t]"
  shows "\<exists>m. drop (length (sn_messages s)) (sn_messages s') = [m] \<and> has_role role m \<and> get m ''content'' = Some (JStr t)"
proof -
  let ?f = "\<lambda>m. (get m ''role'', get m ''content'')"
  have "map ?f (drop (length (sn_messages s)) (sn_messages s')) = drop (length (spoken s)) (spoken s')"
    by (simp add: spoken_def drop_map)
  then have "map ?f (drop (length (sn_messages s)) (sn_messages s')) = [said role t]" using assms by simp
  then obtain m where "drop (length (sn_messages s)) (sn_messages s') = [m]" "?f m = said role t" by (auto simp: map_eq_Cons_conv)
  then show ?thesis by (simp add: said_def has_role_def)
qed

lemma spoken_same: "spoken s' = spoken s \<Longrightarrow> drop (length (sn_messages s)) (sn_messages s') = []"
  by (auto simp: spoken_def dest: map_eq_imp_length_eq)

definition delegated_request :: "agent_request \<Rightarrow> agent_request" where
  "delegated_request q = q\<lparr>aq_metadata := dict_set (lit ''omit_user_turn'') (JBool True)
     (filter (\<lambda>(k, v). k \<noteq> lit transcript_key) (aq_metadata q))\<rparr>"

lemma delegated_omits: "omits_user (request_inbound (delegated_request q) kind namespace subject submitted)"
  by (simp add: omits_user_def request_inbound_def delegated_request_def get_default_def map_of_dict_update map_of_dict_set)

text \<open>C10: The pipeline keeps what the adapter of a Run relies on: when it replies to the delegated request on the
  transcript that was bound, the transcript is still the one of the Run and has either no new message or exactly
  one, of the assistant and with the reply, so the adapter never refuses the turn for its messages.\<close>

theorem pipeline_meets_adapter:
  assumes "bind_transcript repr (aq_conversation_id q) transcript cur = Inr b"
    and "maintenance_ok env" "pw_store w = Some b" "pw_log w = []"
    and "pipeline_execute env bound_port kind namespace subject submitted (delegated_request q) w = Some (Inr r, w')"
  shows "\<exists>b'. pw_store w' = Some b' \<and> bt_initial b' = bt_initial b \<and>
    (drop (bt_initial b') (sn_messages (bt_session b')) = [] \<or>
     (\<exists>a. drop (bt_initial b') (sn_messages (bt_session b')) = [a] \<and> has_role ''assistant'' a \<and>
        get a ''content'' = Some (JStr (ar_content r))))"
proof -
  let ?key = "aq_conversation_id q"
  let ?m = "request_inbound (delegated_request q) kind namespace subject submitted"
  have key: "aq_conversation_id (delegated_request q) = ?key" by (simp add: delegated_request_def)
  have b: "sn_key (bt_session b) = ?key" "bt_initial b = length (sn_messages (bt_session b))"
    using assms(1) by (auto simp: bind_transcript_def split: if_splits sum.splits)
  obtain ob where run: "pipeline_run env bound_port ?m ?key False w = Some (Inr ob, w')" and r: "ar_content r = ob_content ob"
    using assms(5) by (auto simp: pipeline_execute_def andthen_def give_def key split: option.splits prod.splits sum.splits)
  have "bound_ok (bt_initial b) ?key (pw_store w)" using b assms(3) by (simp add: bound_ok_def)
  from bound_store.pipeline_leaves [OF this assms(2) run]
  obtain s d s' where o: "po_open bound_port ?key (pw_store w) = (Inr s, d)"
      "po_open bound_port ?key (pw_store w') = (Inr s', pw_store w')" "bound_ok (bt_initial b) ?key (pw_store w')"
      "turn_leaves s s' ?m ?key False ob (pw_log w')" by blast
  obtain b' where b': "pw_store w' = Some b'" "bt_initial b' = bt_initial b" "s' = bt_session b'"
    using o(2,3) by (auto simp: bound_port_def bound_ok_def bound_session_def require_binding_def)
  have s: "s = bt_session b" using o(1) assms(3) b(1) by (simp add: bound_port_def bound_session_def require_binding_def)
  have "spoken s' = spoken s \<or> spoken s' = spoken s @ [said ''assistant'' (ob_content ob)]"
    using o(4) delegated_omits by (auto simp: turn_leaves_def committed_speech_def)
  then show ?thesis using spoken_same [of s' s] spoken_single [of s' s "''assistant''"] b' b(2) s r by auto
qed

section \<open>A sample\<close>

text \<open>A model that answers at once, and nothing around the turn; then one in which a plugin answers before it.\<close>

definition empty_phase :: "('c, 's) phase" where
  "empty_phase = \<lparr>ph_handlers = [], ph_modules = [], ph_leased = []\<rparr>"

definition pipe_sample :: "unit pipe_env" where
  "pipe_sample =
     \<lparr>pe_repr = (\<lambda>_. []), pe_error = (\<lambda>_. []), pe_window = 10, pe_fresh = (\<lambda>s i. [97]), pe_clock = (\<lambda>s i. []),
      pe_observe = (\<lambda>ev s. (False, s)), pe_before_turn = empty_phase, pe_before_reasoning = empty_phase,
      pe_after_reasoning = empty_phase, pe_after_turn = empty_phase, pe_skill_names = (\<lambda>_. []),
      pe_tools_text = (\<lambda>s. (Inr [], s)), pe_skills_text = (\<lambda>s. (Inr [], s)), pe_memory_text = (\<lambda>s. (Inr [], s)),
      pe_maintenance = None, pe_retrieval = Engine (\<lambda>p m s. (Inr \<lparr>en_block = [], en_engine = JNull, en_records = 0\<rparr>, s)),
      pe_react = (\<lambda>_. short_env), pe_config = react_sample_config, pe_rendering = (\<lambda>m br. hi_rendering),
      pe_generation = None, pe_snapshot = None\<rparr>"

definition answering_sample :: "unit pipe_env" where
  "answering_sample = pipe_sample\<lparr>pe_before_turn :=
     \<lparr>ph_handlers = [], ph_modules = [\<lambda>b s. (Inr (b\<lparr>bf_abort := True, bf_abort_reply := lit ''later''\<rparr>), s)], ph_leased = []\<rparr>\<rparr>"

definition start_world :: "'d \<Rightarrow> ('d, unit) pipe_world" where
  "start_world d = \<lparr>pw_store = d, pw_session = None, pw_state = (), pw_context = None, pw_log = []\<rparr>"

definition hi_message :: inbound where
  "hi_message = \<lparr>ib_channel = [99], ib_sender = [115], ib_chat_id = [49], ib_content = lit ''hi'', ib_timestamp = [],
     ib_media = [], ib_metadata = []\<rparr>"

lemma samples_ok: "maintenance_ok pipe_sample" "maintenance_ok answering_sample"
  by (simp_all add: maintenance_ok_def pipe_sample_def answering_sample_def)

lemma pipeline_finishes_once_witness:
  "\<exists>r w' l st ob. pipeline_run pipe_sample bound_port hi_message [107] True (start_world None) = Some (r, w') \<and>
    pw_log w' = l @ [Observed (TurnFinished [107] st ob True)] \<and> status_fits pipe_sample st ob r"
  using pipeline_finishes_once [of pipe_sample bound_port hi_message "[107]" True "start_world None"]
  by (fastforce simp: pipe_sample_def short_env_def react_sample_def start_world_def)

definition empty_manager :: session_manager where
  "empty_manager = \<lparr>sg_db = empty_db, sg_cache = []\<rparr>"

lemma answering_run:
  "\<exists>ob w'. pipeline_run answering_sample (local_port (\<lambda>_. []) (\<lambda>_. None) [] []) hi_message [107] True (start_world empty_manager) =
     Some (Inr ob, w') \<and> ob_content ob = lit ''later''"
  by (simp add: pipeline_run_def answering_sample_def pipe_sample_def leased_def run_turn_body_def turn_body_def Let_def andthen_def
      open_session_def local_port_def get_or_create_def start_world_def empty_manager_def empty_db_def text_ok_def utf8_char_def
      set_principal_def on_session_def give_def observe_def act_def unless_stopped_def command_phase_def is_command_def hi_message_def
      get_text_def get_or_def history_phase_def wait_for_archive_def guard_memory_context_def pending_messages_def guard_threshold_def
      history_of_session_def get_history_def selected_messages_def value_of_def retrieval_phase_def get_default_def asking_def
      prepare_phase_def before_turn_phase_def run_phase_def run_modules_def stop_with_def dispatch_if_needed_def correlation_def
      new_outbound_def finish_turn_def lit_def py_space_def)

lemma turn_leaves_session_witness:
  "\<exists>s g ob (w' :: (session_manager, unit) pipe_world) s'. get_or_create [107] [] [] empty_manager = Inr (s, g) \<and>
    get_or_create [107] [] [] (pw_store w') = Inr (s', pw_store w') \<and> turn_leaves s s' hi_message [107] True ob (pw_log w')"
proof -
  obtain ob w' where r: "pipeline_run answering_sample (local_port (\<lambda>_. []) (\<lambda>_. None) [] []) hi_message [107] True
      (start_world empty_manager) = Some (Inr ob, w')"
    using answering_run by blast
  have "local_ok [107] (pw_store (start_world empty_manager))" "pw_log (start_world empty_manager) = []"
    by (simp_all add: local_ok_def start_world_def empty_manager_def)
  from turn_leaves_session [OF this(1) samples_ok(2) this(2) r] show ?thesis by (simp add: start_world_def) blast
qed

lemma short_react:
  "\<exists>n. react_run (short_env\<lparr>re_disabled := []\<rparr>) react_sample_config [user_message (lit ''hi'')] () =
     Some (Inr (short_result\<lparr>rr_stats := Some ([n], [[]])\<rparr>), ())"
  apply (simp add: react_run_def react_sample_config_def new_compactor_def soft_limit_def Let_def)
  apply (subst react_loop.simps)
  apply (simp add: react_step_def compact_state_def prepare_def compaction_env_def start_state_def short_env_def
      react_sample_def Let_def ask_model_def react_answer_def answered_def final_step_def remember_def visible_specs_def
      strip_def lit_def py_space_def result_of_state_def or_else_def short_result_def persistence_payload_def)
  done

definition short_turn :: "int \<Rightarrow> int \<Rightarrow> turn_reply" where
  "short_turn n k = \<lparr>ty_result = short_result\<lparr>rr_stats := Some ([n], [[]])\<rparr>, ty_attempts =
     [\<lparr>ap_name = lit ''full'', ap_window = 0, ap_history = 0, ap_disabled = [], ap_tokens = k, ap_budget = 0,
       ap_sections = [], ap_error = None\<rparr>], ty_selected = Some (lit ''full''), ty_trimmed = []\<rparr>"

lemma short_run_turn:
  "\<exists>n k. run_turn (short_env\<lparr>re_disabled := []\<rparr>) react_sample_config hi_rendering [] () = Some (Inr (short_turn n k), ())"
proof -
  obtain n where r: "react_run (short_env\<lparr>re_disabled := []\<rparr>) react_sample_config [user_message (lit ''hi'')] () =
      Some (Inr (short_result\<lparr>rr_stats := Some ([n], [[]])\<rparr>), ())" using short_react by blast
  have "attempt_budget react_sample_config = Inr 0" by (simp add: attempt_budget_def react_sample_config_def)
  then show ?thesis
    by (simp add: run_turn_def plans_built full_plans_def trim_plans_def slice_history_def hi_rendering_def r Let_def
        trace_of_def short_turn_def) blast
qed

definition run_request_sample :: agent_request where
  "run_request_sample = \<lparr>aq_conversation_id = [107], aq_content = lit ''hi'', aq_subject_id = [117], aq_display_name = [],
     aq_origin_kind = lit ''api'', aq_origin_name = lit ''cloud'', aq_thread_id = [114], aq_media = [], aq_metadata = []\<rparr>"

definition bound_sample :: bound_transcript where
  "bound_sample = \<lparr>bt_session = \<lparr>sn_key = [107], sn_messages = [], sn_created_at = [], sn_updated_at = [], sn_metadata = [],
     sn_last_consolidated = 0, sn_reserved = None\<rparr>, bt_initial = 0, bt_run_id = None, bt_saved = False\<rparr>"

lemma sample_binds: "bind_transcript (\<lambda>_. []) [107] [] None = Inr bound_sample"
  by (simp add: bind_transcript_def get_default_def get_or_def get_text_def bound_sample_def)

definition sample_inbound :: inbound where
  "sample_inbound = request_inbound (delegated_request run_request_sample) [] [] [] []"

lemma sample_metadata:
  "omits_user sample_inbound" "get (ib_metadata sample_inbound) ''client_request_id'' = None"
  "get (ib_metadata sample_inbound) ''username'' = None" "get (ib_metadata sample_inbound) ''principal_id'' = Some (JStr [117])"
  "get (ib_metadata sample_inbound) ''skip_memory_retrieval'' = None" "get (ib_metadata sample_inbound) ''disabled_tools'' = None"
  "ib_content sample_inbound = lit ''hi''"
  using delegated_omits [of run_request_sample "[]" "[]" "[]" "[]"]
  by (simp_all add: sample_inbound_def request_inbound_def delegated_request_def run_request_sample_def map_of_dict_update
      map_of_dict_set transcript_key_def)

definition sample_commit :: "int \<Rightarrow> int \<Rightarrow> turn_commit" where
  "sample_commit n k = turn_commit_of sample_inbound (new_after_reasoning (short_turn n k) sample_inbound)
     (reply_outbound (\<lambda>_. []) sample_inbound (new_after_reasoning (short_turn n k) sample_inbound))
     (reasoned_extra (short_turn n k)
        [(lit ''retrieval_trace'', JObj [(lit ''engine'', JNull), (lit ''intent'', JStr (lit ''context'')), (lit ''records'', JInt 0)])])"

lemma sample_commit_parts:
  "tm_omit_user (sample_commit n k)" "tm_reply_media (sample_commit n k) = []" "tm_tool_chain (sample_commit n k) = []"
  "tm_username (sample_commit n k) = JNull"
  "tm_extra (sample_commit n k) =
     [(lit ''retrieval_trace'', JObj [(lit ''engine'', JNull), (lit ''intent'', JStr (lit ''context'')), (lit ''records'', JInt 0)]),
      (lit ''context_trace'', JObj (context_trace (short_turn n k)))]"
  using sample_metadata
  by (simp_all add: sample_commit_def turn_commit_of_def omits_user_def reply_outbound_def new_outbound_def new_after_reasoning_def
      short_turn_def short_result_def reasoned_extra_def get_default_def Let_def)

lemma sample_trace: "\<exists>x. commit_trace (\<lambda>_. []) (sample_commit n k) = Inr x \<and> (\<exists>d. post_reply_budget (\<lambda>_. []) (fst x) (snd x) [] = Inr d)"
  by (simp add: commit_trace_def sample_commit_parts get_or_def get_text_def context_trace_def short_turn_def short_result_def
      selected_attempt_def attempt_dict_def post_reply_budget_def react_stats_def usage_dict_def Let_def)

lemma short_commits:
  "\<exists>s'. commit_turn (\<lambda>_. []) 10 (sample_commit n k) (\<lambda>i. [97]) (\<lambda>i. [])
       ((bt_session bound_sample)\<lparr>sn_metadata := [(lit ''principal_id'', JStr [117])]\<rparr>) = Some (Inr (), s')"
proof -
  obtain trace a d where t: "commit_trace (\<lambda>_. []) (sample_commit n k) = Inr (trace, a)" "post_reply_budget (\<lambda>_. []) trace a [] = Inr d"
    using sample_trace [of n k] by auto
  show ?thesis
    by (simp add: commit_turn_def commit_messages_def sample_commit_parts t bound_sample_def SessionHistory.add_message_def
        next_seq_def own_keywords_def assistant_kwargs_def commit_metadata_def get_or_def get_history_def selected_messages_def
        has_role_def map_of_dict_update Let_def)
qed

lemma sample_commits:
  assumes "pw_session w = Some ((bt_session bound_sample)\<lparr>sn_metadata := [(lit ''principal_id'', JStr [117])]\<rparr>)"
    and "pw_store w = Some bound_sample"
  shows "\<exists>ob w'. commit_and_dispatch pipe_sample bound_port sample_inbound [107] False
    (new_after_reasoning (short_turn n k) sample_inbound)
    (reply_outbound (\<lambda>_. []) sample_inbound (new_after_reasoning (short_turn n k) sample_inbound))
    (reasoned_extra (short_turn n k)
        [(lit ''retrieval_trace'', JObj [(lit ''engine'', JNull), (lit ''intent'', JStr (lit ''context'')), (lit ''records'', JInt 0)])])
    w = Some (Inr ob, w')"
proof -
  obtain s' where s': "commit_turn (\<lambda>_. []) 10 (sample_commit n k) (\<lambda>i. [97]) (\<lambda>i. [])
       ((bt_session bound_sample)\<lparr>sn_metadata := [(lit ''principal_id'', JStr [117])]\<rparr>) = Some (Inr (), s')"
    using short_commits by blast
  then have "sn_key s' = [107]" using commit_spoken [OF s'] by (simp add: bound_sample_def)
  then show ?thesis using s' assms
    by (simp add: commit_and_dispatch_def andthen_def commit_session_def on_session_def pipe_sample_def sample_commit_def
        save_session_def bound_port_def save_bound_def require_binding_def bound_sample_def act_def observe_def asking_def
        run_modules_def empty_phase_def give_def)
qed

lemma sample_executes:
  "\<exists>r w'. pipeline_execute pipe_sample bound_port [] [] [] [] (delegated_request run_request_sample) (start_world (Some bound_sample)) =
     Some (Inr r, w')"
proof -
  obtain n k where t: "run_turn (short_env\<lparr>re_disabled := []\<rparr>) react_sample_config hi_rendering [] () = Some (Inr (short_turn n k), ())"
    using short_run_turn by blast
  have key: "aq_conversation_id (delegated_request run_request_sample) = [107]"
    by (simp add: delegated_request_def run_request_sample_def)
  have env: "pe_repr pipe_sample = (\<lambda>_. [])" "pe_window pipe_sample = 10" "pe_maintenance pipe_sample = None"
    "pe_generation pipe_sample = None" "pe_snapshot pipe_sample = None" "pe_react pipe_sample = (\<lambda>_. short_env)"
    "pe_config pipe_sample = react_sample_config" "pe_rendering pipe_sample = (\<lambda>m br. hi_rendering)"
    "pe_before_turn pipe_sample = empty_phase" "pe_before_reasoning pipe_sample = empty_phase" "pe_after_reasoning pipe_sample = empty_phase"
    "pe_observe pipe_sample = (\<lambda>ev s. (False, s))"
    "pe_retrieval pipe_sample = Engine (\<lambda>p m s. (Inr \<lparr>en_block = [], en_engine = JNull, en_records = 0\<rparr>, s))"
    by (simp_all add: pipe_sample_def)
  have ph: "run_phase (empty_phase :: ('c, unit) phase) c s = (Inr c, s)" for c :: 'c and s
    by (simp add: run_phase_def run_modules_def empty_phase_def)
  have idle: "\<not> is_command (lit ''hi'')" by (simp add: is_command_def lit_def py_space_def)
  have who: "strip (get_text (\<lambda>_. []) (ib_metadata sample_inbound) ''principal_id'') = [117]"
    using sample_metadata by (simp add: get_text_def get_or_def strip_def py_space_def)
  have off: "disabled_tools (\<lambda>_. []) sample_inbound = []" using sample_metadata by (simp add: disabled_tools_def)
  have port: "po_open bound_port [107] (Some bound_sample) = (Inr (bt_session bound_sample), Some bound_sample)"
    by (simp add: bound_port_def bound_session_def require_binding_def bound_sample_def)
  have session: "sn_messages (bt_session bound_sample) = []" "sn_last_consolidated (bt_session bound_sample) = 0"
    "sn_metadata (bt_session bound_sample) = []" by (simp_all add: bound_sample_def)
  obtain ob w' where c: "commit_and_dispatch pipe_sample bound_port sample_inbound [107] False
      (new_after_reasoning (short_turn n k) sample_inbound)
      (reply_outbound (\<lambda>_. []) sample_inbound (new_after_reasoning (short_turn n k) sample_inbound))
      (reasoned_extra (short_turn n k)
        [(lit ''retrieval_trace'', JObj [(lit ''engine'', JNull), (lit ''intent'', JStr (lit ''context'')), (lit ''records'', JInt 0)])])
      \<lparr>pw_store = Some bound_sample,
       pw_session = Some ((bt_session bound_sample)\<lparr>sn_metadata := [(lit ''principal_id'', JStr [117])]\<rparr>),
       pw_state = (), pw_context = None, pw_log = [Observed (TurnStarted [107]), Reasoned []]\<rparr> = Some (Inr ob, w')"
    using sample_commits [of "\<lparr>pw_store = Some bound_sample,
       pw_session = Some ((bt_session bound_sample)\<lparr>sn_metadata := [(lit ''principal_id'', JStr [117])]\<rparr>),
       pw_state = (), pw_context = None, pw_log = [Observed (TurnStarted [107]), Reasoned []]\<rparr>" n k] by auto
  have "turn_body pipe_sample bound_port sample_inbound [107] False (start_world (Some bound_sample)) = Some (Inr ob, w')"
    unfolding turn_body_def using sample_metadata
    apply (simp add: andthen_def open_session_def start_world_def port session env Let_def who set_principal_def on_session_def
        set_session_def give_def observe_def act_def unless_stopped_def command_phase_def idle history_phase_def
        wait_for_archive_def guard_memory_context_def pending_messages_def guard_threshold_def history_of_session_def
        get_history_def selected_messages_def value_of_def)
    apply (simp add: retrieval_phase_def get_default_def give_def asking_def env prepare_phase_def before_turn_phase_def andthen_def ph
        new_before_turn_def dict_update_def reasoning_phase_def with_context_def new_before_reasoning_def ask_reasoner_def off t
        act_def Let_def c)
    done
  then show ?thesis
    by (cases "pw_session w'")
      (simp_all add: pipeline_execute_def sample_inbound_def [symmetric] key pipeline_run_def env leased_def run_turn_body_def
        start_world_def finish_turn_def andthen_def observe_def act_def give_def)
qed

lemma pipeline_meets_adapter_witness:
  "\<exists>b' (r :: agent_result) (w' :: (bound_transcript option, unit) pipe_world). pw_store w' = Some b' \<and> bt_initial b' = 0 \<and>
    (sn_messages (bt_session b') = [] \<or>
     (\<exists>a. sn_messages (bt_session b') = [a] \<and> has_role ''assistant'' a \<and> get a ''content'' = Some (JStr (ar_content r))))"
proof -
  obtain r :: agent_result and w' :: "(bound_transcript option, unit) pipe_world" where
      r: "pipeline_execute pipe_sample bound_port [] [] [] [] (delegated_request run_request_sample) (start_world (Some bound_sample)) =
        Some (Inr r, w')" using sample_executes by blast
  have i: "bt_initial bound_sample = 0" by (simp add: bound_sample_def)
  have "bind_transcript (\<lambda>_. []) (aq_conversation_id run_request_sample) [] None = Inr bound_sample"
    using sample_binds by (simp add: run_request_sample_def)
  from pipeline_meets_adapter [OF this samples_ok(1) _ _ r] obtain b' where
      "pw_store w' = Some b'" "bt_initial b' = bt_initial bound_sample"
      "drop (bt_initial b') (sn_messages (bt_session b')) = [] \<or>
       (\<exists>a. drop (bt_initial b') (sn_messages (bt_session b')) = [a] \<and> has_role ''assistant'' a \<and>
          get a ''content'' = Some (JStr (ar_content r)))" by (auto simp: start_world_def)
  then show ?thesis by (intro exI [of _ b'] exI [of _ r] exI [of _ w']) (simp add: i)
qed

end
