(* ===== verification/AgentLoop.thy ===== *)
theory AgentLoop
  imports TurnStores
begin

text \<open>
  \<open>AgentLoop\<close> of \<open>src/agent/core/runtime.py\<close>: every message that comes in gets a task of its own, the tasks of a session
  run one after the other under a lock that lives as long as somebody needs it, and a turn that is cancelled is recorded.
\<close>

section \<open>One item\<close>

record step_snapshot =
  ss_tools_used :: "pystr list"
  ss_tool_chain :: "json list"
  ss_thinking :: pystr
  ss_reply :: pystr

definition interrupted_text :: pystr where
  "interrupted_text = lit ''[interrupted]''"

definition interrupted_kwargs :: "step_snapshot option \<Rightarrow> pydict" where
  "interrupted_kwargs snap =
     (case snap of
        None \<Rightarrow> [(lit ''tools_used'', JArr []), (lit ''tool_chain'', JArr []), (lit ''reasoning_content'', JStr []),
                 (lit ''partial_reply'', JStr []), (lit ''interrupted'', JBool True)]
      | Some p \<Rightarrow> [(lit ''tools_used'', JArr (map JStr (ss_tools_used p))), (lit ''tool_chain'', JArr (ss_tool_chain p)),
                   (lit ''reasoning_content'', JStr (ss_thinking p)), (lit ''partial_reply'', JStr (ss_reply p)),
                   (lit ''interrupted'', JBool True)])"

text \<open>The turn has been committed before it was cancelled.\<close>

definition already_committed :: "pystr \<Rightarrow> pydict list \<Rightarrow> bool" where
  "already_committed inbound_at ms \<longleftrightarrow> 2 \<le> length ms \<and>
     (let u = ms ! (length ms - 2) in
      has_role ''user'' u \<and> get u ''inbound_timestamp'' = Some (JStr inbound_at) \<and> has_role ''assistant'' (last ms))"

text \<open>The messages of an interrupted turn; the session keeps what was added when a later line raises.\<close>

definition add_interrupted ::
  "inbound \<Rightarrow> step_snapshot option \<Rightarrow> (nat \<Rightarrow> pystr) \<Rightarrow> (nat \<Rightarrow> pystr) \<Rightarrow> session \<Rightarrow> unit res \<times> session" where
  "add_interrupted m snap fresh clk s =
     (case SessionHistory.add_message (lit ''user'') (ib_content m) (ib_media m)
             [(lit ''inbound_timestamp'', JStr (ib_timestamp m))] (fresh 0) (clk 0) (clk 1) s of
        Inl e \<Rightarrow> (Inl e, s)
      | Inr (u, s1) \<Rightarrow>
          (case SessionHistory.add_message (lit ''assistant'') interrupted_text [] (interrupted_kwargs snap)
                  (fresh 1) (clk 2) (clk 3) s1 of
             Inl e \<Rightarrow> (Inl e, s1)
           | Inr (a, s2) \<Rightarrow> (Inr (), s2)))"

definition persist_interrupted ::
  "session_manager transcript_port \<Rightarrow> pystr \<Rightarrow> inbound \<Rightarrow> step_snapshot option \<Rightarrow> (nat \<Rightarrow> pystr) \<Rightarrow> (nat \<Rightarrow> pystr) \<Rightarrow>
   session_manager \<Rightarrow> unit res \<times> session_manager" where
  "persist_interrupted port key m snap fresh clk g =
     (if omits_user m then (Inr (), g)
      else
        (case po_open port key g of
           (Inl e, g1) \<Rightarrow> (Inl e, g1)
         | (Inr s, g1) \<Rightarrow>
             (case (if already_committed (ib_timestamp m) (sn_messages s) then (Inr (), s) else add_interrupted m snap fresh clk s) of
                (Inl e, s1) \<Rightarrow> (Inl e, po_keep port s1 g1)
              | (Inr _, s1) \<Rightarrow> (case po_save port s1 g1 of (r, s2, g2) \<Rightarrow> (r, po_keep port s2 g2)))))"

datatype item_exit = ItemDone | ItemCancelled | ItemRaises py_error

definition error_outbound :: "'s pipe_env \<Rightarrow> inbound \<Rightarrow> run_error \<Rightarrow> outbound" where
  "error_outbound env m e =
     (let c = correlation (pe_repr env) m
      in new_outbound (ib_channel m) (ib_chat_id m) ([20986, 38169, 65306] @ pe_error env e)
           (if c = [] then [] else [(lit ''client_request_id'', JStr c)]))"

definition set_db :: "session_db \<Rightarrow> (session_manager, 's) pipe_world \<Rightarrow> (session_manager, 's) pipe_world" where
  "set_db db w = w\<lparr>pw_store := (pw_store w)\<lparr>sg_db := db\<rparr>\<rparr>"

text \<open>What the handlers do: a cancelled turn is recorded, an error is told to the user.\<close>

definition handle_end ::
  "'s pipe_env \<Rightarrow> session_manager transcript_port \<Rightarrow> inbound \<Rightarrow> pystr \<Rightarrow> step_snapshot option \<Rightarrow> run_error + outbound \<Rightarrow>
   (session_manager, 's) pipe_world \<Rightarrow> item_exit \<times> (session_manager, 's) pipe_world" where
  "handle_end env port m key snap r w =
     (case r of
        Inr ob \<Rightarrow> (ItemDone, w)
      | Inl e \<Rightarrow>
          if e = WorkerGone
          then (case persist_interrupted port key m snap (pe_fresh env (pw_state w)) (pe_clock env (pw_state w)) (pw_store w) of
                  (Inl x, g) \<Rightarrow> (ItemRaises x, w\<lparr>pw_store := g\<rparr>)
                | (Inr _, g) \<Rightarrow> (ItemCancelled, w\<lparr>pw_store := g\<rparr>))
          else (ItemDone, act (Published (error_outbound env m e)) w))"

text \<open>Under the lock of the session; \<open>owner\<close> is new, \<open>at_time\<close> the time of the admission, \<open>snapshot\<close> what the last step of the
  turn has left.  A failed release is logged.\<close>

definition process_item ::
  "'s pipe_env \<Rightarrow> session_manager transcript_port \<Rightarrow> (('s \<Rightarrow> step_snapshot option)) \<Rightarrow> pystr \<Rightarrow> pystr \<Rightarrow> inbound \<Rightarrow> pystr \<Rightarrow>
   (session_manager, 's) pipe_world \<Rightarrow> (item_exit \<times> (session_manager, 's) pipe_world) option" where
  "process_item env port snapshot owner at_time m key w =
     (case acquire_admission key owner at_time (sg_db (pw_store w)) of
        Inl e \<Rightarrow> Some (handle_end env port m key (snapshot (pw_state w)) (Inl (PyError e)) w)
      | Inr db \<Rightarrow>
          (case pipeline_run env port m key True (set_db db w) of
             None \<Rightarrow> None
           | Some (r, w1) \<Rightarrow>
               (case handle_end env port m key (snapshot (pw_state w1)) r w1 of
                  (x, w2) \<Rightarrow> Some (x, set_db (snd (release_admission key owner (sg_db (pw_store w2)))) w2))))"

section \<open>The tasks\<close>

text \<open>A lock is the number of its object; \<open>TaskLeaving\<close> has left it and has still to clean up.\<close>

datatype task_stage = TaskCreated | TaskWaiting nat | TaskInside nat | TaskLeaving nat | TaskEnded

record loop_world =
  lo_locks :: "(pystr \<times> nat) list"
  lo_next :: nat
  lo_held :: "nat set"
  lo_tasks :: "(pystr \<times> task_stage) list"
  lo_queue :: "nat list"

text \<open>\<open>lo_queue\<close> are the waiting tasks of all locks in the order in which they came; \<open>next_in_line\<close> is the one its
  lock wakes up.\<close>

definition empty_loop :: loop_world where
  "empty_loop = \<lparr>lo_locks = [], lo_next = 0, lo_held = {}, lo_tasks = [], lo_queue = []\<rparr>"

definition waits_for :: "loop_world \<Rightarrow> nat \<Rightarrow> nat \<Rightarrow> bool" where
  "waits_for w l i \<longleftrightarrow> i < length (lo_tasks w) \<and> snd (lo_tasks w ! i) = TaskWaiting l"

definition next_in_line :: "loop_world \<Rightarrow> nat \<Rightarrow> nat option" where
  "next_in_line w l = find (waits_for w l) (lo_queue w)"

definition set_stage :: "nat \<Rightarrow> task_stage \<Rightarrow> loop_world \<Rightarrow> loop_world" where
  "set_stage i st w = w\<lparr>lo_tasks := (lo_tasks w)[i := (fst (lo_tasks w ! i), st)]\<rparr>"

definition lock_of :: "pystr \<Rightarrow> loop_world \<Rightarrow> nat \<times> loop_world" where
  "lock_of key w =
     (case map_of (lo_locks w) key of
        Some l \<Rightarrow> (l, w)
      | None \<Rightarrow> (lo_next w, w\<lparr>lo_locks := (key, lo_next w) # lo_locks w, lo_next := Suc (lo_next w)\<rparr>))"

text \<open>The start of \<open>_process_item\<close>: a lock that is free and that nobody waits for is taken at once.\<close>

definition begin_task :: "nat \<Rightarrow> loop_world \<Rightarrow> loop_world" where
  "begin_task i w =
     (case lock_of (fst (lo_tasks w ! i)) w of (l, w1) \<Rightarrow>
        if l \<notin> lo_held w1 \<and> next_in_line w1 l = None
        then (set_stage i (TaskInside l) w1)\<lparr>lo_held := insert l (lo_held w1)\<rparr>
        else (set_stage i (TaskWaiting l) w1)\<lparr>lo_queue := lo_queue w1 @ [i]\<rparr>)"

definition enter_task :: "nat \<Rightarrow> nat \<Rightarrow> loop_world \<Rightarrow> loop_world" where
  "enter_task i l w =
     (set_stage i (TaskInside l) w)\<lparr>lo_held := insert l (lo_held w), lo_queue := filter (\<lambda>j. j \<noteq> i) (lo_queue w)\<rparr>"

definition abandon_task :: "nat \<Rightarrow> nat \<Rightarrow> loop_world \<Rightarrow> loop_world" where
  "abandon_task i l w = (set_stage i (TaskLeaving l) w)\<lparr>lo_queue := filter (\<lambda>j. j \<noteq> i) (lo_queue w)\<rparr>"

definition leave_task :: "nat \<Rightarrow> nat \<Rightarrow> loop_world \<Rightarrow> loop_world" where
  "leave_task i l w = (set_stage i (TaskLeaving l) w)\<lparr>lo_held := lo_held w - {l}\<rparr>"

text \<open>The lock goes when nobody holds it and no other task of the session is left.\<close>

definition others_left :: "nat \<Rightarrow> loop_world \<Rightarrow> bool" where
  "others_left i w \<longleftrightarrow>
     (\<exists>j < length (lo_tasks w). j \<noteq> i \<and> fst (lo_tasks w ! j) = fst (lo_tasks w ! i) \<and> snd (lo_tasks w ! j) \<noteq> TaskEnded)"

definition close_task :: "nat \<Rightarrow> nat \<Rightarrow> loop_world \<Rightarrow> loop_world" where
  "close_task i l w =
     (set_stage i TaskEnded w)\<lparr>lo_locks :=
        (if l \<notin> lo_held w \<and> \<not> others_left i w then filter (\<lambda>(k, x). k \<noteq> fst (lo_tasks w ! i)) (lo_locks w) else lo_locks w)\<rparr>"

definition task_at :: "nat \<Rightarrow> task_stage \<Rightarrow> loop_world \<Rightarrow> bool" where
  "task_at i st w \<longleftrightarrow> i < length (lo_tasks w) \<and> snd (lo_tasks w ! i) = st"

text \<open>A task that is cancelled before it has begun never runs.\<close>

inductive loop_step :: "loop_world \<Rightarrow> loop_world \<Rightarrow> bool" where
  item_comes: "loop_step w (w\<lparr>lo_tasks := lo_tasks w @ [(key, TaskCreated)]\<rparr>)"
| task_begins: "task_at i TaskCreated w \<Longrightarrow> loop_step w (begin_task i w)"
| task_never_runs: "task_at i TaskCreated w \<Longrightarrow> loop_step w (set_stage i TaskEnded w)"
| task_enters: "next_in_line w l = Some i \<Longrightarrow> l \<notin> lo_held w \<Longrightarrow> loop_step w (enter_task i l w)"
| task_gives_up: "task_at i (TaskWaiting l) w \<Longrightarrow> loop_step w (abandon_task i l w)"
| task_leaves: "task_at i (TaskInside l) w \<Longrightarrow> loop_step w (leave_task i l w)"
| task_closes: "task_at i (TaskLeaving l) w \<Longrightarrow> loop_step w (close_task i l w)"

inductive loop_reaches :: "loop_world \<Rightarrow> bool" where
  loop_start: "loop_reaches empty_loop"
| loop_next: "loop_reaches w \<Longrightarrow> loop_step w w' \<Longrightarrow> loop_reaches w'"

inductive_cases loop_stepE: "loop_step w w'"

section \<open>Interrupting\<close>

definition active_task :: "pystr \<Rightarrow> loop_world \<Rightarrow> nat option" where
  "active_task key w =
     find (\<lambda>i. fst (lo_tasks w ! i) = key \<and> (case snd (lo_tasks w ! i) of TaskInside l \<Rightarrow> True | _ \<Rightarrow> False)) [0..<length (lo_tasks w)]"

text \<open>\<open>is_busy\<close>: some task of the session is inside, or its lock is held.\<close>

definition is_busy :: "pystr \<Rightarrow> loop_world \<Rightarrow> bool" where
  "is_busy key w \<longleftrightarrow> active_task key w \<noteq> None \<or> (case map_of (lo_locks w) key of None \<Rightarrow> False | Some l \<Rightarrow> l \<in> lo_held w)"

end
