(* ===== verification/LoopTheorems.thy ===== *)
theory LoopTheorems
  imports AgentLoop
begin

text \<open>The turns of a session exclude each other, and an interrupted turn is recorded once.\<close>

section \<open>The invariant of the loop\<close>

fun lock_in :: "task_stage \<Rightarrow> nat option" where
  "lock_in (TaskWaiting l) = Some l"
| "lock_in (TaskInside l) = Some l"
| "lock_in (TaskLeaving l) = Some l"
| "lock_in s = None"

definition stage :: "loop_world \<Rightarrow> nat \<Rightarrow> task_stage" where
  "stage w i = snd (lo_tasks w ! i)"

definition session_of :: "loop_world \<Rightarrow> nat \<Rightarrow> pystr" where
  "session_of w i = fst (lo_tasks w ! i)"

definition locks_known :: "loop_world \<Rightarrow> bool" where
  "locks_known w \<longleftrightarrow> (\<forall>i < length (lo_tasks w). \<forall>l. lock_in (stage w i) = Some l \<longrightarrow> map_of (lo_locks w) (session_of w i) = Some l)"

definition locks_distinct :: "loop_world \<Rightarrow> bool" where
  "locks_distinct w \<longleftrightarrow> (\<forall>(k, l) \<in> set (lo_locks w). l < lo_next w) \<and> distinct (map fst (lo_locks w)) \<and> distinct (map snd (lo_locks w))"

definition held_inside :: "loop_world \<Rightarrow> bool" where
  "held_inside w \<longleftrightarrow> (\<forall>l. l \<in> lo_held w \<longleftrightarrow> (\<exists>i < length (lo_tasks w). stage w i = TaskInside l))"

definition one_inside :: "loop_world \<Rightarrow> bool" where
  "one_inside w \<longleftrightarrow> (\<forall>i < length (lo_tasks w). \<forall>j < length (lo_tasks w). \<forall>l. stage w i = TaskInside l \<longrightarrow> stage w j = TaskInside l \<longrightarrow> i = j)"

definition queue_waits :: "loop_world \<Rightarrow> bool" where
  "queue_waits w \<longleftrightarrow> (\<forall>i. i \<in> set (lo_queue w) \<longleftrightarrow> i < length (lo_tasks w) \<and> (\<exists>l. stage w i = TaskWaiting l))"

definition loop_ok :: "loop_world \<Rightarrow> bool" where
  "loop_ok w \<longleftrightarrow> locks_known w \<and> locks_distinct w \<and> held_inside w \<and> one_inside w \<and> queue_waits w"

lemma tasks_set_stage [simp]:
  "length (lo_tasks (set_stage i st w)) = length (lo_tasks w)"
  "lo_locks (set_stage i st w) = lo_locks w" "lo_held (set_stage i st w) = lo_held w"
  "lo_next (set_stage i st w) = lo_next w" "lo_queue (set_stage i st w) = lo_queue w"
  by (simp_all add: set_stage_def)

lemma stage_set: "i < length (lo_tasks w) \<Longrightarrow> stage (set_stage i st w) j = (if j = i then st else stage w j)"
  by (simp add: stage_def set_stage_def nth_list_update)

lemma session_set [simp]: "session_of (set_stage i st w) j = session_of w j"
proof (cases "i < length (lo_tasks w)")
  case True
  then show ?thesis by (simp add: session_of_def set_stage_def nth_list_update)
next
  case False
  then show ?thesis by (simp add: session_of_def set_stage_def list_update_beyond)
qed

lemma stage_update [simp]:
  "stage (w\<lparr>lo_held := h\<rparr>) = stage w" "stage (w\<lparr>lo_queue := q\<rparr>) = stage w" "stage (w\<lparr>lo_locks := ls\<rparr>) = stage w"
  "stage (w\<lparr>lo_next := n\<rparr>) = stage w"
  "session_of (w\<lparr>lo_held := h\<rparr>) = session_of w" "session_of (w\<lparr>lo_queue := q\<rparr>) = session_of w"
  "session_of (w\<lparr>lo_locks := ls\<rparr>) = session_of w" "session_of (w\<lparr>lo_next := n\<rparr>) = session_of w"
  by (auto simp: stage_def session_of_def)

lemmas loop_parts = locks_known_def locks_distinct_def held_inside_def one_inside_def queue_waits_def

lemma known_lock:
  "loop_ok w \<Longrightarrow> i < length (lo_tasks w) \<Longrightarrow> lock_in (stage w i) = Some l \<Longrightarrow> map_of (lo_locks w) (session_of w i) = Some l"
  by (simp add: loop_ok_def locks_known_def)

lemma inside_unique:
  "loop_ok w \<Longrightarrow> i < length (lo_tasks w) \<Longrightarrow> j < length (lo_tasks w) \<Longrightarrow> stage w i = TaskInside l \<Longrightarrow> stage w j = TaskInside l \<Longrightarrow> i = j"
  unfolding loop_ok_def one_inside_def by blast

lemma inside_held: "loop_ok w \<Longrightarrow> i < length (lo_tasks w) \<Longrightarrow> stage w i = TaskInside l \<Longrightarrow> l \<in> lo_held w"
  unfolding loop_ok_def held_inside_def by blast

lemma held_inside_someone: "loop_ok w \<Longrightarrow> l \<in> lo_held w \<Longrightarrow> \<exists>i < length (lo_tasks w). stage w i = TaskInside l"
  unfolding loop_ok_def held_inside_def by blast

lemma in_queue: "loop_ok w \<Longrightarrow> i < length (lo_tasks w) \<Longrightarrow> stage w i = TaskWaiting l \<Longrightarrow> i \<in> set (lo_queue w)"
  unfolding loop_ok_def queue_waits_def by blast

lemma queue_without:
  assumes "loop_ok w" "\<And>l. stage w i \<noteq> TaskWaiting l"
  shows "filter (\<lambda>j. j \<noteq> i) (lo_queue w) = lo_queue w"
proof (rule filter_True, rule ballI)
  fix j assume "j \<in> set (lo_queue w)"
  then obtain l where "stage w j = TaskWaiting l" using assms(1) unfolding loop_ok_def queue_waits_def by blast
  then show "j \<noteq> i" using assms(2) by metis
qed

lemma new_item_ok: "loop_ok w \<Longrightarrow> loop_ok (w\<lparr>lo_tasks := lo_tasks w @ [(key, TaskCreated)]\<rparr>)"
  by (auto simp: loop_ok_def loop_parts stage_def session_of_def nth_append less_Suc_eq)

text \<open>A change of one stage, and what has to hold for the other parts then.\<close>

lemma stage_change_ok:
  assumes ok: "loop_ok w" and i: "i < length (lo_tasks w)"
    and known: "\<And>l. lock_in st = Some l \<Longrightarrow> map_of (lo_locks w) (session_of w i) = Some l"
    and inside: "\<And>l. st = TaskInside l \<Longrightarrow> l \<notin> lo_held w \<and> h = insert l (lo_held w)"
    and outside: "\<And>l. stage w i = TaskInside l \<Longrightarrow> h = lo_held w - {l}"
    and neither: "(\<forall>l. st \<noteq> TaskInside l) \<Longrightarrow> (\<forall>l. stage w i \<noteq> TaskInside l) \<Longrightarrow> h = lo_held w"
    and queue: "\<And>j. j \<in> set q \<longleftrightarrow> (if j = i then \<exists>l. st = TaskWaiting l else j \<in> set (lo_queue w))"
  shows "loop_ok ((set_stage i st w)\<lparr>lo_held := h, lo_queue := q\<rparr>)"
proof -
  let ?w = "(set_stage i st w)\<lparr>lo_held := h, lo_queue := q\<rparr>"
  have st: "stage (set_stage i st w) j = (if j = i then st else stage w j)" for j by (rule stage_set [OF i])
  have "locks_known ?w" using known_lock [OF ok] i known by (auto simp: locks_known_def st)
  moreover have "locks_distinct ?w" using ok by (simp add: loop_ok_def locks_distinct_def)
  moreover have "queue_waits ?w" using ok i queue by (auto simp: loop_ok_def queue_waits_def st)
  moreover have "held_inside ?w \<and> one_inside ?w"
  proof (cases "\<exists>l. st = TaskInside l")
    case True
    then obtain l where l: "st = TaskInside l" by blast
    have h: "l \<notin> lo_held w" "h = insert l (lo_held w)" using inside l by blast+
    have n: "stage w i \<noteq> TaskInside k" for k
      using inside_held [OF ok i, of k] outside [of k] h by auto
    have o: "stage w j \<noteq> TaskInside l" if "j < length (lo_tasks w)" for j using inside_held [OF ok that] h(1) by metis
    have "held_inside ?w" unfolding held_inside_def
    proof
      fix k
      have "k \<in> h \<longleftrightarrow> k = l \<or> (\<exists>j < length (lo_tasks w). stage w j = TaskInside k)"
        using h(2) inside_held [OF ok, of _ k] held_inside_someone [OF ok, of k] by blast
      also have "\<dots> \<longleftrightarrow> (\<exists>j < length (lo_tasks w). stage (set_stage i st w) j = TaskInside k)"
        unfolding st using i n [of k] l by (metis task_stage.inject(2))
      finally show "k \<in> lo_held ?w \<longleftrightarrow> (\<exists>j < length (lo_tasks ?w). stage ?w j = TaskInside k)" by simp
    qed
    moreover have "stage (set_stage i (TaskInside l) w) j = (if j = i then TaskInside l else stage w j)" for j
      by (rule stage_set [OF i])
    then have "one_inside ?w" using o inside_unique [OF ok] by (auto simp: one_inside_def l split: if_splits)
    ultimately show ?thesis ..
  next
    case False
    have one: "one_inside ?w" using False inside_unique [OF ok] by (auto simp: one_inside_def st)
    have "held_inside ?w" unfolding held_inside_def
    proof
      fix k
      have "k \<in> h \<longleftrightarrow> k \<in> lo_held w \<and> stage w i \<noteq> TaskInside k"
        using outside neither False by (cases "\<exists>l. stage w i = TaskInside l") auto
      also have "\<dots> \<longleftrightarrow> (\<exists>j < length (lo_tasks w). j \<noteq> i \<and> stage w j = TaskInside k)"
        using inside_held [OF ok, of _ k] held_inside_someone [OF ok, of k] inside_unique [OF ok _ i, of _ k] by metis
      also have "\<dots> \<longleftrightarrow> (\<exists>j < length (lo_tasks w). stage (set_stage i st w) j = TaskInside k)" using False by (auto simp: st)
      finally show "k \<in> lo_held ?w \<longleftrightarrow> (\<exists>j < length (lo_tasks ?w). stage ?w j = TaskInside k)" by simp
    qed
    then show ?thesis using one ..
  qed
  ultimately show ?thesis by (simp add: loop_ok_def)
qed

lemma lock_of_ok:
  assumes ok: "loop_ok w" and l: "lock_of key w = (l, w1)"
  shows "loop_ok w1 \<and> map_of (lo_locks w1) key = Some l \<and> lo_tasks w1 = lo_tasks w \<and> lo_held w1 = lo_held w \<and> lo_queue w1 = lo_queue w"
proof (cases "map_of (lo_locks w) key")
  case (Some x)
  then show ?thesis using assms by (simp add: lock_of_def)
next
  case None
  then have w1: "l = lo_next w" "w1 = w\<lparr>lo_locks := (key, l) # lo_locks w, lo_next := Suc l\<rparr>" using l by (auto simp: lock_of_def)
  have "locks_known w1" using ok None by (auto simp: w1 loop_ok_def locks_known_def)
  moreover have "locks_distinct w1"
    using ok None by (fastforce simp: w1 loop_ok_def locks_distinct_def map_of_eq_None_iff)
  ultimately show ?thesis using ok by (simp add: w1 loop_ok_def held_inside_def one_inside_def queue_waits_def)
qed

lemma begin_ok:
  assumes ok: "loop_ok w" and i: "task_at i TaskCreated w"
  shows "loop_ok (begin_task i w)"
proof -
  obtain l w1 where l: "lock_of (fst (lo_tasks w ! i)) w = (l, w1)" by fastforce
  note w1 = lock_of_ok [OF ok l]
  have i1: "i < length (lo_tasks w1)" "stage w1 i = TaskCreated" "session_of w1 i = fst (lo_tasks w ! i)"
    using i w1 by (auto simp: task_at_def stage_def session_of_def)
  have q: "i \<notin> set (lo_queue w1)" using w1 i1(2) unfolding loop_ok_def queue_waits_def by auto
  show ?thesis
  proof (cases "l \<notin> lo_held w1 \<and> next_in_line w1 l = None")
    case True
    have "loop_ok ((set_stage i (TaskInside l) w1)\<lparr>lo_held := insert l (lo_held w1), lo_queue := lo_queue w1\<rparr>)"
      by (rule stage_change_ok) (use w1 i1 q True in auto)
    moreover have "(set_stage i (TaskInside l) w1)\<lparr>lo_held := insert l (lo_held w1), lo_queue := lo_queue w1\<rparr> = begin_task i w"
      using True by (simp add: begin_task_def l set_stage_def)
    ultimately show ?thesis by simp
  next
    case False
    have "loop_ok ((set_stage i (TaskWaiting l) w1)\<lparr>lo_held := lo_held w1, lo_queue := lo_queue w1 @ [i]\<rparr>)"
      by (rule stage_change_ok) (use w1 i1 q in auto)
    moreover have "(set_stage i (TaskWaiting l) w1)\<lparr>lo_held := lo_held w1, lo_queue := lo_queue w1 @ [i]\<rparr> = begin_task i w"
      using False by (auto simp: begin_task_def l set_stage_def)
    ultimately show ?thesis by simp
  qed
qed

lemma next_in_lineD:
  assumes "next_in_line w l = Some i"
  shows "i < length (lo_tasks w)" "stage w i = TaskWaiting l" "i \<in> set (lo_queue w)"
  using assms by (auto simp: next_in_line_def waits_for_def stage_def find_Some_iff)

lemma other_stage_ok:
  assumes "loop_ok w" "i < length (lo_tasks w)"
    and "\<And>l. lock_in st = Some l \<Longrightarrow> lock_in (stage w i) = Some l" "\<And>l. st \<noteq> TaskInside l" "\<And>l. st \<noteq> TaskWaiting l"
    and "\<And>l. stage w i = TaskInside l \<Longrightarrow> h = lo_held w - {l}" "(\<forall>l. stage w i \<noteq> TaskInside l) \<Longrightarrow> h = lo_held w"
  shows "loop_ok ((set_stage i st w)\<lparr>lo_held := h, lo_queue := filter (\<lambda>j. j \<noteq> i) (lo_queue w)\<rparr>)"
  by (rule stage_change_ok) (use assms known_lock [OF assms(1,2)] in auto)

lemma close_ok:
  assumes ok: "loop_ok w" and i: "task_at i (TaskLeaving l) w"
  shows "loop_ok (close_task i l w)"
proof -
  let ?q = "filter (\<lambda>j. j \<noteq> i) (lo_queue w)"
  have t: "i < length (lo_tasks w)" "stage w i = TaskLeaving l" using i by (auto simp: task_at_def stage_def)
  have q: "?q = lo_queue w" by (rule queue_without [OF ok]) (simp add: t)
  have "loop_ok ((set_stage i TaskEnded w)\<lparr>lo_held := lo_held w, lo_queue := ?q\<rparr>)"
    by (rule other_stage_ok) (use ok t in auto)
  then have e: "loop_ok (set_stage i TaskEnded w)" using q by (simp add: set_stage_def)
  show ?thesis
  proof (cases "l \<notin> lo_held w \<and> \<not> others_left i w")
    case False
    then show ?thesis using e by (auto simp: close_task_def set_stage_def)
  next
    case True
    let ?w = "(set_stage i TaskEnded w)\<lparr>lo_locks := filter (\<lambda>(k, x). k \<noteq> session_of w i) (lo_locks w)\<rparr>"
    have gone: "stage w j = TaskEnded" if "j < length (lo_tasks w)" "j \<noteq> i" "session_of w j = session_of w i" for j
      using True that by (auto simp: others_left_def stage_def session_of_def)
    have keep: "map_of (filter (\<lambda>(k, x). k \<noteq> a) xs) b = (if b = a then None else map_of xs b)" for a b :: pystr and xs :: "(pystr \<times> nat) list"
      by (induction xs) auto
    have "locks_known ?w" using known_lock [OF e] t gone by (auto simp: locks_known_def stage_set keep split: if_splits)
    moreover have "locks_distinct ?w"
      using e by (auto simp: loop_ok_def locks_distinct_def distinct_map_filter)
    ultimately have "loop_ok ?w" using e by (simp add: loop_ok_def held_inside_def one_inside_def queue_waits_def)
    then show ?thesis using True by (simp add: close_task_def session_of_def)
  qed
qed

lemma step_ok: "loop_step w w' \<Longrightarrow> loop_ok w \<Longrightarrow> loop_ok w'"
proof (induction rule: loop_step.induct)
  case (task_enters w l i)
  note n = next_in_lineD [OF task_enters(1)]
  have "map_of (lo_locks w) (session_of w i) = Some l" using known_lock [OF task_enters(3) n(1)] n(2) by simp
  then show ?case unfolding enter_task_def
    by (intro stage_change_ok) (use task_enters n in auto)
next
  case (task_never_runs i w)
  then have t: "i < length (lo_tasks w)" "stage w i = TaskCreated" by (auto simp: task_at_def stage_def)
  have q: "filter (\<lambda>j. j \<noteq> i) (lo_queue w) = lo_queue w" by (rule queue_without [OF task_never_runs(2)]) (simp add: t)
  have "loop_ok ((set_stage i TaskEnded w)\<lparr>lo_held := lo_held w, lo_queue := filter (\<lambda>j. j \<noteq> i) (lo_queue w)\<rparr>)"
    by (rule other_stage_ok) (use task_never_runs t in auto)
  then show ?case using q by (simp add: set_stage_def)
next
  case (task_gives_up i l w)
  then have t: "i < length (lo_tasks w)" "stage w i = TaskWaiting l" by (auto simp: task_at_def stage_def)
  have "loop_ok ((set_stage i (TaskLeaving l) w)\<lparr>lo_held := lo_held w, lo_queue := filter (\<lambda>j. j \<noteq> i) (lo_queue w)\<rparr>)"
    by (rule other_stage_ok) (use task_gives_up t in auto)
  then show ?case by (simp add: abandon_task_def set_stage_def)
next
  case (task_leaves i l w)
  then have t: "i < length (lo_tasks w)" "stage w i = TaskInside l" by (auto simp: task_at_def stage_def)
  have q: "filter (\<lambda>j. j \<noteq> i) (lo_queue w) = lo_queue w" by (rule queue_without [OF task_leaves(2)]) (simp add: t)
  have "loop_ok ((set_stage i (TaskLeaving l) w)\<lparr>lo_held := lo_held w - {l}, lo_queue := filter (\<lambda>j. j \<noteq> i) (lo_queue w)\<rparr>)"
    by (rule other_stage_ok) (use task_leaves t in auto)
  then show ?case using q by (simp add: leave_task_def set_stage_def)
qed (simp_all add: new_item_ok begin_ok close_ok)

lemma reaches_ok: "loop_reaches w \<Longrightarrow> loop_ok w"
proof (induction rule: loop_reaches.induct)
  case loop_start
  show ?case by (simp add: loop_ok_def loop_parts empty_loop_def)
next
  case (loop_next w w')
  then show ?case using step_ok by blast
qed

section \<open>The turns of a session\<close>

definition waiting_or_inside :: "task_stage \<Rightarrow> bool" where
  "waiting_or_inside s \<longleftrightarrow> (\<exists>l. s = TaskWaiting l \<or> s = TaskInside l)"

text \<open>In every history of the loop at most one turn of a session is inside; a message that finds a turn of its session
  inside or waiting does not overtake it; and while messages of a session wait and no turn of it is inside, the
  first that waits for the lock can enter.\<close>

theorem session_turns_exclusive:
  assumes "loop_reaches w"
  shows "(task_at i (TaskInside l) w \<longrightarrow> task_at j (TaskInside l') w \<longrightarrow> session_of w i = session_of w j \<longrightarrow> i = j) \<and>
    (task_at i TaskCreated w \<longrightarrow> task_at i (TaskInside l) (begin_task i w) \<longrightarrow> j < length (lo_tasks w) \<longrightarrow>
       session_of w j = session_of w i \<longrightarrow> \<not> waiting_or_inside (stage w j)) \<and>
    (task_at i (TaskWaiting l) w \<longrightarrow>
       (\<exists>j. task_at j (TaskInside l) w \<and> session_of w j = session_of w i) \<or>
       (\<exists>j. next_in_line w l = Some j \<and> session_of w j = session_of w i \<and> loop_step w (enter_task j l w)))"
proof (intro conjI impI)
  note ok = reaches_ok [OF assms]
  show "i = j" if "task_at i (TaskInside l) w" "task_at j (TaskInside l') w" "session_of w i = session_of w j"
  proof -
    have t: "i < length (lo_tasks w)" "stage w i = TaskInside l" "j < length (lo_tasks w)" "stage w j = TaskInside l'"
      using that by (simp_all add: task_at_def stage_def)
    have "l = l'" using known_lock [OF ok t(1), of l] known_lock [OF ok t(3), of l'] t that(3) by simp
    then show ?thesis using inside_unique [OF ok t(1,3,2)] t(4) by simp
  qed
  show "\<not> waiting_or_inside (stage w j)" if t: "task_at i TaskCreated w" "task_at i (TaskInside l) (begin_task i w)"
      "j < length (lo_tasks w)" "session_of w j = session_of w i"
  proof -
    obtain x w1 where x: "lock_of (fst (lo_tasks w ! i)) w = (x, w1)" by fastforce
    note w1 = lock_of_ok [OF ok x]
    have free: "x \<notin> lo_held w1" "next_in_line w1 x = None"
      using t(1,2) w1 by (auto simp: begin_task_def x task_at_def set_stage_def split: if_splits)
    have same: "stage w1 = stage w" "session_of w1 = session_of w" using w1 by (auto simp: stage_def session_of_def)
    have lock: "y = x" if "lock_in (stage w j) = Some y" for y
      using known_lock [of w1 j y] w1 t(3,4) that by (simp add: same session_of_def [of w])
    have "stage w j \<noteq> TaskInside x" using inside_held [of w1 j x] free(1) w1 t(3) by (auto simp: same)
    moreover have "stage w j \<noteq> TaskWaiting x"
    proof
      assume s: "stage w j = TaskWaiting x"
      then have "j \<in> set (lo_queue w1)" using in_queue [of w1 j x] w1 t(3) by (simp add: same)
      then show False using free(2) s t(3) w1 by (auto simp: next_in_line_def find_None_iff waits_for_def stage_def)
    qed
    ultimately show ?thesis using lock by (auto simp: waiting_or_inside_def)
  qed
  show "(\<exists>j. task_at j (TaskInside l) w \<and> session_of w j = session_of w i) \<or>
       (\<exists>j. next_in_line w l = Some j \<and> session_of w j = session_of w i \<and> loop_step w (enter_task j l w))"
    if t: "task_at i (TaskWaiting l) w"
  proof -
    have i: "i < length (lo_tasks w)" "stage w i = TaskWaiting l" using t by (auto simp: task_at_def stage_def)
    have li: "map_of (lo_locks w) (session_of w i) = Some l" using known_lock [OF ok i(1)] i(2) by simp
    have same: "session_of w j = session_of w i" if "j < length (lo_tasks w)" "lock_in (stage w j) = Some l" for j
    proof -
      have "map_of (lo_locks w) (session_of w j) = Some l" using known_lock [OF ok that] .
      then have "(session_of w j, l) \<in> set (lo_locks w)" "(session_of w i, l) \<in> set (lo_locks w)"
        using li by (auto dest: map_of_SomeD)
      moreover have "inj_on snd (set (lo_locks w))" using ok by (auto simp: loop_ok_def locks_distinct_def distinct_map)
      ultimately show ?thesis by (metis inj_onD prod.inject snd_conv)
    qed
    show ?thesis
    proof (cases "l \<in> lo_held w")
      case True
      then obtain j where "j < length (lo_tasks w)" "stage w j = TaskInside l" using held_inside_someone [OF ok] by blast
      then show ?thesis using same [of j] by (auto simp: task_at_def stage_def)
    next
      case False
      have "i \<in> set (lo_queue w)" using in_queue [OF ok i] .
      then have "next_in_line w l \<noteq> None" using i by (auto simp: next_in_line_def find_None_iff waits_for_def stage_def)
      then obtain j where j: "next_in_line w l = Some j" by blast
      then show ?thesis using same [of j] next_in_lineD [OF j] task_enters [OF j False] by auto
    qed
  qed
qed

section \<open>Interrupted turns\<close>

text \<open>Saving completes the messages but changes nothing else in them.\<close>

definition same_message :: "pydict \<Rightarrow> pydict \<Rightarrow> bool" where
  "same_message m m' \<longleftrightarrow> (\<forall>k. k \<noteq> lit ''id'' \<longrightarrow> k \<noteq> lit ''seq'' \<longrightarrow> map_of m' k = map_of m k)"

lemma same_refl: "list_all2 same_message ms ms"
  by (simp add: list_all2_same same_message_def)

lemma number_same: "number_messages key i ms = Inr ms' \<Longrightarrow> list_all2 same_message ms ms'"
proof (induction key i ms arbitrary: ms' rule: number_messages.induct)
  case (2 key i m ms)
  then show ?case by (auto simp: same_message_def set_missing_get split: option.splits sum.splits simp del: nat_text.simps)
qed simp

lemma normalize_same: "normalize_messages s = (r, s') \<Longrightarrow> list_all2 same_message (sn_messages s) (sn_messages s')"
  using same_refl
  by (auto simp: normalize_messages_def same_message_def [of _ "set_missing _ _ _"] set_missing_get
      dest: number_same split: sum.splits list.splits)

lemma save_same:
  "save_sqlite_append_only repr s db = (r, s') \<Longrightarrow> list_all2 same_message (sn_messages s) (sn_messages s')"
  by (auto simp: save_sqlite_append_only_def Let_def dest: normalize_same split: prod.splits sum.splits if_splits)

lemma committed_same:
  assumes "list_all2 same_message ms ms'" "already_committed t ms"
  shows "already_committed t ms'"
proof -
  have n: "length ms' = length ms" using assms(1) by (simp add: list_all2_lengthD)
  have two: "2 \<le> length ms" using assms(2) by (simp add: already_committed_def)
  have u: "same_message (ms ! (length ms - 2)) (ms' ! (length ms - 2))" by (rule list_all2_nthD [OF assms(1)]) (use two in simp)
  have l: "same_message (last ms) (last ms')"
  proof -
    have "ms \<noteq> []" "ms' \<noteq> []" using two n by auto
    then show ?thesis using list_all2_nthD [OF assms(1), of "length ms - 1"] n by (simp add: last_conv_nth)
  qed
  show ?thesis using assms(2) u l n by (simp add: already_committed_def Let_def same_message_def has_role_def)
qed

lemma interrupted_added:
  assumes "add_interrupted m snap fresh clk s = (Inr (), s')"
  shows "spoken s' = spoken s @ [said ''user'' (ib_content m), said ''assistant'' interrupted_text] \<and> sn_key s' = sn_key s \<and>
    already_committed (ib_timestamp m) (sn_messages s')"
proof -
  obtain u s1 a where u: "SessionHistory.add_message (lit ''user'') (ib_content m) (ib_media m)
      [(lit ''inbound_timestamp'', JStr (ib_timestamp m))] (fresh 0) (clk 0) (clk 1) s = Inr (u, s1)"
    and a: "SessionHistory.add_message (lit ''assistant'') interrupted_text [] (interrupted_kwargs snap)
      (fresh 1) (clk 2) (clk 3) s1 = Inr (a, s')"
    using assms by (auto simp: add_interrupted_def split: sum.splits)
  have k: "lit ''role'' \<notin> fst ` set (interrupted_kwargs snap)" "lit ''content'' \<notin> fst ` set (interrupted_kwargs snap)"
    by (auto simp: interrupted_kwargs_def split: option.splits)
  have t: "get u ''inbound_timestamp'' = Some (JStr (ib_timestamp m))" "has_role ''user'' u"
    using add_message_get [OF u, of "lit ''inbound_timestamp''"] add_message_get [OF u, of "lit ''role''"] by (simp_all add: has_role_def)
  have r: "has_role ''assistant'' a"
    using add_message_get [OF a, of "lit ''role''"] k(1) by (simp add: has_role_def map_of_eq_None_iff option.case_eq_if)
  show ?thesis
    using add_message_spoken [OF u] add_message_spoken [OF a k] add_messageD [OF u] add_messageD [OF a] t r
    by (simp add: said_def already_committed_def nth_append)
qed

text \<open>The loop records a turn that was cancelled exactly once: when the turn had been committed before, nothing is said
  that was not said already; otherwise the message of the user and a mark of the assistant are appended; and in both
  cases recording the same message again would add nothing.\<close>

theorem interrupted_turn_recorded:
  assumes "local_ok key g" "\<not> omits_user m" "get_or_create key now later g = Inr (s, g0)"
    and "persist_interrupted (local_port repr mirror now later) key m snap fresh clk g = (Inr (), g')"
  shows "\<exists>s'. get_or_create key now later g' = Inr (s', g') \<and> already_committed (ib_timestamp m) (sn_messages s') \<and>
    spoken s' = spoken s @ (if already_committed (ib_timestamp m) (sn_messages s) then []
      else [said ''user'' (ib_content m), said ''assistant'' interrupted_text])"
proof -
  let ?port = "local_port repr mirror now later"
  have o: "po_open ?port key g = (Inr s, g0)" using assms(3) by (simp add: local_port_def)
  note ok = local_store.open_ok [OF assms(1) o]
  obtain s1 where a: "(if already_committed (ib_timestamp m) (sn_messages s) then (Inr (), s) else add_interrupted m snap fresh clk s) = (Inr (), s1)"
    and sv: "(case po_save ?port s1 g0 of (r, s2, g2) \<Rightarrow> (r, po_keep ?port s2 g2)) = (Inr (), g')"
    using assms(2,4) by (auto simp: persist_interrupted_def o split: prod.splits sum.splits)
  obtain s2 g2 where p: "po_save ?port s1 g0 = (Inr (), s2, g2)" "g' = po_keep ?port s2 g2"
    using sv by (auto split: prod.splits)
  have s1: "already_committed (ib_timestamp m) (sn_messages s1)" "sn_key s1 = key"
    "spoken s1 = spoken s @ (if already_committed (ib_timestamp m) (sn_messages s) then []
      else [said ''user'' (ib_content m), said ''assistant'' interrupted_text])"
    using a ok interrupted_added [of m snap fresh clk s s1] by (auto split: if_splits)
  note sv2 = local_store.save_ok [OF conjunct1 [OF ok] s1(2) p(1)]
  have "list_all2 same_message (sn_messages s1) (sn_messages s2)"
    using p(1) by (auto simp: local_port_def save_mirrored_def dest: save_same split: prod.splits sum.splits)
  from committed_same [OF this s1(1)] have c: "already_committed (ib_timestamp m) (sn_messages s2)" .
  have "po_open ?port key g' = (Inr s2, g')"
    using local_store.keep_ok [of key g2 s2 repr mirror now later] sv2 p(2) by simp
  then have "get_or_create key now later g' = Inr (s2, g')" by (auto simp: local_port_def split: sum.splits prod.splits)
  then show ?thesis using c sv2 s1(3) by auto
qed

section \<open>Samples\<close>

lemma session_turns_exclusive_witness:
  "\<not> task_at 1 (TaskInside 0) (begin_task 1 (begin_task 0 (empty_loop\<lparr>lo_tasks := [([107], TaskCreated), ([107], TaskCreated)]\<rparr>)))"
proof -
  let ?w = "begin_task 0 (empty_loop\<lparr>lo_tasks := [([107], TaskCreated), ([107], TaskCreated)]\<rparr>)"
  have two: "loop_reaches (empty_loop\<lparr>lo_tasks := [([107], TaskCreated), ([107], TaskCreated)]\<rparr>)"
    using loop_next [OF loop_next [OF loop_start item_comes [of _ "[107]"]] item_comes [of _ "[107]"]] by (simp add: empty_loop_def)
  have w: "loop_reaches ?w"
    by (rule loop_next [OF two task_begins]) (simp add: task_at_def)
  have t: "lo_tasks ?w = [([107], TaskInside 0), ([107], TaskCreated)]"
    by (simp add: begin_task_def lock_of_def empty_loop_def next_in_line_def set_stage_def)
  have "task_at 1 TaskCreated ?w" "0 < length (lo_tasks ?w)" "session_of ?w 0 = session_of ?w 1" "waiting_or_inside (stage ?w 0)"
    by (simp_all add: t task_at_def session_of_def stage_def waiting_or_inside_def)
  then show ?thesis using session_turns_exclusive [OF w, of 1 0 0] by blast
qed

definition stop_message :: inbound where
  "stop_message = \<lparr>ib_channel = [99], ib_sender = [115], ib_chat_id = [49], ib_content = [104], ib_timestamp = [116],
     ib_media = [], ib_metadata = []\<rparr>"

definition stop_manager :: session_manager where
  "stop_manager = \<lparr>sg_db = empty_db, sg_cache = []\<rparr>"

definition stop_messages :: "pydict list" where
  "stop_messages =
     [[(lit ''id'', JStr [97]), (lit ''seq'', JInt 0), (lit ''role'', JStr (lit ''user'')), (lit ''content'', JStr [104]),
       (lit ''timestamp'', JStr []), (lit ''inbound_timestamp'', JStr [116])],
      [(lit ''id'', JStr [98]), (lit ''seq'', JInt 1), (lit ''role'', JStr (lit ''assistant'')), (lit ''content'', JStr interrupted_text),
       (lit ''timestamp'', JStr []), (lit ''tools_used'', JArr []), (lit ''tool_chain'', JArr []), (lit ''reasoning_content'', JStr []),
       (lit ''partial_reply'', JStr []), (lit ''interrupted'', JBool True)]]"

definition stop_session :: session where
  "stop_session = \<lparr>sn_key = [107], sn_messages = stop_messages, sn_created_at = [], sn_updated_at = [], sn_metadata = [],
     sn_last_consolidated = 0, sn_reserved = None\<rparr>"

lemma stop_adds:
  "add_interrupted stop_message None (\<lambda>i. [97 + i]) (\<lambda>i. [])
     \<lparr>sn_key = [107], sn_messages = [], sn_created_at = [], sn_updated_at = [], sn_metadata = [], sn_last_consolidated = 0,
      sn_reserved = None\<rparr> = (Inr (), stop_session)"
  by (simp add: add_interrupted_def stop_message_def SessionHistory.add_message_def next_seq_def
      get_default_def dict_update_def interrupted_kwargs_def stop_session_def stop_messages_def Let_def)

lemma stop_normal: "normalize_messages stop_session = (Inr (), stop_session)"
  by (simp add: normalize_messages_def stop_session_def stop_messages_def sha256_text_def utf8_char_def set_missing_def
      nat_text.simps [of 0] nat_text.simps [of "Suc 0"] del: nat_text.simps)

lemma stop_rows:
  "\<exists>u a. res_map (message_row (\<lambda>_. []) [107]) stop_messages = Inr [u, a] \<and> bind_all (row_texts u) (mw_seq u) = Inr () \<and>
     bind_all (row_texts a) (mw_seq a) = Inr () \<and> \<not> message_row_clash u a \<and> \<not> message_row_clash a u"
  by (simp add: stop_messages_def message_row_def item_def get_text_def get_or_def row_keys_def sorted_dict_def bind_all_def row_texts_def
      text_ok_def int_ok_def utf8_char_def interrupted_text_def message_row_clash_def lit_def json_string_def json_char_def)

lemma stop_saves: "\<exists>db. save_sqlite_append_only (\<lambda>_. []) stop_session empty_db = (Inr db, stop_session)"
proof -
  obtain u a where r: "res_map (message_row (\<lambda>_. []) [107]) stop_messages = Inr [u, a]" "bind_all (row_texts u) (mw_seq u) = Inr ()"
     "bind_all (row_texts a) (mw_seq a) = Inr ()" "\<not> message_row_clash u a" "\<not> message_row_clash a u" using stop_rows by blast
  have b: "bind_all (session_texts stop_session) 0 = Inr ()"
    by (simp add: bind_all_def session_texts_def stop_session_def text_ok_def int_ok_def utf8_char_def sorted_dict_def lit_def)
  have k: "sn_key stop_session = [107]" "sn_messages stop_session = stop_messages" "sn_last_consolidated stop_session = 0"
    by (simp_all add: stop_session_def)
  show ?thesis
    by (simp add: save_sqlite_append_only_def stop_normal k b r load_message_rows_def rows_of_def empty_db_def Let_def)
qed

lemma stop_recorded:
  "\<exists>g'. persist_interrupted (local_port (\<lambda>_. []) (\<lambda>_. None) [] []) [107] stop_message None (\<lambda>i. [97 + i]) (\<lambda>i. []) stop_manager = (Inr (), g')"
proof -
  obtain db where "save_sqlite_append_only (\<lambda>_. []) stop_session empty_db = (Inr db, stop_session)" using stop_saves by blast
  then show ?thesis using stop_adds
    by (simp add: persist_interrupted_def omits_user_def stop_message_def get_default_def local_port_def get_or_create_def stop_manager_def
        empty_db_def text_ok_def utf8_char_def already_committed_def save_mirrored_def cache_put_def Let_def)
qed

lemma interrupted_turn_recorded_witness:
  "\<exists>g' s'. get_or_create [107] [] [] g' = Inr (s', g') \<and> spoken s' = [said ''user'' [104], said ''assistant'' interrupted_text]"
proof -
  obtain g' where p: "persist_interrupted (local_port (\<lambda>_. []) (\<lambda>_. None) [] []) [107] stop_message None (\<lambda>i. [97 + i]) (\<lambda>i. []) stop_manager =
      (Inr (), g')" using stop_recorded by blast
  obtain s g0 where o: "get_or_create [107] [] [] stop_manager = Inr (s, g0)" and s: "sn_messages s = []"
    by (simp add: get_or_create_def stop_manager_def empty_db_def text_ok_def utf8_char_def Let_def)
  have "local_ok [107] stop_manager" "\<not> omits_user stop_message"
    by (simp_all add: local_ok_def stop_manager_def omits_user_def stop_message_def get_default_def)
  from interrupted_turn_recorded [OF this o p] obtain s' where "get_or_create [107] [] [] g' = Inr (s', g')"
      "spoken s' = spoken s @ (if already_committed (ib_timestamp stop_message) (sn_messages s) then []
        else [said ''user'' (ib_content stop_message), said ''assistant'' interrupted_text])" by blast
  moreover have "spoken s = []" "\<not> already_committed (ib_timestamp stop_message) (sn_messages s)" "ib_content stop_message = [104]"
    using s by (simp_all add: spoken_def already_committed_def stop_message_def)
  ultimately show ?thesis by auto
qed

end
