(* ===== verification/Spec2Isabelle.thy ===== *)
theory Spec2Isabelle
  imports KContracts RunTheorems AutomationTheorems ScheduleTheorems CloudExtensions CloudSubagents
    PluginTheorems ControlTheorems RuntimeTheorems ToolTheorems PhaseTheorems CommitTheorems LaneTheorems WorkerTheorems PipelineTheorems LoopTheorems
begin

text \<open>
  A verification library for the kirakira agent service: a conversational agent with tools, plugins and memory that runs
  either for one user in one process, or as a multi-tenant service whose work is stored in a database and done by workers.
  The theories model the code under \<open>src/\<close> that keeps state other code relies on: what is stored, who may change it, in
  which order, and what is left of it after errors, retries, cancellations and restarts.

  \<^bold>\<open>How the program is put together\<close>

  A message of a user becomes a \<^emph>\<open>Run\<close> of a conversation (\<open>src/cloud/store.py\<close>), by the HTTP interface or by a channel.  A
  worker (\<open>src/cloud/worker.py\<close>) claims the oldest Run under a lease, reads the transcript of its conversation and hands both
  to the adapter of \<open>src/cloud/executor.py\<close>, which runs one turn of the pipeline (\<open>PassiveTurnPipeline\<close> of
  \<open>src/agent/core/runtime.py\<close>).  The pipeline runs the modules of its phases, asks the reasoner (\<open>DefaultReasoner\<close>) and commits
  the reply to the session; the reasoner tries one prompt after the other and loops over requests of the model and calls of
  tools, which a checkpoint table fences when the Run is retried.  The worker then completes the Run in one transaction:
  message, deliveries, events.  Schedules, automations, tenant plugins and subagent jobs are further tables with leases next
  to the Run queue.  In the single-user program the same pipeline is driven by \<open>AgentLoop\<close> over the message bus, or by the
  conversation runtime of \<open>src/agent/control/runtime.py\<close>, whose turns have handles, event streams, interrupts and a restart
  hand-over to a supervisor process.

  \<^bold>\<open>Foundations\<close>

  \<^item> \<open>KPrelude\<close>: texts (\<open>pystr\<close>, lists of code points), JSON values, instants and durations in microseconds, exceptions as
    values of \<open>py_error + 'a\<close>, tables as lists of rows with \<open>row_by\<close> and \<open>put_row\<close>.
  \<^item> \<open>PyText\<close>, \<open>PyJson\<close>, \<open>PyDyn\<close>, \<open>PyUuid\<close>, \<open>PySha256\<close>: the parts of Python's \<open>str\<close>, \<open>json\<close>, dynamically typed operations,
    \<open>uuid\<close> and \<open>hashlib\<close> the code uses; the hash is computed on 32-bit words.
  \<^item> \<open>KContracts\<close>: the locales \<open>leased_table\<close> (who holds a work item and may report on it) and \<open>status_machine\<close> (a
    compare-and-set status that climbs a rank).  They are interpreted on the Run queue (\<open>rl\<close>), deliveries (\<open>dq\<close>), scheduled
    jobs (\<open>sq\<close>), automations (\<open>aq\<close>), plugin tasks (\<open>pq\<close>), subagent jobs (\<open>sa\<close>), turns (\<open>tm\<close>) and reload transactions
    (\<open>ph\<close>).  Two more locales are the admission contract of the restart coordinator in \<open>RestartProofs\<close>, interpreted on the
    conversation runtime (\<open>ra\<close>), and \<open>transcript_store\<close> in \<open>TurnStore\<close>, interpreted on the session manager and on the bound
    transcript of a Run (\<open>local_store\<close>, \<open>bound_store\<close>).

  \<^bold>\<open>The cloud store and its workers\<close>

  \<^item> \<open>CloudSchema\<close>, \<open>CloudDb\<close>: the rows of \<open>src/cloud/models.py\<close> as records, the database as a record of tables, and the steps
    several methods share (posting a message, logging an event, queueing deliveries).  A method of \<open>CloudStore\<close> is a function
    from the database to a result and the database it commits; its clock readings, new identifiers, the rows other
    transactions hold and the snapshot of a racing read are arguments.
  \<^item> \<open>CloudRuns\<close>, \<open>CloudAdmission\<close>, \<open>CloudChannels\<close>: the Run queue, conversations, files, submissions, channel events, pairings and
    deliveries.  \<open>StoreHistory\<close> closes them into histories: the relation \<open>store_step\<close> has one case per method on Runs and
    submissions and one for every other transaction that keeps messages, Runs and conversations.
  \<^item> \<open>RunTheorems\<close>: what a claim, a submission, a completion write, exactly; that a lost lease is refused, that reports never
    exceed claims, that a keyed submission is admitted once in all later histories; and a collision of channel keys.
  \<^item> \<open>CloudTranscript\<close>, \<open>CloudWorker\<close>, \<open>WorkerTheorems\<close>: the transcript of a Run with the adapter around the pipeline, and
    \<open>run_once\<close> of the worker with everything others commit between its transactions (\<open>we_others\<close>): a claimed Run is settled,
    what a turn leaves is what the next one starts from, and what a lost lease does.
  \<^item> \<open>CloudSchedule\<close>, \<open>ScheduleWorker\<close>, \<open>ScheduleTheorems\<close>: the job table, the requests that create a job, and a turn of the
    schedule worker; it returns, its table keeps its invariant, a fire is delivered once.
  \<^item> \<open>CloudAutomation\<close>, \<open>AutomationTheorems\<close>, \<open>CloudExtensions\<close>, \<open>CloudSubagents\<close>: automations with their inbox, the extensions of a
    tenant, and durable subagent jobs.  \<open>CloudSample\<close> is the small database of the witnesses.
  \<^item> \<open>ToolHooks\<close>, \<open>ToolCheckpoints\<close>, \<open>ToolTheorems\<close>: the tool executor with its hooks and the checkpoint rows of
    \<open>src/cloud/tool_checkpoints.py\<close>; a tool slot of a Run is invoked at most once.

  \<^bold>\<open>A turn of the agent\<close>

  \<^item> \<open>SessionHistory\<close>, \<open>SessionProofs\<close>, \<open>SessionStore\<close>, \<open>SessionStoreProofs\<close>, \<open>SessionTheorems\<close>: the messages of a session, the history
    that is replayed to the model, and the SQLite tables behind \<open>SessionManager\<close>; histories are conversations of the chat
    protocol, stored messages stay, a session loads back.
  \<^item> \<open>QueryCompaction\<close>, \<open>CompactionProofs\<close>, \<open>ReactLoop\<close>, \<open>ReactProofs\<close>, \<open>ReactTheorems\<close>: the compaction of tool steps and the loop of
    \<open>DefaultReasoner.run\<close>, observed by a log of its requests and calls.
  \<^item> \<open>TurnRetry\<close>, \<open>TurnTheorems\<close>: \<open>run_turn\<close> with its plans; the relation \<open>overflowed\<close> and the predicate \<open>last_attempt\<close> say which
    attempts fail over to the next and how the last one settles the turn.  \<open>ModelUsage\<close>: the accounting of requests.
  \<^item> \<open>SessionCommit\<close>, \<open>CommitTheorems\<close>: what a turn stores, and that later turns can replay it.
  \<^item> \<open>TurnPipeline\<close>, \<open>TurnRun\<close>, \<open>TurnRunProofs\<close>, \<open>TurnStore\<close>, \<open>TurnStores\<close>, \<open>PipelineTheorems\<close>: the pipeline from the message that
    comes in to the event that ends the turn, over either transcript store.  \<open>ModulePhases\<close>, \<open>PhaseTheorems\<close>: the order of
    the modules of a phase.
  \<^item> \<open>AgentLoop\<close>, \<open>LoopTheorems\<close>: the tasks and session locks around the pipeline and the record of an interrupted turn.
    \<open>ChatLane\<close>, \<open>LaneProofs\<close>, \<open>LaneTheorems\<close>: the lane that orders the sends of a chat.

  \<^bold>\<open>Plugins and the control plane\<close>

  \<^item> \<open>PluginGenerations\<close>, \<open>ReloadJournal\<close>, \<open>PluginTheorems\<close>: generations with leases, the journal of reload transactions, the
    publication transaction and the recovery at start-up of \<open>src/agent/plugins/manager.py\<close>.  An operation that raises returns
    the state with what was durable by then.
  \<^item> \<open>ControlTurns\<close>, \<open>ControlReads\<close>, \<open>ControlTheorems\<close>: the records of turns and their compare-and-set store, over all sequences of
    its operations.
  \<^item> \<open>Restart\<close>, \<open>RestartProofs\<close>: the coordinator, the commit pipe and the decision of the supervisor.
  \<^item> \<open>ControlRuntime\<close>, \<open>RuntimeProofs\<close>, \<open>PlaneProofs\<close>, \<open>PlaneSteps\<close>, \<open>StrandedTurns\<close>, \<open>RuntimeTheorems\<close>: the conversation runtime.  Every
    coroutine is cut at its awaits; \<open>plane_step\<close> interleaves the pieces of all turns, subscribers, interrupts, a shutdown
    and the coordinator; \<open>reachable_plane\<close> are the states from start-up on, and \<open>StrandedTurns\<close> says what such a step leaves
    alone.

  \<^bold>\<open>Loops\<close>

  Loops whose end is a theorem are \<open>partial_function\<close>s, so that not returning is the value \<open>None\<close>: the catch-up of a job
  (\<open>advance\<close>; it ends because a repeating job has a positive step), the loop of the reasoner (\<open>react_loop\<close>; it ends with a
  positive budget of iterations), the search of the truncation (\<open>omitted_chars\<close>) and the worker waiting for its turn
  (\<open>await_execution\<close>; it ends when the execution does).  No fuel is used.  The other loops are total functions: structural
  recursions, or \<open>function\<close>s whose measure is the length of a list (\<open>skip_from\<close>, \<open>mentions\<close>, \<open>remove_sub\<close>, the two loops over
  modules).

  \<^bold>\<open>Parameters\<close>

  Clock readings, new identifiers, \<open>repr\<close>, \<open>isoformat\<close> and error texts; the cron engine and the time zones; the model, the tools,
  the context builder and the retrieval; the handlers of events and the modules of plugins, as functions that may raise and
  change the state of the outside; the maintenance of memory, of which the properties on what a turn leaves in its store assume
  that it does not alter the messages of the session; the executor of the conversation runtime; the sources of plugins on
  disk and the gates of their generations; what other processes commit between two transactions.  Hypotheses about them are premises of the theorems, and
  each such theorem has a witness at concrete values.

  \<^bold>\<open>Limits of the model\<close>

  \<^item> A transaction is one step.  Races inside a transaction are modelled where the code has them: snapshots that miss a commit,
    rows locked by others, unique indexes that refuse the loser.
  \<^item> JSON has no floating point numbers; the code computes with none of them in what is modelled, apart from ratios that are
    kept as parameters.
  \<^item> The event \<open>ContextPrepared\<close> is part of the rendering of an attempt; a write to the commit pipe is whole or torn.
  \<^item> Accounts, authentication, rate limits and the deletion of users and conversations are not modelled, and properties of
    histories are about histories without such a deletion.
  \<^item> Not modelled, because they are prompts, floating point, files, processes, sockets or screens: the memory engines and their
    plugins, the proactive and drift plugins, the built-in tools and the registry of tools, the loading of plugin modules,
    MCP, the control protocol, the HTTP interface and the channel gateways, the providers of models, the bootstrap, the user
    interfaces, the sandbox service, migrations and evaluation.
\<close>

end
